(* ===== verification/Fix_Core.thy ===== *)
theory Fix_Core
  imports Prelude
begin

text \<open>
  The data the FIX crates share (\<^verbatim>\<open>ironfix-core\<close>): the decode errors of
  \<^verbatim>\<open>error.rs\<close>, the message types of \<^verbatim>\<open>message.rs\<close> with the wire codes and
  administrative flags their macro table gives them, field references and tag classes of
  \<^verbatim>\<open>field.rs\<close>, and the range-checked \<^verbatim>\<open>RawMessage\<close>.
  Human-readable text an error carries is kept where the code stores a literal; a
  \<^verbatim>\<open>Utf8Error\<close> has no payload here.
\<close>

subsection \<open>Errors\<close>

datatype msg_type_error =
    MsgTypeEmpty
  | MsgTypeTooLong usize usize
  | MsgTypeIllegalByte u8 usize

datatype decode_error =
    Incomplete
  | InvalidBeginString
  | MissingBodyLength
  | InvalidBodyLength
  | MissingMsgType
  | ChecksumMismatch u8 u8
  | InvalidTag bytes
  | MissingRequiredField u32
  | InvalidFieldValue u32 string
  | InvalidUtf8
  | UnterminatedField u32
  | InvalidDataLength u32 usize usize
  | RangeOutOfBounds usize usize usize
  | InvalidMsgType msg_type_error
  | TooManyFields usize

subsection \<open>Message types\<close>

datatype (plugins only: code) msg_type =
    Heartbeat | TestRequest | ResendRequest | Reject | SequenceReset | Logout |
    IndicationOfInterest | Advertisement | ExecutionReport | OrderCancelReject | Logon | News |
    Email | NewOrderSingle | NewOrderList | OrderCancelRequest | OrderCancelReplaceRequest |
    OrderStatusRequest | AllocationInstruction | ListCancelRequest | ListExecute |
    ListStatusRequest | ListStatus | AllocationInstructionAck | DontKnowTrade | QuoteRequest |
    Quote | SettlementInstructions | MarketDataRequest | MarketDataSnapshotFullRefresh |
    MarketDataIncrementalRefresh | MarketDataRequestReject | QuoteCancel | QuoteStatusRequest |
    MassQuoteAcknowledgement | SecurityDefinitionRequest | SecurityDefinition |
    SecurityStatusRequest | SecurityStatus | TradingSessionStatusRequest |
    TradingSessionStatus | MassQuote | BusinessMessageReject | BidRequest | BidResponse |
    ListStrikePrice | XmlMessage | RegistrationInstructions |
    RegistrationInstructionsResponse | OrderMassCancelRequest | OrderMassCancelReport |
    NewOrderCross | CrossOrderCancelReplaceRequest | CrossOrderCancelRequest |
    SecurityTypeRequest | SecurityTypes | SecurityListRequest | SecurityList |
    DerivativeSecurityListRequest | Custom bytes

text \<open>
  One row per named variant, in the order of \<^verbatim>\<open>define_msg_types!\<close>: wire code,
  variant, and whether it is administrative.
\<close>

definition msg_type_table :: "(string \<times> msg_type \<times> bool) list" where
  "msg_type_table =
    [
     (''0'', Heartbeat, True), (''1'', TestRequest, True), (''2'', ResendRequest, True),
     (''3'', Reject, True), (''4'', SequenceReset, True), (''5'', Logout, True),
     (''6'', IndicationOfInterest, False), (''7'', Advertisement, False),
     (''8'', ExecutionReport, False), (''9'', OrderCancelReject, False), (''A'', Logon, True),
     (''B'', News, False), (''C'', Email, False), (''D'', NewOrderSingle, False),
     (''E'', NewOrderList, False), (''F'', OrderCancelRequest, False),
     (''G'', OrderCancelReplaceRequest, False), (''H'', OrderStatusRequest, False),
     (''J'', AllocationInstruction, False), (''K'', ListCancelRequest, False),
     (''L'', ListExecute, False), (''M'', ListStatusRequest, False),
     (''N'', ListStatus, False), (''P'', AllocationInstructionAck, False),
     (''Q'', DontKnowTrade, False), (''R'', QuoteRequest, False), (''S'', Quote, False),
     (''T'', SettlementInstructions, False), (''V'', MarketDataRequest, False),
     (''W'', MarketDataSnapshotFullRefresh, False),
     (''X'', MarketDataIncrementalRefresh, False), (''Y'', MarketDataRequestReject, False),
     (''Z'', QuoteCancel, False), (''a'', QuoteStatusRequest, False),
     (''b'', MassQuoteAcknowledgement, False), (''c'', SecurityDefinitionRequest, False),
     (''d'', SecurityDefinition, False), (''e'', SecurityStatusRequest, False),
     (''f'', SecurityStatus, False), (''g'', TradingSessionStatusRequest, False),
     (''h'', TradingSessionStatus, False), (''i'', MassQuote, False),
     (''j'', BusinessMessageReject, False), (''k'', BidRequest, False),
     (''l'', BidResponse, False), (''m'', ListStrikePrice, False), (''n'', XmlMessage, True),
     (''o'', RegistrationInstructions, False),
     (''p'', RegistrationInstructionsResponse, False), (''q'', OrderMassCancelRequest, False),
     (''r'', OrderMassCancelReport, False), (''s'', NewOrderCross, False),
     (''t'', CrossOrderCancelReplaceRequest, False), (''u'', CrossOrderCancelRequest, False),
     (''v'', SecurityTypeRequest, False), (''w'', SecurityTypes, False),
     (''x'', SecurityListRequest, False), (''y'', SecurityList, False),
     (''z'', DerivativeSecurityListRequest, False)]"

definition MSG_TYPE_MAX_LEN :: usize where
  "MSG_TYPE_MAX_LEN = 8"

fun row_of_variant :: "(string \<times> msg_type \<times> bool) list \<Rightarrow> msg_type \<Rightarrow> (bytes \<times> bool) option" where
  "row_of_variant [] t = None"
| "row_of_variant ((c, v, a) # rows) t =
     (if v = t then Some (bytes_of c, a) else row_of_variant rows t)"

fun row_of_code :: "(string \<times> msg_type \<times> bool) list \<Rightarrow> bytes \<Rightarrow> (msg_type \<times> bool) option" where
  "row_of_code [] code = None"
| "row_of_code ((c, v, a) # rows) code =
     (if bytes_of c = code then Some (v, a) else row_of_code rows code)"

definition msg_type_as_str :: "msg_type \<Rightarrow> bytes" where
  "msg_type_as_str t =
    (case t of Custom code \<Rightarrow> code
     | _ \<Rightarrow> (case row_of_variant msg_type_table t of Some (c, _) \<Rightarrow> c | None \<Rightarrow> []))"

text \<open>The scan for a byte outside printable ASCII, with its position.\<close>

fun first_illegal :: "usize \<Rightarrow> bytes \<Rightarrow> (u8 \<times> usize) option" where
  "first_illegal i [] = None"
| "first_illegal i (b # bs) =
     (if \<not> (32 \<le> b \<and> b \<le> 126) then Some (b, i) else first_illegal (Suc i) bs)"

definition custom_msg_type_new :: "bytes \<Rightarrow> msg_type_error + bytes" where
  "custom_msg_type_new code =
    (if code = [] then Inl MsgTypeEmpty
     else if length code > MSG_TYPE_MAX_LEN then Inl (MsgTypeTooLong (length code) MSG_TYPE_MAX_LEN)
     else (case first_illegal 0 code of
             Some (byte, position) \<Rightarrow> Inl (MsgTypeIllegalByte byte position)
           | None \<Rightarrow> Inr code))"

definition msg_type_new :: "bytes \<Rightarrow> msg_type_error + msg_type" where
  "msg_type_new code =
    (case row_of_code msg_type_table code of
       Some (v, _) \<Rightarrow> Inr v
     | None \<Rightarrow> bindR (custom_msg_type_new code) (\<lambda>c. Inr (Custom c)))"

definition msg_type_is_admin :: "msg_type \<Rightarrow> bool" where
  "msg_type_is_admin t =
    (case t of
       Custom code \<Rightarrow> (case row_of_code msg_type_table code of Some (_, a) \<Rightarrow> a | None \<Rightarrow> False)
     | _ \<Rightarrow> (case row_of_variant msg_type_table t of Some (_, a) \<Rightarrow> a | None \<Rightarrow> False))"

definition msg_type_is_app :: "msg_type \<Rightarrow> bool" where
  "msg_type_is_app t = (\<not> msg_type_is_admin t)"

text \<open>\<^verbatim>\<open>PartialEq\<close> for \<^verbatim>\<open>MsgType\<close> compares the wire form, not the variant.\<close>

definition msg_type_eq :: "msg_type \<Rightarrow> msg_type \<Rightarrow> bool" where
  "msg_type_eq a b \<longleftrightarrow> msg_type_as_str a = msg_type_as_str b"

lemma first_illegal_None:
  "first_illegal i bs = None \<longleftrightarrow> (\<forall>b\<in>set bs. 32 \<le> b \<and> b \<le> 126)"
  by (induction bs arbitrary: i) auto

lemma first_illegal_Some:
  "first_illegal i bs = Some (b, p) \<Longrightarrow>
     i \<le> p \<and> p - i < length bs \<and> bs ! (p - i) = b \<and> \<not> (32 \<le> b \<and> b \<le> 126)"
proof (induction bs arbitrary: i)
  case (Cons c bs)
  then show ?case
    by (cases "32 \<le> c \<and> c \<le> 126")
       (force simp: nth_Cons' Suc_diff_Suc dest: Cons.IH)+
qed simp

lemma row_of_code_sound:
  "row_of_code rows code = Some (v, a) \<Longrightarrow> \<exists>c. bytes_of c = code \<and> (c, v, a) \<in> set rows"
  by (induction rows code rule: row_of_code.induct) (auto split: if_splits)

lemma msg_type_rows_agree:
  "(c, v, a) \<in> set msg_type_table \<Longrightarrow>
     msg_type_as_str v = bytes_of c \<and> msg_type_is_admin v = a
     \<and> row_of_code msg_type_table (bytes_of c) = Some (v, a)"
proof -
  have "list_all (\<lambda>(c, v, a). msg_type_as_str v = bytes_of c \<and> msg_type_is_admin v = a
     \<and> row_of_code msg_type_table (bytes_of c) = Some (v, a)) msg_type_table"
    by code_simp
  then show "(c, v, a) \<in> set msg_type_table \<Longrightarrow> ?thesis"
    by (auto simp: list_all_iff)
qed

lemma msg_type_table_printable:
  "(c, v, a) \<in> set msg_type_table \<Longrightarrow> \<exists>b. bytes_of c = [b] \<and> 32 \<le> b \<and> b \<le> 126"
proof -
  have "list_all (\<lambda>(c, v, a). length (bytes_of c) = 1 \<and> 32 \<le> hd (bytes_of c) \<and> hd (bytes_of c) \<le> 126)
          msg_type_table"
    by code_simp
  then show "(c, v, a) \<in> set msg_type_table \<Longrightarrow> ?thesis"
    by (force simp: list_all_iff length_Suc_conv)
qed

lemma msg_type_table_complete:
  "\<exists>c a. (c, t, a) \<in> set msg_type_table \<or> (\<exists>code. t = Custom code)"
  by (cases t) (simp_all add: msg_type_table_def, blast+)

lemma msg_type_new_as_str:
  assumes "msg_type_new code = Inr t"
  shows "msg_type_as_str t = code"
proof (cases "row_of_code msg_type_table code")
  case None
  with assms have "t = Custom code"
    by (auto simp: msg_type_new_def custom_msg_type_new_def result_simps split: option.splits if_splits)
  then show ?thesis by (simp add: msg_type_as_str_def)
next
  case (Some row)
  obtain v a where row: "row = (v, a)" by (cases row)
  with Some row_of_code_sound[of msg_type_table code v a] obtain c where
    "bytes_of c = code" "(c, v, a) \<in> set msg_type_table" by blast
  with msg_type_rows_agree[of c v a] assms Some row show ?thesis by (simp add: msg_type_new_def)
qed

lemma msg_type_new_Inr:
  "(\<exists>t. msg_type_new code = Inr t) = (1 \<le> length code \<and> length code \<le> MSG_TYPE_MAX_LEN
      \<and> (\<forall>b\<in>set code. 32 \<le> b \<and> b \<le> 126))"
proof (cases "row_of_code msg_type_table code")
  case None
  then show ?thesis
    using first_illegal_None[of 0 code]
    by (cases "first_illegal 0 code")
       (auto simp: msg_type_new_def custom_msg_type_new_def result_simps Suc_le_eq)
next
  case (Some row)
  obtain v a where row: "row = (v, a)" by (cases row)
  with Some row_of_code_sound[of msg_type_table code v a] obtain c where
    c: "bytes_of c = code" "(c, v, a) \<in> set msg_type_table" by blast
  from msg_type_table_printable[OF c(2)] c(1) obtain b where "code = [b]" "32 \<le> b \<and> b \<le> 126" by auto
  then show ?thesis using Some row by (simp add: msg_type_new_def MSG_TYPE_MAX_LEN_def)
qed

end
