(* ===== verification/Externs.thy ===== *)
theory Externs
  imports Prelude
begin

text \<open>
  The two third-party functions the tag=value code calls, as interfaces.  The crates
  \<^verbatim>\<open>memchr\<close> and \<^verbatim>\<open>itoa\<close> are not part of the repository, so every definition that
  uses them takes them as arguments; the locales state their documented behaviour, and the
  lemmas of this theory are proved from those laws alone.  A linear search and a decimal
  printer written here satisfy the laws and serve as the concrete instances.
\<close>

subsection \<open>Decimal text\<close>

definition digit_val :: "u8 \<Rightarrow> nat" where
  "digit_val b = unat (b - 48)"

definition dec_val :: "bytes \<Rightarrow> nat" where
  "dec_val bs = foldl (\<lambda>n b. n * 10 + digit_val b) 0 bs"

definition all_digits :: "bytes \<Rightarrow> bool" where
  "all_digits bs = list_all is_ascii_digit bs"

definition canonical_dec :: "bytes \<Rightarrow> nat \<Rightarrow> bool" where
  "canonical_dec bs n \<longleftrightarrow>
     bs \<noteq> [] \<and> all_digits bs \<and> dec_val bs = n \<and> (hd bs = 48 \<longrightarrow> bs = [48])"

lemma digit_val_unat: "is_ascii_digit b \<Longrightarrow> digit_val b = unat b - 48"
  by (simp add: is_ascii_digit_def digit_val_def unat_sub)

lemma digit_unat: "is_ascii_digit b \<longleftrightarrow> 48 \<le> unat b \<and> unat b \<le> 57"
  by (simp add: is_ascii_digit_def word_le_nat_alt)

lemma digit_val_bound: "is_ascii_digit b \<Longrightarrow> digit_val b \<le> 9"
  by (auto simp: digit_val_unat digit_unat)

lemma dec_val_Nil [simp]: "dec_val [] = 0"
  by (simp add: dec_val_def)

lemma dec_val_snoc [simp]: "dec_val (bs @ [b]) = dec_val bs * 10 + digit_val b"
  by (simp add: dec_val_def)

lemma foldl_dec: "foldl (\<lambda>n b. n * 10 + digit_val b) a bs = a * 10 ^ length bs + dec_val bs"
  by (induction bs arbitrary: a rule: rev_induct) (simp_all add: algebra_simps)

lemma dec_val_Cons: "dec_val (b # bs) = digit_val b * 10 ^ length bs + dec_val bs"
  using foldl_dec[of "digit_val b" bs] by (simp add: dec_val_def)

lemma all_digits_simps [simp]:
  "all_digits []" "all_digits (b # bs) \<longleftrightarrow> is_ascii_digit b \<and> all_digits bs"
  "all_digits (bs @ cs) \<longleftrightarrow> all_digits bs \<and> all_digits cs"
  by (simp_all add: all_digits_def)

lemma dec_val_lt: "all_digits bs \<Longrightarrow> dec_val bs < 10 ^ length bs"
proof (induction bs rule: rev_induct)
  case (snoc b bs)
  then show ?case using digit_val_bound[of b] by simp
qed simp

lemma digit_nonzero: "is_ascii_digit b \<Longrightarrow> b \<noteq> 48 \<Longrightarrow> 1 \<le> digit_val b"
proof -
  assume d: "is_ascii_digit b" and n: "b \<noteq> 48"
  from n have "unat b \<noteq> unat (48 :: u8)" by (metis word_unat_eq_iff)
  with d show ?thesis by (auto simp: digit_val_unat digit_unat)
qed

lemma canonical_dec_length:
  assumes c: "canonical_dec bs n" and n: "n < 10 ^ k" and k: "0 < k"
  shows "length bs \<le> k"
proof (cases "hd bs = 48")
  case True
  with c k show ?thesis by (simp add: canonical_dec_def)
next
  case False
  from c obtain b r where bs: "bs = b # r" by (cases bs) (auto simp: canonical_dec_def)
  from c False bs have "is_ascii_digit b" "b \<noteq> 48" by (auto simp: canonical_dec_def)
  then have "1 \<le> digit_val b" by (rule digit_nonzero)
  then have "1 * 10 ^ length r \<le> digit_val b * 10 ^ length r"
    by (rule mult_le_mono1)
  also from c bs have "\<dots> \<le> n" by (auto simp: canonical_dec_def dec_val_Cons)
  finally have "10 ^ length r \<le> n" by simp
  then have "(10::nat) ^ length r < 10 ^ k" using n by (rule le_less_trans)
  then have "length r < k" by (rule power_less_imp_less_exp[rotated]) simp
  then show ?thesis by (simp add: bs)
qed

lemma digit_not_special: "is_ascii_digit b \<Longrightarrow> b \<noteq> SOH \<and> b \<noteq> EQUALS"
  by (auto simp: digit_unat)

lemma all_digits_no_special:
  "all_digits bs \<Longrightarrow> SOH \<notin> set bs" "all_digits bs \<Longrightarrow> EQUALS \<notin> set bs"
  using digit_not_special by (auto simp: all_digits_def list_all_iff)

subsection \<open>Byte search\<close>

locale memchr_law =
  fixes memchr :: "u8 \<Rightarrow> bytes \<Rightarrow> usize option"
  assumes memchr_None: "memchr b xs = None \<Longrightarrow> b \<notin> set xs"
    and memchr_Some: "memchr b xs = Some i \<Longrightarrow> i < length xs \<and> xs ! i = b \<and> b \<notin> set (take i xs)"
begin

lemma memchr_absent: "b \<notin> set xs \<Longrightarrow> memchr b xs = None"
  by (cases "memchr b xs") (auto dest!: memchr_Some)

lemma memchr_at: "b \<notin> set pre \<Longrightarrow> memchr b (pre @ b # post) = Some (length pre)"
proof (cases "memchr b (pre @ b # post)")
  case None
  then show ?thesis by (auto dest: memchr_None)
next
  case (Some i)
  assume b: "b \<notin> set pre"
  from memchr_Some[OF Some] have i: "(pre @ b # post) ! i = b"
    "b \<notin> set (take i (pre @ b # post))" by auto
  have "\<not> i < length pre"
  proof
    assume "i < length pre"
    with i(1) have "b \<in> set pre" by (metis nth_append nth_mem)
    with b show False by simp
  qed
  moreover have "\<not> length pre < i"
  proof
    assume "length pre < i"
    then have "b \<in> set (take i (pre @ b # post))"
      by (cases "i - length pre") auto
    with i(2) show False by simp
  qed
  ultimately show ?thesis using Some by simp
qed

lemma memchr_decompose:
  assumes "memchr b xs = Some i"
  shows "xs = take i xs @ b # drop (Suc i) xs" and "i < length xs" and "b \<notin> set (take i xs)"
  using memchr_Some[OF assms] by (metis id_take_nth_drop, auto)

end

fun find_byte :: "u8 \<Rightarrow> bytes \<Rightarrow> usize option" where
  "find_byte b [] = None"
| "find_byte b (x # xs) = (if x = b then Some 0 else map_option Suc (find_byte b xs))"

lemma find_byte_Some:
  "find_byte b xs = Some i \<Longrightarrow> i < length xs \<and> xs ! i = b \<and> b \<notin> set (take i xs)"
  by (induction xs arbitrary: i) (auto split: if_splits)

lemma find_byte_None: "find_byte b xs = None \<Longrightarrow> b \<notin> set xs"
  by (induction xs) (auto split: if_splits)

interpretation byte_search: memchr_law find_byte
  by unfold_locales (fact find_byte_None find_byte_Some)+

subsection \<open>Integer printing\<close>

locale itoa_law =
  fixes itoa :: "nat \<Rightarrow> bytes"
  assumes itoa_canonical: "canonical_dec (itoa n) n"
begin

lemma itoa_nonempty: "itoa n \<noteq> []"
  using itoa_canonical[of n] by (simp add: canonical_dec_def)

lemma itoa_digits: "all_digits (itoa n)"
  using itoa_canonical[of n] by (simp add: canonical_dec_def)

lemma itoa_value: "dec_val (itoa n) = n"
  using itoa_canonical[of n] by (simp add: canonical_dec_def)

lemma itoa_length: "n < 10 ^ k \<Longrightarrow> 0 < k \<Longrightarrow> length (itoa n) \<le> k"
  by (rule canonical_dec_length[OF itoa_canonical])

lemma itoa_plain: "SOH \<notin> set (itoa n)" "EQUALS \<notin> set (itoa n)"
  using all_digits_no_special[OF itoa_digits[of n]] by simp_all

end

fun dec_bytes :: "nat \<Rightarrow> bytes" where
  "dec_bytes n =
     (if n < 10 then [48 + word_of_nat n] else dec_bytes (n div 10) @ [48 + word_of_nat (n mod 10)])"

declare dec_bytes.simps [simp del]

lemma digit_of_nat:
  assumes "n < 10"
  shows "is_ascii_digit (48 + word_of_nat n)" and "digit_val (48 + word_of_nat n) = n"
    and "(word_of_nat n :: u8) = 0 \<longleftrightarrow> n = 0"
proof -
  have "n = 0 \<or> n = 1 \<or> n = 2 \<or> n = 3 \<or> n = 4 \<or> n = 5 \<or> n = 6 \<or> n = 7 \<or> n = 8 \<or> n = 9"
    using assms by arith
  then have "is_ascii_digit (48 + word_of_nat n) \<and> digit_val (48 + word_of_nat n) = n
      \<and> ((word_of_nat n :: u8) = 0 \<longleftrightarrow> n = 0)"
    by (elim disjE) (simp_all add: is_ascii_digit_def digit_val_def)
  then show "is_ascii_digit (48 + word_of_nat n)" "digit_val (48 + word_of_nat n) = n"
    "(word_of_nat n :: u8) = 0 \<longleftrightarrow> n = 0" by blast+
qed

lemma dec_bytes_nonempty: "dec_bytes n \<noteq> []"
  by (subst dec_bytes.simps) simp

lemma dec_bytes_hd: "0 < n \<Longrightarrow> hd (dec_bytes n) \<noteq> 48"
proof (induction n rule: dec_bytes.induct)
  case (1 n)
  then show ?case
    by (subst dec_bytes.simps) (auto simp: digit_of_nat(3) dec_bytes_nonempty)
qed

lemma dec_bytes_digits: "all_digits (dec_bytes n) \<and> dec_val (dec_bytes n) = n"
proof (induction n rule: dec_bytes.induct)
  case (1 n)
  show ?case
  proof (cases "n < 10")
    case True
    then have "dec_bytes n = [] @ [48 + word_of_nat n]" by (subst dec_bytes.simps) simp
    then show ?thesis using True digit_of_nat[of n] by (simp only: dec_val_snoc all_digits_simps) simp
  next
    case False
    then have "dec_bytes n = dec_bytes (n div 10) @ [48 + word_of_nat (n mod 10)]"
      by (subst dec_bytes.simps) simp
    with 1 False digit_of_nat[of "n mod 10"] show ?thesis by simp
  qed
qed

interpretation decimal_printer: itoa_law dec_bytes
proof unfold_locales
  fix n
  show "canonical_dec (dec_bytes n) n"
  proof (cases "n = 0")
    case True
    then show ?thesis
      by (subst dec_bytes.simps) (simp add: canonical_dec_def dec_val_Cons digit_val_def is_ascii_digit_def)
  next
    case False
    then show ?thesis
      using dec_bytes_hd[of n] by (simp add: canonical_dec_def dec_bytes_digits dec_bytes_nonempty)
  qed
qed

text \<open>Signed values print as their magnitude after a minus sign.\<close>

definition itoa_signed :: "(nat \<Rightarrow> bytes) \<Rightarrow> int \<Rightarrow> bytes" where
  "itoa_signed itoa n = (if n < 0 then 45 # itoa (nat (- n)) else itoa (nat n))"

end
