(* ===== verification/Wire_Syntax.thy ===== *)
theory Wire_Syntax
  imports Fix_Core Externs "HOL-Library.Multiset"
begin

text \<open>
  The lexical layer of tag=value FIX (\<^verbatim>\<open>ironfix-tagvalue\<close>): the checksum of
  \<^verbatim>\<open>checksum.rs\<close>, and from \<^verbatim>\<open>decoder.rs\<close> the numeric parsers and the two
  hand-written tables of counted \<^verbatim>\<open>DATA\<close> fields.
\<close>

subsection \<open>Checksum\<close>

definition calculate_checksum :: "bytes \<Rightarrow> u8" where
  "calculate_checksum data =
     ucast ((foldl (\<lambda>sum b. sum + ucast b) (0 :: u64) data) mod 256)"

definition format_checksum :: "u8 \<Rightarrow> bytes" where
  "format_checksum checksum =
     [48 + checksum div 100, 48 + (checksum div 10) mod 10, 48 + checksum mod 10]"

definition parse_checksum :: "bytes \<Rightarrow> u8 option" where
  "parse_checksum bs =
    (case bs of
       [b0, b1, b2] \<Rightarrow>
         (case (checked_sub b0 48, checked_sub b1 48, checked_sub b2 48) of
            (Some d0, Some d1, Some d2) \<Rightarrow>
              if 9 < d0 \<or> 9 < d1 \<or> 9 < d2 then None
              else (let value = ucast d0 * 100 + ucast d1 * 10 + ucast d2 :: u16
                    in if value \<le> 255 then Some (ucast value) else None)
          | _ \<Rightarrow> None)
     | _ \<Rightarrow> None)"

lemma unat_foldl_sum:
  "unat (foldl (\<lambda>sum b. sum + ucast b) (a :: u64) data) mod 256
     = (unat a + sum_list (map unat (data :: bytes))) mod 256"
proof (induction data arbitrary: a)
  case (Cons b data)
  have "unat (ucast b :: u64) = unat b" by (simp add: unat_ucast_up)
  then have "unat (a + ucast b) mod 256 = (unat a + unat b) mod 256"
    by (simp add: unat_word_ariths mod_mod_cancel)
  then have "(unat (a + ucast b) + sum_list (map unat data)) mod 256
      = (unat a + unat b + sum_list (map unat data)) mod 256"
    by (metis mod_add_left_eq)
  with Cons[of "a + ucast b"] show ?case by (simp add: add.assoc)
qed simp

lemma unat_calculate_checksum:
  "unat (calculate_checksum data) = sum_list (map unat data) mod 256"
proof -
  have "unat (ucast (x mod 256 :: u64) :: u8) = unat x mod 256" for x :: u64
    by (simp add: unat_ucast_mod unat_mod)
  then show ?thesis
    using unat_foldl_sum[of 0 data] by (simp add: calculate_checksum_def)
qed

lemma calculate_checksum_append:
  "calculate_checksum (a @ b) = calculate_checksum a + calculate_checksum b"
  by (rule word_unat_eq_iff[THEN iffD2])
     (simp add: unat_calculate_checksum unat_word_ariths mod_add_eq)

lemma calculate_checksum_Nil [simp]: "calculate_checksum [] = 0"
  by (rule word_unat_eq_iff[THEN iffD2]) (simp add: unat_calculate_checksum)

lemma length_format_checksum [simp]: "length (format_checksum c) = 3"
  by (simp add: format_checksum_def)

lemma checked_sub_digit: "d \<le> 9 \<Longrightarrow> checked_sub (48 + d) 48 = Some (d :: u8)"
proof -
  assume "d \<le> 9"
  then have "unat d \<le> 9" by (simp add: word_le_nat_alt)
  then have "unat (48 + d) = 48 + unat d" by (simp add: unat_word_ariths)
  then show ?thesis by (simp add: checked_sub_def word_le_nat_alt)
qed

lemma unat_checksum_value:
  fixes d0 d1 d2 :: u8
  assumes "d0 \<le> 9" "d1 \<le> 9" "d2 \<le> 9"
  shows "unat (ucast d0 * 100 + ucast d1 * 10 + ucast d2 :: u16)
      = unat d0 * 100 + unat d1 * 10 + unat d2"
  using assms by (simp add: word_le_nat_alt unat_word_ariths unat_ucast_up)

lemma three_digits: "(n :: nat) div 100 * 100 + n div 10 mod 10 * 10 + n mod 10 = n"
proof -
  have "n div 100 = n div 10 div 10" by (simp flip: div_mult2_eq)
  moreover have "n div 10 = n div 10 div 10 * 10 + n div 10 mod 10" by (rule div_mult_mod_eq[symmetric])
  moreover have "n = n div 10 * 10 + n mod 10" by (rule div_mult_mod_eq[symmetric])
  ultimately show ?thesis by linarith
qed

lemma parse_format_checksum: "parse_checksum (format_checksum c) = Some c"
proof -
  define d0 d1 d2 where d: "d0 = c div 100" "d1 = c div 10 mod 10" "d2 = c mod 10"
  have c: "unat c < 256" by (rule u8_less_256)
  have n: "unat d0 = unat c div 100" "unat d1 = unat c div 10 mod 10" "unat d2 = unat c mod 10"
    by (simp_all add: d unat_div unat_mod)
  have le: "d0 \<le> 9" "d1 \<le> 9" "d2 \<le> 9"
    using c by (simp_all add: word_le_nat_alt n)
  let ?v = "ucast d0 * 100 + ucast d1 * 10 + ucast d2 :: u16"
  have v: "unat ?v = unat c"
    unfolding unat_checksum_value[OF le] n by (rule three_digits)
  then have "?v \<le> 255" using c by (simp add: word_le_nat_alt)
  moreover have "ucast ?v = c"
    using v c by (simp add: word_unat_eq_iff unat_ucast_mod)
  ultimately show ?thesis
    using le by (simp add: parse_checksum_def format_checksum_def d[symmetric] checked_sub_digit Let_def not_less)
qed

lemma checked_sub_digit_Some: "checked_sub b 48 = Some d \<Longrightarrow> b = 48 + (d :: u8)"
  by (auto simp: checked_sub_def split: if_splits)

lemma three_digits_split:
  assumes "b \<le> 9" "c \<le> (9 :: nat)"
  shows "(a * 100 + b * 10 + c) div 100 = a" "(a * 100 + b * 10 + c) div 10 mod 10 = b"
    "(a * 100 + b * 10 + c) mod 10 = c"
proof -
  let ?n = "a * 100 + b * 10 + c"
  have e: "?n = (a * 10 + b) * 10 + c" by simp
  have d: "?n div 10 = a * 10 + b" unfolding e using assms by simp
  show "?n div 10 mod 10 = b" unfolding d using assms by simp
  have "((a * 10 + b) * 10 + c) mod 10 = c mod 10" by (rule mod_mult_self3)
  then show "?n mod 10 = c" unfolding e using assms by simp
  have "?n div 100 = ?n div 10 div 10" by (simp flip: div_mult2_eq)
  then show "?n div 100 = a" unfolding d using assms by simp
qed

lemma parse_checksum_Some:
  assumes "parse_checksum bs = Some c"
  shows "bs = format_checksum c"
proof -
  from assms obtain b0 b1 b2 d0 d1 d2 where bs: "bs = [b0, b1, b2]" and
    d: "checked_sub b0 48 = Some d0" "checked_sub b1 48 = Some d1" "checked_sub b2 48 = Some d2" and
    le: "d0 \<le> 9" "d1 \<le> 9" "d2 \<le> 9" and
    v: "(ucast d0 * 100 + ucast d1 * 10 + ucast d2 :: u16) \<le> 255"
      "c = ucast (ucast d0 * 100 + ucast d1 * 10 + ucast d2 :: u16)"
    by (auto simp: parse_checksum_def Let_def not_less split: list.splits option.splits if_splits)
  have n: "unat c = unat d0 * 100 + unat d1 * 10 + unat d2"
    using v(1) unfolding v(2) by (simp add: unat_ucast_mod unat_checksum_value[OF le] word_le_nat_alt)
  have l: "unat d0 \<le> 9" "unat d1 \<le> 9" "unat d2 \<le> 9" using le by (simp_all add: word_le_nat_alt)
  have "c div 100 = d0" "c div 10 mod 10 = d1" "c mod 10 = d2"
    using three_digits_split[OF l(2,3), of "unat d0"] by (simp_all add: word_unat_eq_iff unat_div unat_mod n)
  then show ?thesis using d by (simp add: bs format_checksum_def checked_sub_digit_Some)
qed

lemma format_checksum_no_soh: "SOH \<notin> set (format_checksum c)"
proof -
  have "unat (48 + d) \<noteq> 1" if "unat d \<le> 9" for d :: u8
    using that by (simp add: unat_word_ariths)
  then have ne: "48 + d \<noteq> SOH" if "unat d \<le> 9" for d :: u8
    using that by (metis unsigned_1)
  have "unat (c div 100) \<le> 9" "unat (c div 10 mod 10) \<le> 9" "unat (c mod 10) \<le> 9"
    using u8_less_256[of c] by (simp_all add: unat_div unat_mod)
  then show ?thesis
    unfolding format_checksum_def using ne by (metis empty_iff empty_set set_ConsD)
qed

subsection \<open>Numbers on the wire\<close>

definition MAX_TAG_DIGITS :: usize where "MAX_TAG_DIGITS = 10"
definition MAX_LENGTH_DIGITS :: usize where "MAX_LENGTH_DIGITS = 10"

fun parse_tag_loop :: "bytes \<Rightarrow> u32 \<Rightarrow> u32 option" where
  "parse_tag_loop [] result = Some result"
| "parse_tag_loop (b # bs) result =
    (if \<not> is_ascii_digit b then None
     else case checked_mul result 10 of
            None \<Rightarrow> None
          | Some m \<Rightarrow> (case checked_add m (ucast (b - 48)) of
                        None \<Rightarrow> None
                      | Some r \<Rightarrow> parse_tag_loop bs r))"

definition parse_tag :: "bytes \<Rightarrow> u32 option" where
  "parse_tag bs =
    (if bs = [] \<or> MAX_TAG_DIGITS < length bs then None else parse_tag_loop bs 0)"

fun parse_length_loop :: "bytes \<Rightarrow> usize \<Rightarrow> usize option" where
  "parse_length_loop [] result = Some result"
| "parse_length_loop (b # bs) result =
    (if \<not> is_ascii_digit b then None
     else case usize_mul result 10 of
            None \<Rightarrow> None
          | Some m \<Rightarrow> (case usize_add m (digit_val b) of
                        None \<Rightarrow> None
                      | Some r \<Rightarrow> parse_length_loop bs r))"

definition parse_length :: "bytes \<Rightarrow> usize option" where
  "parse_length bs =
    (if bs = [] \<or> MAX_LENGTH_DIGITS < length bs then None else parse_length_loop bs 0)"

lemma parse_tag_loop_iff:
  "parse_tag_loop bs r = Some t \<longleftrightarrow>
     all_digits bs \<and> unat r * 10 ^ length bs + dec_val bs < 2 ^ 32
     \<and> unat t = unat r * 10 ^ length bs + dec_val bs"
proof (induction bs arbitrary: r)
  case Nil
  then show ?case using unsigned_less[of r] by (auto simp: word_unat_eq_iff)
next
  case (Cons b bs)
  let ?n = "unat r * 10 + digit_val b"
  have sum: "unat r * 10 ^ length (b # bs) + dec_val (b # bs)
      = ?n * 10 ^ length bs + dec_val bs"
    by (simp add: dec_val_Cons algebra_simps)
  have mono: "?n \<le> ?n * 10 ^ length bs + dec_val bs"
    by (rule trans_le_add1) simp
  show ?case
  proof (cases "is_ascii_digit b \<and> ?n < 2 ^ 32")
    case True
    have d: "unat (ucast (b - 48) :: u32) = digit_val b"
      by (simp add: unat_ucast_up digit_val_def)
    have m: "checked_mul r 10 = Some (r * 10)" and um: "unat (r * 10) = unat r * 10"
      using True by (simp_all add: checked_mul_def unat_word_ariths)
    have a: "checked_add (r * 10) (ucast (b - 48)) = Some (r * 10 + ucast (b - 48))"
      using True um d by (simp add: checked_add_def)
    have "unat (r * 10 + ucast (b - 48)) = ?n"
      using unat_checked_add[OF a] um d by simp
    with True m a Cons show ?thesis unfolding sum by simp
  next
    case False
    have "parse_tag_loop (b # bs) r = None"
    proof (cases "is_ascii_digit b")
      case True
      with False have n: "\<not> ?n < 2 ^ 32" by simp
      { fix m assume m: "checked_mul r 10 = Some m"
        have "unat m = unat r * 10" using unat_checked_mul[OF m] by simp
        then have "checked_add m (ucast (b - 48)) = None"
          using n by (simp add: checked_add_def unat_ucast_up digit_val_def) }
      then show ?thesis using True by (auto split: option.splits)
    qed simp
    with False mono show ?thesis unfolding sum by auto
  qed
qed

lemma parse_length_loop_iff:
  "parse_length_loop bs r = Some n \<longleftrightarrow>
     all_digits bs \<and> n \<le> usize_max \<and> n = r * 10 ^ length bs + dec_val bs"
  if "r \<le> usize_max"
  using that
proof (induction bs arbitrary: r)
  case (Cons b bs)
  let ?n = "r * 10 + digit_val b"
  have sum: "r * 10 ^ length (b # bs) + dec_val (b # bs) = ?n * 10 ^ length bs + dec_val bs"
    by (simp add: dec_val_Cons algebra_simps)
  have mono: "?n \<le> ?n * 10 ^ length bs + dec_val bs"
    by (rule trans_le_add1) simp
  show ?case
  proof (cases "is_ascii_digit b \<and> ?n \<le> usize_max")
    case True
    then have "parse_length_loop (b # bs) r = parse_length_loop bs ?n"
      by (simp add: usize_mul_def usize_add_def)
    with True Cons.IH[of ?n] show ?thesis unfolding sum by simp
  next
    case False
    then have "parse_length_loop (b # bs) r = None"
      by (auto simp: usize_mul_def usize_add_def)
    with False mono show ?thesis unfolding sum by auto
  qed
qed auto

theorem parse_tag_iff:
  "parse_tag bs = Some t \<longleftrightarrow>
     bs \<noteq> [] \<and> length bs \<le> MAX_TAG_DIGITS \<and> all_digits bs
     \<and> dec_val bs < 2 ^ 32 \<and> t = word_of_nat (dec_val bs)"
proof -
  have "unat t = dec_val bs \<longleftrightarrow> t = word_of_nat (dec_val bs)" if "dec_val bs < 2 ^ 32"
  proof
    assume "unat t = dec_val bs"
    then show "t = word_of_nat (dec_val bs)" by (metis word_of_nat_unat)
  next
    assume "t = word_of_nat (dec_val bs)"
    then show "unat t = dec_val bs" using that unat_of_nat_small[of "dec_val bs", where 'w = 32] by simp
  qed
  then show ?thesis
    using parse_tag_loop_iff[of bs 0 t] by (auto simp: parse_tag_def)
qed

theorem parse_length_iff:
  "parse_length bs = Some n \<longleftrightarrow>
     bs \<noteq> [] \<and> length bs \<le> MAX_LENGTH_DIGITS \<and> all_digits bs \<and> n = dec_val bs"
proof -
  have "dec_val bs \<le> usize_max" if "length bs \<le> 10" "all_digits bs"
  proof -
    have "dec_val bs < 10 ^ length bs" using that(2) by (rule dec_val_lt)
    also have "(10::nat) ^ length bs \<le> 10 ^ 10" using that(1) by (rule power_increasing) simp
    finally show ?thesis by (simp add: usize_max_def)
  qed
  then show ?thesis
    using parse_length_loop_iff[of 0 bs n]
    by (auto simp: parse_length_def MAX_LENGTH_DIGITS_def usize_max_def)
qed

context itoa_law
begin

lemma parse_tag_itoa: "parse_tag (itoa (unat t)) = Some t"
proof -
  have "unat t < 2 ^ 32" using unsigned_less[of t] by simp
  moreover from this have "length (itoa (unat t)) \<le> 10" by (intro itoa_length) simp_all
  ultimately show ?thesis
    by (simp add: parse_tag_iff itoa_nonempty itoa_digits itoa_value MAX_TAG_DIGITS_def)
qed

lemma parse_length_itoa: "n < 10 ^ 10 \<Longrightarrow> parse_length (itoa n) = Some n"
  using itoa_length[of n 10]
  by (simp add: parse_length_iff itoa_nonempty itoa_digits itoa_value MAX_LENGTH_DIGITS_def)

end

subsection \<open>Counted DATA fields\<close>

text \<open>The arms of \<^verbatim>\<open>paired_data_tag\<close>: LENGTH tag and the DATA tag it frames.\<close>

definition length_data_arms :: "(u32 \<times> u32) list" where
  "length_data_arms =
    [
     (90, 91), (93, 89), (95, 96), (212, 213), (348, 349), (350, 351), (352, 353), (354, 355),
     (356, 357), (358, 359), (360, 361), (362, 363), (364, 365), (445, 446), (618, 619),
     (621, 622), (1184, 1185), (1277, 1278), (1280, 1281), (1282, 1283), (1397, 1398),
     (1401, 1402), (1403, 1404), (1468, 1469), (1525, 1527), (1578, 1579), (1620, 1621),
     (1664, 1665), (1678, 1697), (1733, 1734), (1871, 1872), (1874, 1875), (2072, 2073),
     (2074, 2075), (2111, 2112), (2179, 2180), (2287, 2288), (2351, 2352), (2372, 2371),
     (2481, 2482), (2494, 2493), (2522, 2521), (2637, 2638), (2651, 2652), (2665, 2666),
     (2715, 2716), (2718, 2719), (2721, 2722), (2797, 2798), (2802, 2801), (2809, 2808),
     (2815, 2814), (40004, 40005), (40008, 40009), (40978, 40979), (40980, 40981),
     (40982, 40983), (40984, 40985), (40986, 40987), (40988, 40989), (41083, 41084),
     (41101, 41102), (41107, 41108), (41256, 41257), (41320, 41321), (41324, 41325),
     (41458, 41459), (41476, 41477), (41482, 41483), (41653, 41654), (41710, 41711),
     (41806, 41807), (41811, 41812), (41873, 41874), (41969, 41970), (42025, 42026),
     (42171, 42172), (42451, 42452), (42652, 42653), (42947, 42948), (43109, 42684),
     (43110, 42486), (43111, 42982)]"

definition FIRST_LENGTH_TAG :: u32 where "FIRST_LENGTH_TAG = 90"
definition FIRST_DATA_TAG :: u32 where "FIRST_DATA_TAG = 89"

definition paired_data_tag :: "u32 \<Rightarrow> u32 option" where
  "paired_data_tag length_tag =
    (if length_tag < FIRST_LENGTH_TAG then None else map_of length_data_arms length_tag)"

text \<open>The alternatives of \<^verbatim>\<open>is_data_tag\<close>, written by hand in the source as a second table.\<close>

definition data_tag_arms :: "u32 list" where
  "data_tag_arms =
    [89, 91,
     96, 213, 349, 351, 353, 355, 357, 359, 361, 363, 365, 446, 619, 622, 1185, 1278, 1281,
     1283, 1398, 1402, 1404, 1469, 1527, 1579, 1621, 1665, 1697, 1734, 1872, 1875, 2073, 2075,
     2112, 2180, 2288, 2352, 2371, 2482, 2493, 2521, 2638, 2652, 2666, 2716, 2719, 2722, 2798,
     2801, 2808, 2814, 40005, 40009, 40979, 40981, 40983, 40985, 40987, 40989, 41084, 41102,
     41108, 41257, 41321, 41325, 41459, 41477, 41483, 41654, 41711, 41807, 41812, 41874, 41970,
     42026, 42172, 42452, 42486, 42653, 42684, 42948, 42982]"

definition is_data_tag :: "u32 \<Rightarrow> bool" where
  "is_data_tag tag = (if tag < FIRST_DATA_TAG then False else tag \<in> set data_tag_arms)"

lemma length_data_arms_facts:
  "distinct (map unat (map fst length_data_arms))"
  "distinct (map unat (map snd length_data_arms))"
  "list_all (\<lambda>(l, d). 90 \<le> unat l \<and> 89 \<le> unat d) length_data_arms"
  "list_all (\<lambda>d. d \<notin> set (map unat (map fst length_data_arms))) (map unat (map snd length_data_arms))"
  by (simp_all add: length_data_arms_def)

lemma data_tag_arms_facts: "mset (map unat data_tag_arms) = mset (map unat (map snd length_data_arms))"
  by (simp add: data_tag_arms_def length_data_arms_def)

lemma distinct_mapI: "distinct (map f xs) \<Longrightarrow> distinct xs"
  by (simp add: distinct_map)

lemma data_tag_arms_set: "set data_tag_arms = set (map snd length_data_arms)"
proof -
  have "unat ` set data_tag_arms = unat ` set (map snd length_data_arms)"
    using mset_eq_setD[OF data_tag_arms_facts] by (simp only: set_map)
  then show ?thesis by (rule inj_image_eq_iff[THEN iffD1, rotated]) (simp add: inj_on_def word_unat_eq_iff)
qed

lemma paired_data_tag_iff: "paired_data_tag l = Some d \<longleftrightarrow> (l, d) \<in> set length_data_arms"
proof -
  have "FIRST_LENGTH_TAG \<le> l" if "(l, d) \<in> set length_data_arms"
    using length_data_arms_facts(3) that
    by (auto simp: list_all_iff FIRST_LENGTH_TAG_def word_le_nat_alt)
  moreover have "distinct (map fst length_data_arms)"
    using length_data_arms_facts(1) by (rule distinct_mapI)
  ultimately show ?thesis
    by (auto simp: paired_data_tag_def not_less dest: map_of_SomeD)
qed

text \<open>
  The two hand-written tables describe one pairing: a tag is a DATA tag exactly when some
  LENGTH tag is paired with it, the pairing is one-to-one, and no tag is both.
\<close>

theorem is_data_tag_iff: "is_data_tag d \<longleftrightarrow> (\<exists>l. paired_data_tag l = Some d)"
proof -
  have "\<not> d < FIRST_DATA_TAG" if "(l, d) \<in> set length_data_arms" for l
    using length_data_arms_facts(3) that
    by (auto simp: list_all_iff FIRST_DATA_TAG_def word_less_nat_alt)
  then show ?thesis
    by (force simp: is_data_tag_def paired_data_tag_iff data_tag_arms_set)
qed

theorem paired_data_tag_inj:
  "paired_data_tag l = Some d \<Longrightarrow> paired_data_tag l' = Some d \<Longrightarrow> l = l'"
proof -
  have "distinct (map snd length_data_arms)"
    using length_data_arms_facts(2) by (rule distinct_mapI)
  then show "paired_data_tag l = Some d \<Longrightarrow> paired_data_tag l' = Some d \<Longrightarrow> l = l'"
    unfolding paired_data_tag_iff by (metis distinct_map inj_onD prod.inject snd_conv)
qed

theorem data_tag_not_length: "paired_data_tag l = Some d \<Longrightarrow> paired_data_tag d = None"
proof (rule ccontr)
  assume "paired_data_tag l = Some d" and "paired_data_tag d \<noteq> None"
  then obtain e where "(l, d) \<in> set length_data_arms" "(d, e) \<in> set length_data_arms"
    by (auto simp: paired_data_tag_iff)
  then show False using length_data_arms_facts(4) by (force simp: list_all_iff)
qed

lemma paired_data_tag_values:
  "paired_data_tag l = Some d \<Longrightarrow> l \<noteq> 0 \<and> d \<noteq> 0 \<and> l \<notin> {8, 9, 10, 35} \<and> d \<notin> {8, 9, 10, 35}"
  using length_data_arms_facts(3)
  by (force simp: paired_data_tag_iff list_all_iff)

end
