(* ===== verification/Encoder.thy ===== *)
theory Encoder
  imports Wire_Syntax
begin

text \<open>
  The tag=value encoder (\<^verbatim>\<open>ironfix-tagvalue/src/encoder.rs\<close>).  The frame buffer opens
  with \<open>HEADER_RESERVE\<close> unused bytes; the body is appended after them and \<open>stamp\<close> writes
  the header right-aligned into the reserve.  Each method takes the encoder and returns it.
  A formatted error text is replaced by the constructor of \<open>encode_reason\<close> that built it.
  The searches and printers of third-party crates are the arguments \<open>memchr\<close>, \<open>itoa\<close>.
\<close>

datatype encode_reason =
    ZeroTag | FramingTag | DataTagNeedsPair | UnpairedDataTag u32 | EmptyValue
  | SohInValue usize | IllegalBeginStringByte u8 usize | AlreadyFinished
  | MsgTypeNotUtf8 | MsgTypeRejected msg_type_error

datatype encode_error =
    BufferOverflow usize usize
  | MissingRequiredField u32
  | InvalidEncodeValue u32 encode_reason
  | FieldTooLong u32 usize usize

definition BEGIN_STRING_MAX_LEN :: usize where "BEGIN_STRING_MAX_LEN = 16"
definition MAX_BODY_LENGTH_DIGITS :: usize where "MAX_BODY_LENGTH_DIGITS = 20"
definition HEADER_RESERVE :: usize where
  "HEADER_RESERVE = 2 + BEGIN_STRING_MAX_LEN + 1 + 2 + MAX_BODY_LENGTH_DIGITS + 1"

lemma HEADER_RESERVE_val: "HEADER_RESERVE = 42"
  by (simp add: HEADER_RESERVE_def BEGIN_STRING_MAX_LEN_def MAX_BODY_LENGTH_DIGITS_def)

record encoder =
  e_buf :: bytes
  e_begin_string :: bytes
  e_begin_string_len :: usize
  e_body_len :: usize
  e_first_tag :: "u32 option"
  e_frame_start :: "usize option"
  e_begin_string_error :: "encode_error option"
  e_error :: "encode_error option"

definition header_overflow :: "usize \<Rightarrow> encode_error" where
  "header_overflow needed = BufferOverflow needed HEADER_RESERVE"

definition body_overflow :: "usize \<Rightarrow> encode_error" where
  "body_overflow needed = BufferOverflow needed 0"

definition is_ascii_graphic :: "u8 \<Rightarrow> bool" where
  "is_ascii_graphic b \<longleftrightarrow> 33 \<le> b \<and> b \<le> 126"

fun first_ungraphic :: "usize \<Rightarrow> bytes \<Rightarrow> (u8 \<times> usize) option" where
  "first_ungraphic i [] = None"
| "first_ungraphic i (b # bs) =
     (if \<not> is_ascii_graphic b \<or> b = EQUALS then Some (b, i) else first_ungraphic (Suc i) bs)"

text \<open>The length used and the array after the copy.\<close>

definition copy_begin_string :: "bytes \<Rightarrow> bytes \<Rightarrow> encode_error + usize \<times> bytes" where
  "copy_begin_string value slot =
    (if value = [] then Inl (InvalidEncodeValue 8 EmptyValue)
     else if length value > BEGIN_STRING_MAX_LEN
     then Inl (FieldTooLong 8 (length value) BEGIN_STRING_MAX_LEN)
     else (case first_ungraphic 0 value of
             Some (byte, position) \<Rightarrow> Inl (InvalidEncodeValue 8 (IllegalBeginStringByte byte position))
           | None \<Rightarrow>
               (case get_to slot (length value) of
                  None \<Rightarrow> Inl (header_overflow (length value))
                | Some _ \<Rightarrow> Inr (length value, value @ drop (length value) slot))))"

definition encoder_new :: "bytes \<Rightarrow> encoder" where
  "encoder_new begin_string =
    (let e = \<lparr>e_buf = replicate HEADER_RESERVE 0, e_begin_string = replicate BEGIN_STRING_MAX_LEN 0,
              e_begin_string_len = 0, e_body_len = 0, e_first_tag = None, e_frame_start = None,
              e_begin_string_error = None, e_error = None\<rparr>
     in (case copy_begin_string begin_string (e_begin_string e) of
           Inr (len, slot) \<Rightarrow> e\<lparr>e_begin_string := slot, e_begin_string_len := len\<rparr>
         | Inl err \<Rightarrow> e\<lparr>e_begin_string_error := Some err\<rparr>))"

definition first_error :: "encoder \<Rightarrow> encode_error option" where
  "first_error e = (case e_begin_string_error e of Some err \<Rightarrow> Some err | None \<Rightarrow> e_error e)"

definition record_error :: "encode_error \<Rightarrow> encoder \<Rightarrow> encoder" where
  "record_error err e = (if e_error e = None then e\<lparr>e_error := Some err\<rparr> else e)"

definition check_open :: "encoder \<Rightarrow> u32 \<Rightarrow> encode_error + unit" where
  "check_open e t = (if e_frame_start e \<noteq> None then Inl (InvalidEncodeValue t AlreadyFinished) else Inr ())"

definition check_tag :: "u32 \<Rightarrow> encode_error + unit" where
  "check_tag t = (if t = 0 then Inl (InvalidEncodeValue 0 ZeroTag) else Inr ())"

definition check_body_tag :: "u32 \<Rightarrow> encode_error + unit" where
  "check_body_tag t =
    bindR (check_tag t) (\<lambda>_.
      if 8 \<le> t \<and> t \<le> 10 then Inl (InvalidEncodeValue t FramingTag)
      else if paired_data_tag t \<noteq> None \<or> is_data_tag t then Inl (InvalidEncodeValue t DataTagNeedsPair)
      else Inr ())"

definition check_msg_type :: "bytes \<Rightarrow> encode_error + unit" where
  "check_msg_type value =
    (if \<not> utf8_valid value then Inl (InvalidEncodeValue 35 MsgTypeNotUtf8)
     else (case msg_type_new value of
             Inr _ \<Rightarrow> Inr ()
           | Inl (MsgTypeTooLong len max_len) \<Rightarrow> Inl (FieldTooLong 35 len max_len)
           | Inl err \<Rightarrow> Inl (InvalidEncodeValue 35 (MsgTypeRejected err))))"

subsection \<open>Writing fields\<close>

definition write_field :: "(nat \<Rightarrow> bytes) \<Rightarrow> u32 \<Rightarrow> bytes \<Rightarrow> encoder \<Rightarrow> encoder" where
  "write_field itoa t value e =
    (let tag_str = itoa (unat t) in
     case Option.bind (Option.bind (usize_add (length tag_str) (length value))
            (\<lambda>n. usize_add n 2)) (\<lambda>n. usize_add (e_body_len e) n) of
       None \<Rightarrow> record_error (body_overflow (length value)) e
     | Some body_len \<Rightarrow>
         e\<lparr>e_buf := e_buf e @ tag_str @ [EQUALS] @ value @ [SOH],
           e_first_tag := (if e_first_tag e = None then Some t else e_first_tag e),
           e_body_len := body_len\<rparr>)"

definition try_put_raw ::
  "(u8 \<Rightarrow> bytes \<Rightarrow> usize option) \<Rightarrow> (nat \<Rightarrow> bytes) \<Rightarrow> u32 \<Rightarrow> bytes \<Rightarrow> (encoder, encode_error, unit) fallible" where
  "try_put_raw memchr itoa t value =
    thenS getS (\<lambda>e.
    thenS (liftS (check_open e t)) (\<lambda>_.
    thenS (liftS (check_body_tag t)) (\<lambda>_.
    thenS (liftS (if value = [] then Inl (InvalidEncodeValue t EmptyValue) else Inr ())) (\<lambda>_.
    thenS (liftS (case memchr SOH value of
                    Some position \<Rightarrow> Inl (InvalidEncodeValue t (SohInValue position))
                  | None \<Rightarrow> Inr ())) (\<lambda>_.
    thenS (liftS (if t = 35 then check_msg_type value else Inr ())) (\<lambda>_.
    (\<lambda>e. (Inr (), write_field itoa t value e))))))))"

definition try_put_data ::
  "(nat \<Rightarrow> bytes) \<Rightarrow> u32 \<Rightarrow> u32 \<Rightarrow> bytes \<Rightarrow> (encoder, encode_error, unit) fallible" where
  "try_put_data itoa length_tag data_tag value =
    thenS getS (\<lambda>e.
    thenS (liftS (check_open e data_tag)) (\<lambda>_.
    thenS (liftS (check_tag length_tag)) (\<lambda>_.
    thenS (liftS (check_tag data_tag)) (\<lambda>_.
    thenS (liftS (if paired_data_tag length_tag \<noteq> Some data_tag
                  then Inl (InvalidEncodeValue data_tag (UnpairedDataTag length_tag)) else Inr ())) (\<lambda>_.
    thenS (liftS (if value = [] then Inl (InvalidEncodeValue data_tag EmptyValue) else Inr ())) (\<lambda>_.
    (\<lambda>e. (Inr (), write_field itoa data_tag value
                    (write_field itoa length_tag (itoa (length value)) e)))))))))"

text \<open>The infallible writers record the first rejection.\<close>

definition recording :: "(encoder, encode_error, unit) fallible \<Rightarrow> encoder \<Rightarrow> encoder" where
  "recording m e = (case m e of (Inl err, e') \<Rightarrow> record_error err e' | (Inr _, e') \<Rightarrow> e')"

definition put_raw ::
  "(u8 \<Rightarrow> bytes \<Rightarrow> usize option) \<Rightarrow> (nat \<Rightarrow> bytes) \<Rightarrow> u32 \<Rightarrow> bytes \<Rightarrow> encoder \<Rightarrow> encoder" where
  "put_raw memchr itoa t value = recording (try_put_raw memchr itoa t value)"

definition put_data :: "(nat \<Rightarrow> bytes) \<Rightarrow> u32 \<Rightarrow> u32 \<Rightarrow> bytes \<Rightarrow> encoder \<Rightarrow> encoder" where
  "put_data itoa length_tag data_tag value = recording (try_put_data itoa length_tag data_tag value)"

text \<open>\<^verbatim>\<open>char::encode_utf8\<close> of a Unicode scalar value.\<close>

definition char_utf8 :: "u32 \<Rightarrow> bytes" where
  "char_utf8 c =
    (if c < 0x80 then [ucast c]
     else if c < 0x800 then [ucast (0xC0 + c div 64), ucast (0x80 + c mod 64)]
     else if c < 0x10000 then
       [ucast (0xE0 + c div 4096), ucast (0x80 + c div 64 mod 64), ucast (0x80 + c mod 64)]
     else [ucast (0xF0 + c div 262144), ucast (0x80 + c div 4096 mod 64),
           ucast (0x80 + c div 64 mod 64), ucast (0x80 + c mod 64)])"

definition put_str ::
  "(u8 \<Rightarrow> bytes \<Rightarrow> usize option) \<Rightarrow> (nat \<Rightarrow> bytes) \<Rightarrow> u32 \<Rightarrow> bytes \<Rightarrow> encoder \<Rightarrow> encoder" where
  "put_str memchr itoa t value = put_raw memchr itoa t value"

definition put_int ::
  "(u8 \<Rightarrow> bytes \<Rightarrow> usize option) \<Rightarrow> (nat \<Rightarrow> bytes) \<Rightarrow> u32 \<Rightarrow> u64 \<Rightarrow> encoder \<Rightarrow> encoder" where
  "put_int memchr itoa t value = put_raw memchr itoa t (itoa_signed itoa (sint value))"

definition put_uint ::
  "(u8 \<Rightarrow> bytes \<Rightarrow> usize option) \<Rightarrow> (nat \<Rightarrow> bytes) \<Rightarrow> u32 \<Rightarrow> u64 \<Rightarrow> encoder \<Rightarrow> encoder" where
  "put_uint memchr itoa t value = put_raw memchr itoa t (itoa (unat value))"

definition put_bool ::
  "(u8 \<Rightarrow> bytes \<Rightarrow> usize option) \<Rightarrow> (nat \<Rightarrow> bytes) \<Rightarrow> u32 \<Rightarrow> bool \<Rightarrow> encoder \<Rightarrow> encoder" where
  "put_bool memchr itoa t value = put_raw memchr itoa t (if value then [89] else [78])"

definition put_char ::
  "(u8 \<Rightarrow> bytes \<Rightarrow> usize option) \<Rightarrow> (nat \<Rightarrow> bytes) \<Rightarrow> u32 \<Rightarrow> u32 \<Rightarrow> encoder \<Rightarrow> encoder" where
  "put_char memchr itoa t value = put_raw memchr itoa t (char_utf8 value)"

subsection \<open>Stamping the frame\<close>

definition push_bytes :: "bytes \<Rightarrow> usize \<Rightarrow> bytes \<Rightarrow> (bytes \<times> usize) option" where
  "push_bytes dst len src =
    Option.bind (usize_add len (length src)) (\<lambda>end.
    Option.bind (get_range dst len end) (\<lambda>_.
    Some (take len dst @ src @ drop end dst, end)))"

text \<open>A run of \<^verbatim>\<open>push_bytes\<close> calls: the slot as it is left, and whether all of them fitted.\<close>

fun push_all :: "bytes list \<Rightarrow> bytes \<Rightarrow> usize \<Rightarrow> bytes \<times> bool" where
  "push_all [] dst len = (dst, True)"
| "push_all (src # srcs) dst len =
     (case push_bytes dst len src of
        None \<Rightarrow> (dst, False)
      | Some (dst', len') \<Rightarrow> push_all srcs dst' len')"

fun usize_sum :: "usize list \<Rightarrow> usize \<Rightarrow> usize option" where
  "usize_sum [] acc = Some acc"
| "usize_sum (n # ns) acc = Option.bind (usize_add acc n) (usize_sum ns)"

definition stamp :: "(nat \<Rightarrow> bytes) \<Rightarrow> (encoder, encode_error, unit) fallible" where
  "stamp itoa e =
    (if e_first_tag e \<noteq> Some 35 then (Inl (MissingRequiredField 35), e)
     else (case get_to (e_begin_string e) (e_begin_string_len e) of
       None \<Rightarrow> (Inl (header_overflow (e_begin_string_len e)), e)
     | Some begin_string \<Rightarrow>
       let body_len_str = itoa (e_body_len e) in
       (case usize_sum [2, length begin_string, 1, 2, length body_len_str, 1] 0 of
         None \<Rightarrow> (Inl (header_overflow usize_max), e)
       | Some header_len \<Rightarrow>
       (case usize_sub HEADER_RESERVE header_len of
         None \<Rightarrow> (Inl (header_overflow header_len), e)
       | Some frame_start \<Rightarrow>
       (case get_range (e_buf e) frame_start HEADER_RESERVE of
         None \<Rightarrow> (Inl (header_overflow header_len), e)
       | Some slot \<Rightarrow>
         let (slot', ok) = push_all [[56, EQUALS], begin_string, [SOH], [57, EQUALS], body_len_str, [SOH]] slot 0;
             e1 = e\<lparr>e_buf := take frame_start (e_buf e) @ slot' @ drop HEADER_RESERVE (e_buf e)\<rparr>
         in if \<not> ok then (Inl (header_overflow header_len), e1)
            else (case get_from (e_buf e1) frame_start of
                    None \<Rightarrow> (Inl (header_overflow header_len), e1)
                  | Some span \<Rightarrow>
                      (Inr (), e1\<lparr>e_buf := e_buf e1 @ [49, 48, EQUALS]
                                    @ format_checksum (calculate_checksum span) @ [SOH],
                                  e_frame_start := Some frame_start\<rparr>)))))))"

definition finish :: "(nat \<Rightarrow> bytes) \<Rightarrow> (encoder, encode_error, bytes) fallible" where
  "finish itoa e =
    (case first_error e of
       Some err \<Rightarrow> (Inl err, e)
     | None \<Rightarrow>
         thenS (if e_frame_start e = None then stamp itoa else liftS (Inr ())) (\<lambda>_.
         thenS getS (\<lambda>e1.
         thenS (liftS (ok_or (header_overflow 0) (e_frame_start e1))) (\<lambda>start.
         liftS (ok_or (header_overflow start) (get_from (e_buf e1) start))))) e)"

definition finish_into ::
  "(nat \<Rightarrow> bytes) \<Rightarrow> bytes \<Rightarrow> encoder \<Rightarrow> (encode_error + unit) \<times> encoder \<times> bytes" where
  "finish_into itoa dst e =
    (case finish itoa e of
       (Inl err, e') \<Rightarrow> (Inl err, e', dst)
     | (Inr frame, e') \<Rightarrow> (Inr (), e', dst @ frame))"

definition encoder_clear :: "encoder \<Rightarrow> encoder" where
  "encoder_clear e = e\<lparr>e_buf := replicate HEADER_RESERVE 0, e_body_len := 0, e_first_tag := None,
     e_frame_start := None, e_error := None\<rparr>"

end
