(* ===== verification/Decoder.thy ===== *)
theory Decoder
  imports Wire_Syntax
begin

text \<open>
  The tag=value decoder (\<^verbatim>\<open>ironfix-tagvalue/src/decoder.rs\<close> and \<^verbatim>\<open>index.rs\<close>) and
  the \<^verbatim>\<open>RawMessage\<close> it produces (\<^verbatim>\<open>ironfix-core/src/message.rs\<close>,
  \<^verbatim>\<open>field.rs\<close>).  The decoder's \<^verbatim>\<open>&mut self\<close> is passed and returned; an
  \<open>Err\<close> returns the state as the code leaves it.  The byte search \<open>memchr\<close> is an argument.
  The trait \<^verbatim>\<open>FieldSink\<close> is the argument \<open>push\<close> of the decode loop; its contract is the
  locale \<open>field_sink\<close>, interpreted for both implementations.
\<close>

type_synonym memchr_fn = "u8 \<Rightarrow> bytes \<Rightarrow> usize option"

subsection \<open>Field references and raw messages\<close>

record field =
  f_tag :: u32
  f_val :: bytes

definition field_as_str :: "field \<Rightarrow> decode_error + bytes" where
  "field_as_str f = (if utf8_valid (f_val f) then Inr (f_val f) else Inl InvalidUtf8)"

datatype field_store = Inline "field list" | Borrowed "field list"

fun as_slice :: "field_store \<Rightarrow> field list" where
  "as_slice (Inline fs) = fs"
| "as_slice (Borrowed fs) = fs"

record raw_message =
  rm_buffer :: bytes
  rm_begin_string :: range
  rm_body :: range
  rm_msg_type :: msg_type
  rm_fields :: field_store

definition check_range :: "range \<Rightarrow> usize \<Rightarrow> decode_error + unit" where
  "check_range r buffer_len =
    (if fst r > snd r \<or> snd r > buffer_len
     then Inl (RangeOutOfBounds (fst r) (snd r) buffer_len) else Inr ())"

definition raw_message_new ::
  "bytes \<Rightarrow> range \<Rightarrow> range \<Rightarrow> msg_type \<Rightarrow> field list \<Rightarrow> decode_error + raw_message" where
  "raw_message_new buffer begin_string body msg_type fs =
    bindR (check_range begin_string (length buffer)) (\<lambda>_.
    bindR (check_range body (length buffer)) (\<lambda>_.
    Inr \<lparr>rm_buffer = buffer, rm_begin_string = begin_string, rm_body = body,
         rm_msg_type = msg_type, rm_fields = Inline fs\<rparr>))"

definition raw_message_with_field_slice ::
  "bytes \<Rightarrow> range \<Rightarrow> range \<Rightarrow> msg_type \<Rightarrow> field list \<Rightarrow> decode_error + raw_message" where
  "raw_message_with_field_slice buffer begin_string body msg_type fs =
    bindR (check_range begin_string (length buffer)) (\<lambda>_.
    bindR (check_range body (length buffer)) (\<lambda>_.
    Inr \<lparr>rm_buffer = buffer, rm_begin_string = begin_string, rm_body = body,
         rm_msg_type = msg_type, rm_fields = Borrowed fs\<rparr>))"

definition rm_get_range :: "raw_message \<Rightarrow> range \<Rightarrow> decode_error + bytes" where
  "rm_get_range m r =
    ok_or (RangeOutOfBounds (fst r) (snd r) (length (rm_buffer m)))
      (get_range (rm_buffer m) (fst r) (snd r))"

definition raw_begin_string :: "raw_message \<Rightarrow> decode_error + bytes" where
  "raw_begin_string m =
    bindR (rm_get_range m (rm_begin_string m)) (\<lambda>bs.
      if utf8_valid bs then Inr bs else Inl InvalidUtf8)"

definition raw_body :: "raw_message \<Rightarrow> decode_error + bytes" where
  "raw_body m = rm_get_range m (rm_body m)"

definition raw_get_field :: "raw_message \<Rightarrow> u32 \<Rightarrow> field option" where
  "raw_get_field m t = find (\<lambda>f. f_tag f = t) (as_slice (rm_fields m))"

definition raw_get_field_str :: "raw_message \<Rightarrow> u32 \<Rightarrow> bytes option" where
  "raw_get_field_str m t =
    (case raw_get_field m t of None \<Rightarrow> None
     | Some f \<Rightarrow> (case field_as_str f of Inl _ \<Rightarrow> None | Inr s \<Rightarrow> Some s))"

subsection \<open>The bounded field index\<close>

record field_span =
  sp_tag :: u32
  sp_start :: usize
  sp_end :: usize

record field_index =
  fi_spans :: "field_span list"
  fi_capacity :: usize

definition field_index_with_capacity :: "usize \<Rightarrow> field_index" where
  "field_index_with_capacity cap = \<lparr>fi_spans = [], fi_capacity = cap\<rparr>"

definition field_index_clear :: "field_index \<Rightarrow> field_index" where
  "field_index_clear ix = ix\<lparr>fi_spans := []\<rparr>"

definition field_index_push :: "field_index \<Rightarrow> u32 \<Rightarrow> range \<Rightarrow> (decode_error + unit) \<times> field_index" where
  "field_index_push ix t r =
    (if fi_capacity ix \<le> length (fi_spans ix) then (Inl (TooManyFields (fi_capacity ix)), ix)
     else (Inr (), ix\<lparr>fi_spans := fi_spans ix @
             [\<lparr>sp_tag = t, sp_start = fst r, sp_end = snd r\<rparr>]\<rparr>))"

record indexed_message =
  im_buffer :: bytes
  im_index :: field_index
  im_msg_type :: msg_type
  im_begin_string :: range
  im_body :: range

definition im_resolve :: "bytes \<Rightarrow> field_span \<Rightarrow> field option" where
  "im_resolve buffer sp =
    map_option (\<lambda>v. \<lparr>f_tag = sp_tag sp, f_val = v\<rparr>) (get_range buffer (sp_start sp) (sp_end sp))"

definition im_fields :: "indexed_message \<Rightarrow> field list" where
  "im_fields m = List.map_filter (im_resolve (im_buffer m)) (fi_spans (im_index m))"

definition im_get_field :: "indexed_message \<Rightarrow> u32 \<Rightarrow> field option" where
  "im_get_field m t =
    (case find (\<lambda>sp. sp_tag sp = t) (fi_spans (im_index m)) of
       None \<Rightarrow> None | Some sp \<Rightarrow> im_resolve (im_buffer m) sp)"

fun resolve_spans :: "bytes \<Rightarrow> field_span list \<Rightarrow> decode_error + field list" where
  "resolve_spans buffer [] = Inr []"
| "resolve_spans buffer (sp # sps) =
    bindR (ok_or (RangeOutOfBounds (sp_start sp) (sp_end sp) (length buffer)) (im_resolve buffer sp)) (\<lambda>f.
    bindR (resolve_spans buffer sps) (\<lambda>fs. Inr (f # fs)))"

definition to_raw_message :: "indexed_message \<Rightarrow> decode_error + raw_message" where
  "to_raw_message m =
    bindR (resolve_spans (im_buffer m) (fi_spans (im_index m))) (\<lambda>fs.
      raw_message_new (im_buffer m) (im_begin_string m) (im_body m) (im_msg_type m) fs)"

subsection \<open>The decoder\<close>

record pending_data =
  p_data_tag :: u32
  p_declared :: usize

record decoder =
  d_input :: bytes
  d_offset :: usize
  d_validate :: bool
  d_pending :: "pending_data option"

definition decoder_new :: "bytes \<Rightarrow> decoder" where
  "decoder_new inp = \<lparr>d_input = inp, d_offset = 0, d_validate = True, d_pending = None\<rparr>"

definition with_checksum_validation :: "decoder \<Rightarrow> bool \<Rightarrow> decoder" where
  "with_checksum_validation d v = d\<lparr>d_validate := v\<rparr>"

definition MAX_TAG_DIAGNOSTIC_LEN :: usize where "MAX_TAG_DIAGNOSTIC_LEN = 16"

definition invalid_tag :: "bytes \<Rightarrow> decode_error" where
  "invalid_tag bs = InvalidTag (case get_to bs MAX_TAG_DIAGNOSTIC_LEN of Some s \<Rightarrow> s | None \<Rightarrow> bs)"

definition invalid_length :: "u32 \<Rightarrow> decode_error" where
  "invalid_length t = InvalidFieldValue t ''length field value is not a valid byte count''"

text \<open>How many bytes of the value belong to the field.\<close>

definition field_value_len ::
  "memchr_fn \<Rightarrow> usize \<Rightarrow> usize \<Rightarrow> usize option \<Rightarrow> u32 \<Rightarrow> usize option \<Rightarrow> bytes
     \<Rightarrow> decode_error + usize" where
  "field_value_len memchr off value_start counted t body_limit value_bytes =
    (case counted of
       Some decl \<Rightarrow>
         bindR (ok_or (UnterminatedField t) (usize_add off value_start)) (\<lambda>value_offset.
         bindR (case body_limit of
                  Some limit \<Rightarrow>
                    bindR (ok_or InvalidBodyLength (usize_sub limit value_offset)) (\<lambda>a.
                      Inr (min a (length value_bytes)))
                | None \<Rightarrow> Inr (length value_bytes)) (\<lambda>available.
         if available \<le> decl \<or> get_at value_bytes decl \<noteq> Some SOH
         then Inl (InvalidDataLength t decl available)
         else Inr decl))
     | None \<Rightarrow> ok_or (UnterminatedField t) (memchr SOH value_bytes))"

text \<open>Tag, offset of the value in the remaining bytes, and the bytes from there on.\<close>

definition field_head ::
  "memchr_fn \<Rightarrow> bytes \<Rightarrow> decode_error + u32 \<times> usize \<times> bytes" where
  "field_head memchr remaining =
    bindR (ok_or (invalid_tag remaining) (memchr EQUALS remaining)) (\<lambda>eq_pos.
    bindR (ok_or (invalid_tag remaining) (get_to remaining eq_pos)) (\<lambda>tag_bytes.
    bindR (ok_or (invalid_tag tag_bytes) (parse_tag tag_bytes)) (\<lambda>t.
    bindR (ok_or (UnterminatedField t) (usize_add eq_pos 1)) (\<lambda>value_start.
    bindR (ok_or (UnterminatedField t) (get_from remaining value_start)) (\<lambda>value_bytes.
    Inr (t, value_start, value_bytes))))))"

text \<open>The value and the offset after its SOH.\<close>

definition field_value ::
  "memchr_fn \<Rightarrow> usize \<Rightarrow> usize \<Rightarrow> usize option \<Rightarrow> u32 \<Rightarrow> usize option \<Rightarrow> bytes
     \<Rightarrow> decode_error + bytes \<times> usize" where
  "field_value memchr off value_start counted t body_limit value_bytes =
    bindR (field_value_len memchr off value_start counted t body_limit value_bytes) (\<lambda>value_len.
    bindR (ok_or (UnterminatedField t) (get_to value_bytes value_len)) (\<lambda>value.
    bindR (ok_or (UnterminatedField t)
            (Option.bind (usize_add value_start value_len) (\<lambda>end. usize_add end 1))) (\<lambda>consumed.
    bindR (ok_or (UnterminatedField t) (usize_add off consumed)) (\<lambda>off'.
    Inr (value, off')))))"

definition counted_for :: "pending_data option \<Rightarrow> u32 \<Rightarrow> usize option" where
  "counted_for pend t =
    (case pend of
       Some p \<Rightarrow> if p_data_tag p = t then Some (p_declared p) else None
     | None \<Rightarrow> None)"

text \<open>A LENGTH field announces its DATA field.\<close>

definition announce :: "u32 \<Rightarrow> bytes \<Rightarrow> decoder \<Rightarrow> (decode_error + field option) \<times> decoder" where
  "announce t value d =
    (case paired_data_tag t of
       None \<Rightarrow> (Inr (Some \<lparr>f_tag = t, f_val = value\<rparr>), d)
     | Some dt \<Rightarrow>
         (case parse_length value of
            None \<Rightarrow> (Inl (invalid_length t), d)
          | Some n \<Rightarrow> (Inr (Some \<lparr>f_tag = t, f_val = value\<rparr>),
                       d\<lparr>d_pending := Some \<lparr>p_data_tag = dt, p_declared = n\<rparr>\<rparr>)))"

definition next_field_bounded ::
  "memchr_fn \<Rightarrow> usize option \<Rightarrow> decoder \<Rightarrow> (decode_error + field option) \<times> decoder" where
  "next_field_bounded memchr body_limit d =
    (case get_from (d_input d) (d_offset d) of
       None \<Rightarrow> (Inr None, d)
     | Some remaining \<Rightarrow>
         if remaining = [] then (Inr None, d)
         else
           (case field_head memchr remaining of
              Inl e \<Rightarrow> (Inl e, d)
            | Inr (t, value_start, value_bytes) \<Rightarrow>
                let d1 = d\<lparr>d_pending := None\<rparr>
                in (case field_value memchr (d_offset d) value_start (counted_for (d_pending d) t) t body_limit value_bytes of
                      Inl e \<Rightarrow> (Inl e, d1)
                    | Inr (value, off') \<Rightarrow> announce t value (d1\<lparr>d_offset := off'\<rparr>))))"

definition next_field ::
  "memchr_fn \<Rightarrow> decoder \<Rightarrow> (decode_error + field option) \<times> decoder" where
  "next_field memchr d = next_field_bounded memchr None d"

definition rebase :: "range \<Rightarrow> usize \<Rightarrow> usize \<Rightarrow> decode_error + range" where
  "rebase r message_start buffer_len =
    (let oob = RangeOutOfBounds (fst r) (snd r) buffer_len in
     bindR (ok_or oob (usize_sub (fst r) message_start)) (\<lambda>s.
     bindR (ok_or oob (usize_sub (snd r) message_start)) (\<lambda>e. Inr (s, e))))"

definition value_range :: "decoder \<Rightarrow> usize \<Rightarrow> usize \<Rightarrow> decode_error + range" where
  "value_range d message_start value_len =
    (let oob = RangeOutOfBounds message_start (d_offset d) (length (d_input d)) in
     bindR (ok_or oob (usize_sub (d_offset d) 1)) (\<lambda>value_end.
     bindR (ok_or oob (usize_sub value_end value_len)) (\<lambda>value_start.
     rebase (value_start, value_end) message_start (length (d_input d)))))"

subsection \<open>Progress of one field\<close>

lemma next_field_bounded_Some:
  assumes "next_field_bounded mc lim d = (Inr (Some f), d')"
  shows "d_offset d + 2 \<le> d_offset d'" and "d_offset d < length (d_input d)"
    and "d_input d' = d_input d" and "d_validate d' = d_validate d"
  using assms
  by (auto simp: next_field_bounded_def field_head_def field_value_def announce_def Let_def
      result_simps checked_simps get_from_def bind_eq_Some_conv
      split: option.splits if_splits sum.splits prod.splits)

lemma next_field_bounded_decreases:
  assumes "next_field_bounded mc lim d = (Inr (Some f), d')"
  shows "length (d_input d') - d_offset d' < length (d_input d) - d_offset d"
  using next_field_bounded_Some[OF assms] by simp

lemma next_field_bounded_frame:
  assumes "next_field_bounded mc lim d = (r, d')"
  shows "d_input d' = d_input d" and "d_validate d' = d_validate d"
  using assms
  by (auto simp: next_field_bounded_def announce_def Let_def
      split: option.splits if_splits sum.splits prod.splits)

subsection \<open>Decoding a frame\<close>

type_synonym 's push_fn = "'s \<Rightarrow> field \<Rightarrow> decode_error + range \<Rightarrow> (decode_error + unit) \<times> 's"

record frame =
  fr_buffer :: bytes
  fr_begin_string :: range
  fr_body :: range
  fr_msg_type :: msg_type

record frame_head =
  fh_start :: usize
  fh_begin_string :: field
  fh_begin_string_range :: range
  fh_body_length :: field
  fh_body_length_range :: range
  fh_body_start :: usize
  fh_body_end :: usize
  fh_msg_type_field :: field
  fh_msg_type_range :: "decode_error + range"
  fh_msg_type :: msg_type

text \<open>The three fields every frame opens with, up to the parsed message type.\<close>

definition decode_head :: "memchr_fn \<Rightarrow> (decoder, decode_error, frame_head) fallible" where
  "decode_head memchr =
    thenS getS (\<lambda>d0. let start = d_offset d0 in
    thenS (next_field memchr) (\<lambda>f8o.
    thenS (liftS (ok_or Incomplete f8o)) (\<lambda>f8.
    thenS (liftS (if f_tag f8 \<noteq> 8 then Inl InvalidBeginString else Inr ())) (\<lambda>_.
    thenS getS (\<lambda>d1.
    thenS (liftS (value_range d1 start (length (f_val f8)))) (\<lambda>begin_string.
    thenS (next_field memchr) (\<lambda>f9o.
    thenS (liftS (ok_or MissingBodyLength f9o)) (\<lambda>f9.
    thenS (liftS (if f_tag f9 \<noteq> 9 then Inl MissingBodyLength else Inr ())) (\<lambda>_.
    thenS (liftS (ok_or InvalidBodyLength (parse_length (f_val f9)))) (\<lambda>body_length.
    thenS getS (\<lambda>d2.
    thenS (liftS (value_range d2 start (length (f_val f9)))) (\<lambda>body_length_range.
    let body_start = d_offset d2 in
    thenS (liftS (ok_or InvalidBodyLength (usize_add body_start body_length))) (\<lambda>body_end.
    thenS (next_field_bounded memchr (Some body_end)) (\<lambda>f35o.
    thenS (liftS (ok_or MissingMsgType f35o)) (\<lambda>f35.
    thenS (liftS (if f_tag f35 \<noteq> 35 then Inl MissingMsgType else Inr ())) (\<lambda>_.
    thenS (liftS (field_as_str f35)) (\<lambda>code.
    thenS (liftS (map_err InvalidMsgType (msg_type_new code))) (\<lambda>msg_type.
    thenS getS (\<lambda>d3.
    liftS (Inr \<lparr>fh_start = start, fh_begin_string = f8, fh_begin_string_range = begin_string,
      fh_body_length = f9, fh_body_length_range = body_length_range,
      fh_body_start = body_start, fh_body_end = body_end, fh_msg_type_field = f35,
      fh_msg_type_range = value_range d3 start (length (f_val f35)),
      fh_msg_type = msg_type\<rparr>))))))))))))))))))))"

definition push_head :: "'s push_fn \<Rightarrow> frame_head \<Rightarrow> ('s, decode_error, unit) fallible" where
  "push_head push h =
    thenS (\<lambda>s. push s (fh_begin_string h) (Inr (fh_begin_string_range h))) (\<lambda>_.
    thenS (\<lambda>s. push s (fh_body_length h) (Inr (fh_body_length_range h))) (\<lambda>_.
    (\<lambda>s. push s (fh_msg_type_field h) (fh_msg_type_range h))))"

text \<open>
  The loop up to the CheckSum (10) field; \<open>Some (field, start)\<close> when it was found,
  \<open>None\<close> at the end of the input.
\<close>

function field_loop ::
  "memchr_fn \<Rightarrow> 's push_fn \<Rightarrow> usize option \<Rightarrow> usize \<Rightarrow> decoder \<Rightarrow> 's
     \<Rightarrow> (decode_error + (field \<times> usize) option) \<times> decoder \<times> 's" where
  "field_loop memchr push limit start d s =
    (case next_field_bounded memchr limit d of
       (Inl e, d') \<Rightarrow> (Inl e, d', s)
     | (Inr None, d') \<Rightarrow> (Inr None, d', s)
     | (Inr (Some f), d') \<Rightarrow>
         if f_tag f = 10 then (Inr (Some (f, d_offset d)), d', s)
         else (case push s f (value_range d' start (length (f_val f))) of
                 (Inl e, s') \<Rightarrow> (Inl e, d', s')
               | (Inr _, s') \<Rightarrow> field_loop memchr push limit start d' s'))"
  by pat_completeness auto
termination
  by (relation "measure (\<lambda>(_, _, _, _, d, _). length (d_input d) - d_offset d)")
     (auto dest!: sym[of "(_, _)" "next_field_bounded _ _ _"] intro: next_field_bounded_decreases)

declare field_loop.simps [simp del]

text \<open>What remains once the fields are collected: trailer, length, checksum, ranges.\<close>

definition decode_tail ::
  "frame_head \<Rightarrow> (field \<times> usize) option \<Rightarrow> decoder \<Rightarrow> decode_error + frame" where
  "decode_tail h cs d =
    bindR (ok_or Incomplete cs) (\<lambda>(checksum_ref, checksum_field_start).
    if fh_body_end h \<noteq> checksum_field_start then Inl InvalidBodyLength
    else
      bindR (if d_validate d then
          bindR (ok_or (InvalidFieldValue 10 ''invalid checksum format'')
                   (parse_checksum (f_val checksum_ref))) (\<lambda>decl.
          bindR (ok_or (RangeOutOfBounds (fh_start h) checksum_field_start (length (d_input d)))
                   (get_range (d_input d) (fh_start h) checksum_field_start)) (\<lambda>span.
          let calculated = calculate_checksum span in
          if calculated \<noteq> decl then Inl (ChecksumMismatch calculated decl) else Inr ()))
        else Inr ()) (\<lambda>_.
      bindR (rebase (fh_body_start h, fh_body_end h) (fh_start h) (length (d_input d))) (\<lambda>body.
      bindR (ok_or (RangeOutOfBounds (fh_start h) (d_offset d) (length (d_input d)))
               (get_range (d_input d) (fh_start h) (d_offset d))) (\<lambda>buffer.
      Inr \<lparr>fr_buffer = buffer, fr_begin_string = fh_begin_string_range h, fr_body = body,
           fr_msg_type = fh_msg_type h\<rparr>))))"

definition decode_frame ::
  "memchr_fn \<Rightarrow> 's push_fn \<Rightarrow> decoder \<Rightarrow> 's \<Rightarrow> (decode_error + frame) \<times> decoder \<times> 's" where
  "decode_frame memchr push d s =
    (case decode_head memchr (d\<lparr>d_pending := None\<rparr>) of
       (Inl e, d1) \<Rightarrow> (Inl e, d1, s)
     | (Inr h, d1) \<Rightarrow>
         (case push_head push h s of
            (Inl e, s1) \<Rightarrow> (Inl e, d1, s1)
          | (Inr _, s1) \<Rightarrow>
              (case field_loop memchr push (Some (fh_body_end h)) (fh_start h) d1 s1 of
                 (Inl e, d2, s2) \<Rightarrow> (Inl e, d2, s2)
               | (Inr cs, d2, s2) \<Rightarrow> (decode_tail h cs d2, d2, s2))))"

text \<open>The two implementations of \<^verbatim>\<open>FieldSink\<close>, and the two public decoders.\<close>

definition vec_push :: "field list push_fn" where
  "vec_push fs f span = (Inr (), fs @ [f])"

definition index_push :: "field_index push_fn" where
  "index_push ix f span =
    (case span of Inl e \<Rightarrow> (Inl e, ix) | Inr r \<Rightarrow> field_index_push ix (f_tag f) r)"

definition decode :: "memchr_fn \<Rightarrow> decoder \<Rightarrow> (decode_error + raw_message) \<times> decoder" where
  "decode memchr d =
    (case decode_frame memchr vec_push d [] of
       (Inl e, d', _) \<Rightarrow> (Inl e, d')
     | (Inr fr, d', fs) \<Rightarrow>
         (raw_message_new (fr_buffer fr) (fr_begin_string fr) (fr_body fr) (fr_msg_type fr) fs, d'))"

definition decode_into ::
  "memchr_fn \<Rightarrow> decoder \<Rightarrow> field_index \<Rightarrow> (decode_error + indexed_message) \<times> decoder \<times> field_index" where
  "decode_into memchr d ix =
    (case decode_frame memchr index_push d (field_index_clear ix) of
       (Inl e, d', ix') \<Rightarrow> (Inl e, d', ix')
     | (Inr fr, d', ix') \<Rightarrow>
         (Inr \<lparr>im_buffer = fr_buffer fr, im_index = ix', im_msg_type = fr_msg_type fr,
               im_begin_string = fr_begin_string fr, im_body = fr_body fr\<rparr>, d', ix'))"

definition decoder_remaining :: "decoder \<Rightarrow> bytes" where
  "decoder_remaining d = (case get_from (d_input d) (d_offset d) of Some r \<Rightarrow> r | None \<Rightarrow> [])"

definition decoder_is_empty :: "decoder \<Rightarrow> bool" where
  "decoder_is_empty d \<longleftrightarrow> length (d_input d) \<le> d_offset d"

definition decoder_reset :: "decoder \<Rightarrow> decoder" where
  "decoder_reset d = d\<lparr>d_offset := 0, d_pending := None\<rparr>"

end
