(* ===== verification/Decoder_Spec.thy ===== *)
theory Decoder_Spec
  imports Decoder
begin

text \<open>
  What the decoder accepts, stated without the decoder: a relation between bytes and the
  fields they spell, the rule that only a counted DATA value may contain SOH, and the shape
  of a whole frame.  The decoder is proved to accept exactly that.
\<close>

subsection \<open>The language of fields\<close>

text \<open>The framing a LENGTH field announces for the next field.\<close>

definition announced :: "field \<Rightarrow> pending_data option" where
  "announced f =
    (case paired_data_tag (f_tag f) of
       None \<Rightarrow> None
     | Some dt \<Rightarrow> map_option (\<lambda>n. \<lparr>p_data_tag = dt, p_declared = n\<rparr>) (parse_length (f_val f)))"

definition field_framed :: "pending_data option \<Rightarrow> field \<Rightarrow> bool" where
  "field_framed p f \<longleftrightarrow>
     (case counted_for p (f_tag f) of Some n \<Rightarrow> length (f_val f) = n | None \<Rightarrow> SOH \<notin> set (f_val f))
     \<and> (paired_data_tag (f_tag f) \<noteq> None \<longrightarrow> parse_length (f_val f) \<noteq> None)"

fun well_framed :: "pending_data option \<Rightarrow> field list \<Rightarrow> bool" where
  "well_framed p [] = True"
| "well_framed p (f # fs) \<longleftrightarrow> field_framed p f \<and> well_framed (announced f) fs"

inductive wire :: "bytes \<Rightarrow> field list \<Rightarrow> bool" where
  wire_Nil: "wire [] []"
| wire_Cons: "parse_tag ds = Some (f_tag f) \<Longrightarrow> wire bs fs
     \<Longrightarrow> wire (ds @ EQUALS # f_val f @ SOH # bs) (f # fs)"

inductive_cases wire_NilE: "wire bs []"
inductive_cases wire_ConsE: "wire bs (f # fs)"
inductive_simps wire_Nil_iff: "wire bs []"
inductive_simps wire_Cons_iff: "wire bs (f # fs)"

lemma wire_append: "wire a fs \<Longrightarrow> wire b gs \<Longrightarrow> wire (a @ b) (fs @ gs)"
  by (induction rule: wire.induct) (auto intro: wire_Cons)

lemma wire_snoc:
  "wire bs fs \<Longrightarrow> parse_tag ds = Some (f_tag f)
     \<Longrightarrow> wire (bs @ ds @ EQUALS # f_val f @ [SOH]) (fs @ [f])"
  by (rule wire_append) (auto intro: wire.intros)

lemma parse_tag_plain: "parse_tag ds = Some t \<Longrightarrow> EQUALS \<notin> set ds"
  by (auto simp: parse_tag_iff dest: all_digits_no_special)

definition pending_of :: "field list \<Rightarrow> pending_data option \<Rightarrow> pending_data option" where
  "pending_of fs p = (if fs = [] then p else announced (last fs))"

lemma well_framed_append:
  "well_framed p (fs @ gs) \<longleftrightarrow> well_framed p fs \<and> well_framed (pending_of fs p) gs"
  by (induction fs arbitrary: p) (auto simp: pending_of_def)

subsection \<open>One field\<close>

lemma announce_simps:
  assumes "paired_data_tag (f_tag f) \<noteq> None \<longrightarrow> parse_length (f_val f) \<noteq> None" and "d_pending d = None"
  shows "announce (f_tag f) (f_val f) d = (Inr (Some f), d\<lparr>d_pending := announced f\<rparr>)"
  using assms by (auto simp: announce_def announced_def split: option.splits)

lemma announce_Some:
  assumes "announce t v d = (Inr (Some f), d')" and "d_pending d = None"
  shows "f = \<lparr>f_tag = t, f_val = v\<rparr>" and "d' = d\<lparr>d_pending := announced f\<rparr>"
    and "paired_data_tag t \<noteq> None \<longrightarrow> parse_length v \<noteq> None"
  using assms by (auto simp: announce_def announced_def split: option.splits)

context memchr_law
begin

lemma field_head_iff:
  "field_head memchr rem = Inr (t, vs, vb) \<longleftrightarrow>
     (\<exists>ds. rem = ds @ EQUALS # vb \<and> parse_tag ds = Some t \<and> vs = Suc (length ds) \<and> vs \<le> usize_max)"
proof
  assume "field_head memchr rem = Inr (t, vs, vb)"
  then obtain i where i: "memchr EQUALS rem = Some i" and "parse_tag (take i rem) = Some t"
    "vs = Suc i" "vb = drop (Suc i) rem" "vs \<le> usize_max"
    by (auto simp: field_head_def result_simps checked_simps slice_defs split: if_splits)
  with memchr_decompose[OF i]
  show "\<exists>ds. rem = ds @ EQUALS # vb \<and> parse_tag ds = Some t \<and> vs = Suc (length ds) \<and> vs \<le> usize_max"
    by (intro exI[of _ "take i rem"]) auto
next
  assume "\<exists>ds. rem = ds @ EQUALS # vb \<and> parse_tag ds = Some t \<and> vs = Suc (length ds) \<and> vs \<le> usize_max"
  then obtain ds where ds: "rem = ds @ EQUALS # vb" "parse_tag ds = Some t"
    "vs = Suc (length ds)" "vs \<le> usize_max" by blast
  then have "memchr EQUALS rem = Some (length ds)"
    using memchr_at parse_tag_plain by blast
  with ds show "field_head memchr rem = Inr (t, vs, vb)"
    by (simp add: field_head_def result_simps checked_simps slice_defs)
qed

lemma field_value_sound:
  assumes "field_value memchr off vs counted t lim vb = Inr (v, off')"
  shows "\<exists>rest. vb = v @ SOH # rest" and "off' = off + vs + length v + 1"
    and "case counted of Some n \<Rightarrow> length v = n | None \<Rightarrow> SOH \<notin> set v"
proof -
  from assms obtain n where n: "field_value_len memchr off vs counted t lim vb = Inr n"
    "n \<le> length vb" "v = take n vb" "off' = off + vs + n + 1"
    by (auto simp: field_value_def result_simps checked_simps slice_defs bind_eq_Some_conv
        split: if_splits)
  have "n < length vb \<and> vb ! n = SOH \<and> (case counted of Some m \<Rightarrow> n = m | None \<Rightarrow> SOH \<notin> set (take n vb))"
    using n(1) memchr_Some[of SOH vb n]
    by (auto simp: field_value_len_def result_simps slice_defs split: option.splits if_splits)
  then show "\<exists>rest. vb = v @ SOH # rest" "off' = off + vs + length v + 1"
    "case counted of Some n \<Rightarrow> length v = n | None \<Rightarrow> SOH \<notin> set v"
    using n id_take_nth_drop[of n vb] by (auto split: option.splits)
qed

lemma field_value_complete:
  assumes "vb = v @ SOH # rest"
    and "case counted of Some n \<Rightarrow> length v = n | None \<Rightarrow> SOH \<notin> set v"
    and "off + vs + length v + 1 \<le> usize_max"
    and "case lim of None \<Rightarrow> True | Some l \<Rightarrow> counted = None \<or> off + vs + length v < l"
  shows "field_value memchr off vs counted t lim vb = Inr (v, off + vs + length v + 1)"
proof -
  have "field_value_len memchr off vs counted t lim vb = Inr (length v)"
  proof (cases counted)
    case None
    then show ?thesis using assms(1,2) memchr_at[of SOH v rest]
      by (simp add: field_value_len_def)
  next
    case (Some n)
    then show ?thesis using assms
      by (auto simp: field_value_len_def usize_add_def usize_sub_def get_at_def split: option.splits)
  qed
  then show ?thesis using assms(1,3) by (simp add: field_value_def usize_add_def get_to_def)
qed

lemma next_field_sound:
  assumes "next_field_bounded memchr lim d = (Inr (Some f), d')"
  shows "\<exists>ds. parse_tag ds = Some (f_tag f)
      \<and> drop (d_offset d) (d_input d)
          = ds @ EQUALS # f_val f @ SOH # drop (d_offset d') (d_input d)
      \<and> d_offset d' = d_offset d + length ds + length (f_val f) + 2
      \<and> d_offset d' \<le> length (d_input d)"
    and "field_framed (d_pending d) f"
    and "d' = d\<lparr>d_offset := d_offset d', d_pending := announced f\<rparr>"
proof -
  let ?rem = "drop (d_offset d) (d_input d)"
  from assms obtain t vs vb v off' where
    off: "d_offset d \<le> length (d_input d)" and
    h: "field_head memchr ?rem = Inr (t, vs, vb)" and
    v: "field_value memchr (d_offset d) vs (counted_for (d_pending d) t) t lim vb = Inr (v, off')" and
    a: "announce t v (d\<lparr>d_pending := None, d_offset := off'\<rparr>) = (Inr (Some f), d')"
    by (auto simp: next_field_bounded_def Let_def get_from_def
        split: option.splits if_splits sum.splits prod.splits)
  from h obtain ds where ds: "?rem = ds @ EQUALS # vb" "parse_tag ds = Some t" "vs = Suc (length ds)"
    by (auto simp: field_head_iff)
  note vs = field_value_sound[OF v]
  from vs(1) obtain rest where rest: "vb = v @ SOH # rest" by blast
  note an = announce_Some[OF a]
  have f: "f = \<lparr>f_tag = t, f_val = v\<rparr>" using an(1) by simp
  have d': "d_offset d' = off'" "d' = d\<lparr>d_offset := off', d_pending := announced f\<rparr>"
    using an(2) by simp_all
  have off': "off' = d_offset d + (length ds + length v + 2)"
    using vs(2) ds(3) by simp
  have "drop (length ds + length v + 2) ?rem = rest"
    by (simp add: ds(1) rest)
  then have r: "rest = drop off' (d_input d)" by (simp add: off' add.commute)
  have "length ?rem = length ds + length v + 2 + length rest" by (simp add: ds(1) rest)
  then have "off' \<le> length (d_input d)" using off off' by simp
  with ds rest r d' off' f
  show "\<exists>ds. parse_tag ds = Some (f_tag f)
      \<and> ?rem = ds @ EQUALS # f_val f @ SOH # drop (d_offset d') (d_input d)
      \<and> d_offset d' = d_offset d + length ds + length (f_val f) + 2
      \<and> d_offset d' \<le> length (d_input d)"
    by (intro exI[of _ ds]) simp
  show "field_framed (d_pending d) f"
    using vs(3) an(3) f by (simp add: field_framed_def split: option.splits)
  show "d' = d\<lparr>d_offset := d_offset d', d_pending := announced f\<rparr>"
    using d' by simp
qed

lemma next_field_complete:
  assumes "drop (d_offset d) (d_input d) = ds @ EQUALS # f_val f @ SOH # rest"
    and "parse_tag ds = Some (f_tag f)" and "field_framed (d_pending d) f"
    and "length (d_input d) \<le> usize_max"
    and "case lim of None \<Rightarrow> True
         | Some l \<Rightarrow> counted_for (d_pending d) (f_tag f) = None
                     \<or> d_offset d + length ds + length (f_val f) + 1 < l"
  shows "next_field_bounded memchr lim d
     = (Inr (Some f), d\<lparr>d_offset := d_offset d + length ds + length (f_val f) + 2,
                        d_pending := announced f\<rparr>)"
proof -
  let ?rem = "drop (d_offset d) (d_input d)"
  have len: "length ?rem = length ds + length (f_val f) + 2 + length rest"
    by (simp add: assms(1))
  then have off: "d_offset d + (length ds + length (f_val f) + 2) \<le> length (d_input d)" by simp
  have h: "field_head memchr ?rem = Inr (f_tag f, Suc (length ds), f_val f @ SOH # rest)"
    using assms(1,2,4) off by (auto simp: field_head_iff)
  have v: "field_value memchr (d_offset d) (Suc (length ds)) (counted_for (d_pending d) (f_tag f))
      (f_tag f) lim (f_val f @ SOH # rest) = Inr (f_val f, d_offset d + Suc (length ds) + length (f_val f) + 1)"
    using assms(3,4,5) off
    by (intro field_value_complete) (auto simp: field_framed_def split: option.splits)
  have a: "announce (f_tag f) (f_val f) (d\<lparr>d_pending := None, d_offset := x\<rparr>)
      = (Inr (Some f), d\<lparr>d_offset := x, d_pending := announced f\<rparr>)" for x
    using assms(3) by (subst announce_simps) (simp_all add: field_framed_def)
  have ne: "?rem \<noteq> []" using assms(1) by simp
  have le: "d_offset d \<le> length (d_input d)" using off by simp
  show ?thesis using le ne h v a
    by (simp add: next_field_bounded_def get_from_def Let_def)
qed

lemma loop_sound:
  assumes "field_loop memchr vec_push lim start d s = (Inr (Some (ck, cs)), d', s')"
  shows "\<exists>fs bs ds. s' = s @ fs \<and> wire bs fs \<and> well_framed (d_pending d) fs
      \<and> (\<forall>f\<in>set fs. f_tag f \<noteq> 10) \<and> f_tag ck = 10 \<and> parse_tag ds = Some 10
      \<and> drop (d_offset d) (d_input d)
          = bs @ ds @ EQUALS # f_val ck @ SOH # drop (d_offset d') (d_input d)
      \<and> cs = d_offset d + length bs
      \<and> d_offset d' = cs + length ds + length (f_val ck) + 2
      \<and> d_offset d' \<le> length (d_input d)
      \<and> field_framed (pending_of fs (d_pending d)) ck
      \<and> d' = d\<lparr>d_offset := d_offset d', d_pending := announced ck\<rparr>"
  using assms
proof (induction "length (d_input d) - d_offset d" arbitrary: d s rule: less_induct)
  case less
  from less.prems obtain f d1 where
    nf: "next_field_bounded memchr lim d = (Inr (Some f), d1)"
    by (subst (asm) field_loop.simps) (auto split: prod.splits sum.splits option.splits)
  note snd = next_field_sound[OF nf]
  from snd(1) obtain ds where ds: "parse_tag ds = Some (f_tag f)"
    "drop (d_offset d) (d_input d) = ds @ EQUALS # f_val f @ SOH # drop (d_offset d1) (d_input d)"
    "d_offset d1 = d_offset d + length ds + length (f_val f) + 2"
    "d_offset d1 \<le> length (d_input d)" by blast
  have inp: "d_input d1 = d_input d" "d_pending d1 = announced f"
    using arg_cong[OF snd(3), of d_input] arg_cong[OF snd(3), of d_pending] by simp_all
  show ?case
  proof (cases "f_tag f = 10")
    case True
    then have eq: "ck = f" "cs = d_offset d" "d' = d1" "s' = s"
      using less.prems nf by (auto simp: field_loop.simps[of memchr vec_push lim start d s])
    show ?thesis
      using ds snd(2,3) True unfolding eq
      by (intro exI[of _ "[]"] exI[of _ ds]) (auto simp: wire_Nil pending_of_def)
  next
    case False
    then have rec: "field_loop memchr vec_push lim start d1 (s @ [f]) = (Inr (Some (ck, cs)), d', s')"
      using less.prems nf by (simp add: field_loop.simps[of memchr vec_push lim start d s] vec_push_def)
    from less.hyps[OF next_field_bounded_decreases[OF nf] rec]
    obtain fs bs dc where IH: "s' = (s @ [f]) @ fs" "wire bs fs" "well_framed (d_pending d1) fs"
      "\<forall>f\<in>set fs. f_tag f \<noteq> 10" "f_tag ck = 10" "parse_tag dc = Some 10"
      "drop (d_offset d1) (d_input d1)
          = bs @ dc @ EQUALS # f_val ck @ SOH # drop (d_offset d') (d_input d1)"
      "cs = d_offset d1 + length bs" "d_offset d' = cs + length dc + length (f_val ck) + 2"
      "d_offset d' \<le> length (d_input d1)" "field_framed (pending_of fs (d_pending d1)) ck"
      "d' = d1\<lparr>d_offset := d_offset d', d_pending := announced ck\<rparr>" by blast
    have w: "wire (ds @ EQUALS # f_val f @ SOH # bs) (f # fs)" using ds(1) IH(2) by (rule wire_Cons)
    show ?thesis
    proof (intro exI conjI)
      show "s' = s @ (f # fs)" using IH(1) by simp
      show "wire (ds @ EQUALS # f_val f @ SOH # bs) (f # fs)" by (rule w)
      show "well_framed (d_pending d) (f # fs)" using snd(2) IH(3) inp(2) by simp
      show "\<forall>f\<in>set (f # fs). f_tag f \<noteq> 10" using False IH(4) by simp
      show "f_tag ck = 10" "parse_tag dc = Some 10" by (fact IH(5,6))+
      show "drop (d_offset d) (d_input d)
          = (ds @ EQUALS # f_val f @ SOH # bs) @ dc @ EQUALS # f_val ck @ SOH # drop (d_offset d') (d_input d)"
        using ds(2) IH(7) inp(1) by simp
      show "cs = d_offset d + length (ds @ EQUALS # f_val f @ SOH # bs)" using IH(8) ds(3) by simp
      show "d_offset d' = cs + length dc + length (f_val ck) + 2" by (fact IH(9))
      show "d_offset d' \<le> length (d_input d)" using IH(10) inp(1) by simp
      show "field_framed (pending_of (f # fs) (d_pending d)) ck"
        using IH(11) inp(2) by (simp add: pending_of_def split: if_splits)
      show "d' = d\<lparr>d_offset := d_offset d', d_pending := announced ck\<rparr>"
        using IH(12) snd(3) by (cases d; cases d1; cases d') simp
    qed
  qed
qed

lemma loop_complete:
  assumes "wire bs fs" and "drop (d_offset d) (d_input d) = bs @ ds @ EQUALS # cv @ SOH # rest"
    and "well_framed (d_pending d) fs" and "\<forall>f\<in>set fs. f_tag f \<noteq> 10"
    and "parse_tag ds = Some 10" and "SOH \<notin> set cv" and "length (d_input d) \<le> usize_max"
    and "d_offset d + length bs \<le> l"
    and "counted_for (pending_of fs (d_pending d)) 10 = None"
  shows "field_loop memchr vec_push (Some l) start d s
     = (Inr (Some (\<lparr>f_tag = 10, f_val = cv\<rparr>, d_offset d + length bs)),
        d\<lparr>d_offset := d_offset d + length bs + length ds + length cv + 2, d_pending := None\<rparr>, s @ fs)"
  using assms
proof (induction arbitrary: d s rule: wire.induct)
  case wire_Nil
  let ?ck = "\<lparr>f_tag = 10, f_val = cv\<rparr>"
  have p10: "paired_data_tag 10 = None" by (simp add: paired_data_tag_def FIRST_LENGTH_TAG_def)
  then have fr: "field_framed (d_pending d) ?ck" and an: "announced ?ck = None"
    using wire_Nil.prems by (simp_all add: field_framed_def pending_of_def announced_def)
  have "next_field_bounded memchr (Some l) d
     = (Inr (Some ?ck), d\<lparr>d_offset := d_offset d + length ds + length (f_val ?ck) + 2,
                        d_pending := announced ?ck\<rparr>)"
    using wire_Nil.prems fr by (intro next_field_complete[where rest = rest]) (auto simp: pending_of_def)
  then show ?case by (subst field_loop.simps) (simp add: an)
next
  case (wire_Cons dt f bs fs)
  have ll: "length (drop (d_offset d) (d_input d)) = length dt + length (f_val f) + 2 + length bs
      + length ds + length cv + 2 + length rest"
    by (simp add: wire_Cons.prems(1))
  have nf: "next_field_bounded memchr (Some l) d
     = (Inr (Some f), d\<lparr>d_offset := d_offset d + length dt + length (f_val f) + 2,
                        d_pending := announced f\<rparr>)"
    using wire_Cons.prems wire_Cons.hyps
    by (intro next_field_complete[where rest = "bs @ ds @ EQUALS # cv @ SOH # rest"]) auto
  let ?d1 = "d\<lparr>d_offset := d_offset d + length dt + length (f_val f) + 2, d_pending := announced f\<rparr>"
  have "drop (d_offset ?d1) (d_input ?d1) = drop (length dt + length (f_val f) + 2) (drop (d_offset d) (d_input d))"
    by (simp add: algebra_simps)
  also have "\<dots> = bs @ ds @ EQUALS # cv @ SOH # rest"
    by (simp add: wire_Cons.prems(1))
  finally have dr: "drop (d_offset ?d1) (d_input ?d1) = bs @ ds @ EQUALS # cv @ SOH # rest" .
  have IH: "field_loop memchr vec_push (Some l) start ?d1 (s @ [f])
     = (Inr (Some (\<lparr>f_tag = 10, f_val = cv\<rparr>, d_offset ?d1 + length bs)),
        ?d1\<lparr>d_offset := d_offset ?d1 + length bs + length ds + length cv + 2, d_pending := None\<rparr>, (s @ [f]) @ fs)"
    using wire_Cons.prems
    by (intro wire_Cons.IH dr) (auto simp: pending_of_def split: if_splits)
  show ?case
    using wire_Cons.prems(3) nf IH
    by (subst field_loop.simps) (simp add: vec_push_def algebra_simps)
qed

end

end
