(* ===== verification/Decoder_Correct.thy ===== *)
theory Decoder_Correct
  imports Decoder_Spec
begin

text \<open>
  The decoder accepts exactly the well-formed frames: soundness, completeness and the
  resulting characterisation; and the agreement of the allocating and the bounded decoder
  through the contract of a field sink.
\<close>

subsection \<open>The shape of a frame\<close>

definition head_bytes :: "bytes \<Rightarrow> field \<Rightarrow> bytes \<Rightarrow> field \<Rightarrow> bytes" where
  "head_bytes t8 f8 t9 f9 = t8 @ EQUALS # f_val f8 @ SOH # t9 @ EQUALS # f_val f9 @ [SOH]"

text \<open>
  A message is well formed when its bytes are a BeginString (8), a BodyLength (9) that counts
  the body, a body that opens with a MsgType (35) the code can represent and has no tag 10,
  and a CheckSum (10) field; every value holds SOH only under the counting rule; the ranges
  point at the BeginString value and the body; and, when checksums are verified, the trailer
  declares the checksum of everything before it.
\<close>

definition well_formed_message :: "bool \<Rightarrow> raw_message \<Rightarrow> bool" where
  "well_formed_message check m \<longleftrightarrow>
    (\<exists>t8 f8 t9 f9 f35 more body dc cv.
       rm_fields m = Inline (f8 # f9 # f35 # more)
       \<and> f_tag f8 = 8 \<and> f_tag f9 = 9 \<and> f_tag f35 = 35 \<and> (\<forall>f\<in>set more. f_tag f \<noteq> 10)
       \<and> parse_tag t8 = Some 8 \<and> parse_tag t9 = Some 9 \<and> parse_tag dc = Some 10
       \<and> wire body (f35 # more) \<and> well_framed None (f8 # f9 # f35 # more)
       \<and> parse_length (f_val f9) = Some (length body)
       \<and> utf8_valid (f_val f35) \<and> msg_type_new (f_val f35) = Inr (rm_msg_type m)
       \<and> SOH \<notin> set cv
       \<and> rm_buffer m = head_bytes t8 f8 t9 f9 @ body @ dc @ EQUALS # cv @ [SOH]
       \<and> rm_begin_string m = (Suc (length t8), Suc (length t8) + length (f_val f8))
       \<and> rm_body m = (length (head_bytes t8 f8 t9 f9), length (head_bytes t8 f8 t9 f9) + length body)
       \<and> (check \<longrightarrow> parse_checksum cv = Some (calculate_checksum (head_bytes t8 f8 t9 f9 @ body))))"

lemma paired_data_tag_small [simp]:
  "paired_data_tag 8 = None" "paired_data_tag 9 = None" "paired_data_tag 10 = None"
  "paired_data_tag 35 = None"
  by (simp_all add: paired_data_tag_def FIRST_LENGTH_TAG_def)

lemma announced_small:
  "f_tag f = 8 \<or> f_tag f = 9 \<or> f_tag f = 10 \<or> f_tag f = 35 \<Longrightarrow> announced f = None"
  by (auto simp: announced_def)

lemma counted_for_None [simp]: "counted_for None t = None"
  by (simp add: counted_for_def)

lemma announced_not_10: "counted_for (announced f) 10 = None"
proof -
  have "d \<noteq> 10" if "paired_data_tag l = Some d" for l d
    using paired_data_tag_values[OF that] by auto
  then show ?thesis by (auto simp: announced_def counted_for_def split: option.splits)
qed

lemma pending_of_not_10: "counted_for (pending_of fs None) 10 = None"
  by (simp add: pending_of_def announced_not_10)

context memchr_law
begin

lemma value_range_eq:
  "start \<le> off - Suc n \<Longrightarrow> Suc n \<le> off \<Longrightarrow>
     value_range \<lparr>d_input = i, d_offset = off, d_validate = v, d_pending = p\<rparr> start n
       = Inr (off - Suc n - start, off - 1 - start)"
  by (auto simp: value_range_def rebase_def usize_sub_def Let_def)

lemma decode_head_sound:
  assumes "decode_head memchr d = (Inr h, d')" and "d_pending d = None"
  shows "\<exists>t8 f8 t9 f9 t35 f35 n. fh_begin_string h = f8 \<and> fh_body_length h = f9
      \<and> fh_msg_type_field h = f35 \<and> f_tag f8 = 8 \<and> f_tag f9 = 9 \<and> f_tag f35 = 35
      \<and> parse_tag t8 = Some 8 \<and> parse_tag t9 = Some 9 \<and> parse_tag t35 = Some 35
      \<and> well_framed None [f8, f9, f35] \<and> parse_length (f_val f9) = Some n
      \<and> drop (d_offset d) (d_input d)
          = head_bytes t8 f8 t9 f9 @ t35 @ EQUALS # f_val f35 @ SOH # drop (d_offset d') (d_input d)
      \<and> d_offset d' = d_offset d + length (head_bytes t8 f8 t9 f9) + length t35 + length (f_val f35) + 2
      \<and> d_offset d' \<le> length (d_input d)
      \<and> d' = d\<lparr>d_offset := d_offset d'\<rparr>
      \<and> utf8_valid (f_val f35) \<and> msg_type_new (f_val f35) = Inr (fh_msg_type h)
      \<and> fh_start h = d_offset d
      \<and> fh_begin_string_range h = (Suc (length t8), Suc (length t8) + length (f_val f8))
      \<and> fh_body_start h = d_offset d + length (head_bytes t8 f8 t9 f9)
      \<and> fh_body_end h = fh_body_start h + n"
proof -
  from assms(1) obtain f8 d1 r8 f9 d2 r9 n f35 where
    n1: "next_field_bounded memchr None d = (Inr (Some f8), d1)" and t8: "f_tag f8 = 8" and
    r8: "value_range d1 (d_offset d) (length (f_val f8)) = Inr r8" and
    n2: "next_field_bounded memchr None d1 = (Inr (Some f9), d2)" and t9: "f_tag f9 = 9" and
    n: "parse_length (f_val f9) = Some n" and
    n3: "next_field_bounded memchr (Some (d_offset d2 + n)) d2 = (Inr (Some f35), d')" and
    t35: "f_tag f35 = 35" and
    u: "utf8_valid (f_val f35)" "msg_type_new (f_val f35) = Inr (fh_msg_type h)" and
    h: "fh_start h = d_offset d" "fh_begin_string h = f8" "fh_body_length h = f9"
       "fh_msg_type_field h = f35" "fh_begin_string_range h = r8"
       "fh_body_start h = d_offset d2" "fh_body_end h = d_offset d2 + n"
    by (auto simp: decode_head_def Let_def next_field_def field_as_str_def result_simps checked_simps
        split: if_splits)
  note s1 = next_field_sound[OF n1] and s2 = next_field_sound[OF n2] and s3 = next_field_sound[OF n3]
  from s1(1) obtain x8 where x8: "parse_tag x8 = Some 8"
    "drop (d_offset d) (d_input d) = x8 @ EQUALS # f_val f8 @ SOH # drop (d_offset d1) (d_input d)"
    "d_offset d1 = d_offset d + length x8 + length (f_val f8) + 2" using t8 by auto
  have d1: "d1 = d\<lparr>d_offset := d_offset d1\<rparr>"
    using s1(3) announced_small[of f8] t8 assms(2) by (cases d; cases d1) simp
  have i1: "d_input d1 = d_input d" "d_pending d1 = None"
    using assms(2) arg_cong[OF d1, of d_input] arg_cong[OF d1, of d_pending] by simp_all
  from s2(1) obtain x9 where x9: "parse_tag x9 = Some 9"
    "drop (d_offset d1) (d_input d) = x9 @ EQUALS # f_val f9 @ SOH # drop (d_offset d2) (d_input d)"
    "d_offset d2 = d_offset d1 + length x9 + length (f_val f9) + 2" using t9 i1 by auto
  have d2: "d2 = d\<lparr>d_offset := d_offset d2\<rparr>"
    using s2(3) announced_small[of f9] t9 assms(2) d1 by (cases d; cases d1; cases d2) simp
  have i2: "d_input d2 = d_input d" "d_pending d2 = None"
    using assms(2) arg_cong[OF d2, of d_input] arg_cong[OF d2, of d_pending] by simp_all
  from s3(1) obtain x35 where x35: "parse_tag x35 = Some 35"
    "drop (d_offset d2) (d_input d) = x35 @ EQUALS # f_val f35 @ SOH # drop (d_offset d') (d_input d)"
    "d_offset d' = d_offset d2 + length x35 + length (f_val f35) + 2"
    "d_offset d' \<le> length (d_input d)" using t35 i2 by auto
  have d3: "d' = d\<lparr>d_offset := d_offset d'\<rparr>"
    using s3(3) announced_small[of f35] t35 assms(2) d2 by (cases d; cases d2; cases d') simp
  have wf: "well_framed None [f8, f9, f35]"
    using s1(2) s2(2) s3(2) assms(2) i1(2) i2(2) announced_small[of f8] announced_small[of f9] t8 t9
    by simp
  have r: "r8 = (Suc (length x8), Suc (length x8) + length (f_val f8))"
    using r8 x8(3) by (auto simp: value_range_def rebase_def result_simps checked_simps Let_def)
  have dr: "drop (d_offset d) (d_input d)
      = head_bytes x8 f8 x9 f9 @ x35 @ EQUALS # f_val f35 @ SOH # drop (d_offset d') (d_input d)"
    by (simp only: x8(2) x9(2) x35(2) head_bytes_def append.assoc append_Cons append_Nil)
  have o2: "d_offset d2 = d_offset d + length (head_bytes x8 f8 x9 f9)"
    using x8(3) x9(3) by (simp add: head_bytes_def)
  show ?thesis
    by (rule exI[of _ x8], rule exI[of _ f8], rule exI[of _ x9], rule exI[of _ f9],
        rule exI[of _ x35], rule exI[of _ f35], rule exI[of _ n], intro conjI)
       (rule h t8 t9 t35 x8(1) x9(1) x35(1) x35(4) wf n dr u d3 | simp only: h r o2 x35(3))+
qed

lemma decode_sound:
  assumes dec: "decode memchr d = (Inr m, d')"
  shows "well_formed_message (d_validate d) m"
    and "\<exists>rest. drop (d_offset d) (d_input d) = rm_buffer m @ rest"
    and "d' = d\<lparr>d_offset := d_offset d + length (rm_buffer m), d_pending := None\<rparr>"
proof -
  let ?d0 = "d\<lparr>d_pending := None\<rparr>"
  from dec obtain h d1 fs cso fr where
    hd: "decode_head memchr ?d0 = (Inr h, d1)" and
    lp0: "field_loop memchr vec_push (Some (fh_body_end h)) (fh_start h) d1
           [fh_begin_string h, fh_body_length h, fh_msg_type_field h] = (Inr cso, d', fs)" and
    tl0: "decode_tail h cso d' = Inr fr" and
    m: "m = \<lparr>rm_buffer = fr_buffer fr, rm_begin_string = fr_begin_string fr, rm_body = fr_body fr,
             rm_msg_type = fr_msg_type fr, rm_fields = Inline fs\<rparr>"
    by (auto simp: decode_def decode_frame_def push_head_def vec_push_def thenS_def
        raw_message_new_def check_range_def
        split: prod.splits sum.splits if_splits)
  from tl0 obtain ck cs where cso: "cso = Some (ck, cs)"
    by (cases cso) (auto simp: decode_tail_def)
  note lp = lp0[unfolded cso] and tl = tl0[unfolded cso]
  from decode_head_sound[OF hd] obtain t8 f8 t9 f9 t35 f35 n where
    f: "fh_begin_string h = f8" "fh_body_length h = f9" "fh_msg_type_field h = f35"
      "f_tag f8 = 8" "f_tag f9 = 9" "f_tag f35 = 35"
    and t: "parse_tag t8 = Some 8" "parse_tag t9 = Some 9" "parse_tag t35 = Some 35"
    and wf: "well_framed None [f8, f9, f35]" and n: "parse_length (f_val f9) = Some n"
    and dr: "drop (d_offset d) (d_input d)
          = head_bytes t8 f8 t9 f9 @ t35 @ EQUALS # f_val f35 @ SOH # drop (d_offset d1) (d_input d)"
    and o1: "d_offset d1 = d_offset d + length (head_bytes t8 f8 t9 f9) + length t35 + length (f_val f35) + 2"
    and d1: "d1 = d\<lparr>d_offset := d_offset d1, d_pending := None\<rparr>"
    and mt: "utf8_valid (f_val f35)" "msg_type_new (f_val f35) = Inr (fh_msg_type h)"
    and h: "fh_start h = d_offset d"
      "fh_begin_string_range h = (Suc (length t8), Suc (length t8) + length (f_val f8))"
      "fh_body_start h = d_offset d + length (head_bytes t8 f8 t9 f9)"
      "fh_body_end h = fh_body_start h + n" by auto
  have i1: "d_input d1 = d_input d" "d_pending d1 = None" "d_validate d1 = d_validate d"
    using arg_cong[OF d1, of d_input] arg_cong[OF d1, of d_pending] arg_cong[OF d1, of d_validate]
    by simp_all
  from loop_sound[OF lp] obtain more bs dc where
    l: "fs = [f8, f9, f35] @ more" "wire bs more" "well_framed None more"
      "\<forall>f\<in>set more. f_tag f \<noteq> 10" "f_tag ck = 10" "parse_tag dc = Some 10"
      "drop (d_offset d1) (d_input d)
          = bs @ dc @ EQUALS # f_val ck @ SOH # drop (d_offset d') (d_input d)"
      "cs = d_offset d1 + length bs" "d_offset d' = cs + length dc + length (f_val ck) + 2"
      "d_offset d' \<le> length (d_input d)" "field_framed (pending_of more None) ck"
      "d' = d1\<lparr>d_offset := d_offset d', d_pending := announced ck\<rparr>"
    by (auto simp: f i1)
  have d': "d' = d\<lparr>d_offset := d_offset d', d_pending := None\<rparr>"
    using l(5,12) d1 announced_small[of ck] by (cases d; cases d1; cases d') simp
  have i': "d_input d' = d_input d" "d_validate d' = d_validate d"
    using arg_cong[OF d', of d_input] arg_cong[OF d', of d_validate] by simp_all
  define body where "body = t35 @ EQUALS # f_val f35 @ SOH # bs"
  define buf where "buf = head_bytes t8 f8 t9 f9 @ body @ dc @ EQUALS # f_val ck @ [SOH]"
  have buf: "drop (d_offset d) (d_input d) = buf @ drop (d_offset d') (d_input d)"
    using dr l(7) by (simp add: buf_def body_def)
  have o': "d_offset d' = d_offset d + length buf"
    using l(8,9) o1 by (simp add: buf_def body_def)
  have be: "fh_body_end h = cs" using tl by (simp add: decode_tail_def split: if_splits)
  have nb: "n = length body"
    using be l(8) o1 h(3,4) by (simp add: body_def)
  have cs: "cs = d_offset d + length (head_bytes t8 f8 t9 f9) + length body"
    using be h(3,4) nb by simp
  have take_buf: "take k (drop (d_offset d) (d_input d)) = take k buf" if "k \<le> length buf" for k
    using that buf by simp
  have soh: "SOH \<notin> set (f_val ck)"
    using l(5,11) pending_of_not_10[of more] by (simp add: field_framed_def)
  have fr: "fr_buffer fr = buf" "fr_begin_string fr = fh_begin_string_range h"
    "fr_msg_type fr = fh_msg_type h"
    "fr_body fr = (length (head_bytes t8 f8 t9 f9), length (head_bytes t8 f8 t9 f9) + length body)"
    using tl o' h(1,3,4) nb take_buf[of "length buf"]
    by (auto simp: decode_tail_def result_simps rebase_def checked_simps get_range_def i' Let_def
        split: if_splits)
  have chk: "d_validate d \<longrightarrow>
      parse_checksum (f_val ck) = Some (calculate_checksum (head_bytes t8 f8 t9 f9 @ body))"
  proof
    assume "d_validate d"
    then have "parse_checksum (f_val ck)
        = Some (calculate_checksum (take (cs - d_offset d) (drop (d_offset d) (d_input d))))"
      using tl h(1) by (auto simp: decode_tail_def result_simps get_range_def i' Let_def split: if_splits)
    also have "take (cs - d_offset d) (drop (d_offset d) (d_input d)) = head_bytes t8 f8 t9 f9 @ body"
      by (subst take_buf) (simp_all add: cs buf_def)
    finally show "parse_checksum (f_val ck) = Some (calculate_checksum (head_bytes t8 f8 t9 f9 @ body))" .
  qed
  have wb: "wire body (f35 # more)"
    unfolding body_def using t(3) f(6) l(2) by (intro wire_Cons) simp_all
  have wfa: "well_framed None (f8 # f9 # f35 # more)"
    using wf l(3) announced_small[of f35] f(6) by simp
  show "well_formed_message (d_validate d) m"
    unfolding well_formed_message_def
    by (rule exI[of _ t8], rule exI[of _ f8], rule exI[of _ t9], rule exI[of _ f9], rule exI[of _ f35],
        rule exI[of _ more], rule exI[of _ body], rule exI[of _ dc], rule exI[of _ "f_val ck"],
        intro conjI)
       (rule f(4-6) l(4,6) t(1,2) wb wfa soh chk mt(1) n[unfolded nb]
        | simp only: m fr l(1) mt(2) h(2) buf_def append_Cons append_Nil raw_message.select_convs)+
  show "\<exists>rest. drop (d_offset d) (d_input d) = rm_buffer m @ rest"
    using buf by (simp add: m fr)
  show "d' = d\<lparr>d_offset := d_offset d + length (rm_buffer m), d_pending := None\<rparr>"
    using d' o' by (simp add: m fr)
qed

lemma value_range_after:
  assumes "d_offset d = start + k + n + 1"
  shows "value_range d start n = Inr (k, k + n)"
  using assms by (simp add: value_range_def rebase_def usize_sub_def Let_def)

lemma decode_head_complete:
  assumes dr: "drop (d_offset d) (d_input d) = head_bytes t8 f8 t9 f9 @ t35 @ EQUALS # f_val f35 @ SOH # rest"
    and t: "f_tag f8 = 8" "f_tag f9 = 9" "f_tag f35 = 35"
    and p: "parse_tag t8 = Some 8" "parse_tag t9 = Some 9" "parse_tag t35 = Some 35"
    and wf: "well_framed None [f8, f9, f35]" and n: "parse_length (f_val f9) = Some n"
    and mt: "utf8_valid (f_val f35)" "msg_type_new (f_val f35) = Inr ty"
    and max: "length (d_input d) \<le> usize_max" and pend: "d_pending d = None"
    and nb: "d_offset d + length (head_bytes t8 f8 t9 f9) + n \<le> usize_max"
  defines "bs \<equiv> d_offset d + length (head_bytes t8 f8 t9 f9)"
    and "o3 \<equiv> d_offset d + length (head_bytes t8 f8 t9 f9) + length t35 + length (f_val f35) + 2"
  shows "decode_head memchr d = (Inr \<lparr>fh_start = d_offset d, fh_begin_string = f8,
      fh_begin_string_range = (Suc (length t8), Suc (length t8) + length (f_val f8)),
      fh_body_length = f9,
      fh_body_length_range = (length t8 + length (f_val f8) + length t9 + 3,
        length t8 + length (f_val f8) + length t9 + 3 + length (f_val f9)),
      fh_body_start = bs, fh_body_end = bs + n, fh_msg_type_field = f35,
      fh_msg_type_range = value_range (d\<lparr>d_offset := o3\<rparr>) (d_offset d) (length (f_val f35)),
      fh_msg_type = ty\<rparr>, d\<lparr>d_offset := o3\<rparr>)"
proof -
  let ?x8 = "t8 @ EQUALS # f_val f8 @ [SOH]"
  let ?x9 = "t9 @ EQUALS # f_val f9 @ [SOH]"
  let ?r3 = "t35 @ EQUALS # f_val f35 @ SOH # rest"
  let ?d1 = "d\<lparr>d_offset := d_offset d + length t8 + length (f_val f8) + 2\<rparr>"
  let ?d2 = "d\<lparr>d_offset := bs\<rparr>"
  have fr: "field_framed None f8" "field_framed None f9" "field_framed None f35"
    using wf t announced_small[of f8] announced_small[of f9] by simp_all
  have an: "announced f8 = None" "announced f9 = None" "announced f35 = None"
    using t announced_small by simp_all
  have dr0: "drop (d_offset d) (d_input d) = ?x8 @ ?x9 @ ?r3"
    using dr by (simp add: head_bytes_def)
  have dr1: "drop (d_offset d + length ?x8) (d_input d) = ?x9 @ ?r3"
    by (subst add.commute, subst drop_drop[symmetric], subst dr0) (simp only: append_eq_conv_conj[THEN iffD1, OF refl] drop_append, simp)
  have bs: "bs = d_offset d + length ?x8 + length ?x9"
    by (simp add: bs_def head_bytes_def)
  have dr2: "drop bs (d_input d) = ?r3"
    unfolding bs
    by (subst add.commute, subst drop_drop[symmetric], subst dr1) simp
  have n1: "next_field_bounded memchr None d = (Inr (Some f8), ?d1)"
    using dr0 p(1) t(1) fr(1) max pend an(1)
    by (subst next_field_complete[where ds = t8 and f = f8 and rest = "?x9 @ ?r3"]) auto
  have n2: "next_field_bounded memchr None ?d1 = (Inr (Some f9), ?d2)"
    using dr1 p(2) t(2) fr(2) max pend an(2) bs
    by (subst next_field_complete[where ds = t9 and f = f9 and rest = "?r3"]) (auto simp: add.assoc)
  have n3: "next_field_bounded memchr (Some (bs + n)) ?d2 = (Inr (Some f35), d\<lparr>d_offset := o3\<rparr>)"
    using dr2 p(3) t(3) fr(3) max pend an(3)
    by (subst next_field_complete[where ds = t35 and f = f35 and rest = rest]) (auto simp: o3_def bs_def)
  have r8: "value_range ?d1 (d_offset d) (length (f_val f8))
      = Inr (Suc (length t8), Suc (length t8) + length (f_val f8))"
    by (rule value_range_after) simp
  have r9: "value_range ?d2 (d_offset d) (length (f_val f9))
      = Inr (length t8 + length (f_val f8) + length t9 + 3,
        length t8 + length (f_val f8) + length t9 + 3 + length (f_val f9))"
    by (rule value_range_after) (simp add: bs)
  show ?thesis
  proof -
    define d1 d2 d3 where d: "d1 = ?d1" "d2 = ?d2" "d3 = d\<lparr>d_offset := o3\<rparr>"
    note step = n1[folded d] n2[folded d] n3[folded d] r8[folded d] r9[folded d]
    have "d_offset d2 = bs" by (simp add: d)
    then show ?thesis
      using t n mt nb unfolding decode_head_def next_field_def thenS_def getS_def liftS_def d(3)[symmetric]
      by (simp add: step field_as_str_def usize_add_def bs_def[symmetric] Let_def)
  qed
qed

lemma decode_complete:
  assumes wfm: "well_formed_message (d_validate d) m"
    and dr: "drop (d_offset d) (d_input d) = rm_buffer m @ rest"
    and max: "length (d_input d) \<le> usize_max"
  shows "decode memchr d = (Inr m, d\<lparr>d_offset := d_offset d + length (rm_buffer m), d_pending := None\<rparr>)"
proof -
  from wfm obtain t8 f8 t9 f9 f35 more body dc cv where
    m: "rm_fields m = Inline (f8 # f9 # f35 # more)"
      "rm_buffer m = head_bytes t8 f8 t9 f9 @ body @ dc @ EQUALS # cv @ [SOH]"
      "rm_begin_string m = (Suc (length t8), Suc (length t8) + length (f_val f8))"
      "rm_body m = (length (head_bytes t8 f8 t9 f9), length (head_bytes t8 f8 t9 f9) + length body)"
    and t: "f_tag f8 = 8" "f_tag f9 = 9" "f_tag f35 = 35" "\<forall>f\<in>set more. f_tag f \<noteq> 10"
    and p: "parse_tag t8 = Some 8" "parse_tag t9 = Some 9" "parse_tag dc = Some 10"
    and w: "wire body (f35 # more)" and wf: "well_framed None (f8 # f9 # f35 # more)"
    and n: "parse_length (f_val f9) = Some (length body)"
    and mt: "utf8_valid (f_val f35)" "msg_type_new (f_val f35) = Inr (rm_msg_type m)"
    and soh: "SOH \<notin> set cv"
    and chk: "d_validate d \<longrightarrow> parse_checksum cv = Some (calculate_checksum (head_bytes t8 f8 t9 f9 @ body))"
    unfolding well_formed_message_def by blast
  from w t(3) obtain t35 bs where b: "body = t35 @ EQUALS # f_val f35 @ SOH # bs"
    "parse_tag t35 = Some 35" "wire bs more" by (auto elim: wire_ConsE)
  let ?hd = "head_bytes t8 f8 t9 f9" and ?d0 = "d\<lparr>d_pending := None\<rparr>"
  let ?tail = "dc @ EQUALS # cv @ SOH # rest"
  define o3 where "o3 = d_offset d + length ?hd + length t35 + length (f_val f35) + 2"
  define off where "off = d_offset d + length (rm_buffer m)"
  have len: "length (drop (d_offset d) (d_input d)) = length (rm_buffer m) + length rest"
    by (simp add: dr)
  have offb: "off \<le> length (d_input d)" "d_offset d \<le> length (d_input d)"
    using len m(2) by (auto simp: off_def)
  have an: "announced f35 = None" using t(3) announced_small by simp
  have wf3: "well_framed None [f8, f9, f35]" and wfm: "well_framed None more"
    using wf an by simp_all
  have hd: "decode_head memchr ?d0 = (Inr \<lparr>fh_start = d_offset d, fh_begin_string = f8,
      fh_begin_string_range = (Suc (length t8), Suc (length t8) + length (f_val f8)),
      fh_body_length = f9,
      fh_body_length_range = (length t8 + length (f_val f8) + length t9 + 3,
        length t8 + length (f_val f8) + length t9 + 3 + length (f_val f9)),
      fh_body_start = d_offset d + length ?hd, fh_body_end = d_offset d + length ?hd + length body,
      fh_msg_type_field = f35,
      fh_msg_type_range = value_range (?d0\<lparr>d_offset := o3\<rparr>) (d_offset d) (length (f_val f35)),
      fh_msg_type = rm_msg_type m\<rparr>, ?d0\<lparr>d_offset := o3\<rparr>)" (is "_ = (Inr ?h, ?d1)")
    using decode_head_complete[of ?d0 t8 f8 t9 f9 t35 f35 "bs @ ?tail" "length body" "rm_msg_type m"]
      dr m(2) b t(1-3) p(1,2) wf3 n mt max offb
    by (simp add: o3_def off_def)
  have dr1: "drop o3 (d_input d) = bs @ ?tail"
  proof -
    have "drop o3 (d_input d) = drop (o3 - d_offset d) (drop (d_offset d) (d_input d))"
      by (simp add: o3_def add.commute add.left_commute)
    also have "\<dots> = bs @ ?tail" by (simp add: dr m(2) b(1) o3_def)
    finally show ?thesis .
  qed
  have oc: "o3 + length bs = d_offset d + length ?hd + length body" by (simp add: o3_def b(1))
  have oo: "o3 + length bs + length dc + length cv + 2 = off"
    by (simp add: off_def m(2) oc)
  have lp: "field_loop memchr vec_push (Some (d_offset d + length ?hd + length body)) (d_offset d) ?d1 [f8, f9, f35]
     = (Inr (Some (\<lparr>f_tag = 10, f_val = cv\<rparr>, d_offset d + length ?hd + length body)),
        d\<lparr>d_offset := off, d_pending := None\<rparr>, [f8, f9, f35] @ more)"
    using loop_complete[of bs more ?d1 dc cv rest "o3 + length bs" "d_offset d" "[f8, f9, f35]"]
      b(3) dr1 wfm t(4) p(3) soh max pending_of_not_10[of more]
    by (simp add: oc[symmetric] oo[symmetric])
  have g1: "get_range (d_input d) (d_offset d) off = Some (rm_buffer m)"
    using offb dr by (simp add: get_range_def off_def)
  have g2: "get_range (d_input d) (d_offset d) (d_offset d + length ?hd + length body) = Some (?hd @ body)"
    using offb dr by (simp add: get_range_def off_def m(2))
  have tl: "decode_tail ?h (Some (\<lparr>f_tag = 10, f_val = cv\<rparr>, d_offset d + length ?hd + length body))
      (d\<lparr>d_offset := off, d_pending := None\<rparr>)
     = Inr \<lparr>fr_buffer = rm_buffer m, fr_begin_string = rm_begin_string m, fr_body = rm_body m,
            fr_msg_type = rm_msg_type m\<rparr>"
    using chk by (simp add: decode_tail_def g1 g2 rebase_def usize_sub_def m Let_def)
  have chkr: "check_range (rm_begin_string m) (length (rm_buffer m)) = Inr ()"
    "check_range (rm_body m) (length (rm_buffer m)) = Inr ()"
    by (simp_all add: check_range_def m head_bytes_def)
  define h where "h = ?h"
  define d1 where "d1 = ?d1"
  note hd' = hd[folded h_def d1_def] and lp' = lp[folded d1_def] and tl' = tl[folded h_def]
  have "fh_begin_string h = f8" "fh_body_length h = f9" "fh_msg_type_field h = f35"
    "fh_start h = d_offset d" "fh_body_end h = d_offset d + length ?hd + length body"
    by (simp_all add: h_def)
  then have "decode_frame memchr vec_push d [] =
      (Inr \<lparr>fr_buffer = rm_buffer m, fr_begin_string = rm_begin_string m, fr_body = rm_body m,
            fr_msg_type = rm_msg_type m\<rparr>, d\<lparr>d_offset := off, d_pending := None\<rparr>, [f8, f9, f35] @ more)"
    unfolding decode_frame_def hd'
    by (simp add: push_head_def thenS_def lp'[simplified] tl' vec_push_def[of _ f8] vec_push_def[of _ f9]
        vec_push_def[of _ f35])
  then show ?thesis
    by (simp add: decode_def raw_message_new_def chkr m(1)[symmetric] off_def)
qed

theorem decode_accepts_iff:
  assumes "length (d_input d) \<le> usize_max"
  shows "decode memchr d = (Inr m, d') \<longleftrightarrow>
      well_formed_message (d_validate d) m
      \<and> (\<exists>rest. drop (d_offset d) (d_input d) = rm_buffer m @ rest)
      \<and> d' = d\<lparr>d_offset := d_offset d + length (rm_buffer m), d_pending := None\<rparr>"
  using decode_sound[of d m d'] decode_complete[of d m, OF _ _ assms] by auto

end

subsection \<open>Field sinks\<close>

text \<open>
  The contract of \<^verbatim>\<open>FieldSink::push\<close>.  \<open>holds buf s fs\<close> says that the sink \<open>s\<close>, read
  against the message bytes consumed so far, stands for the fields \<open>fs\<close>; it survives more
  bytes being consumed.  A push of a field whose range is known succeeds while the sink has
  room for it and fails with \<open>TooManyFields\<close> when it has not.
\<close>

locale field_sink =
  fixes push :: "'s push_fn"
    and holds :: "bytes \<Rightarrow> 's \<Rightarrow> field list \<Rightarrow> bool"
    and room :: "'s \<Rightarrow> usize option"
  assumes holds_extend: "holds buf s fs \<Longrightarrow> holds (buf @ ext) s fs"
    and push_room: "holds buf s fs \<Longrightarrow> get_range buf a b = Some (f_val f) \<Longrightarrow>
        (case room s of None \<Rightarrow> True | Some cap \<Rightarrow> length fs < cap) \<Longrightarrow>
        \<exists>s'. push s f (Inr (a, b)) = (Inr (), s') \<and> holds buf s' (fs @ [f]) \<and> room s' = room s"
    and push_full: "holds buf s fs \<Longrightarrow> room s = Some cap \<Longrightarrow> cap \<le> length fs \<Longrightarrow>
        push s f (Inr (a, b)) = (Inl (TooManyFields cap), s)"

interpretation vec_sink: field_sink vec_push "\<lambda>_ s fs. s = fs" "\<lambda>_. None"
  by unfold_locales (auto simp: vec_push_def)

definition index_holds :: "bytes \<Rightarrow> field_index \<Rightarrow> field list \<Rightarrow> bool" where
  "index_holds buf ix fs \<longleftrightarrow> map (im_resolve buf) (fi_spans ix) = map Some fs"

lemma get_range_extend: "get_range buf a b = Some v \<Longrightarrow> get_range (buf @ ext) a b = Some v"
  by (auto simp: get_range_def split: if_splits)

lemma index_holds_length: "index_holds buf ix fs \<Longrightarrow> length (fi_spans ix) = length fs"
  unfolding index_holds_def by (metis length_map)

lemma im_resolve_extend: "im_resolve buf sp = Some f \<Longrightarrow> im_resolve (buf @ ext) sp = Some f"
  by (auto simp: im_resolve_def dest: get_range_extend)

lemma index_holds_extend: "index_holds buf ix fs \<Longrightarrow> index_holds (buf @ ext) ix fs"
  unfolding index_holds_def
  by (auto simp: list_eq_iff_nth_eq dest: im_resolve_extend) (metis im_resolve_extend nth_map)

interpretation index_sink: field_sink index_push index_holds "\<lambda>ix. Some (fi_capacity ix)"
proof unfold_locales
  fix buf ext :: bytes and ix fs
  show "index_holds buf ix fs \<Longrightarrow> index_holds (buf @ ext) ix fs" by (rule index_holds_extend)
next
  fix buf :: bytes and ix fs a b and f :: field
  assume "index_holds buf ix fs" "get_range buf a b = Some (f_val f)"
    "case Some (fi_capacity ix) of None \<Rightarrow> True | Some cap \<Rightarrow> length fs < cap"
  then show "\<exists>s'. index_push ix f (Inr (a, b)) = (Inr (), s') \<and> index_holds buf s' (fs @ [f])
      \<and> Some (fi_capacity s') = Some (fi_capacity ix)"
    using index_holds_length[of buf ix fs]
    by (auto simp: index_push_def field_index_push_def index_holds_def im_resolve_def)
next
  fix buf :: bytes and ix fs cap a b and f :: field
  assume "index_holds buf ix fs" "Some (fi_capacity ix) = Some cap" "cap \<le> length fs"
  then show "index_push ix f (Inr (a, b)) = (Inl (TooManyFields cap), ix)"
    using index_holds_length[of buf ix fs]
    by (auto simp: index_push_def field_index_push_def)
qed

end
