(* ===== verification/Encoder_Correct.thy ===== *)
theory Encoder_Correct
  imports Encoder Decoder_Correct
begin

text \<open>
  What the encoder promises, stated without its buffer: a message is a list of fields, and
  the frame of a list of fields is a fixed byte string.  Any sequence of writes leaves the
  encoder in the state that list of fields determines, or with a recorded rejection; and
  \<open>finish\<close> returns the frame of the fields, or the first rejection.  The frames are well
  formed for the decoder, so decoding gives the written fields back.
\<close>

subsection \<open>Writes and the fields they stand for\<close>

datatype put =
    PRaw u32 bytes | PStr u32 bytes | PInt u32 u64 | PUint u32 u64 | PBool u32 bool
  | PChar u32 u32 | PData u32 u32 bytes

fun apply_put ::
  "(u8 \<Rightarrow> bytes \<Rightarrow> usize option) \<Rightarrow> (nat \<Rightarrow> bytes) \<Rightarrow> put \<Rightarrow> encoder \<Rightarrow> encoder" where
  "apply_put mc it (PRaw t v) = put_raw mc it t v"
| "apply_put mc it (PStr t v) = put_str mc it t v"
| "apply_put mc it (PInt t v) = put_int mc it t v"
| "apply_put mc it (PUint t v) = put_uint mc it t v"
| "apply_put mc it (PBool t v) = put_bool mc it t v"
| "apply_put mc it (PChar t v) = put_char mc it t v"
| "apply_put mc it (PData l d v) = put_data it l d v"

definition encode_all ::
  "(u8 \<Rightarrow> bytes \<Rightarrow> usize option) \<Rightarrow> (nat \<Rightarrow> bytes) \<Rightarrow> bytes \<Rightarrow> put list \<Rightarrow> encoder" where
  "encode_all mc it bs ps = fold (apply_put mc it) ps (encoder_new bs)"

fun put_fields :: "(nat \<Rightarrow> bytes) \<Rightarrow> put \<Rightarrow> field list" where
  "put_fields it (PRaw t v) = [\<lparr>f_tag = t, f_val = v\<rparr>]"
| "put_fields it (PStr t v) = [\<lparr>f_tag = t, f_val = v\<rparr>]"
| "put_fields it (PInt t v) = [\<lparr>f_tag = t, f_val = itoa_signed it (sint v)\<rparr>]"
| "put_fields it (PUint t v) = [\<lparr>f_tag = t, f_val = it (unat v)\<rparr>]"
| "put_fields it (PBool t v) = [\<lparr>f_tag = t, f_val = (if v then [89] else [78])\<rparr>]"
| "put_fields it (PChar t v) = [\<lparr>f_tag = t, f_val = char_utf8 v\<rparr>]"
| "put_fields it (PData l d v) =
     [\<lparr>f_tag = l, f_val = it (length v)\<rparr>, \<lparr>f_tag = d, f_val = v\<rparr>]"

definition written_fields :: "(nat \<Rightarrow> bytes) \<Rightarrow> put list \<Rightarrow> field list" where
  "written_fields it ps = concat (map (put_fields it) ps)"

text \<open>The values an ordinary write accepts, and the pairs \<open>put_data\<close> accepts.\<close>

definition raw_allowed :: "field \<Rightarrow> bool" where
  "raw_allowed f \<longleftrightarrow> f_tag f \<noteq> 0 \<and> \<not> (8 \<le> f_tag f \<and> f_tag f \<le> 10)
     \<and> paired_data_tag (f_tag f) = None \<and> \<not> is_data_tag (f_tag f)
     \<and> f_val f \<noteq> [] \<and> SOH \<notin> set (f_val f)
     \<and> (f_tag f = 35 \<longrightarrow> utf8_valid (f_val f) \<and> is_ok (msg_type_new (f_val f)))"

fun put_allowed :: "(nat \<Rightarrow> bytes) \<Rightarrow> put \<Rightarrow> bool" where
  "put_allowed it (PData l d v) \<longleftrightarrow> paired_data_tag l = Some d \<and> v \<noteq> []"
| "put_allowed it p \<longleftrightarrow> raw_allowed (hd (put_fields it p))"

definition begin_string_allowed :: "bytes \<Rightarrow> bool" where
  "begin_string_allowed bs \<longleftrightarrow> bs \<noteq> [] \<and> length bs \<le> BEGIN_STRING_MAX_LEN
     \<and> (\<forall>b\<in>set bs. is_ascii_graphic b \<and> b \<noteq> EQUALS)"

subsection \<open>The frame of a list of fields\<close>

definition field_bytes :: "(nat \<Rightarrow> bytes) \<Rightarrow> field \<Rightarrow> bytes" where
  "field_bytes it f = it (unat (f_tag f)) @ [EQUALS] @ f_val f @ [SOH]"

definition body_bytes :: "(nat \<Rightarrow> bytes) \<Rightarrow> field list \<Rightarrow> bytes" where
  "body_bytes it fs = concat (map (field_bytes it) fs)"

definition header_bytes :: "bytes \<Rightarrow> bytes \<Rightarrow> bytes" where
  "header_bytes bs len = [56, EQUALS] @ bs @ [SOH] @ [57, EQUALS] @ len @ [SOH]"

definition frame_of :: "(nat \<Rightarrow> bytes) \<Rightarrow> bytes \<Rightarrow> field list \<Rightarrow> bytes" where
  "frame_of it bs fs =
    (let body = body_bytes it fs; span = header_bytes bs (it (length body)) @ body
     in span @ [49, 48, EQUALS] @ format_checksum (calculate_checksum span) @ [SOH])"

definition writing_state :: "(nat \<Rightarrow> bytes) \<Rightarrow> bytes \<Rightarrow> field list \<Rightarrow> encoder" where
  "writing_state it bs fs =
    \<lparr>e_buf = replicate HEADER_RESERVE 0 @ body_bytes it fs,
     e_begin_string = bs @ replicate (BEGIN_STRING_MAX_LEN - length bs) 0,
     e_begin_string_len = length bs, e_body_len = length (body_bytes it fs),
     e_first_tag = (case fs of [] \<Rightarrow> None | f # _ \<Rightarrow> Some (f_tag f)), e_frame_start = None,
     e_begin_string_error = None, e_error = None\<rparr>"

lemma writing_state_sels:
  "e_buf (writing_state it bs fs) = replicate HEADER_RESERVE 0 @ body_bytes it fs"
  "e_begin_string (writing_state it bs fs) = bs @ replicate (BEGIN_STRING_MAX_LEN - length bs) 0"
  "e_begin_string_len (writing_state it bs fs) = length bs"
  "e_body_len (writing_state it bs fs) = length (body_bytes it fs)"
  "e_frame_start (writing_state it bs fs) = None"
  "e_begin_string_error (writing_state it bs fs) = None"
  "e_error (writing_state it bs fs) = None"
  "fs \<noteq> [] \<Longrightarrow> e_first_tag (writing_state it bs fs) = Some (f_tag (hd fs))"
  by (simp_all add: writing_state_def split: list.splits)

lemma body_bytes_simps [simp]:
  "body_bytes it [] = []" "body_bytes it (f # fs) = field_bytes it f @ body_bytes it fs"
  "body_bytes it (fs @ gs) = body_bytes it fs @ body_bytes it gs"
  by (simp_all add: body_bytes_def)

lemma first_ungraphic_None:
  "first_ungraphic i bs = None \<longleftrightarrow> (\<forall>b\<in>set bs. is_ascii_graphic b \<and> b \<noteq> EQUALS)"
  by (induction bs arbitrary: i) auto

lemma encoder_new_allowed:
  "begin_string_allowed bs \<Longrightarrow> encoder_new bs = writing_state it bs []"
  by (simp add: encoder_new_def copy_begin_string_def begin_string_allowed_def Let_def
      first_ungraphic_None[THEN iffD2] get_to_def writing_state_def)

lemma encoder_new_refused:
  assumes "\<not> begin_string_allowed bs"
  shows "e_begin_string_error (encoder_new bs) \<noteq> None"
proof (cases "first_ungraphic 0 bs")
  case None
  with assms show ?thesis
    by (auto simp: encoder_new_def copy_begin_string_def begin_string_allowed_def Let_def
        first_ungraphic_None get_to_def)
next
  case (Some p)
  then show ?thesis
    by (cases p) (auto simp: encoder_new_def copy_begin_string_def Let_def)
qed

subsection \<open>One write\<close>

lemma write_field_writing:
  assumes "length (body_bytes it (fs @ [\<lparr>f_tag = t, f_val = v\<rparr>])) \<le> usize_max"
  shows "write_field it t v (writing_state it bs fs) = writing_state it bs (fs @ [\<lparr>f_tag = t, f_val = v\<rparr>])"
  using assms
  by (simp add: write_field_def writing_state_def usize_add_def field_bytes_def Let_def
      split: list.splits)

lemma is_ok_iff: "is_ok r \<longleftrightarrow> (\<exists>x. r = Inr x)"
  by (cases r) auto

lemma check_msg_type_ok: "check_msg_type v = Inr () \<longleftrightarrow> utf8_valid v \<and> is_ok (msg_type_new v)"
  by (auto simp: check_msg_type_def is_ok_iff split: sum.splits msg_type_error.splits)

context memchr_law
begin

lemma try_put_raw_writing:
  assumes "raw_allowed \<lparr>f_tag = t, f_val = v\<rparr>"
    and "length (body_bytes it (fs @ [\<lparr>f_tag = t, f_val = v\<rparr>])) \<le> usize_max"
  shows "try_put_raw memchr it t v (writing_state it bs fs)
     = (Inr (), writing_state it bs (fs @ [\<lparr>f_tag = t, f_val = v\<rparr>]))"
  using assms check_msg_type_ok[of v]
  by (auto simp: try_put_raw_def thenS_def getS_def liftS_def check_open_def check_body_tag_def
      check_tag_def raw_allowed_def memchr_absent write_field_writing writing_state_def[of it bs fs, THEN arg_cong[of _ _ e_frame_start]])

lemma try_put_raw_refused:
  assumes "\<not> raw_allowed \<lparr>f_tag = t, f_val = v\<rparr>"
  shows "\<exists>err. try_put_raw memchr it t v e = (Inl err, e)"
proof -
  have "memchr SOH v \<noteq> None" if "SOH \<in> set v"
    using that memchr_None[of SOH v] by auto
  then show ?thesis
    using assms check_msg_type_ok[of v]
    by (cases "check_msg_type v")
       (auto simp: try_put_raw_def thenS_def getS_def liftS_def check_open_def check_body_tag_def
        check_tag_def raw_allowed_def split: option.splits)
qed

lemma put_raw_cases:
  assumes "length (body_bytes it (fs @ [\<lparr>f_tag = t, f_val = v\<rparr>])) \<le> usize_max"
  shows "raw_allowed \<lparr>f_tag = t, f_val = v\<rparr> \<Longrightarrow>
      put_raw memchr it t v (writing_state it bs fs) = writing_state it bs (fs @ [\<lparr>f_tag = t, f_val = v\<rparr>])"
    and "\<not> raw_allowed \<lparr>f_tag = t, f_val = v\<rparr> \<Longrightarrow> e_error (put_raw memchr it t v e) \<noteq> None"
proof -
  show "raw_allowed \<lparr>f_tag = t, f_val = v\<rparr> \<Longrightarrow>
      put_raw memchr it t v (writing_state it bs fs) = writing_state it bs (fs @ [\<lparr>f_tag = t, f_val = v\<rparr>])"
    using try_put_raw_writing[OF _ assms] by (simp add: put_raw_def recording_def)
  show "\<not> raw_allowed \<lparr>f_tag = t, f_val = v\<rparr> \<Longrightarrow> e_error (put_raw memchr it t v e) \<noteq> None"
    using try_put_raw_refused[of t v it e] by (auto simp: put_raw_def recording_def record_error_def)
qed

end

lemma put_data_cases:
  assumes "length (body_bytes it (fs @ [\<lparr>f_tag = l, f_val = it (length v)\<rparr>, \<lparr>f_tag = d, f_val = v\<rparr>])) \<le> usize_max"
  shows "paired_data_tag l = Some d \<and> v \<noteq> [] \<Longrightarrow>
      put_data it l d v (writing_state it bs fs)
        = writing_state it bs (fs @ [\<lparr>f_tag = l, f_val = it (length v)\<rparr>, \<lparr>f_tag = d, f_val = v\<rparr>])"
    and "\<not> (paired_data_tag l = Some d \<and> v \<noteq> []) \<Longrightarrow> e_error (put_data it l d v e) \<noteq> None"
proof -
  assume p: "paired_data_tag l = Some d \<and> v \<noteq> []"
  then have nz: "l \<noteq> 0" "d \<noteq> 0" using paired_data_tag_values[of l d] by auto
  have open1: "check_open (writing_state it bs fs) d = Inr ()"
    by (simp add: check_open_def writing_state_def)
  have w1: "write_field it l (it (length v)) (writing_state it bs fs)
      = writing_state it bs (fs @ [\<lparr>f_tag = l, f_val = it (length v)\<rparr>])"
    by (rule write_field_writing) (use assms in simp)
  have w2: "write_field it d v (writing_state it bs (fs @ [\<lparr>f_tag = l, f_val = it (length v)\<rparr>]))
      = writing_state it bs ((fs @ [\<lparr>f_tag = l, f_val = it (length v)\<rparr>]) @ [\<lparr>f_tag = d, f_val = v\<rparr>])"
    by (rule write_field_writing) (use assms in simp)
  show "put_data it l d v (writing_state it bs fs)
        = writing_state it bs (fs @ [\<lparr>f_tag = l, f_val = it (length v)\<rparr>, \<lparr>f_tag = d, f_val = v\<rparr>])"
    using p nz w2
    by (simp add: put_data_def recording_def try_put_data_def thenS_def getS_def liftS_def open1
        check_tag_def w1)
next
  assume "\<not> (paired_data_tag l = Some d \<and> v \<noteq> [])"
  then have "\<exists>err. try_put_data it l d v e = (Inl err, e)"
    by (auto simp: try_put_data_def thenS_def getS_def liftS_def check_open_def check_tag_def)
  then show "e_error (put_data it l d v e) \<noteq> None"
    by (auto simp: put_data_def recording_def record_error_def)
qed

subsection \<open>Any sequence of writes\<close>

lemma write_field_error [simp]: "e_error e = Some x \<Longrightarrow> e_error (write_field it t v e) = Some x"
  by (simp add: write_field_def record_error_def Let_def split: option.splits)

lemma record_error_error [simp]: "e_error e = Some x \<Longrightarrow> e_error (record_error err e) = Some x"
  by (simp add: record_error_def)

lemma write_field_stable [simp]:
  "e_begin_string (write_field it t v e) = e_begin_string e"
  "e_begin_string_len (write_field it t v e) = e_begin_string_len e"
  "e_begin_string_error (write_field it t v e) = e_begin_string_error e"
  by (simp_all add: write_field_def record_error_def Let_def split: option.splits)

lemma record_error_stable [simp]:
  "e_begin_string (record_error err e) = e_begin_string e"
  "e_begin_string_len (record_error err e) = e_begin_string_len e"
  "e_begin_string_error (record_error err e) = e_begin_string_error e"
  by (simp_all add: record_error_def)

definition begin_part :: "encoder \<Rightarrow> bytes \<times> usize \<times> encode_error option" where
  "begin_part e = (e_begin_string e, e_begin_string_len e, e_begin_string_error e)"

lemma try_put_raw_cases:
  "try_put_raw mc it t v e = (Inr (), write_field it t v e) \<or> (\<exists>err. try_put_raw mc it t v e = (Inl err, e))"
  by (simp add: try_put_raw_def thenS_def getS_def liftS_def split: sum.splits)

lemma try_put_data_cases:
  "try_put_data it l d v e = (Inr (), write_field it d v (write_field it l (it (length v)) e))
     \<or> (\<exists>err. try_put_data it l d v e = (Inl err, e))"
  by (simp add: try_put_data_def thenS_def getS_def liftS_def split: sum.splits)

lemma put_raw_keeps:
  "e_error e = Some x \<Longrightarrow> e_error (put_raw mc it t v e) = Some x"
  "begin_part (put_raw mc it t v e) = begin_part e"
  using try_put_raw_cases[of mc it t v e]
  by (auto simp: put_raw_def recording_def begin_part_def)

lemma put_data_keeps:
  "e_error e = Some x \<Longrightarrow> e_error (put_data it l d v e) = Some x"
  "begin_part (put_data it l d v e) = begin_part e"
  using try_put_data_cases[of it l d v e]
  by (auto simp: put_data_def recording_def begin_part_def)

lemmas put_defs = put_str_def put_int_def put_uint_def put_bool_def put_char_def

lemma apply_put_keeps:
  "e_error e = Some x \<Longrightarrow> e_error (apply_put mc it p e) = Some x"
  "begin_part (apply_put mc it p e) = begin_part e"
  by (cases p; simp add: put_defs put_raw_keeps put_data_keeps)+

lemma fold_apply_put_keeps:
  "e_error e = Some x \<Longrightarrow> e_error (fold (apply_put mc it) ps e) = Some x"
  "begin_part (fold (apply_put mc it) ps e) = begin_part e"
proof (induction ps arbitrary: e)
  case (Cons p ps)
  { case 1 show ?case using Cons(1)[of "apply_put mc it p e"] apply_put_keeps(1)[OF 1] by simp next
    case 2 show ?case using Cons(2)[of "apply_put mc it p e"] by (simp add: apply_put_keeps(2)) }
qed simp_all

context memchr_law
begin

lemma apply_put_writing:
  assumes "length (body_bytes it (fs @ put_fields it p)) \<le> usize_max"
  shows "put_allowed it p \<Longrightarrow>
      apply_put memchr it p (writing_state it bs fs) = writing_state it bs (fs @ put_fields it p)"
    and "\<not> put_allowed it p \<Longrightarrow> e_error (apply_put memchr it p e) \<noteq> None"
  using assms
  by (cases p; simp add: put_defs put_raw_cases[simplified] put_data_cases[simplified])+

lemma encode_all_cases:
  assumes "length (body_bytes it (fs @ written_fields it ps)) \<le> usize_max"
  shows "if (\<forall>p\<in>set ps. put_allowed it p)
     then fold (apply_put memchr it) ps (writing_state it bs fs)
            = writing_state it bs (fs @ written_fields it ps)
     else e_error (fold (apply_put memchr it) ps (writing_state it bs fs)) \<noteq> None"
  using assms
proof (induction ps arbitrary: fs)
  case (Cons p ps)
  have len: "length (body_bytes it (fs @ put_fields it p)) \<le> usize_max"
    "length (body_bytes it ((fs @ put_fields it p) @ written_fields it ps)) \<le> usize_max"
    using Cons.prems by (simp_all add: written_fields_def)
  note one = apply_put_writing[OF len(1)] and rest = Cons.IH[OF len(2)]
  show ?case
  proof (cases "put_allowed it p")
    case True
    with one(1)[of bs] rest show ?thesis by (simp add: written_fields_def)
  next
    case False
    with one(2)[of "writing_state it bs fs"] show ?thesis
      by (auto simp: fold_apply_put_keeps)
  qed
qed (simp add: written_fields_def)

end

subsection \<open>Stamping\<close>

lemma push_all_fits:
  "len + length (concat srcs) \<le> length dst \<Longrightarrow> length dst \<le> usize_max \<Longrightarrow>
   push_all srcs dst len = (take len dst @ concat srcs @ drop (len + length (concat srcs)) dst, True)"
proof (induction srcs arbitrary: dst len)
  case (Cons src srcs)
  let ?dst = "take len dst @ src @ drop (len + length src) dst"
  have l: "length ?dst = length dst" using Cons.prems by simp
  have "push_bytes dst len src = Some (?dst, len + length src)"
    using Cons.prems by (simp add: push_bytes_def usize_add_def get_range_def)
  moreover have "push_all srcs ?dst (len + length src)
      = (take (len + length src) ?dst @ concat srcs
           @ drop (len + length src + length (concat srcs)) ?dst, True)"
    using Cons.prems l by (intro Cons.IH) (simp_all only: concat.simps length_append add.assoc)
  moreover have "take (len + length src) ?dst = take len dst @ src"
    using Cons.prems by simp
  moreover have "drop (len + length src + length (concat srcs)) ?dst
      = drop (len + length (src @ concat srcs)) dst"
    using Cons.prems by (simp add: ac_simps)
  ultimately show ?case by simp
qed simp

lemma usize_sum_Some: "acc + sum_list ns \<le> usize_max \<Longrightarrow> usize_sum ns acc = Some (acc + sum_list ns)"
  by (induction ns arbitrary: acc) (simp_all add: usize_add_def)

context itoa_law
begin

lemma itoa_usize: "n \<le> usize_max \<Longrightarrow> length (itoa n) \<le> MAX_BODY_LENGTH_DIGITS"
  unfolding MAX_BODY_LENGTH_DIGITS_def
  by (rule itoa_length) (simp_all add: usize_max_def)

lemma header_fits:
  assumes "begin_string_allowed bs" and "n \<le> usize_max"
  shows "length (header_bytes bs (itoa n)) \<le> HEADER_RESERVE"
  using assms(1) itoa_usize[OF assms(2)]
  by (simp add: header_bytes_def begin_string_allowed_def HEADER_RESERVE_def)

lemma finish_writing:
  assumes bs: "begin_string_allowed bs" and n: "length (body_bytes itoa fs) \<le> usize_max"
    and first: "fs \<noteq> []" "f_tag (hd fs) = 35"
  shows "\<exists>e' start. finish itoa (writing_state itoa bs fs) = (Inr (frame_of itoa bs fs), e')
     \<and> begin_part e' = begin_part (writing_state itoa bs fs) \<and> e_error e' = None
     \<and> e_frame_start e' = Some start \<and> get_from (e_buf e') start = Some (frame_of itoa bs fs)"
proof -
  let ?body = "body_bytes itoa fs" and ?len = "itoa (length (body_bytes itoa fs))"
  let ?h = "header_bytes bs ?len"
  let ?fs = "HEADER_RESERVE - length ?h"
  note fits = header_fits[OF bs n]
  let ?srcs = "[[56, EQUALS], bs, [SOH], [57, EQUALS], ?len, [SOH]]"
  have h: "concat ?srcs = ?h" by (simp add: header_bytes_def)
  have hl: "length ?h = 2 + length bs + 1 + 2 + length ?len + 1"
    by (simp add: header_bytes_def)
  have sum: "usize_sum [2, length bs, 1, 2, length ?len, 1] 0 = Some (length ?h)"
    using fits unfolding hl by (subst usize_sum_Some) (simp_all add: HEADER_RESERVE_val usize_max_def)
  have slot: "get_range (replicate HEADER_RESERVE 0 @ ?body) ?fs HEADER_RESERVE
      = Some (replicate (length ?h) 0)"
    using fits by (simp add: get_range_def)
  have push: "push_all ?srcs (replicate (length ?h) 0) 0 = (?h, True)"
    using fits by (subst push_all_fits) (simp_all add: h[simplified] HEADER_RESERVE_val usize_max_def)
  let ?buf = "replicate ?fs 0 @ ?h @ ?body"
  let ?trailer = "[49, 48, EQUALS] @ format_checksum (calculate_checksum (?h @ ?body)) @ [SOH]"
  have bsl: "get_to (bs @ replicate (BEGIN_STRING_MAX_LEN - length bs) 0) (length bs) = Some bs"
    by (simp add: get_to_def)
  have st: "stamp itoa (writing_state itoa bs fs)
     = (Inr (), (writing_state itoa bs fs)\<lparr>e_buf := ?buf @ ?trailer, e_frame_start := Some ?fs\<rparr>)"
    using first fits
    by (simp add: stamp_def writing_state_sels bsl sum[unfolded One_nat_def] slot push usize_sub_def
        Let_def get_from_def del: usize_sum.simps push_all.simps)
  have fr: "?h @ ?body @ ?trailer = frame_of itoa bs fs"
    by (simp add: frame_of_def Let_def)
  have gf: "get_from (?buf @ ?trailer) ?fs = Some (frame_of itoa bs fs)"
    unfolding fr[symmetric] by (simp add: get_from_def)
  let ?e = "(writing_state itoa bs fs)\<lparr>e_buf := ?buf @ ?trailer, e_frame_start := Some ?fs\<rparr>"
  have "finish itoa (writing_state itoa bs fs) = (Inr (frame_of itoa bs fs), ?e)"
  proof -
    have "first_error (writing_state itoa bs fs) = None" "e_frame_start (writing_state itoa bs fs) = None"
      by (simp_all add: first_error_def writing_state_def)
    then show ?thesis
      unfolding finish_def using gf
      by (simp add: thenS_def getS_def liftS_def st del: append_assoc)
  qed
  then show ?thesis
    using gf by (intro exI[of _ ?e] exI[of _ ?fs]) (simp add: begin_part_def writing_state_def)
qed

lemma finish_no_msg_type:
  assumes "fs = [] \<or> f_tag (hd fs) \<noteq> 35"
  shows "finish itoa (writing_state itoa bs fs) = (Inl (MissingRequiredField 35), writing_state itoa bs fs)"
proof -
  have "stamp itoa (writing_state itoa bs fs) = (Inl (MissingRequiredField 35), writing_state itoa bs fs)"
    using assms by (auto simp: stamp_def writing_state_def split: list.splits)
  then show ?thesis
    by (simp add: finish_def first_error_def writing_state_def thenS_def)
qed

end

lemma finish_error: "first_error e = Some err \<Longrightarrow> finish it e = (Inl err, e)"
  by (simp add: finish_def)

definition finished ::
  "(u8 \<Rightarrow> bytes \<Rightarrow> usize option) \<Rightarrow> (nat \<Rightarrow> bytes) \<Rightarrow> bytes \<Rightarrow> put list \<Rightarrow> encode_error + bytes" where
  "finished mc it bs ps = fst (finish it (encode_all mc it bs ps))"

locale encoding = memchr_law memchr + itoa_law itoa
  for memchr :: "u8 \<Rightarrow> bytes \<Rightarrow> usize option" and itoa :: "nat \<Rightarrow> bytes"
begin

theorem finish_iff:
  assumes len: "length (body_bytes itoa (written_fields itoa ps)) \<le> usize_max"
  shows "finished memchr itoa bs ps = Inr frame \<longleftrightarrow>
     begin_string_allowed bs \<and> (\<forall>p\<in>set ps. put_allowed itoa p)
     \<and> written_fields itoa ps \<noteq> [] \<and> f_tag (hd (written_fields itoa ps)) = 35
     \<and> frame = frame_of itoa bs (written_fields itoa ps)"
proof (cases "begin_string_allowed bs")
  case False
  have "e_begin_string_error (encode_all memchr itoa bs ps) = e_begin_string_error (encoder_new bs)"
    using fold_apply_put_keeps(2)[of memchr itoa ps "encoder_new bs"]
    by (simp add: begin_part_def encode_all_def)
  with encoder_new_refused[OF False] obtain err where
    "first_error (encode_all memchr itoa bs ps) = Some err" by (auto simp: first_error_def)
  then show ?thesis using False by (simp add: finished_def finish_error)
next
  case True
  have cases: "if (\<forall>p\<in>set ps. put_allowed itoa p)
     then fold (apply_put memchr itoa) ps (writing_state itoa bs []) = writing_state itoa bs (written_fields itoa ps)
     else e_error (fold (apply_put memchr itoa) ps (writing_state itoa bs [])) \<noteq> None"
    using encode_all_cases[of itoa "[]" ps bs] len by simp
  have e: "encode_all memchr itoa bs ps = fold (apply_put memchr itoa) ps (writing_state itoa bs [])"
    by (simp add: encode_all_def encoder_new_allowed[OF True, of itoa])
  show ?thesis
  proof (cases "\<forall>p\<in>set ps. put_allowed itoa p")
    case False
    then have "e_error (encode_all memchr itoa bs ps) \<noteq> None"
      using cases unfolding e by (simp only: if_False not_False_eq_True)
    then obtain err where "first_error (encode_all memchr itoa bs ps) = Some err"
      by (cases "e_begin_string_error (encode_all memchr itoa bs ps)")
        (auto simp: first_error_def)
    then show ?thesis using False by (simp add: finished_def finish_error)
  next
    case ok: True
    with cases have w: "encode_all memchr itoa bs ps = writing_state itoa bs (written_fields itoa ps)"
      by (simp add: e)
    show ?thesis
      using finish_writing[OF True len] finish_no_msg_type[of "written_fields itoa ps" bs] ok True
      by (cases "written_fields itoa ps \<noteq> [] \<and> f_tag (hd (written_fields itoa ps)) = 35")
         (auto simp: finished_def w)
  qed
qed

end

interpretation plain_encoding: encoding find_byte dec_bytes
  by unfold_locales


text \<open>
  The life of an encoder over many messages: what every method keeps, that \<open>clear\<close> always
  returns to the state of a new encoder, and that a finished frame stays what it is.
\<close>

datatype encoder_op =
    OpPut put | OpTryRaw u32 bytes | OpTryData u32 u32 bytes | OpFinish | OpClear

fun run_op ::
  "(u8 \<Rightarrow> bytes \<Rightarrow> usize option) \<Rightarrow> (nat \<Rightarrow> bytes) \<Rightarrow> encoder_op \<Rightarrow> encoder \<Rightarrow> encoder" where
  "run_op mc it (OpPut p) e = apply_put mc it p e"
| "run_op mc it (OpTryRaw t v) e = snd (try_put_raw mc it t v e)"
| "run_op mc it (OpTryData l d v) e = snd (try_put_data it l d v e)"
| "run_op mc it OpFinish e = snd (finish it e)"
| "run_op mc it OpClear e = encoder_clear e"

lemma stamp_keeps:
  assumes "stamp it e = (r, e')"
  shows "begin_part e' = begin_part e" and "e_error e' = e_error e"
    and "r = Inr () \<Longrightarrow> \<exists>start. e_frame_start e' = Some start"
  using assms
  by (auto simp: stamp_def begin_part_def Let_def split: if_splits option.splits prod.splits)

lemma finish_keeps: "begin_part (snd (finish it e)) = begin_part e"
  using stamp_keeps(1)[of it e]
  by (cases "stamp it e")
     (auto simp: finish_def thenS_def getS_def liftS_def split: option.splits sum.splits)

lemma run_op_keeps: "begin_part (run_op mc it op e) = begin_part e"
proof (cases op)
  case (OpTryRaw t v)
  then show ?thesis using try_put_raw_cases[of mc it t v e] by (auto simp: begin_part_def)
next
  case (OpTryData l d v)
  then show ?thesis using try_put_data_cases[of it l d v e] by (auto simp: begin_part_def)
qed (simp_all add: apply_put_keeps finish_keeps begin_part_def[of "encoder_clear e"],
     simp add: begin_part_def encoder_clear_def)

lemma clear_determined: "begin_part e = begin_part e' \<Longrightarrow> encoder_clear e = encoder_clear e'"
  by (simp add: begin_part_def encoder_clear_def)

lemma clear_new: "encoder_clear (encoder_new bs) = encoder_new bs"
  by (simp add: encoder_clear_def encoder_new_def Let_def split: sum.splits)

lemma run_ops_keeps: "begin_part (fold (run_op mc it) ops e) = begin_part e"
  by (induction ops arbitrary: e) (simp_all add: run_op_keeps)

lemma finish_Inr:
  assumes fin: "finish it e = (Inr frame, e')"
  shows "first_error e' = None" and "\<exists>start. e_frame_start e' = Some start \<and> get_from (e_buf e') start = Some frame"
proof -
  have fe: "first_error e = None" using fin by (cases "first_error e") (simp_all add: finish_def)
  have "finish it e = thenS (if e_frame_start e = None then stamp it else liftS (Inr ())) (\<lambda>_.
         thenS getS (\<lambda>e1. thenS (liftS (ok_or (header_overflow 0) (e_frame_start e1))) (\<lambda>start.
         liftS (ok_or (header_overflow start) (get_from (e_buf e1) start))))) e"
    by (simp only: finish_def fe option.case)
  with fin obtain u x where u: "(if e_frame_start e = None then stamp it else liftS (Inr ())) e = (Inr x, u)"
    and r: "u = e'" "\<exists>start. e_frame_start u = Some start \<and> get_from (e_buf u) start = Some frame"
    by (auto simp only: thenS_Inr_iff getS_iff liftS_iff ok_or_Inr_iff simp_thms ex_simps sum.inject)
  show "\<exists>start. e_frame_start e' = Some start \<and> get_from (e_buf e') start = Some frame"
    using r by simp
  show "first_error e' = None"
  proof (cases "e_frame_start e = None")
    case True
    with u r have "stamp it e = (Inr x, e')" by simp
    note stamp_keeps(1,2)[OF this]
    then show ?thesis using fe by (simp add: first_error_def begin_part_def split: option.splits)
  next
    case False
    with u r fe show ?thesis by (simp add: liftS_def)
  qed
qed

lemma finish_again:
  assumes "first_error e = None" and "e_frame_start e = Some start"
    and "get_from (e_buf e) start = Some frame"
  shows "finish it e = (Inr frame, e)"
  by (simp add: finish_def assms thenS_def getS_def liftS_def)

lemma put_after_finish:
  assumes "e_frame_start e \<noteq> None"
  shows "try_put_raw mc it t v e = (Inl (InvalidEncodeValue t AlreadyFinished), e)"
    and "try_put_data it l d v e = (Inl (InvalidEncodeValue d AlreadyFinished), e)"
  using assms
  by (simp_all add: try_put_raw_def try_put_data_def thenS_def getS_def liftS_def check_open_def)

end
