(* ===== verification/Decoder_Sinks.thy ===== *)
theory Decoder_Sinks
  imports Decoder_Correct
begin

text \<open>
  The decode loop over any sink that meets the contract does what it does over a growing
  list, until the sink is full.  Instantiated for the bounded index, \<open>decode_into\<close> returns
  the message \<open>decode\<close> returns whenever it fits.
\<close>

definition consumed :: "usize \<Rightarrow> decoder \<Rightarrow> bytes" where
  "consumed start d = take (d_offset d - start) (drop start (d_input d))"

definition overfull :: "usize option \<Rightarrow> field list \<Rightarrow> bool" where
  "overfull r fs \<longleftrightarrow> (case r of None \<Rightarrow> False | Some cap \<Rightarrow> cap < length fs)"

lemma vec_loop_extends:
  "field_loop mc vec_push lim start d fs = (r, d', fs') \<Longrightarrow> \<exists>gs. fs' = fs @ gs"
proof (induction mc "vec_push :: field list push_fn" lim start d fs rule: field_loop.induct)
  case (1 mc lim start d fs)
  obtain x d1 where nf: "next_field_bounded mc lim d = (x, d1)" by fastforce
  show ?case
  proof (cases "\<exists>f. x = Inr (Some f) \<and> f_tag f \<noteq> 10")
    case True
    then obtain f where f: "x = Inr (Some f)" "f_tag f \<noteq> 10" by blast
    have "field_loop mc vec_push lim start d1 (fs @ [f]) = (r, d', fs')"
      using 1(2) nf f by (simp add: field_loop.simps[of mc _ lim start d] vec_push_def)
    with 1(1)[of x d1 "Some f" f "Inr ()" "fs @ [f]" "()"] nf f
    show ?thesis by (auto simp: vec_push_def)
  next
    case False
    then show ?thesis using 1(2) nf
      by (auto simp: field_loop.simps[of mc _ lim start d] split: sum.splits option.splits if_splits)
  qed
qed

locale sink_decoding = memchr_law memchr + field_sink push holds room
  for memchr :: memchr_fn and push :: "'s push_fn"
    and holds :: "bytes \<Rightarrow> 's \<Rightarrow> field list \<Rightarrow> bool" and room :: "'s \<Rightarrow> usize option"
begin

lemma next_field_consumed:
  assumes nf: "next_field_bounded memchr lim d = (Inr (Some f), d1)"
    and st: "start \<le> d_offset d" "d_offset d \<le> length (d_input d)"
  obtains ext a b where "consumed start d1 = consumed start d @ ext"
    and "value_range d1 start (length (f_val f)) = Inr (a, b)"
    and "get_range (consumed start d1) a b = Some (f_val f)"
    and "start \<le> d_offset d1" "d_offset d1 \<le> length (d_input d1)"
proof -
  from next_field_sound(1)[OF nf] obtain ds where ds:
    "drop (d_offset d) (d_input d) = ds @ EQUALS # f_val f @ SOH # drop (d_offset d1) (d_input d)"
    "d_offset d1 = d_offset d + length ds + length (f_val f) + 2"
    "d_offset d1 \<le> length (d_input d)" by blast
  have i: "d_input d1 = d_input d" using next_field_bounded_Some(3)[OF nf] .
  let ?x = "ds @ EQUALS # f_val f @ [SOH]"
  have spl: "drop start (d_input d) = consumed start d @ drop (d_offset d) (d_input d)"
  proof -
    have "drop (d_offset d - start) (drop start (d_input d)) = drop (d_offset d) (d_input d)"
      using st by simp
    then show ?thesis unfolding consumed_def by (metis append_take_drop_id)
  qed
  have lc: "length (consumed start d) = d_offset d - start"
    using st by (simp add: consumed_def)
  have c: "consumed start d1 = consumed start d @ ?x"
  proof -
    have "d_offset d1 - start = length (consumed start d) + length ?x"
      using st ds(2) unfolding lc by simp
    then have "consumed start d1 = take (length (consumed start d) + length ?x) (drop start (d_input d))"
      by (simp only: consumed_def[of start d1] i)
    also have "\<dots> = take (length (consumed start d) + length ?x) (consumed start d @ ?x @ drop (d_offset d1) (d_input d))"
      unfolding spl by (simp only: ds(1) append_assoc append_Cons append_Nil)
    also have "\<dots> = consumed start d @ ?x" by simp
    finally show ?thesis .
  qed
  let ?k = "d_offset d - start + length ds + 1"
  have v: "value_range d1 start (length (f_val f)) = Inr (?k, ?k + length (f_val f))"
    by (rule value_range_after) (use st ds(2) in simp)
  have g: "get_range (consumed start d1) ?k (?k + length (f_val f)) = Some (f_val f)"
    unfolding c by (simp add: get_range_def lc)
  show ?thesis
    using that[OF c v g] st ds(2,3) i by simp
qed

lemma loop_refines:
  assumes "field_loop memchr vec_push lim start d fs = (r, d', fs')"
    and "holds (consumed start d) s fs" and "\<not> overfull (room s) fs"
    and "start \<le> d_offset d" and "d_offset d \<le> length (d_input d)"
  shows "(\<exists>gs. fs' = fs @ gs) \<and>
     (if overfull (room s) fs'
      then \<exists>d2 s2. field_loop memchr push lim start d s = (Inl (TooManyFields (the (room s))), d2, s2)
      else \<exists>s2. field_loop memchr push lim start d s = (r, d', s2) \<and> room s2 = room s
         \<and> (\<forall>x. r = Inr (Some x) \<longrightarrow> holds (consumed start d') s2 fs'))"
  using assms
proof (induction "length (d_input d) - d_offset d" arbitrary: d s fs rule: less_induct)
  case less
  note loops = field_loop.simps[of memchr _ lim start d]
  obtain x d1 where nf: "next_field_bounded memchr lim d = (x, d1)" by fastforce
  consider (err) e where "x = Inl e" | (fin) "x = Inr None" | (fld) f where "x = Inr (Some f)"
    by (cases x; cases "projr x") auto
  then show ?case
  proof cases
    case err
    then show ?thesis using less.prems nf by (auto simp: loops)
  next
    case fin
    then show ?thesis using less.prems nf by (auto simp: loops)
  next
    case fld
    note nf = nf[unfolded fld]
    from next_field_consumed[OF nf less.prems(4,5)] obtain ext a b where
      c: "consumed start d1 = consumed start d @ ext" and
      v: "value_range d1 start (length (f_val f)) = Inr (a, b)" and
      g: "get_range (consumed start d1) a b = Some (f_val f)" and
      o: "start \<le> d_offset d1" "d_offset d1 \<le> length (d_input d1)" by blast
    have h1: "holds (consumed start d1) s fs"
      unfolding c using less.prems(2) by (rule holds_extend)
    show ?thesis
    proof (cases "f_tag f = 10")
      case True
      then show ?thesis using less.prems nf h1 by (auto simp: loops)
    next
      case False
      have rec: "field_loop memchr vec_push lim start d1 (fs @ [f]) = (r, d', fs')"
        using less.prems(1) nf False by (simp add: loops vec_push_def)
      show ?thesis
      proof (cases "overfull (room s) (fs @ [f])")
        case True
        then obtain cap where cap: "room s = Some cap" "cap \<le> length fs"
          using less.prems(3) by (auto simp: overfull_def split: option.splits)
        have "field_loop memchr push lim start d s = (Inl (TooManyFields cap), d1, s)"
          using nf False push_full[OF h1 cap] by (simp add: loops v)
        moreover from vec_loop_extends[OF rec] obtain gs where "fs' = (fs @ [f]) @ gs" by blast
        ultimately show ?thesis using cap by (auto simp: overfull_def)
      next
        case nf2: False
        then have "case room s of None \<Rightarrow> True | Some cap \<Rightarrow> length fs < cap"
          by (auto simp: overfull_def split: option.splits)
        from push_room[OF h1 g this] obtain s1 where
          s1: "push s f (Inr (a, b)) = (Inr (), s1)" "holds (consumed start d1) s1 (fs @ [f])" "room s1 = room s"
          by blast
        have step: "field_loop memchr push lim start d s = field_loop memchr push lim start d1 s1"
          using nf False s1(1) by (simp add: loops v)
        from less.hyps[OF next_field_bounded_decreases[OF nf] rec s1(2) _ o] nf2 s1(3)
        show ?thesis unfolding step by auto
      qed
    qed
  qed
qed

lemma decode_head_steps:
  assumes hd: "decode_head memchr d = (Inr h, d')" and off: "d_offset d \<le> length (d_input d)"
  obtains r8 r9 r35 a8 b8 a9 b9 a35 b35 where
    "fh_begin_string_range h = (a8, b8)" "fh_body_length_range h = (a9, b9)"
    "fh_msg_type_range h = Inr (a35, b35)" "fh_start h = d_offset d"
    "get_range (consumed (d_offset d) d') a8 b8 = Some (f_val (fh_begin_string h))"
    "get_range (consumed (d_offset d) d') a9 b9 = Some (f_val (fh_body_length h))"
    "get_range (consumed (d_offset d) d') a35 b35 = Some (f_val (fh_msg_type_field h))"
    "d_offset d \<le> d_offset d'" "d_offset d' \<le> length (d_input d')"
proof -
  from hd obtain d1 d2 n where
    n1: "next_field_bounded memchr None d = (Inr (Some (fh_begin_string h)), d1)" and
    r8: "value_range d1 (d_offset d) (length (f_val (fh_begin_string h))) = Inr (fh_begin_string_range h)" and
    n2: "next_field_bounded memchr None d1 = (Inr (Some (fh_body_length h)), d2)" and
    r9: "value_range d2 (d_offset d) (length (f_val (fh_body_length h))) = Inr (fh_body_length_range h)" and
    n3: "next_field_bounded memchr (Some n) d2 = (Inr (Some (fh_msg_type_field h)), d')" and
    r35: "fh_msg_type_range h = value_range d' (d_offset d) (length (f_val (fh_msg_type_field h)))" and
    st: "fh_start h = d_offset d"
    by (auto simp: decode_head_def Let_def next_field_def result_simps checked_simps
        split: if_splits)
  from next_field_consumed[OF n1 order.refl off] obtain a8 b8 where
    1: "value_range d1 (d_offset d) (length (f_val (fh_begin_string h))) = Inr (a8, b8)"
    "get_range (consumed (d_offset d) d1) a8 b8 = Some (f_val (fh_begin_string h))"
    "d_offset d \<le> d_offset d1" "d_offset d1 \<le> length (d_input d1)" .
  from next_field_consumed[OF n2 1(3,4)] obtain e2 a9 b9 where
    2: "consumed (d_offset d) d2 = consumed (d_offset d) d1 @ e2"
    "value_range d2 (d_offset d) (length (f_val (fh_body_length h))) = Inr (a9, b9)"
    "get_range (consumed (d_offset d) d2) a9 b9 = Some (f_val (fh_body_length h))"
    "d_offset d \<le> d_offset d2" "d_offset d2 \<le> length (d_input d2)" .
  from next_field_consumed[OF n3 2(4,5)] obtain e3 a35 b35 where
    3: "consumed (d_offset d) d' = consumed (d_offset d) d2 @ e3"
    "value_range d' (d_offset d) (length (f_val (fh_msg_type_field h))) = Inr (a35, b35)"
    "get_range (consumed (d_offset d) d') a35 b35 = Some (f_val (fh_msg_type_field h))"
    "d_offset d \<le> d_offset d'" "d_offset d' \<le> length (d_input d')" .
  have g: "get_range (consumed (d_offset d) d') a8 b8 = Some (f_val (fh_begin_string h))"
    "get_range (consumed (d_offset d) d') a9 b9 = Some (f_val (fh_body_length h))"
    unfolding 3(1) using get_range_extend[OF 2(3)] get_range_extend[OF 1(2)]
    by (simp_all add: 2(1))
  show ?thesis
    by (rule that[OF _ _ _ st g 3(3-5)]) (use r8 r9 r35 1(1) 2(2) 3(2) in simp_all)
qed

lemma push_step:
  assumes "holds buf s fs" and "get_range buf a b = Some (f_val f)"
  shows "if overfull (room s) (fs @ [f]) \<and> \<not> overfull (room s) fs
     then push s f (Inr (a, b)) = (Inl (TooManyFields (the (room s))), s)
     else \<not> overfull (room s) fs \<longrightarrow>
       (\<exists>s'. push s f (Inr (a, b)) = (Inr (), s') \<and> holds buf s' (fs @ [f]) \<and> room s' = room s)"
  using push_room[OF assms] push_full[OF assms(1)]
  by (auto simp: overfull_def split: option.splits)

lemma overfull_append: "overfull r fs \<Longrightarrow> overfull r (fs @ gs)"
  by (auto simp: overfull_def split: option.splits)

lemma push_head_refines:
  assumes h: "holds buf s []" and nr: "\<not> overfull (room s) []"
    and rs: "fh_begin_string_range h = (a8, b8)" "fh_body_length_range h = (a9, b9)"
      "fh_msg_type_range h = Inr (a35, b35)"
    and g: "get_range buf a8 b8 = Some (f_val (fh_begin_string h))"
      "get_range buf a9 b9 = Some (f_val (fh_body_length h))"
      "get_range buf a35 b35 = Some (f_val (fh_msg_type_field h))"
  defines "hs \<equiv> [fh_begin_string h, fh_body_length h, fh_msg_type_field h]"
  shows "if overfull (room s) hs
     then \<exists>s'. push_head push h s = (Inl (TooManyFields (the (room s))), s')
     else \<exists>s'. push_head push h s = (Inr (), s') \<and> holds buf s' hs \<and> room s' = room s"
proof -
  let ?f8 = "fh_begin_string h" and ?f9 = "fh_body_length h" and ?f35 = "fh_msg_type_field h"
  have mono: "overfull (room s) [?f8] \<Longrightarrow> overfull (room s) hs"
    "overfull (room s) [?f8, ?f9] \<Longrightarrow> overfull (room s) hs"
    by (auto simp: overfull_def hs_def split: option.splits)
  note p8 = push_step[OF h g(1)]
  show ?thesis
  proof (cases "overfull (room s) [?f8]")
    case True
    then show ?thesis using p8 nr mono(1) by (simp add: push_head_def thenS_def rs)
  next
    case f8: False
    with p8 nr obtain s1 where s1: "push s ?f8 (Inr (a8, b8)) = (Inr (), s1)" "holds buf s1 [?f8]"
      "room s1 = room s" by auto
    note p9 = push_step[OF s1(2) g(2), unfolded s1(3)]
    show ?thesis
    proof (cases "overfull (room s) [?f8, ?f9]")
      case True
      then show ?thesis using p9 f8 mono(2) s1 by (simp add: push_head_def thenS_def rs)
    next
      case f9: False
      with p9 f8 obtain s2 where s2: "push s1 ?f9 (Inr (a9, b9)) = (Inr (), s2)" "holds buf s2 [?f8, ?f9]"
        "room s2 = room s" by auto
      from push_step[OF s2(2) g(3), unfolded s2(3)] f9 show ?thesis
        by (auto simp: push_head_def thenS_def rs s1 s2 hs_def)
    qed
  qed
qed

theorem frame_refines:
  assumes vec: "decode_frame memchr vec_push d [] = (r, d', fs)"
    and s: "holds [] s []" and off: "d_offset d \<le> length (d_input d)"
  shows "if overfull (room s) fs
     then \<exists>d2 s2. decode_frame memchr push d s = (Inl (TooManyFields (the (room s))), d2, s2)
     else \<exists>s2. decode_frame memchr push d s = (r, d', s2) \<and> room s2 = room s
        \<and> (\<forall>fr. r = Inr fr \<longrightarrow> holds (fr_buffer fr) s2 fs)"
proof -
  have nr: "\<not> overfull (room s) []" by (auto simp: overfull_def split: option.splits)
  let ?d0 = "d\<lparr>d_pending := None\<rparr>"
  obtain x d1 where hd: "decode_head memchr ?d0 = (x, d1)" by fastforce
  show ?thesis
  proof (cases x)
    case (Inl e)
    then show ?thesis using vec hd nr by (auto simp: decode_frame_def)
  next
    case (Inr h)
    note hd = hd[unfolded Inr]
    have off0: "d_offset ?d0 \<le> length (d_input ?d0)" using off by simp
    from decode_head_steps[OF hd off0] obtain a8 b8 a9 b9 a35 b35 where
      rs: "fh_begin_string_range h = (a8, b8)" "fh_body_length_range h = (a9, b9)"
        "fh_msg_type_range h = Inr (a35, b35)" and st: "fh_start h = d_offset ?d0" and
      g: "get_range (consumed (d_offset ?d0) d1) a8 b8 = Some (f_val (fh_begin_string h))"
        "get_range (consumed (d_offset ?d0) d1) a9 b9 = Some (f_val (fh_body_length h))"
        "get_range (consumed (d_offset ?d0) d1) a35 b35 = Some (f_val (fh_msg_type_field h))"
      and o: "d_offset ?d0 \<le> d_offset d1" "d_offset d1 \<le> length (d_input d1)" .
    let ?hs = "[fh_begin_string h, fh_body_length h, fh_msg_type_field h]"
    have h0: "holds (consumed (d_offset ?d0) d1) s []"
      using holds_extend[OF s, of "consumed (d_offset ?d0) d1"] by simp
    note ph = push_head_refines[OF h0 nr rs g]
    obtain cs gs where lp: "field_loop memchr vec_push (Some (fh_body_end h)) (fh_start h) d1 ?hs = (cs, d', fs)"
      and r: "r = (case cs of Inl e \<Rightarrow> Inl e | Inr c \<Rightarrow> decode_tail h c d')" and fs: "fs = ?hs @ gs"
      using vec hd vec_loop_extends
      by (fastforce simp: decode_frame_def push_head_def thenS_def vec_push_def
          split: prod.splits sum.splits)
    show ?thesis
    proof (cases "overfull (room s) ?hs")
      case True
      with overfull_append[OF this, of gs] ph show ?thesis
        by (auto simp: decode_frame_def hd fs)
    next
      case False
      with ph obtain s1 where s1: "push_head push h s = (Inr (), s1)"
        "holds (consumed (d_offset ?d0) d1) s1 ?hs" "room s1 = room s" by auto
      note ref = loop_refines[OF lp s1(2)[folded st] _ o(1)[folded st] o(2), unfolded s1(3), OF False]
      show ?thesis
      proof (cases "overfull (room s) fs")
        case True
        with ref show ?thesis by (auto simp: decode_frame_def hd s1(1))
      next
        case nf: False
        with ref obtain s2 where s2:
          "field_loop memchr push (Some (fh_body_end h)) (fh_start h) d1 s1 = (cs, d', s2)"
          "room s2 = room s" "\<forall>c. cs = Inr (Some c) \<longrightarrow> holds (consumed (fh_start h) d') s2 fs" by auto
        have "decode_frame memchr push d s = (r, d', s2)"
          by (simp add: decode_frame_def hd s1(1) s2(1) r split: sum.splits)
        moreover have "holds (fr_buffer fr) s2 fs" if ok: "r = Inr fr" for fr
        proof -
          from ok r obtain c where c: "cs = Inr (Some c)" and tl: "decode_tail h (Some c) d' = Inr fr"
            by (cases cs; cases "projr cs") (auto simp: decode_tail_def)
          have "fr_buffer fr = consumed (fh_start h) d'"
            using tl by (auto simp: decode_tail_def result_simps get_range_def consumed_def Let_def
                split: prod.splits if_splits)
          with s2(3) c show ?thesis by simp
        qed
        ultimately show ?thesis using nf s2(2) by simp
      qed
    qed
  qed
qed

end

subsection \<open>The bounded decoder\<close>

interpretation vec_decoding: sink_decoding find_byte vec_push "\<lambda>_ s fs. s = fs" "\<lambda>_. None"
  by unfold_locales

interpretation index_decoding: sink_decoding find_byte index_push index_holds "\<lambda>ix. Some (fi_capacity ix)"
  by unfold_locales

lemma sink_decoding_index:
  "memchr_law mc \<Longrightarrow> sink_decoding mc index_push index_holds (\<lambda>ix. Some (fi_capacity ix))"
  by (intro sink_decoding.intro index_sink.field_sink_axioms)

lemma index_holds_fields:
  assumes "index_holds buf ix fs" and "im_buffer im = buf" and "im_index im = ix"
  shows "im_fields im = fs" and "resolve_spans buf (fi_spans ix) = Inr fs"
    and "im_get_field im t = find (\<lambda>f. f_tag f = t) fs"
proof -
  have fl: "map (im_resolve buf) sps = map Some fs \<Longrightarrow>
      List.map_filter (im_resolve buf) sps = fs \<and> resolve_spans buf sps = Inr fs
      \<and> (case find (\<lambda>sp. sp_tag sp = t) sps of None \<Rightarrow> None | Some sp \<Rightarrow> im_resolve buf sp)
         = find (\<lambda>f. f_tag f = t) fs" for sps
  proof (induction sps arbitrary: fs)
    case (Cons sp sps)
    then obtain f gs where fs: "fs = f # gs" "im_resolve buf sp = Some f" by (cases fs) auto
    then have "f_tag f = sp_tag sp" by (auto simp: im_resolve_def)
    then show ?case using Cons fs by (auto simp: List.map_filter_simps)
  qed (simp add: List.map_filter_simps)
  then show "im_fields im = fs" "resolve_spans buf (fi_spans ix) = Inr fs"
    "im_get_field im t = find (\<lambda>f. f_tag f = t) fs"
    using assms by (auto simp: index_holds_def im_fields_def im_get_field_def)
qed

lemma decode_success_offset:
  assumes "decode mc d = (Inr m, d')"
  shows "d_offset d \<le> length (d_input d)"
proof (rule ccontr)
  assume "\<not> ?thesis"
  then have "next_field_bounded mc None (d\<lparr>d_pending := None\<rparr>) = (Inr None, d\<lparr>d_pending := None\<rparr>)"
    by (simp add: next_field_bounded_def get_from_def)
  then show False
    using assms by (simp add: decode_def decode_frame_def decode_head_def thenS_def getS_def liftS_def
        next_field_def Let_def)
qed

lemma decode_into_refines:
  assumes "memchr_law mc" and dec: "decode mc d = (Inr m, d')"
  shows "if fi_capacity ix < length (as_slice (rm_fields m))
     then \<exists>d2 ix2. decode_into mc d ix = (Inl (TooManyFields (fi_capacity ix)), d2, ix2)
     else \<exists>im. decode_into mc d ix = (Inr im, d', im_index im) \<and> to_raw_message im = Inr m
        \<and> im_fields im = as_slice (rm_fields m) \<and> im_msg_type im = rm_msg_type m
        \<and> (\<forall>t. im_get_field im t = raw_get_field m t)"
proof -
  let ?ix = "field_index_clear ix"
  note frame = sink_decoding.frame_refines[OF sink_decoding_index[OF assms(1)]]
  from dec obtain fr fs where
    vec: "decode_frame mc vec_push d [] = (Inr fr, d', fs)" and
    m: "raw_message_new (fr_buffer fr) (fr_begin_string fr) (fr_body fr) (fr_msg_type fr) fs = Inr m"
    by (auto simp: decode_def split: prod.splits sum.splits)
  have fs: "rm_fields m = Inline fs" "rm_msg_type m = fr_msg_type fr"
    using m by (auto simp: raw_message_new_def result_simps)
  have cap: "fi_capacity ?ix = fi_capacity ix" by (simp add: field_index_clear_def)
  have h0: "index_holds [] ?ix []" by (simp add: index_holds_def field_index_clear_def)
  note ref = frame[OF vec h0 decode_success_offset[OF dec], unfolded overfull_def cap]
  show ?thesis
  proof (cases "fi_capacity ix < length fs")
    case True
    with ref show ?thesis by (auto simp: decode_into_def fs)
  next
    case False
    with ref obtain ix2 where ix2: "decode_frame mc index_push d ?ix = (Inr fr, d', ix2)"
      "index_holds (fr_buffer fr) ix2 fs" by auto
    define im where "im = \<lparr>im_buffer = fr_buffer fr, im_index = ix2, im_msg_type = fr_msg_type fr,
               im_begin_string = fr_begin_string fr, im_body = fr_body fr\<rparr>"
    note res = index_holds_fields[OF ix2(2), of im]
    have "decode_into mc d ix = (Inr im, d', im_index im)"
      by (simp add: decode_into_def ix2(1) im_def)
    moreover have "to_raw_message im = Inr m"
      using m res(2) by (simp add: to_raw_message_def im_def)
    ultimately show ?thesis
      using False res(1,3) by (auto simp: fs im_def raw_get_field_def)
  qed
qed

end
