(* ===== verification/Tag_Value_Roundtrip.thy ===== *)
theory Tag_Value_Roundtrip
  imports Encoder_Correct Decoder_Sinks
begin

text \<open>
  The encoder and the decoder agree: every frame the encoder produces is well formed, the
  decoder accepts it whole, and the fields it returns are the ones that were written.
\<close>

lemma parse_tag_literals:
  "parse_tag [56] = Some 8" "parse_tag [57] = Some 9" "parse_tag [49, 48] = Some 10"
  by (simp_all add: parse_tag_iff MAX_TAG_DIGITS_def dec_val_def digit_val_def is_ascii_digit_def)

lemma announced_none: "paired_data_tag (f_tag f) = None \<Longrightarrow> announced f = None"
  by (simp add: announced_def)

context encoding
begin

lemma wire_body: "wire (body_bytes itoa fs) fs"
proof (induction fs)
  case (Cons f fs)
  have "wire (itoa (unat (f_tag f)) @ EQUALS # f_val f @ SOH # body_bytes itoa fs) (f # fs)"
    by (rule wire_Cons[OF parse_tag_itoa Cons.IH])
  then show ?case by (simp add: field_bytes_def)
qed (simp add: wire_Nil)

lemma put_fields_framed:
  assumes "put_allowed itoa p" and "length (body_bytes itoa (put_fields itoa p)) < 10 ^ 10"
  shows "well_framed None (put_fields itoa p @ rest) \<longleftrightarrow> well_framed None rest"
proof (cases "\<exists>l d v. p = PData l d v")
  case True
  then obtain l d v where p: "p = PData l d v" by blast
  then have pd: "paired_data_tag l = Some d" and v: "length v < 10 ^ 10"
    using assms by (auto simp: field_bytes_def)
  have an: "announced \<lparr>f_tag = l, f_val = itoa (length v)\<rparr> = Some \<lparr>p_data_tag = d, p_declared = length v\<rparr>"
    by (simp add: announced_def pd parse_length_itoa[OF v])
  show ?thesis
    using data_tag_not_length[OF pd]
    by (simp add: p field_framed_def itoa_plain parse_length_itoa[OF v] an counted_for_def announced_none)
next
  case False
  then have "put_fields itoa p = [hd (put_fields itoa p)]" "raw_allowed (hd (put_fields itoa p))"
    using assms(1) by (cases p; simp)+
  moreover have "well_framed None (f # rest) \<longleftrightarrow> well_framed None rest" if "raw_allowed f" for f
    using that by (simp add: field_framed_def raw_allowed_def announced_none)
  ultimately show ?thesis by (metis append_Cons append_Nil)
qed

lemma written_framed:
  assumes "\<forall>p\<in>set ps. put_allowed itoa p"
    and "length (body_bytes itoa (written_fields itoa ps)) < 10 ^ 10"
  shows "well_framed None (written_fields itoa ps)"
  using assms
proof (induction ps)
  case (Cons p ps)
  then show ?case
    by (simp add: written_fields_def put_fields_framed)
qed (simp add: written_fields_def)

lemma written_tags:
  assumes "\<forall>p\<in>set ps. put_allowed itoa p" and "f \<in> set (written_fields itoa ps)"
  shows "f_tag f \<noteq> 10"
    and "f_tag f = 35 \<Longrightarrow> utf8_valid (f_val f) \<and> is_ok (msg_type_new (f_val f))"
proof -
  from assms obtain p where p: "put_allowed itoa p" "f \<in> set (put_fields itoa p)"
    by (auto simp: written_fields_def)
  have "f_tag f \<noteq> 10 \<and> (f_tag f = 35 \<longrightarrow> utf8_valid (f_val f) \<and> is_ok (msg_type_new (f_val f)))"
  proof (cases "\<exists>l d v. p = PData l d v")
    case True
    then show ?thesis using p paired_data_tag_values by auto
  next
    case False
    with p have "raw_allowed f" by (cases p) auto
    then show ?thesis by (auto simp: raw_allowed_def)
  qed
  then show "f_tag f \<noteq> 10"
    "f_tag f = 35 \<Longrightarrow> utf8_valid (f_val f) \<and> is_ok (msg_type_new (f_val f))" by auto
qed

text \<open>The message a decoder is expected to return for a frame.\<close>

end

definition framed_message :: "(nat \<Rightarrow> bytes) \<Rightarrow> bytes \<Rightarrow> field list \<Rightarrow> msg_type \<Rightarrow> raw_message" where
  "framed_message it bs fs ty =
    (let n = length (body_bytes it fs); h = length (header_bytes bs (it n)) in
     \<lparr>rm_buffer = frame_of it bs fs, rm_begin_string = (2, 2 + length bs), rm_body = (h, h + n),
      rm_msg_type = ty,
      rm_fields = Inline (\<lparr>f_tag = 8, f_val = bs\<rparr> # \<lparr>f_tag = 9, f_val = it n\<rparr> # fs)\<rparr>)"

context encoding
begin

lemma framed_message_well_formed:
  assumes bs: "begin_string_allowed bs" and ok: "\<forall>p\<in>set ps. put_allowed itoa p"
    and fs: "written_fields itoa ps = f # gs" "f_tag f = 35"
    and len: "length (body_bytes itoa (written_fields itoa ps)) < 10 ^ 10"
    and ty: "msg_type_new (f_val f) = Inr ty"
  shows "well_formed_message True (framed_message itoa bs (f # gs) ty)"
proof -
  let ?fs = "f # gs"
  let ?body = "body_bytes itoa ?fs"
  let ?f8 = "\<lparr>f_tag = 8, f_val = bs\<rparr>" and ?f9 = "\<lparr>f_tag = 9, f_val = itoa (length ?body)\<rparr>"
  have hb: "head_bytes [56] ?f8 [57] ?f9 = header_bytes bs (itoa (length ?body))"
    by (simp add: head_bytes_def header_bytes_def)
  have soh: "SOH \<notin> set bs"
  proof
    assume "SOH \<in> set bs"
    with bs have "is_ascii_graphic SOH" by (auto simp: begin_string_allowed_def)
    then show False by (simp add: is_ascii_graphic_def word_le_nat_alt)
  qed
  have wf: "well_framed None (?f8 # ?f9 # ?fs)"
    using soh written_framed[OF ok len, unfolded fs]
    by (simp add: field_framed_def itoa_plain announced_none)
  have u: "utf8_valid (f_val f)" using written_tags(2)[OF ok, of f] fs by simp
  have t: "\<forall>g\<in>set gs. f_tag g \<noteq> 10" using written_tags(1)[OF ok] fs by simp
  show ?thesis
    unfolding well_formed_message_def
    by (rule exI[of _ "[56]"], rule exI[of _ ?f8], rule exI[of _ "[57]"], rule exI[of _ ?f9],
        rule exI[of _ f], rule exI[of _ gs], rule exI[of _ ?body], rule exI[of _ "[49, 48]"],
        rule exI[of _ "format_checksum (calculate_checksum (header_bytes bs (itoa (length ?body)) @ ?body))"],
        intro conjI)
       (use fs(2) wf u t len fs(1) in \<open>simp_all add: framed_message_def Let_def parse_tag_literals wire_body
          parse_length_itoa ty format_checksum_no_soh parse_format_checksum hb frame_of_def
          del: well_framed.simps body_bytes_simps\<close>)
qed

lemma encode_decode:
  assumes fin: "finished memchr itoa bs ps = Inr frame"
    and len: "length (body_bytes itoa (written_fields itoa ps)) < 10 ^ 10"
    and max: "length (frame @ rest) \<le> usize_max"
  shows "\<exists>ty. decode memchr (decoder_new (frame @ rest))
      = (Inr (framed_message itoa bs (written_fields itoa ps) ty),
         (decoder_new (frame @ rest))\<lparr>d_offset := length frame\<rparr>)
     \<and> msg_type_new (f_val (hd (written_fields itoa ps))) = Inr ty"
proof -
  have "length (body_bytes itoa (written_fields itoa ps)) \<le> usize_max"
    using len by (simp add: usize_max_def)
  with fin finish_iff have bs: "begin_string_allowed bs" and ok: "\<forall>p\<in>set ps. put_allowed itoa p"
    and first: "written_fields itoa ps \<noteq> []" "f_tag (hd (written_fields itoa ps)) = 35"
    and frame: "frame = frame_of itoa bs (written_fields itoa ps)" by blast+
  from first obtain f gs where fs: "written_fields itoa ps = f # gs" "f_tag f = 35"
    by (cases "written_fields itoa ps") auto
  obtain ty where ty: "msg_type_new (f_val f) = Inr ty"
    using written_tags(2)[OF ok, of f] fs by (auto simp: is_ok_iff)
  note wf = framed_message_well_formed[OF bs ok fs len ty]
  have buf: "rm_buffer (framed_message itoa bs (f # gs) ty) = frame"
    by (simp add: framed_message_def frame fs(1) Let_def)
  have "decode memchr (decoder_new (frame @ rest)) = (Inr (framed_message itoa bs (f # gs) ty),
      (decoder_new (frame @ rest))
        \<lparr>d_offset := d_offset (decoder_new (frame @ rest)) + length (rm_buffer (framed_message itoa bs (f # gs) ty)),
         d_pending := None\<rparr>)"
    by (rule decode_complete[where rest = rest]) (use wf max buf in \<open>simp_all add: decoder_new_def\<close>)
  then show ?thesis
    using ty by (intro exI[of _ ty]) (simp add: fs(1) buf, simp add: decoder_new_def)
qed

end

end
