(* ===== verification/Tag_Value_Properties.thy ===== *)
theory Tag_Value_Properties
  imports Tag_Value_Roundtrip Encoder_Correct
begin

text \<open>
  The properties of the tag=value layer, stated for any byte search and integer printer
  that keep their documented behaviour, with concrete runs.
\<close>

subsection \<open>A concrete message\<close>

abbreviation fix44 :: bytes where "fix44 \<equiv> [70, 73, 88, 46, 52, 46, 52]"

definition sample_puts :: "put list" where
  "sample_puts = [PStr 35 [48], PData 95 96 [1, 61]]"

definition sample_fields :: "field list" where
  "sample_fields = [\<lparr>f_tag = 35, f_val = [48]\<rparr>, \<lparr>f_tag = 95, f_val = [50]\<rparr>, \<lparr>f_tag = 96, f_val = [1, 61]\<rparr>]"

definition sample_frame :: bytes where
  "sample_frame = [56,61,70,73,88,46,52,46,52,1,57,61,49,54,1,51,53,61,48,1,57,53,61,50,1,
     57,54,61,1,61,1,49,48,61,49,53,56,1]"

lemma sample_pair: "paired_data_tag 95 = Some 96"
  by (simp add: paired_data_tag_def length_data_arms_def FIRST_LENGTH_TAG_def)

lemma sample_msg_type: "msg_type_new [48] = Inr Heartbeat"
  by (simp add: msg_type_new_def msg_type_table_def bytes_of_def)

lemma sample_written: "written_fields dec_bytes sample_puts = sample_fields"
  by (simp add: written_fields_def sample_puts_def sample_fields_def dec_bytes.simps)

lemma sample_head: "sample_fields \<noteq> [] \<and> f_tag (hd sample_fields) = 35"
  by (simp add: sample_fields_def)

lemma sample_frame_of: "frame_of dec_bytes fix44 sample_fields = sample_frame"
  by (simp add: frame_of_def body_bytes_def field_bytes_def header_bytes_def dec_bytes.simps
      calculate_checksum_def format_checksum_def sample_fields_def sample_frame_def Let_def)

lemma sample_body: "length (body_bytes dec_bytes sample_fields) = 16"
  by (simp add: sample_fields_def body_bytes_def field_bytes_def dec_bytes.simps)

lemma sample_allowed: "begin_string_allowed fix44" "\<forall>p\<in>set sample_puts. put_allowed dec_bytes p"
  using sample_pair
  by (simp_all add: begin_string_allowed_def is_ascii_graphic_def BEGIN_STRING_MAX_LEN_def
      sample_puts_def raw_allowed_def sample_msg_type paired_data_tag_def[of 35] is_data_tag_def
      FIRST_LENGTH_TAG_def FIRST_DATA_TAG_def)

lemma sample_finished: "finished find_byte dec_bytes fix44 sample_puts = Inr sample_frame"
  using plain_encoding.finish_iff[of sample_puts fix44 sample_frame] sample_allowed sample_body
  by (simp add: sample_written sample_frame_of usize_max_def, simp add: sample_fields_def)

subsection \<open>Round trip\<close>

text \<open>
  C1. What is encoded is what is decoded: whenever a new encoder, given any sequence of
  \<open>put_*\<close> calls, finishes with a frame, the decoder reads exactly that frame off the front
  of any input that starts with it, verifies its checksum, and returns BeginString,
  BodyLength and then the written fields in order, with nothing injected by the values.
\<close>
theorem encode_decode_roundtrip:
  assumes "memchr_law mc" and "itoa_law it"
    and "finished mc it bs ps = Inr frame"
    and "length (body_bytes it (written_fields it ps)) < 10 ^ 10"
    and "length (frame @ rest) \<le> usize_max"
  shows "\<exists>ty. decode mc (decoder_new (frame @ rest))
      = (Inr (framed_message it bs (written_fields it ps) ty),
         (decoder_new (frame @ rest))\<lparr>d_offset := length frame\<rparr>)
     \<and> msg_type_new (f_val (hd (written_fields it ps))) = Inr ty"
  using encoding.encode_decode[OF encoding.intro[OF assms(1,2)] assms(3-5)] .

theorem encode_decode_roundtrip_witness:
  "\<exists>ty. decode find_byte (decoder_new (sample_frame @ [56]))
      = (Inr (framed_message dec_bytes fix44 sample_fields ty),
         (decoder_new (sample_frame @ [56]))\<lparr>d_offset := length sample_frame\<rparr>)
     \<and> msg_type_new [48] = Inr ty"
  using encode_decode_roundtrip[OF byte_search.memchr_law_axioms decimal_printer.itoa_law_axioms
      sample_finished, of "[56]"] sample_body
  by (simp add: sample_written sample_frame_def usize_max_def, simp add: sample_fields_def)

subsection \<open>The decoder\<close>

text \<open>
  C4. The decoder accepts exactly the well-formed frames: it returns a message and a new
  state if and only if the message is well formed (header order, counted body, legal tags,
  SOH only under a LENGTH count, checksum when verified), its bytes are the next bytes of the
  input, and the state has moved past precisely those bytes.
\<close>
theorem decode_exactly:
  assumes "memchr_law mc" and "length (d_input d) \<le> usize_max"
  shows "decode mc d = (Inr m, d') \<longleftrightarrow>
      well_formed_message (d_validate d) m
      \<and> (\<exists>rest. drop (d_offset d) (d_input d) = rm_buffer m @ rest)
      \<and> d' = d\<lparr>d_offset := d_offset d + length (rm_buffer m), d_pending := None\<rparr>"
  using memchr_law.decode_accepts_iff[OF assms] .

lemma sample_decoded:
  obtains ty where "decode find_byte (decoder_new sample_frame)
      = (Inr (framed_message dec_bytes fix44 sample_fields ty),
         (decoder_new sample_frame)\<lparr>d_offset := length sample_frame\<rparr>)"
  using plain_encoding.encode_decode[OF sample_finished, of "[]"] sample_body
  by (auto simp: sample_written sample_frame_def usize_max_def)

theorem decode_exactly_witness:
  "\<exists>ty. well_formed_message True (framed_message dec_bytes fix44 sample_fields ty)"
proof -
  obtain ty where "decode find_byte (decoder_new sample_frame)
      = (Inr (framed_message dec_bytes fix44 sample_fields ty),
         (decoder_new sample_frame)\<lparr>d_offset := length sample_frame\<rparr>)" by (rule sample_decoded)
  then show ?thesis
    by (subst (asm) decode_exactly[OF byte_search.memchr_law_axioms])
       (auto simp: decoder_new_def sample_frame_def usize_max_def)
qed

text \<open>
  C15. The bounded decoder agrees with the allocating one: when \<open>decode\<close> returns a message,
  \<open>decode_into\<close> returns the same message (fields, lookups, type, the ranges, and the same
  state) if the index has room for its fields, and \<open>TooManyFields\<close> if it has not.
\<close>
theorem decode_into_agrees:
  assumes "memchr_law mc" and "decode mc d = (Inr m, d')"
  shows "if fi_capacity ix < length (as_slice (rm_fields m))
     then \<exists>d2 ix2. decode_into mc d ix = (Inl (TooManyFields (fi_capacity ix)), d2, ix2)
     else \<exists>im. decode_into mc d ix = (Inr im, d', im_index im) \<and> to_raw_message im = Inr m
        \<and> im_fields im = as_slice (rm_fields m) \<and> im_msg_type im = rm_msg_type m
        \<and> (\<forall>t. im_get_field im t = raw_get_field m t)"
  using decode_into_refines[OF assms] .

theorem decode_into_agrees_witness:
  "(\<exists>d2 ix2. decode_into find_byte (decoder_new sample_frame) (field_index_with_capacity 4)
       = (Inl (TooManyFields 4), d2, ix2))
   \<and> (\<exists>d2 im. decode_into find_byte (decoder_new sample_frame) (field_index_with_capacity 5)
       = (Inr im, d2, im_index im)
       \<and> map f_tag (im_fields im) = [8, 9, 35, 95, 96])"
proof -
  obtain ty where dec: "decode find_byte (decoder_new sample_frame)
      = (Inr (framed_message dec_bytes fix44 sample_fields ty),
         (decoder_new sample_frame)\<lparr>d_offset := length sample_frame\<rparr>)" by (rule sample_decoded)
  have fs: "as_slice (rm_fields (framed_message dec_bytes fix44 sample_fields ty))
      = \<lparr>f_tag = 8, f_val = fix44\<rparr> # \<lparr>f_tag = 9, f_val = dec_bytes 16\<rparr> # sample_fields"
    using sample_body by (simp add: framed_message_def Let_def)
  note agree = decode_into_agrees[OF byte_search.memchr_law_axioms dec, unfolded fs]
  show ?thesis
    using agree[of "field_index_with_capacity 4"] agree[of "field_index_with_capacity 5"]
    by (auto simp: sample_fields_def field_index_with_capacity_def)
qed

subsection \<open>The encoder\<close>

text \<open>
  C16. \<open>finish\<close> yields a frame exactly when the BeginString is legal, every write was legal
  and the first field is MsgType, and then the frame is the concatenation of the header with
  the true body length, the fields and the checksum: nothing else can come out, and a single
  rejected write suppresses the frame.
\<close>
theorem finish_exactly:
  assumes "memchr_law mc" and "itoa_law it"
    and "length (body_bytes it (written_fields it ps)) \<le> usize_max"
  shows "finished mc it bs ps = Inr frame \<longleftrightarrow>
     begin_string_allowed bs \<and> (\<forall>p\<in>set ps. put_allowed it p)
     \<and> written_fields it ps \<noteq> [] \<and> f_tag (hd (written_fields it ps)) = 35
     \<and> frame = frame_of it bs (written_fields it ps)"
  using encoding.finish_iff[OF encoding.intro[OF assms(1,2)] assms(3)] .

theorem finish_exactly_witness:
  "finished find_byte dec_bytes fix44 sample_puts = Inr sample_frame
   \<and> (\<forall>frame. finished find_byte dec_bytes fix44 (sample_puts @ [PRaw 58 [65, 1, 66]]) \<noteq> Inr frame)"
proof -
  have app: "written_fields dec_bytes (sample_puts @ [PRaw 58 [65, 1, 66]])
      = sample_fields @ [\<lparr>f_tag = 58, f_val = [65, 1, 66]\<rparr>]"
    using sample_written by (simp add: written_fields_def)
  have len: "length (body_bytes dec_bytes (written_fields dec_bytes (sample_puts @ [PRaw 58 [65, 1, 66]]))) \<le> usize_max"
    using sample_body unfolding app by (simp add: field_bytes_def dec_bytes.simps usize_max_def)
  have bad: "\<not> put_allowed dec_bytes (PRaw 58 [65, 1, 66])" by (simp add: raw_allowed_def)
  note laws = byte_search.memchr_law_axioms decimal_printer.itoa_law_axioms
  show ?thesis
    using finish_exactly[OF laws len] bad
      finish_exactly[OF laws, of sample_puts fix44 sample_frame] sample_allowed sample_body
      sample_head
    by (auto simp: sample_written sample_frame_of usize_max_def)
qed

text \<open>
  Reuse: after any sequence of writes, fallible writes, finishes and clears, \<open>clear\<close>
  puts the encoder back exactly in the state \<open>new\<close> gave it (a rejected BeginString
  included), so no field, error or frame of one message leaks into the next.
\<close>
theorem clear_is_new:
  "encoder_clear (fold (run_op mc it) ops (encoder_new bs)) = encoder_new bs"
  using clear_determined[OF run_ops_keeps] clear_new by metis

text \<open>
  A finished frame is final: finishing again returns the same frame and changes nothing,
  and until \<open>clear\<close> every further write is rejected as already finished and leaves the
  encoder as it is.
\<close>
theorem finished_is_final:
  assumes "finish it e = (Inr frame, e')"
  shows "finish it e' = (Inr frame, e')
     \<and> try_put_raw mc it t v e' = (Inl (InvalidEncodeValue t AlreadyFinished), e')
     \<and> try_put_data it l dt v e' = (Inl (InvalidEncodeValue dt AlreadyFinished), e')"
  using finish_Inr[OF assms] finish_again put_after_finish by (metis option.distinct(1))

theorem finished_is_final_witness:
  "\<exists>e'. finish dec_bytes (encode_all find_byte dec_bytes fix44 sample_puts) = (Inr sample_frame, e')
     \<and> try_put_raw find_byte dec_bytes 58 [65] e' = (Inl (InvalidEncodeValue 58 AlreadyFinished), e')"
proof -
  obtain e' where "finish dec_bytes (encode_all find_byte dec_bytes fix44 sample_puts) = (Inr sample_frame, e')"
    using sample_finished unfolding finished_def by (metis prod.collapse)
  from this finished_is_final[OF this, of find_byte 58 "[65]"] show ?thesis by blast
qed

subsection \<open>Texts and tables\<close>

text \<open>
  CheckSum text: the parser accepts exactly the three digits the formatter prints, so
  it inverts it and rejects everything else (values over 255 included).
\<close>
theorem checksum_text: "parse_checksum bs = Some c \<longleftrightarrow> bs = format_checksum c"
  by (auto simp: parse_format_checksum dest: parse_checksum_Some)

text \<open>
  Tag text: \<open>parse_tag\<close> accepts exactly one to ten ASCII digits whose value fits 32
  bits, and returns that value; in particular no accepted text wraps around.
\<close>
theorem tag_text:
  "parse_tag bs = Some t \<longleftrightarrow>
     1 \<le> length bs \<and> length bs \<le> MAX_TAG_DIGITS \<and> all_digits bs \<and> dec_val bs = unat t"
  using parse_tag_iff[of bs t] unsigned_less[of t] unat_of_nat_small[of "dec_val bs", where 'w = 32]
  by (auto simp: Suc_le_eq)

text \<open>
  The two hand-written tables of counted fields agree: a tag is a DATA tag exactly when
  one LENGTH tag announces it, that LENGTH tag is unique, and no DATA tag is itself a LENGTH.
\<close>
theorem data_tables_agree:
  "(is_data_tag d \<longleftrightarrow> (\<exists>!l. paired_data_tag l = Some d))
   \<and> \<not> (is_data_tag d \<and> paired_data_tag d \<noteq> None)"
proof -
  have "(\<exists>l. paired_data_tag l = Some d) = (\<exists>!l. paired_data_tag l = Some d)"
    using paired_data_tag_inj[of _ d] by metis
  moreover have "paired_data_tag d = None" if "is_data_tag d"
    using that data_tag_not_length[of _ d] unfolding is_data_tag_iff by metis
  ultimately show ?thesis unfolding is_data_tag_iff by auto
qed

text \<open>
  MsgType codes survive: \<open>new\<close> accepts exactly one to eight printable ASCII bytes, and
  nothing else.
\<close>
theorem msg_type_new_exactly:
  "(\<exists>t. msg_type_new code = Inr t) = (1 \<le> length code \<and> length code \<le> MSG_TYPE_MAX_LEN
      \<and> set code \<subseteq> {32..126})"
  using msg_type_new_Inr[of code] by (simp add: subset_iff Ball_def)

text \<open>A MsgType prints as the code it was built from.\<close>
theorem msg_type_code_kept:
  assumes "msg_type_new code = Inr t"
  shows "msg_type_as_str t = code \<and> msg_type_new (msg_type_as_str t) = Inr t"
  using msg_type_new_as_str[OF assms] assms by simp

theorem msg_type_code_kept_witness: "msg_type_as_str Heartbeat = [48]"
  using msg_type_code_kept[OF sample_msg_type] by simp

end
