(* ===== verification/Std_Model.thy ===== *)
theory Std_Model
  imports Prelude
begin

text \<open>
  The parts of the Rust standard library the stateful crates use: \<^verbatim>\<open>Duration\<close> and
  \<^verbatim>\<open>Instant\<close> as counts of nanoseconds with their checked operations, and
  \<^verbatim>\<open>BTreeMap\<close> as an association list kept in strictly ascending key order.  The locale
  \<open>ordered_map\<close> is the interface the clients of the map rely on.
\<close>

subsection \<open>Durations and instants\<close>

type_synonym duration = nat
type_synonym instant = nat

definition NANOS :: nat where "NANOS = 10 ^ 9"
definition duration_max :: duration where "duration_max = (2 ^ 64 - 1) * NANOS + (NANOS - 1)"
definition instant_max :: instant where "instant_max = (2 ^ 63 - 1) * NANOS + (NANOS - 1)"

definition from_secs :: "u64 \<Rightarrow> duration" where
  "from_secs s = unat s * NANOS"

definition from_millis :: "u64 \<Rightarrow> duration" where
  "from_millis ms = unat ms * 10 ^ 6"

definition duration_add :: "duration \<Rightarrow> duration \<Rightarrow> duration option" where
  "duration_add a b = (if a + b \<le> duration_max then Some (a + b) else None)"

definition duration_mul :: "duration \<Rightarrow> nat \<Rightarrow> duration option" where
  "duration_mul a k = (if a * k \<le> duration_max then Some (a * k) else None)"

text \<open>\<^verbatim>\<open>now.checked_duration_since(earlier)\<close> and \<^verbatim>\<open>instant.checked_add(d)\<close>.\<close>

definition duration_since :: "instant \<Rightarrow> instant \<Rightarrow> duration option" where
  "duration_since now earlier = (if earlier \<le> now then Some (now - earlier) else None)"

definition instant_add :: "instant \<Rightarrow> duration \<Rightarrow> instant option" where
  "instant_add i d = (if i + d \<le> instant_max then Some (i + d) else None)"

subsection \<open>Ordered maps\<close>

text \<open>What a client of a map in key order may rely on.\<close>

locale ordered_map =
  fixes inv :: "'m \<Rightarrow> bool"
    and lookup :: "'m \<Rightarrow> 'k::linorder \<Rightarrow> 'v option"
    and update :: "'k \<Rightarrow> 'v \<Rightarrow> 'm \<Rightarrow> 'm"
    and remove :: "'k \<Rightarrow> 'm \<Rightarrow> 'm"
    and first :: "'m \<Rightarrow> ('k \<times> 'v) option"
    and count :: "'m \<Rightarrow> nat"
    and empty :: 'm
  assumes empty_inv: "inv empty" and empty_lookup: "lookup empty = (\<lambda>_. None)"
    and update_inv: "inv m \<Longrightarrow> inv (update k v m)"
    and update_lookup: "inv m \<Longrightarrow> lookup (update k v m) = (lookup m)(k \<mapsto> v)"
    and remove_inv: "inv m \<Longrightarrow> inv (remove k m)"
    and remove_lookup: "inv m \<Longrightarrow> lookup (remove k m) = (lookup m)(k := None)"
    and first_None: "inv m \<Longrightarrow> first m = None \<longleftrightarrow> lookup m = (\<lambda>_. None)"
    and first_Some: "inv m \<Longrightarrow> first m = Some (k, v) \<Longrightarrow>
        lookup m k = Some v \<and> (\<forall>k'. lookup m k' \<noteq> None \<longrightarrow> k \<le> k')"
    and count_card: "inv m \<Longrightarrow> finite (dom (lookup m)) \<and> count m = card (dom (lookup m))"
begin

lemma count_update_new: "inv m \<Longrightarrow> lookup m k = None \<Longrightarrow> count (update k v m) = Suc (count m)"
  using count_card[of m] count_card[OF update_inv[of m k v]]
  by (simp add: update_lookup domIff)

lemma count_remove: "inv m \<Longrightarrow> lookup m k \<noteq> None \<Longrightarrow> count m = Suc (count (remove k m))"
proof -
  assume m: "inv m" "lookup m k \<noteq> None"
  then have "dom (lookup m) = insert k (dom (lookup (remove k m)))"
    by (auto simp: remove_lookup dom_def)
  moreover have "k \<notin> dom (lookup (remove k m))" using m by (simp add: remove_lookup domIff)
  ultimately show ?thesis
    using count_card[OF m(1)] count_card[OF remove_inv[OF m(1), of k]] by simp
qed

lemma first_remove_lookup:
  "inv m \<Longrightarrow> first m = Some (k, v) \<Longrightarrow>
     lookup (remove k m) = (\<lambda>k'. if k' \<le> k then None else lookup m k')"
  using first_Some[of m k v] by (force simp: remove_lookup fun_eq_iff)

end

type_synonym ('k, 'v) btree = "('k \<times> 'v) list"

definition bt_ordered :: "('k::linorder, 'v) btree \<Rightarrow> bool" where
  "bt_ordered m \<longleftrightarrow> sorted_wrt (<) (map fst m)"

definition bt_get :: "('k, 'v) btree \<Rightarrow> 'k \<Rightarrow> 'v option" where
  "bt_get m k = map_of m k"

fun bt_insert :: "'k::linorder \<Rightarrow> 'v \<Rightarrow> ('k, 'v) btree \<Rightarrow> ('k, 'v) btree" where
  "bt_insert k v [] = [(k, v)]"
| "bt_insert k v ((k', v') # m) =
     (if k < k' then (k, v) # (k', v') # m
      else if k = k' then (k, v) # m
      else (k', v') # bt_insert k v m)"

definition bt_remove :: "'k \<Rightarrow> ('k, 'v) btree \<Rightarrow> ('k, 'v) btree" where
  "bt_remove k m = filter (\<lambda>(k', _). k' \<noteq> k) m"

definition bt_first :: "('k, 'v) btree \<Rightarrow> ('k \<times> 'v) option" where
  "bt_first m = (case m of [] \<Rightarrow> None | e # _ \<Rightarrow> Some e)"

lemma bt_insert_keys: "set (map fst (bt_insert k v m)) = insert k (set (map fst m))"
  by (induction k v m rule: bt_insert.induct) auto

lemma bt_insert_ordered: "bt_ordered m \<Longrightarrow> bt_ordered (bt_insert k v m)"
proof (induction k v m rule: bt_insert.induct)
  case (2 k v k' v' m)
  then show ?case
    using bt_insert_keys[of k v m] by (auto simp: bt_ordered_def)
qed (simp add: bt_ordered_def)

lemma bt_insert_get: "bt_get (bt_insert k v m) = (bt_get m)(k \<mapsto> v)" if "bt_ordered m"
  using that
proof (induction k v m rule: bt_insert.induct)
  case (2 k v k' v' m)
  then show ?case by (auto simp: bt_get_def bt_ordered_def fun_eq_iff)
qed (simp add: bt_get_def fun_eq_iff)

lemma bt_remove_get: "bt_get (bt_remove k m) = (bt_get m)(k := None)"
  by (induction m) (auto simp: bt_get_def bt_remove_def fun_eq_iff)

lemma bt_remove_ordered: "bt_ordered m \<Longrightarrow> bt_ordered (bt_remove k m)"
  unfolding bt_ordered_def bt_remove_def
  by (induction m) auto

lemma bt_ordered_distinct: "bt_ordered m \<Longrightarrow> distinct (map fst m)"
  unfolding bt_ordered_def by (induction m) auto

interpretation btree: ordered_map bt_ordered bt_get bt_insert bt_remove bt_first length "[]"
proof unfold_locales
  fix m :: "('a::linorder, 'b) btree" and k v
  show "bt_ordered []" by (simp add: bt_ordered_def)
  show "bt_get [] = (\<lambda>_. None)" by (simp add: bt_get_def fun_eq_iff)
  assume m: "bt_ordered m"
  show "bt_ordered (bt_insert k v m)" using m by (rule bt_insert_ordered)
  show "bt_get (bt_insert k v m) = (bt_get m)(k \<mapsto> v)" using m by (rule bt_insert_get)
  show "bt_ordered (bt_remove k m)" using m by (rule bt_remove_ordered)
  show "bt_get (bt_remove k m) = (bt_get m)(k := None)" by (rule bt_remove_get)
  show "bt_first m = None \<longleftrightarrow> bt_get m = (\<lambda>_. None)"
    by (cases m) (auto simp: bt_first_def bt_get_def fun_eq_iff)
  show "bt_first m = Some (k, v) \<Longrightarrow> bt_get m k = Some v \<and> (\<forall>k'. bt_get m k' \<noteq> None \<longrightarrow> k \<le> k')"
    using m by (cases m) (auto simp: bt_first_def bt_get_def bt_ordered_def dest!: map_of_SomeD)
  show "finite (dom (bt_get m)) \<and> length m = card (dom (bt_get m))"
    using distinct_card[OF bt_ordered_distinct[OF m]] finite_dom_map_of[of m]
    by (simp add: bt_get_def[abs_def] dom_map_of_conv_image_fst)
qed

end
