(* ===== verification/Fix_Types.thy ===== *)
theory Fix_Types
  imports Std_Model
begin

text \<open>
  The remaining shared types of \<^verbatim>\<open>ironfix-core\<close>: protocol versions
  (\<^verbatim>\<open>version.rs\<close>), and sequence numbers, timestamps, component identifiers and sides
  (\<^verbatim>\<open>types.rs\<close>).  A calendar date is chrono's: the fields of a \<^verbatim>\<open>NaiveDateTime\<close>
  are an argument of the formatter.
\<close>

subsection \<open>Protocol versions\<close>

datatype fix_version = Fix40 | Fix41 | Fix42 | Fix43 | Fix44 | Fix50 | Fix50Sp1 | Fix50Sp2 | Fixt11

definition fix_version_ALL :: "fix_version list" where
  "fix_version_ALL = [Fix40, Fix41, Fix42, Fix43, Fix44, Fix50, Fix50Sp1, Fix50Sp2, Fixt11]"

fun version_as_str :: "fix_version \<Rightarrow> bytes" where
  "version_as_str Fix40 = bytes_of ''FIX.4.0''"
| "version_as_str Fix41 = bytes_of ''FIX.4.1''"
| "version_as_str Fix42 = bytes_of ''FIX.4.2''"
| "version_as_str Fix43 = bytes_of ''FIX.4.3''"
| "version_as_str Fix44 = bytes_of ''FIX.4.4''"
| "version_as_str Fix50 = bytes_of ''FIX.5.0''"
| "version_as_str Fix50Sp1 = bytes_of ''FIX.5.0SP1''"
| "version_as_str Fix50Sp2 = bytes_of ''FIX.5.0SP2''"
| "version_as_str Fixt11 = bytes_of ''FIXT.1.1''"

fun version_begin_string :: "fix_version \<Rightarrow> bytes" where
  "version_begin_string Fix40 = bytes_of ''FIX.4.0''"
| "version_begin_string Fix41 = bytes_of ''FIX.4.1''"
| "version_begin_string Fix42 = bytes_of ''FIX.4.2''"
| "version_begin_string Fix43 = bytes_of ''FIX.4.3''"
| "version_begin_string Fix44 = bytes_of ''FIX.4.4''"
| "version_begin_string _ = bytes_of ''FIXT.1.1''"

fun appl_ver_id :: "fix_version \<Rightarrow> bytes option" where
  "appl_ver_id Fix50 = Some (bytes_of ''7'')"
| "appl_ver_id Fix50Sp1 = Some (bytes_of ''8'')"
| "appl_ver_id Fix50Sp2 = Some (bytes_of ''9'')"
| "appl_ver_id _ = None"

definition from_appl_ver_id :: "bytes \<Rightarrow> fix_version option" where
  "from_appl_ver_id value =
    (case value of
       [b] \<Rightarrow> if b = 50 then Some Fix40 else if b = 51 then Some Fix41 else if b = 52 then Some Fix42
              else if b = 53 then Some Fix43 else if b = 54 then Some Fix44 else if b = 55 then Some Fix50
              else if b = 56 then Some Fix50Sp1 else if b = 57 then Some Fix50Sp2 else None
     | _ \<Rightarrow> None)"

fun uses_fixt :: "fix_version \<Rightarrow> bool" where
  "uses_fixt Fix50 = True"
| "uses_fixt Fix50Sp1 = True"
| "uses_fixt Fix50Sp2 = True"
| "uses_fixt Fixt11 = True"
| "uses_fixt _ = False"

definition version_from_str :: "bytes \<Rightarrow> bytes + fix_version" where
  "version_from_str value =
    ok_or value (find (\<lambda>version. version_as_str version = value) fix_version_ALL)"

lemma version_in_ALL: "v \<in> set fix_version_ALL"
  by (cases v) (simp_all add: fix_version_ALL_def)

lemma version_texts_distinct: "distinct (map version_as_str fix_version_ALL)"
  by code_simp

lemma version_as_str_inj: "version_as_str v = version_as_str w \<longleftrightarrow> v = w"
  using version_texts_distinct version_in_ALL[of v] version_in_ALL[of w]
  by (auto simp: distinct_map inj_on_def)

lemma version_from_str_iff: "version_from_str s = Inr v \<longleftrightarrow> s = version_as_str v"
proof
  assume "version_from_str s = Inr v"
  then show "s = version_as_str v"
    by (auto simp: version_from_str_def result_simps find_Some_iff)
next
  assume s: "s = version_as_str v"
  then obtain w where "find (\<lambda>version. version_as_str version = s) fix_version_ALL = Some w"
    using version_in_ALL[of v] by (cases "find (\<lambda>version. version_as_str version = s) fix_version_ALL")
      (auto simp: find_None_iff)
  moreover from this have "version_as_str w = s" by (auto simp: find_Some_iff)
  ultimately show "version_from_str s = Inr v"
    using s version_as_str_inj by (simp add: version_from_str_def)
qed

lemma appl_ver_id_fixt: "appl_ver_id v = Some i \<longleftrightarrow> uses_fixt v \<and> v \<noteq> Fixt11 \<and> from_appl_ver_id i = Some v"
proof
  show "appl_ver_id v = Some i \<Longrightarrow> uses_fixt v \<and> v \<noteq> Fixt11 \<and> from_appl_ver_id i = Some v"
    by (cases v) (auto simp: from_appl_ver_id_def bytes_of_def)
next
  assume a: "uses_fixt v \<and> v \<noteq> Fixt11 \<and> from_appl_ver_id i = Some v"
  then obtain b where "i = [b]" by (auto simp: from_appl_ver_id_def split: list.splits)
  with a show "appl_ver_id v = Some i"
    by (cases v) (auto simp: from_appl_ver_id_def bytes_of_def split: if_splits)
qed

subsection \<open>Component identifiers\<close>

definition COMP_ID_MAX_LEN :: usize where "COMP_ID_MAX_LEN = 32"

datatype comp_id_error = CompIdEmpty | CompIdTooLong usize usize | CompIdIllegalByte u8 usize

text \<open>\<^verbatim>\<open>is_ascii_graphic\<close> or a space.\<close>

definition printable :: "u8 \<Rightarrow> bool" where "printable b \<longleftrightarrow> 33 \<le> b \<and> b \<le> 126 \<or> b = 32"

text \<open>The first byte that fails a test, with its position.\<close>

fun first_failing :: "(u8 \<Rightarrow> bool) \<Rightarrow> usize \<Rightarrow> bytes \<Rightarrow> (u8 \<times> usize) option" where
  "first_failing ok i [] = None"
| "first_failing ok i (b # bs) = (if ok b then first_failing ok (Suc i) bs else Some (b, i))"

definition comp_id_new :: "bytes \<Rightarrow> comp_id_error + bytes" where
  "comp_id_new s =
    (if s = [] then Inl CompIdEmpty
     else if COMP_ID_MAX_LEN < length s then Inl (CompIdTooLong (length s) COMP_ID_MAX_LEN)
     else (case first_failing printable 0 s of
             Some (byte, position) \<Rightarrow> Inl (CompIdIllegalByte byte position)
           | None \<Rightarrow> Inr s))"

lemma first_failing_None: "first_failing ok i bs = None \<longleftrightarrow> list_all ok bs"
  by (induction bs arbitrary: i) auto

lemma first_failing_Some:
  "first_failing ok i bs = Some (b, p) \<longleftrightarrow>
     i \<le> p \<and> p < i + length bs \<and> bs ! (p - i) = b \<and> \<not> ok b \<and> list_all ok (take (p - i) bs)"
proof (induction bs arbitrary: i)
  case (Cons c bs)
  show ?case
  proof (cases "ok c")
    case True
    show ?thesis
    proof (cases "Suc i \<le> p")
      case le: True
      then obtain k where "p = Suc i + k" using le_Suc_ex by blast
      with True Cons.IH[of "Suc i"] show ?thesis by simp
    next
      case False
      with True Cons.IH[of "Suc i"] show ?thesis by (cases "p = i") auto
    qed
  next
    case False
    then show ?thesis by (cases "p = i") (auto simp: take_Cons' nth_Cons')
  qed
qed simp

lemma comp_id_new_Inr:
  "comp_id_new s = Inr t \<longleftrightarrow> t = s \<and> 1 \<le> length s \<and> length s \<le> COMP_ID_MAX_LEN \<and> list_all printable s"
  using first_failing_None[of printable 0 s]
  by (cases "first_failing printable 0 s") (auto simp: comp_id_new_def Suc_le_eq)

subsection \<open>Sequence numbers and timestamps\<close>

definition seq_num_next :: "u64 \<Rightarrow> u64" where "seq_num_next n = n + 1"
definition seq_num_is_valid :: "u64 \<Rightarrow> bool" where "seq_num_is_valid n \<longleftrightarrow> 1 \<le> n"

datatype timestamp_error = NanosOutOfRange u64 u64 | MillisOutOfRange u64 | InstantOutOfRange int

definition MAX_NANOS :: u64 where "MAX_NANOS = 9223372036854775807"

definition timestamp_from_nanos :: "u64 \<Rightarrow> timestamp_error + u64" where
  "timestamp_from_nanos nanos =
     (if MAX_NANOS < nanos then Inl (NanosOutOfRange nanos MAX_NANOS) else Inr nanos)"

definition timestamp_from_millis :: "u64 \<Rightarrow> timestamp_error + u64" where
  "timestamp_from_millis millis =
     (case checked_mul millis 1000000 of
        Some nanos \<Rightarrow> timestamp_from_nanos nanos
      | None \<Rightarrow> Inl (MillisOutOfRange millis))"

definition i64_max :: int where "i64_max = 2 ^ 63 - 1"
definition i64_min :: int where "i64_min = - (2 ^ 63)"

text \<open>A \<^verbatim>\<open>SystemTimeError\<close> holds how far before the epoch the clock is.\<close>

definition seconds_before_epoch :: "duration \<Rightarrow> int" where
  "seconds_before_epoch before =
    (let secs = int (before div 1000000000);
         whole = (if secs \<le> i64_max then Some (- secs) else None);
         floored = (if before mod 1000000000 = 0 then whole
                    else Option.bind whole (\<lambda>s. if i64_min \<le> s - 1 then Some (s - 1) else None))
     in (case floored of Some s \<Rightarrow> s | None \<Rightarrow> i64_min))"

definition from_system_clock :: "duration + duration \<Rightarrow> timestamp_error + u64" where
  "from_system_clock reading =
    (case reading of
       Inr since_epoch \<Rightarrow>
         (let nanos = Option.bind (checked_mul (word_of_nat (since_epoch div 1000000000)) 1000000000)
                        (\<lambda>n. checked_add n (word_of_nat (since_epoch mod 1000000000)));
              overflow = Inl (InstantOutOfRange (min (int (since_epoch div 1000000000)) i64_max))
          in (case nanos of
                Some n \<Rightarrow> (case timestamp_from_nanos n of Inr ts \<Rightarrow> Inr ts | Inl _ \<Rightarrow> overflow)
              | None \<Rightarrow> overflow))
     | Inl before \<Rightarrow> Inl (InstantOutOfRange (seconds_before_epoch before)))"

definition clamp_system_clock :: "duration + duration \<Rightarrow> u64" where
  "clamp_system_clock reading = (case from_system_clock reading of Inr ts \<Rightarrow> ts | Inl _ \<Rightarrow> 0)"

definition timestamp_as_millis :: "u64 \<Rightarrow> u64" where "timestamp_as_millis ts = ts div 1000000"
definition timestamp_as_micros :: "u64 \<Rightarrow> u64" where "timestamp_as_micros ts = ts div 1000"

text \<open>
  \<^verbatim>\<open>put_digits\<close> fills a slice from its last byte; here it yields the bytes for a slice of
  the given length.
\<close>

fun put_digits :: "usize \<Rightarrow> nat \<Rightarrow> bytes \<Rightarrow> bytes option" where
  "put_digits 0 value acc = (if value = 0 then Some acc else None)"
| "put_digits (Suc n) value acc = put_digits n (value div 10) ((48 + word_of_nat (value mod 10)) # acc)"

text \<open>The fields chrono computes for an instant; the second may carry a leap nanosecond count.\<close>

record naive_date_time =
  nd_year :: int
  nd_month :: nat
  nd_day :: nat
  nd_hour :: nat
  nd_minute :: nat
  nd_second :: nat
  nd_nanosecond :: nat

definition format_utc_timestamp :: "usize \<Rightarrow> naive_date_time \<Rightarrow> bytes option" where
  "format_utc_timestamp len dt =
    Option.bind
      (if len < 18 then (if len = 17 then Some 0 else None)
       else if 1 \<le> len - 18 \<and> len - 18 \<le> 9 then Some (len - 18) else None)
      (\<lambda>fraction_digits.
     let second = nd_second dt + nd_nanosecond dt div 1000000000 in
     Option.bind (if 0 \<le> nd_year dt then Some (nat (nd_year dt)) else None) (\<lambda>year.
     Option.bind (put_digits 4 year []) (\<lambda>y.
     Option.bind (put_digits 2 (nd_month dt) []) (\<lambda>mo.
     Option.bind (put_digits 2 (nd_day dt) []) (\<lambda>d.
     Option.bind (put_digits 2 (nd_hour dt) []) (\<lambda>h.
     Option.bind (put_digits 2 (nd_minute dt) []) (\<lambda>mi.
     Option.bind (put_digits 2 second []) (\<lambda>s.
     let prefix = y @ mo @ d @ [45] @ h @ [58] @ mi @ [58] @ s in
     if fraction_digits = 0 then Some prefix
     else let fraction = (nd_nanosecond dt mod 1000000000) div 10 ^ (9 - fraction_digits) in
       Option.bind (put_digits fraction_digits fraction []) (\<lambda>f. Some (prefix @ [46] @ f))))))))))"

subsection \<open>Sides\<close>

datatype side = Buy | Sell | BuyMinus | SellPlus | SellShort | SellShortExempt | Undisclosed | Cross
  | CrossShort | CrossShortExempt | AsDefined | Opposite | Subscribe | Redeem | Lend | Borrow

fun side_code :: "side \<Rightarrow> u8" where
  "side_code Buy = 49" | "side_code Sell = 50" | "side_code BuyMinus = 51" | "side_code SellPlus = 52"
| "side_code SellShort = 53" | "side_code SellShortExempt = 54" | "side_code Undisclosed = 55"
| "side_code Cross = 56" | "side_code CrossShort = 57" | "side_code CrossShortExempt = 65"
| "side_code AsDefined = 66" | "side_code Opposite = 67" | "side_code Subscribe = 68"
| "side_code Redeem = 69" | "side_code Lend = 70" | "side_code Borrow = 71"

definition side_from_char :: "u8 \<Rightarrow> side option" where
  "side_from_char c =
    (if c = 49 then Some Buy else if c = 50 then Some Sell else if c = 51 then Some BuyMinus
     else if c = 52 then Some SellPlus else if c = 53 then Some SellShort
     else if c = 54 then Some SellShortExempt else if c = 55 then Some Undisclosed
     else if c = 56 then Some Cross else if c = 57 then Some CrossShort
     else if c = 65 then Some CrossShortExempt else if c = 66 then Some AsDefined
     else if c = 67 then Some Opposite else if c = 68 then Some Subscribe
     else if c = 69 then Some Redeem else if c = 70 then Some Lend
     else if c = 71 then Some Borrow else None)"

fun side_is_buy :: "side \<Rightarrow> bool" where
  "side_is_buy Buy = True" | "side_is_buy BuyMinus = True" | "side_is_buy _ = False"

fun side_is_sell :: "side \<Rightarrow> bool" where
  "side_is_sell Sell = True" | "side_is_sell SellPlus = True" | "side_is_sell SellShort = True"
| "side_is_sell SellShortExempt = True" | "side_is_sell _ = False"

subsection \<open>Lemmas\<close>

lemma side_from_char_iff: "side_from_char c = Some s \<longleftrightarrow> c = side_code s"
  by (cases s) (auto simp: side_from_char_def split: if_splits)

lemma put_digits_eq:
  "put_digits n v acc = (if v < 10 ^ n
     then Some (map (\<lambda>i. 48 + word_of_nat (v div 10 ^ (n - 1 - i) mod 10)) [0 ..< n] @ acc) else None)"
proof (induction n arbitrary: v acc)
  case (Suc n)
  have "v div 10 < 10 ^ n \<longleftrightarrow> v < 10 ^ Suc n" by (simp add: div_less_iff_less_mult mult.commute)
  moreover have "map (\<lambda>i. 48 + word_of_nat (v div 10 div 10 ^ (n - 1 - i) mod 10) :: u8) [0 ..< n]
     = map (\<lambda>i. 48 + word_of_nat (v div 10 ^ (Suc n - 1 - i) mod 10)) [0 ..< n]"
    by (rule map_cong) (auto simp: div_mult2_eq[symmetric] Suc_diff_Suc simp flip: power_Suc)
  ultimately show ?case using Suc.IH by simp
qed simp

text \<open>The number a run of digits spells.\<close>

definition digits_value :: "bytes \<Rightarrow> nat" where
  "digits_value bs = foldl (\<lambda>a b. a * 10 + (unat b - 48)) 0 bs"

lemma digits_value_snoc: "digits_value (bs @ [b]) = digits_value bs * 10 + (unat b - 48)"
  by (simp add: digits_value_def)

lemma unat_digit: "d < 10 \<Longrightarrow> unat (48 + word_of_nat d :: u8) = 48 + d"
  by (simp add: unat_word_ariths unat_of_nat)

lemma put_digits_acc: "put_digits n v acc = map_option (\<lambda>x. x @ acc) (put_digits n v [])"
  by (simp add: put_digits_eq)

lemma put_digits_value: "put_digits n v [] = Some bs \<Longrightarrow>
    length bs = n \<and> digits_value bs = v \<and> list_all (\<lambda>b. 48 \<le> b \<and> b \<le> 57) bs"
proof (induction n arbitrary: v bs)
  case 0
  then show ?case by (simp add: digits_value_def split: if_splits)
next
  case (Suc n)
  from Suc.prems obtain cs where cs: "put_digits n (v div 10) [] = Some cs"
    "bs = cs @ [48 + word_of_nat (v mod 10)]"
    by (auto simp: put_digits_acc[of n "v div 10" "[_]"])
  have d: "unat (48 + word_of_nat (v mod 10) :: u8) = 48 + v mod 10" by (rule unat_digit) simp
  then have "(48 :: u8) \<le> 48 + word_of_nat (v mod 10)" "48 + word_of_nat (v mod 10) \<le> (57 :: u8)"
    by (simp_all add: word_le_nat_alt)
  then show ?case using Suc.IH[OF cs(1)] cs(2) d by (simp add: digits_value_snoc)
qed

lemma timestamp_from_millis_ok:
  "timestamp_from_millis m = Inr t \<longleftrightarrow> unat t = unat m * 1000000 \<and> unat t < 2 ^ 63"
proof -
  have mx: "unat MAX_NANOS = 2 ^ 63 - 1" by (simp add: MAX_NANOS_def)
  show ?thesis
  proof (cases "unat m * 1000000 < 2 ^ 64")
    case True
    then have u: "unat (m * 1000000) = unat m * 1000000" by (simp add: unat_word_ariths)
    have "checked_mul m 1000000 = Some (m * 1000000)" using True by (simp add: checked_mul_def)
    then show ?thesis
      using u mx by (auto simp: timestamp_from_millis_def timestamp_from_nanos_def word_less_nat_alt word_unat_eq_iff)
  next
    case False
    then show ?thesis by (auto simp: timestamp_from_millis_def checked_mul_def)
  qed
qed

end
