(* ===== verification/Session_Heartbeat.thy ===== *)
theory Session_Heartbeat
  imports Std_Model Externs
begin

text \<open>
  Heartbeats and TestRequests (\<^verbatim>\<open>ironfix-session/src/heartbeat.rs\<close>) and the liveness
  decision of \<^verbatim>\<open>sans_io.rs\<close>.  Time is an argument of every operation.  The abstract
  specification is the history of events: what the manager answers is a function of when
  messages were sent and received, which \<open>manager_history\<close> proves.
\<close>

definition MAX_HEARTBEAT_INTERVAL_SECS :: u64 where "MAX_HEARTBEAT_INTERVAL_SECS = 3600"
definition TEST_REQUEST_GRACE_DIVISOR :: nat where "TEST_REQUEST_GRACE_DIVISOR = 5"
definition MIN_TEST_REQUEST_GRACE :: duration where "MIN_TEST_REQUEST_GRACE = from_millis 250"

datatype heartbeat_interval_error = HeartbeatIntervalError u64 u64

datatype test_request_outcome = NonePending | Confirmed | SupersededByTraffic

definition negotiate_interval :: "duration \<Rightarrow> u64 \<Rightarrow> heartbeat_interval_error + duration" where
  "negotiate_interval requested confirmed_secs =
    (let confirmed = from_secs confirmed_secs in
     if confirmed = requested then Inr confirmed
     else if MAX_HEARTBEAT_INTERVAL_SECS < confirmed_secs
     then Inl (HeartbeatIntervalError confirmed_secs MAX_HEARTBEAT_INTERVAL_SECS)
     else Inr confirmed)"

definition grace_for :: "duration \<Rightarrow> duration" where
  "grace_for interval =
    (if interval = 0 then 0 else max (interval div TEST_REQUEST_GRACE_DIVISOR) MIN_TEST_REQUEST_GRACE)"

definition elapsed_between :: "instant \<Rightarrow> instant \<Rightarrow> duration" where
  "elapsed_between earlier now = (case duration_since now earlier of Some e \<Rightarrow> e | None \<Rightarrow> 0)"

record heartbeat_manager =
  hb_interval :: duration
  hb_grace :: duration
  hb_last_sent :: instant
  hb_last_received :: instant
  hb_pending :: "bytes option"
  hb_sent_at :: "instant option"

definition heartbeat_new :: "duration \<Rightarrow> instant \<Rightarrow> heartbeat_manager" where
  "heartbeat_new interval now =
    \<lparr>hb_interval = interval, hb_grace = grace_for interval, hb_last_sent = now,
     hb_last_received = now, hb_pending = None, hb_sent_at = None\<rparr>"

definition hb_is_enabled :: "heartbeat_manager \<Rightarrow> bool" where
  "hb_is_enabled m \<longleftrightarrow> hb_interval m \<noteq> 0"

definition on_message_sent :: "instant \<Rightarrow> heartbeat_manager \<Rightarrow> heartbeat_manager" where
  "on_message_sent now m = m\<lparr>hb_last_sent := now\<rparr>"

definition on_message_received ::
  "bool \<Rightarrow> bytes option \<Rightarrow> instant \<Rightarrow> heartbeat_manager \<Rightarrow> test_request_outcome \<times> heartbeat_manager" where
  "on_message_received is_heartbeat test_req_id now m =
    (let m1 = m\<lparr>hb_last_received := now\<rparr> in
     case hb_pending m1 of
       None \<Rightarrow> (NonePending, m1)
     | Some pending \<Rightarrow>
         (if is_heartbeat \<and> test_req_id = Some pending then Confirmed else SupersededByTraffic,
          m1\<lparr>hb_pending := None, hb_sent_at := None\<rparr>))"

definition should_send_heartbeat :: "heartbeat_manager \<Rightarrow> instant \<Rightarrow> bool" where
  "should_send_heartbeat m now \<longleftrightarrow>
     hb_is_enabled m \<and> hb_interval m \<le> elapsed_between (hb_last_sent m) now"

definition should_send_test_request :: "heartbeat_manager \<Rightarrow> instant \<Rightarrow> bool" where
  "should_send_test_request m now \<longleftrightarrow>
     (if \<not> hb_is_enabled m \<or> hb_pending m \<noteq> None then False
      else (case duration_add (hb_interval m) (hb_grace m) of
              Some due_after \<Rightarrow> due_after \<le> elapsed_between (hb_last_received m) now
            | None \<Rightarrow> False))"

definition is_timed_out :: "heartbeat_manager \<Rightarrow> instant \<Rightarrow> bool" where
  "is_timed_out m now \<longleftrightarrow>
     (if \<not> hb_is_enabled m then False
      else (case hb_sent_at m of
              Some sent_at \<Rightarrow> hb_interval m \<le> elapsed_between sent_at now
            | None \<Rightarrow> False))"

definition on_test_request_sent :: "bytes \<Rightarrow> instant \<Rightarrow> heartbeat_manager \<Rightarrow> heartbeat_manager" where
  "on_test_request_sent test_req_id now m =
     m\<lparr>hb_pending := Some test_req_id, hb_sent_at := Some now, hb_last_sent := now\<rparr>"

definition heartbeat_reset :: "instant \<Rightarrow> heartbeat_manager \<Rightarrow> heartbeat_manager" where
  "heartbeat_reset now m =
     m\<lparr>hb_last_sent := now, hb_last_received := now, hb_pending := None, hb_sent_at := None\<rparr>"

text \<open>A \<^verbatim>\<open>SystemTime\<close> is a signed count of nanoseconds since the Unix epoch.\<close>

definition generate_test_req_id :: "(nat \<Rightarrow> bytes) \<Rightarrow> int \<Rightarrow> bytes" where
  "generate_test_req_id fmt wall_clock =
     bytes_of ''TEST'' @ fmt (if 0 \<le> wall_clock then nat wall_clock else 0)"

subsection \<open>The liveness decision\<close>

datatype liveness_gate = DeadlinesOnly | Probe bool bool

datatype liveness_action = Idle | CloseHeartbeatTimeout | SendTestRequest | SendHeartbeat

definition decide_liveness :: "heartbeat_manager \<Rightarrow> instant \<Rightarrow> liveness_gate \<Rightarrow> liveness_action" where
  "decide_liveness heartbeat now gate =
    (if is_timed_out heartbeat now then CloseHeartbeatTimeout
     else (case gate of
             DeadlinesOnly \<Rightarrow> Idle
           | Probe test_request_unwritten output_waiting \<Rightarrow>
               if should_send_test_request heartbeat now \<and> \<not> test_request_unwritten then SendTestRequest
               else if should_send_heartbeat heartbeat now \<and> \<not> output_waiting then SendHeartbeat
               else Idle))"

definition test_request_reply_id :: "bytes option \<Rightarrow> bytes option" where
  "test_request_reply_id test_req_id =
     (case test_req_id of Some i \<Rightarrow> if i \<noteq> [] then Some i else None | None \<Rightarrow> None)"

subsection \<open>Histories\<close>

datatype heartbeat_event =
    MsgSent instant
  | MsgReceived bool "bytes option" instant
  | TestRequestSent bytes instant
  | TimersReset instant

fun heartbeat_apply :: "heartbeat_event \<Rightarrow> heartbeat_manager \<Rightarrow> heartbeat_manager" where
  "heartbeat_apply (MsgSent t) m = on_message_sent t m"
| "heartbeat_apply (MsgReceived h i t) m = snd (on_message_received h i t m)"
| "heartbeat_apply (TestRequestSent i t) m = on_test_request_sent i t m"
| "heartbeat_apply (TimersReset t) m = heartbeat_reset t m"

definition heartbeat_after :: "duration \<Rightarrow> instant \<Rightarrow> heartbeat_event list \<Rightarrow> heartbeat_manager" where
  "heartbeat_after interval start evs = fold heartbeat_apply evs (heartbeat_new interval start)"

fun event_time :: "heartbeat_event \<Rightarrow> instant" where
  "event_time (MsgSent t) = t"
| "event_time (MsgReceived h i t) = t"
| "event_time (TestRequestSent i t) = t"
| "event_time (TimersReset t) = t"

text \<open>Events that show the counterparty alive, and events that put something on the wire.\<close>

fun inbound_event :: "heartbeat_event \<Rightarrow> bool" where
  "inbound_event (MsgReceived _ _ _) = True"
| "inbound_event (TimersReset _) = True"
| "inbound_event _ = False"

fun outbound_event :: "heartbeat_event \<Rightarrow> bool" where
  "outbound_event (MsgReceived _ _ _) = False"
| "outbound_event _ = True"

definition last_time :: "(heartbeat_event \<Rightarrow> bool) \<Rightarrow> instant \<Rightarrow> heartbeat_event list \<Rightarrow> instant" where
  "last_time P start evs = (case filter P (rev evs) of [] \<Rightarrow> start | e # _ \<Rightarrow> event_time e)"

text \<open>The TestRequest nothing has answered yet: the last one after the last inbound event.\<close>

fun unanswered :: "heartbeat_event list \<Rightarrow> (bytes \<times> instant) option" where
  "unanswered [] = None"
| "unanswered (e # evs) =
     (case e of
        TestRequestSent i t \<Rightarrow> Some (i, t)
      | MsgSent _ \<Rightarrow> unanswered evs
      | _ \<Rightarrow> None)"

lemma heartbeat_after_simps:
  "heartbeat_after interval start [] = heartbeat_new interval start"
  "heartbeat_after interval start (evs @ [e]) = heartbeat_apply e (heartbeat_after interval start evs)"
  by (simp_all add: heartbeat_after_def)

lemma manager_history:
  "heartbeat_after interval start evs =
    \<lparr>hb_interval = interval, hb_grace = grace_for interval,
     hb_last_sent = last_time outbound_event start evs,
     hb_last_received = last_time inbound_event start evs,
     hb_pending = map_option fst (unanswered (rev evs)),
     hb_sent_at = map_option snd (unanswered (rev evs))\<rparr>"
proof (induction evs rule: rev_induct)
  case Nil
  then show ?case by (simp add: heartbeat_after_simps heartbeat_new_def last_time_def)
next
  case (snoc e evs)
  then show ?case
    by (cases e)
       (auto simp: heartbeat_after_simps on_message_sent_def on_message_received_def
         on_test_request_sent_def heartbeat_reset_def last_time_def Let_def split: option.splits)
qed

lemma unanswered_Some:
  "unanswered (rev evs) = Some (i, t) \<longleftrightarrow>
     (\<exists>before after. evs = before @ TestRequestSent i t # after \<and> (\<forall>e\<in>set after. \<exists>s. e = MsgSent s))"
proof (induction evs rule: rev_induct)
  case (snoc e evs)
  show ?case
  proof (cases e)
    case (MsgSent s)
    then have "(\<exists>before after. evs @ [e] = before @ TestRequestSent i t # after \<and> (\<forall>e\<in>set after. \<exists>s. e = MsgSent s))
      \<longleftrightarrow> (\<exists>before after. evs = before @ TestRequestSent i t # after \<and> (\<forall>e\<in>set after. \<exists>s. e = MsgSent s))"
    proof (intro iffI)
      assume "\<exists>before after. evs @ [e] = before @ TestRequestSent i t # after \<and> (\<forall>e\<in>set after. \<exists>s. e = MsgSent s)"
      then obtain bf af where ba: "evs @ [e] = bf @ TestRequestSent i t # af" "\<forall>e\<in>set af. \<exists>s. e = MsgSent s" by blast
      then obtain af' where "af = af' @ [e]" using MsgSent by (cases af rule: rev_cases) auto
      with ba show "\<exists>before after. evs = before @ TestRequestSent i t # after \<and> (\<forall>e\<in>set after. \<exists>s. e = MsgSent s)" by auto
    next
      assume "\<exists>before after. evs = before @ TestRequestSent i t # after \<and> (\<forall>e\<in>set after. \<exists>s. e = MsgSent s)"
      then obtain bf af where "evs = bf @ TestRequestSent i t # af" "\<forall>e\<in>set af. \<exists>s. e = MsgSent s" by blast
      then show "\<exists>before after. evs @ [e] = before @ TestRequestSent i t # after \<and> (\<forall>e\<in>set after. \<exists>s. e = MsgSent s)"
        using MsgSent by (intro exI[of _ bf] exI[of _ "af @ [e]"]) auto
    qed
    with snoc MsgSent show ?thesis by simp
  next
    case (TestRequestSent j u)
    have "(\<exists>bf af. evs @ [e] = bf @ TestRequestSent i t # af \<and> (\<forall>e\<in>set af. \<exists>s. e = MsgSent s)) \<longleftrightarrow> (j = i \<and> u = t)"
    proof
      assume "\<exists>bf af. evs @ [e] = bf @ TestRequestSent i t # af \<and> (\<forall>e\<in>set af. \<exists>s. e = MsgSent s)"
      then obtain bf af where "evs @ [e] = bf @ TestRequestSent i t # af" "\<forall>e\<in>set af. \<exists>s. e = MsgSent s" by blast
      then show "j = i \<and> u = t" using TestRequestSent by (cases af rule: rev_cases) auto
    next
      assume "j = i \<and> u = t"
      then show "\<exists>bf af. evs @ [e] = bf @ TestRequestSent i t # af \<and> (\<forall>e\<in>set af. \<exists>s. e = MsgSent s)"
        using TestRequestSent by (intro exI[of _ evs] exI[of _ "[]"]) simp
    qed
    then show ?thesis using TestRequestSent by simp
  next
    case (MsgReceived h j u)
    have "\<not> (evs @ [e] = bf @ TestRequestSent i t # af \<and> (\<forall>e\<in>set af. \<exists>s. e = MsgSent s))" for bf af
      using MsgReceived by (cases af rule: rev_cases) auto
    then show ?thesis using MsgReceived by simp
  next
    case (TimersReset u)
    have "\<not> (evs @ [e] = bf @ TestRequestSent i t # af \<and> (\<forall>e\<in>set af. \<exists>s. e = MsgSent s))" for bf af
      using TimersReset by (cases af rule: rev_cases) auto
    then show ?thesis using TimersReset by simp
  qed
qed simp

end
