(* ===== verification/Session_Gap_Queue.thy ===== *)
theory Session_Gap_Queue
  imports Std_Model
begin

text \<open>
  The messages held above a gap (\<^verbatim>\<open>ironfix-session/src/gap_queue.rs\<close>).  The trait method
  \<open>gapped_bytes\<close> of the driver's payload is the argument \<open>weigh\<close>.  The abstract
  specification is a finite map from sequence numbers to entries: \<open>insert\<close> adds to it within
  the bounds, \<open>take_ready\<close> cuts everything up to the expectation and yields the entry held
  exactly there.
\<close>

datatype 'f gap_entry = GapFrame 'f | GapProcessed

datatype gap_insertion = Queued | Duplicate | Overflow

datatype gap_policy = QueuePolicy usize usize | DiscardPolicy

record 'f gap_ready =
  gr_superseded :: usize
  gr_next :: "'f gap_entry option"

record 'f gap_queue =
  gq_entries :: "(u64, 'f gap_entry) btree"
  gq_bytes :: usize
  gq_max_messages :: usize
  gq_max_bytes :: usize
  gq_overflow_reported :: bool

definition gap_queue_for_policy :: "gap_policy \<Rightarrow> 'f gap_queue option" where
  "gap_queue_for_policy policy =
    (case policy of
       QueuePolicy max_messages max_bytes \<Rightarrow>
         Some \<lparr>gq_entries = [], gq_bytes = 0, gq_max_messages = max_messages,
               gq_max_bytes = max_bytes, gq_overflow_reported = False\<rparr>
     | DiscardPolicy \<Rightarrow> None)"

definition entry_bytes :: "('f \<Rightarrow> usize) \<Rightarrow> 'f gap_entry \<Rightarrow> usize" where
  "entry_bytes weigh entry = (case entry of GapFrame frame \<Rightarrow> weigh frame | GapProcessed \<Rightarrow> 0)"

definition gap_insert :: "('f \<Rightarrow> usize) \<Rightarrow> u64 \<Rightarrow> 'f gap_entry \<Rightarrow> 'f gap_queue \<Rightarrow> gap_insertion \<times> 'f gap_queue" where
  "gap_insert weigh seq entry q =
    (if bt_get (gq_entries q) seq \<noteq> None then (Duplicate, q)
     else (case usize_add (gq_bytes q) (entry_bytes weigh entry) of
             None \<Rightarrow> (Overflow, q)
           | Some bytes \<Rightarrow>
               if gq_max_messages q \<le> length (gq_entries q) \<or> gq_max_bytes q < bytes then (Overflow, q)
               else (Queued, q\<lparr>gq_entries := bt_insert seq entry (gq_entries q), gq_bytes := bytes\<rparr>)))"

definition first_overflow :: "'f gap_queue \<Rightarrow> bool \<times> 'f gap_queue" where
  "first_overflow q = (\<not> gq_overflow_reported q, q\<lparr>gq_overflow_reported := True\<rparr>)"

text \<open>The recount of \<^verbatim>\<open>take_ready\<close> when the count would fall below zero.\<close>

fun recount :: "('f \<Rightarrow> usize) \<Rightarrow> (u64, 'f gap_entry) btree \<Rightarrow> usize \<Rightarrow> usize option" where
  "recount weigh [] acc = Some acc"
| "recount weigh ((_, held) # m) acc =
     Option.bind (usize_add acc (entry_bytes weigh held)) (recount weigh m)"

definition bytes_after_removal ::
  "('f \<Rightarrow> usize) \<Rightarrow> usize \<Rightarrow> 'f gap_entry \<Rightarrow> (u64, 'f gap_entry) btree \<Rightarrow> usize" where
  "bytes_after_removal weigh bytes held rest =
    (case usize_sub bytes (entry_bytes weigh held) of
       Some b \<Rightarrow> b
     | None \<Rightarrow> (case recount weigh rest 0 of Some n \<Rightarrow> n | None \<Rightarrow> usize_max))"

function take_loop ::
  "('f \<Rightarrow> usize) \<Rightarrow> u64 \<Rightarrow> (u64, 'f gap_entry) btree \<Rightarrow> usize \<Rightarrow> 'f gap_ready
     \<Rightarrow> (u64, 'f gap_entry) btree \<times> usize \<times> 'f gap_ready" where
  "take_loop weigh expected entries bytes ready =
    (case entries of
       [] \<Rightarrow> (entries, bytes, ready)
     | (seq, held) # rest \<Rightarrow>
         if expected < seq then (entries, bytes, ready)
         else
           let bytes' = bytes_after_removal weigh bytes held rest in
           if seq = expected then (rest, bytes', ready\<lparr>gr_next := Some held\<rparr>)
           else take_loop weigh expected rest bytes'
                  (ready\<lparr>gr_superseded :=
                     (case usize_add (gr_superseded ready) 1 of Some n \<Rightarrow> n | None \<Rightarrow> usize_max)\<rparr>))"
  by pat_completeness auto
termination by (relation "measure (\<lambda>(_, _, entries, _, _). length entries)") auto

declare take_loop.simps [simp del]

definition take_ready :: "('f \<Rightarrow> usize) \<Rightarrow> u64 \<Rightarrow> 'f gap_queue \<Rightarrow> 'f gap_ready \<times> 'f gap_queue" where
  "take_ready weigh expected q =
    (let (entries, bytes, ready) =
       take_loop weigh expected (gq_entries q) (gq_bytes q) \<lparr>gr_superseded = 0, gr_next = None\<rparr>
     in (ready, q\<lparr>gq_entries := entries, gq_bytes := bytes,
                  gq_overflow_reported := (if entries = [] then False else gq_overflow_reported q)\<rparr>))"

definition gap_clear :: "'f gap_queue \<Rightarrow> usize \<times> 'f gap_queue" where
  "gap_clear q = (length (gq_entries q),
     q\<lparr>gq_entries := [], gq_bytes := 0, gq_overflow_reported := False\<rparr>)"

definition gap_is_empty :: "'f gap_queue \<Rightarrow> bool" where
  "gap_is_empty q \<longleftrightarrow> gq_entries q = []"

definition gap_len :: "'f gap_queue \<Rightarrow> usize" where
  "gap_len q = length (gq_entries q)"

subsection \<open>Invariant\<close>

definition held_total :: "('f \<Rightarrow> usize) \<Rightarrow> (u64, 'f gap_entry) btree \<Rightarrow> usize" where
  "held_total weigh m = sum_list (map (entry_bytes weigh \<circ> snd) m)"

definition gap_inv :: "('f \<Rightarrow> usize) \<Rightarrow> 'f gap_queue \<Rightarrow> bool" where
  "gap_inv weigh q \<longleftrightarrow> bt_ordered (gq_entries q)
     \<and> gq_bytes q = held_total weigh (gq_entries q)
     \<and> length (gq_entries q) \<le> gq_max_messages q \<and> gq_bytes q \<le> gq_max_bytes q"

lemma held_total_insert:
  "bt_get m k = None \<Longrightarrow> held_total weigh (bt_insert k v m) = held_total weigh m + entry_bytes weigh v"
  by (induction k v m rule: bt_insert.induct) (auto simp: held_total_def bt_get_def split: if_splits)

lemma length_bt_insert_new: "bt_ordered m \<Longrightarrow> bt_get m k = None \<Longrightarrow> length (bt_insert k v m) = Suc (length m)"
  by (rule btree.count_update_new)

lemma gap_inv_for_policy: "gap_queue_for_policy p = Some q \<Longrightarrow> gap_inv weigh q"
  by (auto simp: gap_queue_for_policy_def gap_inv_def held_total_def bt_ordered_def split: gap_policy.splits)

lemma gap_insert_cases:
  assumes "gap_inv weigh q"
  obtains (dup) "gap_insert weigh seq entry q = (Duplicate, q)" "bt_get (gq_entries q) seq \<noteq> None"
  | (full) "gap_insert weigh seq entry q = (Overflow, q)" "bt_get (gq_entries q) seq = None"
      "gq_max_messages q \<le> length (gq_entries q) \<or> gq_max_bytes q < gq_bytes q + entry_bytes weigh entry
       \<or> usize_max < gq_bytes q + entry_bytes weigh entry"
  | (queued) "gap_insert weigh seq entry q = (Queued, q\<lparr>gq_entries := bt_insert seq entry (gq_entries q),
        gq_bytes := gq_bytes q + entry_bytes weigh entry\<rparr>)" "bt_get (gq_entries q) seq = None"
      "length (gq_entries q) < gq_max_messages q" "gq_bytes q + entry_bytes weigh entry \<le> gq_max_bytes q"
      "gq_bytes q + entry_bytes weigh entry \<le> usize_max"
proof (cases "bt_get (gq_entries q) seq")
  case None
  show ?thesis
  proof (cases "usize_add (gq_bytes q) (entry_bytes weigh entry)")
    case no_bytes: None
    then have "usize_max < gq_bytes q + entry_bytes weigh entry" by (simp add: checked_simps)
    with None no_bytes show ?thesis by (intro full) (simp_all add: gap_insert_def)
  next
    case (Some b)
    then have b: "b = gq_bytes q + entry_bytes weigh entry" "b \<le> usize_max" by (simp_all add: checked_simps)
    show ?thesis
    proof (cases "gq_max_messages q \<le> length (gq_entries q) \<or> gq_max_bytes q < b")
      case True
      with None Some b show ?thesis by (intro full) (simp_all add: gap_insert_def)
    next
      case False
      with None Some b show ?thesis by (intro queued) (simp_all add: gap_insert_def)
    qed
  qed
next
  case (Some x)
  then show ?thesis by (intro dup) (simp_all add: gap_insert_def)
qed

lemma gap_insert_inv:
  assumes inv: "gap_inv weigh q"
  shows "gap_inv weigh (snd (gap_insert weigh seq entry q))"
  using inv
proof (cases rule: gap_insert_cases[of weigh q seq entry])
  case queued
  then show ?thesis
    using inv by (simp add: gap_inv_def bt_insert_ordered held_total_insert length_bt_insert_new)
qed (use inv in simp_all)

subsection \<open>Releasing\<close>

lemma bytes_after_removal_exact:
  "bytes_after_removal weigh (held_total weigh ((seq, held) # rest)) held rest = held_total weigh rest"
  by (simp add: bytes_after_removal_def held_total_def usize_sub_def)

lemma bt_ordered_Cons: "bt_ordered ((k, v) # m) \<longleftrightarrow> bt_ordered m \<and> (\<forall>k'\<in>fst ` set m. k < k')"
  by (auto simp: bt_ordered_def)

lemma bt_get_Cons: "bt_get ((k, v) # m) k' = (if k' = k then Some v else bt_get m k')"
  by (simp add: bt_get_def)

lemma bt_get_below: "\<forall>k'\<in>fst ` set m. k < k' \<Longrightarrow> k' \<le> k \<Longrightarrow> bt_get m k' = None"
  for m :: "('k::linorder, 'v) btree"
  unfolding bt_get_def map_of_eq_None_iff by (metis leD)

lemma held_total_Cons: "held_total weigh ((k, v) # m) = entry_bytes weigh v + held_total weigh m"
  by (simp add: held_total_def)

lemma take_loop_Cons:
  "gr_superseded r + 1 \<le> usize_max \<Longrightarrow>
   take_loop weigh e ((k, v) # m) (held_total weigh ((k, v) # m)) r =
     (if e < k then ((k, v) # m, held_total weigh ((k, v) # m), r)
      else if k = e then (m, held_total weigh m, r\<lparr>gr_next := Some v\<rparr>)
      else take_loop weigh e m (held_total weigh m) (r\<lparr>gr_superseded := gr_superseded r + 1\<rparr>))"
  by (subst take_loop.simps) (simp add: bytes_after_removal_exact usize_add_def Let_def)

lemma take_loop_spec:
  assumes "bt_ordered m" and "take_loop weigh e m (held_total weigh m) r = (m', b', r')"
    and "gr_superseded r + length m \<le> usize_max" and "gr_next r = None"
  shows "bt_ordered m' \<and> b' = held_total weigh m' \<and> length m' \<le> length m \<and> b' \<le> held_total weigh m
     \<and> bt_get m' = (\<lambda>k. if k \<le> e then None else bt_get m k)
     \<and> gr_next r' = bt_get m e
     \<and> gr_superseded r' = gr_superseded r + length (filter (\<lambda>(k, _). k < e) m)"
  using assms
proof (induction m arbitrary: r)
  case Nil
  then show ?case by (auto simp: take_loop.simps bt_get_def)
next
  case (Cons kv m)
  obtain k v where kv: "kv = (k, v)" by (cases kv)
  note ord = Cons.prems(1)[unfolded kv bt_ordered_Cons]
  have small: "gr_superseded r + 1 \<le> usize_max" using Cons.prems(3) by simp
  note step = Cons.prems(2)[unfolded kv take_loop_Cons[OF small]]
  have gone: "bt_get m k' = None" if "k' \<le> k" for k' using bt_get_below ord that by blast
  consider (above) "e < k" | (at) "k = e" | (below) "k < e" by fastforce
  then show ?case
  proof cases
    case above
    have "bt_get ((k, v) # m) k' = None" if "k' \<le> e" for k'
      using gone[of k'] above that by (auto simp: bt_get_Cons)
    moreover have "filter (\<lambda>(k, _). k < e) m = []" using ord above by (fastforce simp: filter_empty_conv)
    ultimately show ?thesis
      using Cons.prems(1,4) step above by (auto simp: kv fun_eq_iff)
  next
    case at
    have "filter (\<lambda>(k, _). k < e) m = []" using ord at by (fastforce simp: filter_empty_conv)
    then show ?thesis
      using step at ord gone by (auto simp: kv bt_get_Cons fun_eq_iff held_total_Cons)
  next
    case below
    let ?r = "r\<lparr>gr_superseded := gr_superseded r + 1\<rparr>"
    have "take_loop weigh e m (held_total weigh m) ?r = (m', b', r')"
      using step below by (simp only: if_not_P not_less_iff_gr_or_eq less_imp_neq if_False simp_thms)
    then have "bt_ordered m' \<and> b' = held_total weigh m' \<and> length m' \<le> length m \<and> b' \<le> held_total weigh m
     \<and> bt_get m' = (\<lambda>k. if k \<le> e then None else bt_get m k)
     \<and> gr_next r' = bt_get m e
     \<and> gr_superseded r' = gr_superseded ?r + length (filter (\<lambda>(k, _). k < e) m)"
      using Cons.IH[of ?r] ord Cons.prems(3,4) by simp
    then show ?thesis
      using below by (auto simp: kv bt_get_Cons fun_eq_iff held_total_Cons)
  qed
qed

lemma take_ready_spec:
  assumes inv: "gap_inv weigh q" and small: "gq_max_messages q \<le> usize_max"
    and tr: "take_ready weigh e q = (ready, q')"
  shows "gap_inv weigh q' \<and> gq_max_messages q' = gq_max_messages q \<and> gq_max_bytes q' = gq_max_bytes q
     \<and> bt_get (gq_entries q') = (\<lambda>k. if k \<le> e then None else bt_get (gq_entries q) k)
     \<and> gr_next ready = bt_get (gq_entries q) e
     \<and> gr_superseded ready = length (filter (\<lambda>(k, _). k < e) (gq_entries q))"
proof -
  from tr inv obtain m' b' where
    lp: "take_loop weigh e (gq_entries q) (held_total weigh (gq_entries q)) \<lparr>gr_superseded = 0, gr_next = None\<rparr>
       = (m', b', ready)" and
    q': "q' = q\<lparr>gq_entries := m', gq_bytes := b',
           gq_overflow_reported := (if m' = [] then False else gq_overflow_reported q)\<rparr>"
    by (auto simp: take_ready_def gap_inv_def split: prod.splits)
  show ?thesis
    using take_loop_spec[OF _ lp] inv small by (simp add: gap_inv_def q')
qed

end
