(* ===== verification/Session_Config.thy ===== *)
theory Session_Config
  imports Fix_Types Session_Heartbeat Session_Gap_Queue
begin

text \<open>
  Session configuration (\<^verbatim>\<open>ironfix-session/src/config.rs\<close>): the configuration record
  with its setters, every validation check in the order \<^verbatim>\<open>validate\<close> runs them, and the
  builder.  \<^verbatim>\<open>SessionConfig\<close> and the builder each keep their own setters, as the code does;
  a \<^verbatim>\<open>NonZeroU32\<close> is a \<open>u32\<close> here.
\<close>

definition MIN_HEARTBEAT_INTERVAL_SECS :: u64 where "MIN_HEARTBEAT_INTERVAL_SECS = 1"
definition MAX_TIMEOUT :: duration where "MAX_TIMEOUT = from_secs 300"
definition MIN_MESSAGE_SIZE_LIMIT :: usize where "MIN_MESSAGE_SIZE_LIMIT = 512"
definition MAX_MESSAGE_SIZE_LIMIT :: usize where "MAX_MESSAGE_SIZE_LIMIT = 64 * 1024 * 1024"
definition MAX_ID_LEN :: usize where "MAX_ID_LEN = COMP_ID_MAX_LEN"
definition DEFAULT_BEGIN_STRING :: bytes where "DEFAULT_BEGIN_STRING = bytes_of ''FIX.4.4''"
definition DEFAULT_HEARTBEAT_INTERVAL :: duration where "DEFAULT_HEARTBEAT_INTERVAL = from_secs 30"
definition DEFAULT_TIMEOUT :: duration where "DEFAULT_TIMEOUT = from_secs 10"
definition DEFAULT_MESSAGE_SIZE_LIMIT :: usize where "DEFAULT_MESSAGE_SIZE_LIMIT = 1024 * 1024"
definition MIN_INBOUND_FIELDS :: usize where "MIN_INBOUND_FIELDS = 3"
definition MAX_INBOUND_FIELDS :: usize where "MAX_INBOUND_FIELDS = 65536"
definition DEFAULT_MAX_INBOUND_FIELDS :: usize where "DEFAULT_MAX_INBOUND_FIELDS = 256"
definition MAX_GARBLED_FRAME_LIMIT :: u32 where "MAX_GARBLED_FRAME_LIMIT = 1024"
definition MAX_GARBLED_FRAME_WINDOW :: duration where "MAX_GARBLED_FRAME_WINDOW = from_secs (24 * 60 * 60)"
definition MAX_GAP_QUEUE_MESSAGES :: usize where "MAX_GAP_QUEUE_MESSAGES = 65536"
definition MAX_GAP_QUEUE_BYTES :: usize where "MAX_GAP_QUEUE_BYTES = 1024 * 1024 * 1024"

datatype session_config_error =
    MissingField string
  | EmptyField string
  | FieldTooLong string usize usize
  | IllegalByte string u8 usize
  | FractionalHeartbeatInterval duration
  | HeartbeatIntervalOutOfRange u64 u64 u64
  | HeartbeatDisabledWithoutOptIn
  | TimeoutOutOfRange string duration duration
  | MessageSizeLimitOutOfRange usize usize usize
  | InboundFieldLimitOutOfRange usize usize usize
  | GarbledFrameLimitOutOfRange u32 duration u32 duration
  | UnusableApplVersion fix_version bytes
  | NextExpectedMsgSeqNumUnsupported bytes
  | GapQueueOutOfRange usize usize usize usize

record garbled_frame_limit =
  gfl_max :: u32
  gfl_window :: duration

definition garbled_frame_limit_try_new :: "u32 \<Rightarrow> duration \<Rightarrow> session_config_error + garbled_frame_limit" where
  "garbled_frame_limit_try_new mx window =
    (if MAX_GARBLED_FRAME_LIMIT < mx \<or> window = 0 \<or> MAX_GARBLED_FRAME_WINDOW < window
     then Inl (GarbledFrameLimitOutOfRange mx window MAX_GARBLED_FRAME_LIMIT MAX_GARBLED_FRAME_WINDOW)
     else Inr \<lparr>gfl_max = mx, gfl_window = window\<rparr>)"

definition validate_id :: "string \<Rightarrow> bytes \<Rightarrow> session_config_error + unit" where
  "validate_id field value =
    (if value = [] then Inl (EmptyField field)
     else if MAX_ID_LEN < length value then Inl (FieldTooLong field (length value) MAX_ID_LEN)
     else (case first_failing (\<lambda>byte. printable byte \<and> byte \<noteq> 61) 0 value of
             Some (byte, position) \<Rightarrow> Inl (IllegalByte field byte position)
           | None \<Rightarrow> Inr ()))"

definition validate_gap_policy :: "gap_policy \<Rightarrow> session_config_error + unit" where
  "validate_gap_policy policy =
    (case policy of
       DiscardPolicy \<Rightarrow> Inr ()
     | QueuePolicy max_messages max_bytes \<Rightarrow>
         if max_messages = 0 \<or> MAX_GAP_QUEUE_MESSAGES < max_messages \<or> max_bytes = 0 \<or> MAX_GAP_QUEUE_BYTES < max_bytes
         then Inl (GapQueueOutOfRange max_messages max_bytes MAX_GAP_QUEUE_MESSAGES MAX_GAP_QUEUE_BYTES)
         else Inr ())"

definition validate_timeout :: "string \<Rightarrow> duration \<Rightarrow> session_config_error + unit" where
  "validate_timeout field timeout =
    (if timeout = 0 \<or> MAX_TIMEOUT < timeout then Inl (TimeoutOutOfRange field timeout MAX_TIMEOUT) else Inr ())"

definition configured_appl_version :: "bytes \<Rightarrow> fix_version option" where
  "configured_appl_version begin_string =
    (case version_from_str begin_string of
       Inr version \<Rightarrow> if appl_ver_id version \<noteq> None then Some version else None
     | Inl _ \<Rightarrow> None)"

definition validate_appl_versions :: "bytes \<Rightarrow> fix_version list \<Rightarrow> session_config_error + unit" where
  "validate_appl_versions begin_string allowed =
    (let fixt_session = configured_appl_version begin_string \<noteq> None in
     case find (\<lambda>version. \<not> fixt_session \<or> appl_ver_id version = None) allowed of
       Some version \<Rightarrow> Inl (UnusableApplVersion version begin_string)
     | None \<Rightarrow> Inr ())"

definition defines_next_expected_msg_seq_num :: "bytes \<Rightarrow> bool" where
  "defines_next_expected_msg_seq_num begin_string =
    (case version_from_str begin_string of
       Inr v \<Rightarrow> v = Fix44 \<or> v = Fix50 \<or> v = Fix50Sp1 \<or> v = Fix50Sp2 \<or> v = Fixt11
     | Inl _ \<Rightarrow> False)"

definition validate_next_expected_msg_seq_num :: "bytes \<Rightarrow> bool \<Rightarrow> session_config_error + unit" where
  "validate_next_expected_msg_seq_num begin_string enabled =
    (if enabled \<and> \<not> defines_next_expected_msg_seq_num begin_string
     then Inl (NextExpectedMsgSeqNumUnsupported begin_string) else Inr ())"

definition validate_heartbeat_interval :: "duration \<Rightarrow> session_config_error + unit" where
  "validate_heartbeat_interval interval =
    (if interval = 0 then Inr ()
     else if interval mod 1000000000 \<noteq> 0 then Inl (FractionalHeartbeatInterval interval)
     else let secs = word_of_nat (interval div 1000000000) in
       if \<not> (MIN_HEARTBEAT_INTERVAL_SECS \<le> secs \<and> secs \<le> MAX_HEARTBEAT_INTERVAL_SECS)
       then Inl (HeartbeatIntervalOutOfRange secs MIN_HEARTBEAT_INTERVAL_SECS MAX_HEARTBEAT_INTERVAL_SECS)
       else Inr ())"

record session_config =
  cfg_sender_comp_id :: "bytes"
  cfg_target_comp_id :: "bytes"
  cfg_begin_string :: "bytes"
  cfg_heartbeat_interval :: "duration"
  cfg_reset_on_logon :: "bool"
  cfg_reset_on_logout :: "bool"
  cfg_reset_on_disconnect :: "bool"
  cfg_max_message_size :: "usize"
  cfg_max_inbound_fields :: "usize"
  cfg_logon_timeout :: "duration"
  cfg_logout_timeout :: "duration"
  cfg_validate_checksum :: "bool"
  cfg_validate_length :: "bool"
  cfg_sending_time_tolerance :: "duration"
  cfg_resend_timeout :: "duration"
  cfg_max_resend_requests :: "u32"
  cfg_garbled_limit :: "garbled_frame_limit option"
  cfg_sender_sub_id :: "bytes option"
  cfg_target_sub_id :: "bytes option"
  cfg_sender_location_id :: "bytes option"
  cfg_target_location_id :: "bytes option"
  cfg_allowed_appl_versions :: "fix_version list"
  cfg_require_ack_default_appl_ver_id :: "bool"
  cfg_send_next_expected_msg_seq_num :: "bool"
  cfg_session_gap_policy :: "gap_policy"

definition with_allowed_appl_versions :: "fix_version list \<Rightarrow> session_config \<Rightarrow> session_config" where
  "with_allowed_appl_versions x c = c\<lparr>cfg_allowed_appl_versions := x\<rparr>"

definition with_require_ack_default_appl_ver_id :: "bool \<Rightarrow> session_config \<Rightarrow> session_config" where
  "with_require_ack_default_appl_ver_id x c = c\<lparr>cfg_require_ack_default_appl_ver_id := x\<rparr>"

definition with_send_next_expected_msg_seq_num :: "bool \<Rightarrow> session_config \<Rightarrow> session_config" where
  "with_send_next_expected_msg_seq_num x c = c\<lparr>cfg_send_next_expected_msg_seq_num := x\<rparr>"

definition with_heartbeat_interval :: "duration \<Rightarrow> session_config \<Rightarrow> session_config" where
  "with_heartbeat_interval x c = c\<lparr>cfg_heartbeat_interval := x\<rparr>"

definition with_reset_on_logon :: "bool \<Rightarrow> session_config \<Rightarrow> session_config" where
  "with_reset_on_logon x c = c\<lparr>cfg_reset_on_logon := x\<rparr>"

definition with_max_message_size :: "usize \<Rightarrow> session_config \<Rightarrow> session_config" where
  "with_max_message_size x c = c\<lparr>cfg_max_message_size := x\<rparr>"

definition with_max_inbound_fields :: "usize \<Rightarrow> session_config \<Rightarrow> session_config" where
  "with_max_inbound_fields x c = c\<lparr>cfg_max_inbound_fields := x\<rparr>"

definition with_logon_timeout :: "duration \<Rightarrow> session_config \<Rightarrow> session_config" where
  "with_logon_timeout x c = c\<lparr>cfg_logon_timeout := x\<rparr>"

definition with_sender_sub_id :: "bytes \<Rightarrow> session_config \<Rightarrow> session_config" where
  "with_sender_sub_id x c = c\<lparr>cfg_sender_sub_id := Some x\<rparr>"

definition with_target_sub_id :: "bytes \<Rightarrow> session_config \<Rightarrow> session_config" where
  "with_target_sub_id x c = c\<lparr>cfg_target_sub_id := Some x\<rparr>"

definition with_logout_timeout :: "duration \<Rightarrow> session_config \<Rightarrow> session_config" where
  "with_logout_timeout x c = c\<lparr>cfg_logout_timeout := x\<rparr>"

definition with_sending_time_tolerance :: "duration \<Rightarrow> session_config \<Rightarrow> session_config" where
  "with_sending_time_tolerance x c = c\<lparr>cfg_sending_time_tolerance := x\<rparr>"

definition with_resend_timeout :: "duration \<Rightarrow> session_config \<Rightarrow> session_config" where
  "with_resend_timeout x c = c\<lparr>cfg_resend_timeout := x\<rparr>"

definition with_max_resend_requests :: "u32 \<Rightarrow> session_config \<Rightarrow> session_config" where
  "with_max_resend_requests x c = c\<lparr>cfg_max_resend_requests := x\<rparr>"

definition with_gap_policy :: "gap_policy \<Rightarrow> session_config \<Rightarrow> session_config" where
  "with_gap_policy x c = c\<lparr>cfg_session_gap_policy := x\<rparr>"

definition with_garbled_frame_limit :: "garbled_frame_limit option \<Rightarrow> session_config \<Rightarrow> session_config" where
  "with_garbled_frame_limit x c = c\<lparr>cfg_garbled_limit := x\<rparr>"

definition session_config_new :: "bytes \<Rightarrow> bytes \<Rightarrow> bytes \<Rightarrow> session_config" where
  "session_config_new sender target begin_str =
    \<lparr>cfg_sender_comp_id = sender, cfg_target_comp_id = target, cfg_begin_string = begin_str,
     cfg_heartbeat_interval = DEFAULT_HEARTBEAT_INTERVAL, cfg_reset_on_logon = False,
     cfg_reset_on_logout = False, cfg_reset_on_disconnect = False,
     cfg_max_message_size = DEFAULT_MESSAGE_SIZE_LIMIT,
     cfg_max_inbound_fields = DEFAULT_MAX_INBOUND_FIELDS, cfg_logon_timeout = DEFAULT_TIMEOUT,
     cfg_logout_timeout = DEFAULT_TIMEOUT, cfg_validate_checksum = True, cfg_validate_length = True,
     cfg_sending_time_tolerance = from_secs 120, cfg_resend_timeout = from_secs 10,
     cfg_max_resend_requests = 3, cfg_garbled_limit = None, cfg_sender_sub_id = None,
     cfg_target_sub_id = None, cfg_sender_location_id = None, cfg_target_location_id = None,
     cfg_allowed_appl_versions = [], cfg_require_ack_default_appl_ver_id = False,
     cfg_send_next_expected_msg_seq_num = False, cfg_session_gap_policy = DiscardPolicy\<rparr>"

fun validate_optional :: "(string \<times> bytes option) list \<Rightarrow> session_config_error + unit" where
  "validate_optional [] = Inr ()"
| "validate_optional ((field, None) # xs) = validate_optional xs"
| "validate_optional ((field, Some value) # xs) = bindR (validate_id field value) (\<lambda>_. validate_optional xs)"

definition validate_config :: "session_config \<Rightarrow> session_config_error + unit" where
  "validate_config c =
    bindR (validate_id ''begin_string'' (cfg_begin_string c)) (\<lambda>_.
    bindR (validate_heartbeat_interval (cfg_heartbeat_interval c)) (\<lambda>_.
    bindR (validate_timeout ''logon_timeout'' (cfg_logon_timeout c)) (\<lambda>_.
    bindR (validate_timeout ''logout_timeout'' (cfg_logout_timeout c)) (\<lambda>_.
    if \<not> (MIN_MESSAGE_SIZE_LIMIT \<le> cfg_max_message_size c \<and> cfg_max_message_size c \<le> MAX_MESSAGE_SIZE_LIMIT)
    then Inl (MessageSizeLimitOutOfRange (cfg_max_message_size c) MIN_MESSAGE_SIZE_LIMIT MAX_MESSAGE_SIZE_LIMIT)
    else if \<not> (MIN_INBOUND_FIELDS \<le> cfg_max_inbound_fields c \<and> cfg_max_inbound_fields c \<le> MAX_INBOUND_FIELDS)
    then Inl (InboundFieldLimitOutOfRange (cfg_max_inbound_fields c) MIN_INBOUND_FIELDS MAX_INBOUND_FIELDS)
    else
      bindR (validate_optional
        [(''sender_sub_id'', cfg_sender_sub_id c), (''target_sub_id'', cfg_target_sub_id c),
         (''sender_location_id'', cfg_sender_location_id c), (''target_location_id'', cfg_target_location_id c)]) (\<lambda>_.
      bindR (validate_appl_versions (cfg_begin_string c) (cfg_allowed_appl_versions c)) (\<lambda>_.
      bindR (validate_next_expected_msg_seq_num (cfg_begin_string c) (cfg_send_next_expected_msg_seq_num c)) (\<lambda>_.
      validate_gap_policy (cfg_session_gap_policy c))))))))"

definition accepts_appl_version :: "session_config \<Rightarrow> fix_version \<Rightarrow> bool" where
  "accepts_appl_version c version =
    (if appl_ver_id version = None then False
     else (case configured_appl_version (cfg_begin_string c) of
             Some configured \<Rightarrow> version = configured \<or> version \<in> set (cfg_allowed_appl_versions c)
           | None \<Rightarrow> False))"

definition heartbeat_interval_secs :: "session_config \<Rightarrow> u64" where
  "heartbeat_interval_secs c = word_of_nat (cfg_heartbeat_interval c div 1000000000)"

definition resend_attempt_limit :: "session_config \<Rightarrow> u32" where
  "resend_attempt_limit c = (if cfg_max_resend_requests c = 0 then 1 else cfg_max_resend_requests c)"

subsection \<open>The builder\<close>

datatype heartbeat_setting = Interval duration | HeartbeatsDisabled

record session_config_builder =
  bld_sender_comp_id :: "bytes option"
  bld_target_comp_id :: "bytes option"
  bld_begin_string :: "bytes"
  bld_heartbeat :: "heartbeat_setting"
  bld_reset_on_logon :: "bool"
  bld_reset_on_logout :: "bool"
  bld_reset_on_disconnect :: "bool"
  bld_max_message_size :: "usize"
  bld_logon_timeout :: "duration"
  bld_logout_timeout :: "duration"
  bld_validate_checksum :: "bool"
  bld_garbled_limit :: "(u32 \<times> duration) option"
  bld_sender_sub_id :: "bytes option"
  bld_target_sub_id :: "bytes option"
  bld_sender_location_id :: "bytes option"
  bld_target_location_id :: "bytes option"
  bld_allowed_appl_versions :: "fix_version list"
  bld_require_ack_default_appl_ver_id :: "bool"
  bld_send_next_expected_msg_seq_num :: "bool"
  bld_session_gap_policy :: "gap_policy"

definition build_sender_comp_id :: "bytes \<Rightarrow> session_config_builder \<Rightarrow> session_config_builder" where
  "build_sender_comp_id x b = b\<lparr>bld_sender_comp_id := Some x\<rparr>"

definition build_target_comp_id :: "bytes \<Rightarrow> session_config_builder \<Rightarrow> session_config_builder" where
  "build_target_comp_id x b = b\<lparr>bld_target_comp_id := Some x\<rparr>"

definition build_begin_string :: "bytes \<Rightarrow> session_config_builder \<Rightarrow> session_config_builder" where
  "build_begin_string x b = b\<lparr>bld_begin_string := x\<rparr>"

definition build_reset_on_logon :: "bool \<Rightarrow> session_config_builder \<Rightarrow> session_config_builder" where
  "build_reset_on_logon x b = b\<lparr>bld_reset_on_logon := x\<rparr>"

definition build_reset_on_logout :: "bool \<Rightarrow> session_config_builder \<Rightarrow> session_config_builder" where
  "build_reset_on_logout x b = b\<lparr>bld_reset_on_logout := x\<rparr>"

definition build_reset_on_disconnect :: "bool \<Rightarrow> session_config_builder \<Rightarrow> session_config_builder" where
  "build_reset_on_disconnect x b = b\<lparr>bld_reset_on_disconnect := x\<rparr>"

definition build_max_message_size :: "usize \<Rightarrow> session_config_builder \<Rightarrow> session_config_builder" where
  "build_max_message_size x b = b\<lparr>bld_max_message_size := x\<rparr>"

definition build_logon_timeout :: "duration \<Rightarrow> session_config_builder \<Rightarrow> session_config_builder" where
  "build_logon_timeout x b = b\<lparr>bld_logon_timeout := x\<rparr>"

definition build_logout_timeout :: "duration \<Rightarrow> session_config_builder \<Rightarrow> session_config_builder" where
  "build_logout_timeout x b = b\<lparr>bld_logout_timeout := x\<rparr>"

definition build_validate_checksum :: "bool \<Rightarrow> session_config_builder \<Rightarrow> session_config_builder" where
  "build_validate_checksum x b = b\<lparr>bld_validate_checksum := x\<rparr>"

definition build_sender_sub_id :: "bytes \<Rightarrow> session_config_builder \<Rightarrow> session_config_builder" where
  "build_sender_sub_id x b = b\<lparr>bld_sender_sub_id := Some x\<rparr>"

definition build_target_sub_id :: "bytes \<Rightarrow> session_config_builder \<Rightarrow> session_config_builder" where
  "build_target_sub_id x b = b\<lparr>bld_target_sub_id := Some x\<rparr>"

definition build_sender_location_id :: "bytes \<Rightarrow> session_config_builder \<Rightarrow> session_config_builder" where
  "build_sender_location_id x b = b\<lparr>bld_sender_location_id := Some x\<rparr>"

definition build_target_location_id :: "bytes \<Rightarrow> session_config_builder \<Rightarrow> session_config_builder" where
  "build_target_location_id x b = b\<lparr>bld_target_location_id := Some x\<rparr>"

definition build_allowed_appl_versions :: "fix_version list \<Rightarrow> session_config_builder \<Rightarrow> session_config_builder" where
  "build_allowed_appl_versions x b = b\<lparr>bld_allowed_appl_versions := x\<rparr>"

definition build_require_ack_default_appl_ver_id :: "bool \<Rightarrow> session_config_builder \<Rightarrow> session_config_builder" where
  "build_require_ack_default_appl_ver_id x b = b\<lparr>bld_require_ack_default_appl_ver_id := x\<rparr>"

definition build_send_next_expected_msg_seq_num :: "bool \<Rightarrow> session_config_builder \<Rightarrow> session_config_builder" where
  "build_send_next_expected_msg_seq_num x b = b\<lparr>bld_send_next_expected_msg_seq_num := x\<rparr>"

definition build_heartbeat_interval :: "duration \<Rightarrow> session_config_builder \<Rightarrow> session_config_builder" where
  "build_heartbeat_interval x b = b\<lparr>bld_heartbeat := Interval x\<rparr>"

definition build_disable_heartbeats :: "session_config_builder \<Rightarrow> session_config_builder" where
  "build_disable_heartbeats b = b\<lparr>bld_heartbeat := HeartbeatsDisabled\<rparr>"

definition build_garbled_frame_limit :: "u32 \<Rightarrow> duration \<Rightarrow> session_config_builder \<Rightarrow> session_config_builder" where
  "build_garbled_frame_limit mx window b = b\<lparr>bld_garbled_limit := Some (mx, window)\<rparr>"

definition build_gap_policy :: "gap_policy \<Rightarrow> session_config_builder \<Rightarrow> session_config_builder" where
  "build_gap_policy p b = b\<lparr>bld_session_gap_policy := p\<rparr>"

definition builder_default :: session_config_builder where
  "builder_default =
    \<lparr>bld_sender_comp_id = None, bld_target_comp_id = None, bld_begin_string = DEFAULT_BEGIN_STRING,
     bld_heartbeat = Interval DEFAULT_HEARTBEAT_INTERVAL, bld_reset_on_logon = False,
     bld_reset_on_logout = False, bld_reset_on_disconnect = False,
     bld_max_message_size = DEFAULT_MESSAGE_SIZE_LIMIT, bld_logon_timeout = DEFAULT_TIMEOUT,
     bld_logout_timeout = DEFAULT_TIMEOUT, bld_validate_checksum = True, bld_garbled_limit = None,
     bld_sender_sub_id = None, bld_target_sub_id = None, bld_sender_location_id = None,
     bld_target_location_id = None, bld_allowed_appl_versions = [],
     bld_require_ack_default_appl_ver_id = False, bld_send_next_expected_msg_seq_num = False,
     bld_session_gap_policy = DiscardPolicy\<rparr>"

definition build :: "session_config_builder \<Rightarrow> session_config_error + session_config" where
  "build b =
    bindR (ok_or (MissingField ''sender_comp_id'') (bld_sender_comp_id b)) (\<lambda>sender.
    bindR (ok_or (MissingField ''target_comp_id'') (bld_target_comp_id b)) (\<lambda>target.
    bindR (case bld_heartbeat b of
             HeartbeatsDisabled \<Rightarrow> Inr 0
           | Interval i \<Rightarrow> if i = 0 then Inl HeartbeatDisabledWithoutOptIn else Inr i) (\<lambda>interval.
    bindR (case bld_garbled_limit b of
             None \<Rightarrow> Inr None
           | Some (mx, window) \<Rightarrow> bindR (garbled_frame_limit_try_new mx window) (\<lambda>l. Inr (Some l))) (\<lambda>garbled.
    let config =
      \<lparr>cfg_sender_comp_id = sender, cfg_target_comp_id = target, cfg_begin_string = bld_begin_string b,
       cfg_heartbeat_interval = interval, cfg_reset_on_logon = bld_reset_on_logon b,
       cfg_reset_on_logout = bld_reset_on_logout b, cfg_reset_on_disconnect = bld_reset_on_disconnect b,
       cfg_max_message_size = bld_max_message_size b,
       cfg_max_inbound_fields = DEFAULT_MAX_INBOUND_FIELDS, cfg_logon_timeout = bld_logon_timeout b,
       cfg_logout_timeout = bld_logout_timeout b, cfg_validate_checksum = bld_validate_checksum b,
       cfg_validate_length = True, cfg_sending_time_tolerance = from_secs 120,
       cfg_resend_timeout = from_secs 10, cfg_max_resend_requests = 3, cfg_garbled_limit = garbled,
       cfg_sender_sub_id = bld_sender_sub_id b, cfg_target_sub_id = bld_target_sub_id b,
       cfg_sender_location_id = bld_sender_location_id b, cfg_target_location_id = bld_target_location_id b,
       cfg_allowed_appl_versions = bld_allowed_appl_versions b,
       cfg_require_ack_default_appl_ver_id = bld_require_ack_default_appl_ver_id b,
       cfg_send_next_expected_msg_seq_num = bld_send_next_expected_msg_seq_num b,
       cfg_session_gap_policy = bld_session_gap_policy b\<rparr>
    in bindR (validate_config config) (\<lambda>_. Inr config)))))"

subsection \<open>What validation accepts\<close>

definition legal_id :: "bytes \<Rightarrow> bool" where
  "legal_id s \<longleftrightarrow> 1 \<le> length s \<and> length s \<le> 32 \<and> list_all (\<lambda>b. 32 \<le> b \<and> b \<le> 126 \<and> b \<noteq> 61) s"

definition usable_timeout :: "duration \<Rightarrow> bool" where
  "usable_timeout t \<longleftrightarrow> 0 < t \<and> t \<le> 300 * 1000000000"

definition usable_gap_policy :: "gap_policy \<Rightarrow> bool" where
  "usable_gap_policy p \<longleftrightarrow> (case p of DiscardPolicy \<Rightarrow> True
     | QueuePolicy m b \<Rightarrow> 1 \<le> m \<and> m \<le> 65536 \<and> 1 \<le> b \<and> b \<le> 1073741824)"

definition usable_config :: "session_config \<Rightarrow> bool" where
  "usable_config c \<longleftrightarrow> legal_id (cfg_begin_string c)
     \<and> (\<exists>s \<le> 3600. cfg_heartbeat_interval c = s * 1000000000)
     \<and> usable_timeout (cfg_logon_timeout c) \<and> usable_timeout (cfg_logout_timeout c)
     \<and> 512 \<le> cfg_max_message_size c \<and> cfg_max_message_size c \<le> 67108864
     \<and> 3 \<le> cfg_max_inbound_fields c \<and> cfg_max_inbound_fields c \<le> 65536
     \<and> list_all (\<lambda>v. case v of None \<Rightarrow> True | Some s \<Rightarrow> legal_id s)
         [cfg_sender_sub_id c, cfg_target_sub_id c, cfg_sender_location_id c, cfg_target_location_id c]
     \<and> list_all (\<lambda>v. configured_appl_version (cfg_begin_string c) \<noteq> None \<and> appl_ver_id v \<noteq> None)
         (cfg_allowed_appl_versions c)
     \<and> (\<not> cfg_send_next_expected_msg_seq_num c \<or> defines_next_expected_msg_seq_num (cfg_begin_string c))
     \<and> usable_gap_policy (cfg_session_gap_policy c)"

lemma printable_range: "printable b \<and> b \<noteq> 61 \<longleftrightarrow> 32 \<le> b \<and> b \<le> 126 \<and> b \<noteq> (61 :: u8)"
proof -
  have "(33 :: u8) \<le> b \<or> b = 32 \<longleftrightarrow> 32 \<le> b" by (auto simp: word_le_nat_alt word_unat_eq_iff)
  then show ?thesis by (auto simp: printable_def)
qed

lemma validate_id_ok: "validate_id field s = Inr () \<longleftrightarrow> legal_id s"
  using first_failing_None[of "\<lambda>byte. printable byte \<and> byte \<noteq> 61" 0 s]
  by (cases "first_failing (\<lambda>byte. printable byte \<and> byte \<noteq> 61) 0 s")
     (auto simp: validate_id_def legal_id_def MAX_ID_LEN_def COMP_ID_MAX_LEN_def printable_range Suc_le_eq)

lemma validate_timeout_ok: "validate_timeout field t = Inr () \<longleftrightarrow> usable_timeout t"
  by (auto simp: validate_timeout_def usable_timeout_def MAX_TIMEOUT_def from_secs_def NANOS_def)

lemma validate_gap_policy_ok: "validate_gap_policy p = Inr () \<longleftrightarrow> usable_gap_policy p"
  by (cases p) (auto simp: validate_gap_policy_def usable_gap_policy_def MAX_GAP_QUEUE_MESSAGES_def
      MAX_GAP_QUEUE_BYTES_def Suc_le_eq)

lemma validate_appl_versions_ok:
  "validate_appl_versions s vs = Inr () \<longleftrightarrow>
     list_all (\<lambda>v. configured_appl_version s \<noteq> None \<and> appl_ver_id v \<noteq> None) vs"
proof -
  let ?P = "\<lambda>version. \<not> configured_appl_version s \<noteq> None \<or> appl_ver_id version = None"
  have "validate_appl_versions s vs = Inr () \<longleftrightarrow> find ?P vs = None"
    unfolding validate_appl_versions_def Let_def by (cases "find ?P vs") simp_all
  also have "\<dots> \<longleftrightarrow> list_all (\<lambda>v. configured_appl_version s \<noteq> None \<and> appl_ver_id v \<noteq> None) vs"
    unfolding find_None_iff list_all_iff by blast
  finally show ?thesis .
qed

lemma validate_heartbeat_interval_ok:
  assumes "i < 2 ^ 64 * 1000000000"
  shows "validate_heartbeat_interval i = Inr () \<longleftrightarrow> (\<exists>s \<le> 3600. i = s * 1000000000)"
proof -
  have "i div 1000000000 < 2 ^ 64" using assms by (simp add: div_less_iff_less_mult)
  then have u: "unat (word_of_nat (i div 1000000000) :: u64) = i div 1000000000"
    by (simp add: unat_of_nat)
  have mx: "unat MAX_HEARTBEAT_INTERVAL_SECS = 3600" "unat MIN_HEARTBEAT_INTERVAL_SECS = 1"
    by (simp_all add: MAX_HEARTBEAT_INTERVAL_SECS_def MIN_HEARTBEAT_INTERVAL_SECS_def)
  show ?thesis
    by (auto simp: validate_heartbeat_interval_def Let_def word_le_nat_alt u mx Suc_le_eq)
qed

lemma validate_optional_ok:
  "validate_optional xs = Inr () \<longleftrightarrow> list_all (\<lambda>v. case v of None \<Rightarrow> True | Some s \<Rightarrow> legal_id s) (map snd xs)"
  by (induction xs rule: validate_optional.induct) (auto simp: result_simps validate_id_ok)

lemma bindR_unit: "bindR r (\<lambda>_. k) = Inr () \<longleftrightarrow> r = Inr () \<and> k = Inr ()" for r :: "'e + unit"
  by (cases r) auto

lemma validate_config_ok:
  assumes "cfg_heartbeat_interval c < 2 ^ 64 * 1000000000"
  shows "validate_config c = Inr () \<longleftrightarrow> usable_config c"
  unfolding validate_config_def usable_config_def bindR_unit if_distrib[of "\<lambda>x. x = Inr ()"]
    validate_id_ok validate_heartbeat_interval_ok[OF assms] validate_timeout_ok validate_appl_versions_ok
    validate_optional_ok validate_gap_policy_ok
  by (auto simp: MIN_MESSAGE_SIZE_LIMIT_def MAX_MESSAGE_SIZE_LIMIT_def MIN_INBOUND_FIELDS_def
      MAX_INBOUND_FIELDS_def validate_next_expected_msg_seq_num_def)

lemma build_Inr:
  "build b = Inr c \<Longrightarrow> validate_config c = Inr () \<and> bld_sender_comp_id b = Some (cfg_sender_comp_id c)
     \<and> bld_target_comp_id b = Some (cfg_target_comp_id c)
     \<and> (cfg_heartbeat_interval c = 0 \<longleftrightarrow> bld_heartbeat b = HeartbeatsDisabled)
     \<and> (cfg_heartbeat_interval c \<noteq> 0 \<longrightarrow> bld_heartbeat b = Interval (cfg_heartbeat_interval c))"
  by (auto simp: build_def result_simps Let_def split: heartbeat_setting.splits option.splits if_splits)

end
