(* ===== verification/Session_State.thy ===== *)
theory Session_State
  imports Session_Config
begin

text \<open>
  The session state machine (\<^verbatim>\<open>ironfix-session/src/state.rs\<close>), its phase once active
  (\<^verbatim>\<open>phase.rs\<close>) and the logout decisions (\<^verbatim>\<open>logout.rs\<close>).  In the code each state is
  a type and each transition a method of one type; here a transition is a function on sessions
  and \<open>session_step\<close> says in which state the type system allows it.
\<close>

datatype session_state =
    Disconnected | Connecting | LogonSent instant | LogonReceived instant | Active
  | Resending u64 u64 | LogoutPending instant

record session =
  session_id :: bytes
  session_state :: session_state

definition transition :: "session_state \<Rightarrow> session \<Rightarrow> session" where
  "transition next_state s = s\<lparr>session_state := next_state\<rparr>"

definition session_new :: "bytes \<Rightarrow> session" where
  "session_new i = \<lparr>session_id = i, session_state = Disconnected\<rparr>"

definition connect :: "session \<Rightarrow> session" where "connect = transition Connecting"
definition accept :: "session \<Rightarrow> session" where "accept = transition Connecting"
definition send_logon :: "instant \<Rightarrow> session \<Rightarrow> session" where "send_logon now = transition (LogonSent now)"
definition on_logon_received :: "instant \<Rightarrow> session \<Rightarrow> session" where
  "on_logon_received now = transition (LogonReceived now)"
definition connecting_disconnect :: "session \<Rightarrow> session" where "connecting_disconnect = transition Disconnected"
definition on_logon_ack :: "session \<Rightarrow> session" where "on_logon_ack = transition Active"
definition on_logon_reject :: "session \<Rightarrow> session" where "on_logon_reject = transition Disconnected"
definition accept_logon :: "session \<Rightarrow> session" where "accept_logon = transition Active"
definition reject_logon :: "session \<Rightarrow> session" where "reject_logon = transition Disconnected"
definition logon_received_timeout :: "session \<Rightarrow> session" where "logon_received_timeout = transition Disconnected"
definition start_resend :: "u64 \<Rightarrow> u64 \<Rightarrow> session \<Rightarrow> session" where
  "start_resend begin_seq end_seq = transition (Resending begin_seq end_seq)"
definition initiate_logout :: "instant \<Rightarrow> session \<Rightarrow> session" where
  "initiate_logout now = transition (LogoutPending now)"
definition active_disconnect :: "session \<Rightarrow> session" where "active_disconnect = transition Disconnected"
definition resend_complete :: "session \<Rightarrow> session" where "resend_complete = transition Active"
definition resending_disconnect :: "session \<Rightarrow> session" where "resending_disconnect = transition Disconnected"
definition on_logout_ack :: "session \<Rightarrow> session" where "on_logout_ack = transition Disconnected"
definition logout_pending_timeout :: "session \<Rightarrow> session" where "logout_pending_timeout = transition Disconnected"

fun logon_sent_at :: "session_state \<Rightarrow> instant option" where
  "logon_sent_at (LogonSent t) = Some t"
| "logon_sent_at _ = None"

fun logout_sent_at :: "session_state \<Rightarrow> instant option" where
  "logout_sent_at (LogoutPending t) = Some t"
| "logout_sent_at _ = None"

text \<open>The transitions the types allow.\<close>

inductive session_step :: "session \<Rightarrow> session \<Rightarrow> bool" where
  step_connect: "session_state s = Disconnected \<Longrightarrow> session_step s (connect s)"
| step_accept: "session_state s = Disconnected \<Longrightarrow> session_step s (accept s)"
| step_send_logon: "session_state s = Connecting \<Longrightarrow> session_step s (send_logon now s)"
| step_logon_received: "session_state s = Connecting \<Longrightarrow> session_step s (on_logon_received now s)"
| step_connecting_disconnect: "session_state s = Connecting \<Longrightarrow> session_step s (connecting_disconnect s)"
| step_logon_ack: "session_state s = LogonSent t \<Longrightarrow> session_step s (on_logon_ack s)"
| step_logon_reject: "session_state s = LogonSent t \<Longrightarrow> session_step s (on_logon_reject s)"
| step_accept_logon: "session_state s = LogonReceived t \<Longrightarrow> session_step s (accept_logon s)"
| step_reject_logon: "session_state s = LogonReceived t \<Longrightarrow> session_step s (reject_logon s)"
| step_received_timeout: "session_state s = LogonReceived t \<Longrightarrow> session_step s (logon_received_timeout s)"
| step_start_resend: "session_state s = Active \<Longrightarrow> session_step s (start_resend b e s)"
| step_initiate_logout: "session_state s = Active \<Longrightarrow> session_step s (initiate_logout now s)"
| step_active_disconnect: "session_state s = Active \<Longrightarrow> session_step s (active_disconnect s)"
| step_resend_complete: "session_state s = Resending b e \<Longrightarrow> session_step s (resend_complete s)"
| step_resending_disconnect: "session_state s = Resending b e \<Longrightarrow> session_step s (resending_disconnect s)"
| step_logout_ack: "session_state s = LogoutPending t \<Longrightarrow> session_step s (on_logout_ack s)"
| step_pending_timeout: "session_state s = LogoutPending t \<Longrightarrow> session_step s (logout_pending_timeout s)"

lemmas transition_defs = transition_def connect_def accept_def send_logon_def on_logon_received_def
  connecting_disconnect_def on_logon_ack_def on_logon_reject_def accept_logon_def reject_logon_def
  logon_received_timeout_def start_resend_def initiate_logout_def active_disconnect_def
  resend_complete_def resending_disconnect_def on_logout_ack_def logout_pending_timeout_def

text \<open>A run: the sessions passed through, newest first, from a new session.\<close>

inductive session_run :: "session list \<Rightarrow> bool" where
  run_new: "session_run [session_new i]"
| run_step: "session_run (s # ss) \<Longrightarrow> session_step s s' \<Longrightarrow> session_run (s' # s # ss)"

inductive_simps session_step_iff: "session_step s s'"
inductive_cases session_run_ConsE: "session_run (s # ss)"

lemma session_step_id: "session_step s s' \<Longrightarrow> session_id s' = session_id s"
  by (erule session_step.cases) (simp_all add: transition_defs)

definition logged_on :: "session_state \<Rightarrow> bool" where
  "logged_on st \<longleftrightarrow> (case st of Active \<Rightarrow> True | Resending _ _ \<Rightarrow> True | LogoutPending _ \<Rightarrow> True | _ \<Rightarrow> False)"

definition logon_state :: "session_state \<Rightarrow> bool" where
  "logon_state st \<longleftrightarrow> (case st of LogonSent _ \<Rightarrow> True | LogonReceived _ \<Rightarrow> True | _ \<Rightarrow> False)"

text \<open>The connection in progress: the states since the session was last disconnected.\<close>

definition connection :: "session list \<Rightarrow> session_state list" where
  "connection ss = takeWhile (\<lambda>st. st \<noteq> Disconnected) (map session_state ss)"

lemma step_into_logged_on:
  "session_step s s' \<Longrightarrow> logged_on (session_state s') \<Longrightarrow>
     logon_state (session_state s) \<or> logged_on (session_state s)"
  by (erule session_step.cases) (simp_all add: transition_defs logged_on_def logon_state_def)

lemma run_logon:
  "session_run ss \<Longrightarrow> ss \<noteq> [] \<and>
     (logged_on (session_state (hd ss)) \<longrightarrow> (\<exists>st\<in>set (connection ss). logon_state st))"
proof (induction rule: session_run.induct)
  case (run_new i)
  then show ?case by (simp add: session_new_def logged_on_def)
next
  case (run_step s ss s')
  show ?case
  proof (intro conjI impI)
    assume l: "logged_on (session_state (hd (s' # s # ss)))"
    then have nd: "session_state s' \<noteq> Disconnected" by (auto simp: logged_on_def)
    from step_into_logged_on[OF run_step.hyps(2)] l
    have "logon_state (session_state s) \<or> logged_on (session_state s)" by simp
    then have "\<exists>st\<in>set (connection (s # ss)). logon_state st"
    proof
      assume "logon_state (session_state s)"
      then show ?thesis by (auto simp: connection_def logon_state_def split: session_state.splits)
    next
      assume "logged_on (session_state s)"
      then show ?thesis using run_step.IH by simp
    qed
    then show "\<exists>st\<in>set (connection (s' # s # ss)). logon_state st"
      using nd by (auto simp: connection_def)
  qed simp
qed

subsection \<open>Phases\<close>

datatype logout_phase = LpActive | LpQueued | LpPending

datatype session_phase =
    PhaseActive session | PhaseLogoutQueued session | PhaseLogoutPending session

text \<open>The type of the session each constructor carries.\<close>

fun phase_typed :: "session_phase \<Rightarrow> bool" where
  "phase_typed (PhaseActive s) \<longleftrightarrow> session_state s = Active"
| "phase_typed (PhaseLogoutQueued s) \<longleftrightarrow> session_state s = Active"
| "phase_typed (PhaseLogoutPending s) \<longleftrightarrow> logout_sent_at (session_state s) \<noteq> None"

fun phase_session :: "session_phase \<Rightarrow> session" where
  "phase_session (PhaseActive s) = s"
| "phase_session (PhaseLogoutQueued s) = s"
| "phase_session (PhaseLogoutPending s) = s"

fun phase_logout :: "session_phase \<Rightarrow> logout_phase" where
  "phase_logout (PhaseActive _) = LpActive"
| "phase_logout (PhaseLogoutQueued _) = LpQueued"
| "phase_logout (PhaseLogoutPending _) = LpPending"

fun phase_is_active :: "session_phase \<Rightarrow> bool" where
  "phase_is_active (PhaseActive _) = True"
| "phase_is_active _ = False"

text \<open>
  \<open>take_written\<close> consumes the driver's written mark; it is called only in the queued phase,
  so the model passes its answer and the second component says whether it was called.
\<close>

definition decide_logout_advance :: "logout_phase \<Rightarrow> bool \<Rightarrow> bool \<times> bool" where
  "decide_logout_advance phase take_written =
    (case phase of LpQueued \<Rightarrow> (take_written, True) | _ \<Rightarrow> (False, False))"

definition advance_logout :: "bool \<Rightarrow> instant \<Rightarrow> session_phase \<Rightarrow> session_phase" where
  "advance_logout take_written now phase =
    (let advance = fst (decide_logout_advance (phase_logout phase) take_written) in
     case phase of
       PhaseLogoutQueued s \<Rightarrow> if advance then PhaseLogoutPending (initiate_logout now s) else phase
     | _ \<Rightarrow> phase)"

fun teardown :: "session_phase \<Rightarrow> session" where
  "teardown (PhaseActive s) = active_disconnect s"
| "teardown (PhaseLogoutQueued s) = active_disconnect s"
| "teardown (PhaseLogoutPending s) = logout_pending_timeout s"

lemma advance_logout_typed: "phase_typed p \<Longrightarrow> phase_typed (advance_logout w now p)"
  by (cases p) (auto simp: advance_logout_def decide_logout_advance_def Let_def transition_defs)

lemma advance_logout_step:
  "phase_typed p \<Longrightarrow> advance_logout w now p = p
     \<or> session_step (phase_session p) (phase_session (advance_logout w now p))"
  by (cases p) (auto simp: advance_logout_def decide_logout_advance_def Let_def intro: session_step.intros)

lemma teardown_step: "phase_typed p \<Longrightarrow> session_step (phase_session p) (teardown p)"
  by (cases p) (auto intro: session_step.intros elim!: logout_sent_at.elims)

subsection \<open>Logout\<close>

definition MAX_LOGOUT_TEXT_LEN :: usize where "MAX_LOGOUT_TEXT_LEN = 1024"

datatype logout_text_error = TextEmpty | TextTooLong | TextNotPrintableAscii

definition check_logout_text :: "bytes \<Rightarrow> logout_text_error + unit" where
  "check_logout_text text =
    (if text = [] then Inl TextEmpty
     else if MAX_LOGOUT_TEXT_LEN < length text then Inl TextTooLong
     else if \<not> list_all (\<lambda>byte. 32 \<le> byte \<and> byte \<le> 126) text then Inl TextNotPrintableAscii
     else Inr ())"

definition accepts_application_messages :: "logout_phase \<Rightarrow> bool" where
  "accepts_application_messages p \<longleftrightarrow> p = LpActive"

definition is_logging_out :: "logout_phase \<Rightarrow> bool" where
  "is_logging_out p \<longleftrightarrow> \<not> accepts_application_messages p"

datatype local_logout_decision = LogoutSend | AlreadyLoggingOut

fun decide_local_logout :: "logout_phase \<Rightarrow> local_logout_decision" where
  "decide_local_logout LpActive = LogoutSend"
| "decide_local_logout LpQueued = AlreadyLoggingOut"
| "decide_local_logout LpPending = AlreadyLoggingOut"

datatype local_logout_reason = Requested "bytes option" | HandlesDropped | ResendStalled u64 u32

text \<open>Decimal formatting of integers is Rust's; it is the argument \<open>dec\<close>.\<close>

definition resend_stalled_text :: "(nat \<Rightarrow> bytes) \<Rightarrow> u64 \<Rightarrow> u32 \<Rightarrow> bytes" where
  "resend_stalled_text dec expected attempts =
     bytes_of ''resend of MsgSeqNum '' @ dec (unat expected) @ bytes_of '' unanswered after ''
     @ dec (unat attempts) @ bytes_of '' request(s)''"

fun logout_reason_text :: "(nat \<Rightarrow> bytes) \<Rightarrow> local_logout_reason \<Rightarrow> bytes option" where
  "logout_reason_text dec (Requested text) = text"
| "logout_reason_text dec HandlesDropped = None"
| "logout_reason_text dec (ResendStalled expected attempts) = Some (resend_stalled_text dec expected attempts)"

record owed_logout =
  owed_since :: instant
  owed_text :: "bytes option"

definition owed_is_due :: "owed_logout \<Rightarrow> instant \<Rightarrow> duration \<Rightarrow> bool" where
  "owed_is_due owed now logout_timeout \<longleftrightarrow> logout_timeout \<le> elapsed_between (owed_since owed) now"

definition owed_logout_due :: "owed_logout option \<Rightarrow> instant \<Rightarrow> duration \<Rightarrow> bool" where
  "owed_logout_due owed now logout_timeout =
     (case owed of Some o' \<Rightarrow> owed_is_due o' now logout_timeout | None \<Rightarrow> False)"

datatype peer_logout_decision = CompleteLocal bool | AwaitResend | Reply

definition decide_peer_logout ::
  "logout_phase \<Rightarrow> owed_logout option \<Rightarrow> instant \<Rightarrow> bytes option \<Rightarrow> bool \<Rightarrow> peer_logout_decision \<times> owed_logout option" where
  "decide_peer_logout phase owed now text resend_in_progress =
    (case phase of
       LpPending \<Rightarrow> (CompleteLocal False, owed)
     | LpQueued \<Rightarrow> (CompleteLocal True, owed)
     | LpActive \<Rightarrow>
         (if resend_in_progress then AwaitResend else Reply,
          if owed = None then Some \<lparr>owed_since = now, owed_text = text\<rparr> else owed))"

datatype logout_reply_write = Fed | WrittenBeforeFailure | NotWritten
datatype logout_close = CloseLocal | ClosePeer | CloseTimeout | CloseUnwritten | CloseOther

fun close_is_graceful :: "logout_close \<Rightarrow> bool" where
  "close_is_graceful CloseLocal = True"
| "close_is_graceful ClosePeer = True"
| "close_is_graceful CloseTimeout = True"
| "close_is_graceful CloseUnwritten = False"
| "close_is_graceful CloseOther = False"

fun close_unwritten :: "logout_close \<Rightarrow> logout_close" where
  "close_unwritten CloseLocal = CloseUnwritten"
| "close_unwritten ClosePeer = CloseUnwritten"
| "close_unwritten CloseTimeout = CloseUnwritten"
| "close_unwritten CloseUnwritten = CloseUnwritten"
| "close_unwritten CloseOther = CloseOther"

fun reply_close :: "logout_reply_write \<Rightarrow> logout_close" where
  "reply_close Fed = ClosePeer"
| "reply_close WrittenBeforeFailure = ClosePeer"
| "reply_close NotWritten = CloseUnwritten"

definition settle_close :: "logout_close \<Rightarrow> bool \<Rightarrow> logout_close" where
  "settle_close close own_logout_unwritten =
     (if close_is_graceful close \<and> own_logout_unwritten then close_unwritten close else close)"

definition close_resets :: "session_config \<Rightarrow> logout_close \<Rightarrow> bool" where
  "close_resets config close \<longleftrightarrow>
     cfg_reset_on_disconnect config \<or> close_is_graceful close \<and> cfg_reset_on_logout config"

text \<open>A close that leaves its own Logout unwritten never resets the numbering on its account.\<close>

lemma unwritten_never_resets:
  "\<not> cfg_reset_on_disconnect config \<Longrightarrow> \<not> close_resets config (settle_close close True)"
  by (cases close) (simp_all add: close_resets_def settle_close_def)

definition logout_timed_out :: "session \<Rightarrow> instant \<Rightarrow> duration \<Rightarrow> bool" where
  "logout_timed_out s now logout_timeout \<longleftrightarrow>
     (case logout_sent_at (session_state s) of
        Some sent_at \<Rightarrow> logout_timeout \<le> elapsed_between sent_at now
      | None \<Rightarrow> False)"

end
