(* ===== verification/Session_Sequence.thy ===== *)
theory Session_Sequence
  imports Prelude
begin

text \<open>
  Sequence numbers (\<^verbatim>\<open>ironfix-session/src/sequence.rs\<close>).  The two counters are atomics
  updated by single operations, so what concurrent callers do is a sequence of these
  operations in some order; the theorems quantify over every such sequence.
\<close>

datatype sequence_counter = Sender | Target

datatype sequence_exhausted = SequenceExhausted sequence_counter

record sequence_manager =
  next_sender_seq :: u64
  next_target_seq :: u64

datatype sequence_result = SeqOk | SeqTooLow u64 u64 | SeqGap u64 u64

definition sequence_manager_new :: sequence_manager where
  "sequence_manager_new = \<lparr>next_sender_seq = 1, next_target_seq = 1\<rparr>"

definition with_initial :: "u64 \<Rightarrow> u64 \<Rightarrow> sequence_manager" where
  "with_initial sender_seq target_seq =
     \<lparr>next_sender_seq = sender_seq, next_target_seq = target_seq\<rparr>"

definition allocate_sender_seq :: "sequence_manager \<Rightarrow> u64 \<times> sequence_manager" where
  "allocate_sender_seq m = (next_sender_seq m, m\<lparr>next_sender_seq := next_sender_seq m + 1\<rparr>)"

definition try_allocate_sender_seq :: "(sequence_manager, sequence_exhausted, u64) fallible" where
  "try_allocate_sender_seq m =
     (case checked_add (next_sender_seq m) 1 of
        None \<Rightarrow> (Inl (SequenceExhausted Sender), m)
      | Some n \<Rightarrow> (Inr (next_sender_seq m), m\<lparr>next_sender_seq := n\<rparr>))"

definition increment_target_seq :: "sequence_manager \<Rightarrow> sequence_manager" where
  "increment_target_seq m = m\<lparr>next_target_seq := next_target_seq m + 1\<rparr>"

definition try_increment_target_seq :: "(sequence_manager, sequence_exhausted, u64) fallible" where
  "try_increment_target_seq m =
     (case checked_add (next_target_seq m) 1 of
        None \<Rightarrow> (Inl (SequenceExhausted Target), m)
      | Some n \<Rightarrow> (Inr (next_target_seq m + 1), m\<lparr>next_target_seq := n\<rparr>))"

definition set_sender_seq :: "u64 \<Rightarrow> sequence_manager \<Rightarrow> sequence_manager" where
  "set_sender_seq s m = m\<lparr>next_sender_seq := s\<rparr>"

definition set_target_seq :: "u64 \<Rightarrow> sequence_manager \<Rightarrow> sequence_manager" where
  "set_target_seq s m = m\<lparr>next_target_seq := s\<rparr>"

definition sequence_reset :: "sequence_manager \<Rightarrow> sequence_manager" where
  "sequence_reset m = m\<lparr>next_sender_seq := 1, next_target_seq := 1\<rparr>"

definition validate_incoming :: "sequence_manager \<Rightarrow> u64 \<Rightarrow> sequence_result" where
  "validate_incoming m received =
    (let expected = next_target_seq m in
     if received = expected then SeqOk
     else if received < expected then SeqTooLow expected received
     else SeqGap expected received)"

subsection \<open>Runs of operations\<close>

text \<open>
  One atomic operation of one of the callers, and what it returned.  Storing a counter
  (\<open>set_*\<close>, \<open>reset\<close>) starts a new numbering, so it is not an operation of a run.
\<close>

datatype sequence_op = Allocate | Increment

fun sequence_step :: "sequence_op \<Rightarrow> sequence_manager \<Rightarrow> (sequence_exhausted + u64) \<times> sequence_manager" where
  "sequence_step Allocate m = try_allocate_sender_seq m"
| "sequence_step Increment m = try_increment_target_seq m"

fun sequence_run :: "sequence_op list \<Rightarrow> sequence_manager \<Rightarrow> (sequence_op \<times> (sequence_exhausted + u64)) list \<times> sequence_manager" where
  "sequence_run [] m = ([], m)"
| "sequence_run (op # ops) m =
     (let (r, m1) = sequence_step op m; (rs, m2) = sequence_run ops m1 in ((op, r) # rs, m2))"

text \<open>The numbers handed out, in order.\<close>

definition allocated :: "(sequence_op \<times> (sequence_exhausted + u64)) list \<Rightarrow> nat list" where
  "allocated rs = List.map_filter (\<lambda>(op, r). case (op, r) of (Allocate, Inr n) \<Rightarrow> Some (unat n) | _ \<Rightarrow> None) rs"

lemma u64_max: "(2 :: nat) ^ LENGTH(64) = 2 ^ 64"
  by simp

lemma try_allocate_cases:
  "unat (next_sender_seq m) + 1 < 2 ^ 64 \<Longrightarrow>
     try_allocate_sender_seq m = (Inr (next_sender_seq m), m\<lparr>next_sender_seq := next_sender_seq m + 1\<rparr>)"
  "\<not> unat (next_sender_seq m) + 1 < 2 ^ 64 \<Longrightarrow>
     try_allocate_sender_seq m = (Inl (SequenceExhausted Sender), m)"
  by (simp_all add: try_allocate_sender_seq_def checked_add_def)

lemma unat_plus_one: "unat (n :: u64) + 1 < 2 ^ 64 \<Longrightarrow> unat (n + 1) = unat n + 1"
  by (simp add: unat_word_ariths)

lemma try_increment_sender: "next_sender_seq (snd (try_increment_target_seq m)) = next_sender_seq m"
  by (simp add: try_increment_target_seq_def split: option.splits)

lemma run_increment:
  "allocated (fst (sequence_run (Increment # ops) m))
     = allocated (fst (sequence_run ops (snd (try_increment_target_seq m))))"
  "snd (sequence_run (Increment # ops) m) = snd (sequence_run ops (snd (try_increment_target_seq m)))"
  by (simp_all add: allocated_def List.map_filter_simps split: prod.splits)

lemma run_allocate:
  "unat (next_sender_seq m) + 1 < 2 ^ 64 \<Longrightarrow>
     allocated (fst (sequence_run (Allocate # ops) m)) = unat (next_sender_seq m)
       # allocated (fst (sequence_run ops (m\<lparr>next_sender_seq := next_sender_seq m + 1\<rparr>)))
     \<and> snd (sequence_run (Allocate # ops) m)
         = snd (sequence_run ops (m\<lparr>next_sender_seq := next_sender_seq m + 1\<rparr>))"
  "\<not> unat (next_sender_seq m) + 1 < 2 ^ 64 \<Longrightarrow>
     allocated (fst (sequence_run (Allocate # ops) m)) = allocated (fst (sequence_run ops m))
     \<and> snd (sequence_run (Allocate # ops) m) = snd (sequence_run ops m)"
  by (simp_all add: try_allocate_cases allocated_def List.map_filter_simps split: prod.splits)

lemma upt_first: "x # [x + 1 ..< x + 1 + k] = [x ..< x + Suc k]"
  by (simp add: upt_conv_Cons del: upt_Suc)

lemma allocated_run:
  "\<exists>k. allocated (fst (sequence_run ops m)) = [unat (next_sender_seq m) ..< unat (next_sender_seq m) + k]
     \<and> unat (next_sender_seq (snd (sequence_run ops m))) = unat (next_sender_seq m) + k
     \<and> k = min (length (filter (\<lambda>op. op = Allocate) ops)) (2 ^ 64 - 1 - unat (next_sender_seq m))"
proof (induction ops arbitrary: m)
  case Nil
  then show ?case by (simp add: allocated_def List.map_filter_simps)
next
  case (Cons op ops)
  have small: "unat (next_sender_seq m) < 2 ^ 64" using unsigned_less[of "next_sender_seq m"] by simp
  show ?case
  proof (cases op)
    case Increment
    then show ?thesis
      using Cons.IH[of "snd (try_increment_target_seq m)"]
      by (simp add: run_increment try_increment_sender del: sequence_run.simps)
  next
    case Allocate
    show ?thesis
    proof (cases "unat (next_sender_seq m) + 1 < 2 ^ 64")
      case True
      let ?m = "m\<lparr>next_sender_seq := next_sender_seq m + 1\<rparr>"
      from Cons.IH[of ?m] obtain k where
        k: "allocated (fst (sequence_run ops ?m)) = [unat (next_sender_seq m) + 1 ..< unat (next_sender_seq m) + 1 + k]"
          "unat (next_sender_seq (snd (sequence_run ops ?m))) = unat (next_sender_seq m) + 1 + k"
          "k = min (length (filter (\<lambda>op. op = Allocate) ops)) (2 ^ 64 - 1 - (unat (next_sender_seq m) + 1))"
        by (auto simp: unat_plus_one[OF True] simp del: upt_Suc)
      have "Suc k = min (Suc (length (filter (\<lambda>op. op = Allocate) ops))) (2 ^ 64 - 1 - unat (next_sender_seq m))"
        using k(3) True by simp
      then show ?thesis
        using k(1,2) Allocate run_allocate(1)[OF True, of ops]
        by (intro exI[of _ "Suc k"]) (simp only: upt_first list.size filter.simps if_True, simp)
    next
      case False
      then have "2 ^ 64 - 1 - unat (next_sender_seq m) = 0" using small by simp
      with Cons.IH[of m] Allocate run_allocate(2)[OF False, of ops] show ?thesis
        by (simp del: sequence_run.simps)
    qed
  qed
qed

end
