(* ===== verification/Session_Inbound.thy ===== *)
theory Session_Inbound
  imports Session_State Session_Sequence Fix_Core
begin

text \<open>
  The inbound decisions of \<^verbatim>\<open>ironfix-session/src/sans_io.rs\<close>: what an arriving number
  means, where a message goes, SequenceReset, and the recovery of a gap.  A closure the code
  calls at most once, and only where its answer matters, is passed as that answer.
\<close>

subsection \<open>Classification and routing\<close>

datatype inbound_sequence =
    InSequence | InDuplicate u64 u64 | InTooLow u64 u64 | InGap u64 u64

definition classify_inbound :: "sequence_manager \<Rightarrow> u64 \<Rightarrow> bool \<Rightarrow> inbound_sequence" where
  "classify_inbound sequences seq poss_dup =
    (case validate_incoming sequences seq of
       SeqOk \<Rightarrow> InSequence
     | SeqTooLow expected received \<Rightarrow>
         if poss_dup then InDuplicate expected received else InTooLow expected received
     | SeqGap expected received \<Rightarrow> InGap expected received)"

datatype gap_disposition = QueueFrame | KeepNumber | Dispatch

datatype inbound_route =
    RouteSequenceReset | RouteAdmin u64 | RouteApp | RouteDuplicate | RouteTooLow u64 u64
  | RouteGap u64 u64 gap_disposition | RouteExhausted

definition route_inbound :: "sequence_manager \<Rightarrow> msg_type \<Rightarrow> u64 \<Rightarrow> bool \<Rightarrow> inbound_route" where
  "route_inbound sequences msg_type seq poss_dup =
    (if msg_type_eq msg_type SequenceReset then RouteSequenceReset
     else (case classify_inbound sequences seq poss_dup of
             InSequence \<Rightarrow>
               if msg_type_is_admin msg_type
               then (case checked_add seq 1 of Some next \<Rightarrow> RouteAdmin next | None \<Rightarrow> RouteExhausted)
               else RouteApp
           | InDuplicate _ _ \<Rightarrow> RouteDuplicate
           | InTooLow expected received \<Rightarrow> RouteTooLow expected received
           | InGap expected received \<Rightarrow>
               RouteGap expected received
                 (if msg_type_is_app msg_type then QueueFrame
                  else if msg_type_eq msg_type Logout then Dispatch
                  else KeepNumber)))"

datatype reset_screen =
    BadGapFillFlag | GappedFill u64 u64 | DuplicateFill u64 | TooLowFill u64 u64
  | FillInSequence u64 | ResetExhausted | ScreenReset

definition screen_sequence_reset :: "sequence_manager \<Rightarrow> bytes option \<Rightarrow> u64 \<Rightarrow> bool \<Rightarrow> reset_screen" where
  "screen_sequence_reset sequences gap_fill_flag seq poss_dup =
    (if gap_fill_flag = None \<or> gap_fill_flag = Some (bytes_of ''N'') then ScreenReset
     else if gap_fill_flag \<noteq> Some (bytes_of ''Y'') then BadGapFillFlag
     else (case classify_inbound sequences seq poss_dup of
             InGap expected received \<Rightarrow> GappedFill expected received
           | InDuplicate expected _ \<Rightarrow> DuplicateFill expected
           | InTooLow expected received \<Rightarrow> TooLowFill expected received
           | InSequence \<Rightarrow>
               (case checked_add seq 1 of Some next \<Rightarrow> FillInSequence next | None \<Rightarrow> ResetExhausted)))"

datatype reset_decision =
    MissingNewSeqNo | FillNotAdvancing u64 | ResetBelowExpected u64 u64 | ApplyReset u64 bool bool

definition decide_sequence_reset :: "bool \<Rightarrow> u64 \<Rightarrow> u64 option \<Rightarrow> u64 \<Rightarrow> reset_decision" where
  "decide_sequence_reset gap_fill seq new_seq_no expected =
    (case new_seq_no of
       None \<Rightarrow> MissingNewSeqNo
     | Some new_seq \<Rightarrow>
         if gap_fill \<and> new_seq \<le> seq then FillNotAdvancing new_seq
         else if \<not> gap_fill \<and> new_seq < expected then ResetBelowExpected new_seq expected
         else ApplyReset new_seq (\<not> gap_fill) (expected < new_seq))"

definition spanned_rerequest :: "u64 \<Rightarrow> u64 option \<Rightarrow> bool \<Rightarrow> u64 option \<Rightarrow> u64 option" where
  "spanned_rerequest expected new_seq_no may_request last_rerequested =
    (case new_seq_no of
       Some new_seq \<Rightarrow>
         if expected < new_seq \<and> may_request \<and> last_rerequested \<noteq> Some expected
         then Some new_seq else None
     | None \<Rightarrow> None)"

definition spanned_high_water :: "u64 \<Rightarrow> u64 \<Rightarrow> u64" where
  "spanned_high_water expected new_seq =
     max (case checked_sub new_seq 1 of Some n \<Rightarrow> n | None \<Rightarrow> expected) expected"

subsection \<open>Recovery of a gap\<close>

record resend_state =
  rs_expected :: u64
  rs_high_water :: u64
  rs_requested_at :: instant
  rs_attempts :: u32
  rs_limit :: u32
  rs_timeout :: duration
  rs_charge_on_write :: bool

definition resend_first :: "u64 \<Rightarrow> u64 \<Rightarrow> session_config \<Rightarrow> instant \<Rightarrow> resend_state" where
  "resend_first expected high_water config now =
    \<lparr>rs_expected = expected, rs_high_water = high_water, rs_requested_at = now, rs_attempts = 1,
     rs_limit = resend_attempt_limit config, rs_timeout = cfg_resend_timeout config,
     rs_charge_on_write = False\<rparr>"

definition resend_implied :: "u64 \<Rightarrow> u64 \<Rightarrow> session_config \<Rightarrow> instant \<Rightarrow> resend_state" where
  "resend_implied expected high_water config now =
    (resend_first expected high_water config now)\<lparr>rs_attempts := 0\<rparr>"

definition is_stalled :: "resend_state \<Rightarrow> instant \<Rightarrow> bool" where
  "is_stalled r now \<longleftrightarrow> rs_timeout r \<le> elapsed_between (rs_requested_at r) now"

definition can_retry :: "resend_state \<Rightarrow> bool" where
  "can_retry r \<longleftrightarrow> rs_attempts r < rs_limit r"

definition raise_high_water :: "u64 \<Rightarrow> resend_state \<Rightarrow> resend_state" where
  "raise_high_water high_water r =
    (if rs_high_water r < high_water then r\<lparr>rs_high_water := high_water\<rparr> else r)"

definition charge_held_request :: "resend_state \<Rightarrow> resend_state" where
  "charge_held_request r = r\<lparr>rs_charge_on_write := True\<rparr>"

definition take_charge :: "resend_state \<Rightarrow> bool \<times> resend_state" where
  "take_charge r = (rs_charge_on_write r, r\<lparr>rs_charge_on_write := False\<rparr>)"

definition restart_clock :: "instant \<Rightarrow> resend_state \<Rightarrow> resend_state" where
  "restart_clock now r = r\<lparr>rs_requested_at := now\<rparr>"

definition rearm_uncharged :: "u64 \<Rightarrow> u64 \<Rightarrow> instant \<Rightarrow> resend_state \<Rightarrow> resend_state" where
  "rearm_uncharged expected high_water now r =
     restart_clock now (raise_high_water high_water (r\<lparr>rs_expected := expected\<rparr>))"

definition record_retry :: "instant \<Rightarrow> resend_state \<Rightarrow> resend_state" where
  "record_retry now r =
    (let r1 = r\<lparr>rs_requested_at := now, rs_charge_on_write := False\<rparr> in
     case checked_add (rs_attempts r1) 1 of
       Some attempts \<Rightarrow> r1\<lparr>rs_attempts := attempts\<rparr>
     | None \<Rightarrow> r1)"

definition record_progress :: "u64 \<Rightarrow> instant \<Rightarrow> resend_state \<Rightarrow> resend_state" where
  "record_progress expected now r =
     r\<lparr>rs_expected := expected, rs_requested_at := now, rs_attempts := min (rs_attempts r) 1\<rparr>"

definition merged_high_water :: "resend_state option \<Rightarrow> u64 \<Rightarrow> u64" where
  "merged_high_water current high_water =
     (case current of None \<Rightarrow> high_water | Some r \<Rightarrow> max (rs_high_water r) high_water)"

datatype gap_request = AlreadyRequested | RequestGap

definition decide_gap_request :: "resend_state option \<Rightarrow> u64 \<Rightarrow> u64 \<Rightarrow> gap_request \<times> resend_state option" where
  "decide_gap_request current expected high_water =
    (case current of
       Some r \<Rightarrow>
         (let r1 = raise_high_water high_water r in
          (if rs_expected r1 = expected then AlreadyRequested else RequestGap, Some r1))
     | None \<Rightarrow> (RequestGap, None))"

datatype recovery_progress = NoRecovery | RecoveryClosed | RecoveryAdvanced

definition note_inbound_progress ::
  "resend_state option \<Rightarrow> u64 \<Rightarrow> instant \<Rightarrow> recovery_progress \<times> resend_state option" where
  "note_inbound_progress recovery next_target now =
    (case recovery of
       None \<Rightarrow> (NoRecovery, None)
     | Some r \<Rightarrow>
         if rs_high_water r < next_target then (RecoveryClosed, None)
         else (RecoveryAdvanced, Some (record_progress next_target now r)))"

datatype stall_action = StallWait | StallRetry u64 | StallAbandon u64 u32

definition decide_stall :: "resend_state option \<Rightarrow> instant \<Rightarrow> bool \<Rightarrow> stall_action" where
  "decide_stall recovery now request_unwritten =
    (case recovery of
       Some r \<Rightarrow>
         if \<not> request_unwritten \<and> is_stalled r now
         then (if can_retry r then StallRetry (rs_expected r)
               else StallAbandon (rs_expected r) (rs_attempts r))
         else StallWait
     | None \<Rightarrow> StallWait)"

subsection \<open>Lemmas on routing\<close>

lemma validate_incoming_iff:
  "validate_incoming m n = SeqOk \<longleftrightarrow> n = next_target_seq m"
  "validate_incoming m n = SeqTooLow e r \<longleftrightarrow> e = next_target_seq m \<and> r = n \<and> n < next_target_seq m"
  "validate_incoming m n = SeqGap e r \<longleftrightarrow> e = next_target_seq m \<and> r = n \<and> next_target_seq m < n"
  by (auto simp: validate_incoming_def Let_def)

text \<open>An application message is taken exactly when it carries the expected number.\<close>

lemma route_app_iff:
  "route_inbound m t n d = RouteApp \<longleftrightarrow>
     \<not> msg_type_eq t SequenceReset \<and> msg_type_is_app t \<and> n = next_target_seq m"
  by (auto simp: route_inbound_def classify_inbound_def msg_type_is_app_def validate_incoming_iff
      split: inbound_sequence.splits sequence_result.splits option.splits if_splits)

lemma route_admin_next:
  "route_inbound m t n d = RouteAdmin k \<Longrightarrow> n = next_target_seq m \<and> unat k = unat n + 1"
  by (auto simp: route_inbound_def classify_inbound_def checked_simps validate_incoming_iff unat_plus_one
      split: inbound_sequence.splits sequence_result.splits option.splits if_splits)

lemma route_gap_iff:
  "(\<exists>k. route_inbound m t n d = RouteGap e r k) \<longleftrightarrow>
     \<not> msg_type_eq t SequenceReset \<and> e = next_target_seq m \<and> r = n \<and> e < r"
  by (auto simp: route_inbound_def classify_inbound_def validate_incoming_iff
      split: inbound_sequence.splits sequence_result.splits option.splits if_splits)

lemma apply_reset_iff:
  "decide_sequence_reset g s v e = ApplyReset n renum adv \<longleftrightarrow>
     v = Some n \<and> renum = (\<not> g) \<and> adv = (e < n) \<and> (if g then s < n else e \<le> n)"
  by (auto simp: decide_sequence_reset_def split: option.splits if_splits)

subsection \<open>Retries are bounded\<close>

lemma raise_high_water_simps [simp]:
  "rs_expected (raise_high_water h r) = rs_expected r" "rs_attempts (raise_high_water h r) = rs_attempts r"
  "rs_limit (raise_high_water h r) = rs_limit r" "rs_timeout (raise_high_water h r) = rs_timeout r"
  "rs_requested_at (raise_high_water h r) = rs_requested_at r"
  "rs_high_water (raise_high_water h r) = max (rs_high_water r) h"
  by (simp_all add: raise_high_water_def)

lemma record_retry_simps:
  assumes "can_retry r"
  shows "unat (rs_attempts (record_retry now r)) = unat (rs_attempts r) + 1"
    and "rs_limit (record_retry now r) = rs_limit r" "rs_timeout (record_retry now r) = rs_timeout r"
    "rs_requested_at (record_retry now r) = now" "rs_expected (record_retry now r) = rs_expected r"
proof -
  have "unat (rs_limit r) < 2 ^ 32" using unsigned_less[of "rs_limit r"] by simp
  then have bound: "unat (rs_attempts r) + 1 < 2 ^ 32"
    using assms by (simp add: can_retry_def word_less_nat_alt)
  then have "checked_add (rs_attempts r) 1 = Some (rs_attempts r + 1)" by (simp add: checked_add_def)
  moreover have "unat (rs_attempts r + 1) = unat (rs_attempts r) + 1"
    using bound by (simp add: unat_word_ariths)
  ultimately show "unat (rs_attempts (record_retry now r)) = unat (rs_attempts r) + 1"
    "rs_limit (record_retry now r) = rs_limit r" "rs_timeout (record_retry now r) = rs_timeout r"
    "rs_requested_at (record_retry now r) = now" "rs_expected (record_retry now r) = rs_expected r"
    by (simp_all add: record_retry_def Let_def)
qed

end
