(* ===== verification/Session_Replay.thy ===== *)
theory Session_Replay
  imports Session_Inbound
begin

text \<open>
  Answering a ResendRequest (\<^verbatim>\<open>ironfix-session/src/replay.rs\<close>): the range a request asks
  for, and the replay that walks the store page by page and decides which numbers are replayed
  and which gap-filled.  The abstract specification is a tiling of the half-open range
  \<open>[begin, new_seq)\<close>: every number is either replayed or inside exactly one gap fill, in order.
  \<^verbatim>\<open>debug_assert!\<close> is not modelled: its branches are what a release build does.
\<close>

definition REPLAY_PAGE_LIMIT :: usize where "REPLAY_PAGE_LIMIT = 256"
definition REPLAY_STEP_MAX_FRAMES :: usize where "REPLAY_STEP_MAX_FRAMES = 64"
definition REPLAY_STEP_MAX_BYTES :: usize where "REPLAY_STEP_MAX_BYTES = 64 * 1024"
definition MAX_READS_PER_REPLAY_STEP :: u32 where "MAX_READS_PER_REPLAY_STEP = 16"
definition MAX_QUEUED_REPLAYS :: usize where "MAX_QUEUED_REPLAYS = 64"
definition MAX_HELD_SENDS :: usize where "MAX_HELD_SENDS = 1024"
definition MAX_HELD_BYTES :: usize where "MAX_HELD_BYTES = 4 * 1024 * 1024"

datatype end_seq_no_infinity = Nines | ZeroInfinity

definition NINES :: u64 where "NINES = 999999"

fun infinity_for_version :: "fix_version \<Rightarrow> end_seq_no_infinity" where
  "infinity_for_version Fix40 = Nines"
| "infinity_for_version Fix41 = Nines"
| "infinity_for_version _ = ZeroInfinity"

fun sentinel :: "end_seq_no_infinity \<Rightarrow> u64" where
  "sentinel Nines = NINES"
| "sentinel ZeroInfinity = 0"

fun is_open_ended :: "end_seq_no_infinity \<Rightarrow> u64 \<Rightarrow> bool" where
  "is_open_ended Nines end_seq \<longleftrightarrow> end_seq = NINES \<or> end_seq = 0"
| "is_open_ended ZeroInfinity end_seq \<longleftrightarrow> end_seq = 0"

datatype resend_request_decision =
    MissingBeginSeqNo | MissingEndSeqNo | BeginSeqNoOutsideSent u64 u64
  | EndSeqNoBelowBegin u64 u64 | ReplayRange u64 u64

definition decide_resend_request ::
  "u64 option \<Rightarrow> u64 option \<Rightarrow> u64 \<Rightarrow> end_seq_no_infinity \<Rightarrow> resend_request_decision" where
  "decide_resend_request begin_opt end_opt next_sender infinity =
    (case begin_opt of
       None \<Rightarrow> MissingBeginSeqNo
     | Some begin_seq \<Rightarrow>
         (case end_opt of
            None \<Rightarrow> MissingEndSeqNo
          | Some end_seq \<Rightarrow>
              if begin_seq = 0 \<or> next_sender \<le> begin_seq then BeginSeqNoOutsideSent begin_seq next_sender
              else let open_ended = is_open_ended infinity end_seq in
                if \<not> open_ended \<and> end_seq < begin_seq then EndSeqNoBelowBegin begin_seq end_seq
                else ReplayRange begin_seq
                  (if open_ended then next_sender
                   else (case checked_add end_seq 1 of
                           Some bound \<Rightarrow> if bound < next_sender then bound else next_sender
                         | None \<Rightarrow> next_sender))))"

datatype opening_replay = OpeningReplay u64 u64 | OutsideSent

definition decide_opening_replay :: "u64 \<Rightarrow> u64 \<Rightarrow> u64 \<Rightarrow> opening_replay" where
  "decide_opening_replay begin_seq new_seq next_sender =
    (if begin_seq = 0 \<or> new_seq \<le> begin_seq \<or> next_sender < new_seq then OutsideSent
     else OpeningReplay begin_seq new_seq)"

datatype gap_fill_range = GapFillRange u64 u64

record page_request =
  pr_from :: u64
  pr_through :: u64
  pr_limit :: usize

datatype page_read = PageData usize "u64 option" | PageFailed

datatype replay_step = ReadPage page_request | StoreExhausted | Complete "gap_fill_range option"

datatype entry_screen = Candidate | SkipEntry
datatype replay_verdict = VerdictReplay | VerdictGapFill
datatype replay_action = ActionSkip | ActionReplay u64 | ActionGapFillThenReplay gap_fill_range u64

record resend_replay =
  rp_new_seq :: u64
  rp_end_seq :: u64
  rp_reply_cursor :: u64
  rp_read_from :: u64
  rp_store_done :: bool
  rp_started :: bool

definition resend_replay_new :: "u64 \<Rightarrow> u64 \<Rightarrow> bool \<Rightarrow> resend_replay option" where
  "resend_replay_new begin_seq new_seq has_store =
    (if begin_seq = 0 \<or> new_seq \<le> begin_seq then None
     else (case checked_sub new_seq 1 of
             None \<Rightarrow> None
           | Some end_seq \<Rightarrow>
               Some \<lparr>rp_new_seq = new_seq, rp_end_seq = end_seq, rp_reply_cursor = begin_seq,
                     rp_read_from = begin_seq, rp_store_done = \<not> has_store, rp_started = False\<rparr>))"

definition widen :: "resend_replay \<Rightarrow> resend_replay \<Rightarrow> resend_replay" where
  "widen other r =
    (let begin_seq = min (rp_reply_cursor r) (rp_reply_cursor other) in
     r\<lparr>rp_reply_cursor := begin_seq, rp_read_from := begin_seq,
       rp_new_seq := max (rp_new_seq r) (rp_new_seq other),
       rp_end_seq := max (rp_end_seq r) (rp_end_seq other)\<rparr>)"

definition poll_store :: "resend_replay \<Rightarrow> replay_step \<times> resend_replay" where
  "poll_store r =
    (let r1 = r\<lparr>rp_started := True\<rparr> in
     if \<not> rp_store_done r1
     then (if rp_end_seq r1 < rp_read_from r1 then (StoreExhausted, r1\<lparr>rp_store_done := True\<rparr>)
           else (ReadPage \<lparr>pr_from = rp_read_from r1, pr_through = rp_end_seq r1, pr_limit = REPLAY_PAGE_LIMIT\<rparr>, r1))
     else (Complete (if rp_reply_cursor r1 < rp_new_seq r1
                     then Some (GapFillRange (rp_reply_cursor r1) (rp_new_seq r1)) else None),
           r1\<lparr>rp_reply_cursor := rp_new_seq r1\<rparr>))"

definition on_page :: "page_read \<Rightarrow> resend_replay \<Rightarrow> resend_replay" where
  "on_page read r =
    (let r1 = r\<lparr>rp_started := True\<rparr> in
     case read of
       PageFailed \<Rightarrow> r1\<lparr>rp_store_done := True\<rparr>
     | PageData len None \<Rightarrow> r1\<lparr>rp_store_done := True\<rparr>
     | PageData len (Some furthest) \<Rightarrow>
         if len < REPLAY_PAGE_LIMIT then r1\<lparr>rp_store_done := True\<rparr>
         else (case checked_add furthest 1 of
                 Some next \<Rightarrow> if next \<le> rp_end_seq r1 then r1\<lparr>rp_read_from := next\<rparr>
                              else r1\<lparr>rp_store_done := True\<rparr>
               | None \<Rightarrow> r1\<lparr>rp_store_done := True\<rparr>))"

definition screen_entry :: "resend_replay \<Rightarrow> u64 \<Rightarrow> bool \<Rightarrow> entry_screen" where
  "screen_entry r seq is_admin =
    (if seq < rp_reply_cursor r \<or> rp_end_seq r < seq \<or> is_admin then SkipEntry else Candidate)"

definition decide_entry :: "u64 \<Rightarrow> replay_verdict \<Rightarrow> resend_replay \<Rightarrow> replay_action \<times> resend_replay" where
  "decide_entry seq verdict r =
    (let r1 = r\<lparr>rp_started := True\<rparr> in
     if verdict = VerdictGapFill \<or> screen_entry r1 seq False = SkipEntry then (ActionSkip, r1)
     else
       let gap_fill = (if rp_reply_cursor r1 < seq then Some (GapFillRange (rp_reply_cursor r1) seq) else None);
           r2 = r1\<lparr>rp_reply_cursor := (case checked_add seq 1 of Some next \<Rightarrow> next | None \<Rightarrow> rp_new_seq r1)\<rparr>
       in (case gap_fill of
             Some g \<Rightarrow> (ActionGapFillThenReplay g seq, r2)
           | None \<Rightarrow> (ActionReplay seq, r2)))"

definition replay_step_continues :: "usize \<Rightarrow> usize \<Rightarrow> bool" where
  "replay_step_continues frames_fed buffered_bytes \<longleftrightarrow>
     frames_fed < REPLAY_STEP_MAX_FRAMES \<and> buffered_bytes < REPLAY_STEP_MAX_BYTES"

definition reads_yield_to_replay :: "u32 \<Rightarrow> bool" where
  "reads_yield_to_replay reads_since_step \<longleftrightarrow> MAX_READS_PER_REPLAY_STEP \<le> reads_since_step"

definition replay_queue_full :: "usize \<Rightarrow> bool" where
  "replay_queue_full queued \<longleftrightarrow> MAX_QUEUED_REPLAYS \<le> queued"

definition hold_full :: "usize \<Rightarrow> usize \<Rightarrow> bool" where
  "hold_full held held_bytes \<longleftrightarrow> MAX_HELD_SENDS \<le> held \<or> MAX_HELD_BYTES \<le> held_bytes"

datatype replay_field = Framing | Reinserted | SendingTime | Copied

definition replay_field_of :: "u32 \<Rightarrow> replay_field" where
  "replay_field_of tag =
    (if tag = 8 \<or> tag = 9 then Framing
     else if tag = 43 \<or> tag = 122 then Reinserted
     else if tag = 52 then SendingTime else Copied)"

definition orig_sending_time :: "bytes option \<Rightarrow> bytes \<Rightarrow> bytes" where
  "orig_sending_time stored_122 stored_52 = (case stored_122 of Some t \<Rightarrow> t | None \<Rightarrow> stored_52)"

subsection \<open>The range a request asks for\<close>

lemma resend_range:
  assumes "decide_resend_request b e next_sender mode = ReplayRange begin_seq new_seq"
  shows "b = Some begin_seq \<and> 0 < begin_seq \<and> begin_seq < new_seq \<and> new_seq \<le> next_sender"
proof -
  have "checked_add n 1 = Some m \<Longrightarrow> c \<le> n \<Longrightarrow> c < m" for n m c :: u64
    by (auto simp: checked_simps word_less_nat_alt word_le_nat_alt unat_plus_one)
  with assms show ?thesis
    by (auto simp: decide_resend_request_def Let_def word_neq_0_conv
        split: option.splits if_splits)
qed

lemma replay_new_Some:
  "resend_replay_new b n st = Some r \<longleftrightarrow> 0 < b \<and> b < n \<and>
     r = \<lparr>rp_new_seq = n, rp_end_seq = n - 1, rp_reply_cursor = b, rp_read_from = b,
          rp_store_done = (\<not> st), rp_started = False\<rparr>"
proof -
  have "b < n \<Longrightarrow> checked_sub n 1 = Some (n - 1)" for b n :: u64
    by (auto simp: checked_sub_def word_less_nat_alt word_le_nat_alt)
  then show ?thesis
    by (cases "b < n") (auto simp: resend_replay_new_def word_neq_0_conv not_le not_less)
qed

lemma resend_range_new:
  "decide_resend_request b e next_sender mode = ReplayRange begin_seq new_seq \<Longrightarrow>
     \<exists>r. resend_replay_new begin_seq new_seq st = Some r"
  using resend_range[of b e next_sender mode begin_seq new_seq] by (simp add: replay_new_Some)

subsection \<open>The reply tiles the range\<close>

text \<open>
  What the replay puts on the wire, as half-open intervals of numbers with whether they are
  replayed (\<open>True\<close>) or gap-filled.
\<close>

type_synonym tile = "nat \<times> nat \<times> bool"

fun gap_tile :: "gap_fill_range option \<Rightarrow> tile list" where
  "gap_tile None = []"
| "gap_tile (Some (GapFillRange a n)) = [(unat a, unat n, False)]"

fun step_tiles :: "replay_step \<Rightarrow> tile list" where
  "step_tiles (Complete g) = gap_tile g"
| "step_tiles _ = []"

fun action_tiles :: "replay_action \<Rightarrow> tile list" where
  "action_tiles ActionSkip = []"
| "action_tiles (ActionReplay s) = [(unat s, unat s + 1, True)]"
| "action_tiles (ActionGapFillThenReplay g s) = gap_tile (Some g) @ [(unat s, unat s + 1, True)]"

fun tiles :: "nat \<Rightarrow> tile list \<Rightarrow> nat \<Rightarrow> bool" where
  "tiles a [] b \<longleftrightarrow> a = b"
| "tiles a ((lo, hi, _) # ts) b \<longleftrightarrow> lo = a \<and> lo < hi \<and> tiles hi ts b"

lemma tiles_append: "tiles a (xs @ ys) b \<longleftrightarrow> (\<exists>c. tiles a xs c \<and> tiles c ys b)"
  by (induction a xs b arbitrary: rule: tiles.induct) auto

text \<open>Whatever the driver feeds, in whatever order.\<close>

datatype replay_event = Poll | PageArrived page_read | Entry u64 replay_verdict

fun replay_apply :: "replay_event \<Rightarrow> resend_replay \<Rightarrow> tile list \<times> resend_replay" where
  "replay_apply Poll r = (let (s, r1) = poll_store r in (step_tiles s, r1))"
| "replay_apply (PageArrived p) r = ([], on_page p r)"
| "replay_apply (Entry n v) r = (let (a, r1) = decide_entry n v r in (action_tiles a, r1))"

fun replay_run :: "replay_event list \<Rightarrow> resend_replay \<Rightarrow> tile list \<times> resend_replay" where
  "replay_run [] r = ([], r)"
| "replay_run (e # es) r =
     (let (out, r1) = replay_apply e r; (rest, r2) = replay_run es r1 in (out @ rest, r2))"

definition replay_inv :: "resend_replay \<Rightarrow> bool" where
  "replay_inv r \<longleftrightarrow> rp_reply_cursor r \<le> rp_new_seq r
     \<and> unat (rp_end_seq r) + 1 = unat (rp_new_seq r)"

lemma replay_new_inv: "resend_replay_new b n st = Some r \<Longrightarrow>
    replay_inv r \<and> rp_reply_cursor r = b \<and> rp_read_from r = b \<and> rp_new_seq r = n \<and> rp_store_done r = (\<not> st)"
proof -
  assume a: "resend_replay_new b n st = Some r"
  then have lt: "b < n" by (simp add: replay_new_Some)
  then have "1 \<le> n" by (auto simp: word_less_nat_alt word_le_nat_alt)
  then have "unat (n - 1) + 1 = unat n" by (auto simp: unat_sub word_le_nat_alt)
  with a lt show ?thesis by (auto simp: replay_new_Some replay_inv_def)
qed

lemma poll_store_cases:
  obtains (read) "\<not> rp_store_done r" "rp_read_from r \<le> rp_end_seq r"
      "poll_store r = (ReadPage \<lparr>pr_from = rp_read_from r, pr_through = rp_end_seq r, pr_limit = REPLAY_PAGE_LIMIT\<rparr>,
         r\<lparr>rp_started := True\<rparr>)"
  | (exhausted) "\<not> rp_store_done r" "rp_end_seq r < rp_read_from r"
      "poll_store r = (StoreExhausted, r\<lparr>rp_started := True, rp_store_done := True\<rparr>)"
  | (complete) "rp_store_done r"
      "poll_store r = (Complete (if rp_reply_cursor r < rp_new_seq r
         then Some (GapFillRange (rp_reply_cursor r) (rp_new_seq r)) else None),
         r\<lparr>rp_started := True, rp_reply_cursor := rp_new_seq r\<rparr>)"
  by (cases "rp_store_done r"; cases "rp_end_seq r < rp_read_from r") (auto simp: poll_store_def Let_def)

lemma on_page_fields [simp]:
  "rp_reply_cursor (on_page p r) = rp_reply_cursor r" "rp_new_seq (on_page p r) = rp_new_seq r"
  "rp_end_seq (on_page p r) = rp_end_seq r"
  by (auto simp: on_page_def Let_def split: page_read.splits option.splits)

lemma decide_entry_cases:
  assumes "replay_inv r"
  obtains (skip) "decide_entry n v r = (ActionSkip, r\<lparr>rp_started := True\<rparr>)"
      "v = VerdictGapFill \<or> n < rp_reply_cursor r \<or> rp_end_seq r < n"
  | (replay) "decide_entry n v r =
        ((if rp_reply_cursor r < n then ActionGapFillThenReplay (GapFillRange (rp_reply_cursor r) n) n
          else ActionReplay n), r\<lparr>rp_started := True, rp_reply_cursor := n + 1\<rparr>)"
      "v = VerdictReplay" "rp_reply_cursor r \<le> n" "n \<le> rp_end_seq r" "unat (n + 1) = unat n + 1"
proof (cases "v = VerdictGapFill \<or> n < rp_reply_cursor r \<or> rp_end_seq r < n")
  case True
  then show ?thesis by (intro skip) (auto simp: decide_entry_def screen_entry_def Let_def)
next
  case False
  have "unat n + 1 \<le> unat (rp_new_seq r)"
    using False assms by (simp add: replay_inv_def word_le_nat_alt not_less)
  then have n: "unat n + 1 < 2 ^ 64" using unsigned_less[of "rp_new_seq r", where ?'a = nat] by simp
  then have c: "checked_add n 1 = Some (n + 1)" "unat (n + 1) = unat n + 1"
    by (simp_all add: checked_add_def unat_plus_one)
  have v: "v = VerdictReplay" using False by (cases v) auto
  show ?thesis
    using False c v by (intro replay) (auto simp: decide_entry_def screen_entry_def Let_def)
qed

lemma apply_tiles:
  assumes "replay_inv r" and "replay_apply e r = (out, r')"
  shows "replay_inv r' \<and> tiles (unat (rp_reply_cursor r)) out (unat (rp_reply_cursor r'))
    \<and> rp_new_seq r' = rp_new_seq r \<and> rp_end_seq r' = rp_end_seq r"
proof (cases e)
  case Poll
  show ?thesis
    by (cases rule: poll_store_cases[of r]) (use assms Poll in
      \<open>auto simp: replay_inv_def word_less_nat_alt word_le_nat_alt\<close>)
next
  case (PageArrived p)
  then show ?thesis using assms by (auto simp: replay_inv_def)
next
  case (Entry n v)
  show ?thesis
    by (cases rule: decide_entry_cases[OF assms(1), of n v]) (use assms Entry in
      \<open>auto simp: replay_inv_def word_less_nat_alt word_le_nat_alt split: if_splits\<close>)
qed

lemma run_tiles:
  "replay_inv r \<Longrightarrow> replay_run es r = (out, r') \<Longrightarrow>
    replay_inv r' \<and> tiles (unat (rp_reply_cursor r)) out (unat (rp_reply_cursor r'))
    \<and> rp_new_seq r' = rp_new_seq r \<and> rp_end_seq r' = rp_end_seq r"
proof (induction es arbitrary: r r' out)
  case (Cons e es)
  obtain o1 r1 where 1: "replay_apply e r = (o1, r1)" by fastforce
  obtain o2 r2 where 2: "replay_run es r1 = (o2, r2)" by fastforce
  have "out = o1 @ o2" "r' = r2" using Cons.prems(2) 1 2 by auto
  with apply_tiles[OF Cons.prems(1) 1] Cons.IH[OF _ 2] show ?case by (auto simp: tiles_append)
qed simp

subsection \<open>The reply over a store\<close>

text \<open>
  The driver's loop over a store held as entries in ascending order: read the page asked for,
  feed its entries, report the page, poll again.  The store is the driver's; each entry is its
  number, whether it is administrative, and the verdict on it.
\<close>

type_synonym stored_entry = "u64 \<times> bool \<times> replay_verdict"

definition read_page :: "stored_entry list \<Rightarrow> page_request \<Rightarrow> stored_entry list" where
  "read_page store q =
     take (pr_limit q) (filter (\<lambda>(n, _). pr_from q \<le> n \<and> n \<le> pr_through q) store)"

definition page_report :: "stored_entry list \<Rightarrow> page_read" where
  "page_report es = PageData (length es) (if es = [] then None else Some (fst (last es)))"

fun feed_entries :: "stored_entry list \<Rightarrow> resend_replay \<Rightarrow> tile list \<times> resend_replay" where
  "feed_entries [] r = ([], r)"
| "feed_entries ((n, admin, v) # es) r =
     (case screen_entry r n admin of
        SkipEntry \<Rightarrow> feed_entries es r
      | Candidate \<Rightarrow>
          let (a, r1) = decide_entry n v r; (rest, r2) = feed_entries es r1
          in (action_tiles a @ rest, r2))"

fun answer :: "nat \<Rightarrow> stored_entry list \<Rightarrow> resend_replay \<Rightarrow> tile list option" where
  "answer 0 store r = None"
| "answer (Suc fuel) store r =
     (case poll_store r of
        (ReadPage q, r1) \<Rightarrow>
          let es = read_page store q; (out, r2) = feed_entries es r1
          in map_option ((@) out) (answer fuel store (on_page (page_report es) r2))
      | (StoreExhausted, r1) \<Rightarrow> answer fuel store r1
      | (Complete g, r1) \<Rightarrow> Some (gap_tile g))"

text \<open>The specification: replay the eligible entries in order and fill everything between.\<close>

definition eligible_entry :: "stored_entry \<Rightarrow> bool" where
  "eligible_entry e \<longleftrightarrow> (case e of (_, admin, v) \<Rightarrow> \<not> admin \<and> v = VerdictReplay)"

fun tiling :: "nat \<Rightarrow> nat list \<Rightarrow> nat \<Rightarrow> tile list" where
  "tiling c [] n = (if c < n then [(c, n, False)] else [])"
| "tiling c (s # ss) n = (if c < s then [(c, s, False)] else []) @ (s, s + 1, True) # tiling (s + 1) ss n"

definition to_replay :: "u64 \<Rightarrow> u64 \<Rightarrow> stored_entry list \<Rightarrow> nat list" where
  "to_replay lo hi es =
     map (unat \<circ> fst) (filter (\<lambda>e. eligible_entry e \<and> lo \<le> fst e \<and> fst e \<le> hi) es)"

lemma feed_tiling:
  assumes "replay_inv r" and "feed_entries es r = (out, r')"
    and "sorted_wrt (<) (map fst es)" and "list_all (\<lambda>e. rp_reply_cursor r \<le> fst e \<and> fst e \<le> rp_end_seq r) es"
  shows "replay_inv r' \<and> rp_new_seq r' = rp_new_seq r \<and> rp_end_seq r' = rp_end_seq r
     \<and> rp_read_from r' = rp_read_from r \<and> rp_store_done r' = rp_store_done r
     \<and> (es \<noteq> [] \<longrightarrow> unat (rp_reply_cursor r') \<le> unat (fst (last es)) + 1) \<and> (es = [] \<longrightarrow> r' = r)
     \<and> (\<forall>ss n. tiling (unat (rp_reply_cursor r)) (map (unat \<circ> fst) (filter eligible_entry es) @ ss) n
          = out @ tiling (unat (rp_reply_cursor r')) ss n)"
  using assms
proof (induction es arbitrary: r out)
  case Nil
  then show ?case by simp
next
  case (Cons e es)
  obtain n admin v where e: "e = (n, admin, v)" by (cases e)
  have n: "rp_reply_cursor r \<le> n" "n \<le> rp_end_seq r" using Cons.prems(4) e by simp_all
  have n': "\<not> n < rp_reply_cursor r" "\<not> rp_end_seq r < n" using n by (simp_all add: leD)
  have rest: "sorted_wrt (<) (map fst es)" "list_all (\<lambda>x. n < fst x \<and> fst x \<le> rp_end_seq r) es"
    using Cons.prems(3,4) e by (auto simp: list_all_iff)
  then have lst: "es \<noteq> [] \<Longrightarrow> n < fst (last es)" by (simp add: list_all_iff)
  show ?case
  proof (cases "eligible_entry e")
    case False
    obtain r1 where r1: "feed_entries (e # es) r = feed_entries es r1"
      "r1 = r \<or> r1 = r\<lparr>rp_started := True\<rparr>"
    proof (cases "admin")
      case True
      then show ?thesis using that[of r] e by (simp add: screen_entry_def)
    next
      case na: False
      then have "v = VerdictGapFill" using False e by (cases v) (auto simp: eligible_entry_def)
      then have "decide_entry n v r = (ActionSkip, r\<lparr>rp_started := True\<rparr>)"
        by (simp add: decide_entry_def Let_def)
      then show ?thesis using that[of "r\<lparr>rp_started := True\<rparr>"] e na n
        by (simp add: screen_entry_def leD split: prod.splits)
    qed
    have same: "replay_inv r1" "rp_reply_cursor r1 = rp_reply_cursor r" "rp_end_seq r1 = rp_end_seq r"
      "rp_new_seq r1 = rp_new_seq r" "rp_read_from r1 = rp_read_from r" "rp_store_done r1 = rp_store_done r"
      using r1(2) Cons.prems(1) by (auto simp: replay_inv_def)
    have "list_all (\<lambda>x. rp_reply_cursor r1 \<le> fst x \<and> fst x \<le> rp_end_seq r1) es"
      using rest(2) n same by (auto simp: list_all_iff)
    note step = Cons.IH[OF same(1) _ rest(1) this, of out]
    have ih: "replay_inv r' \<and> rp_new_seq r' = rp_new_seq r1 \<and> rp_end_seq r' = rp_end_seq r1
     \<and> rp_read_from r' = rp_read_from r1 \<and> rp_store_done r' = rp_store_done r1
     \<and> (es \<noteq> [] \<longrightarrow> unat (rp_reply_cursor r') \<le> unat (fst (last es)) + 1) \<and> (es = [] \<longrightarrow> r' = r1)
     \<and> (\<forall>ss n. tiling (unat (rp_reply_cursor r1)) (map (unat \<circ> fst) (filter eligible_entry es) @ ss) n
          = out @ tiling (unat (rp_reply_cursor r')) ss n)"
      using Cons.prems(2) unfolding r1(1) by (rule step)
    have "unat (rp_reply_cursor r') \<le> unat (fst (last (e # es))) + 1"
      using ih same n(1) e by (cases "es = []") (auto simp: word_le_nat_alt)
    then show ?thesis using ih same False by (simp add: comp_def)
  next
    case True
    then have a: "\<not> admin" "v = VerdictReplay" using e by (auto simp: eligible_entry_def)
    from Cons.prems(1) show ?thesis
    proof (cases rule: decide_entry_cases[of r n v])
      case skip
      then show ?thesis using a n by auto
    next
      case replay
      let ?r1 = "r\<lparr>rp_started := True, rp_reply_cursor := n + 1\<rparr>"
      obtain o2 where o2: "feed_entries es ?r1 = (o2, r')"
          "out = action_tiles (fst (decide_entry n v r)) @ o2"
        using Cons.prems(2) e a n' replay(1) by (auto simp: screen_entry_def split: prod.splits)
      have inv1: "replay_inv ?r1"
        using Cons.prems(1) n(2) replay(5) by (simp add: replay_inv_def word_le_nat_alt)
      have "list_all (\<lambda>x. rp_reply_cursor ?r1 \<le> fst x \<and> fst x \<le> rp_end_seq ?r1) es"
        using rest(2) replay(5) by (auto simp: list_all_iff word_le_nat_alt word_less_nat_alt)
      note ih = Cons.IH[OF inv1 o2(1) rest(1) this]
      have "unat (rp_reply_cursor r') \<le> unat (fst (last (e # es))) + 1"
        using ih replay(5) e by (cases "es = []") auto
      moreover have "tiling (unat (rp_reply_cursor r)) (map (unat \<circ> fst) (filter eligible_entry (e # es)) @ ss) m
          = out @ tiling (unat (rp_reply_cursor r')) ss m" for ss m
        using ih o2(2) replay e True by (auto simp: word_less_nat_alt comp_def)
      moreover have "replay_inv r' \<and> rp_new_seq r' = rp_new_seq r \<and> rp_end_seq r' = rp_end_seq r
          \<and> rp_read_from r' = rp_read_from r \<and> rp_store_done r' = rp_store_done r" using ih by simp
      ultimately show ?thesis by blast
    qed
  qed
qed

text \<open>The entries from a number on, as the pages see them.\<close>

definition entries_from :: "u64 \<Rightarrow> u64 \<Rightarrow> stored_entry list \<Rightarrow> stored_entry list" where
  "entries_from lo hi store = filter (\<lambda>(n, _). lo \<le> n \<and> n \<le> hi) store"

lemma to_replay_entries: "to_replay lo hi store = map (unat \<circ> fst) (filter eligible_entry (entries_from lo hi store))"
  by (simp add: to_replay_def entries_from_def conj_commute case_prod_unfold)

lemma entries_sorted: "sorted_wrt (<) (map fst store) \<Longrightarrow> sorted_wrt (<) (map fst (entries_from lo hi store))"
  by (simp add: entries_from_def sorted_wrt_map sorted_wrt_filter)

lemma sorted_filter_from:
  assumes "sorted_wrt (<) (map fst (xs @ ys))" and "xs \<noteq> []"
  shows "filter (\<lambda>(n, _). (fst (last xs) :: u64) < n) (xs @ ys) = ys"
proof -
  have "\<forall>x\<in>set xs. fst x \<le> fst (last xs)"
    using assms by (induction xs) (auto simp: less_imp_le)
  then have "filter (\<lambda>(n, _). fst (last xs) < n) xs = []" by (auto simp: filter_empty_conv not_less)
  moreover have "\<forall>y\<in>set ys. fst (last xs) < fst y"
    using assms by (auto simp: sorted_wrt_append)
  then have "filter (\<lambda>(n, _). fst (last xs) < n) ys = ys" by (auto simp: filter_id_conv)
  ultimately show ?thesis by simp
qed

lemma entries_from_narrow:
  assumes "lo \<le> l" and "unat (l + 1) = unat l + 1"
  shows "entries_from (l + 1) hi store = filter (\<lambda>(n, _). l < n) (entries_from lo hi store)"
proof -
  have "(l + 1 \<le> n) = (l < n)" for n :: u64
    using assms(2) by (auto simp: word_le_nat_alt word_less_nat_alt)
  then have "(l + 1 \<le> n \<and> n \<le> hi) = (l < n \<and> lo \<le> n \<and> n \<le> hi)" for n
    using assms(1) by (auto intro: order.trans)
  then show ?thesis
    unfolding entries_from_def case_prod_unfold filter_filter by (intro filter_cong) auto
qed

lemma next_page:
  assumes "sorted_wrt (<) (map fst store)" and "k \<le> length (entries_from lo hi store)" and "0 < k"
    and "unat (fst (last (take k (entries_from lo hi store))) + 1) = unat (fst (last (take k (entries_from lo hi store)))) + 1"
  shows "entries_from (fst (last (take k (entries_from lo hi store))) + 1) hi store
    = drop k (entries_from lo hi store)"
proof -
  let ?es = "entries_from lo hi store"
  let ?l = "fst (last (take k ?es))"
  have ne: "take k ?es \<noteq> []" using assms(2,3) by auto
  have "last (take k ?es) \<in> set ?es" using ne by (meson in_set_takeD last_in_set)
  then have lo: "lo \<le> ?l" by (auto simp: entries_from_def)
  have "entries_from (?l + 1) hi store = filter (\<lambda>(n, _). ?l < n) ?es"
    by (rule entries_from_narrow[OF lo assms(4)])
  also have "\<dots> = drop k ?es"
    using sorted_filter_from[OF _ ne, of "drop k ?es"] entries_sorted[OF assms(1), of lo hi] by simp
  finally show ?thesis .
qed

lemma answer_tiling:
  assumes "replay_inv r" and "sorted_wrt (<) (map fst store)"
    and "rp_reply_cursor r \<le> rp_read_from r"
    and "if rp_store_done r then fuel \<ge> 1
         else fuel \<ge> length (entries_from (rp_read_from r) (rp_end_seq r) store) div REPLAY_PAGE_LIMIT + 2"
  shows "answer fuel store r = Some (tiling (unat (rp_reply_cursor r))
     (if rp_store_done r then [] else to_replay (rp_read_from r) (rp_end_seq r) store) (unat (rp_new_seq r)))"
  using assms
proof (induction fuel arbitrary: r)
  case 0
  then show ?case by (simp split: if_splits)
next
  case (Suc fuel)
  show ?case
  proof (cases rule: poll_store_cases[of r])
    case complete
    then show ?thesis using Suc.prems by (auto simp: word_less_nat_alt)
  next
    case exhausted
    let ?r = "r\<lparr>rp_started := True, rp_store_done := True\<rparr>"
    have none: "to_replay (rp_read_from r) (rp_end_seq r) store = []"
      using exhausted(2) by (auto simp: to_replay_def filter_empty_conv)
    have "answer fuel store ?r = Some (tiling (unat (rp_reply_cursor ?r)) [] (unat (rp_new_seq ?r)))"
      using Suc.IH[of ?r] Suc.prems exhausted(1) by (simp add: replay_inv_def)
    then show ?thesis using exhausted none by simp
  next
    case read
    let ?all = "entries_from (rp_read_from r) (rp_end_seq r) store"
    let ?es = "take REPLAY_PAGE_LIMIT ?all"
    let ?r1 = "r\<lparr>rp_started := True\<rparr>"
    have inv1: "replay_inv ?r1" using Suc.prems(1) by (simp add: replay_inv_def)
    have page: "read_page store \<lparr>pr_from = rp_read_from r, pr_through = rp_end_seq r, pr_limit = REPLAY_PAGE_LIMIT\<rparr> = ?es"
      by (simp add: read_page_def entries_from_def)
    obtain out r2 where f: "feed_entries ?es ?r1 = (out, r2)" by fastforce
    have srt: "sorted_wrt (<) (map fst ?es)"
      using entries_sorted[OF Suc.prems(2)] by (simp add: take_map[symmetric] sorted_wrt_take)
    have bounds: "list_all (\<lambda>e. rp_reply_cursor ?r1 \<le> fst e \<and> fst e \<le> rp_end_seq ?r1) ?es"
      using Suc.prems(3) by (auto simp: list_all_iff entries_from_def dest!: in_set_takeD intro: order.trans)
    note ft = feed_tiling[OF inv1 f srt bounds]
    have f2: "replay_inv r2" "rp_new_seq r2 = rp_new_seq r" "rp_end_seq r2 = rp_end_seq r"
      "rp_read_from r2 = rp_read_from r" "rp_store_done r2 = rp_store_done r"
      using ft by simp_all
    have cur: "?es \<noteq> [] \<Longrightarrow> unat (rp_reply_cursor r2) \<le> unat (fst (last ?es)) + 1" using ft by blast
    have step: "answer (Suc fuel) store r = map_option ((@) out) (answer fuel store (on_page (page_report ?es) r2))"
      using read page f by (simp add: Let_def)
    let ?r3 = "on_page (page_report ?es) r2"
    have keep: "rp_new_seq ?r3 = rp_new_seq r" "rp_end_seq ?r3 = rp_end_seq r"
      "rp_reply_cursor ?r3 = rp_reply_cursor r2" using f2 by simp_all
    have inv3: "replay_inv ?r3" using f2(1) by (simp add: replay_inv_def)
    have tl: "tiling (unat (rp_reply_cursor r)) (map (unat \<circ> fst) (filter eligible_entry ?es) @ ss) n
        = out @ tiling (unat (rp_reply_cursor r2)) ss n" for ss n using ft by simp
    have all: "map (unat \<circ> fst) (filter eligible_entry ?es) @ map (unat \<circ> fst) (filter eligible_entry (drop REPLAY_PAGE_LIMIT ?all))
        = to_replay (rp_read_from r) (rp_end_seq r) store"
      unfolding to_replay_entries by (metis append_take_drop_id filter_append map_append)
    show ?thesis
    proof (cases "rp_store_done ?r3")
      case True
      have "drop REPLAY_PAGE_LIMIT ?all = []"
      proof (rule ccontr)
        assume ne: "drop REPLAY_PAGE_LIMIT ?all \<noteq> []"
        then have full: "length ?es = REPLAY_PAGE_LIMIT" by simp
        then have es: "?es \<noteq> []" by (auto simp: REPLAY_PAGE_LIMIT_def)
        obtain y ys where y: "drop REPLAY_PAGE_LIMIT ?all = y # ys" using ne by (cases "drop REPLAY_PAGE_LIMIT ?all") auto
        have "sorted_wrt (<) (map fst (?es @ y # ys))" using entries_sorted[OF Suc.prems(2)] y
          by (metis append_take_drop_id)
        then have lt: "fst (last ?es) < fst y" using es by (auto simp: sorted_wrt_append)
        have "y \<in> set ?all" using y by (metis in_set_dropD list.set_intros(1))
        then have "fst y \<le> rp_end_seq r" by (auto simp: entries_from_def)
        then have "unat (fst (last ?es)) + 1 \<le> unat (rp_end_seq r)"
          using lt by (simp add: word_less_nat_alt word_le_nat_alt)
        moreover from this have "unat (fst (last ?es)) + 1 < 2 ^ 64"
          using unsigned_less[of "rp_end_seq r", where ?'a = nat] by simp
        ultimately have "\<not> rp_store_done ?r3"
          using full es f2 read(1)
          by (auto simp: on_page_def page_report_def Let_def checked_add_def unat_plus_one word_le_nat_alt
              REPLAY_PAGE_LIMIT_def)
        with True show False by simp
      qed
      then have last_page: "map (unat \<circ> fst) (filter eligible_entry ?es) = to_replay (rp_read_from r) (rp_end_seq r) store"
        using all by simp
      have "answer fuel store ?r3 = Some (tiling (unat (rp_reply_cursor r2)) [] (unat (rp_new_seq r)))"
      proof -
        obtain f' where "fuel = Suc f'" using Suc.prems(4) read(1) by (cases fuel) auto
        then show ?thesis
          using True keep by (cases rule: poll_store_cases[of ?r3]) (auto simp: word_less_nat_alt)
      qed
      moreover have "tiling (unat (rp_reply_cursor r)) (to_replay (rp_read_from r) (rp_end_seq r) store) (unat (rp_new_seq r))
          = out @ tiling (unat (rp_reply_cursor r2)) [] (unat (rp_new_seq r))"
        unfolding last_page[symmetric] using tl[of "[]"] by simp
      ultimately show ?thesis using step read(1) by simp
    next
      case False
      then have pg: "length ?es = REPLAY_PAGE_LIMIT" "?es \<noteq> []" "rp_read_from ?r3 = fst (last ?es) + 1"
          "fst (last ?es) + 1 \<le> rp_end_seq r" "unat (fst (last ?es) + 1) = unat (fst (last ?es)) + 1"
        using f2 by (auto simp: on_page_def page_report_def Let_def checked_add_def unat_plus_one
            split: if_splits option.splits)
      have next_entries: "entries_from (rp_read_from ?r3) (rp_end_seq ?r3) store = drop REPLAY_PAGE_LIMIT ?all"
        unfolding pg(3) keep(2) using pg(1,5)
        by (intro next_page[OF Suc.prems(2)]) (auto simp: REPLAY_PAGE_LIMIT_def)
      have "length ?all div REPLAY_PAGE_LIMIT = Suc (length (drop REPLAY_PAGE_LIMIT ?all) div REPLAY_PAGE_LIMIT)"
        using pg(1) by (simp add: REPLAY_PAGE_LIMIT_def le_div_geq)
      then have fuel: "length (entries_from (rp_read_from ?r3) (rp_end_seq ?r3) store) div REPLAY_PAGE_LIMIT + 2 \<le> fuel"
        using Suc.prems(4) read(1) next_entries by simp
      have "rp_reply_cursor ?r3 \<le> rp_read_from ?r3"
        using cur[OF pg(2)] pg(3,5) by (simp add: word_le_nat_alt)
      then have "answer fuel store ?r3 = Some (tiling (unat (rp_reply_cursor r2))
          (to_replay (rp_read_from ?r3) (rp_end_seq r) store) (unat (rp_new_seq r)))"
        using Suc.IH[OF inv3 Suc.prems(2)] fuel False keep by simp
      moreover have "to_replay (rp_read_from ?r3) (rp_end_seq r) store
          = map (unat \<circ> fst) (filter eligible_entry (drop REPLAY_PAGE_LIMIT ?all))"
        using next_entries keep by (simp add: to_replay_entries)
      moreover have "tiling (unat (rp_reply_cursor r)) (to_replay (rp_read_from r) (rp_end_seq r) store) (unat (rp_new_seq r))
          = out @ tiling (unat (rp_reply_cursor r2))
              (map (unat \<circ> fst) (filter eligible_entry (drop REPLAY_PAGE_LIMIT ?all))) (unat (rp_new_seq r))"
        unfolding all[symmetric] by (rule tl)
      ultimately show ?thesis using step read(1) by simp
    qed
  qed
qed

end
