(* ===== verification/Session_Throttle.thy ===== *)
theory Session_Throttle
  imports Std_Model
begin

text \<open>
  The outbound throttle (\<^verbatim>\<open>ironfix-session/src/throttle.rs\<close>): token buckets, the
  messages held for them, and the order they are released in.  Counts that the code keeps in
  a \<^verbatim>\<open>u32\<close> or \<^verbatim>\<open>u64\<close> with checked arithmetic are naturals with the bound written out.
\<close>

definition u32_max :: nat where "u32_max = 2 ^ 32 - 1"
definition u64_max :: nat where "u64_max = 2 ^ 64 - 1"

definition DEFAULT_BUDGET :: u8 where "DEFAULT_BUDGET = 0"

record token_bucket_spec =
  ts_spacing :: duration
  ts_burst :: nat
  ts_max_depth :: "usize option"

datatype throttle_release = ReleaseIdle | ReleaseNow | ReleaseAt instant

datatype 'a throttle_admission = AdmitNow 'a | Held | Refused 'a

record 'a bucket =
  bk_spacing :: duration
  bk_burst :: nat
  bk_tokens :: nat
  bk_reserved :: nat
  bk_refilled_at :: instant
  bk_max_depth :: "usize option"
  bk_queue :: "(nat \<times> 'a) list"

definition bucket_new :: "token_bucket_spec \<Rightarrow> instant \<Rightarrow> 'a bucket" where
  "bucket_new spec now =
    \<lparr>bk_spacing = max (ts_spacing spec) 1, bk_burst = max (ts_burst spec) 1,
     bk_tokens = max (ts_burst spec) 1, bk_reserved = 0, bk_refilled_at = now,
     bk_max_depth = ts_max_depth spec, bk_queue = []\<rparr>"

definition refill :: "instant \<Rightarrow> 'a bucket \<Rightarrow> 'a bucket" where
  "refill now b =
    (if bk_burst b \<le> bk_tokens b
     then (if bk_refilled_at b < now then b\<lparr>bk_refilled_at := now\<rparr> else b)
     else (case duration_since now (bk_refilled_at b) of
             None \<Rightarrow> b
           | Some elapsed \<Rightarrow>
               let earned = elapsed div max (bk_spacing b) 1 in
               if earned = 0 then b
               else (case usize_sub (bk_burst b) (bk_tokens b) of
                       None \<Rightarrow> b
                     | Some room \<Rightarrow>
                         if earned \<le> u32_max \<and> earned < room
                         then b\<lparr>bk_tokens := (if bk_tokens b + earned \<le> u32_max then bk_tokens b + earned else bk_burst b),
                                bk_refilled_at :=
                                  (case Option.bind (duration_mul (bk_spacing b) earned)
                                          (instant_add (bk_refilled_at b)) of
                                     Some r \<Rightarrow> r | None \<Rightarrow> now)\<rparr>
                         else b\<lparr>bk_tokens := bk_burst b, bk_refilled_at := now\<rparr>)))"

definition available :: "'a bucket \<Rightarrow> nat" where
  "available b = (case usize_sub (bk_tokens b) (bk_reserved b) of Some free \<Rightarrow> free | None \<Rightarrow> 0)"

definition reserve :: "instant \<Rightarrow> 'a bucket \<Rightarrow> bool \<times> 'a bucket" where
  "reserve now b =
    (let b1 = refill now b in
     if available b1 = 0 then (False, b1)
     else if bk_reserved b1 + 1 \<le> u32_max then (True, b1\<lparr>bk_reserved := bk_reserved b1 + 1\<rparr>)
     else (False, b1))"

definition ready_at :: "instant \<Rightarrow> 'a bucket \<Rightarrow> instant option \<times> 'a bucket" where
  "ready_at now b =
    (if bk_queue b = [] then (None, b)
     else let b1 = refill now b in
       if 0 < available b1 then (Some now, b1)
       else (instant_add (bk_refilled_at b1) (bk_spacing b1), b1))"

record 'a throttle =
  th_buckets :: "'a bucket list"
  th_next_ticket :: nat
  th_held :: usize

definition throttle_new :: "token_bucket_spec list \<Rightarrow> instant \<Rightarrow> 'a throttle" where
  "throttle_new specs now =
    \<lparr>th_buckets = map (\<lambda>spec. bucket_new spec now) specs, th_next_ticket = 0, th_held = 0\<rparr>"

text \<open>The slot of a budget, falling back to the default one; \<open>None\<close> with no bucket at all.\<close>

definition bucket_slot :: "'a throttle \<Rightarrow> u8 \<Rightarrow> usize option" where
  "bucket_slot th budget =
    (let slot = if unat budget < length (th_buckets th) then unat budget else unat DEFAULT_BUDGET
     in if slot < length (th_buckets th) then Some slot else None)"

definition set_bucket :: "usize \<Rightarrow> 'a bucket \<Rightarrow> 'a throttle \<Rightarrow> 'a throttle" where
  "set_bucket slot b th = th\<lparr>th_buckets := (th_buckets th)[slot := b]\<rparr>"

definition admit :: "u8 \<Rightarrow> 'a \<Rightarrow> instant \<Rightarrow> 'a throttle \<Rightarrow> 'a throttle_admission \<times> 'a throttle" where
  "admit budget item now th =
    (let ticket = th_next_ticket th in
     case bucket_slot th budget of
       None \<Rightarrow> (AdmitNow item, th)
     | Some slot \<Rightarrow>
         let b = th_buckets th ! slot;
             (ok, b1) = (if bk_queue b = [] then reserve now b else (False, b))
         in if ok then (AdmitNow item, set_bucket slot b1 th)
            else (case bk_max_depth b1 of
                    Some max_depth \<Rightarrow>
                      if length (bk_queue b1) < max_depth
                      then (Held, (set_bucket slot (b1\<lparr>bk_queue := bk_queue b1 @ [(ticket, item)]\<rparr>) th)
                              \<lparr>th_next_ticket := (if ticket + 1 \<le> u64_max then ticket + 1 else ticket),
                               th_held := (case usize_add (th_held th) 1 of Some h \<Rightarrow> h | None \<Rightarrow> th_held th)\<rparr>)
                      else (Refused item, set_bucket slot b1 th)
                  | None \<Rightarrow> (Refused item, set_bucket slot b1 th)))"

text \<open>
  The scan of \<^verbatim>\<open>release\<close>: every bucket with something held is refilled, and the head
  with the smallest ticket among those with a free token is remembered with its slot.
\<close>

definition scan_bucket :: "instant \<Rightarrow> 'a bucket \<Rightarrow> 'a bucket" where
  "scan_bucket now b = (if bk_queue b = [] then b else refill now b)"

fun pick_head :: "usize \<Rightarrow> 'a bucket list \<Rightarrow> (usize \<times> nat) option \<Rightarrow> (usize \<times> nat) option" where
  "pick_head slot [] best = best"
| "pick_head slot (b # bs) best =
     pick_head (Suc slot) bs
       (case bk_queue b of
          [] \<Rightarrow> best
        | (ticket, _) # _ \<Rightarrow>
            if available b = 0 then best
            else (case best of
                    None \<Rightarrow> Some (slot, ticket)
                  | Some (_, earliest) \<Rightarrow> if ticket < earliest then Some (slot, ticket) else best))"

definition budget_of_slot :: "usize \<Rightarrow> u8" where
  "budget_of_slot slot = (if slot < 256 then word_of_nat slot else DEFAULT_BUDGET)"

definition release :: "instant \<Rightarrow> 'a throttle \<Rightarrow> (u8 \<times> 'a) option \<times> 'a throttle" where
  "release now th =
    (let th1 = th\<lparr>th_buckets := map (scan_bucket now) (th_buckets th)\<rparr> in
     case pick_head 0 (th_buckets th1) None of
       None \<Rightarrow> (None, th1)
     | Some (slot, _) \<Rightarrow>
         let (ok, b) = reserve now (th_buckets th1 ! slot) in
         if \<not> ok then (None, set_bucket slot b th1)
         else (case bk_queue b of
                 [] \<Rightarrow> (None, set_bucket slot b th1)
               | (_, item) # q \<Rightarrow>
                   let held = (case usize_sub (th_held th1) 1 of Some h \<Rightarrow> h | None \<Rightarrow> th_held th1)
                   in (Some (budget_of_slot slot, item),
                       (set_bucket slot (b\<lparr>bk_queue := q\<rparr>) th1)
                         \<lparr>th_held := held,
                          th_next_ticket := (if held = 0 then 0 else th_next_ticket th1)\<rparr>)))"

definition min_option :: "instant option \<Rightarrow> instant option \<Rightarrow> instant option" where
  "min_option a b = (case (a, b) of (Some x, Some y) \<Rightarrow> Some (min x y) | (None, y) \<Rightarrow> y | (x, None) \<Rightarrow> x)"

definition next_release :: "instant \<Rightarrow> 'a throttle \<Rightarrow> instant option \<times> 'a throttle" where
  "next_release now th =
    (if th_held th = 0 then (None, th)
     else let rs = map (ready_at now) (th_buckets th)
          in (foldr (\<lambda>(at, _). min_option at) rs None, th\<lparr>th_buckets := map snd rs\<rparr>))"

definition charge_bucket :: "instant \<Rightarrow> 'a bucket \<Rightarrow> 'a bucket" where
  "charge_bucket now b =
    (case usize_sub (bk_reserved b) 1 of
       None \<Rightarrow> b
     | Some reserved \<Rightarrow>
         let b1 = (refill now b)\<lparr>bk_reserved := reserved\<rparr>
         in (case usize_sub (bk_tokens b1) 1 of
               Some left \<Rightarrow> b1\<lparr>bk_tokens := left\<rparr> | None \<Rightarrow> b1))"

definition refund_bucket :: "'a bucket \<Rightarrow> 'a bucket" where
  "refund_bucket b =
    (case usize_sub (bk_reserved b) 1 of None \<Rightarrow> b | Some reserved \<Rightarrow> b\<lparr>bk_reserved := reserved\<rparr>)"

definition on_bucket :: "u8 \<Rightarrow> ('a bucket \<Rightarrow> 'a bucket) \<Rightarrow> 'a throttle \<Rightarrow> 'a throttle" where
  "on_bucket budget f th =
    (case bucket_slot th budget of
       None \<Rightarrow> th | Some slot \<Rightarrow> set_bucket slot (f (th_buckets th ! slot)) th)"

definition charge_at :: "u8 \<Rightarrow> instant \<Rightarrow> 'a throttle \<Rightarrow> 'a throttle" where
  "charge_at budget now = on_bucket budget (charge_bucket now)"

definition refund :: "u8 \<Rightarrow> 'a throttle \<Rightarrow> 'a throttle" where
  "refund budget = on_bucket budget refund_bucket"

text \<open>The held messages a consumed drain yields, and the throttle it leaves.\<close>

fun drained :: "usize \<Rightarrow> 'a bucket list \<Rightarrow> (u8 \<times> 'a) list" where
  "drained slot [] = []"
| "drained slot (b # bs) = map (\<lambda>(_, item). (budget_of_slot slot, item)) (bk_queue b) @ drained (Suc slot) bs"

definition drain :: "'a throttle \<Rightarrow> (u8 \<times> 'a) list \<times> 'a throttle" where
  "drain th = (drained 0 (th_buckets th),
     th\<lparr>th_held := 0, th_next_ticket := 0,
        th_buckets := map (\<lambda>b. b\<lparr>bk_queue := []\<rparr>) (th_buckets th)\<rparr>)"

subsection \<open>The bucket invariant\<close>

definition bucket_inv :: "'a bucket \<Rightarrow> bool" where
  "bucket_inv b \<longleftrightarrow> 1 \<le> bk_spacing b \<and> bk_reserved b \<le> bk_tokens b \<and> bk_tokens b \<le> bk_burst b
     \<and> bk_burst b \<le> u32_max \<and> 1 \<le> bk_burst b"

lemma bucket_new_inv: "ts_burst spec \<le> u32_max \<Longrightarrow> bucket_inv (bucket_new spec now)"
  by (auto simp: bucket_inv_def bucket_new_def u32_max_def)

lemma refill_fields [simp]:
  "bk_spacing (refill now b) = bk_spacing b" "bk_burst (refill now b) = bk_burst b"
  "bk_reserved (refill now b) = bk_reserved b" "bk_max_depth (refill now b) = bk_max_depth b"
  "bk_queue (refill now b) = bk_queue b"
  by (simp_all add: refill_def Let_def split: option.splits)

text \<open>What a refill at \<open>now\<close> comes to, by the three cases of the code.\<close>

lemma refill_cases:
  assumes "bucket_inv b" and "bk_refilled_at b \<le> now"
  defines "earned \<equiv> (now - bk_refilled_at b) div bk_spacing b"
  obtains (full) "bk_tokens b = bk_burst b" "refill now b = b\<lparr>bk_refilled_at := now\<rparr>"
  | (none) "bk_tokens b < bk_burst b" "earned = 0" "refill now b = b"
  | (some) r where "0 < earned" "bk_tokens b + earned < bk_burst b"
      "refill now b = b\<lparr>bk_tokens := bk_tokens b + earned, bk_refilled_at := r\<rparr>"
      "r = bk_refilled_at b + bk_spacing b * earned \<or> r = now"
  | (fill) "bk_tokens b < bk_burst b" "bk_burst b \<le> bk_tokens b + earned"
      "refill now b = b\<lparr>bk_tokens := bk_burst b, bk_refilled_at := now\<rparr>"
proof (cases "bk_burst b \<le> bk_tokens b")
  case True
  then show ?thesis using assms(1,2) full
    by (cases "bk_refilled_at b = now") (auto simp: refill_def bucket_inv_def)
next
  case notfull: False
  have sp: "max (bk_spacing b) 1 = bk_spacing b" using assms(1) by (simp add: bucket_inv_def)
  have ds: "duration_since now (bk_refilled_at b) = Some (now - bk_refilled_at b)"
    using assms(2) by (simp add: duration_since_def)
  have room: "usize_sub (bk_burst b) (bk_tokens b) = Some (bk_burst b - bk_tokens b)"
    using notfull by (simp add: usize_sub_def)
  note rf = refill_def[of now b, unfolded ds room sp option.case earned_def[symmetric] Let_def]
  show ?thesis
  proof (cases "earned = 0")
    case True
    then show ?thesis using notfull none rf by simp
  next
    case e: False
    show ?thesis
    proof (cases "earned < bk_burst b - bk_tokens b")
      case True
      have small: "bk_tokens b + earned \<le> u32_max" "earned \<le> u32_max"
        using True assms(1) by (auto simp: bucket_inv_def)
      define r where "r = (case Option.bind (duration_mul (bk_spacing b) earned)
                                          (instant_add (bk_refilled_at b)) of
                                     Some r \<Rightarrow> r | None \<Rightarrow> now)"
      have "r = bk_refilled_at b + bk_spacing b * earned \<or> r = now"
        by (auto simp: r_def duration_mul_def instant_add_def)
      then show ?thesis
        using True e notfull small rf by (intro some[of r]) (auto simp: r_def)
    next
      case False
      then show ?thesis using e notfull rf by (intro fill) auto
    qed
  qed
qed

lemma refill_inv: "bucket_inv b \<Longrightarrow> bucket_inv (refill now b)"
proof -
  assume inv: "bucket_inv b"
  show ?thesis
  proof (cases "bk_refilled_at b \<le> now")
    case True
    from inv this show ?thesis
      by (cases rule: refill_cases) (use inv in \<open>auto simp: bucket_inv_def\<close>)
  next
    case False
    then show ?thesis using inv by (simp add: refill_def duration_since_def)
  qed
qed

lemma refill_time:
  "bucket_inv b \<Longrightarrow> bk_refilled_at b \<le> now \<Longrightarrow> bk_refilled_at (refill now b) \<le> now"
proof -
  assume a: "bucket_inv b" "bk_refilled_at b \<le> now"
  have "bk_spacing b * ((now - bk_refilled_at b) div bk_spacing b) \<le> now - bk_refilled_at b" by simp
  then have le: "bk_refilled_at b + bk_spacing b * ((now - bk_refilled_at b) div bk_spacing b) \<le> now"
    using a(2) by linarith
  from a show ?thesis by (cases rule: refill_cases) (use a(2) le in auto)
qed

text \<open>After a refill a bucket is either full from now on or less than one token behind.\<close>

lemma refill_fresh:
  assumes inv: "bucket_inv b" and t: "bk_refilled_at b \<le> now"
  shows "(bk_tokens (refill now b) = bk_burst b \<and> bk_refilled_at (refill now b) = now)
       \<or> (bk_tokens (refill now b) < bk_burst b \<and> now < bk_refilled_at (refill now b) + bk_spacing b)"
proof -
  have sp: "0 < bk_spacing b" using inv by (simp add: bucket_inv_def)
  define d where "d = now - bk_refilled_at b"
  have d: "now = bk_refilled_at b + d" using t by (simp add: d_def)
  have "d < bk_spacing b * (d div bk_spacing b) + bk_spacing b"
    using sp by (metis add_less_cancel_left mod_less_divisor mult_div_mod_eq)
  with inv t show ?thesis
    by (cases rule: refill_cases) (use sp in \<open>auto simp: d\<close>)
qed

subsection \<open>The rate bound\<close>

text \<open>Tokens the bucket can still hand out up to the instant \<open>T\<close>.\<close>

definition tokens_until :: "instant \<Rightarrow> 'a bucket \<Rightarrow> nat" where
  "tokens_until T b = bk_tokens b + (T - bk_refilled_at b) div bk_spacing b"

lemma div_superadditive: "0 < s \<Longrightarrow> (a :: nat) div s + c div s \<le> (a + c) div s"
  by (metis div_add1_eq le_add1)

lemma refill_tokens_until:
  assumes inv: "bucket_inv b" and t: "bk_refilled_at b \<le> now" "now \<le> T"
  shows "tokens_until T (refill now b) \<le> tokens_until T b"
proof -
  have sp: "0 < bk_spacing b" using inv by (simp add: bucket_inv_def)
  define d where "d = now - bk_refilled_at b"
  define g where "g = T - now"
  have eq: "T = bk_refilled_at b + d + g" "now = bk_refilled_at b + d"
    using t by (simp_all add: d_def g_def)
  have split: "d div bk_spacing b + g div bk_spacing b \<le> (d + g) div bk_spacing b"
    using sp by (rule div_superadditive)
  show ?thesis using inv t(1)
  proof (cases rule: refill_cases)
    case full
    then show ?thesis using eq by (simp add: tokens_until_def div_le_mono)
  next
    case none
    then show ?thesis by simp
  next
    case (some r)
    define q where "q = d div bk_spacing b"
    have d: "d = bk_spacing b * q + d mod bk_spacing b" by (simp add: q_def)
    have "T - (bk_refilled_at b + bk_spacing b * q) = d mod bk_spacing b + g"
      using eq d by linarith
    moreover have "(d + g) div bk_spacing b = q + (d mod bk_spacing b + g) div bk_spacing b"
      using sp d by (metis add.assoc div_mult_self4 less_irrefl)
    ultimately have "(T - (bk_refilled_at b + bk_spacing b * q)) div bk_spacing b + q = (d + g) div bk_spacing b"
      by simp
    with split q_def have "q + g div bk_spacing b \<le> (d + g) div bk_spacing b
      \<and> q + (T - (bk_refilled_at b + bk_spacing b * q)) div bk_spacing b = (d + g) div bk_spacing b" by simp
    then show ?thesis using some eq by (auto simp: tokens_until_def q_def)
  next
    case fill
    then show ?thesis using eq split by (simp add: tokens_until_def)
  qed
qed

text \<open>
  What any operation does to one bucket, at one instant: \<open>k\<close> is the number of tokens it
  takes, that is, of messages it lets out.
\<close>

inductive bucket_move :: "instant \<Rightarrow> nat \<Rightarrow> 'a bucket \<Rightarrow> 'a bucket \<Rightarrow> bool" where
  move_refill: "bucket_move t 0 b (refill t b)"
| move_reserve: "0 < available b \<Longrightarrow> bucket_move t 0 b (b\<lparr>bk_reserved := bk_reserved b + 1\<rparr>)"
| move_charge: "0 < bk_reserved b \<Longrightarrow> bucket_move t 1 b (charge_bucket t b)"
| move_refund: "bucket_move t 0 b (refund_bucket b)"
| move_queue: "bucket_move t 0 b (b\<lparr>bk_queue := q\<rparr>)"

inductive bucket_moves :: "'a bucket \<Rightarrow> (instant \<times> nat) list \<Rightarrow> 'a bucket \<Rightarrow> bool" where
  moves_Nil: "bucket_moves b [] b"
| moves_Cons: "bucket_move t k b b1 \<Longrightarrow> bucket_moves b1 tr b2 \<Longrightarrow> bucket_moves b ((t, k) # tr) b2"

inductive_cases moves_NilE: "bucket_moves b [] b'"
inductive_cases moves_ConsE: "bucket_moves b (x # tr) b'"

lemma moves_append: "bucket_moves b (x @ y) b2 \<longleftrightarrow> (\<exists>b1. bucket_moves b x b1 \<and> bucket_moves b1 y b2)"
proof (induction x arbitrary: b)
  case Nil
  then show ?case by (auto intro: moves_Nil elim: moves_NilE)
next
  case (Cons a x)
  then show ?case by (fastforce intro: moves_Cons elim!: moves_ConsE)
qed

lemma charge_bucket_eq:
  assumes "bucket_inv b" and "0 < bk_reserved b"
  shows "charge_bucket t b = (refill t b)\<lparr>bk_reserved := bk_reserved b - 1, bk_tokens := bk_tokens (refill t b) - 1\<rparr>"
    and "1 \<le> bk_tokens (refill t b)"
proof -
  have "bucket_inv (refill t b)" using assms(1) by (rule refill_inv)
  then show "1 \<le> bk_tokens (refill t b)" using assms(2) by (simp add: bucket_inv_def)
  then show "charge_bucket t b = (refill t b)\<lparr>bk_reserved := bk_reserved b - 1, bk_tokens := bk_tokens (refill t b) - 1\<rparr>"
    using assms(2) by (simp add: charge_bucket_def usize_sub_def Let_def)
qed

lemma move_keeps:
  assumes "bucket_move t k b b'" and inv: "bucket_inv b" and at: "bk_refilled_at b \<le> t"
  shows "bucket_inv b'" and "bk_refilled_at b' \<le> t" and "bk_spacing b' = bk_spacing b"
    and "bk_burst b' = bk_burst b" and "t \<le> T \<Longrightarrow> k + tokens_until T b' \<le> tokens_until T b"
proof -
  have "bucket_inv b' \<and> bk_refilled_at b' \<le> t \<and> bk_spacing b' = bk_spacing b \<and> bk_burst b' = bk_burst b
      \<and> (t \<le> T \<longrightarrow> k + tokens_until T b' \<le> tokens_until T b)"
    using assms(1)
  proof cases
    case move_refill
    then show ?thesis using refill_inv[OF inv] refill_time[OF inv at] refill_tokens_until[OF inv at] by simp
  next
    case move_reserve
    then show ?thesis using inv at
      by (auto simp: bucket_inv_def available_def usize_sub_def tokens_until_def split: if_splits)
  next
    case move_charge
    note eq = charge_bucket_eq[OF inv move_charge(3), of t]
    have "1 + tokens_until T b' = tokens_until T (refill t b)"
      using eq(2) by (simp add: move_charge(2) eq(1) tokens_until_def)
    then show ?thesis
      using eq refill_inv[OF inv, of t] refill_time[OF inv at] refill_tokens_until[OF inv at] move_charge
      by (auto simp: bucket_inv_def)
  next
    case move_refund
    then show ?thesis using inv at
      by (auto simp: refund_bucket_def usize_sub_def bucket_inv_def tokens_until_def)
  next
    case (move_queue q)
    then show ?thesis using inv at by (simp add: bucket_inv_def tokens_until_def)
  qed
  then show "bucket_inv b'" "bk_refilled_at b' \<le> t" "bk_spacing b' = bk_spacing b" "bk_burst b' = bk_burst b"
    "t \<le> T \<Longrightarrow> k + tokens_until T b' \<le> tokens_until T b" by blast+
qed

definition taken :: "(instant \<times> nat) list \<Rightarrow> nat" where
  "taken tr = sum_list (map snd tr)"

definition timely :: "'a bucket \<Rightarrow> (instant \<times> nat) list \<Rightarrow> bool" where
  "timely b tr \<longleftrightarrow> sorted (map fst tr) \<and> (\<forall>x\<in>set tr. bk_refilled_at b \<le> fst x)"

lemma timely_Cons:
  assumes "timely b ((t, k) # tr)" and "bucket_move t k b b1" and "bucket_inv b"
  shows "bk_refilled_at b \<le> t" and "timely b1 tr"
  using assms move_keeps(2)[OF assms(2,3)] by (force simp: timely_def)+

lemma moves_keep:
  assumes "bucket_moves b tr b'" and "bucket_inv b" and "timely b tr"
  shows "bucket_inv b' \<and> bk_spacing b' = bk_spacing b \<and> bk_burst b' = bk_burst b
    \<and> (tr = [] \<and> b' = b \<or> tr \<noteq> [] \<and> bk_refilled_at b' \<le> fst (last tr))"
  using assms
proof (induction rule: bucket_moves.induct)
  case (moves_Cons t k b b1 tr b2)
  note t = timely_Cons[OF moves_Cons.prems(2) moves_Cons.hyps(1) moves_Cons.prems(1)]
  note k = move_keeps[OF moves_Cons.hyps(1) moves_Cons.prems(1) t(1)]
  then show ?case using moves_Cons.IH t(2) by auto
qed simp

lemma moves_taken:
  assumes "bucket_moves b tr b'" and "bucket_inv b" and "timely b tr" and "\<forall>x\<in>set tr. fst x \<le> T"
  shows "taken tr + tokens_until T b' \<le> tokens_until T b"
  using assms
proof (induction rule: bucket_moves.induct)
  case (moves_Cons t k b b1 tr b2)
  note t = timely_Cons[OF moves_Cons.prems(2) moves_Cons.hyps(1) moves_Cons.prems(1)]
  note k = move_keeps[OF moves_Cons.hyps(1) moves_Cons.prems(1) t(1)]
  have "taken tr + tokens_until T b2 \<le> tokens_until T b1"
    using moves_Cons.IH[OF k(1) t(2)] moves_Cons.prems(3) by simp
  moreover have "k + tokens_until T b1 \<le> tokens_until T b"
    using k(5) moves_Cons.prems(3) by simp
  ultimately show ?case by (simp add: taken_def)
qed (simp add: taken_def)

lemma fresh_bound:
  assumes inv: "bucket_inv b" and s: "bk_refilled_at b \<le> s" and T: "s \<le> T" "T < s + per"
    and per: "per \<le> rate * bk_spacing b" and rate: "1 \<le> rate"
  shows "tokens_until T (refill s b) \<le> bk_burst b + rate - 1"
proof -
  have sp: "0 < bk_spacing b" using inv by (simp add: bucket_inv_def)
  from refill_fresh[OF inv s] show ?thesis
  proof
    assume f: "bk_tokens (refill s b) = bk_burst b \<and> bk_refilled_at (refill s b) = s"
    have "T - s < rate * bk_spacing b" using T per by linarith
    then have "(T - s) div bk_spacing b < rate" using sp by (simp add: div_less_iff_less_mult)
    then show ?thesis using f rate by (simp add: tokens_until_def)
  next
    assume f: "bk_tokens (refill s b) < bk_burst b \<and> s < bk_refilled_at (refill s b) + bk_spacing b"
    have "T < bk_refilled_at (refill s b) + (rate * bk_spacing b + bk_spacing b)"
      using T(2) per f by linarith
    then have "T - bk_refilled_at (refill s b) < (rate + 1) * bk_spacing b"
      using sp by (simp add: less_diff_conv2 add.commute)
    then have "(T - bk_refilled_at (refill s b)) div bk_spacing b < rate + 1"
      using sp by (simp only: div_less_iff_less_mult)
    then show ?thesis using conjunct1[OF f] rate unfolding tokens_until_def refill_fields by linarith
  qed
qed

text \<open>In a window of \<open>per\<close> at most \<open>burst + rate - 1\<close> tokens are taken.\<close>

lemma window_bound:
  assumes "bucket_moves b tr b'" and "bucket_inv b" and "timely b tr"
    and "\<forall>x\<in>set tr. t0 \<le> fst x \<and> fst x < t0 + per"
    and "per \<le> rate * bk_spacing b" and "1 \<le> rate"
  shows "taken tr \<le> bk_burst b + rate - 1"
  using assms
proof (induction rule: bucket_moves.induct)
  case (moves_Cons t k b b1 tr b2)
  note t = timely_Cons[OF moves_Cons.prems(2) moves_Cons.hyps(1) moves_Cons.prems(1)]
  note k = move_keeps[OF moves_Cons.hyps(1) moves_Cons.prems(1) t(1)]
  show ?case
  proof (cases "k = 0")
    case True
    then show ?thesis
      using moves_Cons.IH[OF k(1) t(2)] moves_Cons.prems k(3,4) by (simp add: taken_def)
  next
    case False
    with moves_Cons.hyps(1) have ch: "k = 1" "b1 = charge_bucket t b" "0 < bk_reserved b"
      by (cases; simp)+
    let ?T = "t0 + per - 1"
    have T: "t \<le> ?T" "?T < t + per" "\<forall>x\<in>set tr. fst x \<le> ?T"
      using moves_Cons.prems(3) by fastforce+
    have "1 + tokens_until ?T b1 = tokens_until ?T (refill t b)"
      using charge_bucket_eq[OF moves_Cons.prems(1) ch(3), of t] by (simp add: ch(2) tokens_until_def)
    also have "\<dots> \<le> bk_burst b + rate - 1"
      using fresh_bound[OF moves_Cons.prems(1) t(1) T(1,2)] moves_Cons.prems(4,5) by blast
    finally have "1 + tokens_until ?T b1 \<le> bk_burst b + rate - 1" .
    moreover have "taken tr \<le> tokens_until ?T b1"
      using moves_taken[OF moves_Cons.hyps(2) k(1) t(2) T(3)] by simp
    ultimately show ?thesis by (simp add: taken_def ch(1))
  qed
qed (simp add: taken_def)

end
