(* ===== verification/Throttle_Runs.thy ===== *)
theory Throttle_Runs
  imports Session_Throttle
begin

text \<open>
  Runs of the whole throttle.  Every operation acts on each bucket by moves of the bucket
  model, which gives the rate bound of a budget over any run; and it acts on the queues as on
  first-in first-out queues, with the count of held messages exact.
\<close>

datatype 'a throttle_op =
    OpAdmit u8 'a instant | OpRelease instant | OpNextRelease instant
  | OpChargeAt u8 instant | OpRefund u8 instant | OpDrain instant

fun op_time :: "'a throttle_op \<Rightarrow> instant" where
  "op_time (OpAdmit _ _ t) = t"
| "op_time (OpRelease t) = t"
| "op_time (OpNextRelease t) = t"
| "op_time (OpChargeAt _ t) = t"
| "op_time (OpRefund _ t) = t"
| "op_time (OpDrain t) = t"

fun throttle_apply :: "'a throttle_op \<Rightarrow> 'a throttle \<Rightarrow> 'a throttle" where
  "throttle_apply (OpAdmit budget item now) th = snd (admit budget item now th)"
| "throttle_apply (OpRelease now) th = snd (release now th)"
| "throttle_apply (OpNextRelease now) th = snd (next_release now th)"
| "throttle_apply (OpChargeAt budget now) th = charge_at budget now th"
| "throttle_apply (OpRefund budget now) th = refund budget th"
| "throttle_apply (OpDrain now) th = snd (drain th)"

text \<open>Whether an operation takes a token from the bucket in \<open>slot\<close>.\<close>

fun takes_token :: "'a throttle_op \<Rightarrow> usize \<Rightarrow> 'a throttle \<Rightarrow> bool" where
  "takes_token (OpChargeAt budget now) slot th \<longleftrightarrow>
     bucket_slot th budget = Some slot \<and> 0 < bk_reserved (th_buckets th ! slot)"
| "takes_token _ slot th \<longleftrightarrow> False"

fun charge_times :: "usize \<Rightarrow> 'a throttle_op list \<Rightarrow> 'a throttle \<Rightarrow> instant list" where
  "charge_times slot [] th = []"
| "charge_times slot (op # ops) th =
     (if takes_token op slot th then [op_time op] else []) @ charge_times slot ops (throttle_apply op th)"

subsection \<open>Operations as moves\<close>

definition moves_at :: "instant \<Rightarrow> nat \<Rightarrow> 'a bucket \<Rightarrow> 'a bucket \<Rightarrow> bool" where
  "moves_at t k b b' \<longleftrightarrow> (\<exists>tr. bucket_moves b tr b' \<and> (\<forall>x\<in>set tr. fst x = t) \<and> taken tr = k)"

lemma moves_at_refl: "moves_at t 0 b b"
  unfolding moves_at_def by (intro exI[of _ "[]"]) (simp add: moves_Nil taken_def)

lemma moves_at_one: "bucket_move t k b b' \<Longrightarrow> moves_at t k b b'"
  unfolding moves_at_def
  by (intro exI[of _ "[(t, k)]"]) (simp add: moves_Cons[OF _ moves_Nil] taken_def)

lemma moves_at_trans: "moves_at t k b b1 \<Longrightarrow> moves_at t l b1 b2 \<Longrightarrow> moves_at t (k + l) b b2"
  unfolding moves_at_def
proof (elim exE conjE)
  fix x y
  assume "bucket_moves b x b1" "\<forall>z\<in>set x. fst z = t" "taken x = k"
    "bucket_moves b1 y b2" "\<forall>z\<in>set y. fst z = t" "taken y = l"
  then show "\<exists>tr. bucket_moves b tr b2 \<and> (\<forall>x\<in>set tr. fst x = t) \<and> taken tr = k + l"
    by (intro exI[of _ "x @ y"]) (auto simp: moves_append taken_def)
qed

lemma moves_at_then: "moves_at t 0 b b1 \<Longrightarrow> bucket_move t 0 b1 b2 \<Longrightarrow> moves_at t 0 b b2"
  using moves_at_trans[OF _ moves_at_one, of t 0 b b1 0 b2] by simp

lemma reserve_moves: "moves_at t 0 b (snd (reserve t b))"
proof -
  have r: "moves_at t 0 b (refill t b)" by (rule moves_at_one) (rule move_refill)
  have "moves_at t 0 b ((refill t b)\<lparr>bk_reserved := bk_reserved (refill t b) + 1\<rparr>)" if "0 < available (refill t b)"
    using moves_at_then[OF r] move_reserve[OF that] by blast
  then show ?thesis using r by (simp add: reserve_def Let_def)
qed

lemma scan_moves: "moves_at t 0 b (scan_bucket t b)"
  by (auto simp: scan_bucket_def intro: moves_at_refl moves_at_one move_refill)

lemma ready_moves: "moves_at t 0 b (snd (ready_at t b))"
  by (auto simp: ready_at_def Let_def intro: moves_at_refl moves_at_one move_refill)

lemma set_bucket_simps [simp]:
  "th_buckets (set_bucket s b th) = (th_buckets th)[s := b]"
  "th_held (set_bucket s b th) = th_held th" "th_next_ticket (set_bucket s b th) = th_next_ticket th"
  by (simp_all add: set_bucket_def)

lemma bucket_slot_less: "bucket_slot th budget = Some slot \<Longrightarrow> slot < length (th_buckets th)"
  by (auto simp: bucket_slot_def Let_def split: if_splits)

definition slots_move :: "instant \<Rightarrow> (usize \<Rightarrow> nat) \<Rightarrow> 'a throttle \<Rightarrow> 'a throttle \<Rightarrow> bool" where
  "slots_move t k th th' \<longleftrightarrow> length (th_buckets th') = length (th_buckets th)
     \<and> (\<forall>i < length (th_buckets th). moves_at t (k i) (th_buckets th ! i) (th_buckets th' ! i))"

lemma slots_move_set:
  assumes "moves_at t (k s) (th_buckets th ! s) b" and "\<And>i. i \<noteq> s \<Longrightarrow> k i = 0"
    and "th_buckets th' = (th_buckets th)[s := b]"
  shows "slots_move t k th th'"
  unfolding slots_move_def
proof (intro conjI allI impI)
  show "length (th_buckets th') = length (th_buckets th)" by (simp add: assms(3))
  fix i
  assume "i < length (th_buckets th)"
  then show "moves_at t (k i) (th_buckets th ! i) (th_buckets th' ! i)"
    using assms by (cases "i = s") (simp_all add: moves_at_refl)
qed

lemma slots_move_refl: "th_buckets th' = th_buckets th \<Longrightarrow> (\<And>i. k i = 0) \<Longrightarrow> slots_move t k th th'"
  by (simp add: slots_move_def moves_at_refl)

lemma slots_move_requeue:
  assumes "moves_at t 0 (th_buckets th ! s) b"
    and "\<And>q. moves_at t 0 (th_buckets th ! s) (b\<lparr>bk_queue := q\<rparr>)"
    and "th_buckets th' = (th_buckets th)[s := b] \<or> (\<exists>q. th_buckets th' = (th_buckets th)[s := b\<lparr>bk_queue := q\<rparr>])"
  shows "slots_move t (\<lambda>_. 0) th th'"
  using assms(3)
proof
  assume "th_buckets th' = (th_buckets th)[s := b]"
  with assms(1) show ?thesis by (intro slots_move_set[where s = s and b = b]) auto
next
  assume "\<exists>q. th_buckets th' = (th_buckets th)[s := b\<lparr>bk_queue := q\<rparr>]"
  then obtain q where "th_buckets th' = (th_buckets th)[s := b\<lparr>bk_queue := q\<rparr>]" ..
  with assms(2)[of q] show ?thesis by (intro slots_move_set[where s = s and b = "b\<lparr>bk_queue := q\<rparr>"]) auto
qed

lemma admit_moves: "slots_move now (\<lambda>_. 0) th (snd (admit budget item now th))"
proof (cases "bucket_slot th budget")
  case None
  then show ?thesis by (simp add: admit_def slots_move_refl)
next
  case (Some s)
  let ?b = "th_buckets th ! s"
  define p where "p = (if bk_queue ?b = [] then reserve now ?b else (False, ?b))"
  obtain ok b1 where ok: "p = (ok, b1)" by fastforce
  have m: "moves_at now 0 ?b b1"
    using ok reserve_moves[of now ?b] by (auto simp: p_def moves_at_refl split: if_splits)
  then have mq: "moves_at now 0 ?b (b1\<lparr>bk_queue := q\<rparr>)" for q
    by (rule moves_at_then) (rule move_queue)
  have "th_buckets (snd (admit budget item now th)) = (th_buckets th)[s := b1]
    \<or> (\<exists>q. th_buckets (snd (admit budget item now th)) = (th_buckets th)[s := b1\<lparr>bk_queue := q\<rparr>])"
    using Some ok unfolding p_def by (auto simp: admit_def Let_def split: option.splits)
  with m mq show ?thesis by (rule slots_move_requeue)
qed

lemma charge_moves:
  "slots_move now (\<lambda>i. if takes_token (OpChargeAt budget now) i th then 1 else 0) th (charge_at budget now th)"
proof (cases "bucket_slot th budget")
  case None
  then show ?thesis by (simp add: charge_at_def on_bucket_def slots_move_refl)
next
  case (Some s)
  let ?b = "th_buckets th ! s"
  have "moves_at now (if 0 < bk_reserved ?b then 1 else 0) ?b (charge_bucket now ?b)"
  proof (cases "0 < bk_reserved ?b")
    case True
    then show ?thesis using moves_at_one[OF move_charge[OF True]] by simp
  next
    case False
    then show ?thesis by (simp add: charge_bucket_def usize_sub_def moves_at_refl)
  qed
  then show ?thesis using Some
    by (intro slots_move_set[where s = s]) (auto simp: charge_at_def on_bucket_def)
qed

lemma refund_moves: "slots_move now (\<lambda>_. 0) th (refund budget th)"
proof (cases "bucket_slot th budget")
  case None
  then show ?thesis by (simp add: refund_def on_bucket_def slots_move_refl)
next
  case (Some s)
  then show ?thesis
    by (intro slots_move_set[where s = s and b = "refund_bucket (th_buckets th ! s)"])
       (auto simp: refund_def on_bucket_def intro: moves_at_one move_refund)
qed

lemma drain_moves: "slots_move now (\<lambda>_. 0) th (snd (drain th))"
  by (auto simp: drain_def slots_move_def intro: moves_at_one move_queue)

lemma next_release_moves: "slots_move now (\<lambda>_. 0) th (snd (next_release now th))"
  by (auto simp: next_release_def slots_move_def Let_def intro: moves_at_refl ready_moves)

lemma pick_head_bound:
  "pick_head n bs best = Some (s, t) \<Longrightarrow> best = Some (s, t) \<or> (n \<le> s \<and> s < n + length bs)"
proof (induction n bs best rule: pick_head.induct)
  case (2 slot b bs best)
  then show ?case by (fastforce split: list.splits option.splits if_splits)
qed simp

lemma slots_move_trans0:
  "slots_move t (\<lambda>_. 0) th th1 \<Longrightarrow> slots_move t (\<lambda>_. 0) th1 th2 \<Longrightarrow> slots_move t (\<lambda>_. 0) th th2"
  using moves_at_trans[of t 0 _ _ 0] by (fastforce simp: slots_move_def)

lemma release_moves: "slots_move now (\<lambda>_. 0) th (snd (release now th))"
proof -
  let ?th1 = "th\<lparr>th_buckets := map (scan_bucket now) (th_buckets th)\<rparr>"
  have 1: "slots_move now (\<lambda>_. 0) th ?th1" by (simp add: slots_move_def scan_moves)
  have "slots_move now (\<lambda>_. 0) ?th1 (snd (release now th))"
  proof (cases "pick_head 0 (th_buckets ?th1) None")
    case None
    then show ?thesis by (simp add: release_def slots_move_refl)
  next
    case (Some p)
    obtain s tk where p: "p = (s, tk)" by (cases p)
    obtain ok b where r: "reserve now (th_buckets ?th1 ! s) = (ok, b)" by fastforce
    have m: "moves_at now 0 (th_buckets ?th1 ! s) b" using reserve_moves[of now "th_buckets ?th1 ! s"] r by simp
    then have mq: "moves_at now 0 (th_buckets ?th1 ! s) (b\<lparr>bk_queue := q\<rparr>)" for q
      by (rule moves_at_then) (rule move_queue)
    have rel: "th_buckets (snd (release now th)) = (th_buckets ?th1)[s := b]
      \<or> (\<exists>q. th_buckets (snd (release now th)) = (th_buckets ?th1)[s := b\<lparr>bk_queue := q\<rparr>])"
      using Some p r by (cases "bk_queue b") (auto simp: release_def Let_def)
    with m mq show ?thesis by (rule slots_move_requeue)
  qed
  with 1 show ?thesis by (rule slots_move_trans0)
qed

lemma apply_moves:
  "slots_move (op_time op) (\<lambda>i. if takes_token op i th then 1 else 0) th (throttle_apply op th)"
  using charge_moves by (cases op) (simp_all add: admit_moves release_moves next_release_moves refund_moves drain_moves)

subsection \<open>The rate of a budget\<close>

lemma sorted_window_split:
  assumes "sorted (map fst (tr :: (nat \<times> nat) list))"
  shows "\<exists>pre mid post. tr = pre @ mid @ post \<and> mid = filter (\<lambda>x. t0 \<le> fst x \<and> fst x < t1) tr"
proof -
  let ?pre = "filter (\<lambda>x. fst x < t0) tr"
  have "tr = takeWhile (\<lambda>x. fst x < t0) tr @ dropWhile (\<lambda>x. fst x < t0) tr" by simp
  define r where "r = dropWhile (\<lambda>x. fst x < t0) tr"
  have pre: "\<forall>x\<in>set (takeWhile (\<lambda>x. fst x < t0) tr). fst x < t0" by (auto dest: set_takeWhileD)
  have sr: "sorted (map fst r)" unfolding r_def dropWhile_eq_drop
    using assms by (simp add: drop_map[symmetric] sorted_wrt_drop)
  have r: "\<forall>x\<in>set r. t0 \<le> fst x"
  proof (cases r)
    case (Cons a s)
    then have "\<not> fst a < t0" using hd_dropWhile[of "\<lambda>x. fst x < t0" tr] r_def by auto
    then show ?thesis using sr Cons by fastforce
  qed simp
  define post where "post = dropWhile (\<lambda>x. fst x < t1) r"
  have sp: "sorted (map fst post)" unfolding post_def dropWhile_eq_drop
    using sr by (simp add: drop_map[symmetric] sorted_wrt_drop)
  have post: "\<forall>x\<in>set post. t1 \<le> fst x"
  proof (cases post)
    case (Cons a s)
    then have "\<not> fst a < t1" using hd_dropWhile[of "\<lambda>x. fst x < t1" r] post_def by auto
    then show ?thesis using sp Cons by fastforce
  qed simp
  have mid: "\<forall>x\<in>set (takeWhile (\<lambda>x. fst x < t1) r). fst x < t1 \<and> t0 \<le> fst x"
    using r by (auto dest: set_takeWhileD)
  have tr: "tr = takeWhile (\<lambda>x. fst x < t0) tr @ takeWhile (\<lambda>x. fst x < t1) r @ post"
    by (simp add: r_def post_def)
  let ?P = "\<lambda>x :: nat \<times> nat. t0 \<le> fst x \<and> fst x < t1"
  have "filter ?P (takeWhile (\<lambda>x. fst x < t0) tr) = []" "filter ?P post = []"
      "filter ?P (takeWhile (\<lambda>x. fst x < t1) r) = takeWhile (\<lambda>x. fst x < t1) r"
    using pre mid post by (force simp: filter_empty_conv filter_id_conv)+
  then have "filter ?P tr = takeWhile (\<lambda>x. fst x < t1) r"
    by (subst tr) simp
  with tr show ?thesis by metis
qed

text \<open>A run of the throttle is one run of the bucket in each slot.\<close>

lemma run_moves:
  assumes "slot < length (th_buckets th)"
  shows "\<exists>tr. bucket_moves (th_buckets th ! slot) tr (th_buckets (fold throttle_apply ops th) ! slot)
     \<and> set (map fst tr) \<subseteq> set (map op_time ops)
     \<and> (sorted (map op_time ops) \<longrightarrow> sorted (map fst tr))
     \<and> (\<forall>P. length (filter P (charge_times slot ops th)) = taken (filter (P \<circ> fst) tr))"
  using assms
proof (induction ops arbitrary: th)
  case Nil
  then show ?case by (intro exI[of _ "[]"]) (simp add: moves_Nil taken_def)
next
  case (Cons op ops)
  let ?th = "throttle_apply op th"
  let ?k = "if takes_token op slot th then 1 else 0"
  have len: "length (th_buckets ?th) = length (th_buckets th)"
    using apply_moves[of op th] by (simp add: slots_move_def)
  from apply_moves[of op th] Cons.prems obtain tr1 where
    tr1: "bucket_moves (th_buckets th ! slot) tr1 (th_buckets ?th ! slot)"
      "\<forall>x\<in>set tr1. fst x = op_time op" "taken tr1 = ?k"
    by (auto simp: slots_move_def moves_at_def)
  from Cons.IH[of ?th, unfolded len, OF Cons.prems] obtain tr2 where
    tr2: "bucket_moves (th_buckets ?th ! slot) tr2 (th_buckets (fold throttle_apply ops ?th) ! slot)"
      "set (map fst tr2) \<subseteq> set (map op_time ops)"
      "sorted (map op_time ops) \<longrightarrow> sorted (map fst tr2)"
      "\<forall>P. length (filter P (charge_times slot ops ?th)) = taken (filter (P \<circ> fst) tr2)"
    by (elim exE conjE) (rule that)
  have tk: "taken (filter (P \<circ> fst) tr1) = (if P (op_time op) then ?k else 0)" for P
  proof -
    have "filter (P \<circ> fst) tr1 = (if P (op_time op) then tr1 else [])"
      using tr1(2) by (auto simp: filter_id_conv filter_empty_conv)
    then show ?thesis using tr1(3) by (simp add: taken_def)
  qed
  have "bucket_moves (th_buckets th ! slot) (tr1 @ tr2) (th_buckets (fold throttle_apply (op # ops) th) ! slot)"
    using tr1(1) tr2(1) by (auto simp: moves_append)
  moreover have "set (map fst (tr1 @ tr2)) \<subseteq> set (map op_time (op # ops))"
    using tr1(2) tr2(2) by auto
  moreover have "sorted (map fst (tr1 @ tr2))" if "sorted (map op_time (op # ops))"
  proof -
    have "map fst tr1 = replicate (length tr1) (op_time op)"
      using tr1(2) by (intro replicate_eqI) auto
    moreover have "\<forall>t\<in>set (map fst tr2). op_time op \<le> t" using tr2(2) that by fastforce
    ultimately show ?thesis using tr2(3) that by (auto simp: sorted_append sorted_replicate)
  qed
  moreover have "length (filter P (charge_times slot (op # ops) th)) = taken (filter (P \<circ> fst) (tr1 @ tr2))" for P
    using tk[of P] tr2(4) by (simp add: taken_def)
  ultimately show ?case by (intro exI[of _ "tr1 @ tr2"]) blast
qed

lemma throttle_window:
  fixes ops :: "'a throttle_op list"
  assumes slot: "slot < length specs" and burst: "ts_burst (specs ! slot) \<le> u32_max"
    and order: "sorted (map op_time ops)" "\<forall>op\<in>set ops. start \<le> op_time op"
    and per: "per \<le> rate * max (ts_spacing (specs ! slot)) 1" and rate: "1 \<le> rate"
  shows "length (filter (\<lambda>s. t0 \<le> s \<and> s < t0 + per) (charge_times slot ops (throttle_new specs start)))
     \<le> max (ts_burst (specs ! slot)) 1 + rate - 1"
proof -
  let ?th = "throttle_new specs start :: 'a throttle"
  have b: "th_buckets ?th ! slot = bucket_new (specs ! slot) start" "slot < length (th_buckets ?th)"
    using slot by (simp_all add: throttle_new_def)
  let ?b = "bucket_new (specs ! slot) start :: 'a bucket"
  from run_moves[OF b(2), of ops] obtain tr where
    tr0: "bucket_moves ?b tr (th_buckets (fold throttle_apply ops ?th) ! slot)" "set (map fst tr) \<subseteq> set (map op_time ops)"
      "sorted (map op_time ops) \<longrightarrow> sorted (map fst tr)"
    and ct: "\<forall>P. length (filter P (charge_times slot ops ?th)) = taken (filter (P \<circ> fst) tr)"
    unfolding b(1) by (elim exE conjE) (rule that)
  define b' where "b' = th_buckets (fold throttle_apply ops ?th) ! slot"
  note tr = tr0(1,2)[folded b'_def] mp[OF tr0(3) order(1)]
  from sorted_window_split[OF tr(3), of t0 "t0 + per"] obtain pre mid post where
    sp: "tr = pre @ mid @ post" "mid = filter (\<lambda>x. t0 \<le> fst x \<and> fst x < t0 + per) tr" by blast
  from tr(1) obtain b1 b2 where m: "bucket_moves ?b pre b1" "bucket_moves b1 mid b2"
    unfolding sp(1) moves_append by blast
  have after: "start \<le> fst x" if "x \<in> set tr" for x
  proof -
    from that tr(2) have "fst x \<in> op_time ` set ops" by auto
    then show ?thesis using order(2) by auto
  qed
  then have tp: "timely ?b pre"
    using tr(3) sp(1) by (auto simp: timely_def bucket_new_def sorted_append)
  note inv = bucket_new_inv[OF burst, of start]
  note k = moves_keep[OF m(1) inv tp]
  have "bk_refilled_at b1 \<le> fst x" if x: "x \<in> set mid" for x
  proof (cases "pre = []")
    case True
    then have "bk_refilled_at b1 = start" using k by (simp add: bucket_new_def)
    moreover have "start \<le> fst x" using after[of x] x by (simp add: sp(1))
    ultimately show ?thesis by simp
  next
    case False
    then have "last pre \<in> set pre" by simp
    moreover have "\<forall>a\<in>set (map fst pre). \<forall>b\<in>set (map fst (mid @ post)). a \<le> b"
      using tr(3) unfolding sp(1) map_append sorted_append by blast
    ultimately have "fst (last pre) \<le> fst x" using x by simp
    moreover have "bk_refilled_at b1 \<le> fst (last pre)" using False k by simp
    ultimately show ?thesis by (rule order.trans[rotated])
  qed
  moreover have "sorted (map fst mid)"
    using tr(3) unfolding sp(1) map_append sorted_append by blast
  ultimately have tm: "timely b1 mid" unfolding timely_def by blast
  have kb: "bucket_inv b1" "bk_burst b1 = max (ts_burst (specs ! slot)) 1"
      "bk_spacing b1 = max (ts_spacing (specs ! slot)) 1"
    using k by (simp_all add: bucket_new_def)
  have "taken mid \<le> bk_burst b1 + rate - 1"
  proof (rule window_bound[OF m(2) kb(1) tm])
    show "\<forall>x\<in>set mid. t0 \<le> fst x \<and> fst x < t0 + per" by (subst sp(2)) simp
  qed (use per rate kb(3) in simp_all)
  then show ?thesis
    unfolding spec[OF ct, of "\<lambda>s. t0 \<le> s \<and> s < t0 + per"] kb(2) comp_def sp(2)[symmetric] .
qed

end
