(* ===== verification/Throttle_Fifo.thy ===== *)
theory Throttle_Fifo
  imports Throttle_Runs
begin

text \<open>
  The queues of the throttle: what each operation does to the held messages, the exact count
  of them, first-in first-out order per bucket, and progress of \<^verbatim>\<open>release\<close>.
\<close>

definition queue_of :: "'a throttle \<Rightarrow> usize \<Rightarrow> 'a list" where
  "queue_of th s = map snd (bk_queue (th_buckets th ! s))"

definition queued_total :: "'a throttle \<Rightarrow> nat" where
  "queued_total th = sum_list (map (length \<circ> bk_queue) (th_buckets th))"

lemma reserve_queue [simp]: "bk_queue (snd (reserve now b)) = bk_queue b"
  by (simp add: reserve_def Let_def)

lemma reserve_queueD: "reserve now b = (ok, b1) \<Longrightarrow> bk_queue b1 = bk_queue b"
  using reserve_queue[of now b] by simp

lemma scan_queue [simp]: "bk_queue (scan_bucket now b) = bk_queue b"
  by (simp add: scan_bucket_def)

lemma ready_queue [simp]: "bk_queue (snd (ready_at now b)) = bk_queue b"
  by (simp add: ready_at_def Let_def)

lemma charge_queue [simp]: "bk_queue (charge_bucket now b) = bk_queue b"
  by (simp add: charge_bucket_def Let_def split: option.splits)

lemma refund_queue [simp]: "bk_queue (refund_bucket b) = bk_queue b"
  by (simp add: refund_bucket_def split: option.splits)

lemma on_bucket_queue:
  "(\<And>b. bk_queue (f b) = bk_queue b) \<Longrightarrow> map bk_queue (th_buckets (on_bucket budget f th)) = map bk_queue (th_buckets th)"
  by (auto simp: on_bucket_def map_update split: option.splits dest!: bucket_slot_less)
     (simp add: list_update_same_conv)

text \<open>The three ways an admission ends, as an effect on the queues.\<close>

lemma admit_cases:
  fixes th :: "'a throttle" and budget :: u8 and item :: 'a and now :: instant
  assumes "bucket_slot th budget = Some s"
  defines "r \<equiv> admit budget item now th"
  obtains (now) "fst r = AdmitNow item" "bk_queue (th_buckets th ! s) = []"
      "map bk_queue (th_buckets (snd r)) = map bk_queue (th_buckets th)" "th_held (snd r) = th_held th"
      "th_next_ticket (snd r) = th_next_ticket th"
  | (held) "fst r = Held"
      "map bk_queue (th_buckets (snd r)) =
        (map bk_queue (th_buckets th))[s := bk_queue (th_buckets th ! s) @ [(th_next_ticket th, item)]]"
      "th_held (snd r) = (case usize_add (th_held th) 1 of Some h \<Rightarrow> h | None \<Rightarrow> th_held th)"
      "th_next_ticket (snd r) = (if th_next_ticket th + 1 \<le> u64_max then th_next_ticket th + 1 else th_next_ticket th)"
  | (refused) "fst r = Refused item"
      "map bk_queue (th_buckets (snd r)) = map bk_queue (th_buckets th)" "th_held (snd r) = th_held th"
      "th_next_ticket (snd r) = th_next_ticket th"
proof -
  let ?b = "th_buckets th ! s"
  have s: "s < length (th_buckets th)" using assms(1) by (rule bucket_slot_less)
  obtain ok b1 where p: "(if bk_queue ?b = [] then reserve now ?b else (False, ?b)) = (ok, b1)" by fastforce
  then have q: "bk_queue b1 = bk_queue ?b" by (auto dest: reserve_queueD split: if_splits)
  have same: "(map bk_queue (th_buckets th))[s := bk_queue ?b] = map bk_queue (th_buckets th)"
    using s by (simp add: list_update_same_conv)
  show ?thesis
  proof (cases ok)
    case True
    then show ?thesis
      using assms(1) p q same by (intro now) (auto simp: r_def admit_def Let_def map_update split: if_splits)
  next
    case False
    show ?thesis
    proof (cases "\<exists>d. bk_max_depth b1 = Some d \<and> length (bk_queue b1) < d")
      case True
      then show ?thesis
        using assms(1) p q False by (intro held) (auto simp: r_def admit_def Let_def map_update)
    next
      case full: False
      then show ?thesis
        using assms(1) p q same False
        by (intro refused) (auto simp: r_def admit_def Let_def map_update split: option.splits)
    qed
  qed
qed

lemma pick_head_spec:
  assumes "pick_head n bs best = Some (s, t)" and "best \<noteq> Some (s, t)"
  shows "n \<le> s \<and> s < n + length bs \<and> 0 < available (bs ! (s - n))
    \<and> (\<exists>x q. bk_queue (bs ! (s - n)) = (t, x) # q)"
  using assms
proof (induction n bs best rule: pick_head.induct)
  case (2 slot b bs best)
  let ?best = "case bk_queue b of [] \<Rightarrow> best | (ticket, _) # _ \<Rightarrow>
     if available b = 0 then best
     else (case best of None \<Rightarrow> Some (slot, ticket)
           | Some (_, earliest) \<Rightarrow> if ticket < earliest then Some (slot, ticket) else best)"
  show ?case
  proof (cases "?best = Some (s, t)")
    case True
    then have "s = slot \<and> 0 < available b \<and> (\<exists>x q. bk_queue b = (t, x) # q)"
      using 2(3) by (auto split: list.splits if_splits option.splits)
    then show ?thesis by simp
  next
    case False
    with 2(1) 2(2) have "Suc slot \<le> s \<and> s < Suc slot + length bs \<and> 0 < available (bs ! (s - Suc slot))
      \<and> (\<exists>x q. bk_queue (bs ! (s - Suc slot)) = (t, x) # q)" by simp
    moreover from this have "(b # bs) ! (s - slot) = bs ! (s - Suc slot)"
      by (simp add: nth_Cons' Suc_le_eq)
    ultimately show ?thesis by auto
  qed
qed simp

text \<open>The remembered head carries the smallest ticket of the heads with a free token.\<close>

definition eligible :: "'a bucket \<Rightarrow> nat \<Rightarrow> bool" where
  "eligible b t \<longleftrightarrow> 0 < available b \<and> (\<exists>x q. bk_queue b = (t, x) # q)"

lemma pick_head_le:
  "(\<forall>u v. best = Some (u, v) \<longrightarrow> (\<exists>s t. pick_head n bs best = Some (s, t) \<and> t \<le> v))
   \<and> (\<forall>b\<in>set bs. \<forall>v. eligible b v \<longrightarrow> (\<exists>s t. pick_head n bs best = Some (s, t) \<and> t \<le> v))"
proof (induction n bs best rule: pick_head.induct)
  case (2 slot b bs best)
  let ?best = "case bk_queue b of [] \<Rightarrow> best | (ticket, _) # _ \<Rightarrow>
     if available b = 0 then best
     else (case best of None \<Rightarrow> Some (slot, ticket)
           | Some (_, earliest) \<Rightarrow> if ticket < earliest then Some (slot, ticket) else best)"
  have b: "\<exists>u' v'. ?best = Some (u', v') \<and> v' \<le> v" if "best = Some (u, v)" for u v
    using that by (auto split: list.splits)
  have e: "\<exists>u' v'. ?best = Some (u', v') \<and> v' \<le> v" if "eligible b v" for v
    using that by (auto simp: eligible_def split: option.splits)
  have "\<exists>s t. pick_head slot (b # bs) best = Some (s, t) \<and> t \<le> v"
    if "\<exists>u' v'. ?best = Some (u', v') \<and> v' \<le> v" for v
    using that 2 unfolding pick_head.simps by (meson order.trans)
  with b e 2 show ?case by auto
qed simp

subsection \<open>Release\<close>

lemma refill_tokens_le: "bk_tokens b \<le> bk_burst b \<Longrightarrow> bk_tokens b \<le> bk_tokens (refill now b)"
  by (auto simp: refill_def Let_def usize_sub_def split: option.splits)

lemma refill_available: "bucket_inv b \<Longrightarrow> available b \<le> available (refill now b)"
  using refill_tokens_le[of b now] by (auto simp: available_def usize_sub_def bucket_inv_def)

lemma reserve_succeeds:
  assumes "bucket_inv b" and "0 < available b"
  shows "fst (reserve now b)"
proof -
  have a: "0 < available (refill now b)" using assms refill_available[of b now] by linarith
  have "bucket_inv (refill now b)" using assms(1) by (rule refill_inv)
  then show ?thesis using a by (auto simp: reserve_def Let_def bucket_inv_def available_def usize_sub_def split: if_splits)
qed

definition buckets_inv :: "'a throttle \<Rightarrow> bool" where
  "buckets_inv th \<longleftrightarrow> list_all bucket_inv (th_buckets th)"

lemma scan_inv: "bucket_inv b \<Longrightarrow> bucket_inv (scan_bucket now b)"
  by (simp add: scan_bucket_def refill_inv)

lemma release_cases:
  fixes th :: "'a throttle" and now :: instant
  assumes inv: "buckets_inv th"
  defines "bs \<equiv> map (scan_bucket now) (th_buckets th)"
  obtains (none) "fst (release now th) = None" "map bk_queue (th_buckets (snd (release now th))) = map bk_queue (th_buckets th)"
      "th_held (snd (release now th)) = th_held th" "\<forall>b\<in>set bs. \<forall>v. \<not> eligible b v"
  | (some) s t item q where "fst (release now th) = Some (budget_of_slot s, item)" "s < length (th_buckets th)"
      "bk_queue (th_buckets th ! s) = (t, item) # q"
      "map bk_queue (th_buckets (snd (release now th))) = (map bk_queue (th_buckets th))[s := q]"
      "th_held (snd (release now th)) = (case usize_sub (th_held th) 1 of Some h \<Rightarrow> h | None \<Rightarrow> th_held th)"
      "\<forall>b\<in>set bs. \<forall>v. eligible b v \<longrightarrow> t \<le> v"
proof (cases "pick_head 0 bs None")
  case None
  then have "\<forall>b\<in>set bs. \<forall>v. \<not> eligible b v" using pick_head_le[of None 0 bs] by auto
  with None show ?thesis by (intro none) (simp_all add: release_def bs_def comp_def)
next
  case (Some p)
  obtain s t where p: "p = (s, t)" by (cases p)
  from pick_head_spec[of 0 bs None s t] Some p obtain item q where
    s: "s < length bs" "0 < available (bs ! s)" "bk_queue (bs ! s) = (t, item) # q" by auto
  have "bucket_inv (bs ! s)"
    using inv s(1) by (simp add: buckets_inv_def list_all_length bs_def scan_inv)
  then have ok: "fst (reserve now (bs ! s))" using s(2) by (rule reserve_succeeds)
  obtain b where b: "reserve now (bs ! s) = (True, b)" using ok by (metis prod.collapse)
  have q: "bk_queue b = (t, item) # q" using reserve_queueD[OF b] s(3) by simp
  have bq: "map bk_queue bs = map bk_queue (th_buckets th)" by (simp add: bs_def comp_def)
  have least: "\<forall>b\<in>set bs. \<forall>v. eligible b v \<longrightarrow> t \<le> v" using pick_head_le[of None 0 bs] Some p by auto
  have "bk_queue (th_buckets th ! s) = (t, item) # q" using s by (simp add: bs_def)
  moreover have "fst (release now th) = Some (budget_of_slot s, item)"
      "map bk_queue (th_buckets (snd (release now th))) = (map bk_queue (th_buckets th))[s := q]"
      "th_held (snd (release now th)) = (case usize_sub (th_held th) 1 of Some h \<Rightarrow> h | None \<Rightarrow> th_held th)"
    using Some p b q bq by (simp_all add: release_def bs_def[symmetric] map_update Let_def split: option.splits)
  ultimately show ?thesis using s(1) least by (intro some) (simp_all add: bs_def)
qed

lemma buckets_inv_moves:
  assumes "slots_move t k th th'" and "buckets_inv th" and "list_all (\<lambda>b. bk_refilled_at b \<le> t) (th_buckets th)"
  shows "buckets_inv th'" and "list_all (\<lambda>b. bk_refilled_at b \<le> t) (th_buckets th')"
proof -
  have "bucket_inv (th_buckets th' ! i) \<and> bk_refilled_at (th_buckets th' ! i) \<le> t" if i: "i < length (th_buckets th)" for i
  proof -
    from assms(1) i obtain tr where tr: "bucket_moves (th_buckets th ! i) tr (th_buckets th' ! i)" "\<forall>x\<in>set tr. fst x = t"
      by (auto simp: slots_move_def moves_at_def)
    have b: "bucket_inv (th_buckets th ! i)" "bk_refilled_at (th_buckets th ! i) \<le> t"
      using assms(2,3) i by (simp_all add: buckets_inv_def list_all_length)
    have "timely (th_buckets th ! i) tr"
      using tr(2) b(2) by (auto simp: timely_def sorted_iff_nth_mono)
    from moves_keep[OF tr(1) b(1) this] tr(2) b show ?thesis
      by (metis last_in_set)
  qed
  then show "buckets_inv th'" "list_all (\<lambda>b. bk_refilled_at b \<le> t) (th_buckets th')"
    using assms(1) by (simp_all add: buckets_inv_def list_all_length slots_move_def)
qed

subsection \<open>First in, first out\<close>

text \<open>What an operation accepts for one bucket, and what it lets out of it.\<close>

fun accepts :: "usize \<Rightarrow> 'a throttle_op \<Rightarrow> 'a throttle \<Rightarrow> 'a list" where
  "accepts slot (OpAdmit budget item now) th =
     (if bucket_slot th budget = Some slot
      then (case fst (admit budget item now th) of Refused _ \<Rightarrow> [] | _ \<Rightarrow> [item]) else [])"
| "accepts slot _ th = []"

fun emits :: "usize \<Rightarrow> 'a throttle_op \<Rightarrow> 'a throttle \<Rightarrow> 'a list" where
  "emits slot (OpAdmit budget item now) th =
     (if bucket_slot th budget = Some slot
      then (case fst (admit budget item now th) of AdmitNow x \<Rightarrow> [x] | _ \<Rightarrow> []) else [])"
| "emits slot (OpRelease now) th =
     (case fst (release now th) of
        Some (budget, item) \<Rightarrow> if budget = budget_of_slot slot then [item] else []
      | None \<Rightarrow> [])"
| "emits slot (OpDrain now) th = map snd (filter (\<lambda>p. fst p = budget_of_slot slot) (fst (drain th)))"
| "emits slot _ th = []"

fun run_list :: "('a throttle_op \<Rightarrow> 'a throttle \<Rightarrow> 'a list) \<Rightarrow> 'a throttle_op list \<Rightarrow> 'a throttle \<Rightarrow> 'a list" where
  "run_list f [] th = []"
| "run_list f (op # ops) th = f op th @ run_list f ops (throttle_apply op th)"

lemma budget_of_slot_inj: "s < 256 \<Longrightarrow> s' < 256 \<Longrightarrow> budget_of_slot s = budget_of_slot s' \<longleftrightarrow> s = s'"
proof -
  assume a: "s < 256" "s' < 256"
  have "unat (word_of_nat s :: u8) = s" "unat (word_of_nat s' :: u8) = s'"
    using a by (simp_all add: unat_of_nat)
  then show ?thesis using a unfolding budget_of_slot_def by (metis (no_types))
qed

lemma drained_filter:
  assumes "n + length bs \<le> 256" and "s < 256"
  shows "map snd (filter (\<lambda>p. fst p = budget_of_slot s) (drained n bs)) =
    (if n \<le> s \<and> s < n + length bs then map snd (bk_queue (bs ! (s - n))) else [])"
  using assms
proof (induction n bs rule: drained.induct)
  case (2 slot b bs)
  have "map snd (filter (\<lambda>p. fst p = budget_of_slot s) (map (\<lambda>(_, item). (budget_of_slot slot, item)) (bk_queue b))) =
    (if slot = s then map snd (bk_queue b) else [])"
    using 2(2,3) budget_of_slot_inj[of slot s] by (induction "bk_queue b") (auto split: prod.splits)
  with 2 show ?case by (auto simp: nth_Cons')
qed auto

lemma queue_of_map: "s < length (th_buckets th) \<Longrightarrow> queue_of th s = map snd (map bk_queue (th_buckets th) ! s)"
  by (simp add: queue_of_def)


lemma queue_of_update:
  assumes "map bk_queue (th_buckets th') = (map bk_queue (th_buckets th))[s := q]" and "slot < length (th_buckets th)"
  shows "queue_of th' slot = (if slot = s then map snd q else queue_of th slot)"
proof -
  have "length (th_buckets th') = length (th_buckets th)" using arg_cong[OF assms(1), of length] by simp
  then show ?thesis using assms by (simp add: queue_of_map nth_list_update del: map_map list.map_comp)
qed

lemma queue_of_same:
  assumes "map bk_queue (th_buckets th') = map bk_queue (th_buckets th)" and "slot < length (th_buckets th)"
  shows "queue_of th' slot = queue_of th slot"
proof -
  have "length (th_buckets th') = length (th_buckets th)" using arg_cong[OF assms(1), of length] by simp
  then show ?thesis using assms by (simp add: queue_of_map del: map_map list.map_comp)
qed

lemma drain_queue: "s < length (th_buckets th) \<Longrightarrow> queue_of (snd (drain th)) s = []"
  by (simp add: queue_of_def drain_def)

lemma step_fifo:
  assumes slot: "slot < length (th_buckets th)" and small: "length (th_buckets th) \<le> 256" and inv: "buckets_inv th"
  shows "queue_of th slot @ accepts slot op th = emits slot op th @ queue_of (throttle_apply op th) slot"
proof (cases op)
  case (OpAdmit budget item now)
  show ?thesis
  proof (cases "bucket_slot th budget")
    case None
    then show ?thesis using OpAdmit by (simp add: admit_def)
  next
    case (Some s)
    from Some show ?thesis
    proof (cases rule: admit_cases[where item = item and now = now])
      case now
      then show ?thesis using OpAdmit Some slot queue_of_same[OF now(3) slot] by (auto simp: queue_of_def)
    next
      case held
      then show ?thesis using OpAdmit Some queue_of_update[OF held(2) slot] by (auto simp: queue_of_def)
    next
      case refused
      then show ?thesis using OpAdmit Some queue_of_same[OF refused(2) slot] by simp
    qed
  qed
next
  case (OpRelease now)
  from inv show ?thesis
  proof (cases rule: release_cases[where now = now])
    case none
    then show ?thesis using OpRelease queue_of_same[OF none(2) slot] by simp
  next
    case (some s t item q)
    have "budget_of_slot s = budget_of_slot slot \<longleftrightarrow> s = slot"
      using some(2) slot small by (intro budget_of_slot_inj) linarith+
    then show ?thesis
      using OpRelease queue_of_update[OF some(4) slot] some(1,3) by (auto simp: queue_of_def)
  qed
next
  case (OpNextRelease now)
  then show ?thesis
    using slot by (simp add: next_release_def queue_of_def)
next
  case (OpChargeAt budget now)
  then show ?thesis
    using queue_of_same[OF on_bucket_queue[of "charge_bucket now" budget th, OF charge_queue] slot]
    by (simp add: charge_at_def)
next
  case (OpRefund budget now)
  then show ?thesis
    using queue_of_same[OF on_bucket_queue[of "refund_bucket" budget th, OF refund_queue] slot]
    by (simp add: refund_def)
next
  case (OpDrain now)
  then show ?thesis
    using slot small drained_filter[of 0 "th_buckets th" slot] drain_queue[OF slot]
    by (simp add: drain_def queue_of_def del: drained.simps)
qed

definition started_by :: "instant \<Rightarrow> 'a throttle \<Rightarrow> bool" where
  "started_by t th \<longleftrightarrow> buckets_inv th \<and> list_all (\<lambda>b. bk_refilled_at b \<le> t) (th_buckets th)"

lemma started_by_step: "started_by (op_time op) th \<Longrightarrow> started_by (op_time op) (throttle_apply op th)"
  using buckets_inv_moves[OF apply_moves[of op th]] by (simp add: started_by_def)

lemma started_by_mono: "started_by s th \<Longrightarrow> s \<le> t \<Longrightarrow> started_by t th"
  by (auto simp: started_by_def list_all_iff)

lemma buckets_apply_length [simp]: "length (th_buckets (throttle_apply op th)) = length (th_buckets th)"
  using apply_moves[of op th] by (simp add: slots_move_def)

lemma run_fifo:
  assumes "slot < length (th_buckets th)" and "length (th_buckets th) \<le> 256"
    and "started_by t th" and "sorted (t # map op_time ops)"
  shows "queue_of th slot @ run_list (accepts slot) ops th =
    run_list (emits slot) ops th @ queue_of (fold throttle_apply ops th) slot"
  using assms
proof (induction ops arbitrary: th t)
  case (Cons op ops)
  have st: "started_by (op_time op) th" using Cons.prems(3,4) by (auto intro: started_by_mono)
  have "queue_of (throttle_apply op th) slot @ run_list (accepts slot) ops (throttle_apply op th) =
    run_list (emits slot) ops (throttle_apply op th) @ queue_of (fold throttle_apply ops (throttle_apply op th)) slot"
    using Cons.prems by (intro Cons.IH[OF _ _ started_by_step[OF st]]) simp_all
  with step_fifo[OF Cons.prems(1,2), of op] st show ?case
    by (simp add: started_by_def) (metis append.assoc)
qed simp

lemma started_by_new:
  "list_all (\<lambda>spec. ts_burst spec \<le> u32_max) specs \<Longrightarrow> started_by t (throttle_new specs t)"
  by (auto simp: started_by_def buckets_inv_def throttle_new_def list_all_iff bucket_new_inv)
     (simp add: bucket_new_def)

lemma queue_of_new: "slot < length specs \<Longrightarrow> queue_of (throttle_new specs t) slot = []"
  by (simp add: queue_of_def throttle_new_def bucket_new_def)

subsection \<open>The held count\<close>

lemma queued_total_eq: "queued_total th = sum_list (map length (map bk_queue (th_buckets th)))"
  by (simp add: queued_total_def)

lemma sum_list_update_nat:
  "s < length xs \<Longrightarrow> sum_list (xs[s := (y :: nat)]) + xs ! s = sum_list xs + y"
  by (induction xs arbitrary: s) (auto split: nat.splits)

lemma queued_total_update:
  assumes "map bk_queue (th_buckets th') = (map bk_queue (th_buckets th))[s := q]" and "s < length (th_buckets th)"
  shows "queued_total th' + length (bk_queue (th_buckets th ! s)) = queued_total th + length q"
  unfolding queued_total_eq assms(1) map_update
  using sum_list_update_nat[of s "map length (map bk_queue (th_buckets th))" "length q"] assms(2) by simp

lemma held_step:
  assumes inv: "buckets_inv th" and held: "th_held th = queued_total th" and room: "queued_total th < usize_max"
  shows "th_held (throttle_apply op th) = queued_total (throttle_apply op th)"
    and "queued_total (throttle_apply op th) \<le> Suc (queued_total th)"
proof -
  have same: "map bk_queue (th_buckets th') = map bk_queue (th_buckets th) \<Longrightarrow> queued_total th' = queued_total th" for th'
    by (simp only: queued_total_eq)
  have "th_held (throttle_apply op th) = queued_total (throttle_apply op th)
      \<and> queued_total (throttle_apply op th) \<le> Suc (queued_total th)"
  proof (cases op)
    case (OpAdmit budget item now)
    show ?thesis
    proof (cases "bucket_slot th budget")
      case None
      then show ?thesis using OpAdmit held by (simp add: admit_def)
    next
      case (Some s)
      then have s: "s < length (th_buckets th)" by (rule bucket_slot_less)
      from Some show ?thesis
      proof (cases rule: admit_cases[where item = item and now = now])
        case now
        then show ?thesis using OpAdmit held same[OF now(3)] by simp
      next
        case h: held
        then show ?thesis using OpAdmit held queued_total_update[OF h(2) s] room
          by (simp add: usize_add_def)
      next
        case refused
        then show ?thesis using OpAdmit held same[OF refused(2)] by simp
      qed
    qed
  next
    case (OpRelease now)
    from inv show ?thesis
    proof (cases rule: release_cases[where now = now])
      case none
      then show ?thesis using OpRelease held same[OF none(2)] by simp
    next
      case (some s t item q)
      have "queued_total (snd (release now th)) + 1 = queued_total th"
        using queued_total_update[OF some(4,2)] some(3) by simp
      then show ?thesis using OpRelease held some(5) by (simp add: usize_sub_def)
    qed
  next
    case (OpNextRelease now)
    then show ?thesis using held by (simp add: next_release_def queued_total_def comp_def)
  next
    case (OpChargeAt budget now)
    then show ?thesis
      using held same[OF on_bucket_queue[of "charge_bucket now" budget th, OF charge_queue]]
      by (simp add: charge_at_def on_bucket_def split: option.splits)
  next
    case (OpRefund budget now)
    then show ?thesis
      using held same[OF on_bucket_queue[of refund_bucket budget th, OF refund_queue]]
      by (simp add: refund_def on_bucket_def split: option.splits)
  next
    case (OpDrain now)
    then show ?thesis by (simp add: drain_def queued_total_def comp_def sum_list_0)
  qed
  then show "th_held (throttle_apply op th) = queued_total (throttle_apply op th)"
    "queued_total (throttle_apply op th) \<le> Suc (queued_total th)" by blast+
qed

lemma run_held:
  assumes "started_by t th" and "sorted (t # map op_time ops)" and "th_held th = queued_total th"
    and "queued_total th + length ops \<le> usize_max"
  shows "th_held (fold throttle_apply ops th) = queued_total (fold throttle_apply ops th)"
  using assms
proof (induction ops arbitrary: th t)
  case (Cons op ops)
  have st: "started_by (op_time op) th" using Cons.prems(1,2) by (auto intro: started_by_mono)
  then have h: "th_held (throttle_apply op th) = queued_total (throttle_apply op th)"
      "queued_total (throttle_apply op th) \<le> Suc (queued_total th)"
    using held_step[of th op] Cons.prems(3,4) by (simp_all add: started_by_def)
  show ?case
    using Cons.IH[OF started_by_step[OF st] _ h(1)] Cons.prems(2,4) h(2) by simp
qed simp

end
