(* ===== verification/Session_Core.thy ===== *)
theory Session_Core
  imports Session_Replay Throttle_Fifo
begin

text \<open>
  The state one session keeps beside its counters, and every operation on it
  (\<^verbatim>\<open>ironfix-session/src/session_core.rs\<close>).  The payload types of the driver's
  \<^verbatim>\<open>SessionPayloads\<close> are type parameters (held messages, gapped frames, replay payloads,
  logout causes, throttled messages) and its two measuring methods are the arguments
  \<open>weigh_held\<close> and \<open>weigh\<close>.
\<close>

datatype 'm held_entry = HeldMessage 'm | HeldResendRequest

record 'r replay_job =
  job_replay :: resend_replay
  job_payload :: 'r

record ('m, 'f, 'r, 'c, 't) session_core =
  sc_phase :: "session_phase option"
  sc_resend :: "resend_state option"
  sc_held_logon :: "u64 option"
  sc_logout_owed :: "owed_logout option"
  sc_spanning_rerequested :: "u64 option"
  sc_logout_sent :: bool
  sc_logout_cause :: "'c option"
  sc_unwritten_test_request :: "bytes option"
  sc_reads_since_replay_step :: u32
  sc_held :: "'m held_entry list"
  sc_held_sends :: usize
  sc_held_bytes :: usize
  sc_replays :: "'r replay_job list"
  sc_gap_queue :: "'f gap_queue option"
  sc_throttle :: "'t throttle option"

record tick_input =
  ti_now :: instant
  ti_logout_timeout :: duration
  ti_heartbeat :: heartbeat_manager
  ti_output_waiting :: bool
  ti_resend_request_unwritten :: bool
  ti_output_bound_reached :: bool

datatype tick_decision =
    TickLogoutTimedOut | TickResendUnderWay | TickStalled stall_action | TickLiveness liveness_action

datatype held_logon_release = LogonWait | LogonPassed u64 | LogonConsume u64

definition core_new :: "('m, 'f, 'r, 'c, 't) session_core" where
  "core_new =
    \<lparr>sc_phase = None, sc_resend = None, sc_held_logon = None, sc_logout_owed = None,
     sc_spanning_rerequested = None, sc_logout_sent = False, sc_logout_cause = None,
     sc_unwritten_test_request = None, sc_reads_since_replay_step = 0, sc_held = [],
     sc_held_sends = 0, sc_held_bytes = 0, sc_replays = [], sc_gap_queue = None, sc_throttle = None\<rparr>"

definition core_with_gap_policy :: "gap_policy \<Rightarrow> ('m, 'f, 'r, 'c, 't) session_core" where
  "core_with_gap_policy policy = core_new\<lparr>sc_gap_queue := gap_queue_for_policy policy\<rparr>"

type_synonym ('m, 'f, 'r, 'c, 't) on_core = "('m, 'f, 'r, 'c, 't) session_core \<Rightarrow> ('m, 'f, 'r, 'c, 't) session_core"

definition enter_phase :: "session_phase \<Rightarrow> ('m, 'f, 'r, 'c, 't) on_core" where
  "enter_phase p c = c\<lparr>sc_phase := Some p\<rparr>"

definition take_phase :: "('m, 'f, 'r, 'c, 't) session_core \<Rightarrow> session_phase option \<times> ('m, 'f, 'r, 'c, 't) session_core" where
  "take_phase c = (sc_phase c, c\<lparr>sc_phase := None\<rparr>)"

definition core_is_active :: "('m, 'f, 'r, 'c, 't) session_core \<Rightarrow> bool" where
  "core_is_active c \<longleftrightarrow> (case sc_phase c of Some (PhaseActive _) \<Rightarrow> True | _ \<Rightarrow> False)"

definition core_advance_logout :: "bool \<Rightarrow> instant \<Rightarrow> ('m, 'f, 'r, 'c, 't) on_core" where
  "core_advance_logout take_written now c =
    (case sc_phase c of
       Some p \<Rightarrow> c\<lparr>sc_phase := Some (advance_logout take_written now p)\<rparr>
     | None \<Rightarrow> c)"

definition replaying :: "('m, 'f, 'r, 'c, 't) session_core \<Rightarrow> bool" where
  "replaying c \<longleftrightarrow> sc_replays c \<noteq> []"

definition probe_gate :: "bool \<Rightarrow> ('m, 'f, 'r, 'c, 't) session_core \<Rightarrow> liveness_gate" where
  "probe_gate output_waiting c = Probe (sc_unwritten_test_request c \<noteq> None) output_waiting"

definition core_decide_stall :: "instant \<Rightarrow> bool \<Rightarrow> ('m, 'f, 'r, 'c, 't) session_core \<Rightarrow> stall_action" where
  "core_decide_stall now request_unwritten c = decide_stall (sc_resend c) now request_unwritten"

definition decide_tick :: "session_phase \<Rightarrow> tick_input \<Rightarrow> ('m, 'f, 'r, 'c, 't) session_core \<Rightarrow> tick_decision" where
  "decide_tick phase input c =
    (if (case phase of PhaseLogoutPending s \<Rightarrow> logout_timed_out s (ti_now input) (ti_logout_timeout input) | _ \<Rightarrow> False)
     then TickLogoutTimedOut
     else if replaying c then TickResendUnderWay
     else if ti_output_bound_reached input
     then TickLiveness (decide_liveness (ti_heartbeat input) (ti_now input) DeadlinesOnly)
     else (case core_decide_stall (ti_now input) (ti_resend_request_unwritten input) c of
             StallWait \<Rightarrow> TickLiveness (decide_liveness (ti_heartbeat input) (ti_now input) (probe_gate (ti_output_waiting input) c))
           | stalled \<Rightarrow> TickStalled stalled))"

subsection \<open>Recovery\<close>

definition recovering :: "('m, 'f, 'r, 'c, 't) session_core \<Rightarrow> bool" where
  "recovering c \<longleftrightarrow> sc_resend c \<noteq> None"

definition core_decide_gap_request ::
  "u64 \<Rightarrow> u64 \<Rightarrow> ('m, 'f, 'r, 'c, 't) session_core \<Rightarrow> gap_request \<times> ('m, 'f, 'r, 'c, 't) session_core" where
  "core_decide_gap_request expected high_water c =
    (let (d, r) = decide_gap_request (sc_resend c) expected high_water in (d, c\<lparr>sc_resend := r\<rparr>))"

definition arm_requested :: "u64 \<Rightarrow> u64 \<Rightarrow> session_config \<Rightarrow> instant \<Rightarrow> ('m, 'f, 'r, 'c, 't) on_core" where
  "arm_requested expected high_water config now c =
    c\<lparr>sc_resend := Some (resend_first expected (merged_high_water (sc_resend c) high_water) config now)\<rparr>"

definition arm_held_request :: "u64 \<Rightarrow> u64 \<Rightarrow> session_config \<Rightarrow> instant \<Rightarrow> ('m, 'f, 'r, 'c, 't) on_core" where
  "arm_held_request expected high_water config now c =
    c\<lparr>sc_resend := Some (charge_held_request
        (resend_implied expected (merged_high_water (sc_resend c) high_water) config now))\<rparr>"

definition arm_uncharged :: "u64 \<Rightarrow> u64 \<Rightarrow> session_config \<Rightarrow> instant \<Rightarrow> ('m, 'f, 'r, 'c, 't) on_core" where
  "arm_uncharged expected high_water config now c =
    (case sc_resend c of
       Some r \<Rightarrow> c\<lparr>sc_resend := Some (rearm_uncharged expected high_water now r)\<rparr>
     | None \<Rightarrow> c\<lparr>sc_resend := Some (resend_implied expected high_water config now)\<rparr>)"

definition hold_logon :: "u64 \<Rightarrow> u64 \<Rightarrow> session_config \<Rightarrow> instant \<Rightarrow> ('m, 'f, 'r, 'c, 't) on_core" where
  "hold_logon expected logon_seq config now c =
    c\<lparr>sc_resend := Some (resend_implied expected logon_seq config now), sc_held_logon := Some logon_seq\<rparr>"

definition release_held_logon_to_request ::
  "('m, 'f, 'r, 'c, 't) session_core \<Rightarrow> u64 option \<times> ('m, 'f, 'r, 'c, 't) session_core" where
  "release_held_logon_to_request c = (sc_held_logon c, c\<lparr>sc_held_logon := None\<rparr>)"

definition decide_held_logon_release ::
  "u64 \<Rightarrow> ('m, 'f, 'r, 'c, 't) session_core \<Rightarrow> held_logon_release \<times> ('m, 'f, 'r, 'c, 't) session_core" where
  "decide_held_logon_release next_target c =
    (case sc_held_logon c of
       None \<Rightarrow> (LogonWait, c)
     | Some logon_seq \<Rightarrow>
         if next_target < logon_seq then (LogonWait, c)
         else (if logon_seq < next_target then LogonPassed logon_seq else LogonConsume logon_seq,
               c\<lparr>sc_held_logon := None\<rparr>))"

definition core_note_inbound_progress ::
  "u64 \<Rightarrow> instant \<Rightarrow> ('m, 'f, 'r, 'c, 't) session_core \<Rightarrow> recovery_progress \<times> ('m, 'f, 'r, 'c, 't) session_core" where
  "core_note_inbound_progress next_target now c =
    (let (p, r) = note_inbound_progress (sc_resend c) next_target now in (p, c\<lparr>sc_resend := r\<rparr>))"

definition core_record_retry :: "instant \<Rightarrow> ('m, 'f, 'r, 'c, 't) on_core" where
  "core_record_retry now c = c\<lparr>sc_resend := map_option (record_retry now) (sc_resend c)\<rparr>"

definition restart_resend_clock :: "instant \<Rightarrow> ('m, 'f, 'r, 'c, 't) on_core" where
  "restart_resend_clock now c = c\<lparr>sc_resend := map_option (restart_clock now) (sc_resend c)\<rparr>"

definition take_resend_charge :: "('m, 'f, 'r, 'c, 't) session_core \<Rightarrow> bool \<times> ('m, 'f, 'r, 'c, 't) session_core" where
  "take_resend_charge c =
    (case sc_resend c of
       Some r \<Rightarrow> (let (charged, r1) = take_charge r in (charged, c\<lparr>sc_resend := Some r1\<rparr>))
     | None \<Rightarrow> (False, c))"

definition note_held_request_written :: "bool \<Rightarrow> instant \<Rightarrow> ('m, 'f, 'r, 'c, 't) on_core" where
  "note_held_request_written charged now c =
    (if charged then core_record_retry now c else restart_resend_clock now c)"

definition resend_expected :: "('m, 'f, 'r, 'c, 't) session_core \<Rightarrow> u64 option" where
  "resend_expected c = map_option rs_expected (sc_resend c)"

definition core_spanned_rerequest :: "u64 \<Rightarrow> u64 option \<Rightarrow> bool \<Rightarrow> ('m, 'f, 'r, 'c, 't) session_core \<Rightarrow> u64 option" where
  "core_spanned_rerequest expected new_seq_no may_request c =
     spanned_rerequest expected new_seq_no may_request (sc_spanning_rerequested c)"

definition note_spanned_rerequest :: "u64 \<Rightarrow> ('m, 'f, 'r, 'c, 't) on_core" where
  "note_spanned_rerequest expected c = c\<lparr>sc_spanning_rerequested := Some expected\<rparr>"

subsection \<open>The gap queue, logout and TestRequests\<close>

definition clear_gap_queue :: "('m, 'f, 'r, 'c, 't) session_core \<Rightarrow> usize \<times> ('m, 'f, 'r, 'c, 't) session_core" where
  "clear_gap_queue c =
    (case sc_gap_queue c of
       None \<Rightarrow> (0, c)
     | Some q \<Rightarrow> (let (n, q1) = gap_clear q in (n, c\<lparr>sc_gap_queue := Some q1\<rparr>)))"

definition note_local_logout_fed ::
  "'c \<Rightarrow> ('m, 'f, 'r, 'c, 't) session_core \<Rightarrow> usize \<times> ('m, 'f, 'r, 'c, 't) session_core" where
  "note_local_logout_fed cause c =
     clear_gap_queue (c\<lparr>sc_resend := None, sc_held_logon := None, sc_logout_sent := True,
                        sc_logout_cause := Some cause\<rparr>)"

definition take_logout_cause ::
  "('m, 'f, 'r, 'c, 't) session_core \<Rightarrow> 'c option \<times> ('m, 'f, 'r, 'c, 't) session_core" where
  "take_logout_cause c = (sc_logout_cause c, c\<lparr>sc_logout_cause := None\<rparr>)"

definition core_decide_peer_logout ::
  "logout_phase \<Rightarrow> instant \<Rightarrow> bytes option \<Rightarrow> bool \<Rightarrow> ('m, 'f, 'r, 'c, 't) session_core
     \<Rightarrow> peer_logout_decision \<times> ('m, 'f, 'r, 'c, 't) session_core" where
  "core_decide_peer_logout phase now text resend_in_progress c =
    (let (d, owed) = decide_peer_logout phase (sc_logout_owed c) now text resend_in_progress
     in (d, c\<lparr>sc_logout_owed := owed\<rparr>))"

definition core_owed_logout_due :: "instant \<Rightarrow> duration \<Rightarrow> ('m, 'f, 'r, 'c, 't) session_core \<Rightarrow> bool" where
  "core_owed_logout_due now logout_timeout c = owed_logout_due (sc_logout_owed c) now logout_timeout"

definition take_owed_logout_text ::
  "('m, 'f, 'r, 'c, 't) session_core \<Rightarrow> bytes option \<times> ('m, 'f, 'r, 'c, 't) session_core" where
  "take_owed_logout_text c = (Option.bind (sc_logout_owed c) owed_text, c\<lparr>sc_logout_owed := None\<rparr>)"

definition note_test_request_fed :: "bytes \<Rightarrow> ('m, 'f, 'r, 'c, 't) on_core" where
  "note_test_request_fed test_req_id c = c\<lparr>sc_unwritten_test_request := Some test_req_id\<rparr>"

definition take_written_test_request ::
  "('m, 'f, 'r, 'c, 't) session_core \<Rightarrow> bytes option \<times> ('m, 'f, 'r, 'c, 't) session_core" where
  "take_written_test_request c = (sc_unwritten_test_request c, c\<lparr>sc_unwritten_test_request := None\<rparr>)"

definition note_read_while_replaying :: "('m, 'f, 'r, 'c, 't) on_core" where
  "note_read_while_replaying c =
    (case checked_add (sc_reads_since_replay_step c) 1 of
       Some reads \<Rightarrow> c\<lparr>sc_reads_since_replay_step := reads\<rparr> | None \<Rightarrow> c)"

definition note_replay_step :: "('m, 'f, 'r, 'c, 't) on_core" where
  "note_replay_step c = c\<lparr>sc_reads_since_replay_step := 0\<rparr>"

definition core_reads_yield_to_replay :: "('m, 'f, 'r, 'c, 't) session_core \<Rightarrow> bool" where
  "core_reads_yield_to_replay c = reads_yield_to_replay (sc_reads_since_replay_step c)"

subsection \<open>Held sends\<close>

definition note_held :: "usize \<Rightarrow> ('m, 'f, 'r, 'c, 't) on_core" where
  "note_held bytes c =
    c\<lparr>sc_held_sends := (case usize_add (sc_held_sends c) 1 of Some n \<Rightarrow> n | None \<Rightarrow> usize_max),
      sc_held_bytes := (case usize_add (sc_held_bytes c) bytes of Some n \<Rightarrow> n | None \<Rightarrow> usize_max)\<rparr>"

definition note_unheld :: "usize \<Rightarrow> ('m, 'f, 'r, 'c, 't) on_core" where
  "note_unheld bytes c =
    c\<lparr>sc_held_sends := (case usize_sub (sc_held_sends c) 1 of Some n \<Rightarrow> n | None \<Rightarrow> 0),
      sc_held_bytes := (case usize_sub (sc_held_bytes c) bytes of Some n \<Rightarrow> n | None \<Rightarrow> 0)\<rparr>"

definition hold :: "('m held_entry \<Rightarrow> usize) \<Rightarrow> 'm held_entry \<Rightarrow> ('m, 'f, 'r, 'c, 't) on_core" where
  "hold weigh_held entry c = (note_held (weigh_held entry) c)\<lparr>sc_held := sc_held c @ [entry]\<rparr>"

definition hold_resend_request ::
  "('m held_entry \<Rightarrow> usize) \<Rightarrow> ('m, 'f, 'r, 'c, 't) session_core \<Rightarrow> bool \<times> ('m, 'f, 'r, 'c, 't) session_core" where
  "hold_resend_request weigh_held c =
    (if list_ex (\<lambda>e. case e of HeldResendRequest \<Rightarrow> True | _ \<Rightarrow> False) (sc_held c) then (False, c)
     else (True, hold weigh_held HeldResendRequest c))"

definition unhold ::
  "('m held_entry \<Rightarrow> usize) \<Rightarrow> ('m, 'f, 'r, 'c, 't) session_core \<Rightarrow> 'm held_entry option \<times> ('m, 'f, 'r, 'c, 't) session_core" where
  "unhold weigh_held c =
    (case sc_held c of
       [] \<Rightarrow> (None, c)
     | entry # rest \<Rightarrow> (Some entry, note_unheld (weigh_held entry) (c\<lparr>sc_held := rest\<rparr>)))"

definition drain_held :: "('m, 'f, 'r, 'c, 't) session_core \<Rightarrow> 'm held_entry list \<times> ('m, 'f, 'r, 'c, 't) session_core" where
  "drain_held c = (sc_held c, c\<lparr>sc_held_sends := 0, sc_held_bytes := 0, sc_held := []\<rparr>)"

definition core_hold_full :: "('m, 'f, 'r, 'c, 't) session_core \<Rightarrow> bool" where
  "core_hold_full c = hold_full (sc_held_sends c) (sc_held_bytes c)"

subsection \<open>Replays\<close>

definition queue_replay ::
  "u64 \<Rightarrow> u64 \<Rightarrow> bool \<Rightarrow> 'r \<Rightarrow> ('m, 'f, 'r, 'c, 't) session_core \<Rightarrow> bool \<times> ('m, 'f, 'r, 'c, 't) session_core" where
  "queue_replay begin_seq new_seq has_store payload c =
    (case resend_replay_new begin_seq new_seq has_store of
       None \<Rightarrow> (False, c)
     | Some replay \<Rightarrow>
         if replay_queue_full (length (sc_replays c)) \<and> sc_replays c \<noteq> []
         then (True, c\<lparr>sc_replays := butlast (sc_replays c)
                 @ [(last (sc_replays c))\<lparr>job_replay := widen replay (job_replay (last (sc_replays c)))\<rparr>]\<rparr>)
         else (True, c\<lparr>sc_replays := sc_replays c @ [\<lparr>job_replay = replay, job_payload = payload\<rparr>]\<rparr>))"

definition take_replay ::
  "('m, 'f, 'r, 'c, 't) session_core \<Rightarrow> 'r replay_job option \<times> ('m, 'f, 'r, 'c, 't) session_core" where
  "take_replay c =
    (case sc_replays c of [] \<Rightarrow> (None, c) | job # rest \<Rightarrow> (Some job, c\<lparr>sc_replays := rest\<rparr>))"

definition resume_replay :: "'r replay_job \<Rightarrow> ('m, 'f, 'r, 'c, 't) on_core" where
  "resume_replay job c = c\<lparr>sc_replays := job # sc_replays c\<rparr>"

definition clear_replays :: "('m, 'f, 'r, 'c, 't) on_core" where
  "clear_replays c = c\<lparr>sc_replays := []\<rparr>"

definition gap_release_paused :: "('m, 'f, 'r, 'c, 't) session_core \<Rightarrow> bool" where
  "gap_release_paused c \<longleftrightarrow> replaying c \<and> core_hold_full c"

datatype gap_admission = GapQueued | GapDuplicate | GapFirstOverflow | GapOverflow | GapBypassed

definition queue_gapped ::
  "('f \<Rightarrow> usize) \<Rightarrow> session_phase \<Rightarrow> u64 \<Rightarrow> 'f gap_entry \<Rightarrow> ('m, 'f, 'r, 'c, 't) session_core
     \<Rightarrow> gap_admission \<times> ('m, 'f, 'r, 'c, 't) session_core" where
  "queue_gapped weigh phase seq entry c =
    (if \<not> phase_is_active phase \<or> sc_logout_owed c \<noteq> None then (GapBypassed, c)
     else (case sc_gap_queue c of
             None \<Rightarrow> (GapBypassed, c)
           | Some q \<Rightarrow>
               (case gap_insert weigh seq entry q of
                  (Queued, q1) \<Rightarrow> (GapQueued, c\<lparr>sc_gap_queue := Some q1\<rparr>)
                | (Duplicate, q1) \<Rightarrow> (GapDuplicate, c\<lparr>sc_gap_queue := Some q1\<rparr>)
                | (Overflow, q1) \<Rightarrow>
                    (let (first, q2) = first_overflow q1
                     in (if first then GapFirstOverflow else GapOverflow, c\<lparr>sc_gap_queue := Some q2\<rparr>)))))"

definition take_gap_ready ::
  "('f \<Rightarrow> usize) \<Rightarrow> u64 \<Rightarrow> ('m, 'f, 'r, 'c, 't) session_core \<Rightarrow> 'f gap_ready option \<times> ('m, 'f, 'r, 'c, 't) session_core" where
  "take_gap_ready weigh expected c =
    (case sc_gap_queue c of
       None \<Rightarrow> (None, c)
     | Some q \<Rightarrow>
         if gap_is_empty q then (None, c)
         else (let (ready, q1) = take_ready weigh expected q in (Some ready, c\<lparr>sc_gap_queue := Some q1\<rparr>)))"

definition gap_queued :: "('m, 'f, 'r, 'c, 't) session_core \<Rightarrow> (usize \<times> usize) option" where
  "gap_queued c = map_option (\<lambda>q. (gap_len q, gq_bytes q)) (sc_gap_queue c)"

subsection \<open>The throttle\<close>

definition attach_throttle :: "token_bucket_spec list \<Rightarrow> instant \<Rightarrow> ('m, 'f, 'r, 'c, 't) on_core" where
  "attach_throttle specs now c = c\<lparr>sc_throttle := Some (throttle_new specs now)\<rparr>"

definition throttle_admit ::
  "u8 \<Rightarrow> 't \<Rightarrow> instant \<Rightarrow> ('m, 'f, 'r, 'c, 't) session_core \<Rightarrow> 't throttle_admission \<times> ('m, 'f, 'r, 'c, 't) session_core" where
  "throttle_admit budget item now c =
    (case sc_throttle c of
       Some th \<Rightarrow> (let (a, th1) = admit budget item now th in (a, c\<lparr>sc_throttle := Some th1\<rparr>))
     | None \<Rightarrow> (AdmitNow item, c))"

definition throttle_release_op ::
  "instant \<Rightarrow> ('m, 'f, 'r, 'c, 't) session_core \<Rightarrow> (u8 \<times> 't) option \<times> ('m, 'f, 'r, 'c, 't) session_core" where
  "throttle_release_op now c =
    (case sc_throttle c of
       Some th \<Rightarrow> (let (x, th1) = release now th in (x, c\<lparr>sc_throttle := Some th1\<rparr>))
     | None \<Rightarrow> (None, c))"

definition throttle_release_at ::
  "instant \<Rightarrow> ('m, 'f, 'r, 'c, 't) session_core \<Rightarrow> throttle_release \<times> ('m, 'f, 'r, 'c, 't) session_core" where
  "throttle_release_at now c =
    (case sc_throttle c of
       None \<Rightarrow> (ReleaseIdle, c)
     | Some th \<Rightarrow>
         (let (at, th1) = next_release now th; c1 = c\<lparr>sc_throttle := Some th1\<rparr>
          in (case at of None \<Rightarrow> ReleaseIdle | Some t \<Rightarrow> if t \<le> now then ReleaseNow else ReleaseAt t, c1)))"

definition throttle_charge :: "u8 \<Rightarrow> instant \<Rightarrow> ('m, 'f, 'r, 'c, 't) on_core" where
  "throttle_charge budget now c = c\<lparr>sc_throttle := map_option (charge_at budget now) (sc_throttle c)\<rparr>"

definition throttle_refund :: "u8 \<Rightarrow> ('m, 'f, 'r, 'c, 't) on_core" where
  "throttle_refund budget c = c\<lparr>sc_throttle := map_option (refund budget) (sc_throttle c)\<rparr>"

definition throttle_held :: "('m, 'f, 'r, 'c, 't) session_core \<Rightarrow> usize" where
  "throttle_held c = (case sc_throttle c of Some th \<Rightarrow> th_held th | None \<Rightarrow> 0)"

definition drain_throttled ::
  "('m, 'f, 'r, 'c, 't) session_core \<Rightarrow> (u8 \<times> 't) list \<times> ('m, 'f, 'r, 'c, 't) session_core" where
  "drain_throttled c =
    (case sc_throttle c of
       Some th \<Rightarrow> (let (xs, th1) = drain th in (xs, c\<lparr>sc_throttle := Some th1\<rparr>))
     | None \<Rightarrow> ([], c))"

end
