(* ===== verification/Session_Core_Inv.thy ===== *)
theory Session_Core_Inv
  imports Session_Core
begin

text \<open>
  The invariant of \<open>session_core\<close> over any sequence of its operations, what the queues
  of held sends and of replays promise, and how the driver chases an unanswered gap with it.
\<close>

datatype phase_op = EnterPhase session_phase | TakePhase | AdvanceLogout bool instant

datatype resend_op =
    DecideGapRequest u64 u64 | ArmRequested u64 u64 session_config instant
  | ArmHeldRequest u64 u64 session_config instant | ArmUncharged u64 u64 session_config instant
  | HoldLogon u64 u64 session_config instant | ReleaseHeldLogon | DecideHeldLogon u64
  | InboundProgress u64 instant | RecordRetry instant | RestartClock instant | TakeCharge
  | HeldRequestWritten bool instant | SpannedRerequest u64

datatype 'c logout_op =
    LocalLogoutFed 'c | TakeLogoutCause | PeerLogout logout_phase instant "bytes option" bool
  | TakeOwedText | TestRequestFed bytes | TakeTestRequest | ReadWhileReplaying | ReplayStep

datatype 'm held_op = HoldSend 'm | HoldRequest | Unhold | DrainHeld

datatype 'r replay_op =
  QueueReplay u64 u64 bool 'r | TakeReplay | ResumeReplay "'r replay_job" | ClearReplays

datatype 'f gap_op = QueueGapped session_phase u64 "'f gap_entry" | TakeGapReady u64 | ClearGap

datatype 't rate_op =
    AttachThrottle "token_bucket_spec list" instant | Admit u8 't instant | Release instant
  | ReleaseAtOp instant | Charge u8 instant | Refund u8 | DrainThrottled

datatype ('m, 'f, 'r, 'c, 't) core_op =
    PhaseOp phase_op | ResendOp resend_op | LogoutOp "'c logout_op" | HeldOp "'m held_op"
  | ReplayOp "'r replay_op" | GapOp "'f gap_op" | RateOp "'t rate_op"

fun phase_apply :: "phase_op \<Rightarrow> ('m, 'f, 'r, 'c, 't) on_core" where
  "phase_apply (EnterPhase p) c = enter_phase p c"
| "phase_apply TakePhase c = snd (take_phase c)"
| "phase_apply (AdvanceLogout b t) c = core_advance_logout b t c"

fun resend_apply :: "resend_op \<Rightarrow> ('m, 'f, 'r, 'c, 't) on_core" where
  "resend_apply (DecideGapRequest e h) c = snd (core_decide_gap_request e h c)"
| "resend_apply (ArmRequested e h cfg t) c = arm_requested e h cfg t c"
| "resend_apply (ArmHeldRequest e h cfg t) c = arm_held_request e h cfg t c"
| "resend_apply (ArmUncharged e h cfg t) c = arm_uncharged e h cfg t c"
| "resend_apply (HoldLogon e l cfg t) c = hold_logon e l cfg t c"
| "resend_apply ReleaseHeldLogon c = snd (release_held_logon_to_request c)"
| "resend_apply (DecideHeldLogon n) c = snd (decide_held_logon_release n c)"
| "resend_apply (InboundProgress n t) c = snd (core_note_inbound_progress n t c)"
| "resend_apply (RecordRetry t) c = core_record_retry t c"
| "resend_apply (RestartClock t) c = restart_resend_clock t c"
| "resend_apply TakeCharge c = snd (take_resend_charge c)"
| "resend_apply (HeldRequestWritten b t) c = note_held_request_written b t c"
| "resend_apply (SpannedRerequest e) c = note_spanned_rerequest e c"

fun logout_apply :: "'c logout_op \<Rightarrow> ('m, 'f, 'r, 'c, 't) on_core" where
  "logout_apply (LocalLogoutFed x) c = snd (note_local_logout_fed x c)"
| "logout_apply TakeLogoutCause c = snd (take_logout_cause c)"
| "logout_apply (PeerLogout p t x b) c = snd (core_decide_peer_logout p t x b c)"
| "logout_apply TakeOwedText c = snd (take_owed_logout_text c)"
| "logout_apply (TestRequestFed i) c = note_test_request_fed i c"
| "logout_apply TakeTestRequest c = snd (take_written_test_request c)"
| "logout_apply ReadWhileReplaying c = note_read_while_replaying c"
| "logout_apply ReplayStep c = note_replay_step c"

fun held_apply :: "('m held_entry \<Rightarrow> usize) \<Rightarrow> 'm held_op \<Rightarrow> ('m, 'f, 'r, 'c, 't) on_core" where
  "held_apply wh (HoldSend m) c = hold wh (HeldMessage m) c"
| "held_apply wh HoldRequest c = snd (hold_resend_request wh c)"
| "held_apply wh Unhold c = snd (unhold wh c)"
| "held_apply wh DrainHeld c = snd (drain_held c)"

fun replay_op_apply :: "'r replay_op \<Rightarrow> ('m, 'f, 'r, 'c, 't) on_core" where
  "replay_op_apply (QueueReplay b n st p) c = snd (queue_replay b n st p c)"
| "replay_op_apply TakeReplay c = snd (take_replay c)"
| "replay_op_apply (ResumeReplay j) c = resume_replay j c"
| "replay_op_apply ClearReplays c = clear_replays c"

fun gap_apply :: "('f \<Rightarrow> usize) \<Rightarrow> 'f gap_op \<Rightarrow> ('m, 'f, 'r, 'c, 't) on_core" where
  "gap_apply w (QueueGapped p s e) c = snd (queue_gapped w p s e c)"
| "gap_apply w (TakeGapReady e) c = snd (take_gap_ready w e c)"
| "gap_apply w ClearGap c = snd (clear_gap_queue c)"

fun rate_apply :: "'t rate_op \<Rightarrow> ('m, 'f, 'r, 'c, 't) on_core" where
  "rate_apply (AttachThrottle s t) c = attach_throttle s t c"
| "rate_apply (Admit b x t) c = snd (throttle_admit b x t c)"
| "rate_apply (Release t) c = snd (throttle_release_op t c)"
| "rate_apply (ReleaseAtOp t) c = snd (throttle_release_at t c)"
| "rate_apply (Charge b t) c = throttle_charge b t c"
| "rate_apply (Refund b) c = throttle_refund b c"
| "rate_apply DrainThrottled c = snd (drain_throttled c)"

fun core_apply ::
  "('m held_entry \<Rightarrow> usize) \<Rightarrow> ('f \<Rightarrow> usize) \<Rightarrow> ('m, 'f, 'r, 'c, 't) core_op \<Rightarrow> ('m, 'f, 'r, 'c, 't) on_core" where
  "core_apply wh w (PhaseOp x) c = phase_apply x c"
| "core_apply wh w (ResendOp x) c = resend_apply x c"
| "core_apply wh w (LogoutOp x) c = logout_apply x c"
| "core_apply wh w (HeldOp x) c = held_apply wh x c"
| "core_apply wh w (ReplayOp x) c = replay_op_apply x c"
| "core_apply wh w (GapOp x) c = gap_apply w x c"
| "core_apply wh w (RateOp x) c = rate_apply x c"

subsection \<open>Invariant\<close>

fun is_request :: "'m held_entry \<Rightarrow> bool" where
  "is_request HeldResendRequest = True" | "is_request (HeldMessage _) = False"

definition held_bytes_of :: "('m held_entry \<Rightarrow> usize) \<Rightarrow> 'm held_entry list \<Rightarrow> nat" where
  "held_bytes_of wh es = sum_list (map wh es)"

definition held_inv :: "('m held_entry \<Rightarrow> usize) \<Rightarrow> ('m, 'f, 'r, 'c, 't) session_core \<Rightarrow> bool" where
  "held_inv wh c \<longleftrightarrow> sc_held_sends c = length (sc_held c) \<and> sc_held_bytes c = held_bytes_of wh (sc_held c)
     \<and> length (filter is_request (sc_held c)) \<le> 1"

definition core_gap_inv :: "('f \<Rightarrow> usize) \<Rightarrow> ('m, 'f, 'r, 'c, 't) session_core \<Rightarrow> bool" where
  "core_gap_inv w c \<longleftrightarrow> (case sc_gap_queue c of None \<Rightarrow> True
     | Some q \<Rightarrow> gap_inv w q \<and> gq_max_messages q \<le> usize_max)"

definition core_inv ::
  "('m held_entry \<Rightarrow> usize) \<Rightarrow> ('f \<Rightarrow> usize) \<Rightarrow> ('m, 'f, 'r, 'c, 't) session_core \<Rightarrow> bool" where
  "core_inv wh w c \<longleftrightarrow> held_inv wh c \<and> core_gap_inv w c"

text \<open>Everything held fits in the address space when one more send is held.\<close>

definition hold_fits :: "('m held_entry \<Rightarrow> usize) \<Rightarrow> ('m, 'f, 'r, 'c, 't) core_op \<Rightarrow> ('m, 'f, 'r, 'c, 't) session_core \<Rightarrow> bool" where
  "hold_fits wh op c \<longleftrightarrow>
     (case op of
        HeldOp (HoldSend m) \<Rightarrow> length (sc_held c) < usize_max \<and> held_bytes_of wh (sc_held c) + wh (HeldMessage m) \<le> usize_max
      | HeldOp HoldRequest \<Rightarrow> length (sc_held c) < usize_max \<and> held_bytes_of wh (sc_held c) + wh HeldResendRequest \<le> usize_max
      | _ \<Rightarrow> True)"

lemmas core_op_defs = enter_phase_def take_phase_def core_advance_logout_def core_decide_gap_request_def
  arm_requested_def arm_held_request_def arm_uncharged_def hold_logon_def release_held_logon_to_request_def
  decide_held_logon_release_def core_note_inbound_progress_def core_record_retry_def restart_resend_clock_def
  take_resend_charge_def note_held_request_written_def note_spanned_rerequest_def take_logout_cause_def
  core_decide_peer_logout_def take_owed_logout_text_def note_test_request_fed_def take_written_test_request_def
  note_read_while_replaying_def note_replay_step_def take_replay_def resume_replay_def clear_replays_def
  attach_throttle_def throttle_admit_def throttle_release_op_def throttle_release_at_def throttle_charge_def
  throttle_refund_def drain_throttled_def

lemma clear_gap_queue_fields [simp]:
  "sc_held (snd (clear_gap_queue c)) = sc_held c" "sc_held_sends (snd (clear_gap_queue c)) = sc_held_sends c"
  "sc_held_bytes (snd (clear_gap_queue c)) = sc_held_bytes c" "sc_replays (snd (clear_gap_queue c)) = sc_replays c"
  by (auto simp: clear_gap_queue_def gap_clear_def Let_def split: option.splits)

lemma queue_replay_fields [simp]:
  "sc_held (snd (queue_replay b n st p c)) = sc_held c" "sc_held_sends (snd (queue_replay b n st p c)) = sc_held_sends c"
  "sc_held_bytes (snd (queue_replay b n st p c)) = sc_held_bytes c"
  "sc_gap_queue (snd (queue_replay b n st p c)) = sc_gap_queue c"
  by (auto simp: queue_replay_def split: option.splits)

lemma queue_gapped_fields [simp]:
  "sc_held (snd (queue_gapped w p s e c)) = sc_held c" "sc_held_sends (snd (queue_gapped w p s e c)) = sc_held_sends c"
  "sc_held_bytes (snd (queue_gapped w p s e c)) = sc_held_bytes c"
  by (auto simp: queue_gapped_def Let_def split: option.splits gap_insertion.splits prod.splits)

lemma take_gap_ready_fields [simp]:
  "sc_held (snd (take_gap_ready w e c)) = sc_held c" "sc_held_sends (snd (take_gap_ready w e c)) = sc_held_sends c"
  "sc_held_bytes (snd (take_gap_ready w e c)) = sc_held_bytes c"
  by (auto simp: take_gap_ready_def Let_def split: option.splits prod.splits)

definition same_held :: "('m, 'f, 'r, 'c, 't) session_core \<Rightarrow> ('m, 'f, 'r, 'c, 't) session_core \<Rightarrow> bool" where
  "same_held c c' \<longleftrightarrow> sc_held c' = sc_held c \<and> sc_held_sends c' = sc_held_sends c \<and> sc_held_bytes c' = sc_held_bytes c"

lemma phase_keeps: "same_held c (phase_apply x c)" "sc_gap_queue (phase_apply x c) = sc_gap_queue c"
  by (cases x; auto simp: same_held_def core_op_defs split: option.splits)+

lemma resend_keeps: "same_held c (resend_apply x c)" "sc_gap_queue (resend_apply x c) = sc_gap_queue c"
  by (cases x; auto simp: same_held_def core_op_defs Let_def split: option.splits prod.splits)+

lemma logout_keeps: "same_held c (logout_apply x c)"
  by (cases x) (auto simp: same_held_def core_op_defs note_local_logout_fed_def Let_def split: option.splits prod.splits)

lemma replay_keeps: "same_held c (replay_op_apply x c)" "sc_gap_queue (replay_op_apply x c) = sc_gap_queue c"
  by (cases x; auto simp: same_held_def core_op_defs split: list.splits)+

lemma gap_keeps: "same_held c (gap_apply w x c)"
  by (cases x) (simp_all add: same_held_def)

lemma rate_keeps: "same_held c (rate_apply x c)" "sc_gap_queue (rate_apply x c) = sc_gap_queue c"
  by (cases x; auto simp: same_held_def core_op_defs Let_def split: option.splits prod.splits)+

lemma hold_fields [simp]:
  "sc_gap_queue (hold wh e c) = sc_gap_queue c" "sc_replays (hold wh e c) = sc_replays c"
  by (simp_all add: hold_def note_held_def)

lemma unhold_fields [simp]:
  "sc_gap_queue (snd (unhold wh c)) = sc_gap_queue c" "sc_replays (snd (unhold wh c)) = sc_replays c"
  by (auto simp: unhold_def note_unheld_def split: list.splits)

lemma held_keeps_gap: "sc_gap_queue (held_apply wh x c) = sc_gap_queue c"
  by (cases x) (auto simp: hold_resend_request_def drain_held_def)

lemma hold_inv:
  assumes "held_inv wh c" and "length (sc_held c) < usize_max"
    and "held_bytes_of wh (sc_held c) + wh e \<le> usize_max"
    and "is_request e \<Longrightarrow> filter is_request (sc_held c) = []"
  shows "held_inv wh (hold wh e c)"
  using assms by (cases e) (auto simp: held_inv_def hold_def note_held_def usize_add_def held_bytes_of_def)

lemma no_request: "\<not> list_ex (\<lambda>e. case e of HeldResendRequest \<Rightarrow> True | _ \<Rightarrow> False) es \<longleftrightarrow> filter is_request es = []"
  by (induction es) (auto split: held_entry.splits)

lemma same_held_inv: "same_held c c' \<Longrightarrow> held_inv wh c \<Longrightarrow> held_inv wh c'"
  by (simp add: same_held_def held_inv_def)

lemma held_apply_inv:
  assumes inv: "held_inv wh c" and fits: "hold_fits wh (HeldOp x) c"
  shows "held_inv wh (held_apply wh x c)"
proof (cases x)
  case (HoldSend m)
  then show ?thesis using inv fits by (auto simp: hold_fits_def intro!: hold_inv)
next
  case HoldRequest
  then show ?thesis using inv fits no_request[of "sc_held c"]
    by (auto simp: hold_resend_request_def hold_fits_def intro!: hold_inv)
next
  case Unhold
  then show ?thesis using inv
    by (cases "sc_held c") (auto simp: unhold_def note_unheld_def usize_sub_def held_inv_def held_bytes_of_def split: if_splits)
next
  case DrainHeld
  then show ?thesis by (simp add: drain_held_def held_inv_def held_bytes_of_def)
qed

lemma core_held_step:
  assumes inv: "held_inv wh c" and fits: "hold_fits wh op c"
  shows "held_inv wh (core_apply wh w op c)"
  using assms
  by (cases op) (auto intro: same_held_inv phase_keeps resend_keeps logout_keeps replay_keeps gap_keeps
      rate_keeps held_apply_inv)

lemma gap_clear_inv: "gap_inv w (snd (gap_clear q))"
  by (simp add: gap_clear_def gap_inv_def bt_ordered_def Session_Gap_Queue.held_total_def)

lemma clear_gap_inv: "core_gap_inv w c \<Longrightarrow> core_gap_inv w (snd (clear_gap_queue c))"
  using gap_clear_inv
  by (auto simp: core_gap_inv_def clear_gap_queue_def gap_clear_def Let_def split: option.splits)

lemma gap_insert_max: "gq_max_messages (snd (gap_insert w s e q)) = gq_max_messages q"
  by (auto simp: gap_insert_def split: option.splits)

lemma first_overflow_inv: "gap_inv w (snd (first_overflow q)) = gap_inv w q"
  by (simp add: first_overflow_def gap_inv_def)

lemma queue_gapped_inv:
  assumes "core_gap_inv w c"
  shows "core_gap_inv w (snd (queue_gapped w p s e c))"
proof (cases "sc_gap_queue c")
  case None
  then show ?thesis using assms by (simp add: queue_gapped_def core_gap_inv_def)
next
  case (Some q)
  obtain a q1 where a: "gap_insert w s e q = (a, q1)" by fastforce
  have q: "gap_inv w q" "gq_max_messages q \<le> usize_max" using assms Some by (simp_all add: core_gap_inv_def)
  have "gap_inv w q1" "gq_max_messages q1 \<le> usize_max"
    using gap_insert_inv[OF q(1), of s e] gap_insert_max[of w s e q] a q(2) by simp_all
  then show ?thesis
    using Some a assms
    by (cases a) (auto simp: queue_gapped_def core_gap_inv_def first_overflow_def gap_inv_def)
qed

lemma take_gap_ready_inv:
  assumes "core_gap_inv w c"
  shows "core_gap_inv w (snd (take_gap_ready w e c))"
proof (cases "sc_gap_queue c")
  case None
  then show ?thesis using assms by (simp add: take_gap_ready_def core_gap_inv_def)
next
  case (Some q)
  obtain a q1 where a: "take_ready w e q = (a, q1)" by fastforce
  have q: "gap_inv w q" "gq_max_messages q \<le> usize_max" using assms Some by (simp_all add: core_gap_inv_def)
  from take_ready_spec[OF q a] q(2) show ?thesis
    using Some a assms by (simp add: take_gap_ready_def core_gap_inv_def)
qed

lemma gap_inv_keeps: "sc_gap_queue c' = sc_gap_queue c \<Longrightarrow> core_gap_inv w c \<Longrightarrow> core_gap_inv w c'"
  by (simp add: core_gap_inv_def)

lemma logout_gap_inv:
  assumes inv: "core_gap_inv w c"
  shows "core_gap_inv w (logout_apply x c)"
proof (cases x)
  case (LocalLogoutFed y)
  have "core_gap_inv w (c\<lparr>sc_resend := None, sc_held_logon := None, sc_logout_sent := True, sc_logout_cause := Some y\<rparr>)"
    using inv by (simp add: core_gap_inv_def)
  from clear_gap_inv[OF this] show ?thesis using LocalLogoutFed by (simp add: note_local_logout_fed_def)
qed (use inv in \<open>auto simp: core_op_defs core_gap_inv_def Let_def split: option.splits prod.splits\<close>)

lemma gap_apply_inv: "core_gap_inv w c \<Longrightarrow> core_gap_inv w (gap_apply w x c)"
  by (cases x) (simp_all add: queue_gapped_inv take_gap_ready_inv clear_gap_inv)

lemma gap_step: "core_gap_inv w c \<Longrightarrow> core_gap_inv w (core_apply wh w op c)"
  by (cases op) (auto intro: gap_inv_keeps phase_keeps resend_keeps replay_keeps rate_keeps held_keeps_gap
      logout_gap_inv gap_apply_inv)

lemma core_step: "core_inv wh w c \<Longrightarrow> hold_fits wh op c \<Longrightarrow> core_inv wh w (core_apply wh w op c)"
  by (simp add: core_inv_def core_held_step gap_step)

text \<open>A run, with what each hold needs.\<close>

fun holds_fit :: "('m held_entry \<Rightarrow> usize) \<Rightarrow> ('f \<Rightarrow> usize) \<Rightarrow> ('m, 'f, 'r, 'c, 't) core_op list
    \<Rightarrow> ('m, 'f, 'r, 'c, 't) session_core \<Rightarrow> bool" where
  "holds_fit wh w [] c \<longleftrightarrow> True"
| "holds_fit wh w (op # ops) c \<longleftrightarrow> hold_fits wh op c \<and> holds_fit wh w ops (core_apply wh w op c)"

lemma core_run: "core_inv wh w c \<Longrightarrow> holds_fit wh w ops c \<Longrightarrow> core_inv wh w (fold (core_apply wh w) ops c)"
  by (induction ops arbitrary: c) (simp_all add: core_step)

fun policy_fits :: "gap_policy \<Rightarrow> bool" where
  "policy_fits DiscardPolicy \<longleftrightarrow> True"
| "policy_fits (QueuePolicy m b) \<longleftrightarrow> m \<le> usize_max"

lemma core_new_inv: "policy_fits p \<Longrightarrow> core_inv wh w (core_with_gap_policy p)"
  using gap_inv_for_policy[of p]
  by (cases p) (auto simp: core_inv_def held_inv_def core_gap_inv_def core_with_gap_policy_def core_new_def
      held_bytes_of_def gap_queue_for_policy_def)

subsection \<open>Queued replays cover what was asked\<close>

definition pending_range :: "'r replay_job \<Rightarrow> nat set" where
  "pending_range j = {unat (rp_reply_cursor (job_replay j)) ..< unat (rp_new_seq (job_replay j))}"

definition pending :: "('m, 'f, 'r, 'c, 't) session_core \<Rightarrow> nat set" where
  "pending c = (\<Union>j\<in>set (sc_replays c). pending_range j)"

definition replays_inv :: "('m, 'f, 'r, 'c, 't) session_core \<Rightarrow> bool" where
  "replays_inv c \<longleftrightarrow> list_all (\<lambda>j. replay_inv (job_replay j)) (sc_replays c)"

lemma widen_inv: "replay_inv r \<Longrightarrow> replay_inv o' \<Longrightarrow> replay_inv (widen o' r)"
  by (auto simp: replay_inv_def widen_def Let_def word_le_nat_alt min_def max_def)

lemma widen_range:
  "{unat (rp_reply_cursor r) ..< unat (rp_new_seq r)} \<union> {unat (rp_reply_cursor o') ..< unat (rp_new_seq o')}
     \<subseteq> {unat (rp_reply_cursor (widen o' r)) ..< unat (rp_new_seq (widen o' r))}"
  by (auto simp: widen_def Let_def min_def max_def word_le_nat_alt)

lemma queue_replay_spec:
  assumes inv: "replays_inv c" and range: "0 < b" "b < n"
  shows "fst (queue_replay b n st p c)"
    and "pending c \<union> {unat b ..< unat n} \<subseteq> pending (snd (queue_replay b n st p c))"
    and "replays_inv (snd (queue_replay b n st p c))"
    and "length (sc_replays (snd (queue_replay b n st p c))) = 
      (if MAX_QUEUED_REPLAYS \<le> length (sc_replays c) then length (sc_replays c) else Suc (length (sc_replays c)))"
proof -
  define r where "r = \<lparr>rp_new_seq = n, rp_end_seq = n - 1, rp_reply_cursor = b, rp_read_from = b,
          rp_store_done = (\<not> st), rp_started = False\<rparr>"
  have new: "resend_replay_new b n st = Some r" using range by (simp add: replay_new_Some r_def)
  then have ri: "replay_inv r" "rp_reply_cursor r = b" "rp_new_seq r = n"
    using replay_new_inv[OF new] by simp_all
  have "fst (queue_replay b n st p c) \<and> pending c \<union> {unat b ..< unat n} \<subseteq> pending (snd (queue_replay b n st p c))
    \<and> replays_inv (snd (queue_replay b n st p c))
    \<and> length (sc_replays (snd (queue_replay b n st p c))) = 
      (if MAX_QUEUED_REPLAYS \<le> length (sc_replays c) then length (sc_replays c) else Suc (length (sc_replays c)))"
  proof (cases "replay_queue_full (length (sc_replays c)) \<and> sc_replays c \<noteq> []")
    case False
    then have "\<not> MAX_QUEUED_REPLAYS \<le> length (sc_replays c)"
      by (auto simp: replay_queue_full_def MAX_QUEUED_REPLAYS_def)
    with False show ?thesis
      using new ri inv by (auto simp: queue_replay_def pending_def pending_range_def replays_inv_def)
  next
    case True
    let ?j = "last (sc_replays c)"
    let ?w = "?j\<lparr>job_replay := widen r (job_replay ?j)\<rparr>"
    have rs: "sc_replays c = butlast (sc_replays c) @ [?j]" using True by simp
    have full: "MAX_QUEUED_REPLAYS \<le> length (sc_replays c)" using True by (simp add: replay_queue_full_def)
    have q: "queue_replay b n st p c = (True, c\<lparr>sc_replays := butlast (sc_replays c) @ [?w]\<rparr>)"
      using True new by (simp add: queue_replay_def)
    have "replay_inv (job_replay ?j)" using inv True by (simp add: replays_inv_def list_all_iff)
    then have "replay_inv (job_replay ?w)" using ri by (simp add: widen_inv)
    moreover have "list_all (\<lambda>j. replay_inv (job_replay j)) (butlast (sc_replays c))"
      using inv by (auto simp: replays_inv_def list_all_iff dest: in_set_butlastD)
    moreover have "pending_range ?j \<union> {unat b ..< unat n} \<subseteq> pending_range ?w"
      using widen_range[of "job_replay ?j" r] ri by (simp add: pending_range_def)
    moreover have "pending c = (\<Union>j\<in>set (butlast (sc_replays c)). pending_range j) \<union> pending_range ?j"
      unfolding pending_def by (subst rs) auto
    ultimately show ?thesis using q full True by (auto simp: pending_def replays_inv_def)
  qed
  then show "fst (queue_replay b n st p c)"
    "pending c \<union> {unat b ..< unat n} \<subseteq> pending (snd (queue_replay b n st p c))"
    "replays_inv (snd (queue_replay b n st p c))"
    "length (sc_replays (snd (queue_replay b n st p c))) = 
      (if MAX_QUEUED_REPLAYS \<le> length (sc_replays c) then length (sc_replays c) else Suc (length (sc_replays c)))"
    by blast+
qed

subsection \<open>Decisions\<close>

lemma held_logon_once:
  "decide_held_logon_release n c = (d, c') \<Longrightarrow> d \<noteq> LogonWait \<Longrightarrow>
     sc_held_logon c' = None \<and> (\<exists>l. sc_held_logon c = Some l \<and> l \<le> n \<and> d = (if l < n then LogonPassed l else LogonConsume l))"
  by (auto simp: decide_held_logon_release_def not_less split: option.splits if_splits)

lemma tick_probe:
  "decide_tick p i c = TickLiveness a \<Longrightarrow> a = SendTestRequest \<or> a = SendHeartbeat \<Longrightarrow>
     \<not> replaying c \<and> \<not> ti_output_bound_reached i
     \<and> core_decide_stall (ti_now i) (ti_resend_request_unwritten i) c = StallWait
     \<and> (a = SendTestRequest \<longrightarrow> sc_unwritten_test_request c = None)
     \<and> (a = SendHeartbeat \<longrightarrow> \<not> ti_output_waiting i)"
  by (auto simp: decide_tick_def decide_liveness_def probe_gate_def split: if_splits stall_action.splits)

subsection \<open>Chasing an unanswered gap\<close>

text \<open>
  What the driver does with the core while the counterparty leaves a gap open: a tick decides,
  and a request it sends again is recorded, is unwritten from then on, and gives up a held
  Logon; a later frame of the same gap asks nothing; and the pass that finds the request
  written whole starts its clock.  The second component is the instant an unwritten request
  was sent (\<^verbatim>\<open>on_tick\<close>, \<^verbatim>\<open>on_resend_stalled\<close> and
  \<^verbatim>\<open>advance_probes\<close> of the reactor).
\<close>

datatype stall_event = GapTick tick_input | LaterFrame instant u64 | RequestWritten instant

primrec event_at :: "stall_event \<Rightarrow> instant" where
  "event_at (GapTick i) = ti_now i" | "event_at (LaterFrame t h) = t" | "event_at (RequestWritten t) = t"

type_synonym ('m, 'f, 'r, 'c, 't) chased = "('m, 'f, 'r, 'c, 't) session_core \<times> instant option"

fun chase_step ::
  "session_phase \<Rightarrow> stall_event \<Rightarrow> ('m, 'f, 'r, 'c, 't) chased \<Rightarrow> tick_decision list \<times> ('m, 'f, 'r, 'c, 't) chased" where
  "chase_step phase (GapTick i) (c, unwritten) =
    (let d = decide_tick phase (i\<lparr>ti_resend_request_unwritten := (unwritten \<noteq> None)\<rparr>) c
     in ([d], case d of
           TickStalled (StallRetry _) \<Rightarrow>
             (snd (release_held_logon_to_request (core_record_retry (ti_now i) c)), Some (ti_now i))
         | _ \<Rightarrow> (c, unwritten)))"
| "chase_step phase (LaterFrame now high_water) (c, unwritten) =
    ([], case resend_expected c of
           Some expected \<Rightarrow> (snd (core_decide_gap_request expected high_water c), unwritten)
         | None \<Rightarrow> (c, unwritten))"
| "chase_step phase (RequestWritten now) (c, unwritten) =
    ([], if unwritten = None then (c, unwritten) else (restart_resend_clock now c, None))"

fun chase :: "session_phase \<Rightarrow> stall_event list \<Rightarrow> ('m, 'f, 'r, 'c, 't) chased \<Rightarrow> tick_decision list" where
  "chase phase [] st = []"
| "chase phase (e # es) st = (let (ds, st1) = chase_step phase e st in ds @ chase phase es st1)"

text \<open>
  The events keep time: each tick comes within \<open>period\<close> of the one before (\<open>since\<close>), may
  write, and a request sent again is written whole within \<open>delay\<close>.
\<close>

fun keeps_time ::
  "duration \<Rightarrow> duration \<Rightarrow> session_phase \<Rightarrow> instant \<Rightarrow> stall_event list \<Rightarrow> ('m, 'f, 'r, 'c, 't) chased \<Rightarrow> bool" where
  "keeps_time period delay phase since [] st \<longleftrightarrow> True"
| "keeps_time period delay phase since (e # es) st \<longleftrightarrow>
    (case snd st of Some sent \<Rightarrow> event_at e \<le> sent + delay | None \<Rightarrow> True)
    \<and> (case e of
         GapTick i \<Rightarrow> ti_now i \<le> since + period \<and> \<not> ti_output_bound_reached i
           \<and> keeps_time period delay phase (ti_now i) es (snd (chase_step phase e st))
       | _ \<Rightarrow> keeps_time period delay phase since es (snd (chase_step phase e st)))"

definition asks_again :: "tick_decision \<Rightarrow> bool" where
  "asks_again d \<longleftrightarrow> (case d of TickStalled (StallRetry _) \<Rightarrow> True | _ \<Rightarrow> False)"

definition retries_left :: "resend_state \<Rightarrow> nat" where
  "retries_left r = unat (rs_limit r) - unat (rs_attempts r)"

lemma asks_again_simps [simp]:
  "asks_again (TickStalled (StallRetry n))" "\<not> asks_again (TickStalled (StallAbandon n a))"
  "\<not> asks_again (TickLiveness l)"
  by (simp_all add: asks_again_def)

lemma retries_left_simps [simp]:
  "retries_left (raise_high_water h r) = retries_left r" "retries_left (restart_clock t r) = retries_left r"
  "retries_left (r\<lparr>rs_requested_at := t\<rparr>) = retries_left r"
  by (simp_all add: retries_left_def restart_clock_def)

lemma can_retry_left: "can_retry r \<longleftrightarrow> 0 < retries_left r"
  by (auto simp: can_retry_def retries_left_def word_less_nat_alt)

lemma retry_takes_one: "can_retry r \<Longrightarrow> retries_left r = Suc (retries_left (record_retry t r))"
  using record_retry_simps[of r t] by (auto simp: retries_left_def can_retry_left)

text \<open>Every step of the chase, on a gap of an active session that replays nothing.\<close>

lemma chase_frame:
  assumes "sc_resend c = Some r"
  shows "chase_step phase (LaterFrame t h) (c, u) = ([], c\<lparr>sc_resend := Some (raise_high_water h r)\<rparr>, u)"
  using assms by (simp add: resend_expected_def core_decide_gap_request_def decide_gap_request_def Let_def)

lemma chase_written:
  assumes "sc_resend c = Some r"
  shows "chase_step phase (RequestWritten t) (c, Some s) = ([], c\<lparr>sc_resend := Some (restart_clock t r)\<rparr>, None)"
  using assms by (simp add: restart_resend_clock_def)

lemma chase_tick:
  assumes "sc_resend c = Some r" and "\<not> replaying c" and "\<not> ti_output_bound_reached i"
  obtains (wait) a where "chase_step (PhaseActive s) (GapTick i) (c, u) = ([TickLiveness a], c, u)"
      "u = None \<Longrightarrow> \<not> is_stalled r (ti_now i)"
  | (retry) "chase_step (PhaseActive s) (GapTick i) (c, u) = ([TickStalled (StallRetry (rs_expected r))],
        c\<lparr>sc_resend := Some (record_retry (ti_now i) r), sc_held_logon := None\<rparr>, Some (ti_now i))"
      "u = None" "is_stalled r (ti_now i)" "can_retry r"
  | (abandon) "chase_step (PhaseActive s) (GapTick i) (c, u) =
        ([TickStalled (StallAbandon (rs_expected r) (rs_attempts r))], c, u)" "\<not> can_retry r"
proof (cases "u = None \<and> is_stalled r (ti_now i)")
  case True
  with assms that(2,3) show ?thesis
    by (cases "can_retry r") (auto simp: decide_tick_def core_decide_stall_def decide_stall_def
        core_record_retry_def release_held_logon_to_request_def)
next
  case False
  with assms that(1) show ?thesis by (auto simp: decide_tick_def core_decide_stall_def decide_stall_def)
qed

declare chase_step.simps [simp del]

lemma retries_counted:
  assumes "sc_resend c = Some r" and "\<not> replaying c"
  shows "length (filter asks_again (chase (PhaseActive s) es (c, u))) \<le> retries_left r"
  using assms
proof (induction es arbitrary: c r u)
  case (Cons e es)
  show ?case
  proof (cases e)
    case (GapTick i)
    show ?thesis
    proof (cases "ti_output_bound_reached i")
      case True
      then have "chase_step (PhaseActive s) (GapTick i) (c, u) =
          ([TickLiveness (decide_liveness (ti_heartbeat i) (ti_now i) DeadlinesOnly)], c, u)"
        using Cons.prems by (simp add: decide_tick_def chase_step.simps)
      then show ?thesis using GapTick Cons by simp
    next
      case False
      show ?thesis
        using Cons.prems False
      proof (cases rule: chase_tick[where s = s and u = u])
        case retry
        have "length (filter asks_again (chase (PhaseActive s) es (c\<lparr>sc_resend := Some (record_retry (ti_now i) r),
            sc_held_logon := None\<rparr>, Some (ti_now i)))) \<le> retries_left (record_retry (ti_now i) r)"
          using Cons.prems by (intro Cons.IH) (simp_all add: replaying_def)
        then show ?thesis using GapTick retry(1) retry_takes_one[OF retry(4), of "ti_now i"] by simp
      qed (use GapTick Cons in simp_all)
    qed
  next
    case (LaterFrame t h)
    have "length (filter asks_again (chase (PhaseActive s) es (c\<lparr>sc_resend := Some (raise_high_water h r)\<rparr>, u)))
        \<le> retries_left (raise_high_water h r)"
      using Cons.prems by (intro Cons.IH) (simp_all add: replaying_def)
    then show ?thesis using LaterFrame chase_frame[OF Cons.prems(1)] by simp
  next
    case (RequestWritten t)
    have "length (filter asks_again (chase (PhaseActive s) es (c\<lparr>sc_resend := Some (restart_clock t r)\<rparr>, None)))
        \<le> retries_left (restart_clock t r)"
      using Cons.prems by (intro Cons.IH) (simp_all add: replaying_def)
    then show ?thesis using RequestWritten Cons chase_written[OF Cons.prems(1)] by (cases u) (simp_all add: chase_step.simps)
  qed
qed simp

text \<open>What is abandoned is the open gap, and only once its attempts are used up.\<close>

lemma abandon_spent:
  assumes "sc_resend c = Some r" and "\<not> replaying c"
    and "TickStalled (StallAbandon n a) \<in> set (chase (PhaseActive s) es (c, u))"
  shows "n = rs_expected r \<and> rs_limit r \<le> a"
  using assms
proof (induction es arbitrary: c r u)
  case (Cons e es)
  show ?case
  proof (cases e)
    case (GapTick i)
    show ?thesis
    proof (cases "ti_output_bound_reached i")
      case True
      then have "chase_step (PhaseActive s) (GapTick i) (c, u) =
          ([TickLiveness (decide_liveness (ti_heartbeat i) (ti_now i) DeadlinesOnly)], c, u)"
        using Cons.prems by (simp add: decide_tick_def chase_step.simps)
      then show ?thesis using GapTick Cons by simp
    next
      case False
      show ?thesis
        using Cons.prems(1,2) False
      proof (cases rule: chase_tick[where s = s and u = u])
        case retry
        let ?r = "record_retry (ti_now i) r"
        have "n = rs_expected ?r \<and> rs_limit ?r \<le> a"
          using GapTick Cons.prems retry(1)
          by (intro Cons.IH[of "c\<lparr>sc_resend := Some ?r, sc_held_logon := None\<rparr>" ?r "Some (ti_now i)"])
            (auto simp: replaying_def)
        then show ?thesis using record_retry_simps[OF retry(4), of "ti_now i"] by simp
      qed (use GapTick Cons in \<open>auto simp: can_retry_def\<close>)
    qed
  next
    case (LaterFrame t h)
    let ?r = "raise_high_water h r"
    have "n = rs_expected ?r \<and> rs_limit ?r \<le> a"
      using LaterFrame Cons.prems chase_frame[OF Cons.prems(1)]
      by (intro Cons.IH[of "c\<lparr>sc_resend := Some ?r\<rparr>" ?r u]) (auto simp: replaying_def)
    then show ?thesis by simp
  next
    case (RequestWritten t)
    let ?r = "restart_clock t r"
    have "n = rs_expected ?r \<and> rs_limit ?r \<le> a" if "u \<noteq> None"
      using that RequestWritten Cons.prems chase_written[OF Cons.prems(1)]
      by (intro Cons.IH[of "c\<lparr>sc_resend := Some ?r\<rparr>" ?r None]) (auto simp: replaying_def)
    then show ?thesis using RequestWritten Cons by (cases u) (simp_all add: chase_step.simps restart_clock_def)
  qed
qed simp

text \<open>
  While nothing is abandoned, no tick comes later than the request's clock, the attempts left
  and the pace of the events allow.
\<close>

definition patience :: "duration \<Rightarrow> duration \<Rightarrow> resend_state \<Rightarrow> instant option \<Rightarrow> instant" where
  "patience period delay r unwritten =
     (case unwritten of None \<Rightarrow> rs_requested_at r | Some sent \<Rightarrow> sent + delay) + rs_timeout r + period
     + retries_left r * (rs_timeout r + period + delay)"

lemma not_stalled_before: "\<not> is_stalled r t \<Longrightarrow> t \<le> rs_requested_at r + rs_timeout r"
  by (auto simp: is_stalled_def elapsed_between_def duration_since_def split: if_splits)

lemma chase_patience:
  assumes "sc_resend c = Some r" and "\<not> replaying c"
    and "keeps_time period delay (PhaseActive s) since es (c, u)" and "sorted (since # map event_at es)"
    and "u = None \<Longrightarrow> since \<le> rs_requested_at r + rs_timeout r"
    and "\<And>a. TickStalled (StallAbandon (rs_expected r) a) \<notin> set (chase (PhaseActive s) es (c, u))"
    and "GapTick i \<in> set es"
  shows "ti_now i \<le> patience period delay r u"
  using assms
proof (induction es arbitrary: c r u since)
  case (Cons e es)
  show ?case
  proof (cases e)
    case (GapTick j)
    then have wr: "\<not> ti_output_bound_reached j" using Cons.prems(3) by simp
    show ?thesis
      using Cons.prems(1,2) wr
    proof (cases rule: chase_tick[where s = s and u = u])
      case (wait a)
      have now: "u = None \<Longrightarrow> ti_now j \<le> rs_requested_at r + rs_timeout r"
        using wait(2) by (simp add: not_stalled_before)
      show ?thesis
      proof (cases "e = GapTick i")
        case True
        then show ?thesis using GapTick now Cons.prems(3) by (cases u) (auto simp: patience_def)
      next
        case False
        then show ?thesis
          using GapTick Cons.prems wait now by (intro Cons.IH[of c r "ti_now j" u]) auto
      qed
    next
      case retry
      let ?r = "record_retry (ti_now j) r"
      let ?c = "c\<lparr>sc_resend := Some ?r, sc_held_logon := None\<rparr>"
      note rr = record_retry_simps[OF retry(4), of "ti_now j"]
      have now: "ti_now j \<le> rs_requested_at r + rs_timeout r + period"
        using GapTick retry(2) Cons.prems(3,5) by simp
      have "patience period delay ?r (Some (ti_now j)) \<le> patience period delay r None"
        using now rr retry_takes_one[OF retry(4), of "ti_now j"] by (simp add: patience_def)
      moreover have "ti_now i \<le> patience period delay ?r (Some (ti_now j))" if "e \<noteq> GapTick i"
        using that GapTick Cons.prems retry(1) rr
        by (intro Cons.IH[of ?c ?r "ti_now j" "Some (ti_now j)"]) (auto simp: replaying_def)
      moreover have "ti_now j \<le> patience period delay r None" using now by (simp add: patience_def)
      ultimately show ?thesis using GapTick retry(2) by (cases "e = GapTick i") auto
    next
      case abandon
      then show ?thesis using GapTick Cons.prems(6)[of "rs_attempts r"] by simp
    qed
  next
    case (LaterFrame t h)
    let ?r = "raise_high_water h r"
    have "ti_now i \<le> patience period delay ?r u"
      using LaterFrame Cons.prems chase_frame[OF Cons.prems(1)]
      by (intro Cons.IH[of "c\<lparr>sc_resend := Some ?r\<rparr>" ?r since u]) (auto simp: replaying_def)
    then show ?thesis by (cases u) (simp_all add: patience_def)
  next
    case (RequestWritten t)
    show ?thesis
    proof (cases u)
      case None
      show ?thesis unfolding None using None RequestWritten Cons.prems by (intro Cons.IH[of c r since None]) (auto simp: chase_step.simps)
    next
      case (Some sent)
      let ?r = "restart_clock t r"
      have "ti_now i \<le> patience period delay ?r None"
        using RequestWritten Some Cons.prems chase_written[OF Cons.prems(1)]
        by (intro Cons.IH[of "c\<lparr>sc_resend := Some ?r\<rparr>" ?r since None]) (auto simp: replaying_def restart_clock_def)
      moreover have "t \<le> sent + delay" using RequestWritten Some Cons.prems(3) by simp
      ultimately show ?thesis using Some by (simp add: patience_def restart_clock_def)
    qed
  qed
qed simp

end
