(* ===== verification/Session_Logon.thy ===== *)
theory Session_Logon
  imports Session_Inbound
begin

text \<open>
  The Logon decisions (\<^verbatim>\<open>ironfix-session/src/logon.rs\<close>): refusal, resets, counters and
  their seeds, the interval, NextExpectedMsgSeqNum (789) and the comparison of both sides'
  numbers.  A \<^verbatim>\<open>NonZeroU64\<close> is a \<open>u64\<close>; where the code builds one it tests for zero
  and so does the model.
\<close>

datatype logon_role = Initiator | Acceptor
datatype logon_stage = BeforeAdmission | Admitted | Authenticated
datatype logon_refusal = SilentSessionLive | SilentStoreAttached | Provisional | Filed

definition decide_logon_refusal :: "logon_role \<Rightarrow> logon_stage \<Rightarrow> bool \<Rightarrow> bool \<Rightarrow> logon_refusal" where
  "decide_logon_refusal role stage store_attached session_live =
    (if role = Initiator \<or> stage = Authenticated then Filed
     else if stage = BeforeAdmission \<and> session_live then SilentSessionLive
     else if store_attached then SilentStoreAttached
     else Provisional)"

fun default_appl_ver_id_required :: "logon_role \<Rightarrow> bool \<Rightarrow> bool" where
  "default_appl_ver_id_required Acceptor strict_ack = True"
| "default_appl_ver_id_required Initiator strict_ack = strict_ack"

definition reset_flag_contradicts :: "bool \<Rightarrow> u64 \<Rightarrow> bool" where
  "reset_flag_contradicts resets seq \<longleftrightarrow> resets \<and> seq \<noteq> 1"

definition initiator_resets :: "bool \<Rightarrow> bool \<Rightarrow> bool" where
  "initiator_resets reset_on_logon reset_owed \<longleftrightarrow> reset_on_logon \<or> reset_owed"

definition acceptor_resets :: "bool \<Rightarrow> bool \<Rightarrow> bool \<Rightarrow> bool" where
  "acceptor_resets inbound_reset reset_on_logon reset_owed \<longleftrightarrow> inbound_reset \<or> reset_on_logon \<or> reset_owed"

definition owes_reset_durably :: "bool \<Rightarrow> bool \<Rightarrow> bool" where
  "owes_reset_durably resets store_attached \<longleftrightarrow> resets \<and> store_attached"

definition ADOPTED_RESET_NEXT_SENDER :: u64 where "ADOPTED_RESET_NEXT_SENDER = 2"
definition ADOPTED_RESET_NEXT_TARGET :: u64 where "ADOPTED_RESET_NEXT_TARGET = 1"
definition ADOPTED_RESET_STORED_TARGET :: u64 where "ADOPTED_RESET_STORED_TARGET = 2"

datatype ack_reset = AckNone | AckEchoed | AckAdopt

fun decide_ack_reset :: "bool \<Rightarrow> bool \<Rightarrow> ack_reset" where
  "decide_ack_reset logon_reset False = AckNone"
| "decide_ack_reset True True = AckEchoed"
| "decide_ack_reset False True = AckAdopt"

definition classify_logon_seq :: "bool \<Rightarrow> u64 \<Rightarrow> sequence_manager \<Rightarrow> sequence_result" where
  "classify_logon_seq exchange_resets seq sequences =
    (if exchange_resets \<and> 0 < seq then SeqOk else validate_incoming sequences seq)"

datatype logon_gap_action = LogonGapHold | LogonGapRequest

definition decide_logon_gap :: "bool \<Rightarrow> bool \<Rightarrow> logon_gap_action" where
  "decide_logon_gap sends_next_expected peer_declared =
    (if sends_next_expected \<and> peer_declared then LogonGapHold else LogonGapRequest)"

definition negotiate_logon_interval ::
  "logon_role \<Rightarrow> duration \<Rightarrow> u64 \<Rightarrow> heartbeat_interval_error + duration" where
  "negotiate_logon_interval role requested peer_secs =
    (case role of
       Initiator \<Rightarrow> negotiate_interval requested peer_secs
     | Acceptor \<Rightarrow>
         if MAX_HEARTBEAT_INTERVAL_SECS < peer_secs
         then Inl (HeartbeatIntervalError peer_secs MAX_HEARTBEAT_INTERVAL_SECS)
         else Inr (from_secs peer_secs))"

definition interval_change :: "duration \<Rightarrow> duration \<Rightarrow> duration option" where
  "interval_change current negotiated = (if negotiated \<noteq> current then Some negotiated else None)"

datatype ack_heart_bt_int_defect = HbMissing | HbMalformed | HbOutOfRange

fun session_reject_reason :: "ack_heart_bt_int_defect \<Rightarrow> u32" where
  "session_reject_reason HbMissing = 1"
| "session_reject_reason HbMalformed = 6"
| "session_reject_reason HbOutOfRange = 5"

definition declared_next_expected :: "session_config \<Rightarrow> sequence_manager \<Rightarrow> u64 option" where
  "declared_next_expected config sequences =
    (if cfg_send_next_expected_msg_seq_num config then Some (next_target_seq sequences) else None)"

definition NEXT_EXPECTED_AFTER_RESET :: u64 where "NEXT_EXPECTED_AFTER_RESET = 2"

datatype screened_next_expected = NeAbsent | NeUse u64 | NeIgnored u64 bool

fun usable :: "screened_next_expected \<Rightarrow> u64 option" where
  "usable (NeUse declared) = Some declared"
| "usable NeAbsent = None"
| "usable (NeIgnored _ _) = None"

definition screen_next_expected :: "u64 option \<Rightarrow> bool \<Rightarrow> bool \<Rightarrow> screened_next_expected" where
  "screen_next_expected declared this_side_resets peer_resets =
    (case declared of
       None \<Rightarrow> NeAbsent
     | Some d \<Rightarrow> if this_side_resets \<and> \<not> peer_resets then NeIgnored d (d = NEXT_EXPECTED_AFTER_RESET) else NeUse d)"

record next_expected_basis =
  own_logon_seq :: u64
  next_outbound :: u64

definition basis_initiator :: "bool \<Rightarrow> u64 \<Rightarrow> u64 \<Rightarrow> next_expected_basis" where
  "basis_initiator ack_resets logon_seq next_sender =
    (if ack_resets then \<lparr>own_logon_seq = 1, next_outbound = ADOPTED_RESET_NEXT_SENDER\<rparr>
     else \<lparr>own_logon_seq = logon_seq, next_outbound = next_sender\<rparr>)"

definition basis_acceptor :: "u64 \<Rightarrow> next_expected_basis" where
  "basis_acceptor ack_seq = \<lparr>own_logon_seq = ack_seq, next_outbound = ack_seq\<rparr>"

definition basis_acceptor_reset :: next_expected_basis where
  "basis_acceptor_reset = basis_acceptor 1"

datatype next_expected_plan = InStep | PlanReplay u64 u64
datatype next_expected_ahead = NextExpectedAhead u64 u64

fun replay_range :: "next_expected_plan \<Rightarrow> (u64 \<times> u64) option" where
  "replay_range InStep = None"
| "replay_range (PlanReplay b e) = Some (b, e)"

definition plan_next_expected :: "u64 \<Rightarrow> next_expected_basis \<Rightarrow> next_expected_ahead + next_expected_plan" where
  "plan_next_expected declared basis =
    (if next_outbound basis < declared then Inl (NextExpectedAhead declared (next_outbound basis))
     else if declared < own_logon_seq basis then Inr (PlanReplay declared (own_logon_seq basis))
     else Inr InStep)"

datatype seed_source = SeedReset | SeedInitial bool | SeedStore | SeedFresh

definition decide_seed_source :: "bool \<Rightarrow> bool \<Rightarrow> bool \<Rightarrow> bool \<Rightarrow> seed_source" where
  "decide_seed_source reset has_initial store_attached closes_session =
    (if reset then SeedReset
     else if has_initial then SeedInitial (store_attached \<and> closes_session)
     else if store_attached then SeedStore else SeedFresh)"

definition seed_from_initial :: "u64 \<times> u64 \<Rightarrow> sequence_counter + sequence_manager" where
  "seed_from_initial p =
    (case p of (sender, target) \<Rightarrow>
       if sender = 0 then Inl Sender else if target = 0 then Inl Target else Inr (with_initial sender target))"

definition initial_below_store :: "u64 \<Rightarrow> u64 \<Rightarrow> bool" where
  "initial_below_store seeded_sender stored_sender \<longleftrightarrow> seeded_sender < stored_sender"

record store_seed =
  seed_sequences :: sequence_manager
  seed_sender_held :: bool
  seed_target_held :: bool

definition seed_from_store :: "u64 \<Rightarrow> u64 \<Rightarrow> store_seed" where
  "seed_from_store sender target =
    (let (s, sh) = (if sender \<noteq> 0 then (sender, True) else (1, False));
         (t, th) = (if target \<noteq> 0 then (target, True) else (1, False))
     in \<lparr>seed_sequences = with_initial s t, seed_sender_held = sh, seed_target_held = th\<rparr>)"

definition initial_seed_applies :: "bool \<Rightarrow> bool \<Rightarrow> bool" where
  "initial_seed_applies reset_on_logon reset_owed \<longleftrightarrow> \<not> initiator_resets reset_on_logon reset_owed"

definition provisional_counters :: "(u64 \<times> u64) option \<Rightarrow> bool \<Rightarrow> sequence_manager" where
  "provisional_counters initial reset_on_logon =
    (case initial of
       Some i \<Rightarrow> if \<not> reset_on_logon
                 then (case seed_from_initial i of Inr m \<Rightarrow> m | Inl _ \<Rightarrow> sequence_manager_new)
                 else sequence_manager_new
     | None \<Rightarrow> sequence_manager_new)"

definition inbound_loss_span :: "u64 \<Rightarrow> u64 \<Rightarrow> (u64 \<times> u64) option" where
  "inbound_loss_span watermark next_target =
    (if watermark = 0 then None
     else Option.bind (checked_add watermark 1) (\<lambda>first.
          Option.bind (checked_sub next_target 1) (\<lambda>last_seq.
          if first \<le> last_seq then Some (first, last_seq) else None)))"

definition mismatch_report_applies :: "bool \<Rightarrow> bool \<Rightarrow> bool" where
  "mismatch_report_applies this_side_resets peer_resets \<longleftrightarrow> \<not> this_side_resets \<and> \<not> peer_resets"

record logon_counters =
  lc_next_sender :: u64
  lc_next_target :: u64
  lc_next_outbound :: u64

definition counters_initiator :: "u64 \<Rightarrow> u64 \<Rightarrow> u64 \<Rightarrow> logon_counters" where
  "counters_initiator logon_seq startup_target next_sender =
    \<lparr>lc_next_sender = logon_seq, lc_next_target = startup_target, lc_next_outbound = next_sender\<rparr>"

definition counters_acceptor :: "sequence_manager \<Rightarrow> logon_counters" where
  "counters_acceptor sequences =
    \<lparr>lc_next_sender = next_sender_seq sequences, lc_next_target = next_target_seq sequences,
     lc_next_outbound = next_sender_seq sequences\<rparr>"

datatype logon_inbound_mismatch = LogonGap u64 u64 | LogonTooLow u64 u64

datatype logon_outbound_comparison =
    NotDeclared | Consistent u64 | PeerMissed u64 u64 | PeerAhead u64 u64

fun outbound_is_mismatch :: "logon_outbound_comparison \<Rightarrow> bool" where
  "outbound_is_mismatch (PeerMissed _ _) = True"
| "outbound_is_mismatch (PeerAhead _ _) = True"
| "outbound_is_mismatch _ = False"

record logon_sequence_comparison =
  cmp_inbound :: "logon_inbound_mismatch option"
  cmp_outbound :: logon_outbound_comparison

definition comparison_is_mismatch :: "logon_sequence_comparison \<Rightarrow> bool" where
  "comparison_is_mismatch c \<longleftrightarrow> cmp_inbound c \<noteq> None \<or> outbound_is_mismatch (cmp_outbound c)"

definition compare_logon_inbound :: "u64 \<Rightarrow> u64 \<Rightarrow> logon_inbound_mismatch option" where
  "compare_logon_inbound peer_logon_seq next_target =
    (if peer_logon_seq = next_target then None
     else if peer_logon_seq < next_target then Some (LogonTooLow peer_logon_seq next_target)
     else (case checked_sub peer_logon_seq 1 of
             Some last_seq \<Rightarrow> Some (LogonGap next_target last_seq)
           | None \<Rightarrow> None))"

definition compare_logon_outbound :: "u64 option \<Rightarrow> u64 \<Rightarrow> u64 \<Rightarrow> logon_outbound_comparison" where
  "compare_logon_outbound peer_next_expected own next_out =
    (case peer_next_expected of
       None \<Rightarrow> NotDeclared
     | Some declared \<Rightarrow>
         if next_out < declared then PeerAhead declared next_out
         else if declared < own
         then (case checked_sub own 1 of Some last_seq \<Rightarrow> PeerMissed declared last_seq | None \<Rightarrow> Consistent declared)
         else Consistent declared)"

definition compare_logon_sequences :: "logon_counters \<Rightarrow> u64 \<Rightarrow> u64 option \<Rightarrow> logon_sequence_comparison" where
  "compare_logon_sequences counters peer_logon_seq peer_next_expected =
    \<lparr>cmp_inbound = compare_logon_inbound peer_logon_seq (lc_next_target counters),
     cmp_outbound = compare_logon_outbound peer_next_expected (lc_next_sender counters) (lc_next_outbound counters)\<rparr>"

definition logon_deadline :: "instant \<Rightarrow> duration \<Rightarrow> instant option" where
  "logon_deadline started logon_timeout = instant_add started logon_timeout"

definition logon_timed_out :: "instant \<Rightarrow> instant \<Rightarrow> duration \<Rightarrow> bool" where
  "logon_timed_out started now logon_timeout \<longleftrightarrow> logon_timeout \<le> elapsed_between started now"

definition logon_ack_deadline :: "session \<Rightarrow> duration \<Rightarrow> instant option" where
  "logon_ack_deadline s logon_timeout =
    Option.bind (logon_sent_at (session_state s)) (\<lambda>t. logon_deadline t logon_timeout)"

subsection \<open>Lemmas\<close>

lemma seed_never_zero:
  "seed_sequences (seed_from_store a b) = m \<Longrightarrow> next_sender_seq m \<noteq> 0 \<and> next_target_seq m \<noteq> 0"
  "seed_from_initial p = Inr m \<Longrightarrow> next_sender_seq m \<noteq> 0 \<and> next_target_seq m \<noteq> 0"
  by (auto simp: seed_from_store_def Let_def with_initial_def seed_from_initial_def split: if_splits prod.splits)

lemma provisional_never_zero:
  "next_sender_seq (provisional_counters i r) \<noteq> 0 \<and> next_target_seq (provisional_counters i r) \<noteq> 0"
  using seed_never_zero(2)
  by (auto simp: provisional_counters_def sequence_manager_new_def split: option.splits sum.splits)

text \<open>
  What each side learns from the other's declaration: the plan of the sender and the report of
  the comparison agree on whether, and from where, numbers are missing.
\<close>

lemma plan_matches_comparison:
  "compare_logon_outbound (Some d) (own_logon_seq b) (next_outbound b) =
    (case plan_next_expected d b of
       Inl (NextExpectedAhead d' n) \<Rightarrow> PeerAhead d' n
     | Inr InStep \<Rightarrow> Consistent d
     | Inr (PlanReplay f t) \<Rightarrow> PeerMissed f (t - 1))"
proof -
  have "d < own_logon_seq b \<Longrightarrow> 1 \<le> own_logon_seq b"
    by (auto simp: word_less_nat_alt word_le_nat_alt)
  then show ?thesis by (auto simp: compare_logon_outbound_def plan_next_expected_def checked_sub_def)
qed

lemma compare_inbound_exact:
  "compare_logon_inbound n e = None \<longleftrightarrow> n = e"
  "compare_logon_inbound n e = Some (LogonGap a b) \<longleftrightarrow> e < n \<and> a = e \<and> b = n - 1"
  "compare_logon_inbound n e = Some (LogonTooLow a b) \<longleftrightarrow> n < e \<and> a = n \<and> b = e"
proof -
  have "e < n \<Longrightarrow> 1 \<le> n" by (auto simp: word_less_nat_alt word_le_nat_alt)
  then have "e < n \<Longrightarrow> checked_sub n 1 = Some (n - 1)" by (simp add: checked_sub_def)
  then show "compare_logon_inbound n e = None \<longleftrightarrow> n = e"
    "compare_logon_inbound n e = Some (LogonGap a b) \<longleftrightarrow> e < n \<and> a = e \<and> b = n - 1"
    "compare_logon_inbound n e = Some (LogonTooLow a b) \<longleftrightarrow> n < e \<and> a = n \<and> b = e"
    by (auto simp: compare_logon_inbound_def)
qed

end
