(* ===== verification/Session_Header.thy ===== *)
theory Session_Header
  imports Decoder Session_Config
begin

text \<open>
  What a session checks in the header of a decoded message
  (\<^verbatim>\<open>ironfix-session/src/header.rs\<close>): where the standard header ends, identities,
  SendingTime with its calendar arithmetic, HeartBtInt, application versions and the
  encryption method.  An error keeps its tags and numbers; the peer's text it echoes for a
  human reader is dropped.  A \<^verbatim>\<open>u64\<close> computed with checked operations is a natural number
  with the checks written out (its bound is that of a \<open>usize\<close>).
\<close>

definition HEADER_TAGS :: "u32 list" where
  "HEADER_TAGS = [8, 9, 34, 35, 43, 49, 50, 52, 56, 57, 90, 91, 97, 115, 116, 122, 128, 129, 142, 143,
     144, 145, 212, 213, 347, 369, 370, 627, 628, 629, 630, 1128, 1129, 1156]"

definition is_standard_header_tag :: "u32 \<Rightarrow> bool" where
  "is_standard_header_tag tag \<longleftrightarrow> tag \<in> set HEADER_TAGS"

abbreviation raw_fields :: "raw_message \<Rightarrow> field list" where
  "raw_fields raw \<equiv> as_slice (rm_fields raw)"

fun in_header_loop :: "field list \<Rightarrow> u32 \<Rightarrow> bool" where
  "in_header_loop [] tag = False"
| "in_header_loop (f # fs) tag =
     (if \<not> is_standard_header_tag (f_tag f) then False
      else if f_tag f = tag then True else in_header_loop fs tag)"

definition in_standard_header :: "raw_message \<Rightarrow> u32 \<Rightarrow> bool" where
  "in_standard_header raw tag = in_header_loop (raw_fields raw) tag"

datatype field_occurrence = Absent | Once bytes | Repeated

fun header_field_loop :: "field list \<Rightarrow> u32 \<Rightarrow> field_occurrence \<Rightarrow> field_occurrence" where
  "header_field_loop [] tag found = found"
| "header_field_loop (f # fs) tag found =
     (if \<not> is_standard_header_tag (f_tag f) then found
      else if f_tag f = tag
      then (if found \<noteq> Absent then Repeated else header_field_loop fs tag (Once (f_val f)))
      else header_field_loop fs tag found)"

definition header_field :: "raw_message \<Rightarrow> u32 \<Rightarrow> field_occurrence" where
  "header_field raw tag = header_field_loop (raw_fields raw) tag Absent"

fun message_field_loop :: "field list \<Rightarrow> u32 \<Rightarrow> field_occurrence \<Rightarrow> field_occurrence" where
  "message_field_loop [] tag found = found"
| "message_field_loop (f # fs) tag found =
     (if f_tag f = tag
      then (if found \<noteq> Absent then Repeated else message_field_loop fs tag (Once (f_val f)))
      else message_field_loop fs tag found)"

definition message_field :: "raw_message \<Rightarrow> u32 \<Rightarrow> field_occurrence" where
  "message_field raw tag = message_field_loop (raw_fields raw) tag Absent"

text \<open>\<^verbatim>\<open>str::parse::<u64>\<close>: an optional plus sign, then one or more digits within range.\<close>

fun digits_from :: "nat \<Rightarrow> bytes \<Rightarrow> nat option" where
  "digits_from acc [] = Some acc"
| "digits_from acc (b # bs) =
     (if is_ascii_digit b
      then Option.bind (usize_mul acc 10) (\<lambda>v. Option.bind (usize_add v (unat b - 48)) (\<lambda>v. digits_from v bs))
      else None)"

definition parse_u64 :: "bytes \<Rightarrow> nat option" where
  "parse_u64 s =
    (let ds = (case s of b # bs \<Rightarrow> if b = 43 then bs else s | [] \<Rightarrow> [])
     in if ds = [] then None else digits_from 0 ds)"

definition header_seq_num :: "raw_message \<Rightarrow> nat option" where
  "header_seq_num raw =
    (if \<not> in_standard_header raw 34 then None else Option.bind (raw_get_field_str raw 34) parse_u64)"

definition HEADER_MAX_HEARTBEAT_SECS :: nat where "HEADER_MAX_HEARTBEAT_SECS = 86400"

datatype heart_bt_int_problem = HbIntMissing | HbIntMalformed | HbIntOutOfRange nat

definition parse_heartbeat_interval :: "raw_message \<Rightarrow> heart_bt_int_problem + nat" where
  "parse_heartbeat_interval raw =
    (case raw_get_field_str raw 108 of
       None \<Rightarrow> Inl HbIntMissing
     | Some value \<Rightarrow>
         (case parse_u64 value of
            None \<Rightarrow> Inl HbIntMalformed
          | Some secs \<Rightarrow> if HEADER_MAX_HEARTBEAT_SECS < secs then Inl (HbIntOutOfRange secs) else Inr secs))"

subsection \<open>Identities\<close>

record identity_mismatch =
  im_tag :: u32
  im_expected :: bytes
  im_received :: bytes
  im_misplaced :: bool

record peer_identity =
  pi_sender_comp_id :: bytes
  pi_target_comp_id :: bytes
  pi_sender_sub_id :: "bytes option"
  pi_target_sub_id :: "bytes option"
  pi_sender_location_id :: "bytes option"
  pi_target_location_id :: "bytes option"

definition peer_identity_new :: "session_config \<Rightarrow> peer_identity" where
  "peer_identity_new config =
    \<lparr>pi_sender_comp_id = cfg_target_comp_id config, pi_target_comp_id = cfg_sender_comp_id config,
     pi_sender_sub_id = cfg_target_sub_id config, pi_target_sub_id = cfg_sender_sub_id config,
     pi_sender_location_id = cfg_target_location_id config, pi_target_location_id = cfg_sender_location_id config\<rparr>"

definition check_field :: "raw_message \<Rightarrow> u32 \<Rightarrow> bytes \<Rightarrow> identity_mismatch + unit" where
  "check_field raw tag expected =
    (let received = (case raw_get_field_str raw tag of Some v \<Rightarrow> v | None \<Rightarrow> []) in
     if received \<noteq> expected
     then Inl \<lparr>im_tag = tag, im_expected = expected, im_received = received, im_misplaced = False\<rparr>
     else if \<not> in_standard_header raw tag
     then Inl \<lparr>im_tag = tag, im_expected = expected, im_received = received, im_misplaced = True\<rparr>
     else Inr ())"

definition check_optional :: "raw_message \<Rightarrow> u32 \<Rightarrow> bytes option \<Rightarrow> identity_mismatch + unit" where
  "check_optional raw tag expected = (case expected of Some e \<Rightarrow> check_field raw tag e | None \<Rightarrow> Inr ())"

definition peer_identity_validate :: "peer_identity \<Rightarrow> raw_message \<Rightarrow> identity_mismatch + unit" where
  "peer_identity_validate i raw =
    bindR (check_field raw 49 (pi_sender_comp_id i)) (\<lambda>_.
    bindR (check_field raw 56 (pi_target_comp_id i)) (\<lambda>_.
    bindR (check_optional raw 50 (pi_sender_sub_id i)) (\<lambda>_.
    bindR (check_optional raw 57 (pi_target_sub_id i)) (\<lambda>_.
    bindR (check_optional raw 142 (pi_sender_location_id i)) (\<lambda>_.
    check_optional raw 143 (pi_target_location_id i))))))"

subsection \<open>SendingTime\<close>

fun parse_digits_loop :: "nat \<Rightarrow> bytes \<Rightarrow> nat option" where
  "parse_digits_loop v [] = Some v"
| "parse_digits_loop v (b # bs) =
     Option.bind (usize_mul v 10) (\<lambda>w. Option.bind (usize_add w (unat b - 48)) (\<lambda>w. parse_digits_loop w bs))"

definition parse_digits :: "bytes \<Rightarrow> nat option" where
  "parse_digits bs = (if bs = [] \<or> \<not> list_all is_ascii_digit bs then None else parse_digits_loop 0 bs)"

definition parse_fraction_millis :: "bytes \<Rightarrow> nat option" where
  "parse_fraction_millis bs =
    (if bs = [] \<or> 9 < length bs \<or> \<not> list_all is_ascii_digit bs then None
     else let digit = (\<lambda>i. case get_at bs i of Some b \<Rightarrow> unat b - 48 | None \<Rightarrow> 0)
       in Some (((0 * 10 + digit 0) * 10 + digit 1) * 10 + digit 2))"

definition MONTH_LENGTHS :: "nat list" where
  "MONTH_LENGTHS = [31, 28, 31, 30, 31, 30, 31, 31, 30, 31, 30, 31]"

definition leap_year :: "nat \<Rightarrow> bool" where
  "leap_year year \<longleftrightarrow> 4 dvd year \<and> (\<not> 100 dvd year \<or> 400 dvd year)"

definition days_in_month :: "nat \<Rightarrow> nat \<Rightarrow> nat option" where
  "days_in_month year month =
    (if month = 2 \<and> leap_year year then Some 29
     else Option.bind (usize_sub month 1) (get_at MONTH_LENGTHS))"

definition days_from_civil :: "nat \<Rightarrow> nat \<Rightarrow> nat \<Rightarrow> nat option" where
  "days_from_civil year month day =
    Option.bind (if month \<le> 2 then usize_sub year 1 else Some year) (\<lambda>shifted.
      let era = shifted div 400;
          year_of_era = shifted - era * 400;
          shifted_month = (if 2 < month then month - 3 else month + 9);
          day_of_year = (153 * shifted_month + 2) div 5 + day - 1;
          day_of_era = year_of_era * 365 + year_of_era div 4 - year_of_era div 100 + day_of_year
      in usize_sub (era * 146097 + day_of_era) 719468)"

definition parse_utc_timestamp_millis :: "bytes \<Rightarrow> nat option" where
  "parse_utc_timestamp_millis bs =
    (if length bs < 17 \<or> get_at bs 8 \<noteq> Some 45 then None
     else if get_at bs 11 \<noteq> Some 58 \<or> get_at bs 14 \<noteq> Some 58 then None
     else
       Option.bind (Option.bind (get_range bs 0 4) parse_digits) (\<lambda>year.
       Option.bind (Option.bind (get_range bs 4 6) parse_digits) (\<lambda>month.
       Option.bind (Option.bind (get_range bs 6 8) parse_digits) (\<lambda>day.
       Option.bind (Option.bind (get_range bs 9 11) parse_digits) (\<lambda>hour.
       Option.bind (Option.bind (get_range bs 12 14) parse_digits) (\<lambda>minute.
       Option.bind (Option.bind (get_range bs 15 17) parse_digits) (\<lambda>second.
       Option.bind (case get_at bs 17 of
                      None \<Rightarrow> Some 0
                    | Some b \<Rightarrow> if b = 46 then parse_fraction_millis (drop 18 bs) else None) (\<lambda>fraction_millis.
       if \<not> (1970 \<le> year \<and> year \<le> 9999) \<or> \<not> (1 \<le> month \<and> month \<le> 12) \<or> day < 1 then None
       else Option.bind (days_in_month year month) (\<lambda>dim.
         if dim < day \<or> 23 < hour \<or> 59 < minute \<or> 60 < second then None
         else Option.bind (days_from_civil year month day) (\<lambda>days.
           Option.bind (usize_mul days 86400) (\<lambda>ds.
           Option.bind (usize_mul hour 3600) (\<lambda>hs.
           Option.bind (usize_add ds hs) (\<lambda>a.
           Option.bind (usize_mul minute 60) (\<lambda>ms.
           Option.bind (usize_add a ms) (\<lambda>b.
           Option.bind (usize_add b second) (\<lambda>seconds.
           Option.bind (usize_mul seconds 1000) (\<lambda>ml. usize_add ml fraction_millis)))))))))))))))))"

datatype sending_time_problem = StMissing | StMalformed | StSkewed nat nat

fun sending_time_reject_code :: "sending_time_problem \<Rightarrow> u32" where
  "sending_time_reject_code StMissing = 1"
| "sending_time_reject_code StMalformed = 6"
| "sending_time_reject_code (StSkewed _ _) = 10"

definition sending_time_guard_new :: "session_config \<Rightarrow> duration" where
  "sending_time_guard_new config = cfg_sending_time_tolerance config"

definition sending_time_validate :: "duration \<Rightarrow> raw_message \<Rightarrow> nat \<Rightarrow> sending_time_problem + unit" where
  "sending_time_validate tolerance raw now_millis =
    (if tolerance = 0 then Inr ()
     else (case (if in_standard_header raw 52 then raw_get_field raw 52 else None) of
             None \<Rightarrow> Inl StMissing
           | Some f \<Rightarrow>
               (case field_as_str f of
                  Inl _ \<Rightarrow> Inl StMalformed
                | Inr value \<Rightarrow>
                    (case parse_utc_timestamp_millis value of
                       None \<Rightarrow> Inl StMalformed
                     | Some sent_millis \<Rightarrow>
                         let skew_millis = (if now_millis < sent_millis then sent_millis - now_millis
                                            else now_millis - sent_millis)
                         in if tolerance < from_millis (word_of_nat skew_millis)
                            then Inl (StSkewed skew_millis (min (tolerance div 1000000) usize_max))
                            else Inr ()))))"

subsection \<open>Application versions and encryption\<close>

definition DEFAULT_APPL_VER_ID :: u32 where "DEFAULT_APPL_VER_ID = 1137"
definition APPL_VER_ID :: u32 where "APPL_VER_ID = 1128"

datatype appl_version_problem =
    AvMissing u32 | AvRepeated u32 | AvOutsideHeader u32 | AvUnknown u32 | AvNotAccepted u32 bytes fix_version

fun appl_version_tag :: "appl_version_problem \<Rightarrow> u32" where
  "appl_version_tag (AvMissing tag) = tag"
| "appl_version_tag (AvRepeated tag) = tag"
| "appl_version_tag (AvOutsideHeader tag) = tag"
| "appl_version_tag (AvUnknown tag) = tag"
| "appl_version_tag (AvNotAccepted tag _ _) = tag"

fun appl_version_reject_code :: "appl_version_problem \<Rightarrow> u32" where
  "appl_version_reject_code (AvMissing _) = 1"
| "appl_version_reject_code (AvRepeated _) = 13"
| "appl_version_reject_code (AvOutsideHeader _) = 14"
| "appl_version_reject_code (AvUnknown _) = 18"
| "appl_version_reject_code (AvNotAccepted _ _ _) = 18"

definition ref_appl_ver_id :: "appl_version_problem \<Rightarrow> bytes option" where
  "ref_appl_ver_id p =
    (case p of AvNotAccepted tag code _ \<Rightarrow> if tag = APPL_VER_ID then Some code else None | _ \<Rightarrow> None)"

record appl_version_guard =
  avg_fixt :: bool
  avg_accepted :: "fix_version list"

definition appl_version_guard_new :: "session_config \<Rightarrow> fix_version \<Rightarrow> appl_version_guard" where
  "appl_version_guard_new config version =
    \<lparr>avg_fixt = uses_fixt version,
     avg_accepted = (if uses_fixt version then filter (accepts_appl_version config) fix_version_ALL else [])\<rparr>"

definition check_value :: "appl_version_guard \<Rightarrow> u32 \<Rightarrow> bytes \<Rightarrow> appl_version_problem + fix_version" where
  "check_value g tag value =
    (case (if utf8_valid value then from_appl_ver_id value else None) of
       Some version \<Rightarrow>
         if version \<in> set (avg_accepted g) then Inr version else Inl (AvNotAccepted tag value version)
     | None \<Rightarrow> Inl (AvUnknown tag))"

definition check_logon :: "appl_version_guard \<Rightarrow> raw_message \<Rightarrow> bool \<Rightarrow> appl_version_problem + fix_version option" where
  "check_logon g raw required =
    (if \<not> avg_fixt g then Inr None
     else (case message_field raw DEFAULT_APPL_VER_ID of
             Absent \<Rightarrow> if required then Inl (AvMissing DEFAULT_APPL_VER_ID) else Inr None
           | Repeated \<Rightarrow> Inl (AvRepeated DEFAULT_APPL_VER_ID)
           | Once value \<Rightarrow> bindR (check_value g DEFAULT_APPL_VER_ID value) (\<lambda>v. Inr (Some v))))"

fun application_loop :: "field list \<Rightarrow> bool \<Rightarrow> field_occurrence \<Rightarrow> appl_version_problem + field_occurrence" where
  "application_loop [] in_header found = Inr found"
| "application_loop (f # fs) in_header found =
     (let in_header' = (in_header \<and> is_standard_header_tag (f_tag f)) in
      if f_tag f \<noteq> APPL_VER_ID then application_loop fs in_header' found
      else if \<not> in_header' then Inl (AvOutsideHeader APPL_VER_ID)
      else application_loop fs in_header' (case found of Absent \<Rightarrow> Once (f_val f) | _ \<Rightarrow> Repeated))"

definition check_application :: "appl_version_guard \<Rightarrow> raw_message \<Rightarrow> appl_version_problem + unit" where
  "check_application g raw =
    (if \<not> avg_fixt g then Inr ()
     else bindR (application_loop (raw_fields raw) True Absent) (\<lambda>found.
       case found of
         Absent \<Rightarrow> Inr ()
       | Repeated \<Rightarrow> Inl (AvRepeated APPL_VER_ID)
       | Once value \<Rightarrow> bindR (check_value g APPL_VER_ID value) (\<lambda>_. Inr ())))"

datatype encrypt_method_problem = EncMissing | EncUnsupported

fun encrypt_reject_code :: "encrypt_method_problem \<Rightarrow> u32" where
  "encrypt_reject_code EncMissing = 1"
| "encrypt_reject_code EncUnsupported = 5"

definition check_encrypt_method :: "raw_message \<Rightarrow> encrypt_method_problem + unit" where
  "check_encrypt_method raw =
    (case raw_get_field raw 98 of
       None \<Rightarrow> Inl EncMissing
     | Some f \<Rightarrow> if f_val f = bytes_of ''0'' then Inr () else Inl EncUnsupported)"

subsection \<open>Header lemmas\<close>

definition header_part :: "field list \<Rightarrow> field list" where
  "header_part fs = takeWhile (\<lambda>f. is_standard_header_tag (f_tag f)) fs"

definition occurrence_of :: "bytes list \<Rightarrow> field_occurrence" where
  "occurrence_of vs = (case vs of [] \<Rightarrow> Absent | [v] \<Rightarrow> Once v | _ \<Rightarrow> Repeated)"

definition values_of :: "u32 \<Rightarrow> field list \<Rightarrow> bytes list" where
  "values_of tag fs = map f_val (filter (\<lambda>f. f_tag f = tag) fs)"

lemma in_header_iff: "in_header_loop fs tag \<longleftrightarrow> values_of tag (header_part fs) \<noteq> []"
  by (induction fs) (auto simp: values_of_def header_part_def)

lemma occurrence_of_Cons2: "occurrence_of (a # b # vs) = Repeated"
  by (simp add: occurrence_of_def)

lemma message_field_loop_eq:
  "message_field_loop fs tag Absent = occurrence_of (values_of tag fs)"
  "message_field_loop fs tag (Once v) = occurrence_of (v # values_of tag fs)"
proof (induction fs arbitrary: v)
  case Nil
  { case 1 then show ?case by (simp add: occurrence_of_def values_of_def) next
    case 2 then show ?case by (simp add: occurrence_of_def values_of_def) }
next
  case (Cons f fs)
  { case 1 then show ?case using Cons by (simp add: values_of_def) next
    case 2 then show ?case using Cons by (simp add: values_of_def occurrence_of_Cons2) }
qed

lemma header_field_loop_eq: "header_field_loop fs tag a = message_field_loop (header_part fs) tag a"
  by (induction fs arbitrary: a) (auto simp: header_part_def)

lemma header_field_eq: "header_field raw tag = occurrence_of (values_of tag (header_part (raw_fields raw)))"
  by (simp add: header_field_def header_field_loop_eq message_field_loop_eq)

lemma message_field_eq: "message_field raw tag = occurrence_of (values_of tag (raw_fields raw))"
  by (simp add: message_field_def message_field_loop_eq)

lemma check_field_ok:
  "check_field raw tag expected = Inr () \<longleftrightarrow>
     (case raw_get_field_str raw tag of Some v \<Rightarrow> v = expected | None \<Rightarrow> expected = [])
     \<and> in_standard_header raw tag"
  by (auto simp: check_field_def Let_def split: option.splits)

lemma in_header_after: "in_header_loop fs tag \<Longrightarrow> find (\<lambda>f. f_tag f = tag) fs \<noteq> None"
  by (induction fs) (auto split: if_splits)

lemma bindR_seq: "bindR r (\<lambda>_. k) = Inr () \<longleftrightarrow> r = Inr () \<and> k = Inr ()" for r :: "'e + unit"
  by (cases r) auto

text \<open>
  An accepted peer carries in its header exactly the configured identities, mirrored.
\<close>

definition carries :: "raw_message \<Rightarrow> u32 \<Rightarrow> bytes \<Rightarrow> bool" where
  "carries raw tag v \<longleftrightarrow> raw_get_field_str raw tag = Some v \<and> in_standard_header raw tag"

lemma check_field_carries: "expected \<noteq> [] \<Longrightarrow> check_field raw tag expected = Inr () \<longleftrightarrow> carries raw tag expected"
  by (auto simp: check_field_ok carries_def split: option.splits)

lemma validate_identity_ok:
  assumes "pi_sender_comp_id i \<noteq> []" and "pi_target_comp_id i \<noteq> []"
    and "list_all (\<lambda>x. x \<noteq> Some []) [pi_sender_sub_id i, pi_target_sub_id i, pi_sender_location_id i, pi_target_location_id i]"
  shows "peer_identity_validate i raw = Inr () \<longleftrightarrow>
     carries raw 49 (pi_sender_comp_id i) \<and> carries raw 56 (pi_target_comp_id i)
     \<and> list_all (\<lambda>(tag, e). case e of Some v \<Rightarrow> carries raw tag v | None \<Rightarrow> True)
         [(50, pi_sender_sub_id i), (57, pi_target_sub_id i), (142, pi_sender_location_id i), (143, pi_target_location_id i)]"
  using assms
  by (auto simp: peer_identity_validate_def bindR_seq check_field_carries check_optional_def split: option.splits)

subsection \<open>The calendar\<close>

text \<open>The reference calendar: the day after a date, and the days since 1970-01-01.\<close>

definition month_days :: "nat \<Rightarrow> nat \<Rightarrow> nat" where
  "month_days y m = (if m = 2 then if leap_year y then 29 else 28
     else if m = 4 \<or> m = 6 \<or> m = 9 \<or> m = 11 then 30 else 31)"

type_synonym date = "nat \<times> nat \<times> nat"

fun valid_date :: "date \<Rightarrow> bool" where
  "valid_date (y, m, d) \<longleftrightarrow> 1970 \<le> y \<and> 1 \<le> m \<and> m \<le> 12 \<and> 1 \<le> d \<and> d \<le> month_days y m"

fun next_day :: "date \<Rightarrow> date" where
  "next_day (y, m, d) =
     (if d < month_days y m then (y, m, d + 1) else if m < 12 then (y, m + 1, 1) else (y + 1, 1, 1))"

lemma days_in_month_eq: "1 \<le> m \<Longrightarrow> m \<le> 12 \<Longrightarrow> days_in_month y m = Some (month_days y m)"
proof -
  assume "1 \<le> m" "m \<le> 12"
  then have "m = 1 \<or> m = 2 \<or> m = 3 \<or> m = 4 \<or> m = 5 \<or> m = 6 \<or> m = 7 \<or> m = 8 \<or> m = 9 \<or> m = 10 \<or> m = 11 \<or> m = 12"
    by arith
  then show ?thesis
    by (elim disjE) (auto simp: days_in_month_def month_days_def usize_sub_def get_at_def MONTH_LENGTHS_def)
qed

definition year_days :: "nat \<Rightarrow> nat" where
  "year_days s = s div 400 * 146097 + ((s mod 400) * 365 + s mod 400 div 4 - s mod 400 div 100)"

definition month_start :: "nat \<Rightarrow> nat" where
  "month_start m = (153 * (if 2 < m then m - 3 else m + 9) + 2) div 5"

definition shifted_year :: "nat \<Rightarrow> nat \<Rightarrow> nat" where
  "shifted_year y m = (if m \<le> 2 then y - 1 else y)"

definition civil_days :: "date \<Rightarrow> nat" where
  "civil_days dt = (case dt of (y, m, d) \<Rightarrow> year_days (shifted_year y m) + (month_start m + d - 1))"

lemma year_days_mono: "a \<le> b \<Longrightarrow> year_days a \<le> year_days b"
proof (induction b rule: dec_induct)
  case (step n)
  have "year_days n \<le> year_days (Suc n)"
  proof (cases "Suc n mod 400 = 0")
    case True
    then have "n mod 400 = 399" "Suc n div 400 = Suc (n div 400)"
      by (simp_all add: mod_Suc div_Suc split: if_splits)
    with True show ?thesis by (simp add: year_days_def)
  next
    case False
    then have e: "Suc n mod 400 = Suc (n mod 400)" "Suc n div 400 = n div 400"
      by (simp_all add: mod_Suc div_Suc split: if_splits)
    have g: "x * 365 + x div 4 - x div 100 \<le> Suc x * 365 + Suc x div 4 - Suc x div 100" for x :: nat
    proof -
      have "x div 4 \<le> Suc x div 4" by (rule div_le_mono) simp
      moreover have "Suc x div 100 \<le> (x + 100) div 100" by (rule div_le_mono) simp
      then have "Suc x div 100 \<le> x div 100 + 1" by simp
      moreover have "a \<le> a' \<Longrightarrow> c' \<le> c + 1 \<Longrightarrow> x * 365 + a - c \<le> Suc x * 365 + a' - c'" for a a' c c' :: nat
        by simp
      ultimately show ?thesis by blast
    qed
    show ?thesis unfolding year_days_def e using g[of "n mod 400"] by (simp only: add_le_cancel_left)
  qed
  with step show ?case by simp
qed simp

lemma days_from_civil_eq:
  assumes "1970 \<le> y" and "1 \<le> m" and "1 \<le> d"
  shows "days_from_civil y m d = Some (civil_days (y, m, d) - 719468) \<and> 719468 \<le> civil_days (y, m, d)"
proof -
  let ?s = "shifted_year y m"
  have s: "(if m \<le> 2 then usize_sub y 1 else Some y) = Some ?s"
    using assms by (auto simp: usize_sub_def shifted_year_def)
  have yoe: "?s - ?s div 400 * 400 = ?s mod 400" by (simp add: minus_div_mult_eq_mod)
  have "719468 \<le> civil_days (y, m, d)"
  proof (cases "m \<le> 2")
    case True
    have "year_days 1969 \<le> year_days ?s" using assms True by (intro year_days_mono) (simp add: shifted_year_def)
    moreover have "year_days 1969 = 719162" by (simp add: year_days_def)
    moreover have "m = 1 \<or> m = 2" using True assms(2) by arith
    then have "306 \<le> month_start m" by (auto simp: month_start_def)
    ultimately show ?thesis using assms(3) by (simp add: civil_days_def)
  next
    case False
    have "year_days 1970 \<le> year_days ?s" using assms False by (intro year_days_mono) (simp add: shifted_year_def)
    moreover have "year_days 1970 = 719527" by (simp add: year_days_def)
    ultimately show ?thesis using assms(3) by (simp add: civil_days_def)
  qed
  moreover have "days_from_civil y m d = usize_sub (civil_days (y, m, d)) 719468"
    unfolding days_from_civil_def s bind.bind_lunit Let_def yoe
    using assms(3) by (simp add: civil_days_def year_days_def month_start_def add.assoc)
  ultimately show ?thesis by (simp add: usize_sub_def)
qed

lemma year_days_next: "year_days (Suc s) = year_days s + (if leap_year (Suc s) then 366 else 365)"
proof (cases "Suc s mod 400 = 0")
  case True
  then have e: "s mod 400 = 399" "Suc s div 400 = Suc (s div 400)"
    by (simp_all add: mod_Suc div_Suc split: if_splits)
  have "leap_year (Suc s)" using True by (auto simp: leap_year_def mod_eq_0_iff_dvd elim: dvd_trans[rotated])
  then show ?thesis using e True by (simp add: year_days_def)
next
  case False
  then have e: "Suc s mod 400 = Suc (s mod 400)" "Suc s div 400 = s div 400"
    by (simp_all add: mod_Suc div_Suc split: if_splits)
  define x where "x = s mod 400"
  have x: "Suc x < 400" using e(1) x_def by (metis mod_less_divisor zero_less_numeral)
  have dv: "4 dvd Suc s \<longleftrightarrow> 4 dvd Suc x" "100 dvd Suc s \<longleftrightarrow> 100 dvd Suc x"
  proof -
    have s: "Suc s = s div 400 * 400 + Suc x" by (simp add: x_def)
    have "(4 :: nat) dvd s div 400 * 400" "(100 :: nat) dvd s div 400 * 400" by (rule dvd_mult, simp)+
    then show "4 dvd Suc s \<longleftrightarrow> 4 dvd Suc x" "100 dvd Suc s \<longleftrightarrow> 100 dvd Suc x"
      unfolding s by (simp_all only: dvd_add_right_iff)
  qed
  have l: "leap_year (Suc s) \<longleftrightarrow> 4 dvd Suc x \<and> \<not> 100 dvd Suc x"
    using False dv by (auto simp: leap_year_def mod_eq_0_iff_dvd)
  have q: "Suc x div 4 = x div 4 + (if 4 dvd Suc x then 1 else 0)" "Suc x div 100 = x div 100 + (if 100 dvd Suc x then 1 else 0)"
    by (auto simp: div_Suc mod_eq_0_iff_dvd[symmetric] mod_Suc)
  have "100 dvd Suc x \<Longrightarrow> 4 dvd Suc x" by (erule dvd_trans[rotated]) simp
  moreover have "x div 100 \<le> x * 365" by (metis div_le_dividend le_trans mult_le_mono2 mult_1_right one_le_numeral)
  ultimately have "Suc x * 365 + Suc x div 4 - Suc x div 100 = (x * 365 + x div 4 - x div 100) + (if leap_year (Suc s) then 366 else 365)"
    unfolding q l by auto
  then show ?thesis unfolding year_days_def e x_def[symmetric] by (simp only: add.assoc)
qed

lemma next_civil:
  assumes "valid_date dt"
  shows "civil_days (next_day dt) = civil_days dt + 1"
proof -
  obtain y m d where dt: "dt = (y, m, d)" by (cases dt)
  have v: "1970 \<le> y" "1 \<le> m" "m \<le> 12" "1 \<le> d" "d \<le> month_days y m" using assms dt by simp_all
  show ?thesis
  proof (cases "d < month_days y m")
    case True
    then show ?thesis using v dt by (simp add: civil_days_def)
  next
    case False
    then have d: "d = month_days y m" using v by simp
    obtain s where s: "y = Suc s" using v(1) by (cases y) auto
    from v(2,3) have "m = 1 \<or> m = 2 \<or> m = 3 \<or> m = 4 \<or> m = 5 \<or> m = 6 \<or> m = 7 \<or> m = 8 \<or> m = 9 \<or> m = 10 \<or> m = 11 \<or> m = 12"
      by arith
    then show ?thesis
      using d dt year_days_next[of s]
      by (elim disjE) (simp_all add: civil_days_def month_days_def month_start_def shifted_year_def s)
  qed
qed

lemma next_valid: "valid_date dt \<Longrightarrow> valid_date (next_day dt)"
  by (cases dt) (auto simp: month_days_def)

lemma civil_epoch: "civil_days (1970, 1, 1) = 719468"
  by (simp add: civil_days_def year_days_def month_start_def shifted_year_def)

text \<open>\<^verbatim>\<open>days_from_civil\<close> counts the days since the epoch.\<close>

lemma days_from_civil_next:
  assumes "valid_date (y, m, d)" and "next_day (y, m, d) = (y', m', d')"
  shows "days_from_civil y' m' d' = map_option Suc (days_from_civil y m d)"
proof -
  have v': "valid_date (y', m', d')" using next_valid[OF assms(1)] assms(2) by simp
  have "civil_days (y', m', d') = civil_days (y, m, d) + 1" using next_civil[OF assms(1)] assms(2) by simp
  moreover have e: "days_from_civil y m d = Some (civil_days (y, m, d) - 719468)" "719468 \<le> civil_days (y, m, d)"
    using assms(1) days_from_civil_eq[of y m d] by auto
  moreover have "days_from_civil y' m' d' = Some (civil_days (y', m', d') - 719468)"
    using v' days_from_civil_eq[of y' m' d'] by auto
  ultimately show ?thesis by (simp add: Suc_diff_le[of 719468, symmetric])
qed

end
