(* ===== verification/Timestamp_Roundtrip.thy ===== *)
theory Timestamp_Roundtrip
  imports Session_Header
begin

text \<open>
  The timestamps a session writes (\<^verbatim>\<open>format_utc_timestamp\<close> of \<^verbatim>\<open>ironfix-core\<close>)
  read back by the parser of its own SendingTime check (\<^verbatim>\<open>parse_utc_timestamp_millis\<close> of
  \<^verbatim>\<open>ironfix-session\<close>).
\<close>

definition digits_fold :: "nat \<Rightarrow> bytes \<Rightarrow> nat" where
  "digits_fold v bs = foldl (\<lambda>a b. a * 10 + (unat b - 48)) v bs"

lemma digits_fold_ge: "v \<le> digits_fold v bs"
proof (induction bs arbitrary: v)
  case (Cons b bs)
  have "v \<le> v * 10 + (unat b - 48)" by simp
  also have "\<dots> \<le> digits_fold (v * 10 + (unat b - 48)) bs" by (rule Cons.IH)
  finally show ?case by (simp add: digits_fold_def)
qed (simp add: digits_fold_def)

lemma parse_digits_loop_eq:
  "digits_fold v bs \<le> usize_max \<Longrightarrow> parse_digits_loop v bs = Some (digits_fold v bs)"
proof (induction bs arbitrary: v)
  case Nil
  then show ?case by (simp add: digits_fold_def)
next
  case (Cons b bs)
  have "digits_fold v (b # bs) = digits_fold (v * 10 + (unat b - 48)) bs" by (simp add: digits_fold_def)
  moreover from this have "v * 10 + (unat b - 48) \<le> usize_max"
    using Cons.prems digits_fold_ge[of "v * 10 + (unat b - 48)" bs] by simp
  ultimately show ?case using Cons by (simp add: usize_mul_def usize_add_def)
qed

lemma parse_put_digits:
  assumes "put_digits n v [] = Some bs" and "0 < n" and "v \<le> usize_max"
  shows "parse_digits bs = Some v"
proof -
  note b = put_digits_value[OF assms(1)]
  have "digits_fold 0 bs = v" using b by (simp add: digits_fold_def digits_value_def)
  then have "parse_digits_loop 0 bs = Some v" using parse_digits_loop_eq[of 0 bs] assms(3) by simp
  moreover have "list_all is_ascii_digit bs" using b by (simp add: is_ascii_digit_def list_all_iff)
  ultimately show ?thesis using b assms(2) by (auto simp: parse_digits_def)
qed

lemma put_digits_Some: "v < 10 ^ n \<Longrightarrow> \<exists>bs. put_digits n v [] = Some bs"
  by (simp add: put_digits_eq)

lemma length_2: "length bs = 2 \<Longrightarrow> \<exists>a b. bs = [a, b]"
  by (auto simp: numeral_2_eq_2 length_Suc_conv)

lemma length_3: "length bs = 3 \<Longrightarrow> \<exists>a b c. bs = [a, b, c]"
  by (auto simp: numeral_3_eq_3 length_Suc_conv)

lemma length_4: "length bs = 4 \<Longrightarrow> \<exists>a b c d. bs = [a, b, c, d]"
  by (auto simp: eval_nat_numeral length_Suc_conv)

definition civil_fields_ok :: "naive_date_time \<Rightarrow> bool" where
  "civil_fields_ok dt \<longleftrightarrow> nd_year dt \<le> 9999 \<and> 1970 \<le> nd_year dt
     \<and> valid_date (nat (nd_year dt), nd_month dt, nd_day dt)
     \<and> nd_hour dt \<le> 23 \<and> nd_minute dt \<le> 59 \<and> nd_second dt + nd_nanosecond dt div 1000000000 \<le> 60"

text \<open>Milliseconds since the epoch of a date and time, a leap second counted as its own second.\<close>

definition civil_millis :: "naive_date_time \<Rightarrow> nat" where
  "civil_millis dt =
     ((((civil_days (nat (nd_year dt), nd_month dt, nd_day dt) - 719468) * 24 + nd_hour dt) * 60 + nd_minute dt) * 60
        + nd_second dt + nd_nanosecond dt div 1000000000) * 1000
     + nd_nanosecond dt mod 1000000000 div 1000000"

lemma civil_days_bound: "y \<le> 9999 \<Longrightarrow> m \<le> 12 \<Longrightarrow> d \<le> 31 \<Longrightarrow> civil_days (y, m, d) \<le> 4000000"
proof -
  assume a: "y \<le> 9999" "m \<le> 12" "d \<le> 31"
  have "year_days (shifted_year y m) \<le> year_days 9999"
    using a by (intro year_days_mono) (auto simp: shifted_year_def)
  moreover have "year_days 9999 \<le> 3653000" by (simp add: year_days_def)
  moreover have "month_start m \<le> 3000"
  proof -
    have "(if 2 < m then m - 3 else m + 9) \<le> 11" using a(2) by auto
    then have "153 * (if 2 < m then m - 3 else m + 9) + 2 \<le> 15000" by linarith
    from div_le_mono[OF this, of 5] show ?thesis unfolding month_start_def by simp
  qed
  moreover have "civil_days (y, m, d) = year_days (shifted_year y m) + (month_start m + d - 1)"
    by (simp only: civil_days_def prod.case)
  ultimately show ?thesis using a(3) by linarith
qed

lemma parse_parts:
  assumes "parse_digits [y0, y1, y2, y3] = Some y" and "parse_digits [m0, m1] = Some m"
    and "parse_digits [d0, d1] = Some d" and "parse_digits [h0, h1] = Some h"
    and "parse_digits [i0, i1] = Some i" and "parse_digits [s0, s1] = Some s"
    and "parse_fraction_millis [f0, f1, f2] = Some f"
    and "1970 \<le> y" "y \<le> 9999" and "valid_date (y, m, d)" and "h \<le> 23" "i \<le> 59" "s \<le> 60" "f < 1000"
  shows "parse_utc_timestamp_millis
      [y0, y1, y2, y3, m0, m1, d0, d1, 45, h0, h1, 58, i0, i1, 58, s0, s1, 46, f0, f1, f2]
    = Some (((((civil_days (y, m, d) - 719468) * 24 + h) * 60 + i) * 60 + s) * 1000 + f)"
proof -
  have v: "1 \<le> m" "m \<le> 12" "1 \<le> d" "d \<le> month_days y m" using assms(10) by auto
  then have d31: "d \<le> 31" by (auto simp: month_days_def split: if_splits)
  have dim: "days_in_month y m = Some (month_days y m)" using v by (simp add: days_in_month_eq)
  have days: "days_from_civil y m d = Some (civil_days (y, m, d) - 719468)"
    using days_from_civil_eq[of y m d] v assms(8) by simp
  define D where "D = civil_days (y, m, d) - 719468"
  have D: "D \<le> 4000000" using civil_days_bound[OF assms(9) v(2) d31] by (simp add: D_def)
  note fits = D assms(11-14)
  have bound: "((D * 24 + h) * 60 + i) * 60 + s \<le> 400000000000" using fits by simp
  have "usize_mul D 86400 = Some (D * 86400)" "usize_mul h 3600 = Some (h * 3600)"
    "usize_add (D * 86400) (h * 3600) = Some (D * 86400 + h * 3600)" "usize_mul i 60 = Some (i * 60)"
    "usize_add (D * 86400 + h * 3600) (i * 60) = Some (D * 86400 + h * 3600 + i * 60)"
    "usize_add (D * 86400 + h * 3600 + i * 60) s = Some (D * 86400 + h * 3600 + i * 60 + s)"
    "usize_mul (D * 86400 + h * 3600 + i * 60 + s) 1000 = Some ((D * 86400 + h * 3600 + i * 60 + s) * 1000)"
    "usize_add ((D * 86400 + h * 3600 + i * 60 + s) * 1000) f = Some ((D * 86400 + h * 3600 + i * 60 + s) * 1000 + f)"
    using fits by (simp_all add: usize_mul_def usize_add_def usize_max_def)
  note ops = this
  have r: "get_range [y0, y1, y2, y3, m0, m1, d0, d1, 45, h0, h1, 58, i0, i1, 58, s0, s1, 46, f0, f1, f2] 0 4 = Some [y0, y1, y2, y3]"
    "get_range [y0, y1, y2, y3, m0, m1, d0, d1, 45, h0, h1, 58, i0, i1, 58, s0, s1, 46, f0, f1, f2] 4 6 = Some [m0, m1]"
    "get_range [y0, y1, y2, y3, m0, m1, d0, d1, 45, h0, h1, 58, i0, i1, 58, s0, s1, 46, f0, f1, f2] 6 8 = Some [d0, d1]"
    "get_range [y0, y1, y2, y3, m0, m1, d0, d1, 45, h0, h1, 58, i0, i1, 58, s0, s1, 46, f0, f1, f2] 9 11 = Some [h0, h1]"
    "get_range [y0, y1, y2, y3, m0, m1, d0, d1, 45, h0, h1, 58, i0, i1, 58, s0, s1, 46, f0, f1, f2] 12 14 = Some [i0, i1]"
    "get_range [y0, y1, y2, y3, m0, m1, d0, d1, 45, h0, h1, 58, i0, i1, 58, s0, s1, 46, f0, f1, f2] 15 17 = Some [s0, s1]"
    by (simp_all add: get_range_def)
  have "parse_utc_timestamp_millis
      [y0, y1, y2, y3, m0, m1, d0, d1, 45, h0, h1, 58, i0, i1, 58, s0, s1, 46, f0, f1, f2]
    = Some ((D * 86400 + h * 3600 + i * 60 + s) * 1000 + f)"
    unfolding parse_utc_timestamp_millis_def r bind.bind_lunit assms(1-6)
    using v assms(7-9,11-13) dim days ops
    by (simp add: get_at_def D_def[symmetric] leD)
  then show ?thesis by (simp add: D_def algebra_simps)
qed

lemma format_parse_millis:
  assumes ok: "civil_fields_ok dt"
  shows "\<exists>s. format_utc_timestamp 21 dt = Some s \<and> parse_utc_timestamp_millis s = Some (civil_millis dt)"
proof -
  let ?y = "nat (nd_year dt)"
  let ?sec = "nd_second dt + nd_nanosecond dt div 1000000000"
  let ?f = "nd_nanosecond dt mod 1000000000 div 10 ^ (9 - 3)"
  have v: "1970 \<le> ?y" "?y \<le> 9999" "nd_month dt \<le> 12" "nd_day dt \<le> 31" "nd_hour dt \<le> 23" "nd_minute dt \<le> 59"
      "?sec \<le> 60" "valid_date (?y, nd_month dt, nd_day dt)"
    using ok by (auto simp: civil_fields_ok_def month_days_def split: if_splits)
  have f: "?f < 1000" by (simp add: div_less_iff_less_mult)
  obtain bs where bs: "put_digits 4 ?y [] = Some bs" using put_digits_Some[of ?y 4] v by auto
  obtain ms where ms: "put_digits 2 (nd_month dt) [] = Some ms" using put_digits_Some[of "nd_month dt" 2] v by auto
  obtain ds where ds: "put_digits 2 (nd_day dt) [] = Some ds" using put_digits_Some[of "nd_day dt" 2] v by auto
  obtain hs where hs: "put_digits 2 (nd_hour dt) [] = Some hs" using put_digits_Some[of "nd_hour dt" 2] v by auto
  obtain mis where mis: "put_digits 2 (nd_minute dt) [] = Some mis" using put_digits_Some[of "nd_minute dt" 2] v by auto
  obtain ss where ss: "put_digits 2 ?sec [] = Some ss" using put_digits_Some[of ?sec 2] v by auto
  obtain fs where fs: "put_digits 3 ?f [] = Some fs" using put_digits_Some[of ?f 3] f by auto
  note big = usize_max_def
  have p: "parse_digits bs = Some ?y" "parse_digits ms = Some (nd_month dt)" "parse_digits ds = Some (nd_day dt)"
      "parse_digits hs = Some (nd_hour dt)" "parse_digits mis = Some (nd_minute dt)" "parse_digits ss = Some ?sec"
    using v by (auto simp: big intro!: parse_put_digits[OF bs] parse_put_digits[OF ms] parse_put_digits[OF ds]
        parse_put_digits[OF hs] parse_put_digits[OF mis] parse_put_digits[OF ss])
  from put_digits_value[OF bs] length_4[of bs] obtain y0 y1 y2 y3 where y: "bs = [y0, y1, y2, y3]" by auto
  from put_digits_value[OF ms] length_2[of ms] obtain m0 m1 where m: "ms = [m0, m1]" by auto
  from put_digits_value[OF ds] length_2[of ds] obtain d0 d1 where d: "ds = [d0, d1]" by auto
  from put_digits_value[OF hs] length_2[of hs] obtain h0 h1 where h: "hs = [h0, h1]" by auto
  from put_digits_value[OF mis] length_2[of mis] obtain i0 i1 where i: "mis = [i0, i1]" by auto
  from put_digits_value[OF ss] length_2[of ss] obtain s0 s1 where s: "ss = [s0, s1]" by auto
  from put_digits_value[OF fs] length_3[of fs] obtain f0 f1 f2 where fl: "fs = [f0, f1, f2]" by auto
  have pf: "parse_fraction_millis [f0, f1, f2] = Some ?f"
    using put_digits_value[OF fs]
    by (auto simp: fl parse_fraction_millis_def get_at_def Let_def digits_value_def is_ascii_digit_def)
  have fmt: "format_utc_timestamp 21 dt = Some
      [y0, y1, y2, y3, m0, m1, d0, d1, 45, h0, h1, 58, i0, i1, 58, s0, s1, 46, f0, f1, f2]"
    using bs[unfolded y] ms[unfolded m] ds[unfolded d] hs[unfolded h] mis[unfolded i] ss[unfolded s] fs[unfolded fl] v(1)
    by (simp add: format_utc_timestamp_def Let_def)
  have "parse_utc_timestamp_millis
      [y0, y1, y2, y3, m0, m1, d0, d1, 45, h0, h1, 58, i0, i1, 58, s0, s1, 46, f0, f1, f2]
    = Some (((((civil_days (?y, nd_month dt, nd_day dt) - 719468) * 24 + nd_hour dt) * 60 + nd_minute dt) * 60 + ?sec) * 1000 + ?f)"
    by (rule parse_parts) (use p pf y m d h i s v f in auto)
  then show ?thesis using fmt by (simp add: civil_millis_def add.assoc)
qed

end
