(* ===== verification/Session_Properties.thy ===== *)
theory Session_Properties
  imports Session_Core_Inv Session_Logon Timestamp_Roundtrip
begin

text \<open>
  The properties of the session layer, each with a concrete run where it has hypotheses.
\<close>

subsection \<open>Sequence numbers and routing\<close>

text \<open>
  C17. Whatever interleaving of allocations and increments the callers make, the sender numbers
  handed out are consecutive from the counter, none is repeated and none skipped, the counter
  ends right after the last one, and allocation stops before the counter would wrap.
\<close>

theorem numbers_consecutive:
  "\<exists>k. allocated (fst (sequence_run ops m)) = [unat (next_sender_seq m) ..< unat (next_sender_seq m) + k]
     \<and> unat (next_sender_seq (snd (sequence_run ops m))) = unat (next_sender_seq m) + k
     \<and> k = min (length (filter (\<lambda>op. op = Allocate) ops)) (2 ^ 64 - 1 - unat (next_sender_seq m))"
  by (rule allocated_run)

text \<open>
  An application message is taken exactly when it is not a SequenceReset and carries the
  number expected next, whatever PossDupFlag says; and any other message is routed as a gap
  exactly when its number is above the expected one.
\<close>

theorem app_taken_in_sequence:
  "((route_inbound m t n d = RouteApp) =
      (\<not> msg_type_eq t SequenceReset \<and> msg_type_is_app t \<and> n = next_target_seq m))
   \<and> ((\<exists>k. route_inbound m t n d = RouteGap e r k) =
      (\<not> msg_type_eq t SequenceReset \<and> e = next_target_seq m \<and> r = n \<and> e < r))"
  by (simp add: route_app_iff route_gap_iff)

text \<open>
  A SequenceReset is applied only forward: a gap fill must move past the message's own
  number, a plain reset never goes below the number expected next, and nothing else is refused.
\<close>

theorem reset_forward_only:
  "(decide_sequence_reset g s v e = ApplyReset n renum adv) =
     (v = Some n \<and> renum = (\<not> g) \<and> adv = (e < n) \<and> (if g then s < n else e \<le> n))"
  by (rule apply_reset_iff)

subsection \<open>Liveness of the peer\<close>

text \<open>
  C18. The session is declared dead at an instant exactly when heartbeating is on and the last
  TestRequest, sent a full interval ago or more, has since been followed by nothing inbound.
\<close>

theorem timed_out_exactly:
  "is_timed_out (heartbeat_after interval start evs) now =
     (interval \<noteq> 0 \<and> (\<exists>i t before after. evs = before @ TestRequestSent i t # after
        \<and> set after \<subseteq> range MsgSent \<and> interval \<le> elapsed_between t now))"
proof -
  have "(unanswered (rev evs) = Some (i, t)) =
      (\<exists>before after. evs = before @ TestRequestSent i t # after \<and> set after \<subseteq> range MsgSent)" for i t
    unfolding unanswered_Some by (auto simp: subset_eq image_iff)
  then show ?thesis
    unfolding manager_history is_timed_out_def hb_is_enabled_def
    by (cases "unanswered (rev evs)") (auto; metis)+
qed

text \<open>
  The probe discipline of a tick: a TestRequest or Heartbeat is only decided while no
  replay is under way, the output bound is not reached, no gap has stalled, and nothing of
  the same kind is still unwritten.
\<close>

theorem tick_probes_safely:
  assumes "decide_tick p i c = TickLiveness a" and "a = SendTestRequest \<or> a = SendHeartbeat"
  shows "(\<not> replaying c)
    \<and> (\<not> ti_output_bound_reached i)
    \<and> (core_decide_stall (ti_now i) (ti_resend_request_unwritten i) c = StallWait)
    \<and> (a = SendTestRequest \<longrightarrow> sc_unwritten_test_request c = None)
    \<and> (a = SendHeartbeat \<longrightarrow> \<not> ti_output_waiting i)"
  using tick_probe[OF assms] by blast

theorem tick_probes_safely_witness:
  "\<not> replaying (core_new :: (nat, nat, nat, nat, nat) session_core)"
  by (rule tick_probes_safely[THEN conjunct1, of "PhaseActive (session_new [])"
        "\<lparr>ti_now = 30, ti_logout_timeout = 10, ti_heartbeat = heartbeat_new 30 0, ti_output_waiting = False,
          ti_resend_request_unwritten = False, ti_output_bound_reached = False\<rparr>" _ SendHeartbeat])
     (simp_all add: decide_tick_def core_new_def replaying_def core_decide_stall_def decide_stall_def
        decide_liveness_def is_timed_out_def should_send_test_request_def should_send_heartbeat_def
        heartbeat_new_def hb_is_enabled_def elapsed_between_def duration_since_def duration_add_def grace_for_def
        MIN_TEST_REQUEST_GRACE_def TEST_REQUEST_GRACE_DIVISOR_def from_millis_def NANOS_def duration_max_def probe_gate_def)

subsection \<open>Gap recovery\<close>

text \<open>
  C19. A counterparty that leaves a gap open is given up on, and not before it was asked as
  often as configured.  The session is active and replays nothing, its ticks may write and come
  at most \<open>period\<close> apart, however often, later frames of the gap come in between, and every
  request sent again is written whole within \<open>delay\<close>.  Then by a tick later than the timeout
  and a \<open>period\<close> after the first request, and a timeout, a \<open>period\<close> and a \<open>delay\<close> more for each
  attempt that was left, some tick has decided to abandon the gap at its number with the
  attempts used up; and the gap was requested again at most as often as attempts were left.
\<close>

theorem silence_is_abandoned:
  assumes gap: "sc_resend c = Some r" "\<not> replaying c"
    and pace: "keeps_time period delay (PhaseActive s) (rs_requested_at r) es (c, None)"
      "sorted (rs_requested_at r # map event_at es)"
    and tick: "GapTick i \<in> set es"
    and late: "rs_requested_at r + rs_timeout r + period
      + retries_left r * (rs_timeout r + period + delay) < ti_now i"
  shows "(\<exists>a. rs_limit r \<le> a
        \<and> TickStalled (StallAbandon (rs_expected r) a) \<in> set (chase (PhaseActive s) es (c, None)))
    \<and> length (filter asks_again (chase (PhaseActive s) es (c, None))) \<le> retries_left r"
proof -
  have "\<not> ti_now i \<le> patience period delay r None" using late by (simp add: patience_def)
  then have "\<exists>a. TickStalled (StallAbandon (rs_expected r) a) \<in> set (chase (PhaseActive s) es (c, None))"
    using chase_patience[OF gap pace _ _ tick] by auto
  then show ?thesis using abandon_spent[OF gap] retries_counted[OF gap] by blast
qed

text \<open>
  Ticks every three units against a timeout of ten, one attempt left: the tick at 12 asks
  again, the request is written at 14, and the gap is abandoned by the tick at 30.
\<close>

definition quiet_gap :: resend_state where
  "quiet_gap = \<lparr>rs_expected = 5, rs_high_water = 9, rs_requested_at = 0, rs_attempts = 2, rs_limit = 3,
     rs_timeout = 10, rs_charge_on_write = False\<rparr>"

definition quiet_tick :: "instant \<Rightarrow> stall_event" where
  "quiet_tick t = GapTick \<lparr>ti_now = t, ti_logout_timeout = 10, ti_heartbeat = heartbeat_new 0 0,
     ti_output_waiting = False, ti_resend_request_unwritten = False, ti_output_bound_reached = False\<rparr>"

definition quiet_events :: "stall_event list" where
  "quiet_events = map quiet_tick [3, 6, 9, 12] @ [LaterFrame 13 11, RequestWritten 14]
     @ map quiet_tick [15, 18, 21, 24, 27, 30]"

theorem silence_is_abandoned_witness:
  "(\<exists>a\<ge>3. TickStalled (StallAbandon 5 a) \<in> set (chase (PhaseActive (session_new [])) quiet_events
      ((core_new :: (nat, nat, nat, nat, nat) session_core)\<lparr>sc_resend := Some quiet_gap\<rparr>, None)))
   \<and> length (filter asks_again (chase (PhaseActive (session_new [])) quiet_events
      ((core_new :: (nat, nat, nat, nat, nat) session_core)\<lparr>sc_resend := Some quiet_gap\<rparr>, None))) \<le> 1"
proof -
  let ?c = "(core_new :: (nat, nat, nat, nat, nat) session_core)\<lparr>sc_resend := Some quiet_gap\<rparr>"
  have gap: "sc_resend ?c = Some quiet_gap" "\<not> replaying ?c" by (simp_all add: core_new_def replaying_def)
  have pace: "keeps_time 3 2 (PhaseActive (session_new [])) (rs_requested_at quiet_gap) quiet_events (?c, None)"
    "sorted (rs_requested_at quiet_gap # map event_at quiet_events)"
    by (simp_all add: quiet_gap_def quiet_tick_def quiet_events_def chase_step.simps decide_tick_def
        core_decide_stall_def decide_stall_def core_new_def replaying_def is_stalled_def can_retry_def
        elapsed_between_def duration_since_def core_record_retry_def record_retry_def checked_add_def
        release_held_logon_to_request_def resend_expected_def core_decide_gap_request_def
        decide_gap_request_def raise_high_water_def restart_resend_clock_def restart_clock_def)
  have tick: "GapTick \<lparr>ti_now = 30, ti_logout_timeout = 10, ti_heartbeat = heartbeat_new 0 0,
      ti_output_waiting = False, ti_resend_request_unwritten = False, ti_output_bound_reached = False\<rparr>
      \<in> set quiet_events"
    by (simp add: quiet_events_def quiet_tick_def)
  show ?thesis using silence_is_abandoned[OF gap pace tick] by (simp add: quiet_gap_def retries_left_def)
qed

text \<open>
  C20. The gap queue hands over exactly the frame held at the expected number, drops exactly
  the numbers below it, keeps exactly those above it, and its byte count stays that of the
  frames it holds.
\<close>

theorem gap_release_exact:
  assumes "gap_inv weigh q" and "gq_max_messages q \<le> usize_max" and "take_ready weigh e q = (ready, q')"
  shows "(gap_inv weigh q')
    \<and> (bt_get (gq_entries q') = (\<lambda>k. if k \<le> e then None else bt_get (gq_entries q) k))
    \<and> (gr_next ready = bt_get (gq_entries q) e)
    \<and> (gr_superseded ready = length (filter (\<lambda>(k, _). k < e) (gq_entries q)))"
  using take_ready_spec[OF assms] by blast

definition sample_gap_queue :: "nat gap_queue" where
  "sample_gap_queue = \<lparr>gq_entries = [(5, GapFrame 7), (6, GapFrame 8), (8, GapProcessed)], gq_bytes = 15,
     gq_max_messages = 4, gq_max_bytes = 100, gq_overflow_reported = False\<rparr>"

theorem gap_release_exact_witness:
  "gr_next (fst (take_ready id 6 sample_gap_queue)) = Some (GapFrame 8)"
proof -
  have "gap_inv id sample_gap_queue" "gq_max_messages sample_gap_queue \<le> usize_max"
    by (simp_all add: sample_gap_queue_def gap_inv_def bt_ordered_def held_total_def entry_bytes_def usize_max_def)
  from gap_release_exact[OF this, of 6 "fst (take_ready id 6 sample_gap_queue)" "snd (take_ready id 6 sample_gap_queue)"]
  have "gr_next (fst (take_ready id 6 sample_gap_queue)) = bt_get (gq_entries sample_gap_queue) 6" by simp
  then show ?thesis by (simp add: sample_gap_queue_def bt_get_def)
qed

subsection \<open>Replay\<close>

text \<open>
  C21. Whatever the driver reads from its store, in whatever order and however the reads fail,
  what a replay sends tiles its range from the first number on: contiguous, in order, nothing
  twice and nothing skipped, up to the number it has reached.
\<close>

theorem replay_tiles_range:
  assumes "resend_replay_new begin_seq new_seq has_store = Some r" and "replay_run evs r = (out, r')"
  shows "(tiles (unat begin_seq) out (unat (rp_reply_cursor r')))
    \<and> (rp_reply_cursor r' \<le> new_seq)"
  using run_tiles[OF conjunct1[OF replay_new_inv[OF assms(1)]] assms(2)] replay_new_inv[OF assms(1)]
  by (auto simp: replay_inv_def)

theorem replay_tiles_range_witness:
  "tiles 3 (fst (replay_run [Entry 4 VerdictReplay, PageArrived PageFailed, Poll]
     \<lparr>rp_new_seq = 7, rp_end_seq = 6, rp_reply_cursor = 3, rp_read_from = 3, rp_store_done = False, rp_started = False\<rparr>)) 7"
proof -
  have "tiles (unat (3 :: u64)) [(3, 4, False), (4, 5, True), (5, 7, False)] (unat (7 :: u64))"
    using conjunct1[OF replay_tiles_range, of 3 7 True "\<lparr>rp_new_seq = 7, rp_end_seq = 6, rp_reply_cursor = 3, rp_read_from = 3, rp_store_done = False, rp_started = False\<rparr>"
       "[Entry 4 VerdictReplay, PageArrived PageFailed, Poll]" "[(3, 4, False), (4, 5, True), (5, 7, False)]"]
    by (simp add: replay_new_Some decide_entry_def screen_entry_def on_page_def poll_store_def checked_add_def)
  then show ?thesis
    by (simp add: decide_entry_def screen_entry_def on_page_def poll_store_def checked_add_def)
qed

text \<open>
  C22. Over a store that holds its entries in ascending order the reply always ends, within one
  poll per page and two more, and is exactly the specified one: the eligible stored messages in
  order, each once, with a gap fill over every stretch between them and to the end.
\<close>

theorem answer_is_tiling:
  assumes "resend_replay_new begin_seq new_seq True = Some r" and "sorted_wrt (<) (map fst store)"
    and "length store div REPLAY_PAGE_LIMIT + 2 \<le> fuel"
  shows "answer fuel store r =
    Some (tiling (unat begin_seq) (to_replay begin_seq (new_seq - 1) store) (unat new_seq))"
proof -
  note n = replay_new_inv[OF assms(1)]
  have e: "rp_end_seq r = new_seq - 1" using assms(1) by (simp add: replay_new_Some)
  have "length (entries_from begin_seq (new_seq - 1) store) div REPLAY_PAGE_LIMIT \<le> length store div REPLAY_PAGE_LIMIT"
    by (rule div_le_mono) (simp add: entries_from_def)
  then show ?thesis
    using answer_tiling[of r store fuel] n e assms(2,3) by simp
qed

theorem answer_is_tiling_witness:
  "answer 2 [(3, True, VerdictGapFill), (4, False, VerdictReplay), (6, False, VerdictReplay), (9, False, VerdictReplay)]
     \<lparr>rp_new_seq = 8, rp_end_seq = 7, rp_reply_cursor = 2, rp_read_from = 2, rp_store_done = False, rp_started = False\<rparr>
   = Some [(2, 4, False), (4, 5, True), (5, 6, False), (6, 7, True), (7, 8, False)]"
  using answer_is_tiling[of 2 8 "\<lparr>rp_new_seq = 8, rp_end_seq = 7, rp_reply_cursor = 2, rp_read_from = 2, rp_store_done = False, rp_started = False\<rparr>"
      "[(3, True, VerdictGapFill), (4, False, VerdictReplay), (6, False, VerdictReplay), (9, False, VerdictReplay)]" 2]
  by (simp add: replay_new_Some to_replay_def eligible_entry_def REPLAY_PAGE_LIMIT_def)

text \<open>
  A ResendRequest that is honoured asks for a nonempty range of numbers that were sent: it
  starts at the requested BeginSeqNo, which is not zero, and ends at or before the next number
  to be sent.
\<close>

theorem resend_request_range:
  assumes "decide_resend_request b e next_sender mode = ReplayRange begin_seq new_seq"
  shows "(b = Some begin_seq)
    \<and> (0 < begin_seq)
    \<and> (begin_seq < new_seq)
    \<and> (new_seq \<le> next_sender)"
  using resend_range[OF assms] by blast

theorem resend_request_range_witness: "(5 :: u64) < 12"
  by (rule resend_request_range[THEN conjunct2, THEN conjunct2, THEN conjunct1, of "Some 5" "Some 0" 12 ZeroInfinity]) (simp add: decide_resend_request_def)

text \<open>
  C23. A queued replay is never lost: queueing succeeds for every legal range, the queue never
  grows past its bound, and every number already pending or newly asked for stays covered,
  also when a full queue widens its last replay instead.
\<close>

theorem queued_replay_covered:
  assumes "replays_inv c" and "0 < b" and "b < n" and "length (sc_replays c) \<le> MAX_QUEUED_REPLAYS"
  shows "(fst (queue_replay b n st p c))
    \<and> (pending c \<union> {unat b ..< unat n} \<subseteq> pending (snd (queue_replay b n st p c)))
    \<and> (replays_inv (snd (queue_replay b n st p c)))
    \<and> (length (sc_replays (snd (queue_replay b n st p c))) \<le> MAX_QUEUED_REPLAYS)"
  using queue_replay_spec[OF assms(1-3), of st p] assms(4) by (auto split: if_splits)

theorem queued_replay_covered_witness:
  "{5 ..< 9} \<subseteq> pending (snd (queue_replay 5 9 True (0 :: nat) (core_new :: (nat, nat, nat, nat, nat) session_core)))"
  using queued_replay_covered[of "core_new :: (nat, nat, nat, nat, nat) session_core" 5 9 True 0]
  by (simp add: replays_inv_def core_new_def)

subsection \<open>The session core\<close>

text \<open>
  C24. Over any sequence of operations on a new session the bookkeeping of the core stays
  exact: the count and bytes of held sends are those of the queue, at most one held
  ResendRequest is in it, and the gap queue keeps its own invariant and bounds.
\<close>

theorem core_bookkeeping:
  assumes "policy_fits policy" and "holds_fit wh w ops (core_with_gap_policy policy)"
  shows "core_inv wh w (fold (core_apply wh w) ops (core_with_gap_policy policy))"
  using core_run[OF core_new_inv[OF assms(1)] assms(2)] .

theorem core_bookkeeping_witness:
  "core_inv (\<lambda>_. 10) id (fold (core_apply (\<lambda>_. 10) id)
     [HeldOp (HoldSend 1), HeldOp HoldRequest, HeldOp HoldRequest, HeldOp Unhold]
     (core_with_gap_policy (QueuePolicy 4 100) :: (nat, nat, nat, nat, nat) session_core))"
  by (rule core_bookkeeping)
     (simp_all add: usize_max_def hold_fits_def core_with_gap_policy_def core_new_def hold_def note_held_def
        hold_resend_request_def usize_add_def held_bytes_of_def)

text \<open>
  The logout handshake moves the session only along its own transitions: each phase always
  carries a session in the state its type says, an advance is either no change or the one legal
  transition, and every teardown is a legal transition to the disconnected state.
\<close>

theorem phase_moves_legally:
  assumes "phase_typed ph"
  shows "(phase_typed (advance_logout w now ph))
    \<and> (advance_logout w now ph = ph \<or> session_step (phase_session ph) (phase_session (advance_logout w now ph)))
    \<and> (session_step (phase_session ph) (teardown ph))
    \<and> (session_state (teardown ph) = Disconnected)"
proof -
  have "session_state (teardown ph) = Disconnected"
    by (cases ph) (simp_all add: transition_defs)
  then show ?thesis using assms by (simp add: advance_logout_typed advance_logout_step teardown_step)
qed

theorem phase_moves_legally_witness:
  "phase_typed (advance_logout True 7 (PhaseLogoutQueued \<lparr>session_id = [65], session_state = Active\<rparr>))"
  by (rule phase_moves_legally[THEN conjunct1]) simp

text \<open>
  C25. A session is only ever active, resending or logging out after a Logon was sent or
  received on the same connection.
\<close>

theorem active_needs_logon:
  assumes "session_run ss" and "logged_on (session_state (hd ss))"
  shows "list_ex logon_state (connection ss)"
  using run_logon[OF assms(1)] assms(2) by (auto simp: list_ex_iff)

lemma sample_session_run:
  "session_run [accept_logon (on_logon_received 3 (accept (session_new [65]))),
     on_logon_received 3 (accept (session_new [65])), accept (session_new [65]), session_new [65]]"
  by (intro run_step run_new session_step.intros) (simp_all add: transition_defs session_new_def)

theorem active_needs_logon_witness: "list_ex logon_state [Active, LogonReceived 3, Connecting]"
proof -
  have "logged_on (session_state (hd [accept_logon (on_logon_received 3 (accept (session_new [65]))),
     on_logon_received 3 (accept (session_new [65])), accept (session_new [65]), session_new [65]]))"
    by (simp add: transition_defs logged_on_def)
  from active_needs_logon[OF sample_session_run this] show ?thesis
    by (simp add: connection_def transition_defs session_new_def)
qed

text \<open>
  A close whose own Logout was never written does not reset the numbering, unless the
  session resets on every disconnect.
\<close>

theorem unwritten_logout_keeps_numbers:
  "close_resets config (settle_close close own_unwritten) =
     (cfg_reset_on_disconnect config \<or> close_is_graceful close \<and> \<not> own_unwritten \<and> cfg_reset_on_logout config)"
  by (cases close) (auto simp: close_resets_def settle_close_def)

subsection \<open>The throttle\<close>

text \<open>
  C26. The rate bound: in no window of length \<open>per\<close> are more than \<open>burst + rate - 1\<close> messages
  of one budget charged, over any run of the throttle and of every other budget, whatever is
  reserved, refunded or held in between.
\<close>

theorem throttle_rate_bound:
  assumes "slot < length specs" and "ts_burst (specs ! slot) \<le> u32_max"
    and "sorted (start # map op_time ops)"
    and "per \<le> rate * max (ts_spacing (specs ! slot)) 1" and "1 \<le> rate"
  shows "length (filter (\<lambda>s. t0 \<le> s \<and> s < t0 + per) (charge_times slot ops (throttle_new specs start)))
     \<le> max (ts_burst (specs ! slot)) 1 + rate - 1"
  using assms(3) by (intro throttle_window[OF assms(1,2) _ _ assms(4,5)]) auto

definition sample_specs :: "token_bucket_spec list" where
  "sample_specs = [\<lparr>ts_spacing = 10, ts_burst = 2, ts_max_depth = Some 3\<rparr>]"

definition sample_throttle_ops :: "nat throttle_op list" where
  "sample_throttle_ops = [OpAdmit 0 1 0, OpChargeAt 0 0, OpAdmit 0 2 0, OpChargeAt 0 0, OpAdmit 0 3 5, OpRelease 10, OpChargeAt 0 10]"

theorem throttle_rate_bound_witness:
  "length (filter (\<lambda>s. 0 \<le> s \<and> s < 0 + 20) (charge_times 0 sample_throttle_ops (throttle_new sample_specs 0))) \<le> 3"
  using throttle_rate_bound[of 0 sample_specs 0 sample_throttle_ops 20 2 0]
  by (simp add: sample_specs_def sample_throttle_ops_def u32_max_def)

text \<open>
  C27. First in, first out: for every budget the messages let out, one after the other, followed
  by those still held, are exactly the messages accepted, in the order they were accepted. None
  is lost, duplicated or overtaken, and the held count is exact.
\<close>

theorem throttle_fifo:
  fixes ops :: "'a throttle_op list"
  assumes "slot < length specs" and "length specs \<le> 256" and "list_all (\<lambda>spec. ts_burst spec \<le> u32_max) specs"
    and "sorted (start # map op_time ops)" and "length ops \<le> usize_max"
  shows "(run_list (accepts slot) ops (throttle_new specs start) =
      run_list (emits slot) ops (throttle_new specs start)
      @ queue_of (fold throttle_apply ops (throttle_new specs start)) slot)
    \<and> (th_held (fold throttle_apply ops (throttle_new specs start))
      = queued_total (fold throttle_apply ops (throttle_new specs start)))"
proof -
  let ?th = "throttle_new specs start :: 'a throttle"
  have st: "started_by start ?th" using assms(3) by (rule started_by_new)
  have zero: "th_held ?th = 0" "queued_total ?th = 0"
    by (simp_all add: throttle_new_def queued_total_def bucket_new_def comp_def sum_list_0)
  have "th_held (fold throttle_apply ops ?th) = queued_total (fold throttle_apply ops ?th)"
    using assms(5) zero by (intro run_held[OF st assms(4)]) simp_all
  moreover have "queue_of ?th slot @ run_list (accepts slot) ops ?th =
      run_list (emits slot) ops ?th @ queue_of (fold throttle_apply ops ?th) slot"
    using assms(1,2) by (intro run_fifo[OF _ _ st assms(4)]) (simp_all add: throttle_new_def)
  moreover have "queue_of ?th slot = []" using assms(1) by (rule queue_of_new)
  ultimately show ?thesis by simp
qed

theorem throttle_fifo_witness:
  "th_held (fold throttle_apply sample_throttle_ops (throttle_new sample_specs 0))
     = queued_total (fold throttle_apply sample_throttle_ops (throttle_new sample_specs 0))"
  by (rule throttle_fifo[THEN conjunct2, of 0]) (simp_all add: sample_specs_def sample_throttle_ops_def u32_max_def usize_max_def)

text \<open>
  C28. Release makes progress: it lets a message out whenever some budget holds one and has a
  free token at that instant, and it takes the earliest ticket among those budgets.
\<close>

theorem release_progress:
  assumes "buckets_inv th" and "i < length (th_buckets th)"
    and "eligible (scan_bucket now (th_buckets th ! i)) ticket"
  shows "\<exists>s t item q. fst (release now th) = Some (budget_of_slot s, item) \<and> s < length (th_buckets th)
     \<and> bk_queue (th_buckets th ! s) = (t, item) # q \<and> t \<le> ticket"
  using assms(1)
proof (cases rule: release_cases[where now = now])
  case none
  then show ?thesis using assms(2,3) by auto
next
  case (some s t item q)
  then have "t \<le> ticket" using assms(2,3) by auto
  with some show ?thesis by blast
qed

definition sample_held_throttle :: "nat throttle" where
  "sample_held_throttle = \<lparr>th_buckets = [\<lparr>bk_spacing = 10, bk_burst = 2, bk_tokens = 1, bk_reserved = 0,
     bk_refilled_at = 0, bk_max_depth = Some 3, bk_queue = [(4, 77)]\<rparr>], th_next_ticket = 5, th_held = 1\<rparr>"

theorem release_progress_witness:
  "\<exists>s t item q. fst (release 1 sample_held_throttle) = Some (budget_of_slot s, item) \<and> s < length (th_buckets sample_held_throttle)
     \<and> bk_queue (th_buckets sample_held_throttle ! s) = (t, item) # q \<and> t \<le> 4"
  by (rule release_progress[of sample_held_throttle 0])
     (simp_all add: sample_held_throttle_def buckets_inv_def bucket_inv_def u32_max_def eligible_def scan_bucket_def
        refill_def available_def usize_sub_def duration_since_def)

subsection \<open>Configuration, Logon and the header\<close>

text \<open>
  Validation accepts exactly the usable configurations: identifiers of one to thirty-two
  legal bytes, a heartbeat interval of whole seconds up to an hour, timeouts up to five
  minutes, limits within their bounds, and options only where the protocol version has them.
\<close>

theorem config_valid_exactly:
  assumes "cfg_heartbeat_interval c < 2 ^ 64 * 1000000000"
  shows "(validate_config c = Inr ()) = usable_config c"
  using validate_config_ok[OF assms] .

theorem config_valid_exactly_witness:
  "(validate_config (session_config_new [65] [66] (bytes_of ''FIX.4.4'')) = Inr ())
     = usable_config (session_config_new [65] [66] (bytes_of ''FIX.4.4''))"
  by (rule config_valid_exactly) (simp add: session_config_new_def DEFAULT_HEARTBEAT_INTERVAL_def from_secs_def NANOS_def)

text \<open>
  The builder never yields a configuration that validation would refuse, keeps the
  identifiers it was given, and heartbeats are off only when that was asked for by name.
\<close>

theorem build_is_validated:
  assumes "build b = Inr c"
  shows "(validate_config c = Inr ())
    \<and> (bld_sender_comp_id b = Some (cfg_sender_comp_id c))
    \<and> (bld_target_comp_id b = Some (cfg_target_comp_id c))
    \<and> ((cfg_heartbeat_interval c = 0) = (bld_heartbeat b = HeartbeatsDisabled))"
  using build_Inr[OF assms] by blast

theorem build_is_validated_witness:
  "bld_sender_comp_id (build_target_comp_id [66] (build_sender_comp_id [65] builder_default)) = Some [65]"
proof -
  let ?b = "build_target_comp_id [66] (build_sender_comp_id [65] builder_default)"
  let ?c = "session_config_new [65] [66] DEFAULT_BEGIN_STRING"
  have "usable_config ?c"
    by (simp add: usable_config_def session_config_new_def DEFAULT_BEGIN_STRING_def bytes_of_def legal_id_def
        usable_timeout_def usable_gap_policy_def DEFAULT_HEARTBEAT_INTERVAL_def DEFAULT_TIMEOUT_def from_secs_def
        NANOS_def DEFAULT_MESSAGE_SIZE_LIMIT_def DEFAULT_MAX_INBOUND_FIELDS_def)
  then have "validate_config ?c = Inr ()"
    by (subst validate_config_ok)
       (simp_all add: session_config_new_def DEFAULT_HEARTBEAT_INTERVAL_def from_secs_def NANOS_def)
  then have "build ?b = Inr ?c"
    by (simp add: build_def build_target_comp_id_def build_sender_comp_id_def builder_default_def session_config_new_def
        DEFAULT_HEARTBEAT_INTERVAL_def from_secs_def NANOS_def)
  from build_is_validated[OF this] show ?thesis by (simp add: session_config_new_def)
qed

text \<open>
  What this side reports about the other's Logon and what it plans to send agree: a
  declared NextExpectedMsgSeqNum is ahead, in step or behind in the plan exactly when the
  comparison says so, over the same numbers.
\<close>

theorem next_expected_plan_agrees:
  "compare_logon_outbound (Some d) (own_logon_seq b) (next_outbound b) =
    (case plan_next_expected d b of
       Inl (NextExpectedAhead d' n) \<Rightarrow> PeerAhead d' n
     | Inr InStep \<Rightarrow> Consistent d
     | Inr (PlanReplay f t) \<Rightarrow> PeerMissed f (t - 1))"
  by (rule plan_matches_comparison)

text \<open>
  A peer passes the identity check exactly when the standard header of its message carries
  every configured identifier, mirrored: a value outside the header does not count.
\<close>

theorem identity_checked:
  assumes "pi_sender_comp_id i \<noteq> []" and "pi_target_comp_id i \<noteq> []"
    and "list_all (\<lambda>x. x \<noteq> Some []) [pi_sender_sub_id i, pi_target_sub_id i, pi_sender_location_id i, pi_target_location_id i]"
  shows "(peer_identity_validate i raw = Inr ()) =
     (carries raw 49 (pi_sender_comp_id i) \<and> carries raw 56 (pi_target_comp_id i)
     \<and> list_all (\<lambda>(tag, e). case e of Some v \<Rightarrow> carries raw tag v | None \<Rightarrow> True)
         [(50, pi_sender_sub_id i), (57, pi_target_sub_id i), (142, pi_sender_location_id i), (143, pi_target_location_id i)])"
  using validate_identity_ok[OF assms] .

theorem identity_checked_witness:
  "\<forall>raw. (peer_identity_validate (peer_identity_new (session_config_new [65] [66] [])) raw = Inr ()) =
     (carries raw 49 [66] \<and> carries raw 56 [65])"
  using identity_checked[of "peer_identity_new (session_config_new [65] [66] [])"]
  by (simp add: peer_identity_new_def session_config_new_def)

text \<open>
  A timestamp the engine writes in milliseconds is one its own SendingTime check reads
  back as the same instant, for every date from 1970 to 9999, leap seconds included.
\<close>

theorem timestamp_roundtrip:
  assumes "civil_fields_ok dt"
  shows "Option.bind (format_utc_timestamp 21 dt) parse_utc_timestamp_millis = Some (civil_millis dt)"
  using format_parse_millis[OF assms] by auto

theorem timestamp_roundtrip_witness:
  "Option.bind (format_utc_timestamp 21 \<lparr>nd_year = 2024, nd_month = 2, nd_day = 29, nd_hour = 23, nd_minute = 59,
      nd_second = 59, nd_nanosecond = 999000000\<rparr>) parse_utc_timestamp_millis = Some 1709251199999"
proof -
  let ?dt = "\<lparr>nd_year = 2024, nd_month = 2, nd_day = 29, nd_hour = 23, nd_minute = 59,
      nd_second = 59, nd_nanosecond = 999000000\<rparr>"
  have "civil_fields_ok ?dt" by (simp add: civil_fields_ok_def month_days_def leap_year_def)
  from timestamp_roundtrip[OF this] show ?thesis
    by (simp add: civil_millis_def civil_days_def year_days_def month_start_def shifted_year_def)
qed

text \<open>
  C29. The day count of the SendingTime check is the calendar's: 1970-01-01 is day zero and
  every valid date is followed by the next day's number, across months, leap years and
  centuries.
\<close>

theorem days_follow_calendar:
  assumes "valid_date (y, m, d)" and "next_day (y, m, d) = (y', m', d')"
  shows "(days_from_civil y' m' d' = map_option Suc (days_from_civil y m d))
    \<and> (days_from_civil 1970 1 1 = Some 0)"
  using days_from_civil_next[OF assms] days_from_civil_eq[of 1970 1 1, unfolded civil_epoch] by simp

theorem days_follow_calendar_witness: "days_from_civil 2000 3 1 = map_option Suc (days_from_civil 2000 2 29)"
  by (rule days_follow_calendar[THEN conjunct1]) (simp_all add: month_days_def leap_year_def)

end
