(* ===== verification/Byte_Bits.thy ===== *)
theory Byte_Bits
  imports Prelude
begin

text \<open>
  Bit operations on single bytes as arithmetic: the low seven bits, the stop bit and the sign
  bit of a FAST byte, and the big-endian bytes of a word.
\<close>

unbundle bit_operations_syntax
lemma u8_powers: "(127::u8) = mask 7" "(128::u8) = 2 ^ 7" "(64::u8) = 2 ^ 6" by (simp_all add: mask_eq_exp_minus_1)
lemma uint_and_127: "uint (b AND 127 :: u8) = uint b mod 128"
proof -
  have "uint (b AND 127) = uint (take_bit 7 b)" by (simp only: u8_powers take_bit_eq_mask)
  also have "\<dots> = take_bit 7 (uint b)" by (rule unsigned_take_bit_eq)
  finally show ?thesis by (simp add: take_bit_eq_mod)
qed
lemma bit_u8_iff: "bit (b :: u8) n \<longleftrightarrow> odd (uint b div 2 ^ n)"
  by (metis bit_uint_iff bit_iff_odd uint_lt2p len_num0 bit_imp_le_length)
lemma and_128_iff: "(b AND 128 = 0) \<longleftrightarrow> uint (b :: u8) < 128"
proof -
  have "uint b < 256" using uint_lt2p[of b] by simp
  then have "uint b div 2 ^ 7 = (if uint b < 128 then 0 else 1)"
   by (auto simp: div_pos_pos_trivial)
  then show ?thesis unfolding u8_powers and_exp_eq_0_iff_not_bit bit_u8_iff by simp
qed
lemma uint_or_128: "uint b < 128 \<Longrightarrow> uint (b OR 128 :: u8) = uint b + 128"
proof -
  assume b: "uint b < 128"
  then have "b AND 128 = 0" by (simp add: and_128_iff)
  then have "b OR 128 = b + 128" by (simp add: disjunctive_add_eq_or)
  then show ?thesis using b by (simp add: uint_word_ariths)
qed
lemma and_64_iff: "(b AND 64 = 0) \<longleftrightarrow> uint (b :: u8) mod 128 < 64"
proof -
  have "uint b mod (64 * 2) = 64 * (uint b div 64 mod 2) + uint b mod 64" by (rule zmod_zmult2_eq) simp
  then have "(uint b div 2 ^ 6) mod 2 = (if uint b mod 128 < 64 then 0 else 1)" by auto
  then show ?thesis unfolding u8_powers and_exp_eq_0_iff_not_bit bit_u8_iff odd_iff_mod_2_eq_one by simp
qed
lemma int_or_septet: "0 \<le> y \<Longrightarrow> y < 128 \<Longrightarrow> (x::int) * 128 OR y = x * 128 + y"
proof -
  assume y: "0 \<le> y" "y < 128"
  have "take_bit 7 y = y" using y by (simp add: take_bit_eq_mod)
  moreover have "push_bit 7 x = x * 128" by (simp add: push_bit_eq_mult)
  moreover have "push_bit 7 x AND take_bit 7 y = 0" by (auto simp: bit_eq_iff bit_simps)
  ultimately have "x * 128 AND y = 0" by simp
  then show ?thesis by (simp add: disjunctive_add_eq_or)
qed

subsection \<open>Big-endian bytes\<close>

text \<open>\<^verbatim>\<open>to_be_bytes\<close> and \<^verbatim>\<open>from_be_bytes\<close>: the most significant byte first.\<close>

primrec be_bytes :: "nat \<Rightarrow> nat \<Rightarrow> bytes" where
  "be_bytes 0 n = []"
| "be_bytes (Suc k) n = be_bytes k (n div 256) @ [word_of_nat n]"

definition be_value :: "bytes \<Rightarrow> nat" where
  "be_value bs = foldl (\<lambda>n b. n * 256 + unat b) 0 bs"

lemma be_value_simps [simp]: "be_value [] = 0" "be_value (bs @ [b]) = be_value bs * 256 + unat b"
  by (simp_all add: be_value_def)

lemma length_be_bytes [simp]: "length (be_bytes k n) = k"
  by (induction k arbitrary: n) simp_all

lemma unat_word8: "unat (word_of_nat n :: u8) = n mod 256"
  by (simp add: unsigned_of_nat take_bit_eq_mod)

lemma be_value_bytes: "n < 256 ^ k \<Longrightarrow> be_value (be_bytes k n) = n"
proof (induction k arbitrary: n)
  case (Suc k)
  then have "n div 256 < 256 ^ k" by (simp add: less_mult_imp_div_less mult.commute)
  with Suc.IH show ?case by (simp add: unat_word8)
qed simp

lemma be_bytes_value: "length bs = k \<Longrightarrow> be_bytes k (be_value bs) = bs"
proof (induction k arbitrary: bs)
  case (Suc k)
  then obtain xs b where bs: "bs = xs @ [b]" "length xs = k" by (metis length_Suc_conv_rev)
  have "unat b < 256" by (rule u8_less_256)
  then have "be_value bs div 256 = be_value xs" "unat (word_of_nat (be_value bs) :: u8) = unat b"
    by (simp_all add: bs unat_word8 del: of_nat_add of_nat_mult)
  moreover from this(2) have "(word_of_nat (be_value bs) :: u8) = b" by (metis word_of_nat_unat)
  ultimately show ?case using Suc.IH[OF bs(2)] bs(1) by (simp del: of_nat_add of_nat_mult be_value_simps)
qed simp

lemma be_value_less: "be_value bs < 256 ^ length bs"
proof (induction bs rule: rev_induct)
  case (snoc b bs)
  have "unat b < 256" by (rule u8_less_256)
  with snoc show ?case by simp
qed simp

definition u32_to_be :: "u32 \<Rightarrow> bytes" where "u32_to_be w = be_bytes 4 (unat w)"
definition u16_to_be :: "u16 \<Rightarrow> bytes" where "u16_to_be w = be_bytes 2 (unat w)"
definition u32_from_be :: "bytes \<Rightarrow> u32" where "u32_from_be bs = word_of_nat (be_value bs)"
definition u16_from_be :: "bytes \<Rightarrow> u16" where "u16_from_be bs = word_of_nat (be_value bs)"

lemma be_round [simp]:
  "length (u32_to_be w) = 4" "length (u16_to_be v) = 2"
  "u32_from_be (u32_to_be w) = w" "u16_from_be (u16_to_be v) = v"
proof -
  have "unat w < 256 ^ 4" by (rule order_less_le_trans[OF unsigned_less]) simp
  moreover have "unat v < 256 ^ 2" by (rule order_less_le_trans[OF unsigned_less]) simp
  ultimately show "length (u32_to_be w) = 4" "length (u16_to_be v) = 2"
    "u32_from_be (u32_to_be w) = w" "u16_from_be (u16_to_be v) = v"
    by (simp_all add: u32_to_be_def u16_to_be_def u32_from_be_def u16_from_be_def be_value_bytes)
qed

end
