(* ===== verification/Fast_Codec.thy ===== *)
theory Fast_Codec
  imports Byte_Bits
begin

text \<open>
  The stop-bit encodings of \<^verbatim>\<open>ironfix-fast/src/decoder.rs\<close> and \<^verbatim>\<open>encoder.rs\<close>:
  unsigned and signed integers, ASCII strings and byte vectors, each plain and nullable.

  A decoder function reads \<open>data\<close> at an offset it moves, so it is a \<open>fallible\<close> on the
  offset; the offset it leaves on an error is the one the code leaves.  The four integer loops
  of the decoder differ only in the type they accumulate in: \<open>stop_bit_loop\<close> takes the
  type's bounds, and accumulates an \<open>int\<close> that never leaves them.  The push loop of the
  encoder likewise runs on the integer value: an arithmetic right shift keeps the sign the
  code fixes before the loop.
\<close>

unbundle bit_operations_syntax

type_synonym i64 = "64 word"
type_synonym i32 = "32 word"

datatype fast_error =
    UnexpectedEof
  | UnknownTemplate u32
  | InvalidPresenceMap
  | PresenceMapTooLarge usize
  | PresenceMapExhausted
  | IntegerOverflow
  | InvalidString
  | InvalidDecimal i32 i64
  | MissingMandatoryField bytes
  | InvalidOperator bytes
  | DictionaryEntryNotFound bytes
  | SequenceLengthMismatch u32 u32

definition STOP_BIT :: u8 where "STOP_BIT = 128"
definition PAYLOAD_MASK :: u8 where "PAYLOAD_MASK = 127"
definition PAYLOAD_BITS :: nat where "PAYLOAD_BITS = 7"
definition SIGN_BIT :: u8 where "SIGN_BIT = 64"
definition MAX_INT_ENCODED_LEN :: usize where "MAX_INT_ENCODED_LEN = 10"

lemmas fast_consts = STOP_BIT_def PAYLOAD_MASK_def PAYLOAD_BITS_def SIGN_BIT_def MAX_INT_ENCODED_LEN_def

type_synonym 'a fast_read = "(usize, fast_error, 'a) fallible"

subsection \<open>Decoding\<close>

definition peek_byte :: "bytes \<Rightarrow> u8 fast_read" where
  "peek_byte data off = (ok_or UnexpectedEof (get_at data off), off)"

definition read_byte :: "bytes \<Rightarrow> u8 fast_read" where
  "read_byte data off =
    (case get_at data off of None \<Rightarrow> (Inl UnexpectedEof, off) | Some b \<Rightarrow> (Inr b, off + 1))"

definition checked_int :: "int \<Rightarrow> int \<Rightarrow> int \<Rightarrow> int option" where
  "checked_int lo hi x = (if lo \<le> x \<and> x \<le> hi then Some x else None)"

function stop_bit_loop :: "int \<Rightarrow> int \<Rightarrow> bytes \<Rightarrow> int \<Rightarrow> usize \<Rightarrow> int fast_read" where
  "stop_bit_loop lo hi data acc consumed off =
    (if consumed = MAX_INT_ENCODED_LEN then (Inl IntegerOverflow, off)
     else (case get_at data off of
             None \<Rightarrow> (Inl UnexpectedEof, off)
           | Some byte \<Rightarrow>
               (case checked_int lo hi (acc * 2 ^ PAYLOAD_BITS) of
                  None \<Rightarrow> (Inl IntegerOverflow, off + 1)
                | Some shifted \<Rightarrow>
                    let acc' = shifted OR uint (byte AND PAYLOAD_MASK) in
                    if byte AND STOP_BIT \<noteq> 0 then (Inr acc', off + 1)
                    else stop_bit_loop lo hi data acc' (consumed + 1) (off + 1))))"
  by pat_completeness auto
termination
  by (relation "measure (\<lambda>(_, _, data, _, _, off). length data - off)")
     (auto simp: get_at_def split: if_splits)

declare stop_bit_loop.simps [simp del]

definition decode_uint :: "bytes \<Rightarrow> u64 fast_read" where
  "decode_uint data =
    thenS (stop_bit_loop 0 (2 ^ 64 - 1) data 0 0) (\<lambda>r. liftS (Inr (word_of_int r)))"

text \<open>The accumulator of a signed value starts as the sign the first byte carries.\<close>

definition sign_start :: "u8 \<Rightarrow> int" where
  "sign_start first_byte = (if first_byte AND SIGN_BIT \<noteq> 0 then -1 else 0)"

definition decode_int :: "bytes \<Rightarrow> i64 fast_read" where
  "decode_int data =
    thenS (peek_byte data) (\<lambda>first_byte.
    thenS (stop_bit_loop (- (2 ^ 63)) (2 ^ 63 - 1) data (sign_start first_byte) 0) (\<lambda>r.
    liftS (Inr (word_of_int r))))"

definition decode_uint_u128 :: "bytes \<Rightarrow> int fast_read" where
  "decode_uint_u128 data = stop_bit_loop 0 (2 ^ 128 - 1) data 0 0"

definition decode_nullable_uint :: "bytes \<Rightarrow> u64 option fast_read" where
  "decode_nullable_uint data =
    thenS (decode_uint_u128 data) (\<lambda>biased.
      if biased = 0 then liftS (Inr None)
      else liftS (ok_or IntegerOverflow
             (map_option (Some \<circ> word_of_int)
               (Option.bind (checked_int 0 (2 ^ 128 - 1) (biased - 1)) (checked_int 0 (2 ^ 64 - 1))))))"

definition decode_int_i128 :: "bytes \<Rightarrow> int fast_read" where
  "decode_int_i128 data =
    thenS (peek_byte data) (\<lambda>first_byte.
      stop_bit_loop (- (2 ^ 127)) (2 ^ 127 - 1) data (sign_start first_byte) 0)"

definition decode_nullable_int :: "bytes \<Rightarrow> i64 option fast_read" where
  "decode_nullable_int data =
    thenS (decode_int_i128 data) (\<lambda>raw.
      if raw = 0 then liftS (Inr None)
      else if raw < 0 then
        liftS (ok_or IntegerOverflow
          (map_option (Some \<circ> word_of_int) (checked_int (- (2 ^ 63)) (2 ^ 63 - 1) raw)))
      else
        liftS (ok_or IntegerOverflow
          (map_option (Some \<circ> word_of_int)
            (Option.bind (checked_int (- (2 ^ 127)) (2 ^ 127 - 1) (raw - 1))
              (checked_int (- (2 ^ 63)) (2 ^ 63 - 1))))))"

primrec read_payload :: "bytes \<Rightarrow> nat \<Rightarrow> bytes \<Rightarrow> bytes fast_read" where
  "read_payload data 0 acc = liftS (Inr acc)"
| "read_payload data (Suc n) acc =
    thenS (read_byte data) (\<lambda>byte. read_payload data n (acc @ [byte AND PAYLOAD_MASK]))"

text \<open>\<^verbatim>\<open>tail.iter().position(|byte| byte & STOP_BIT != 0)\<close>.\<close>

fun stop_position :: "bytes \<Rightarrow> nat option" where
  "stop_position [] = None"
| "stop_position (b # bs) =
     (if b AND STOP_BIT \<noteq> 0 then Some 0 else map_option Suc (stop_position bs))"

definition read_ascii_run :: "bytes \<Rightarrow> bytes fast_read" where
  "read_ascii_run data off =
    (case Option.bind (Option.bind (get_from data off) stop_position) (\<lambda>p. usize_add p 1) of
       None \<Rightarrow> (Inl UnexpectedEof, off)
     | Some len \<Rightarrow> read_payload data len [] off)"

definition decode_ascii :: "bytes \<Rightarrow> bytes fast_read" where
  "decode_ascii data =
    thenS (peek_byte data) (\<lambda>first_byte off.
      if first_byte = STOP_BIT then (Inr [], off + 1)
      else if first_byte = 0 then
        (case Option.bind (usize_add off 1) (get_at data) of
           None \<Rightarrow> (Inl UnexpectedEof, off)
         | Some second_byte \<Rightarrow>
             if second_byte \<noteq> STOP_BIT then (Inl InvalidString, off)
             else (Inr [0], off + 2))
      else read_ascii_run data off)"

definition decode_nullable_ascii :: "bytes \<Rightarrow> bytes option fast_read" where
  "decode_nullable_ascii data =
    thenS (peek_byte data) (\<lambda>first_byte off.
      if first_byte = STOP_BIT then (Inr None, off + 1)
      else if first_byte = 0 then
        (case Option.bind (usize_add off 1) (get_at data) of
           None \<Rightarrow> (Inl UnexpectedEof, off)
         | Some second_byte \<Rightarrow>
             if second_byte = STOP_BIT then
               (case usize_add (off + 1) 1 of None \<Rightarrow> (Inl UnexpectedEof, off) | Some n \<Rightarrow> (Inr (Some []), n))
             else if second_byte \<noteq> 0 then (Inl InvalidString, off)
             else (case Option.bind (usize_add (off + 1) 1) (get_at data) of
                     None \<Rightarrow> (Inl UnexpectedEof, off)
                   | Some third_byte \<Rightarrow>
                       if third_byte \<noteq> STOP_BIT then (Inl InvalidString, off)
                       else (case usize_add (off + 2) 1 of
                               None \<Rightarrow> (Inl UnexpectedEof, off) | Some n \<Rightarrow> (Inr (Some [0]), n))))
      else thenS (read_ascii_run data) (\<lambda>s. liftS (Inr (Some s))) off)"

definition take_bytes :: "bytes \<Rightarrow> u64 \<Rightarrow> bytes fast_read" where
  "take_bytes data declared_length off =
    (case usize_sub (length data) off of
       None \<Rightarrow> (Inl UnexpectedEof, off)
     | Some remaining \<Rightarrow>
         if remaining < unat declared_length then (Inl UnexpectedEof, off)
         else (case usize_add off (unat declared_length) of
                 None \<Rightarrow> (Inl UnexpectedEof, off)
               | Some end \<Rightarrow>
                   (case get_range data off end of
                      None \<Rightarrow> (Inl UnexpectedEof, off)
                    | Some bs \<Rightarrow> (Inr bs, end))))"

definition decode_bytes :: "bytes \<Rightarrow> bytes fast_read" where
  "decode_bytes data = thenS (decode_uint data) (take_bytes data)"

definition decode_nullable_bytes :: "bytes \<Rightarrow> bytes option fast_read" where
  "decode_nullable_bytes data =
    thenS (decode_nullable_uint data) (\<lambda>len.
      case len of
        Some declared_length \<Rightarrow> thenS (take_bytes data declared_length) (\<lambda>bs. liftS (Inr (Some bs)))
      | None \<Rightarrow> liftS (Inr None))"

subsection \<open>Encoding\<close>

function septets :: "int \<Rightarrow> bytes" where
  "septets remaining =
    (let byte = word_of_int (remaining AND 127);
         rest = drop_bit PAYLOAD_BITS remaining
     in if rest = (if remaining < 0 then -1 else 0) then [byte] else byte # septets rest)"
  by pat_completeness auto
termination
proof (relation "measure (\<lambda>r. nat (if r < 0 then - r - 1 else r))")
  fix remaining :: int and byte :: u8 and rest
  assume "rest = drop_bit PAYLOAD_BITS remaining" "rest \<noteq> (if remaining < 0 then -1 else 0)"
  then show "(rest, remaining) \<in> measure (\<lambda>r. nat (if r < 0 then - r - 1 else r))"
    by (auto simp: drop_bit_eq_div PAYLOAD_BITS_def)
qed simp

declare septets.simps [simp del]

definition flush_stop_bit_encoded :: "bytes \<Rightarrow> bytes \<Rightarrow> bytes" where
  "flush_stop_bit_encoded out bs =
    out @ (case rev bs of [] \<Rightarrow> [] | ms \<Rightarrow> butlast ms @ [last ms OR STOP_BIT])"

text \<open>The sign bit of the most significant byte must agree with the sign.\<close>

definition signed_septets :: "int \<Rightarrow> bytes" where
  "signed_septets value =
    (let bs = septets value; negative = (value < 0) in
     if bs \<noteq> [] \<and> (last bs AND SIGN_BIT \<noteq> 0) \<noteq> negative
     then bs @ [if negative then PAYLOAD_MASK else 0] else bs)"

definition encode_uint :: "u64 \<Rightarrow> bytes \<Rightarrow> bytes" where
  "encode_uint value buffer = flush_stop_bit_encoded buffer (septets (uint value))"

definition encode_int :: "i64 \<Rightarrow> bytes \<Rightarrow> bytes" where
  "encode_int value buffer = flush_stop_bit_encoded buffer (signed_septets (sint value))"

definition encode_uint_u128 :: "int \<Rightarrow> bytes \<Rightarrow> bytes" where
  "encode_uint_u128 value buffer = flush_stop_bit_encoded buffer (septets value)"

definition encode_int_i128 :: "int \<Rightarrow> bytes \<Rightarrow> bytes" where
  "encode_int_i128 value buffer = flush_stop_bit_encoded buffer (signed_septets value)"

type_synonym fast_write = "(bytes, fast_error, unit) fallible"

definition is_ascii :: "bytes \<Rightarrow> bool" where
  "is_ascii bs \<longleftrightarrow> list_all (\<lambda>b. b < 128) bs"

definition encode_ascii :: "bytes \<Rightarrow> fast_write" where
  "encode_ascii value buffer =
    (if \<not> is_ascii value then (Inl InvalidString, buffer)
     else (case value of
             [] \<Rightarrow> (Inr (), buffer @ [STOP_BIT])
           | b # bs \<Rightarrow>
               if b = 0 then (if bs = [] then (Inr (), buffer @ [0, STOP_BIT]) else (Inl InvalidString, buffer))
               else (Inr (), buffer @ butlast value @ [last value OR STOP_BIT])))"

definition encode_bytes :: "bytes \<Rightarrow> bytes \<Rightarrow> bytes" where
  "encode_bytes value buffer = encode_uint (word_of_nat (length value)) buffer @ value"

definition encode_nullable_uint :: "u64 option \<Rightarrow> fast_write" where
  "encode_nullable_uint value buffer =
    (case value of
       Some v \<Rightarrow> (Inr (), encode_uint_u128 (uint v + 1) buffer)
     | None \<Rightarrow> (Inr (), buffer @ [STOP_BIT]))"

definition encode_nullable_int :: "i64 option \<Rightarrow> fast_write" where
  "encode_nullable_int value buffer =
    (case value of
       Some v \<Rightarrow>
         if sint v < 0 then (Inr (), encode_int v buffer)
         else (case checked_int (- (2 ^ 127)) (2 ^ 127 - 1) (sint v + 1) of
                 None \<Rightarrow> (Inl IntegerOverflow, buffer)
               | Some biased \<Rightarrow> (Inr (), encode_int_i128 biased buffer))
     | None \<Rightarrow> (Inr (), buffer @ [STOP_BIT]))"

definition encode_nullable_ascii :: "bytes option \<Rightarrow> fast_write" where
  "encode_nullable_ascii value buffer =
    (case value of
       None \<Rightarrow> (Inr (), buffer @ [STOP_BIT])
     | Some s \<Rightarrow>
         if \<not> is_ascii s then (Inl InvalidString, buffer)
         else (case s of
                 [] \<Rightarrow> (Inr (), buffer @ [0, STOP_BIT])
               | b # bs \<Rightarrow>
                   if b = 0 then (if bs = [] then (Inr (), buffer @ [0, 0, STOP_BIT]) else (Inl InvalidString, buffer))
                   else encode_ascii s buffer))"

definition encode_nullable_bytes :: "bytes option \<Rightarrow> fast_write" where
  "encode_nullable_bytes value =
    (case value of
       Some bs \<Rightarrow>
         thenS (liftS (if length bs < 2 ^ 64 then Inr (word_of_nat (length bs)) else Inl IntegerOverflow)) (\<lambda>len.
         thenS (encode_nullable_uint (Some len)) (\<lambda>_ buffer. (Inr (), buffer @ bs)))
     | None \<Rightarrow> (\<lambda>buffer. (Inr (), buffer @ [STOP_BIT])))"

end
