(* ===== verification/Codec_Law.thy ===== *)
theory Codec_Law
  imports Prelude
begin

text \<open>
  The contract between the two sides of a wire format: writing appends bytes, and reading at
  the place where they stand gives back the value and stops right behind them, whatever
  surrounds them.  Proved for single fields, it holds for every sequence of fields.
\<close>

definition decodes :: "(bytes \<Rightarrow> (usize, 'e, 'v) fallible) \<Rightarrow> bytes \<Rightarrow> 'v \<Rightarrow> bool" where
  "decodes dec ext v \<longleftrightarrow> (\<forall>pre post. length (pre @ ext @ post) \<le> usize_max \<longrightarrow>
     dec (pre @ ext @ post) (length pre) = (Inr v, length pre + length ext))"

lemma decodesI:
  "(\<And>pre post. length (pre @ ext @ post) \<le> usize_max \<Longrightarrow>
      dec (pre @ ext @ post) (length pre) = (Inr v, length pre + length ext)) \<Longrightarrow> decodes dec ext v"
  by (auto simp: decodes_def)

lemma decodesD:
  "decodes dec ext v \<Longrightarrow> length (pre @ ext @ post) \<le> usize_max \<Longrightarrow>
     dec (pre @ ext @ post) (length pre) = (Inr v, length pre + length ext)"
  by (auto simp: decodes_def)

lemma decodes_then:
  assumes "decodes dec ext v" and "decodes (f v) ext' w"
  shows "decodes (\<lambda>data. thenS (dec data) (\<lambda>x. f x data)) (ext @ ext') w"
proof (rule decodesI)
  fix pre post
  assume len: "length (pre @ (ext @ ext') @ post) \<le> usize_max"
  have "dec (pre @ ext @ (ext' @ post)) (length pre) = (Inr v, length pre + length ext)"
    using len by (intro decodesD[OF assms(1)]) simp
  moreover have "f v ((pre @ ext) @ ext' @ post) (length (pre @ ext)) = (Inr w, length (pre @ ext) + length ext')"
    using len by (intro decodesD[OF assms(2)]) simp
  ultimately show "thenS (dec (pre @ (ext @ ext') @ post)) (\<lambda>x. f x (pre @ (ext @ ext') @ post)) (length pre)
      = (Inr w, length pre + length (ext @ ext'))"
    by (simp add: thenS_def add.assoc)
qed

lemma thenS_assoc: "thenS (thenS m f) g = thenS m (\<lambda>x. thenS (f x) g)"
  by (rule ext) (simp add: thenS_def split: prod.splits sum.splits)

lemma decodes_map:
  assumes "decodes dec ext v"
  shows "decodes (\<lambda>data. thenS (dec data) (\<lambda>x. liftS (Inr (g x)))) ext (g v)"
  using decodes_then[OF assms, of "\<lambda>x _. liftS (Inr (g x))" "[]" "g v"]
  by (simp add: decodes_def liftS_def)

lemma decodes_check:
  assumes "decodes dec ext v" and "\<And>off. f v off = (Inr w, off)"
  shows "decodes (\<lambda>data. thenS (dec data) f) ext w"
  using decodes_then[OF assms(1), of "\<lambda>x _. f x" "[]" w] assms(2) by (simp add: decodes_def)

primrec write_all :: "('v \<Rightarrow> ('b, 'e, unit) fallible) \<Rightarrow> 'v list \<Rightarrow> ('b, 'e, unit) fallible" where
  "write_all enc [] = liftS (Inr ())"
| "write_all enc (v # vs) = thenS (enc v) (\<lambda>_. write_all enc vs)"

primrec read_all :: "('k \<Rightarrow> bytes \<Rightarrow> (usize, 'e, 'v) fallible) \<Rightarrow> 'k list \<Rightarrow> bytes \<Rightarrow> (usize, 'e, 'v list) fallible" where
  "read_all dec [] data = liftS (Inr [])"
| "read_all dec (k # ks) data =
    thenS (dec k data) (\<lambda>v. thenS (read_all dec ks data) (\<lambda>vs. liftS (Inr (v # vs))))"

locale field_codec =
  fixes kind :: "'v \<Rightarrow> 'k"
    and enc :: "'v \<Rightarrow> (bytes, 'e, unit) fallible"
    and dec :: "'k \<Rightarrow> bytes \<Rightarrow> (usize, 'e, 'v) fallible"
  assumes written: "enc v buf = (Inr (), buf') \<Longrightarrow> \<exists>ext. buf' = buf @ ext \<and> decodes (dec (kind v)) ext v"
    and refused: "enc v buf = (Inl e, buf') \<Longrightarrow> buf' = buf"
begin

lemma all_written:
  "write_all enc vs buf = (Inr (), buf') \<Longrightarrow>
     \<exists>ext. buf' = buf @ ext \<and> decodes (read_all dec (map kind vs)) ext vs"
proof (induction vs arbitrary: buf)
  case Nil
  then show ?case by (auto simp: liftS_def decodes_def)
next
  case (Cons v vs)
  then obtain mid where m: "enc v buf = (Inr (), mid)" "write_all enc vs mid = (Inr (), buf')"
    by (auto simp: result_simps)
  from written[OF m(1)] obtain e1 where e1: "mid = buf @ e1" "decodes (dec (kind v)) e1 v" by blast
  from Cons.IH[OF m(2)] obtain e2 where e2: "buf' = mid @ e2" "decodes (read_all dec (map kind vs)) e2 vs" by blast
  have "decodes (\<lambda>data. thenS (read_all dec (map kind vs) data) (\<lambda>vs. liftS (Inr (v # vs)))) e2 (v # vs)"
    using decodes_map[OF e2(2), of "(#) v"] by simp
  from decodes_then[OF e1(2), of "\<lambda>v data. thenS (read_all dec (map kind vs) data) (\<lambda>vs. liftS (Inr (v # vs)))", OF this]
  have "decodes (read_all dec (map kind (v # vs))) (e1 @ e2) (v # vs)"
    by (simp add: decodes_def)
  moreover have "buf' = buf @ (e1 @ e2)" using e1(1) e2(1) by simp
  ultimately show ?case by blast
qed

lemma written_prefix:
  "write_all enc vs buf = (r, buf') \<Longrightarrow> \<exists>ext. buf' = buf @ ext"
proof (induction vs arbitrary: buf)
  case (Cons v vs)
  show ?case
  proof (cases "enc v buf")
    case (Pair x mid)
    show ?thesis
    proof (cases x)
      case (Inl e)
      with Pair Cons.prems show ?thesis using refused[of v buf e mid] by (auto simp: thenS_def)
    next
      case (Inr u)
      with Pair Cons.prems Cons.IH[of mid] written[of v buf mid] show ?thesis by (auto simp: thenS_def)
    qed
  qed
qed (auto simp: liftS_def)

end

end
