(* ===== verification/Fast_Integers.thy ===== *)
theory Fast_Integers
  imports Fast_Codec Codec_Law
begin

text \<open>
  Correctness of the stop-bit integers: what the decoder loop accepts, exactly, and that it
  reads back every integer the encoder writes, within ten bytes.
\<close>

subsection \<open>The value of a run\<close>

definition run_value :: "int \<Rightarrow> bytes \<Rightarrow> int" where
  "run_value acc bs = foldl (\<lambda>a b. a * 128 + uint b mod 128) acc bs"

lemma run_value_simps [simp]:
  "run_value acc [] = acc"
  "run_value acc (b # bs) = run_value (acc * 128 + uint b mod 128) bs"
  "run_value acc (bs @ cs) = run_value (run_value acc bs) cs"
  by (simp_all add: run_value_def)

definition stop_bit_run :: "bytes \<Rightarrow> bool" where
  "stop_bit_run bs \<longleftrightarrow> bs \<noteq> [] \<and> list_all (\<lambda>b. uint b < 128) (butlast bs) \<and> 128 \<le> uint (last bs)"

lemma stop_bit_run_Cons:
  "stop_bit_run (b # bs) \<longleftrightarrow> (if bs = [] then 128 \<le> uint b else uint b < 128 \<and> stop_bit_run bs)"
  by (auto simp: stop_bit_run_def)

lemma septet_range:
  fixes a r lo hi :: int
  assumes "128 dvd lo" "128 dvd hi + 1" "0 \<le> r" "r < 128"
  shows "lo \<le> a * 128 + r \<and> a * 128 + r \<le> hi \<longleftrightarrow> lo \<le> a * 128 \<and> a * 128 \<le> hi"
proof -
  obtain k m where km: "lo = 128 * k" "hi + 1 = 128 * m" using assms(1,2) by (auto elim!: dvdE)
  have "128 * k \<le> a * 128 + r \<longleftrightarrow> k \<le> a" "a * 128 + r < 128 * m \<longleftrightarrow> a < m"
    using assms(3,4) by linarith+
  moreover have "lo \<le> x \<longleftrightarrow> 128 * k \<le> x" "x \<le> hi \<longleftrightarrow> x < 128 * m" for x
    using km by linarith+
  ultimately show ?thesis by simp
qed

lemma run_start_in_range:
  assumes "lo \<le> 0" "0 \<le> hi" "128 dvd lo" "128 dvd hi + 1"
    and "lo \<le> run_value acc (b # bs) \<and> run_value acc (b # bs) \<le> hi"
  shows "lo \<le> acc * 128 \<and> acc * 128 \<le> hi"
  using assms(5)
proof (induction bs arbitrary: acc b)
  case Nil
  then show ?case using septet_range[OF assms(3,4), of "uint b mod 128" acc] by simp
next
  case (Cons c cs)
  let ?w = "acc * 128 + uint b mod 128"
  have "lo \<le> ?w * 128" "?w * 128 \<le> hi" using Cons.IH[of ?w c] Cons.prems by simp_all
  moreover have "lo \<le> w * 128 \<Longrightarrow> lo \<le> w" "w * 128 \<le> hi \<Longrightarrow> w \<le> hi" for w
    using assms(1,2) by linarith+
  ultimately have "lo \<le> ?w" "?w \<le> hi" by blast+
  then show ?case using septet_range[OF assms(3,4), of "uint b mod 128" acc] by simp
qed

subsection \<open>The decoder loop\<close>

lemma loop_reads:
  assumes "lo \<le> 0" "0 \<le> hi" "128 dvd lo" "128 dvd hi + 1"
  shows "stop_bit_run bs \<Longrightarrow> consumed + length bs \<le> MAX_INT_ENCODED_LEN \<Longrightarrow>
    lo \<le> run_value acc bs \<Longrightarrow> run_value acc bs \<le> hi \<Longrightarrow> drop off data = bs @ post \<Longrightarrow>
    stop_bit_loop lo hi data acc consumed off = (Inr (run_value acc bs), off + length bs)"
proof (induction bs arbitrary: acc consumed off)
  case Nil
  then show ?case by (simp add: stop_bit_run_def)
next
  case (Cons b bs)
  have at: "get_at data off = Some b"
    using Cons.prems(5) by (cases "off < length data") (auto simp: get_at_def nth_via_drop)
  have rest: "drop (off + 1) data = bs @ post"
    using Cons.prems(5) by (metis add.commute append_Cons drop_drop drop_Suc_Cons drop_0 One_nat_def)
  have ck: "checked_int lo hi (acc * 128) = Some (acc * 128)"
    using run_start_in_range[OF assms, of acc b bs] Cons.prems(3,4) by (simp add: checked_int_def)
  have acc': "acc * 128 OR uint (b AND PAYLOAD_MASK) = acc * 128 + uint b mod 128"
    by (simp add: PAYLOAD_MASK_def uint_and_127 int_or_septet)
  have c: "consumed \<noteq> MAX_INT_ENCODED_LEN" using Cons.prems(2) by simp
  show ?case
  proof (cases "bs = []")
    case True
    then have "b AND STOP_BIT \<noteq> 0" using Cons.prems(1) by (simp add: stop_bit_run_def STOP_BIT_def and_128_iff)
    with True at ck acc' c show ?thesis
      by (subst stop_bit_loop.simps) (simp add: PAYLOAD_BITS_def Let_def)
  next
    case False
    then have "b AND STOP_BIT = 0" "stop_bit_run bs"
      using Cons.prems(1) by (simp_all add: stop_bit_run_Cons STOP_BIT_def and_128_iff)
    with at ck acc' c Cons.IH[of "consumed + 1" "acc * 128 + uint b mod 128" "off + 1"] Cons.prems rest
    show ?thesis
      by (subst stop_bit_loop.simps) (simp add: PAYLOAD_BITS_def Let_def)
  qed
qed

lemma loop_Inr:
  assumes "stop_bit_loop lo hi data acc consumed off = (Inr v, off')"
    and "consumed \<le> MAX_INT_ENCODED_LEN" "lo \<le> 0" "0 \<le> hi" "128 dvd lo" "128 dvd hi + 1"
  shows "\<exists>bs post. drop off data = bs @ post \<and> stop_bit_run bs \<and> consumed + length bs \<le> MAX_INT_ENCODED_LEN
     \<and> off' = off + length bs \<and> v = run_value acc bs \<and> lo \<le> v \<and> v \<le> hi"
  using assms
proof (induction lo hi data acc consumed off rule: stop_bit_loop.induct)
  case (1 lo hi data acc consumed off)
  obtain b where at: "get_at data off = Some b" and c: "consumed \<noteq> MAX_INT_ENCODED_LEN"
    and ck: "lo \<le> acc * 128" "acc * 128 \<le> hi"
    using 1(2)
    by (subst (asm) stop_bit_loop.simps)
       (auto simp: PAYLOAD_BITS_def checked_int_def split: option.splits if_splits)
  have d: "drop off data = b # drop (off + 1) data"
    using at by (auto simp: get_at_def Cons_nth_drop_Suc split: if_splits)
  let ?acc = "acc * 128 + uint b mod 128"
  have acc': "acc * 128 OR uint (b AND PAYLOAD_MASK) = ?acc"
    by (simp add: PAYLOAD_MASK_def uint_and_127 int_or_septet)
  have range: "lo \<le> ?acc" "?acc \<le> hi"
    using septet_range[OF 1(6,7), of "uint b mod 128" acc] ck by simp_all
  show ?case
  proof (cases "b AND STOP_BIT = 0")
    case False
    then have "stop_bit_run [b]" by (simp add: stop_bit_run_def STOP_BIT_def and_128_iff)
    moreover have "v = ?acc \<and> off' = off + 1"
      using 1(2) at c ck acc' False
      by (subst (asm) stop_bit_loop.simps) (simp add: PAYLOAD_BITS_def checked_int_def Let_def)
    ultimately show ?thesis
      using d range c 1(3) by (intro exI[of _ "[b]"] exI[of _ "drop (off + 1) data"]) simp
  next
    case True
    have run: "stop_bit_loop lo hi data ?acc (consumed + 1) (off + 1) = (Inr v, off')"
      using 1(2) at c ck acc' True
      by (subst (asm) stop_bit_loop.simps) (simp add: PAYLOAD_BITS_def checked_int_def Let_def)
    have ck': "checked_int lo hi (acc * 2 ^ PAYLOAD_BITS) = Some (acc * 128)"
      using ck by (simp add: checked_int_def PAYLOAD_BITS_def)
    have c': "consumed + 1 \<le> MAX_INT_ENCODED_LEN" using c 1(3) by simp
    from 1(1)[OF c at ck' refl, unfolded acc', OF _ run c' 1(4-7)] True
    obtain bs post where "drop (off + 1) data = bs @ post" "stop_bit_run bs"
      "consumed + 1 + length bs \<le> MAX_INT_ENCODED_LEN" "off' = off + 1 + length bs"
      "v = run_value ?acc bs" "lo \<le> v" "v \<le> hi"
      by blast
    moreover have "uint b < 128" using True by (simp add: STOP_BIT_def and_128_iff)
    ultimately show ?thesis
      using d by (intro exI[of _ "b # bs"] exI[of _ post]) (simp add: stop_bit_run_Cons, simp add: stop_bit_run_def)
  qed
qed

lemma get_at_run: "drop off data = bs @ post \<Longrightarrow> bs \<noteq> [] \<Longrightarrow> get_at data off = Some (hd bs)"
  by (cases bs; cases "off < length data") (auto simp: get_at_def nth_via_drop)

lemma decode_uint_iff:
  "decode_uint data off = (Inr v, off') \<longleftrightarrow>
     (\<exists>bs post. drop off data = bs @ post \<and> stop_bit_run bs \<and> length bs \<le> MAX_INT_ENCODED_LEN
        \<and> off' = off + length bs \<and> uint v = run_value 0 bs)" (is "?l = ?r")
proof
  assume ?l
  then obtain r where r: "stop_bit_loop 0 (2 ^ 64 - 1) data 0 0 off = (Inr r, off')" "v = word_of_int r"
    by (auto simp: decode_uint_def result_simps)
  from loop_Inr[OF r(1)] obtain bs post where "drop off data = bs @ post" "stop_bit_run bs"
    "length bs \<le> MAX_INT_ENCODED_LEN" "off' = off + length bs" "r = run_value 0 bs" "0 \<le> r" "r \<le> 2 ^ 64 - 1"
    by auto
  then show ?r using r(2) by (intro exI[of _ bs] exI[of _ post]) (simp add: word_of_int_inverse)
next
  assume ?r
  then obtain bs post where bs: "drop off data = bs @ post" "stop_bit_run bs"
    "length bs \<le> MAX_INT_ENCODED_LEN" "off' = off + length bs" "uint v = run_value 0 bs" by blast
  have "0 \<le> uint v" "uint v \<le> 2 ^ 64 - 1" using uint_lt2p[of v] by simp_all
  then have "stop_bit_loop 0 (2 ^ 64 - 1) data 0 0 off = (Inr (uint v), off')"
    using loop_reads[of 0 "2 ^ 64 - 1" bs 0 0 off data post] bs by simp
  then show ?l by (simp add: decode_uint_def thenS_def liftS_def)
qed

lemma sint_in_range: "- (2 ^ 63) \<le> sint (v :: i64)" "sint (v :: i64) \<le> 2 ^ 63 - 1"
  using sint_greater_eq[of v] sint_less[of v] by simp_all

lemma sint_word_of_int: "- (2 ^ 63) \<le> r \<Longrightarrow> r \<le> 2 ^ 63 - 1 \<Longrightarrow> sint (word_of_int r :: i64) = r"
  by (simp add: sint_sbintrunc' signed_take_bit_int_eq_self)

lemma decode_int_iff:
  "decode_int data off = (Inr v, off') \<longleftrightarrow>
     (\<exists>bs post. drop off data = bs @ post \<and> stop_bit_run bs \<and> length bs \<le> MAX_INT_ENCODED_LEN
        \<and> off' = off + length bs \<and> sint v = run_value (sign_start (hd bs)) bs)" (is "?l = ?r")
proof
  assume ?l
  then obtain b r where at: "get_at data off = Some b"
    and r: "stop_bit_loop (- (2 ^ 63)) (2 ^ 63 - 1) data (sign_start b) 0 off = (Inr r, off')" "v = word_of_int r"
    by (auto simp: decode_int_def result_simps peek_byte_def)
  from loop_Inr[OF r(1)] obtain bs post where bs: "drop off data = bs @ post" "stop_bit_run bs"
    "length bs \<le> MAX_INT_ENCODED_LEN" "off' = off + length bs" "r = run_value (sign_start b) bs"
    "- (2 ^ 63) \<le> r" "r \<le> 2 ^ 63 - 1"
    by auto
  moreover have "hd bs = b"
    using at get_at_run[OF bs(1)] bs(2) by (simp add: stop_bit_run_def)
  ultimately show ?r using sint_word_of_int[OF bs(6,7)] r(2) by blast
next
  assume ?r
  then obtain bs post where bs: "drop off data = bs @ post" "stop_bit_run bs"
    "length bs \<le> MAX_INT_ENCODED_LEN" "off' = off + length bs" "sint v = run_value (sign_start (hd bs)) bs" by blast
  have at: "get_at data off = Some (hd bs)" using get_at_run[OF bs(1)] bs(2) by (simp add: stop_bit_run_def)
  have "stop_bit_loop (- (2 ^ 63)) (2 ^ 63 - 1) data (sign_start (hd bs)) 0 off = (Inr (sint v), off')"
    using loop_reads[of "- (2 ^ 63)" "2 ^ 63 - 1" bs 0 "sign_start (hd bs)" off data post] bs sint_in_range[of v] by simp
  then show ?l using at by (simp add: decode_int_def thenS_def liftS_def peek_byte_def)
qed

subsection \<open>The encoder loop\<close>

abbreviation sign_of :: "int \<Rightarrow> int" where "sign_of v \<equiv> (if v < 0 then -1 else 0)"

lemma septets_step:
  "septets v = (let b = word_of_int (v mod 128) in
     if v div 128 = sign_of v then [b] else b # septets (v div 128))"
proof -
  have "v AND 127 = v mod 128"
    using take_bit_eq_mask[of 7 v] by (simp add: take_bit_eq_mod mask_eq_exp_minus_1)
  then show ?thesis
    by (subst septets.simps) (simp add: drop_bit_eq_div PAYLOAD_BITS_def Let_def)
qed

lemma uint_septet: "uint (word_of_int (v mod 128) :: u8) = v mod 128"
  by (rule word_of_int_inverse[OF refl]) (simp_all add: order_less_trans[OF pos_mod_bound])

lemma septets_induct [case_names base step]:
  assumes "\<And>v. v div 128 = sign_of v \<Longrightarrow> P v"
    and "\<And>v. v div 128 \<noteq> sign_of v \<Longrightarrow> P (v div 128) \<Longrightarrow> P v"
  shows "P (v :: int)"
proof (induction v rule: septets.induct)
  case (1 v)
  then show ?case using assms[of v] by (auto simp: drop_bit_eq_div PAYLOAD_BITS_def split: if_splits)
qed

lemma septets_facts:
  "septets v \<noteq> [] \<and> list_all (\<lambda>b. uint b < 128) (septets v) \<and> run_value (sign_of v) (rev (septets v)) = v"
proof (induction v rule: septets_induct)
  case (base v)
  then have "sign_of v * 128 + v mod 128 = v" by (metis div_mult_mod_eq)
  moreover have "septets v = [word_of_int (v mod 128)]" using base by (subst septets_step) (simp add: Let_def)
  ultimately show ?case by (simp add: uint_septet)
next
  case (step v)
  have s: "sign_of (v div 128) = sign_of v" by (simp add: pos_imp_zdiv_neg_iff)
  have "septets v = word_of_int (v mod 128) # septets (v div 128)"
    using step(1) by (subst septets_step) (simp add: Let_def)
  then show ?case using step(2) by (simp add: s uint_septet)
qed

lemma length_septets: "0 \<le> v \<Longrightarrow> v < 128 ^ Suc k \<Longrightarrow> length (septets v) \<le> Suc k"
proof (induction k arbitrary: v)
  case 0
  then show ?case by (subst septets_step) (simp add: Let_def)
next
  case (Suc k)
  have "v < 128 * p \<Longrightarrow> v div 128 < p" for p :: int by linarith
  then have "v div 128 < 128 ^ Suc k" using Suc.prems by simp
  with Suc.IH[of "v div 128"] Suc.prems(1) show ?case
    by (subst septets_step) (simp add: Let_def)
qed

subsection \<open>The written run\<close>

definition marked :: "bytes \<Rightarrow> bytes" where
  "marked ms = butlast ms @ [last ms OR STOP_BIT]"

lemma flush_marked: "bs \<noteq> [] \<Longrightarrow> flush_stop_bit_encoded out bs = out @ marked (rev bs)"
  by (cases "rev bs") (auto simp: flush_stop_bit_encoded_def marked_def)

lemma marked_run:
  assumes "ms \<noteq> []" "list_all (\<lambda>b. uint b < 128) ms"
  shows "stop_bit_run (marked ms)" "length (marked ms) = length ms"
    "run_value acc (marked ms) = run_value acc ms" "sign_start (hd (marked ms)) = sign_start (hd ms)"
proof -
  obtain xs l where ms: "ms = xs @ [l]" using assms(1) by (metis rev_exhaust)
  then have l: "uint (l OR STOP_BIT) = uint l + 128" and small: "list_all (\<lambda>b. uint b < 128) xs" "uint l < 128"
    using assms(2) by (simp_all add: STOP_BIT_def uint_or_128)
  show "stop_bit_run (marked ms)" using l small by (simp add: marked_def ms stop_bit_run_def)
  show "length (marked ms) = length ms" by (simp add: marked_def ms)
  show "run_value acc (marked ms) = run_value acc ms" using l by (simp add: marked_def ms)
  have "sign_start (l OR STOP_BIT) = sign_start l" using l by (simp add: sign_start_def SIGN_BIT_def and_64_iff)
  then show "sign_start (hd (marked ms)) = sign_start (hd ms)" by (cases xs) (simp_all add: marked_def ms)
qed

lemma run_decodes_uint:
  assumes "0 \<le> hi" "128 dvd hi + 1" "stop_bit_run bs" "length bs \<le> MAX_INT_ENCODED_LEN"
    "run_value 0 bs = v" "0 \<le> v" "v \<le> hi"
  shows "decodes (\<lambda>data. stop_bit_loop 0 hi data 0 0) bs v"
proof (rule decodesI)
  fix pre post
  show "stop_bit_loop 0 hi (pre @ bs @ post) 0 0 (length pre) = (Inr v, length pre + length bs)"
    using loop_reads[of 0 hi bs 0 0 "length pre" "pre @ bs @ post" post] assms by simp
qed

lemma uint_run:
  assumes "0 \<le> v" "v < 128 ^ Suc k" "k < MAX_INT_ENCODED_LEN" "0 \<le> hi" "128 dvd hi + 1" "v \<le> hi"
  shows "decodes (\<lambda>data. stop_bit_loop 0 hi data 0 0) (marked (rev (septets v))) v"
proof -
  have f: "rev (septets v) \<noteq> []" "list_all (\<lambda>b. uint b < 128) (rev (septets v))" "run_value 0 (rev (septets v)) = v"
    using septets_facts[of v] assms(1) by (simp_all add: list_all_iff)
  note m = marked_run[OF f(1,2)]
  have "length (septets v) \<le> MAX_INT_ENCODED_LEN" using length_septets[OF assms(1,2)] assms(3) by simp
  then show ?thesis using m f(3) assms by (intro run_decodes_uint) simp_all
qed

lemma encode_uint_written:
  "\<exists>ext. encode_uint v buf = buf @ ext \<and> decodes decode_uint ext v"
proof -
  have "uint v < 2 ^ 64" "0 \<le> uint v" using uint_lt2p[of v] by simp_all
  then have "decodes (\<lambda>data. stop_bit_loop 0 (2 ^ 64 - 1) data 0 0) (marked (rev (septets (uint v)))) (uint v)"
    by (intro uint_run[where k = 9]) (simp_all add: MAX_INT_ENCODED_LEN_def)
  from decodes_map[OF this, of "word_of_int :: int \<Rightarrow> u64"]
  have "decodes decode_uint (marked (rev (septets (uint v)))) v" by (simp add: decodes_def decode_uint_def)
  moreover have "encode_uint v buf = buf @ marked (rev (septets (uint v)))"
    using septets_facts[of "uint v"] by (simp add: encode_uint_def flush_marked)
  ultimately show ?thesis by blast
qed

subsection \<open>Signed runs\<close>

lemma signed_septets_step:
  "signed_septets v = (let b = word_of_int (v mod 128) in
     if - 64 \<le> v \<and> v < 64 then [b] else b # signed_septets (v div 128))"
proof (cases "v div 128 = sign_of v")
  case True
  then have small: "- 128 \<le> v \<and> v < 128" by (auto split: if_splits)
  have m: "v mod 128 = v - 128 * sign_of v" using minus_mult_div_eq_mod[of v 128] True by simp
  have s: "septets v = [word_of_int (v mod 128)]" using True by (subst septets_step) (simp add: Let_def)
  have d: "septets (sign_of v) = [word_of_int (sign_of v mod 128)]" by (subst septets_step) (simp add: Let_def)
  have neg: "(word_of_int (x mod 128) AND SIGN_BIT \<noteq> 0) = (64 \<le> x mod 128)" for x
    using uint_septet[of x] by (auto simp: SIGN_BIT_def and_64_iff)
  consider "v < - 64" | "- 64 \<le> v" "v < 0" | "0 \<le> v" "v < 64" | "64 \<le> v" by linarith
  then show ?thesis
  proof cases
    case 1
    then show ?thesis using small m neg[of v] neg[of "-1"] s d True
      by (simp add: signed_septets_def Let_def PAYLOAD_MASK_def)
  next
    case 2
    then show ?thesis using small m neg[of v] s d True by (simp add: signed_septets_def Let_def)
  next
    case 3
    then show ?thesis using small m neg[of v] s d True by (simp add: signed_septets_def Let_def)
  next
    case 4
    then show ?thesis using small m neg[of v] neg[of 0] s d True by (simp add: signed_septets_def Let_def)
  qed
next
  case False
  have "- 64 \<le> v \<Longrightarrow> v < 0 \<Longrightarrow> v div 128 = -1" "0 \<le> v \<Longrightarrow> v < 64 \<Longrightarrow> v div 128 = 0" by linarith+
  with False have big: "\<not> (- 64 \<le> v \<and> v < 64)" by (auto split: if_splits)
  have s: "septets v = word_of_int (v mod 128) # septets (v div 128)"
    using False by (subst septets_step) (simp add: Let_def)
  have "(v div 128 < 0) = (v < 0)" by (simp add: pos_imp_zdiv_neg_iff)
  with s septets_facts[of "v div 128"] show ?thesis
    unfolding if_not_P[OF big] Let_def by (simp add: signed_septets_def Let_def)
qed

lemma signed_septets_facts:
  "signed_septets v \<noteq> [] \<and> list_all (\<lambda>b. uint b < 128) (signed_septets v)
   \<and> sign_start (last (signed_septets v)) = sign_of v
   \<and> run_value (sign_of v) (rev (signed_septets v)) = v"
proof -
  let ?bs = "septets v"
  have f: "?bs \<noteq> []" "list_all (\<lambda>b. uint b < 128) ?bs" "run_value (sign_of v) (rev ?bs) = v"
    using septets_facts[of v] by simp_all
  show ?thesis
    using f by (cases "v < 0") (simp_all add: signed_septets_def Let_def sign_start_def PAYLOAD_MASK_def SIGN_BIT_def and_64_iff)
qed

lemma length_signed_septets:
  "- (64 * 128 ^ k) \<le> v \<Longrightarrow> v < 64 * 128 ^ k \<Longrightarrow> length (signed_septets v) \<le> Suc k"
proof (induction k arbitrary: v)
  case 0
  then show ?case by (subst signed_septets_step) (simp add: Let_def)
next
  case (Suc k)
  have "- (128 * p) \<le> v \<Longrightarrow> - p \<le> v div 128" "v < 128 * p \<Longrightarrow> v div 128 < p" for p :: int by linarith+
  then have "- (64 * 128 ^ k) \<le> v div 128" "v div 128 < 64 * 128 ^ k" using Suc.prems by simp_all
  with Suc.IH[of "v div 128"] show ?case
    by (subst signed_septets_step) (simp add: Let_def)
qed

lemma int_run:
  assumes "- (64 * 128 ^ k) \<le> v" "v < 64 * 128 ^ k" "k < MAX_INT_ENCODED_LEN"
    "lo \<le> 0" "0 \<le> hi" "128 dvd lo" "128 dvd hi + 1" "lo \<le> v" "v \<le> hi"
  shows "decodes (\<lambda>data. thenS (peek_byte data) (\<lambda>b. stop_bit_loop lo hi data (sign_start b) 0))
           (marked (rev (signed_septets v))) v"
proof (rule decodesI)
  fix pre post
  let ?ms = "rev (signed_septets v)"
  have f: "?ms \<noteq> []" "list_all (\<lambda>b. uint b < 128) ?ms" "run_value (sign_of v) ?ms = v" "sign_start (hd ?ms) = sign_of v"
    using signed_septets_facts[of v] by (simp_all add: list_all_iff hd_rev)
  note m = marked_run[OF f(1,2)]
  let ?data = "pre @ marked ?ms @ post"
  have "length ?ms \<le> MAX_INT_ENCODED_LEN" using length_signed_septets[OF assms(1,2)] assms(3) by simp
  then have "stop_bit_loop lo hi ?data (sign_of v) 0 (length pre) = (Inr v, length pre + length (marked ?ms))"
    using loop_reads[OF assms(4-7) m(1), of 0 "sign_of v" "length pre" ?data post] m(2,3) f(3) assms(8,9) by simp
  moreover have "get_at ?data (length pre) = Some (hd (marked ?ms))"
    using m(1) by (intro get_at_run[of _ _ _ post]) (simp_all add: stop_bit_run_def)
  moreover have "sign_start (hd (marked ?ms)) = sign_of v" using m(4) f(4) by simp
  ultimately show "thenS (peek_byte ?data) (\<lambda>b. stop_bit_loop lo hi ?data (sign_start b) 0) (length pre)
      = (Inr v, length pre + length (marked ?ms))"
    by (simp add: thenS_def peek_byte_def)
qed

lemma flush_signed: "flush_stop_bit_encoded buf (signed_septets v) = buf @ marked (rev (signed_septets v))"
  using signed_septets_facts[of v] by (simp add: flush_marked)

lemma encode_int_written:
  "\<exists>ext. encode_int v buf = buf @ ext \<and> decodes decode_int ext v"
proof -
  let ?ext = "marked (rev (signed_septets (sint v)))"
  have "decodes (\<lambda>data. thenS (peek_byte data) (\<lambda>b. stop_bit_loop (- (2 ^ 63)) (2 ^ 63 - 1) data (sign_start b) 0)) ?ext (sint v)"
    using sint_in_range[of v] by (intro int_run[where k = 9]) (simp_all add: MAX_INT_ENCODED_LEN_def)
  from decodes_map[OF this, of "word_of_int :: int \<Rightarrow> i64"]
  have "decodes decode_int ?ext v"
    by (simp add: decode_int_def[abs_def] thenS_assoc)
  then show ?thesis by (auto simp: encode_int_def flush_signed)
qed

end
