(* ===== verification/Fast_Presence.thy ===== *)
theory Fast_Presence
  imports Fast_Integers
begin

text \<open>
  Presence maps (\<^verbatim>\<open>ironfix-fast/src/pmap.rs\<close>) and the field operators that read them
  (\<^verbatim>\<open>operators.rs\<close>).  The encoder drops trailing empty bytes; the operators take the bits
  past the end of a map for zero, which is what makes the truncation unobservable.
\<close>

unbundle bit_operations_syntax

subsection \<open>Presence maps\<close>

definition MAX_PMAP_BYTES :: usize where "MAX_PMAP_BYTES = 64"

record presence_map =
  pm_bits :: "bool list"
  pm_position :: usize

definition pmap_new :: presence_map where
  "pmap_new = \<lparr>pm_bits = [], pm_position = 0\<rparr>"

definition pmap_from_bits :: "bool list \<Rightarrow> presence_map" where
  "pmap_from_bits bits = \<lparr>pm_bits = bits, pm_position = 0\<rparr>"

text \<open>The seven payload bits of a byte, most significant first.\<close>

definition payload_bits :: "u8 \<Rightarrow> bool list" where
  "payload_bits byte = map (\<lambda>shift. drop_bit shift byte AND 1 = 1) (rev [0..<PAYLOAD_BITS])"

function pmap_loop :: "bytes \<Rightarrow> bool list \<Rightarrow> usize \<Rightarrow> bool list fast_read" where
  "pmap_loop data bits consumed off =
    (if consumed = MAX_PMAP_BYTES then (Inl (PresenceMapTooLarge MAX_PMAP_BYTES), off)
     else (case get_at data off of
             None \<Rightarrow> (Inl UnexpectedEof, off)
           | Some byte \<Rightarrow>
               let bits' = bits @ payload_bits byte in
               if byte AND STOP_BIT \<noteq> 0 then (Inr bits', off + 1)
               else pmap_loop data bits' (consumed + 1) (off + 1)))"
  by pat_completeness auto
termination
  by (relation "measure (\<lambda>(data, _, _, off). length data - off)") (auto simp: get_at_def split: if_splits)

declare pmap_loop.simps [simp del]

definition pmap_decode :: "bytes \<Rightarrow> presence_map fast_read" where
  "pmap_decode data =
    thenS (pmap_loop data [] 0) (\<lambda>bits. liftS (Inr \<lparr>pm_bits = bits, pm_position = 0\<rparr>))"

definition next_bit :: "(presence_map, fast_error, bool) fallible" where
  "next_bit pm =
    (case get_at (pm_bits pm) (pm_position pm) of
       None \<Rightarrow> (Inl PresenceMapExhausted, pm)
     | Some present \<Rightarrow> (Inr present, pm\<lparr>pm_position := pm_position pm + 1\<rparr>))"

definition pmap_bit :: "presence_map \<Rightarrow> usize \<Rightarrow> bool option" where
  "pmap_bit pm index = get_at (pm_bits pm) index"

definition pmap_len :: "presence_map \<Rightarrow> usize" where
  "pmap_len pm = length (pm_bits pm)"

definition pmap_is_empty :: "presence_map \<Rightarrow> bool" where
  "pmap_is_empty pm \<longleftrightarrow> pm_bits pm = []"

definition is_exhausted :: "presence_map \<Rightarrow> bool" where
  "is_exhausted pm \<longleftrightarrow> length (pm_bits pm) \<le> pm_position pm"

definition pmap_reset :: "presence_map \<Rightarrow> presence_map" where
  "pmap_reset pm = pm\<lparr>pm_position := 0\<rparr>"

function chunks :: "nat \<Rightarrow> 'a list \<Rightarrow> 'a list list" where
  "chunks n xs = (if xs = [] \<or> n = 0 then [] else take n xs # chunks n (drop n xs))"
  by pat_completeness auto
termination by (relation "measure (\<lambda>(n, xs). length xs)") auto

declare chunks.simps [simp del]

text \<open>One byte of the map: bit \<open>index\<close> of the chunk goes to payload position \<open>6 - index\<close>.\<close>

definition pack_chunk :: "bool list \<Rightarrow> u8" where
  "pack_chunk chunk =
    fold (\<lambda>(index, present) byte.
      if present then byte OR push_bit (PAYLOAD_BITS - 1 - index) 1 else byte)
    (enumerate 0 chunk) 0"

function pop_zeros :: "bytes \<Rightarrow> bytes" where
  "pop_zeros result = (if 1 < length result \<and> last result = 0 then pop_zeros (butlast result) else result)"
  by pat_completeness auto
termination by (relation "measure length") auto

declare pop_zeros.simps [simp del]

definition pmap_encode :: "presence_map \<Rightarrow> fast_error + bytes" where
  "pmap_encode pm =
    (let byte_len = (length (pm_bits pm) + PAYLOAD_BITS - 1) div PAYLOAD_BITS in
     if MAX_PMAP_BYTES < byte_len then Inl (PresenceMapTooLarge MAX_PMAP_BYTES)
     else
       let result = pop_zeros (map pack_chunk (chunks PAYLOAD_BITS (pm_bits pm)));
           result' = (if result = [] then [0] else result)
       in Inr (butlast result' @ [last result' OR STOP_BIT]))"

record presence_map_builder = pb_bits :: "bool list"

definition builder_bit :: "bool \<Rightarrow> presence_map_builder \<Rightarrow> presence_map_builder" where
  "builder_bit present b = b\<lparr>pb_bits := pb_bits b @ [present]\<rparr>"

definition builder_build :: "presence_map_builder \<Rightarrow> presence_map" where
  "builder_build b = \<lparr>pm_bits = pb_bits b, pm_position = 0\<rparr>"

subsection \<open>Operators\<close>

datatype fast_operator = OpNone | OpConstant | OpDefault | OpCopy | OpIncrement | OpDelta | OpTail

datatype field_transfer = TransferStream | TransferInitialValue | TransferDictionary | TransferAbsent

definition uses_dictionary :: "fast_operator \<Rightarrow> bool" where
  "uses_dictionary op \<longleftrightarrow> op \<in> {OpCopy, OpIncrement, OpDelta, OpTail}"

fun requires_pmap :: "fast_operator \<Rightarrow> bool \<Rightarrow> bool" where
  "requires_pmap OpNone optional = False"
| "requires_pmap OpDelta optional = False"
| "requires_pmap OpConstant optional = optional"
| "requires_pmap _ optional = True"

fun can_be_absent :: "fast_operator \<Rightarrow> bool" where
  "can_be_absent OpNone = False"
| "can_be_absent OpDelta = False"
| "can_be_absent _ = True"

fun transfer_of :: "fast_operator \<Rightarrow> bool option \<Rightarrow> field_transfer" where
  "transfer_of OpNone _ = TransferStream"
| "transfer_of OpDelta _ = TransferStream"
| "transfer_of OpConstant (Some False) = TransferAbsent"
| "transfer_of OpConstant _ = TransferInitialValue"
| "transfer_of OpDefault (Some True) = TransferStream"
| "transfer_of OpDefault _ = TransferInitialValue"
| "transfer_of _ (Some True) = TransferStream"
| "transfer_of _ _ = TransferDictionary"

definition transfer :: "fast_operator \<Rightarrow> bool \<Rightarrow> (presence_map, fast_error, field_transfer) fallible" where
  "transfer op optional pm =
    (if requires_pmap op optional
     then (case next_bit pm of
             (Inr present, pm') \<Rightarrow> (Inr (transfer_of op (Some present)), pm')
           | (Inl PresenceMapExhausted, pm') \<Rightarrow> (Inr (transfer_of op (Some False)), pm')
           | (Inl other, pm') \<Rightarrow> (Inl other, pm'))
     else (Inr (transfer_of op None), pm))"

primrec transfers :: "(fast_operator \<times> bool) list \<Rightarrow> (presence_map, fast_error, field_transfer list) fallible" where
  "transfers [] = liftS (Inr [])"
| "transfers (f # fs) = thenS (transfer (fst f) (snd f)) (\<lambda>t. thenS (transfers fs) (\<lambda>ts. liftS (Inr (t # ts))))"

subsection \<open>What the operators see of a map\<close>

definition bit_at :: "bool list \<Rightarrow> nat \<Rightarrow> bool" where
  "bit_at bits i \<longleftrightarrow> i < length bits \<and> bits ! i"

definition same_view :: "presence_map \<Rightarrow> presence_map \<Rightarrow> bool" where
  "same_view p q \<longleftrightarrow> (\<forall>k. bit_at (pm_bits p) (pm_position p + k) = bit_at (pm_bits q) (pm_position q + k))"

lemma transfer_eq:
  "\<exists>pm'. transfer op optional pm =
      (Inr (transfer_of op (if requires_pmap op optional then Some (bit_at (pm_bits pm) (pm_position pm)) else None)), pm')
   \<and> pm_bits pm' = pm_bits pm
   \<and> (\<forall>k. bit_at (pm_bits pm) (pm_position pm' + k)
        = bit_at (pm_bits pm) (pm_position pm + (if requires_pmap op optional then 1 else 0) + k))"
  by (auto simp: transfer_def next_bit_def get_at_def bit_at_def)

lemma transfer_view:
  assumes "same_view p q"
  shows "\<exists>t p' q'. transfer op optional p = (Inr t, p') \<and> transfer op optional q = (Inr t, q') \<and> same_view p' q'"
proof -
  have v: "bit_at (pm_bits p) (pm_position p + k) = bit_at (pm_bits q) (pm_position q + k)" for k
    using assms by (simp add: same_view_def)
  obtain p' where p': "transfer op optional p =
      (Inr (transfer_of op (if requires_pmap op optional then Some (bit_at (pm_bits p) (pm_position p)) else None)), p')"
    "pm_bits p' = pm_bits p"
    "\<forall>k. bit_at (pm_bits p) (pm_position p' + k)
        = bit_at (pm_bits p) (pm_position p + (if requires_pmap op optional then 1 else 0) + k)"
    using transfer_eq by blast
  obtain q' where q': "transfer op optional q =
      (Inr (transfer_of op (if requires_pmap op optional then Some (bit_at (pm_bits q) (pm_position q)) else None)), q')"
    "pm_bits q' = pm_bits q"
    "\<forall>k. bit_at (pm_bits q) (pm_position q' + k)
        = bit_at (pm_bits q) (pm_position q + (if requires_pmap op optional then 1 else 0) + k)"
    using transfer_eq by blast
  have "same_view p' q'"
    using p'(2,3) q'(2,3) v by (simp add: same_view_def add.assoc)
  moreover have "bit_at (pm_bits p) (pm_position p) = bit_at (pm_bits q) (pm_position q)" using v[of 0] by simp
  ultimately show ?thesis using p'(1) q'(1) by auto
qed

lemma transfers_view:
  "same_view p q \<Longrightarrow> \<exists>ts p' q'. transfers fs p = (Inr ts, p') \<and> transfers fs q = (Inr ts, q') \<and> same_view p' q'"
proof (induction fs arbitrary: p q)
  case Nil
  then show ?case by (auto simp: liftS_def)
next
  case (Cons f fs)
  from transfer_view[OF Cons.prems, of "fst f" "snd f"] obtain t p1 q1 where
    "transfer (fst f) (snd f) p = (Inr t, p1)" "transfer (fst f) (snd f) q = (Inr t, q1)" "same_view p1 q1" by blast
  moreover from Cons.IH[OF this(3)] obtain ts p2 q2 where
    "transfers fs p1 = (Inr ts, p2)" "transfers fs q1 = (Inr ts, q2)" "same_view p2 q2" by blast
  ultimately show ?case by (auto simp: thenS_def liftS_def)
qed

subsection \<open>Encoding and decoding a map\<close>

lemma bit_at_append_False: "bit_at (xs @ replicate m False) = bit_at xs"
  by (auto simp: bit_at_def nth_append fun_eq_iff)

lemma payload_bits_bit: "payload_bits b = map (bit b) [6, 5, 4, 3, 2, 1, 0]"
proof -
  have "(drop_bit s b AND 1 = 1) = bit b s" for s
    by (simp add: and_one_eq bit_iff_odd_drop_bit odd_iff_mod_2_eq_one)
  then show ?thesis by (simp add: payload_bits_def PAYLOAD_BITS_def upt_rec numeral_eq_Suc)
qed

lemma bit_exp_u8: "bit (2 ^ m :: u8) k \<longleftrightarrow> k < 8 \<and> m = k"
  by (auto simp: bit_exp_iff)

lemma payload_bits_marked: "payload_bits (b OR STOP_BIT) = payload_bits b"
proof -
  have "bit STOP_BIT k = (k = 7)" for k
    unfolding STOP_BIT_def u8_powers bit_exp_u8 by auto
  then show ?thesis by (simp add: payload_bits_bit bit_or_iff)
qed

lemma bit_pack_fold:
  "k < 8 \<Longrightarrow>
   bit (fold (\<lambda>(index, present) byte. if present then byte OR push_bit (6 - index) 1 else byte) (enumerate j xs) b :: u8) k
     \<longleftrightarrow> bit b k \<or> (\<exists>i<length xs. xs ! i \<and> k = 6 - (j + i))"
proof (induction xs arbitrary: j b)
  case (Cons x xs)
  have "bit (push_bit (6 - j) 1 :: u8) k = (k = 6 - j)"
    using Cons.prems bit_exp_u8[of "6 - j" k] by (auto simp: push_bit_eq_mult)
  then have "bit (if x then b OR push_bit (6 - j) 1 else b) k \<longleftrightarrow> bit b k \<or> x \<and> k = 6 - j"
    by (simp add: bit_or_iff)
  then show ?case using Cons.IH[OF Cons.prems, of "Suc j" "if x then b OR push_bit (6 - j) 1 else b"]
    by (auto simp: Ex_less_Suc2)
qed simp

lemma bit_pack_chunk:
  assumes "length c \<le> 7" "k < 8"
  shows "bit (pack_chunk c) k \<longleftrightarrow> k \<le> 6 \<and> 6 - k < length c \<and> c ! (6 - k)"
proof -
  have "pack_chunk c = fold (\<lambda>(index, present) byte. if present then byte OR push_bit (6 - index) 1 else byte) (enumerate 0 c) 0"
    by (simp add: pack_chunk_def PAYLOAD_BITS_def cong: if_cong)
  then have "bit (pack_chunk c) k \<longleftrightarrow> (\<exists>i<length c. c ! i \<and> k = 6 - i)"
    using bit_pack_fold[OF assms(2), of 0 c 0] by simp
  also have "\<dots> \<longleftrightarrow> k \<le> 6 \<and> 6 - k < length c \<and> c ! (6 - k)"
  proof
    assume "\<exists>i<length c. c ! i \<and> k = 6 - i"
    then obtain i where i: "i < length c" "c ! i" "k = 6 - i" by blast
    moreover have "6 - k = i" using i(1,3) assms(1) by simp
    ultimately show "k \<le> 6 \<and> 6 - k < length c \<and> c ! (6 - k)" by simp
  next
    assume "k \<le> 6 \<and> 6 - k < length c \<and> c ! (6 - k)"
    then show "\<exists>i<length c. c ! i \<and> k = 6 - i" by (intro exI[of _ "6 - k"]) simp
  qed
  finally show ?thesis .
qed

lemma uint_pack_chunk: "length c \<le> 7 \<Longrightarrow> uint (pack_chunk c) < 128"
proof -
  assume c: "length c \<le> 7"
  have "\<not> bit (pack_chunk c) 7" using bit_pack_chunk[OF c, of 7] by simp
  then have "pack_chunk c AND 2 ^ 7 = 0" by (simp only: and_exp_eq_0_iff_not_bit not_False_eq_True)
  then have "pack_chunk c AND 128 = 0" by simp
  then show ?thesis by (simp only: and_128_iff)
qed

lemma payload_pack_chunk:
  assumes "length c \<le> 7"
  shows "payload_bits (pack_chunk c) = c @ replicate (7 - length c) False"
proof (rule nth_equalityI)
  show "length (payload_bits (pack_chunk c)) = length (c @ replicate (7 - length c) False)"
    using assms by (simp add: payload_bits_bit)
  fix i assume "i < length (payload_bits (pack_chunk c))"
  then have i: "i < 7" by (simp add: payload_bits_bit)
  have "payload_bits (pack_chunk c) ! i = bit (pack_chunk c) (6 - i)"
  proof -
    have "i \<in> {0, 1, 2, 3, 4, 5, 6}" using i by auto
    then show ?thesis by (auto simp: payload_bits_bit)
  qed
  also have "\<dots> = (i < length c \<and> c ! i)" using bit_pack_chunk[OF assms, of "6 - i"] i by simp
  also have "\<dots> = (c @ replicate (7 - length c) False) ! i" using i by (simp add: nth_append)
  finally show "payload_bits (pack_chunk c) ! i = (c @ replicate (7 - length c) False) ! i" .
qed

definition all_bits :: "bytes \<Rightarrow> bool list" where
  "all_bits bs = concat (map payload_bits bs)"

lemma all_bits_simps [simp]:
  "all_bits [] = []" "all_bits (b # bs) = payload_bits b @ all_bits bs"
  "all_bits (bs @ cs) = all_bits bs @ all_bits cs"
  by (simp_all add: all_bits_def)

lemma pack_chunks:
  "\<exists>m. all_bits (map pack_chunk (chunks 7 bits)) = bits @ replicate m False"
proof (induction "7 :: nat" bits rule: chunks.induct)
  case (1 bits)
  show ?case
  proof (cases "length bits \<le> 7")
    case True
    then have "chunks 7 bits = (if bits = [] then [] else [bits])"
      by (subst chunks.simps, subst chunks.simps) simp
    then show ?thesis
      using payload_pack_chunk[OF True] by (auto intro: exI[of _ 0])
  next
    case False
    then have c: "chunks 7 bits = take 7 bits # chunks 7 (drop 7 bits)" by (subst chunks.simps) auto
    have "bits \<noteq> []" using False by auto
    then obtain m where "all_bits (map pack_chunk (chunks 7 (drop 7 bits))) = drop 7 bits @ replicate m False"
      using 1 \<open>bits \<noteq> []\<close> by auto
    then show ?thesis using payload_pack_chunk[of "take 7 bits"] False
      by (intro exI[of _ m]) (simp add: c append_assoc[symmetric] del: append_assoc)
  qed
qed

lemma chunks_small: "list_all (\<lambda>c. length c \<le> 7) (chunks 7 bits)"
  by (induction "7 :: nat" bits rule: chunks.induct) (subst chunks.simps, simp)

lemma length_chunks: "length (chunks 7 bits) = (length bits + 6) div 7"
proof (induction "7 :: nat" bits rule: chunks.induct)
  case (1 bits)
  show ?case
  proof (cases "bits = []")
    case False
    then have "length (chunks 7 bits) = Suc ((length bits - 7 + 6) div 7)"
      using 1 by (subst chunks.simps) simp
    moreover have "0 < n \<Longrightarrow> Suc ((n - 7 + 6) div 7) = (n + 6) div 7" for n :: nat
    proof (cases "n \<le> 7")
      case True
      moreover assume "0 < n"
      ultimately have "(n + 6) div 7 = 1" by (intro div_nat_eqI) simp_all
      with True show ?thesis by simp
    next
      case False
      then have "n + 6 = (n - 7 + 6) + 7" by simp
      then have "(n + 6) div 7 = (n - 7 + 6) div 7 + 1" by (metis div_add_self2 zero_neq_numeral)
      then show ?thesis by simp
    qed
    then have "Suc ((length bits - 7 + 6) div 7) = (length bits + 6) div 7" using False by simp
    ultimately show ?thesis by simp
  qed (subst chunks.simps, simp)
qed

lemma pop_zeros_prefix: "\<exists>m. bs = pop_zeros bs @ replicate m 0"
proof (induction bs rule: pop_zeros.induct)
  case (1 bs)
  show ?case
  proof (cases "1 < length bs \<and> last bs = 0")
    case True
    then obtain m where "butlast bs = pop_zeros (butlast bs) @ replicate m 0" using 1 by blast
    moreover have "bs \<noteq> []" using True by auto
    then have "bs = butlast bs @ [0]" using True append_butlast_last_id[of bs] by simp
    ultimately have "bs = pop_zeros (butlast bs) @ replicate (Suc m) 0"
      by (metis append.assoc replicate_append_same replicate_Suc)
    moreover have "pop_zeros bs = pop_zeros (butlast bs)" using True by (subst pop_zeros.simps) simp
    ultimately show ?thesis by metis
  next
    case False
    then have "pop_zeros bs = bs" by (subst pop_zeros.simps) auto
    then show ?thesis by (auto intro: exI[of _ 0])
  qed
qed

lemma all_bits_zeros: "all_bits (replicate m 0) = replicate (7 * m) False"
  by (induction m) (simp_all add: payload_bits_bit replicate_add numeral_eq_Suc)

lemma pmap_loop_reads:
  "stop_bit_run bs \<Longrightarrow> consumed + length bs \<le> MAX_PMAP_BYTES \<Longrightarrow> drop off data = bs @ post \<Longrightarrow>
     pmap_loop data bits consumed off = (Inr (bits @ all_bits bs), off + length bs)"
proof (induction bs arbitrary: bits consumed off)
  case (Cons b bs)
  have at: "get_at data off = Some b" using get_at_run[OF Cons.prems(3)] by simp
  have rest: "drop (off + 1) data = bs @ post"
    using Cons.prems(3) by (metis add.commute append_Cons drop_drop drop_Suc_Cons drop_0 One_nat_def)
  show ?case
  proof (cases "bs = []")
    case True
    then show ?thesis using at Cons.prems(1,2)
      by (subst pmap_loop.simps) (simp add: stop_bit_run_def STOP_BIT_def and_128_iff Let_def)
  next
    case False
    then show ?thesis using at rest Cons.prems(1,2) Cons.IH[of "consumed + 1" "off + 1"]
      by (subst pmap_loop.simps) (simp add: stop_bit_run_Cons STOP_BIT_def and_128_iff Let_def)
  qed
qed (simp add: stop_bit_run_def)

lemma all_bits_marked:
  assumes "ms \<noteq> []"
  shows "all_bits (marked ms) = all_bits ms"
proof -
  obtain xs l where "ms = xs @ [l]" using assms by (metis rev_exhaust)
  then show ?thesis by (simp add: marked_def payload_bits_marked)
qed

lemma pmap_encode_decodes:
  assumes "pmap_encode pm = Inr bs"
  shows "\<exists>bits. decodes pmap_decode bs \<lparr>pm_bits = bits, pm_position = 0\<rparr> \<and> bit_at bits = bit_at (pm_bits pm)"
proof -
  define packed where "packed = map pack_chunk (chunks 7 (pm_bits pm))"
  define ms where "ms = (if pop_zeros packed = [] then [0] else pop_zeros packed)"
  have bs: "bs = marked ms" and len: "(length (pm_bits pm) + 6) div 7 \<le> MAX_PMAP_BYTES"
    using assms by (auto simp: pmap_encode_def Let_def PAYLOAD_BITS_def packed_def ms_def marked_def split: if_splits)
  obtain z where z: "packed = pop_zeros packed @ replicate z 0" using pop_zeros_prefix by blast
  have small: "list_all (\<lambda>b. uint b < 128) packed"
    using chunks_small[of "pm_bits pm"] by (auto simp: packed_def list_all_iff uint_pack_chunk)
  have "list_all (\<lambda>b. uint b < 128) (pop_zeros packed)"
    using small by (subst (asm) z) simp
  then have ms: "ms \<noteq> []" "list_all (\<lambda>b. uint b < 128) ms" by (simp_all add: ms_def)
  have "length (pop_zeros packed) \<le> length packed" using arg_cong[OF z, of length] by simp
  then have ml: "length ms \<le> MAX_PMAP_BYTES"
    using len by (auto simp: ms_def packed_def length_chunks MAX_PMAP_BYTES_def)
  obtain m where "all_bits packed = pm_bits pm @ replicate m False"
    using pack_chunks[of "pm_bits pm"] by (auto simp: packed_def)
  then have "bit_at (all_bits packed) = bit_at (pm_bits pm)" by (simp add: bit_at_append_False)
  moreover have "bit_at (all_bits packed) = bit_at (all_bits (pop_zeros packed))"
    by (subst z) (simp add: all_bits_zeros bit_at_append_False)
  moreover have "bit_at (all_bits ms) = bit_at (all_bits (pop_zeros packed))"
    using all_bits_zeros[of 1] bit_at_append_False[of "[]" 7] by (simp add: ms_def)
  ultimately have view: "bit_at (all_bits (marked ms)) = bit_at (pm_bits pm)" by (simp add: all_bits_marked[OF ms(1)])
  have "decodes pmap_decode (marked ms) \<lparr>pm_bits = all_bits (marked ms), pm_position = 0\<rparr>"
  proof (rule decodesI)
    fix pre post
    show "pmap_decode (pre @ marked ms @ post) (length pre)
      = (Inr \<lparr>pm_bits = all_bits (marked ms), pm_position = 0\<rparr>, length pre + length (marked ms))"
      using pmap_loop_reads[OF marked_run(1)[OF ms], of 0 "length pre" "pre @ marked ms @ post" post "[]"]
        marked_run(2)[OF ms] ml
      by (simp add: pmap_decode_def thenS_def liftS_def)
  qed
  with view bs show ?thesis by blast
qed

end
