(* ===== verification/Fast_Fields.thy ===== *)
theory Fast_Fields
  imports Fast_Integers
begin

text \<open>
  The remaining field encodings, and all of them as one codec: whatever fields an encoder
  accepts, in whatever order, the matching decoders read back.
\<close>

subsection \<open>Nullable integers\<close>

lemma stop_bit_alone: "stop_bit_run [STOP_BIT]" "run_value 0 [STOP_BIT] = 0" "sign_start STOP_BIT = 0"
  by (simp_all add: stop_bit_run_def STOP_BIT_def sign_start_def SIGN_BIT_def and_64_iff)

lemma nullable_uint_written:
  "\<exists>ext. encode_nullable_uint v buf = (Inr (), buf @ ext) \<and> decodes decode_nullable_uint ext v"
proof (cases v)
  case None
  have "decodes decode_uint_u128 [STOP_BIT] 0"
    using stop_bit_alone unfolding decode_uint_u128_def[abs_def]
    by (intro run_decodes_uint) (simp_all add: MAX_INT_ENCODED_LEN_def)
  then have "decodes decode_nullable_uint [STOP_BIT] None"
    unfolding decode_nullable_uint_def[abs_def] by (rule decodes_check) (simp add: liftS_def)
  then show ?thesis by (auto simp: None encode_nullable_uint_def)
next
  case (Some w)
  let ?ext = "marked (rev (septets (uint w + 1)))"
  have w: "0 \<le> uint w + 1" "uint w + 1 \<noteq> 0" "uint w < 2 ^ 64" using uint_lt2p[of w] uint_ge_0[of w] by (linarith, linarith, simp)
  have "decodes decode_uint_u128 ?ext (uint w + 1)"
    using w unfolding decode_uint_u128_def[abs_def]
    by (intro uint_run[where k = 9]) (simp_all add: MAX_INT_ENCODED_LEN_def)
  then have "decodes decode_nullable_uint ?ext (Some w)"
    unfolding decode_nullable_uint_def[abs_def] by (rule decodes_check) (use w in \<open>simp add: liftS_def checked_int_def\<close>)
  moreover have "encode_nullable_uint v buf = (Inr (), buf @ ?ext)"
    using septets_facts[of "uint w + 1"] by (simp add: Some encode_nullable_uint_def encode_uint_u128_def flush_marked)
  ultimately show ?thesis using Some by blast
qed

lemma nullable_int_reads:
  assumes "decodes decode_int_i128 ext raw"
    and "(if raw = 0 then v = None else if raw < 0 then v = Some (word_of_int raw) \<and> - (2 ^ 63) \<le> raw
          else v = Some (word_of_int (raw - 1)) \<and> raw \<le> 2 ^ 63)"
  shows "decodes decode_nullable_int ext v"
  using assms(1) unfolding decode_nullable_int_def[abs_def]
  by (rule decodes_check) (use assms(2) in \<open>auto simp: liftS_def checked_int_def split: if_splits\<close>)

lemma i128_run:
  assumes "- (2 ^ 63) \<le> v" "v \<le> 2 ^ 63"
  shows "decodes decode_int_i128 (marked (rev (signed_septets v))) v"
  using assms unfolding decode_int_i128_def[abs_def]
  by (intro int_run[where k = 9]) (simp_all add: MAX_INT_ENCODED_LEN_def)

lemma nullable_int_written:
  "\<exists>ext. encode_nullable_int v buf = (Inr (), buf @ ext) \<and> decodes decode_nullable_int ext v"
proof (cases v)
  case None
  have "decodes decode_int_i128 [STOP_BIT] 0"
  proof (rule decodesI)
    fix pre post :: bytes
    have "stop_bit_loop (- (2 ^ 127)) (2 ^ 127 - 1) (pre @ [STOP_BIT] @ post) 0 0 (length pre) = (Inr 0, length pre + 1)"
      using loop_reads[of "- (2 ^ 127)" "2 ^ 127 - 1" "[STOP_BIT]" 0 0 "length pre" "pre @ [STOP_BIT] @ post" post] stop_bit_alone
      by (simp add: MAX_INT_ENCODED_LEN_def)
    then show "decode_int_i128 (pre @ [STOP_BIT] @ post) (length pre) = (Inr 0, length pre + length [STOP_BIT])"
      using stop_bit_alone by (simp add: decode_int_i128_def thenS_def peek_byte_def get_at_def)
  qed
  then have "decodes decode_nullable_int [STOP_BIT] None" by (rule nullable_int_reads) simp
  then show ?thesis by (auto simp: None encode_nullable_int_def)
next
  case (Some w)
  define raw where "raw = (if sint w < 0 then sint w else sint w + 1)"
  have r: "- (2 ^ 63) \<le> raw" "raw \<le> 2 ^ 63" using sint_in_range[of w] by (auto simp: raw_def)
  have "encode_nullable_int v buf = (Inr (), buf @ marked (rev (signed_septets raw)))"
    using sint_in_range[of w]
    by (auto simp: Some encode_nullable_int_def encode_int_def encode_int_i128_def flush_signed raw_def checked_int_def)
  moreover have "decodes decode_nullable_int (marked (rev (signed_septets raw))) v"
    by (rule nullable_int_reads[OF i128_run[OF r]]) (use r in \<open>auto simp: Some raw_def\<close>)
  ultimately show ?thesis by blast
qed

subsection \<open>Strings\<close>

lemma u8_and_mask: "b AND PAYLOAD_MASK = b" if "uint (b :: u8) < 128"
  using that uint_and_127[of b] by (intro word_uint_eqI) (simp add: PAYLOAD_MASK_def)

lemma u8_or_and_mask: "(b OR STOP_BIT) AND PAYLOAD_MASK = b" if "uint (b :: u8) < 128"
  using that uint_or_128[of b] uint_and_127[of "b OR 128"]
  by (intro word_uint_eqI) (simp add: PAYLOAD_MASK_def STOP_BIT_def)

lemma marked_payload:
  assumes "ms \<noteq> []" "list_all (\<lambda>b. uint b < 128) ms"
  shows "map (\<lambda>b. b AND PAYLOAD_MASK) (marked ms) = ms"
proof -
  obtain xs l where ms: "ms = xs @ [l]" using assms(1) by (metis rev_exhaust)
  have "map (\<lambda>b. b AND PAYLOAD_MASK) xs = xs"
    using assms(2) by (simp add: ms map_idI list_all_iff u8_and_mask)
  then show ?thesis using assms(2) by (simp add: ms marked_def u8_or_and_mask)
qed

lemma stop_position_run: "stop_bit_run bs \<Longrightarrow> stop_position (bs @ post) = Some (length bs - 1)"
proof (induction bs)
  case (Cons b bs)
  then show ?case
    by (cases "bs = []") (auto simp: stop_bit_run_Cons STOP_BIT_def and_128_iff stop_bit_run_def)
qed (simp add: stop_bit_run_def)

lemma read_payload_eq:
  "off + n \<le> length data \<Longrightarrow>
     read_payload data n acc off = (Inr (acc @ map (\<lambda>b. b AND PAYLOAD_MASK) (take n (drop off data))), off + n)"
proof (induction n arbitrary: acc off)
  case (Suc n)
  then have "drop off data = data ! off # drop (off + 1) data" by (simp add: Cons_nth_drop_Suc)
  with Suc show ?case by (simp add: thenS_def read_byte_def get_at_def)
qed (simp add: liftS_def)

lemma ascii_run_reads:
  assumes "stop_bit_run bs"
  shows "decodes read_ascii_run bs (map (\<lambda>b. b AND PAYLOAD_MASK) bs)"
proof (rule decodesI)
  fix pre post
  assume len: "length (pre @ bs @ post) \<le> usize_max"
  have "bs \<noteq> []" using assms by (simp add: stop_bit_run_def)
  then have "usize_add (length bs - 1) 1 = Some (length bs)" using len by (simp add: usize_add_def)
  then show "read_ascii_run (pre @ bs @ post) (length pre) = (Inr (map (\<lambda>b. b AND PAYLOAD_MASK) bs), length pre + length bs)"
    using stop_position_run[OF assms, of post]
    by (simp add: read_ascii_run_def get_from_def read_payload_eq)
qed

lemma marked_first:
  assumes "ms \<noteq> []" "list_all (\<lambda>b. uint b < 128) ms" "hd ms \<noteq> 0"
  shows "hd (marked ms) \<noteq> STOP_BIT" "hd (marked ms) \<noteq> 0"
proof -
  obtain m xs where ms: "ms = m # xs" using assms(1) by (cases ms) auto
  have "uint m < 128" "m \<noteq> 0" using assms(2,3) by (simp_all add: ms)
  then have "uint (m OR STOP_BIT) \<noteq> 128" "uint (m OR STOP_BIT) \<noteq> 0" "uint m \<noteq> 128"
    using uint_or_128[of m] uint_0_iff[of m] uint_ge_0[of m] unfolding STOP_BIT_def by (simp, linarith, simp)
  then have "m OR STOP_BIT \<noteq> STOP_BIT" "m OR STOP_BIT \<noteq> 0" "m \<noteq> STOP_BIT" by (auto simp: STOP_BIT_def)
  then show "hd (marked ms) \<noteq> STOP_BIT" "hd (marked ms) \<noteq> 0"
    using \<open>m \<noteq> 0\<close> by (cases xs; simp add: marked_def ms)+
qed

lemma is_ascii_uint: "is_ascii bs \<longleftrightarrow> list_all (\<lambda>b. uint b < 128) bs"
  by (simp add: is_ascii_def word_less_def)

lemma get_at_append: "get_at (pre @ b # bs) (length pre) = Some b"
  by (simp add: get_at_def)

text \<open>A string not opening with NUL is the same run in both forms.\<close>

lemma plain_ascii_reads:
  assumes "ms \<noteq> []" "is_ascii ms" "hd ms \<noteq> 0"
  shows "decodes decode_ascii (marked ms) ms" "decodes decode_nullable_ascii (marked ms) (Some ms)"
proof -
  have small: "list_all (\<lambda>b. uint b < 128) ms" using assms(2) by (simp add: is_ascii_uint)
  note m = marked_run[OF assms(1) small] marked_payload[OF assms(1) small] marked_first[OF assms(1) small assms(3)]
  have run: "decodes read_ascii_run (marked ms) ms" using ascii_run_reads[OF m(1)] m(5) by simp
  have at: "get_at (pre @ marked ms @ post) (length pre) = Some (hd (marked ms))" for pre post
    using m(1) by (intro get_at_run[of _ _ _ post]) (simp_all add: stop_bit_run_def)
  show "decodes decode_ascii (marked ms) ms"
    using decodesD[OF run] at m(6,7) by (intro decodesI) (simp add: decode_ascii_def thenS_def peek_byte_def)
  show "decodes decode_nullable_ascii (marked ms) (Some ms)"
    using decodesD[OF run] at m(6,7)
    by (intro decodesI) (simp add: decode_nullable_ascii_def thenS_def peek_byte_def liftS_def)
qed

lemma encode_ascii_written:
  assumes "encode_ascii v buf = (Inr (), buf')"
  shows "\<exists>ext. buf' = buf @ ext \<and> decodes decode_ascii ext v"
proof (cases v)
  case Nil
  then show ?thesis using assms
    by (auto simp: encode_ascii_def is_ascii_def decodes_def decode_ascii_def thenS_def peek_byte_def get_at_append)
next
  case (Cons b bs)
  show ?thesis
  proof (cases "b = 0")
    case True
    then have v: "v = [0]" "buf' = buf @ [0, STOP_BIT]"
      using assms Cons by (auto simp: encode_ascii_def split: if_splits)
    have "decodes decode_ascii [0, STOP_BIT] [0]"
      by (rule decodesI)
         (simp add: decode_ascii_def thenS_def peek_byte_def get_at_def nth_append usize_add_def STOP_BIT_def)
    with v show ?thesis by blast
  next
    case False
    then have "is_ascii v" "buf' = buf @ marked v"
      using assms Cons by (auto simp: encode_ascii_def marked_def split: if_splits)
    with plain_ascii_reads(1)[of v] Cons False show ?thesis by auto
  qed
qed

lemma encode_nullable_ascii_written:
  assumes "encode_nullable_ascii v buf = (Inr (), buf')"
  shows "\<exists>ext. buf' = buf @ ext \<and> decodes decode_nullable_ascii ext v"
proof -
  have null: "decodes decode_nullable_ascii [STOP_BIT] None"
    by (rule decodesI) (simp add: decode_nullable_ascii_def thenS_def peek_byte_def get_at_append)
  have empty: "decodes decode_nullable_ascii [0, STOP_BIT] (Some [])"
    by (rule decodesI)
       (simp add: decode_nullable_ascii_def thenS_def peek_byte_def get_at_def nth_append usize_add_def STOP_BIT_def)
  have nul: "decodes decode_nullable_ascii [0, 0, STOP_BIT] (Some [0])"
    by (rule decodesI)
       (simp add: decode_nullable_ascii_def thenS_def peek_byte_def get_at_def nth_append usize_add_def STOP_BIT_def)
  show ?thesis
  proof (cases v)
    case None
    then show ?thesis using assms null by (auto simp: encode_nullable_ascii_def)
  next
    case (Some s)
    show ?thesis
    proof (cases s)
      case Nil
      then show ?thesis using assms empty Some by (auto simp: encode_nullable_ascii_def is_ascii_def)
    next
      case (Cons b bs)
      show ?thesis
      proof (cases "b = 0")
        case True
        then show ?thesis using assms nul Some Cons
          by (auto simp: encode_nullable_ascii_def split: if_splits)
      next
        case False
        then have "is_ascii s" "buf' = buf @ marked s"
          using assms Some Cons by (auto simp: encode_nullable_ascii_def encode_ascii_def marked_def split: if_splits)
        with plain_ascii_reads(2)[of s] Some Cons False show ?thesis by auto
      qed
    qed
  qed
qed

subsection \<open>Byte vectors\<close>

lemma take_bytes_reads: "decodes (\<lambda>data. take_bytes data (word_of_nat (length bs))) bs bs"
proof (rule decodesI)
  fix pre post
  assume len: "length (pre @ bs @ post) \<le> usize_max"
  then have "unat (word_of_nat (length bs) :: u64) = length bs"
    by (intro unat_of_nat_small) (simp add: usize_max_def)
  with len show "take_bytes (pre @ bs @ post) (word_of_nat (length bs)) (length pre) = (Inr bs, length pre + length bs)"
    by (simp add: take_bytes_def usize_sub_def usize_add_def get_range_def)
qed

lemma encode_bytes_written: "\<exists>ext. encode_bytes v buf = buf @ ext \<and> decodes decode_bytes ext v"
proof -
  obtain ext where e: "encode_uint (word_of_nat (length v)) buf = buf @ ext"
    "decodes decode_uint ext (word_of_nat (length v))"
    using encode_uint_written by blast
  from decodes_then[OF e(2), of "\<lambda>n data. take_bytes data n", OF take_bytes_reads]
  have "decodes decode_bytes (ext @ v) v" by (simp add: decode_bytes_def[abs_def])
  with e(1) show ?thesis by (auto simp: encode_bytes_def)
qed

lemma encode_nullable_bytes_written:
  assumes "encode_nullable_bytes v buf = (Inr (), buf')"
  shows "\<exists>ext. buf' = buf @ ext \<and> decodes decode_nullable_bytes ext v"
proof -
  let ?rest = "\<lambda>len data. case len of
        Some n \<Rightarrow> thenS (take_bytes data n) (\<lambda>bs. liftS (Inr (Some bs))) | None \<Rightarrow> liftS (Inr None)"
  show ?thesis
  proof (cases v)
    case None
    obtain ext where e: "encode_nullable_uint None buf = (Inr (), buf @ ext)" "decodes decode_nullable_uint ext None"
      using nullable_uint_written by blast
    have "decodes (?rest None) [] None" by (simp add: decodes_def liftS_def)
    from decodes_then[OF e(2), of ?rest, OF this] have "decodes decode_nullable_bytes ext None"
      by (simp add: decode_nullable_bytes_def[abs_def])
    then show ?thesis using assms e(1) None by (auto simp: encode_nullable_bytes_def encode_nullable_uint_def)
  next
    case (Some bs)
    let ?len = "Some (word_of_nat (length bs))"
    obtain ext where e: "encode_nullable_uint ?len buf = (Inr (), buf @ ext)" "decodes decode_nullable_uint ext ?len"
      using nullable_uint_written by blast
    have "decodes (?rest ?len) bs (Some bs)"
      using decodes_map[OF take_bytes_reads[of bs], of Some] by simp
    from decodes_then[OF e(2), of ?rest, OF this] have "decodes decode_nullable_bytes (ext @ bs) (Some bs)"
      by (simp add: decode_nullable_bytes_def[abs_def])
    then show ?thesis using assms e(1) Some
      by (auto simp: encode_nullable_bytes_def result_simps thenS_def liftS_def split: if_splits)
  qed
qed

subsection \<open>A message of fields\<close>

datatype fast_field =
    UIntField u64 | IntField i64 | AsciiField bytes | BytesField bytes
  | NullableUIntField "u64 option" | NullableIntField "i64 option"
  | NullableAsciiField "bytes option" | NullableBytesField "bytes option"

datatype fast_kind = KUInt | KInt | KAscii | KBytes | KNullableUInt | KNullableInt | KNullableAscii | KNullableBytes

fun kind_of :: "fast_field \<Rightarrow> fast_kind" where
  "kind_of (UIntField _) = KUInt"
| "kind_of (IntField _) = KInt"
| "kind_of (AsciiField _) = KAscii"
| "kind_of (BytesField _) = KBytes"
| "kind_of (NullableUIntField _) = KNullableUInt"
| "kind_of (NullableIntField _) = KNullableInt"
| "kind_of (NullableAsciiField _) = KNullableAscii"
| "kind_of (NullableBytesField _) = KNullableBytes"

fun encode_field :: "fast_field \<Rightarrow> fast_write" where
  "encode_field (UIntField v) buf = (Inr (), encode_uint v buf)"
| "encode_field (IntField v) buf = (Inr (), encode_int v buf)"
| "encode_field (AsciiField v) buf = encode_ascii v buf"
| "encode_field (BytesField v) buf = (Inr (), encode_bytes v buf)"
| "encode_field (NullableUIntField v) buf = encode_nullable_uint v buf"
| "encode_field (NullableIntField v) buf = encode_nullable_int v buf"
| "encode_field (NullableAsciiField v) buf = encode_nullable_ascii v buf"
| "encode_field (NullableBytesField v) buf = encode_nullable_bytes v buf"

definition as_field :: "('a \<Rightarrow> fast_field) \<Rightarrow> 'a fast_read \<Rightarrow> fast_field fast_read" where
  "as_field c r = thenS r (\<lambda>v. liftS (Inr (c v)))"

fun decode_field :: "fast_kind \<Rightarrow> bytes \<Rightarrow> fast_field fast_read" where
  "decode_field KUInt = (\<lambda>data. as_field UIntField (decode_uint data))"
| "decode_field KInt = (\<lambda>data. as_field IntField (decode_int data))"
| "decode_field KAscii = (\<lambda>data. as_field AsciiField (decode_ascii data))"
| "decode_field KBytes = (\<lambda>data. as_field BytesField (decode_bytes data))"
| "decode_field KNullableUInt = (\<lambda>data. as_field NullableUIntField (decode_nullable_uint data))"
| "decode_field KNullableInt = (\<lambda>data. as_field NullableIntField (decode_nullable_int data))"
| "decode_field KNullableAscii = (\<lambda>data. as_field NullableAsciiField (decode_nullable_ascii data))"
| "decode_field KNullableBytes = (\<lambda>data. as_field NullableBytesField (decode_nullable_bytes data))"

lemma field_written:
  assumes "decodes dec ext w" and "v = c w" and "decode_field (kind_of v) = (\<lambda>data. as_field c (dec data))"
    and "buf' = buf @ ext"
  shows "\<exists>ext. buf' = buf @ ext \<and> decodes (decode_field (kind_of v)) ext v"
proof -
  have "decodes (\<lambda>data. as_field c (dec data)) ext (c w)"
    using assms(1) unfolding as_field_def by (rule decodes_map)
  with assms show ?thesis by metis
qed

lemma encode_field_written:
  assumes e: "encode_field v buf = (Inr (), buf')"
  shows "\<exists>ext. buf' = buf @ ext \<and> decodes (decode_field (kind_of v)) ext v"
proof (cases v)
  case (UIntField w)
  obtain ext where "buf' = buf @ ext" "decodes decode_uint ext w"
    using encode_uint_written[of w buf] e by (auto simp: UIntField)
  then show ?thesis by (intro field_written) (simp_all add: UIntField)
next
  case (IntField w)
  obtain ext where "buf' = buf @ ext" "decodes decode_int ext w"
    using encode_int_written[of w buf] e by (auto simp: IntField)
  then show ?thesis by (intro field_written) (simp_all add: IntField)
next
  case (AsciiField w)
  then obtain ext where "buf' = buf @ ext" "decodes decode_ascii ext w"
    using e encode_ascii_written[of w buf buf'] by auto
  then show ?thesis by (intro field_written) (simp_all add: AsciiField)
next
  case (BytesField w)
  obtain ext where "buf' = buf @ ext" "decodes decode_bytes ext w"
    using encode_bytes_written[of w buf] e by (auto simp: BytesField)
  then show ?thesis by (intro field_written) (simp_all add: BytesField)
next
  case (NullableUIntField w)
  obtain ext where "buf' = buf @ ext" "decodes decode_nullable_uint ext w"
    using nullable_uint_written[of w buf] e by (auto simp: NullableUIntField)
  then show ?thesis by (intro field_written) (simp_all add: NullableUIntField)
next
  case (NullableIntField w)
  obtain ext where "buf' = buf @ ext" "decodes decode_nullable_int ext w"
    using nullable_int_written[of w buf] e by (auto simp: NullableIntField)
  then show ?thesis by (intro field_written) (simp_all add: NullableIntField)
next
  case (NullableAsciiField w)
  then obtain ext where "buf' = buf @ ext" "decodes decode_nullable_ascii ext w"
    using e encode_nullable_ascii_written[of w buf buf'] by auto
  then show ?thesis by (intro field_written) (simp_all add: NullableAsciiField)
next
  case (NullableBytesField w)
  then obtain ext where "buf' = buf @ ext" "decodes decode_nullable_bytes ext w"
    using e encode_nullable_bytes_written[of w buf buf'] by auto
  then show ?thesis by (intro field_written) (simp_all add: NullableBytesField)
qed

lemma encode_field_refused: "encode_field v buf = (Inl e, buf') \<Longrightarrow> buf' = buf"
  by (cases v)
     (auto simp: encode_ascii_def encode_nullable_uint_def encode_nullable_int_def encode_nullable_ascii_def
       encode_nullable_bytes_def thenS_def liftS_def split: list.splits if_splits option.splits)

interpretation fast_codec: field_codec kind_of encode_field decode_field
  by unfold_locales (rule encode_field_written encode_field_refused; assumption)+

lemmas fast_all_written = fast_codec.all_written

end
