(* ===== verification/Fast_Dictionary.thy ===== *)
theory Fast_Dictionary
  imports Fast_Fields
begin

text \<open>
  The dictionaries of the FAST codec: the values an operator remembers between messages
  (\<^verbatim>\<open>operators.rs\<close>) and the decoder and encoder that hold them (\<^verbatim>\<open>decoder.rs\<close>,
  \<^verbatim>\<open>encoder.rs\<close>).  A \<^verbatim>\<open>HashMap\<close> is a partial function; its iteration order is
  never observed.  The locale \<open>keyed_values\<close> is what an operator relies on.
\<close>

datatype dictionary_scope = ScopeGlobal | ScopeTemplate | ScopeType

datatype dictionary_value =
    DictUndefined
  | DictEmpty
  | DictInt i64
  | DictUInt u64
  | DictString bytes
  | DictBytes bytes
  | DictDecimal i64 i32

definition dict_is_undefined :: "dictionary_value \<Rightarrow> bool" where
  "dict_is_undefined v \<longleftrightarrow> v = DictUndefined"

definition dict_is_empty :: "dictionary_value \<Rightarrow> bool" where
  "dict_is_empty v \<longleftrightarrow> v = DictEmpty"

fun as_i64 :: "dictionary_value \<Rightarrow> i64 option" where
  "as_i64 (DictInt v) = Some v"
| "as_i64 (DictUInt v) = (if uint v \<le> 2 ^ 63 - 1 then Some v else None)"
| "as_i64 _ = None"

fun as_u64 :: "dictionary_value \<Rightarrow> u64 option" where
  "as_u64 (DictUInt v) = Some v"
| "as_u64 (DictInt v) = (if 0 \<le> sint v then Some v else None)"
| "as_u64 _ = None"

fun as_str :: "dictionary_value \<Rightarrow> bytes option" where
  "as_str (DictString s) = Some s"
| "as_str _ = None"

fun as_bytes :: "dictionary_value \<Rightarrow> bytes option" where
  "as_bytes (DictBytes b) = Some b"
| "as_bytes (DictString s) = Some s"
| "as_bytes _ = None"

fun as_decimal :: "dictionary_value \<Rightarrow> (i64 \<times> i32) option" where
  "as_decimal (DictDecimal mantissa exponent) = Some (mantissa, exponent)"
| "as_decimal _ = None"

text \<open>The integer a value stands for: the conversions keep it or refuse.\<close>

fun dict_integer :: "dictionary_value \<Rightarrow> int option" where
  "dict_integer (DictInt v) = Some (sint v)"
| "dict_integer (DictUInt v) = Some (uint v)"
| "dict_integer _ = None"

lemma sint_small: "uint (w :: u64) \<le> 2 ^ 63 - 1 \<Longrightarrow> sint w = uint w"
proof -
  assume "uint w \<le> 2 ^ 63 - 1"
  then have "signed_take_bit 63 (uint w) = uint w"
    using uint_ge_0[of w] by (intro signed_take_bit_int_eq_self) (linarith, simp)
  then show ?thesis by (simp add: sint_uint)
qed

lemma uint_nonneg: "0 \<le> sint (w :: u64) \<Longrightarrow> uint w = sint w"
proof -
  assume s: "0 \<le> sint w"
  have "sint w \<le> 2 ^ 63 - 1" by (rule sint_in_range)
  then have "uint (word_of_int (sint w) :: u64) = sint w"
    using s by (intro word_of_int_inverse[OF refl]) simp_all
  then show ?thesis by simp
qed

lemma as_i64_exact:
  "map_option sint (as_i64 v) = Option.bind (dict_integer v) (\<lambda>n. if n \<le> 2 ^ 63 - 1 then Some n else None)"
  using sint_in_range by (cases v) (auto simp: sint_small)

lemma as_u64_exact:
  "map_option uint (as_u64 v) = Option.bind (dict_integer v) (\<lambda>n. if 0 \<le> n then Some n else None)"
  by (cases v) (auto simp: uint_nonneg)

type_synonym dictionary = "bytes \<Rightarrow> dictionary_value option"

definition store_value :: "dictionary \<Rightarrow> bytes \<Rightarrow> dictionary_value \<Rightarrow> dictionary" where
  "store_value dict key value =
    (case dict key of Some _ \<Rightarrow> dict(key := Some value) | None \<Rightarrow> dict(key \<mapsto> value))"

record fast_decoder =
  fd_global :: dictionary
  fd_templates :: "u32 \<Rightarrow> dictionary option"
  fd_last_template :: "u32 option"

definition fast_decoder_new :: fast_decoder where
  "fast_decoder_new = \<lparr>fd_global = Map.empty, fd_templates = Map.empty, fd_last_template = None\<rparr>"

definition fast_decoder_reset :: "fast_decoder \<Rightarrow> fast_decoder" where
  "fast_decoder_reset d = d\<lparr>fd_global := Map.empty, fd_templates := Map.empty, fd_last_template := None\<rparr>"

definition get_global :: "fast_decoder \<Rightarrow> bytes \<Rightarrow> dictionary_value option" where
  "get_global d key = fd_global d key"

definition set_global :: "bytes \<Rightarrow> dictionary_value \<Rightarrow> fast_decoder \<Rightarrow> fast_decoder" where
  "set_global key value d = d\<lparr>fd_global := store_value (fd_global d) key value\<rparr>"

definition get_template :: "fast_decoder \<Rightarrow> u32 \<Rightarrow> bytes \<Rightarrow> dictionary_value option" where
  "get_template d template_id key = Option.bind (fd_templates d template_id) (\<lambda>dict. dict key)"

definition set_template :: "u32 \<Rightarrow> bytes \<Rightarrow> dictionary_value \<Rightarrow> fast_decoder \<Rightarrow> fast_decoder" where
  "set_template template_id key value d =
    d\<lparr>fd_templates := (fd_templates d)(template_id \<mapsto>
        store_value (case fd_templates d template_id of Some dict \<Rightarrow> dict | None \<Rightarrow> Map.empty) key value)\<rparr>"

definition set_last_template_id :: "u32 \<Rightarrow> fast_decoder \<Rightarrow> fast_decoder" where
  "set_last_template_id i d = d\<lparr>fd_last_template := Some i\<rparr>"

record fast_encoder =
  fe_buffer :: bytes
  fe_global :: dictionary
  fe_templates :: "u32 \<Rightarrow> dictionary option"

definition fast_encoder_new :: fast_encoder where
  "fast_encoder_new = \<lparr>fe_buffer = [], fe_global = Map.empty, fe_templates = Map.empty\<rparr>"

definition fast_finish :: "fast_encoder \<Rightarrow> bytes" where
  "fast_finish e = fe_buffer e"

definition fast_clear :: "fast_encoder \<Rightarrow> fast_encoder" where
  "fast_clear e = e\<lparr>fe_buffer := []\<rparr>"

definition fast_encoder_reset :: "fast_encoder \<Rightarrow> fast_encoder" where
  "fast_encoder_reset e = e\<lparr>fe_buffer := [], fe_global := Map.empty, fe_templates := Map.empty\<rparr>"

definition encoder_get_global :: "fast_encoder \<Rightarrow> bytes \<Rightarrow> dictionary_value option" where
  "encoder_get_global e key = fe_global e key"

definition encoder_set_global :: "bytes \<Rightarrow> dictionary_value \<Rightarrow> fast_encoder \<Rightarrow> fast_encoder" where
  "encoder_set_global key value e = e\<lparr>fe_global := store_value (fe_global e) key value\<rparr>"

locale keyed_values =
  fixes lookup :: "'s \<Rightarrow> 'k \<Rightarrow> 'v option" and update :: "'k \<Rightarrow> 'v \<Rightarrow> 's \<Rightarrow> 's"
  assumes lookup_update: "lookup (update k v s) = (lookup s)(k \<mapsto> v)"
begin

lemma lookup_updates: "lookup (fold (\<lambda>(k, v). update k v) kvs s) = lookup s ++ map_of (rev kvs)"
  by (induction kvs arbitrary: s)
     (auto simp: lookup_update map_add_def fun_eq_iff split: option.splits)

lemma update_idem: "lookup (update k v (update k w s)) = lookup (update k v s)"
  by (simp add: lookup_update)

end

lemma store_value_eq: "store_value dict key value = dict(key \<mapsto> value)"
  by (simp add: store_value_def split: option.splits)

interpretation global_values: keyed_values get_global set_global
  by unfold_locales (simp add: get_global_def[abs_def] set_global_def store_value_eq fun_eq_iff)

interpretation template_values: keyed_values "\<lambda>d (t, key). get_template d t key" "\<lambda>(t, key) v. set_template t key v"
  by unfold_locales (auto simp: get_template_def set_template_def store_value_eq fun_eq_iff split: option.splits if_splits)

interpretation encoder_values: keyed_values encoder_get_global encoder_set_global
  by unfold_locales (simp add: encoder_get_global_def[abs_def] encoder_set_global_def store_value_eq fun_eq_iff)

lemma scopes_apart:
  "get_template (set_global k v d) t k' = get_template d t k'"
  "get_global (set_template t k v d) k' = get_global d k'"
  by (simp_all add: get_template_def set_global_def get_global_def set_template_def)

lemma reset_forgets:
  "get_global (fast_decoder_reset d) k = None" "get_template (fast_decoder_reset d) t k = None"
  by (simp_all add: get_global_def get_template_def fast_decoder_reset_def)

end
