(* ===== verification/Stream_Law.thy ===== *)
theory Stream_Law
  imports Prelude
begin

text \<open>
  The contract of a framing decoder that works on a growing buffer: it takes a complete frame
  off the front of whatever follows, and asks for more while only a part of a frame is there.
  From it follows that a stream of frames is delivered exactly, however the transport cuts it.

  \<open>drain\<close> is a driver that decodes until the decoder wants more; \<open>pump\<close> appends the chunks
  as they arrive and drains after each.
\<close>

type_synonym ('s, 'e, 'f) framer = "'s \<Rightarrow> bytes \<Rightarrow> ('e + 'f option) \<times> 's \<times> bytes"

primrec drain :: "nat \<Rightarrow> ('s, 'e, 'f) framer \<Rightarrow> 's \<Rightarrow> bytes \<Rightarrow> 'f list \<times> 'e option \<times> 's \<times> bytes" where
  "drain 0 step s buf = ([], None, s, buf)"
| "drain (Suc n) step s buf =
    (case step s buf of
       (Inl e, s', buf') \<Rightarrow> ([], Some e, s', buf')
     | (Inr None, s', buf') \<Rightarrow> ([], None, s', buf')
     | (Inr (Some f), s', buf') \<Rightarrow>
         (let (fs, r) = drain n step s' buf' in (f # fs, r)))"

primrec pump :: "('s, 'e, 'f) framer \<Rightarrow> 's \<Rightarrow> bytes \<Rightarrow> bytes list \<Rightarrow> 'f list \<times> 'e option \<times> 's \<times> bytes" where
  "pump step s buf [] = ([], None, s, buf)"
| "pump step s buf (chunk # chunks) =
    (case drain (Suc (length (buf @ chunk))) step s (buf @ chunk) of
       (fs, Some e, s', buf') \<Rightarrow> (fs, Some e, s', buf')
     | (fs, None, s', buf') \<Rightarrow> (let (gs, r) = pump step s' buf' chunks in (fs @ gs, r)))"

locale frame_stream =
  fixes step :: "('s, 'e, 'f) framer"
    and frame_bytes :: "'f \<Rightarrow> bytes"
    and ready :: "'s \<Rightarrow> bool"
    and fits :: "'s \<Rightarrow> 'f \<Rightarrow> bool"
  assumes nonempty: "fits s f \<Longrightarrow> frame_bytes f \<noteq> []"
    and complete: "ready s \<Longrightarrow> fits s f \<Longrightarrow> step s (frame_bytes f @ rest) = (Inr (Some f), s, rest)"
    and partial: "ready s \<Longrightarrow> fits s f \<Longrightarrow> part @ missing = frame_bytes f \<Longrightarrow> missing \<noteq> [] \<Longrightarrow>
       step s part = (Inr None, s, part)"
    and idle: "ready s \<Longrightarrow> step s [] = (Inr None, s, [])"
begin

text \<open>A prefix of a stream of frames is some whole frames and a part of the next.\<close>

lemma stream_prefix:
  "a @ b = concat (map frame_bytes fs) \<Longrightarrow> list_all (fits s) fs \<Longrightarrow>
     \<exists>gs hs part rest. fs = gs @ hs \<and> a = concat (map frame_bytes gs) @ part \<and> part @ b = concat (map frame_bytes hs)
        \<and> (if hs = [] then part = [] else part @ rest = frame_bytes (hd hs) \<and> rest \<noteq> [])"
proof (induction fs arbitrary: a)
  case Nil
  then show ?case by auto
next
  case (Cons f fs)
  have "a @ b = frame_bytes f @ concat (map frame_bytes fs)" using Cons.prems(1) by simp
  then obtain us where "(a = frame_bytes f @ us \<and> us @ b = concat (map frame_bytes fs))
      \<or> (a @ us = frame_bytes f \<and> us \<noteq> [])"
    unfolding append_eq_append_conv2 by (metis append_Nil append_Nil2)
  then show ?case
  proof
    assume a: "a = frame_bytes f @ us \<and> us @ b = concat (map frame_bytes fs)"
    with Cons.IH[of us] Cons.prems(2) obtain gs hs part rest where "fs = gs @ hs" "us = concat (map frame_bytes gs) @ part"
      "part @ b = concat (map frame_bytes hs)"
      "if hs = [] then part = [] else part @ rest = frame_bytes (hd hs) \<and> rest \<noteq> []" by auto
    with a show ?thesis
      by (intro exI[of _ "f # gs"] exI[of _ hs] exI[of _ part] exI[of _ rest]) simp
  next
    assume "a @ us = frame_bytes f \<and> us \<noteq> []"
    with Cons.prems(1) show ?thesis
      by (intro exI[of _ "[]"] exI[of _ "f # fs"] exI[of _ a] exI[of _ us]) simp
  qed
qed

lemma drain_frames:
  assumes "ready s"
  shows "list_all (fits s) gs \<Longrightarrow> length gs < n \<Longrightarrow> step s part = (Inr None, s, part) \<Longrightarrow>
    drain n step s (concat (map frame_bytes gs) @ part) = (gs, None, s, part)"
proof (induction n arbitrary: gs)
  case (Suc n)
  then show ?case using complete[OF assms] by (cases gs) simp_all
qed simp

lemma length_frames: "list_all (fits s) fs \<Longrightarrow> length fs \<le> length (concat (map frame_bytes fs))"
proof (induction fs)
  case (Cons f fs)
  then have "frame_bytes f \<noteq> []" using nonempty[of s f] by simp
  then have "0 < length (frame_bytes f)" by simp
  moreover have "length fs \<le> length (concat (map frame_bytes fs))" using Cons by simp
  ultimately have "Suc (length fs) \<le> length (frame_bytes f) + length (concat (map frame_bytes fs))"
    by linarith
  then show ?case by simp
qed simp

theorem pump_frames:
  assumes "ready s"
  shows "list_all (fits s) fs \<Longrightarrow> buf @ concat chunks = concat (map frame_bytes fs) \<Longrightarrow>
     step s buf = (Inr None, s, buf) \<Longrightarrow> pump step s buf chunks = (fs, None, s, []) \<or> chunks = []"
proof (induction chunks arbitrary: buf fs)
  case (Cons chunk chunks)
  have "(buf @ chunk) @ concat chunks = concat (map frame_bytes fs)" using Cons.prems(2) by simp
  from stream_prefix[OF this Cons.prems(1)] obtain gs hs part rest where
    p: "fs = gs @ hs" "buf @ chunk = concat (map frame_bytes gs) @ part" "part @ concat chunks = concat (map frame_bytes hs)"
      "if hs = [] then part = [] else part @ rest = frame_bytes (hd hs) \<and> rest \<noteq> []" by blast
  have ok: "list_all (fits s) gs" "list_all (fits s) hs" using Cons.prems(1) p(1) by simp_all
  have wait: "step s part = (Inr None, s, part)"
    using p(4) ok(2) partial[OF assms, of "hd hs" part rest] idle[OF assms] by (cases hs) auto
  have "length gs < Suc (length (buf @ chunk))" using length_frames[OF ok(1)] p(2) by simp
  then have d: "drain (Suc (length (buf @ chunk))) step s (buf @ chunk) = (gs, None, s, part)"
    unfolding p(2) by (intro drain_frames[OF assms ok(1) _ wait])
  show ?case
  proof (cases "chunks = []")
    case True
    have "hs = []"
    proof (rule ccontr)
      assume "hs \<noteq> []"
      then obtain h hs' where h: "hs = h # hs'" by (cases hs) auto
      then have "part = frame_bytes h @ concat (map frame_bytes hs')" "part @ rest = frame_bytes h" "rest \<noteq> []"
        using p(3,4) True by auto
      then show False by (metis append_assoc append_self_conv append_is_Nil_conv)
    qed
    with d True p show ?thesis by simp
  next
    case False
    with Cons.IH[OF ok(2) p(3) wait] d p(1) show ?thesis by simp
  qed
qed simp

lemma stream_delivered:
  assumes "ready s" "list_all (fits s) fs" "concat chunks = concat (map frame_bytes fs)"
  shows "pump step s [] chunks = (fs, None, s, [])"
proof (cases "chunks = []")
  case True
  have "length fs \<le> 0" using length_frames[OF assms(2)] unfolding assms(3)[symmetric] True by simp
  then have "fs = []" by simp
  with True show ?thesis by simp
next
  case False
  with pump_frames[OF assms(1,2), of "[]" chunks] assms(3) idle[OF assms(1)] show ?thesis by simp
qed

end

end
