(* ===== verification/Sofh.thy ===== *)
theory Sofh
  imports Byte_Bits Stream_Law
begin

text \<open>
  The Simple Open Framing Header (\<^verbatim>\<open>ironfix-sofh\<close>): the encoding types
  (\<^verbatim>\<open>encoding.rs\<close>), the six-byte header (\<^verbatim>\<open>header.rs\<close>) and the codec over a growing
  buffer (\<^verbatim>\<open>codec.rs\<close>).  Reserving capacity in the buffer has no effect on a list.
\<close>

datatype sofh_error =
    MessageLengthTooSmall u32 u32
  | SofhMessageTooLarge u32 u32
  | PayloadTooLong usize
  | SofhTruncated usize usize
  | SofhIo bytes

subsection \<open>Encoding types\<close>

datatype encoding_type =
    EncPrivate u8
  | SbeV1BigEndian | SbeV1LittleEndian | GpbV1 | Asn1PerV1 | Asn1BerV1 | Asn1OerV1
  | EncTagValue | FixmlSchemaV1
  | EncFast u8
  | EncJson | EncBson
  | Unregistered u16

definition PRIVATE_HIGH_BYTE :: u8 where "PRIVATE_HIGH_BYTE = 0x00"
definition FAST_HIGH_BYTE :: u8 where "FAST_HIGH_BYTE = 0xFA"

definition named_encodings :: "(u16 \<times> encoding_type) list" where
  "named_encodings =
    [(0x5BE0, SbeV1BigEndian), (0xEB50, SbeV1LittleEndian), (0x4700, GpbV1), (0xA500, Asn1PerV1),
     (0xA501, Asn1BerV1), (0xA502, Asn1OerV1), (0xF000, EncTagValue), (0xF100, FixmlSchemaV1),
     (0xF500, EncJson), (0xFB00, EncBson)]"

definition encoding_from_u16 :: "u16 \<Rightarrow> encoding_type" where
  "encoding_from_u16 value =
    (case map_of named_encodings value of
       Some e \<Rightarrow> e
     | None \<Rightarrow>
         (let high = u16_to_be value ! 0; low = u16_to_be value ! 1 in
          if high = PRIVATE_HIGH_BYTE \<and> low \<noteq> 0 then EncPrivate low
          else if high = FAST_HIGH_BYTE \<and> low \<noteq> 0 then EncFast low
          else Unregistered value))"

fun encoding_to_u16 :: "encoding_type \<Rightarrow> u16" where
  "encoding_to_u16 (EncPrivate low) = u16_from_be [PRIVATE_HIGH_BYTE, low]"
| "encoding_to_u16 SbeV1BigEndian = 0x5BE0"
| "encoding_to_u16 SbeV1LittleEndian = 0xEB50"
| "encoding_to_u16 GpbV1 = 0x4700"
| "encoding_to_u16 Asn1PerV1 = 0xA500"
| "encoding_to_u16 Asn1BerV1 = 0xA501"
| "encoding_to_u16 Asn1OerV1 = 0xA502"
| "encoding_to_u16 EncTagValue = 0xF000"
| "encoding_to_u16 FixmlSchemaV1 = 0xF100"
| "encoding_to_u16 (EncFast low) = u16_from_be [FAST_HIGH_BYTE, low]"
| "encoding_to_u16 EncJson = 0xF500"
| "encoding_to_u16 EncBson = 0xFB00"
| "encoding_to_u16 (Unregistered raw) = raw"

text \<open>
  What the types of the code admit: a \<^verbatim>\<open>NonZeroU8\<close> is not zero, and an unregistered value
  is only made by \<^verbatim>\<open>from_u16\<close>.
\<close>

fun encoding_ok :: "encoding_type \<Rightarrow> bool" where
  "encoding_ok (EncPrivate low) = (low \<noteq> 0)"
| "encoding_ok (EncFast low) = (low \<noteq> 0)"
| "encoding_ok (Unregistered raw) = (encoding_from_u16 raw = Unregistered raw)"
| "encoding_ok _ = True"

subsection \<open>The header\<close>

record sofh_header =
  sh_message_length :: u32
  sh_encoding_type :: encoding_type

definition HEADER_LEN :: usize where "HEADER_LEN = 6"
definition MIN_MESSAGE_LENGTH :: u32 where "MIN_MESSAGE_LENGTH = 7"

definition length_too_small :: "u32 \<Rightarrow> sofh_error" where
  "length_too_small len = MessageLengthTooSmall len MIN_MESSAGE_LENGTH"

definition sofh_header_new :: "encoding_type \<Rightarrow> u32 \<Rightarrow> sofh_error + sofh_header" where
  "sofh_header_new encoding message_length =
    (if message_length < MIN_MESSAGE_LENGTH then Inl (MessageLengthTooSmall message_length MIN_MESSAGE_LENGTH)
     else Inr \<lparr>sh_message_length = message_length, sh_encoding_type = encoding\<rparr>)"

definition header_for_payload :: "encoding_type \<Rightarrow> usize \<Rightarrow> sofh_error + sofh_header" where
  "header_for_payload encoding payload_len =
    bindR (ok_or (PayloadTooLong payload_len)
            (Option.bind (if payload_len < 2 ^ 32 then Some (word_of_nat payload_len) else None)
               (\<lambda>len. checked_add len 6)))
      (sofh_header_new encoding)"

definition payload_len :: "sofh_header \<Rightarrow> u32" where
  "payload_len h = (case checked_sub (sh_message_length h) 6 of Some len \<Rightarrow> len | None \<Rightarrow> 0)"

definition header_to_bytes :: "sofh_header \<Rightarrow> bytes" where
  "header_to_bytes h = u32_to_be (sh_message_length h) @ u16_to_be (encoding_to_u16 (sh_encoding_type h))"

definition header_from_bytes :: "bytes \<Rightarrow> sofh_error + sofh_header" where
  "header_from_bytes bs =
    sofh_header_new (encoding_from_u16 (u16_from_be (drop 4 bs))) (u32_from_be (take 4 bs))"

definition header_decode :: "bytes \<Rightarrow> sofh_error + sofh_header option" where
  "header_decode src =
    (case get_to src HEADER_LEN of
       Some bs \<Rightarrow> bindR (header_from_bytes bs) (\<lambda>h. Inr (Some h))
     | None \<Rightarrow> Inr None)"

subsection \<open>The codec\<close>

record sofh_frame =
  sf_header :: sofh_header
  sf_payload :: bytes

definition sofh_frame_new :: "encoding_type \<Rightarrow> bytes \<Rightarrow> sofh_error + sofh_frame" where
  "sofh_frame_new encoding payload =
    bindR (header_for_payload encoding (length payload)) (\<lambda>h. Inr \<lparr>sf_header = h, sf_payload = payload\<rparr>)"

record sofh_codec = so_max_message_size :: u32

definition DEFAULT_MAX_MESSAGE_SIZE :: u32 where "DEFAULT_MAX_MESSAGE_SIZE = 1024 * 1024"

definition sofh_codec_new :: sofh_codec where
  "sofh_codec_new = \<lparr>so_max_message_size = DEFAULT_MAX_MESSAGE_SIZE\<rparr>"

definition sofh_with_max_message_size :: "u32 \<Rightarrow> sofh_codec \<Rightarrow> sofh_codec" where
  "sofh_with_max_message_size limit c = c\<lparr>so_max_message_size := limit\<rparr>"

definition sofh_frame_len :: "sofh_codec \<Rightarrow> u32 \<Rightarrow> sofh_error + usize" where
  "sofh_frame_len c message_length =
    (if message_length \<le> so_max_message_size c then Inr (unat message_length)
     else Inl (SofhMessageTooLarge message_length (so_max_message_size c)))"

definition sofh_decode_inner :: "sofh_codec \<Rightarrow> (bytes, sofh_error, sofh_frame option) fallible" where
  "sofh_decode_inner c src =
    (case get_to src HEADER_LEN of
       None \<Rightarrow> (Inr None, src)
     | Some head \<Rightarrow>
         let message_length = u32_from_be (take 4 head) in
         if message_length < MIN_MESSAGE_LENGTH then (Inl (length_too_small message_length), src)
         else (case sofh_frame_len c message_length of
                 Inl e \<Rightarrow> (Inl e, src)
               | Inr frame_len \<Rightarrow>
                   if length src < frame_len then (Inr None, src)
                   else (case sofh_header_new (encoding_from_u16 (u16_from_be (drop 4 head))) message_length of
                           Inl e \<Rightarrow> (Inl e, src)
                         | Inr header \<Rightarrow>
                             (Inr (Some \<lparr>sf_header = header, sf_payload = drop HEADER_LEN (take frame_len src)\<rparr>),
                              drop frame_len src))))"

definition sofh_decode :: "sofh_codec \<Rightarrow> (bytes, sofh_error, sofh_frame option) fallible" where
  "sofh_decode c src = sofh_decode_inner c src"

definition sofh_decode_eof :: "sofh_codec \<Rightarrow> (bytes, sofh_error, sofh_frame option) fallible" where
  "sofh_decode_eof c src =
    (case sofh_decode_inner c src of
       (Inl e, src') \<Rightarrow> (Inl e, src')
     | (Inr (Some frame), src') \<Rightarrow> (Inr (Some frame), src')
     | (Inr None, src') \<Rightarrow>
         if src' = [] then (Inr None, src')
         else (bindR (bindR (header_decode src') (\<lambda>h. case h of
                   Some header \<Rightarrow> sofh_frame_len c (sh_message_length header)
                 | None \<Rightarrow> Inr HEADER_LEN))
                 (\<lambda>expected. Inl (SofhTruncated (length src') expected)), src'))"

definition put_frame :: "sofh_codec \<Rightarrow> sofh_header \<Rightarrow> bytes \<Rightarrow> (bytes, sofh_error, unit) fallible" where
  "put_frame c header payload dst =
    (case sofh_frame_len c (sh_message_length header) of
       Inl e \<Rightarrow> (Inl e, dst)
     | Inr _ \<Rightarrow>
         (case usize_add (length payload) HEADER_LEN of
            None \<Rightarrow> (Inl (PayloadTooLong (length payload)), dst)
          | Some _ \<Rightarrow> (Inr (), dst @ header_to_bytes header @ payload)))"

definition encode_frame :: "sofh_codec \<Rightarrow> sofh_frame \<Rightarrow> (bytes, sofh_error, unit) fallible" where
  "encode_frame c item = put_frame c (sf_header item) (sf_payload item)"

definition encode_payload :: "sofh_codec \<Rightarrow> encoding_type \<times> bytes \<Rightarrow> (bytes, sofh_error, unit) fallible" where
  "encode_payload c item dst =
    (case header_for_payload (fst item) (length (snd item)) of
       Inl e \<Rightarrow> (Inl e, dst)
     | Inr header \<Rightarrow> put_frame c header (snd item) dst)"

subsection \<open>Encoding types and numbers\<close>

lemma u16_bytes: "u16_to_be v = [word_of_nat (unat v div 256), word_of_nat (unat v)]"
  by (simp add: u16_to_be_def numeral_2_eq_2)

lemma u32_bytes: "u32_to_be v = [word_of_nat (unat v div 256 div 256 div 256), word_of_nat (unat v div 256 div 256),
   word_of_nat (unat v div 256), word_of_nat (unat v)]"
proof -
  have "(4 :: nat) = Suc (Suc (Suc (Suc 0)))" by simp
  then have "u32_to_be v = be_bytes (Suc (Suc (Suc (Suc 0)))) (unat v)" by (simp only: u32_to_be_def)
  then show ?thesis by simp
qed

lemma u16_join: "u16_from_be [u16_to_be v ! 0, u16_to_be v ! 1] = v"
proof -
  have "[u16_to_be v ! 0, u16_to_be v ! 1] = u16_to_be v" by (simp add: u16_bytes)
  then show ?thesis by simp
qed

lemma encoding_to_from: "encoding_to_u16 (encoding_from_u16 v) = v"
  using u16_join[of v]
  by (auto simp: encoding_from_u16_def named_encodings_def Let_def split: option.splits if_splits)

lemma encoding_from_to: "encoding_ok e \<Longrightarrow> encoding_from_u16 (encoding_to_u16 e) = e"
proof (cases e)
  case (EncPrivate low)
  moreover assume "encoding_ok e"
  ultimately have low: "low \<noteq> 0" by simp
  define v where "v = u16_from_be [0, low]"
  have v: "unat v = unat low"
    using u8_less_256[of low] by (simp add: v_def u16_from_be_def be_value_def unat_ucast_up)
  then have "map_of named_encodings v = None"
    using u8_less_256[of low] by (auto simp: named_encodings_def)
  then show ?thesis using low v EncPrivate u8_less_256[of low]
    by (simp add: encoding_from_u16_def u16_bytes PRIVATE_HIGH_BYTE_def flip: v_def)
next
  case (EncFast low)
  moreover assume "encoding_ok e"
  ultimately have low: "low \<noteq> 0" by simp
  define v where "v = u16_from_be [0xFA, low]"
  have v: "unat v = 0xFA00 + unat low"
    using u8_less_256[of low] by (simp add: v_def u16_from_be_def be_value_def unat_word_ariths unat_ucast_up)
  moreover have "0 < unat low" using low by (simp add: unat_gt_0)
  ultimately have "map_of named_encodings v = None"
    using u8_less_256[of low] by (auto simp: named_encodings_def)
  moreover have "unat v div 256 = 0xFA" "(word_of_nat (unat v) :: u8) = low"
    using v u8_less_256[of low] by simp_all
  ultimately show ?thesis using low EncFast
    by (simp add: encoding_from_u16_def u16_bytes PRIVATE_HIGH_BYTE_def FAST_HIGH_BYTE_def flip: v_def)
qed (simp_all add: encoding_from_u16_def named_encodings_def)


subsection \<open>Headers and frames\<close>

definition header_ok :: "sofh_header \<Rightarrow> bool" where
  "header_ok h \<longleftrightarrow> MIN_MESSAGE_LENGTH \<le> sh_message_length h \<and> encoding_ok (sh_encoding_type h)"

lemma length_header_to_bytes: "length (header_to_bytes h) = 6"
  by (simp add: header_to_bytes_def)

lemma header_parts:
  "take 4 (header_to_bytes h) = u32_to_be (sh_message_length h)"
  "drop 4 (header_to_bytes h) = u16_to_be (encoding_to_u16 (sh_encoding_type h))"
  by (simp_all add: header_to_bytes_def)

lemma header_roundtrip: "header_ok h \<Longrightarrow> header_from_bytes (header_to_bytes h) = Inr h"
  by (simp add: header_from_bytes_def header_parts encoding_from_to header_ok_def sofh_header_new_def not_less)

definition sofh_wire :: "sofh_frame \<Rightarrow> bytes" where
  "sofh_wire f = header_to_bytes (sf_header f) @ sf_payload f"

definition sofh_fits :: "sofh_codec \<Rightarrow> sofh_frame \<Rightarrow> bool" where
  "sofh_fits c f \<longleftrightarrow> header_ok (sf_header f)
     \<and> unat (sh_message_length (sf_header f)) = length (sf_payload f) + 6
     \<and> sh_message_length (sf_header f) \<le> so_max_message_size c"

lemma head_of_wire:
  assumes "sofh_fits c f"
  shows "get_to (sofh_wire f @ rest) HEADER_LEN = Some (header_to_bytes (sf_header f))"
    "length (sofh_wire f) = unat (sh_message_length (sf_header f))"
  using assms by (simp_all add: sofh_fits_def sofh_wire_def get_to_def HEADER_LEN_def length_header_to_bytes)

lemma sofh_decode_complete:
  assumes "sofh_fits c f"
  shows "sofh_decode_inner c (sofh_wire f @ rest) = (Inr (Some f), rest)"
proof -
  let ?h = "sf_header f"
  have h: "MIN_MESSAGE_LENGTH \<le> sh_message_length ?h" "encoding_ok (sh_encoding_type ?h)"
    "sh_message_length ?h \<le> so_max_message_size c"
    using assms by (simp_all add: sofh_fits_def header_ok_def)
  have "take (unat (sh_message_length ?h)) (sofh_wire f @ rest) = sofh_wire f"
    "drop (unat (sh_message_length ?h)) (sofh_wire f @ rest) = rest"
    by (simp_all flip: head_of_wire(2)[OF assms])
  moreover have "drop HEADER_LEN (sofh_wire f) = sf_payload f"
    by (simp add: sofh_wire_def HEADER_LEN_def length_header_to_bytes)
  moreover have "\<not> length (sofh_wire f @ rest) < unat (sh_message_length ?h)"
    by (simp add: head_of_wire(2)[OF assms])
  ultimately show ?thesis using h
    by (simp add: sofh_decode_inner_def head_of_wire(1)[OF assms] header_parts Let_def sofh_frame_len_def
        sofh_header_new_def encoding_from_to not_less del: length_append)
qed

lemma sofh_decode_part:
  assumes "sofh_fits c f" "part @ missing = sofh_wire f" "missing \<noteq> []"
  shows "sofh_decode_inner c part = (Inr None, part)"
proof (cases "length part < 6")
  case True
  then show ?thesis by (simp add: sofh_decode_inner_def get_to_def HEADER_LEN_def)
next
  case False
  then have "get_to part HEADER_LEN = get_to (sofh_wire f @ []) HEADER_LEN"
    unfolding assms(2)[symmetric] by (simp add: get_to_def HEADER_LEN_def)
  then have "get_to part HEADER_LEN = Some (header_to_bytes (sf_header f))" by (simp only: head_of_wire(1)[OF assms(1)])
  moreover have "length part < length (sofh_wire f)" unfolding assms(2)[symmetric] using assms(3) by simp
  ultimately show ?thesis using assms(1) head_of_wire(2)[OF assms(1)]
    by (simp add: sofh_decode_inner_def header_parts Let_def sofh_frame_len_def sofh_fits_def header_ok_def not_less)
qed

definition sofh_step :: "(sofh_codec, sofh_error, sofh_frame) framer" where
  "sofh_step c src = (let (r, src') = sofh_decode c src in (r, c, src'))"

interpretation sofh_stream: frame_stream sofh_step sofh_wire "\<lambda>_. True" sofh_fits
proof unfold_locales
  fix c :: sofh_codec and f rest part missing
  show "sofh_fits c f \<Longrightarrow> sofh_wire f \<noteq> []"
    by (auto simp: sofh_wire_def header_to_bytes_def u16_bytes)
  show "sofh_fits c f \<Longrightarrow> sofh_step c (sofh_wire f @ rest) = (Inr (Some f), c, rest)"
    by (simp add: sofh_step_def sofh_decode_def sofh_decode_complete)
  show "sofh_fits c f \<Longrightarrow> part @ missing = sofh_wire f \<Longrightarrow> missing \<noteq> [] \<Longrightarrow> sofh_step c part = (Inr None, c, part)"
    by (simp add: sofh_step_def sofh_decode_def sofh_decode_part)
  show "sofh_step c [] = (Inr None, c, [])"
    by (simp add: sofh_step_def sofh_decode_def sofh_decode_inner_def get_to_def HEADER_LEN_def)
qed

lemma header_for_payload_Inr:
  assumes "header_for_payload e n = Inr h"
  shows "h = \<lparr>sh_message_length = word_of_nat (n + 6), sh_encoding_type = e\<rparr> \<and> 0 < n \<and> n + 6 < 2 ^ 32"
proof -
  from assms have n: "n < 2 ^ 32" and ck: "checked_add (word_of_nat n) 6 = Some (word_of_nat n + (6 :: u32))"
    and h: "sofh_header_new e (word_of_nat n + 6) = Inr h"
    by (auto simp: header_for_payload_def result_simps checked_simps split: if_splits)
  from n have u: "unat (word_of_nat n :: u32) = n" by (intro unat_of_nat_small) simp
  with ck have small: "n + 6 < 2 ^ 32" by (simp add: checked_simps)
  define w where "w = (word_of_nat (n + 6) :: u32)"
  have w: "unat w = n + 6" unfolding w_def using small by (intro unat_of_nat_small) simp
  have "word_of_nat n + (6 :: u32) = w" by (simp add: w_def)
  then have "h = \<lparr>sh_message_length = w, sh_encoding_type = e\<rparr>" "\<not> w < 7"
    using h by (simp_all add: sofh_header_new_def MIN_MESSAGE_LENGTH_def split: if_splits)
  then have "h = \<lparr>sh_message_length = word_of_nat (n + 6), sh_encoding_type = e\<rparr>" "\<not> unat w < 7"
    unfolding w_def by (simp_all only: word_less_nat_alt) simp_all
  then show ?thesis using small w by simp
qed

text \<open>What the encoder writes is a frame that fits, laid out as \<open>sofh_wire\<close> says.\<close>

lemma encode_payload_wire:
  assumes "encode_payload c (e, p) dst = (Inr (), dst')" and "encoding_ok e"
  shows "\<exists>f. sofh_frame_new e p = Inr f \<and> dst' = dst @ sofh_wire f \<and> sofh_fits c f
     \<and> sf_payload f = p \<and> sh_encoding_type (sf_header f) = e"
proof -
  from assms(1) obtain h where h: "header_for_payload e (length p) = Inr h"
    and put: "put_frame c h p dst = (Inr (), dst')"
    by (auto simp: encode_payload_def split: sum.splits)
  note hp = header_for_payload_Inr[OF h]
  then have u: "unat (sh_message_length h) = length p + 6"
    using unat_of_nat_small[of "length p + 6", where 'w = 32] by simp
  have "MIN_MESSAGE_LENGTH \<le> sh_message_length h"
    using u hp by (cases p) (simp_all add: MIN_MESSAGE_LENGTH_def word_le_nat_alt)
  moreover have "sh_message_length h \<le> so_max_message_size c" "dst' = dst @ header_to_bytes h @ p"
    using put by (auto simp: put_frame_def sofh_frame_len_def split: if_splits option.splits)
  ultimately show ?thesis
    using h hp u assms(2)
    by (intro exI[of _ "\<lparr>sf_header = h, sf_payload = p\<rparr>"])
       (simp add: sofh_frame_new_def sofh_wire_def sofh_fits_def header_ok_def)
qed

primrec encode_payloads :: "sofh_codec \<Rightarrow> (encoding_type \<times> bytes) list \<Rightarrow> (bytes, sofh_error, unit) fallible" where
  "encode_payloads c [] = liftS (Inr ())"
| "encode_payloads c (i # items) = thenS (encode_payload c i) (\<lambda>_. encode_payloads c items)"

lemma encode_payloads_wire:
  "encode_payloads c items dst = (Inr (), dst') \<Longrightarrow> list_all (encoding_ok \<circ> fst) items \<Longrightarrow>
     \<exists>fs. dst' = dst @ concat (map sofh_wire fs) \<and> list_all (sofh_fits c) fs
        \<and> map (\<lambda>f. (sh_encoding_type (sf_header f), sf_payload f)) fs = items"
proof (induction items arbitrary: dst)
  case Nil
  then show ?case by (simp add: liftS_def)
next
  case (Cons i items)
  obtain e p where i: "i = (e, p)" by (cases i)
  from Cons.prems(1) obtain mid where m: "encode_payload c (e, p) dst = (Inr (), mid)"
    "encode_payloads c items mid = (Inr (), dst')"
    by (auto simp: result_simps i)
  obtain f where f: "mid = dst @ sofh_wire f" "sofh_fits c f" "sf_payload f = p" "sh_encoding_type (sf_header f) = e"
    using encode_payload_wire[OF m(1)] Cons.prems(2) i by auto
  from Cons.IH[OF m(2)] Cons.prems(2) obtain fs where "dst' = mid @ concat (map sofh_wire fs)"
    "list_all (sofh_fits c) fs" "map (\<lambda>f. (sh_encoding_type (sf_header f), sf_payload f)) fs = items" by auto
  with f i show ?case by (intro exI[of _ "f # fs"]) simp
qed

lemma stream_of_payloads:
  assumes "encode_payloads c items [] = (Inr (), stream)" "list_all (encoding_ok \<circ> fst) items"
    "concat chunks = stream"
  shows "\<exists>fs. pump sofh_step c [] chunks = (fs, None, c, [])
     \<and> map (\<lambda>f. (sh_encoding_type (sf_header f), sf_payload f)) fs = items"
  using encode_payloads_wire[OF assms(1,2)] assms(3) sofh_stream.stream_delivered by auto

end
