(* ===== verification/Transport_Codec.thy ===== *)
theory Transport_Codec
  imports Wire_Syntax
begin

text \<open>
  The stream codec of \<^verbatim>\<open>ironfix-transport/src/codec.rs\<close>: cutting tag=value frames off a
  growing buffer, with the two ways of resynchronising after bytes that are no frame.

  A method on \<^verbatim>\<open>&mut self\<close> and \<^verbatim>\<open>&mut BytesMut\<close> returns its result, the codec and the
  buffer it leaves.  Reserving capacity and the log lines have no counterpart.
\<close>

datatype codec_error =
    CodecIncomplete
  | InvalidBeginString
  | MissingBodyLength
  | InvalidBodyLength
  | HeaderTooLong usize
  | InvalidTrailer usize
  | InvalidChecksumFormat
  | CodecChecksumMismatch u8 u8
  | CodecMessageTooLarge usize usize
  | CodecIo bytes

fun is_recoverable :: "codec_error \<Rightarrow> bool" where
  "is_recoverable InvalidBeginString = True"
| "is_recoverable MissingBodyLength = True"
| "is_recoverable InvalidBodyLength = True"
| "is_recoverable (HeaderTooLong _) = True"
| "is_recoverable (InvalidTrailer _) = True"
| "is_recoverable InvalidChecksumFormat = True"
| "is_recoverable (CodecChecksumMismatch _ _) = True"
| "is_recoverable CodecIncomplete = False"
| "is_recoverable (CodecMessageTooLarge _ _) = False"
| "is_recoverable (CodecIo _) = False"

definition BEGIN_STRING_PREFIX :: bytes where "BEGIN_STRING_PREFIX = bytes_of ''8=''"
definition BODY_LENGTH_PREFIX :: bytes where "BODY_LENGTH_PREFIX = bytes_of ''9=''"
definition CHECKSUM_PREFIX :: bytes where "CHECKSUM_PREFIX = bytes_of ''10=''"
definition TRAILER_LEN :: usize where "TRAILER_LEN = 7"
definition CHECKSUM_DIGITS :: usize where "CHECKSUM_DIGITS = 3"
definition MIN_FRAME_LEN :: usize where "MIN_FRAME_LEN = 20"
definition MAX_HEADER_LEN :: usize where "MAX_HEADER_LEN = 64"
definition CODEC_BODY_LENGTH_DIGITS :: usize where "CODEC_BODY_LENGTH_DIGITS = 10"

definition RECOVERY_ANCHORS :: "bytes list" where
  "RECOVERY_ANCHORS =
    map (\<lambda>v. bytes_of ''8='' @ bytes_of v @ [SOH] @ bytes_of ''9='')
      [''FIX.4.0'', ''FIX.4.1'', ''FIX.4.2'', ''FIX.4.3'', ''FIX.4.4'', ''FIXT.1.1'']"

fun parse_body_length_loop :: "bytes \<Rightarrow> usize \<Rightarrow> usize option" where
  "parse_body_length_loop [] result = Some result"
| "parse_body_length_loop (b # bs) result =
    (if \<not> is_ascii_digit b then None
     else (case Option.bind (usize_mul result 10) (\<lambda>m. usize_add m (unat (b - 48))) of
             None \<Rightarrow> None
           | Some result' \<Rightarrow> parse_body_length_loop bs result'))"

definition parse_body_length :: "bytes \<Rightarrow> usize option" where
  "parse_body_length bs =
    (if bs = [] \<or> CODEC_BODY_LENGTH_DIGITS < length bs then None else parse_body_length_loop bs 0)"

subsection \<open>Finding the next frame\<close>

function resync_loop :: "(u8 \<Rightarrow> bytes \<Rightarrow> usize option) \<Rightarrow> bytes \<Rightarrow> usize \<Rightarrow> usize" where
  "resync_loop mc src from_pos =
    (case mc SOH (case get_from src from_pos of Some rest \<Rightarrow> rest | None \<Rightarrow> []) of
       None \<Rightarrow> length src
     | Some relative \<Rightarrow>
         (case usize_add from_pos relative of
            None \<Rightarrow> length src
          | Some soh \<Rightarrow>
              (case usize_add soh 1 of
                 None \<Rightarrow> length src
               | Some candidate \<Rightarrow>
                   (case get_at src candidate of
                      None \<Rightarrow> soh
                    | Some b \<Rightarrow> if b = 56 then candidate else resync_loop mc src candidate))))"
  by pat_completeness auto
termination
  by (relation "measure (\<lambda>(_, src, from_pos). length src - from_pos)")
     (auto simp: checked_simps get_at_def split: if_splits)

declare resync_loop.simps [simp del]

definition resync_offset :: "(u8 \<Rightarrow> bytes \<Rightarrow> usize option) \<Rightarrow> bytes \<Rightarrow> usize" where
  "resync_offset mc src = resync_loop mc src 0"

datatype anchor_shape = AnchorComplete | AnchorPartial | AnchorRejected

definition starts_with :: "bytes \<Rightarrow> bytes \<Rightarrow> bool" where
  "starts_with bs prefix \<longleftrightarrow> take (length prefix) bs = prefix"

fun anchor_shape_loop :: "bytes \<Rightarrow> bytes list \<Rightarrow> anchor_shape \<Rightarrow> anchor_shape" where
  "anchor_shape_loop rest [] shape = shape"
| "anchor_shape_loop rest (anchor # anchors) shape =
    (if starts_with rest anchor then AnchorComplete
     else anchor_shape_loop rest anchors
            (if length rest < length anchor \<and> starts_with anchor rest then AnchorPartial else shape))"

definition anchor_shape_at :: "bytes \<Rightarrow> bytes list \<Rightarrow> anchor_shape" where
  "anchor_shape_at rest anchors = anchor_shape_loop rest anchors AnchorRejected"

definition boundary_before :: "u8 option \<Rightarrow> bool" where
  "boundary_before prev =
    (case prev of None \<Rightarrow> True | Some byte \<Rightarrow> \<not> is_ascii_digit byte \<and> byte \<noteq> 61)"

function recovery_loop :: "(u8 \<Rightarrow> bytes \<Rightarrow> usize option) \<Rightarrow> bytes \<Rightarrow> bytes list \<Rightarrow> usize \<Rightarrow> usize" where
  "recovery_loop mc src anchors from_pos =
    (case Option.bind (get_from src from_pos) (mc 56) of
       None \<Rightarrow> length src
     | Some relative \<Rightarrow>
         (case usize_add from_pos relative of
            None \<Rightarrow> length src
          | Some candidate \<Rightarrow>
              if boundary_before (Option.bind (usize_sub candidate 1) (get_at src))
                 \<and> (case get_from src candidate of Some rest \<Rightarrow> anchor_shape_at rest anchors | None \<Rightarrow> AnchorRejected)
                     \<noteq> AnchorRejected
              then candidate
              else (case usize_add candidate 1 of
                      None \<Rightarrow> length src
                    | Some next \<Rightarrow> recovery_loop mc src anchors next)))"
  by pat_completeness auto
termination
  by (relation "measure (\<lambda>(_, src, _, from_pos). Suc (length src) - from_pos)")
     (auto simp: checked_simps get_from_def split: if_splits)

declare recovery_loop.simps [simp del]

definition recovery_resync_offset :: "(u8 \<Rightarrow> bytes \<Rightarrow> usize option) \<Rightarrow> bytes \<Rightarrow> bytes list \<Rightarrow> usize" where
  "recovery_resync_offset mc src anchors = recovery_loop mc src anchors 1"

subsection \<open>The codec\<close>

record frame_layout =
  fl_body_end :: usize
  fl_total_length :: usize

datatype resync_state = Settled | EmptiedAfter u8 | PartialOpening

datatype span_verdict = SpanProceed | SpanNeedMore | SpanResynced

record fix_codec =
  fc_max_message_size :: usize
  fc_validate_checksum :: bool
  fc_garbled_recovery :: bool
  fc_garbled_count :: u64
  fc_recovery_anchors :: "bytes list"
  fc_resync_state :: resync_state

definition fix_codec_new :: fix_codec where
  "fix_codec_new = \<lparr>fc_max_message_size = 1024 * 1024, fc_validate_checksum = True, fc_garbled_recovery = False,
     fc_garbled_count = 0, fc_recovery_anchors = RECOVERY_ANCHORS, fc_resync_state = Settled\<rparr>"

definition with_max_message_size :: "usize \<Rightarrow> fix_codec \<Rightarrow> fix_codec" where
  "with_max_message_size limit c = c\<lparr>fc_max_message_size := limit\<rparr>"

definition with_checksum_validation :: "bool \<Rightarrow> fix_codec \<Rightarrow> fix_codec" where
  "with_checksum_validation validate c = c\<lparr>fc_validate_checksum := validate\<rparr>"

definition with_garbled_recovery :: "bool \<Rightarrow> fix_codec \<Rightarrow> fix_codec" where
  "with_garbled_recovery recover c = c\<lparr>fc_garbled_recovery := recover\<rparr>"

definition take_garbled_count :: "fix_codec \<Rightarrow> u64 \<times> fix_codec" where
  "take_garbled_count c = (fc_garbled_count c, c\<lparr>fc_garbled_count := 0\<rparr>)"

text \<open>The version named by an anchor: what stands between its prefix and its suffix.\<close>

definition anchor_version :: "bytes \<Rightarrow> bytes option" where
  "anchor_version anchor =
    (if starts_with anchor BEGIN_STRING_PREFIX
     then (let rest = drop (length BEGIN_STRING_PREFIX) anchor; suffix = SOH # BODY_LENGTH_PREFIX in
           if length suffix \<le> length rest \<and> drop (length rest - length suffix) rest = suffix
           then Some (take (length rest - length suffix) rest) else None)
     else None)"

definition with_begin_string :: "bytes \<Rightarrow> fix_codec \<Rightarrow> fix_codec" where
  "with_begin_string wanted c =
    c\<lparr>fc_recovery_anchors :=
        (case find (\<lambda>anchor. anchor_version anchor = Some wanted) RECOVERY_ANCHORS of
           Some anchor \<Rightarrow> [anchor] | None \<Rightarrow> [])\<rparr>"

definition resync :: "(u8 \<Rightarrow> bytes \<Rightarrow> usize option) \<Rightarrow> fix_codec \<Rightarrow> bytes \<Rightarrow> fix_codec \<times> bytes" where
  "resync mc c src =
    (if fc_garbled_recovery c
     then
       let anchors = fc_recovery_anchors c;
           discarded = recovery_resync_offset mc src anchors;
           st = (if discarded = length src
                 then (case Option.bind (usize_sub discarded 1) (get_at src) of
                         Some b \<Rightarrow> EmptiedAfter b | None \<Rightarrow> Settled)
                 else if (case get_from src discarded of
                            Some rest \<Rightarrow> anchor_shape_at rest anchors = AnchorPartial | None \<Rightarrow> False)
                 then PartialOpening else Settled)
       in (c\<lparr>fc_resync_state := st\<rparr>, drop discarded src)
     else (c, drop (resync_offset mc src) src))"

definition judge_resync_start :: "(u8 \<Rightarrow> bytes \<Rightarrow> usize option) \<Rightarrow> fix_codec \<Rightarrow> bytes \<Rightarrow> span_verdict \<times> fix_codec \<times> bytes" where
  "judge_resync_start mc c src =
    (if fc_resync_state c = Settled then (SpanProceed, c, src)
     else
       let after_boundary = (case fc_resync_state c of
             EmptiedAfter prev \<Rightarrow> boundary_before (Some prev) | PartialOpening \<Rightarrow> True | Settled \<Rightarrow> False);
           shape = (if fc_recovery_anchors c = [] then AnchorComplete else anchor_shape_at src (fc_recovery_anchors c))
       in if src = [] then (SpanNeedMore, c, src)
          else if after_boundary \<and> shape = AnchorComplete then (SpanProceed, c\<lparr>fc_resync_state := Settled\<rparr>, src)
          else if after_boundary \<and> shape = AnchorPartial then (SpanNeedMore, c, src)
          else (let (c', src') = resync mc c src in (SpanResynced, c', src')))"

definition header_needs_more :: "fix_codec \<Rightarrow> usize \<Rightarrow> codec_error + frame_layout option" where
  "header_needs_more c src_len =
    (let too_large = fc_max_message_size c < src_len; too_long = MAX_HEADER_LEN \<le> src_len in
     if fc_garbled_recovery c \<and> too_long then Inl (HeaderTooLong MAX_HEADER_LEN)
     else if too_large then Inl (CodecMessageTooLarge src_len (fc_max_message_size c))
     else if too_long then Inl (HeaderTooLong MAX_HEADER_LEN)
     else Inr None)"

definition layout_of :: "fix_codec \<Rightarrow> usize \<Rightarrow> usize \<Rightarrow> bytes \<Rightarrow> codec_error + frame_layout option" where
  "layout_of c body_len_end digits_len digits =
    bindR (ok_or InvalidBodyLength (parse_body_length digits)) (\<lambda>body_length.
    bindR (ok_or InvalidBodyLength (usize_add body_len_end digits_len)) (\<lambda>body_len_soh.
    bindR (ok_or InvalidBodyLength (usize_add body_len_soh 1)) (\<lambda>body_start.
    bindR (ok_or InvalidBodyLength (usize_add body_start body_length)) (\<lambda>body_end.
    bindR (ok_or InvalidBodyLength (usize_add body_end TRAILER_LEN)) (\<lambda>total_length.
      if fc_max_message_size c < total_length
      then Inl (CodecMessageTooLarge total_length (fc_max_message_size c))
      else Inr (Some \<lparr>fl_body_end = body_end, fl_total_length = total_length\<rparr>))))))"

definition scan_header ::
  "(u8 \<Rightarrow> bytes \<Rightarrow> usize option) \<Rightarrow> fix_codec \<Rightarrow> bytes \<Rightarrow> codec_error + frame_layout option" where
  "scan_header mc c bs =
    (let header = (case get_to bs MAX_HEADER_LEN of Some h \<Rightarrow> h | None \<Rightarrow> bs) in
     case mc SOH header of
       None \<Rightarrow> header_needs_more c (length bs)
     | Some first_soh \<Rightarrow>
         bindR (ok_or InvalidBodyLength (usize_add first_soh 1)) (\<lambda>body_len_start.
         bindR (ok_or InvalidBodyLength (usize_add body_len_start (length BODY_LENGTH_PREFIX))) (\<lambda>body_len_end.
         (case get_range header body_len_start body_len_end of
            None \<Rightarrow> header_needs_more c (length bs)
          | Some prefix \<Rightarrow>
              if prefix \<noteq> BODY_LENGTH_PREFIX then Inl MissingBodyLength
              else (case get_from header body_len_end of
                      None \<Rightarrow> header_needs_more c (length bs)
                    | Some after_prefix \<Rightarrow>
                        (case mc SOH after_prefix of
                           None \<Rightarrow> header_needs_more c (length bs)
                         | Some digits_len \<Rightarrow>
                             bindR (ok_or InvalidBodyLength (get_to after_prefix digits_len))
                               (layout_of c body_len_end digits_len)))))))"

definition verify_trailer :: "bytes \<Rightarrow> usize \<Rightarrow> usize \<Rightarrow> codec_error + u8" where
  "verify_trailer src body_end total_length =
    (if Option.bind (usize_sub body_end 1) (get_at src) \<noteq> Some SOH then Inl (InvalidTrailer body_end)
     else bindR (ok_or (InvalidTrailer body_end) (get_range src body_end total_length)) (\<lambda>trailer.
       if get_to trailer (length CHECKSUM_PREFIX) \<noteq> Some CHECKSUM_PREFIX then Inl (InvalidTrailer body_end)
       else if trailer = [] \<or> last trailer \<noteq> SOH then Inl (InvalidTrailer body_end)
       else bindR (ok_or (InvalidTrailer body_end) (usize_add (length CHECKSUM_PREFIX) CHECKSUM_DIGITS)) (\<lambda>digits_end.
         bindR (ok_or (InvalidTrailer body_end) (get_range trailer (length CHECKSUM_PREFIX) digits_end)) (\<lambda>digits.
           ok_or InvalidChecksumFormat (parse_checksum digits)))))"

definition reject_header ::
  "(u8 \<Rightarrow> bytes \<Rightarrow> usize option) \<Rightarrow> codec_error \<Rightarrow> fix_codec \<Rightarrow> bytes
     \<Rightarrow> (codec_error + bytes option) \<times> fix_codec \<times> bytes" where
  "reject_header mc error c src =
    (if fc_garbled_recovery c \<and> is_recoverable error then (Inl error, resync mc c src) else (Inl error, c, src))"

definition reject_trailer ::
  "(u8 \<Rightarrow> bytes \<Rightarrow> usize option) \<Rightarrow> codec_error \<Rightarrow> usize \<Rightarrow> fix_codec \<Rightarrow> bytes
     \<Rightarrow> (codec_error + bytes option) \<times> fix_codec \<times> bytes" where
  "reject_trailer mc error total_length c src =
    (case error of
       InvalidTrailer _ \<Rightarrow> (Inl error, resync mc c src)
     | _ \<Rightarrow> (Inl error, c, drop total_length src))"

text \<open>The frame is all there: check its trailer and its sum, and split it off.\<close>

definition take_frame ::
  "(u8 \<Rightarrow> bytes \<Rightarrow> usize option) \<Rightarrow> usize \<Rightarrow> usize \<Rightarrow> fix_codec \<Rightarrow> bytes
     \<Rightarrow> (codec_error + bytes option) \<times> fix_codec \<times> bytes" where
  "take_frame mc body_end total_length c src =
    (case verify_trailer src body_end total_length of
       Inl error \<Rightarrow> reject_trailer mc error total_length c src
     | Inr declared \<Rightarrow>
         if fc_validate_checksum c
         then (case map_option calculate_checksum (get_to src body_end) of
                 Some s \<Rightarrow>
                   if s = declared then (Inr (Some (take total_length src)), c, drop total_length src)
                   else (Inl (CodecChecksumMismatch s declared), c, drop total_length src)
               | None \<Rightarrow> (Inl (InvalidTrailer body_end), resync mc c src))
         else (Inr (Some (take total_length src)), c, drop total_length src))"

definition decode_one ::
  "(u8 \<Rightarrow> bytes \<Rightarrow> usize option) \<Rightarrow> fix_codec \<Rightarrow> bytes \<Rightarrow> (codec_error + bytes option) \<times> fix_codec \<times> bytes" where
  "decode_one mc c src =
    (if length src < MIN_FRAME_LEN then (Inr None, c, src)
     else if get_to src (length BEGIN_STRING_PREFIX) \<noteq> Some BEGIN_STRING_PREFIX
     then (Inl InvalidBeginString, resync mc c src)
     else (case scan_header mc c src of
             Inl error \<Rightarrow> reject_header mc error c src
           | Inr None \<Rightarrow> (Inr None, c, src)
           | Inr (Some layout) \<Rightarrow>
               if length src < fl_total_length layout then (Inr None, c, src)
               else take_frame mc (fl_body_end layout) (fl_total_length layout) c src))"

definition record_skip ::
  "usize \<Rightarrow> codec_error \<Rightarrow> fix_codec \<Rightarrow> bytes \<Rightarrow> (codec_error + unit) \<times> fix_codec \<times> bytes" where
  "record_skip before error c src =
    (case checked_add (fc_garbled_count c) 1 of
       None \<Rightarrow> (Inl error, c, src)
     | Some skipped \<Rightarrow>
         (Inr (), c\<lparr>fc_garbled_count := skipped\<rparr>,
          if before \<le> length src \<and> src \<noteq> [] then drop 1 src else src))"

subsection \<open>The decoding loop\<close>

lemma recovery_loop_ge: "min from_pos (length src) \<le> recovery_loop mc src anchors from_pos"
proof (induction mc src anchors from_pos rule: recovery_loop.induct)
  case (1 mc src anchors from_pos)
  show ?case
    by (subst recovery_loop.simps)
       (auto simp: checked_simps split: option.splits dest!: 1)
qed

lemma resync_length:
  "resync mc c src = (c', src') \<Longrightarrow> length src' \<le> length src"
  "resync mc c src = (c', src') \<Longrightarrow> fc_garbled_recovery c \<Longrightarrow> src \<noteq> [] \<Longrightarrow> length src' < length src"
proof -
  show "resync mc c src = (c', src') \<Longrightarrow> length src' \<le> length src"
    by (auto simp: resync_def Let_def split: if_splits)
  assume r: "resync mc c src = (c', src')" "fc_garbled_recovery c" and src: "src \<noteq> []"
  then have "src' = drop (recovery_resync_offset mc src (fc_recovery_anchors c)) src"
    by (auto simp: resync_def Let_def)
  moreover have "1 \<le> recovery_resync_offset mc src (fc_recovery_anchors c)"
    using recovery_loop_ge[of 1 src mc "fc_recovery_anchors c"] src
    by (cases src) (auto simp: recovery_resync_offset_def)
  moreover have "0 < length src" using src by simp
  ultimately show "length src' < length src" by simp
qed

lemma resync_keeps:
  "resync mc c src = (c', src') \<Longrightarrow> fc_garbled_recovery c' = fc_garbled_recovery c"
  by (auto simp: resync_def Let_def split: if_splits)

lemma judge_resynced:
  "judge_resync_start mc c src = (SpanResynced, c', src') \<Longrightarrow> fc_garbled_recovery c \<Longrightarrow> length src' < length src"
  by (auto simp: judge_resync_start_def Let_def resync_length(2) split: if_splits prod.splits)

lemma judge_proceed: "judge_resync_start mc c src = (SpanProceed, c', src') \<Longrightarrow> src' = src"
  by (auto simp: judge_resync_start_def Let_def split: if_splits prod.splits)

lemma resync_length_snd: "length (snd (resync mc c src)) \<le> length src"
  by (cases "resync mc c src") (simp add: resync_length(1))

lemma reject_length:
  "length (snd (snd (reject_header mc e c src))) \<le> length src"
  "length (snd (snd (reject_trailer mc e n c src))) \<le> length src"
  by (simp_all add: reject_header_def reject_trailer_def resync_length_snd split: codec_error.split)

lemma decode_one_length: "decode_one mc c src = (r, c', src') \<Longrightarrow> length src' \<le> length src"
proof -
  have "length (snd (snd (decode_one mc c src))) \<le> length src"
    unfolding decode_one_def take_frame_def
    by (simp add: resync_length_snd reject_length split: sum.split option.split)
  then show "decode_one mc c src = (r, c', src') \<Longrightarrow> length src' \<le> length src" by simp
qed

lemma decode_one_error: "decode_one mc c src = (Inl e, c', src') \<Longrightarrow> 20 \<le> length src"
  by (auto simp: decode_one_def MIN_FRAME_LEN_def split: if_splits)

lemma record_skip_shrinks:
  assumes "decode_one mc c src = (Inl e, c1, src1)" and "record_skip (length src) e c1 src1 = (Inr u, c2, src2)"
  shows "length src2 < length src"
proof -
  have "length src1 \<le> length src" "20 \<le> length src"
    using decode_one_length[OF assms(1)] decode_one_error[OF assms(1)] by simp_all
  then show ?thesis using assms(2) by (cases src1) (auto simp: record_skip_def split: option.splits if_splits)
qed

text \<open>One turn of the loop: \<open>Inl\<close> goes round again, \<open>Inr\<close> returns.\<close>

definition decode_attempt ::
  "(u8 \<Rightarrow> bytes \<Rightarrow> usize option) \<Rightarrow> fix_codec \<Rightarrow> bytes
     \<Rightarrow> fix_codec \<times> bytes + (codec_error + bytes option) \<times> fix_codec \<times> bytes" where
  "decode_attempt mc c src =
    (case decode_one mc c src of
       (Inr (Some frame), c1, src1) \<Rightarrow> Inr (Inr (Some frame), c1\<lparr>fc_resync_state := Settled\<rparr>, src1)
     | (Inr None, c1, src1) \<Rightarrow> Inr (Inr None, c1, src1)
     | (Inl error, c1, src1) \<Rightarrow>
         if \<not> fc_garbled_recovery c1 \<or> \<not> is_recoverable error then Inr (Inl error, c1, src1)
         else (case record_skip (length src) error c1 src1 of
                 (Inl e, c2, src2) \<Rightarrow> Inr (Inl e, c2, src2)
               | (Inr _, c2, src2) \<Rightarrow> Inl (c2, src2)))"

definition decode_turn ::
  "(u8 \<Rightarrow> bytes \<Rightarrow> usize option) \<Rightarrow> fix_codec \<Rightarrow> bytes
     \<Rightarrow> fix_codec \<times> bytes + (codec_error + bytes option) \<times> fix_codec \<times> bytes" where
  "decode_turn mc c src =
    (if fc_garbled_recovery c \<and> fc_resync_state c \<noteq> Settled
     then (case judge_resync_start mc c src of
             (SpanNeedMore, c0, src0) \<Rightarrow> Inr (Inr None, c0, src0)
           | (SpanResynced, c0, src0) \<Rightarrow> Inl (c0, src0)
           | (SpanProceed, c0, src0) \<Rightarrow> decode_attempt mc c0 src0)
     else decode_attempt mc c src)"

lemma decode_attempt_shrinks:
  assumes "decode_attempt mc c src = Inl (c', src')"
  shows "length src' < length src"
proof -
  obtain r c1 src1 where d: "decode_one mc c src = (r, c1, src1)" by (metis prod_cases3)
  then obtain error where r: "r = Inl error"
    using assms by (cases r) (auto simp: decode_attempt_def split: option.splits)
  with assms d obtain u where "record_skip (length src) error c1 src1 = (Inr u, c', src')"
    by (auto simp: decode_attempt_def split: if_splits prod.splits sum.splits)
  with record_skip_shrinks d r show ?thesis by blast
qed

lemma decode_turn_shrinks:
  assumes "decode_turn mc c src = Inl (c', src')"
  shows "length src' < length src"
proof (cases "fc_garbled_recovery c \<and> fc_resync_state c \<noteq> Settled")
  case False
  have "decode_attempt mc c src = Inl (c', src')"
    using assms unfolding decode_turn_def if_not_P[OF False] .
  then show ?thesis by (rule decode_attempt_shrinks)
next
  case True
  obtain v c0 src0 where j: "judge_resync_start mc c src = (v, c0, src0)" by (metis prod_cases3)
  show ?thesis
  proof (cases v)
    case SpanProceed
    with j have "src0 = src" by (simp add: judge_proceed)
    with True j SpanProceed assms show ?thesis by (simp add: decode_turn_def decode_attempt_shrinks)
  next
    case SpanNeedMore
    with True j assms show ?thesis by (simp add: decode_turn_def)
  next
    case SpanResynced
    with True j assms judge_resynced[of mc c src c0 src0] show ?thesis by (simp add: decode_turn_def)
  qed
qed

function codec_decode ::
  "(u8 \<Rightarrow> bytes \<Rightarrow> usize option) \<Rightarrow> fix_codec \<Rightarrow> bytes \<Rightarrow> (codec_error + bytes option) \<times> fix_codec \<times> bytes" where
  "codec_decode mc c src =
    (case decode_turn mc c src of
       Inr result \<Rightarrow> result
     | Inl (c', src') \<Rightarrow> codec_decode mc c' src')"
  by pat_completeness auto
termination
  by (relation "measure (\<lambda>(_, _, src). length src)") (auto simp: decode_turn_shrinks)

declare codec_decode.simps [simp del]

text \<open>Encoding passes finished frames through, within the size limit.\<close>

definition codec_encode :: "fix_codec \<Rightarrow> bytes \<Rightarrow> (bytes, codec_error, unit) fallible" where
  "codec_encode c item dst =
    (if fc_max_message_size c < length item
     then (Inl (CodecMessageTooLarge (length item) (fc_max_message_size c)), dst)
     else (Inr (), dst @ item))"

end
