(* ===== verification/Transport_Stream.thy ===== *)
theory Transport_Stream
  imports Transport_Codec Encoder_Correct Stream_Law
begin

text \<open>
  What the stream codec cuts off a buffer, exactly, and what follows for a stream of frames
  that reaches it in arbitrary pieces.
\<close>

subsection \<open>Frames on a stream\<close>

definition stream_frame :: "fix_codec \<Rightarrow> bytes \<Rightarrow> bool" where
  "stream_frame c frame \<longleftrightarrow>
     (\<exists>bs ds body cs s. frame = header_bytes bs ds @ body @ CHECKSUM_PREFIX @ cs @ [SOH]
        \<and> SOH \<notin> set bs \<and> parse_body_length ds = Some (length body)
        \<and> length (header_bytes bs ds) \<le> MAX_HEADER_LEN \<and> (body \<noteq> [] \<longrightarrow> last body = SOH)
        \<and> length cs = 3 \<and> parse_checksum cs = Some s
        \<and> (fc_validate_checksum c \<longrightarrow> s = calculate_checksum (header_bytes bs ds @ body))
        \<and> length frame \<le> fc_max_message_size c)"

text \<open>
  The codec waits for twenty bytes before it looks at a buffer.  The minimum is a condition on
  the buffer: a shorter frame is cut off as soon as other bytes follow it.
\<close>

definition stream_fits :: "fix_codec \<Rightarrow> bytes \<Rightarrow> bool" where
  "stream_fits c frame \<longleftrightarrow> stream_frame c frame \<and> MIN_FRAME_LEN \<le> length frame"

lemma prefix_bytes:
  "BEGIN_STRING_PREFIX = [56, 61]" "BODY_LENGTH_PREFIX = [57, 61]" "CHECKSUM_PREFIX = [49, 48, 61]"
  by (simp_all add: BEGIN_STRING_PREFIX_def BODY_LENGTH_PREFIX_def CHECKSUM_PREFIX_def bytes_of_def)

lemma begin_prefix:
  "get_to bs (length BEGIN_STRING_PREFIX) = Some BEGIN_STRING_PREFIX \<longleftrightarrow> get_to bs 2 = Some [56, 61]"
proof -
  have "length BEGIN_STRING_PREFIX = 2" by (simp add: prefix_bytes)
  then show ?thesis by (simp only: prefix_bytes(1))
qed

lemma parse_body_length_loop_eq: "parse_body_length_loop bs n = parse_length_loop bs n"
  by (induction bs n rule: parse_body_length_loop.induct)
     (auto simp: digit_val_def split: option.splits)

lemma parse_body_length_iff:
  "parse_body_length bs = Some n \<longleftrightarrow> bs \<noteq> [] \<and> length bs \<le> 10 \<and> all_digits bs \<and> n = dec_val bs"
proof -
  have "parse_body_length bs = parse_length bs"
    by (simp add: parse_body_length_def parse_length_def parse_body_length_loop_eq CODEC_BODY_LENGTH_DIGITS_def
        MAX_LENGTH_DIGITS_def)
  then show ?thesis by (simp add: parse_length_iff MAX_LENGTH_DIGITS_def)
qed

lemma parse_body_length_facts:
  assumes "parse_body_length ds = Some n"
  shows "ds \<noteq> []" "length ds \<le> 10" "SOH \<notin> set ds" "n < 10 ^ 10"
proof -
  have ds: "ds \<noteq> []" "length ds \<le> 10" "all_digits ds" "n = dec_val ds"
    using assms by (simp_all add: parse_body_length_iff)
  then show "ds \<noteq> []" "length ds \<le> 10" by simp_all
  show "SOH \<notin> set ds" using all_digits_no_special[OF ds(3)] by simp
  have "n < 10 ^ length ds" using dec_val_lt[OF ds(3)] ds(4) by simp
  also have "(10 :: nat) ^ length ds \<le> 10 ^ 10" using ds(2) by (rule power_increasing) simp
  finally show "n < 10 ^ 10" .
qed

lemma length_header_bytes: "length (header_bytes bs ds) = length bs + length ds + 6"
  by (simp add: header_bytes_def)

lemma header_split: "header_bytes bs ds = (56 # 61 # bs) @ SOH # [57, 61] @ ds @ [SOH]"
  by (simp add: header_bytes_def)

lemma header_window: "(case get_to bs MAX_HEADER_LEN of Some h \<Rightarrow> h | None \<Rightarrow> bs) = take 64 bs"
  by (simp add: get_to_def MAX_HEADER_LEN_def)

lemma layout_of_eq:
  assumes "parse_body_length ds = Some n" "a \<le> 64" "k \<le> 64"
  shows "layout_of c a k ds =
    (if fc_max_message_size c < a + k + 1 + n + 7 then Inl (CodecMessageTooLarge (a + k + 1 + n + 7) (fc_max_message_size c))
     else Inr (Some \<lparr>fl_body_end = a + k + 1 + n, fl_total_length = a + k + 1 + n + 7\<rparr>))"
  using parse_body_length_facts(4)[OF assms(1)] assms
  by (simp add: layout_of_def usize_add_def usize_max_def TRAILER_LEN_def)

context memchr_law
begin

text \<open>The scan, once the first SOH of the window is known.\<close>

lemma scan_at:
  assumes "take 64 src = pre @ SOH # post" "SOH \<notin> set pre"
  shows "scan_header memchr c src =
      (if 2 \<le> length post
       then (if take 2 post \<noteq> [57, 61] then Inl MissingBodyLength
             else (case memchr SOH (drop 2 post) of
                     None \<Rightarrow> header_needs_more c (length src)
                   | Some k \<Rightarrow> bindR (ok_or InvalidBodyLength (get_to (drop 2 post) k)) (layout_of c (length pre + 3) k)))
       else header_needs_more c (length src))"
proof -
  let ?i = "length pre"
  have len: "Suc (length pre + length post) \<le> 64" using arg_cong[OF assms(1), of length] by simp
  have i: "memchr SOH (take 64 src) = Some ?i" unfolding assms(1) using assms(2) by (rule memchr_at)
  have ov: "usize_add ?i 1 = Some (?i + 1)" "usize_add (?i + 1) 2 = Some (?i + 3)"
    using len by (simp_all add: usize_add_def usize_max_def)
  have rng: "get_range (take 64 src) (?i + 1) (?i + 3) = (if 2 \<le> length post then Some (take 2 post) else None)"
    unfolding assms(1) by (auto simp: get_range_def)
  have frm: "get_from (take 64 src) (?i + 3) = (if 2 \<le> length post then Some (drop 2 post) else None)"
    unfolding assms(1) by (auto simp: get_from_def)
  have two: "length [57, 61 :: u8] = 2" by simp
  show ?thesis
    unfolding scan_header_def header_window Let_def i
    by (cases "2 \<le> length post")
       (simp_all only: option.case ok_or_simps bindR_simps ov two rng frm if_True if_False prefix_bytes(2))
qed

lemma scan_complete:
  assumes "SOH \<notin> set bs" "parse_body_length ds = Some n" "length (header_bytes bs ds) \<le> 64"
  shows "scan_header memchr c (header_bytes bs ds @ rest) =
    (let h = length (header_bytes bs ds) in
     if fc_max_message_size c < h + n + 7 then Inl (CodecMessageTooLarge (h + n + 7) (fc_max_message_size c))
     else Inr (Some \<lparr>fl_body_end = h + n, fl_total_length = h + n + 7\<rparr>))"
proof -
  define tail where "tail = take (64 - length (header_bytes bs ds)) rest"
  have "take 64 (header_bytes bs ds @ rest) = header_bytes bs ds @ tail" using assms(3) by (simp add: tail_def)
  then have w: "take 64 (header_bytes bs ds @ rest) = (56 # 61 # bs) @ SOH # ([57, 61] @ ds @ SOH # tail)"
    by (simp add: header_split)
  have second: "memchr SOH (ds @ SOH # tail) = Some (length ds)"
    using memchr_at[of SOH ds tail] parse_body_length_facts(3)[OF assms(2)] by simp
  have small: "length bs \<le> 64" "length ds \<le> 10" using assms(3) parse_body_length_facts(2)[OF assms(2)]
    by (simp_all add: length_header_bytes)
  have a: "SOH \<notin> set (56 # 61 # bs)" using assms(1) by simp
  have "scan_header memchr c (header_bytes bs ds @ rest) = layout_of c (length bs + 5) (length ds) ds"
    using scan_at[OF w a] second by (simp add: get_to_def add.commute)
  then show ?thesis
    using layout_of_eq[OF assms(2), of "length bs + 5" "length ds" c] small assms(3)
    by (simp add: length_header_bytes Let_def add.commute add.left_commute)
qed

lemma memchr_split:
  assumes "memchr b xs = Some i"
  obtains pre post where "xs = pre @ b # post" "length pre = i" "b \<notin> set pre"
  using memchr_decompose[OF assms] that[of "take i xs" "drop (Suc i) xs"] by simp

lemma scan_sound:
  assumes "scan_header memchr c src = Inr (Some layout)" "get_to src 2 = Some [56, 61]"
  shows "\<exists>bs ds n rest. src = header_bytes bs ds @ rest \<and> SOH \<notin> set bs \<and> parse_body_length ds = Some n
    \<and> length (header_bytes bs ds) \<le> 64"
proof -
  have nm: "header_needs_more c n \<noteq> Inr (Some layout)" for n
    by (simp add: header_needs_more_def Let_def)
  obtain i where i: "memchr SOH (take 64 src) = Some i"
  proof (cases "memchr SOH (take 64 src)")
    case None
    have "scan_header memchr c src = header_needs_more c (length src)"
      unfolding scan_header_def header_window Let_def None option.case by (rule refl)
    then have "header_needs_more c (length src) = Inr (Some layout)" using assms(1) by (rule trans[OF sym])
    then show ?thesis by (rule notE[OF nm])
  qed
  obtain pre post where pp: "take 64 src = pre @ SOH # post" "SOH \<notin> set pre"
    by (rule memchr_split[OF i])
  have pre2: "take 2 (pre @ SOH # post) = [56, 61]"
    using assms(2) unfolding pp(1)[symmetric] by (simp add: get_to_def min_def split: if_splits)
  obtain bs where bs: "pre = 56 # 61 # bs"
  proof (cases pre)
    case Nil
    with pre2 show ?thesis by (cases post) simp_all
  next
    case (Cons a as)
    with pre2 that show ?thesis by (cases as) simp_all
  qed
  from assms(1) scan_at[OF pp] nm obtain k where post: "take 2 post = [57, 61]" "memchr SOH (drop 2 post) = Some k"
    and lay: "bindR (ok_or InvalidBodyLength (get_to (drop 2 post) k)) (layout_of c (length pre + 3) k) = Inr (Some layout)"
    by (auto split: if_splits option.splits)
  obtain ds more where dm: "drop 2 post = ds @ SOH # more" "length ds = k"
    by (rule memchr_split[OF post(2)])
  have "layout_of c (length pre + 3) k ds = Inr (Some layout)"
    using lay dm by (simp add: get_to_def)
  then obtain n where n: "parse_body_length ds = Some n" by (auto simp: layout_of_def result_simps)
  have "post = [57, 61] @ ds @ SOH # more" using post(1) dm(1) by (metis append_take_drop_id)
  then have w: "take 64 src = header_bytes bs ds @ more" using pp(1) bs by (simp add: header_split)
  then have "src = header_bytes bs ds @ (more @ drop 64 src)" by (metis append.assoc append_take_drop_id)
  moreover have "length (header_bytes bs ds) \<le> 64" using arg_cong[OF w, of length] by simp
  moreover have "SOH \<notin> set bs" using pp(2) bs by simp
  ultimately show ?thesis using n by blast
qed

text \<open>A header that is not all there yet asks for more.\<close>

lemma scan_partial:
  assumes "SOH \<notin> set bs" "parse_body_length ds = Some n" "part @ missing = header_bytes bs ds" "missing \<noteq> []"
    and "length (header_bytes bs ds) \<le> 64" "length part \<le> fc_max_message_size c"
  shows "scan_header memchr c part = Inr None"
proof -
  have "length part + length missing \<le> 64" using assms(3,5) by (metis length_append)
  moreover have "0 < length missing" using assms(4) by simp
  ultimately have k: "length part < 64" by linarith
  then have win: "take 64 part = part" by simp
  have more: "header_needs_more c (length part) = Inr None"
    using k assms(6) by (simp add: header_needs_more_def MAX_HEADER_LEN_def)
  have a: "SOH \<notin> set (56 # 61 # bs)" using assms(1) by simp
  have "part @ missing = (56 # 61 # bs) @ (SOH # [57, 61] @ ds @ [SOH])" using assms(3) by (simp add: header_split)
  then obtain us where "56 # 61 # bs = part @ us \<or> (part = (56 # 61 # bs) @ us \<and> us @ missing = SOH # [57, 61] @ ds @ [SOH])"
    unfolding append_eq_append_conv2 by metis
  then show ?thesis
  proof
    assume "56 # 61 # bs = part @ us"
    then have "SOH \<notin> set part" using a by (metis Un_iff set_append)
    then show ?thesis unfolding scan_header_def header_window win using more by (simp add: memchr_absent Let_def)
  next
    assume us: "part = (56 # 61 # bs) @ us \<and> us @ missing = SOH # [57, 61] @ ds @ [SOH]"
    show ?thesis
    proof (cases us)
      case Nil
      then have "SOH \<notin> set part" using us a by simp
      then show ?thesis unfolding scan_header_def header_window win using more by (simp add: memchr_absent Let_def)
    next
      case (Cons u post)
      then have p: "take 64 part = (56 # 61 # bs) @ SOH # post" "post @ missing = [57, 61] @ ds @ [SOH]"
        using us win by auto
      have after: "drop 2 post @ missing = ds @ [SOH] \<and> take 2 post = [57, 61]" if "2 \<le> length post"
        using that p(2) by (cases post; cases "tl post") auto
      have "memchr SOH (drop 2 post) = None" if two: "2 \<le> length post"
      proof -
        have "drop 2 post @ missing = ds @ [SOH]" using after[OF two] ..
        moreover have "butlast (drop 2 post @ missing) = drop 2 post @ butlast missing"
          using assms(4) by (simp add: butlast_append)
        ultimately have "ds = drop 2 post @ butlast missing" by simp
        then show ?thesis using parse_body_length_facts(3)[OF assms(2)] by (simp add: memchr_absent)
      qed
      then show ?thesis using scan_at[OF p(1) a] after more by auto
    qed
  qed
qed

end

subsection \<open>One frame\<close>

lemma verify_trailer_at:
  assumes "pre \<noteq> []" "length trailer = 7"
  shows "verify_trailer (pre @ trailer @ rest) (length pre) (length pre + 7) =
    (if last pre \<noteq> SOH then Inl (InvalidTrailer (length pre))
     else if take 3 trailer \<noteq> CHECKSUM_PREFIX then Inl (InvalidTrailer (length pre))
     else if last trailer \<noteq> SOH then Inl (InvalidTrailer (length pre))
     else ok_or InvalidChecksumFormat (parse_checksum (take 3 (drop 3 trailer))))"
proof -
  have "Option.bind (usize_sub (length pre) 1) (get_at (pre @ trailer @ rest)) = Some (last pre)"
    using assms(1) by (cases pre rule: rev_cases) (simp_all add: usize_sub_def get_at_def nth_append)
  moreover have "get_range (pre @ trailer @ rest) (length pre) (length pre + 7) = Some trailer"
    using assms(2) by (simp add: get_range_def)
  moreover have "length CHECKSUM_PREFIX = 3" by (simp add: prefix_bytes)
  moreover have "trailer \<noteq> []" using assms(2) by auto
  ultimately show ?thesis
    using assms(2)
    by (simp add: verify_trailer_def get_to_def get_range_def usize_add_def usize_max_def CHECKSUM_DIGITS_def)
qed

lemma frame_trailer:
  assumes "length cs = 3"
  shows "length (CHECKSUM_PREFIX @ cs @ [SOH]) = 7" "take 3 (CHECKSUM_PREFIX @ cs @ [SOH]) = CHECKSUM_PREFIX"
    "last (CHECKSUM_PREFIX @ cs @ [SOH]) = SOH" "take 3 (drop 3 (CHECKSUM_PREFIX @ cs @ [SOH])) = cs"
  using assms by (simp_all add: prefix_bytes)

lemma trailer_split:
  assumes "length trailer = 7" "take 3 trailer = CHECKSUM_PREFIX" "last trailer = SOH"
  shows "trailer = CHECKSUM_PREFIX @ take 3 (drop 3 trailer) @ [SOH]"
proof -
  have "take 3 (drop 3 trailer) @ drop 6 trailer = drop 3 trailer"
    using append_take_drop_id[of 3 "drop 3 trailer"] by simp
  then have "trailer = take 3 trailer @ take 3 (drop 3 trailer) @ drop 6 trailer"
    using append_take_drop_id[of 3 trailer] by simp
  moreover have "drop 6 trailer = [last trailer]"
    using assms(1) by (cases trailer rule: rev_cases) simp_all
  ultimately show ?thesis using assms(2,3) by simp
qed

lemma starts_8:
  "get_to (header_bytes bs ds @ rest) 2 = Some [56, 61]" "get_to (header_bytes bs ds @ rest) (length BEGIN_STRING_PREFIX) = Some BEGIN_STRING_PREFIX"
  by (simp_all add: get_to_def header_bytes_def prefix_bytes)

lemma take_frame_Some:
  assumes "span \<noteq> []" "length trailer = 7"
  shows "take_frame mc (length span) (length span + 7) c (span @ trailer @ rest) = (Inr (Some fr), c', src')
     \<longleftrightarrow> last span = SOH \<and> (\<exists>cs s. trailer = CHECKSUM_PREFIX @ cs @ [SOH] \<and> length cs = 3 \<and> parse_checksum cs = Some s
          \<and> (fc_validate_checksum c \<longrightarrow> s = calculate_checksum span))
        \<and> fr = span @ trailer \<and> c' = c \<and> src' = rest" (is "?l = ?r")
proof -
  have t: "take (length span + 7) (span @ trailer @ rest) = span @ trailer" "drop (length span + 7) (span @ trailer @ rest) = rest"
    using assms(2) by simp_all
  have sp: "get_to (span @ trailer @ rest) (length span) = Some span" by (simp add: get_to_def)
  have no: "reject_trailer mc e n c src \<noteq> (Inr (Some fr), c', src')" for e n src
    by (simp add: reject_trailer_def split: codec_error.split)
  show ?thesis
  proof
    assume l: ?l
    then obtain s where v: "verify_trailer (span @ trailer @ rest) (length span) (length span + 7) = Inr s"
      using no by (cases "verify_trailer (span @ trailer @ rest) (length span) (length span + 7)") (auto simp: take_frame_def)
    then have ends: "last span = SOH" "take 3 trailer = CHECKSUM_PREFIX" "last trailer = SOH"
      and cs: "parse_checksum (take 3 (drop 3 trailer)) = Some s"
      unfolding verify_trailer_at[OF assms] by (auto simp: result_simps split: if_splits)
    have "trailer = CHECKSUM_PREFIX @ take 3 (drop 3 trailer) @ [SOH]" "length (take 3 (drop 3 trailer)) = 3"
      using trailer_split[OF assms(2) ends(2,3)] assms(2) by simp_all
    moreover have "(fc_validate_checksum c \<longrightarrow> s = calculate_checksum span) \<and> fr = span @ trailer \<and> c' = c \<and> src' = rest"
      using l v unfolding take_frame_def sp t by (auto split: if_splits)
    ultimately show ?r using ends(1) cs by blast
  next
    assume ?r
    then obtain cs s where r: "last span = SOH" "trailer = CHECKSUM_PREFIX @ cs @ [SOH]" "length cs = 3"
      "parse_checksum cs = Some s" "fc_validate_checksum c \<longrightarrow> s = calculate_checksum span"
      "fr = span @ trailer" "c' = c" "src' = rest" by blast
    have "verify_trailer (span @ trailer @ rest) (length span) (length span + 7) = Inr s"
      unfolding verify_trailer_at[OF assms] using r(1,4) frame_trailer[OF r(3)] unfolding r(2) by simp
    then show ?l using r(5-8) unfolding take_frame_def sp t by auto
  qed
qed

context memchr_law
begin

lemma decode_one_complete:
  assumes "stream_frame c fr" "MIN_FRAME_LEN \<le> length (fr @ rest)"
  shows "decode_one memchr c (fr @ rest) = (Inr (Some fr), c, rest)"
proof -
  obtain bs ds body cs s where f: "fr = header_bytes bs ds @ body @ CHECKSUM_PREFIX @ cs @ [SOH]"
    "SOH \<notin> set bs" "parse_body_length ds = Some (length body)" "length (header_bytes bs ds) \<le> 64"
    "body \<noteq> [] \<longrightarrow> last body = SOH" "length cs = 3" "parse_checksum cs = Some s"
    "fc_validate_checksum c \<longrightarrow> s = calculate_checksum (header_bytes bs ds @ body)"
    "length fr \<le> fc_max_message_size c"
    using assms(1) unfolding stream_frame_def MAX_HEADER_LEN_def by blast
  let ?span = "header_bytes bs ds @ body" and ?trailer = "CHECKSUM_PREFIX @ cs @ [SOH]"
  have src: "fr @ rest = header_bytes bs ds @ (body @ ?trailer @ rest)" by (simp add: f(1))
  have len: "length fr = length ?span + 7" using f(1,6) by (simp add: prefix_bytes)
  have "scan_header memchr c (fr @ rest) = Inr (Some \<lparr>fl_body_end = length ?span, fl_total_length = length ?span + 7\<rparr>)"
    unfolding src scan_complete[OF f(2-4)] using f(9) len by (simp add: Let_def)
  moreover have "last ?span = SOH" using f(5) by (simp add: header_bytes_def)
  then have "take_frame memchr (length ?span) (length ?span + 7) c (?span @ ?trailer @ rest) = (Inr (Some (?span @ ?trailer)), c, rest)"
    using f(6-8) frame_trailer(1)[OF f(6)]
    by (subst take_frame_Some) (auto simp: header_bytes_def)
  moreover have "\<not> length (fr @ rest) < length ?span + 7" "\<not> length (fr @ rest) < MIN_FRAME_LEN"
    using len assms(2) by simp_all
  ultimately show ?thesis
    unfolding decode_one_def using starts_8(2)[of bs ds "body @ ?trailer @ rest"]
    unfolding src[symmetric] by (simp add: f(1))
qed

lemma decode_one_partial:
  assumes "stream_frame c fr" "part @ missing = fr" "missing \<noteq> []"
  shows "decode_one memchr c part = (Inr None, c, part)"
proof (cases "length part < MIN_FRAME_LEN")
  case True
  then show ?thesis by (simp add: decode_one_def)
next
  case False
  obtain bs ds body cs s where f: "fr = header_bytes bs ds @ body @ CHECKSUM_PREFIX @ cs @ [SOH]"
    "SOH \<notin> set bs" "parse_body_length ds = Some (length body)" "length (header_bytes bs ds) \<le> 64"
    "length cs = 3" "length fr \<le> fc_max_message_size c"
    using assms(1) unfolding stream_frame_def MAX_HEADER_LEN_def by blast
  have less: "length part < length fr" using arg_cong[OF assms(2), of length] assms(3) by (cases missing) auto
  have "part @ missing = header_bytes bs ds @ (body @ CHECKSUM_PREFIX @ cs @ [SOH])" using assms(2) f(1) by simp
  then obtain us where "(header_bytes bs ds = part @ us \<and> us \<noteq> []) \<or> part = header_bytes bs ds @ us"
    unfolding append_eq_append_conv2 by (metis append_Nil2)
  then have "get_to part 2 = Some [56, 61] \<and> (scan_header memchr c part = Inr None
      \<or> (\<exists>l. scan_header memchr c part = Inr (Some l) \<and> fl_total_length l = length fr))"
  proof
    assume us: "header_bytes bs ds = part @ us \<and> us \<noteq> []"
    then have "take 2 part = take 2 (header_bytes bs ds)" using False by (simp add: MIN_FRAME_LEN_def)
    then have "get_to part 2 = Some [56, 61]" using False by (simp add: get_to_def header_bytes_def MIN_FRAME_LEN_def)
    moreover have "length part \<le> fc_max_message_size c" using less f(6) by simp
    then have "scan_header memchr c part = Inr None"
      using us by (intro scan_partial[OF f(2,3) _ _ f(4)]) auto
    ultimately show ?thesis by simp
  next
    assume us: "part = header_bytes bs ds @ us"
    have "length fr = length (header_bytes bs ds) + length body + 7" using f(1,5) by (simp add: prefix_bytes)
    then have "scan_header memchr c part
        = Inr (Some \<lparr>fl_body_end = length (header_bytes bs ds) + length body, fl_total_length = length fr\<rparr>)"
      unfolding us scan_complete[OF f(2-4)] using f(6) by (simp add: Let_def)
    then show ?thesis using starts_8(1)[of bs ds us] us by simp
  qed
  then show ?thesis using False less by (auto simp: decode_one_def begin_prefix)
qed

lemma decode_one_sound:
  assumes "decode_one memchr c src = (Inr (Some fr), c', src')"
  shows "stream_frame c fr \<and> src = fr @ src' \<and> c' = c"
proof -
  have no: "reject_header memchr e c src \<noteq> (Inr (Some fr), c', src')" for e
    by (simp add: reject_header_def)
  have min: "MIN_FRAME_LEN \<le> length src" and b: "get_to src 2 = Some [56, 61]"
    using assms by (auto simp: decode_one_def begin_prefix split: if_splits)
  from assms no obtain layout where scan: "scan_header memchr c src = Inr (Some layout)"
    and len: "fl_total_length layout \<le> length src"
    and take: "take_frame memchr (fl_body_end layout) (fl_total_length layout) c src = (Inr (Some fr), c', src')"
    by (auto simp: decode_one_def split: if_splits sum.splits option.splits)
  from scan_sound[OF scan b] obtain bs ds n rest where src: "src = header_bytes bs ds @ rest" "SOH \<notin> set bs"
    "parse_body_length ds = Some n" "length (header_bytes bs ds) \<le> 64" by blast
  let ?h = "length (header_bytes bs ds)"
  have lay: "fl_body_end layout = ?h + n" "fl_total_length layout = ?h + n + 7" and max: "?h + n + 7 \<le> fc_max_message_size c"
    using scan unfolding src(1) scan_complete[OF src(2-4)] by (auto simp: Let_def split: if_splits)
  define body trailer where "body = take n rest" and "trailer = take 7 (drop n rest)"
  have l: "length body = n" "length trailer = 7"
    using len lay(2) src(1) by (simp_all add: body_def trailer_def)
  have parts: "src = (header_bytes bs ds @ body) @ trailer @ drop (n + 7) rest"
    unfolding src(1) body_def trailer_def by (simp add: append_take_drop_id add.commute[of n 7] flip: drop_drop)
  let ?span = "header_bytes bs ds @ body"
  have be: "fl_body_end layout = length ?span" "fl_total_length layout = length ?span + 7" using lay l(1) by simp_all
  have ne: "?span \<noteq> []" by (simp add: header_bytes_def)
  from take obtain cs s where r: "last ?span = SOH" "trailer = CHECKSUM_PREFIX @ cs @ [SOH]" "length cs = 3"
    "parse_checksum cs = Some s" "fc_validate_checksum c \<longrightarrow> s = calculate_checksum ?span"
    "fr = ?span @ trailer" "c' = c" "src' = drop (n + 7) rest"
    unfolding be parts take_frame_Some[OF ne l(2)] by blast
  have mx: "length fr \<le> fc_max_message_size c" using max l r(6) by simp
  have "stream_frame c fr"
    unfolding stream_frame_def MAX_HEADER_LEN_def
    using r src(2-4) l(1) mx
    by (intro exI[of _ bs] exI[of _ ds] exI[of _ body] exI[of _ cs] exI[of _ s]) auto
  with r parts show ?thesis by simp
qed

lemma codec_decode_complete:
  assumes "fc_resync_state c = Settled" "stream_fits c fr"
  shows "codec_decode memchr c (fr @ rest) = (Inr (Some fr), c, rest)"
proof -
  have "decode_one memchr c (fr @ rest) = (Inr (Some fr), c, rest)"
    using assms(2) by (simp add: stream_fits_def decode_one_complete)
  then have "decode_turn memchr c (fr @ rest) = Inr (Inr (Some fr), c, rest)"
    using assms(1) by (simp add: decode_turn_def decode_attempt_def flip: assms(1))
  then show ?thesis by (subst codec_decode.simps) simp
qed

lemma codec_decode_waits:
  assumes "fc_resync_state c = Settled" "decode_one memchr c part = (Inr None, c, part)"
  shows "codec_decode memchr c part = (Inr None, c, part)"
  using assms by (subst codec_decode.simps) (simp add: decode_turn_def decode_attempt_def)

end

sublocale memchr_law \<subseteq> fix_stream:
  frame_stream "codec_decode memchr" id "\<lambda>c. fc_resync_state c = Settled" stream_fits
proof unfold_locales
  fix c :: fix_codec and fr rest part missing :: bytes
  show "stream_fits c fr \<Longrightarrow> id fr \<noteq> []" by (auto simp: stream_fits_def MIN_FRAME_LEN_def)
  assume settled: "fc_resync_state c = Settled"
  show "stream_fits c fr \<Longrightarrow> codec_decode memchr c (id fr @ rest) = (Inr (Some fr), c, rest)"
    using codec_decode_complete[OF settled] by simp
  show "stream_fits c fr \<Longrightarrow> part @ missing = id fr \<Longrightarrow> missing \<noteq> [] \<Longrightarrow>
      codec_decode memchr c part = (Inr None, c, part)"
    by (intro codec_decode_waits[OF settled]) (auto simp: stream_fits_def intro: decode_one_partial)
  show "codec_decode memchr c [] = (Inr None, c, [])"
    using codec_decode_waits[OF settled] by (simp add: decode_one_def MIN_FRAME_LEN_def)
qed

end
