(* ===== verification/Transport_Recovery.thy ===== *)
theory Transport_Recovery
  imports Transport_Stream "HOL-Library.Sublist" Tag_Value_Roundtrip
begin

text \<open>
  The decoding loop with and without garbled-frame recovery: what it hands out, what it
  consumes, what it counts, and when it gives up.
\<close>

lemma unat_bound: "unat w < 2 ^ LENGTH('w)" for w :: "'w::len word"
  by (rule unsigned_less)

definition codec_config :: "fix_codec \<Rightarrow> usize \<times> bool \<times> bool \<times> bytes list" where
  "codec_config c = (fc_max_message_size c, fc_validate_checksum c, fc_garbled_recovery c, fc_recovery_anchors c)"

lemma codec_config_simps [simp]:
  "codec_config (c\<lparr>fc_resync_state := s\<rparr>) = codec_config c"
  "codec_config (c\<lparr>fc_garbled_count := n\<rparr>) = codec_config c"
  by (simp_all add: codec_config_def)

lemma stream_frame_config: "codec_config c' = codec_config c \<Longrightarrow> stream_frame c' fr \<longleftrightarrow> stream_frame c fr"
  by (simp add: codec_config_def stream_frame_def)

lemma recovery_config: "codec_config c' = codec_config c \<Longrightarrow> fc_garbled_recovery c' = fc_garbled_recovery c"
  by (simp add: codec_config_def)

text \<open>What every step of the codec keeps: the configuration, the count and the order of the bytes.\<close>

definition codec_keeps :: "fix_codec \<Rightarrow> bytes \<Rightarrow> fix_codec \<Rightarrow> bytes \<Rightarrow> bool" where
  "codec_keeps c src c' src' \<longleftrightarrow>
     codec_config c' = codec_config c \<and> fc_garbled_count c' = fc_garbled_count c \<and> suffix src' src"

lemma codec_keeps_refl [simp]: "codec_keeps c src c src" by (simp add: codec_keeps_def)

lemma resync_keeps_codec: "codec_keeps c src (fst (resync mc c src)) (snd (resync mc c src))"
  by (simp add: resync_def codec_keeps_def Let_def suffix_drop)

lemma codec_keeps_drop: "codec_keeps c src c (drop n src)" by (simp add: codec_keeps_def suffix_drop)

lemma reject_keeps:
  "codec_keeps c src (fst (snd (reject_header mc e c src))) (snd (snd (reject_header mc e c src)))"
  "codec_keeps c src (fst (snd (reject_trailer mc e n c src))) (snd (snd (reject_trailer mc e n c src)))"
  by (simp_all add: reject_header_def reject_trailer_def resync_keeps_codec codec_keeps_drop split: codec_error.split)

lemma decode_one_keeps: "codec_keeps c src (fst (snd (decode_one mc c src))) (snd (snd (decode_one mc c src)))"
  unfolding decode_one_def take_frame_def
  by (simp add: resync_keeps_codec reject_keeps codec_keeps_drop split: sum.split option.split)

lemma judge_keeps:
  "codec_keeps c src (fst (snd (judge_resync_start mc c src))) (snd (snd (judge_resync_start mc c src)))"
  using resync_keeps_codec[of c src mc]
  by (simp add: judge_resync_start_def Let_def case_prod_beta codec_keeps_def)

lemma record_skip_cases:
  assumes "record_skip before e c src = (r, c', src')"
  shows "codec_config c' = codec_config c \<and> suffix src' src
    \<and> (case r of Inl e' \<Rightarrow> e' = e \<and> c' = c \<and> unat (fc_garbled_count c) = 2 ^ 64 - 1
                | Inr _ \<Rightarrow> unat (fc_garbled_count c') = unat (fc_garbled_count c) + 1)"
proof (cases "checked_add (fc_garbled_count c) 1")
  case None
  then have "unat (fc_garbled_count c) = 2 ^ 64 - 1"
    using unat_bound[of "fc_garbled_count c"] by (auto simp: checked_add_def split: if_splits)
  with None assms show ?thesis by (auto simp: record_skip_def)
next
  case (Some n)
  with assms have "r = Inr ()" "c' = c\<lparr>fc_garbled_count := n\<rparr>" "src' = drop 1 src \<or> src' = src"
    by (auto simp: record_skip_def)
  moreover have "suffix src' src" using calculation(3) suffix_drop[of 1 src] by auto
  ultimately show ?thesis using unat_checked_add[OF Some] by simp
qed

text \<open>What a call may return, from a codec and a buffer.\<close>

definition codec_outcome ::
  "fix_codec \<Rightarrow> bytes \<Rightarrow> (codec_error + bytes option) \<times> fix_codec \<times> bytes \<Rightarrow> bool" where
  "codec_outcome c src res \<longleftrightarrow> (case res of (r, c', src') \<Rightarrow>
     codec_config c' = codec_config c \<and> suffix src' src
     \<and> unat (fc_garbled_count c) \<le> unat (fc_garbled_count c')
     \<and> (\<not> fc_garbled_recovery c \<longrightarrow> fc_garbled_count c' = fc_garbled_count c)
     \<and> (case r of
          Inl e \<Rightarrow> fc_garbled_recovery c \<and> is_recoverable e \<longrightarrow> unat (fc_garbled_count c') = 2 ^ 64 - 1
        | Inr None \<Rightarrow> True
        | Inr (Some fr) \<Rightarrow> stream_frame c fr \<and> fc_resync_state c' = Settled
            \<and> (\<exists>skipped. src = skipped @ fr @ src' \<and> (fc_garbled_recovery c \<or> skipped = []))))"

text \<open>Going round again loses nothing of that.\<close>

lemma codec_outcome_step:
  assumes "codec_outcome c1 src1 res" "codec_config c1 = codec_config c" "suffix src1 src"
    and "unat (fc_garbled_count c) \<le> unat (fc_garbled_count c1)" "fc_garbled_recovery c"
  shows "codec_outcome c src res"
proof -
  obtain r c' src' where res: "res = (r, c', src')" by (metis prod_cases3)
  obtain dropped where d: "src = dropped @ src1" using assms(3) by (auto simp: suffix_def)
  have "suffix src' src" if "suffix src' src1" using that assms(3) by (rule suffix_order.order_trans)
  then show ?thesis
    using assms(1,2,4,5) recovery_config[OF assms(2)] stream_frame_config[OF assms(2)] d
    unfolding codec_outcome_def res
    by (auto split: sum.splits option.splits)
qed

context memchr_law
begin

lemma decode_attempt_outcome:
  assumes "decode_attempt memchr c src = Inr res"
  shows "codec_outcome c src res"
proof -
  obtain r1 c1 src1 where d: "decode_one memchr c src = (r1, c1, src1)" by (metis prod_cases3)
  have k: "codec_config c1 = codec_config c" "fc_garbled_count c1 = fc_garbled_count c" "suffix src1 src"
    using decode_one_keeps[of c src memchr] by (simp_all add: d codec_keeps_def)
  show ?thesis
  proof (cases r1)
    case (Inr fr)
    then show ?thesis
      using assms(1) d k decode_one_sound[of c src _ c1 src1] by (cases fr) (auto simp: decode_attempt_def codec_outcome_def)
  next
    case (Inl e)
    show ?thesis
    proof (cases "fc_garbled_recovery c \<and> is_recoverable e")
      case False
      then show ?thesis
        using assms(1) d k recovery_config[OF k(1)] Inl by (auto simp: decode_attempt_def codec_outcome_def)
    next
      case True
      obtain r2 c2 src2 where s: "record_skip (length src) e c1 src1 = (r2, c2, src2)" by (metis prod_cases3)
      then have r2: "res = (Inl e, c2, src2)" "unat (fc_garbled_count c2) = 2 ^ 64 - 1" "c2 = c1"
        using assms(1) d True recovery_config[OF k(1)] Inl record_skip_cases[OF s]
        by (auto simp: decode_attempt_def split: sum.splits)
      moreover have "suffix src2 src" using record_skip_cases[OF s] k(3) by (blast intro: suffix_order.order_trans)
      ultimately show ?thesis using k True by (simp add: codec_outcome_def)
    qed
  qed
qed

lemma decode_attempt_again:
  assumes "decode_attempt memchr c src = Inl (c2, src2)"
  shows "fc_garbled_recovery c \<and> codec_config c2 = codec_config c \<and> suffix src2 src
    \<and> unat (fc_garbled_count c2) = unat (fc_garbled_count c) + 1"
proof -
  obtain r1 c1 src1 where d: "decode_one memchr c src = (r1, c1, src1)" by (metis prod_cases3)
  have k: "codec_config c1 = codec_config c" "fc_garbled_count c1 = fc_garbled_count c" "suffix src1 src"
    using decode_one_keeps[of c src memchr] by (simp_all add: d codec_keeps_def)
  from assms d obtain e where e: "r1 = Inl e" by (cases r1) (auto simp: decode_attempt_def split: option.splits)
  with assms d obtain u where s: "record_skip (length src) e c1 src1 = (Inr u, c2, src2)" and rec: "fc_garbled_recovery c1"
    by (auto simp: decode_attempt_def split: if_splits prod.splits sum.splits)
  show ?thesis
    using record_skip_cases[OF s] k rec recovery_config[OF k(1)] by (auto intro: suffix_order.order_trans)
qed

lemma decode_turn_outcome: "decode_turn memchr c src = Inr res \<Longrightarrow> codec_outcome c src res"
proof (cases "fc_garbled_recovery c \<and> fc_resync_state c \<noteq> Settled")
  case False
  assume "decode_turn memchr c src = Inr res"
  then have "decode_attempt memchr c src = Inr res" unfolding decode_turn_def if_not_P[OF False] .
  then show ?thesis by (rule decode_attempt_outcome)
next
  case True
  assume t: "decode_turn memchr c src = Inr res"
  obtain v c0 src0 where j: "judge_resync_start memchr c src = (v, c0, src0)" by (metis prod_cases3)
  have k: "codec_config c0 = codec_config c" "fc_garbled_count c0 = fc_garbled_count c" "suffix src0 src"
    using judge_keeps[of c src memchr] by (simp_all add: j codec_keeps_def)
  show ?thesis
  proof (cases v)
    case SpanProceed
    with t j True have "decode_attempt memchr c0 src0 = Inr res" by (simp add: decode_turn_def)
    then have "codec_outcome c0 src0 res" by (rule decode_attempt_outcome)
    with k True show ?thesis by (auto intro: codec_outcome_step)
  qed (use t j True k in \<open>auto simp: decode_turn_def codec_outcome_def\<close>)
qed

lemma decode_turn_again:
  assumes "decode_turn memchr c src = Inl (c2, src2)"
  shows "fc_garbled_recovery c \<and> codec_config c2 = codec_config c \<and> suffix src2 src
    \<and> unat (fc_garbled_count c) \<le> unat (fc_garbled_count c2)"
proof (cases "fc_garbled_recovery c \<and> fc_resync_state c \<noteq> Settled")
  case False
  have "decode_attempt memchr c src = Inl (c2, src2)" using assms unfolding decode_turn_def if_not_P[OF False] .
  then show ?thesis using decode_attempt_again[of c src c2 src2] by simp
next
  case True
  obtain v c0 src0 where j: "judge_resync_start memchr c src = (v, c0, src0)" by (metis prod_cases3)
  have k: "codec_config c0 = codec_config c" "fc_garbled_count c0 = fc_garbled_count c" "suffix src0 src"
    using judge_keeps[of c src memchr] by (simp_all add: j codec_keeps_def)
  show ?thesis
  proof (cases v)
    case SpanProceed
    with assms j True have "decode_attempt memchr c0 src0 = Inl (c2, src2)" by (simp add: decode_turn_def)
    then show ?thesis
      using decode_attempt_again[of c0 src0 c2 src2] k True suffix_order.order_trans by fastforce
  qed (use assms j True k in \<open>auto simp: decode_turn_def\<close>)
qed

lemma codec_decode_outcome: "codec_outcome c src (codec_decode memchr c src)"
proof (induction "length src" arbitrary: c src rule: less_induct)
  case less
  show ?case
  proof (cases "decode_turn memchr c src")
    case (Inr res)
    then show ?thesis using decode_turn_outcome[OF Inr] by (subst codec_decode.simps) simp
  next
    case (Inl again)
    obtain c2 src2 where a: "again = (c2, src2)" by fastforce
    then have t: "decode_turn memchr c src = Inl (c2, src2)" using Inl by simp
    have "codec_outcome c2 src2 (codec_decode memchr c2 src2)"
      by (rule less.hyps[OF decode_turn_shrinks[OF t]])
    then have "codec_outcome c src (codec_decode memchr c2 src2)"
      using decode_turn_again[OF t] by (auto intro: codec_outcome_step)
    then show ?thesis using t by (subst codec_decode.simps) simp
  qed
qed

end


text \<open>
  Encoder, stream codec and decoder together: frames the encoder finishes fit the stream codec,
  so they survive any cutting of the stream and decode to what was written.
\<close>

lemma no_empty_msg_type: "msg_type_new [] \<noteq> Inr t"
proof -
  have "row_of_code msg_type_table [] = None" by code_simp
  then show ?thesis by (simp add: msg_type_new_def custom_msg_type_new_def)
qed

context encoding
begin

lemma itoa_35: "2 \<le> length (itoa 35)"
proof (rule ccontr)
  assume "\<not> 2 \<le> length (itoa 35)"
  then have "(10 :: nat) ^ length (itoa 35) \<le> 10 ^ 1" by (intro power_increasing) auto
  moreover have "(35 :: nat) < 10 ^ length (itoa 35)" using dec_val_lt[OF itoa_digits[of 35]] itoa_value[of 35] by simp
  ultimately show False by simp
qed

lemma last_body: "fs \<noteq> [] \<Longrightarrow> last (body_bytes itoa fs) = SOH"
  by (induction fs rule: rev_induct) (simp_all add: field_bytes_def)

lemma finished_fits:
  assumes fin: "finished memchr itoa bs ps = Inr frame"
    and len: "length (body_bytes itoa (written_fields itoa ps)) < 10 ^ 10"
    and max: "length frame \<le> fc_max_message_size c"
  shows "stream_fits c frame"
proof -
  let ?fs = "written_fields itoa ps"
  let ?body = "body_bytes itoa ?fs" and ?ds = "itoa (length (body_bytes itoa (written_fields itoa ps)))"
  let ?sum = "calculate_checksum (header_bytes bs ?ds @ ?body)"
  have "length ?body \<le> usize_max" using len by (simp add: usize_max_def)
  with fin finish_iff have bs: "begin_string_allowed bs" and ok: "\<forall>p\<in>set ps. put_allowed itoa p"
    and first: "?fs \<noteq> []" "f_tag (hd ?fs) = 35" and frame: "frame = frame_of itoa bs ?fs" by blast+
  have fr: "frame = header_bytes bs ?ds @ ?body @ CHECKSUM_PREFIX @ format_checksum ?sum @ [SOH]"
    by (simp add: frame frame_of_def Let_def prefix_bytes)
  have soh: "SOH \<notin> set bs" using bs by (auto simp: begin_string_allowed_def is_ascii_graphic_def word_le_nat_alt)
  have pl: "parse_body_length ?ds = Some (length ?body)"
    using itoa_digits itoa_value itoa_nonempty itoa_length[OF len] by (simp add: parse_body_length_iff)
  have bl: "1 \<le> length bs" "length bs \<le> 16"
    using bs by (auto simp: begin_string_allowed_def BEGIN_STRING_MAX_LEN_def Suc_le_eq)
  have dl: "1 \<le> length ?ds" "length ?ds \<le> 10"
    using itoa_nonempty[of "length ?body"] itoa_length[OF len] by (simp_all add: Suc_le_eq)
  obtain f gs where fs: "?fs = f # gs" "f_tag f = 35" using first by (cases ?fs) auto
  have "f_val f \<noteq> []"
    using written_tags(2)[OF ok, of f] fs no_empty_msg_type by (auto simp: is_ok_iff)
  then have "5 \<le> length ?body"
    using itoa_35 unfolding fs(1) by (cases "f_val f") (simp_all add: field_bytes_def fs(2))
  moreover have cs: "length (format_checksum ?sum) = 3" by (rule length_format_checksum)
  ultimately have "20 \<le> length frame" using bl dl unfolding fr by (simp add: length_header_bytes prefix_bytes)
  moreover have "length (header_bytes bs ?ds) \<le> 64" using bl dl by (simp add: length_header_bytes)
  then have "stream_frame c frame"
    unfolding stream_frame_def MAX_HEADER_LEN_def
    using fr soh pl last_body[OF first(1)] cs parse_format_checksum[of ?sum] max by blast
  ultimately show ?thesis by (simp add: stream_fits_def MIN_FRAME_LEN_def)
qed

lemma frames_delivered:
  assumes "list_all2 (\<lambda>(bs, ps) frame. finished memchr itoa bs ps = Inr frame
      \<and> length (body_bytes itoa (written_fields itoa ps)) < 10 ^ 10 \<and> length frame \<le> fc_max_message_size c) msgs frames"
    and "concat chunks = concat frames" "fc_resync_state c = Settled"
  shows "pump (codec_decode memchr) c [] chunks = (frames, None, c, [])"
proof -
  have "list_all (stream_fits c) frames"
    using assms(1) by (induction rule: list_all2_induct) (auto intro: finished_fits)
  then show ?thesis
    by (intro fix_stream.stream_delivered) (use assms(2,3) in simp_all)
qed

end

end
