(* ===== verification/Wire_Properties.thy ===== *)
theory Wire_Properties
  imports Tag_Value_Properties Fast_Presence Fast_Dictionary Sofh Transport_Recovery
begin

text \<open>
  The properties of the stream codecs and of the FAST encoding, each with a witness at concrete
  bytes: the FIX stream codec, the Simple Open Framing Header, FAST fields and presence maps.
\<close>

subsection \<open>The FIX stream codec\<close>

text \<open>
  C2. A stream of frames arrives whole: take any messages the encoder finishes within the
  codec's size limit, concatenate their frames and cut the bytes into chunks in any way.  A
  settled codec, fed chunk by chunk, hands out exactly those frames in order, ends with an empty
  buffer and an unchanged state, and the decoder returns of each frame the fields written.
\<close>
theorem stream_delivers_messages:
  assumes "memchr_law mc" and "itoa_law it" and "fc_resync_state c = Settled"
    and "fc_max_message_size c \<le> usize_max"
    and "list_all2 (\<lambda>(bs, ps) frame. finished mc it bs ps = Inr frame
      \<and> length (body_bytes it (written_fields it ps)) < 10 ^ 10 \<and> length frame \<le> fc_max_message_size c) msgs frames"
    and "concat pieces = concat frames"
  shows "pump (codec_decode mc) c [] pieces = (frames, None, c, [])
     \<and> list_all2 (\<lambda>(bs, ps) frame. \<exists>ty. fst (decode mc (decoder_new frame))
          = Inr (framed_message it bs (written_fields it ps) ty)) msgs frames"
proof
  show "pump (codec_decode mc) c [] pieces = (frames, None, c, [])"
    by (rule encoding.frames_delivered[OF encoding.intro[OF assms(1,2)] assms(5,6,3)])
  have "finished mc it bs ps = Inr frame \<Longrightarrow> length (body_bytes it (written_fields it ps)) < 10 ^ 10
      \<Longrightarrow> length frame \<le> fc_max_message_size c
      \<Longrightarrow> \<exists>ty. fst (decode mc (decoder_new frame)) = Inr (framed_message it bs (written_fields it ps) ty)"
    for bs ps frame
    using encoding.encode_decode[OF encoding.intro[OF assms(1,2)], of bs ps frame "[]"] assms(4) by auto
  then show "list_all2 (\<lambda>(bs, ps) frame. \<exists>ty. fst (decode mc (decoder_new frame))
          = Inr (framed_message it bs (written_fields it ps) ty)) msgs frames"
    by (intro list_all2_mono[OF assms(5)]) auto
qed

theorem stream_delivers_messages_witness:
  "pump (codec_decode find_byte) fix_codec_new [] [take 11 sample_frame, drop 11 sample_frame]
     = ([sample_frame], None, fix_codec_new, [])
   \<and> (\<exists>ty. fst (decode find_byte (decoder_new sample_frame)) = Inr (framed_message dec_bytes fix44 sample_fields ty))"
  using stream_delivers_messages[OF byte_search.memchr_law_axioms decimal_printer.itoa_law_axioms,
      of fix_codec_new "[(fix44, sample_puts)]" "[sample_frame]" "[take 11 sample_frame, drop 11 sample_frame]"]
    sample_finished sample_body
  by (simp add: sample_written fix_codec_new_def usize_max_def, simp add: sample_frame_def)

text \<open>
  C14. The stream codec hands out nothing but frames: whatever bytes arrive and whatever state
  the codec is in, a frame it returns has the two header fields, a body of exactly the announced
  length that ends at a field boundary, and a trailer whose sum is the sum of the bytes before
  it when sums are checked; it is within the size limit; the buffer was that frame and the bytes
  that are left, behind bytes that were skipped, and nothing is skipped without recovery.
\<close>
theorem stream_frames_only:
  assumes "memchr_law mc" and "codec_decode mc c src = (Inr (Some fr), c', src')"
  shows "(\<exists>bs ds body cs s. fr = header_bytes bs ds @ body @ CHECKSUM_PREFIX @ cs @ [SOH]
        \<and> SOH \<notin> set bs \<and> parse_body_length ds = Some (length body) \<and> (body = [] \<or> last body = SOH)
        \<and> parse_checksum cs = Some s
        \<and> (\<not> fc_validate_checksum c \<or> s = calculate_checksum (header_bytes bs ds @ body)))
     \<and> length fr \<le> fc_max_message_size c
     \<and> (\<exists>skipped. src = skipped @ fr @ src' \<and> (fc_garbled_recovery c \<or> skipped = []))
     \<and> fc_resync_state c' = Settled \<and> codec_config c' = codec_config c"
proof -
  have "stream_frame c fr \<and> (\<exists>skipped. src = skipped @ fr @ src' \<and> (fc_garbled_recovery c \<or> skipped = []))
      \<and> fc_resync_state c' = Settled \<and> codec_config c' = codec_config c"
    using memchr_law.codec_decode_outcome[OF assms(1), of c src] by (simp add: assms(2) codec_outcome_def)
  then show ?thesis unfolding stream_frame_def by blast
qed

theorem stream_frames_only_witness:
  "length sample_frame \<le> 1024 * 1024"
  using stream_frames_only[OF byte_search.memchr_law_axioms
      byte_search.codec_decode_complete[of fix_codec_new sample_frame "[]"]]
    plain_encoding.finished_fits[OF sample_finished, of fix_codec_new] sample_body
  by (simp add: sample_written fix_codec_new_def, simp add: sample_frame_def)

text \<open>
  C30. Recovery gives up last: with garbled-frame recovery on, an error a resynchronisation can
  repair is returned only when the count of skipped frames can not be raised any more; until
  then the codec skips on.  The count never falls while frames are decoded.
\<close>
theorem recovery_keeps_going:
  assumes "memchr_law mc" and "codec_decode mc c src = (r, c', src')"
  shows "unat (fc_garbled_count c) \<le> unat (fc_garbled_count c') \<and> suffix src' src
     \<and> (case r of Inl e \<Rightarrow> \<not> fc_garbled_recovery c \<or> \<not> is_recoverable e \<or> unat (fc_garbled_count c') = 2 ^ 64 - 1
                | Inr _ \<Rightarrow> True)"
  using memchr_law.codec_decode_outcome[OF assms(1), of c src]
  by (auto simp: assms(2) codec_outcome_def split: sum.splits)

theorem recovery_keeps_going_witness:
  "let (r, c', src') = codec_decode find_byte (with_garbled_recovery True fix_codec_new) (replicate 20 1)
   in suffix src' (replicate 20 1)"
proof -
  obtain r c' src' where d: "codec_decode find_byte (with_garbled_recovery True fix_codec_new) (replicate 20 1) = (r, c', src')"
    by (metis prod_cases3)
  show ?thesis using recovery_keeps_going[OF byte_search.memchr_law_axioms d] d by simp
qed

subsection \<open>Simple Open Framing Header\<close>

text \<open>
  C31. Framed payloads arrive whole: whatever payloads the encoder accepts, however the stream
  of their frames is cut into chunks, the decoder hands out the same payloads with the same
  encoding types, in order, and leaves nothing behind.
\<close>
theorem framed_payloads_delivered:
  assumes "encode_payloads c items [] = (Inr (), wire_bytes)" and "list_all (encoding_ok \<circ> fst) items"
    and "concat pieces = wire_bytes"
  shows "\<exists>fs. pump sofh_step c [] pieces = (fs, None, c, [])
     \<and> map (\<lambda>f. (sh_encoding_type (sf_header f), sf_payload f)) fs = items"
  by (rule stream_of_payloads[OF assms])

lemma sample_sofh: "encode_payloads sofh_codec_new [(EncJson, [1, 2])] [] = (Inr (), [0, 0, 0, 8, 0xF5, 0, 1, 2])"
  by (simp add: encode_payload_def header_for_payload_def sofh_codec_new_def thenS_def liftS_def checked_add_def
   sofh_header_new_def MIN_MESSAGE_LENGTH_def put_frame_def sofh_frame_len_def DEFAULT_MAX_MESSAGE_SIZE_def
   usize_add_def usize_max_def HEADER_LEN_def header_to_bytes_def u16_bytes u32_bytes)

theorem framed_payloads_delivered_witness:
  "\<exists>fs. pump sofh_step sofh_codec_new [] [[0, 0, 0], [8, 0xF5, 0, 1, 2]] = (fs, None, sofh_codec_new, [])
     \<and> map (\<lambda>f. (sh_encoding_type (sf_header f), sf_payload f)) fs = [(EncJson, [1, 2])]"
  by (rule framed_payloads_delivered[OF sample_sofh]) simp_all

subsection \<open>FAST\<close>

text \<open>
  C32. FAST fields round-trip: whatever fields of the eight kinds, present or null, the encoder
  accepts one after the other, behind anything already written, the decoders of the same kinds
  read them back from where they stand, in any larger buffer, and stop right behind them.
\<close>
theorem fast_fields_roundtrip:
  assumes "write_all encode_field fs buf = (Inr (), out)" and "length (out @ post) \<le> usize_max"
  shows "take (length buf) out = buf
     \<and> read_all decode_field (map kind_of fs) (out @ post) (length buf) = (Inr fs, length out)"
proof -
  obtain ext where ext: "out = buf @ ext" "decodes (read_all decode_field (map kind_of fs)) ext fs"
    using fast_all_written[OF assms(1)] by blast
  then show ?thesis using decodesD[OF ext(2), of buf post] assms(2) by simp
qed

lemma sample_septets: "septets 942755 = [0x23, 0x45, 0x39]" "septets (- 64) = [0x40]" "septets 1 = [1]"
  by (simp_all add: septets.simps PAYLOAD_BITS_def drop_bit_eq_div)

lemma sample_fast: "write_all encode_field [UIntField 942755, NullableIntField (Some (- 64)), NullableUIntField None, AsciiField [70, 73], BytesField [255]] [9]
  = (Inr (), [9, 0x39, 0x45, 0xA3, 0xC0, 0x80, 0x46, 0xC9, 0x81, 0xFF])"
  by (simp add: encode_uint_def encode_nullable_int_def encode_nullable_uint_def encode_ascii_def encode_bytes_def
   encode_int_def sample_septets signed_septets_def flush_stop_bit_encoded_def thenS_def liftS_def
   is_ascii_def STOP_BIT_def SIGN_BIT_def)
theorem fast_fields_roundtrip_witness:
  "read_all decode_field [KUInt, KNullableInt, KNullableUInt, KAscii, KBytes]
     [9, 0x39, 0x45, 0xA3, 0xC0, 0x80, 0x46, 0xC9, 0x81, 0xFF, 7] 1
   = (Inr [UIntField 942755, NullableIntField (Some (- 64)), NullableUIntField None, AsciiField [70, 73], BytesField [255]], 10)"
  using fast_fields_roundtrip[OF sample_fast, of "[7]"]
  by (simp add: usize_max_def del: read_all.simps)

text \<open>
  Stop-bit integers are read exactly: an unsigned integer is returned just when a run of at
  most the permitted bytes, only the last with the stop bit, stands at the offset and its seven-bit
  digits have that value, so no value is ever returned modulo a power of two; and a signed
  integer likewise, with the sign taken from the first byte.
\<close>
theorem stop_bit_integers_exact:
  "(decode_uint data off = (Inr v, off') \<longleftrightarrow>
     (\<exists>bs post. drop off data = bs @ post \<and> stop_bit_run bs \<and> length bs \<le> MAX_INT_ENCODED_LEN
        \<and> off' = off + length bs \<and> uint v = run_value 0 bs))
   \<and> (decode_int data off = (Inr w, off'') \<longleftrightarrow>
     (\<exists>bs post. drop off data = bs @ post \<and> stop_bit_run bs \<and> length bs \<le> MAX_INT_ENCODED_LEN
        \<and> off'' = off + length bs \<and> sint w = run_value (sign_start (hd bs)) bs))"
  by (intro conjI decode_uint_iff decode_int_iff)

text \<open>
  Presence maps lose nothing that matters: the encoder drops trailing zero bytes, yet
  walking any list of field operators over the decoded map decides the same transfer for every
  field as over the map that was encoded.
\<close>
theorem presence_map_transfers:
  assumes "pmap_encode pm = Inr bs" and "pm_position pm = 0" and "length (pre @ bs @ post) \<le> usize_max"
  shows "\<exists>pm'. pmap_decode (pre @ bs @ post) (length pre) = (Inr pm', length pre + length bs)
     \<and> fst (transfers fs pm') = fst (transfers fs pm)"
proof -
  obtain bits where b: "decodes pmap_decode bs \<lparr>pm_bits = bits, pm_position = 0\<rparr>" "bit_at bits = bit_at (pm_bits pm)"
    using pmap_encode_decodes[OF assms(1)] by blast
  have "same_view \<lparr>pm_bits = bits, pm_position = 0\<rparr> pm" using b(2) assms(2) by (simp add: same_view_def)
  from transfers_view[OF this, of fs] show ?thesis using decodesD[OF b(1) assms(3)] by force
qed

theorem presence_map_transfers_witness:
  "\<exists>pm'. pmap_decode [0xC0] 0 = (Inr pm', 1)
     \<and> fst (transfers [(OpCopy, False), (OpDefault, True), (OpTail, False)] pm')
       = Inr [TransferStream, TransferInitialValue, TransferDictionary]"
proof -
  have "pmap_encode (pmap_from_bits [True, False, False, False, False, False, False, False, False]) = Inr [0xC0]" by code_simp
  from presence_map_transfers[OF this, of "[]" "[]" "[(OpCopy, False), (OpDefault, True), (OpTail, False)]"] show ?thesis
    by (simp add: pmap_from_bits_def usize_max_def transfers_def transfer_def thenS_def liftS_def next_bit_def get_at_def)
qed

end
