(* ===== verification/Store_Crc.thy ===== *)
theory Store_Crc
  imports Prelude
begin

text \<open>
  CRC-32 as the journal computes it, byte by byte over a table, against the definition of the
  checksum as a shift register fed bit by bit; and what it detects: every burst of damage within
  four bytes.
\<close>

unbundle bit_operations_syntax

definition POLYNOMIAL :: u32 where "POLYNOMIAL = 0xEDB88320"

definition crc_bit :: "u32 \<Rightarrow> u32" where
  "crc_bit crc = (if crc AND 1 = 1 then drop_bit 1 crc XOR POLYNOMIAL else drop_bit 1 crc)"

definition build_table :: "u32 list" where
  "build_table = map (\<lambda>byte. (crc_bit ^^ 8) (word_of_nat byte)) [0..<256]"

definition crc_step :: "u8 \<Rightarrow> u32 \<Rightarrow> u32" where
  "crc_step byte crc = drop_bit 8 crc XOR build_table ! unat ((ucast crc :: u8) XOR byte)"

definition crc32 :: "bytes \<Rightarrow> u32" where
  "crc32 bs = NOT (fold crc_step bs 0xFFFFFFFF)"

subsection \<open>The shift register\<close>

text \<open>The reference: every bit of the message shifted through the register, low bit first.\<close>

definition register_step :: "u8 \<Rightarrow> u32 \<Rightarrow> u32" where
  "register_step byte crc = (crc_bit ^^ 8) (crc XOR ucast byte)"

definition crc32_register :: "bytes \<Rightarrow> u32" where
  "crc32_register bs = NOT (fold register_step bs 0xFFFFFFFF)"

lemma crc_bit_eq: "crc_bit x = drop_bit 1 x XOR (if bit x 0 then POLYNOMIAL else 0)"
  by (simp add: crc_bit_def bit_0 odd_iff_mod_2_eq_one and_one_eq)

lemma crc_bit_xor: "crc_bit (x XOR y) = crc_bit x XOR crc_bit y"
  by (simp add: crc_bit_eq drop_bit_xor bit_xor_iff ac_simps)

lemma crc_bits_xor: "(crc_bit ^^ n) (x XOR y) = (crc_bit ^^ n) x XOR (crc_bit ^^ n) y"
  by (induction n) (simp_all add: crc_bit_xor)

lemma crc_bits_high: "take_bit n x = 0 \<Longrightarrow> (crc_bit ^^ n) x = drop_bit n x"
proof (induction n arbitrary: x)
  case (Suc n)
  then have bits: "\<not> bit x k" if "k < Suc n" for k
    using that by (metis bit_take_bit_iff bit_0_eq bot_apply bot_bool_def)
  have "crc_bit x = drop_bit 1 x" using bits[of 0] by (simp add: crc_bit_eq)
  moreover have "take_bit n (drop_bit 1 x) = 0"
    by (rule bit_eqI) (use bits in \<open>simp add: bit_simps\<close>)
  ultimately have "(crc_bit ^^ n) (crc_bit x) = drop_bit n (drop_bit 1 x)" using Suc.IH by simp
  then show ?case by (simp add: funpow_swap1 add.commute del: funpow.simps add: funpow.simps(2))
qed simp

lemma crc_byte: "(crc_bit ^^ 8) x = drop_bit 8 x XOR (crc_bit ^^ 8) (take_bit 8 x)"
proof -
  define high where "high = x XOR take_bit 8 x"
  have "take_bit 8 high = 0" by (rule bit_eqI) (auto simp: high_def bit_simps)
  then have "(crc_bit ^^ 8) high = drop_bit 8 high" by (rule crc_bits_high)
  also have "drop_bit 8 high = drop_bit 8 x" by (rule bit_eqI) (auto simp: high_def bit_simps)
  finally have "(crc_bit ^^ 8) high = drop_bit 8 x" .
  moreover have "x = high XOR take_bit 8 x" by (simp add: high_def xor.assoc)
  ultimately show ?thesis by (metis crc_bits_xor)
qed

lemma crc_step_register: "crc_step byte crc = register_step byte crc"
proof -
  let ?x = "crc XOR ucast byte" and ?i = "(ucast crc :: u8) XOR byte"
  have small: "bit byte n \<Longrightarrow> n < 8" for n using bit_imp_le_length[of byte n] by simp
  have "unat ?i < 256" by (rule u8_less_256)
  then have "build_table ! unat ?i = (crc_bit ^^ 8) (ucast ?i)" by (simp add: build_table_def)
  also have "ucast ?i = take_bit 8 ?x" by (rule bit_eqI) (auto simp: bit_simps small)
  finally have "crc_step byte crc = drop_bit 8 crc XOR (crc_bit ^^ 8) (take_bit 8 ?x)" by (simp add: crc_step_def)
  moreover have "drop_bit 8 ?x = drop_bit 8 crc" by (rule bit_eqI) (auto simp: bit_simps dest: small)
  ultimately show ?thesis by (simp add: register_step_def crc_byte[of ?x])
qed

lemma crc32_is_register: "crc32 bs = crc32_register bs"
  by (simp add: crc32_def crc32_register_def crc_step_register[abs_def])

subsection \<open>What is detected\<close>

lemma crc_bit_zero: "crc_bit x = 0 \<longleftrightarrow> x = 0"
proof
  assume z: "crc_bit x = 0"
  have "bit POLYNOMIAL 31" by (simp add: POLYNOMIAL_def)
  moreover have "\<not> bit (drop_bit 1 x) 31" using bit_imp_le_length[of x 32] by (auto simp: bit_simps)
  ultimately have "bit (crc_bit x) 31 = bit x 0" by (simp add: crc_bit_eq bit_xor_iff)
  then have b: "\<not> bit x 0" using z by simp
  then have d: "drop_bit 1 x = 0" using z by (simp add: crc_bit_eq)
  show "x = 0"
  proof (rule bit_eqI)
    fix n
    have "\<not> bit (drop_bit 1 x) m" for m using d by simp
    then show "bit x n = bit 0 n" using b by (cases n) (simp_all add: bit_simps)
  qed
qed (simp add: crc_bit_eq)

lemma xor_cancel: "x XOR z = y XOR z \<longleftrightarrow> x = y" for x y z :: "'w::len word"
  by (metis xor.assoc xor_self_eq xor.right_neutral)

lemma crc_bits_inj: "(crc_bit ^^ n) x = (crc_bit ^^ n) y \<longleftrightarrow> x = y"
proof
  assume "(crc_bit ^^ n) x = (crc_bit ^^ n) y"
  then have "(crc_bit ^^ n) (x XOR y) = 0" by (simp add: crc_bits_xor)
  moreover have "(crc_bit ^^ n) z = 0 \<Longrightarrow> z = 0" for z
    by (induction n arbitrary: z) (simp_all add: crc_bit_zero)
  ultimately have "x XOR y = 0" by blast
  then show "x = y" using xor_cancel[of x y y] by simp
qed simp

text \<open>Up to four bytes as a word, the first byte lowest.\<close>

primrec le_word :: "bytes \<Rightarrow> u32" where
  "le_word [] = 0"
| "le_word (b # bs) = ucast b XOR push_bit 8 (le_word bs)"

lemma bit_le_word: "bit (le_word bs) n \<longleftrightarrow> n < 32 \<and> n div 8 < length bs \<and> bit (bs ! (n div 8)) (n mod 8)"
proof (induction bs arbitrary: n)
  case (Cons b bs)
  have small: "bit b n \<Longrightarrow> n < 8" using bit_imp_le_length[of b n] by simp
  show ?case
  proof (cases "n < 8")
    case True
    then show ?thesis by (auto simp: bit_simps)
  next
    case False
    then obtain k where n: "n = 8 + k" by (metis add.commute le_Suc_ex not_less)
    then have "n div 8 = Suc (k div 8)" "n mod 8 = k mod 8" by simp_all
    then show ?thesis using small False Cons.IH[of k] by (auto simp: n bit_simps)
  qed
qed simp

lemma le_word_inj: "length xs = length ys \<Longrightarrow> length xs \<le> 4 \<Longrightarrow> le_word xs = le_word ys \<Longrightarrow> xs = ys"
proof (rule nth_equalityI)
  fix i
  assume len: "length xs = length ys" "length xs \<le> 4" and eq: "le_word xs = le_word ys" and i: "i < length xs"
  show "xs ! i = ys ! i"
  proof (rule bit_eqI)
    fix n
    assume "possible_bit TYPE(8 word) n"
    then have n: "n < 8" by simp
    have "bit (le_word xs) (8 * i + n) = bit (le_word ys) (8 * i + n)" by (simp add: eq)
    moreover have "(8 * i + n) div 8 = i" "(8 * i + n) mod 8 = n" "8 * i + n < 32" using n i len by auto
    ultimately show "bit (xs ! i) n = bit (ys ! i) n" using i len by (simp add: bit_le_word)
  qed
qed

lemma register_le_word:
  "length bs \<le> 4 \<Longrightarrow> fold register_step bs s = (crc_bit ^^ (8 * length bs)) (s XOR le_word bs)"
proof (induction bs arbitrary: s)
  case (Cons b bs)
  have "take_bit 8 (push_bit 8 (le_word bs)) = 0" by (rule bit_eqI) (auto simp: bit_simps)
  moreover have "drop_bit 8 (push_bit 8 (le_word bs)) = le_word bs"
    by (rule bit_eqI) (use Cons.prems in \<open>auto simp: bit_simps bit_le_word\<close>)
  ultimately have shift: "(crc_bit ^^ 8) (push_bit 8 (le_word bs)) = le_word bs" by (simp add: crc_bits_high)
  have "fold register_step (b # bs) s = (crc_bit ^^ (8 * length bs)) (register_step b s XOR le_word bs)"
    using Cons by simp
  also have "register_step b s XOR le_word bs = (crc_bit ^^ 8) (s XOR le_word (b # bs))"
    by (simp add: register_step_def shift crc_bits_xor xor.assoc)
  finally show ?case by (simp add: funpow_add[symmetric, THEN fun_cong, simplified o_apply] add.commute)
qed simp

lemma register_step_inj: "register_step b s = register_step b t \<longleftrightarrow> s = t"
  by (simp add: register_step_def crc_bits_inj xor_cancel)

lemma fold_register_inj: "fold register_step bs s = fold register_step bs t \<longleftrightarrow> s = t"
  by (induction bs arbitrary: s t) (simp_all add: register_step_inj)

lemma crc32_burst:
  assumes "length xs = length ys" "length xs \<le> 4" "crc32 (pre @ xs @ post) = crc32 (pre @ ys @ post)"
  shows "xs = ys"
proof -
  let ?s = "fold register_step pre 0xFFFFFFFF"
  have "fold register_step xs ?s = fold register_step ys ?s"
    using assms(3) by (simp add: crc32_is_register crc32_register_def fold_register_inj)
  then have "?s XOR le_word xs = ?s XOR le_word ys"
    using assms(1,2) by (simp add: register_le_word crc_bits_inj)
  then have "le_word xs = le_word ys" by (simp add: xor.commute[of ?s] xor_cancel)
  then show ?thesis using assms(1,2) by (intro le_word_inj)
qed

end
