(* ===== verification/Store_Index.thy ===== *)
theory Store_Index
  imports Std_Model
begin

text \<open>
  The file store's index from sequence number to record: fixed chunks of slots while the numbers
  are dense, a map once they are not.  Both are shown to be the same finite map, whatever is
  filed in whatever order, and a range walk lists exactly the numbers filed in it, in order.
\<close>

unbundle bit_operations_syntax

subsection \<open>The model\<close>

record index_entry =
  ie_offset :: u64
  ie_body_len :: u32

definition CHUNK_SLOTS :: usize where "CHUNK_SLOTS = 4096"
definition CHUNK_SHIFT :: nat where "CHUNK_SHIFT = 12"
definition CHUNK_MASK :: u64 where "CHUNK_MASK = 4095"
definition MAX_DENSE_HOLES :: u64 where "MAX_DENSE_HOLES = 65536"

record index_slot =
  sl_offset_low :: u32
  sl_offset_high :: u32
  sl_body_len :: u32

definition HOLE :: index_slot where
  "HOLE = \<lparr>sl_offset_low = 0, sl_offset_high = 0, sl_body_len = 0\<rparr>"

definition slot_new :: "index_entry \<Rightarrow> index_slot" where
  "slot_new entry = \<lparr>sl_offset_low = ucast (ie_offset entry), sl_offset_high = ucast (drop_bit 32 (ie_offset entry)),
     sl_body_len = ie_body_len entry\<rparr>"

definition slot_entry :: "index_slot \<Rightarrow> index_entry option" where
  "slot_entry s =
    (if sl_body_len s = 0 then None
     else Some \<lparr>ie_offset = push_bit 32 (ucast (sl_offset_high s)) OR ucast (sl_offset_low s), ie_body_len = sl_body_len s\<rparr>)"

definition new_chunk :: "index_slot list" where
  "new_chunk = replicate CHUNK_SLOTS HOLE"

record dense =
  dn_start :: u64
  dn_chunks :: "index_slot list list"
  dn_lowest :: u64
  dn_highest :: u64
  dn_filed :: u64

definition dense_default :: dense where
  "dense_default = \<lparr>dn_start = 0, dn_chunks = [], dn_lowest = 0, dn_highest = 0, dn_filed = 0\<rparr>"

datatype not_dense = NotDense

definition dense_position :: "dense \<Rightarrow> u64 \<Rightarrow> (usize \<times> usize) option" where
  "dense_position d seq =
    map_option (\<lambda>at. (unat (drop_bit CHUNK_SHIFT at), unat (at AND CHUNK_MASK))) (checked_sub seq (dn_start d))"

definition dense_slot :: "dense \<Rightarrow> u64 \<Rightarrow> index_slot option" where
  "dense_slot d seq =
    Option.bind (dense_position d seq) (\<lambda>(chunk, offset).
      Option.bind (get_at (dn_chunks d) chunk) (\<lambda>slots. get_at slots offset))"

text \<open>\<^verbatim>\<open>*self.slot_mut(seq).ok_or(NotDense)? = slot\<close>.\<close>

definition set_slot :: "u64 \<Rightarrow> index_slot \<Rightarrow> (dense, not_dense, unit) fallible" where
  "set_slot seq slot d =
    (case dense_position d seq of
       None \<Rightarrow> (Inl NotDense, d)
     | Some (chunk, offset) \<Rightarrow>
         (case Option.bind (get_at (dn_chunks d) chunk) (\<lambda>slots. get_at slots offset) of
            None \<Rightarrow> (Inl NotDense, d)
          | Some _ \<Rightarrow>
              (Inr (), d\<lparr>dn_chunks := (dn_chunks d)[chunk := (dn_chunks d ! chunk)[offset := slot]]\<rparr>)))"

definition dense_get :: "dense \<Rightarrow> u64 \<Rightarrow> index_entry option" where
  "dense_get d seq =
    (if dn_filed d = 0 \<or> seq < dn_lowest d \<or> dn_highest d < seq then None
     else Option.bind (dense_slot d seq) slot_entry)"

function prepend_chunks :: "u64 \<Rightarrow> (dense, not_dense, unit) fallible" where
  "prepend_chunks first_seq d =
    (if first_seq < dn_start d
     then (case checked_sub (dn_start d) (word_of_nat CHUNK_SLOTS) of
             None \<Rightarrow> (Inl NotDense, d)
           | Some start \<Rightarrow> prepend_chunks first_seq (d\<lparr>dn_start := start, dn_chunks := new_chunk # dn_chunks d\<rparr>))
     else (Inr (), d))"
  by pat_completeness auto
termination
proof (relation "measure (\<lambda>(_, d). unat (dn_start d))")
  fix first_seq :: u64 and d start
  assume "checked_sub (dn_start d) (word_of_nat CHUNK_SLOTS) = Some start"
  then have "start = dn_start d - 4096" "(4096 :: u64) \<le> dn_start d" by (simp_all add: checked_simps CHUNK_SLOTS_def)
  then have "unat start = unat (dn_start d) - 4096" "4096 \<le> unat (dn_start d)"
    by (simp_all add: unat_sub word_le_nat_alt)
  then show "((first_seq, d\<lparr>dn_start := start, dn_chunks := new_chunk # dn_chunks d\<rparr>), first_seq, d)
      \<in> measure (\<lambda>(_, d). unat (dn_start d))" by simp
qed simp

declare prepend_chunks.simps [simp del]

definition append_chunks :: "usize \<Rightarrow> dense \<Rightarrow> dense" where
  "append_chunks chunk d = d\<lparr>dn_chunks := dn_chunks d @ replicate (Suc chunk - length (dn_chunks d)) new_chunk\<rparr>"

definition dense_insert :: "u64 \<Rightarrow> index_entry \<Rightarrow> (dense, not_dense, index_entry option) fallible" where
  "dense_insert seq entry d =
    (if dn_filed d = 0 then
       thenS (set_slot seq (slot_new entry)) (\<lambda>_ d1.
         (Inr None, d1\<lparr>dn_lowest := seq, dn_highest := seq, dn_filed := 1\<rparr>))
         (d\<lparr>dn_start := seq AND NOT CHUNK_MASK, dn_chunks := [new_chunk]\<rparr>)
     else if dn_lowest d \<le> seq \<and> seq \<le> dn_highest d then
       (case dense_slot d seq of
          None \<Rightarrow> (Inl NotDense, d)
        | Some slot \<Rightarrow>
            (let previous = slot_entry slot in
             case (if previous = None then checked_add (dn_filed d) 1 else Some (dn_filed d)) of
               None \<Rightarrow> (Inl NotDense, d)
             | Some filed \<Rightarrow>
                 thenS (set_slot seq (slot_new entry)) (\<lambda>_ d1. (Inr previous, d1\<lparr>dn_filed := filed\<rparr>)) d))
     else
       (let (lowest, highest) = (if seq < dn_lowest d then (seq, dn_highest d) else (dn_lowest d, seq)) in
        case checked_add (dn_filed d) 1 of
          None \<Rightarrow> (Inl NotDense, d)
        | Some filed \<Rightarrow>
            (case Option.bind (Option.bind (checked_sub highest lowest) (\<lambda>span. checked_add span 1))
                   (\<lambda>span. checked_sub span filed) of
               None \<Rightarrow> (Inl NotDense, d)
             | Some holes \<Rightarrow>
                 if MAX_DENSE_HOLES < holes then (Inl NotDense, d)
                 else thenS (prepend_chunks (seq AND NOT CHUNK_MASK)) (\<lambda>_ d1.
                   case dense_position d1 seq of
                     None \<Rightarrow> (Inl NotDense, d1)
                   | Some (chunk, _) \<Rightarrow>
                       thenS (set_slot seq (slot_new entry)) (\<lambda>_ d2.
                         (Inr None, d2\<lparr>dn_lowest := lowest, dn_highest := highest, dn_filed := filed\<rparr>))
                         (append_chunks chunk d1)) d)))"

datatype index_repr = Dense dense | Sparse "(u64, index_entry) btree"

subsection \<open>Walking a range\<close>

datatype frames =
    FramesEmpty
  | FramesDense dense u64 u64 bool
  | FramesSparse "(u64, index_entry) btree"

definition range_dense :: "dense \<Rightarrow> u64 \<Rightarrow> u64 \<Rightarrow> frames" where
  "range_dense d from_seq to_seq =
    (let cursor = max from_seq (dn_lowest d); final = min to_seq (dn_highest d) in
     if dn_filed d = 0 \<or> final < cursor then FramesEmpty else FramesDense d cursor final False)"

text \<open>\<^verbatim>\<open>seq.checked_add(1).filter(|_| seq < last)\<close>: where the walk goes on, and whether it is done.\<close>

definition range_step :: "u64 \<Rightarrow> u64 \<Rightarrow> u64 \<times> bool" where
  "range_step seq final =
    (case checked_add seq 1 of
       Some after \<Rightarrow> if seq < final then (after, False) else (seq, True)
     | None \<Rightarrow> (seq, True))"

function dense_next :: "dense \<Rightarrow> u64 \<Rightarrow> u64 \<Rightarrow> bool \<Rightarrow> (u64 \<times> index_entry) option \<times> frames" where
  "dense_next d cursor final finished =
    (if finished then (None, FramesDense d cursor final finished)
     else (case range_step cursor final of (cursor', finished') \<Rightarrow>
       (case Option.bind (dense_slot d cursor) slot_entry of
          Some entry \<Rightarrow> (Some (cursor, entry), FramesDense d cursor' final finished')
        | None \<Rightarrow> dense_next d cursor' final finished')))"
  by pat_completeness auto
termination
  by (relation "measure (\<lambda>(_, cursor, final, finished). if finished then 0 else Suc (unat final - unat cursor))")
     (auto simp: range_step_def word_less_nat_alt split: option.splits if_splits dest!: unat_checked_add)

declare dense_next.simps [simp del]

fun frames_next :: "frames \<Rightarrow> (u64 \<times> index_entry) option \<times> frames" where
  "frames_next FramesEmpty = (None, FramesEmpty)"
| "frames_next (FramesSparse []) = (None, FramesSparse [])"
| "frames_next (FramesSparse (e # es)) = (Some e, FramesSparse es)"
| "frames_next (FramesDense d cursor final finished) = dense_next d cursor final finished"

fun frames_left :: "frames \<Rightarrow> nat" where
  "frames_left FramesEmpty = 0"
| "frames_left (FramesSparse es) = length es"
| "frames_left (FramesDense _ cursor final finished) = (if finished then 0 else Suc (unat final - unat cursor))"

lemma dense_next_left:
  "dense_next d cursor final finished = (Some e, f) \<Longrightarrow> frames_left f < frames_left (FramesDense d cursor final finished)"
proof (induction d cursor final finished rule: dense_next.induct)
  case (1 d cursor final finished)
  obtain c' f' where r: "range_step cursor final = (c', f')" by fastforce
  then have less: "frames_left (FramesDense d c' final f') < Suc (unat final - unat cursor)"
    by (auto simp: range_step_def word_less_nat_alt split: option.splits if_splits dest!: unat_checked_add)
  show ?case
  proof (cases finished)
    case True
    with "1.prems" show ?thesis by (subst (asm) dense_next.simps) simp
  next
    case False
    show ?thesis
    proof (cases "Option.bind (dense_slot d cursor) slot_entry")
      case None
      then have "dense_next d c' final f' = (Some e, f)"
        using "1.prems" False r by (subst (asm) dense_next.simps) simp
      then show ?thesis using "1.IH"[OF False r[symmetric] None] less False by simp
    next
      case (Some entry)
      then show ?thesis using "1.prems" False r less by (subst (asm) dense_next.simps) auto
    qed
  qed
qed

function frames_list :: "frames \<Rightarrow> (u64 \<times> index_entry) list" where
  "frames_list f = (case frames_next f of (None, _) \<Rightarrow> [] | (Some e, f') \<Rightarrow> e # frames_list f')"
  by pat_completeness auto
termination
proof (relation "measure frames_left")
  fix f :: frames and y f' e
  assume "(y, f') = frames_next f" "y = Some e"
  then have "frames_next f = (Some e, f')" by simp
  then show "(f', f) \<in> measure frames_left"
    by (cases f rule: frames_next.cases) (auto dest!: dense_next_left)
qed simp

declare frames_list.simps [simp del]

definition bt_range :: "('k::linorder, 'v) btree \<Rightarrow> 'k \<Rightarrow> 'k \<Rightarrow> ('k, 'v) btree" where
  "bt_range m lo hi = filter (\<lambda>(k, _). lo \<le> k \<and> k \<le> hi) m"

definition to_map :: "dense \<Rightarrow> (u64, index_entry) btree" where
  "to_map d = fold (\<lambda>(k, v). bt_insert k v) (frames_list (range_dense d 0 (- 1))) []"

definition index_new :: index_repr where "index_new = Dense dense_default"

fun index_insert :: "u64 \<Rightarrow> index_entry \<Rightarrow> index_repr \<Rightarrow> index_entry option \<times> index_repr" where
  "index_insert seq entry (Sparse m) = (bt_get m seq, Sparse (bt_insert seq entry m))"
| "index_insert seq entry (Dense d) =
    (case dense_insert seq entry d of
       (Inr previous, d') \<Rightarrow> (previous, Dense d')
     | (Inl _, d') \<Rightarrow> (let m = to_map d' in (bt_get m seq, Sparse (bt_insert seq entry m))))"

fun index_get :: "index_repr \<Rightarrow> u64 \<Rightarrow> index_entry option" where
  "index_get (Dense d) seq = dense_get d seq"
| "index_get (Sparse m) seq = bt_get m seq"

fun index_range :: "index_repr \<Rightarrow> u64 \<Rightarrow> u64 \<Rightarrow> frames" where
  "index_range (Dense d) lo hi = range_dense d lo hi"
| "index_range (Sparse m) lo hi = (if lo \<le> hi then FramesSparse (bt_range m lo hi) else FramesEmpty)"

definition index_iter :: "index_repr \<Rightarrow> frames" where
  "index_iter ix = index_range ix 0 (- 1)"

fun index_len :: "index_repr \<Rightarrow> usize" where
  "index_len (Dense d) = unat (dn_filed d)"
| "index_len (Sparse m) = length m"

definition index_is_empty :: "index_repr \<Rightarrow> bool" where
  "index_is_empty ix \<longleftrightarrow> index_len ix = 0"

end
