(* ===== verification/Store_Format.thy ===== *)
theory Store_Format
  imports Store_Crc Store_Index Byte_Bits Fix_Core
begin

text \<open>
  The on-disk format of the file store's journal: header, counter slots and records, byte for
  byte.  A \<^verbatim>\<open>Reader\<close> is the bytes it has left; a \<^verbatim>\<open>Writer\<close> is its fixed buffer and the
  number of bytes written.  Lengths and offsets (\<^verbatim>\<open>u64\<close>) are \<open>nat\<close> with the 64-bit bound
  checked where the code checks it; the text of an error is dropped.
\<close>

unbundle bit_operations_syntax

datatype store_error =
    StoreFailed u64
  | RetrieveFailed u64
  | StoreNotFound u64
  | RangeNotAvailable u64 u64
  | StoreInvalidRange u64 u64
  | StoreCorrupted
  | StoreIo
  | StoreTimeout nat

subsection \<open>Little-endian integers\<close>

definition u16_to_le :: "u16 \<Rightarrow> bytes" where "u16_to_le w = rev (be_bytes 2 (unat w))"
definition u32_to_le :: "u32 \<Rightarrow> bytes" where "u32_to_le w = rev (be_bytes 4 (unat w))"
definition u64_to_le :: "u64 \<Rightarrow> bytes" where "u64_to_le w = rev (be_bytes 8 (unat w))"
definition u16_from_le :: "bytes \<Rightarrow> u16" where "u16_from_le bs = word_of_nat (be_value (rev bs))"
definition u32_from_le :: "bytes \<Rightarrow> u32" where "u32_from_le bs = word_of_nat (be_value (rev bs))"
definition u64_from_le :: "bytes \<Rightarrow> u64" where "u64_from_le bs = word_of_nat (be_value (rev bs))"

lemma le_round [simp]:
  "length (u16_to_le a) = 2" "length (u32_to_le b) = 4" "length (u64_to_le c) = 8"
  "u16_from_le (u16_to_le a) = a" "u32_from_le (u32_to_le b) = b" "u64_from_le (u64_to_le c) = c"
proof -
  have "unat a < 256 ^ 2" "unat b < 256 ^ 4" "unat c < 256 ^ 8"
    by (rule order_less_le_trans[OF unsigned_less], simp)+
  then show "length (u16_to_le a) = 2" "length (u32_to_le b) = 4" "length (u64_to_le c) = 8"
    "u16_from_le (u16_to_le a) = a" "u32_from_le (u32_to_le b) = b" "u64_from_le (u64_to_le c) = c"
    by (simp_all add: u16_to_le_def u32_to_le_def u64_to_le_def u16_from_le_def u32_from_le_def u64_from_le_def
        be_value_bytes)
qed

subsection \<open>Reader and writer\<close>

type_synonym 'a reads = "(bytes, store_error, 'a) fallible"

definition rd_take :: "usize \<Rightarrow> bytes reads" where
  "rd_take n rest = (if n \<le> length rest then (Inr (take n rest), drop n rest) else (Inl StoreCorrupted, rest))"

definition rd_u8 :: "u8 reads" where "rd_u8 = thenS (rd_take 1) (\<lambda>bs. liftS (Inr (hd bs)))"
definition rd_u16 :: "u16 reads" where "rd_u16 = thenS (rd_take 2) (\<lambda>bs. liftS (Inr (u16_from_le bs)))"
definition rd_u32 :: "u32 reads" where "rd_u32 = thenS (rd_take 4) (\<lambda>bs. liftS (Inr (u32_from_le bs)))"
definition rd_u64 :: "u64 reads" where "rd_u64 = thenS (rd_take 8) (\<lambda>bs. liftS (Inr (u64_from_le bs)))"
definition rd_rest :: "bytes reads" where "rd_rest rest = (Inr rest, [])"

record byte_writer =
  wr_buffer :: bytes
  wr_at :: usize

definition overwrite :: "usize \<Rightarrow> bytes \<Rightarrow> bytes \<Rightarrow> bytes" where
  "overwrite at bs buffer = take at buffer @ bs @ drop (at + length bs) buffer"

definition writer_new :: "usize \<Rightarrow> byte_writer" where
  "writer_new n = \<lparr>wr_buffer = replicate n 0, wr_at = 0\<rparr>"

definition wr_put :: "bytes \<Rightarrow> byte_writer \<Rightarrow> byte_writer" where
  "wr_put bs w =
    (case usize_add (wr_at w) (length bs) of
       None \<Rightarrow> w
     | Some end \<Rightarrow>
         if end \<le> length (wr_buffer w)
         then w\<lparr>wr_buffer := overwrite (wr_at w) bs (wr_buffer w), wr_at := end\<rparr> else w)"

definition wr_written :: "byte_writer \<Rightarrow> bytes" where
  "wr_written w = take (wr_at w) (wr_buffer w)"

subsection \<open>Constants\<close>

definition MAGIC :: bytes where "MAGIC = bytes_of ''IRFXJRNL''"
definition VERSION :: u16 where "VERSION = 4"
definition JOURNAL_HEADER_LEN :: usize where "JOURNAL_HEADER_LEN = 44"
definition RECORD_HEADER_LEN :: usize where "RECORD_HEADER_LEN = 12"
definition SLOT_OFFSETS :: "nat list" where "SLOT_OFFSETS = [4096, 8192]"
definition DATA_START :: nat where "DATA_START = 12288"
definition PREFIX_LEN :: usize where "PREFIX_LEN = 3 * 4096"
definition SLOT_LEN :: usize where "SLOT_LEN = 52"
definition SLOT_CHECKED_LEN :: usize where "SLOT_CHECKED_LEN = 48"
definition FLAG_RESET_OWED :: u64 where "FLAG_RESET_OWED = 1"
definition KIND_FRAME :: u8 where "KIND_FRAME = 1"
definition KIND_FRAME_AND_SENDER :: u8 where "KIND_FRAME_AND_SENDER = 5"
definition GENERATION_AT :: usize where "GENERATION_AT = 12 + 1 + 8"
definition NANOS_PER_SECOND :: u32 where "NANOS_PER_SECOND = 1000000000"
definition ZERO_CHECK_CHUNK :: usize where "ZERO_CHECK_CHUNK = 4096"

lemmas journal_consts = JOURNAL_HEADER_LEN_def RECORD_HEADER_LEN_def SLOT_OFFSETS_def DATA_START_def PREFIX_LEN_def
  SLOT_LEN_def SLOT_CHECKED_LEN_def GENERATION_AT_def ZERO_CHECK_CHUNK_def

subsection \<open>The header\<close>

text \<open>
  A \<^verbatim>\<open>SystemTime\<close> is the nanoseconds since the Unix epoch, negative before it; its seconds
  are a signed 64-bit number.
\<close>

type_synonym system_time = int

record journal_header =
  jh_creation_time :: system_time
  jh_next_sender :: u64
  jh_next_target :: u64

definition encode_versioned_header :: "journal_header \<Rightarrow> u16 \<Rightarrow> bytes" where
  "encode_versioned_header h version =
    (let since_epoch = (if 0 \<le> jh_creation_time h then jh_creation_time h else 0);
         w = wr_put (u64_to_le (jh_next_target h)) (wr_put (u64_to_le (jh_next_sender h))
              (wr_put (u32_to_le (word_of_int (since_epoch mod 1000000000)))
              (wr_put (u64_to_le (word_of_int (since_epoch div 1000000000)))
              (wr_put (u16_to_le 0) (wr_put (u16_to_le version) (wr_put MAGIC (writer_new JOURNAL_HEADER_LEN)))))));
         crc = crc32 (wr_written w)
     in wr_buffer (wr_put (u32_to_le crc) w))"

definition encode_header :: "journal_header \<Rightarrow> bytes" where
  "encode_header h = encode_versioned_header h VERSION"

text \<open>\<^verbatim>\<open>UNIX_EPOCH.checked_add(Duration::new(secs, nanos))\<close>.\<close>

definition epoch_plus :: "u64 \<Rightarrow> u32 \<Rightarrow> system_time option" where
  "epoch_plus secs nanos = (if uint secs \<le> 2 ^ 63 - 1 then Some (uint secs * 1000000000 + uint nanos) else None)"

definition decode_header :: "bytes \<Rightarrow> store_error + journal_header" where
  "decode_header bs =
    (let checked = take (JOURNAL_HEADER_LEN - 4) bs; crc = drop (JOURNAL_HEADER_LEN - 4) bs in
     bindR (fst (rd_u32 crc)) (\<lambda>declared.
       if crc32 checked \<noteq> declared then Inl StoreCorrupted
       else fst (thenS (rd_take (length MAGIC)) (\<lambda>magic.
         if magic \<noteq> MAGIC then liftS (Inl StoreCorrupted)
         else thenS rd_u16 (\<lambda>version.
           if version \<noteq> VERSION then liftS (Inl StoreCorrupted)
           else thenS rd_u16 (\<lambda>_.
             thenS rd_u64 (\<lambda>secs.
             thenS rd_u32 (\<lambda>nanos.
               if NANOS_PER_SECOND \<le> nanos then liftS (Inl StoreCorrupted)
               else thenS (liftS (ok_or StoreCorrupted (epoch_plus secs nanos))) (\<lambda>creation_time.
                 thenS rd_u64 (\<lambda>next_sender.
                 thenS rd_u64 (\<lambda>next_target.
                   liftS (Inr \<lparr>jh_creation_time = creation_time, jh_next_sender = next_sender,
                              jh_next_target = next_target\<rparr>))))))))) checked)))"

subsection \<open>Counter slots\<close>

record counter_slot =
  cs_generation :: u64
  cs_next_sender :: u64
  cs_next_target :: u64
  cs_durable_end :: u64
  cs_app_watermark :: u64
  cs_reset_owed :: bool

definition encode_slot :: "counter_slot \<Rightarrow> bytes" where
  "encode_slot s =
    (let flags = (if cs_reset_owed s then FLAG_RESET_OWED else 0);
         w = wr_put (u64_to_le flags) (wr_put (u64_to_le (cs_app_watermark s)) (wr_put (u64_to_le (cs_durable_end s))
              (wr_put (u64_to_le (cs_next_target s)) (wr_put (u64_to_le (cs_next_sender s))
              (wr_put (u64_to_le (cs_generation s)) (writer_new SLOT_LEN))))));
         crc = crc32 (wr_written w)
     in wr_buffer (wr_put (u32_to_le crc) w))"

definition decode_slot :: "bytes \<Rightarrow> counter_slot option" where
  "decode_slot bs =
    (let checked = take SLOT_CHECKED_LEN bs; crc = drop SLOT_CHECKED_LEN bs in
     Option.bind (map_option u32_from_le (get_to crc 4)) (\<lambda>declared.
       if crc32 checked \<noteq> declared then None
       else (case thenS rd_u64 (\<lambda>generation. thenS rd_u64 (\<lambda>next_sender. thenS rd_u64 (\<lambda>next_target.
               thenS rd_u64 (\<lambda>durable_end. thenS rd_u64 (\<lambda>app_watermark. thenS rd_u64 (\<lambda>flags.
                 if flags AND NOT FLAG_RESET_OWED \<noteq> 0 then liftS (Inl StoreCorrupted)
                 else liftS (Inr \<lparr>cs_generation = generation, cs_next_sender = next_sender,
                        cs_next_target = next_target, cs_durable_end = durable_end,
                        cs_app_watermark = app_watermark, cs_reset_owed = (flags AND FLAG_RESET_OWED \<noteq> 0)\<rparr>))))))) checked of
               (Inr s, _) \<Rightarrow> Some s
             | (Inl _, _) \<Rightarrow> None)))"

type_synonym slot_images = "bytes \<times> bytes"

definition newest_slot :: "slot_images \<Rightarrow> store_error + (usize \<times> counter_slot)" where
  "newest_slot images =
    (case (decode_slot (fst images), decode_slot (snd images)) of
       (Some a, Some b) \<Rightarrow>
         if cs_generation a < cs_generation b then Inr (1, b)
         else if cs_generation b < cs_generation a \<or> a = b then Inr (0, a)
         else Inl StoreCorrupted
     | (Some a, None) \<Rightarrow> Inr (0, a)
     | (None, Some b) \<Rightarrow> Inr (1, b)
     | (None, None) \<Rightarrow> Inl StoreCorrupted)"

definition fresh_slots ::
  "u64 \<Rightarrow> u64 \<Rightarrow> u64 \<Rightarrow> u64 \<Rightarrow> u64 \<Rightarrow> bool \<Rightarrow> store_error + (slot_images \<times> u64)" where
  "fresh_slots first_gen next_sender next_target durable_end app_watermark reset_owed =
    bindR (ok_or StoreIo (checked_add first_gen 1)) (\<lambda>second.
    bindR (ok_or StoreIo (checked_add second 1)) (\<lambda>next_gen.
      (let slot = (\<lambda>generation. encode_slot \<lparr>cs_generation = generation, cs_next_sender = next_sender,
             cs_next_target = next_target, cs_durable_end = durable_end, cs_app_watermark = app_watermark,
             cs_reset_owed = reset_owed\<rparr>)
       in Inr ((slot first_gen, slot second), next_gen))))"

definition encode_prefix :: "journal_header \<Rightarrow> slot_images \<Rightarrow> bytes" where
  "encode_prefix h images =
    overwrite (SLOT_OFFSETS ! 1) (snd images)
      (overwrite (SLOT_OFFSETS ! 0) (fst images)
        (overwrite 0 (encode_header h) (replicate PREFIX_LEN 0)))"

subsection \<open>Records\<close>

definition encode_frame_record_into ::
  "u64 \<Rightarrow> u64 option \<Rightarrow> msg_type \<Rightarrow> bytes \<Rightarrow> u32 \<Rightarrow> (bytes, store_error, unit) fallible" where
  "encode_frame_record_into seq next_sender msg_type frame max_frame_size record =
    (case (if length frame < 2 ^ 32 \<and> word_of_nat (length frame) \<le> max_frame_size
           then Some (word_of_nat (length frame) :: u32) else None) of
       None \<Rightarrow> (Inl (StoreFailed seq), [])
     | Some frame_len \<Rightarrow>
       (let code = msg_type_as_str msg_type in
        if 256 \<le> length code then (Inl (StoreFailed seq), [])
        else
          (let code_len = (word_of_nat (length code) :: u8);
               fixed = (if next_sender \<noteq> None then 1 + 8 + 16 + 1 else 1 + 8 + 1) in
           case Option.bind (checked_add fixed (ucast code_len)) (\<lambda>len. checked_add len frame_len) of
             None \<Rightarrow> (Inl (StoreFailed seq), [])
           | Some body_len \<Rightarrow>
               (case usize_add (unat body_len) RECORD_HEADER_LEN of
                  None \<Rightarrow> (Inl (StoreFailed seq), [])
                | Some _ \<Rightarrow>
                    (Inr (), u32_to_le body_len @ replicate (RECORD_HEADER_LEN - 4) 0
                       @ (case next_sender of
                            Some next \<Rightarrow> [KIND_FRAME_AND_SENDER] @ u64_to_le seq @ u64_to_le 0 @ u64_to_le next
                          | None \<Rightarrow> [KIND_FRAME] @ u64_to_le seq)
                       @ [code_len] @ code @ frame)))))"

definition takes_generation :: "bytes \<Rightarrow> bool" where
  "takes_generation record \<longleftrightarrow> get_at record RECORD_HEADER_LEN = Some KIND_FRAME_AND_SENDER"

definition seal :: "u32 \<Rightarrow> bytes \<Rightarrow> bytes" where
  "seal body_len record =
    (if RECORD_HEADER_LEN \<le> length record
     then
       (let head = take RECORD_HEADER_LEN record; body = drop RECORD_HEADER_LEN record;
            w = wr_put (u32_to_le (crc32 body)) (wr_put (u32_to_le (NOT body_len))
                 (wr_put (u32_to_le body_len) \<lparr>wr_buffer = head, wr_at = 0\<rparr>))
        in wr_buffer w @ body)
     else record)"

definition record_body_len :: "bytes \<Rightarrow> u32" where
  "record_body_len record = (case get_to record 4 of Some bs \<Rightarrow> u32_from_le bs | None \<Rightarrow> 0)"

definition seal_frame_record :: "u64 \<Rightarrow> bytes \<Rightarrow> bytes" where
  "seal_frame_record generation record =
    (let record' = (if takes_generation record
                    then (case get_range record GENERATION_AT (GENERATION_AT + 8) of
                            Some _ \<Rightarrow> overwrite GENERATION_AT (u64_to_le generation) record
                          | None \<Rightarrow> record)
                    else record)
     in seal (record_body_len record') record')"

record record_body =
  rb_seq :: u64
  rb_counter :: "(u64 \<times> u64) option"
  rb_msg_type :: msg_type
  rb_frame :: bytes

definition decode_body :: "bytes \<Rightarrow> store_error + record_body" where
  "decode_body body =
    fst (thenS rd_u8 (\<lambda>kind.
      if kind \<noteq> KIND_FRAME \<and> kind \<noteq> KIND_FRAME_AND_SENDER then liftS (Inl StoreCorrupted)
      else thenS rd_u64 (\<lambda>seq.
        thenS (if kind = KIND_FRAME_AND_SENDER
               then thenS rd_u64 (\<lambda>generation. thenS rd_u64 (\<lambda>next. liftS (Inr (Some (generation, next)))))
               else liftS (Inr None)) (\<lambda>counter.
        thenS rd_u8 (\<lambda>code_len.
        thenS (rd_take (unat code_len)) (\<lambda>code.
          (case (if utf8_valid code then msg_type_new code else Inl MsgTypeEmpty) of
             Inl _ \<Rightarrow> liftS (Inl StoreCorrupted)
           | Inr ty \<Rightarrow>
               thenS rd_rest (\<lambda>frame.
                 liftS (Inr \<lparr>rb_seq = seq, rb_counter = counter, rb_msg_type = ty, rb_frame = frame\<rparr>)))))))) body)"

end
