(* ===== verification/Store_Scan.thy ===== *)
theory Store_Scan
  imports Store_Format
begin

text \<open>
  Reading a journal back: the replay of its records, the scan with its damage rules and the
  durable boundary, and the positional read of one record.  A reader is the bytes it has left;
  reading past them is the I/O error the code reports.  \<open>scan_step\<close> is one round of the loop of
  \<^verbatim>\<open>scan_records\<close>, whose closure is the argument \<open>record\<close> with its state.
\<close>

unbundle bit_operations_syntax

datatype truncation_cause = Incomplete | Damaged

record truncation =
  tr_offset :: nat
  tr_dropped_bytes :: nat
  tr_cause :: truncation_cause

datatype damage_rule = Tail nat | Anywhere | Salvage

definition read_exact :: "usize \<Rightarrow> bytes reads" where
  "read_exact n rest = (if n \<le> length rest then (Inr (take n rest), drop n rest) else (Inl StoreIo, rest))"

function rest_is_zero :: "bytes \<Rightarrow> nat \<Rightarrow> store_error + bool" where
  "rest_is_zero reader left =
    (if left = 0 then Inr True
     else
       (case read_exact (min left ZERO_CHECK_CHUNK) reader of
          (Inl e, _) \<Rightarrow> Inl e
        | (Inr part, reader') \<Rightarrow>
            if \<exists>b\<in>set part. b \<noteq> 0 then Inr False
            else rest_is_zero reader' (left - min left ZERO_CHECK_CHUNK)))"
  by pat_completeness auto
termination by (relation "measure snd") (auto simp: ZERO_CHECK_CHUNK_def)

declare rest_is_zero.simps [simp del]

definition max_record :: "nat \<Rightarrow> nat" where
  "max_record max_body = 12 + max_body"

definition within_records :: "nat \<Rightarrow> nat \<Rightarrow> nat \<Rightarrow> bool" where
  "within_records remaining records max_body \<longleftrightarrow>
    (case usize_mul records (max_record max_body) of None \<Rightarrow> True | Some window \<Rightarrow> remaining \<le> window)"

definition record_len :: "index_entry \<Rightarrow> nat" where
  "record_len e = 12 + unat (ie_body_len e)"

subsection \<open>Replaying a record\<close>

record replay =
  rp_index :: index_repr
  rp_dead_bytes :: nat
  rp_newest_counter :: "(u64 \<times> u64) option"
  rp_highest_generation :: "u64 option"

definition replay_counter :: "(u64 \<times> u64) option \<Rightarrow> replay \<Rightarrow> replay" where
  "replay_counter counter r =
    (case counter of
       None \<Rightarrow> r
     | Some (generation, next_sender) \<Rightarrow>
         r\<lparr>rp_newest_counter :=
             (if (case rp_newest_counter r of None \<Rightarrow> True | Some (newest, _) \<Rightarrow> newest < generation)
              then Some (generation, next_sender) else rp_newest_counter r),
           rp_highest_generation :=
             Some (case rp_highest_generation r of None \<Rightarrow> generation | Some highest \<Rightarrow> max highest generation)\<rparr>)"

definition replay_record :: "nat \<Rightarrow> u32 \<Rightarrow> bytes \<Rightarrow> (replay, store_error, unit) fallible" where
  "replay_record offset len body r =
    (case decode_body body of
       Inl e \<Rightarrow> (Inl e, r)
     | Inr b \<Rightarrow>
         (let r1 = replay_counter (rb_counter b) r;
              entry = \<lparr>ie_offset = word_of_nat offset, ie_body_len = len\<rparr>
          in case index_insert (rb_seq b) entry (rp_index r1) of
               (None, index) \<Rightarrow> (Inr (), r1\<lparr>rp_index := index\<rparr>)
             | (Some replaced, index) \<Rightarrow>
                 (case usize_add (rp_dead_bytes r1) (record_len replaced) of
                    None \<Rightarrow> (Inl StoreCorrupted, r1\<lparr>rp_index := index\<rparr>)
                  | Some dead \<Rightarrow> (Inr (), r1\<lparr>rp_index := index, rp_dead_bytes := dead\<rparr>))))"

subsection \<open>The scan\<close>

datatype 's scan_outcome =
    ScanErr store_error
  | ScanDone "truncation option" 's
  | ScanAdvance nat bytes 's

definition tail_rule :: "damage_rule \<Rightarrow> bool" where
  "tail_rule rule \<longleftrightarrow> (case rule of Tail _ \<Rightarrow> True | _ \<Rightarrow> False)"

definition record_head :: "bytes \<Rightarrow> store_error + (u32 \<times> u32 \<times> u32)" where
  "record_head header =
    fst (thenS rd_u32 (\<lambda>len. thenS rd_u32 (\<lambda>check. thenS rd_u32 (\<lambda>crc. liftS (Inr (len, check, crc))))) header)"

definition scan_step ::
  "damage_rule \<Rightarrow> nat \<Rightarrow> nat \<Rightarrow> (nat \<Rightarrow> u32 \<Rightarrow> bytes \<Rightarrow> ('s, store_error, unit) fallible)
     \<Rightarrow> nat \<Rightarrow> bytes \<Rightarrow> nat \<Rightarrow> 's \<Rightarrow> 's scan_outcome" where
  "scan_step rule boundary max_body record file_len reader offset st =
    (if file_len < offset then ScanErr StoreCorrupted
     else
      (let remaining = file_len - offset;
           cut = (\<lambda>cause. ScanDone (Some \<lparr>tr_offset = offset, tr_dropped_bytes = remaining, tr_cause = cause\<rparr>));
           durable = (tail_rule rule \<and> offset < boundary)
       in
       if remaining = 0 then ScanDone None st
       else if remaining < RECORD_HEADER_LEN
       then (if durable then ScanErr StoreCorrupted else cut Incomplete st)
       else (case read_exact RECORD_HEADER_LEN reader of
         (Inl e, _) \<Rightarrow> ScanErr e
       | (Inr header, reader1) \<Rightarrow>
        (case record_head header of
          Inl e \<Rightarrow> ScanErr e
        | Inr (len, check, crc) \<Rightarrow>
          if check \<noteq> NOT len
          then
            (if durable then ScanErr StoreCorrupted
             else (case (case rule of
                           Tail records \<Rightarrow>
                             if within_records remaining records max_body then Inr True
                             else if header = replicate RECORD_HEADER_LEN 0
                             then rest_is_zero reader1 (remaining - RECORD_HEADER_LEN)
                             else Inr False
                         | _ \<Rightarrow> Inr True) of
                     Inl e \<Rightarrow> ScanErr e
                   | Inr may_cut \<Rightarrow> if may_cut then cut Damaged st else ScanErr StoreCorrupted))
          else if len = 0 \<or> max_body < unat len
          then (if rule = Salvage then cut Damaged st else ScanErr StoreCorrupted)
          else
            (let record_len = RECORD_HEADER_LEN + unat len in
             if remaining < record_len
             then (if durable then ScanErr StoreCorrupted else cut Incomplete st)
             else (case read_exact (unat len) reader1 of
               (Inl e, _) \<Rightarrow> ScanErr e
             | (Inr body, reader2) \<Rightarrow>
               if crc32 body \<noteq> crc
               then
                 (if durable then ScanErr StoreCorrupted
                  else
                   (let after = remaining - record_len in
                    case (case rule of
                            Tail records \<Rightarrow>
                              if after = 0 \<or> 1 < records \<and> within_records remaining records max_body then Inr True
                              else rest_is_zero reader2 after
                          | _ \<Rightarrow> Inr True) of
                      Inl e \<Rightarrow> ScanErr e
                    | Inr may_cut \<Rightarrow> if may_cut then cut Damaged st else ScanErr StoreCorrupted))
               else
                 (case record offset len body st of
                    (Inr _, st') \<Rightarrow>
                      (case usize_add offset record_len of
                         None \<Rightarrow> ScanErr StoreCorrupted
                       | Some end \<Rightarrow> ScanAdvance end reader2 st')
                  | (Inl _, st') \<Rightarrow> if rule = Salvage then cut Damaged st' else ScanErr StoreCorrupted)))))))"

lemma scan_step_progress:
  assumes "scan_step rule boundary max_body record file_len reader offset st = ScanAdvance end reader' st'"
  shows "offset < end \<and> end \<le> file_len"
  using assms
  by (auto simp: scan_step_def Let_def usize_add_Some RECORD_HEADER_LEN_def split: if_splits prod.splits sum.splits option.splits damage_rule.splits)

function scan_records ::
  "damage_rule \<Rightarrow> nat \<Rightarrow> nat \<Rightarrow> (nat \<Rightarrow> u32 \<Rightarrow> bytes \<Rightarrow> ('s, store_error, unit) fallible)
     \<Rightarrow> nat \<Rightarrow> bytes \<Rightarrow> nat \<Rightarrow> 's \<Rightarrow> store_error + (nat \<times> truncation option \<times> 's)" where
  "scan_records rule boundary max_body record file_len reader offset st =
    (case scan_step rule boundary max_body record file_len reader offset st of
       ScanErr e \<Rightarrow> Inl e
     | ScanDone truncation st' \<Rightarrow> Inr (offset, truncation, st')
     | ScanAdvance end reader' st' \<Rightarrow> scan_records rule boundary max_body record file_len reader' end st')"
  by pat_completeness auto
termination
  by (relation "measure (\<lambda>(_, _, _, _, file_len, _, offset, _). file_len - offset)")
     (auto dest: scan_step_progress)

declare scan_records.simps [simp del]

record scan_result =
  sn_header :: journal_header
  sn_slots :: slot_images
  sn_active :: usize
  sn_index :: index_repr
  sn_next_sender :: u64
  sn_next_target :: u64
  sn_next_generation :: u64
  sn_end :: nat
  sn_truncation :: "truncation option"
  sn_dead_bytes :: nat
  sn_slots_stale :: bool
  sn_boundary :: nat
  sn_reset_owed :: bool
  sn_app_watermark :: u64

definition replay_new :: replay where
  "replay_new = \<lparr>rp_index = index_new, rp_dead_bytes = 0, rp_newest_counter = None, rp_highest_generation = None\<rparr>"

definition slot_image :: "bytes \<Rightarrow> nat \<Rightarrow> bytes option" where
  "slot_image prefix offset =
    Option.bind (usize_sub offset JOURNAL_HEADER_LEN) (\<lambda>start.
    Option.bind (usize_add start SLOT_LEN) (\<lambda>end. get_range prefix start end))"

definition scan_finish ::
  "damage_rule \<Rightarrow> journal_header \<Rightarrow> slot_images \<Rightarrow> usize \<Rightarrow> counter_slot
     \<Rightarrow> nat \<times> truncation option \<times> replay \<Rightarrow> store_error + scan_result" where
  "scan_finish rule header slots active slot =
    (\<lambda>(end, truncation, replay).
      (let boundary = unat (cs_durable_end slot); slots_stale = (end < boundary) in
       if slots_stale \<and> tail_rule rule then Inl StoreCorrupted
       else
        (let next_sender = (case rp_newest_counter replay of
               Some (generation, next_sender) \<Rightarrow>
                 if cs_generation slot < generation then next_sender else cs_next_sender slot
             | None \<Rightarrow> cs_next_sender slot);
             generations = List.map_filter (map_option cs_generation \<circ> decode_slot) [fst slots, snd slots]
               @ (case rp_highest_generation replay of None \<Rightarrow> [] | Some g \<Rightarrow> [g]);
             highest = (case generations of [] \<Rightarrow> cs_generation slot | g # gs \<Rightarrow> fold max gs g)
         in bindR (ok_or StoreCorrupted (checked_add highest 1)) (\<lambda>next_generation.
           Inr \<lparr>sn_header = header, sn_slots = slots, sn_active = active, sn_index = rp_index replay,
                sn_next_sender = next_sender, sn_next_target = cs_next_target slot,
                sn_next_generation = next_generation, sn_end = end, sn_truncation = truncation,
                sn_dead_bytes = rp_dead_bytes replay, sn_slots_stale = slots_stale, sn_boundary = boundary,
                sn_reset_owed = cs_reset_owed slot, sn_app_watermark = cs_app_watermark slot\<rparr>))))"

definition scan_journal :: "bytes \<Rightarrow> nat \<Rightarrow> nat \<Rightarrow> damage_rule \<Rightarrow> store_error + scan_result" where
  "scan_journal reader file_len max_body rule =
    (if file_len < JOURNAL_HEADER_LEN then Inl StoreCorrupted
     else fst (thenS (read_exact JOURNAL_HEADER_LEN) (\<lambda>header_bytes.
       thenS (liftS (decode_header header_bytes)) (\<lambda>header.
       if file_len < DATA_START then liftS (Inl StoreCorrupted)
       else thenS (read_exact (PREFIX_LEN - JOURNAL_HEADER_LEN)) (\<lambda>prefix.
         thenS (liftS (ok_or StoreCorrupted (slot_image prefix (SLOT_OFFSETS ! 0)))) (\<lambda>first_image.
         thenS (liftS (ok_or StoreCorrupted (slot_image prefix (SLOT_OFFSETS ! 1)))) (\<lambda>second_image.
         thenS (liftS (newest_slot (first_image, second_image))) (\<lambda>(active, slot).
           (\<lambda>reader'. (bindR (scan_records rule (unat (cs_durable_end slot)) max_body replay_record file_len reader'
                         DATA_START replay_new)
                       (scan_finish rule header (first_image, second_image) active slot), reader')))))))) reader))"

subsection \<open>Reading one record\<close>

definition read_record_at :: "bytes \<Rightarrow> usize \<Rightarrow> nat \<Rightarrow> bytes option" where
  "read_record_at file n offset = get_range file offset (offset + n)"

record stored_message =
  sm_seq_num :: u64
  sm_msg_type :: msg_type
  sm_payload :: bytes

definition read_record_into :: "bytes \<Rightarrow> u64 \<Rightarrow> index_entry \<Rightarrow> store_error + (bytes \<times> usize \<times> msg_type)" where
  "read_record_into file seq e =
    bindR (ok_or StoreCorrupted (usize_add (unat (ie_body_len e)) RECORD_HEADER_LEN)) (\<lambda>record_len.
    bindR (ok_or StoreCorrupted (read_record_at file record_len (unat (ie_offset e)))) (\<lambda>record.
      if length record < RECORD_HEADER_LEN then Inl StoreCorrupted
      else
        (let head = take RECORD_HEADER_LEN record; body = drop RECORD_HEADER_LEN record in
         bindR (record_head head) (\<lambda>(len, check, crc).
           if len \<noteq> ie_body_len e \<or> check \<noteq> NOT len then Inl StoreCorrupted
           else if crc32 body \<noteq> crc then Inl StoreCorrupted
           else (case decode_body body of
                   Inr b \<Rightarrow>
                     if rb_seq b = seq
                     then bindR (ok_or StoreCorrupted (usize_sub record_len (length (rb_frame b)))) (\<lambda>at.
                            Inr (record, at, rb_msg_type b))
                     else Inl StoreCorrupted
                 | Inl _ \<Rightarrow> Inl StoreCorrupted)))))"

definition read_frame :: "bytes \<Rightarrow> u64 \<Rightarrow> index_entry \<Rightarrow> store_error + stored_message" where
  "read_frame file seq e =
    bindR (read_record_into file seq e) (\<lambda>(record, frame_at, ty).
      Inr \<lparr>sm_seq_num = seq, sm_msg_type = ty, sm_payload = drop frame_at record\<rparr>)"

end
