(* ===== verification/Store_Records.thy ===== *)
theory Store_Records
  imports Store_Format
begin

text \<open>
  What the journal's encoders write and that the decoders read it back: the header, a counter
  slot, a sealed record.
\<close>

subsection \<open>Writing into a fixed buffer\<close>

definition wrote :: "byte_writer \<Rightarrow> nat \<Rightarrow> bytes \<Rightarrow> bool" where
  "wrote w n xs \<longleftrightarrow> length (wr_buffer w) = n \<and> wr_at w = length xs \<and> take (length xs) (wr_buffer w) = xs"

lemma wrote_new: "wrote (writer_new n) n []"
  by (simp add: wrote_def writer_new_def)

lemma wrote_put: "wrote w n xs \<Longrightarrow> length xs + length bs \<le> n \<Longrightarrow> n \<le> 64 \<Longrightarrow> wrote (wr_put bs w) n (xs @ bs)"
  by (auto simp: wrote_def wr_put_def usize_add_def usize_max_def overwrite_def min_def)

lemma wrote_full: "wrote w n xs \<Longrightarrow> length xs = n \<Longrightarrow> wr_buffer w = xs"
  by (auto simp: wrote_def)

lemma wrote_written: "wrote w n xs \<Longrightarrow> wr_written w = xs"
  by (simp add: wrote_def wr_written_def)

lemma magic_length: "length MAGIC = 8" by (simp add: MAGIC_def bytes_of_def)

definition header_fields :: "journal_header \<Rightarrow> bytes" where
  "header_fields h =
    (let t = (if 0 \<le> jh_creation_time h then jh_creation_time h else 0) in
     MAGIC @ u16_to_le VERSION @ u16_to_le 0 @ u64_to_le (word_of_int (t div 1000000000))
       @ u32_to_le (word_of_int (t mod 1000000000)) @ u64_to_le (jh_next_sender h) @ u64_to_le (jh_next_target h))"

lemma length_header_fields: "length (header_fields h) = 40"
  by (simp add: header_fields_def Let_def magic_length)

lemma encode_header_bytes: "encode_header h = header_fields h @ u32_to_le (crc32 (header_fields h))"
proof -
  let ?t = "if 0 \<le> jh_creation_time h then jh_creation_time h else 0"
  let ?w = "wr_put (u64_to_le (jh_next_target h)) (wr_put (u64_to_le (jh_next_sender h))
              (wr_put (u32_to_le (word_of_int (?t mod 1000000000)))
              (wr_put (u64_to_le (word_of_int (?t div 1000000000)))
              (wr_put (u16_to_le 0) (wr_put (u16_to_le VERSION) (wr_put MAGIC (writer_new 44)))))))"
  have w: "wrote ?w 44 (header_fields h)"
    unfolding header_fields_def Let_def append_assoc[symmetric]
    by (intro wrote_put) (rule wrote_put[OF wrote_new, of MAGIC 44, simplified] | simp add: magic_length)+
  from wrote_full[OF wrote_put[OF this, of "u32_to_le (crc32 (header_fields h))"]] show ?thesis
    by (simp add: encode_header_def encode_versioned_header_def Let_def journal_consts wrote_written[OF w] length_header_fields)
qed

definition slot_fields :: "counter_slot \<Rightarrow> bytes" where
  "slot_fields s = u64_to_le (cs_generation s) @ u64_to_le (cs_next_sender s) @ u64_to_le (cs_next_target s)
     @ u64_to_le (cs_durable_end s) @ u64_to_le (cs_app_watermark s)
     @ u64_to_le (if cs_reset_owed s then FLAG_RESET_OWED else 0)"

lemma length_slot_fields: "length (slot_fields s) = 48"
  by (simp add: slot_fields_def)

lemma encode_slot_bytes: "encode_slot s = slot_fields s @ u32_to_le (crc32 (slot_fields s))"
proof -
  let ?w = "wr_put (u64_to_le (if cs_reset_owed s then FLAG_RESET_OWED else 0))
              (wr_put (u64_to_le (cs_app_watermark s)) (wr_put (u64_to_le (cs_durable_end s))
              (wr_put (u64_to_le (cs_next_target s)) (wr_put (u64_to_le (cs_next_sender s))
              (wr_put (u64_to_le (cs_generation s)) (writer_new 52))))))"
  have w: "wrote ?w 52 (slot_fields s)"
    unfolding slot_fields_def append_assoc[symmetric]
    by (intro wrote_put) (rule wrote_put[OF wrote_new, of "u64_to_le (cs_generation s)" 52, simplified] | simp)+
  from wrote_full[OF wrote_put[OF this, of "u32_to_le (crc32 (slot_fields s))"]] show ?thesis
    by (simp add: encode_slot_def Let_def journal_consts wrote_written[OF w] length_slot_fields)
qed

subsection \<open>Reading it back\<close>

lemma rd_simps [simp]:
  "rd_u64 (u64_to_le c @ rest) = (Inr c, rest)" "rd_u32 (u32_to_le b @ rest) = (Inr b, rest)"
  "rd_u16 (u16_to_le a @ rest) = (Inr a, rest)" "rd_u8 (x # rest) = (Inr x, rest)"
  "rd_u64 (u64_to_le c) = (Inr c, [])" "rd_u32 (u32_to_le b) = (Inr b, [])"
  by (simp_all add: rd_u64_def rd_u32_def rd_u16_def rd_u8_def rd_take_def thenS_def liftS_def)

lemma thenS_step [simp]: "m s = (Inr a, s') \<Longrightarrow> thenS m f s = f a s'"
  by (simp add: thenS_def)

lemma rd_take_front [simp]: "length xs = n \<Longrightarrow> rd_take n (xs @ rest) = (Inr xs, rest)"
  by (auto simp: rd_take_def)

lemma then_rd:
  "thenS rd_u64 f (u64_to_le c @ rest) = f c rest" "thenS rd_u8 g (x # rest) = g x rest"
  "thenS rd_rest k rest = k rest []"
  "length xs = n \<Longrightarrow> thenS (rd_take n) k (xs @ rest) = k xs rest"
  "thenS (liftS (Inr a)) h = h a"
  "thenS (thenS m e) h = thenS m (\<lambda>a. thenS (e a) h)"
  by (auto simp: rd_rest_def liftS_def thenS_def fun_eq_iff split: sum.splits prod.splits)

lemma journal_header_roundtrip:
  assumes "0 \<le> jh_creation_time h" "jh_creation_time h < 2 ^ 63 * 1000000000"
  shows "decode_header (encode_header h) = Inr h"
proof -
  let ?t = "jh_creation_time h"
  have "?t div 1000000000 < 2 ^ 63"
  proof (rule ccontr)
    assume "\<not> ?t div 1000000000 < 2 ^ 63"
    then have "2 ^ 63 * 1000000000 \<le> ?t div 1000000000 * 1000000000" by (intro mult_right_mono) simp_all
    also have "\<dots> \<le> ?t" using mult_div_mod_eq[of "1000000000 :: int" ?t] pos_mod_sign[of "1000000000 :: int" ?t]
      by (simp add: mult.commute)
    finally show False using assms(2) by simp
  qed
  then have secs: "0 \<le> ?t div 1000000000" "?t div 1000000000 \<le> 2 ^ 63 - 1" using assms(1) by (simp_all add: pos_imp_zdiv_nonneg_iff)
  then have us: "uint (word_of_int (?t div 1000000000) :: u64) = ?t div 1000000000"
    by (intro word_of_int_inverse[OF refl]) simp_all
  have "?t mod 1000000000 < 1000000000" by simp
  then have un: "uint (word_of_int (?t mod 1000000000) :: u32) = ?t mod 1000000000"
    by (intro word_of_int_inverse[OF refl]) (simp, rule order_less_trans[of _ 1000000000], simp_all)
  have plus: "epoch_plus (word_of_int (?t div 1000000000)) (word_of_int (?t mod 1000000000)) = Some ?t"
    using secs us un by (simp add: epoch_plus_def)
  have small: "\<not> NANOS_PER_SECOND \<le> (word_of_int (?t mod 1000000000) :: u32)"
    by (simp add: word_le_def un NANOS_PER_SECOND_def)
  have parts: "take 40 (encode_header h) = header_fields h" "drop 40 (encode_header h) = u32_to_le (crc32 (header_fields h))"
    using length_header_fields[of h] by (simp_all add: encode_header_bytes)
  show ?thesis
    using assms(1) plus small
    by (simp add: decode_header_def Let_def journal_consts parts)
       (simp add: header_fields_def Let_def magic_length liftS_def)
qed

lemma slot_flags: "(FLAG_RESET_OWED AND NOT FLAG_RESET_OWED) = 0" "FLAG_RESET_OWED \<noteq> 0"
  by (simp_all add: FLAG_RESET_OWED_def)

lemma slot_roundtrip: "decode_slot (encode_slot s) = Some s"
proof -
  have parts: "take 48 (encode_slot s) = slot_fields s" "drop 48 (encode_slot s) = u32_to_le (crc32 (slot_fields s))"
    using length_slot_fields[of s] by (simp_all add: encode_slot_bytes)
  show ?thesis
    by (simp add: decode_slot_def Let_def journal_consts parts get_to_def)
       (simp add: slot_fields_def slot_flags liftS_def)
qed

subsection \<open>Records\<close>

definition body_image :: "record_body \<Rightarrow> bytes" where
  "body_image b =
    (case rb_counter b of
       Some (generation, next) \<Rightarrow> [KIND_FRAME_AND_SENDER] @ u64_to_le (rb_seq b) @ u64_to_le generation @ u64_to_le next
     | None \<Rightarrow> [KIND_FRAME] @ u64_to_le (rb_seq b))
     @ [word_of_nat (length (msg_type_as_str (rb_msg_type b)))] @ msg_type_as_str (rb_msg_type b) @ rb_frame b"

definition record_image :: "bytes \<Rightarrow> bytes" where
  "record_image body = u32_to_le (word_of_nat (length body)) @ u32_to_le (NOT (word_of_nat (length body)))
     @ u32_to_le (crc32 body) @ body"

text \<open>The message types the code can hold are those \<^verbatim>\<open>MsgType::new\<close> makes.\<close>

definition made_type :: "msg_type \<Rightarrow> bool" where
  "made_type ty \<longleftrightarrow> msg_type_new (msg_type_as_str ty) = Inr ty"

lemma made_code:
  assumes "made_type ty"
  shows "length (msg_type_as_str ty) \<le> 8" "utf8_valid (msg_type_as_str ty)"
proof -
  define code where "code = msg_type_as_str ty"
  have "\<exists>t. msg_type_new code = Inr t" using assms by (auto simp: made_type_def code_def)
  then have "length code \<le> 8" and *: "\<forall>b\<in>set code. 32 \<le> b \<and> b \<le> 126"
    unfolding msg_type_new_Inr MSG_TYPE_MAX_LEN_def by simp_all
  moreover have "utf8_valid code"
  proof (rule utf8_valid_ascii)
    fix b assume "b \<in> set code"
    with * have "b \<le> 126" by blast
    then show "b < 128" by (rule order_le_less_trans) simp
  qed
  ultimately show "length (msg_type_as_str ty) \<le> 8" "utf8_valid (msg_type_as_str ty)"
    by (simp_all add: code_def)
qed

lemma decode_body_parts:
  assumes "unat n = length code" "utf8_valid code" "msg_type_new code = Inr ty"
  shows "decode_body (KIND_FRAME # u64_to_le q @ n # code @ frame)
      = Inr \<lparr>rb_seq = q, rb_counter = None, rb_msg_type = ty, rb_frame = frame\<rparr>"
    and "decode_body (KIND_FRAME_AND_SENDER # u64_to_le q @ u64_to_le g @ u64_to_le x @ n # code @ frame)
      = Inr \<lparr>rb_seq = q, rb_counter = Some (g, x), rb_msg_type = ty, rb_frame = frame\<rparr>"
proof -
  have kinds: "KIND_FRAME \<noteq> KIND_FRAME_AND_SENDER" "KIND_FRAME_AND_SENDER \<noteq> KIND_FRAME"
    by (simp_all add: KIND_FRAME_def KIND_FRAME_AND_SENDER_def)
  show "decode_body (KIND_FRAME # u64_to_le q @ n # code @ frame)
      = Inr \<lparr>rb_seq = q, rb_counter = None, rb_msg_type = ty, rb_frame = frame\<rparr>"
    unfolding decode_body_def then_rd(2)
    by (simp only: kinds if_False then_rd assms(1)[symmetric] then_rd(4)[OF assms(1)[symmetric]] simp_thms)
       (simp only: assms(2,3) if_True sum.case then_rd liftS_def fst_conv)
  show "decode_body (KIND_FRAME_AND_SENDER # u64_to_le q @ u64_to_le g @ u64_to_le x @ n # code @ frame)
      = Inr \<lparr>rb_seq = q, rb_counter = Some (g, x), rb_msg_type = ty, rb_frame = frame\<rparr>"
    unfolding decode_body_def then_rd(2)
    by (simp only: kinds if_False if_True then_rd then_rd(4)[OF assms(1)[symmetric]] simp_thms)
       (simp only: assms(2,3) if_True sum.case then_rd liftS_def fst_conv)
qed

lemma body_roundtrip: "made_type (rb_msg_type b) \<Longrightarrow> decode_body (body_image b) = Inr b"
proof -
  assume made: "made_type (rb_msg_type b)"
  let ?code = "msg_type_as_str (rb_msg_type b)"
  have "unat (word_of_nat (length ?code) :: u8) = length ?code"
    using made_code(1)[OF made] by (intro unat_of_nat_small) simp
  note parts = decode_body_parts[OF this made_code(2)[OF made] made[unfolded made_type_def]]
  show ?thesis
    by (cases "rb_counter b") (simp_all add: body_image_def parts split: prod.split)
qed

subsection \<open>Writing a record\<close>

lemma overwrite_exact: "length a = at \<Longrightarrow> length b = length bs \<Longrightarrow> overwrite at bs (a @ b @ c) = a @ bs @ c"
  by (simp add: overwrite_def)

definition unsealed :: "u64 \<Rightarrow> u64 option \<Rightarrow> u64 \<Rightarrow> msg_type \<Rightarrow> bytes \<Rightarrow> record_body" where
  "unsealed seq next_sender generation ty frame =
    \<lparr>rb_seq = seq, rb_counter = map_option (\<lambda>n. (generation, n)) next_sender, rb_msg_type = ty, rb_frame = frame\<rparr>"

lemma length_body_image:
  "length (body_image b) = (if rb_counter b = None then 10 else 26)
     + length (msg_type_as_str (rb_msg_type b)) + length (rb_frame b)"
  by (cases "rb_counter b") (auto simp: body_image_def)

lemma encoded_record:
  assumes "encode_frame_record_into seq nxt ty frame limit rec0 = (Inr (), record)"
  shows "\<exists>len. unat len = length (body_image (unsealed seq nxt 0 ty frame)) \<and> length frame \<le> unat limit
      \<and> record = u32_to_le len @ replicate 8 0 @ body_image (unsealed seq nxt 0 ty frame)"
proof -
  let ?code = "msg_type_as_str ty" and ?fixed = "if nxt \<noteq> None then 1 + 8 + 16 + 1 else 1 + 8 + (1 :: u32)"
  note enc = assms[unfolded encode_frame_record_into_def Let_def]
  have frame: "length frame < 2 ^ 32" "word_of_nat (length frame) \<le> limit"
    using enc by (auto split: if_splits)
  then have ul: "unat (word_of_nat (length frame) :: u32) = length frame"
    by (intro unat_of_nat_small) simp
  have code: "length ?code < 256" using enc frame by (auto split: if_splits)
  then have uc: "unat (ucast (word_of_nat (length ?code) :: u8) :: u32) = length ?code"
    by (simp add: unat_ucast_mod unat_of_nat)
  obtain n len where n: "checked_add ?fixed (ucast (word_of_nat (length ?code) :: u8)) = Some n"
      and len: "checked_add n (word_of_nat (length frame)) = Some len"
    using enc frame code by (auto split: option.splits simp: bind_eq_Some_conv)
  have fixed: "unat ?fixed = (if nxt = None then 10 else 26)" by simp
  have "unat len = length (body_image (unsealed seq nxt 0 ty frame))"
    using unat_checked_add[OF n] unat_checked_add[OF len] uc ul fixed by (simp add: length_body_image unsealed_def)
  moreover have "length frame \<le> unat limit" using frame(2) ul by (simp add: word_le_nat_alt)
  moreover have "record = u32_to_le len @ replicate 8 0 @ body_image (unsealed seq nxt 0 ty frame)"
    using enc frame code n len
    by (cases nxt) (auto simp: body_image_def unsealed_def RECORD_HEADER_LEN_def split: option.splits if_splits)
  ultimately show ?thesis by blast
qed

lemma encode_succeeds:
  assumes "length frame \<le> unat limit" "length frame + 34 < 2 ^ 32" "length (msg_type_as_str ty) \<le> 8"
  shows "\<exists>record. encode_frame_record_into seq nxt ty frame limit rec0 = (Inr (), record)"
proof -
  let ?code = "msg_type_as_str ty" and ?fixed = "if nxt \<noteq> None then 1 + 8 + 16 + 1 else 1 + 8 + (1 :: u32)"
  have ul: "unat (word_of_nat (length frame) :: u32) = length frame"
    using assms(2) by (intro unat_of_nat_small) simp
  then have small: "word_of_nat (length frame) \<le> limit" using assms(1) by (simp add: word_le_nat_alt)
  have uc: "unat (ucast (word_of_nat (length ?code) :: u8) :: u32) = length ?code"
    using assms(3) by (simp add: unat_ucast_mod unat_of_nat)
  have fixed: "unat ?fixed \<le> 26" by simp
  define n where "n = ?fixed + ucast (word_of_nat (length ?code) :: u8)"
  have n: "checked_add ?fixed (ucast (word_of_nat (length ?code) :: u8)) = Some n"
    unfolding n_def using uc fixed assms(3) by (intro checked_add_eq) simp
  define len where "len = n + word_of_nat (length frame)"
  have len: "checked_add n (word_of_nat (length frame)) = Some len"
    unfolding len_def using unat_checked_add[OF n] uc fixed ul assms by (intro checked_add_eq) simp
  have "unat len < 2 ^ 32" by (rule order_less_le_trans[OF unsigned_less]) simp
  then have "usize_add (unat len) RECORD_HEADER_LEN = Some (unat len + 12)"
    by (simp add: usize_add_def usize_max_def RECORD_HEADER_LEN_def)
  then show ?thesis
    using assms ul small n len by (simp add: encode_frame_record_into_def Let_def)
qed

lemma sealed_parts:
  assumes "unat len = length body"
  shows "seal len (u32_to_le len @ replicate 8 0 @ body) = record_image body"
proof -
  have len: "len = word_of_nat (length body)" using assms by (simp add: flip: assms)
  have wr: "wrote \<lparr>wr_buffer = u32_to_le len @ replicate 8 0, wr_at = 0\<rparr> 12 []" by (simp add: wrote_def)
  have "wrote (wr_put (u32_to_le (crc32 body)) (wr_put (u32_to_le (NOT len))
          (wr_put (u32_to_le len) \<lparr>wr_buffer = u32_to_le len @ replicate 8 0, wr_at = 0\<rparr>))) 12
        (([] @ u32_to_le len) @ u32_to_le (NOT len) @ u32_to_le (crc32 body))"
    unfolding append_assoc[symmetric] by (intro wrote_put wr) simp_all
  from wrote_full[OF this] show ?thesis
    by (simp add: seal_def Let_def RECORD_HEADER_LEN_def record_image_def flip: len)
qed

lemma sealed_record:
  assumes "encode_frame_record_into seq nxt ty frame limit rec0 = (Inr (), record)"
  shows "seal_frame_record generation record = record_image (body_image (unsealed seq nxt generation ty frame))"
proof -
  let ?b = "\<lambda>g. body_image (unsealed seq nxt g ty frame)"
  obtain len where len: "unat len = length (?b 0)" and rec: "record = u32_to_le len @ replicate 8 0 @ ?b 0"
    using encoded_record[OF assms] by blast
  have same: "length (?b generation) = length (?b 0)" by (simp add: length_body_image unsealed_def)
  have takes: "takes_generation record \<longleftrightarrow> nxt \<noteq> None"
    by (simp add: takes_generation_def rec get_at_def RECORD_HEADER_LEN_def nth_append body_image_def unsealed_def
        KIND_FRAME_def KIND_FRAME_AND_SENDER_def split: option.split)
  have body_len: "record_body_len (u32_to_le len @ xs) = len" for xs
    by (simp add: record_body_len_def get_to_def)
  have stamped: "(if takes_generation record
                    then (case get_range record GENERATION_AT (GENERATION_AT + 8) of
                            Some _ \<Rightarrow> overwrite GENERATION_AT (u64_to_le generation) record
                          | None \<Rightarrow> record)
                    else record) = u32_to_le len @ replicate 8 0 @ ?b generation"
  proof (cases nxt)
    case None then show ?thesis by (simp add: takes) (simp add: rec unsealed_def body_image_def)
  next
    case (Some n)
    define front where "front = u32_to_le len @ replicate 8 0 @ [KIND_FRAME_AND_SENDER] @ u64_to_le seq"
    define after where "after = u64_to_le n @ [word_of_nat (length (msg_type_as_str ty))] @ msg_type_as_str ty @ frame"
    have image: "u32_to_le len @ replicate 8 0 @ ?b g = front @ u64_to_le g @ after" for g
      by (simp add: front_def after_def body_image_def unsealed_def Some)
    have "overwrite GENERATION_AT (u64_to_le generation) record = front @ u64_to_le generation @ after"
      unfolding rec image by (rule overwrite_exact) (simp_all add: front_def GENERATION_AT_def)
    also have "\<dots> = u32_to_le len @ replicate 8 0 @ ?b generation" by (simp only: image)
    finally show ?thesis using Some takes
      by (simp add: get_range_def rec GENERATION_AT_def length_body_image unsealed_def split: option.split)
  qed
  show ?thesis
    unfolding seal_frame_record_def stamped Let_def body_len by (rule sealed_parts) (simp add: len same)
qed

end
