(* ===== verification/Store_Index_Map.thy ===== *)
theory Store_Index_Map
  imports Store_Index
begin

text \<open>
  The index is a finite map.  A dense index is read through the slots of its chunks laid end to
  end; every operation keeps the invariant and does to that view what a map update does.
\<close>

unbundle bit_operations_syntax

subsection \<open>Lists cut into chunks of one size\<close>

definition uniform :: "nat \<Rightarrow> 'a list list \<Rightarrow> bool" where
  "uniform m cs \<longleftrightarrow> (\<forall>c\<in>set cs. length c = m)"

lemma uniform_simps [simp]:
  "uniform m []" "uniform m (c # cs) \<longleftrightarrow> length c = m \<and> uniform m cs"
  "uniform m (cs @ ds) \<longleftrightarrow> uniform m cs \<and> uniform m ds"
  by (auto simp: uniform_def)

lemma uniform_length: "uniform m cs \<Longrightarrow> length (concat cs) = m * length cs"
  by (induction cs) simp_all

lemma uniform_nth:
  "uniform m cs \<Longrightarrow> 0 < m \<Longrightarrow> k < m * length cs \<Longrightarrow> concat cs ! k = cs ! (k div m) ! (k mod m)"
proof (induction cs arbitrary: k)
  case (Cons c cs)
  show ?case
  proof (cases "k < m")
    case True
    then show ?thesis using Cons.prems by (simp add: nth_append)
  next
    case False
    then obtain j where k: "k = m + j" by (metis le_Suc_ex not_less)
    then have "concat cs ! j = cs ! (j div m) ! (j mod m)" using Cons by simp
    moreover have "(m + j) div m = Suc (j div m)" using div_add_self1[of m j] Cons.prems(2) by simp
    ultimately show ?thesis using Cons.prems False by (simp add: k nth_append)
  qed
qed simp

lemma uniform_update:
  "uniform m cs \<Longrightarrow> 0 < m \<Longrightarrow> k < m * length cs \<Longrightarrow>
     concat (cs[k div m := (cs ! (k div m))[k mod m := x]]) = (concat cs)[k := x]"
proof (induction cs arbitrary: k)
  case (Cons c cs)
  show ?case
  proof (cases "k < m")
    case True
    then show ?thesis using Cons.prems by (simp add: list_update_append)
  next
    case False
    then obtain j where k: "k = m + j" by (metis le_Suc_ex not_less)
    then have "concat (cs[j div m := (cs ! (j div m))[j mod m := x]]) = (concat cs)[j := x]" using Cons by simp
    moreover have "(m + j) div m = Suc (j div m)" using div_add_self1[of m j] Cons.prems(2) by simp
    ultimately show ?thesis using Cons.prems False by (simp add: k list_update_append)
  qed
qed simp

lemma uniform_set:
  "uniform m cs \<Longrightarrow> k < length cs \<Longrightarrow> uniform m (cs[k := (cs ! k)[j := x]])"
  unfolding uniform_def by (metis in_set_conv_nth length_list_update nth_list_update_eq nth_list_update_neq)

subsection \<open>The view of a dense index\<close>

definition flat :: "dense \<Rightarrow> index_slot list" where
  "flat d = concat (dn_chunks d)"

definition entry_at :: "dense \<Rightarrow> nat \<Rightarrow> index_entry option" where
  "entry_at d n =
    (if unat (dn_start d) \<le> n \<and> n - unat (dn_start d) < length (flat d)
     then slot_entry (flat d ! (n - unat (dn_start d))) else None)"

lemma entry_at_cong:
  "dn_start d' = dn_start d \<Longrightarrow> dn_chunks d' = dn_chunks d \<Longrightarrow> entry_at d' = entry_at d"
  by (simp add: entry_at_def fun_eq_iff flat_def)

definition dense_ok :: "dense \<Rightarrow> bool" where
  "dense_ok d \<longleftrightarrow> uniform CHUNK_SLOTS (dn_chunks d)
     \<and> (dn_filed d \<noteq> 0 \<longrightarrow> unat (dn_start d) mod CHUNK_SLOTS = 0
        \<and> dn_start d \<le> dn_lowest d \<and> dn_lowest d \<le> dn_highest d
        \<and> unat (dn_highest d) - unat (dn_start d) < length (flat d)
        \<and> (\<forall>n. entry_at d n \<noteq> None \<longrightarrow> unat (dn_lowest d) \<le> n \<and> n \<le> unat (dn_highest d))
        \<and> unat (dn_filed d) = card {n. entry_at d n \<noteq> None})"

lemma slot_entry_new: "ie_body_len e \<noteq> 0 \<Longrightarrow> slot_entry (slot_new e) = Some e"
proof -
  have "push_bit 32 (ucast (ucast (drop_bit 32 w) :: u32)) OR ucast (ucast w :: u32) = w" for w :: u64
    by (rule bit_eqI) (auto simp: bit_simps dest: bit_imp_le_length)
  then show "ie_body_len e \<noteq> 0 \<Longrightarrow> slot_entry (slot_new e) = Some e"
    by (simp add: slot_entry_def slot_new_def)
qed

lemma slot_entry_hole [simp]: "slot_entry HOLE = None"
  by (simp add: slot_entry_def HOLE_def)

lemma chunk_split: "unat (drop_bit CHUNK_SHIFT w) = unat w div 4096" "unat (w AND CHUNK_MASK) = unat w mod 4096" for w :: u64
proof -
  show "unat (drop_bit CHUNK_SHIFT w) = unat w div 4096"
  proof -
    have "unat w < 2 ^ 64" by (rule order_less_le_trans[OF unsigned_less]) simp
    then show ?thesis
      unfolding CHUNK_SHIFT_def unsigned_drop_bit_eq by (simp add: drop_bit_eq_div take_bit_nat_eq_self)
  qed
  have "w AND CHUNK_MASK = take_bit 12 w" by (simp add: CHUNK_MASK_def take_bit_eq_mask mask_eq_exp_minus_1)
  moreover have "unat (take_bit 12 w) = unat w mod 4096"
    unfolding unsigned_take_bit_eq by (simp add: take_bit_eq_mod)
  ultimately show "unat (w AND CHUNK_MASK) = unat w mod 4096" by simp
qed

lemma chunk_start: "unat (w AND NOT CHUNK_MASK) = unat w - unat w mod 4096" for w :: u64
proof -
  have "(w AND NOT CHUNK_MASK) AND (w AND CHUNK_MASK) = 0" by (rule bit_eqI) (auto simp: bit_simps)
  then have "(w AND NOT CHUNK_MASK) + (w AND CHUNK_MASK) = (w AND NOT CHUNK_MASK) OR (w AND CHUNK_MASK)"
    by (rule disjunctive_add_eq_or)
  also have "\<dots> = w" by (rule bit_eqI) (auto simp: bit_simps)
  finally have "w AND NOT CHUNK_MASK = w - (w AND CHUNK_MASK)" by (simp add: eq_diff_eq)
  moreover have "w AND CHUNK_MASK \<le> w" by (simp add: word_le_nat_alt chunk_split)
  ultimately show ?thesis by (simp add: unat_sub chunk_split)
qed

lemma dense_position_eq:
  "dense_position d seq = (if dn_start d \<le> seq
     then Some ((unat seq - unat (dn_start d)) div 4096, (unat seq - unat (dn_start d)) mod 4096) else None)"
  by (simp add: dense_position_def checked_sub_def chunk_split unat_sub)

lemma dense_slot_eq:
  assumes "uniform CHUNK_SLOTS (dn_chunks d)"
  shows "dense_slot d seq = (if dn_start d \<le> seq \<and> unat seq - unat (dn_start d) < length (flat d)
     then Some (flat d ! (unat seq - unat (dn_start d))) else None)"
proof -
  let ?k = "unat seq - unat (dn_start d)"
  have len: "length (flat d) = 4096 * length (dn_chunks d)"
    using uniform_length[OF assms] by (simp add: flat_def CHUNK_SLOTS_def)
  then have "?k < length (flat d) \<longleftrightarrow> ?k div 4096 < length (dn_chunks d)" by (simp add: less_mult_imp_div_less div_less_iff_less_mult mult.commute)
  moreover have "length (dn_chunks d ! (?k div 4096)) = 4096" if "?k div 4096 < length (dn_chunks d)"
    using assms that by (simp add: uniform_def CHUNK_SLOTS_def)
  ultimately show ?thesis
    using uniform_nth[OF assms, of ?k] len
    by (simp add: dense_slot_def dense_position_eq get_at_def flat_def CHUNK_SLOTS_def)
qed

lemma entry_at_slot:
  "uniform CHUNK_SLOTS (dn_chunks d) \<Longrightarrow> Option.bind (dense_slot d seq) slot_entry = entry_at d (unat seq)"
  by (simp add: dense_slot_eq entry_at_def word_le_nat_alt)

lemma set_slot_eq:
  assumes "uniform CHUNK_SLOTS (dn_chunks d)" "dn_start d \<le> seq" "unat seq - unat (dn_start d) < length (flat d)"
  shows "\<exists>cs. set_slot seq s d = (Inr (), d\<lparr>dn_chunks := cs\<rparr>) \<and> uniform CHUNK_SLOTS cs
     \<and> length (concat cs) = length (flat d)
     \<and> entry_at (d\<lparr>dn_chunks := cs\<rparr>) = (entry_at d)(unat seq := slot_entry s)"
proof -
  let ?k = "unat seq - unat (dn_start d)"
  let ?cs = "(dn_chunks d)[?k div 4096 := (dn_chunks d ! (?k div 4096))[?k mod 4096 := s]]"
  have k: "?k < CHUNK_SLOTS * length (dn_chunks d)" using assms(3) uniform_length[OF assms(1)] by (simp add: flat_def)
  then have kd: "?k div 4096 < length (dn_chunks d)" by (simp add: CHUNK_SLOTS_def div_less_iff_less_mult mult.commute)
  have fl: "concat ?cs = (flat d)[?k := s]"
    using uniform_update[OF assms(1) _ k] by (simp add: flat_def CHUNK_SLOTS_def)
  have "dense_slot d seq \<noteq> None" using dense_slot_eq[OF assms(1)] assms(2,3) by simp
  then have "set_slot seq s d = (Inr (), d\<lparr>dn_chunks := ?cs\<rparr>)"
    using assms(2) by (auto simp: set_slot_def dense_slot_def dense_position_eq)
  moreover have "uniform CHUNK_SLOTS ?cs" using assms(1) kd by (rule uniform_set)
  moreover have "entry_at (d\<lparr>dn_chunks := ?cs\<rparr>) = (entry_at d)(unat seq := slot_entry s)"
    using fl assms(2,3) by (auto simp: entry_at_def flat_def fun_eq_iff word_le_nat_alt nth_list_update)
  moreover have "length (concat ?cs) = length (flat d)" using fl by simp
  ultimately show ?thesis by (intro exI[of _ ?cs]) simp
qed

lemma multiples_apart: "a < b \<Longrightarrow> a mod m = 0 \<Longrightarrow> b mod m = 0 \<Longrightarrow> a + m \<le> b" for a b m :: nat
proof -
  assume a: "a < b" "a mod m = 0" "b mod m = 0"
  then obtain i j where ij: "a = m * i" "b = m * j" by (auto simp: mod_eq_0_iff_dvd elim!: dvdE)
  then have "i < j" using a(1) by simp
  then have "Suc i \<le> j" by simp
  then have "m * Suc i \<le> m * j" by (rule mult_le_mono2)
  then show "a + m \<le> b" by (simp add: ij)
qed

lemma flat_hole: "flat (d\<lparr>dn_start := s, dn_chunks := new_chunk # cs\<rparr>) = replicate 4096 HOLE @ concat cs"
  by (simp add: flat_def new_chunk_def CHUNK_SLOTS_def)

lemma entry_at_front:
  assumes "unat s + 4096 = unat (dn_start d)"
  shows "entry_at (d\<lparr>dn_start := s, dn_chunks := new_chunk # dn_chunks d\<rparr>) = entry_at d"
proof
  fix n
  let ?d = "d\<lparr>dn_start := s, dn_chunks := new_chunk # dn_chunks d\<rparr>"
  show "entry_at ?d n = entry_at d n"
  proof (cases "unat (dn_start d) \<le> n")
    case True
    then obtain j where "n = unat (dn_start d) + j" using le_Suc_ex by blast
    then have "n - unat s = 4096 + j" "unat s \<le> n" "n - unat (dn_start d) = j" using assms by simp_all
    then show ?thesis using True by (simp add: entry_at_def flat_hole flat_def[of d] nth_append)
  next
    case False
    then have "n - unat s < 4096" using assms by linarith
    then show ?thesis using False by (simp add: entry_at_def flat_hole nth_append)
  qed
qed

lemma prepend_chunks_ok:
  "uniform CHUNK_SLOTS (dn_chunks d) \<Longrightarrow> unat first_seq mod 4096 = 0 \<Longrightarrow> unat (dn_start d) mod 4096 = 0 \<Longrightarrow>
     \<exists>s cs. prepend_chunks first_seq d = (Inr (), d\<lparr>dn_start := s, dn_chunks := cs\<rparr>) \<and> uniform CHUNK_SLOTS cs
       \<and> s = (if first_seq < dn_start d then first_seq else dn_start d)
       \<and> entry_at (d\<lparr>dn_start := s, dn_chunks := cs\<rparr>) = entry_at d
       \<and> unat s + length (concat cs) = unat (dn_start d) + length (flat d)"
proof (induction first_seq d rule: prepend_chunks.induct)
  case (1 first_seq d)
  show ?case
  proof (cases "first_seq < dn_start d")
    case False
    then show ?thesis using "1.prems"
      by (intro exI[of _ "dn_start d"] exI[of _ "dn_chunks d"]) (subst prepend_chunks.simps, simp add: flat_def)
  next
    case True
    then have apart: "unat first_seq + 4096 \<le> unat (dn_start d)"
      using multiples_apart[of "unat first_seq" "unat (dn_start d)" 4096] "1.prems" by (simp add: word_less_nat_alt)
    define s where "s = dn_start d - 4096"
    have le: "(4096 :: u64) \<le> dn_start d" using apart by (simp add: word_le_nat_alt)
    then have us: "unat s = unat (dn_start d) - 4096" by (simp add: s_def unat_sub word_le_nat_alt)
    let ?d = "d\<lparr>dn_start := s, dn_chunks := new_chunk # dn_chunks d\<rparr>"
    have sub: "checked_sub (dn_start d) (word_of_nat CHUNK_SLOTS) = Some s"
      using le by (simp add: checked_sub_def CHUNK_SLOTS_def s_def)
    have "unat (dn_start d) = unat s + 4096" using us apart by simp
    then have "unat (dn_start d) mod 4096 = unat s mod 4096" by simp
    then have sm: "unat s mod 4096 = 0" using "1.prems"(3) by simp
    have step: "prepend_chunks first_seq d = prepend_chunks first_seq ?d"
      using True sub by (subst prepend_chunks.simps) simp
    have ent: "entry_at ?d = entry_at d" using us apart by (intro entry_at_front) simp
    have fl: "unat s + length (flat ?d) = unat (dn_start d) + length (flat d)"
      using us apart by (simp add: flat_hole flat_def[of d])
    have u': "uniform CHUNK_SLOTS (dn_chunks ?d)" using "1.prems"(1) by (simp add: new_chunk_def)
    have m': "unat (dn_start ?d) mod 4096 = 0" using sm by simp
    obtain s' cs where
      d': "prepend_chunks first_seq ?d = (Inr (), ?d\<lparr>dn_start := s', dn_chunks := cs\<rparr>)" "uniform CHUNK_SLOTS cs"
        "s' = (if first_seq < dn_start ?d then first_seq else dn_start ?d)"
        "entry_at (?d\<lparr>dn_start := s', dn_chunks := cs\<rparr>) = entry_at ?d"
        "unat s' + length (concat cs) = unat (dn_start ?d) + length (flat ?d)"
      using "1.IH"[OF True sub u' "1.prems"(2) m'] by (elim exE conjE) rule
    have "\<not> first_seq < s \<Longrightarrow> first_seq = s"
      using us apart by (auto simp: word_less_nat_alt intro: word_unat_eq_iff[THEN iffD2])
    then have "s' = first_seq" using d'(3) by auto
    then show ?thesis using d'(1,2,4,5) step ent fl True by (intro exI[of _ s'] exI[of _ cs]) simp
  qed
qed

lemma append_chunks_ok:
  assumes "uniform CHUNK_SLOTS (dn_chunks d)"
  shows "uniform CHUNK_SLOTS (dn_chunks (append_chunks chunk d))" "entry_at (append_chunks chunk d) = entry_at d"
    "4096 * Suc chunk \<le> length (flat (append_chunks chunk d))" "length (flat d) \<le> length (flat (append_chunks chunk d))"
proof -
  let ?n = "Suc chunk - length (dn_chunks d)"
  have fl: "flat (append_chunks chunk d) = flat d @ replicate (4096 * ?n) HOLE"
  proof -
    have "concat (replicate n (replicate 4096 HOLE)) = replicate (4096 * n) HOLE" for n
      by (induction n) (simp_all add: replicate_add[symmetric])
    then show ?thesis by (simp add: flat_def append_chunks_def new_chunk_def CHUNK_SLOTS_def)
  qed
  show "uniform CHUNK_SLOTS (dn_chunks (append_chunks chunk d))"
    using assms by (auto simp: append_chunks_def uniform_def new_chunk_def set_replicate_conv_if)
  show "entry_at (append_chunks chunk d) = entry_at d"
  proof -
    have "dn_start (append_chunks chunk d) = dn_start d" by (simp add: append_chunks_def)
    then show ?thesis by (auto simp: entry_at_def fl fun_eq_iff nth_append)
  qed
  show "length (flat d) \<le> length (flat (append_chunks chunk d))" by (simp add: fl)
  have "length (flat d) = 4096 * length (dn_chunks d)" using uniform_length[OF assms] by (simp add: flat_def CHUNK_SLOTS_def)
  then show "4096 * Suc chunk \<le> length (flat (append_chunks chunk d))" by (simp add: fl)
qed

subsection \<open>Insertion\<close>

lemma dense_get_view: "dense_ok d \<Longrightarrow> dense_get d seq = (if dn_filed d = 0 then None else entry_at d (unat seq))"
  by (cases "entry_at d (unat seq)") (auto simp: dense_get_def dense_ok_def entry_at_slot word_less_nat_alt)

lemma entry_at_finite: "finite {n. entry_at d n \<noteq> None}"
proof (rule finite_subset)
  show "{n. entry_at d n \<noteq> None} \<subseteq> {..unat (dn_start d) + length (flat d)}"
    by (auto simp: entry_at_def split: if_splits)
qed simp

lemma card_update:
  "card {n. (f(k := Some e)) n \<noteq> None} = card {n. f n \<noteq> None} + (if f k = None then 1 else 0)"
  if "finite {n. f n \<noteq> None}"
proof -
  have "{n. (f(k := Some e)) n \<noteq> None} = insert k {n. f n \<noteq> None}" by auto
  then show ?thesis using that by (simp add: card_insert_if)
qed

lemma dense_ok_update:
  assumes "uniform CHUNK_SLOTS (dn_chunks d')" "unat (dn_start d') mod CHUNK_SLOTS = 0"
    and "dn_start d' \<le> dn_lowest d'" "dn_lowest d' \<le> seq" "seq \<le> dn_highest d'"
    and "unat (dn_highest d') - unat (dn_start d') < length (flat d')"
    and "entry_at d' = f(unat seq := Some e)" "finite {n. f n \<noteq> None}"
    and "\<And>n. f n \<noteq> None \<Longrightarrow> unat (dn_lowest d') \<le> n \<and> n \<le> unat (dn_highest d')"
    and "unat (dn_filed d') = card {n. f n \<noteq> None} + (if f (unat seq) = None then 1 else 0)" "dn_filed d' \<noteq> 0"
  shows "dense_ok d' \<and> dense_get d' = (\<lambda>s. f (unat s))(seq \<mapsto> e)"
proof -
  have "unat (dn_filed d') = card {n. entry_at d' n \<noteq> None}"
    using assms(7,10) card_update[OF assms(8)] by simp
  moreover have "\<forall>n. entry_at d' n \<noteq> None \<longrightarrow> unat (dn_lowest d') \<le> n \<and> n \<le> unat (dn_highest d')"
    using assms(4,5,7,9) by (auto simp: word_le_nat_alt)
  moreover have "dn_lowest d' \<le> dn_highest d'" using assms(4,5) by (rule order_trans)
  ultimately have "dense_ok d'" using assms(1-6) by (simp add: dense_ok_def)
  moreover have "dense_get d' = (\<lambda>s. f (unat s))(seq \<mapsto> e)"
    using dense_get_view[OF \<open>dense_ok d'\<close>] assms(7,11) by (auto simp: fun_eq_iff word_unat_eq_iff)
  ultimately show ?thesis ..
qed

definition inserts :: "dense \<Rightarrow> u64 \<Rightarrow> index_entry \<Rightarrow> bool" where
  "inserts d seq e \<longleftrightarrow> (\<exists>d'. dense_insert seq e d = (Inr (dense_get d seq), d') \<and> dense_ok d'
     \<and> dense_get d' = (dense_get d)(seq \<mapsto> e))"

lemma insert_first:
  assumes "dn_filed d = 0" "ie_body_len e \<noteq> 0"
  shows "inserts d seq e"
proof -
  let ?d = "d\<lparr>dn_start := seq AND NOT CHUNK_MASK, dn_chunks := [new_chunk]\<rparr>"
  have st: "unat (dn_start ?d) = unat seq - unat seq mod 4096" by (simp add: chunk_start)
  have fl: "flat ?d = replicate 4096 HOLE" by (simp add: flat_def new_chunk_def CHUNK_SLOTS_def)
  have u: "uniform CHUNK_SLOTS (dn_chunks ?d)" by (simp add: new_chunk_def)
  have le: "dn_start ?d \<le> seq" "unat seq - unat (dn_start ?d) < length (flat ?d)"
    using st by (simp_all add: word_le_nat_alt fl)
  have ent: "entry_at ?d = (\<lambda>_. None)" by (auto simp: entry_at_def fl fun_eq_iff)
  obtain cs where cs: "set_slot seq (slot_new e) ?d = (Inr (), ?d\<lparr>dn_chunks := cs\<rparr>)" "uniform CHUNK_SLOTS cs"
    "length (concat cs) = length (flat ?d)" "entry_at (?d\<lparr>dn_chunks := cs\<rparr>) = (\<lambda>_. None)(unat seq := Some e)"
    using set_slot_eq[OF u le, of "slot_new e"] unfolding ent slot_entry_new[OF assms(2)] by blast
  let ?d' = "?d\<lparr>dn_chunks := cs, dn_lowest := seq, dn_highest := seq, dn_filed := 1\<rparr>"
  have mod: "(unat seq - unat seq mod 4096) mod 4096 = 0" by (metis minus_mod_eq_mult_div mod_mult_self1_is_0)
  have ent': "entry_at ?d' = entry_at (?d\<lparr>dn_chunks := cs\<rparr>)" by (rule entry_at_cong) simp_all
  have "dense_ok ?d' \<and> dense_get ?d' = (\<lambda>s. None)(seq \<mapsto> e)"
    by (rule dense_ok_update[where f = "\<lambda>_. None"])
       (use cs(2-4) st le ent' mod in \<open>simp_all add: CHUNK_SLOTS_def flat_def\<close>)
  moreover have "dense_insert seq e d = (Inr None, ?d')" using assms(1) cs(1) by (simp add: dense_insert_def thenS_def)
  moreover have "dense_get d = (\<lambda>_. None)" using assms(1) by (simp add: dense_get_def fun_eq_iff)
  ultimately show ?thesis by (simp add: inserts_def)
qed

lemma insert_within:
  assumes ok: "dense_ok d" and "dn_filed d \<noteq> 0" "ie_body_len e \<noteq> 0" "dn_lowest d \<le> seq" "seq \<le> dn_highest d"
  shows "dense_insert seq e d = (Inl NotDense, d) \<or> inserts d seq e"
proof -
  have o: "uniform CHUNK_SLOTS (dn_chunks d)" "unat (dn_start d) mod CHUNK_SLOTS = 0" "dn_start d \<le> dn_lowest d"
    "unat (dn_highest d) - unat (dn_start d) < length (flat d)"
    "\<And>n. entry_at d n \<noteq> None \<Longrightarrow> unat (dn_lowest d) \<le> n \<and> n \<le> unat (dn_highest d)"
    "unat (dn_filed d) = card {n. entry_at d n \<noteq> None}"
    using ok assms(2) by (auto simp: dense_ok_def)
  have le: "dn_start d \<le> seq" "unat seq - unat (dn_start d) < length (flat d)"
    using o(3,4) assms(4,5) by (auto simp: word_le_nat_alt)
  obtain cs where cs: "set_slot seq (slot_new e) d = (Inr (), d\<lparr>dn_chunks := cs\<rparr>)" "uniform CHUNK_SLOTS cs"
    "length (concat cs) = length (flat d)" "entry_at (d\<lparr>dn_chunks := cs\<rparr>) = (entry_at d)(unat seq := Some e)"
    using set_slot_eq[OF o(1) le, of "slot_new e"] unfolding slot_entry_new[OF assms(3)] by blast
  obtain s where s: "dense_slot d seq = Some s" using dense_slot_eq[OF o(1)] le by simp
  then have prev: "slot_entry s = entry_at d (unat seq)" using entry_at_slot[OF o(1), of seq] by simp
  show ?thesis
  proof (cases "if slot_entry s = None then checked_add (dn_filed d) 1 else Some (dn_filed d)")
    case None
    then show ?thesis using assms(2,4,5) s by (simp add: dense_insert_def Let_def)
  next
    case (Some filed)
    let ?d' = "d\<lparr>dn_chunks := cs, dn_filed := filed\<rparr>"
    have f: "unat filed = unat (dn_filed d) + (if entry_at d (unat seq) = None then 1 else 0)"
      using Some prev by (auto split: if_splits dest!: unat_checked_add)
    then have "filed \<noteq> 0" using assms(2) by (auto simp: unat_eq_0[symmetric] split: if_splits)
    have ent': "entry_at ?d' = entry_at (d\<lparr>dn_chunks := cs\<rparr>)" by (rule entry_at_cong) simp_all
    have "dense_ok ?d' \<and> dense_get ?d' = (\<lambda>s. entry_at d (unat s))(seq \<mapsto> e)"
      by (rule dense_ok_update[where f = "entry_at d"])
         (use cs(2-4) o assms(4,5) ent' f \<open>filed \<noteq> 0\<close> entry_at_finite[of d] in \<open>simp_all add: flat_def\<close>)
    moreover have "dense_get d = (\<lambda>s. entry_at d (unat s))" using dense_get_view[OF ok] assms(2) by (simp add: fun_eq_iff)
    moreover have "dense_insert seq e d = (Inr (slot_entry s), ?d')"
      using assms(2,4,5) s Some cs(1) by (simp add: dense_insert_def Let_def thenS_def)
    ultimately show ?thesis by (simp add: inserts_def prev)
  qed
qed

lemma insert_outside:
  assumes ok: "dense_ok d" and "dn_filed d \<noteq> 0" "ie_body_len e \<noteq> 0" and out: "seq < dn_lowest d \<or> dn_highest d < seq"
  shows "dense_insert seq e d = (Inl NotDense, d) \<or> inserts d seq e"
proof -
  have o: "uniform CHUNK_SLOTS (dn_chunks d)" "unat (dn_start d) mod CHUNK_SLOTS = 0" "dn_start d \<le> dn_lowest d"
    "dn_lowest d \<le> dn_highest d" "unat (dn_highest d) - unat (dn_start d) < length (flat d)"
    "\<And>n. entry_at d n \<noteq> None \<Longrightarrow> unat (dn_lowest d) \<le> n \<and> n \<le> unat (dn_highest d)"
    "unat (dn_filed d) = card {n. entry_at d n \<noteq> None}"
    using ok assms(2) by (auto simp: dense_ok_def)
  define lo hi where "lo = (if seq < dn_lowest d then seq else dn_lowest d)"
    and "hi = (if seq < dn_lowest d then dn_highest d else seq)"
  have pair: "(if seq < dn_lowest d then (seq, dn_highest d) else (dn_lowest d, seq)) = (lo, hi)"
    by (simp add: lo_def hi_def)
  have not_in: "\<not> (dn_lowest d \<le> seq \<and> seq \<le> dn_highest d)" using out by (auto simp: not_le)
  have lh: "(dn_filed d = 0) = False" "(dn_lowest d \<le> seq \<and> seq \<le> dn_highest d) = False"
    using assms(2) not_in by auto
  note di = dense_insert_def[of seq e d, unfolded lh pair, simplified]
  show ?thesis
  proof (cases "checked_add (dn_filed d) 1")
    case None
    then show ?thesis by (simp add: di)
  next
    case (Some filed)
    show ?thesis
    proof (cases "\<exists>holes. Option.bind (Option.bind (checked_sub hi lo) (\<lambda>span. checked_add span 1))
                   (\<lambda>span. checked_sub span filed) = Some holes \<and> holes \<le> MAX_DENSE_HOLES")
      case False
      then show ?thesis using Some by (auto simp: di not_less split: option.splits)
    next
      case True
      then obtain holes where holes: "Option.bind (Option.bind (checked_sub hi lo) (\<lambda>span. checked_add span 1))
          (\<lambda>span. checked_sub span filed) = Some holes" "\<not> MAX_DENSE_HOLES < holes" by (auto simp: not_less)
      let ?first = "seq AND NOT CHUNK_MASK"
      have mods: "unat ?first mod 4096 = 0" "unat (dn_start d) mod 4096 = 0"
        using o(2) unfolding chunk_start by (metis minus_mod_eq_mult_div mod_mult_self1_is_0, simp add: CHUNK_SLOTS_def)
      from prepend_chunks_ok[OF o(1) mods] obtain st cs where
        p: "prepend_chunks ?first d = (Inr (), d\<lparr>dn_start := st, dn_chunks := cs\<rparr>)" "uniform CHUNK_SLOTS cs"
          "st = (if ?first < dn_start d then ?first else dn_start d)"
          "entry_at (d\<lparr>dn_start := st, dn_chunks := cs\<rparr>) = entry_at d"
          "unat st + length (concat cs) = unat (dn_start d) + length (flat d)" by (elim exE conjE) rule
      have first_le: "?first \<le> seq" by (simp add: word_le_nat_alt chunk_start)
      have st: "st \<le> seq" "st \<le> dn_start d" "unat st mod 4096 = 0"
        using p(3) first_le mods by (auto split: if_splits)
      define d1 where "d1 = d\<lparr>dn_start := st, dn_chunks := cs\<rparr>"
      define chunk where "chunk = (unat seq - unat st) div 4096"
      define d2 where "d2 = append_chunks chunk d1"
      have u1: "uniform CHUNK_SLOTS (dn_chunks d1)" using p(2) by (simp add: d1_def)
      have pos: "dense_position d1 seq = Some (chunk, (unat seq - unat st) mod 4096)"
        using st(1) by (simp add: dense_position_eq d1_def chunk_def)
      have st2: "dn_start d2 = st" by (simp add: d2_def append_chunks_def d1_def)
      note a = append_chunks_ok[OF u1, of chunk, folded d2_def]
      have "unat seq - unat st < 4096 * Suc chunk" by (simp add: chunk_def)
      then have room: "unat seq - unat (dn_start d2) < length (flat d2)" using a(3) unfolding st2 by (rule order_less_le_trans)
      have start_le: "dn_start d2 \<le> seq" using st(1) st2 by simp
      obtain ds where ds: "set_slot seq (slot_new e) d2 = (Inr (), d2\<lparr>dn_chunks := ds\<rparr>)" "uniform CHUNK_SLOTS ds"
        "length (concat ds) = length (flat d2)" "entry_at (d2\<lparr>dn_chunks := ds\<rparr>) = (entry_at d2)(unat seq := Some e)"
        using set_slot_eq[OF a(1) start_le room, of "slot_new e"] unfolding slot_entry_new[OF assms(3)] by blast
      have e2: "entry_at d2 = entry_at d" using a(2) p(4) by (simp add: d1_def)
      let ?d' = "d2\<lparr>dn_chunks := ds, dn_lowest := lo, dn_highest := hi, dn_filed := filed\<rparr>"
      have none: "entry_at d (unat seq) = None" using o(6)[of "unat seq"] out by (force simp: word_less_nat_alt)
      have f: "unat filed = unat (dn_filed d) + 1" using Some by (auto dest!: unat_checked_add)
      then have "filed \<noteq> 0" by auto
      have ent': "entry_at ?d' = entry_at (d2\<lparr>dn_chunks := ds\<rparr>)" by (rule entry_at_cong) simp_all
      have bounds: "lo \<le> seq" "seq \<le> hi" "st \<le> lo" "dn_highest d \<le> hi" "lo \<le> dn_lowest d"
        using st o(3,4) out by (auto simp: lo_def hi_def)
      have "length (flat d1) \<le> length (flat d2)" by (rule a(4))
      then have "unat (dn_highest d) - unat st < length (flat d2)"
        using p(5) o(5) st(2) by (simp add: d1_def flat_def word_le_nat_alt)
      then have hi: "unat hi - unat st < length (concat ds)" using room ds(3) st2 by (simp add: hi_def)
      have "dense_ok ?d' \<and> dense_get ?d' = (\<lambda>s. entry_at d (unat s))(seq \<mapsto> e)"
      proof (rule dense_ok_update[where f = "entry_at d"])
        show "unat (dn_highest ?d') - unat (dn_start ?d') < length (flat ?d')" using hi st2 by (simp add: flat_def)
        show "unat (dn_start ?d') mod CHUNK_SLOTS = 0" using st(3) st2 by (simp add: CHUNK_SLOTS_def)
        show "entry_at ?d' = (entry_at d)(unat seq := Some e)" using ent' ds(4) e2 by simp
        show "unat (dn_filed ?d') = card {n. entry_at d n \<noteq> None} + (if entry_at d (unat seq) = None then 1 else 0)"
          using f o(7) none by simp
        show "unat (dn_lowest ?d') \<le> n \<and> n \<le> unat (dn_highest ?d')" if "entry_at d n \<noteq> None" for n
          using o(6)[OF that] bounds by (simp add: word_le_nat_alt)
      qed (use ds(2) st2 bounds \<open>filed \<noteq> 0\<close> entry_at_finite[of d] in simp_all)
      moreover have "dense_get d = (\<lambda>s. entry_at d (unat s))" using dense_get_view[OF ok] assms(2) by (simp add: fun_eq_iff)
      moreover have "dense_insert seq e d = (Inr None, ?d')"
        using Some holes p(1) pos ds(1)
        by (simp add: di thenS_def d1_def[symmetric] d2_def[symmetric])
      ultimately show ?thesis using none by (simp add: inserts_def)
    qed
  qed
qed

lemma dense_insert_cases:
  "dense_ok d \<Longrightarrow> ie_body_len e \<noteq> 0 \<Longrightarrow> dense_insert seq e d = (Inl NotDense, d) \<or> inserts d seq e"
  using insert_first[of d e seq] insert_within[of d e seq] insert_outside[of d e seq]
  by (cases "dn_filed d = 0"; cases "dn_lowest d \<le> seq \<and> seq \<le> dn_highest d") (auto simp: not_le)

subsection \<open>Walking a range\<close>

text \<open>The entries of a map between two numbers, in order: this determines the list.\<close>

definition listing :: "(u64 \<Rightarrow> 'v option) \<Rightarrow> u64 \<Rightarrow> u64 \<Rightarrow> (u64 \<times> 'v) list \<Rightarrow> bool" where
  "listing f lo hi xs \<longleftrightarrow> sorted_wrt (<) (map fst xs)
     \<and> (\<forall>k v. (k, v) \<in> set xs \<longleftrightarrow> lo \<le> k \<and> k \<le> hi \<and> f k = Some v)"

lemma frames_list_finished: "frames_list (FramesDense d cursor final True) = []"
  by (subst frames_list.simps) (simp add: dense_next.simps)

lemma frames_list_step:
  "frames_list (FramesDense d cursor final False) =
    (case range_step cursor final of (cursor', finished') \<Rightarrow>
       (case Option.bind (dense_slot d cursor) slot_entry of
          Some e \<Rightarrow> (cursor, e) # frames_list (FramesDense d cursor' final finished')
        | None \<Rightarrow> frames_list (FramesDense d cursor' final finished')))"
proof -
  obtain c' f' where r: "range_step cursor final = (c', f')" by fastforce
  show ?thesis
  proof (cases "Option.bind (dense_slot d cursor) slot_entry")
    case None
    then have "frames_next (FramesDense d cursor final False) = frames_next (FramesDense d c' final f')"
      using r by (simp add: dense_next.simps[of _ _ _ False])
    then have "frames_list (FramesDense d cursor final False) = frames_list (FramesDense d c' final f')"
      by (subst (1 2) frames_list.simps) simp
    then show ?thesis using None r by simp
  next
    case (Some e)
    then have "frames_next (FramesDense d cursor final False) = (Some (cursor, e), FramesDense d c' final f')"
      using r by (simp add: dense_next.simps[of _ _ _ False])
    then show ?thesis using Some r by (subst frames_list.simps) simp
  qed
qed

lemma walk_lists:
  "cursor \<le> final \<Longrightarrow> listing (\<lambda>k. Option.bind (dense_slot d k) slot_entry) cursor final
     (frames_list (FramesDense d cursor final False))"
proof (induction "unat final - unat cursor" arbitrary: cursor)
  case 0
  then have "cursor = final" by (simp add: word_le_nat_alt word_unat_eq_iff)
  then have "range_step cursor final = (cursor, True)" by (simp add: range_step_def split: option.split)
  then show ?case using \<open>cursor = final\<close>
    by (subst frames_list_step) (auto simp: frames_list_finished listing_def split: option.split)
next
  case (Suc n)
  then have less: "unat cursor < unat final" by linarith
  moreover have "unat final < 2 ^ 64" by (rule order_less_le_trans[OF unsigned_less]) simp
  ultimately have "unat cursor + 1 < 2 ^ 64" by linarith
  then have add: "checked_add cursor 1 = Some (cursor + 1)" and u: "unat (cursor + 1) = unat cursor + 1"
    by (simp_all add: checked_add_def unat_word_ariths)
  then have r: "range_step cursor final = (cursor + 1, False)" using less by (simp add: range_step_def word_less_nat_alt)
  have IH: "listing (\<lambda>k. Option.bind (dense_slot d k) slot_entry) (cursor + 1) final (frames_list (FramesDense d (cursor + 1) final False))"
    using Suc.hyps(2) u less by (intro Suc.hyps(1)) (simp_all add: word_le_nat_alt)
  have split: "cursor \<le> k \<longleftrightarrow> k = cursor \<or> cursor + 1 \<le> k" for k
    using u by (auto simp: word_le_nat_alt word_unat_eq_iff)
  have after: "cursor < k \<longleftrightarrow> cursor + 1 \<le> k" for k using u by (auto simp: word_le_nat_alt word_less_nat_alt)
  have step: "frames_list (FramesDense d cursor final False) =
      (case Option.bind (dense_slot d cursor) slot_entry of
         Some e \<Rightarrow> (cursor, e) # frames_list (FramesDense d (cursor + 1) final False)
       | None \<Rightarrow> frames_list (FramesDense d (cursor + 1) final False))"
    using frames_list_step[of d cursor final] by (simp only: r prod.case)
  have self: "\<not> cursor + 1 \<le> cursor" using u by (simp add: word_le_nat_alt)
  have firsts: "cursor + 1 \<le> x" if "x \<in> set (map fst (frames_list (FramesDense d (cursor + 1) final False)))" for x
  proof -
    from that obtain v where "(x, v) \<in> set (frames_list (FramesDense d (cursor + 1) final False))" by auto
    then show ?thesis using IH unfolding listing_def by blast
  qed
  show ?case
    using IH Suc.prems self firsts unfolding listing_def step
    by (cases "Option.bind (dense_slot d cursor) slot_entry") (auto simp only: option.case split after set_simps list.map fst_conv sorted_wrt.simps insert_iff prod.inject)
qed

lemma listing_empty: "hi < lo \<Longrightarrow> listing f lo hi []"
  by (auto simp: listing_def)

lemma range_dense_lists:
  assumes "dense_ok d"
  shows "listing (dense_get d) lo hi (frames_list (range_dense d lo hi))"
proof -
  let ?lo = "max lo (dn_lowest d)" and ?hi = "min hi (dn_highest d)"
  have get: "dense_get d k = Some v \<longleftrightarrow> dn_filed d \<noteq> 0 \<and> dn_lowest d \<le> k \<and> k \<le> dn_highest d
      \<and> Option.bind (dense_slot d k) slot_entry = Some v" for k v
    by (auto simp: dense_get_def not_less split: if_splits)
  show ?thesis
  proof (cases "dn_filed d = 0 \<or> ?hi < ?lo")
    case True
    then have none: "\<not> (lo \<le> k \<and> k \<le> hi \<and> dense_get d k = Some v)" for k v
      unfolding get by (meson leD max.boundedI min.boundedI order.trans)
    have "frames_list (range_dense d lo hi) = []"
      using True by (simp only: range_dense_def Let_def if_True) (subst frames_list.simps, simp)
    then show ?thesis using none by (simp add: listing_def)
  next
    case False
    then have "listing (\<lambda>k. Option.bind (dense_slot d k) slot_entry) ?lo ?hi (frames_list (FramesDense d ?lo ?hi False))"
      by (intro walk_lists) (simp add: not_less)
    moreover have "range_dense d lo hi = FramesDense d ?lo ?hi False"
      unfolding range_dense_def Let_def if_not_P[OF False] ..
    moreover have "(lo \<le> k \<and> k \<le> hi \<and> dense_get d k = Some v) \<longleftrightarrow>
        (?lo \<le> k \<and> k \<le> ?hi \<and> Option.bind (dense_slot d k) slot_entry = Some v)" for k v
      using False unfolding get by auto
    ultimately show ?thesis by (simp add: listing_def)
  qed
qed

subsection \<open>The index as a map\<close>

fun index_ok :: "index_repr \<Rightarrow> bool" where
  "index_ok (Dense d) = dense_ok d"
| "index_ok (Sparse m) = bt_ordered m"

lemma bt_of_list:
  "bt_ordered m \<Longrightarrow> bt_ordered (fold (\<lambda>(k, v). bt_insert k v) xs m)
     \<and> bt_get (fold (\<lambda>(k, v). bt_insert k v) xs m) = bt_get m ++ map_of (rev xs)"
proof (induction xs arbitrary: m)
  case (Cons x xs)
  obtain k v where x: "x = (k, v)" by (cases x)
  show ?case using Cons.IH[OF bt_insert_ordered[OF Cons.prems, of k v]] Cons.prems
    by (simp add: x bt_insert_get map_add_assoc[symmetric]) (simp add: map_add_def fun_eq_iff split: option.split)
qed simp

lemma listing_map_of:
  assumes "listing f 0 (- 1) xs"
  shows "map_of (rev xs) = f"
proof -
  have "sorted_wrt (<) (map fst xs)" using assms by (simp add: listing_def)
  then have "distinct (map fst xs)" by (induction xs) auto
  then have d: "distinct (map fst (rev xs))" by (simp flip: rev_map)
  have all: "(0 :: u64) \<le> k \<and> k \<le> - 1" for k by simp
  show ?thesis
  proof
    fix k
    have "map_of (rev xs) k = Some v \<longleftrightarrow> f k = Some v" for v
      using assms d all by (simp add: listing_def)
    then show "map_of (rev xs) k = f k" by (cases "f k"; cases "map_of (rev xs) k") auto
  qed
qed

lemma to_map_view: "dense_ok d \<Longrightarrow> bt_ordered (to_map d) \<and> bt_get (to_map d) = dense_get d"
proof -
  assume "dense_ok d"
  then have l: "map_of (rev (frames_list (range_dense d 0 (- 1)))) = dense_get d"
    by (intro listing_map_of range_dense_lists)
  have "bt_ordered ([] :: (u64, index_entry) btree)" "bt_get ([] :: (u64, index_entry) btree) = Map.empty"
    by (simp_all add: bt_ordered_def bt_get_def[abs_def])
  with bt_of_list[of "[]" "frames_list (range_dense d 0 (- 1))"] l show ?thesis
    by (simp add: to_map_def)
qed

lemma index_insert_map:
  assumes "index_ok ix" "ie_body_len e \<noteq> 0" "index_insert seq e ix = (previous, ix')"
  shows "index_ok ix' \<and> previous = index_get ix seq \<and> index_get ix' = (index_get ix)(seq \<mapsto> e)"
proof (cases ix)
  case (Sparse m)
  then show ?thesis using assms by (auto simp: bt_insert_ordered bt_insert_get fun_eq_iff)
next
  case (Dense d)
  then have ok: "dense_ok d" using assms(1) by simp
  show ?thesis
  proof (cases "inserts d seq e")
    case True
    then show ?thesis using assms(3) Dense by (auto simp: inserts_def fun_eq_iff)
  next
    case False
    then have "dense_insert seq e d = (Inl NotDense, d)" using dense_insert_cases[OF ok assms(2)] by blast
    then show ?thesis using assms(3) Dense to_map_view[OF ok]
      by (auto simp: Let_def bt_insert_ordered bt_insert_get fun_eq_iff)
  qed
qed

lemma bt_range_lists: "bt_ordered m \<Longrightarrow> listing (bt_get m) lo hi (bt_range m lo hi)"
proof -
  assume m: "bt_ordered m"
  have "map fst (bt_range m lo hi) = filter (\<lambda>k. lo \<le> k \<and> k \<le> hi) (map fst m)"
    unfolding bt_range_def by (induction m) auto
  then have "sorted_wrt (<) (map fst (bt_range m lo hi))" using m by (simp add: bt_ordered_def sorted_wrt_filter)
  moreover have "map_of m k = Some v \<longleftrightarrow> (k, v) \<in> set m" for k v
    using bt_ordered_distinct[OF m] by simp
  ultimately show ?thesis by (auto simp: listing_def bt_range_def bt_get_def)
qed

lemma frames_list_sparse: "frames_list (FramesSparse es) = es"
proof (induction es)
  case Nil
  show ?case by (subst frames_list.simps) simp
next
  case (Cons e es)
  then show ?case by (subst frames_list.simps) simp
qed

lemma index_range_lists:
  assumes "index_ok ix"
  shows "listing (index_get ix) lo hi (frames_list (index_range ix lo hi))"
proof (cases ix)
  case (Dense d)
  then show ?thesis using assms range_dense_lists[of d lo hi] by (simp add: listing_def)
next
  case (Sparse m)
  have "frames_list FramesEmpty = []" by (subst frames_list.simps) simp
  then show ?thesis using assms Sparse bt_range_lists[of m lo hi] listing_empty[of hi lo "bt_get m"]
    by (auto simp: frames_list_sparse listing_def not_le)
qed

lemma index_len_card:
  assumes "index_ok ix"
  shows "index_len ix = card (dom (index_get ix))"
proof (cases ix)
  case (Sparse m)
  then show ?thesis using assms btree.count_card[of m] by (simp add: dom_def)
next
  case (Dense d)
  then have ok: "dense_ok d" using assms by simp
  show ?thesis
  proof (cases "dn_filed d = 0")
    case True
    then show ?thesis using Dense by (simp add: dom_def dense_get_def)
  next
    case False
    have "{n. entry_at d n \<noteq> None} = unat ` dom (dense_get d)"
    proof (intro set_eqI iffI)
      fix n
      assume "n \<in> {n. entry_at d n \<noteq> None}"
      then have "n \<le> unat (dn_highest d)" "entry_at d n \<noteq> None" using ok False by (auto simp: dense_ok_def)
      moreover from this(1) have "unat (word_of_nat n :: u64) = n"
        by (intro unat_of_nat_small) (rule order_le_less_trans[OF _ unsigned_less])
      ultimately show "n \<in> unat ` dom (dense_get d)"
        using dense_get_view[OF ok] False by (intro image_eqI[of _ _ "word_of_nat n"]) (auto simp: domIff)
    qed (use dense_get_view[OF ok] False in \<open>auto split: if_splits\<close>)
    moreover have "inj_on unat (dom (dense_get d))" by (simp add: inj_on_def word_unat_eq_iff)
    ultimately have "card {n. entry_at d n \<noteq> None} = card (dom (dense_get d))" by (simp add: card_image)
    then show ?thesis using Dense ok False by (simp add: dense_ok_def dom_def)
  qed
qed

lemma index_new_ok: "index_ok index_new" "index_get index_new = (\<lambda>_. None)"
  by (simp_all add: index_new_def dense_default_def dense_ok_def dense_get_def fun_eq_iff)

end
