(* ===== verification/Store_Scan_Law.thy ===== *)
theory Store_Scan_Law
  imports Store_Scan Store_Records Store_Index_Map
begin

text \<open>
  What the scan accepts: a round of the loop advances exactly over one whole sealed record, so a
  scan that succeeds has read a run of sealed records, and the run decides the result.
\<close>

subsection \<open>Accepting a record\<close>

lemma length_record_image [simp]: "length (record_image body) = 12 + length body"
  by (simp add: record_image_def)

lemma read_exact_front [simp]: "length xs = n \<Longrightarrow> read_exact n (xs @ rest) = (Inr xs, rest)"
  by (auto simp: read_exact_def)

lemma read_exact_Inr: "read_exact n reader = (Inr xs, rest) \<longleftrightarrow> reader = xs @ rest \<and> length xs = n"
  by (auto simp: read_exact_def)

lemma u32_le_from [simp]: "length bs = 4 \<Longrightarrow> u32_to_le (u32_from_le bs) = bs"
proof -
  assume len: "length bs = 4"
  have "be_value (rev bs) < 256 ^ 4" using be_value_less[of "rev bs"] len by simp
  then have "unat (word_of_nat (be_value (rev bs)) :: u32) = be_value (rev bs)"
    by (intro unat_of_nat_small) simp
  then show ?thesis using be_bytes_value[of "rev bs" 4] len by (simp add: u32_to_le_def u32_from_le_def)
qed

lemma rd_u32_Inr: "rd_u32 bs = (Inr w, rest) \<longleftrightarrow> bs = u32_to_le w @ rest"
proof
  assume "rd_u32 bs = (Inr w, rest)"
  then show "bs = u32_to_le w @ rest"
    by (auto simp: rd_u32_def thenS_def rd_take_def liftS_def split: if_splits)
qed simp

lemma record_head_Inr:
  "length header = 12 \<Longrightarrow> record_head header = Inr (len, check, crc)
     \<longleftrightarrow> header = u32_to_le len @ u32_to_le check @ u32_to_le crc"
proof
  assume len: "length header = 12" and head: "record_head header = Inr (len, check, crc)"
  let ?m = "thenS rd_u32 (\<lambda>len. thenS rd_u32 (\<lambda>check. thenS rd_u32 (\<lambda>crc. liftS (Inr (len, check, crc)))))"
  obtain rest where "?m header = (Inr (len, check, crc), rest)"
    using head by (cases "?m header") (simp add: record_head_def)
  then obtain s1 s2 where "header = u32_to_le len @ s1" "s1 = u32_to_le check @ s2" "s2 = u32_to_le crc @ rest"
    by (auto simp: result_simps rd_u32_Inr)
  then have "header = (u32_to_le len @ u32_to_le check @ u32_to_le crc) @ rest" by simp
  moreover from this have "rest = []" using len by simp
  ultimately show "header = u32_to_le len @ u32_to_le check @ u32_to_le crc" by simp
next
  assume "header = u32_to_le len @ u32_to_le check @ u32_to_le crc"
  then show "record_head header = Inr (len, check, crc)"
    by (simp add: record_head_def thenS_def liftS_def)
qed

definition good_body :: "nat \<Rightarrow> bytes \<Rightarrow> bool" where
  "good_body max_body body \<longleftrightarrow> body \<noteq> [] \<and> length body \<le> max_body \<and> length body < 2 ^ 32"

lemma good_body_len: "good_body m body \<Longrightarrow> unat (word_of_nat (length body) :: u32) = length body"
  by (simp add: good_body_def unat_of_nat_small)

text \<open>One round of the loop goes on exactly when a sealed record is next and the replay takes it.\<close>

lemma scan_step_on_record:
  assumes "good_body max_body body" "offset + (12 + length body) \<le> file_len" "offset + (12 + length body) \<le> usize_max"
    and "record offset (word_of_nat (length body)) body st = (Inr u, st')"
  shows "scan_step rule boundary max_body record file_len (record_image body @ rest) offset st
    = ScanAdvance (offset + (12 + length body)) rest st'"
proof -
  let ?len = "word_of_nat (length body) :: u32"
  let ?head = "u32_to_le ?len @ u32_to_le (NOT ?len) @ u32_to_le (crc32 body)"
  have ul: "unat ?len = length body" using good_body_len[OF assms(1)] .
  have nz: "?len \<noteq> 0" using ul assms(1) by (auto simp: good_body_def)
  have rd: "read_exact RECORD_HEADER_LEN (record_image body @ rest) = (Inr ?head, body @ rest)"
    by (simp add: record_image_def read_exact_Inr RECORD_HEADER_LEN_def)
  have head: "record_head ?head = Inr (?len, NOT ?len, crc32 body)"
    by (subst record_head_Inr) simp_all
  have body: "read_exact (unat ?len) (body @ rest) = (Inr body, rest)" by (simp add: ul)
  have "\<not> file_len < offset" "file_len - offset \<noteq> 0" "\<not> file_len - offset < RECORD_HEADER_LEN"
      "\<not> file_len - offset < RECORD_HEADER_LEN + unat ?len" "\<not> max_body < unat ?len"
      "usize_add offset (RECORD_HEADER_LEN + unat ?len) = Some (offset + (12 + length body))"
    using assms ul by (auto simp: good_body_def RECORD_HEADER_LEN_def usize_add_def)
  then show ?thesis
    using rd head body nz assms(4)
    by (simp only: scan_step_def Let_def if_False prod.case sum.case option.case simp_thms)
qed

lemma scan_step_advance:
  assumes "scan_step rule boundary max_body record file_len reader offset st = ScanAdvance end rest st'"
  shows "\<exists>body. reader = record_image body @ rest \<and> good_body max_body body \<and> end = offset + (12 + length body)
     \<and> end \<le> file_len \<and> end \<le> usize_max \<and> record offset (word_of_nat (length body)) body st = (Inr (), st')"
proof -
  have "\<exists>header reader1 len crc body. read_exact RECORD_HEADER_LEN reader = (Inr header, reader1)
      \<and> record_head header = Inr (len, NOT len, crc) \<and> len \<noteq> 0 \<and> unat len \<le> max_body
      \<and> read_exact (unat len) reader1 = (Inr body, rest) \<and> crc32 body = crc
      \<and> record offset len body st = (Inr (), st') \<and> offset \<le> file_len
      \<and> RECORD_HEADER_LEN + unat len \<le> file_len - offset \<and> usize_add offset (RECORD_HEADER_LEN + unat len) = Some end"
    using assms
    by (auto simp: scan_step_def Let_def not_less split: if_splits prod.splits sum.splits option.splits damage_rule.splits)
  then obtain header reader1 len crc body where
      rd: "reader = header @ reader1" "length header = 12" and head: "record_head header = Inr (len, NOT len, crc)"
      and len: "len \<noteq> 0" "unat len \<le> max_body" and body: "reader1 = body @ rest" "length body = unat len" "crc32 body = crc"
      and rec: "record offset len body st = (Inr (), st')"
      and fits: "offset \<le> file_len" "12 + unat len \<le> file_len - offset" "end = offset + (12 + unat len)" "end \<le> usize_max"
    by (auto simp: read_exact_Inr RECORD_HEADER_LEN_def usize_add_Some)
  have w: "word_of_nat (length body) = len" by (simp add: body(2))
  have "unat len < 2 ^ 32" by (rule order_less_le_trans[OF unsigned_less]) simp
  then have "good_body max_body body" using len body(2) by (auto simp: good_body_def unat_eq_0)
  moreover have "reader = record_image body @ rest"
    using head by (simp add: rd body record_head_Inr[OF rd(2)] record_image_def w)
  ultimately show ?thesis using rec fits body(2) w by (intro exI[of _ body]) auto
qed

subsection \<open>Runs of records\<close>

fun replay_all :: "(nat \<Rightarrow> u32 \<Rightarrow> bytes \<Rightarrow> ('s, store_error, unit) fallible) \<Rightarrow> nat \<Rightarrow> bytes list \<Rightarrow> 's \<Rightarrow> 's option" where
  "replay_all record offset [] st = Some st"
| "replay_all record offset (body # bodies) st =
    (case record offset (word_of_nat (length body)) body st of
       (Inr _, st') \<Rightarrow> replay_all record (offset + (12 + length body)) bodies st'
     | (Inl _, _) \<Rightarrow> None)"

definition run_image :: "bytes list \<Rightarrow> bytes" where
  "run_image bodies = concat (map record_image bodies)"

lemma run_image_simps [simp]: "run_image [] = []" "run_image (b # bs) = record_image b @ run_image bs"
  "run_image (as @ bs) = run_image as @ run_image bs"
  by (simp_all add: run_image_def)

lemma scan_run:
  "\<forall>b\<in>set bodies. good_body max_body b \<Longrightarrow> replay_all record offset bodies st = Some st' \<Longrightarrow>
   offset + length (run_image bodies) \<le> file_len \<Longrightarrow> offset + length (run_image bodies) \<le> usize_max \<Longrightarrow>
   scan_records rule boundary max_body record file_len (run_image bodies @ rest) offset st
     = scan_records rule boundary max_body record file_len rest (offset + length (run_image bodies)) st'"
proof (induction bodies arbitrary: offset st)
  case (Cons body bodies)
  obtain u st1 where rec: "record offset (word_of_nat (length body)) body st = (Inr u, st1)"
      and rest: "replay_all record (offset + (12 + length body)) bodies st1 = Some st'"
    using Cons.prems(2) by (auto split: prod.splits sum.splits)
  have "scan_step rule boundary max_body record file_len (record_image body @ run_image bodies @ rest) offset st
      = ScanAdvance (offset + (12 + length body)) (run_image bodies @ rest) st1"
    using Cons.prems rec by (intro scan_step_on_record) simp_all
  then have "scan_records rule boundary max_body record file_len (run_image (body # bodies) @ rest) offset st
      = scan_records rule boundary max_body record file_len (run_image bodies @ rest) (offset + (12 + length body)) st1"
    by (subst scan_records.simps) simp
  also have "\<dots> = scan_records rule boundary max_body record file_len rest
      (offset + (12 + length body) + length (run_image bodies)) st'"
    using Cons.prems rest by (intro Cons.IH) simp_all
  finally show ?case by (simp add: add.assoc)
qed simp

lemma scan_accepts:
  "scan_records dr boundary max_body record file_len reader offset st = Inr (end, truncation, st') \<Longrightarrow>
   \<exists>bodies tail st1. reader = run_image bodies @ tail \<and> (\<forall>b\<in>set bodies. good_body max_body b)
     \<and> replay_all record offset bodies st = Some st1 \<and> end = offset + length (run_image bodies)
     \<and> (bodies \<noteq> [] \<longrightarrow> end \<le> file_len \<and> end \<le> usize_max)
     \<and> scan_step dr boundary max_body record file_len tail end st1 = ScanDone truncation st'"
proof (induction dr boundary max_body "record" file_len reader offset st rule: scan_records.induct)
  case (1 dr boundary max_body "record" file_len reader offset st)
  show ?case
  proof (cases "scan_step dr boundary max_body record file_len reader offset st")
    case (ScanErr e)
    then show ?thesis using "1.prems" by (subst (asm) scan_records.simps) simp
  next
    case (ScanDone t s)
    then have "end = offset" "t = truncation" "s = st'" using "1.prems" by (subst (asm) scan_records.simps, simp)+
    then show ?thesis using ScanDone by (intro exI[of _ "[]"] exI[of _ reader] exI[of _ st]) simp
  next
    case (ScanAdvance at rest st1)
    then have "scan_records dr boundary max_body record file_len rest at st1 = Inr (end, truncation, st')"
      using "1.prems" by (subst (asm) scan_records.simps) simp
    from "1.IH"[OF ScanAdvance this] obtain bodies tail st2 where
      ih: "rest = run_image bodies @ tail" "\<forall>b\<in>set bodies. good_body max_body b"
        "replay_all record at bodies st1 = Some st2" "end = at + length (run_image bodies)"
        "bodies \<noteq> [] \<longrightarrow> end \<le> file_len \<and> end \<le> usize_max"
        "scan_step dr boundary max_body record file_len tail end st2 = ScanDone truncation st'"
      by blast
    from scan_step_advance[OF ScanAdvance] obtain body where
      b: "reader = record_image body @ rest" "good_body max_body body" "at = offset + (12 + length body)"
        "at \<le> file_len" "at \<le> usize_max" "record offset (word_of_nat (length body)) body st = (Inr (), st1)"
      by blast
    show ?thesis
      using ih b by (intro exI[of _ "body # bodies"] exI[of _ tail] exI[of _ st2]) (cases bodies; simp add: add.assoc)
  qed
qed


text \<open>
  What the replay of a run of records leaves: the index is the map from each number to the last
  record filed under it, the replaced bytes are counted, and the next sender number is the one
  filed with the highest generation.
\<close>

subsection \<open>One record\<close>

definition live_bytes :: "index_repr \<Rightarrow> nat" where
  "live_bytes ix = (\<Sum>s\<in>dom (index_get ix). record_len (the (index_get ix s)))"

definition replay_inv :: "replay \<Rightarrow> nat \<Rightarrow> bool" where
  "replay_inv r used \<longleftrightarrow> index_ok (rp_index r) \<and> rp_dead_bytes r + live_bytes (rp_index r) = used"

lemma record_replay_new_inv: "replay_inv replay_new 0"
  by (simp add: replay_inv_def replay_new_def live_bytes_def index_new_ok)

lemma live_bytes_update:
  assumes "index_get ix' = (index_get ix)(q \<mapsto> e)"
  shows "live_bytes ix' + (case index_get ix q of None \<Rightarrow> 0 | Some old \<Rightarrow> record_len old) = live_bytes ix + record_len e"
proof -
  let ?f = "\<lambda>s. record_len (the (index_get ix s))"
  have fin: "finite (dom (index_get ix))" by simp
  have "live_bytes ix' = record_len e + (\<Sum>s\<in>dom (index_get ix) - {q}. ?f s)"
    unfolding live_bytes_def assms by (simp add: dom_fun_upd sum.insert_remove)
  moreover have "live_bytes ix = (case index_get ix q of None \<Rightarrow> 0 | Some old \<Rightarrow> record_len old)
      + (\<Sum>s\<in>dom (index_get ix) - {q}. ?f s)"
    unfolding live_bytes_def by (auto simp: sum.remove[OF fin, of q] domIff split: option.split)
  ultimately show ?thesis by simp
qed

lemma replay_counter_keeps [simp]:
  "rp_index (replay_counter c r) = rp_index r" "rp_dead_bytes (replay_counter c r) = rp_dead_bytes r"
  by (auto simp: replay_counter_def split: option.split)

definition entry_of :: "nat \<Rightarrow> bytes \<Rightarrow> index_entry" where
  "entry_of offset body = \<lparr>ie_offset = word_of_nat offset, ie_body_len = word_of_nat (length body)\<rparr>"

lemma replay_record_ok:
  assumes inv: "replay_inv r used" and fits: "used + (12 + length body) \<le> usize_max"
    and good: "good_body m body" and dec: "decode_body body = Inr b"
  shows "\<exists>r'. replay_record offset (word_of_nat (length body)) body r = (Inr (), r')
     \<and> replay_inv r' (used + (12 + length body))
     \<and> index_get (rp_index r') = (index_get (rp_index r))(rb_seq b \<mapsto> entry_of offset body)
     \<and> rp_newest_counter r' = rp_newest_counter (replay_counter (rb_counter b) r)
     \<and> rp_highest_generation r' = rp_highest_generation (replay_counter (rb_counter b) r)"
proof -
  let ?e = "entry_of offset body"
  have ul: "unat (ie_body_len ?e) = length body" using good_body_len[OF good] by (simp add: entry_of_def)
  then have nz: "ie_body_len ?e \<noteq> 0" using good by (auto simp: good_body_def)
  obtain old ix where ins: "index_insert (rb_seq b) ?e (rp_index r) = (old, ix)" by fastforce
  have ok: "index_ok (rp_index r)" and dead: "rp_dead_bytes r + live_bytes (rp_index r) = used"
    using inv by (auto simp: replay_inv_def)
  note upd = index_insert_map[OF ok nz ins]
  have live: "live_bytes ix + (case old of None \<Rightarrow> 0 | Some o' \<Rightarrow> record_len o') = live_bytes (rp_index r) + record_len ?e"
    using live_bytes_update[of ix "rp_index r" "rb_seq b" ?e] upd by simp
  have le: "record_len ?e = 12 + length body" by (simp add: record_len_def ul)
  have upd': "index_ok ix" "index_get ix = (index_get (rp_index r))(rb_seq b \<mapsto> ?e)" using upd by simp_all
  let ?r = "replay_counter (rb_counter b) r"
  show ?thesis
  proof (cases old)
    case None
    then have "replay_record offset (word_of_nat (length body)) body r = (Inr (), ?r\<lparr>rp_index := ix\<rparr>)"
      using ins dec by (simp add: replay_record_def entry_of_def Let_def)
    moreover have "replay_inv (?r\<lparr>rp_index := ix\<rparr>) (used + (12 + length body))"
      using upd'(1) live le dead None by (simp add: replay_inv_def)
    ultimately show ?thesis using upd'(2) by simp
  next
    case (Some o')
    then have old: "index_get (rp_index r) (rb_seq b) = Some o'" using upd by simp
    then have "record_len o' \<le> live_bytes (rp_index r)"
      using member_le_sum[of "rb_seq b" "dom (index_get (rp_index r))" "\<lambda>s. record_len (the (index_get (rp_index r) s))"]
      by (simp add: live_bytes_def domIff)
    then have add: "usize_add (rp_dead_bytes r) (record_len o') = Some (rp_dead_bytes r + record_len o')"
      using dead fits by (simp add: usize_add_def)
    let ?s = "?r\<lparr>rp_index := ix, rp_dead_bytes := rp_dead_bytes r + record_len o'\<rparr>"
    have "replay_record offset (word_of_nat (length body)) body r = (Inr (), ?s)"
      using ins dec Some add by (simp add: replay_record_def entry_of_def Let_def)
    moreover have "replay_inv ?s (used + (12 + length body))"
      using upd'(1) live le dead Some by (simp add: replay_inv_def)
    ultimately show ?thesis using upd'(2) by simp
  qed
qed

lemma replay_record_decodes:
  "replay_record offset len body r = (Inr u, r') \<Longrightarrow> \<exists>b. decode_body body = Inr b"
  by (cases "decode_body body") (simp_all add: replay_record_def)

lemma replay_record_fails:
  assumes inv: "replay_inv r used" and fits: "used + (12 + length body) \<le> usize_max"
    and good: "good_body m body" and bad: "replay_record offset (word_of_nat (length body)) body r = (Inl e, r')"
  shows "r' = r"
proof (cases "decode_body body")
  case (Inl x)
  then show ?thesis using bad by (simp add: replay_record_def)
next
  case (Inr b)
  then show ?thesis using replay_record_ok[OF inv fits good, of b offset] bad by auto
qed

subsection \<open>A run of records\<close>

fun filed :: "nat \<Rightarrow> bytes list \<Rightarrow> (u64 \<Rightarrow> index_entry option) \<Rightarrow> u64 \<Rightarrow> index_entry option" where
  "filed offset [] m = m"
| "filed offset (body # bodies) m =
    filed (offset + (12 + length body)) bodies
      (case decode_body body of Inr b \<Rightarrow> m(rb_seq b \<mapsto> entry_of offset body) | Inl _ \<Rightarrow> m)"

fun counters_of :: "bytes list \<Rightarrow> (u64 \<times> u64) list" where
  "counters_of [] = []"
| "counters_of (body # bodies) =
    (case decode_body body of
       Inr b \<Rightarrow> (case rb_counter b of Some c \<Rightarrow> [c] | None \<Rightarrow> []) @ counters_of bodies
     | Inl _ \<Rightarrow> counters_of bodies)"

definition newer :: "(u64 \<times> u64) option \<Rightarrow> u64 \<times> u64 \<Rightarrow> (u64 \<times> u64) option" where
  "newer acc c = (case acc of None \<Rightarrow> Some c | Some d \<Rightarrow> if fst d < fst c then Some c else acc)"

definition newest_from :: "(u64 \<times> u64) option \<Rightarrow> (u64 \<times> u64) list \<Rightarrow> (u64 \<times> u64) option" where
  "newest_from acc cs = foldl newer acc cs"

definition highest_from :: "u64 option \<Rightarrow> (u64 \<times> u64) list \<Rightarrow> u64 option" where
  "highest_from acc cs = foldl (\<lambda>acc c. Some (case acc of None \<Rightarrow> fst c | Some g \<Rightarrow> max g (fst c))) acc cs"

lemma replay_counter_spec:
  "rp_newest_counter (replay_counter c r) = newest_from (rp_newest_counter r) (case c of Some x \<Rightarrow> [x] | None \<Rightarrow> [])"
  "rp_highest_generation (replay_counter c r) = highest_from (rp_highest_generation r) (case c of Some x \<Rightarrow> [x] | None \<Rightarrow> [])"
  by (auto simp: replay_counter_def newest_from_def highest_from_def newer_def split: option.split)

lemma newest_from_append [simp]:
  "newest_from acc (as @ bs) = newest_from (newest_from acc as) bs" "newest_from acc [] = acc"
  "highest_from h (as @ bs) = highest_from (highest_from h as) bs" "highest_from h [] = h"
  by (simp_all add: newest_from_def highest_from_def)

lemma replay_run:
  "replay_inv r used \<Longrightarrow> used + length (run_image bodies) \<le> usize_max \<Longrightarrow>
   \<forall>b\<in>set bodies. good_body m b \<and> (\<exists>x. decode_body b = Inr x) \<Longrightarrow>
   \<exists>r'. replay_all replay_record offset bodies r = Some r' \<and> replay_inv r' (used + length (run_image bodies))
     \<and> index_get (rp_index r') = filed offset bodies (index_get (rp_index r))
     \<and> rp_newest_counter r' = newest_from (rp_newest_counter r) (counters_of bodies)
     \<and> rp_highest_generation r' = highest_from (rp_highest_generation r) (counters_of bodies)"
proof (induction bodies arbitrary: offset r used)
  case (Cons body bodies)
  obtain b where dec: "decode_body body = Inr b" and good: "good_body m body" using Cons.prems(3) by auto
  have fits: "used + (12 + length body) \<le> usize_max" using Cons.prems(2) by simp
  obtain r1 where r1: "replay_record offset (word_of_nat (length body)) body r = (Inr (), r1)"
      "replay_inv r1 (used + (12 + length body))"
      "index_get (rp_index r1) = (index_get (rp_index r))(rb_seq b \<mapsto> entry_of offset body)"
      "rp_newest_counter r1 = rp_newest_counter (replay_counter (rb_counter b) r)"
      "rp_highest_generation r1 = rp_highest_generation (replay_counter (rb_counter b) r)"
    using replay_record_ok[OF Cons.prems(1) fits good dec, of offset] by blast
  have "used + (12 + length body) + length (run_image bodies) \<le> usize_max" using Cons.prems(2) by simp
  from Cons.IH[OF r1(2) this, of "offset + (12 + length body)"] Cons.prems(3) obtain r' where
    "replay_all replay_record (offset + (12 + length body)) bodies r1 = Some r'"
    "replay_inv r' (used + (12 + length body) + length (run_image bodies))"
    "index_get (rp_index r') = filed (offset + (12 + length body)) bodies (index_get (rp_index r1))"
    "rp_newest_counter r' = newest_from (rp_newest_counter r1) (counters_of bodies)"
    "rp_highest_generation r' = highest_from (rp_highest_generation r1) (counters_of bodies)"
    by auto
  then show ?case
    using r1 dec by (intro exI[of _ r']) (simp add: replay_counter_spec add.assoc split: option.splits)
qed simp

lemma replay_all_decodes:
  "replay_all replay_record offset bodies r = Some r' \<Longrightarrow> b \<in> set bodies \<Longrightarrow> \<exists>x. decode_body b = Inr x"
proof (induction bodies arbitrary: offset r)
  case (Cons body bodies)
  then show ?case
    by (auto split: prod.splits sum.splits dest: replay_record_decodes)
qed simp

lemma newest_from_Some:
  "newest_from acc cs = Some c \<Longrightarrow>
   (acc = Some c \<or> c \<in> set cs) \<and> (\<forall>d. acc = Some d \<or> d \<in> set cs \<longrightarrow> fst d \<le> fst c)"
proof (induction cs arbitrary: acc)
  case (Cons d cs)
  then have "newest_from (newer acc d) cs = Some c" by (simp add: newest_from_def)
  from Cons.IH[OF this] have ih: "newer acc d = Some c \<or> c \<in> set cs"
      "\<And>x. newer acc d = Some x \<or> x \<in> set cs \<Longrightarrow> fst x \<le> fst c" by blast+
  show ?case
  proof (cases acc)
    case None
    then show ?thesis using ih by (auto simp: newer_def)
  next
    case (Some x)
    have "fst x \<le> fst c" "fst d \<le> fst c"
      using ih(2)[of d] ih(2)[of x] Some
      by (cases "fst x < fst d"; simp add: newer_def; meson order.trans less_imp_le not_less)+
    then show ?thesis using ih Some by (auto simp: newer_def split: if_splits)
  qed
qed (simp add: newest_from_def)

lemma highest_from_bound:
  "highest_from acc cs = Some g \<Longrightarrow> (\<forall>h. acc = Some h \<longrightarrow> h \<le> g) \<and> (\<forall>c\<in>set cs. fst c \<le> g)
     \<and> (acc = Some g \<or> (\<exists>c\<in>set cs. fst c = g))"
proof (induction cs arbitrary: acc)
  case (Cons d cs)
  then have "highest_from (Some (case acc of None \<Rightarrow> fst d | Some g \<Rightarrow> max g (fst d))) cs = Some g"
    by (simp add: highest_from_def)
  from Cons.IH[OF this] show ?case
    by (cases acc) (auto simp: max_def split: if_splits intro: order_trans)
qed (simp add: highest_from_def)

subsection \<open>Reading a record back\<close>

definition suffixing :: "'a reads \<Rightarrow> bool" where
  "suffixing m \<longleftrightarrow> (\<forall>s x t. m s = (Inr x, t) \<longrightarrow> (\<exists>p. s = p @ t))"

definition framed :: "record_body reads \<Rightarrow> bool" where
  "framed m \<longleftrightarrow> (\<forall>s b t. m s = (Inr b, t) \<longrightarrow> (\<exists>p. s = p @ rb_frame b))"

lemma suffixing_then: "suffixing m \<Longrightarrow> (\<And>a. suffixing (f a)) \<Longrightarrow> suffixing (thenS m f)"
  unfolding suffixing_def thenS_Inr_iff by (metis append.assoc)

lemma framed_then: "suffixing m \<Longrightarrow> (\<And>a. framed (f a)) \<Longrightarrow> framed (thenS m f)"
  unfolding suffixing_def framed_def thenS_Inr_iff by (metis append.assoc)

lemma suffixing_reads:
  "suffixing (liftS x)" "suffixing (rd_take n)" "suffixing rd_u8" "suffixing rd_u64"
proof -
  show l: "suffixing (liftS x)" for x :: "store_error + 'b" by (simp add: suffixing_def liftS_def)
  show t: "suffixing (rd_take n)" for n
    unfolding suffixing_def rd_take_def by (metis Pair_inject append_take_drop_id sum.simps(4) sum.inject(2))
  show "suffixing rd_u8" "suffixing rd_u64"
    unfolding rd_u8_def rd_u64_def by (intro suffixing_then t l)+
qed

lemma framed_bad: "framed (liftS (Inl e))"
  by (simp add: framed_def liftS_def)

lemma framed_rest: "framed (thenS rd_rest (\<lambda>frame. liftS (Inr \<lparr>rb_seq = q, rb_counter = c, rb_msg_type = ty, rb_frame = frame\<rparr>)))"
  by (auto simp: framed_def thenS_Inr_iff liftS_def rd_rest_def)

lemma framed_cases:
  "framed f \<Longrightarrow> framed g \<Longrightarrow> framed (if P then f else g)"
  "(\<And>a. framed (h a)) \<Longrightarrow> (\<And>b. framed (k b)) \<Longrightarrow> framed (case x of Inl a \<Rightarrow> h a | Inr b \<Rightarrow> k b)"
  "suffixing u \<Longrightarrow> suffixing v \<Longrightarrow> suffixing (if P then u else v)"
  by (simp_all split: sum.split)

lemma decode_body_suffix:
  assumes "decode_body body = Inr b"
  shows "\<exists>front. body = front @ rb_frame b"
proof -
  have "\<exists>m. framed m \<and> decode_body body = fst (m body)"
    unfolding decode_body_def
    by (intro exI conjI, rule_tac [2] refl)
       (intro framed_then framed_cases suffixing_then suffixing_reads framed_bad framed_rest)
  then obtain m where "framed m" "fst (m body) = Inr b" using assms by auto
  then show ?thesis unfolding framed_def by (metis prod.collapse)
qed

end
