(* ===== verification/Store_Recovery.thy ===== *)
theory Store_Recovery
  imports Store_Scan_Law
begin

text \<open>
  Crash recovery: a journal that holds whole records and the torn beginning of one more is read
  back to exactly the whole ones, whatever the damage rule; whatever a successful scan files can
  be read; and scanning the file a second time, cut where the first scan said, changes nothing.
\<close>

subsection \<open>The torn tail\<close>

definition torn_tail :: "nat \<Rightarrow> bytes \<Rightarrow> bool" where
  "torn_tail max_body torn \<longleftrightarrow>
    torn = [] \<or> (\<exists>body k. good_body max_body body \<and> 0 < k \<and> k < length (record_image body) \<and> torn = take k (record_image body))"

definition torn_cut :: "nat \<Rightarrow> bytes \<Rightarrow> truncation option" where
  "torn_cut offset torn = (if torn = [] then None
     else Some \<lparr>tr_offset = offset, tr_dropped_bytes = length torn, tr_cause = Incomplete\<rparr>)"

lemma scan_step_end: "scan_step rule boundary max_body record offset reader offset st = ScanDone None st"
  by (simp add: scan_step_def Let_def)

lemma scan_step_torn:
  assumes "torn_tail max_body torn" "tail_rule rule \<Longrightarrow> boundary \<le> offset"
  shows "scan_step rule boundary max_body record (offset + length torn) torn offset st = ScanDone (torn_cut offset torn) st"
proof (cases "torn = []")
  case True
  then show ?thesis by (simp add: scan_step_end torn_cut_def)
next
  case False
  then obtain body k where good: "good_body max_body body" and k: "0 < k" "k < length (record_image body)"
      and torn: "torn = take k (record_image body)" using assms(1) by (auto simp: torn_tail_def)
  then have len: "length torn = k" by simp
  have durable: "\<not> (tail_rule rule \<and> offset < boundary)" using assms(2) by auto
  show ?thesis
  proof (cases "k < 12")
    case True
    then show ?thesis using len k durable False by (simp add: scan_step_def Let_def RECORD_HEADER_LEN_def torn_cut_def)
  next
    case long: False
    let ?len = "word_of_nat (length body) :: u32"
    let ?head = "u32_to_le ?len @ u32_to_le (NOT ?len) @ u32_to_le (crc32 body)"
    have ul: "unat ?len = length body" by (rule good_body_len[OF good])
    then have nz: "?len \<noteq> 0" using good by (auto simp: good_body_def)
    have "torn = ?head @ take (k - 12) body" using long by (simp add: torn record_image_def)
    then have rd: "read_exact RECORD_HEADER_LEN torn = (Inr ?head, take (k - 12) body)"
      by (simp add: read_exact_Inr RECORD_HEADER_LEN_def)
    have head: "record_head ?head = Inr (?len, NOT ?len, crc32 body)" by (subst record_head_Inr) simp_all
    have "\<not> offset + length torn < offset" "offset + length torn - offset = k" "k \<noteq> 0" "\<not> k < RECORD_HEADER_LEN"
        "k < RECORD_HEADER_LEN + unat ?len" "\<not> max_body < unat ?len"
      using good k long ul by (auto simp: len good_body_def RECORD_HEADER_LEN_def)
    then show ?thesis
      using rd head nz durable False
      by (simp only: scan_step_def Let_def if_False if_True prod.case sum.case simp_thms torn_cut_def len)
  qed
qed

subsection \<open>Reading one record\<close>

lemma read_record_into_at:
  assumes "file = front @ record_image body @ rest" "length front < 2 ^ 64" "good_body m body" "decode_body body = Inr b"
  shows "\<exists>at. read_record_into file (rb_seq b) (entry_of (length front) body) = Inr (record_image body, at, rb_msg_type b)
    \<and> drop at (record_image body) = rb_frame b"
proof -
  let ?len = "word_of_nat (length body) :: u32"
  let ?head = "u32_to_le ?len @ u32_to_le (NOT ?len) @ u32_to_le (crc32 body)"
  have ul: "unat ?len = length body" by (rule good_body_len[OF assms(3)])
  have uo: "unat (word_of_nat (length front) :: u64) = length front" using assms(2) by (intro unat_of_nat_small) simp
  have image: "record_image body = ?head @ body" by (simp add: record_image_def)
  have at: "read_record_at file (length body + 12) (length front) = Some (record_image body)"
    by (simp add: read_record_at_def get_range_def assms(1))
  obtain p where p: "body = p @ rb_frame b" using decode_body_suffix[OF assms(4)] by blast
  have add: "usize_add (length body) RECORD_HEADER_LEN = Some (length body + 12)"
    using assms(3) by (simp add: usize_add_def usize_max_def RECORD_HEADER_LEN_def good_body_def)
  have sub: "usize_sub (length body + 12) (length (rb_frame b)) = Some (12 + length p)"
    using p by (metis (no_types) usize_sub_def add.commute add_diff_cancel_right' add.assoc length_append le_add2)
  have parts: "take 12 (record_image body) = ?head" "drop 12 (record_image body) = body"
    by (simp_all add: image)
  have head: "record_head ?head = Inr (?len, NOT ?len, crc32 body)" by (subst record_head_Inr) simp_all
  have "read_record_into file (rb_seq b) (entry_of (length front) body) = Inr (record_image body, 12 + length p, rb_msg_type b)"
    using add at sub head assms(4) parts
    by (simp add: read_record_into_def entry_of_def ul uo Let_def RECORD_HEADER_LEN_def)
  moreover have "drop (12 + length p) (record_image body) = rb_frame b"
    unfolding image by (subst p) (simp add: drop_append)
  ultimately show ?thesis by blast
qed

lemma read_frame_at:
  assumes "file = front @ record_image body @ rest" "length front < 2 ^ 64" "good_body m body" "decode_body body = Inr b"
  shows "read_frame file (rb_seq b) (entry_of (length front) body)
    = Inr \<lparr>sm_seq_num = rb_seq b, sm_msg_type = rb_msg_type b, sm_payload = rb_frame b\<rparr>"
  using read_record_into_at[OF assms] by (auto simp: read_frame_def)

lemma filed_lookup:
  "filed offset bodies m q = Some e \<Longrightarrow>
   (\<exists>pre body post b. bodies = pre @ body # post \<and> decode_body body = Inr b \<and> rb_seq b = q
      \<and> e = entry_of (offset + length (run_image pre)) body
      \<and> (\<forall>x\<in>set post. \<forall>c. decode_body x = Inr c \<longrightarrow> rb_seq c \<noteq> q))
   \<or> (m q = Some e \<and> (\<forall>x\<in>set bodies. \<forall>c. decode_body x = Inr c \<longrightarrow> rb_seq c \<noteq> q))"
proof (induction bodies arbitrary: offset m)
  case (Cons body bodies)
  let ?m = "case decode_body body of Inr b \<Rightarrow> m(rb_seq b \<mapsto> entry_of offset body) | Inl _ \<Rightarrow> m"
  from Cons.prems have "filed (offset + (12 + length body)) bodies ?m q = Some e" by simp
  from Cons.IH[OF this] consider
    (later) pre x post b where "bodies = pre @ x # post" "decode_body x = Inr b" "rb_seq b = q"
      "e = entry_of (offset + (12 + length body) + length (run_image pre)) x"
      "\<forall>x\<in>set post. \<forall>c. decode_body x = Inr c \<longrightarrow> rb_seq c \<noteq> q"
  | (here) "?m q = Some e" "\<forall>x\<in>set bodies. \<forall>c. decode_body x = Inr c \<longrightarrow> rb_seq c \<noteq> q"
    by blast
  then show ?case
  proof cases
    case later
    then show ?thesis
      by (intro disjI1 exI[of _ "body # pre"] exI[of _ x] exI[of _ post] exI[of _ b]) (simp add: add.assoc)
  next
    case here
    show ?thesis
    proof (cases "\<exists>b. decode_body body = Inr b \<and> rb_seq b = q")
      case True
      then obtain b where "decode_body body = Inr b" "rb_seq b = q" by blast
      then show ?thesis using here
        by (intro disjI1 exI[of _ "[]"] exI[of _ body] exI[of _ bodies] exI[of _ b]) simp
    next
      case False
      then have "?m q = m q" by (cases "decode_body body") auto
      then show ?thesis using here False by (intro disjI2) auto
    qed
  qed
qed simp

lemma filed_keeps: "m q \<noteq> None \<Longrightarrow> filed offset bodies m q \<noteq> None"
proof (induction bodies arbitrary: offset m)
  case (Cons body bodies)
  let ?m = "case decode_body body of Inr b \<Rightarrow> m(rb_seq b \<mapsto> entry_of offset body) | Inl _ \<Rightarrow> m"
  have "?m q \<noteq> None" using Cons.prems by (cases "decode_body body") simp_all
  then show ?case using Cons.IH[where m = ?m] by simp
qed simp

lemma filed_None:
  "filed offset bodies m q = None \<Longrightarrow> x \<in> set bodies \<Longrightarrow> decode_body x = Inr c \<Longrightarrow> rb_seq c \<noteq> q"
proof (induction bodies arbitrary: offset m)
  case (Cons body bodies)
  let ?m = "case decode_body body of Inr b \<Rightarrow> m(rb_seq b \<mapsto> entry_of offset body) | Inl _ \<Rightarrow> m"
  have rest: "filed (offset + (12 + length body)) bodies ?m q = None" using Cons.prems(1) by simp
  show ?case
  proof (cases "x = body")
    case True
    show ?thesis
    proof
      assume "rb_seq c = q"
      then have "?m q \<noteq> None" using True Cons.prems(3) by simp
      then show False using filed_keeps[where m = ?m] rest by blast
    qed
  next
    case False
    then show ?thesis using Cons.IH[OF rest] Cons.prems by simp
  qed
qed simp

subsection \<open>The whole journal\<close>

lemma length_encodings: "length (encode_header h) = 44" "length (encode_slot c) = 52"
  by (simp_all add: encode_header_bytes encode_slot_bytes length_header_fields length_slot_fields)

lemma encode_prefix_parts:
  assumes "length (fst images) = 52" "length (snd images) = 52"
  shows "length (encode_prefix h images) = DATA_START"
    and "take JOURNAL_HEADER_LEN (encode_prefix h images) = encode_header h"
    and "slot_image (drop JOURNAL_HEADER_LEN (encode_prefix h images)) (SLOT_OFFSETS ! 0) = Some (fst images)"
    and "slot_image (drop JOURNAL_HEADER_LEN (encode_prefix h images)) (SLOT_OFFSETS ! 1) = Some (snd images)"
proof -
  have image: "encode_prefix h images = encode_header h @ replicate 4052 0 @ fst images @ replicate 4044 0 @ snd images @ replicate 4044 0"
    using assms length_encodings(1)[of h]
    by (simp add: encode_prefix_def overwrite_def journal_consts min_def)
  show "length (encode_prefix h images) = DATA_START"
    using assms length_encodings(1)[of h] unfolding image by (simp add: DATA_START_def)
  show "take JOURNAL_HEADER_LEN (encode_prefix h images) = encode_header h"
    using length_encodings(1)[of h] unfolding image by (simp add: JOURNAL_HEADER_LEN_def)
  show "slot_image (drop JOURNAL_HEADER_LEN (encode_prefix h images)) (SLOT_OFFSETS ! 0) = Some (fst images)"
    "slot_image (drop JOURNAL_HEADER_LEN (encode_prefix h images)) (SLOT_OFFSETS ! 1) = Some (snd images)"
    using assms length_encodings(1)[of h] unfolding image
    by (simp_all add: journal_consts slot_image_def get_range_def usize_sub_def usize_add_def usize_max_def)
qed

definition open_prefix :: "bytes \<Rightarrow> store_error + (journal_header \<times> slot_images \<times> usize \<times> counter_slot)" where
  "open_prefix prefix =
    bindR (decode_header (take JOURNAL_HEADER_LEN prefix)) (\<lambda>header.
    bindR (ok_or StoreCorrupted (slot_image (drop JOURNAL_HEADER_LEN prefix) (SLOT_OFFSETS ! 0))) (\<lambda>first_image.
    bindR (ok_or StoreCorrupted (slot_image (drop JOURNAL_HEADER_LEN prefix) (SLOT_OFFSETS ! 1))) (\<lambda>second_image.
    bindR (newest_slot (first_image, second_image)) (\<lambda>(active, slot).
      Inr (header, (first_image, second_image), active, slot)))))"

lemma scan_journal_eq:
  assumes "length prefix = DATA_START" "DATA_START \<le> file_len"
  shows "scan_journal (prefix @ rest) file_len max_body rule =
    bindR (open_prefix prefix) (\<lambda>(header, images, active, slot).
      bindR (scan_records rule (unat (cs_durable_end slot)) max_body replay_record file_len rest DATA_START replay_new)
        (scan_finish rule header images active slot))"
proof -
  have "prefix @ rest = take 44 prefix @ drop 44 prefix @ rest" by (simp flip: append.assoc)
  moreover have "length (take 44 prefix) = 44" "length (drop 44 prefix) = 12244"
    using assms(1) by (simp_all add: DATA_START_def)
  ultimately have rd: "read_exact JOURNAL_HEADER_LEN (prefix @ rest) = (Inr (take 44 prefix), drop 44 prefix @ rest)"
    "read_exact (PREFIX_LEN - JOURNAL_HEADER_LEN) (drop 44 prefix @ rest) = (Inr (drop 44 prefix), rest)"
    by (simp_all only: read_exact_Inr) (simp_all add: journal_consts)
  have len: "\<not> file_len < JOURNAL_HEADER_LEN" "\<not> file_len < DATA_START"
    using assms by (simp_all add: journal_consts)
  let ?a = "slot_image (drop JOURNAL_HEADER_LEN prefix) (SLOT_OFFSETS ! 0)"
    and ?b = "slot_image (drop JOURNAL_HEADER_LEN prefix) (SLOT_OFFSETS ! 1)"
  note defs = scan_journal_def open_prefix_def thenS_def liftS_def ok_or_def
  have len44: "JOURNAL_HEADER_LEN = 44" by (simp add: JOURNAL_HEADER_LEN_def)
  show ?thesis
  proof (cases "decode_header (take JOURNAL_HEADER_LEN prefix)")
    case (Inl e) then show ?thesis using len rd by (simp add: defs len44)
  next
    case (Inr h)
    note h = this
    show ?thesis
    proof (cases "?a = None \<or> ?b = None")
      case True
      then show ?thesis using len rd h by (cases ?a) (simp_all add: defs len44 del: One_nat_def)
    next
      case False
      then obtain a b where ab: "?a = Some a" "?b = Some b" by auto
      show ?thesis
        using len rd h ab by (cases "newest_slot (a, b)") (simp_all add: defs len44 split: prod.split del: One_nat_def)
    qed
  qed
qed

subsection \<open>What a scan returns\<close>

lemma scan_finish_parts:
  assumes "scan_finish rule header images active slot (end, truncation, r) = Inr s"
  shows "sn_header s = header" "sn_slots s = images" "sn_active s = active" "sn_index s = rp_index r"
    "sn_next_target s = cs_next_target slot" "sn_end s = end" "sn_truncation s = truncation"
    "sn_dead_bytes s = rp_dead_bytes r" "sn_boundary s = unat (cs_durable_end slot)"
    "sn_next_sender s = (case rp_newest_counter r of
       Some (generation, next_sender) \<Rightarrow> if cs_generation slot < generation then next_sender else cs_next_sender slot
     | None \<Rightarrow> cs_next_sender slot)"
    "tail_rule rule \<Longrightarrow> unat (cs_durable_end slot) \<le> end"
    "scan_finish rule header images active slot (end, t, r) = Inr (s\<lparr>sn_truncation := t\<rparr>)"
proof -
  note d = assms[unfolded scan_finish_def prod.case Let_def]
  have live: "\<not> (end < unat (cs_durable_end slot) \<and> tail_rule rule)" using d by (auto split: if_splits)
  then show "tail_rule rule \<Longrightarrow> unat (cs_durable_end slot) \<le> end" by auto
  from live d obtain g where g: "checked_add (case List.map_filter (map_option cs_generation \<circ> decode_slot) [fst images, snd images]
               @ (case rp_highest_generation r of None \<Rightarrow> [] | Some g \<Rightarrow> [g]) of [] \<Rightarrow> cs_generation slot | g # gs \<Rightarrow> fold max gs g) 1 = Some g"
    by (auto simp: bindR_Inr_iff ok_or_def split: option.splits)
  have s: "s = \<lparr>sn_header = header, sn_slots = images, sn_active = active, sn_index = rp_index r,
                sn_next_sender = (case rp_newest_counter r of
                   Some (generation, next_sender) \<Rightarrow> if cs_generation slot < generation then next_sender else cs_next_sender slot
                 | None \<Rightarrow> cs_next_sender slot), sn_next_target = cs_next_target slot,
                sn_next_generation = g, sn_end = end, sn_truncation = truncation,
                sn_dead_bytes = rp_dead_bytes r, sn_slots_stale = (end < unat (cs_durable_end slot)),
                sn_boundary = unat (cs_durable_end slot),
                sn_reset_owed = cs_reset_owed slot, sn_app_watermark = cs_app_watermark slot\<rparr>"
    using d live unfolding g ok_or_simps bindR_simps by simp
  show "sn_header s = header" "sn_slots s = images" "sn_active s = active" "sn_index s = rp_index r"
    "sn_next_target s = cs_next_target slot" "sn_end s = end" "sn_truncation s = truncation"
    "sn_dead_bytes s = rp_dead_bytes r" "sn_boundary s = unat (cs_durable_end slot)"
    "sn_next_sender s = (case rp_newest_counter r of
       Some (generation, next_sender) \<Rightarrow> if cs_generation slot < generation then next_sender else cs_next_sender slot
     | None \<Rightarrow> cs_next_sender slot)"
    unfolding s by simp_all
  show "scan_finish rule header images active slot (end, t, r) = Inr (s\<lparr>sn_truncation := t\<rparr>)"
    using live unfolding scan_finish_def prod.case Let_def g ok_or_simps bindR_simps s by simp
qed

lemma scan_step_done_state:
  assumes "scan_step rule boundary max_body record file_len reader offset st = ScanDone t st'"
  shows "st' = st \<or> (\<exists>body e. good_body max_body body \<and> offset + (12 + length body) \<le> file_len
     \<and> record offset (word_of_nat (length body)) body st = (Inl e, st'))"
proof -
  have "st' = st \<or> (\<exists>len reader1 body rest e. len \<noteq> 0 \<and> unat len \<le> max_body \<and> offset \<le> file_len
      \<and> 12 + unat len \<le> file_len - offset \<and> read_exact (unat len) reader1 = (Inr body, rest)
      \<and> record offset len body st = (Inl e, st'))"
    using assms
    by (auto simp: scan_step_def Let_def not_less RECORD_HEADER_LEN_def split: if_splits prod.splits sum.splits option.splits damage_rule.splits)
  then show ?thesis
  proof (elim disjE exE conjE)
    fix len :: u32 and reader1 body rest e
    assume l: "len \<noteq> 0" "unat len \<le> max_body" "offset \<le> file_len" "12 + unat len \<le> file_len - offset"
      and body: "read_exact (unat len) reader1 = (Inr body, rest)" and rec: "record offset len body st = (Inl e, st')"
    have len: "length body = unat len" using body by (simp add: read_exact_Inr)
    have "unat len < 2 ^ 32" by (rule order_less_le_trans[OF unsigned_less]) simp
    then have "good_body max_body body" using l len by (auto simp: good_body_def unat_eq_0)
    moreover have "word_of_nat (length body) = len" by (simp add: len)
    ultimately show ?thesis using rec l len by (intro disjI2 exI[of _ body] exI[of _ e]) simp
  qed simp
qed

definition journal_of :: "bytes \<Rightarrow> bytes list \<Rightarrow> bytes" where
  "journal_of prefix bodies = prefix @ run_image bodies"

lemma scan_journal_run:
  assumes scan: "scan_journal file (length file) max_body rule = Inr s" and small: "length file \<le> usize_max"
  shows "\<exists>prefix bodies tail h images active slot r. file = journal_of prefix bodies @ tail
     \<and> length prefix = DATA_START \<and> open_prefix prefix = Inr (h, images, active, slot)
     \<and> (\<forall>b\<in>set bodies. good_body max_body b \<and> (\<exists>x. decode_body b = Inr x))
     \<and> replay_all replay_record DATA_START bodies replay_new = Some r
     \<and> sn_end s = length (journal_of prefix bodies)
     \<and> index_get (rp_index r) = filed DATA_START bodies Map.empty
     \<and> scan_finish rule h images active slot (sn_end s, sn_truncation s, r) = Inr s"
proof -
  have long: "DATA_START \<le> length file"
    using scan by (auto simp: scan_journal_def thenS_def liftS_def not_less split: if_splits prod.splits sum.splits)
  define prefix where "prefix = take DATA_START file"
  define rest where "rest = drop DATA_START file"
  have whole: "file = prefix @ rest" and lp: "length prefix = DATA_START"
    using long by (simp_all add: prefix_def rest_def)
  have "scan_journal (prefix @ rest) (length file) max_body rule = Inr s" using scan by (simp add: whole)
  then obtain h images active slot t "end" r where op: "open_prefix prefix = Inr (h, images, active, slot)"
      and sr: "scan_records rule (unat (cs_durable_end slot)) max_body replay_record (length file) rest DATA_START replay_new = Inr (end, t, r)"
      and fin: "scan_finish rule h images active slot (end, t, r) = Inr s"
    unfolding scan_journal_eq[OF lp long] by (auto simp: bindR_Inr_iff)
  from scan_accepts[OF sr] obtain bodies tail r1 where run: "rest = run_image bodies @ tail" "\<forall>b\<in>set bodies. good_body max_body b"
      "replay_all replay_record DATA_START bodies replay_new = Some r1" "end = DATA_START + length (run_image bodies)"
      and last_step: "scan_step rule (unat (cs_durable_end slot)) max_body replay_record (length file) tail end r1 = ScanDone t r"
    by blast
  have good: "\<forall>b\<in>set bodies. good_body max_body b \<and> (\<exists>x. decode_body b = Inr x)"
    using run(2) replay_all_decodes[OF run(3)] by blast
  have room: "DATA_START + length (run_image bodies) \<le> length file" by (simp add: whole lp run(1))
  then have "0 + length (run_image bodies) \<le> usize_max" using small by simp
  from replay_run[OF record_replay_new_inv this good, of DATA_START] run(3)
  have r1: "replay_inv r1 (length (run_image bodies))" "index_get (rp_index r1) = filed DATA_START bodies Map.empty"
    by (auto simp: replay_new_def index_new_ok)
  have "r = r1"
    using scan_step_done_state[OF last_step]
  proof (elim disjE exE conjE)
    fix body e
    assume b: "good_body max_body body" "end + (12 + length body) \<le> length file"
      "replay_record end (word_of_nat (length body)) body r1 = (Inl e, r)"
    have "length (run_image bodies) + (12 + length body) \<le> usize_max" using b(2) small run(4) by simp
    then show "r = r1" by (rule replay_record_fails[OF r1(1) _ b(1) b(3)])
  qed
  moreover have "end = sn_end s" "t = sn_truncation s" using scan_finish_parts(6,7)[OF fin] by simp_all
  ultimately show ?thesis
    using op fin good run(3,4) r1(2) lp
    by (intro exI[of _ prefix] exI[of _ bodies] exI[of _ tail] exI[of _ h] exI[of _ images] exI[of _ active]
        exI[of _ slot] exI[of _ r]) (simp add: whole run(1) journal_of_def)
qed

lemma scan_journal_of:
  assumes "length prefix = DATA_START" "open_prefix prefix = Inr (h, images, active, slot)"
    and good: "\<forall>b\<in>set bodies. good_body max_body b" and torn: "torn_tail max_body torn"
    and floor: "tail_rule rule \<Longrightarrow> unat (cs_durable_end slot) \<le> length (journal_of prefix bodies)"
    and small: "length (journal_of prefix bodies @ torn) \<le> usize_max"
    and replay: "replay_all replay_record DATA_START bodies replay_new = Some r"
  shows "scan_journal (journal_of prefix bodies @ torn) (length (journal_of prefix bodies @ torn)) max_body rule
    = scan_finish rule h images active slot
        (length (journal_of prefix bodies), torn_cut (length (journal_of prefix bodies)) torn, r)"
proof -
  let ?stop = "DATA_START + length (run_image bodies)"
  have len: "length (journal_of prefix bodies) = ?stop" "length (journal_of prefix bodies @ torn) = ?stop + length torn"
    by (simp_all add: journal_of_def assms(1))
  have "scan_records rule (unat (cs_durable_end slot)) max_body replay_record (?stop + length torn)
          (run_image bodies @ torn) DATA_START replay_new
      = scan_records rule (unat (cs_durable_end slot)) max_body replay_record (?stop + length torn) torn ?stop r"
    using small len by (intro scan_run[OF good replay]) simp_all
  also have "\<dots> = Inr (?stop, torn_cut ?stop torn, r)"
    using scan_step_torn[OF torn, of rule "unat (cs_durable_end slot)" ?stop replay_record r] floor len
    by (subst scan_records.simps) simp
  finally show ?thesis
    using scan_journal_eq[OF assms(1), of "?stop + length torn" "run_image bodies @ torn" max_body rule] assms(2)
    by (simp add: len) (simp add: journal_of_def)
qed

end
