(* ===== verification/Store_Written.thy ===== *)
theory Store_Written
  imports Store_Recovery
begin

text \<open>
  The records the writer lays down, as the scan finds them, and what reading a number back from a
  scanned run of records returns: the frame of the last record filed under it.
\<close>

subsection \<open>What the writer lays down\<close>

text \<open>A filed frame, encoded and sealed with its generation, as \<^verbatim>\<open>append_frame\<close> does.\<close>

definition written_record :: "u32 \<Rightarrow> record_body \<Rightarrow> bytes option" where
  "written_record limit b =
    (case encode_frame_record_into (rb_seq b) (map_option snd (rb_counter b)) (rb_msg_type b) (rb_frame b) limit [] of
       (Inr _, record) \<Rightarrow> Some (seal_frame_record (case rb_counter b of Some (g, _) \<Rightarrow> g | None \<Rightarrow> 0) record)
     | (Inl _, _) \<Rightarrow> None)"

definition body_limit :: "u32 \<Rightarrow> nat" where
  "body_limit max_frame_size = unat max_frame_size + (1 + 8 + 8 + 8 + 1 + MSG_TYPE_MAX_LEN)"

lemma written_record_image:
  assumes "written_record limit b = Some img" "made_type (rb_msg_type b)"
  shows "img = record_image (body_image b) \<and> good_body (body_limit limit) (body_image b)"
proof -
  let ?g = "case rb_counter b of Some (g, _) \<Rightarrow> g | None \<Rightarrow> 0"
  let ?enc = "encode_frame_record_into (rb_seq b) (map_option snd (rb_counter b)) (rb_msg_type b) (rb_frame b) limit []"
  obtain rec1 where enc: "?enc = (Inr (), rec1)" and img: "img = seal_frame_record ?g rec1"
    using assms(1) by (auto simp: written_record_def split: prod.splits sum.splits)
  have same: "unsealed (rb_seq b) (map_option snd (rb_counter b)) ?g (rb_msg_type b) (rb_frame b) = b"
    by (cases "rb_counter b") (auto simp: unsealed_def)
  obtain len :: u32 where len: "unat len = length (body_image (unsealed (rb_seq b) (map_option snd (rb_counter b)) 0 (rb_msg_type b) (rb_frame b)))"
      and frame: "length (rb_frame b) \<le> unat limit" using encoded_record[OF enc] by blast
  have "length (body_image b) = unat len" unfolding len by (simp add: length_body_image unsealed_def)
  moreover have "unat len < 2 ^ 32" by (rule order_less_le_trans[OF unsigned_less]) simp
  moreover have "body_image b \<noteq> []" by (auto simp: body_image_def split: option.split)
  ultimately have "good_body (body_limit limit) (body_image b)"
    using frame made_code(1)[OF assms(2)] length_body_image[of b]
    by (simp add: good_body_def body_limit_def MSG_TYPE_MAX_LEN_def split: if_splits)
  then show ?thesis using sealed_record[OF enc, of ?g] by (simp add: img same)
qed

lemma written_run:
  "list_all2 (\<lambda>b img. written_record limit b = Some img) bs images \<Longrightarrow> \<forall>b\<in>set bs. made_type (rb_msg_type b) \<Longrightarrow>
   concat images = run_image (map body_image bs) \<and> (\<forall>x\<in>set (map body_image bs). good_body (body_limit limit) x)"
  by (induction rule: list_all2_induct) (auto dest: written_record_image)

text \<open>What reading the frame filed under a number returns: \<^verbatim>\<open>index.get\<close> then \<^verbatim>\<open>read_frame\<close>.\<close>

definition read_filed :: "bytes \<Rightarrow> index_repr \<Rightarrow> u64 \<Rightarrow> (store_error + stored_message) option" where
  "read_filed file ix seq = map_option (read_frame file seq) (index_get ix seq)"

definition message_of :: "record_body \<Rightarrow> stored_message" where
  "message_of b = \<lparr>sm_seq_num = rb_seq b, sm_msg_type = rb_msg_type b, sm_payload = rb_frame b\<rparr>"

lemma find_later: "find P xs = None \<Longrightarrow> find P (xs @ ys) = find P ys"
  by (induction xs) (auto split: if_splits)

lemma read_filed_run:
  assumes "length front = offset" "file = front @ run_image bodies @ rest" "length file \<le> usize_max"
    and good: "\<forall>b\<in>set bodies. good_body m b \<and> (\<exists>x. decode_body b = Inr x)"
    and ix: "index_get ix = filed offset bodies Map.empty"
  shows "read_filed file ix q = map_option (Inr \<circ> message_of)
      (find (\<lambda>b. rb_seq b = q) (rev (map (projr \<circ> decode_body) bodies)))"
proof (cases "index_get ix q")
  case None
  then have "\<forall>x\<in>set bodies. \<forall>c. decode_body x = Inr c \<longrightarrow> rb_seq c \<noteq> q"
    using filed_None ix by metis
  then have "find (\<lambda>b. rb_seq b = q) (rev (map (projr \<circ> decode_body) bodies)) = None"
    using good unfolding find_None_iff by (auto, metis sum.sel(2))
  then show ?thesis using None by (simp add: read_filed_def)
next
  case (Some e)
  then have "filed offset bodies Map.empty q = Some e" using ix by simp
  from filed_lookup[OF this] obtain pre body post b where
    split: "bodies = pre @ body # post" "decode_body body = Inr b" "rb_seq b = q"
      "e = entry_of (offset + length (run_image pre)) body"
    and fresh: "\<forall>x\<in>set post. \<forall>c. decode_body x = Inr c \<longrightarrow> rb_seq c \<noteq> q" by auto
  have "find (\<lambda>b. rb_seq b = q) (rev (map (projr \<circ> decode_body) post)) = None"
    using good fresh split(1) unfolding find_None_iff by (auto, metis sum.sel(2) UnCI insertI2)
  then have find: "find (\<lambda>b. rb_seq b = q) (rev (map (projr \<circ> decode_body) bodies)) = Some b"
    using find_later[of _ "rev (map (projr \<circ> decode_body) post)"] by (simp add: split)
  have whole: "file = (front @ run_image pre) @ record_image body @ (run_image post @ rest)"
    using assms(2) split(1) by simp
  have "length (front @ run_image pre) < 2 ^ 64"
    using assms(3) unfolding whole by (simp add: usize_max_def)
  from read_frame_at[OF whole this, of m b] good split have "read_frame file q e = Inr (message_of b)"
    by (simp add: message_of_def assms(1))
  then show ?thesis using find Some by (simp add: read_filed_def)
qed

subsection \<open>Generations\<close>

lemma newest_slot_newest:
  assumes "newest_slot images = Inr (active, slot)"
  shows "\<forall>g\<in>set (List.map_filter (map_option cs_generation \<circ> decode_slot) [fst images, snd images]). g \<le> cs_generation slot"
    and "decode_slot (if active = 0 then fst images else snd images) = Some slot"
  using assms
  by (auto simp: newest_slot_def List.map_filter_def not_less split: option.splits if_splits)

lemma fold_max_less: "fold max gs g < b \<longleftrightarrow> g < b \<and> (\<forall>x\<in>set gs. x < b)" for b :: "'a::linorder"
  by (induction gs arbitrary: g) auto

lemma top_less: "\<forall>g\<in>set gs. g < b \<Longrightarrow> d < b \<Longrightarrow> (case gs of [] \<Rightarrow> d | g # gs' \<Rightarrow> fold max gs' g) < b"
  for b :: "'a::linorder"
  by (cases gs) (simp_all add: fold_max_less)

lemma scan_finish_succeeds:
  assumes newest: "newest_slot images = Inr (active, slot)" and floor: "tail_rule rule \<Longrightarrow> unat (cs_durable_end slot) \<le> end"
    and small: "cs_generation slot < - 1" "\<And>g. rp_highest_generation r = Some g \<Longrightarrow> g < - 1"
  shows "\<exists>s. scan_finish rule h images active slot (end, t, r) = Inr s"
proof -
  let ?gs = "List.map_filter (map_option cs_generation \<circ> decode_slot) [fst images, snd images]
      @ (case rp_highest_generation r of None \<Rightarrow> [] | Some g \<Rightarrow> [g])"
  let ?top = "case ?gs of [] \<Rightarrow> cs_generation slot | g # gs \<Rightarrow> fold max gs g"
  have "\<forall>g\<in>set ?gs. g < - 1"
    using newest_slot_newest(1)[OF newest] small by (auto split: option.splits intro: order_le_less_trans)
  then have "?top < - 1" by (rule top_less) (rule small(1))
  then have "unat ?top < unat (- 1 :: u64)" by (simp only: word_less_nat_alt)
  then have "unat ?top + unat (1 :: u64) < 2 ^ LENGTH(64)" by (simp add: unsigned_minus_1_eq_mask mask_eq_exp_minus_1)
  then have "checked_add ?top 1 = Some (?top + 1)" by (rule checked_add_eq)
  then show ?thesis using floor by (auto simp: scan_finish_def Let_def)
qed

subsection \<open>Scanning a run of sealed records\<close>

lemma scanned_run:
  assumes "length prefix = DATA_START" "open_prefix prefix = Inr (h, images, active, slot)"
    and "newest_slot images = Inr (active, slot)" "cs_generation slot < - 1"
    and good: "\<forall>b\<in>set bodies. good_body m b \<and> (\<exists>x. decode_body b = Inr x)"
    and gens: "\<forall>c\<in>set (counters_of bodies). fst c < - 1"
    and torn: "torn_tail m torn" and floor: "unat (cs_durable_end slot) \<le> length (journal_of prefix bodies)"
    and small: "length (journal_of prefix bodies @ torn) \<le> usize_max"
  shows "\<exists>s r. scan_journal (journal_of prefix bodies @ torn) (length (journal_of prefix bodies @ torn)) m rule = Inr s
     \<and> scan_finish rule h images active slot
         (length (journal_of prefix bodies), torn_cut (length (journal_of prefix bodies)) torn, r) = Inr s
     \<and> index_get (rp_index r) = filed DATA_START bodies Map.empty
     \<and> rp_newest_counter r = newest_from None (counters_of bodies)"
proof -
  have "0 + length (run_image bodies) \<le> usize_max" using small by (simp add: journal_of_def)
  from replay_run[OF record_replay_new_inv this good, of DATA_START] obtain r where
    r: "replay_all replay_record DATA_START bodies replay_new = Some r"
      "index_get (rp_index r) = filed DATA_START bodies Map.empty"
      "rp_newest_counter r = newest_from None (counters_of bodies)"
      "rp_highest_generation r = highest_from None (counters_of bodies)"
    by (auto simp: replay_new_def index_new_ok)
  have "g < - 1" if "rp_highest_generation r = Some g" for g
    using highest_from_bound[of None] that gens unfolding r(4) by blast
  then obtain s where fin: "scan_finish rule h images active slot
      (length (journal_of prefix bodies), torn_cut (length (journal_of prefix bodies)) torn, r) = Inr s"
    using scan_finish_succeeds[OF assms(3) _ assms(4)] floor by blast
  have "\<forall>b\<in>set bodies. good_body m b" using good by blast
  from scan_journal_of[OF assms(1,2) this torn floor small r(1)] show ?thesis
    using fin r(2,3) by auto
qed

lemma below_top: "g \<noteq> - 1 \<Longrightarrow> g < - 1" for g :: u64
  using word_order.not_eq_extremum by blast

subsection \<open>A concrete journal\<close>

text \<open>One filed frame behind two fresh slots that vouch for it.\<close>

definition sample_body :: record_body where
  "sample_body = \<lparr>rb_seq = 1, rb_counter = Some (2, 2), rb_msg_type = Heartbeat, rb_frame = [65]\<rparr>"

definition sample_slot :: "u64 \<Rightarrow> counter_slot" where
  "sample_slot g = \<lparr>cs_generation = g, cs_next_sender = 1, cs_next_target = 1, cs_durable_end = 12328,
     cs_app_watermark = 0, cs_reset_owed = False\<rparr>"

definition sample_slots :: slot_images where
  "sample_slots = (encode_slot (sample_slot 0), encode_slot (sample_slot 1))"

definition sample_header :: journal_header where
  "sample_header = \<lparr>jh_creation_time = 0, jh_next_sender = 1, jh_next_target = 1\<rparr>"

definition sample_prefix :: bytes where
  "sample_prefix = encode_prefix sample_header sample_slots"

definition sample_journal :: bytes where
  "sample_journal = journal_of sample_prefix [body_image sample_body]"

lemma sample_newest: "newest_slot sample_slots = Inr (1, sample_slot 1)"
  by (simp add: newest_slot_def sample_slots_def slot_roundtrip sample_slot_def)

lemma sample_made: "made_type (rb_msg_type sample_body)"
  unfolding made_type_def sample_body_def by code_simp

lemma sample_image_length: "length (body_image sample_body) = 28"
  using made_code(1)[OF sample_made] by (simp add: length_body_image sample_body_def) code_simp

lemma sample_slot_length: "length (fst sample_slots) = 52" "length (snd sample_slots) = 52"
  by (simp_all add: sample_slots_def length_encodings)

lemma sample_open: "open_prefix sample_prefix = Inr (sample_header, sample_slots, 1, sample_slot 1)"
  and sample_prefix_length: "length sample_prefix = DATA_START"
proof -
  have "decode_header (encode_header sample_header) = Inr sample_header"
    by (rule journal_header_roundtrip) (simp_all add: sample_header_def)
  then show "open_prefix sample_prefix = Inr (sample_header, sample_slots, 1, sample_slot 1)"
    using encode_prefix_parts[OF sample_slot_length, of sample_header] sample_newest
    by (simp add: open_prefix_def sample_prefix_def del: One_nat_def)
  show "length sample_prefix = DATA_START"
    unfolding sample_prefix_def by (rule encode_prefix_parts(1)[OF sample_slot_length])
qed

lemma sample_record_written: "written_record 100 sample_body = Some (record_image (body_image sample_body))"
proof -
  have "length (rb_frame sample_body) \<le> unat (100 :: u32)" "length (rb_frame sample_body) + 34 < 2 ^ 32"
    by (simp_all add: sample_body_def)
  from encode_succeeds[OF this made_code(1)[OF sample_made]] obtain rec0 where
    "encode_frame_record_into (rb_seq sample_body) (map_option snd (rb_counter sample_body)) (rb_msg_type sample_body)
      (rb_frame sample_body) 100 [] = (Inr (), rec0)" by blast
  then obtain img where "written_record 100 sample_body = Some img"
    unfolding written_record_def by simp
  then show ?thesis using written_record_image[OF _ sample_made] by blast
qed

lemma sample_good: "good_body (body_limit 100) (body_image sample_body)"
  using written_record_image[OF sample_record_written sample_made] by blast

lemma sample_length: "length sample_journal = 12328"
  by (simp add: sample_journal_def journal_of_def sample_prefix_length sample_image_length DATA_START_def)

lemma sample_scan:
  "\<exists>s. scan_journal sample_journal (length sample_journal) (body_limit 100) rule = Inr s
     \<and> sn_boundary s = 12328 \<and> sn_end s = 12328
     \<and> index_get (sn_index s) 1 = Some (entry_of DATA_START (body_image sample_body))"
proof -
  have dec: "decode_body (body_image sample_body) = Inr sample_body" by (rule body_roundtrip[OF sample_made])
  have seq: "rb_seq sample_body = 1" "rb_counter sample_body = Some (2, 2)" by (simp_all add: sample_body_def)
  have len: "length (journal_of sample_prefix [body_image sample_body]) = 12328"
    using sample_length by (simp add: sample_journal_def)
  have small: "length (journal_of sample_prefix [body_image sample_body] @ []) \<le> usize_max"
    using len by (simp add: usize_max_def)
  have gen: "cs_generation (sample_slot 1) < - 1" "unat (cs_durable_end (sample_slot 1)) = 12328"
    by (rule below_top, simp_all add: sample_slot_def)
  have "(2 :: u64) < - 1" by (rule below_top) simp
  then have gens: "\<forall>c\<in>set (counters_of [body_image sample_body]). fst c < - 1" by (simp add: dec seq(2))
  obtain s r where s: "scan_journal sample_journal (length sample_journal) (body_limit 100) rule = Inr s"
      "index_get (rp_index r) = filed DATA_START [body_image sample_body] Map.empty"
    and fin: "scan_finish rule sample_header sample_slots 1 (sample_slot 1)
      (length (journal_of sample_prefix [body_image sample_body]),
       torn_cut (length (journal_of sample_prefix [body_image sample_body])) [], r) = Inr s"
    using scanned_run[OF sample_prefix_length sample_open sample_newest gen(1) _ gens _ _ small, of "body_limit 100" rule]
      sample_good dec gen(2) len by (auto simp: torn_tail_def sample_journal_def)
  show ?thesis
    using s scan_finish_parts(4,6,9)[OF fin] gen(2) len by (intro exI[of _ s]) (simp add: dec seq(1))
qed


text \<open>
  Two journals that agree below the durable boundary: the run of records a scan accepts is
  determined by the bytes, so what lies below the boundary is scanned alike in both.
\<close>

lemma record_image_inj:
  assumes "record_image a @ xs = record_image b @ ys" "length a < 2 ^ 32" "length b < 2 ^ 32"
  shows "a = b \<and> xs = ys"
proof -
  have "take 4 (record_image a @ xs) = take 4 (record_image b @ ys)" using assms(1) by simp
  then have "u32_to_le (word_of_nat (length a)) = u32_to_le (word_of_nat (length b))" by (simp add: record_image_def)
  then have "(word_of_nat (length a) :: u32) = word_of_nat (length b)" by (metis le_round(5))
  then have "unat (word_of_nat (length a) :: u32) = unat (word_of_nat (length b) :: u32)" by simp
  then have "length a = length b" using assms(2,3) by (simp add: unat_of_nat_small)
  then show ?thesis using assms(1) by (simp add: record_image_def)
qed

text \<open>The records that end at or before an offset.\<close>

lemma run_agrees:
  assumes "\<forall>b\<in>set as. good_body m b" "\<forall>b\<in>set bs. good_body m b"
    and "take k (run_image as @ xs) = take k (run_image bs @ ys)"
    and "as = pre @ post" "length (run_image pre) \<le> k" "k \<le> length (run_image bs)"
  shows "\<exists>rest. bs = pre @ rest"
  using assms
proof (induction pre arbitrary: as bs k)
  case (Cons a pre)
  obtain as' where as: "as = a # as'" "as' = pre @ post" using Cons.prems(4) by auto
  have k: "12 + length a + length (run_image pre) \<le> k" using Cons.prems(5) by simp
  then obtain b bs' where bs: "bs = b # bs'" using Cons.prems(6) by (cases bs) auto
  have front: "take (12 + length a) (record_image b @ run_image bs' @ ys) = record_image a"
  proof -
    have "take (12 + length a) (take k (run_image as @ xs)) = take (12 + length a) (take k (run_image bs @ ys))"
      using Cons.prems(3) by simp
    then show ?thesis using k by (simp add: as bs min_def split: if_splits)
  qed
  have small: "length a < 2 ^ 32" "length b < 2 ^ 32"
    using Cons.prems(1,2) as(1) bs by (auto simp: good_body_def)
  have "record_image a @ drop (12 + length a) (record_image b @ run_image bs' @ ys) = record_image b @ (run_image bs' @ ys)"
    unfolding front[symmetric] by (rule append_take_drop_id)
  then have "a = b" using record_image_inj small by blast
  have "take (k - (12 + length a)) (run_image as' @ xs) = take (k - (12 + length a)) (run_image bs' @ ys)"
  proof -
    have "drop (12 + length a) (run_image as @ xs) = run_image as' @ xs"
      "drop (12 + length a) (run_image bs @ ys) = run_image bs' @ ys" by (simp_all add: as(1) bs \<open>a = b\<close>)
    then show ?thesis using Cons.prems(3) by (metis drop_take)
  qed
  moreover have "length (run_image pre) \<le> k - (12 + length a)" "k - (12 + length a) \<le> length (run_image bs')"
    using k Cons.prems(6) by (simp_all add: bs \<open>a = b\<close>)
  ultimately obtain rest where "bs' = pre @ rest"
    using Cons.IH[of as' bs' "k - (12 + length a)"] Cons.prems(1,2) as bs by auto
  then show ?case using bs \<open>a = b\<close> by simp
qed simp

lemma filed_append: "filed offset (as @ bs) m = filed (offset + length (run_image as)) bs (filed offset as m)"
  by (induction as arbitrary: offset m) (simp_all add: add.assoc)

text \<open>A record filed later lies after the records it replaces.\<close>

lemma filed_later:
  assumes "filed offset bodies m q = Some e" "\<forall>b\<in>set bodies. good_body n b" "offset + length (run_image bodies) < 2 ^ 64"
  shows "m q = Some e \<or> offset + record_len e \<le> unat (ie_offset e) + record_len e \<and> 12 \<le> record_len e"
proof -
  from filed_lookup[OF assms(1)] consider "m q = Some e"
    | pre body post where "bodies = pre @ body # post" "e = entry_of (offset + length (run_image pre)) body" by blast
  then show ?thesis
  proof cases
    case 2
    have "offset + length (run_image pre) < 2 ^ 64" using assms(3) 2(1) by simp
    then have "unat (word_of_nat (offset + length (run_image pre)) :: u64) = offset + length (run_image pre)"
      by (intro unat_of_nat_small) simp
    then show ?thesis using 2(2) by (simp add: entry_of_def record_len_def)
  qed simp
qed

lemma entry_of_end:
  assumes "good_body m body" "offset < 2 ^ 64"
  shows "unat (ie_offset (entry_of offset body)) = offset" "record_len (entry_of offset body) = 12 + length body"
proof -
  show "unat (ie_offset (entry_of offset body)) = offset"
    unfolding entry_of_def index_entry.simps by (rule unat_of_nat_small) (use assms(2) in simp)
  show "record_len (entry_of offset body) = 12 + length body"
    using good_body_len[OF assms(1)] by (simp add: entry_of_def record_len_def)
qed

lemma durable_run:
  assumes one: "file = journal_of prefix bodies @ tail" "length prefix = DATA_START" "length file \<le> usize_max"
    and two: "file' = journal_of prefix' bodies' @ tail'" "length prefix' = DATA_START" "length file' \<le> usize_max"
    and good: "\<forall>b\<in>set bodies. good_body m b \<and> (\<exists>x. decode_body b = Inr x)"
      "\<forall>b\<in>set bodies'. good_body m b \<and> (\<exists>x. decode_body b = Inr x)"
    and same: "take k file' = take k file" and floor: "k \<le> length (journal_of prefix' bodies')"
    and filed: "filed DATA_START bodies Map.empty q = Some e" and below: "unat (ie_offset e) + record_len e \<le> k"
  shows "\<exists>e'. filed DATA_START bodies' Map.empty q = Some e' \<and> (e' = e \<or> unat (ie_offset e) + record_len e < unat (ie_offset e') + record_len e')"
proof -
  from filed_lookup[OF filed] obtain pre body post b where
    split: "bodies = pre @ body # post" "decode_body body = Inr b" "rb_seq b = q"
      "e = entry_of (DATA_START + length (run_image pre)) body" by auto
  let ?at = "DATA_START + length (run_image pre)"
  have gb: "good_body m body" using good(1) split(1) by simp
  have small: "?at < 2 ^ 64" using one split(1) by (simp add: journal_of_def usize_max_def)
  note end_of = entry_of_end[OF gb small]
  have ends: "unat (ie_offset e) + record_len e = ?at + (12 + length body)" using end_of by (simp add: split(4))
  have "take (k - DATA_START) (drop DATA_START file) = take (k - DATA_START) (drop DATA_START file')"
    using same by (metis drop_take)
  then have "take (k - DATA_START) (run_image bodies @ tail) = take (k - DATA_START) (run_image bodies' @ tail')"
    using one(2) two(2) by (simp add: one(1) two(1) journal_of_def)
  moreover have "bodies = (pre @ [body]) @ post" by (simp add: split(1))
  moreover have "length (run_image (pre @ [body])) \<le> k - DATA_START" using below ends by simp
  moreover have "k - DATA_START \<le> length (run_image bodies')" using floor two(2) by (simp add: journal_of_def)
  ultimately obtain rest where rest: "bodies' = (pre @ [body]) @ rest"
    using run_agrees[of bodies m bodies'] good by blast
  have here: "filed DATA_START (pre @ [body]) Map.empty q = Some e"
    using split(2,3) by (simp add: filed_append split(4))
  define here_map where "here_map = filed DATA_START (pre @ [body]) Map.empty"
  have all: "filed DATA_START bodies' Map.empty = filed (?at + (12 + length body)) rest here_map"
    by (simp add: rest filed_append here_map_def add.assoc del: append_assoc filed.simps)
  have "filed (?at + (12 + length body)) rest here_map q \<noteq> None"
    by (rule filed_keeps) (simp add: here here_map_def del: filed.simps)
  then obtain e' where e': "filed (?at + (12 + length body)) rest here_map q = Some e'" by blast
  have fits: "?at + (12 + length body) + length (run_image rest) < 2 ^ 64"
    using two(1,2,3) by (simp add: rest journal_of_def usize_max_def)
  have "e' = e \<or> unat (ie_offset e) + record_len e < unat (ie_offset e') + record_len e'"
    using filed_later[OF e' _ fits, of m] good(2) rest here ends by (auto simp: here_map_def simp del: filed.simps)
  then show ?thesis using e' all by simp
qed

end
