(* ===== verification/Store_Properties.thy ===== *)
theory Store_Properties
  imports Store_Written Store_Index_Map
begin

text \<open>
  Properties of the file store's journal and index, each with a witness at a concrete journal.
\<close>

subsection \<open>Recovery\<close>

text \<open>The next sender number a journal vouches for: that of the highest generation.\<close>

definition newest_sender :: "counter_slot \<Rightarrow> record_body list \<Rightarrow> u64" where
  "newest_sender slot bs =
    (case newest_from None (List.map_filter rb_counter bs) of
       Some (generation, next_sender) \<Rightarrow> if cs_generation slot < generation then next_sender else cs_next_sender slot
     | None \<Rightarrow> cs_next_sender slot)"

lemma counters_of_images:
  "\<forall>b\<in>set bs. made_type (rb_msg_type b) \<Longrightarrow> counters_of (map body_image bs) = List.map_filter rb_counter bs"
  by (induction bs) (auto simp: body_roundtrip List.map_filter_def split: option.split)

text \<open>
  C3. Crash recovery: a journal that holds its prefix, any frames as the writer sealed them and
  the torn beginning of one more is scanned, under every damage rule, to exactly the whole
  frames: the cut is at the torn record and nowhere else, and what is read back under a number
  is the last frame filed under it, its type and bytes unchanged.  The counters are those of the
  newest slot, the sender's that of the newest generation.
\<close>
theorem journal_recovers:
  assumes "0 \<le> jh_creation_time h" "jh_creation_time h < 2 ^ 63 * 1000000000"
    and "newest_slot images = Inr (active, slot)" "length (fst images) = 52" "length (snd images) = 52"
    and "cs_generation slot < - 1"
    and "\<forall>b\<in>set bs. made_type (rb_msg_type b) \<and> (\<forall>g n. rb_counter b = Some (g, n) \<longrightarrow> g < - 1)"
    and "list_all2 (\<lambda>b img. written_record limit b = Some img) bs imgs"
    and "journal = encode_prefix h images @ concat imgs" "unat (cs_durable_end slot) \<le> length journal"
    and "torn = [] \<or> (\<exists>b img k. made_type (rb_msg_type b) \<and> written_record limit b = Some img
           \<and> k < length img \<and> torn = take k img)"
    and "length (journal @ torn) \<le> usize_max"
  shows "\<exists>s. scan_journal (journal @ torn) (length (journal @ torn)) (body_limit limit) rule = Inr s
     \<and> sn_header s = h \<and> sn_next_target s = cs_next_target slot \<and> sn_next_sender s = newest_sender slot bs
     \<and> sn_end s = length journal \<and> sn_truncation s = torn_cut (length journal) torn
     \<and> (\<forall>q. read_filed journal (sn_index s) q = map_option (Inr \<circ> message_of) (find (\<lambda>b. rb_seq b = q) (rev bs)))"
proof -
  let ?bodies = "map body_image bs" and ?prefix = "encode_prefix h images"
  have made: "\<forall>b\<in>set bs. made_type (rb_msg_type b)" using assms(7) by blast
  have imgs: "concat imgs = run_image ?bodies" and good: "\<forall>b\<in>set ?bodies. good_body (body_limit limit) b"
    using written_run[OF assms(8) made] by auto
  have journal: "journal = journal_of ?prefix ?bodies" by (simp add: assms(9) imgs journal_of_def)
  have dec: "\<forall>b\<in>set ?bodies. good_body (body_limit limit) b \<and> (\<exists>x. decode_body b = Inr x)"
    using good made body_roundtrip by fastforce
  note parts = encode_prefix_parts[OF assms(4,5), of h]
  have "open_prefix ?prefix = Inr (h, images, active, slot)"
    using journal_header_roundtrip[OF assms(1,2)] parts(2-4) assms(3) by (simp add: open_prefix_def del: One_nat_def)
  have torn: "torn_tail (body_limit limit) torn"
    using assms(11) unfolding torn_tail_def by (metis gr0I take0 written_record_image)
  have gens: "\<forall>c\<in>set (counters_of ?bodies). fst c < - 1"
    using assms(7) by (force simp: counters_of_images[OF made] List.map_filter_def)
  obtain s r where scan: "scan_journal (journal @ torn) (length (journal @ torn)) (body_limit limit) rule = Inr s"
      and fin: "scan_finish rule h images active slot (length journal, torn_cut (length journal) torn, r) = Inr s"
      and r: "index_get (rp_index r) = filed DATA_START ?bodies Map.empty"
        "rp_newest_counter r = newest_from None (List.map_filter rb_counter bs)"
    using scanned_run[OF parts(1) \<open>open_prefix ?prefix = _\<close> assms(3,6) dec gens torn, of rule] assms(10,12)
    unfolding journal[symmetric] counters_of_images[OF made] by blast
  have "map (projr \<circ> decode_body) ?bodies = bs" using made body_roundtrip by (simp add: map_idI)
  then have "read_filed journal (sn_index s) q = map_option (Inr \<circ> message_of) (find (\<lambda>b. rb_seq b = q) (rev bs))" for q
    using read_filed_run[OF parts(1), of journal ?bodies "[]" "body_limit limit" "sn_index s" q] dec r(1) assms(12)
    by (simp add: scan_finish_parts(4)[OF fin]) (simp add: journal journal_of_def)
  then show ?thesis
    using scan scan_finish_parts[OF fin] r(2) by (intro exI[of _ s]) (simp add: newest_sender_def)
qed

text \<open>A journal of one frame, with the first twenty bytes of a second one behind it.\<close>
theorem journal_recovers_witness:
  "\<exists>s. scan_journal (sample_journal @ take 20 (record_image (body_image sample_body)))
        (length (sample_journal @ take 20 (record_image (body_image sample_body)))) (body_limit 100) (Tail 1) = Inr s
     \<and> sn_end s = 12328 \<and> sn_truncation s = torn_cut 12328 (take 20 (record_image (body_image sample_body)))
     \<and> read_filed sample_journal (sn_index s) 1 = Some (Inr (message_of sample_body))"
proof -
  let ?torn = "take 20 (record_image (body_image sample_body))"
  have hyps: "0 \<le> jh_creation_time sample_header" "jh_creation_time sample_header < 2 ^ 63 * 1000000000"
    "\<forall>b\<in>set [sample_body]. made_type (rb_msg_type b) \<and> (\<forall>g n. rb_counter b = Some (g, n) \<longrightarrow> g < - 1)"
    "list_all2 (\<lambda>b img. written_record 100 b = Some img) [sample_body] [record_image (body_image sample_body)]"
    "sample_journal = encode_prefix sample_header sample_slots @ concat [record_image (body_image sample_body)]"
    "cs_generation (sample_slot 1) < - 1" "unat (cs_durable_end (sample_slot 1)) \<le> length sample_journal"
    "?torn = [] \<or> (\<exists>b img k. made_type (rb_msg_type b) \<and> written_record 100 b = Some img \<and> k < length img \<and> ?torn = take k img)"
    "length (sample_journal @ ?torn) \<le> usize_max"
  proof -
    show "\<forall>b\<in>set [sample_body]. made_type (rb_msg_type b) \<and> (\<forall>g n. rb_counter b = Some (g, n) \<longrightarrow> g < - 1)"
      using sample_made below_top[of 2] by (simp add: sample_body_def)
    show "cs_generation (sample_slot 1) < - 1" by (rule below_top) (simp add: sample_slot_def)
    show "?torn = [] \<or> (\<exists>b img k. made_type (rb_msg_type b) \<and> written_record 100 b = Some img \<and> k < length img \<and> ?torn = take k img)"
      using sample_made sample_record_written sample_image_length
      by (intro disjI2 exI[of _ sample_body] exI[of _ "record_image (body_image sample_body)"] exI[of _ 20]) simp
    show "sample_journal = encode_prefix sample_header sample_slots @ concat [record_image (body_image sample_body)]"
      by (simp add: sample_journal_def journal_of_def sample_prefix_def)
  qed (use sample_length sample_record_written sample_image_length in
        \<open>simp_all add: sample_header_def sample_slot_def usize_max_def\<close>)
  obtain s where "scan_journal (sample_journal @ ?torn) (length (sample_journal @ ?torn)) (body_limit 100) (Tail 1) = Inr s"
      "sn_end s = length sample_journal" "sn_truncation s = torn_cut (length sample_journal) ?torn"
      "\<And>q. read_filed sample_journal (sn_index s) q
        = map_option (Inr \<circ> message_of) (find (\<lambda>b. rb_seq b = q) (rev [sample_body]))"
    using journal_recovers[OF hyps(1,2) sample_newest sample_slot_length hyps(6,3,4,5,7,8,9), of "Tail 1"] by blast
  then show ?thesis by (intro exI[of _ s]) (simp add: sample_length, simp add: sample_body_def)
qed

text \<open>
  Whatever a scan files can be read: if a scan of any file succeeds, then every number in its
  index is that of a whole, checked record below the cut, and reading it from the file cut there
  returns a frame filed under that number.
\<close>
theorem scan_reads_back:
  assumes "scan_journal file (length file) max_body rule = Inr s" "length file \<le> usize_max"
    and "index_get (sn_index s) q = Some e"
  shows "unat (ie_offset e) + record_len e \<le> sn_end s
    \<and> (\<exists>ty frame. read_frame (take (sn_end s) file) q e = Inr \<lparr>sm_seq_num = q, sm_msg_type = ty, sm_payload = frame\<rparr>)"
proof -
  obtain prefix bodies tail h images active slot r where run: "file = journal_of prefix bodies @ tail"
      "length prefix = DATA_START" "\<forall>b\<in>set bodies. good_body max_body b \<and> (\<exists>x. decode_body b = Inr x)"
      "sn_end s = length (journal_of prefix bodies)" "index_get (rp_index r) = filed DATA_START bodies Map.empty"
      "scan_finish rule h images active slot (sn_end s, sn_truncation s, r) = Inr s"
    using scan_journal_run[OF assms(1,2)] by blast
  have cut: "take (sn_end s) file = journal_of prefix bodies" by (simp add: run(1,4))
  have "filed DATA_START bodies Map.empty q = Some e"
    using assms(3) scan_finish_parts(4)[OF run(6)] run(5) by simp
  from filed_lookup[OF this] obtain pre body post b where
    split: "bodies = pre @ body # post" "decode_body body = Inr b" "rb_seq b = q"
      "e = entry_of (DATA_START + length (run_image pre)) body" by auto
  have whole: "journal_of prefix bodies = (prefix @ run_image pre) @ record_image body @ run_image post"
    by (simp add: journal_of_def split(1))
  have small: "length (prefix @ run_image pre) < 2 ^ 64"
    using assms(2) by (simp add: run(1) whole usize_max_def)
  have good: "good_body max_body body" using run(3) split(1) by simp
  have "unat (ie_offset e) + record_len e \<le> sn_end s"
    using entry_of_end[OF good small] by (simp add: run(4) split(4) run(2)) (simp add: whole run(2))
  moreover have "read_frame (take (sn_end s) file) q e = Inr (message_of b)"
    using read_frame_at[OF whole small good split(2)] unfolding cut split(4) by (simp add: run(2) split(3) message_of_def)
  ultimately show ?thesis by (simp add: message_of_def split(3))
qed

theorem scan_reads_back_witness:
  "\<exists>ty frame. read_frame sample_journal 1 (entry_of DATA_START (body_image sample_body))
    = Inr \<lparr>sm_seq_num = 1, sm_msg_type = ty, sm_payload = frame\<rparr>"
proof -
  obtain s where s: "scan_journal sample_journal (length sample_journal) (body_limit 100) Anywhere = Inr s" "sn_end s = 12328"
      "index_get (sn_index s) 1 = Some (entry_of DATA_START (body_image sample_body))"
    using sample_scan by blast
  have "length sample_journal \<le> usize_max" by (simp add: sample_length usize_max_def)
  from scan_reads_back[OF s(1) this s(3)] show ?thesis by (simp add: s(2) sample_length)
qed

text \<open>
  Recovery converges: scanning the file again, cut where the first scan said, succeeds with
  the same header, slots, counters, index and end, and there is nothing more to cut.
\<close>
theorem rescan_is_stable:
  assumes "scan_journal file (length file) max_body rule = Inr s" "length file \<le> usize_max"
  shows "scan_journal (take (sn_end s) file) (sn_end s) max_body rule = Inr (s\<lparr>sn_truncation := None\<rparr>)"
proof -
  obtain prefix bodies tail h images active slot r where run: "file = journal_of prefix bodies @ tail"
      "length prefix = DATA_START" "open_prefix prefix = Inr (h, images, active, slot)"
      "\<forall>b\<in>set bodies. good_body max_body b \<and> (\<exists>x. decode_body b = Inr x)"
      "replay_all replay_record DATA_START bodies replay_new = Some r"
      "sn_end s = length (journal_of prefix bodies)"
      "scan_finish rule h images active slot (sn_end s, sn_truncation s, r) = Inr s"
    using scan_journal_run[OF assms] by blast
  have good: "\<forall>b\<in>set bodies. good_body max_body b" and torn: "torn_tail max_body []"
    using run(4) by (auto simp: torn_tail_def)
  have "length (journal_of prefix bodies @ []) \<le> usize_max" using assms(2) by (simp add: run(1))
  from scan_journal_of[OF run(2,3) good torn _ this run(5)] scan_finish_parts(11)[OF run(7)] run(6)
  have "scan_journal (take (sn_end s) file) (sn_end s) max_body rule = scan_finish rule h images active slot (sn_end s, None, r)"
    by (simp add: run(1) torn_cut_def)
  then show ?thesis using scan_finish_parts(12)[OF run(7)] by simp
qed

theorem rescan_is_stable_witness:
  "\<exists>s. scan_journal sample_journal 12328 (body_limit 100) (Tail 1) = Inr s \<and> sn_truncation s = None"
proof -
  obtain s where s: "scan_journal sample_journal (length sample_journal) (body_limit 100) (Tail 1) = Inr s" "sn_end s = 12328"
    using sample_scan by blast
  have "length sample_journal \<le> usize_max" by (simp add: sample_length usize_max_def)
  from rescan_is_stable[OF s(1) this] show ?thesis
    by (intro exI[of _ "s\<lparr>sn_truncation := None\<rparr>"]) (simp add: s(2) sample_length)
qed

text \<open>
  C33. Durable records survive: let a journal scan to s, and let a crash replace everything from
  the durable boundary of its newest slot on by any bytes.  Then if the damaged file is opened
  under a tail rule at all, it reaches at least that boundary, and every frame whose record lay
  below it is still filed: at the same place, or replaced by a later record for its number.
\<close>
theorem durable_records_survive:
  assumes "scan_journal file (length file) max_body rule = Inr s" "length file \<le> usize_max"
    and "scan_journal file' (length file') max_body (Tail records) = Inr s'" "length file' \<le> usize_max"
    and "take (sn_boundary s) file' = take (sn_boundary s) file" "DATA_START \<le> sn_boundary s" "sn_boundary s \<le> length file"
  shows "sn_boundary s \<le> sn_end s' \<and> (\<forall>q e. index_get (sn_index s) q = Some e
      \<longrightarrow> unat (ie_offset e) + record_len e \<le> sn_boundary s
      \<longrightarrow> (\<exists>e'. index_get (sn_index s') q = Some e'
            \<and> (e' = e \<or> unat (ie_offset e) + record_len e < unat (ie_offset e') + record_len e')))"
proof -
  obtain prefix bodies tail h images active slot r where one: "file = journal_of prefix bodies @ tail"
      "length prefix = DATA_START" "open_prefix prefix = Inr (h, images, active, slot)"
      "\<forall>b\<in>set bodies. good_body max_body b \<and> (\<exists>x. decode_body b = Inr x)"
      "index_get (rp_index r) = filed DATA_START bodies Map.empty"
      "scan_finish rule h images active slot (sn_end s, sn_truncation s, r) = Inr s"
    using scan_journal_run[OF assms(1,2)] by blast
  obtain prefix' bodies' tail' h' images' active' slot' r' where two: "file' = journal_of prefix' bodies' @ tail'"
      "length prefix' = DATA_START" "open_prefix prefix' = Inr (h', images', active', slot')"
      "\<forall>b\<in>set bodies'. good_body max_body b \<and> (\<exists>x. decode_body b = Inr x)"
      "sn_end s' = length (journal_of prefix' bodies')"
      "index_get (rp_index r') = filed DATA_START bodies' Map.empty"
      "scan_finish (Tail records) h' images' active' slot' (sn_end s', sn_truncation s', r') = Inr s'"
    using scan_journal_run[OF assms(3,4)] by blast
  have "take DATA_START file' = take DATA_START file"
    using assms(5,6) by (metis min.absorb1 take_take)
  then have "prefix' = prefix" using one(2) two(2) by (simp add: one(1) two(1) journal_of_def)
  then have "slot' = slot" using one(3) two(3) by simp
  then have reach: "sn_boundary s \<le> sn_end s'"
    using scan_finish_parts(9)[OF one(6)] scan_finish_parts(11)[OF two(7)] by (simp add: tail_rule_def)
  show ?thesis
  proof (intro conjI allI impI)
    fix q e assume e: "index_get (sn_index s) q = Some e" "unat (ie_offset e) + record_len e \<le> sn_boundary s"
    then have "filed DATA_START bodies Map.empty q = Some e"
      using scan_finish_parts(4)[OF one(6)] one(5) by simp
    from durable_run[OF one(1,2) assms(2) two(1,2) assms(4) one(4) two(4) assms(5) _ this e(2)] reach two(5)
    show "\<exists>e'. index_get (sn_index s') q = Some e'
        \<and> (e' = e \<or> unat (ie_offset e) + record_len e < unat (ie_offset e') + record_len e')"
      using scan_finish_parts(4)[OF two(7)] two(6) by simp
  qed (rule reach)
qed

theorem durable_records_survive_witness:
  "\<exists>s e. scan_journal sample_journal 12328 (body_limit 100) (Tail 1) = Inr s \<and> index_get (sn_index s) 1 = Some e"
proof -
  obtain s where s: "scan_journal sample_journal (length sample_journal) (body_limit 100) (Tail 1) = Inr s"
      "sn_boundary s = 12328" "index_get (sn_index s) 1 = Some (entry_of DATA_START (body_image sample_body))"
    using sample_scan by blast
  have "length sample_journal \<le> usize_max" "DATA_START \<le> sn_boundary s" "sn_boundary s \<le> length sample_journal"
    by (simp_all add: sample_length usize_max_def s(2) DATA_START_def)
  from durable_records_survive[OF s(1) this(1) s(1) this(1) refl this(2,3)] s(3)
  have "sn_boundary s \<le> sn_end s" "unat (ie_offset (entry_of DATA_START (body_image sample_body)))
      + record_len (entry_of DATA_START (body_image sample_body)) \<le> sn_boundary s \<Longrightarrow> \<exists>e. index_get (sn_index s) 1 = Some e"
    by blast+
  moreover have "unat (ie_offset (entry_of DATA_START (body_image sample_body)))
      + record_len (entry_of DATA_START (body_image sample_body)) \<le> sn_boundary s"
    using entry_of_end[OF sample_good, of DATA_START] by (simp add: s(2) DATA_START_def sample_image_length)
  ultimately show ?thesis using s(1) sample_length by auto
qed

lemma drop_record_image [simp]: "drop 12 (record_image body) = body"
  by (simp add: record_image_def)

lemma record_image_crc: "take 12 (record_image b) = take 12 (record_image c) \<Longrightarrow> crc32 b = crc32 c"
  by (simp add: record_image_def) (metis le_round(5))

lemma twelve_words: "length h = 12 \<Longrightarrow> \<exists>a b c. h = u32_to_le a @ u32_to_le b @ u32_to_le c"
proof -
  assume len: "length h = 12"
  have "h = take 4 h @ take 4 (drop 4 h) @ drop 4 (drop 4 h)" by (simp only: append_take_drop_id)
  moreover have "u32_to_le (u32_from_le (take 4 h)) = take 4 h" "u32_to_le (u32_from_le (take 4 (drop 4 h))) = take 4 (drop 4 h)"
    "u32_to_le (u32_from_le (drop 4 (drop 4 h))) = drop 4 (drop 4 h)"
    using len by (intro u32_le_from, simp)+
  ultimately show ?thesis by metis
qed

text \<open>A record that is read, under whatever entry of its length, is the image of its body.\<close>

lemma read_frame_image:
  assumes good: "good_body max_body body" and at: "length front < 2 ^ 64"
    and len: "length record = 12 + length body"
    and read: "read_frame (front @ record @ rest) q (entry_of (length front) body) \<noteq> Inl StoreCorrupted"
  shows "record = record_image (drop 12 record)"
proof -
  let ?head = "take 12 record" and ?body = "drop 12 record" and ?len = "word_of_nat (length body) :: u32"
  have ul: "unat ?len = length body" by (rule good_body_len[OF good])
  have uo: "unat (word_of_nat (length front) :: u64) = length front" using at by (intro unat_of_nat_small) simp
  have lens: "length ?head = 12" "length ?body = length body" using len by simp_all
  have add: "usize_add (length body) 12 = Some (12 + length body)"
    using good by (simp add: usize_add_def usize_max_def good_body_def)
  have range: "read_record_at (front @ record @ rest) (12 + length body) (length front) = Some record"
    using len by (simp add: read_record_at_def get_range_def)
  obtain ln check crc where bytes: "?head = u32_to_le ln @ u32_to_le check @ u32_to_le crc"
    using twelve_words[OF lens(1)] by blast
  then have head: "record_head ?head = Inr (ln, check, crc)" using record_head_Inr[OF lens(1)] by blast
  have off: "unat (ie_offset (entry_of (length front) body)) = length front" "ie_body_len (entry_of (length front) body) = ?len"
    using uo by (simp_all add: entry_of_def)
  have "read_frame (front @ record @ rest) q (entry_of (length front) body) = Inl StoreCorrupted"
    if "ln \<noteq> ?len \<or> check \<noteq> NOT ln \<or> crc32 ?body \<noteq> crc"
    using that len by (simp add: read_frame_def read_record_into_def off ul add range Let_def RECORD_HEADER_LEN_def head)
  then have "ln = ?len \<and> check = NOT ln \<and> crc32 ?body = crc" using read by blast
  then have "?head = u32_to_le ?len @ u32_to_le (NOT ?len) @ u32_to_le (crc32 ?body)" using bytes by simp
  then have "?head @ ?body = record_image ?body" using lens(2) by (simp add: record_image_def)
  then show ?thesis by simp
qed

text \<open>
  C34. A damaged record is never returned: change a run of at most four consecutive bytes of a record,
  in its lengths and checksum or in its body but not across the two, and reading it is refused, under
  whatever number, as corrupted.  (The checksum stands before the body it is of, so a run across the
  border of the two may change both to agree.)
\<close>
theorem damaged_record_refused:
  assumes "good_body max_body body" "record_image body = before @ xs @ behind"
    and "length ys = length xs" "length xs \<le> 4" "ys \<noteq> xs"
    and "length before + length xs \<le> 12 \<or> 12 \<le> length before" "length front < 2 ^ 64"
  shows "read_frame (front @ before @ ys @ behind @ rest) q (entry_of (length front) body) = Inl StoreCorrupted"
proof (rule ccontr)
  assume read: "\<not> ?thesis"
  let ?bad = "before @ ys @ behind"
  have len: "length ?bad = 12 + length body"
    using arg_cong[OF assms(2), of length] assms(3) by (simp add: record_image_def)
  define b where "b = drop 12 ?bad"
  have image: "before @ ys @ behind = record_image b"
    using read_frame_image[OF assms(1,7) len, of rest q] read by (simp add: b_def)
  have body: "body = drop 12 (before @ xs @ behind)" using assms(2) by (metis drop_record_image)
  show False
  proof (cases "length before + length xs \<le> 12")
    case True
    then have "b = body" using assms(3) by (simp add: b_def body)
    then show False using image assms(2,3,5) by simp
  next
    case False
    then have at: "12 \<le> length before" using assms(6) by simp
    then have "take 12 (record_image b) = take 12 (record_image body)" by (simp flip: image add: assms(2))
    then have "crc32 b = crc32 body" by (rule record_image_crc)
    then have "crc32 (drop 12 before @ ys @ behind) = crc32 (drop 12 before @ xs @ behind)" using at by (simp add: b_def body)
    then show False using crc32_burst[of ys xs "drop 12 before" behind] assms(3-5) by simp
  qed
qed

theorem damaged_record_refused_witness:
  "read_frame (take 12 (record_image [1, 2, 3]) @ [1, 9, 3]) 1 (entry_of 0 [1, 2, 3]) = Inl StoreCorrupted"
  using damaged_record_refused[of 3 "[1, 2, 3]" "take 12 (record_image [1, 2, 3]) @ [1]" "[2]" "[3]" "[9]" "[]" "[]" 1]
  by (simp add: good_body_def record_image_def)

subsection \<open>The index, the checksum and the slots\<close>

text \<open>
  C35. The index is a finite map: after any insertions, in any order, sparse or dense, it returns
  for each number the last entry filed, a range walk lists exactly the numbers filed in it in
  ascending order, and its length is how many numbers are filed.
\<close>
theorem index_is_map:
  assumes "\<forall>(q, e)\<in>set ops. ie_body_len e \<noteq> 0"
  shows "let ix = fold (\<lambda>(q, e) ix. snd (index_insert q e ix)) ops index_new in
    index_get ix = map_of (rev ops) \<and> listing (map_of (rev ops)) lo hi (frames_list (index_range ix lo hi))
      \<and> index_len ix = card (fst ` set ops)"
proof -
  have step: "index_ok (fold (\<lambda>(q, e) ix. snd (index_insert q e ix)) ops ix)
      \<and> index_get (fold (\<lambda>(q, e) ix. snd (index_insert q e ix)) ops ix) = index_get ix ++ map_of (rev ops)"
    if "index_ok ix" "\<forall>(q, e)\<in>set ops. ie_body_len e \<noteq> 0" for ix ops
    using that
  proof (induction ops arbitrary: ix)
    case (Cons op ops)
    obtain q e where op: "op = (q, e)" by (cases op)
    obtain old ix1 where ins: "index_insert q e ix = (old, ix1)" by fastforce
    then have "index_ok ix1" "index_get ix1 = (index_get ix)(q \<mapsto> e)"
      using index_insert_map[OF Cons.prems(1) _ ins] Cons.prems(2) op by auto
    then show ?case using Cons.IH[of ix1] Cons.prems(2)
      by (simp add: op ins map_add_assoc[symmetric]) (simp add: map_add_def fun_eq_iff split: option.split)
  qed simp
  from step[OF index_new_ok(1) assms] show ?thesis
    using index_range_lists[of "fold (\<lambda>(q, e) ix. snd (index_insert q e ix)) ops index_new" lo hi]
      index_len_card[of "fold (\<lambda>(q, e) ix. snd (index_insert q e ix)) ops index_new"]
    by (simp add: Let_def index_new_ok dom_map_of_conv_image_fst)
qed

theorem index_is_map_witness:
  "index_get (fold (\<lambda>(q, e) ix. snd (index_insert q e ix)) [(7, entry_of 12288 [1]), (1, entry_of 12301 [2])] index_new) 7
    = Some (entry_of 12288 [1])"
  using index_is_map[of "[(7, entry_of 12288 [1]), (1, entry_of 12301 [2])]" 0 0]
  by (simp add: Let_def entry_of_def)

text \<open>
  The table-driven checksum is the CRC-32 shift register fed bit by bit, on every byte string.
\<close>
theorem crc_is_register: "crc32 bs = crc32_register bs"
  by (rule crc32_is_register)

text \<open>A counter slot is read back as it was written, every field and the owed-reset flag.\<close>
theorem slot_read_back: "decode_slot (encode_slot s) = Some s"
  by (rule slot_roundtrip)

end
