(* ===== verification/Store_Disk.thy ===== *)
theory Store_Disk
  imports Store_Scan
begin

text \<open>
  The file system as the file store's journal sees it.  Every call that can fail takes the next
  outcome of a schedule; a failed write has written a part of its bytes.  The store holds an open
  file; after a rename has put another file in its place the open one is detached from the path
  until the path is opened again.  An exhausted schedule means that nothing fails any more.  The clock the store reads is part of the disk: nanoseconds since
  the Unix epoch, in 64 bits.
\<close>

datatype io_outcome = IoFine | IoFailed nat

record disk =
  dk_path :: bytes
  dk_detached :: "bytes option"
  dk_outcomes :: "io_outcome list"
  dk_clock :: u64

datatype file_ref = OpenFile | PathFile

definition file_bytes :: "file_ref \<Rightarrow> disk \<Rightarrow> bytes" where
  "file_bytes f d = (case (f, dk_detached d) of (OpenFile, Some old) \<Rightarrow> old | _ \<Rightarrow> dk_path d)"

definition put_bytes :: "file_ref \<Rightarrow> bytes \<Rightarrow> disk \<Rightarrow> disk" where
  "put_bytes f bs d = (case (f, dk_detached d) of (OpenFile, Some _) \<Rightarrow> d\<lparr>dk_detached := Some bs\<rparr> | _ \<Rightarrow> d\<lparr>dk_path := bs\<rparr>)"

definition next_outcome :: "disk \<Rightarrow> io_outcome \<times> disk" where
  "next_outcome d = (case dk_outcomes d of [] \<Rightarrow> (IoFine, d) | x # xs \<Rightarrow> (x, d\<lparr>dk_outcomes := xs\<rparr>))"

type_synonym 'a io = "(disk, store_error, 'a) fallible"

text \<open>A call whose only effect is that it works or fails: open, metadata, flush, directory flush.\<close>

definition attempt :: "unit io" where
  "attempt d = (case next_outcome d of (IoFine, d') \<Rightarrow> (Inr (), d') | (IoFailed _, d') \<Rightarrow> (Inl StoreIo, d'))"

definition poke :: "nat \<Rightarrow> bytes \<Rightarrow> bytes \<Rightarrow> bytes" where
  "poke offset bs file = take offset (file @ replicate (offset - length file) 0) @ bs @ drop (offset + length bs) file"

definition write_at :: "file_ref \<Rightarrow> bytes \<Rightarrow> nat \<Rightarrow> unit io" where
  "write_at f bs offset d =
    (case next_outcome d of
       (IoFine, d') \<Rightarrow> (Inr (), put_bytes f (poke offset bs (file_bytes f d')) d')
     | (IoFailed n, d') \<Rightarrow> (Inl StoreIo, put_bytes f (poke offset (take n bs) (file_bytes f d')) d'))"

definition set_len :: "file_ref \<Rightarrow> nat \<Rightarrow> unit io" where
  "set_len f n d =
    (case next_outcome d of
       (IoFine, d') \<Rightarrow> (Inr (), put_bytes f (take n (file_bytes f d' @ replicate (n - length (file_bytes f d')) 0)) d')
     | (IoFailed _, d') \<Rightarrow> (Inl StoreIo, d'))"

definition sync_data :: "unit io" where
  "sync_data = attempt"

definition read_at :: "file_ref \<Rightarrow> usize \<Rightarrow> nat \<Rightarrow> bytes option io" where
  "read_at f n offset = thenS attempt (\<lambda>_ d. (Inr (read_record_at (file_bytes f d) n offset), d))"

text \<open>The path now names another file; the open one keeps its bytes.\<close>

definition rename_over :: "bytes \<Rightarrow> unit io" where
  "rename_over bs = thenS attempt (\<lambda>_ d. (Inr (), d\<lparr>dk_path := bs, dk_detached := Some (file_bytes OpenFile d)\<rparr>))"

definition adopt :: "disk \<Rightarrow> disk" where
  "adopt d = d\<lparr>dk_detached := None\<rparr>"

subsection \<open>Facts\<close>

lemma next_outcome_keeps [simp]:
  "dk_path (snd (next_outcome d)) = dk_path d" "dk_detached (snd (next_outcome d)) = dk_detached d"
  by (simp_all add: next_outcome_def split: list.split)

lemma file_bytes_cong: "dk_path d' = dk_path d \<Longrightarrow> dk_detached d' = dk_detached d \<Longrightarrow> file_bytes f d' = file_bytes f d"
  by (simp add: file_bytes_def split: file_ref.split option.split)

lemma put_bytes_simps [simp]:
  "file_bytes f (put_bytes f bs d) = bs"
  "dk_detached (put_bytes PathFile bs d) = dk_detached d" "dk_path (put_bytes PathFile bs d) = bs"
  "dk_detached (put_bytes f bs d) = None \<longleftrightarrow> dk_detached d = None"
  "put_bytes f (file_bytes f d) d = d"
  by (auto simp: file_bytes_def put_bytes_def split: file_ref.splits option.splits)

lemma attached: "dk_detached d = None \<Longrightarrow> file_bytes f d = dk_path d"
  "dk_detached d = None \<Longrightarrow> dk_path (put_bytes f bs d) = bs"
  by (auto simp: file_bytes_def put_bytes_def split: file_ref.splits)

lemma attempt_keeps:
  assumes "attempt d = (r, d')"
  shows "dk_path d' = dk_path d" "dk_detached d' = dk_detached d"
  using assms by (auto simp: attempt_def next_outcome_def split: list.splits io_outcome.splits)

lemma poke_append: "poke (length file) bs file = file @ bs"
  by (simp add: poke_def)

lemma poke_nothing: "offset \<le> length file \<Longrightarrow> poke offset [] file = file"
  by (simp add: poke_def)

lemma write_at_cases:
  assumes "write_at f bs offset d = (r, d')" "dk_detached d = None"
  shows "dk_detached d' = None"
    and "r = Inr () \<Longrightarrow> dk_path d' = poke offset bs (dk_path d)"
    and "offset \<le> length (dk_path d) \<Longrightarrow> \<exists>n. dk_path d' = poke offset (take n bs) (dk_path d)"
proof -
  obtain x e where x: "next_outcome d = (x, e)" by fastforce
  then have e: "dk_path e = dk_path d" "dk_detached e = None"
    using next_outcome_keeps[of d] assms(2) by simp_all
  show "dk_detached d' = None" "r = Inr () \<Longrightarrow> dk_path d' = poke offset bs (dk_path d)"
    using assms(1) x e by (auto simp: write_at_def attached split: io_outcome.splits if_splits)
  show "\<exists>n. dk_path d' = poke offset (take n bs) (dk_path d)" if "offset \<le> length (dk_path d)"
  proof -
    have "\<exists>n. dk_path d = poke offset (take n bs) (dk_path d)"
      by (intro exI[of _ 0]) (simp add: poke_nothing[OF that])
    moreover have "\<exists>n. poke offset bs (dk_path d) = poke offset (take n bs) (dk_path d)"
      by (intro exI[of _ "length bs"]) simp
    ultimately show ?thesis
      using assms(1) x e by (auto simp: write_at_def attached split: io_outcome.splits if_splits)
  qed
qed

lemma set_len_cases:
  assumes "set_len f n d = (r, d')" "dk_detached d = None"
  shows "dk_detached d' = None"
    and "r = Inr () \<Longrightarrow> n \<le> length (dk_path d) \<Longrightarrow> dk_path d' = take n (dk_path d)"
    and "r \<noteq> Inr () \<Longrightarrow> dk_path d' = dk_path d"
proof -
  obtain x e where x: "next_outcome d = (x, e)" by fastforce
  then have "dk_path e = dk_path d" "dk_detached e = None"
    using next_outcome_keeps[of d] assms(2) by simp_all
  then show "dk_detached d' = None" "r = Inr () \<Longrightarrow> n \<le> length (dk_path d) \<Longrightarrow> dk_path d' = take n (dk_path d)"
      "r \<noteq> Inr () \<Longrightarrow> dk_path d' = dk_path d"
    using assms(1) x by (auto simp: set_len_def attached split: io_outcome.splits if_splits)
qed

lemma read_at_cases:
  assumes "read_at f n offset d = (r, d')"
  shows "dk_path d' = dk_path d" "dk_detached d' = dk_detached d"
    and "r = Inr x \<Longrightarrow> x = read_record_at (file_bytes f d) n offset"
proof -
  obtain r1 d1 where a: "attempt d = (r1, d1)" by fastforce
  note keeps = attempt_keeps[OF a]
  have d': "d' = d1" and r: "r = Inr x \<Longrightarrow> x = read_record_at (file_bytes f d1) n offset"
    using assms a by (cases r1; auto simp: read_at_def thenS_def)+
  show "dk_path d' = dk_path d" "dk_detached d' = dk_detached d" using keeps d' by simp_all
  show "r = Inr x \<Longrightarrow> x = read_record_at (file_bytes f d) n offset" using r file_bytes_cong[OF keeps] by simp
qed

lemma poke_cut: "take (length file) (poke (length file) bs file) = file"
  by (simp add: poke_append)

lemma poke_within:
  "length a = offset \<Longrightarrow> length b = length bs \<Longrightarrow> poke offset bs (a @ b @ c) = a @ bs @ c"
  by (simp add: poke_def)

lemma poke_partial:
  "length a = offset \<Longrightarrow> length b = length bs \<Longrightarrow> \<exists>x. length x = length bs \<and> poke offset (take n bs) (a @ b @ c) = a @ x @ c"
  by (intro exI[of _ "take n bs @ drop n b"]) (auto simp: poke_def min_def)

end
