(* ===== verification/Store_Journal.thy ===== *)
theory Store_Journal
  imports Store_Disk
begin

text \<open>
  The file store: its configuration, the open journal the writer thread owns, and every call it
  serves.  The state of a call is the journal with the disk in it, returned on failure as well.
  \<open>shared\<close> holds what the synchronous getters read.  The pool of record buffers, the test probes
  and the lock file have no effect on the answers and are left out.
\<close>

unbundle bit_operations_syntax

subsection \<open>Configuration\<close>

datatype sync_policy = EveryWrite | EveryN u32 | SyncNever

definition flushes :: "sync_policy \<Rightarrow> bool" where
  "flushes policy \<longleftrightarrow> policy \<noteq> SyncNever"

definition damage_rule_of :: "sync_policy \<Rightarrow> damage_rule" where
  "damage_rule_of policy =
    (case policy of EveryWrite \<Rightarrow> Tail 1 | EveryN every \<Rightarrow> Tail (unat every) | SyncNever \<Rightarrow> Anywhere)"

record file_store_config =
  fc_name :: bytes
  fc_sync_policy :: sync_policy
  fc_max_frame_size :: u32
  fc_create_if_missing :: bool
  fc_compaction_threshold :: "nat option"

datatype file_config_error =
    StoreNameEmpty
  | StoreNameTooLong usize usize
  | StoreNameIllegal u8
  | StoreNameLeadingDot
  | StoreNameReserved bytes
  | MaxFrameSizeTooLarge u32 u32

definition MAX_STORE_NAME_LEN :: usize where "MAX_STORE_NAME_LEN = 128"
definition MAX_FRAME_SIZE_LIMIT :: u32 where "MAX_FRAME_SIZE_LIMIT = 64 * 1024 * 1024"
definition DEFAULT_MAX_FRAME_SIZE :: u32 where "DEFAULT_MAX_FRAME_SIZE = 1024 * 1024"

definition WINDOWS_RESERVED_NAMES :: "bytes list" where
  "WINDOWS_RESERVED_NAMES = map bytes_of
    [''CON'', ''PRN'', ''AUX'', ''NUL'', ''COM1'', ''COM2'', ''COM3'', ''COM4'', ''COM5'', ''COM6'', ''COM7'', ''COM8'',
     ''COM9'', ''LPT1'', ''LPT2'', ''LPT3'', ''LPT4'', ''LPT5'', ''LPT6'', ''LPT7'', ''LPT8'', ''LPT9'']"

definition name_character :: "u8 \<Rightarrow> bool" where
  "name_character c \<longleftrightarrow> 48 \<le> c \<and> c \<le> 57 \<or> 65 \<le> c \<and> c \<le> 90 \<or> 97 \<le> c \<and> c \<le> 122
     \<or> c = 46 \<or> c = 45 \<or> c = 95"

definition ascii_upper :: "u8 \<Rightarrow> u8" where
  "ascii_upper c = (if 97 \<le> c \<and> c \<le> 122 then c - 32 else c)"

definition validate_name :: "bytes \<Rightarrow> file_config_error + unit" where
  "validate_name name =
    (if name = [] then Inl StoreNameEmpty
     else if MAX_STORE_NAME_LEN < length name then Inl (StoreNameTooLong (length name) MAX_STORE_NAME_LEN)
     else (case find (\<lambda>c. \<not> name_character c) name of
       Some c \<Rightarrow> Inl (StoreNameIllegal c)
     | None \<Rightarrow>
         if hd name = 46 then Inl StoreNameLeadingDot
         else
          (let stem = takeWhile (\<lambda>c. c \<noteq> 46) name in
           if \<exists>reserved\<in>set WINDOWS_RESERVED_NAMES. map ascii_upper stem = map ascii_upper reserved
           then Inl (StoreNameReserved name) else Inr ())))"

definition file_config_try_new :: "bytes \<Rightarrow> file_config_error + file_store_config" where
  "file_config_try_new name =
    bindR (validate_name name) (\<lambda>_. Inr \<lparr>fc_name = name, fc_sync_policy = EveryWrite,
      fc_max_frame_size = DEFAULT_MAX_FRAME_SIZE, fc_create_if_missing = False, fc_compaction_threshold = None\<rparr>)"

definition with_create_if_missing :: "bool \<Rightarrow> file_store_config \<Rightarrow> file_store_config" where
  "with_create_if_missing create c = c\<lparr>fc_create_if_missing := create\<rparr>"

definition with_compaction_threshold :: "nat option \<Rightarrow> file_store_config \<Rightarrow> file_store_config" where
  "with_compaction_threshold threshold c = c\<lparr>fc_compaction_threshold := threshold\<rparr>"

definition with_sync_policy :: "sync_policy \<Rightarrow> file_store_config \<Rightarrow> file_store_config" where
  "with_sync_policy policy c = c\<lparr>fc_sync_policy := policy\<rparr>"

definition with_max_frame_size :: "u32 \<Rightarrow> file_store_config \<Rightarrow> file_config_error + file_store_config" where
  "with_max_frame_size limit c =
    (if MAX_FRAME_SIZE_LIMIT < limit then Inl (MaxFrameSizeTooLarge limit MAX_FRAME_SIZE_LIMIT)
     else Inr (c\<lparr>fc_max_frame_size := limit\<rparr>))"

definition MAX_BODY_OVERHEAD :: nat where
  "MAX_BODY_OVERHEAD = 1 + 8 + 8 + 8 + 1 + MSG_TYPE_MAX_LEN"

definition max_body_of :: "file_store_config \<Rightarrow> nat" where
  "max_body_of c = unat (fc_max_frame_size c) + MAX_BODY_OVERHEAD"

subsection \<open>The open journal\<close>

record pending =
  pd_cut_back_to :: "nat option"
  pd_restore_slots :: "slot_images option"
  pd_directory_flush :: bool
  pd_reopen :: bool

definition pending_clear :: pending where
  "pending_clear = \<lparr>pd_cut_back_to = None, pd_restore_slots = None, pd_directory_flush = False, pd_reopen = False\<rparr>"

definition is_clear :: "pending \<Rightarrow> bool" where
  "is_clear p \<longleftrightarrow> pd_cut_back_to p = None \<and> pd_restore_slots p = None \<and> \<not> pd_directory_flush p \<and> \<not> pd_reopen p"

definition cut_back :: "nat \<Rightarrow> pending \<Rightarrow> pending" where
  "cut_back offset p = p\<lparr>pd_cut_back_to := Some (case pd_cut_back_to p of None \<Rightarrow> offset | Some at \<Rightarrow> min at offset)\<rparr>"

record shared =
  sh_next_sender :: u64
  sh_next_target :: u64
  sh_reset_owed :: bool
  sh_app_watermark :: u64
  sh_creation_time :: system_time
  sh_truncation :: "truncation option"

definition shared_new :: shared where
  "shared_new = \<lparr>sh_next_sender = 1, sh_next_target = 1, sh_reset_owed = False, sh_app_watermark = 0,
     sh_creation_time = 0, sh_truncation = None\<rparr>"

definition publish :: "system_time \<Rightarrow> u64 \<Rightarrow> u64 \<Rightarrow> shared \<Rightarrow> shared" where
  "publish creation_time next_sender next_target s =
    s\<lparr>sh_next_sender := next_sender, sh_next_target := next_target, sh_creation_time := creation_time\<rparr>"

definition install_scan :: "scan_result \<Rightarrow> shared \<Rightarrow> shared" where
  "install_scan scan s =
    (let s1 = publish (jh_creation_time (sn_header scan)) (sn_next_sender scan) (sn_next_target scan)
           (s\<lparr>sh_reset_owed := sn_reset_owed scan, sh_app_watermark := sn_app_watermark scan\<rparr>)
     in case sn_truncation scan of None \<Rightarrow> s1 | Some t \<Rightarrow> s1\<lparr>sh_truncation := Some t\<rparr>)"

record journal =
  jn_config :: file_store_config
  jn_disk :: disk
  jn_index :: index_repr
  jn_end :: nat
  jn_durable_end :: nat
  jn_unsynced :: u32
  jn_pending :: pending
  jn_shared :: shared
  jn_creation_time :: system_time
  jn_next_sender :: u64
  jn_next_target :: u64
  jn_reset_owed :: bool
  jn_app_watermark :: u64
  jn_next_generation :: u64
  jn_slots :: slot_images
  jn_active_slot :: usize
  jn_durable_slot :: usize
  jn_durable_slots :: slot_images
  jn_dead_bytes :: nat
  jn_failed_compaction_at :: "nat option"

type_synonym 'a journal_call = "(journal, store_error, 'a) fallible"

definition on_disk :: "'a io \<Rightarrow> 'a journal_call" where
  "on_disk m j = (case m (jn_disk j) of (r, d) \<Rightarrow> (r, j\<lparr>jn_disk := d\<rparr>))"

definition slot_get :: "slot_images \<Rightarrow> usize \<Rightarrow> bytes option" where
  "slot_get images position = (if position = 0 then Some (fst images) else if position = 1 then Some (snd images) else None)"

definition slot_set :: "usize \<Rightarrow> bytes \<Rightarrow> slot_images \<Rightarrow> slot_images" where
  "slot_set position img images =
    (if position = 0 then (img, snd images) else if position = 1 then (fst images, img) else images)"

definition slot_offset :: "usize \<Rightarrow> store_error + nat" where
  "slot_offset position = ok_or StoreIo (get_at SLOT_OFFSETS position)"

definition usable :: "journal \<Rightarrow> store_error + unit" where
  "usable j = (if is_clear (jn_pending j) then Inr () else Inl StoreIo)"

definition take_generation :: "u64 journal_call" where
  "take_generation j =
    (case checked_add (jn_next_generation j) 1 of
       None \<Rightarrow> (Inl StoreIo, j)
     | Some next \<Rightarrow> (Inr (jn_next_generation j), j\<lparr>jn_next_generation := next\<rparr>))"

subsection \<open>Flushing\<close>

text \<open>
  The slots put back after a failed flush: each that differs from its durable bytes, whether the
  write works or not.
\<close>

definition put_back :: "usize \<Rightarrow> bytes \<Rightarrow> bytes \<Rightarrow> journal \<Rightarrow> journal" where
  "put_back position current durable j =
    (if current \<noteq> durable then snd (on_disk (write_at OpenFile durable (SLOT_OFFSETS ! position)) j) else j)"

definition restore_durable :: "journal \<Rightarrow> journal" where
  "restore_durable j =
    (let j1 = put_back 1 (snd (jn_slots j)) (snd (jn_durable_slots j))
           (put_back 0 (fst (jn_slots j)) (fst (jn_durable_slots j)) j);
         j2 = j1\<lparr>jn_pending := (jn_pending j1)\<lparr>pd_restore_slots := Some (jn_durable_slots j1)\<rparr>,
                 jn_slots := jn_durable_slots j1\<rparr>
     in case newest_slot (jn_slots j2) of
          Inr (active, _) \<Rightarrow> j2\<lparr>jn_active_slot := active, jn_durable_slot := active\<rparr>
        | Inl _ \<Rightarrow> j2)"

definition journal_flush :: "unit journal_call" where
  "journal_flush j =
    (case on_disk sync_data j of
       (Inr _, j1) \<Rightarrow>
         (Inr (), j1\<lparr>jn_durable_end := jn_end j1, jn_durable_slots := jn_slots j1,
                     jn_durable_slot := jn_active_slot j1, jn_unsynced := 0\<rparr>)
     | (Inl _, j1) \<Rightarrow>
         (let j2 = snd (on_disk (set_len OpenFile (jn_durable_end j1)) j1);
              j3 = j2\<lparr>jn_pending := cut_back (jn_durable_end j2) (jn_pending j2)\<rparr>
          in (Inl StoreIo, if jn_slots j3 \<noteq> jn_durable_slots j3 then restore_durable j3 else j3)))"

definition after_write :: "unit journal_call" where
  "after_write j =
    (case fc_sync_policy (jn_config j) of
       EveryWrite \<Rightarrow> journal_flush j
     | EveryN every \<Rightarrow>
         (case checked_add (jn_unsynced j) 1 of
            None \<Rightarrow> (Inl StoreIo, j)
          | Some unsynced \<Rightarrow>
              (let j1 = j\<lparr>jn_unsynced := unsynced\<rparr>
               in if every \<le> unsynced then journal_flush j1 else (Inr (), j1)))
     | SyncNever \<Rightarrow> (Inr (), j))"

subsection \<open>Appending\<close>

definition journal_append :: "bytes \<Rightarrow> nat journal_call" where
  "journal_append record j =
    (let offset = jn_end j in
     case usize_add offset (length record) of
       None \<Rightarrow> (Inl StoreIo, j)
     | Some new_end \<Rightarrow>
         (case on_disk (write_at OpenFile record offset) j of
            (Inl _, j1) \<Rightarrow>
              (case on_disk (set_len OpenFile offset) j1 of
                 (Inl _, j2) \<Rightarrow> (Inl StoreIo, j2\<lparr>jn_pending := cut_back offset (jn_pending j2)\<rparr>)
               | (Inr _, j2) \<Rightarrow> (Inl StoreIo, j2))
          | (Inr _, j1) \<Rightarrow> thenS after_write (\<lambda>_. liftS (Inr offset)) (j1\<lparr>jn_end := new_end\<rparr>)))"

text \<open>The record is sealed in place; it is returned with the outcome.\<close>

definition seal_and_append :: "bytes \<Rightarrow> journal \<Rightarrow> (bytes \<times> (store_error + nat)) \<times> journal" where
  "seal_and_append record j =
    (case (if takes_generation record then take_generation j else (Inr 0, j)) of
       (Inl e, j1) \<Rightarrow> ((record, Inl e), j1)
     | (Inr generation, j1) \<Rightarrow>
         (let sealed = seal_frame_record generation record in
          case journal_append sealed j1 of (r, j2) \<Rightarrow> ((sealed, r), j2)))"

definition append_frame :: "u64 \<Rightarrow> bytes \<Rightarrow> u64 option \<Rightarrow> unit journal_call" where
  "append_frame seq record next_sender j =
    (case seal_and_append record j of
       ((record', appended), j1) \<Rightarrow>
         (case appended of
            Inl e \<Rightarrow> (Inl e, j1)
          | Inr offset \<Rightarrow>
              (let entry = \<lparr>ie_offset = word_of_nat offset, ie_body_len = record_body_len record'\<rparr>;
                   j2 = (case index_insert seq entry (jn_index j1) of
                           (replaced, index) \<Rightarrow>
                             (let j' = j1\<lparr>jn_index := index\<rparr> in
                              case Option.bind replaced (\<lambda>old. usize_add (jn_dead_bytes j') (record_len old)) of
                                Some dead \<Rightarrow> j'\<lparr>jn_dead_bytes := dead\<rparr>
                              | None \<Rightarrow> j'))
               in (Inr (), case next_sender of
                     Some n \<Rightarrow> j2\<lparr>jn_next_sender := n, jn_shared := (jn_shared j2)\<lparr>sh_next_sender := n\<rparr>\<rparr>
                   | None \<Rightarrow> j2))))"

subsection \<open>Counters\<close>

definition write_counters :: "u64 \<Rightarrow> u64 \<Rightarrow> unit journal_call" where
  "write_counters next_sender next_target =
    thenS take_generation (\<lambda>generation j.
      (let target = (if jn_durable_slot j = 0 then 1 else 0) in
       thenS (liftS (slot_offset target)) (\<lambda>offset j.
         (let img = encode_slot \<lparr>cs_generation = generation, cs_next_sender = next_sender, cs_next_target = next_target,
                cs_durable_end = word_of_nat (jn_durable_end j), cs_app_watermark = jn_app_watermark j,
                cs_reset_owed = jn_reset_owed j\<rparr> in
          case on_disk (write_at OpenFile img offset) j of
            (Inl _, j1) \<Rightarrow>
              (case slot_get (jn_slots j1) target of
                 None \<Rightarrow> (Inl StoreIo, j1\<lparr>jn_pending := (jn_pending j1)\<lparr>pd_restore_slots := Some (jn_slots j1)\<rparr>\<rparr>)
               | Some previous \<Rightarrow>
                   (case on_disk (write_at OpenFile previous offset) j1 of
                      (Inr _, j2) \<Rightarrow> (Inl StoreIo, j2)
                    | (Inl _, j2) \<Rightarrow>
                        (Inl StoreIo, j2\<lparr>jn_pending := (jn_pending j2)\<lparr>pd_restore_slots := Some (jn_slots j2)\<rparr>\<rparr>)))
          | (Inr _, j1) \<Rightarrow>
              thenS after_write (\<lambda>_ j2.
                  (Inr (), j2\<lparr>jn_next_sender := next_sender, jn_next_target := next_target,
                             jn_shared := (jn_shared j2)\<lparr>sh_next_sender := next_sender, sh_next_target := next_target\<rparr>\<rparr>))
                (j1\<lparr>jn_slots := slot_set target img (jn_slots j1), jn_active_slot := target\<rparr>))) j))"

definition set_app_watermark :: "u64 \<Rightarrow> unit journal_call" where
  "set_app_watermark watermark =
    thenS (\<lambda>j. (usable j, j)) (\<lambda>_ j.
      if jn_app_watermark j = watermark then (Inr (), j)
      else
        (let previous = jn_app_watermark j; j1 = j\<lparr>jn_app_watermark := watermark\<rparr> in
         case write_counters (jn_next_sender j1) (jn_next_target j1) j1 of
           (Inl e, j2) \<Rightarrow> (Inl e, j2\<lparr>jn_app_watermark := previous\<rparr>)
         | (Inr _, j2) \<Rightarrow> (Inr (), j2\<lparr>jn_shared := (jn_shared j2)\<lparr>sh_app_watermark := watermark\<rparr>\<rparr>)))"

subsection \<open>Reading\<close>

definition read_one :: "u64 \<times> index_entry \<Rightarrow> stored_message journal_call" where
  "read_one = (\<lambda>(seq, entry).
    thenS (on_disk attempt) (\<lambda>_ j. (read_frame (file_bytes OpenFile (jn_disk j)) seq entry, j)))"

fun read_all :: "(u64 \<times> index_entry) list \<Rightarrow> stored_message list journal_call" where
  "read_all [] = liftS (Inr [])"
| "read_all (e # es) = thenS (read_one e) (\<lambda>m. thenS (read_all es) (\<lambda>ms. liftS (Inr (m # ms))))"

definition journal_read :: "u64 \<Rightarrow> u64 \<Rightarrow> usize \<Rightarrow> stored_message list journal_call" where
  "journal_read begin_seq end_seq limit j =
    read_all (take limit (frames_list (index_range (jn_index j) begin_seq end_seq))) j"

subsection \<open>Replacing the journal file\<close>

text \<open>
  A replacement is written to the temporary path through a buffer and renamed over the journal.
  Its bytes are \<open>re_written\<close>; \<open>re_open\<close> says whether the file is still open for writing.
\<close>

record replacement =
  re_written :: bytes
  re_end :: nat
  re_open :: bool

definition replacement_append :: "bytes \<Rightarrow> replacement \<Rightarrow> (replacement \<times> nat) io" where
  "replacement_append bs re =
    thenS (liftS (ok_or StoreIo (usize_add (re_end re) (length bs)))) (\<lambda>new_end.
      if \<not> re_open re then liftS (Inl StoreIo)
      else thenS attempt (\<lambda>_. liftS (Inr (re\<lparr>re_written := re_written re @ bs, re_end := new_end\<rparr>, re_end re))))"

definition replacement_create :: "journal_header \<Rightarrow> slot_images \<Rightarrow> replacement io" where
  "replacement_create h images =
    thenS attempt (\<lambda>_. thenS attempt (\<lambda>_.
      thenS (replacement_append (encode_prefix h images) \<lparr>re_written = [], re_end = 0, re_open = True\<rparr>)
        (\<lambda>(re, _). liftS (Inr re))))"

definition replacement_finish :: "replacement \<Rightarrow> replacement io" where
  "replacement_finish re =
    (if \<not> re_open re then liftS (Inl StoreIo)
     else thenS attempt (\<lambda>_. liftS (Inr (re\<lparr>re_open := False\<rparr>))))"

definition rename_into_place :: "replacement \<Rightarrow> nat io" where
  "rename_into_place re = thenS (rename_over (re_written re)) (\<lambda>_. liftS (Inr (re_end re)))"

definition write_replacement :: "journal_header \<Rightarrow> slot_images \<Rightarrow> unit io" where
  "write_replacement h images =
    thenS (replacement_create h images) (\<lambda>re.
    thenS (replacement_finish re) (\<lambda>re'.
    thenS (rename_into_place re') (\<lambda>_. liftS (Inr ()))))"

definition install_slots :: "slot_images \<Rightarrow> journal \<Rightarrow> journal" where
  "install_slots images j =
    j\<lparr>jn_slots := images, jn_durable_slots := images, jn_active_slot := 1, jn_durable_slot := 1\<rparr>"

definition open_journal_file :: "unit io" where
  "open_journal_file = attempt"

definition flush_directory :: "unit io" where
  "flush_directory = attempt"

definition after_rename :: "unit journal_call" where
  "after_rename j =
    (case on_disk flush_directory j of (dir_flushed, j1) \<Rightarrow>
      (case on_disk open_journal_file j1 of
         (Inl e, j2) \<Rightarrow>
           (Inl e, j2\<lparr>jn_pending := (jn_pending j2)\<lparr>pd_reopen := True, pd_directory_flush := (dir_flushed \<noteq> Inr ())\<rparr>\<rparr>)
       | (Inr _, j2) \<Rightarrow>
           (let j3 = j2\<lparr>jn_disk := adopt (jn_disk j2)\<rparr> in
            case dir_flushed of
              Inr _ \<Rightarrow> (Inr (), j3)
            | Inl e \<Rightarrow> (Inl e, j3\<lparr>jn_pending := (jn_pending j3)\<lparr>pd_directory_flush := True\<rparr>\<rparr>))))"

definition replace_journal :: "u64 \<Rightarrow> u64 \<Rightarrow> unit journal_call" where
  "replace_journal next_sender next_target j =
    (let now = uint (dk_clock (jn_disk j)); header = \<lparr>jh_creation_time = now, jh_next_sender = next_sender, jh_next_target = next_target\<rparr> in
     thenS (liftS (fresh_slots 0 next_sender next_target (word_of_nat DATA_START) 0 (jn_reset_owed j)))
       (\<lambda>(slots, next_generation).
       thenS (on_disk (write_replacement header slots)) (\<lambda>_ j.
         after_rename
          (install_slots slots
            (j\<lparr>jn_pending := pending_clear, jn_index := index_new, jn_end := DATA_START, jn_durable_end := DATA_START,
               jn_unsynced := 0, jn_creation_time := now, jn_next_sender := next_sender, jn_next_target := next_target,
               jn_next_generation := next_generation, jn_app_watermark := 0, jn_dead_bytes := 0,
               jn_failed_compaction_at := None,
               jn_shared := publish now next_sender next_target ((jn_shared j)\<lparr>sh_app_watermark := 0\<rparr>)\<rparr>)))) j)"

subsection \<open>Compaction\<close>

definition live_length :: "(u64 \<times> index_entry) list \<Rightarrow> nat option" where
  "live_length es =
    Option.bind (foldl (\<lambda>acc (_, e). Option.bind acc (\<lambda>n. usize_add n (record_len e))) (Some 0) es)
      (\<lambda>live. usize_add live DATA_START)"

text \<open>Each live record is read back, checked and copied.\<close>

fun copy_records :: "(u64 \<times> index_entry) list \<Rightarrow> replacement \<Rightarrow> index_repr \<Rightarrow> (replacement \<times> index_repr) io" where
  "copy_records [] re ix = liftS (Inr (re, ix))"
| "copy_records ((seq, entry) # es) re ix =
    thenS attempt (\<lambda>_ d.
    thenS (liftS (read_record_into (file_bytes OpenFile d) seq entry)) (\<lambda>(record, _, _).
    thenS (replacement_append record re) (\<lambda>(re', offset).
      copy_records es re'
        (snd (index_insert seq \<lparr>ie_offset = word_of_nat offset, ie_body_len = ie_body_len entry\<rparr> ix)))) d)"

definition journal_compact :: "nat journal_call" where
  "journal_compact =
    thenS (\<lambda>j. (usable j, j)) (\<lambda>_ j.
      (let before = jn_end j;
           header = \<lparr>jh_creation_time = jn_creation_time j, jh_next_sender = jn_next_sender j,
                     jh_next_target = jn_next_target j\<rparr>;
           entries = frames_list (index_iter (jn_index j))
       in
       thenS (liftS (ok_or StoreIo (live_length entries))) (\<lambda>live.
       thenS (liftS (fresh_slots (jn_next_generation j) (jn_next_sender j) (jn_next_target j) (word_of_nat live)
                       (jn_app_watermark j) (jn_reset_owed j))) (\<lambda>(slots, next_generation).
       thenS (on_disk (replacement_create header slots)) (\<lambda>re.
       thenS (on_disk (copy_records entries re index_new)) (\<lambda>(re', index).
       thenS (on_disk (replacement_finish re')) (\<lambda>re''.
         if re_end re'' \<noteq> live then liftS (Inl StoreIo)
         else thenS (on_disk (rename_into_place re'')) (\<lambda>end j.
           thenS after_rename (\<lambda>_. liftS (Inr (before - end)))
             (install_slots slots
               (j\<lparr>jn_index := index, jn_end := end, jn_durable_end := end, jn_unsynced := 0,
                  jn_next_generation := next_generation, jn_dead_bytes := 0, jn_failed_compaction_at := None\<rparr>)))))))) j))"

definition compaction_due :: "journal \<Rightarrow> bool" where
  "compaction_due j =
    (case fc_compaction_threshold (jn_config j) of
       None \<Rightarrow> False
     | Some threshold \<Rightarrow>
         if \<not> is_clear (jn_pending j) \<or> jn_dead_bytes j < threshold then False
         else if (case jn_failed_compaction_at j of
                    Some failed_at \<Rightarrow>
                      \<not> (case usize_sub (jn_dead_bytes j) failed_at of Some grown \<Rightarrow> threshold \<le> grown | None \<Rightarrow> False)
                  | None \<Rightarrow> False) then False
         else
          (let live = (case Option.bind (usize_sub (jn_end j) DATA_START) (\<lambda>records. usize_sub records (jn_dead_bytes j)) of
                         Some n \<Rightarrow> n | None \<Rightarrow> 0)
           in live \<le> jn_dead_bytes j))"

definition after_call :: "journal \<Rightarrow> journal" where
  "after_call j =
    (case journal_compact j of
       (Inr _, j1) \<Rightarrow> j1
     | (Inl _, j1) \<Rightarrow> j1\<lparr>jn_failed_compaction_at := Some (jn_dead_bytes j1)\<rparr>)"

subsection \<open>Loading\<close>

definition restamp_slots :: "scan_result \<Rightarrow> scan_result io" where
  "restamp_slots scan =
    (let position = (if sn_active scan = 0 then 1 else 0);
         generation = sn_next_generation scan;
         img = encode_slot \<lparr>cs_generation = generation, cs_next_sender = sn_next_sender scan,
           cs_next_target = sn_next_target scan, cs_durable_end = word_of_nat (sn_end scan),
           cs_app_watermark = sn_app_watermark scan, cs_reset_owed = sn_reset_owed scan\<rparr>
     in thenS (liftS (slot_offset position)) (\<lambda>offset.
        thenS (write_at PathFile img offset) (\<lambda>_.
        thenS (liftS (ok_or StoreIo (checked_add generation 1))) (\<lambda>next.
          liftS (Inr (scan\<lparr>sn_slots := slot_set position img (sn_slots scan), sn_active := position,
            sn_next_generation := next, sn_boundary := sn_end scan, sn_slots_stale := False\<rparr>))))))"

text \<open>The length of a file is a 64-bit number.\<close>

definition load_journal :: "file_store_config \<Rightarrow> damage_rule \<Rightarrow> scan_result io" where
  "load_journal config rule =
    thenS open_journal_file (\<lambda>_.
    thenS attempt (\<lambda>_.
    thenS attempt (\<lambda>_.
    thenS attempt (\<lambda>_ d.
    thenS (liftS (if length (dk_path d) \<le> usize_max then Inr () else Inl StoreIo)) (\<lambda>_ d.
    thenS (liftS (scan_journal (dk_path d) (length (dk_path d)) (max_body_of config) rule)) (\<lambda>scan.
    thenS (case sn_truncation scan of None \<Rightarrow> liftS (Inr ()) | Some t \<Rightarrow> set_len PathFile (tr_offset t)) (\<lambda>_.
      if sn_slots_stale scan then restamp_slots scan else liftS (Inr scan))) d) d))))"

definition undo_slot :: "bytes \<Rightarrow> nat \<Rightarrow> unit io" where
  "undo_slot img at d =
    (case read_at PathFile SLOT_LEN at d of
       (Inr (Some found), d1) \<Rightarrow> if found = img then (Inr (), d1) else write_at PathFile img at d1
     | (_, d1) \<Rightarrow> write_at PathFile img at d1)"

definition undo_on_disk :: "nat option \<Rightarrow> slot_images option \<Rightarrow> unit io" where
  "undo_on_disk offset slots =
    thenS open_journal_file (\<lambda>_.
    thenS (case offset of
             None \<Rightarrow> liftS (Inr ())
           | Some at \<Rightarrow> thenS attempt (\<lambda>_ d. if at < length (dk_path d) then set_len PathFile at d else (Inr (), d))) (\<lambda>_.
    thenS (case slots of
             None \<Rightarrow> liftS (Inr ())
           | Some images \<Rightarrow> thenS (undo_slot (fst images) (SLOT_OFFSETS ! 0)) (\<lambda>_. undo_slot (snd images) (SLOT_OFFSETS ! 1))) (\<lambda>_.
      sync_data)))"

definition undo_pending :: "unit journal_call" where
  "undo_pending =
    thenS (\<lambda>j.
      if pd_directory_flush (jn_pending j)
      then thenS (on_disk flush_directory) (\<lambda>_ j. (Inr (), j\<lparr>jn_pending := (jn_pending j)\<lparr>pd_directory_flush := False\<rparr>\<rparr>)) j
      else (Inr (), j)) (\<lambda>_ j.
      if pd_cut_back_to (jn_pending j) \<noteq> None \<or> pd_restore_slots (jn_pending j) \<noteq> None
      then thenS (on_disk (undo_on_disk (pd_cut_back_to (jn_pending j)) (pd_restore_slots (jn_pending j)))) (\<lambda>_ j.
             (Inr (),
              j\<lparr>jn_durable_end := (case pd_cut_back_to (jn_pending j) of
                   Some offset \<Rightarrow> min (jn_durable_end j) offset | None \<Rightarrow> jn_durable_end j),
                jn_durable_slots := (case pd_restore_slots (jn_pending j) of
                   Some slots \<Rightarrow> slots | None \<Rightarrow> jn_durable_slots j)\<rparr>)) j
      else (Inr (), j))"

definition reload_install :: "scan_result \<Rightarrow> journal \<Rightarrow> journal" where
  "reload_install scan j =
    j\<lparr>jn_disk := adopt (jn_disk j), jn_index := sn_index scan, jn_end := sn_end scan, jn_unsynced := 0,
      jn_pending := pending_clear, jn_shared := install_scan scan (jn_shared j),
      jn_creation_time := jh_creation_time (sn_header scan), jn_next_sender := sn_next_sender scan,
      jn_next_target := sn_next_target scan, jn_reset_owed := sn_reset_owed scan,
      jn_app_watermark := sn_app_watermark scan,
      jn_next_generation := max (jn_next_generation j) (sn_next_generation scan), jn_slots := sn_slots scan,
      jn_active_slot := sn_active scan, jn_durable_slot := sn_active scan, jn_dead_bytes := sn_dead_bytes scan,
      jn_failed_compaction_at := None\<rparr>"

definition journal_reload :: "unit journal_call" where
  "journal_reload =
    thenS undo_pending (\<lambda>_ j.
      thenS (on_disk (load_journal (jn_config j) (damage_rule_of (fc_sync_policy (jn_config j))))) (\<lambda>scan j.
        (let j1 = reload_install scan j in
         if \<not> flushes (fc_sync_policy (jn_config j1))
         then (Inr (), j1\<lparr>jn_durable_end := sn_boundary scan, jn_durable_slots := sn_slots scan\<rparr>)
         else journal_flush (j1\<lparr>jn_durable_end := min (jn_durable_end j1) (sn_end scan)\<rparr>))) j)"

subsection \<open>The owed-reset marker\<close>

definition carries :: "bool \<Rightarrow> bytes \<Rightarrow> bool" where
  "carries owed img \<longleftrightarrow> (case decode_slot img of Some slot \<Rightarrow> cs_reset_owed slot = owed | None \<Rightarrow> False)"

text \<open>One slot written and flushed.\<close>

definition stamp_slot :: "unit journal_call" where
  "stamp_slot j =
    thenS (write_counters (jn_next_sender j) (jn_next_target j)) (\<lambda>_ j.
      if jn_durable_slot j = jn_active_slot j then (Inr (), j) else journal_flush j) j"

definition set_reset_owed :: "bool \<Rightarrow> unit journal_call" where
  "set_reset_owed owed =
    thenS (\<lambda>j. if \<not> is_clear (jn_pending j) then journal_reload j else (Inr (), j)) (\<lambda>_ j.
      if (carries owed (fst (jn_slots j)) \<and> carries owed (snd (jn_slots j))) \<and> jn_reset_owed j = owed
      then (Inr (), j\<lparr>jn_shared := (jn_shared j)\<lparr>sh_reset_owed := owed\<rparr>\<rparr>)
      else
        (let previous = jn_reset_owed j in
         case thenS stamp_slot (\<lambda>_. stamp_slot) (j\<lparr>jn_reset_owed := owed\<rparr>) of
           (Inl e, j1) \<Rightarrow>
             (Inl e, j1\<lparr>jn_reset_owed := (previous \<or> owed),
                       jn_shared := (jn_shared j1)\<lparr>sh_reset_owed := (previous \<or> owed)\<rparr>\<rparr>)
         | (Inr _, j1) \<Rightarrow> (Inr (), j1\<lparr>jn_shared := (jn_shared j1)\<lparr>sh_reset_owed := owed\<rparr>\<rparr>)))"

subsection \<open>The calls\<close>

datatype store_command =
    CmdStore u64 bytes
  | CmdFileOutbound u64 bytes u64
  | CmdSetNextSender u64
  | CmdSetNextTarget u64
  | CmdSetResetOwed bool
  | CmdSetAppWatermark u64
  | CmdResetTo u64 u64
  | CmdRead u64 u64 usize
  | CmdRefresh
  | CmdSync
  | CmdCompact
  | CmdClose

datatype store_answer = AnswerDone | AnswerPage "stored_message list" | AnswerReclaimed nat

definition done_after :: "unit journal_call \<Rightarrow> store_answer journal_call" where
  "done_after m = thenS m (\<lambda>_. liftS (Inr AnswerDone))"

definition when_usable :: "'a journal_call \<Rightarrow> 'a journal_call" where
  "when_usable m = thenS (\<lambda>j. (usable j, j)) (\<lambda>_. m)"

fun journal_run :: "store_command \<Rightarrow> store_answer journal_call" where
  "journal_run (CmdStore seq record) = when_usable (done_after (append_frame seq record None))"
| "journal_run (CmdFileOutbound seq record next_sender) =
    when_usable (done_after (append_frame seq record (Some next_sender)))"
| "journal_run (CmdSetNextSender next_sender) =
    when_usable (\<lambda>j. done_after (write_counters next_sender (jn_next_target j)) j)"
| "journal_run (CmdSetNextTarget next_target) =
    when_usable (\<lambda>j. done_after (write_counters (jn_next_sender j) next_target) j)"
| "journal_run (CmdSetResetOwed owed) = done_after (set_reset_owed owed)"
| "journal_run (CmdSetAppWatermark watermark) = done_after (set_app_watermark watermark)"
| "journal_run (CmdResetTo next_sender next_target) = done_after (replace_journal next_sender next_target)"
| "journal_run (CmdRead begin_seq end_seq limit) =
    when_usable (thenS (journal_read begin_seq end_seq limit) (\<lambda>ms. liftS (Inr (AnswerPage ms))))"
| "journal_run CmdRefresh = done_after journal_reload"
| "journal_run CmdSync = when_usable (done_after journal_flush)"
| "journal_run CmdCompact = thenS journal_compact (\<lambda>n. liftS (Inr (AnswerReclaimed n)))"
| "journal_run CmdClose =
    (\<lambda>j. if 0 < jn_unsynced j \<and> is_clear (jn_pending j) then done_after journal_flush j else (Inr AnswerDone, j))"

subsection \<open>Opening\<close>

definition journal_new :: "file_store_config \<Rightarrow> disk \<Rightarrow> scan_result \<Rightarrow> bool \<Rightarrow> shared \<Rightarrow> journal" where
  "journal_new config d scan flushed s =
    \<lparr>jn_config = config, jn_disk = d, jn_index = sn_index scan, jn_end = sn_end scan,
     jn_durable_end = (if flushed then sn_end scan else sn_boundary scan), jn_unsynced = 0, jn_pending = pending_clear,
     jn_shared = install_scan scan s, jn_creation_time = jh_creation_time (sn_header scan),
     jn_next_sender = sn_next_sender scan, jn_next_target = sn_next_target scan, jn_reset_owed = sn_reset_owed scan,
     jn_app_watermark = sn_app_watermark scan, jn_next_generation = sn_next_generation scan,
     jn_slots = sn_slots scan, jn_active_slot = sn_active scan, jn_durable_slot = sn_active scan,
     jn_durable_slots = sn_slots scan, jn_dead_bytes = sn_dead_bytes scan, jn_failed_compaction_at = None\<rparr>"

text \<open>
  Opening, once the directory is there, the lock is held and a left-over replacement is removed:
  a missing journal is created when that is asked for, then the journal is loaded and flushed.
\<close>

definition create_journal :: "unit io" where
  "create_journal =
    thenS (liftS (fresh_slots 0 1 1 (word_of_nat DATA_START) 0 False)) (\<lambda>(slots, _) d.
    thenS (write_replacement \<lparr>jh_creation_time = uint (dk_clock d), jh_next_sender = 1, jh_next_target = 1\<rparr> slots) (\<lambda>_.
      flush_directory) d)"

definition open_journal :: "file_store_config \<Rightarrow> damage_rule \<Rightarrow> bool \<Rightarrow> bool \<Rightarrow> journal io" where
  "open_journal config rule create journal_exists =
    thenS (if journal_exists then liftS (Inr ()) else if create then create_journal else liftS (Inl StoreIo)) (\<lambda>_.
    thenS (load_journal config rule) (\<lambda>scan.
      (let flushed = (flushes (fc_sync_policy config) \<or> rule = Salvage) in
       thenS (if flushed then sync_data else liftS (Inr ())) (\<lambda>_ d.
         (Inr (journal_new config (adopt d) scan flushed shared_new), d)))))"

subsection \<open>The store's methods\<close>

definition file_frame :: "u64 \<Rightarrow> u64 option \<Rightarrow> msg_type \<Rightarrow> bytes \<Rightarrow> unit journal_call" where
  "file_frame seq next_sender ty frame j =
    (case encode_frame_record_into seq next_sender ty frame (fc_max_frame_size (jn_config j)) [] of
       (Inl e, _) \<Rightarrow> (Inl e, j)
     | (Inr _, record) \<Rightarrow>
         thenS (journal_run (case next_sender of
             Some n \<Rightarrow> CmdFileOutbound seq record n | None \<Rightarrow> CmdStore seq record)) (\<lambda>_. liftS (Inr ())) j)"

definition file_read :: "u64 \<Rightarrow> u64 \<Rightarrow> usize \<Rightarrow> stored_message list journal_call" where
  "file_read begin_seq end_seq limit j =
    (if begin_seq = 0 \<or> end_seq < begin_seq then (Inl (StoreInvalidRange begin_seq end_seq), j)
     else thenS (journal_run (CmdRead begin_seq end_seq limit)) (\<lambda>a.
       liftS (case a of AnswerPage ms \<Rightarrow> Inr ms | _ \<Rightarrow> Inl StoreIo)) j)"

definition file_get_range :: "u64 \<Rightarrow> u64 \<Rightarrow> stored_message list journal_call" where
  "file_get_range begin_seq end_seq =
    (let end' = (if end_seq = 0 then - 1 else end_seq) in
     thenS (file_read begin_seq end' usize_max) (\<lambda>ms.
       liftS (if ms = [] then Inl (RangeNotAvailable begin_seq end') else Inr ms)))"

definition file_done :: "store_command \<Rightarrow> unit journal_call" where
  "file_done command =
    thenS (journal_run command) (\<lambda>a. liftS (case a of AnswerDone \<Rightarrow> Inr () | _ \<Rightarrow> Inl StoreIo))"

end
