(* ===== verification/Store_Journal_Inv.thy ===== *)
theory Store_Journal_Inv
  imports Store_Journal Store_Written
begin

text \<open>
  What the open journal keeps true of its file, whatever the file system's calls do: while no
  undo is pending, the file on disk is a journal whose records are those of the index and whose
  counters are those in memory.
\<close>

subsection \<open>The prefix of a journal\<close>

definition layout :: "bytes \<Rightarrow> bytes \<Rightarrow> bytes \<Rightarrow> bytes \<Rightarrow> bytes \<Rightarrow> bytes \<Rightarrow> bytes \<Rightarrow> bool" where
  "layout prefix hd44 p1 a p2 b p3 \<longleftrightarrow> prefix = hd44 @ p1 @ a @ p2 @ b @ p3 \<and> length hd44 = 44 \<and> length p1 = 4052
     \<and> length a = 52 \<and> length p2 = 4044 \<and> length b = 52 \<and> length p3 = 4044"

lemma front_of: "n \<le> length xs \<Longrightarrow> \<exists>a b. xs = a @ b \<and> length a = n"
  by (intro exI[of _ "take n xs"] exI[of _ "drop n xs"]) simp

lemma layout_exists:
  assumes "length prefix = DATA_START"
  shows "\<exists>hd44 p1 a p2 b p3. layout prefix hd44 p1 a p2 b p3"
proof -
  have len: "length prefix = 12288" using assms by (simp add: DATA_START_def)
  obtain hd44 r1 where 1: "prefix = hd44 @ r1" "length hd44 = 44" using front_of[of 44 prefix] len by auto
  obtain p1 r2 where 2: "r1 = p1 @ r2" "length p1 = 4052" using front_of[of 4052 r1] len 1 by auto
  obtain a r3 where 3: "r2 = a @ r3" "length a = 52" using front_of[of 52 r2] len 1 2 by auto
  obtain p2 r4 where 4: "r3 = p2 @ r4" "length p2 = 4044" using front_of[of 4044 r3] len 1 2 3 by auto
  obtain b p3 where 5: "r4 = b @ p3" "length b = 52" using front_of[of 52 r4] len 1 2 3 4 by auto
  have "layout prefix hd44 p1 a p2 b p3" using len by (simp add: layout_def 1 2 3 4 5)
  then show ?thesis by blast
qed

lemma layout_open:
  assumes "layout prefix hd44 p1 a p2 b p3"
  shows "length prefix = DATA_START"
    and "open_prefix prefix = bindR (decode_header hd44) (\<lambda>h. bindR (newest_slot (a, b)) (\<lambda>(active, slot). Inr (h, (a, b), active, slot)))"
proof -
  have p: "prefix = hd44 @ p1 @ a @ p2 @ b @ p3" and lens: "length hd44 = 44" "length p1 = 4052" "length a = 52"
      "length p2 = 4044" "length b = 52" "length p3 = 4044" using assms by (auto simp: layout_def)
  show "length prefix = DATA_START" using lens by (simp add: p DATA_START_def)
  have "slot_image (drop JOURNAL_HEADER_LEN prefix) (SLOT_OFFSETS ! 0) = Some a"
      "slot_image (drop JOURNAL_HEADER_LEN prefix) (SLOT_OFFSETS ! 1) = Some b"
      "take JOURNAL_HEADER_LEN prefix = hd44"
    using lens unfolding p
    by (simp_all add: journal_consts slot_image_def get_range_def usize_sub_def usize_add_def usize_max_def)
  then show "open_prefix prefix = bindR (decode_header hd44) (\<lambda>h. bindR (newest_slot (a, b)) (\<lambda>(active, slot). Inr (h, (a, b), active, slot)))"
    unfolding open_prefix_def by (simp only: ok_or_simps bindR_simps)
qed

lemma layout_slots:
  assumes "layout prefix hd44 p1 a p2 b p3" "open_prefix prefix = Inr (h, images, active, slot)"
  shows "images = (a, b)" "decode_header hd44 = Inr h" "newest_slot (a, b) = Inr (active, slot)"
  using assms(2) unfolding layout_open(2)[OF assms(1)] by (auto simp: bindR_Inr_iff)

text \<open>One slot of the prefix overwritten.\<close>

lemma slot_write:
  assumes "length prefix = DATA_START" "open_prefix prefix = Inr (h, images, active, slot)" "target = 0 \<or> target = 1"
    and "length img = 52" "slot_offset target = Inr offset"
  shows "\<exists>prefix'. length prefix' = DATA_START \<and> poke offset img (prefix @ rest) = prefix' @ rest
      \<and> (\<forall>na sl. newest_slot (slot_set target img images) = Inr (na, sl)
           \<longrightarrow> open_prefix prefix' = Inr (h, slot_set target img images, na, sl))
      \<and> (\<forall>previous x. slot_get images target = Some previous \<longrightarrow> length x = 52
           \<longrightarrow> poke offset previous (poke offset x (prefix @ rest)) = prefix @ rest)
      \<and> (\<forall>n. \<exists>x. length x = 52 \<and> poke offset (take n img) (prefix @ rest) = poke offset x (prefix @ rest))"
proof -
  obtain hd44 p1 a p2 b p3 where l: "layout prefix hd44 p1 a p2 b p3" using layout_exists[OF assms(1)] by blast
  note ls = layout_slots[OF l assms(2)]
  have p: "prefix = hd44 @ p1 @ a @ p2 @ b @ p3" and lens: "length hd44 = 44" "length p1 = 4052" "length a = 52"
      "length p2 = 4044" "length b = 52" "length p3 = 4044" using l by (auto simp: layout_def)
  show ?thesis
  proof (cases "target = 0")
    case True
    then have off: "offset = 4096" using assms(5) by (simp add: slot_offset_def get_at_def SLOT_OFFSETS_def)
    let ?f = "hd44 @ p1" and ?b = "p2 @ b @ p3"
    have at: "length x = 52 \<Longrightarrow> length y = 52 \<Longrightarrow> poke offset y (?f @ x @ ?b @ rest) = ?f @ y @ ?b @ rest" for x y
      using poke_within[of ?f offset x y "?b @ rest"] lens by (simp add: off)
    have part: "\<exists>x. length x = 52 \<and> poke offset (take n img) (?f @ a @ ?b @ rest) = ?f @ x @ ?b @ rest" for n
      using poke_partial[of ?f offset a img n "?b @ rest"] lens assms(4) by (simp add: off)
    have part: "\<exists>x. length x = 52 \<and> poke offset (take n img) (?f @ a @ ?b @ rest) = poke offset x (?f @ a @ ?b @ rest)" for n
      using part[of n] at[of a] lens by metis
    have l': "layout (?f @ img @ ?b) hd44 p1 img p2 b p3" using lens assms(4) by (simp add: layout_def)
    show ?thesis
      using layout_open[OF l'] at[of a] at part lens assms(4) ls True
      by (intro exI[of _ "?f @ img @ ?b"]) (auto simp: p slot_get_def slot_set_def)
  next
    case False
    then have t: "target = 1" using assms(3) by simp
    then have off: "offset = 8192" using assms(5) by (simp add: slot_offset_def get_at_def SLOT_OFFSETS_def)
    let ?f = "hd44 @ p1 @ a @ p2" and ?b = p3
    have at: "length x = 52 \<Longrightarrow> length y = 52 \<Longrightarrow> poke offset y (?f @ x @ ?b @ rest) = ?f @ y @ ?b @ rest" for x y
      using poke_within[of ?f offset x y "?b @ rest"] lens by (simp add: off)
    have part: "\<exists>x. length x = 52 \<and> poke offset (take n img) (?f @ b @ ?b @ rest) = ?f @ x @ ?b @ rest" for n
      using poke_partial[of ?f offset b img n "?b @ rest"] lens assms(4) by (simp add: off)
    have part: "\<exists>x. length x = 52 \<and> poke offset (take n img) (?f @ b @ ?b @ rest) = poke offset x (?f @ b @ ?b @ rest)" for n
      using part[of n] at[of b] lens by metis
    have l': "layout (?f @ img @ ?b) hd44 p1 a p2 img p3" using lens assms(4) by (simp add: layout_def)
    show ?thesis
      using layout_open[OF l'] at[of b] at part lens assms(4) ls t
      by (intro exI[of _ "?f @ img @ ?b"]) (auto simp: p slot_get_def slot_set_def)
  qed
qed

definition slot_generations :: "slot_images \<Rightarrow> u64 list" where
  "slot_generations images = List.map_filter (map_option cs_generation \<circ> decode_slot) [fst images, snd images]"

lemma newest_after_write:
  assumes "\<forall>g\<in>set (slot_generations images). g < cs_generation new" "target = 0 \<or> target = 1"
  shows "newest_slot (slot_set target (encode_slot new) images) = Inr (target, new)"
    and "g \<in> set (slot_generations (slot_set target (encode_slot new) images)) \<Longrightarrow>
      g \<in> set (slot_generations images) \<or> g = cs_generation new"
  using assms
  by (auto simp: newest_slot_def slot_set_def slot_generations_def List.map_filter_def slot_roundtrip not_less
      split: option.splits if_splits)

subsection \<open>The file and the memory\<close>

text \<open>An undo that a failed call left behind: nothing is promised until a refresh has made it.\<close>

definition sound :: "journal \<Rightarrow> bool" where
  "sound j \<longleftrightarrow> pd_cut_back_to (jn_pending j) = None \<and> pd_restore_slots (jn_pending j) = None \<and> \<not> pd_reopen (jn_pending j)"

definition synced_in_time :: "journal \<Rightarrow> bool" where
  "synced_in_time j \<longleftrightarrow> (case fc_sync_policy (jn_config j) of EveryN every \<Rightarrow> jn_unsynced j < every | _ \<Rightarrow> True)"

definition on_file :: "journal \<Rightarrow> bytes \<Rightarrow> bytes list \<Rightarrow> journal_header \<Rightarrow> counter_slot \<Rightarrow> bool" where
  "on_file j prefix bodies h slot \<longleftrightarrow>
     dk_detached (jn_disk j) = None \<and> dk_path (jn_disk j) = journal_of prefix bodies \<and> length prefix = DATA_START
     \<and> open_prefix prefix = Inr (h, jn_slots j, jn_active_slot j, slot)
     \<and> (\<forall>b\<in>set bodies. good_body (max_body_of (jn_config j)) b \<and> (\<exists>x. decode_body b = Inr x))
     \<and> jn_end j = length (journal_of prefix bodies) \<and> jn_end j \<le> usize_max
     \<and> (\<forall>g\<in>set (slot_generations (jn_slots j)). g < jn_next_generation j)
     \<and> (\<forall>c\<in>set (counters_of bodies). fst c < jn_next_generation j)
     \<and> unat (cs_durable_end slot) \<le> jn_end j \<and> jn_durable_end j \<le> jn_end j
     \<and> (jn_durable_slot j = 0 \<or> jn_durable_slot j = 1) \<and> synced_in_time j"

definition indexed :: "journal \<Rightarrow> bytes list \<Rightarrow> bool" where
  "indexed j bodies \<longleftrightarrow> index_ok (jn_index j) \<and> index_get (jn_index j) = filed DATA_START bodies Map.empty"

definition sender_of :: "counter_slot \<Rightarrow> bytes list \<Rightarrow> u64" where
  "sender_of slot bodies =
    (case newest_from None (counters_of bodies) of
       Some (generation, next_sender) \<Rightarrow> if cs_generation slot < generation then next_sender else cs_next_sender slot
     | None \<Rightarrow> cs_next_sender slot)"

definition counters_on_file :: "journal \<Rightarrow> bytes list \<Rightarrow> journal_header \<Rightarrow> counter_slot \<Rightarrow> bool" where
  "counters_on_file j bodies h slot \<longleftrightarrow>
     jn_next_sender j = sender_of slot bodies \<and> jn_next_target j = cs_next_target slot
     \<and> jn_app_watermark j = cs_app_watermark slot \<and> (cs_reset_owed slot \<longrightarrow> jn_reset_owed j)
     \<and> jn_creation_time j = jh_creation_time h"

definition getters_agree :: "journal \<Rightarrow> bool" where
  "getters_agree j \<longleftrightarrow> sh_next_sender (jn_shared j) = jn_next_sender j \<and> sh_next_target (jn_shared j) = jn_next_target j
     \<and> sh_reset_owed (jn_shared j) = jn_reset_owed j \<and> sh_app_watermark (jn_shared j) = jn_app_watermark j
     \<and> sh_creation_time (jn_shared j) = jn_creation_time j"

definition journal_ok :: "journal \<Rightarrow> bool" where
  "journal_ok j \<longleftrightarrow> sh_reset_owed (jn_shared j) = jn_reset_owed j \<and> fc_sync_policy (jn_config j) \<noteq> EveryN 0
     \<and> (sound j \<longrightarrow> getters_agree j
     \<and> (\<exists>prefix bodies h slot. on_file j prefix bodies h slot \<and> indexed j bodies \<and> counters_on_file j bodies h slot))"

text \<open>A step that leaves the memory alone: it touches the disk and its own bookkeeping.\<close>

definition memory_same :: "journal \<Rightarrow> journal \<Rightarrow> bool" where
  "memory_same j j' \<longleftrightarrow> jn_config j' = jn_config j \<and> jn_index j' = jn_index j \<and> jn_shared j' = jn_shared j
     \<and> jn_creation_time j' = jn_creation_time j \<and> jn_next_sender j' = jn_next_sender j
     \<and> jn_next_target j' = jn_next_target j \<and> jn_reset_owed j' = jn_reset_owed j
     \<and> jn_app_watermark j' = jn_app_watermark j \<and> jn_dead_bytes j' = jn_dead_bytes j"

lemma memory_same_trans: "memory_same a b \<Longrightarrow> memory_same b c \<Longrightarrow> memory_same a c"
  by (simp add: memory_same_def)

lemma memory_same_refl [simp]: "memory_same j j"
  by (simp add: memory_same_def)

lemma memory_same_keeps:
  assumes "memory_same j j'"
  shows "indexed j' bodies = indexed j bodies" "getters_agree j' = getters_agree j"
    "counters_on_file j' bodies h slot = counters_on_file j bodies h slot"
  using assms by (simp_all add: memory_same_def indexed_def getters_agree_def counters_on_file_def)

lemma on_disk_eq: "on_disk m j = (r, j') \<longleftrightarrow> (\<exists>d. m (jn_disk j) = (r, d) \<and> j' = j\<lparr>jn_disk := d\<rparr>)"
  by (auto simp: on_disk_def split: prod.splits)

lemma on_disk_memory: "memory_same j (snd (on_disk m j))" "jn_pending (snd (on_disk m j)) = jn_pending j"
  by (simp_all add: on_disk_def memory_same_def split: prod.split)

subsection \<open>Flushing\<close>

lemma put_back_memory: "memory_same j (put_back p c d j)" "jn_pending (put_back p c d j) = jn_pending j"
  by (simp_all add: put_back_def on_disk_memory)

lemma restore_durable_memory: "memory_same j (restore_durable j)"
  "pd_cut_back_to (jn_pending (restore_durable j)) = pd_cut_back_to (jn_pending j)"
proof -
  let ?j1 = "put_back 1 (snd (jn_slots j)) (snd (jn_durable_slots j)) (put_back 0 (fst (jn_slots j)) (fst (jn_durable_slots j)) j)"
  have "memory_same j ?j1" "jn_pending ?j1 = jn_pending j"
    using memory_same_trans[OF put_back_memory(1) put_back_memory(1)] by (simp_all add: put_back_memory)
  then show "memory_same j (restore_durable j)"
      "pd_cut_back_to (jn_pending (restore_durable j)) = pd_cut_back_to (jn_pending j)"
    by (auto simp: restore_durable_def Let_def memory_same_def split: sum.split prod.split)
qed

lemma synced_cong: "jn_config j' = jn_config j \<Longrightarrow> jn_unsynced j' = jn_unsynced j \<Longrightarrow> synced_in_time j' = synced_in_time j"
  by (cases "fc_sync_policy (jn_config j)") (simp_all add: synced_in_time_def)

lemma counters_append: "counters_of (as @ bs) = counters_of as @ counters_of bs"
  by (induction as) (simp_all split: sum.split)

lemma newest_active: "newest_slot images = Inr (active, slot) \<Longrightarrow> active = 0 \<or> active = 1"
  by (auto simp: newest_slot_def split: option.splits if_splits)

lemma open_newest: "open_prefix prefix = Inr (h, images, active, slot) \<Longrightarrow> newest_slot images = Inr (active, slot)"
  by (auto simp: open_prefix_def bindR_Inr_iff simp del: One_nat_def)

lemma synced_reset:
  "synced_in_time j \<Longrightarrow> jn_config j' = jn_config j \<Longrightarrow> jn_unsynced j' = 0 \<Longrightarrow> synced_in_time j'"
  by (auto simp: synced_in_time_def split: sync_policy.splits intro: order_le_less_trans[OF word_zero_le])

lemma flush_outcomes:
  assumes "journal_flush j = (r, j')"
  shows "memory_same j j'"
    and "r = Inr () \<Longrightarrow> jn_pending j' = jn_pending j \<and> (on_file (j\<lparr>jn_unsynced := 0\<rparr>) prefix bodies h slot \<longrightarrow> on_file j' prefix bodies h slot)"
    and "r \<noteq> Inr () \<Longrightarrow> \<not> sound j'"
proof -
  obtain r1 j1 where s: "on_disk sync_data j = (r1, j1)" by fastforce
  then have m1: "memory_same j j1" "jn_pending j1 = jn_pending j" using on_disk_memory(1)[of j sync_data] on_disk_memory(2)[of sync_data j] by simp_all
  show "memory_same j j'"
  proof (cases r1)
    case (Inl e)
    let ?j2 = "snd (on_disk (set_len OpenFile (jn_durable_end j1)) j1)"
    let ?j3 = "?j2\<lparr>jn_pending := cut_back (jn_durable_end ?j2) (jn_pending ?j2)\<rparr>"
    have "memory_same j ?j3"
      using memory_same_trans[OF m1(1) on_disk_memory(1)[of j1 "set_len OpenFile (jn_durable_end j1)"]]
      by (simp add: memory_same_def)
    then show ?thesis using assms s Inl restore_durable_memory(1)[of ?j3]
      by (auto simp: journal_flush_def Let_def intro: memory_same_trans split: if_splits)
  next
    case (Inr u)
    then show ?thesis using assms s m1 by (auto simp: journal_flush_def memory_same_def)
  qed
  show "r = Inr () \<Longrightarrow> jn_pending j' = jn_pending j \<and> (on_file (j\<lparr>jn_unsynced := 0\<rparr>) prefix bodies h slot \<longrightarrow> on_file j' prefix bodies h slot)"
  proof -
    assume r: "r = Inr ()"
    then obtain u where u: "r1 = Inr u" using assms s by (cases r1) (auto simp: journal_flush_def Let_def split: if_splits)
    obtain d where d: "sync_data (jn_disk j) = (r1, d)" "j1 = j\<lparr>jn_disk := d\<rparr>" using s by (auto simp: on_disk_eq)
    have dk: "dk_path d = dk_path (jn_disk j)" "dk_detached d = dk_detached (jn_disk j)"
      using attempt_keeps[of "jn_disk j"] d(1) by (auto simp: sync_data_def)
    have j': "j' = j1\<lparr>jn_durable_end := jn_end j1, jn_durable_slots := jn_slots j1,
        jn_durable_slot := jn_active_slot j1, jn_unsynced := 0\<rparr>"
      using assms s u by (simp add: journal_flush_def)
    have act: "open_prefix prefix = Inr (h, images, active, slot) \<Longrightarrow> active = 0 \<or> active = 1" for images active
      using open_newest newest_active by blast
    have sync: "synced_in_time (j\<lparr>jn_unsynced := 0\<rparr>) \<Longrightarrow> synced_in_time j'"
      using synced_reset[of "j\<lparr>jn_unsynced := 0\<rparr>" j'] by (simp add: j' d(2))
    have f: "jn_pending j' = jn_pending j" "jn_disk j' = d" "jn_slots j' = jn_slots j" "jn_config j' = jn_config j"
        "jn_active_slot j' = jn_active_slot j" "jn_end j' = jn_end j" "jn_durable_end j' = jn_end j"
        "jn_next_generation j' = jn_next_generation j" "jn_durable_slot j' = jn_active_slot j"
      by (simp_all add: j' d(2))
    show ?thesis
    proof (intro conjI impI f(1))
      assume o: "on_file (j\<lparr>jn_unsynced := 0\<rparr>) prefix bodies h slot"
      then have "jn_active_slot j = 0 \<or> jn_active_slot j = 1" "synced_in_time j'"
        using act sync by (simp_all add: on_file_def)
      then show "on_file j' prefix bodies h slot" using o unfolding on_file_def f dk by simp
    qed
  qed
  show "r \<noteq> Inr () \<Longrightarrow> \<not> sound j'"
    using assms s restore_durable_memory(2)
    by (cases r1) (auto simp: journal_flush_def Let_def sound_def cut_back_def split: if_splits)
qed

lemma on_file_cong:
  assumes "on_file j prefix bodies h slot" "dk_detached (jn_disk j') = dk_detached (jn_disk j)"
    and "dk_path (jn_disk j') = dk_path (jn_disk j)" "jn_slots j' = jn_slots j" "jn_active_slot j' = jn_active_slot j"
    and "jn_config j' = jn_config j" "jn_end j' = jn_end j" "jn_next_generation j \<le> jn_next_generation j'"
    and "jn_durable_end j' = jn_durable_end j" "jn_durable_slot j' = jn_durable_slot j" "synced_in_time j'"
  shows "on_file j' prefix bodies h slot"
  using assms unfolding on_file_def by (auto intro: order_less_le_trans)

lemma on_file_unsynced: "on_file j prefix bodies h slot \<Longrightarrow> synced_in_time (j\<lparr>jn_unsynced := u\<rparr>) \<Longrightarrow>
    on_file (j\<lparr>jn_unsynced := u\<rparr>) prefix bodies h slot"
  by (rule on_file_cong) simp_all

lemma after_write_outcomes:
  assumes "after_write j = (r, j')" "synced_in_time j"
  shows "memory_same j j'"
    and "r = Inr () \<Longrightarrow> jn_pending j' = jn_pending j \<and> (on_file j prefix bodies h slot \<longrightarrow> on_file j' prefix bodies h slot)"
    and "r \<noteq> Inr () \<Longrightarrow> \<not> sound j'"
proof -
  have zero: "synced_in_time (j\<lparr>jn_unsynced := 0\<rparr>)" by (rule synced_reset[OF assms(2)]) simp_all
  have "memory_same j j' \<and> (r = Inr () \<longrightarrow> jn_pending j' = jn_pending j \<and> (on_file j prefix bodies h slot \<longrightarrow> on_file j' prefix bodies h slot))
      \<and> (r \<noteq> Inr () \<longrightarrow> \<not> sound j')"
  proof (cases "fc_sync_policy (jn_config j)")
    case EveryWrite
    then have "journal_flush j = (r, j')" using assms(1) by (simp add: after_write_def)
    from flush_outcomes(1,3)[OF this] flush_outcomes(2)[OF this, of prefix bodies h slot] show ?thesis using on_file_unsynced[OF _ zero] by blast
  next
    case (EveryN every)
    have less: "jn_unsynced j < every" using assms(2) EveryN by (simp add: synced_in_time_def)
    then have "unat (jn_unsynced j) + 1 \<le> unat every" by (simp add: word_less_nat_alt)
    moreover have "unat every < 2 ^ 32" by (rule order_less_le_trans[OF unsigned_less]) simp
    ultimately have add: "checked_add (jn_unsynced j) 1 = Some (jn_unsynced j + 1)" by (intro checked_add_eq) simp
    let ?j1 = "j\<lparr>jn_unsynced := jn_unsynced j + 1\<rparr>"
    have m1: "memory_same j ?j1" "jn_pending ?j1 = jn_pending j" by (simp_all add: memory_same_def)
    show ?thesis
    proof (cases "every \<le> jn_unsynced j + 1")
      case True
      then have f: "journal_flush ?j1 = (r, j')" using assms(1) EveryN add by (simp add: after_write_def)
      note fo = flush_outcomes(1,3)[OF f] flush_outcomes(2)[OF f, of prefix bodies h slot]
      have "on_file j prefix bodies h slot \<Longrightarrow> on_file (?j1\<lparr>jn_unsynced := 0\<rparr>) prefix bodies h slot"
        using on_file_unsynced[OF _ zero] by simp
      then show ?thesis using fo memory_same_trans[OF m1(1)] m1(2) by auto
    next
      case False
      then have j': "r = Inr ()" "j' = ?j1" using assms(1) EveryN add by (simp_all add: after_write_def Let_def)
      have "synced_in_time ?j1" using False EveryN by (simp add: synced_in_time_def not_le)
      then show ?thesis using on_file_unsynced m1 by (auto simp: j')
    qed
  next
    case SyncNever
    then show ?thesis using assms(1) by (simp add: after_write_def)
  qed
  then show "memory_same j j'"
    "r = Inr () \<Longrightarrow> jn_pending j' = jn_pending j \<and> (on_file j prefix bodies h slot \<longrightarrow> on_file j' prefix bodies h slot)"
    "r \<noteq> Inr () \<Longrightarrow> \<not> sound j'" by blast+
qed

subsection \<open>Appending\<close>

lemma append_outcomes:
  assumes "journal_append sealed j = (r, j')" "on_file j prefix bodies h slot" "sound j"
    and rec: "sealed = record_image body" "good_body (max_body_of (jn_config j)) body" "decode_body body = Inr b"
    and gen: "\<forall>g n. rb_counter b = Some (g, n) \<longrightarrow> g < jn_next_generation j"
  shows "memory_same j j'"
    and "r = Inr offset \<Longrightarrow> offset = jn_end j \<and> jn_pending j' = jn_pending j \<and> on_file j' prefix (bodies @ [body]) h slot"
    and "r = Inl e \<Longrightarrow> sound j' \<Longrightarrow> on_file j' prefix bodies h slot"
proof -
  have o: "dk_detached (jn_disk j) = None" "dk_path (jn_disk j) = journal_of prefix bodies"
      "jn_end j = length (journal_of prefix bodies)" "synced_in_time j"
    using assms(2) by (auto simp: on_file_def)
  have "memory_same j j' \<and> (\<forall>offset. r = Inr offset \<longrightarrow> offset = jn_end j \<and> jn_pending j' = jn_pending j
          \<and> on_file j' prefix (bodies @ [body]) h slot) \<and> (\<forall>e. r = Inl e \<longrightarrow> sound j' \<longrightarrow> on_file j' prefix bodies h slot)"
  proof (cases "usize_add (jn_end j) (length sealed)")
    case None
    then show ?thesis using assms(1,2) by (auto simp: journal_append_def Let_def)
  next
    case (Some new_end)
    then have ne: "new_end = jn_end j + length sealed" "new_end \<le> usize_max" by (auto simp: usize_add_Some)
    obtain r1 j1 where w: "on_disk (write_at OpenFile sealed (jn_end j)) j = (r1, j1)" by fastforce
    obtain d1 where d1: "write_at OpenFile sealed (jn_end j) (jn_disk j) = (r1, d1)" "j1 = j\<lparr>jn_disk := d1\<rparr>"
      using w by (auto simp: on_disk_eq)
    note wc = write_at_cases[OF d1(1) o(1)]
    show ?thesis
    proof (cases r1)
      case (Inr u)
      then have p1: "dk_path d1 = journal_of prefix (bodies @ [body])"
        using wc(2) poke_append[of "journal_of prefix bodies" sealed] o by (simp add: journal_of_def rec(1))
      let ?j2 = "j1\<lparr>jn_end := new_end\<rparr>"
      have "synced_in_time ?j2 = synced_in_time j" by (rule synced_cong) (simp_all add: d1(2))
      moreover have "counters_of (bodies @ [body]) = counters_of bodies @ (case rb_counter b of Some c \<Rightarrow> [c] | None \<Rightarrow> [])"
        by (simp add: counters_append rec(3))
      ultimately have f: "on_file ?j2 prefix (bodies @ [body]) h slot"
        using assms(2) wc(1) p1 ne rec gen unfolding on_file_def d1(2)
        by (auto simp: journal_of_def split: option.splits)
      obtain r2 j3 where aw: "after_write ?j2 = (r2, j3)" by fastforce
      have sync: "synced_in_time ?j2" using f unfolding on_file_def by (elim conjE)
      note ao = after_write_outcomes(1,3)[OF aw sync] after_write_outcomes(2)[OF aw sync, of prefix "bodies @ [body]" h slot]
      have m: "memory_same j ?j2" "jn_pending ?j2 = jn_pending j" by (simp_all add: memory_same_def d1(2))
      have rj: "j' = j3" "r = (case r2 of Inl e \<Rightarrow> Inl e | Inr _ \<Rightarrow> Inr (jn_end j))"
        using assms(1) Some w Inr aw by (auto simp: journal_append_def Let_def thenS_def liftS_def split: sum.splits)
      show ?thesis
        using ao(1,2) ao(3)[THEN conjunct1] ao(3)[THEN conjunct2, THEN mp, OF _ f] memory_same_trans[OF m(1)] m(2)
        by (cases r2) (simp_all add: rj)
    next
      case (Inl e1)
      obtain r2 j2 where c: "on_disk (set_len OpenFile (jn_end j)) j1 = (r2, j2)" by fastforce
      obtain d2 where d2: "set_len OpenFile (jn_end j) d1 = (r2, d2)" "j2 = j1\<lparr>jn_disk := d2\<rparr>"
        using c by (auto simp: on_disk_eq d1(2))
      note sc = set_len_cases[OF d2(1) wc(1)]
      obtain n where n: "dk_path d1 = journal_of prefix bodies @ take n sealed"
        using wc(3) poke_append[of "journal_of prefix bodies"] o by auto
      show ?thesis
      proof (cases r2)
        case (Inr u)
        then have "dk_path d2 = journal_of prefix bodies" using sc(2) n o(3) by simp
        moreover have "j' = j2" "\<exists>e. r = Inl e"
          using assms(1) Some w Inl c Inr by (auto simp: journal_append_def Let_def)
        moreover have "synced_in_time j2" using o(4) synced_cong[of j2 j] by (simp add: d1(2) d2(2))
        ultimately show ?thesis
          using on_file_cong[OF assms(2), of j2] sc(1) o by (auto simp: d1(2) d2(2) memory_same_def)
      next
        case (Inl e2)
        then have "j' = j2\<lparr>jn_pending := cut_back (jn_end j) (jn_pending j2)\<rparr>" "\<exists>e. r = Inl e"
          using assms(1) Some w c \<open>r1 = Inl e1\<close> by (auto simp: journal_append_def Let_def)
        then show ?thesis by (auto simp: d1(2) d2(2) memory_same_def sound_def cut_back_def)
      qed
    qed
  qed
  then show "memory_same j j'"
    "r = Inr offset \<Longrightarrow> offset = jn_end j \<and> jn_pending j' = jn_pending j \<and> on_file j' prefix (bodies @ [body]) h slot"
    "r = Inl e \<Longrightarrow> sound j' \<Longrightarrow> on_file j' prefix bodies h slot" by blast+
qed

end
