(* ===== verification/Message_Store.thy ===== *)
theory Message_Store
  imports Store_Scan Store_Index_Map
begin

text \<open>
  The contract of a message store, its default methods, and the memory store.  The contract is a
  locale over the operations the engine calls; \<open>view\<close> is what a store holds, and every law says
  what a call that succeeds does to it.  \<open>known\<close> are the message types a store can give back, and
  \<open>ready\<close> holds of a store that no failed call has left something to undo in.  A store may fail at any call, and then promises only that
  it is still a store.  The memory store is the map and counters themselves; its atomics and its
  lock are taken one call at a time.
\<close>

subsection \<open>The contract\<close>

record store_view =
  vw_messages :: "u64 \<Rightarrow> (msg_type \<times> bytes) option"
  vw_next_sender :: u64
  vw_next_target :: u64
  vw_reset_owed :: bool
  vw_app_watermark :: u64

definition message_at :: "u64 \<times> msg_type \<times> bytes \<Rightarrow> stored_message" where
  "message_at = (\<lambda>(q, ty, frame). \<lparr>sm_seq_num = q, sm_msg_type = ty, sm_payload = frame\<rparr>)"

text \<open>The messages held between two numbers, ascending, at most so many of them.\<close>

definition page_of :: "(u64 \<Rightarrow> (msg_type \<times> bytes) option) \<Rightarrow> u64 \<Rightarrow> u64 \<Rightarrow> usize \<Rightarrow> stored_message list \<Rightarrow> bool" where
  "page_of f lo hi n ms \<longleftrightarrow> (\<exists>xs. listing f lo hi xs \<and> ms = map message_at (take n xs))"

locale message_store =
  fixes good :: "'s \<Rightarrow> bool" and view :: "'s \<Rightarrow> store_view" and known :: "msg_type \<Rightarrow> bool"
    and ready :: "'s \<Rightarrow> bool"
    and store :: "u64 \<Rightarrow> msg_type \<Rightarrow> bytes \<Rightarrow> ('s, store_error, unit) fallible"
    and get_page :: "u64 \<Rightarrow> u64 \<Rightarrow> usize \<Rightarrow> ('s, store_error, stored_message list) fallible"
    and set_sender set_target :: "u64 \<Rightarrow> ('s, store_error, unit) fallible"
    and set_owed :: "bool \<Rightarrow> ('s, store_error, unit) fallible"
    and set_watermark :: "u64 \<Rightarrow> ('s, store_error, unit) fallible"
    and reset :: "('s, store_error, unit) fallible"
  assumes store_law: "good s \<Longrightarrow> known ty \<Longrightarrow> store q ty frame s = (Inr (), s') \<Longrightarrow>
        view s' = (view s)\<lparr>vw_messages := (vw_messages (view s))(q \<mapsto> (ty, frame))\<rparr>"
    and page_law: "good s \<Longrightarrow> get_page lo hi n s = (Inr ms, s') \<Longrightarrow>
        lo \<noteq> 0 \<and> lo \<le> hi \<and> view s' = view s \<and> page_of (vw_messages (view s)) lo hi n ms"
    and sender_law: "good s \<Longrightarrow> set_sender m s = (Inr (), s') \<Longrightarrow> view s' = (view s)\<lparr>vw_next_sender := m\<rparr>"
    and target_law: "good s \<Longrightarrow> set_target m s = (Inr (), s') \<Longrightarrow> view s' = (view s)\<lparr>vw_next_target := m\<rparr>"
    and owed_law: "good s \<Longrightarrow> ready s \<Longrightarrow> set_owed b s = (Inr (), s') \<Longrightarrow> view s' = (view s)\<lparr>vw_reset_owed := b\<rparr>"
    and watermark_law: "good s \<Longrightarrow> set_watermark m s = (Inr (), s') \<Longrightarrow> view s' = (view s)\<lparr>vw_app_watermark := m\<rparr>"
    and reset_law: "good s \<Longrightarrow> reset s = (Inr (), s') \<Longrightarrow>
        view s' = (view s)\<lparr>vw_messages := Map.empty, vw_next_sender := 1, vw_next_target := 1, vw_app_watermark := 0\<rparr>"
    and stored: "good s \<Longrightarrow> known ty \<Longrightarrow> good (snd (store q ty frame s))"
    and kept: "good s \<Longrightarrow> good (snd (get_page lo hi n s))
        \<and> good (snd (set_sender m s)) \<and> good (snd (set_target m s)) \<and> good (snd (set_owed b s))
        \<and> good (snd (set_watermark m s)) \<and> good (snd (reset s))"

subsection \<open>Default methods\<close>

definition default_file_outbound ::
  "(u64 \<Rightarrow> msg_type \<Rightarrow> bytes \<Rightarrow> ('s, store_error, unit) fallible) \<Rightarrow> (u64 \<Rightarrow> ('s, store_error, unit) fallible)
     \<Rightarrow> u64 \<Rightarrow> msg_type \<Rightarrow> bytes \<Rightarrow> u64 \<Rightarrow> ('s, store_error, unit) fallible" where
  "default_file_outbound store set_sender seq ty frame next_sender =
    thenS (store seq ty frame) (\<lambda>_. set_sender next_sender)"

definition default_reset_to ::
  "('s, store_error, unit) fallible \<Rightarrow> (u64 \<Rightarrow> ('s, store_error, unit) fallible) \<Rightarrow> (u64 \<Rightarrow> ('s, store_error, unit) fallible)
     \<Rightarrow> u64 \<Rightarrow> u64 \<Rightarrow> ('s, store_error, unit) fallible" where
  "default_reset_to reset set_sender set_target next_sender next_target =
    thenS reset (\<lambda>_. thenS (set_sender next_sender) (\<lambda>_. set_target next_target))"

definition default_get_page ::
  "(u64 \<Rightarrow> u64 \<Rightarrow> ('s, store_error, stored_message list) fallible) \<Rightarrow> u64 \<Rightarrow> u64 \<Rightarrow> usize
     \<Rightarrow> ('s, store_error, stored_message list) fallible" where
  "default_get_page range_read begin_seq end_seq limit s =
    (case range_read begin_seq end_seq s of
       (Inr messages, s') \<Rightarrow> (Inr (take limit messages), s')
     | (Inl (RangeNotAvailable _ _), s') \<Rightarrow> (Inr [], s')
     | (Inl other, s') \<Rightarrow> (Inl other, s'))"

subsection \<open>Two pages are one\<close>

lemma listing_unique: "listing f lo hi xs \<Longrightarrow> listing f lo hi ys \<Longrightarrow> xs = ys"
proof -
  assume l: "listing f lo hi xs" "listing f lo hi ys"
  have d: "distinct (map fst zs) \<and> sorted (map fst zs)" if "listing f lo hi zs" for zs
  proof -
    have "sorted_wrt (<) (map fst zs)" using that by (simp add: listing_def)
    then show ?thesis by (simp add: strict_sorted_iff)
  qed
  have "set xs = set ys" using l by (auto simp: listing_def)
  then show ?thesis using d[OF l(1)] d[OF l(2)]
    by (intro map_sorted_distinct_set_unique[of fst]) (auto simp: distinct_map)
qed

lemma listing_drop:
  assumes "listing f lo hi xs" "n \<le> length xs" "0 < n" "fst (xs ! (n - 1)) < hi"
  shows "listing f (fst (xs ! (n - 1)) + 1) hi (drop n xs)"
proof -
  let ?q = "fst (xs ! (n - 1))"
  have sorted: "sorted_wrt (<) (map fst xs)" using assms(1) by (simp add: listing_def)
  have mono: "i < j \<Longrightarrow> j < length xs \<Longrightarrow> fst (xs ! i) < fst (xs ! j)" for i j
    using sorted_wrt_nth_less[OF sorted, of i j] by simp
  have succ: "?q + 1 \<le> k \<longleftrightarrow> ?q < k" for k
  proof -
    have "unat ?q < unat hi" using assms(4) by (simp only: word_less_nat_alt)
    moreover have "unat hi < 2 ^ 64" by (rule order_less_le_trans[OF unsigned_less]) simp
    ultimately have "unat (?q + 1) = unat ?q + 1" by (simp add: unat_word_ariths)
    then show ?thesis by (simp only: word_le_nat_alt word_less_nat_alt) linarith
  qed
  have mem: "(k, v) \<in> set (drop n xs) \<longleftrightarrow> (k, v) \<in> set xs \<and> ?q < k" for k v
  proof
    assume "(k, v) \<in> set (drop n xs)"
    then obtain i where "i < length xs - n" "xs ! (n + i) = (k, v)" by (auto simp: in_set_conv_nth)
    then show "(k, v) \<in> set xs \<and> ?q < k" using mono[of "n - 1" "n + i"] assms(2,3)
      by (auto simp: in_set_conv_nth intro!: exI[of _ "n + i"])
  next
    assume a: "(k, v) \<in> set xs \<and> ?q < k"
    then obtain i where i: "i < length xs" "xs ! i = (k, v)" by (auto simp: in_set_conv_nth)
    have "n \<le> i"
    proof (rule ccontr)
      assume "\<not> n \<le> i"
      then have "i < n - 1 \<or> i = n - 1" by linarith
      then have "fst (xs ! i) \<le> ?q" using mono[of i "n - 1"] assms(2,3) by (auto intro: less_imp_le)
      then show False using a i by (simp add: not_le[symmetric])
    qed
    then show "(k, v) \<in> set (drop n xs)" using i by (auto simp: in_set_conv_nth intro!: exI[of _ "i - n"])
  qed
  have "lo \<le> ?q" using assms(1-3) by (auto simp: listing_def) (metis One_nat_def Suc_pred diff_Suc_less less_le_trans nth_mem prod.collapse lessI Suc_le_lessD)
  then show ?thesis
    using assms(1) mem succ unfolding listing_def
    by (auto simp: drop_map[symmetric] sorted_wrt_drop intro: order_trans less_imp_le)
qed

lemma pages_join:
  assumes "page_of f lo hi n ms" "ms \<noteq> []" "sm_seq_num (last ms) < hi" "page_of f (sm_seq_num (last ms) + 1) hi m ks"
    and "length ms = n"
  shows "page_of f lo hi (n + m) (ms @ ks)"
proof -
  obtain xs where xs: "listing f lo hi xs" "ms = map message_at (take n xs)" using assms(1) by (auto simp: page_of_def)
  obtain ys where ys: "listing f (sm_seq_num (last ms) + 1) hi ys" "ks = map message_at (take m ys)"
    using assms(4) by (auto simp: page_of_def)
  have n: "n \<le> length xs" "0 < n" using assms(2,5) xs(2) by auto
  have seq: "sm_seq_num (message_at x) = fst x" for x by (cases x) (auto simp: message_at_def)
  have "last ms = message_at (xs ! (n - 1))"
    using n assms(2) by (simp add: xs(2) last_conv_nth)
  then have q: "sm_seq_num (last ms) = fst (xs ! (n - 1))" by (simp add: seq)
  have "listing f (fst (xs ! (n - 1)) + 1) hi (drop n xs)"
    using listing_drop[OF xs(1) n] assms(3) q by simp
  then have "ys = drop n xs" using ys(1) listing_unique q by metis
  then have "ms @ ks = map message_at (take (n + m) xs)" by (simp add: xs(2) ys(2) take_add)
  then show ?thesis using xs(1) by (auto simp: page_of_def)
qed

context message_store
begin

lemma file_outbound_view:
  assumes "good s" "known ty" "default_file_outbound store set_sender q ty frame m s = (Inr (), s')"
  shows "view s' = (view s)\<lparr>vw_messages := (vw_messages (view s))(q \<mapsto> (ty, frame)), vw_next_sender := m\<rparr>"
proof -
  obtain t where t: "store q ty frame s = (Inr (), t)" "set_sender m t = (Inr (), s')"
    using assms(3) by (auto simp: default_file_outbound_def thenS_Inr_iff)
  have "good t" using stored[OF assms(1,2), of q frame] t(1) by (metis snd_conv)
  then show ?thesis using sender_law[OF _ t(2)] store_law[OF assms(1,2) t(1)] by simp
qed

lemma reset_to_view:
  assumes "good s" "default_reset_to reset set_sender set_target m k s = (Inr (), s')"
  shows "view s' = (view s)\<lparr>vw_messages := Map.empty, vw_next_sender := m, vw_next_target := k, vw_app_watermark := 0\<rparr>"
proof -
  obtain t u where t: "reset s = (Inr (), t)" "set_sender m t = (Inr (), u)" "set_target k u = (Inr (), s')"
    using assms(2) by (auto simp: default_reset_to_def thenS_Inr_iff)
  have "good t" using kept[OF assms(1)] t(1) by (metis snd_conv)
  moreover from this have "good u" using kept[of t] t(2) by (metis snd_conv)
  ultimately show ?thesis
    using reset_law[OF assms(1) t(1)] sender_law[OF _ t(2)] target_law[OF _ t(3)] by simp
qed

text \<open>Reading on from where a full page ended continues it.\<close>

lemma pages_continue:
  assumes "good s" "get_page lo hi n s = (Inr ms, t)" "ms \<noteq> []" "length ms = n" "sm_seq_num (last ms) < hi"
    and "get_page (sm_seq_num (last ms) + 1) hi m t = (Inr ks, u)"
  shows "page_of (vw_messages (view s)) lo hi (n + m) (ms @ ks) \<and> view u = view s"
proof -
  have "good t" using kept[OF assms(1), of lo hi n] assms(2) by (metis snd_conv)
  from page_law[OF this assms(6)] page_law[OF assms(1,2)] show ?thesis
    using pages_join[OF _ assms(3,5) _ assms(4)] by auto
qed

end

subsection \<open>The memory store\<close>

record memory_store =
  ms_messages :: "(u64, msg_type \<times> bytes) btree"
  ms_next_sender_seq :: u64
  ms_next_target_seq :: u64
  ms_reset_owed :: bool
  ms_app_watermark :: u64
  ms_creation_time :: system_time

definition memory_with_initial_seqs :: "system_time \<Rightarrow> u64 \<Rightarrow> u64 \<Rightarrow> memory_store" where
  "memory_with_initial_seqs now sender_seq target_seq =
    \<lparr>ms_messages = [], ms_next_sender_seq = sender_seq, ms_next_target_seq = target_seq,
     ms_reset_owed = False, ms_app_watermark = 0, ms_creation_time = now\<rparr>"

definition memory_new :: "system_time \<Rightarrow> memory_store" where
  "memory_new now =
    \<lparr>ms_messages = [], ms_next_sender_seq = 1, ms_next_target_seq = 1,
     ms_reset_owed = False, ms_app_watermark = 0, ms_creation_time = now\<rparr>"

definition message_count :: "memory_store \<Rightarrow> usize" where
  "message_count s = length (ms_messages s)"

definition memory_contains :: "memory_store \<Rightarrow> u64 \<Rightarrow> bool" where
  "memory_contains s seq \<longleftrightarrow> bt_get (ms_messages s) seq \<noteq> None"

definition memory_file :: "u64 \<Rightarrow> msg_type \<Rightarrow> bytes \<Rightarrow> (memory_store, store_error, unit) fallible" where
  "memory_file seq ty frame s = (Inr (), s\<lparr>ms_messages := bt_insert seq (ty, frame) (ms_messages s)\<rparr>)"

definition memory_get_range :: "u64 \<Rightarrow> u64 \<Rightarrow> (memory_store, store_error, stored_message list) fallible" where
  "memory_get_range begin_seq end_seq s =
    (let end' = (if end_seq = 0 then - 1 else end_seq) in
     if begin_seq = 0 \<or> end' < begin_seq then (Inl (StoreInvalidRange begin_seq end'), s)
     else
      (let result = map message_at (bt_range (ms_messages s) begin_seq end') in
       if result = [] then (Inl (RangeNotAvailable begin_seq end'), s) else (Inr result, s)))"

definition memory_get_page :: "u64 \<Rightarrow> u64 \<Rightarrow> usize \<Rightarrow> (memory_store, store_error, stored_message list) fallible" where
  "memory_get_page begin_seq end_seq limit s =
    (if begin_seq = 0 \<or> end_seq < begin_seq then (Inl (StoreInvalidRange begin_seq end_seq), s)
     else (Inr (map message_at (take limit (bt_range (ms_messages s) begin_seq end_seq))), s))"

definition memory_set_next_sender :: "u64 \<Rightarrow> (memory_store, store_error, unit) fallible" where
  "memory_set_next_sender seq s = (Inr (), s\<lparr>ms_next_sender_seq := seq\<rparr>)"

definition memory_set_next_target :: "u64 \<Rightarrow> (memory_store, store_error, unit) fallible" where
  "memory_set_next_target seq s = (Inr (), s\<lparr>ms_next_target_seq := seq\<rparr>)"

definition memory_reset :: "(memory_store, store_error, unit) fallible" where
  "memory_reset s =
    (Inr (), s\<lparr>ms_messages := [], ms_next_sender_seq := 1, ms_next_target_seq := 1, ms_app_watermark := 0\<rparr>)"

definition memory_set_reset_owed :: "bool \<Rightarrow> (memory_store, store_error, unit) fallible" where
  "memory_set_reset_owed owed s = (Inr (), s\<lparr>ms_reset_owed := owed\<rparr>)"

definition memory_set_app_watermark :: "u64 \<Rightarrow> (memory_store, store_error, unit) fallible" where
  "memory_set_app_watermark watermark s = (Inr (), s\<lparr>ms_app_watermark := watermark\<rparr>)"

definition memory_good :: "memory_store \<Rightarrow> bool" where
  "memory_good s \<longleftrightarrow> bt_ordered (ms_messages s)"

definition memory_view :: "memory_store \<Rightarrow> store_view" where
  "memory_view s = \<lparr>vw_messages = bt_get (ms_messages s), vw_next_sender = ms_next_sender_seq s,
     vw_next_target = ms_next_target_seq s, vw_reset_owed = ms_reset_owed s, vw_app_watermark = ms_app_watermark s\<rparr>"

lemmas memory_ops = memory_file_def memory_get_page_def memory_set_next_sender_def memory_set_next_target_def
  memory_reset_def memory_set_reset_owed_def memory_set_app_watermark_def memory_good_def memory_view_def

interpretation memory: message_store memory_good memory_view "\<lambda>_. True" "\<lambda>_. True" memory_file memory_get_page
  memory_set_next_sender memory_set_next_target memory_set_reset_owed memory_set_app_watermark memory_reset
proof
  fix s s' lo hi n ms
  assume "memory_good s" "memory_get_page lo hi n s = (Inr ms, s')"
  then show "lo \<noteq> 0 \<and> lo \<le> hi \<and> memory_view s' = memory_view s \<and> page_of (vw_messages (memory_view s)) lo hi n ms"
    using bt_range_lists[of "ms_messages s" lo hi] by (auto simp: memory_ops page_of_def take_map not_less split: if_splits)
next
  fix s q ty frame lo hi n m b
  assume "memory_good s"
  then show "memory_good (snd (memory_file q ty frame s))" by (simp add: memory_ops bt_insert_ordered)
next
  fix s lo hi n m b
  assume "memory_good s"
  then show "memory_good (snd (memory_get_page lo hi n s))
      \<and> memory_good (snd (memory_set_next_sender m s)) \<and> memory_good (snd (memory_set_next_target m s))
      \<and> memory_good (snd (memory_set_reset_owed b s)) \<and> memory_good (snd (memory_set_app_watermark m s))
      \<and> memory_good (snd (memory_reset s))"
    by (simp add: memory_ops bt_ordered_def)
next
  fix s q ty frame s'
  assume "memory_good s" "memory_file q ty frame s = (Inr (), s')"
  then show "memory_view s' = (memory_view s)\<lparr>vw_messages := (vw_messages (memory_view s))(q \<mapsto> (ty, frame))\<rparr>"
    by (auto simp: memory_ops bt_insert_get fun_eq_iff)
qed (auto simp: memory_ops bt_get_def fun_eq_iff)

text \<open>The trait's default page, over the memory store's range, is the memory store's page.\<close>

lemma memory_page_default:
  "hi \<noteq> 0 \<Longrightarrow> default_get_page memory_get_range lo hi n s = memory_get_page lo hi n s"
  by (auto simp: default_get_page_def memory_get_range_def memory_get_page_def Let_def take_map)

end
