(* ===== verification/Store_Journal_Steps.thy ===== *)
theory Store_Journal_Steps
  imports Store_Journal_Inv Message_Store
begin

text \<open>
  Every write the journal makes, on every outcome of the file system: it succeeds and the file
  holds it, or it fails and the file is as it was, or an undo is pending and the journal answers
  nothing until it has been made.
\<close>

lemma when_usable_eq:
  "when_usable m j = (if is_clear (jn_pending j) then m j else (Inl StoreIo, j))"
  by (simp add: when_usable_def thenS_def usable_def)

lemma clear_sound: "is_clear (jn_pending j) \<Longrightarrow> sound j"
  by (simp add: is_clear_def sound_def)

lemma sound_same: "jn_pending j' = jn_pending j \<Longrightarrow> sound j' = sound j"
  by (simp add: sound_def)

subsection \<open>What is stored\<close>

definition stored_in :: "bytes list \<Rightarrow> u64 \<Rightarrow> (msg_type \<times> bytes) option" where
  "stored_in bodies q = map_option (\<lambda>b. (rb_msg_type b, rb_frame b))
     (find (\<lambda>b. rb_seq b = q) (rev (map (projr \<circ> decode_body) bodies)))"

lemma stored_in_empty: "stored_in [] = Map.empty"
  by (simp add: stored_in_def fun_eq_iff)

lemma stored_in_snoc:
  "decode_body body = Inr b \<Longrightarrow> stored_in (bodies @ [body]) = (stored_in bodies)(rb_seq b \<mapsto> (rb_msg_type b, rb_frame b))"
  by (auto simp: stored_in_def fun_eq_iff)

definition journal_view :: "journal \<Rightarrow> store_view" where
  "journal_view j =
    \<lparr>vw_messages = (\<lambda>q. case read_filed (file_bytes OpenFile (jn_disk j)) (jn_index j) q of
        Some (Inr m) \<Rightarrow> Some (sm_msg_type m, sm_payload m) | _ \<Rightarrow> None),
     vw_next_sender = sh_next_sender (jn_shared j), vw_next_target = sh_next_target (jn_shared j),
     vw_reset_owed = sh_reset_owed (jn_shared j), vw_app_watermark = sh_app_watermark (jn_shared j)\<rparr>"

lemma read_on_file:
  assumes "on_file j prefix bodies h slot" "indexed j bodies"
  shows "read_filed (file_bytes OpenFile (jn_disk j)) (jn_index j) q = map_option (Inr \<circ> message_of)
      (find (\<lambda>b. rb_seq b = q) (rev (map (projr \<circ> decode_body) bodies)))"
proof -
  have o: "dk_detached (jn_disk j) = None" "dk_path (jn_disk j) = journal_of prefix bodies" "length prefix = DATA_START"
      "length (journal_of prefix bodies) \<le> usize_max"
      "\<forall>b\<in>set bodies. good_body (max_body_of (jn_config j)) b \<and> (\<exists>x. decode_body b = Inr x)"
      "index_get (jn_index j) = filed DATA_START bodies Map.empty"
    using assms unfolding on_file_def indexed_def by auto
  have "file_bytes OpenFile (jn_disk j) = prefix @ run_image bodies @ []"
    using attached(1)[OF o(1)] o(2) by (simp add: journal_of_def)
  from read_filed_run[OF o(3) this _ o(5,6)] show ?thesis
    using attached(1)[OF o(1), of OpenFile] o(2,4) by simp
qed

lemma view_messages:
  assumes "on_file j prefix bodies h slot" "indexed j bodies"
  shows "vw_messages (journal_view j) = stored_in bodies"
  unfolding journal_view_def read_on_file[OF assms] stored_in_def
  by (auto simp: fun_eq_iff message_of_def split: option.split)

lemma view_backed:
  assumes "on_file j prefix bodies h slot" "indexed j bodies" "getters_agree j"
  shows "journal_view j = \<lparr>vw_messages = stored_in bodies, vw_next_sender = jn_next_sender j, vw_next_target = jn_next_target j,
     vw_reset_owed = jn_reset_owed j, vw_app_watermark = jn_app_watermark j\<rparr>"
  using view_messages[OF assms(1,2)] assms(3) by (simp add: journal_view_def getters_agree_def)

lemma view_same:
  assumes "on_file j prefix bodies h slot" "indexed j bodies" "getters_agree j" "memory_same j j'" "on_file j' prefix' bodies h' slot'"
  shows "journal_view j' = journal_view j"
proof -
  have "indexed j' bodies" "getters_agree j'" using memory_same_keeps[OF assms(4)] assms(2,3) by simp_all
  from view_backed[OF assms(5) this] view_backed[OF assms(1-3)] assms(4) show ?thesis
    by (simp add: memory_same_def)
qed

subsection \<open>Filing a frame\<close>

lemma take_generation_eq:
  "take_generation j = (r, j') \<Longrightarrow> (r = Inl StoreIo \<and> j' = j)
     \<or> (\<exists>g. r = Inr (jn_next_generation j) \<and> j' = j\<lparr>jn_next_generation := g\<rparr> \<and> jn_next_generation j < g)"
proof -
  assume t: "take_generation j = (r, j')"
  show ?thesis
  proof (cases "checked_add (jn_next_generation j) 1")
    case (Some g)
    then have "unat g = unat (jn_next_generation j) + 1" using unat_checked_add by fastforce
    then show ?thesis using t Some by (auto simp: take_generation_def word_less_nat_alt)
  qed (use t in \<open>simp add: take_generation_def\<close>)
qed

lemma on_file_synced: "on_file j prefix bodies h slot \<Longrightarrow> synced_in_time j"
  unfolding on_file_def by (elim conjE)

lemma on_file_generation:
  "on_file j prefix bodies h slot \<Longrightarrow> jn_next_generation j \<le> g \<Longrightarrow> on_file (j\<lparr>jn_next_generation := g\<rparr>) prefix bodies h slot"
  by (rule on_file_cong) (simp_all add: on_file_synced synced_cong[of "j\<lparr>jn_next_generation := g\<rparr>" j])

lemma sender_of_snoc:
  assumes "decode_body body = Inr b" "\<forall>c\<in>set (counters_of bodies). fst c < g" "cs_generation slot < g"
  shows "sender_of slot (bodies @ [body]) = (case rb_counter b of
      Some (g', n) \<Rightarrow> if g' = g then n else sender_of slot (bodies @ [body]) | None \<Rightarrow> sender_of slot bodies)"
proof (cases "rb_counter b")
  case None
  then show ?thesis by (simp add: sender_of_def counters_append assms(1))
next
  case (Some c)
  obtain g' n where c: "c = (g', n)" by (cases c)
  show ?thesis
  proof (cases "g' = g")
    case True
    have "newest_from None (counters_of bodies) = Some d \<Longrightarrow> fst d < g" for d
      using newest_from_Some[of None "counters_of bodies" d] assms(2) by auto
    then have "newest_from None (counters_of (bodies @ [body])) = Some (g, n)"
      using Some c True by (auto simp: counters_append assms(1) newest_from_def newer_def split: option.split)
    then show ?thesis using Some c True assms(3) by (simp add: sender_of_def)
  qed (use Some c in simp)
qed


lemma encoded_takes:
  assumes "encode_frame_record_into seq nxt ty frame limit rec0 = (Inr (), sealed)"
  shows "takes_generation sealed \<longleftrightarrow> nxt \<noteq> None"
proof -
  obtain len :: u32 where "sealed = u32_to_le len @ replicate 8 0 @ body_image (unsealed seq nxt 0 ty frame)"
    using encoded_record[OF assms] by blast
  then show ?thesis
    by (simp add: takes_generation_def get_at_def RECORD_HEADER_LEN_def nth_append body_image_def unsealed_def
        KIND_FRAME_def KIND_FRAME_AND_SENDER_def split: option.split)
qed

lemma ok_same:
  assumes "on_file j1 prefix bodies h slot" "memory_same j j1" "indexed j bodies" "counters_on_file j bodies h slot"
    and "getters_agree j" "journal_ok j"
  shows "journal_ok j1"
  using assms memory_same_keeps[OF assms(2)] by (auto simp: journal_ok_def memory_same_def)

lemma ok_unsound: "\<not> sound j1 \<Longrightarrow> memory_same j j1 \<Longrightarrow> journal_ok j \<Longrightarrow> journal_ok j1"
  by (simp add: journal_ok_def memory_same_def)

lemma slot_generation_less:
  "on_file j prefix bodies h slot \<Longrightarrow> cs_generation slot < jn_next_generation j"
proof -
  assume o: "on_file j prefix bodies h slot"
  then have "newest_slot (jn_slots j) = Inr (jn_active_slot j, slot)"
    and gens: "\<forall>g\<in>set (slot_generations (jn_slots j)). g < jn_next_generation j"
    unfolding on_file_def using open_newest by blast+
  from newest_slot_newest(2)[OF this(1)] have "cs_generation slot \<in> set (slot_generations (jn_slots j))"
    by (auto simp: slot_generations_def List.map_filter_def split: if_splits)
  then show ?thesis using gens by blast
qed

lemma sealed_body:
  assumes "encode_frame_record_into seq nxt ty frame (fc_max_frame_size c) [] = (Inr (), sealed)" "made_type ty"
    and "nxt = None \<longrightarrow> x = 0"
  shows "seal_frame_record x sealed = record_image (body_image (unsealed seq nxt x ty frame))"
    and "good_body (max_body_of c) (body_image (unsealed seq nxt x ty frame))"
    and "decode_body (body_image (unsealed seq nxt x ty frame)) = Inr (unsealed seq nxt x ty frame)"
proof -
  let ?b = "unsealed seq nxt x ty frame"
  have "map_option snd (rb_counter ?b) = nxt" by (cases nxt) (simp_all add: unsealed_def)
  then have "written_record (fc_max_frame_size c) ?b = Some (seal_frame_record x sealed)"
    using assms(1,3) by (cases nxt) (simp_all add: written_record_def unsealed_def)
  moreover have made: "made_type (rb_msg_type ?b)" using assms(2) by (simp add: unsealed_def)
  ultimately show "seal_frame_record x sealed = record_image (body_image ?b)" "good_body (max_body_of c) (body_image ?b)"
    using written_record_image by (auto simp: max_body_of_def MAX_BODY_OVERHEAD_def body_limit_def)
  show "decode_body (body_image ?b) = Inr ?b" by (rule body_roundtrip[OF made])
qed

lemma record_body_len_image: "record_body_len (record_image body) = word_of_nat (length body)"
  by (simp add: record_body_len_def record_image_def get_to_def)

lemma index_filed:
  assumes "indexed j bodies" "index_insert seq (entry_of (DATA_START + length (run_image bodies)) body) (jn_index j) = (old, ix)"
    and "good_body m body" "decode_body body = Inr b" "rb_seq b = seq"
  shows "index_ok ix \<and> index_get ix = filed DATA_START (bodies @ [body]) Map.empty"
proof -
  have nz: "ie_body_len (entry_of (DATA_START + length (run_image bodies)) body) \<noteq> 0"
    using good_body_len[OF assms(3)] assms(3) by (auto simp: entry_of_def good_body_def)
  show ?thesis
    using index_insert_map[OF _ nz assms(2)] assms(1,4,5) by (simp add: indexed_def filed_append)
qed

definition note_replaced :: "index_entry option \<Rightarrow> journal \<Rightarrow> journal" where
  "note_replaced old j = (case Option.bind old (\<lambda>e. usize_add (jn_dead_bytes j) (record_len e)) of
     Some dead \<Rightarrow> j\<lparr>jn_dead_bytes := dead\<rparr> | None \<Rightarrow> j)"

lemma note_replaced_keeps [simp]:
  "jn_disk (note_replaced old j) = jn_disk j" "jn_slots (note_replaced old j) = jn_slots j"
  "jn_active_slot (note_replaced old j) = jn_active_slot j" "jn_config (note_replaced old j) = jn_config j"
  "jn_end (note_replaced old j) = jn_end j" "jn_next_generation (note_replaced old j) = jn_next_generation j"
  "jn_durable_end (note_replaced old j) = jn_durable_end j" "jn_durable_slot (note_replaced old j) = jn_durable_slot j"
  "jn_unsynced (note_replaced old j) = jn_unsynced j" "jn_pending (note_replaced old j) = jn_pending j"
  "jn_shared (note_replaced old j) = jn_shared j" "jn_index (note_replaced old j) = jn_index j"
  "jn_next_sender (note_replaced old j) = jn_next_sender j" "jn_next_target (note_replaced old j) = jn_next_target j"
  "jn_reset_owed (note_replaced old j) = jn_reset_owed j" "jn_app_watermark (note_replaced old j) = jn_app_watermark j"
  "jn_creation_time (note_replaced old j) = jn_creation_time j"
  by (simp_all add: note_replaced_def split: option.split)

lemma append_frame_eq:
  "append_frame seq sealed nxt j =
    (case (if takes_generation sealed then take_generation j else (Inr 0, j)) of
       (Inl e, j1) \<Rightarrow> (Inl e, j1)
     | (Inr x, j1) \<Rightarrow>
         (case journal_append (seal_frame_record x sealed) j1 of
            (Inl e, j2) \<Rightarrow> (Inl e, j2)
          | (Inr offset, j2) \<Rightarrow>
             (case index_insert seq \<lparr>ie_offset = word_of_nat offset, ie_body_len = record_body_len (seal_frame_record x sealed)\<rparr> (jn_index j2) of
                (old, ix) \<Rightarrow>
                  (let j3 = note_replaced old (j2\<lparr>jn_index := ix\<rparr>) in
                   (Inr (), case nxt of Some n \<Rightarrow> j3\<lparr>jn_next_sender := n, jn_shared := (jn_shared j3)\<lparr>sh_next_sender := n\<rparr>\<rparr>
                                | None \<Rightarrow> j3)))))"
  by (auto simp: append_frame_def seal_and_append_def Let_def note_replaced_def split: prod.splits sum.splits option.splits)

text \<open>The memory after a record has been appended: index, replaced bytes and next sender number.\<close>

lemma filed_frame_ok:
  assumes new: "on_file j2 prefix (bodies @ [body_image b]) h slot" "sound j2" and m2: "memory_same j j2"
    and inv: "on_file j prefix bodies h slot" "indexed j bodies" "counters_on_file j bodies h slot" and gets: "getters_agree j"
    and base: "sh_reset_owed (jn_shared j) = jn_reset_owed j" "fc_sync_policy (jn_config j) \<noteq> EveryN 0"
    and ins: "index_insert (rb_seq b) (entry_of (DATA_START + length (run_image bodies)) (body_image b)) (jn_index j2) = (old, ix)"
    and body: "good_body m (body_image b)" "decode_body (body_image b) = Inr b"
    and ctr: "rb_counter b = map_option (\<lambda>n. (x, n)) nxt \<and> (nxt \<noteq> None \<longrightarrow> x = jn_next_generation j)"
    and j': "j' = (case nxt of Some n \<Rightarrow> (note_replaced old (j2\<lparr>jn_index := ix\<rparr>))\<lparr>jn_next_sender := n,
               jn_shared := (jn_shared (note_replaced old (j2\<lparr>jn_index := ix\<rparr>)))\<lparr>sh_next_sender := n\<rparr>\<rparr>
             | None \<Rightarrow> note_replaced old (j2\<lparr>jn_index := ix\<rparr>))"
  shows "journal_ok j' \<and> (Inr () = Inr () \<longrightarrow> sound j' \<and> journal_view j' = (journal_view j)\<lparr>
      vw_messages := (vw_messages (journal_view j))(rb_seq b \<mapsto> (rb_msg_type b, rb_frame b)),
      vw_next_sender := (case nxt of Some n \<Rightarrow> n | None \<Rightarrow> vw_next_sender (journal_view j))\<rparr>)"
proof -
  have same: "jn_index j2 = jn_index j" "jn_shared j2 = jn_shared j" "jn_config j2 = jn_config j"
      "jn_next_sender j2 = jn_next_sender j" "jn_next_target j2 = jn_next_target j" "jn_reset_owed j2 = jn_reset_owed j"
      "jn_app_watermark j2 = jn_app_watermark j" "jn_creation_time j2 = jn_creation_time j"
    using m2 by (simp_all add: memory_same_def)
  have f: "jn_disk j' = jn_disk j2" "jn_slots j' = jn_slots j2" "jn_active_slot j' = jn_active_slot j2"
      "jn_config j' = jn_config j2" "jn_end j' = jn_end j2" "jn_next_generation j' = jn_next_generation j2"
      "jn_durable_end j' = jn_durable_end j2" "jn_durable_slot j' = jn_durable_slot j2"
      "jn_unsynced j' = jn_unsynced j2" "jn_pending j' = jn_pending j2" "jn_index j' = ix"
      "jn_next_sender j' = (case nxt of Some n \<Rightarrow> n | None \<Rightarrow> jn_next_sender j)"
      "jn_shared j' = (case nxt of Some n \<Rightarrow> (jn_shared j)\<lparr>sh_next_sender := n\<rparr> | None \<Rightarrow> jn_shared j)"
      "jn_next_target j' = jn_next_target j" "jn_reset_owed j' = jn_reset_owed j"
      "jn_app_watermark j' = jn_app_watermark j" "jn_creation_time j' = jn_creation_time j"
    by (simp_all add: j' same split: option.split)
  have "synced_in_time j'" using on_file_synced[OF new(1)] synced_cong[of j' j2] f by simp
  then have on: "on_file j' prefix (bodies @ [body_image b]) h slot" by (intro on_file_cong[OF new(1)]) (simp_all add: f)
  have "indexed j2 bodies" using memory_same_keeps(1)[OF m2] inv(2) by simp
  from index_filed[OF this ins body refl] have ix: "indexed j' (bodies @ [body_image b])"
    by (simp add: indexed_def f)
  have "\<forall>c\<in>set (counters_of bodies). fst c < jn_next_generation j" using inv(1) unfolding on_file_def by blast
  from sender_of_snoc[OF body(2) this slot_generation_less[OF inv(1)]]
  have ctrs: "counters_on_file j' (bodies @ [body_image b]) h slot"
    using inv(3) ctr by (cases nxt) (simp_all add: counters_on_file_def f)
  have gets': "getters_agree j'" using gets by (cases nxt) (simp_all add: getters_agree_def f)
  have "sound j'" using new(2) sound_same[OF f(10)] by simp
  moreover have "journal_ok j'"
    using on ix ctrs gets' base by (cases nxt) (auto simp: journal_ok_def f same)
  moreover have "journal_view j' = (journal_view j)\<lparr>
      vw_messages := (vw_messages (journal_view j))(rb_seq b \<mapsto> (rb_msg_type b, rb_frame b)),
      vw_next_sender := (case nxt of Some n \<Rightarrow> n | None \<Rightarrow> vw_next_sender (journal_view j))\<rparr>"
    using view_messages[OF on ix] view_messages[OF inv(1,2)] stored_in_snoc[OF body(2), of bodies]
    by (cases nxt) (simp_all add: journal_view_def f)
  ultimately show ?thesis by simp
qed

lemma append_frame_outcomes:
  assumes "append_frame seq sealed nxt j = (r, j')" "sound j" "journal_ok j"
    and enc: "encode_frame_record_into seq nxt ty frame (fc_max_frame_size (jn_config j)) [] = (Inr (), sealed)" "made_type ty"
  shows "journal_ok j'" and "r = Inr () \<Longrightarrow> sound j' \<and> journal_view j' = (journal_view j)\<lparr>
      vw_messages := (vw_messages (journal_view j))(seq \<mapsto> (ty, frame)),
      vw_next_sender := (case nxt of Some n \<Rightarrow> n | None \<Rightarrow> vw_next_sender (journal_view j))\<rparr>"
    and "r \<noteq> Inr () \<Longrightarrow> sound j' \<Longrightarrow> journal_view j' = journal_view j"
proof -
  obtain prefix bodies h slot where inv: "on_file j prefix bodies h slot" "indexed j bodies" "counters_on_file j bodies h slot"
    and gets: "getters_agree j" using assms(2,3) by (auto simp: journal_ok_def)
  have base: "sh_reset_owed (jn_shared j) = jn_reset_owed j" "fc_sync_policy (jn_config j) \<noteq> EveryN 0"
    using assms(3) by (auto simp: journal_ok_def)
  have takes: "takes_generation sealed \<longleftrightarrow> nxt \<noteq> None" by (rule encoded_takes[OF enc(1)])
  define g where "g = jn_next_generation j"
  obtain r1 j1 where gen: "(if takes_generation sealed then take_generation j else (Inr 0, j)) = (r1, j1)" by fastforce
  have j1: "on_file j1 prefix bodies h slot" "memory_same j j1" "jn_pending j1 = jn_pending j"
    and g1: "\<And>x. r1 = Inr x \<Longrightarrow> (nxt \<noteq> None \<longrightarrow> x = g \<and> g < jn_next_generation j1)"
  proof -
    have "(j1 = j \<and> (nxt \<noteq> None \<longrightarrow> (\<exists>e. r1 = Inl e))) \<or> (\<exists>k. r1 = Inr g \<and> j1 = j\<lparr>jn_next_generation := k\<rparr> \<and> g < k)"
      using gen take_generation_eq[of j r1 j1] takes unfolding g_def by (auto split: if_splits)
    then show "on_file j1 prefix bodies h slot" "memory_same j j1" "jn_pending j1 = jn_pending j"
      "\<And>x. r1 = Inr x \<Longrightarrow> (nxt \<noteq> None \<longrightarrow> x = g \<and> g < jn_next_generation j1)"
      using inv(1) on_file_generation[OF inv(1)] by (auto simp: memory_same_def g_def intro: less_imp_le)
  qed
  have "journal_ok j' \<and> (r = Inr () \<longrightarrow> sound j' \<and> journal_view j' = (journal_view j)\<lparr>
      vw_messages := (vw_messages (journal_view j))(seq \<mapsto> (ty, frame)),
      vw_next_sender := (case nxt of Some n \<Rightarrow> n | None \<Rightarrow> vw_next_sender (journal_view j))\<rparr>)
    \<and> (r \<noteq> Inr () \<longrightarrow> sound j' \<longrightarrow> journal_view j' = journal_view j)"
  proof (cases r1)
    case (Inl e)
    then have "r = Inl e" "j' = j1" using assms(1) gen by (simp_all add: append_frame_eq)
    then show ?thesis
      using ok_same[OF j1(1,2) inv(2,3) gets assms(3)] view_same[OF inv(1,2) gets j1(2,1)] by simp
  next
    case (Inr x)
    let ?b = "unsealed seq nxt x ty frame"
    have x0: "nxt = None \<longrightarrow> x = 0" using gen takes Inr by (auto split: if_splits)
    have conf: "jn_config j1 = jn_config j" using j1(2) by (simp add: memory_same_def)
    note sb = sealed_body[OF enc x0]
    obtain r2 j2 where app: "journal_append (seal_frame_record x sealed) j1 = (r2, j2)" by fastforce
    have "\<forall>g' n. rb_counter ?b = Some (g', n) \<longrightarrow> g' < jn_next_generation j1"
      using g1[OF Inr] by (cases nxt) (auto simp: unsealed_def)
    note ao = append_outcomes[OF app j1(1) _ sb(1) sb(2)[folded conf] sb(3) this]
    have s1: "sound j1" using assms(2) sound_same[OF j1(3)] by simp
    have m2: "memory_same j j2" using memory_same_trans[OF j1(2) ao(1)[OF s1]] .
    show ?thesis
    proof (cases r2)
      case (Inl e)
      then have "j' = j2" "r = Inl e" using assms(1) gen Inr app by (simp_all add: append_frame_eq)
      then show ?thesis
        using ao(3)[OF s1 Inl] ok_same[OF _ m2 inv(2,3) gets assms(3)] ok_unsound[OF _ m2 assms(3)]
          view_same[OF inv(1,2) gets m2] by blast
    next
      case r2: (Inr offset)
      note app_ok = ao(2)[OF s1 r2]
      have off: "offset = DATA_START + length (run_image bodies)"
        using app_ok j1(1) by (simp add: on_file_def journal_of_def)
      let ?body = "body_image ?b" and ?e = "entry_of (DATA_START + length (run_image bodies)) (body_image ?b)"
      obtain old ix where ins: "index_insert seq ?e (jn_index j2) = (old, ix)" by fastforce
      let ?j3 = "note_replaced old (j2\<lparr>jn_index := ix\<rparr>)"
      have rj: "r = Inr ()" "j' = (case nxt of Some n \<Rightarrow> ?j3\<lparr>jn_next_sender := n, jn_shared := (jn_shared ?j3)\<lparr>sh_next_sender := n\<rparr>\<rparr> | None \<Rightarrow> ?j3)"
        using assms(1) gen Inr app r2 ins
        by (simp_all add: append_frame_eq sb(1) record_body_len_image entry_of_def off Let_def)
      have parts: "rb_seq ?b = seq" "rb_msg_type ?b = ty" "rb_frame ?b = frame"
          "rb_counter ?b = map_option (\<lambda>n. (x, n)) nxt" by (simp_all add: unsealed_def)
      have ins': "index_insert (rb_seq ?b) ?e (jn_index j2) = (old, ix)" unfolding parts(1) by (rule ins)
      have ctr: "rb_counter ?b = map_option (\<lambda>n. (x, n)) nxt \<and> (nxt \<noteq> None \<longrightarrow> x = jn_next_generation j)"
        using g1[OF Inr] parts(4) by (simp add: g_def)
      have "sound j2" using sound_same[of j2 j1] app_ok s1 by blast
      from filed_frame_ok[OF conjunct2[OF conjunct2[OF app_ok]] this m2 inv gets base ins' sb(2,3) ctr rj(2)]
      show ?thesis unfolding parts(1-3) rj(1) by simp
    qed
  qed
  then show "journal_ok j'" "r = Inr () \<Longrightarrow> sound j' \<and> journal_view j' = (journal_view j)\<lparr>
      vw_messages := (vw_messages (journal_view j))(seq \<mapsto> (ty, frame)),
      vw_next_sender := (case nxt of Some n \<Rightarrow> n | None \<Rightarrow> vw_next_sender (journal_view j))\<rparr>"
    "r \<noteq> Inr () \<Longrightarrow> sound j' \<Longrightarrow> journal_view j' = journal_view j" by blast+
qed

subsection \<open>Writing the counters\<close>

text \<open>The memory once both counters are written: only they change.\<close>

definition counters_set :: "journal \<Rightarrow> u64 \<Rightarrow> u64 \<Rightarrow> journal \<Rightarrow> bool" where
  "counters_set j ns nt j' \<longleftrightarrow> memory_same (j\<lparr>jn_next_sender := ns, jn_next_target := nt,
      jn_shared := (jn_shared j)\<lparr>sh_next_sender := ns, sh_next_target := nt\<rparr>\<rparr>) j'"

definition stamped :: "journal \<Rightarrow> bytes list \<Rightarrow> u64 \<Rightarrow> u64 \<Rightarrow> counter_slot \<Rightarrow> bool" where
  "stamped j bodies ns nt slot \<longleftrightarrow> sender_of slot bodies = ns \<and> cs_next_target slot = nt
     \<and> cs_app_watermark slot = jn_app_watermark j \<and> cs_reset_owed slot = jn_reset_owed j"

definition counter_image :: "u64 \<Rightarrow> u64 \<Rightarrow> u64 \<Rightarrow> journal \<Rightarrow> counter_slot" where
  "counter_image g ns nt j = \<lparr>cs_generation = g, cs_next_sender = ns, cs_next_target = nt,
     cs_durable_end = word_of_nat (jn_durable_end j), cs_app_watermark = jn_app_watermark j, cs_reset_owed = jn_reset_owed j\<rparr>"

lemma counters_prefix:
  assumes on: "on_file j prefix bodies h slot" and target: "target = (if jn_durable_slot j = 0 then 1 else 0)"
    and offset: "slot_offset target = Inr offset" and g: "g = jn_next_generation j" "g < k"
  shows "\<exists>prefix'. poke offset (encode_slot (counter_image g ns nt j)) (journal_of prefix bodies) = journal_of prefix' bodies
     \<and> (\<forall>d. dk_detached d = None \<longrightarrow> dk_path d = journal_of prefix' bodies \<longrightarrow>
          on_file (j\<lparr>jn_next_generation := k, jn_disk := d, jn_slots := slot_set target (encode_slot (counter_image g ns nt j)) (jn_slots j),
            jn_active_slot := target\<rparr>) prefix' bodies h (counter_image g ns nt j))
     \<and> (\<forall>previous x. slot_get (jn_slots j) target = Some previous \<longrightarrow> length x = 52
           \<longrightarrow> poke offset previous (poke offset x (journal_of prefix bodies)) = journal_of prefix bodies)
     \<and> (\<forall>n. \<exists>x. length x = 52 \<and> poke offset (take n (encode_slot (counter_image g ns nt j))) (journal_of prefix bodies)
           = poke offset x (journal_of prefix bodies))"
proof -
  let ?new = "counter_image g ns nt j"
  have o: "length prefix = DATA_START" "open_prefix prefix = Inr (h, jn_slots j, jn_active_slot j, slot)"
      "\<forall>x\<in>set (slot_generations (jn_slots j)). x < g" "jn_durable_end j \<le> jn_end j" "jn_end j \<le> usize_max"
      "\<forall>c\<in>set (counters_of bodies). fst c < g" using on unfolding on_file_def g(1) by blast+
  have t: "target = 0 \<or> target = 1" using target by auto
  have gen: "\<forall>x\<in>set (slot_generations (jn_slots j)). x < cs_generation ?new" using o(3) by (simp add: counter_image_def)
  note newest = newest_after_write[OF gen t]
  obtain prefix' where p: "length prefix' = DATA_START" "poke offset (encode_slot ?new) (prefix @ run_image bodies) = prefix' @ run_image bodies"
      "open_prefix prefix' = Inr (h, slot_set target (encode_slot ?new) (jn_slots j), target, ?new)"
    and undo: "\<forall>previous x. slot_get (jn_slots j) target = Some previous \<longrightarrow> length x = 52
           \<longrightarrow> poke offset previous (poke offset x (prefix @ run_image bodies)) = prefix @ run_image bodies"
        "\<forall>n. \<exists>x. length x = 52 \<and> poke offset (take n (encode_slot ?new)) (prefix @ run_image bodies) = poke offset x (prefix @ run_image bodies)"
    using slot_write[OF o(1,2) t length_encodings(2) offset, of ?new "run_image bodies"] newest(1) by blast
  have du: "unat (cs_durable_end ?new) \<le> jn_end j"
  proof -
    have "unat (word_of_nat (jn_durable_end j) :: u64) = jn_durable_end j"
      using o(4,5) by (intro unat_of_nat_small) (simp add: usize_max_def)
    then show ?thesis using o(4) by (simp add: counter_image_def)
  qed
  have "\<forall>x\<in>set (slot_generations (slot_set target (encode_slot ?new) (jn_slots j))). x < k"
    using newest(2) o(3) g(2) by (fastforce simp: counter_image_def intro: order_less_trans)
  moreover have "\<forall>c\<in>set (counters_of bodies). fst c < k" using o(6) g(2) by (blast intro: order_less_trans)
  moreover have "synced_in_time (j\<lparr>jn_next_generation := k, jn_disk := d, jn_slots := sl, jn_active_slot := target\<rparr>)" for d sl
    using on_file_synced[OF on] synced_cong[of "j\<lparr>jn_next_generation := k, jn_disk := d, jn_slots := sl, jn_active_slot := target\<rparr>" j] by simp
  ultimately have "on_file (j\<lparr>jn_next_generation := k, jn_disk := d, jn_slots := slot_set target (encode_slot ?new) (jn_slots j),
            jn_active_slot := target\<rparr>) prefix' bodies h ?new"
    if "dk_detached d = None" "dk_path d = journal_of prefix' bodies" for d
    using on p(1,3) du that unfolding on_file_def by (simp add: journal_of_def)
  then show ?thesis using p(2) undo by (auto simp: journal_of_def)
qed

lemma write_counters_eq:
  "write_counters ns nt j =
    (case take_generation j of
       (Inl e, j1) \<Rightarrow> (Inl e, j1)
     | (Inr g, j1) \<Rightarrow>
        (let target = (if jn_durable_slot j1 = 0 then 1 else 0); img = encode_slot (counter_image g ns nt j1) in
         case slot_offset target of
           Inl e \<Rightarrow> (Inl e, j1)
         | Inr offset \<Rightarrow>
          (case on_disk (write_at OpenFile img offset) j1 of
            (Inl _, j2) \<Rightarrow>
              (case slot_get (jn_slots j2) target of
                 None \<Rightarrow> (Inl StoreIo, j2\<lparr>jn_pending := (jn_pending j2)\<lparr>pd_restore_slots := Some (jn_slots j2)\<rparr>\<rparr>)
               | Some previous \<Rightarrow>
                   (case on_disk (write_at OpenFile previous offset) j2 of
                      (Inr _, j3) \<Rightarrow> (Inl StoreIo, j3)
                    | (Inl _, j3) \<Rightarrow>
                        (Inl StoreIo, j3\<lparr>jn_pending := (jn_pending j3)\<lparr>pd_restore_slots := Some (jn_slots j3)\<rparr>\<rparr>)))
          | (Inr _, j2) \<Rightarrow>
              (case after_write (j2\<lparr>jn_slots := slot_set target img (jn_slots j2), jn_active_slot := target\<rparr>) of
                 (Inl e, j3) \<Rightarrow> (Inl e, j3)
               | (Inr _, j3) \<Rightarrow>
                  (Inr (), j3\<lparr>jn_next_sender := ns, jn_next_target := nt,
                             jn_shared := (jn_shared j3)\<lparr>sh_next_sender := ns, sh_next_target := nt\<rparr>\<rparr>)))))"
  by (auto simp: write_counters_def thenS_def liftS_def Let_def counter_image_def split: prod.splits sum.splits option.splits)

lemma slot_offset_within: "slot_offset target = Inr offset \<Longrightarrow> offset \<le> 8192"
  by (cases "target = 0"; cases "target = 1") (auto simp: slot_offset_def get_at_def SLOT_OFFSETS_def split: if_splits)

text \<open>A failed slot write: undone, or left to undo.\<close>

lemma failed_slot_write:
  assumes on: "on_file j1 prefix bodies h slot" and s: "sound j1"
    and w: "write_at OpenFile img offset (jn_disk j1) = (Inl e, d2)"
    and part: "\<exists>x. length x = 52 \<and> dk_path d2 = poke offset x (journal_of prefix bodies)"
    and undo: "\<forall>x. length x = 52 \<longrightarrow> poke offset previous (poke offset x (journal_of prefix bodies)) = journal_of prefix bodies"
    and res: "(case on_disk (write_at OpenFile previous offset) (j1\<lparr>jn_disk := d2\<rparr>) of
                (Inr _, j3) \<Rightarrow> (Inl StoreIo, j3)
              | (Inl _, j3) \<Rightarrow> (Inl StoreIo, j3\<lparr>jn_pending := (jn_pending j3)\<lparr>pd_restore_slots := Some (jn_slots j3)\<rparr>\<rparr>))
          = (r, j')"
  shows "r \<noteq> Inr () \<and> memory_same j1 j' \<and> (sound j' \<longrightarrow> on_file j' prefix bodies h slot)"
proof -
  have "dk_detached (jn_disk j1) = None" using on unfolding on_file_def by blast
  then have d2: "dk_detached d2 = None" using write_at_cases(1)[OF w] by blast
  obtain r3 d3 where w3: "write_at OpenFile previous offset d2 = (r3, d3)" by fastforce
  note c3 = write_at_cases[OF w3 d2]
  show ?thesis
  proof (cases r3)
    case (Inr u)
    then have j': "r = Inl StoreIo" "j' = j1\<lparr>jn_disk := d3\<rparr>" using res w3 by (simp_all add: on_disk_def)
    have "dk_path d3 = journal_of prefix bodies" using c3(2) Inr part undo by auto
    then have "on_file j' prefix bodies h slot"
      using on c3(1) on_file_synced[OF on] synced_cong[of j' j1]
      by (intro on_file_cong[OF on]) (auto simp: j'(2) on_file_def)
    then show ?thesis by (simp add: j' memory_same_def)
  next
    case (Inl e3)
    then have "r = Inl StoreIo" "\<exists>p. j' = j1\<lparr>jn_disk := d3, jn_pending := p\<rparr> \<and> pd_restore_slots p \<noteq> None"
      using res w3 by (auto simp: on_disk_def)
    then show ?thesis by (auto simp: memory_same_def sound_def)
  qed
qed

lemma stamped_counter_image:
  assumes "\<forall>c\<in>set (counters_of bodies). fst c < g"
  shows "stamped j bodies ns nt (counter_image g ns nt j)"
proof -
  have "newest_from None (counters_of bodies) = Some c \<Longrightarrow> fst c < g" for c
    using newest_from_Some[of None "counters_of bodies" c] assms by auto
  then show ?thesis
    by (auto simp: stamped_def sender_of_def counter_image_def split: option.split)
qed

lemma write_counters_outcomes:
  assumes wc: "write_counters ns nt j = (r, j')" and on: "on_file j prefix bodies h slot" and s: "sound j"
  shows "(r = Inr () \<longrightarrow> sound j' \<and> counters_set j ns nt j'
      \<and> (\<exists>prefix' slot'. on_file j' prefix' bodies h slot' \<and> stamped j bodies ns nt slot'))
    \<and> (r \<noteq> Inr () \<longrightarrow> memory_same j j' \<and> (sound j' \<longrightarrow> on_file j' prefix bodies h slot))"
proof -
  obtain r1 j1 where t: "take_generation j = (r1, j1)" by fastforce
  show ?thesis
  proof (cases r1)
    case (Inl e)
    then show ?thesis using wc t take_generation_eq[OF t] on by (auto simp: write_counters_eq)
  next
    case (Inr g)
    then obtain k where k: "g = jn_next_generation j" "j1 = j\<lparr>jn_next_generation := k\<rparr>" "g < k"
      using take_generation_eq[OF t] by auto
    have on1: "on_file j1 prefix bodies h slot" using on_file_generation[OF on, of k] k by (simp add: less_imp_le)
    have s1: "sound j1" using s by (simp add: sound_def k(2))
    define target where "target = (if jn_durable_slot j = 0 then 1 else 0 :: nat)"
    have ci: "counter_image g ns nt j1 = counter_image g ns nt j" by (simp add: counter_image_def k(2))
    define img where "img = encode_slot (counter_image g ns nt j)"
    obtain offset where off: "slot_offset target = Inr offset"
      by (cases "jn_durable_slot j = 0") (auto simp: target_def slot_offset_def get_at_def SLOT_OFFSETS_def)
    obtain previous where prev: "slot_get (jn_slots j) target = Some previous"
      by (cases "jn_durable_slot j = 0") (auto simp: target_def slot_get_def)
    obtain prefix' where new: "poke offset img (journal_of prefix bodies) = journal_of prefix' bodies"
        "\<forall>d. dk_detached d = None \<longrightarrow> dk_path d = journal_of prefix' bodies \<longrightarrow>
          on_file (j\<lparr>jn_next_generation := k, jn_disk := d, jn_slots := slot_set target img (jn_slots j), jn_active_slot := target\<rparr>)
            prefix' bodies h (counter_image g ns nt j)"
      and undo: "\<forall>x. length x = 52 \<longrightarrow> poke offset previous (poke offset x (journal_of prefix bodies)) = journal_of prefix bodies"
        "\<forall>n. \<exists>x. length x = 52 \<and> poke offset (take n img) (journal_of prefix bodies) = poke offset x (journal_of prefix bodies)"
      using counters_prefix[OF on target_def off k(1,3), of ns nt] prev unfolding img_def by blast
    have at1: "dk_detached (jn_disk j1) = None" "dk_path (jn_disk j1) = journal_of prefix bodies"
      using on1 unfolding on_file_def by blast+
    obtain r2 d2 where w: "write_at OpenFile img offset (jn_disk j1) = (r2, d2)" by fastforce
    note c2 = write_at_cases[OF w at1(1)]
    have step: "write_counters ns nt j = (case (r2, j1\<lparr>jn_disk := d2\<rparr>) of
            (Inl _, j2) \<Rightarrow> (case on_disk (write_at OpenFile previous offset) j2 of
                (Inr _, j3) \<Rightarrow> (Inl StoreIo, j3)
              | (Inl _, j3) \<Rightarrow> (Inl StoreIo, j3\<lparr>jn_pending := (jn_pending j3)\<lparr>pd_restore_slots := Some (jn_slots j3)\<rparr>\<rparr>))
          | (Inr _, j2) \<Rightarrow>
              (case after_write (j2\<lparr>jn_slots := slot_set target img (jn_slots j2), jn_active_slot := target\<rparr>) of
                 (Inl e, j3) \<Rightarrow> (Inl e, j3)
               | (Inr _, j3) \<Rightarrow>
                  (Inr (), j3\<lparr>jn_next_sender := ns, jn_next_target := nt,
                             jn_shared := (jn_shared j3)\<lparr>sh_next_sender := ns, sh_next_target := nt\<rparr>\<rparr>)))"
    proof -
      have eqs: "take_generation j = (Inr g, j1)" "jn_durable_slot j1 = jn_durable_slot j" "jn_slots j1 = jn_slots j"
        using t Inr k by simp_all
      have wd: "on_disk (write_at OpenFile img offset) j1 = (r2, j1\<lparr>jn_disk := d2\<rparr>)" using w by (simp add: on_disk_def)
      show ?thesis
        unfolding write_counters_eq eqs prod.case sum.case Let_def ci target_def[symmetric] img_def[symmetric] off wd
        using prev by (cases r2) (simp_all add: eqs(3))
    qed
    have m1: "memory_same j j1" by (simp add: memory_same_def k(2))
    show ?thesis
    proof (cases r2)
      case (Inl e)
      have "offset \<le> length (journal_of prefix bodies)"
        using slot_offset_within[OF off] on unfolding on_file_def by (auto simp: journal_of_def DATA_START_def)
      then obtain n where "dk_path d2 = poke offset (take n img) (journal_of prefix bodies)" using c2(3) at1(2) by auto
      then have part: "\<exists>x. length x = 52 \<and> dk_path d2 = poke offset x (journal_of prefix bodies)" using undo(2) by metis
      from failed_slot_write[OF on1 s1 w[unfolded Inl] part undo(1), of r j'] wc[unfolded step Inl] show ?thesis
        using memory_same_trans[OF m1] by simp
    next
      case r2: (Inr u)
      let ?j2 = "j1\<lparr>jn_disk := d2, jn_slots := slot_set target img (jn_slots j1), jn_active_slot := target\<rparr>"
      obtain r3 j3 where aw: "after_write ?j2 = (r3, j3)" by fastforce
      have "dk_path d2 = journal_of prefix' bodies" using c2(2) r2 at1(2) new(1) by simp
      then have on2: "on_file ?j2 prefix' bodies h (counter_image g ns nt j)"
        using new(2) c2(1) by (simp add: k(2))
      note ao = after_write_outcomes(1,3)[OF aw on_file_synced[OF on2]]
        after_write_outcomes(2)[OF aw on_file_synced[OF on2], of prefix' bodies h "counter_image g ns nt j"]
      have m2: "memory_same j j3" using ao(1) by (simp add: memory_same_def k(2))
      show ?thesis
      proof (cases r3)
        case (Inl e)
        then have "r = Inl e" "j' = j3" using wc r2 aw unfolding step by simp_all
        then show ?thesis using ao(2) Inl m2 by simp
      next
        case (Inr v)
        then have rj: "r = Inr ()" "j' = j3\<lparr>jn_next_sender := ns, jn_next_target := nt,
            jn_shared := (jn_shared j3)\<lparr>sh_next_sender := ns, sh_next_target := nt\<rparr>\<rparr>"
          using wc r2 aw unfolding step by simp_all
        have on3: "on_file j3 prefix' bodies h (counter_image g ns nt j)" and p3: "jn_pending j3 = jn_pending j1"
          using ao(3) Inr on2 by simp_all
        have "synced_in_time j'" using on_file_synced[OF on3] synced_cong[of j' j3] by (simp add: rj(2))
        then have "on_file j' prefix' bodies h (counter_image g ns nt j)"
          by (intro on_file_cong[OF on3]) (simp_all add: rj(2))
        moreover have "sound j'" using s1 p3 by (simp add: rj(2) sound_def)
        moreover have "counters_set j ns nt j'" using m2 by (simp add: counters_set_def memory_same_def rj(2))
        moreover have "\<forall>c\<in>set (counters_of bodies). fst c < g" using on k(1) unfolding on_file_def by blast
        ultimately show ?thesis using stamped_counter_image rj(1) by blast
      qed
    qed
  qed
qed

end
