(* ===== verification/Store_Journal_Calls.thy ===== *)
theory Store_Journal_Calls
  imports Store_Journal_Steps
begin

text \<open>
  The calls on an open journal: counters, watermark, flush and read.  Each keeps the journal's
  invariant on every outcome, and when it succeeds the view changes by exactly what was asked.
\<close>

lemma ok_backed:
  assumes "journal_ok j" "sound j"
  obtains prefix bodies h slot where "on_file j prefix bodies h slot" "indexed j bodies" "counters_on_file j bodies h slot"
    "getters_agree j" "sh_reset_owed (jn_shared j) = jn_reset_owed j" "fc_sync_policy (jn_config j) \<noteq> EveryN 0"
  using assms by (auto simp: journal_ok_def)

lemma ok_intro:
  "on_file j prefix bodies h slot \<Longrightarrow> indexed j bodies \<Longrightarrow> counters_on_file j bodies h slot \<Longrightarrow> getters_agree j \<Longrightarrow>
   sh_reset_owed (jn_shared j) = jn_reset_owed j \<Longrightarrow> fc_sync_policy (jn_config j) \<noteq> EveryN 0 \<Longrightarrow> journal_ok j"
  by (auto simp: journal_ok_def)

lemma done_after_Inr: "done_after m j = (Inr a, j') \<longleftrightarrow> a = AnswerDone \<and> m j = (Inr (), j')"
  by (auto simp: done_after_def thenS_Inr_iff liftS_iff)

lemma done_after_Inl: "done_after m j = (Inl e, j') \<longleftrightarrow> m j = (Inl e, j')"
  by (auto simp: done_after_def thenS_Inl_iff liftS_iff)

subsection \<open>Counters and watermark\<close>

lemma write_counters_backed:
  assumes wc: "write_counters ns nt j = (Inr (), j')" and on: "on_file j prefix bodies h slot" and s: "sound j"
    and ix: "indexed j bodies" and ct: "jn_creation_time j = jh_creation_time h"
  shows "sound j' \<and> counters_set j ns nt j' \<and> indexed j' bodies
    \<and> (\<exists>prefix' slot'. on_file j' prefix' bodies h slot' \<and> counters_on_file j' bodies h slot' \<and> cs_reset_owed slot' = jn_reset_owed j)"
proof -
  obtain prefix' slot' where new: "sound j'" "counters_set j ns nt j'" "on_file j' prefix' bodies h slot'" "stamped j bodies ns nt slot'"
    using write_counters_outcomes[OF wc on s] by auto
  then have "counters_on_file j' bodies h slot'" "indexed j' bodies" "cs_reset_owed slot' = jn_reset_owed j"
    using ct ix by (simp_all add: counters_set_def memory_same_def stamped_def counters_on_file_def indexed_def)
  then show ?thesis using new by blast
qed

lemma set_counters_ok:
  assumes wc: "write_counters ns nt j = (r, j')" and ok: "journal_ok j" and s: "sound j"
  shows "journal_ok j' \<and> (r = Inr () \<longrightarrow> sound j' \<and> journal_view j' = (journal_view j)\<lparr>vw_next_sender := ns, vw_next_target := nt\<rparr>)
    \<and> (r \<noteq> Inr () \<longrightarrow> sound j' \<longrightarrow> journal_view j' = journal_view j)"
proof -
  obtain prefix bodies h slot where inv: "on_file j prefix bodies h slot" "indexed j bodies" "counters_on_file j bodies h slot"
    "getters_agree j" "sh_reset_owed (jn_shared j) = jn_reset_owed j" "fc_sync_policy (jn_config j) \<noteq> EveryN 0"
    using ok_backed[OF ok s] .
  show ?thesis
  proof (cases "r = Inr ()")
    case True
    have "jn_creation_time j = jh_creation_time h" using inv(3) by (simp add: counters_on_file_def)
    from write_counters_backed[OF wc[unfolded True] inv(1) s inv(2) this] obtain prefix' slot' where
      new: "sound j'" "counters_set j ns nt j'" "indexed j' bodies" "on_file j' prefix' bodies h slot'" "counters_on_file j' bodies h slot'"
      by blast
    have g: "getters_agree j'" "sh_reset_owed (jn_shared j') = jn_reset_owed j'" "fc_sync_policy (jn_config j') \<noteq> EveryN 0"
      using new(2) inv(4-6) by (simp_all add: counters_set_def memory_same_def getters_agree_def)
    have "journal_view j' = (journal_view j)\<lparr>vw_next_sender := ns, vw_next_target := nt\<rparr>"
      using view_backed[OF new(4,3) g(1)] view_backed[OF inv(1,2,4)] new(2) by (simp add: counters_set_def memory_same_def)
    then show ?thesis using ok_intro[OF new(4,3,5) g] new(1) True by simp
  next
    case False
    from write_counters_outcomes[OF wc inv(1) s] False have m: "memory_same j j'" "sound j' \<longrightarrow> on_file j' prefix bodies h slot"
      by auto
    then show ?thesis using ok_same[OF _ m(1) inv(2-4) ok] ok_unsound[OF _ m(1) ok] view_same[OF inv(1,2,4) m(1)] False by blast
  qed
qed

lemma on_file_fields:
  assumes "on_file j prefix bodies h slot" "jn_disk j' = jn_disk j" "jn_slots j' = jn_slots j" "jn_active_slot j' = jn_active_slot j"
    "jn_config j' = jn_config j" "jn_end j' = jn_end j" "jn_next_generation j' = jn_next_generation j"
    "jn_durable_end j' = jn_durable_end j" "jn_durable_slot j' = jn_durable_slot j" "jn_unsynced j' = jn_unsynced j"
  shows "on_file j' prefix bodies h slot"
  using assms on_file_synced[OF assms(1)] synced_cong[of j' j] by (intro on_file_cong[OF assms(1)]) simp_all

lemma set_app_watermark_ok:
  assumes call: "set_app_watermark w j = (r, j')" and ok: "journal_ok j"
  shows "journal_ok j' \<and> (r = Inr () \<longrightarrow> sound j' \<and> journal_view j' = (journal_view j)\<lparr>vw_app_watermark := w\<rparr>)
    \<and> (r \<noteq> Inr () \<longrightarrow> sound j' \<longrightarrow> journal_view j' = journal_view j)"
proof (cases "is_clear (jn_pending j)")
  case False
  then show ?thesis using call ok by (auto simp: set_app_watermark_def thenS_def usable_def)
next
  case True
  then have s: "sound j" by (rule clear_sound)
  obtain prefix bodies h slot where inv: "on_file j prefix bodies h slot" "indexed j bodies" "counters_on_file j bodies h slot"
    "getters_agree j" "sh_reset_owed (jn_shared j) = jn_reset_owed j" "fc_sync_policy (jn_config j) \<noteq> EveryN 0"
    using ok_backed[OF ok s] .
  show ?thesis
  proof (cases "jn_app_watermark j = w")
    case same: True
    then have "r = Inr ()" "j' = j" using call True by (simp_all add: set_app_watermark_def thenS_def usable_def)
    moreover have "journal_view j = (journal_view j)\<lparr>vw_app_watermark := w\<rparr>"
      using view_backed[OF inv(1,2,4)] same by simp
    ultimately show ?thesis using ok s by simp
  next
    case False
    let ?j1 = "j\<lparr>jn_app_watermark := w\<rparr>"
    obtain r2 j2 where wc: "write_counters (jn_next_sender j) (jn_next_target j) ?j1 = (r2, j2)" by fastforce
    have on1: "on_file ?j1 prefix bodies h slot" by (rule on_file_fields[OF inv(1)]) simp_all
    have s1: "sound ?j1" using s by (simp add: sound_def)
    have ix1: "indexed ?j1 bodies" using inv(2) by (simp add: indexed_def)
    show ?thesis
    proof (cases r2)
      case (Inl e)
      then have rj: "r = Inl e" "j' = j2\<lparr>jn_app_watermark := jn_app_watermark j\<rparr>"
        using call True False wc by (simp_all add: set_app_watermark_def thenS_def usable_def Let_def)
      from write_counters_outcomes[OF wc on1 s1] Inl
      have m: "memory_same ?j1 j2" "sound j2 \<longrightarrow> on_file j2 prefix bodies h slot" by auto
      have m': "memory_same j j'" using m(1) by (simp add: rj(2) memory_same_def)
      have "sound j' \<longrightarrow> on_file j' prefix bodies h slot"
        using m(2) on_file_fields[of j2 prefix bodies h slot j'] by (auto simp: rj(2) sound_def)
      then show ?thesis using ok_same[OF _ m' inv(2-4) ok] ok_unsound[OF _ m' ok] view_same[OF inv(1,2,4) m'] rj(1) by blast
    next
      case (Inr u)
      then have rj: "r = Inr ()" "j' = j2\<lparr>jn_shared := (jn_shared j2)\<lparr>sh_app_watermark := w\<rparr>\<rparr>"
        using call True False wc by (simp_all add: set_app_watermark_def thenS_def usable_def Let_def)
      have "jn_creation_time ?j1 = jh_creation_time h" using inv(3) by (simp add: counters_on_file_def)
      from write_counters_backed[OF _ on1 s1 ix1 this] wc Inr obtain prefix' slot' where
        new: "sound j2" "counters_set ?j1 (jn_next_sender j) (jn_next_target j) j2" "indexed j2 bodies"
          "on_file j2 prefix' bodies h slot'" "counters_on_file j2 bodies h slot'" by fastforce
      have g: "getters_agree j'" "sh_reset_owed (jn_shared j') = jn_reset_owed j'" "fc_sync_policy (jn_config j') \<noteq> EveryN 0"
        using new(2) inv(4-6) by (simp_all add: rj(2) counters_set_def memory_same_def getters_agree_def)
      have "on_file j' prefix' bodies h slot'" "indexed j' bodies" "counters_on_file j' bodies h slot'" "sound j'"
        using on_file_fields[OF new(4), of j'] new(1,3,5) by (simp_all add: rj(2) indexed_def counters_on_file_def sound_def)
      moreover have "journal_view j' = (journal_view j)\<lparr>vw_app_watermark := w\<rparr>"
        using view_backed[OF calculation(1,2) g(1)] view_backed[OF inv(1,2,4)] new(2)
        by (simp add: rj(2) counters_set_def memory_same_def)
      ultimately show ?thesis using ok_intro g rj(1) by blast
    qed
  qed
qed

subsection \<open>Flushing\<close>

lemma flush_ok:
  assumes call: "journal_flush j = (r, j')" and ok: "journal_ok j" and s: "sound j"
  shows "journal_ok j' \<and> (r = Inr () \<longrightarrow> sound j' \<and> journal_view j' = journal_view j) \<and> (r \<noteq> Inr () \<longrightarrow> \<not> sound j')"
proof -
  obtain prefix bodies h slot where inv: "on_file j prefix bodies h slot" "indexed j bodies" "counters_on_file j bodies h slot"
    "getters_agree j" using ok_backed[OF ok s] .
  note fo = flush_outcomes(1,3)[OF call] flush_outcomes(2)[OF call, of prefix bodies h slot]
  show ?thesis
  proof (cases "r = Inr ()")
    case True
    have "on_file (j\<lparr>jn_unsynced := 0\<rparr>) prefix bodies h slot"
      using on_file_unsynced[OF inv(1)] synced_reset[OF on_file_synced[OF inv(1)]] by simp
    then have on: "on_file j' prefix bodies h slot" "sound j'" using fo(3) True s by (auto simp: sound_def)
    then show ?thesis
      using ok_same[OF on(1) fo(1) inv(2-4) ok] view_same[OF inv(1,2,4) fo(1) on(1)] True by simp
  next
    case False
    then show ?thesis using ok_unsound[OF fo(2) fo(1) ok] fo(2) by simp
  qed
qed


text \<open>
  Reading a page from an open journal, and replacing the journal by an empty one.
\<close>

subsection \<open>Reading\<close>

lemma read_all_outcomes:
  "read_all es j = (r, j') \<Longrightarrow> dk_detached (jn_disk j) = None \<Longrightarrow>
   (\<exists>d. j' = j\<lparr>jn_disk := d\<rparr> \<and> dk_path d = dk_path (jn_disk j) \<and> dk_detached d = None)
   \<and> (\<forall>ms. r = Inr ms \<longrightarrow> map (\<lambda>(q, e). read_frame (dk_path (jn_disk j)) q e) es = map Inr ms)"
proof (induction es arbitrary: j r j')
  case Nil
  then show ?case by (auto simp: liftS_def intro!: exI[of _ "jn_disk j"])
next
  case (Cons x es)
  obtain q e where x: "x = (q, e)" by (cases x)
  obtain r1 d1 where a: "attempt (jn_disk j) = (r1, d1)" by fastforce
  let ?j1 = "j\<lparr>jn_disk := d1\<rparr>"
  have keep: "dk_path d1 = dk_path (jn_disk j)" "dk_detached d1 = None" using attempt_keeps[OF a] Cons.prems(2) by simp_all
  show ?case
  proof (cases r1)
    case (Inl err)
    then show ?thesis using Cons.prems a keep
      by (auto simp: x read_one_def thenS_def on_disk_def intro!: exI[of _ d1])
  next
    case (Inr u)
    let ?f = "read_frame (dk_path (jn_disk j)) q e"
    have one: "read_one x j = (?f, ?j1)"
      using a Inr keep by (simp add: x read_one_def thenS_def on_disk_def attached)
    show ?thesis
    proof (cases ?f)
      case (Inl err)
      then show ?thesis using Cons.prems one keep by (auto simp: thenS_def intro!: exI[of _ d1])
    next
      case f: (Inr m)
      obtain r2 j2 where rest: "read_all es ?j1 = (r2, j2)" by fastforce
      from Cons.IH[OF rest] keep have ih: "\<exists>d. j2 = ?j1\<lparr>jn_disk := d\<rparr> \<and> dk_path d = dk_path (jn_disk j) \<and> dk_detached d = None"
          "\<forall>ms. r2 = Inr ms \<longrightarrow> map (\<lambda>(q, e). read_frame (dk_path (jn_disk j)) q e) es = map Inr ms" by simp_all
      have "r = (case r2 of Inl e \<Rightarrow> Inl e | Inr ms \<Rightarrow> Inr (m # ms))" "j' = j2"
        using Cons.prems(1) one f rest by (auto simp: thenS_def liftS_def split: sum.splits)
      then show ?thesis using ih f by (cases r2) (auto simp: x)
    qed
  qed
qed

lemma listing_map:
  assumes "listing f lo hi xs" "\<forall>q. (f q = None) = (g q = None)"
  shows "listing g lo hi (map (\<lambda>(q, _). (q, the (g q))) xs)"
proof -
  have "map fst (map (\<lambda>(q, _). (q, the (g q))) xs) = map fst xs" by (induction xs) auto
  moreover have "(k, v) \<in> set (map (\<lambda>(q, _). (q, the (g q))) xs) \<longleftrightarrow> lo \<le> k \<and> k \<le> hi \<and> g k = Some v" for k v
  proof -
    have "(k, v) \<in> set (map (\<lambda>(q, _). (q, the (g q))) xs) \<longleftrightarrow> (\<exists>u. (k, u) \<in> set xs) \<and> v = the (g k)" by force
    also have "\<dots> \<longleftrightarrow> lo \<le> k \<and> k \<le> hi \<and> (\<exists>u. f k = Some u) \<and> v = the (g k)"
      using assms(1) by (auto simp: listing_def)
    also have "\<dots> \<longleftrightarrow> lo \<le> k \<and> k \<le> hi \<and> g k = Some v" using assms(2)
      by (metis not_None_eq option.sel)
    finally show ?thesis .
  qed
  moreover have "sorted_wrt (<) (map fst xs)" using assms(1) unfolding listing_def by (rule conjunct1)
  ultimately show ?thesis unfolding listing_def by (simp only: simp_thms)
qed

lemma read_frame_on_file:
  assumes on: "on_file j prefix bodies h slot" and ix: "indexed j bodies" and e: "index_get (jn_index j) q = Some e"
  shows "read_frame (dk_path (jn_disk j)) q e = Inr (message_at (q, the (stored_in bodies q)))"
proof -
  have det: "dk_detached (jn_disk j) = None" using on unfolding on_file_def by (elim conjE)
  have "Some (read_frame (dk_path (jn_disk j)) q e) = map_option (Inr \<circ> message_of)
      (find (\<lambda>b. rb_seq b = q) (rev (map (projr \<circ> decode_body) bodies)))"
    using read_on_file[OF on ix, of q] e attached(1)[OF det] by (simp add: read_filed_def)
  then obtain b where b: "find (\<lambda>b. rb_seq b = q) (rev (map (projr \<circ> decode_body) bodies)) = Some b"
      "read_frame (dk_path (jn_disk j)) q e = Inr (message_of b)"
    by (cases "find (\<lambda>b. rb_seq b = q) (rev (map (projr \<circ> decode_body) bodies))") simp_all
  then have "rb_seq b = q" by (auto simp: find_Some_iff)
  then show ?thesis using b by (simp add: stored_in_def message_of_def message_at_def)
qed

lemma journal_read_outcomes:
  assumes call: "journal_read lo hi n j = (r, j')" and on: "on_file j prefix bodies h slot" and ix: "indexed j bodies"
  shows "on_file j' prefix bodies h slot \<and> memory_same j j' \<and> jn_pending j' = jn_pending j
    \<and> (\<forall>ms. r = Inr ms \<longrightarrow> page_of (stored_in bodies) lo hi n ms)"
proof -
  let ?es = "frames_list (index_range (jn_index j) lo hi)"
  have det: "dk_detached (jn_disk j) = None" using on unfolding on_file_def by (elim conjE)
  from read_all_outcomes[OF call[unfolded journal_read_def] det] obtain d where
    d: "j' = j\<lparr>jn_disk := d\<rparr>" "dk_path d = dk_path (jn_disk j)" "dk_detached d = None"
    and ms: "\<forall>ms. r = Inr ms \<longrightarrow> map (\<lambda>(q, e). read_frame (dk_path (jn_disk j)) q e) (take n ?es) = map Inr ms" by blast
  have "synced_in_time j'" using on_file_synced[OF on] synced_cong[of j' j] by (simp add: d(1))
  then have on': "on_file j' prefix bodies h slot" using d det by (intro on_file_cong[OF on]) simp_all
  have l: "listing (index_get (jn_index j)) lo hi ?es" using ix index_range_lists unfolding indexed_def by blast
  note fr = read_frame_on_file[OF on ix]
  have dom: "\<forall>q. (index_get (jn_index j) q = None) = (stored_in bodies q = None)"
    using read_on_file[OF on ix] by (auto simp: read_filed_def stored_in_def) (metis option.distinct(1) option.map_disc_iff)+
  let ?xs = "map (\<lambda>(q, _). (q, the (stored_in bodies q))) ?es"
  have "r = Inr ms' \<Longrightarrow> ms' = map message_at (take n ?xs)" for ms'
  proof -
    assume "r = Inr ms'"
    then have "map (\<lambda>(q, e). read_frame (dk_path (jn_disk j)) q e) (take n ?es) = map Inr ms'" using ms by blast
    moreover have "map (\<lambda>(q, e). read_frame (dk_path (jn_disk j)) q e) (take n ?es)
        = map (\<lambda>(q, e). Inr (message_at (q, the (stored_in bodies q)))) (take n ?es)"
      using l fr by (intro map_cong refl) (auto simp: listing_def dest!: in_set_takeD)
    ultimately have "map Inr ms' = map (Inr :: _ \<Rightarrow> store_error + _) (map message_at (take n ?xs))"
      by (simp add: take_map o_def case_prod_unfold)
    then show "ms' = map message_at (take n ?xs)" by (rule injD[OF inj_mapI[OF inj_Inr]])
  qed
  then show ?thesis
    using on' listing_map[OF l dom] by (auto simp: d(1) memory_same_def page_of_def)
qed

lemma read_ok:
  assumes call: "journal_read lo hi n j = (r, j')" and ok: "journal_ok j" and s: "sound j"
  shows "journal_ok j' \<and> sound j' \<and> journal_view j' = journal_view j
    \<and> (\<forall>ms. r = Inr ms \<longrightarrow> page_of (vw_messages (journal_view j)) lo hi n ms)"
proof -
  obtain prefix bodies h slot where inv: "on_file j prefix bodies h slot" "indexed j bodies" "counters_on_file j bodies h slot"
    "getters_agree j" using ok_backed[OF ok s] .
  note ro = journal_read_outcomes[OF call inv(1,2)]
  then have on: "on_file j' prefix bodies h slot" and m: "memory_same j j'" and p: "jn_pending j' = jn_pending j" by blast+
  show ?thesis
    using ok_same[OF on m inv(2-4) ok] sound_same[OF p] s view_same[OF inv(1,2,4) m on] ro view_messages[OF inv(1,2)] by simp
qed

subsection \<open>Replacing the journal\<close>

lemma replacement_append_cases:
  assumes "replacement_append bs re d = (r, d')"
  shows "dk_path d' = dk_path d" "dk_detached d' = dk_detached d"
    and "r = Inr (re', offset) \<Longrightarrow> re' = re\<lparr>re_written := re_written re @ bs, re_end := re_end re + length bs\<rparr>
      \<and> offset = re_end re \<and> re_end re + length bs \<le> usize_max \<and> re_open re"
proof -
  have a: "attempt d = (r1, d1) \<Longrightarrow> dk_path d1 = dk_path d \<and> dk_detached d1 = dk_detached d" for r1 d1
    using attempt_keeps by blast
  show "dk_path d' = dk_path d" "dk_detached d' = dk_detached d"
    using assms a by (auto simp: replacement_append_def thenS_def liftS_def ok_or_def split: option.splits if_splits prod.splits sum.splits)
  show "r = Inr (re', offset) \<Longrightarrow> re' = re\<lparr>re_written := re_written re @ bs, re_end := re_end re + length bs\<rparr>
      \<and> offset = re_end re \<and> re_end re + length bs \<le> usize_max \<and> re_open re"
    using assms by (auto simp: replacement_append_def thenS_def liftS_def ok_or_def usize_add_Some
        split: option.splits if_splits prod.splits sum.splits)
qed

lemma replacement_create_cases:
  assumes "replacement_create h images d = (r, d')"
  shows "dk_path d' = dk_path d \<and> dk_detached d' = dk_detached d
    \<and> (\<forall>re. r = Inr re \<longrightarrow> re = \<lparr>re_written = encode_prefix h images, re_end = length (encode_prefix h images), re_open = True\<rparr>)"
proof -
  obtain r1 d1 where a1: "attempt d = (r1, d1)" by fastforce
  obtain r2 d2 where a2: "attempt d1 = (r2, d2)" by fastforce
  obtain r3 d3 where a3: "replacement_append (encode_prefix h images) \<lparr>re_written = [], re_end = 0, re_open = True\<rparr> d2 = (r3, d3)" by fastforce
  note k = attempt_keeps[OF a1] attempt_keeps[OF a2] replacement_append_cases(1,2)[OF a3]
  show ?thesis
  proof (cases "r1 = Inr () \<and> r2 = Inr ()")
    case True
    then show ?thesis using assms a1 a2 a3 k replacement_append_cases(3)[OF a3]
      by (cases r3) (auto simp: replacement_create_def thenS_def liftS_def)
  next
    case False
    then show ?thesis using assms a1 a2 k by (cases r1; cases r2) (auto simp: replacement_create_def thenS_def liftS_def)
  qed
qed

lemma replacement_finish_cases:
  assumes "replacement_finish re d = (r, d')"
  shows "dk_path d' = dk_path d \<and> dk_detached d' = dk_detached d \<and> (\<forall>re'. r = Inr re' \<longrightarrow> re' = re\<lparr>re_open := False\<rparr>)"
proof -
  obtain r1 d1 where a1: "attempt d = (r1, d1)" by fastforce
  show ?thesis using assms a1 attempt_keeps[OF a1]
    by (cases r1) (auto simp: replacement_finish_def thenS_def liftS_def split: if_splits)
qed

lemma rename_into_place_cases:
  assumes "rename_into_place re d = (r, d')"
  shows "(\<exists>e. r = Inl e \<and> dk_path d' = dk_path d \<and> dk_detached d' = dk_detached d)
    \<or> (r = Inr (re_end re) \<and> dk_path d' = re_written re)"
proof -
  obtain r1 d1 where a1: "attempt d = (r1, d1)" by fastforce
  show ?thesis using assms a1 attempt_keeps[OF a1]
    by (cases r1) (auto simp: rename_into_place_def rename_over_def thenS_def liftS_def)
qed

lemma write_replacement_cases:
  assumes "write_replacement h images d = (r, d')"
  shows "(\<exists>e. r = Inl e \<and> dk_path d' = dk_path d \<and> dk_detached d' = dk_detached d)
    \<or> (r = Inr () \<and> dk_path d' = encode_prefix h images)"
proof -
  obtain r1 d1 where c: "replacement_create h images d = (r1, d1)" by fastforce
  note cc = replacement_create_cases[OF c]
  show ?thesis
  proof (cases r1)
    case (Inl e)
    then show ?thesis using assms c cc by (auto simp: write_replacement_def thenS_def)
  next
    case r1: (Inr re)
    obtain r2 d2 where f: "replacement_finish re d1 = (r2, d2)" by fastforce
    note fc = replacement_finish_cases[OF f]
    show ?thesis
    proof (cases r2)
      case (Inl e)
      then show ?thesis using assms c cc r1 f fc by (auto simp: write_replacement_def thenS_def)
    next
      case (Inr re')
      obtain r3 d3 where n: "rename_into_place re' d2 = (r3, d3)" by fastforce
      note nc = rename_into_place_cases[OF n]
      show ?thesis
        using assms c cc r1 f fc Inr n nc by (cases r3) (auto simp: write_replacement_def thenS_def liftS_def)
    qed
  qed
qed

lemma after_rename_outcomes:
  assumes call: "after_rename j = (r, j')" and on: "on_file (j\<lparr>jn_disk := adopt (jn_disk j)\<rparr>) prefix bodies h slot"
  shows "memory_same j j' \<and> (sound j' \<longrightarrow> on_file j' prefix bodies h slot) \<and> (r = Inr () \<longrightarrow> jn_pending j' = jn_pending j)"
proof -
  obtain r1 d1 where a1: "attempt (jn_disk j) = (r1, d1)" by fastforce
  obtain r2 d2 where a2: "attempt d1 = (r2, d2)" by fastforce
  note k = attempt_keeps[OF a1] attempt_keeps[OF a2]
  note defs = after_rename_def flush_directory_def open_journal_file_def on_disk_def
  show ?thesis
  proof (cases r2)
    case (Inl e)
    then show ?thesis using call a1 a2
      by (auto simp: defs Let_def sound_def memory_same_def split: sum.splits)
  next
    case (Inr u)
    have on2: "on_file (j\<lparr>jn_disk := adopt d2, jn_pending := p\<rparr>) prefix bodies h slot" for p
    proof -
      let ?p = "j\<lparr>jn_disk := adopt d2, jn_pending := p\<rparr>"
      have "synced_in_time ?p" using on_file_synced[OF on] synced_cong[of ?p "j\<lparr>jn_disk := adopt (jn_disk j)\<rparr>"] by simp
      then show ?thesis using k by (intro on_file_cong[OF on]) (simp_all add: adopt_def)
    qed
    show ?thesis
    proof (cases r1)
      case f: (Inl e)
      then have "r = Inl e" "j' = j\<lparr>jn_disk := adopt d2, jn_pending := (jn_pending j)\<lparr>pd_directory_flush := True\<rparr>\<rparr>"
        using call a1 a2 Inr by (simp_all add: defs Let_def)
      then show ?thesis using on2 by (simp add: memory_same_def)
    next
      case f: (Inr v)
      then have "j' = j\<lparr>jn_disk := adopt d2\<rparr>" using call a1 a2 Inr by (auto simp: defs Let_def)
      moreover have "j\<lparr>jn_disk := adopt d2\<rparr> = j\<lparr>jn_disk := adopt d2, jn_pending := jn_pending j\<rparr>" by simp
      ultimately have j': "j' = j\<lparr>jn_disk := adopt d2, jn_pending := jn_pending j\<rparr>" by (rule trans)
      show ?thesis unfolding j' using on2[of "jn_pending j"] by (simp add: memory_same_def)
    qed
  qed
qed

lemma fresh_slots_Inr:
  assumes "fresh_slots g ns nt de wm owed = Inr (images, after)"
  shows "\<exists>s0 s1. images = (encode_slot s0, encode_slot s1) \<and> cs_generation s0 = g \<and> cs_generation s1 = g + 1
    \<and> g < g + 1 \<and> g + 1 < after \<and> newest_slot images = Inr (1, s1)
    \<and> s1 = \<lparr>cs_generation = g + 1, cs_next_sender = ns, cs_next_target = nt, cs_durable_end = de,
        cs_app_watermark = wm, cs_reset_owed = owed\<rparr>"
proof -
  define s where "s = (\<lambda>x. \<lparr>cs_generation = x, cs_next_sender = ns, cs_next_target = nt, cs_durable_end = de,
        cs_app_watermark = wm, cs_reset_owed = owed\<rparr>)"
  obtain second where 1: "checked_add g 1 = Some second" "checked_add second 1 = Some after"
      and im: "images = (encode_slot (s g), encode_slot (s second))"
    using assms by (auto simp: fresh_slots_def bindR_Inr_iff ok_or_def s_def Let_def split: option.splits)
  have second: "second = g + 1" using 1(1) by (simp add: checked_add_def split: if_splits)
  have less: "g < second" "second < after"
    using unat_checked_add[OF 1(1)] unat_checked_add[OF 1(2)] by (simp_all add: word_less_nat_alt)
  have "newest_slot images = Inr (1, s second)"
    using less(1) by (simp add: im newest_slot_def slot_roundtrip s_def)
  then show ?thesis using less by (intro exI[of _ "s g"] exI[of _ "s second"]) (auto simp: im s_def second)
qed

lemma encoded_prefix_opens:
  assumes "0 \<le> jh_creation_time h" "jh_creation_time h < 2 ^ 63 * 1000000000"
    and "length (fst images) = 52" "length (snd images) = 52" "newest_slot images = Inr (active, slot)"
  shows "length (encode_prefix h images) = DATA_START" "open_prefix (encode_prefix h images) = Inr (h, images, active, slot)"
  using encode_prefix_parts[OF assms(3,4)] journal_header_roundtrip[OF assms(1,2)] assms(5)
  by (simp_all add: open_prefix_def ok_or_def del: One_nat_def)

lemma clock_fits: "(0 :: int) \<le> uint (t :: u64)" "uint (t :: u64) < 2 ^ 63 * 1000000000"
  using unsigned_less[of t, where ?'a = int] by simp_all

lemma fresh_generations:
  "cs_generation s0 = g \<Longrightarrow> cs_generation s1 = g + 1 \<Longrightarrow> x \<in> set (slot_generations (encode_slot s0, encode_slot s1)) \<Longrightarrow> x = g \<or> x = g + 1"
  by (auto simp: slot_generations_def List.map_filter_def slot_roundtrip)

lemma fresh_on_file:
  assumes fresh: "fresh_slots g ns nt (word_of_nat end) wm owed = Inr (images, after)" and "end = length (journal_of (encode_prefix h images) bodies)"
    and "0 \<le> jh_creation_time h" "jh_creation_time h < 2 ^ 63 * 1000000000"
    and "\<forall>b\<in>set bodies. good_body (max_body_of (jn_config j)) b \<and> (\<exists>x. decode_body b = Inr x)"
    and "\<forall>c\<in>set (counters_of bodies). fst c < after" "end \<le> usize_max"
    and "dk_detached (jn_disk j) = None" "dk_path (jn_disk j) = journal_of (encode_prefix h images) bodies"
    and "jn_slots j = images" "jn_active_slot j = 1" "jn_durable_slot j = 1" "jn_end j = end" "jn_durable_end j = end"
    and "jn_next_generation j = after" "jn_unsynced j = 0" "fc_sync_policy (jn_config j) \<noteq> EveryN 0"
  shows "on_file j (encode_prefix h images) bodies h \<lparr>cs_generation = g + 1, cs_next_sender = ns, cs_next_target = nt,
      cs_durable_end = word_of_nat end, cs_app_watermark = wm, cs_reset_owed = owed\<rparr>"
proof -
  obtain s0 s1 where s: "images = (encode_slot s0, encode_slot s1)" "cs_generation s0 = g" "cs_generation s1 = g + 1"
      "g < g + 1" "g + 1 < after" "newest_slot images = Inr (1, s1)"
      "s1 = \<lparr>cs_generation = g + 1, cs_next_sender = ns, cs_next_target = nt, cs_durable_end = word_of_nat end,
        cs_app_watermark = wm, cs_reset_owed = owed\<rparr>" using fresh_slots_Inr[OF fresh] by blast
  have len: "length (fst images) = 52" "length (snd images) = 52" by (simp_all add: s(1) length_encodings)
  have gens: "\<forall>x\<in>set (slot_generations images). x < after"
    using fresh_generations[OF s(2,3)] s(4,5) by (auto simp: s(1) intro: order_less_trans)
  have de: "unat (word_of_nat end :: u64) = end" using assms(7) by (intro unat_of_nat_small) (simp add: usize_max_def)
  have sync: "synced_in_time j" using assms(16,17)
    by (auto simp: synced_in_time_def word_gt_0 split: sync_policy.split)
  have op: "length (encode_prefix h images) = DATA_START" "open_prefix (encode_prefix h images) = Inr (h, images, 1, s1)"
    using encoded_prefix_opens[OF assms(3,4) len s(6)] by simp_all
  show ?thesis unfolding on_file_def
    using op gens de sync assms(2,5-15) s(7) by simp
qed

lemma replace_ok:
  assumes call: "replace_journal ns nt j = (r, j')" and ok: "journal_ok j"
  shows "journal_ok j' \<and> (r = Inr () \<longrightarrow> sound j' \<and> journal_view j' = (journal_view j)\<lparr>vw_messages := Map.empty,
      vw_next_sender := ns, vw_next_target := nt, vw_app_watermark := 0\<rparr>)
    \<and> (r \<noteq> Inr () \<longrightarrow> sound j' \<longrightarrow> (sound j \<longrightarrow> journal_view j' = journal_view j) \<or> journal_view j' = (journal_view j)\<lparr>
      vw_messages := Map.empty, vw_next_sender := ns, vw_next_target := nt, vw_app_watermark := 0\<rparr>)"
proof -
  let ?h = "\<lparr>jh_creation_time = uint (dk_clock (jn_disk j)), jh_next_sender = ns, jh_next_target = nt\<rparr>"
  have base: "sh_reset_owed (jn_shared j) = jn_reset_owed j" "fc_sync_policy (jn_config j) \<noteq> EveryN 0"
    using ok by (simp_all add: journal_ok_def)
  have same: "journal_ok j' \<and> (sound j \<longrightarrow> journal_view j' = journal_view j)" if m: "memory_same j j'" "jn_pending j' = jn_pending j" and f: "sound j \<Longrightarrow> \<exists>d. j' = j\<lparr>jn_disk := d\<rparr> \<and> dk_path d = dk_path (jn_disk j) \<and> dk_detached d = dk_detached (jn_disk j)"
  proof (cases "sound j")
    case True
    obtain prefix bodies h slot where inv: "on_file j prefix bodies h slot" "indexed j bodies" "counters_on_file j bodies h slot"
      "getters_agree j" using ok_backed[OF ok True] .
    obtain d where d: "j' = j\<lparr>jn_disk := d\<rparr>" "dk_path d = dk_path (jn_disk j)" "dk_detached d = dk_detached (jn_disk j)" using f[OF True] by blast
    have "synced_in_time j'" using on_file_synced[OF inv(1)] synced_cong[of j' j] by (simp add: d(1))
    then have "on_file j' prefix bodies h slot" using d by (intro on_file_cong[OF inv(1)]) simp_all
    then show ?thesis using ok_same[OF _ m(1) inv(2-4) ok] view_same[OF inv(1,2,4) m(1)] by blast
  next
    case False
    then have "\<not> sound j'" using sound_same[OF m(2)] by simp
    from ok_unsound[OF this m(1) ok] show ?thesis using False by simp
  qed
  show ?thesis
  proof (cases "fresh_slots 0 ns nt (word_of_nat DATA_START) 0 (jn_reset_owed j)")
    case (Inl e)
    then have "r = Inl e" "j' = j" using call by (simp_all add: replace_journal_def thenS_def liftS_def Let_def)
    then show ?thesis using ok by simp
  next
    case (Inr p)
    then obtain images after where fresh: "fresh_slots 0 ns nt (word_of_nat DATA_START) 0 (jn_reset_owed j) = Inr (images, after)"
      by (cases p) simp
    obtain r1 d1 where w: "write_replacement ?h images (jn_disk j) = (r1, d1)" by fastforce
    note wc = write_replacement_cases[OF w]
    show ?thesis
    proof (cases r1)
      case (Inl e)
      then have rj: "r = Inl e" "j' = j\<lparr>jn_disk := d1\<rparr>"
        using call fresh w by (simp_all add: replace_journal_def thenS_def liftS_def Let_def on_disk_def)
      have "memory_same j j'" by (simp add: rj(2) memory_same_def)
      moreover have "\<exists>d. j' = j\<lparr>jn_disk := d\<rparr> \<and> dk_path d = dk_path (jn_disk j) \<and> dk_detached d = dk_detached (jn_disk j)"
        using wc Inl rj(2) by (intro exI[of _ d1]) simp
      ultimately show ?thesis using same rj by simp
    next
      case r1: (Inr u)
      let ?j2 = "install_slots images (j\<lparr>jn_disk := d1, jn_pending := pending_clear, jn_index := index_new, jn_end := DATA_START,
               jn_durable_end := DATA_START,
               jn_unsynced := 0, jn_creation_time := uint (dk_clock (jn_disk j)), jn_next_sender := ns, jn_next_target := nt,
               jn_next_generation := after, jn_app_watermark := 0, jn_dead_bytes := 0,
               jn_failed_compaction_at := None,
               jn_shared := publish (uint (dk_clock (jn_disk j))) ns nt ((jn_shared j)\<lparr>sh_app_watermark := 0\<rparr>)\<rparr>)"
      have ar: "after_rename ?j2 = (r, j')"
        using call fresh w r1 by (simp add: replace_journal_def thenS_def liftS_def Let_def on_disk_def)
      let ?a = "?j2\<lparr>jn_disk := adopt (jn_disk ?j2)\<rparr>"
      let ?s = "\<lparr>cs_generation = 0 + 1, cs_next_sender = ns, cs_next_target = nt,
          cs_durable_end = word_of_nat DATA_START, cs_app_watermark = 0, cs_reset_owed = jn_reset_owed j\<rparr>"
      have len: "length (encode_prefix ?h images) = DATA_START"
        using fresh_slots_Inr[OF fresh] encode_prefix_parts(1)[of images] by (auto simp: length_encodings)
      have on: "on_file ?a (encode_prefix ?h images) [] ?h ?s"
        using wc r1 base(2) len clock_fits
        by (intro fresh_on_file[OF fresh]) (simp_all add: journal_of_def install_slots_def adopt_def DATA_START_def usize_max_def)
      from after_rename_outcomes[OF ar on] have m: "memory_same ?j2 j'" and on': "sound j' \<longrightarrow> on_file j' (encode_prefix ?h images) [] ?h ?s"
        and p: "r = Inr () \<longrightarrow> jn_pending j' = jn_pending ?j2" by blast+
      have mem: "indexed j' []" "counters_on_file j' [] ?h ?s" "getters_agree j'" "sh_reset_owed (jn_shared j') = jn_reset_owed j'"
          "fc_sync_policy (jn_config j') \<noteq> EveryN 0"
        using m base by (simp_all add: memory_same_def install_slots_def publish_def indexed_def index_new_ok counters_on_file_def
            sender_of_def getters_agree_def newest_from_def)
      have ok': "journal_ok j'"
      proof (cases "sound j'")
        case True
        then show ?thesis using on' ok_intro[OF _ mem] by blast
      next
        case False
        then show ?thesis using mem(4,5) by (simp add: journal_ok_def)
      qed
      moreover have "r = Inr () \<longrightarrow> sound j'" using p by (simp add: sound_def install_slots_def pending_clear_def)
      moreover have "sound j' \<longrightarrow> journal_view j' = (journal_view j)\<lparr>vw_messages := Map.empty,
          vw_next_sender := ns, vw_next_target := nt, vw_app_watermark := 0\<rparr>"
        using view_backed[OF _ mem(1,3)] on' m base(1)
        by (auto simp: memory_same_def install_slots_def publish_def stored_in_empty journal_view_def)
      ultimately show ?thesis by blast
    qed
  qed
qed

end
