(* ===== verification/Store_Journal_Compact.thy ===== *)
theory Store_Journal_Compact
  imports Store_Journal_Calls
begin

text \<open>
  Compaction: the live records are copied, checked, to a new file that replaces the journal.
  Nothing that is stored changes, whichever file-system call fails.
\<close>

subsection \<open>The live records\<close>

lemma live_entry:
  assumes on: "on_file j prefix bodies h slot" and ix: "indexed j bodies" and e: "index_get (jn_index j) q = Some e"
  shows "\<exists>body b at. body \<in> set bodies \<and> decode_body body = Inr b \<and> rb_seq b = q
    \<and> read_record_into (dk_path (jn_disk j)) q e = Inr (record_image body, at, rb_msg_type b)
    \<and> ie_body_len e = word_of_nat (length body) \<and> stored_in bodies q = Some (rb_msg_type b, rb_frame b)"
proof -
  have o: "dk_detached (jn_disk j) = None" "dk_path (jn_disk j) = journal_of prefix bodies" "length prefix = DATA_START"
      "length (journal_of prefix bodies) \<le> usize_max"
      "\<forall>b\<in>set bodies. good_body (max_body_of (jn_config j)) b \<and> (\<exists>x. decode_body b = Inr x)"
      "index_get (jn_index j) = filed DATA_START bodies Map.empty"
    using on ix unfolding on_file_def indexed_def by auto
  have "filed DATA_START bodies Map.empty q = Some e" using e o(6) by simp
  from filed_lookup[OF this] obtain pre body post b where split: "bodies = pre @ body # post" "decode_body body = Inr b"
      "rb_seq b = q" "e = entry_of (DATA_START + length (run_image pre)) body" by auto
  have whole: "dk_path (jn_disk j) = (prefix @ run_image pre) @ record_image body @ run_image post"
    using o(2) split(1) by (simp add: journal_of_def)
  have small: "length (prefix @ run_image pre) < 2 ^ 64"
    using o(4) unfolding split(1) journal_of_def by (simp add: usize_max_def)
  have good: "good_body (max_body_of (jn_config j)) body" using o(5) split(1) by simp
  obtain at where at: "read_record_into (dk_path (jn_disk j)) q e = Inr (record_image body, at, rb_msg_type b)"
      "drop at (record_image body) = rb_frame b"
    using read_record_into_at[OF whole small good split(2)] o(3) split(3,4) by auto
  have "read_frame (dk_path (jn_disk j)) q e = Inr (message_of b)" using at split(3) by (simp add: read_frame_def message_of_def)
  then have "map_option (Inr \<circ> message_of) (find (\<lambda>b. rb_seq b = q) (rev (map (projr \<circ> decode_body) bodies))) = Some (Inr (message_of b) :: store_error + _)"
    using read_on_file[OF on ix, of q] e attached(1)[OF o(1)] by (simp add: read_filed_def)
  then have "stored_in bodies q = Some (rb_msg_type b, rb_frame b)"
    by (auto simp: stored_in_def message_of_def)
  then show ?thesis using at split by (intro exI[of _ body] exI[of _ b] exI[of _ at]) (simp add: entry_of_def)
qed

lemma counters_set_of: "set (counters_of bodies) = {c. \<exists>b\<in>set bodies. \<exists>x. decode_body b = Inr x \<and> rb_counter x = Some c}"
  by (induction bodies) (auto split: sum.splits option.splits)

lemma counters_within: "set bs \<subseteq> set bodies \<Longrightarrow> set (counters_of bs) \<subseteq> set (counters_of bodies)"
  unfolding counters_set_of by blast

lemma copy_records_outcomes:
  assumes on: "on_file j prefix0 bodies h slot" and ix: "indexed j bodies"
  shows "copy_records es re ix0 d = (r, d') \<Longrightarrow> \<forall>(q, e)\<in>set es. index_get (jn_index j) q = Some e \<Longrightarrow>
    dk_path d = dk_path (jn_disk j) \<Longrightarrow> dk_detached d = None \<Longrightarrow>
    re_written re = prefix @ run_image copied \<Longrightarrow> length prefix = DATA_START \<Longrightarrow> re_end re = length (re_written re) \<Longrightarrow>
    index_ok ix0 \<Longrightarrow> index_get ix0 = filed DATA_START copied Map.empty \<Longrightarrow>
    dk_path d' = dk_path d \<and> dk_detached d' = None
    \<and> (\<forall>re' ix'. r = Inr (re', ix') \<longrightarrow> (\<exists>bs. set bs \<subseteq> set bodies \<and> re_written re' = prefix @ run_image (copied @ bs)
        \<and> re_end re' = length (re_written re') \<and> (es \<noteq> [] \<longrightarrow> re_end re' \<le> usize_max)
        \<and> index_ok ix' \<and> index_get ix' = filed DATA_START (copied @ bs) Map.empty
        \<and> stored_in (copied @ bs) = (\<lambda>q. if q \<in> fst ` set es then stored_in bodies q else stored_in copied q)))"
proof (induction es arbitrary: re ix0 d copied)
  case Nil
  then show ?case by (auto simp: liftS_def intro!: exI[of _ "[]"])
next
  case (Cons x es)
  obtain q e where x: "x = (q, e)" by (cases x)
  obtain r1 d1 where a1: "attempt d = (r1, d1)" by fastforce
  have k1: "dk_path d1 = dk_path (jn_disk j)" "dk_detached d1 = None" using attempt_keeps[OF a1] Cons.prems by simp_all
  have "index_get (jn_index j) q = Some e" using Cons.prems(2) x by simp
  from live_entry[OF on ix this] obtain body b at where b: "body \<in> set bodies" "decode_body body = Inr b" "rb_seq b = q"
      "read_record_into (dk_path (jn_disk j)) q e = Inr (record_image body, at, rb_msg_type b)"
      "ie_body_len e = word_of_nat (length body)" "stored_in bodies q = Some (rb_msg_type b, rb_frame b)" by blast
  have good: "good_body (max_body_of (jn_config j)) body" using on b(1) unfolding on_file_def by auto
  obtain r2 d2 where a2: "replacement_append (record_image body) re d1 = (r2, d2)" by fastforce
  note rc = replacement_append_cases[OF a2]
  show ?case
  proof (cases r1)
    case (Inl err)
    then show ?thesis using Cons.prems a1 k1 by (auto simp: x thenS_def)
  next
    case r1: (Inr u)
    show ?thesis
    proof (cases r2)
      case (Inl err)
      then show ?thesis using Cons.prems a1 r1 k1 a2 rc(1,2) b(4) by (auto simp: x thenS_def liftS_def attached)
    next
      case r2: (Inr p)
      obtain re2 offset where p: "p = (re2, offset)" by (cases p)
      have re2: "re2 = re\<lparr>re_written := re_written re @ record_image body, re_end := re_end re + length (record_image body)\<rparr>"
          "offset = re_end re" "re_end re + length (record_image body) \<le> usize_max" using rc(3) r2 p by blast+
      obtain old ix2 where ins: "index_insert q (entry_of (DATA_START + length (run_image copied)) body) ix0 = (old, ix2)" by fastforce
      have "index_insert q \<lparr>ie_offset = word_of_nat offset, ie_body_len = ie_body_len e\<rparr> ix0 = (old, ix2)"
        using ins Cons.prems(5,6,7) re2(2) b(5) by (simp add: entry_of_def)
      then have go: "copy_records es re2 ix2 d2 = (r, d')"
        using Cons.prems(1) a1 r1 a2 r2 p k1 b(4) by (simp add: x thenS_def liftS_def attached)
      have "indexed (j\<lparr>jn_index := ix0\<rparr>) copied" using Cons.prems(8,9) by (simp add: indexed_def)
      from index_filed[OF this, of q body old ix2] ins good b(2,3) have ok2: "index_ok ix2" "index_get ix2 = filed DATA_START (copied @ [body]) Map.empty"
        by simp_all
      have pre: "\<forall>(q, e)\<in>set es. index_get (jn_index j) q = Some e" "dk_path d2 = dk_path (jn_disk j)" "dk_detached d2 = None"
          "re_written re2 = prefix @ run_image (copied @ [body])" "re_end re2 = length (re_written re2)"
        using Cons.prems rc(1,2) k1 by (auto simp: re2(1))
      have "stored_in (copied @ [body]) = (stored_in copied)(q \<mapsto> (rb_msg_type b, rb_frame b))"
        using stored_in_snoc[OF b(2)] b(3) by simp
      then have st: "(\<lambda>k. if k \<in> fst ` set es then stored_in bodies k else stored_in (copied @ [body]) k)
          = (\<lambda>k. if k \<in> fst ` set (x # es) then stored_in bodies k else stored_in copied k)"
        using b(6) by (auto simp: x fun_eq_iff)
      from Cons.IH[OF go pre(1-4) Cons.prems(6) pre(5) ok2] have keep: "dk_path d' = dk_path d2 \<and> dk_detached d' = None"
        and ih: "\<forall>re' ix'. r = Inr (re', ix') \<longrightarrow> (\<exists>bs. set bs \<subseteq> set bodies \<and> re_written re' = prefix @ run_image ((copied @ [body]) @ bs)
        \<and> re_end re' = length (re_written re') \<and> (es \<noteq> [] \<longrightarrow> re_end re' \<le> usize_max)
        \<and> index_ok ix' \<and> index_get ix' = filed DATA_START ((copied @ [body]) @ bs) Map.empty
        \<and> stored_in ((copied @ [body]) @ bs) = (\<lambda>q. if q \<in> fst ` set es then stored_in bodies q else stored_in (copied @ [body]) q))"
        by blast+
      have last_end: "es = [] \<Longrightarrow> r = Inr (re', ix') \<Longrightarrow> re_end re' \<le> usize_max" for re' ix'
        using go re2 by (auto simp: liftS_def)
      show ?thesis
      proof (intro conjI allI impI)
        fix re' ix' assume r: "r = Inr (re', ix')"
        with ih obtain bs where bs: "set bs \<subseteq> set bodies" "re_written re' = prefix @ run_image ((copied @ [body]) @ bs)"
          "re_end re' = length (re_written re')" "es \<noteq> [] \<longrightarrow> re_end re' \<le> usize_max"
          "index_ok ix'" "index_get ix' = filed DATA_START ((copied @ [body]) @ bs) Map.empty"
          "stored_in ((copied @ [body]) @ bs) = (\<lambda>q. if q \<in> fst ` set es then stored_in bodies q else stored_in (copied @ [body]) q)"
          by blast
        show "\<exists>bs. set bs \<subseteq> set bodies \<and> re_written re' = prefix @ run_image (copied @ bs)
          \<and> re_end re' = length (re_written re') \<and> (x # es \<noteq> [] \<longrightarrow> re_end re' \<le> usize_max)
          \<and> index_ok ix' \<and> index_get ix' = filed DATA_START (copied @ bs) Map.empty
          \<and> stored_in (copied @ bs) = (\<lambda>q. if q \<in> fst ` set (x # es) then stored_in bodies q else stored_in copied q)"
          using bs(1-6) bs(7)[unfolded st] b(1) last_end[OF _ r] by (intro exI[of _ "body # bs"]) auto
      qed (use keep pre k1 Cons.prems in auto)
    qed
  qed
qed

subsection \<open>The call\<close>

lemma fst_thenS_Inr: "fst (thenS m f s) = Inr b \<longleftrightarrow> (\<exists>a s'. m s = (Inr a, s') \<and> fst (f a s') = Inr b)"
  by (auto simp: thenS_def split: prod.splits sum.splits)

lemma decoded_time:
  assumes "decode_header bs = Inr h"
  shows "0 \<le> jh_creation_time h" "jh_creation_time h < 2 ^ 63 * 1000000000"
proof -
  obtain secs nanos where t: "epoch_plus secs nanos = Some (jh_creation_time h)" and n: "\<not> NANOS_PER_SECOND \<le> nanos"
    using assms unfolding decode_header_def Let_def
    by (auto simp: bindR_Inr_iff fst_thenS_Inr liftS_def ok_or_def split: if_splits option.splits)
  have "uint nanos < 1000000000" using n by (simp add: NANOS_PER_SECOND_def word_le_def not_le)
  moreover have "jh_creation_time h = uint secs * 1000000000 + uint nanos" "uint secs \<le> 2 ^ 63 - 1"
    using t by (simp_all add: epoch_plus_def split: if_splits)
  ultimately show "0 \<le> jh_creation_time h" "jh_creation_time h < 2 ^ 63 * 1000000000"
    using uint_ge_0[of secs] uint_ge_0[of nanos] by linarith+
qed

lemma open_prefix_header: "open_prefix prefix = Inr (h, images, active, slot) \<Longrightarrow> \<exists>bs. decode_header bs = Inr h"
  by (auto simp: open_prefix_def bindR_Inr_iff simp del: One_nat_def)

lemma disk_step_ok:
  assumes "journal_ok j" "sound j" "dk_path d = dk_path (jn_disk j)" "dk_detached d = dk_detached (jn_disk j)"
  shows "journal_ok (j\<lparr>jn_disk := d\<rparr>)"
proof -
  obtain prefix bodies h slot where inv: "on_file j prefix bodies h slot" "indexed j bodies" "counters_on_file j bodies h slot"
    "getters_agree j" using ok_backed[OF assms(1,2)] .
  let ?j = "j\<lparr>jn_disk := d\<rparr>"
  have "synced_in_time ?j" using on_file_synced[OF inv(1)] synced_cong[of ?j j] by simp
  then have "on_file ?j prefix bodies h slot" using assms(3,4) by (intro on_file_cong[OF inv(1)]) simp_all
  moreover have "memory_same j ?j" by (simp add: memory_same_def)
  ultimately show ?thesis using ok_same[OF _ _ inv(2-4) assms(1)] by blast
qed

text \<open>A compaction that renamed its file into place.\<close>

lemma compacted_ok:
  assumes ok: "journal_ok j" and s: "sound j" and inv: "on_file j prefix0 bodies h0 slot0" "indexed j bodies"
      "counters_on_file j bodies h0 slot0" "getters_agree j"
    and h: "h = \<lparr>jh_creation_time = jn_creation_time j, jh_next_sender = jn_next_sender j, jh_next_target = jn_next_target j\<rparr>"
      "0 \<le> jh_creation_time h" "jh_creation_time h < 2 ^ 63 * 1000000000"
    and fresh: "fresh_slots (jn_next_generation j) (jn_next_sender j) (jn_next_target j) (word_of_nat end)
        (jn_app_watermark j) (jn_reset_owed j) = Inr (images, after)"
    and bs: "set bs \<subseteq> set bodies" "end = length (journal_of (encode_prefix h images) bs)" "end \<le> usize_max"
      "index_ok ix" "index_get ix = filed DATA_START bs Map.empty" "stored_in bs = stored_in bodies"
    and disk: "dk_path d = journal_of (encode_prefix h images) bs"
    and ar: "after_rename (install_slots images
        (j\<lparr>jn_disk := d, jn_index := ix, jn_end := end, jn_durable_end := end, jn_unsynced := 0,
           jn_next_generation := after, jn_dead_bytes := 0, jn_failed_compaction_at := None\<rparr>)) = (r, j')"
  shows "journal_ok j' \<and> (r = Inr () \<longrightarrow> sound j') \<and> (sound j' \<longrightarrow> journal_view j' = journal_view j)"
proof -
  let ?j2 = "install_slots images
        (j\<lparr>jn_disk := d, jn_index := ix, jn_end := end, jn_durable_end := end, jn_unsynced := 0,
           jn_next_generation := after, jn_dead_bytes := 0, jn_failed_compaction_at := None\<rparr>)"
  let ?a = "?j2\<lparr>jn_disk := adopt (jn_disk ?j2)\<rparr>"
  let ?g = "jn_next_generation j"
  let ?s = "\<lparr>cs_generation = ?g + 1, cs_next_sender = jn_next_sender j, cs_next_target = jn_next_target j,
      cs_durable_end = word_of_nat end, cs_app_watermark = jn_app_watermark j, cs_reset_owed = jn_reset_owed j\<rparr>"
  have base: "sh_reset_owed (jn_shared j) = jn_reset_owed j" "fc_sync_policy (jn_config j) \<noteq> EveryN 0"
    using ok by (simp_all add: journal_ok_def)
  have less: "?g < ?g + 1" "?g + 1 < after" using fresh_slots_Inr[OF fresh] by blast+
  have old: "\<forall>c\<in>set (counters_of bodies). fst c < ?g"
      "\<forall>b\<in>set bodies. good_body (max_body_of (jn_config j)) b \<and> (\<exists>x. decode_body b = Inr x)"
    using inv(1) unfolding on_file_def by blast+
  have ctr: "\<forall>c\<in>set (counters_of bs). fst c < ?g" using counters_within[OF bs(1)] old(1) by blast
  then have "\<forall>c\<in>set (counters_of bs). fst c < after" using less by (meson order_less_trans)
  moreover have "\<forall>b\<in>set bs. good_body (max_body_of (jn_config j)) b \<and> (\<exists>x. decode_body b = Inr x)" using old(2) bs(1) by blast
  ultimately have on: "on_file ?a (encode_prefix h images) bs h ?s"
    using disk base(2) bs(2,3) h(2,3)
    by (intro fresh_on_file[OF fresh]) (simp_all add: install_slots_def adopt_def)
  from after_rename_outcomes[OF ar on] have m: "memory_same ?j2 j'" and on': "sound j' \<longrightarrow> on_file j' (encode_prefix h images) bs h ?s"
    and p: "r = Inr () \<longrightarrow> jn_pending j' = jn_pending ?j2" by blast+
  have "newest_from None (counters_of bs) = Some c \<Longrightarrow> fst c < ?g + 1" for c
    using newest_from_Some[of None "counters_of bs" c] ctr less(1) by (auto intro: order_less_trans)
  then have snd_eq: "sender_of ?s bs = jn_next_sender j" by (auto simp: sender_of_def split: option.split)
  have mem: "indexed j' bs" "counters_on_file j' bs h ?s" "getters_agree j'" "sh_reset_owed (jn_shared j') = jn_reset_owed j'"
      "fc_sync_policy (jn_config j') \<noteq> EveryN 0"
    using m base bs(4,5) snd_eq inv(4) h(1)
    by (simp_all add: memory_same_def install_slots_def indexed_def counters_on_file_def getters_agree_def)
  have "journal_ok j'"
  proof (cases "sound j'")
    case True
    then show ?thesis using on' ok_intro[OF _ mem] by blast
  next
    case False
    then show ?thesis using mem(4,5) by (simp add: journal_ok_def)
  qed
  moreover have "r = Inr () \<longrightarrow> sound j'" using p s by (simp add: sound_def install_slots_def)
  moreover have "sound j' \<longrightarrow> journal_view j' = journal_view j"
    using view_backed[OF _ mem(1,3)] on' view_backed[OF inv(1,2,4)] bs(6) m by (auto simp: memory_same_def install_slots_def)
  ultimately show ?thesis by blast
qed

lemma compact_ok:
  assumes call: "journal_compact j = (r, j')" and ok: "journal_ok j"
  shows "journal_ok j' \<and> (sound j \<longrightarrow> sound j' \<longrightarrow> journal_view j' = journal_view j) \<and> (\<forall>n. r = Inr n \<longrightarrow> sound j \<and> sound j')"
proof (cases "is_clear (jn_pending j)")
  case False
  then have "j' = j" "r = Inl StoreIo" using call by (auto simp: journal_compact_def thenS_def usable_def)
  then show ?thesis using ok by simp
next
  case True
  then have s: "sound j" by (rule clear_sound)
  obtain prefix0 bodies h0 slot0 where inv: "on_file j prefix0 bodies h0 slot0" "indexed j bodies"
      "counters_on_file j bodies h0 slot0" "getters_agree j" using ok_backed[OF ok s] .
  let ?h = "\<lparr>jh_creation_time = jn_creation_time j, jh_next_sender = jn_next_sender j, jh_next_target = jn_next_target j\<rparr>"
  let ?es = "frames_list (index_iter (jn_index j))"
  have keep: "journal_ok j' \<and> (sound j \<longrightarrow> sound j' \<longrightarrow> journal_view j' = journal_view j)"
    if "\<exists>d. j' = j\<lparr>jn_disk := d\<rparr> \<and> dk_path d = dk_path (jn_disk j) \<and> dk_detached d = dk_detached (jn_disk j)"
  proof -
    from that obtain d where d: "j' = j\<lparr>jn_disk := d\<rparr>" "dk_path d = dk_path (jn_disk j)" "dk_detached d = dk_detached (jn_disk j)" by blast
    have "journal_view j' = journal_view j" by (simp add: journal_view_def d(1) file_bytes_cong[OF d(2,3)])
    then show ?thesis using disk_step_ok[OF ok s d(2,3)] by (simp add: d(1))
  qed
  note defs = journal_compact_def thenS_def liftS_def usable_def True Let_def on_disk_def ok_or_def
  show ?thesis
  proof (cases "live_length ?es")
    case None
    then show ?thesis using call keep ok by (auto simp: defs)
  next
    case (Some live)
    show ?thesis
    proof (cases "fresh_slots (jn_next_generation j) (jn_next_sender j) (jn_next_target j) (word_of_nat live)
        (jn_app_watermark j) (jn_reset_owed j)")
      case (Inl e)
      then show ?thesis using call keep ok Some by (auto simp: defs)
    next
      case fr: (Inr p)
      obtain images after where p: "p = (images, after)" by (cases p)
      obtain r1 d1 where c: "replacement_create ?h images (jn_disk j) = (r1, d1)" by fastforce
      note cc = replacement_create_cases[OF c]
      show ?thesis
      proof (cases r1)
        case (Inl e)
        then have "j' = j\<lparr>jn_disk := d1\<rparr>" "r = Inl e" using call Some fr p c by (simp_all add: defs)
        then show ?thesis using keep cc by auto
      next
        case r1: (Inr re)
        obtain r2 d2 where cp: "copy_records ?es re index_new d1 = (r2, d2)" by fastforce
        have iter: "listing (index_get (jn_index j)) 0 (- 1) ?es"
          using inv(2) index_range_lists unfolding indexed_def index_iter_def by blast
        then have es: "\<forall>(q, e)\<in>set ?es. index_get (jn_index j) q = Some e" by (auto simp: listing_def)
        have det: "dk_detached (jn_disk j) = None" using inv(1) unfolding on_file_def by (elim conjE)
        have len: "length (encode_prefix ?h images) = DATA_START"
          using fresh_slots_Inr[OF fr[unfolded p]] encode_prefix_parts(1)[of images] by (auto simp: length_encodings)
        have re: "re_written re = encode_prefix ?h images @ run_image []" "re_end re = length (re_written re)"
          using cc r1 by simp_all
        have d1: "dk_path d1 = dk_path (jn_disk j)" "dk_detached d1 = None" using cc det by simp_all
        from copy_records_outcomes[OF inv(1,2) cp es d1 re(1) len re(2) index_new_ok(1)] have
          kp: "dk_path d2 = dk_path (jn_disk j)" "dk_detached d2 = dk_detached (jn_disk j)"
          and run: "\<forall>re' ix'. r2 = Inr (re', ix') \<longrightarrow> (\<exists>bs. set bs \<subseteq> set bodies \<and> re_written re' = encode_prefix ?h images @ run_image bs
            \<and> re_end re' = length (re_written re') \<and> (?es \<noteq> [] \<longrightarrow> re_end re' \<le> usize_max)
            \<and> index_ok ix' \<and> index_get ix' = filed DATA_START bs Map.empty
            \<and> stored_in bs = (\<lambda>q. if q \<in> fst ` set ?es then stored_in bodies q else stored_in [] q))"
          using d1 det by (simp_all add: index_new_ok)
        show ?thesis
        proof (cases r2)
          case (Inl e)
          then have "j' = j\<lparr>jn_disk := d2\<rparr>" "r = Inl e" using call Some fr p c r1 cp by (simp_all add: defs)
          then show ?thesis using keep kp by auto
        next
          case r2: (Inr q)
          obtain re' ix' where q: "q = (re', ix')" by (cases q)
          obtain r3 d3 where f: "replacement_finish re' d2 = (r3, d3)" by fastforce
          note fc = replacement_finish_cases[OF f]
          show ?thesis
          proof (cases r3)
            case (Inl e)
            then have "j' = j\<lparr>jn_disk := d3\<rparr>" "r = Inl e" using call Some fr p c r1 cp r2 q f by (simp_all add: defs)
            then show ?thesis using keep kp fc by auto
          next
            case r3: (Inr re'')
            then have re'': "re'' = re'\<lparr>re_open := False\<rparr>" using fc by blast
            show ?thesis
            proof (cases "re_end re' = live")
              case False
              then have "j' = j\<lparr>jn_disk := d3\<rparr>" "r = Inl StoreIo" using call Some fr p c r1 cp r2 q f r3 re'' by (simp_all add: defs)
              then show ?thesis using keep kp fc by auto
            next
              case live: True
              obtain r4 d4 where n: "rename_into_place re'' d3 = (r4, d4)" by fastforce
              note nc = rename_into_place_cases[OF n]
              show ?thesis
              proof (cases r4)
                case (Inl e)
                then have "j' = j\<lparr>jn_disk := d4\<rparr>" "r = Inl e"
                  using call Some fr p c r1 cp r2 q f r3 re'' live n by (simp_all add: defs)
                then show ?thesis using keep kp fc nc Inl by auto
              next
                case r4: (Inr "end")
                obtain bs where bs: "set bs \<subseteq> set bodies" "re_written re' = encode_prefix ?h images @ run_image bs"
                    "re_end re' = length (re_written re')" "?es \<noteq> [] \<longrightarrow> re_end re' \<le> usize_max"
                    "index_ok ix'" "index_get ix' = filed DATA_START bs Map.empty"
                    "stored_in bs = (\<lambda>q. if q \<in> fst ` set ?es then stored_in bodies q else stored_in [] q)"
                  using run r2 q by blast
                have "stored_in bs = stored_in bodies"
                proof
                  fix k
                  have "stored_in bodies k = None" if "k \<notin> fst ` set ?es"
                  proof (rule ccontr)
                    assume "stored_in bodies k \<noteq> None"
                    then have "index_get (jn_index j) k \<noteq> None"
                      using read_on_file[OF inv(1,2), of k] by (auto simp: read_filed_def stored_in_def)
                    then obtain e where "(k, e) \<in> set ?es" using iter by (auto simp: listing_def)
                    then show False using that by force
                  qed
                  then show "stored_in bs k = stored_in bodies k" by (simp add: bs(7) stored_in_empty)
                qed
                moreover have "live \<le> usize_max"
                proof (cases "?es = []")
                  case True
                  then have "re_end re' = length (encode_prefix ?h images)" using cp r2 q cc r1 by (simp add: liftS_def)
                  then show ?thesis using live len by (simp add: DATA_START_def usize_max_def)
                qed (use bs(4) live in simp)
                moreover have "end = live" "dk_path d4 = journal_of (encode_prefix ?h images) bs"
                  using nc r4 bs(2) live by (auto simp: re'' journal_of_def)
                moreover have "length (journal_of (encode_prefix ?h images) bs) = live" using bs(2,3) live by (simp add: journal_of_def)
                moreover have "after_rename (install_slots images
        (j\<lparr>jn_disk := d4, jn_index := ix', jn_end := live, jn_durable_end := live, jn_unsynced := 0,
           jn_next_generation := after, jn_dead_bytes := 0, jn_failed_compaction_at := None\<rparr>))
         = (case r of Inl e \<Rightarrow> Inl e | Inr _ \<Rightarrow> Inr (), j')" (is "?ar = _")
                  using call Some fr p c r1 cp r2 q f r3 re'' live n r4 calculation(3)
                  by (cases ?ar) (auto simp: defs split: sum.splits)
                moreover obtain bs0 where "decode_header bs0 = Inr h0" using open_prefix_header inv(1) unfolding on_file_def by blast
                moreover have "jn_creation_time j = jh_creation_time h0" using inv(3) by (simp add: counters_on_file_def)
                ultimately show ?thesis
                  using compacted_ok[OF ok s inv refl _ _ fr[unfolded p] bs(1) _ _ bs(5,6), of d4] decoded_time[of bs0 h0] s
                  by (cases r) auto
              qed
            qed
          qed
        qed
      qed
    qed
  qed
qed

end
