(* ===== verification/Store_Journal_Reload.thy ===== *)
theory Store_Journal_Reload
  imports Store_Journal_Compact
begin

text \<open>
  Loading a journal file, at opening and at a refresh: whatever the file holds and whatever was
  left to undo, a load that succeeds leaves a sound journal behind.
\<close>

subsection \<open>What a load installs\<close>

lemma path_write:
  "write_at PathFile bs offset d = (Inr u, d') \<Longrightarrow> dk_path d' = poke offset bs (dk_path d)"
  by (auto simp: write_at_def next_outcome_def file_bytes_def split: list.splits io_outcome.splits)

lemma path_cut:
  "set_len PathFile n d = (Inr u, d') \<Longrightarrow> n \<le> length (dk_path d) \<Longrightarrow> dk_path d' = take n (dk_path d)"
  by (auto simp: set_len_def next_outcome_def file_bytes_def split: list.splits io_outcome.splits)

lemma fold_max_ge: "g \<le> fold max gs g \<and> (\<forall>x\<in>set gs. x \<le> fold max gs g)" for g :: "'a::linorder"
  by (induction gs arbitrary: g) (auto intro: order_trans[OF max.cobounded1] order_trans[OF max.cobounded2])

lemma scan_finish_generation:
  assumes "scan_finish rule header images active slot (end, truncation, r) = Inr s"
  shows "\<forall>g\<in>set (slot_generations images). g < sn_next_generation s"
    and "rp_highest_generation r = Some g \<Longrightarrow> g < sn_next_generation s"
    and "sn_slots_stale s = (end < unat (cs_durable_end slot))" "sn_reset_owed s = cs_reset_owed slot"
    and "sn_app_watermark s = cs_app_watermark slot"
proof -
  let ?gs = "slot_generations images @ (case rp_highest_generation r of None \<Rightarrow> [] | Some g \<Rightarrow> [g])"
  let ?top = "case ?gs of [] \<Rightarrow> cs_generation slot | g # gs \<Rightarrow> fold max gs g"
  note d = assms[unfolded scan_finish_def prod.case Let_def, folded slot_generations_def]
  have live: "\<not> (end < unat (cs_durable_end slot) \<and> tail_rule rule)" using d by (auto split: if_splits)
  with d obtain k where k: "checked_add ?top 1 = Some k" "s = \<lparr>sn_header = header, sn_slots = images, sn_active = active, sn_index = rp_index r,
                sn_next_sender = (case rp_newest_counter r of
                   Some (generation, next_sender) \<Rightarrow> if cs_generation slot < generation then next_sender else cs_next_sender slot
                 | None \<Rightarrow> cs_next_sender slot), sn_next_target = cs_next_target slot,
                sn_next_generation = k, sn_end = end, sn_truncation = truncation,
                sn_dead_bytes = rp_dead_bytes r, sn_slots_stale = (end < unat (cs_durable_end slot)),
                sn_boundary = unat (cs_durable_end slot),
                sn_reset_owed = cs_reset_owed slot, sn_app_watermark = cs_app_watermark slot\<rparr>"
    by (cases "checked_add ?top 1") (simp_all add: bindR_def ok_or_def)
  have "\<forall>g\<in>set ?gs. g \<le> ?top"
    by (cases ?gs) (auto simp: fold_max_ge simp del: append_is_Nil_conv)
  moreover have "?top < k" using unat_checked_add[OF k(1)] by (simp add: word_less_nat_alt)
  ultimately have "\<forall>g\<in>set ?gs. g < k" by (blast intro: order_le_less_trans)
  then show "\<forall>g\<in>set (slot_generations images). g < sn_next_generation s"
    "rp_highest_generation r = Some g \<Longrightarrow> g < sn_next_generation s" by (simp_all add: k(2))
  show "sn_slots_stale s = (end < unat (cs_durable_end slot))" "sn_reset_owed s = cs_reset_owed slot"
    "sn_app_watermark s = cs_app_watermark slot" by (simp_all add: k(2))
qed

lemma scan_step_truncation:
  assumes "scan_step rule boundary max_body record file_len reader offset st = ScanDone t st'"
  shows "case t of None \<Rightarrow> offset = file_len | Some c \<Rightarrow> tr_offset c = offset"
  using assms unfolding scan_step_def Let_def
  by (auto split: if_splits prod.splits sum.splits option.splits)

lemma scan_truncation:
  assumes scan: "scan_journal file (length file) max_body rule = Inr s"
  shows "case sn_truncation s of None \<Rightarrow> sn_end s = length file | Some t \<Rightarrow> tr_offset t = sn_end s"
proof -
  have long: "DATA_START \<le> length file"
    using scan by (auto simp: scan_journal_def thenS_def liftS_def not_less split: if_splits prod.splits sum.splits)
  have whole: "file = take DATA_START file @ drop DATA_START file" "length (take DATA_START file) = DATA_START" using long by simp_all
  have "scan_journal (take DATA_START file @ drop DATA_START file) (length file) max_body rule = Inr s" using scan by simp
  then obtain h images active slot t "end" r where
      sr: "scan_records rule (unat (cs_durable_end slot)) max_body replay_record (length file) (drop DATA_START file) DATA_START replay_new = Inr (end, t, r)"
      and fin: "scan_finish rule h images active slot (end, t, r) = Inr s"
    unfolding scan_journal_eq[OF whole(2) long] by (auto simp: bindR_Inr_iff)
  have parts: "sn_end s = end" "sn_truncation s = t" using scan_finish_parts(6,7)[OF fin] .
  from scan_accepts[OF sr] obtain tail r1 where "scan_step rule (unat (cs_durable_end slot)) max_body replay_record (length file) tail end r1 = ScanDone t r"
    by blast
  from scan_step_truncation[OF this] show ?thesis by (simp only: parts)
qed

definition loaded :: "file_store_config \<Rightarrow> bytes \<Rightarrow> scan_result \<Rightarrow> bytes \<Rightarrow> bytes list \<Rightarrow> counter_slot \<Rightarrow> bool" where
  "loaded config file s prefix bodies slot \<longleftrightarrow> file = journal_of prefix bodies \<and> length prefix = DATA_START
     \<and> open_prefix prefix = Inr (sn_header s, sn_slots s, sn_active s, slot)
     \<and> (\<forall>b\<in>set bodies. good_body (max_body_of config) b \<and> (\<exists>x. decode_body b = Inr x))
     \<and> sn_end s = length (journal_of prefix bodies) \<and> sn_end s \<le> usize_max
     \<and> (\<forall>g\<in>set (slot_generations (sn_slots s)). g < sn_next_generation s)
     \<and> (\<forall>c\<in>set (counters_of bodies). fst c < sn_next_generation s)
     \<and> index_ok (sn_index s) \<and> index_get (sn_index s) = filed DATA_START bodies Map.empty
     \<and> sn_next_sender s = sender_of slot bodies \<and> sn_next_target s = cs_next_target slot
     \<and> sn_app_watermark s = cs_app_watermark slot \<and> sn_reset_owed s = cs_reset_owed slot"

definition vouched :: "scan_result \<Rightarrow> counter_slot \<Rightarrow> bool" where
  "vouched s slot \<longleftrightarrow> unat (cs_durable_end slot) \<le> sn_end s \<and> sn_boundary s \<le> sn_end s"

lemma highest_from_some: "cs \<noteq> [] \<Longrightarrow> \<exists>g. highest_from acc cs = Some g"
  by (cases cs rule: rev_cases) (simp_all add: highest_from_def)

lemma scanned_loaded:
  assumes scan: "scan_journal file (length file) (max_body_of config) rule = Inr s" and small: "length file \<le> usize_max"
  shows "sn_end s \<le> length file \<and> (\<exists>prefix bodies slot. loaded config (take (sn_end s) file) s prefix bodies slot
    \<and> (\<not> sn_slots_stale s \<longrightarrow> vouched s slot))"
proof -
  obtain prefix bodies tail h images active slot r where run: "file = journal_of prefix bodies @ tail"
     "length prefix = DATA_START" "open_prefix prefix = Inr (h, images, active, slot)"
     "\<forall>b\<in>set bodies. good_body (max_body_of config) b \<and> (\<exists>x. decode_body b = Inr x)"
     "replay_all replay_record DATA_START bodies replay_new = Some r"
     "sn_end s = length (journal_of prefix bodies)"
     "scan_finish rule h images active slot (sn_end s, sn_truncation s, r) = Inr s"
    using scan_journal_run[OF scan small] by blast
  have room: "0 + length (run_image bodies) \<le> usize_max" using small by (simp add: run(1) journal_of_def)
  from replay_run[OF record_replay_new_inv this run(4), of DATA_START] run(5)
  have r: "index_ok (rp_index r)" "index_get (rp_index r) = filed DATA_START bodies Map.empty"
      "rp_newest_counter r = newest_from None (counters_of bodies)" "rp_highest_generation r = highest_from None (counters_of bodies)"
    by (auto simp: replay_new_def index_new_ok replay_inv_def)
  note parts = scan_finish_parts(1-10)[OF run(7)] and gen = scan_finish_generation[OF run(7)]
  have "\<forall>c\<in>set (counters_of bodies). fst c < sn_next_generation s"
  proof
    fix c assume c: "c \<in> set (counters_of bodies)"
    then obtain g where g: "highest_from None (counters_of bodies) = Some g"
      using highest_from_some[of "counters_of bodies" None] by (cases "counters_of bodies") auto
    then have "fst c \<le> g" using highest_from_bound c by blast
    also have "g < sn_next_generation s" using gen(2) r(4) g by simp
    finally show "fst c < sn_next_generation s" .
  qed
  then have "loaded config (take (sn_end s) file) s prefix bodies slot"
    using run(2-4,6) parts gen r small unfolding loaded_def sender_of_def by (simp add: run(1))
  moreover have "\<not> sn_slots_stale s \<longrightarrow> vouched s slot" using gen(3) parts(9) by (simp add: vouched_def not_less)
  moreover have "sn_end s \<le> length file" using run(1,6) by simp
  ultimately show ?thesis by blast
qed

lemma restamp_loaded:
  assumes call: "restamp_slots s d = (Inr s', d')" and l: "loaded config (dk_path d) s prefix bodies slot"
  shows "\<exists>prefix' slot'. loaded config (dk_path d') s' prefix' bodies slot' \<and> vouched s' slot'"
proof -
  let ?target = "if sn_active s = 0 then 1 else 0 :: nat"
  let ?new = "\<lparr>cs_generation = sn_next_generation s, cs_next_sender = sn_next_sender s, cs_next_target = sn_next_target s,
      cs_durable_end = word_of_nat (sn_end s), cs_app_watermark = sn_app_watermark s, cs_reset_owed = sn_reset_owed s\<rparr>"
  note lo = l[unfolded loaded_def]
  obtain offset where off: "slot_offset ?target = Inr offset"
    by (cases "sn_active s = 0") (auto simp: slot_offset_def get_at_def SLOT_OFFSETS_def)
  obtain k where w: "write_at PathFile (encode_slot ?new) offset d = (Inr (), d')" and k: "checked_add (sn_next_generation s) 1 = Some k"
      and s': "s' = s\<lparr>sn_slots := slot_set ?target (encode_slot ?new) (sn_slots s), sn_active := ?target,
            sn_next_generation := k, sn_boundary := sn_end s, sn_slots_stale := False\<rparr>"
    using call off by (auto simp: restamp_slots_def Let_def thenS_Inr_iff liftS_iff ok_or_def split: option.splits)
  have less: "sn_next_generation s < k" using unat_checked_add[OF k] by (simp add: word_less_nat_alt)
  have gens: "\<forall>g\<in>set (slot_generations (sn_slots s)). g < cs_generation ?new" using lo by simp
  note newest = newest_after_write[OF gens, of ?target]
  have t: "?target = 0 \<or> ?target = 1" by simp
  have lp: "length prefix = DATA_START" and op: "open_prefix prefix = Inr (sn_header s, sn_slots s, sn_active s, slot)" using lo by blast+
  obtain prefix' where p: "length prefix' = DATA_START" "poke offset (encode_slot ?new) (prefix @ run_image bodies) = prefix' @ run_image bodies"
      "open_prefix prefix' = Inr (sn_header s, slot_set ?target (encode_slot ?new) (sn_slots s), ?target, ?new)"
    using slot_write[OF lp op t length_encodings(2) off, of ?new "run_image bodies"] newest(1)[OF t] by blast
  have path: "dk_path d' = journal_of prefix' bodies" using path_write[OF w] lo p(2) by (simp add: journal_of_def)
  have de: "unat (word_of_nat (sn_end s) :: u64) = sn_end s" using lo by (intro unat_of_nat_small) (simp add: usize_max_def)
  have "sender_of ?new bodies = sn_next_sender s"
  proof -
    have "newest_from None (counters_of bodies) = Some c \<Longrightarrow> fst c < sn_next_generation s" for c
      using newest_from_Some[of None "counters_of bodies" c] lo by auto
    then show ?thesis by (auto simp: sender_of_def split: option.split)
  qed
  moreover have "\<forall>g\<in>set (slot_generations (sn_slots s')). g < sn_next_generation s'"
  proof
    fix g assume "g \<in> set (slot_generations (sn_slots s'))"
    then have "g \<in> set (slot_generations (sn_slots s)) \<or> g = sn_next_generation s" using newest(2)[OF t, of g] by (simp add: s')
    then show "g < sn_next_generation s'" using gens less by (auto simp: s' intro: order_less_trans)
  qed
  moreover have "\<forall>c\<in>set (counters_of bodies). fst c < k" using lo less by (meson order_less_trans)
  moreover have "length (journal_of prefix' bodies) = length (journal_of prefix bodies)" using p(1) lo by (simp add: journal_of_def)
  ultimately have "loaded config (dk_path d') s' prefix' bodies ?new"
    using lo p path unfolding loaded_def s' by simp
  moreover have "vouched s' ?new" by (simp add: vouched_def s' de)
  ultimately show ?thesis by blast
qed

lemma load_loaded:
  assumes call: "load_journal config rule d = (Inr s, d')"
  shows "\<exists>prefix bodies slot. loaded config (dk_path d') s prefix bodies slot \<and> vouched s slot"
proof -
  obtain d1 d2 d3 d4 d5 d6 s0 where
      a: "attempt d = (Inr (), d1)" "attempt d1 = (Inr (), d2)" "attempt d2 = (Inr (), d3)" "attempt d3 = (Inr (), d4)"
      and small: "length (dk_path d4) \<le> usize_max"
      and scan: "scan_journal (dk_path d4) (length (dk_path d4)) (max_body_of config) rule = Inr s0"
      and cut: "(case sn_truncation s0 of None \<Rightarrow> liftS (Inr ()) | Some t \<Rightarrow> set_len PathFile (tr_offset t)) d4 = (Inr (), d5)"
      and fin: "(if sn_slots_stale s0 then restamp_slots s0 else liftS (Inr s0)) d5 = (Inr s, d')"
    using call by (auto simp: load_journal_def open_journal_file_def thenS_Inr_iff liftS_iff split: if_splits)
  from scanned_loaded[OF scan small] obtain prefix bodies slot where
      l: "loaded config (take (sn_end s0) (dk_path d4)) s0 prefix bodies slot" "\<not> sn_slots_stale s0 \<longrightarrow> vouched s0 slot"
      and le: "sn_end s0 \<le> length (dk_path d4)" by blast
  have "dk_path d5 = take (sn_end s0) (dk_path d4)"
  proof (cases "sn_truncation s0")
    case None
    then show ?thesis using cut scan_truncation[OF scan] by (simp add: liftS_iff)
  next
    case (Some t)
    then have "tr_offset t = sn_end s0" using scan_truncation[OF scan] by simp
    then show ?thesis using cut Some path_cut[of "sn_end s0" d4 "()" d5] le by simp
  qed
  then have l5: "loaded config (dk_path d5) s0 prefix bodies slot" using l(1) by simp
  show ?thesis
  proof (cases "sn_slots_stale s0")
    case True
    then show ?thesis using fin restamp_loaded[OF _ l5] by auto
  next
    case False
    then show ?thesis using fin l5 l(2) by (auto simp: liftS_iff)
  qed
qed


text \<open>
  Refreshing and opening a journal.  From any state, and whatever the file system does, the
  invariant holds afterwards; a refresh that succeeds ends in a sound journal, and one of a sound
  journal changes nothing that is stored.
\<close>

subsection \<open>The loaded journal\<close>

lemma installed_getters:
  "getters_agree (reload_install s j) \<and> sh_reset_owed (jn_shared (reload_install s j)) = jn_reset_owed (reload_install s j)"
  by (auto simp: getters_agree_def reload_install_def install_scan_def publish_def Let_def split: option.split)

definition scan_view :: "scan_result \<Rightarrow> bytes list \<Rightarrow> store_view" where
  "scan_view s bodies = \<lparr>vw_messages = stored_in bodies, vw_next_sender = sn_next_sender s,
     vw_next_target = sn_next_target s, vw_reset_owed = sn_reset_owed s, vw_app_watermark = sn_app_watermark s\<rparr>"

text \<open>Any journal record that was filled from a load, wherever its durable end was set.\<close>

definition filled_from :: "scan_result \<Rightarrow> journal \<Rightarrow> bool" where
  "filled_from s j \<longleftrightarrow> dk_detached (jn_disk j) = None \<and> jn_index j = sn_index s \<and> jn_end j = sn_end s
     \<and> jn_durable_end j \<le> sn_end s \<and> jn_unsynced j = 0 \<and> jn_pending j = pending_clear
     \<and> jn_creation_time j = jh_creation_time (sn_header s) \<and> jn_next_sender j = sn_next_sender s
     \<and> jn_next_target j = sn_next_target s \<and> jn_reset_owed j = sn_reset_owed s
     \<and> jn_app_watermark j = sn_app_watermark s \<and> sn_next_generation s \<le> jn_next_generation j
     \<and> jn_slots j = sn_slots s \<and> jn_active_slot j = sn_active s \<and> jn_durable_slot j = sn_active s
     \<and> getters_agree j \<and> fc_sync_policy (jn_config j) \<noteq> EveryN 0"

lemma loaded_backed:
  assumes l: "loaded (jn_config j) (dk_path (jn_disk j)) s prefix bodies slot" "vouched s slot" and f: "filled_from s j"
  shows "on_file j prefix bodies (sn_header s) slot \<and> indexed j bodies \<and> counters_on_file j bodies (sn_header s) slot
    \<and> getters_agree j \<and> sh_reset_owed (jn_shared j) = jn_reset_owed j \<and> fc_sync_policy (jn_config j) \<noteq> EveryN 0 \<and> sound j
    \<and> journal_view j = scan_view s bodies"
proof -
  note lo = l(1)[unfolded loaded_def]
  note fi = f[unfolded filled_from_def]
  have sync: "synced_in_time j" using fi by (auto simp: synced_in_time_def word_gt_0 split: sync_policy.split)
  have act: "sn_active s = 0 \<or> sn_active s = 1" using lo open_newest newest_active by blast
  have "sn_next_generation s \<le> jn_next_generation j" using fi by blast
  then have gens: "\<forall>g\<in>set (slot_generations (sn_slots s)). g < jn_next_generation j"
      "\<forall>c\<in>set (counters_of bodies). fst c < jn_next_generation j"
    using lo by (meson order_less_le_trans)+
  have on: "on_file j prefix bodies (sn_header s) slot"
    using lo l(2) sync act gens fi unfolding on_file_def vouched_def by simp
  have ix: "indexed j bodies" using lo fi by (simp add: indexed_def)
  have "counters_on_file j bodies (sn_header s) slot" using lo fi by (simp add: counters_on_file_def)
  moreover have "getters_agree j" "fc_sync_policy (jn_config j) \<noteq> EveryN 0" "sound j"
    using fi by (simp_all add: sound_def pending_clear_def)
  moreover from this(1) have "sh_reset_owed (jn_shared j) = jn_reset_owed j" by (simp add: getters_agree_def)
  moreover have "journal_view j = scan_view s bodies"
    using view_backed[OF on ix calculation(2)] fi by (simp add: scan_view_def)
  ultimately show ?thesis using on ix by blast
qed

text \<open>What is left of a load: installed, and flushed where the policy flushes.\<close>

definition reload_tail :: "scan_result \<Rightarrow> unit journal_call" where
  "reload_tail scan j =
    (let j1 = reload_install scan j in
     if \<not> flushes (fc_sync_policy (jn_config j1))
     then (Inr (), j1\<lparr>jn_durable_end := sn_boundary scan, jn_durable_slots := sn_slots scan\<rparr>)
     else journal_flush (j1\<lparr>jn_durable_end := min (jn_durable_end j1) (sn_end scan)\<rparr>))"

lemma reload_filled:
  assumes "fc_sync_policy (jn_config j) \<noteq> EveryN 0" "de \<le> sn_end s"
  shows "filled_from s ((reload_install s j)\<lparr>jn_durable_end := de, jn_durable_slots := ds\<rparr>)"
proof -
  let ?j = "(reload_install s j)\<lparr>jn_durable_end := de, jn_durable_slots := ds\<rparr>"
  have "getters_agree ?j" using installed_getters[of s j] by (simp add: getters_agree_def)
  then show ?thesis using assms by (simp add: filled_from_def reload_install_def adopt_def)
qed

lemma reload_tail_ok:
  assumes call: "reload_tail s j = (r, j')" and l: "loaded (jn_config j) (dk_path (jn_disk j)) s prefix bodies slot" "vouched s slot"
    and base: "fc_sync_policy (jn_config j) \<noteq> EveryN 0"
  shows "journal_ok j' \<and> (r = Inr () \<longrightarrow> sound j' \<and> journal_view j' = scan_view s bodies)"
proof (cases "flushes (fc_sync_policy (jn_config (reload_install s j)))")
  case False
  let ?j = "(reload_install s j)\<lparr>jn_durable_end := sn_boundary s, jn_durable_slots := sn_slots s\<rparr>"
  have r: "r = Inr ()" "j' = ?j" using call False by (simp_all add: reload_tail_def Let_def)
  have "sn_boundary s \<le> sn_end s" using l(2) by (simp add: vouched_def)
  moreover have "loaded (jn_config ?j) (dk_path (jn_disk ?j)) s prefix bodies slot" using l(1) by (simp add: reload_install_def adopt_def)
  ultimately show ?thesis using loaded_backed[OF _ l(2) reload_filled[OF base]] ok_intro r by blast
next
  case True
  let ?j = "(reload_install s j)\<lparr>jn_durable_end := min (jn_durable_end j) (sn_end s), jn_durable_slots := jn_durable_slots j\<rparr>"
  have "?j = (reload_install s j)\<lparr>jn_durable_end := min (jn_durable_end j) (sn_end s)\<rparr>" by (simp add: reload_install_def)
  then have f: "journal_flush ?j = (r, j')" using call True by (simp add: reload_tail_def Let_def reload_install_def)
  have "loaded (jn_config ?j) (dk_path (jn_disk ?j)) s prefix bodies slot" using l(1) by (simp add: reload_install_def adopt_def)
  from loaded_backed[OF this l(2) reload_filled[OF base]] have b: "journal_ok ?j" "sound ?j" "journal_view ?j = scan_view s bodies"
    using ok_intro by auto
  then show ?thesis using flush_ok[OF f b(1,2)] by simp
qed

subsection \<open>The undo\<close>

text \<open>A step that touches nothing but what the disk still has to answer and the pending directory flush.\<close>

definition quiet :: "journal \<Rightarrow> journal \<Rightarrow> bool" where
  "quiet j j' \<longleftrightarrow> (\<exists>d p. j' = j\<lparr>jn_disk := d, jn_pending := p\<rparr> \<and> dk_path d = dk_path (jn_disk j)
     \<and> dk_detached d = dk_detached (jn_disk j) \<and> (p = jn_pending j \<or> p = (jn_pending j)\<lparr>pd_directory_flush := False\<rparr>))"

lemma quiet_refl: "quiet j j"
  by (auto simp: quiet_def intro!: exI[of _ "jn_disk j"] exI[of _ "jn_pending j"])

lemma quiet_keeps:
  assumes "quiet j j'"
  shows "memory_same j j'" "sound j' = sound j" "jn_config j' = jn_config j" "dk_path (jn_disk j') = dk_path (jn_disk j)"
    "dk_detached (jn_disk j') = dk_detached (jn_disk j)" "on_file j prefix bodies h slot \<Longrightarrow> on_file j' prefix bodies h slot"
    "journal_ok j \<Longrightarrow> sound j \<Longrightarrow> journal_ok j' \<and> journal_view j' = journal_view j"
proof -
  obtain d p where j': "j' = j\<lparr>jn_disk := d, jn_pending := p\<rparr>" "dk_path d = dk_path (jn_disk j)" "dk_detached d = dk_detached (jn_disk j)"
      and p: "p = jn_pending j \<or> p = (jn_pending j)\<lparr>pd_directory_flush := False\<rparr>" using assms by (auto simp: quiet_def)
  show m: "memory_same j j'" by (simp add: j'(1) memory_same_def)
  show "sound j' = sound j" using p by (auto simp: j'(1) sound_def)
  show "jn_config j' = jn_config j" "dk_path (jn_disk j') = dk_path (jn_disk j)" "dk_detached (jn_disk j') = dk_detached (jn_disk j)"
    using j' by simp_all
  show on: "on_file j' prefix bodies h slot" if o: "on_file j prefix bodies h slot" for prefix bodies h slot
    using on_file_synced[OF o] synced_cong[of j' j] j' by (intro on_file_cong[OF o]) simp_all
  show "journal_ok j' \<and> journal_view j' = journal_view j" if ok: "journal_ok j" "sound j"
  proof -
    obtain prefix bodies h slot where inv: "on_file j prefix bodies h slot" "indexed j bodies" "counters_on_file j bodies h slot"
      "getters_agree j" using ok_backed[OF ok] .
    show ?thesis using ok_same[OF on[OF inv(1)] m inv(2-4) ok(1)] view_same[OF inv(1,2,4) m on[OF inv(1)]] by simp
  qed
qed

lemma directory_flushed:
  assumes "(if pd_directory_flush (jn_pending j)
      then thenS (on_disk flush_directory) (\<lambda>_ j. (Inr (), j\<lparr>jn_pending := (jn_pending j)\<lparr>pd_directory_flush := False\<rparr>\<rparr>)) j
      else (Inr (), j)) = (r1, j1)"
  shows "quiet j j1"
proof (cases "pd_directory_flush (jn_pending j)")
  case True
  obtain r0 d0 where a: "attempt (jn_disk j) = (r0, d0)" by fastforce
  show ?thesis
  proof (cases r0)
    case (Inl e)
    then have "j1 = j\<lparr>jn_disk := d0, jn_pending := jn_pending j\<rparr>"
      using assms True a by (auto simp: flush_directory_def on_disk_def thenS_def)
    then show ?thesis using attempt_keeps[OF a] unfolding quiet_def by blast
  next
    case (Inr u)
    then have "j1 = j\<lparr>jn_disk := d0, jn_pending := (jn_pending j)\<lparr>pd_directory_flush := False\<rparr>\<rparr>"
      using assms True a by (auto simp: flush_directory_def on_disk_def thenS_def)
    then show ?thesis using attempt_keeps[OF a] unfolding quiet_def by blast
  qed
qed (use assms in \<open>simp add: quiet_refl\<close>)

lemma undo_pending_outcomes:
  assumes call: "undo_pending j = (r, j')"
  shows "memory_same j j' \<and> sound j' = sound j \<and> (sound j \<longrightarrow> quiet j j')"
proof -
  obtain r1 j1 where one: "(if pd_directory_flush (jn_pending j)
      then thenS (on_disk flush_directory) (\<lambda>_ j. (Inr (), j\<lparr>jn_pending := (jn_pending j)\<lparr>pd_directory_flush := False\<rparr>\<rparr>)) j
      else (Inr (), j)) = (r1, j1)" by fastforce
  note q = directory_flushed[OF one]
  have step: "(r, j') = (case r1 of Inl e \<Rightarrow> (Inl e, j1) | Inr _ \<Rightarrow>
      (if pd_cut_back_to (jn_pending j1) \<noteq> None \<or> pd_restore_slots (jn_pending j1) \<noteq> None
       then thenS (on_disk (undo_on_disk (pd_cut_back_to (jn_pending j1)) (pd_restore_slots (jn_pending j1)))) (\<lambda>_ j.
             (Inr (),
              j\<lparr>jn_durable_end := (case pd_cut_back_to (jn_pending j) of
                   Some offset \<Rightarrow> min (jn_durable_end j) offset | None \<Rightarrow> jn_durable_end j),
                jn_durable_slots := (case pd_restore_slots (jn_pending j) of
                   Some slots \<Rightarrow> slots | None \<Rightarrow> jn_durable_slots j)\<rparr>)) j1
       else (Inr (), j1)))"
    by (subst call[symmetric], subst undo_pending_def, subst thenS_def, subst one) simp
  show ?thesis
  proof (cases "(\<exists>e. r1 = Inl e) \<or> (pd_cut_back_to (jn_pending j1) = None \<and> pd_restore_slots (jn_pending j1) = None)")
    case True
    then have "(r, j') = (case r1 of Inl e \<Rightarrow> (Inl e, j1) | Inr _ \<Rightarrow> (Inr (), j1))"
      unfolding step by (cases r1) simp_all
    then have "j' = j1" by (cases r1) simp_all
    then show ?thesis using quiet_keeps(1,2)[OF q] q by simp
  next
    case False
    then have u: "\<not> sound j1" by (auto simp: sound_def)
    obtain r2 d2 where und: "undo_on_disk (pd_cut_back_to (jn_pending j1)) (pd_restore_slots (jn_pending j1)) (jn_disk j1) = (r2, d2)" by fastforce
    have "memory_same j1 j' \<and> jn_pending j' = jn_pending j1"
      using step False und by (cases r1; cases r2) (auto simp: on_disk_def thenS_def memory_same_def)
    then show ?thesis using u quiet_keeps(1,2)[OF q] memory_same_trans sound_same by blast
  qed
qed

subsection \<open>Loading the file of a sound journal\<close>

lemma run_image_inj:
  "run_image as = run_image bs \<Longrightarrow> \<forall>b\<in>set as. good_body m b \<Longrightarrow> \<forall>b\<in>set bs. good_body m b \<Longrightarrow> as = bs"
proof (induction as arbitrary: bs)
  case Nil
  then have "length (run_image bs) = 0" by simp
  then show ?case by (cases bs) (simp_all del: length_0_conv length_greater_0_conv)
next
  case (Cons a as)
  then have "length (run_image bs) \<noteq> 0" by (metis add_is_0 length_append length_record_image run_image_simps(2) zero_neq_numeral)
  then obtain b cs where bs: "bs = b # cs" by (cases bs) simp_all
  have eq: "record_image a @ run_image as = record_image b @ run_image cs" using Cons.prems(1) bs by simp
  have "a = b \<and> run_image as = run_image cs" using record_image_inj[OF eq] Cons.prems(2,3) bs by (simp add: good_body_def)
  then show ?case using Cons bs by simp
qed

lemma load_quiet:
  assumes call: "load_journal config rule d = (r, d')" and path: "dk_path d = journal_of prefix bodies"
    and f: "length prefix = DATA_START" "open_prefix prefix = Inr (h, images, active, slot)"
      "\<forall>b\<in>set bodies. good_body (max_body_of config) b \<and> (\<exists>x. decode_body b = Inr x)"
      "unat (cs_durable_end slot) \<le> length (journal_of prefix bodies)" "length (journal_of prefix bodies) \<le> usize_max"
  shows "dk_path d' = dk_path d \<and> dk_detached d' = dk_detached d"
proof -
  have room: "0 + length (run_image bodies) \<le> usize_max" using f(5) by (simp add: journal_of_def)
  from replay_run[OF record_replay_new_inv this f(3), of DATA_START] obtain p where
    p: "replay_all replay_record DATA_START bodies replay_new = Some p" by blast
  have good: "\<forall>b\<in>set bodies. good_body (max_body_of config) b" and torn: "torn_tail (max_body_of config) []"
    using f(3) by (auto simp: torn_tail_def)
  have small: "length (journal_of prefix bodies @ []) \<le> usize_max" using f(5) by simp
  have scan: "scan_journal (dk_path d) (length (dk_path d)) (max_body_of config) rule
      = scan_finish rule h images active slot (length (journal_of prefix bodies), None, p)"
    using scan_journal_of[OF f(1,2) good torn f(4) small p] by (simp add: path torn_cut_def)
  obtain r1 d1 where a1: "attempt d = (r1, d1)" by fastforce
  obtain r2 d2 where a2: "attempt d1 = (r2, d2)" by fastforce
  obtain r3 d3 where a3: "attempt d2 = (r3, d3)" by fastforce
  obtain r4 d4 where a4: "attempt d3 = (r4, d4)" by fastforce
  note k = attempt_keeps[OF a1] attempt_keeps[OF a2] attempt_keeps[OF a3] attempt_keeps[OF a4]
  note defs = load_journal_def open_journal_file_def thenS_def liftS_def
  show ?thesis
  proof (cases "r1 = Inr () \<and> r2 = Inr () \<and> r3 = Inr () \<and> r4 = Inr ()")
    case False
    then show ?thesis using call a1 a2 a3 a4 k by (cases r1; cases r2; cases r3; cases r4) (auto simp: defs)
  next
    case True
    have scan4: "scan_journal (dk_path d4) (length (dk_path d4)) (max_body_of config) rule
        = scan_finish rule h images active slot (length (journal_of prefix bodies), None, p)" using scan k by simp
    have len: "length (dk_path d4) \<le> usize_max" using f(5) k path by simp
    show ?thesis
    proof (cases "scan_finish rule h images active slot (length (journal_of prefix bodies), None, p)")
      case (Inl e)
      then show ?thesis using call True a1 a2 a3 a4 k scan4 len by (simp add: defs)
    next
      case (Inr s)
      then have "sn_truncation s = None" "\<not> sn_slots_stale s"
        using scan_finish_parts(7)[OF Inr] scan_finish_generation(3)[OF Inr] f(4) by simp_all
      then show ?thesis using call True a1 a2 a3 a4 k scan4 len Inr by (simp add: defs)
    qed
  qed
qed

subsection \<open>The refresh\<close>

lemma journal_reload_eq:
  "journal_reload = thenS undo_pending (\<lambda>_ j.
     thenS (on_disk (load_journal (jn_config j) (damage_rule_of (fc_sync_policy (jn_config j))))) reload_tail j)"
  by (simp add: journal_reload_def reload_tail_def[abs_def])

text \<open>What a sound journal's file is scanned to.\<close>

lemma reloaded_view:
  assumes inv: "on_file j prefix1 bodies1 h1 slot1" "indexed j bodies1" "counters_on_file j bodies1 h1 slot1" "getters_agree j"
    and l: "loaded (jn_config j) (dk_path (jn_disk j)) s prefix bodies slot"
  shows "scan_view s bodies = (journal_view j)\<lparr>vw_reset_owed := sn_reset_owed s\<rparr> \<and> (sn_reset_owed s \<longrightarrow> vw_reset_owed (journal_view j))"
proof -
  note lo = l[unfolded loaded_def]
  have path: "journal_of prefix bodies = journal_of prefix1 bodies1" using lo inv(1) unfolding on_file_def by simp
  have lens: "length prefix = DATA_START" "length prefix1 = DATA_START" using lo inv(1) unfolding on_file_def by blast+
  then have p: "prefix = prefix1" "run_image bodies = run_image bodies1" using path by (simp_all add: journal_of_def)
  have b: "bodies = bodies1"
    using run_image_inj[OF p(2), of "max_body_of (jn_config j)"] lo inv(1) unfolding on_file_def by simp
  have "slot = slot1" using lo inv(1) p(1) unfolding on_file_def by simp
  then show ?thesis using view_backed[OF inv(1,2,4)] inv(3) lo b by (auto simp: scan_view_def counters_on_file_def)
qed

lemma reload_ok:
  assumes call: "journal_reload j = (r, j')" and ok: "journal_ok j"
  shows "journal_ok j' \<and> (r = Inr () \<longrightarrow> sound j')
    \<and> (sound j \<longrightarrow> sound j' \<longrightarrow> (\<exists>b. (b \<longrightarrow> vw_reset_owed (journal_view j)) \<and> journal_view j' = (journal_view j)\<lparr>vw_reset_owed := b\<rparr>))"
proof -
  obtain r1 j1 where u: "undo_pending j = (r1, j1)" by fastforce
  have m1: "memory_same j j1" "sound j1 = sound j" and q1: "sound j \<Longrightarrow> quiet j j1"
    using undo_pending_outcomes[OF u] by blast+
  have base: "fc_sync_policy (jn_config j1) \<noteq> EveryN 0" using ok m1(1) by (simp add: journal_ok_def memory_same_def)
  have ok1: "journal_ok j1" using quiet_keeps(7)[OF q1 ok] ok_unsound[OF _ m1(1) ok] m1(2) by blast
  have same: "\<exists>b. (b \<longrightarrow> vw_reset_owed (journal_view j)) \<and> journal_view j = (journal_view j)\<lparr>vw_reset_owed := b\<rparr>"
    by (intro exI[of _ "vw_reset_owed (journal_view j)"]) simp
  show ?thesis
  proof (cases r1)
    case (Inl e)
    then have "r = Inl e" "j' = j1" using call u by (simp_all add: journal_reload_eq thenS_def)
    then show ?thesis using ok1 same quiet_keeps(7)[OF q1 ok] by auto
  next
    case r1: (Inr v)
    obtain r2 d2 where ld: "load_journal (jn_config j1) (damage_rule_of (fc_sync_policy (jn_config j1))) (jn_disk j1) = (r2, d2)" by fastforce
    let ?j2 = "j1\<lparr>jn_disk := d2\<rparr>"
    have quiet2: "quiet j1 ?j2" if s: "sound j1"
    proof -
      obtain prefix bodies h slot where "on_file j1 prefix bodies h slot" using ok_backed[OF ok1 s] .
      then have "dk_path d2 = dk_path (jn_disk j1) \<and> dk_detached d2 = dk_detached (jn_disk j1)"
        unfolding on_file_def by (elim conjE) (rule load_quiet[OF ld], simp_all)
      then show ?thesis unfolding quiet_def by (intro exI[of _ d2] exI[of _ "jn_pending j1"]) simp
    qed
    show ?thesis
    proof (cases r2)
      case (Inl e)
      then have rj: "r = Inl e" "j' = ?j2" using call u r1 ld by (simp_all add: journal_reload_eq thenS_def on_disk_def)
      show ?thesis
      proof (cases "sound j1")
        case True
        then show ?thesis using quiet_keeps(7)[OF quiet2[OF True] ok1 True] quiet_keeps(7)[OF q1 ok] m1(2) same rj by auto
      next
        case False
        then have "\<not> sound ?j2" using sound_same[of ?j2 j1] by simp
        from ok_unsound[OF this _ ok1] have "journal_ok ?j2" by (simp add: memory_same_def)
        then show ?thesis using False m1(2) rj by simp
      qed
    next
      case r2: (Inr s)
      then have tail: "reload_tail s ?j2 = (r, j')" using call u r1 ld by (simp add: journal_reload_eq thenS_def on_disk_def)
      from load_loaded[OF ld[unfolded r2]] obtain prefix bodies slot where
        l: "loaded (jn_config ?j2) (dk_path (jn_disk ?j2)) s prefix bodies slot" "vouched s slot" by auto
      have t: "journal_ok j' \<and> (r = Inr () \<longrightarrow> sound j' \<and> journal_view j' = scan_view s bodies)"
        by (rule reload_tail_ok[OF tail l]) (simp add: base)
      have view: "journal_view j' = scan_view s bodies \<Longrightarrow> sound j \<Longrightarrow>
          \<exists>b. (b \<longrightarrow> vw_reset_owed (journal_view j)) \<and> journal_view j' = (journal_view j)\<lparr>vw_reset_owed := b\<rparr>"
      proof -
        assume jv: "journal_view j' = scan_view s bodies" and sj: "sound j"
        then have s1: "sound j1" using m1(2) by simp
        obtain prefix1 bodies1 h1 slot1 where inv: "on_file j1 prefix1 bodies1 h1 slot1" "indexed j1 bodies1"
          "counters_on_file j1 bodies1 h1 slot1" "getters_agree j1" using ok_backed[OF ok1 s1] .
        have "loaded (jn_config j1) (dk_path (jn_disk j1)) s prefix bodies slot"
          using l(1) quiet_keeps(4)[OF quiet2[OF s1]] by simp
        from reloaded_view[OF inv this] show ?thesis using jv quiet_keeps(7)[OF q1[OF sj] ok sj]
          by (intro exI[of _ "sn_reset_owed s"]) simp
      qed
      have "r \<noteq> Inr () \<Longrightarrow> \<not> sound j'"
      proof -
        assume "r \<noteq> Inr ()"
        then have "\<exists>k. journal_flush k = (r, j')" using tail by (auto simp: reload_tail_def Let_def split: if_splits)
        then show ?thesis using flush_outcomes(3) \<open>r \<noteq> Inr ()\<close> by blast
      qed
      then show ?thesis using t view by blast
    qed
  qed
qed

end
