(* ===== verification/Store_Journal_Owed.thy ===== *)
theory Store_Journal_Owed
  imports Store_Journal_Reload
begin

text \<open>
  The owed-reset marker.  It is written to both slots; a failure half way leaves the marker set in
  memory whenever either slot may carry it, so that a reset that is owed is never forgotten.
\<close>

lemma stamp_outcomes:
  assumes call: "stamp_slot j = (r, j')" and on: "on_file j prefix bodies h slot" and s: "sound j" and ix: "indexed j bodies"
    and ct: "jn_creation_time j = jh_creation_time h"
    and sh: "sh_next_sender (jn_shared j) = jn_next_sender j" "sh_next_target (jn_shared j) = jn_next_target j"
  shows "memory_same j j' \<and> (r \<noteq> Inr () \<longrightarrow> sound j' \<longrightarrow> on_file j' prefix bodies h slot)
    \<and> (r = Inr () \<longrightarrow> sound j' \<and> (\<exists>prefix' slot'. on_file j' prefix' bodies h slot' \<and> counters_on_file j' bodies h slot'
          \<and> cs_reset_owed slot' = jn_reset_owed j))"
proof -
  obtain r1 j1 where wc: "write_counters (jn_next_sender j) (jn_next_target j) j = (r1, j1)" by fastforce
  note wo = write_counters_outcomes[OF wc on s]
  show ?thesis
  proof (cases r1)
    case (Inl e)
    then have "r = Inl e" "j' = j1" using call wc by (simp_all add: stamp_slot_def thenS_def)
    then show ?thesis using wo Inl by auto
  next
    case (Inr u)
    then have w: "write_counters (jn_next_sender j) (jn_next_target j) j = (Inr (), j1)" using wc by simp
    from write_counters_backed[OF w on s ix ct] obtain prefix' slot' where
      new: "sound j1" "counters_set j (jn_next_sender j) (jn_next_target j) j1" "on_file j1 prefix' bodies h slot'"
        "counters_on_file j1 bodies h slot'" "cs_reset_owed slot' = jn_reset_owed j" by blast
    have m1: "memory_same j j1" using new(2) sh by (simp add: counters_set_def memory_same_def)
    show ?thesis
    proof (cases "jn_durable_slot j1 = jn_active_slot j1")
      case True
      then have "r = Inr ()" "j' = j1" using call wc Inr by (simp_all add: stamp_slot_def thenS_def)
      then show ?thesis using new m1 by auto
    next
      case False
      then have f: "journal_flush j1 = (r, j')" using call wc Inr by (simp add: stamp_slot_def thenS_def)
      note fo = flush_outcomes(1,3)[OF f] flush_outcomes(2)[OF f, of prefix' bodies h slot']
      have "on_file (j1\<lparr>jn_unsynced := 0\<rparr>) prefix' bodies h slot'"
        using on_file_unsynced[OF new(3)] synced_reset[OF on_file_synced[OF new(3)]] by simp
      then have "r = Inr () \<Longrightarrow> sound j' \<and> on_file j' prefix' bodies h slot' \<and> counters_on_file j' bodies h slot'"
        using fo(3) new(1,4) memory_same_keeps(3)[OF fo(1)] by (auto simp: sound_def)
      then show ?thesis using fo(2) new(5) memory_same_trans[OF m1 fo(1)] by blast
    qed
  qed
qed

lemma owed_marked:
  assumes on: "on_file j1 prefix bodies h slot" "indexed j1 bodies" "counters_on_file (j1\<lparr>jn_reset_owed := b\<rparr>) bodies h slot"
    and sh: "sh_next_sender (jn_shared j1) = jn_next_sender j1" "sh_next_target (jn_shared j1) = jn_next_target j1"
      "sh_app_watermark (jn_shared j1) = jn_app_watermark j1" "sh_creation_time (jn_shared j1) = jn_creation_time j1"
    and base: "fc_sync_policy (jn_config j1) \<noteq> EveryN 0"
    and j': "j' = j1\<lparr>jn_reset_owed := b, jn_shared := (jn_shared j1)\<lparr>sh_reset_owed := b\<rparr>\<rparr>"
  shows "journal_ok j' \<and> journal_view j' = \<lparr>vw_messages = stored_in bodies, vw_next_sender = jn_next_sender j1,
     vw_next_target = jn_next_target j1, vw_reset_owed = b, vw_app_watermark = jn_app_watermark j1\<rparr>"
proof -
  have on': "on_file j' prefix bodies h slot" by (rule on_file_fields[OF on(1)]) (simp_all add: j')
  moreover have ix': "indexed j' bodies" using on(2) by (simp add: indexed_def j')
  moreover have "counters_on_file j' bodies h slot" using on(3) by (simp add: counters_on_file_def j')
  moreover have g: "getters_agree j'" using sh by (simp add: getters_agree_def j')
  ultimately have "journal_ok j'" using base by (intro ok_intro) (simp_all add: j')
  then show ?thesis using view_backed[OF on' ix' g] by (simp add: j')
qed

text \<open>The two stamps and what follows them, from a sound journal.\<close>

definition owed_stamps :: "bool \<Rightarrow> unit journal_call" where
  "owed_stamps owed j =
    (case thenS stamp_slot (\<lambda>_. stamp_slot) (j\<lparr>jn_reset_owed := owed\<rparr>) of
       (Inl e, j1) \<Rightarrow> (Inl e, j1\<lparr>jn_reset_owed := (jn_reset_owed j \<or> owed),
                   jn_shared := (jn_shared j1)\<lparr>sh_reset_owed := (jn_reset_owed j \<or> owed)\<rparr>\<rparr>)
     | (Inr _, j1) \<Rightarrow> (Inr (), j1\<lparr>jn_shared := (jn_shared j1)\<lparr>sh_reset_owed := owed\<rparr>\<rparr>))"

lemma owed_stamps_ok:
  assumes call: "owed_stamps owed j = (r, j')" and ok: "journal_ok j" and s: "sound j"
  shows "journal_ok j' \<and> (r = Inr () \<longrightarrow> sound j' \<and> journal_view j' = (journal_view j)\<lparr>vw_reset_owed := owed\<rparr>)
    \<and> (r \<noteq> Inr () \<longrightarrow> sound j' \<longrightarrow> journal_view j' = (journal_view j)\<lparr>vw_reset_owed := jn_reset_owed j \<or> owed\<rparr>)"
proof -
  obtain prefix bodies h slot where inv: "on_file j prefix bodies h slot" "indexed j bodies" "counters_on_file j bodies h slot"
    "getters_agree j" "sh_reset_owed (jn_shared j) = jn_reset_owed j" "fc_sync_policy (jn_config j) \<noteq> EveryN 0"
    using ok_backed[OF ok s] .
  let ?j0 = "j\<lparr>jn_reset_owed := owed\<rparr>"
  have on0: "on_file ?j0 prefix bodies h slot" by (rule on_file_fields[OF inv(1)]) simp_all
  have s0: "sound ?j0" using s by (simp add: sound_def)
  have ix0: "indexed ?j0 bodies" using inv(2) by (simp add: indexed_def)
  have ct: "jn_creation_time ?j0 = jh_creation_time h" using inv(3) by (simp add: counters_on_file_def)
  have sh0: "sh_next_sender (jn_shared ?j0) = jn_next_sender ?j0" "sh_next_target (jn_shared ?j0) = jn_next_target ?j0"
    using inv(4) by (simp_all add: getters_agree_def)
  obtain r1 j1 where st1: "stamp_slot ?j0 = (r1, j1)" by fastforce
  note o1 = stamp_outcomes[OF st1 on0 s0 ix0 ct sh0]
  have m1: "memory_same ?j0 j1" using o1 by blast
  have mem: "indexed j2 bodies" "sh_next_sender (jn_shared j2) = jn_next_sender j2" "sh_next_target (jn_shared j2) = jn_next_target j2"
      "sh_app_watermark (jn_shared j2) = jn_app_watermark j2" "sh_creation_time (jn_shared j2) = jn_creation_time j2"
      "fc_sync_policy (jn_config j2) \<noteq> EveryN 0" "jn_creation_time j2 = jh_creation_time h"
      "counters_on_file j bodies h slot' \<Longrightarrow> counters_on_file (j2\<lparr>jn_reset_owed := jn_reset_owed j \<or> owed\<rparr>) bodies h slot'"
      "counters_on_file j2 bodies h slot' \<Longrightarrow> counters_on_file (j2\<lparr>jn_reset_owed := jn_reset_owed j \<or> owed\<rparr>) bodies h slot'"
    if "memory_same ?j0 j2" for j2 slot'
    using that inv ct by (simp_all add: memory_same_def getters_agree_def indexed_def counters_on_file_def)
  have failed: "journal_ok j3 \<and> (sound j3 \<longrightarrow> journal_view j3 = (journal_view j)\<lparr>vw_reset_owed := jn_reset_owed j \<or> owed\<rparr>)"
    if j3: "j3 = j2\<lparr>jn_reset_owed := (jn_reset_owed j \<or> owed),
                   jn_shared := (jn_shared j2)\<lparr>sh_reset_owed := (jn_reset_owed j \<or> owed)\<rparr>\<rparr>"
    and m: "memory_same ?j0 j2" and f: "sound j2 \<Longrightarrow> \<exists>prefix' slot'. on_file j2 prefix' bodies h slot'
        \<and> (counters_on_file j bodies h slot' \<or> counters_on_file j2 bodies h slot')" for j2 j3
  proof (cases "sound j2")
    case True
    from f[OF this] obtain prefix' slot' where "on_file j2 prefix' bodies h slot'"
      "counters_on_file (j2\<lparr>jn_reset_owed := jn_reset_owed j \<or> owed\<rparr>) bodies h slot'" using mem(8,9)[OF m] by blast
    from owed_marked[OF this(1) mem(1)[OF m] this(2) mem(2-6)[OF m] j3] show ?thesis
      using view_backed[OF inv(1,2,4)] m by (simp add: memory_same_def)
  next
    case False
    then have "\<not> sound j3" by (simp add: sound_def j3)
    moreover have "sh_reset_owed (jn_shared j3) = jn_reset_owed j3" "fc_sync_policy (jn_config j3) \<noteq> EveryN 0"
      using mem(6)[OF m] by (simp_all add: j3)
    ultimately show ?thesis by (simp add: journal_ok_def)
  qed
  show ?thesis
  proof (cases r1)
    case (Inl e)
    then have "r = Inl e" "j' = j1\<lparr>jn_reset_owed := (jn_reset_owed j \<or> owed),
                   jn_shared := (jn_shared j1)\<lparr>sh_reset_owed := (jn_reset_owed j \<or> owed)\<rparr>\<rparr>"
      using call st1 by (simp_all add: owed_stamps_def thenS_def)
    then show ?thesis using failed[OF _ m1] o1 Inl inv(3) by blast
  next
    case (Inr u)
    then obtain prefix1 slot1 where one: "sound j1" "on_file j1 prefix1 bodies h slot1" "counters_on_file j1 bodies h slot1"
      using o1 by auto
    obtain r2 j2 where st2: "stamp_slot j1 = (r2, j2)" by fastforce
    note o2 = stamp_outcomes[OF st2 one(2,1) mem(1)[OF m1] mem(7)[OF m1] mem(2,3)[OF m1]]
    have m2: "memory_same ?j0 j2" using memory_same_trans[OF m1] o2 by blast
    show ?thesis
    proof (cases r2)
      case (Inl e)
      then have "r = Inl e" "j' = j2\<lparr>jn_reset_owed := (jn_reset_owed j \<or> owed),
                   jn_shared := (jn_shared j2)\<lparr>sh_reset_owed := (jn_reset_owed j \<or> owed)\<rparr>\<rparr>"
        using call st1 Inr st2 by (simp_all add: owed_stamps_def thenS_def)
      moreover have "counters_on_file j2 bodies h slot1" using one(3) memory_same_keeps(3) o2 by blast
      ultimately show ?thesis using failed[OF _ m2] o2 Inl by blast
    next
      case r2: (Inr v)
      then obtain prefix2 slot2 where two: "sound j2" "on_file j2 prefix2 bodies h slot2" "counters_on_file j2 bodies h slot2"
        using o2 by auto
      have rj: "r = Inr ()" "j' = j2\<lparr>jn_shared := (jn_shared j2)\<lparr>sh_reset_owed := owed\<rparr>\<rparr>"
        using call st1 Inr st2 r2 by (simp_all add: owed_stamps_def thenS_def)
      have ow: "jn_reset_owed j2 = owed" using m2 by (simp add: memory_same_def)
      then have eq: "j2\<lparr>jn_reset_owed := owed\<rparr> = j2" by simp
      have "j' = j2\<lparr>jn_reset_owed := owed, jn_shared := (jn_shared j2)\<lparr>sh_reset_owed := owed\<rparr>\<rparr>" unfolding rj(2) eq ..
      from owed_marked[OF two(2) mem(1)[OF m2] _ mem(2-6)[OF m2] this] two(3) eq
      have "journal_ok j'" "journal_view j' = \<lparr>vw_messages = stored_in bodies, vw_next_sender = jn_next_sender j2,
         vw_next_target = jn_next_target j2, vw_reset_owed = owed, vw_app_watermark = jn_app_watermark j2\<rparr>" by simp_all
      moreover have "sound j'" using two(1) by (simp add: rj(2) sound_def)
      ultimately show ?thesis using view_backed[OF inv(1,2,4)] m2 rj(1) by (simp add: memory_same_def)
    qed
  qed
qed

lemma set_reset_owed_eq:
  "set_reset_owed owed =
    thenS (\<lambda>j. if \<not> is_clear (jn_pending j) then journal_reload j else (Inr (), j)) (\<lambda>_ j.
      if (carries owed (fst (jn_slots j)) \<and> carries owed (snd (jn_slots j))) \<and> jn_reset_owed j = owed
      then (Inr (), j\<lparr>jn_shared := (jn_shared j)\<lparr>sh_reset_owed := owed\<rparr>\<rparr>)
      else owed_stamps owed j)"
  unfolding set_reset_owed_def owed_stamps_def Let_def by (rule refl)

lemma set_reset_owed_ok:
  assumes call: "set_reset_owed owed j = (r, j')" and ok: "journal_ok j"
  shows "journal_ok j' \<and> (r = Inr () \<longrightarrow> sound j' \<and> vw_reset_owed (journal_view j') = owed
      \<and> (sound j \<longrightarrow> journal_view j' = (journal_view j)\<lparr>vw_reset_owed := owed\<rparr>))
    \<and> (r \<noteq> Inr () \<longrightarrow> sound j \<longrightarrow> sound j' \<longrightarrow> (\<exists>b. journal_view j' = (journal_view j)\<lparr>vw_reset_owed := b\<rparr>))"
proof -
  obtain r1 j1 where one: "(if \<not> is_clear (jn_pending j) then journal_reload j else (Inr (), j)) = (r1, j1)" by fastforce
  have o1: "journal_ok j1 \<and> (r1 = Inr () \<longrightarrow> sound j1) \<and> (sound j \<longrightarrow> sound j1 \<longrightarrow>
      (\<exists>b. journal_view j1 = (journal_view j)\<lparr>vw_reset_owed := b\<rparr>))"
  proof (cases "is_clear (jn_pending j)")
    case True
    then have "r1 = Inr ()" "j1 = j" using one by simp_all
    moreover have "journal_view j = (journal_view j)\<lparr>vw_reset_owed := vw_reset_owed (journal_view j)\<rparr>" by simp
    ultimately show ?thesis using ok clear_sound[OF True] by metis
  next
    case False
    then have "journal_reload j = (r1, j1)" using one by simp
    from reload_ok[OF this ok] show ?thesis by blast
  qed
  have step: "set_reset_owed owed j = (case r1 of Inl e \<Rightarrow> (Inl e, j1) | Inr _ \<Rightarrow>
      if (carries owed (fst (jn_slots j1)) \<and> carries owed (snd (jn_slots j1))) \<and> jn_reset_owed j1 = owed
      then (Inr (), j1\<lparr>jn_shared := (jn_shared j1)\<lparr>sh_reset_owed := owed\<rparr>\<rparr>) else owed_stamps owed j1)"
    by (subst set_reset_owed_eq, subst thenS_def, subst one) simp
  show ?thesis
  proof (cases r1)
    case (Inl e)
    then have "r = Inl e" "j' = j1" using call step by simp_all
    then show ?thesis using o1 by simp
  next
    case (Inr u)
    then have s1: "sound j1" and ok1: "journal_ok j1" using o1 by simp_all
    show ?thesis
    proof (cases "(carries owed (fst (jn_slots j1)) \<and> carries owed (snd (jn_slots j1))) \<and> jn_reset_owed j1 = owed")
      case True
      have sh: "sh_reset_owed (jn_shared j1) = owed" using ok1 True by (simp add: journal_ok_def)
      then have same: "(jn_shared j1)\<lparr>sh_reset_owed := owed\<rparr> = jn_shared j1" by simp
      then have "r = Inr ()" "j' = j1" using call step Inr True by simp_all
      moreover have "vw_reset_owed (journal_view j1) = owed" using sh by (simp add: journal_view_def)
      moreover have "sound j \<Longrightarrow> journal_view j1 = (journal_view j)\<lparr>vw_reset_owed := owed\<rparr>"
      proof -
        assume "sound j"
        then obtain b where b: "journal_view j1 = (journal_view j)\<lparr>vw_reset_owed := b\<rparr>" using o1 s1 by blast
        then have "b = owed" using calculation(3) by simp
        then show ?thesis using b by simp
      qed
      ultimately show ?thesis using ok1 s1 by simp
    next
      case False
      then have "set_reset_owed owed j = owed_stamps owed j1" unfolding step Inr sum.case by (rule if_not_P)
      then have "owed_stamps owed j1 = (r, j')" using call by simp
      note os = owed_stamps_ok[OF this ok1 s1]
      have at1: "\<exists>b. journal_view j1 = (journal_view j)\<lparr>vw_reset_owed := b\<rparr>" if "sound j" using o1 s1 that by blast
      have "journal_view j' = (journal_view j)\<lparr>vw_reset_owed := owed\<rparr>" if "r = Inr ()" "sound j"
        using at1[OF that(2)] os that(1) by auto
      moreover have "\<exists>b. journal_view j' = (journal_view j)\<lparr>vw_reset_owed := b\<rparr>" if "r \<noteq> Inr ()" "sound j" "sound j'"
        using at1[OF that(2)] os that(1,3) by auto
      ultimately show ?thesis using os by auto
    qed
  qed
qed


text \<open>
  Every command on a journal, every run of commands, and the journal as a message store.
\<close>

subsection \<open>Commands\<close>

text \<open>The records a store encodes before it sends a command.\<close>

definition encoded :: "file_store_config \<Rightarrow> u64 \<Rightarrow> u64 option \<Rightarrow> bytes \<Rightarrow> msg_type \<Rightarrow> bytes \<Rightarrow> bool" where
  "encoded c seq nxt record_bytes ty frame \<longleftrightarrow> made_type ty
     \<and> encode_frame_record_into seq nxt ty frame (fc_max_frame_size c) [] = (Inr (), record_bytes)"

fun legal :: "file_store_config \<Rightarrow> store_command \<Rightarrow> bool" where
  "legal c (CmdStore seq bs) \<longleftrightarrow> (\<exists>ty frame. encoded c seq None bs ty frame)"
| "legal c (CmdFileOutbound seq bs n) \<longleftrightarrow> (\<exists>ty frame. encoded c seq (Some n) bs ty frame)"
| "legal c _ \<longleftrightarrow> True"

text \<open>What a command that succeeds does to what is stored, and what one that fails may do.\<close>

definition emptied :: "u64 \<Rightarrow> u64 \<Rightarrow> store_view \<Rightarrow> store_view" where
  "emptied n k v = v\<lparr>vw_messages := Map.empty, vw_next_sender := n, vw_next_target := k, vw_app_watermark := 0\<rparr>"

fun answered :: "file_store_config \<Rightarrow> store_command \<Rightarrow> store_answer \<Rightarrow> store_view \<Rightarrow> store_view \<Rightarrow> bool" where
  "answered cfg (CmdStore seq bs) a v v' \<longleftrightarrow> a = AnswerDone
     \<and> (\<exists>ty frame. encoded cfg seq None bs ty frame \<and> v' = v\<lparr>vw_messages := (vw_messages v)(seq \<mapsto> (ty, frame))\<rparr>)"
| "answered cfg (CmdFileOutbound seq bs n) a v v' \<longleftrightarrow> a = AnswerDone
     \<and> (\<exists>ty frame. encoded cfg seq (Some n) bs ty frame
          \<and> v' = v\<lparr>vw_messages := (vw_messages v)(seq \<mapsto> (ty, frame)), vw_next_sender := n\<rparr>)"
| "answered cfg (CmdSetNextSender n) a v v' \<longleftrightarrow> a = AnswerDone \<and> v' = v\<lparr>vw_next_sender := n\<rparr>"
| "answered cfg (CmdSetNextTarget n) a v v' \<longleftrightarrow> a = AnswerDone \<and> v' = v\<lparr>vw_next_target := n\<rparr>"
| "answered cfg (CmdSetResetOwed b) a v v' \<longleftrightarrow> a = AnswerDone \<and> v' = v\<lparr>vw_reset_owed := b\<rparr>"
| "answered cfg (CmdSetAppWatermark w) a v v' \<longleftrightarrow> a = AnswerDone \<and> v' = v\<lparr>vw_app_watermark := w\<rparr>"
| "answered cfg (CmdResetTo n k) a v v' \<longleftrightarrow> a = AnswerDone \<and> v' = emptied n k v"
| "answered cfg (CmdRead lo hi limit) a v v' \<longleftrightarrow> v' = v \<and> (\<exists>ms. a = AnswerPage ms \<and> page_of (vw_messages v) lo hi limit ms)"
| "answered cfg CmdRefresh a v v' \<longleftrightarrow> a = AnswerDone \<and> (\<exists>b. (b \<longrightarrow> vw_reset_owed v) \<and> v' = v\<lparr>vw_reset_owed := b\<rparr>)"
| "answered cfg CmdSync a v v' \<longleftrightarrow> a = AnswerDone \<and> v' = v"
| "answered cfg CmdCompact a v v' \<longleftrightarrow> (\<exists>n. a = AnswerReclaimed n) \<and> v' = v"
| "answered cfg CmdClose a v v' \<longleftrightarrow> a = AnswerDone \<and> v' = v"

fun refused :: "store_command \<Rightarrow> store_view \<Rightarrow> store_view \<Rightarrow> bool" where
  "refused (CmdResetTo n k) v v' \<longleftrightarrow> v' = v \<or> v' = emptied n k v"
| "refused (CmdSetResetOwed b) v v' \<longleftrightarrow> (\<exists>b. v' = v\<lparr>vw_reset_owed := b\<rparr>)"
| "refused CmdRefresh v v' \<longleftrightarrow> (\<exists>b. (b \<longrightarrow> vw_reset_owed v) \<and> v' = v\<lparr>vw_reset_owed := b\<rparr>)"
| "refused _ v v' \<longleftrightarrow> v' = v"

lemma append_command:
  assumes call: "when_usable (done_after (append_frame seq bs nxt)) j = (r, j')" and ok: "journal_ok j"
    and enc: "encode_frame_record_into seq nxt ty frame (fc_max_frame_size (jn_config j)) [] = (Inr (), bs)" "made_type ty"
  shows "journal_ok j' \<and> (\<forall>a. r = Inr a \<longrightarrow> a = AnswerDone \<and> sound j \<and> sound j' \<and> journal_view j' = (journal_view j)\<lparr>
      vw_messages := (vw_messages (journal_view j))(seq \<mapsto> (ty, frame)),
      vw_next_sender := (case nxt of Some n \<Rightarrow> n | None \<Rightarrow> vw_next_sender (journal_view j))\<rparr>)
    \<and> (\<forall>e. r = Inl e \<longrightarrow> sound j \<longrightarrow> sound j' \<longrightarrow> journal_view j' = journal_view j)"
proof (cases "is_clear (jn_pending j)")
  case False
  then show ?thesis using call ok by (auto simp: when_usable_eq)
next
  case True
  then have s: "sound j" by (rule clear_sound)
  obtain r1 j1 where a: "append_frame seq bs nxt j = (r1, j1)" by fastforce
  note ao = append_frame_outcomes[OF a s ok enc]
  have "done_after (append_frame seq bs nxt) j = (r, j')" using call True by (simp add: when_usable_eq)
  then have "j' = j1 \<and> (\<forall>x. r = Inr x \<longrightarrow> x = AnswerDone \<and> r1 = Inr ()) \<and> (\<forall>e. r = Inl e \<longrightarrow> r1 = Inl e)"
    using a by (cases r) (auto simp: done_after_Inr done_after_Inl)
  then show ?thesis using ao s by auto
qed

lemma unit_command:
  assumes "done_after m j = (r, j')"
  obtains r1 where "m j = (r1, j')" "case r of Inr a \<Rightarrow> a = AnswerDone \<and> r1 = Inr () | Inl e \<Rightarrow> r1 = Inl e"
  using assms by (cases r) (auto simp: done_after_Inr done_after_Inl)

lemma usable_unit:
  assumes call: "when_usable (done_after m) j = (r, j')" and ok: "journal_ok j"
    and m: "\<And>r1. m j = (r1, j') \<Longrightarrow> sound j \<Longrightarrow> journal_ok j' \<and> (r1 = Inr () \<longrightarrow> sound j' \<and> journal_view j' = f (journal_view j))
      \<and> (r1 \<noteq> Inr () \<longrightarrow> sound j' \<longrightarrow> journal_view j' = journal_view j)"
  shows "journal_ok j' \<and> (\<forall>a. r = Inr a \<longrightarrow> a = AnswerDone \<and> sound j' \<and> journal_view j' = f (journal_view j))
    \<and> (\<forall>e. r = Inl e \<longrightarrow> sound j' \<longrightarrow> journal_view j' = journal_view j)"
proof (cases "is_clear (jn_pending j)")
  case False
  then show ?thesis using call ok by (auto simp: when_usable_eq)
next
  case True
  then have "done_after m j = (r, j')" using call by (simp add: when_usable_eq)
  then obtain r1 where "m j = (r1, j')" "case r of Inr a \<Rightarrow> a = AnswerDone \<and> r1 = Inr () | Inl e \<Rightarrow> r1 = Inl e" by (rule unit_command)
  then show ?thesis using m[OF _ clear_sound[OF True]] by (cases r) simp_all
qed

lemma journal_run_ok:
  assumes call: "journal_run c j = (r, j')" and ok: "journal_ok j" and legal: "legal (jn_config j) c"
  shows "journal_ok j' \<and> (\<forall>a. r = Inr a \<longrightarrow> (c \<noteq> CmdClose \<longrightarrow> sound j')
      \<and> (sound j \<longrightarrow> answered (jn_config j) c a (journal_view j) (journal_view j')))
    \<and> (\<forall>e. r = Inl e \<longrightarrow> sound j \<longrightarrow> sound j' \<longrightarrow> refused c (journal_view j) (journal_view j'))"
proof (cases c)
  case (CmdStore seq bs)
  then obtain ty frame where enc: "encoded (jn_config j) seq None bs ty frame" using legal by auto
  have "when_usable (done_after (append_frame seq bs None)) j = (r, j')" using call by (simp add: CmdStore)
  from append_command[OF this ok, of ty frame] enc show ?thesis by (auto simp: CmdStore encoded_def)
next
  case (CmdFileOutbound seq bs n)
  then obtain ty frame where enc: "encoded (jn_config j) seq (Some n) bs ty frame" using legal by auto
  have "when_usable (done_after (append_frame seq bs (Some n))) j = (r, j')" using call by (simp add: CmdFileOutbound)
  from append_command[OF this ok, of ty frame] enc show ?thesis by (auto simp: CmdFileOutbound encoded_def)
next
  case (CmdSetNextSender n)
  have w: "when_usable (done_after (write_counters n (jn_next_target j))) j = (r, j')"
    using call by (simp add: CmdSetNextSender when_usable_eq)
  have "journal_ok j' \<and> (\<forall>a. r = Inr a \<longrightarrow> a = AnswerDone \<and> sound j' \<and> journal_view j'
      = (\<lambda>v. v\<lparr>vw_next_sender := n, vw_next_target := jn_next_target j\<rparr>) (journal_view j))
    \<and> (\<forall>e. r = Inl e \<longrightarrow> sound j' \<longrightarrow> journal_view j' = journal_view j)"
    by (rule usable_unit[OF w ok]) (use set_counters_ok[OF _ ok] in simp)
  moreover have "sound j \<Longrightarrow> jn_next_target j = vw_next_target (journal_view j)" using ok by (simp add: journal_ok_def getters_agree_def journal_view_def)
  ultimately show ?thesis by (auto simp: CmdSetNextSender)
next
  case (CmdSetNextTarget n)
  have w: "when_usable (done_after (write_counters (jn_next_sender j) n)) j = (r, j')"
    using call by (simp add: CmdSetNextTarget when_usable_eq)
  have "journal_ok j' \<and> (\<forall>a. r = Inr a \<longrightarrow> a = AnswerDone \<and> sound j' \<and> journal_view j'
      = (\<lambda>v. v\<lparr>vw_next_sender := jn_next_sender j, vw_next_target := n\<rparr>) (journal_view j))
    \<and> (\<forall>e. r = Inl e \<longrightarrow> sound j' \<longrightarrow> journal_view j' = journal_view j)"
    by (rule usable_unit[OF w ok]) (use set_counters_ok[OF _ ok] in simp)
  moreover have "sound j \<Longrightarrow> jn_next_sender j = vw_next_sender (journal_view j)" using ok by (simp add: journal_ok_def getters_agree_def journal_view_def)
  ultimately show ?thesis by (auto simp: CmdSetNextTarget)
next
  case (CmdSetResetOwed b)
  then have d: "done_after (set_reset_owed b) j = (r, j')" using call by simp
  from unit_command[OF d] obtain r1 where r1: "set_reset_owed b j = (r1, j')"
    "case r of Inr a \<Rightarrow> a = AnswerDone \<and> r1 = Inr () | Inl e \<Rightarrow> r1 = Inl e" .
  show ?thesis using set_reset_owed_ok[OF r1(1) ok] r1(2) by (cases r) (auto simp: CmdSetResetOwed)
next
  case (CmdSetAppWatermark w)
  then have d: "done_after (set_app_watermark w) j = (r, j')" using call by simp
  from unit_command[OF d] obtain r1 where r1: "set_app_watermark w j = (r1, j')"
    "case r of Inr a \<Rightarrow> a = AnswerDone \<and> r1 = Inr () | Inl e \<Rightarrow> r1 = Inl e" .
  show ?thesis using set_app_watermark_ok[OF r1(1) ok] r1(2) by (cases r) (auto simp: CmdSetAppWatermark)
next
  case (CmdResetTo n k)
  then have d: "done_after (replace_journal n k) j = (r, j')" using call by simp
  from unit_command[OF d] obtain r1 where r1: "replace_journal n k j = (r1, j')"
    "case r of Inr a \<Rightarrow> a = AnswerDone \<and> r1 = Inr () | Inl e \<Rightarrow> r1 = Inl e" .
  show ?thesis using replace_ok[OF r1(1) ok] r1(2) by (cases r) (auto simp: CmdResetTo emptied_def)
next
  case (CmdRead lo hi limit)
  show ?thesis
  proof (cases "is_clear (jn_pending j)")
    case False
    then show ?thesis using call ok by (auto simp: CmdRead when_usable_eq)
  next
    case True
    then have s: "sound j" by (rule clear_sound)
    obtain r1 j1 where rd: "journal_read lo hi limit j = (r1, j1)" by fastforce
    have rj: "j' = j1 \<and> (\<forall>a. r = Inr a \<longrightarrow> (\<exists>ms. r1 = Inr ms \<and> a = AnswerPage ms))"
      using call rd True by (cases r1) (auto simp: CmdRead when_usable_eq thenS_def liftS_def)
    show ?thesis using read_ok[OF rd ok s] rj by (auto simp: CmdRead)
  qed
next
  case CmdRefresh
  then have d: "done_after journal_reload j = (r, j')" using call by simp
  from unit_command[OF d] obtain r1 where r1: "journal_reload j = (r1, j')"
    "case r of Inr a \<Rightarrow> a = AnswerDone \<and> r1 = Inr () | Inl e \<Rightarrow> r1 = Inl e" .
  show ?thesis using reload_ok[OF r1(1) ok] r1(2) by (cases r) (auto simp: CmdRefresh)
next
  case CmdSync
  then have w: "when_usable (done_after journal_flush) j = (r, j')" using call by simp
  have "journal_ok j' \<and> (\<forall>a. r = Inr a \<longrightarrow> a = AnswerDone \<and> sound j' \<and> journal_view j' = (\<lambda>v. v) (journal_view j))
    \<and> (\<forall>e. r = Inl e \<longrightarrow> sound j' \<longrightarrow> journal_view j' = journal_view j)"
    by (rule usable_unit[OF w ok]) (use flush_ok[OF _ ok] in simp)
  then show ?thesis by (auto simp: CmdSync)
next
  case CmdCompact
  obtain r1 j1 where c: "journal_compact j = (r1, j1)" by fastforce
  have "j' = j1 \<and> (\<forall>a. r = Inr a \<longrightarrow> (\<exists>n. r1 = Inr n \<and> a = AnswerReclaimed n))"
    using call c by (cases r1) (auto simp: CmdCompact thenS_def liftS_def)
  then show ?thesis using compact_ok[OF c ok] by (auto simp: CmdCompact)
next
  case CmdClose
  show ?thesis
  proof (cases "0 < jn_unsynced j \<and> is_clear (jn_pending j)")
    case True
    then have "done_after journal_flush j = (r, j')" using call by (simp add: CmdClose)
    from unit_command[OF this] obtain r1 where r1: "journal_flush j = (r1, j')"
      "case r of Inr a \<Rightarrow> a = AnswerDone \<and> r1 = Inr () | Inl e \<Rightarrow> r1 = Inl e" .
    show ?thesis using flush_ok[OF r1(1) ok clear_sound] True r1(2) by (cases r) (auto simp: CmdClose)
  next
    case False
    then show ?thesis using call ok by (auto simp: CmdClose)
  qed
qed


text \<open>
  No call changes the configuration a journal was opened with, and an unusable journal refuses every
  call but the three that repair it and the one that closes it.
\<close>

subsection \<open>The configuration\<close>

definition steady :: "'a journal_call \<Rightarrow> bool" where
  "steady m \<longleftrightarrow> (\<forall>j. jn_config (snd (m j)) = jn_config j)"

lemma steadyD: "steady m \<Longrightarrow> m j = (r, j') \<Longrightarrow> jn_config j' = jn_config j"
  unfolding steady_def by (metis snd_conv)

lemma steadyI: "(\<And>j r j'. m j = (r, j') \<Longrightarrow> jn_config j' = jn_config j) \<Longrightarrow> steady m"
  unfolding steady_def by (metis prod.collapse)

named_theorems steady_rules

lemma steady_thenS [steady_rules]: "steady m \<Longrightarrow> (\<And>x. steady (f x)) \<Longrightarrow> steady (thenS m f)"
  by (auto simp: steady_def thenS_def split: prod.split sum.split) (metis snd_conv)+

lemma steady_liftS [steady_rules]: "steady (liftS r)" by (simp add: steady_def liftS_def)
lemma steady_on_disk [steady_rules]: "steady (on_disk m)" by (simp add: steady_def on_disk_def split: prod.split)

lemma steady_if [steady_rules]: "steady m \<Longrightarrow> steady n \<Longrightarrow> steady (\<lambda>j. if c j then m j else n j)"
  by (simp add: steady_def)

lemma steady_at: "(\<And>x. steady (f x)) \<Longrightarrow> steady (\<lambda>j. f (g j) j)"
  by (simp add: steady_def)

lemma steady_upd [steady_rules]: "steady (\<lambda>j. (r j, j))" by (simp add: steady_def)

lemma restore_durable_config: "jn_config (restore_durable j) = jn_config j"
  using restore_durable_memory[of j] by (simp add: memory_same_def)

lemma on_disk_config: "on_disk m j = (r, j') \<Longrightarrow> jn_config j' = jn_config j"
  by (rule steadyD[OF steady_on_disk])

lemma steady_flush [steady_rules]: "steady journal_flush"
  by (rule steadyI)
    (auto simp: journal_flush_def restore_durable_config Let_def on_disk_def split: prod.splits sum.splits if_splits)

lemma steady_after_write [steady_rules]: "steady after_write"
  by (rule steadyI)
    (auto simp: after_write_def Let_def split: sync_policy.splits option.splits if_splits dest: steadyD[OF steady_flush])

lemma steady_generation [steady_rules]: "steady take_generation"
  by (rule steadyI) (auto simp: take_generation_def Let_def thenS_def liftS_def split: option.splits if_splits sum.splits)

lemma steady_append [steady_rules]: "steady (journal_append bs)"
  by (rule steadyI)
    (auto simp: journal_append_def Let_def thenS_def liftS_def split: option.splits sum.splits prod.splits
      dest!: on_disk_config steadyD[OF steady_after_write])

lemma steady_append_frame [steady_rules]: "steady (append_frame seq bs nxt)"
proof (rule steadyI)
  fix j r j' assume call: "append_frame seq bs nxt j = (r, j')"
  obtain bs' a j1 where s: "seal_and_append bs j = ((bs', a), j1)" by (metis prod.collapse)
  have "jn_config j1 = jn_config j"
    using s by (auto simp: seal_and_append_def Let_def split: prod.splits sum.splits if_splits
      dest!: steadyD[OF steady_append] steadyD[OF steady_generation])
  then show "jn_config j' = jn_config j"
    using call s by (auto simp: append_frame_def Let_def split: prod.splits sum.splits option.splits)
qed

lemma steady_write_counters [steady_rules]: "steady (write_counters a b)"
proof (rule steadyI)
  fix j r j' assume call: "write_counters a b j = (r, j')"
  show "jn_config j' = jn_config j"
    using call by (auto simp: write_counters_def thenS_def liftS_def Let_def split: prod.splits sum.splits option.splits if_splits
      dest!: steadyD[OF steady_generation] on_disk_config steadyD[OF steady_after_write])
qed

lemma steady_watermark [steady_rules]: "steady (set_app_watermark w)"
  by (rule steadyI) (auto simp: set_app_watermark_def thenS_def liftS_def Let_def split: prod.splits sum.splits if_splits
      dest!: steadyD[OF steady_write_counters])

lemma steady_read_one [steady_rules]: "steady (read_one e)"
  unfolding read_one_def by (cases e) (simp add: steady_thenS steady_on_disk steady_upd)

lemma steady_read_all [steady_rules]: "steady (read_all es)"
  by (induction es) (simp_all add: steady_rules)

lemma steady_read [steady_rules]: "steady (journal_read lo hi limit)"
  using steady_read_all by (simp add: journal_read_def steady_def)

lemma steady_after_rename [steady_rules]: "steady after_rename"
  by (rule steadyI) (auto simp: after_rename_def Let_def split: prod.splits sum.splits dest!: on_disk_config)

lemma install_slots_config: "jn_config (install_slots s j) = jn_config j"
  by (simp add: install_slots_def)

lemma steady_replace [steady_rules]: "steady (replace_journal a b)"
  by (rule steadyI) (auto simp: replace_journal_def Let_def thenS_def liftS_def install_slots_config
      split: prod.splits sum.splits dest!: on_disk_config steadyD[OF steady_after_rename])

lemma steady_compact [steady_rules]: "steady journal_compact"
  by (rule steadyI) (auto simp: journal_compact_def Let_def thenS_def liftS_def install_slots_config
      split: prod.splits sum.splits if_splits dest!: on_disk_config steadyD[OF steady_after_rename])

lemma steady_undo [steady_rules]: "steady undo_pending"
  by (rule steadyI) (use undo_pending_outcomes in \<open>auto simp: memory_same_def\<close>)

lemma steady_reload [steady_rules]: "steady journal_reload"
proof (rule steadyI)
  fix j r j' assume call: "journal_reload j = (r, j')"
  obtain r1 j1 where u: "undo_pending j = (r1, j1)" by fastforce
  note c1 = steadyD[OF steady_undo u]
  show "jn_config j' = jn_config j"
    using call u c1 by (auto simp: journal_reload_def thenS_def Let_def reload_install_def split: prod.splits sum.splits if_splits
      dest!: on_disk_config steadyD[OF steady_flush])
qed

lemma steady_stamp [steady_rules]: "steady stamp_slot"
  by (rule steadyI) (auto simp: stamp_slot_def thenS_def split: prod.splits sum.splits if_splits
      dest!: steadyD[OF steady_write_counters] steadyD[OF steady_flush])

lemma steady_owed_stamps: "steady (owed_stamps b)"
proof (rule steadyI)
  fix j r j' assume call: "owed_stamps b j = (r, j')"
  obtain r2 j2 where two: "thenS stamp_slot (\<lambda>_. stamp_slot) (j\<lparr>jn_reset_owed := b\<rparr>) = (r2, j2)" by fastforce
  have "jn_config j2 = jn_config j" using steadyD[OF steady_thenS[OF steady_stamp steady_stamp] two] by simp
  then show "jn_config j' = jn_config j"
    using call unfolding owed_stamps_def Let_def two by (cases r2) auto
qed

lemma steady_owed [steady_rules]: "steady (set_reset_owed b)"
proof (rule steadyI)
  fix j r j' assume call: "set_reset_owed b j = (r, j')"
  obtain r1 j1 where one: "(if \<not> is_clear (jn_pending j) then journal_reload j else (Inr (), j)) = (r1, j1)" by fastforce
  have c1: "jn_config j1 = jn_config j" using one steadyD[OF steady_reload] by (auto split: if_splits)
  have "set_reset_owed b j = (case r1 of Inl e \<Rightarrow> (Inl e, j1) | Inr _ \<Rightarrow>
      if (carries b (fst (jn_slots j1)) \<and> carries b (snd (jn_slots j1))) \<and> jn_reset_owed j1 = b
      then (Inr (), j1\<lparr>jn_shared := (jn_shared j1)\<lparr>sh_reset_owed := b\<rparr>\<rparr>) else owed_stamps b j1)"
    by (subst set_reset_owed_eq, subst thenS_def, subst one) simp
  then show "jn_config j' = jn_config j"
    using call c1 steadyD[OF steady_owed_stamps, of b j1 r j'] by (cases r1) (auto split: if_splits)
qed

lemma steady_done [steady_rules]: "steady m \<Longrightarrow> steady (done_after m)"
  unfolding done_after_def by (rule steady_thenS, assumption, rule steady_liftS)

lemma steady_when [steady_rules]: "steady m \<Longrightarrow> steady (when_usable m)"
  by (auto simp: steady_def when_usable_eq)

lemma journal_run_steady: "journal_run c j = (r, j') \<Longrightarrow> jn_config j' = jn_config j"
proof -
  have "steady (journal_run c)"
  proof (cases c)
    case (CmdSetNextSender n)
    show ?thesis unfolding CmdSetNextSender journal_run.simps
      by (rule steady_when, rule steady_at[where f = "\<lambda>k. done_after (write_counters n k)"]) (intro steady_done steady_rules)
  next
    case (CmdSetNextTarget n)
    show ?thesis unfolding CmdSetNextTarget journal_run.simps
      by (rule steady_when, rule steady_at[where f = "\<lambda>k. done_after (write_counters k n)"]) (intro steady_done steady_rules)
  qed (simp_all add: steady_rules steady_when steady_if)
  then show "journal_run c j = (r, j') \<Longrightarrow> jn_config j' = jn_config j" by (rule steadyD)
qed

lemma after_call_steady: "jn_config (after_call j) = jn_config j"
  by (auto simp: after_call_def split: prod.splits sum.splits dest!: steadyD[OF steady_compact])

subsection \<open>Refusals\<close>

fun repairs :: "store_command \<Rightarrow> bool" where
  "repairs (CmdSetResetOwed _) \<longleftrightarrow> True"
| "repairs (CmdResetTo _ _) \<longleftrightarrow> True"
| "repairs CmdRefresh \<longleftrightarrow> True"
| "repairs _ \<longleftrightarrow> False"

lemma unsound_refuses:
  assumes "journal_run c j = (r, j')" "\<not> sound j" "\<not> repairs c" "c \<noteq> CmdClose"
  shows "r = Inl StoreIo \<and> j' = j"
proof -
  have "\<not> is_clear (jn_pending j)" using assms(2) clear_sound by blast
  then show ?thesis using assms
    by (cases c) (auto simp: when_usable_eq set_app_watermark_def journal_compact_def usable_def thenS_def done_after_def)
qed

end
