(* ===== verification/Store_Writer.thy ===== *)
theory Store_Writer
  imports Store_Journal_Owed
begin

text \<open>
  The writer thread: it opens the journal, then runs the queued calls one after another, skipping
  those whose caller has gone, and compacts when that is due.  A call that panics closes the store
  in the code; the model's calls are total.  The last part is what opening promises: a store that
  is opened again holds what the file held.
\<close>

subsection \<open>The thread\<close>

datatype writer_state = WriterStarting | WriterOpen journal | WriterClosed

record request =
  rq_command :: store_command
  rq_abandoned :: bool

type_synonym reply = "(store_error + store_answer) option"

definition writer_start :: "store_error + journal \<Rightarrow> writer_state \<Rightarrow> (store_error + unit) option \<times> writer_state" where
  "writer_start built st =
    (case st of
       WriterStarting \<Rightarrow> (case built of Inr j \<Rightarrow> (Some (Inr ()), WriterOpen j) | Inl e \<Rightarrow> (Some (Inl e), WriterClosed))
     | _ \<Rightarrow> (None, st))"

text \<open>The answer, none for an abandoned call, and whether after-call work is due.\<close>

definition writer_run :: "request \<Rightarrow> writer_state \<Rightarrow> reply \<times> bool \<times> writer_state" where
  "writer_run rq st =
    (if rq_abandoned rq then (None, False, st)
     else
      (case st of
         WriterOpen j \<Rightarrow>
           (let closes = (rq_command rq = CmdClose) in
            case journal_run (rq_command rq) j of
              (result, j1) \<Rightarrow>
                (Some result, \<not> closes \<and> compaction_due j1, if closes then WriterClosed else WriterOpen j1))
       | _ \<Rightarrow> (Some (Inl StoreIo), False, st)))"

definition writer_after_call :: "writer_state \<Rightarrow> writer_state" where
  "writer_after_call st = (case st of WriterOpen j \<Rightarrow> WriterOpen (after_call j) | _ \<Rightarrow> st)"

text \<open>One round of the thread's loop, the rounds until the queue is closed, and the whole thread.\<close>

definition writer_round :: "request \<Rightarrow> writer_state \<Rightarrow> reply \<times> writer_state" where
  "writer_round rq st =
    (case writer_run rq st of (answer, due, st1) \<Rightarrow> (answer, if due then writer_after_call st1 else st1))"

fun writer_loop :: "request list \<Rightarrow> writer_state \<Rightarrow> reply list \<times> writer_state" where
  "writer_loop [] st = ([], st)"
| "writer_loop (rq # rqs) st =
    (case writer_round rq st of (answer, st1) \<Rightarrow>
      (case writer_loop rqs st1 of (answers, st2) \<Rightarrow> (answer # answers, st2)))"

text \<open>The state that the thread drops as it ends is the second component.\<close>

definition writer_serve :: "request list \<Rightarrow> writer_state \<Rightarrow> reply list \<times> writer_state \<times> writer_state" where
  "writer_serve rqs st = (case writer_loop rqs st of (answers, st1) \<Rightarrow> (answers, st1, WriterClosed))"

lemma writer_loop_append:
  "writer_loop (xs @ ys) st = (case writer_loop xs st of (as, st1) \<Rightarrow> case writer_loop ys st1 of (bs, st2) \<Rightarrow> (as @ bs, st2))"
  by (induction xs arbitrary: st) (auto split: prod.split)

lemma writer_loop_answers: "writer_loop rqs st = (as, st') \<Longrightarrow> length as = length rqs"
  by (induction rqs arbitrary: st as) (auto split: prod.splits)

subsection \<open>Opening\<close>

lemma new_filled:
  assumes "fc_sync_policy config \<noteq> EveryN 0" "vouched s slot" "loaded config file s prefix bodies slot"
  shows "filled_from s (journal_new config (adopt d) s flushed shared_new)"
proof -
  have "sn_boundary s \<le> sn_end s" using assms(2) by (simp add: vouched_def)
  then show ?thesis using assms(1)
    by (auto simp: filled_from_def journal_new_def adopt_def getters_agree_def install_scan_def publish_def shared_new_def Let_def
        split: option.split)
qed

lemma open_outcomes:
  assumes call: "open_journal config rule create journal_exists d = (Inr j, d')" and base: "fc_sync_policy config \<noteq> EveryN 0"
  shows "journal_ok j \<and> sound j \<and> jn_config j = config \<and> (\<exists>d0 prefix bodies slot s.
      (if journal_exists then d0 = d else create \<and> create_journal d = (Inr (), d0))
      \<and> (\<exists>d1. load_journal config rule d0 = (Inr s, d1) \<and> loaded config (dk_path d1) s prefix bodies slot \<and> vouched s slot)
      \<and> journal_view j = scan_view s bodies)"
proof -
  obtain d0 d1 s d2 where first: "(if journal_exists then liftS (Inr ()) else if create then create_journal else liftS (Inl StoreIo)) d = (Inr (), d0)"
      and ld: "load_journal config rule d0 = (Inr s, d1)"
      and sy: "(if flushes (fc_sync_policy config) \<or> rule = Salvage then sync_data else liftS (Inr ())) d1 = (Inr (), d2)"
      and j: "j = journal_new config (adopt d2) s (flushes (fc_sync_policy config) \<or> rule = Salvage) shared_new"
    using call by (auto simp: open_journal_def thenS_Inr_iff liftS_iff Let_def split: if_splits)
  from load_loaded[OF ld] obtain prefix bodies slot where l: "loaded config (dk_path d1) s prefix bodies slot" "vouched s slot" by blast
  have "dk_path d2 = dk_path d1" using sy attempt_keeps[of d1 "Inr ()" d2] by (auto simp: sync_data_def liftS_iff split: if_splits)
  then have "loaded (jn_config j) (dk_path (jn_disk j)) s prefix bodies slot" using l(1) by (simp add: j journal_new_def adopt_def)
  from loaded_backed[OF this l(2)] new_filled[OF base l(2,1), of d2 "flushes (fc_sync_policy config) \<or> rule = Salvage"]
  have b: "on_file j prefix bodies (sn_header s) slot" "indexed j bodies" "counters_on_file j bodies (sn_header s) slot"
      "getters_agree j" "sh_reset_owed (jn_shared j) = jn_reset_owed j" "fc_sync_policy (jn_config j) \<noteq> EveryN 0" "sound j"
      "journal_view j = scan_view s bodies" unfolding j by blast+
  have "if journal_exists then d0 = d else create \<and> create_journal d = (Inr (), d0)"
    using first by (simp add: liftS_iff split: if_splits)
  moreover have "jn_config j = config" by (simp add: j journal_new_def)
  moreover have "journal_ok j" by (rule ok_intro[OF b(1-6)])
  ultimately show ?thesis using b(7,8) ld l by blast
qed

text \<open>Opening again the file a journal left behind gives back what was stored.\<close>

lemma reopened:
  assumes ok: "journal_ok j" "sound j" and path: "dk_path d = dk_path (jn_disk j)"
    and op: "open_journal (jn_config j) rule create True d = (Inr j', d')"
  shows "journal_ok j' \<and> sound j' \<and> (\<exists>b. (b \<longrightarrow> vw_reset_owed (journal_view j)) \<and> journal_view j' = (journal_view j)\<lparr>vw_reset_owed := b\<rparr>)"
proof -
  obtain prefix0 bodies0 h0 slot0 where inv: "on_file j prefix0 bodies0 h0 slot0" "indexed j bodies0" "counters_on_file j bodies0 h0 slot0"
    "getters_agree j" "fc_sync_policy (jn_config j) \<noteq> EveryN 0" using ok_backed[OF ok] .
  obtain prefix bodies slot s d1 where o: "journal_ok j'" "sound j'" "load_journal (jn_config j) rule d = (Inr s, d1)"
      "loaded (jn_config j) (dk_path d1) s prefix bodies slot" "journal_view j' = scan_view s bodies"
    using open_outcomes[OF op inv(5)] by auto
  have "dk_path d1 = dk_path d"
  proof -
    have f: "dk_path d = journal_of prefix0 bodies0" "length prefix0 = DATA_START" "open_prefix prefix0 = Inr (h0, jn_slots j, jn_active_slot j, slot0)"
      "\<forall>b\<in>set bodies0. good_body (max_body_of (jn_config j)) b \<and> (\<exists>x. decode_body b = Inr x)"
      "unat (cs_durable_end slot0) \<le> length (journal_of prefix0 bodies0)" "length (journal_of prefix0 bodies0) \<le> usize_max"
      using inv(1) path unfolding on_file_def by simp_all
    show ?thesis using load_quiet[OF o(3) f] by blast
  qed
  then have "loaded (jn_config j) (dk_path (jn_disk j)) s prefix bodies slot" using o(4) path by simp
  from reloaded_view[OF inv(1-4) this] show ?thesis using o(1,2,5) by auto
qed

lemma created_empty:
  assumes op: "open_journal config rule create False d = (Inr j, d')" and base: "fc_sync_policy config \<noteq> EveryN 0"
  shows "create \<and> journal_view j = \<lparr>vw_messages = Map.empty, vw_next_sender = 1, vw_next_target = 1, vw_reset_owed = False, vw_app_watermark = 0\<rparr>"
proof -
  obtain d0 prefix bodies slot s d1 where o: "create" "create_journal d = (Inr (), d0)" "load_journal config rule d0 = (Inr s, d1)"
      "loaded config (dk_path d1) s prefix bodies slot" "journal_view j = scan_view s bodies"
    using open_outcomes[OF op base] by auto
  obtain images after where fr: "fresh_slots 0 1 1 (word_of_nat DATA_START) 0 False = Inr (images, after)"
    using o(2) by (auto simp: create_journal_def thenS_Inr_iff liftS_iff)
  let ?h = "\<lparr>jh_creation_time = uint (dk_clock d), jh_next_sender = 1, jh_next_target = 1\<rparr>"
  obtain d2 where w: "write_replacement ?h images d = (Inr (), d2)" "attempt d2 = (Inr (), d0)"
    using o(2) fr by (auto simp: create_journal_def flush_directory_def thenS_Inr_iff liftS_iff)
  have path: "dk_path d0 = journal_of (encode_prefix ?h images) []"
    using write_replacement_cases[OF w(1)] attempt_keeps[OF w(2)] by (simp add: journal_of_def)
  obtain s0 s1 where sl: "images = (encode_slot s0, encode_slot s1)" "newest_slot images = Inr (1, s1)"
      "s1 = \<lparr>cs_generation = 0 + 1, cs_next_sender = 1, cs_next_target = 1, cs_durable_end = word_of_nat DATA_START,
        cs_app_watermark = 0, cs_reset_owed = False\<rparr>" using fresh_slots_Inr[OF fr] by blast
  have clock: "0 \<le> jh_creation_time ?h" "jh_creation_time ?h < 2 ^ 63 * 1000000000" using clock_fits[of "dk_clock d"] by simp_all
  have lens: "length (fst images) = 52" "length (snd images) = 52" by (simp_all add: sl(1) length_encodings)
  note op' = encoded_prefix_opens[OF clock lens sl(2)]
  have de: "unat (cs_durable_end s1) = DATA_START" by (simp add: sl(3) DATA_START_def)
  have "dk_path d1 = dk_path d0"
    using load_quiet[OF o(3) path op'] op'(1) de by (simp add: journal_of_def usize_max_def DATA_START_def)
  note lo = o(4)[unfolded loaded_def this path]
  have "prefix = encode_prefix ?h images" "bodies = []"
  proof -
    have eq: "journal_of (encode_prefix ?h images) [] = journal_of prefix bodies" "length prefix = DATA_START" using lo by blast+
    then have "length (run_image bodies) = 0" using op'(1) by (metis add_cancel_left_right journal_of_def length_append list.size(3) run_image_simps(1))
    then show "bodies = []" by (cases bodies) (simp_all del: length_0_conv)
    then show "prefix = encode_prefix ?h images" using eq(1) by (simp add: journal_of_def)
  qed
  then have "slot = s1" using lo op'(2) by simp
  then have "scan_view s bodies = \<lparr>vw_messages = Map.empty, vw_next_sender = 1, vw_next_target = 1, vw_reset_owed = False, vw_app_watermark = 0\<rparr>"
    using lo \<open>bodies = []\<close> by (simp add: scan_view_def stored_in_empty sender_of_def newest_from_def sl(3))
  then show ?thesis using o(1,5) by simp
qed

end
