(* ===== verification/Store_Served.thy ===== *)
theory Store_Served
  imports Store_Writer
begin

text \<open>
  What the callers of a store see of its writer: a store that answers and refuses, one that is
  stalled until a call repairs it, or a closed one.  The writer thread over the journal refines it,
  whatever the disk does.
\<close>

subsection \<open>The store its callers see\<close>

datatype client = Serving store_view | Stalled | Gone

fun repaired :: "store_command \<Rightarrow> store_view \<Rightarrow> bool" where
  "repaired (CmdResetTo n k) v \<longleftrightarrow> (\<exists>v0. v = emptied n k v0)"
| "repaired (CmdSetResetOwed b) v \<longleftrightarrow> vw_reset_owed v = b"
| "repaired _ v \<longleftrightarrow> True"

text \<open>
  A refused call may stall the store.  An automatic compaction runs after the answer, so it may
  stall the store behind a call that was answered.
\<close>

inductive store_step :: "file_store_config \<Rightarrow> client \<Rightarrow> request \<Rightarrow> reply \<Rightarrow> client \<Rightarrow> bool" for cfg where
  skipped: "rq_abandoned rq \<Longrightarrow> store_step cfg s rq None s"
| answers: "\<not> rq_abandoned rq \<Longrightarrow> rq_command rq \<noteq> CmdClose \<Longrightarrow> answered cfg (rq_command rq) a v v'
    \<Longrightarrow> s' = Serving v' \<or> (s' = Stalled \<and> fc_compaction_threshold cfg \<noteq> None)
    \<Longrightarrow> store_step cfg (Serving v) rq (Some (Inr a)) s'"
| refuses: "\<not> rq_abandoned rq \<Longrightarrow> rq_command rq \<noteq> CmdClose \<Longrightarrow> s' = Stalled \<or> (\<exists>v'. s' = Serving v' \<and> refused (rq_command rq) v v')
    \<Longrightarrow> store_step cfg (Serving v) rq (Some (Inl e)) s'"
| stays: "\<not> rq_abandoned rq \<Longrightarrow> rq_command rq \<noteq> CmdClose \<Longrightarrow> \<not> repairs (rq_command rq)
    \<Longrightarrow> store_step cfg Stalled rq (Some (Inl StoreIo)) Stalled"
| repairs: "\<not> rq_abandoned rq \<Longrightarrow> repairs (rq_command rq)
    \<Longrightarrow> (\<exists>v. repaired (rq_command rq) v \<and> s' = Serving v) \<or> (s' = Stalled \<and> fc_compaction_threshold cfg \<noteq> None)
    \<Longrightarrow> store_step cfg Stalled rq (Some (Inr AnswerDone)) s'"
| fails_again: "\<not> rq_abandoned rq \<Longrightarrow> repairs (rq_command rq) \<Longrightarrow> s' \<noteq> Gone
    \<Longrightarrow> store_step cfg Stalled rq (Some (Inl e)) s'"
| closes: "\<not> rq_abandoned rq \<Longrightarrow> rq_command rq = CmdClose \<Longrightarrow> s \<noteq> Gone \<Longrightarrow> store_step cfg s rq (Some r) Gone"
| gone: "\<not> rq_abandoned rq \<Longrightarrow> store_step cfg Gone rq (Some (Inl StoreIo)) Gone"

inductive_cases serving_step: "store_step cfg (Serving v) rq (Some (Inr a)) s'"
inductive_cases stalled_step: "store_step cfg Stalled rq r s'"
inductive_simps gone_step: "store_step cfg Gone rq r s'"

fun store_run :: "file_store_config \<Rightarrow> client \<Rightarrow> request list \<Rightarrow> reply list \<Rightarrow> client \<Rightarrow> bool" where
  "store_run cfg s [] [] s' \<longleftrightarrow> s' = s"
| "store_run cfg s (rq # rqs) (r # rs) s' \<longleftrightarrow> (\<exists>s1. store_step cfg s rq r s1 \<and> store_run cfg s1 rqs rs s')"
| "store_run cfg s _ _ s' \<longleftrightarrow> False"

subsection \<open>The writer refines it\<close>

fun client_of :: "writer_state \<Rightarrow> client" where
  "client_of (WriterOpen j) = (if sound j then Serving (journal_view j) else Stalled)"
| "client_of _ = Gone"

fun writer_ok :: "file_store_config \<Rightarrow> writer_state \<Rightarrow> bool" where
  "writer_ok cfg (WriterOpen j) \<longleftrightarrow> journal_ok j \<and> jn_config j = cfg"
| "writer_ok cfg _ \<longleftrightarrow> True"

lemma after_call_ok:
  assumes "journal_ok j"
  shows "journal_ok (after_call j) \<and> (sound j \<longrightarrow> sound (after_call j) \<longrightarrow> journal_view (after_call j) = journal_view j)"
proof -
  obtain r j1 where c: "journal_compact j = (r, j1)" by fastforce
  have same: "sound (j1\<lparr>jn_failed_compaction_at := x\<rparr>) = sound j1" for x by (simp add: sound_def)
  have view: "journal_view (j1\<lparr>jn_failed_compaction_at := x\<rparr>) = journal_view j1" for x by (simp add: journal_view_def)
  have sync: "synced_in_time (j1\<lparr>jn_failed_compaction_at := x\<rparr>) = synced_in_time j1" for x by (rule synced_cong) simp_all
  have parts: "on_file (j1\<lparr>jn_failed_compaction_at := x\<rparr>) = on_file j1" "indexed (j1\<lparr>jn_failed_compaction_at := x\<rparr>) = indexed j1"
      "counters_on_file (j1\<lparr>jn_failed_compaction_at := x\<rparr>) = counters_on_file j1"
      "getters_agree (j1\<lparr>jn_failed_compaction_at := x\<rparr>) = getters_agree j1" for x
    by (simp_all add: fun_eq_iff on_file_def sync indexed_def counters_on_file_def getters_agree_def)
  have ok: "journal_ok (j1\<lparr>jn_failed_compaction_at := x\<rparr>) = journal_ok j1" for x by (simp add: journal_ok_def same parts)
  show ?thesis using compact_ok[OF c assms] by (cases r) (auto simp: after_call_def c same view ok)
qed

lemma due_threshold: "compaction_due j \<Longrightarrow> fc_compaction_threshold (jn_config j) \<noteq> None \<and> sound j"
  using clear_sound by (auto simp: compaction_due_def split: option.splits if_splits)

lemma repairs_done:
  assumes call: "journal_run c j = (r, j')" and ok: "journal_ok j" and un: "\<not> sound j" and rep: "repairs c"
  shows "\<forall>a. r = Inr a \<longrightarrow> a = AnswerDone \<and> sound j' \<and> repaired c (journal_view j')"
proof (cases c)
  case (CmdSetResetOwed b)
  then have d: "done_after (set_reset_owed b) j = (r, j')" using call by simp
  from unit_command[OF d] obtain r1 where r1: "set_reset_owed b j = (r1, j')"
    "case r of Inr a \<Rightarrow> a = AnswerDone \<and> r1 = Inr () | Inl e \<Rightarrow> r1 = Inl e" .
  show ?thesis using set_reset_owed_ok[OF r1(1) ok] r1(2) by (cases r) (auto simp: CmdSetResetOwed)
next
  case (CmdResetTo n k)
  then have d: "done_after (replace_journal n k) j = (r, j')" using call by simp
  from unit_command[OF d] obtain r1 where r1: "replace_journal n k j = (r1, j')"
    "case r of Inr a \<Rightarrow> a = AnswerDone \<and> r1 = Inr () | Inl e \<Rightarrow> r1 = Inl e" .
  show ?thesis using replace_ok[OF r1(1) ok] r1(2) by (cases r) (auto simp: CmdResetTo emptied_def)
next
  case CmdRefresh
  then have d: "done_after journal_reload j = (r, j')" using call by simp
  from unit_command[OF d] obtain r1 where r1: "journal_reload j = (r1, j')"
    "case r of Inr a \<Rightarrow> a = AnswerDone \<and> r1 = Inr () | Inl e \<Rightarrow> r1 = Inl e" .
  show ?thesis using reload_ok[OF r1(1) ok] r1(2) by (cases r) (auto simp: CmdRefresh)
qed (use rep in simp_all)

lemma writer_step_refines:
  assumes round: "writer_round rq st = (r, st')" and ok: "writer_ok cfg st"
    and legal: "\<not> rq_abandoned rq \<Longrightarrow> legal cfg (rq_command rq)"
  shows "writer_ok cfg st' \<and> store_step cfg (client_of st) rq r (client_of st')"
proof (cases "rq_abandoned rq")
  case True
  then show ?thesis using round ok by (auto simp: writer_round_def writer_run_def intro: store_step.skipped)
next
  case live: False
  show ?thesis
  proof (cases st)
    case (WriterOpen j)
    have jo: "journal_ok j" "jn_config j = cfg" using ok WriterOpen by simp_all
    obtain r1 j1 where run: "journal_run (rq_command rq) j = (r1, j1)" by fastforce
    note k = journal_run_ok[OF run jo(1)]
    have leg: "legal (jn_config j) (rq_command rq)" using legal[OF live] jo(2) by simp
    have cfg1: "jn_config j1 = cfg" using journal_run_steady[OF run] jo(2) by simp
    show ?thesis
    proof (cases "rq_command rq = CmdClose")
      case True
      then have "r = Some r1" "st' = WriterClosed" using round live run by (simp_all add: writer_round_def writer_run_def WriterOpen)
      then show ?thesis using live True by (auto simp: WriterOpen intro: store_step.closes)
    next
      case nc: False
      define j2 where "j2 = (if compaction_due j1 then after_call j1 else j1)"
      have out: "r = Some r1" "st' = WriterOpen j2"
        using round live run nc by (auto simp: writer_round_def writer_run_def WriterOpen j2_def writer_after_call_def)
      have j2: "journal_ok j2" "jn_config j2 = cfg" "sound j2 \<Longrightarrow> sound j1 \<Longrightarrow> journal_view j2 = journal_view j1"
        "j2 = j1 \<or> fc_compaction_threshold cfg \<noteq> None \<and> sound j1"
        using k[OF leg] after_call_ok[of j1] after_call_steady[of j1] cfg1 due_threshold[of j1] by (auto simp: j2_def)
      show ?thesis
      proof (cases "sound j")
        case s: True
        show ?thesis
        proof (cases r1)
          case (Inr a)
          then have "sound j1" "answered cfg (rq_command rq) a (journal_view j) (journal_view j1)" using k[OF leg] s nc jo(2) by simp_all
          then show ?thesis using j2 s by (auto simp: WriterOpen out Inr intro!: store_step.answers live nc)
        next
          case (Inl e)
          have "sound j2 \<Longrightarrow> refused (rq_command rq) (journal_view j) (journal_view j2)"
            using k[OF leg] s Inl j2(3,4) by (cases "sound j1") auto
          then show ?thesis using j2 s by (auto simp: WriterOpen out Inl intro!: store_step.refuses live nc)
        qed
      next
        case un: False
        show ?thesis
        proof (cases "repairs (rq_command rq)")
          case False
          then have "r1 = Inl StoreIo" "j1 = j" using unsound_refuses[OF run un _ nc] by simp_all
          moreover from this have "j2 = j" using due_threshold[of j1] un by (auto simp: j2_def)
          ultimately show ?thesis using un False jo by (auto simp: WriterOpen out intro!: store_step.stays live nc)
        next
          case True
          show ?thesis
          proof (cases r1)
            case (Inr a)
            then have "a = AnswerDone" "sound j1" "repaired (rq_command rq) (journal_view j1)"
              using repairs_done[OF run jo(1) un True] by simp_all
            then show ?thesis using j2 un by (auto simp: WriterOpen out Inr intro!: store_step.repairs live True)
          next
            case (Inl e)
            then show ?thesis using j2 un by (auto simp: WriterOpen out intro!: store_step.fails_again live True)
          qed
        qed
      qed
    qed
  qed (use round live in \<open>auto simp: writer_round_def writer_run_def intro: store_step.gone\<close>)
qed

lemma writer_loop_refines:
  assumes "writer_loop rqs st = (rs, st')" "writer_ok cfg st" "\<forall>rq\<in>set rqs. \<not> rq_abandoned rq \<longrightarrow> legal cfg (rq_command rq)"
  shows "writer_ok cfg st' \<and> store_run cfg (client_of st) rqs rs (client_of st')"
  using assms
proof (induction rqs arbitrary: st rs)
  case (Cons rq rqs)
  obtain r st1 rs1 where one: "writer_round rq st = (r, st1)" "writer_loop rqs st1 = (rs1, st')" "rs = r # rs1"
    using Cons.prems(1) by (auto split: prod.splits)
  have "writer_ok cfg st1 \<and> store_step cfg (client_of st) rq r (client_of st1)"
    using writer_step_refines[OF one(1) Cons.prems(2)] Cons.prems(3) by simp
  then show ?case using Cons.IH[OF one(2)] Cons.prems(3) one(3) by auto
qed simp

subsection \<open>What was filed is read back\<close>

fun spares :: "u64 \<Rightarrow> store_command \<Rightarrow> bool" where
  "spares seq (CmdStore q _) \<longleftrightarrow> q \<noteq> seq"
| "spares seq (CmdFileOutbound q _ _) \<longleftrightarrow> q \<noteq> seq"
| "spares seq (CmdResetTo _ _) \<longleftrightarrow> False"
| "spares seq (CmdSetResetOwed _) \<longleftrightarrow> False"
| "spares seq CmdRefresh \<longleftrightarrow> False"
| "spares seq _ \<longleftrightarrow> True"

fun holds :: "u64 \<Rightarrow> msg_type \<times> bytes \<Rightarrow> client \<Rightarrow> bool" where
  "holds seq m (Serving v) \<longleftrightarrow> vw_messages v seq = Some m"
| "holds seq m _ \<longleftrightarrow> True"

lemma step_holds:
  assumes "store_step cfg s rq r s'" "holds seq m s" "spares seq (rq_command rq)"
  shows "holds seq m s'"
  using assms
proof cases
  case (answers a v v')
  then show ?thesis using assms(2,3) by (cases "rq_command rq") auto
next
  case (refuses v e)
  then show ?thesis using assms(2,3) by (cases "rq_command rq") auto
next
  case (repairs)
  then show ?thesis using assms(3) by (cases "rq_command rq") auto
next
  case (fails_again e)
  then show ?thesis using assms(3) by (cases "rq_command rq") auto
qed auto

lemma run_holds:
  "store_run cfg s rqs rs s' \<Longrightarrow> holds seq m s \<Longrightarrow> \<forall>rq\<in>set rqs. spares seq (rq_command rq) \<Longrightarrow> holds seq m s'"
proof (induction cfg s rqs rs s' rule: store_run.induct)
  case (2 cfg s rq rqs r rs s')
  then obtain t where t: "store_step cfg s rq r t" "store_run cfg t rqs rs s'" by auto
  have "holds seq m t" using step_holds[OF t(1) 2(3)] 2(4) by simp
  then show ?case using 2(1)[OF t(2)] 2(4) by simp
qed simp_all

lemma store_run_append:
  "length xs = length rs \<Longrightarrow> store_run cfg s (xs @ ys) (rs @ ks) s' \<longleftrightarrow> (\<exists>t. store_run cfg s xs rs t \<and> store_run cfg t ys ks s')"
  by (induction xs rs arbitrary: s rule: list_induct2) auto

lemma encoded_unique:
  assumes "encoded c seq nxt bs ty frame" "encoded c seq nxt bs ty' frame'"
  shows "ty' = ty \<and> frame' = frame"
proof -
  have enc: "encode_frame_record_into seq nxt ty frame (fc_max_frame_size c) [] = (Inr (), bs)"
      "encode_frame_record_into seq nxt ty' frame' (fc_max_frame_size c) [] = (Inr (), bs)"
    using assms by (simp_all add: encoded_def)
  obtain len len' where "bs = u32_to_le len @ replicate 8 0 @ body_image (unsealed seq nxt 0 ty frame)"
      "bs = u32_to_le len' @ replicate 8 0 @ body_image (unsealed seq nxt 0 ty' frame')"
    using encoded_record[OF enc(1)] encoded_record[OF enc(2)] by blast
  then have "drop 12 bs = body_image (unsealed seq nxt 0 ty frame)" "drop 12 bs = body_image (unsealed seq nxt 0 ty' frame')"
    by (simp_all add: u32_to_le_def)
  then have "body_image (unsealed seq nxt 0 ty frame) = body_image (unsealed seq nxt 0 ty' frame')" by simp
  moreover have "decode_body (body_image (unsealed seq nxt 0 ty frame)) = Inr (unsealed seq nxt 0 ty frame)"
    "decode_body (body_image (unsealed seq nxt 0 ty' frame')) = Inr (unsealed seq nxt 0 ty' frame')"
    using assms by (simp_all add: encoded_def body_roundtrip unsealed_def)
  ultimately show ?thesis by (simp add: unsealed_def)
qed

lemma page_holds:
  assumes "page_of f lo hi n ms" "f seq = Some (ty, frame)" "lo \<le> seq" "seq \<le> hi"
  shows "message_at (seq, ty, frame) \<in> set ms \<or> (length ms = n \<and> (\<forall>m\<in>set ms. sm_seq_num m < seq))"
proof -
  obtain xs where xs: "listing f lo hi xs" "ms = map message_at (take n xs)" using assms(1) by (auto simp: page_of_def)
  have sorted: "sorted_wrt (<) (map fst xs)" using xs(1) by (simp add: listing_def)
  have "(seq, ty, frame) \<in> set xs" using xs(1) assms(2-4) by (auto simp: listing_def)
  then obtain i where i: "i < length xs" "xs ! i = (seq, ty, frame)" by (auto simp: in_set_conv_nth)
  show ?thesis
  proof (cases "i < n")
    case True
    then have "(seq, ty, frame) \<in> set (take n xs)" using i by (auto simp: in_set_conv_nth intro!: exI[of _ i])
    then show ?thesis by (simp add: xs(2))
  next
    case False
    have "fst (xs ! k) < seq" if "k < n" for k
      using sorted_wrt_nth_less[OF sorted, of k i] i that False by simp
    then have "\<forall>m\<in>set ms. sm_seq_num m < seq"
      using i False by (auto simp: xs(2) in_set_conv_nth message_at_def split: prod.splits) (metis fst_conv)
    then show ?thesis using i False by (simp add: xs(2))
  qed
qed

text \<open>A page with room for every number from its start to a stored one holds that one.\<close>

lemma page_room:
  assumes "page_of f lo hi n ms" "length ms = n" "\<forall>m\<in>set ms. sm_seq_num m < seq"
  shows "n \<le> unat seq - unat lo"
proof -
  obtain xs where xs: "listing f lo hi xs" "ms = map message_at (take n xs)" using assms(1) by (auto simp: page_of_def)
  let ?ns = "map (unat \<circ> sm_seq_num) ms"
  have nums: "map sm_seq_num ms = take n (map fst xs)"
    by (simp add: xs(2) take_map message_at_def case_prod_beta comp_def)
  have "distinct (map fst xs)" using xs(1) by (auto simp: listing_def distinct_conv_nth sorted_wrt_iff_nth_less) (metis nat_neq_iff less_irrefl)
  then have "distinct (map sm_seq_num ms)" by (simp add: nums)
  then have dist: "distinct ?ns" by (auto simp: distinct_map inj_on_def word_unat_eq_iff)
  have "set (map sm_seq_num ms) \<subseteq> set (map fst xs)" by (simp add: nums set_take_subset del: set_map)
  then have "\<forall>m\<in>set ms. lo \<le> sm_seq_num m" using xs(1) by (fastforce simp: listing_def)
  then have "set ?ns \<subseteq> {unat lo..<unat seq}" using assms(3) by (auto simp: word_le_nat_alt word_less_nat_alt)
  then have "card (set ?ns) \<le> unat seq - unat lo" using card_mono[of "{unat lo..<unat seq}"] by fastforce
  then show ?thesis using distinct_card[OF dist] assms(2) by simp
qed

text \<open>The command that files a frame, alone or with the next sender number, as \<open>file_frame\<close> makes it.\<close>

fun filing :: "u64 \<Rightarrow> u64 option \<Rightarrow> bytes \<Rightarrow> store_command" where
  "filing seq None bs = CmdStore seq bs"
| "filing seq (Some n) bs = CmdFileOutbound seq bs n"

lemma filed_holds:
  assumes "store_step cfg s rq (Some (Inr a)) s'" "rq_command rq = filing seq nxt bs" "encoded cfg seq nxt bs ty frame"
  shows "holds seq (ty, frame) s'"
  using assms(1)
proof cases
  case (answers v v')
  then obtain ty' frame' where "encoded cfg seq nxt bs ty' frame'" "vw_messages v' = (vw_messages v)(seq \<mapsto> (ty', frame'))"
    using assms(2) by (cases nxt) auto
  then show ?thesis using answers encoded_unique[OF assms(3)] by auto
qed (use assms(2) in \<open>auto dest!: sym[of _ "filing seq nxt bs"] elim!: filing.elims\<close>)

lemma read_step:
  assumes "store_step cfg s rq (Some (Inr a)) s'" "rq_command rq = CmdRead lo hi n"
  shows "\<exists>v ms. s = Serving v \<and> a = AnswerPage ms \<and> page_of (vw_messages v) lo hi n ms"
  using assms(1) by cases (use assms(2) in auto)

lemma page_of_one:
  assumes "page_of f seq seq 1 ms" "f seq = Some (ty, frame)"
  shows "ms = [message_at (seq, ty, frame)]"
proof -
  obtain xs where xs: "listing f seq seq xs" "ms = map message_at (take 1 xs)" using assms(1) by (auto simp: page_of_def)
  have "listing f seq seq [(seq, ty, frame)]" using assms(2) by (auto simp: listing_def)
  then have "xs = [(seq, ty, frame)]" using listing_unique[OF xs(1)] by blast
  then show ?thesis by (simp add: xs(2))
qed

end
