(* ===== verification/Store_Contract.thy ===== *)
theory Store_Contract
  imports Store_Served
begin

text \<open>
  The file store keeps the message store contract: its methods, over the journal, obey the laws the
  memory store obeys, for every outcome the disk can have.
\<close>

lemma answered_sound:
  assumes "journal_run c j = (Inr a, j')" "journal_ok j" "legal (jn_config j) c" "\<not> repairs c" "c \<noteq> CmdClose"
  shows "journal_ok j' \<and> answered (jn_config j) c a (journal_view j) (journal_view j')"
proof -
  have "sound j" using unsound_refuses[OF assms(1) _ assms(4,5)] by blast
  then show ?thesis using journal_run_ok[OF assms(1-3)] by simp
qed

lemma file_done_step:
  assumes "file_done c j = (r, j')"
  obtains r1 where "journal_run c j = (r1, j')" "r = Inr () \<Longrightarrow> r1 = Inr AnswerDone"
  using assms by (cases "journal_run c j") (auto simp: file_done_def thenS_def liftS_def split: sum.splits store_answer.splits)

lemma file_done_ok: "journal_ok j \<Longrightarrow> legal (jn_config j) c \<Longrightarrow> journal_ok (snd (file_done c j))"
  by (metis file_done_step journal_run_ok prod.collapse)

lemma file_done_answered:
  assumes "file_done c j = (Inr (), j')" "journal_ok j" "legal (jn_config j) c" "\<not> repairs c" "c \<noteq> CmdClose"
  shows "answered (jn_config j) c AnswerDone (journal_view j) (journal_view j')"
  using file_done_step[OF assms(1)] answered_sound[OF _ assms(2-5)] by metis

lemma file_frame_step:
  assumes "file_frame seq nxt ty frame j = (r, j')"
  shows "(\<exists>e. r = Inl e \<and> j' = j) \<or> (\<exists>bs r1. encode_frame_record_into seq nxt ty frame (fc_max_frame_size (jn_config j)) [] = (Inr (), bs)
    \<and> journal_run (case nxt of Some n \<Rightarrow> CmdFileOutbound seq bs n | None \<Rightarrow> CmdStore seq bs) j = (r1, j') \<and> (r = Inr () \<longrightarrow> (\<exists>a. r1 = Inr a)))"
  using assms by (auto simp: file_frame_def thenS_def liftS_def split: prod.splits sum.splits)

lemma file_frame_ok: "journal_ok j \<Longrightarrow> made_type ty \<Longrightarrow> journal_ok (snd (file_frame seq nxt ty frame j))"
proof -
  assume ok: "journal_ok j" and made: "made_type ty"
  obtain r j' where c: "file_frame seq nxt ty frame j = (r, j')" by fastforce
  show ?thesis
  proof (cases "j' = j")
    case False
    then obtain bs r1 where e: "encode_frame_record_into seq nxt ty frame (fc_max_frame_size (jn_config j)) [] = (Inr (), bs)"
      and run: "journal_run (case nxt of Some n \<Rightarrow> CmdFileOutbound seq bs n | None \<Rightarrow> CmdStore seq bs) j = (r1, j')"
      using file_frame_step[OF c] by blast
    have "legal (jn_config j) (case nxt of Some n \<Rightarrow> CmdFileOutbound seq bs n | None \<Rightarrow> CmdStore seq bs)"
    proof -
      have "encoded (jn_config j) seq nxt bs ty frame" using e made by (simp add: encoded_def)
      then show ?thesis by (cases nxt) (simp_all, blast+)
    qed
    then show ?thesis using journal_run_ok[OF run ok] c by simp
  qed (use c ok in simp)
qed

lemma file_frame_refused:
  assumes "file_frame seq nxt ty frame j = (r, j')" "journal_ok j" "made_type ty" "r \<noteq> Inr ()" "sound j" "sound j'"
  shows "journal_view j' = journal_view j"
proof (cases "j' = j")
  case False
  then obtain bs r1 where e: "encode_frame_record_into seq nxt ty frame (fc_max_frame_size (jn_config j)) [] = (Inr (), bs)"
    and run: "journal_run (case nxt of Some n \<Rightarrow> CmdFileOutbound seq bs n | None \<Rightarrow> CmdStore seq bs) j = (r1, j')"
    and err: "\<exists>e. r1 = Inl e"
    using assms(1,4) by (auto simp: file_frame_def thenS_def liftS_def split: prod.splits sum.splits)
  have enc: "encoded (jn_config j) seq nxt bs ty frame" using e assms(3) by (simp add: encoded_def)
  have "legal (jn_config j) (case nxt of Some n \<Rightarrow> CmdFileOutbound seq bs n | None \<Rightarrow> CmdStore seq bs)"
    using enc legal.simps(1,2) by (cases nxt) (simp_all del: legal.simps, blast+)
  then show ?thesis using journal_run_ok[OF run assms(2)] err assms(5,6) by (cases nxt) auto
qed simp

lemma file_frame_answered:
  assumes "file_frame seq nxt ty frame j = (Inr (), j')" "journal_ok j" "made_type ty"
  shows "journal_view j' = (journal_view j)\<lparr>vw_messages := (vw_messages (journal_view j))(seq \<mapsto> (ty, frame)),
    vw_next_sender := (case nxt of Some n \<Rightarrow> n | None \<Rightarrow> vw_next_sender (journal_view j))\<rparr>"
proof -
  obtain bs a where e: "encode_frame_record_into seq nxt ty frame (fc_max_frame_size (jn_config j)) [] = (Inr (), bs)"
    and run: "journal_run (case nxt of Some n \<Rightarrow> CmdFileOutbound seq bs n | None \<Rightarrow> CmdStore seq bs) j = (Inr a, j')"
    using file_frame_step[OF assms(1)] by auto
  have enc: "encoded (jn_config j) seq nxt bs ty frame" using e assms(3) by (simp add: encoded_def)
  show ?thesis
  proof (cases nxt)
    case None
    have "legal (jn_config j) (CmdStore seq bs)" using enc None legal.simps(1) by blast
    with answered_sound[OF run assms(2)] have "answered (jn_config j) (CmdStore seq bs) a (journal_view j) (journal_view j')"
      by (simp add: None del: legal.simps answered.simps)
    then obtain ty' frame' where v: "encoded (jn_config j) seq None bs ty' frame'"
        "journal_view j' = (journal_view j)\<lparr>vw_messages := (vw_messages (journal_view j))(seq \<mapsto> (ty', frame'))\<rparr>"
      unfolding answered.simps by blast
    show ?thesis using encoded_unique[OF enc[unfolded None] v(1)] v(2) by (simp add: None)
  next
    case (Some n)
    have "legal (jn_config j) (CmdFileOutbound seq bs n)" using enc Some legal.simps(2) by blast
    with answered_sound[OF run assms(2)] have "answered (jn_config j) (CmdFileOutbound seq bs n) a (journal_view j) (journal_view j')"
      by (simp add: Some del: legal.simps answered.simps)
    then obtain ty' frame' where v: "encoded (jn_config j) seq (Some n) bs ty' frame'"
        "journal_view j' = (journal_view j)\<lparr>vw_messages := (vw_messages (journal_view j))(seq \<mapsto> (ty', frame')), vw_next_sender := n\<rparr>"
      unfolding answered.simps by blast
    show ?thesis using encoded_unique[OF enc[unfolded Some] v(1)] v(2) by (simp add: Some)
  qed
qed

lemma file_read_step:
  assumes "file_read lo hi n j = (r, j')"
  shows "(\<exists>e. r = Inl e \<and> j' = j) \<or> (lo \<noteq> 0 \<and> lo \<le> hi \<and> (\<exists>r1. journal_run (CmdRead lo hi n) j = (r1, j')
    \<and> (\<forall>ms. r = Inr ms \<longrightarrow> r1 = Inr (AnswerPage ms))))"
  using assms by (auto simp: file_read_def thenS_def liftS_def not_less split: prod.splits sum.splits if_splits store_answer.splits
      simp del: journal_run.simps)

lemma file_read_ok: "journal_ok j \<Longrightarrow> journal_ok (snd (file_read lo hi n j))"
  using file_read_step[of lo hi n j] journal_run_ok[of "CmdRead lo hi n" j] by (metis legal.simps(8) prod.collapse)

lemma file_read_answered:
  assumes "file_read lo hi n j = (Inr ms, j')" "journal_ok j"
  shows "lo \<noteq> 0 \<and> lo \<le> hi \<and> journal_view j' = journal_view j \<and> page_of (vw_messages (journal_view j)) lo hi n ms"
  using file_read_step[OF assms(1)] answered_sound[of "CmdRead lo hi n" j "AnswerPage ms" j'] assms(2) by auto

interpretation file_store: message_store journal_ok journal_view made_type sound
  "\<lambda>q ty frame. file_frame q None ty frame" file_read
  "\<lambda>m. file_done (CmdSetNextSender m)" "\<lambda>m. file_done (CmdSetNextTarget m)" "\<lambda>b. file_done (CmdSetResetOwed b)"
  "\<lambda>m. file_done (CmdSetAppWatermark m)" "file_done (CmdResetTo 1 1)"
proof
  fix s s' :: journal and q ty frame
  assume "journal_ok s" "made_type ty" "file_frame q None ty frame s = (Inr (), s')"
  then show "journal_view s' = (journal_view s)\<lparr>vw_messages := (vw_messages (journal_view s))(q \<mapsto> (ty, frame))\<rparr>"
    using file_frame_answered[of q None ty frame s s'] by simp
next
  fix s s' :: journal and lo hi n ms
  assume "journal_ok s" "file_read lo hi n s = (Inr ms, s')"
  then show "lo \<noteq> 0 \<and> lo \<le> hi \<and> journal_view s' = journal_view s \<and> page_of (vw_messages (journal_view s)) lo hi n ms"
    by (intro file_read_answered)
next
  fix s s' :: journal and m
  assume "journal_ok s" "file_done (CmdSetNextSender m) s = (Inr (), s')"
  then show "journal_view s' = (journal_view s)\<lparr>vw_next_sender := m\<rparr>"
    using file_done_answered[of "CmdSetNextSender m" s s'] by simp
next
  fix s s' :: journal and m
  assume "journal_ok s" "file_done (CmdSetNextTarget m) s = (Inr (), s')"
  then show "journal_view s' = (journal_view s)\<lparr>vw_next_target := m\<rparr>"
    using file_done_answered[of "CmdSetNextTarget m" s s'] by simp
next
  fix s s' :: journal and b
  assume a: "journal_ok s" "sound s" "file_done (CmdSetResetOwed b) s = (Inr (), s')"
  then show "journal_view s' = (journal_view s)\<lparr>vw_reset_owed := b\<rparr>"
    using file_done_step[OF a(3)] journal_run_ok[of "CmdSetResetOwed b" s _ s'] by (metis answered.simps(5) legal.simps(5))
next
  fix s s' :: journal and m
  assume "journal_ok s" "file_done (CmdSetAppWatermark m) s = (Inr (), s')"
  then show "journal_view s' = (journal_view s)\<lparr>vw_app_watermark := m\<rparr>"
    using file_done_answered[of "CmdSetAppWatermark m" s s'] by simp
next
  fix s s' :: journal
  assume a: "journal_ok s" "file_done (CmdResetTo 1 1) s = (Inr (), s')"
  obtain r1 where "journal_run (CmdResetTo 1 1) s = (r1, s')" "r1 = Inr AnswerDone" using file_done_step[OF a(2)] by blast
  then have "done_after (replace_journal 1 1) s = (Inr AnswerDone, s')" by simp
  then have "replace_journal 1 1 s = (Inr (), s')" by (simp add: done_after_Inr)
  then show "journal_view s' = (journal_view s)\<lparr>vw_messages := Map.empty, vw_next_sender := 1, vw_next_target := 1,
      vw_app_watermark := 0\<rparr>" using replace_ok[OF _ a(1)] by blast
next
  fix s :: journal and q ty frame
  assume "journal_ok s" "made_type ty"
  then show "journal_ok (snd (file_frame q None ty frame s))" by (rule file_frame_ok)
next
  fix s :: journal and lo hi n m b
  assume "journal_ok s"
  then show "journal_ok (snd (file_read lo hi n s)) \<and> journal_ok (snd (file_done (CmdSetNextSender m) s))
      \<and> journal_ok (snd (file_done (CmdSetNextTarget m) s)) \<and> journal_ok (snd (file_done (CmdSetResetOwed b) s))
      \<and> journal_ok (snd (file_done (CmdSetAppWatermark m) s)) \<and> journal_ok (snd (file_done (CmdResetTo 1 1) s))"
    by (simp add: file_read_ok file_done_ok)
qed

end
