(* ===== verification/Store_Calm.thy ===== *)
theory Store_Calm
  imports Store_Contract
begin

text \<open>
  A disk on which nothing fails: there a store can be created and opened, and a usable journal
  files and reads what it is asked to.
\<close>

definition calm :: "disk \<Rightarrow> bool" where
  "calm d \<longleftrightarrow> dk_outcomes d = []"

definition at_ease :: "journal \<Rightarrow> bool" where
  "at_ease j \<longleftrightarrow> journal_ok j \<and> is_clear (jn_pending j) \<and> calm (jn_disk j)"

lemma calm_next: "calm d \<Longrightarrow> next_outcome d = (IoFine, d)"
  by (simp add: calm_def next_outcome_def)

lemma calm_attempt: "calm d \<Longrightarrow> attempt d = (Inr (), d)"
  by (simp add: attempt_def calm_next)

lemma calm_write: "calm d \<Longrightarrow> write_at f bs offset d = (Inr (), put_bytes f (poke offset bs (file_bytes f d)) d)"
  by (simp add: write_at_def calm_next)

lemma calm_keeps [simp]: "calm (put_bytes f bs d) = calm d" "calm (adopt d) = calm d" "calm (d\<lparr>dk_path := bs, dk_detached := x\<rparr>) = calm d"
  by (auto simp: calm_def put_bytes_def adopt_def split: file_ref.split option.split)

subsection \<open>Opening\<close>

lemma load_calm:
  assumes calm: "calm d" and path: "dk_path d = journal_of prefix bodies"
    and f: "length prefix = DATA_START" "open_prefix prefix = Inr (h, images, active, slot)" "cs_generation slot < - 1"
      "\<forall>b\<in>set bodies. good_body (max_body_of config) b \<and> (\<exists>x. decode_body b = Inr x)"
      "\<forall>c\<in>set (counters_of bodies). fst c < - 1"
      "unat (cs_durable_end slot) \<le> length (journal_of prefix bodies)" "length (journal_of prefix bodies) \<le> usize_max"
  shows "\<exists>s. load_journal config rule d = (Inr s, d)"
proof -
  have torn: "torn_tail (max_body_of config) []" by (simp add: torn_tail_def)
  have small: "length (journal_of prefix bodies @ []) \<le> usize_max" using f(7) by simp
  obtain s r where s: "scan_journal (dk_path d) (length (dk_path d)) (max_body_of config) rule = Inr s"
    and fin: "scan_finish rule h images active slot (length (journal_of prefix bodies), None, r) = Inr s"
    using scanned_run[OF f(1,2) open_newest[OF f(2)] f(3,4,5) torn f(6) small, of rule] by (auto simp: path torn_cut_def)
  have "sn_truncation s = None" "\<not> sn_slots_stale s"
    using scan_finish_parts(7)[OF fin] scan_finish_generation(3)[OF fin] f(6) by simp_all
  moreover have "length (dk_path d) \<le> usize_max" using f(7) path by simp
  ultimately have "load_journal config rule d = (Inr s, d)"
    using s by (simp add: load_journal_def open_journal_file_def thenS_def liftS_def calm_attempt[OF calm])
  then show ?thesis by blast
qed

lemma opened_calm:
  assumes "load_journal config rule d0 = (Inr s, d0)" "calm d0"
    and "(if journal_exists then liftS (Inr ()) else if create then create_journal else liftS (Inl StoreIo)) d = (Inr (), d0)"
    and base: "fc_sync_policy config \<noteq> EveryN 0"
  shows "\<exists>j d'. open_journal config rule create journal_exists d = (Inr j, d') \<and> at_ease j \<and> jn_config j = config"
proof -
  define j where "j = journal_new config (adopt d0) s (flushes (fc_sync_policy config) \<or> rule = Salvage) shared_new"
  have op: "open_journal config rule create journal_exists d = (Inr j, d0)"
    using assms(1-3) by (simp add: open_journal_def thenS_def liftS_def sync_data_def calm_attempt j_def Let_def)
  have "is_clear (jn_pending j)" "calm (jn_disk j)"
    using assms(2) by (simp_all add: j_def journal_new_def is_clear_def pending_clear_def)
  then show ?thesis using op open_outcomes[OF op base] unfolding at_ease_def by blast
qed

lemma reopen_calm:
  assumes ok: "journal_ok j" "sound j" and path: "dk_path d = dk_path (jn_disk j)" and calm: "calm d"
  shows "\<exists>j' d'. open_journal (jn_config j) rule create True d = (Inr j', d') \<and> at_ease j' \<and> jn_config j' = jn_config j"
proof -
  obtain prefix bodies h slot where inv: "on_file j prefix bodies h slot" "fc_sync_policy (jn_config j) \<noteq> EveryN 0"
    using ok_backed[OF ok] .
  have f: "dk_path d = journal_of prefix bodies" "length prefix = DATA_START" "open_prefix prefix = Inr (h, jn_slots j, jn_active_slot j, slot)"
    "\<forall>b\<in>set bodies. good_body (max_body_of (jn_config j)) b \<and> (\<exists>x. decode_body b = Inr x)"
    "unat (cs_durable_end slot) \<le> length (journal_of prefix bodies)" "length (journal_of prefix bodies) \<le> usize_max"
    "\<forall>g\<in>set (slot_generations (jn_slots j)). g < jn_next_generation j" "\<forall>c\<in>set (counters_of bodies). fst c < jn_next_generation j"
    using inv(1) path unfolding on_file_def by simp_all
  have below: "g < jn_next_generation j \<Longrightarrow> g < - 1" for g
    by (erule order_less_le_trans) (rule word_order.extremum)
  have "cs_generation slot < - 1"
    using slot_generation_less[OF inv(1)] below by blast
  from load_calm[OF calm f(1-3) this f(4) _ f(5,6), of rule] f(8) below obtain s where
    "load_journal (jn_config j) rule d = (Inr s, d)" by blast
  then show ?thesis using opened_calm[OF _ calm, of "jn_config j" rule s True create d] inv(2) by (simp add: liftS_def)
qed

lemma write_replacement_calm:
  assumes "calm d" "length (encode_prefix h images) \<le> usize_max"
  shows "\<exists>d'. write_replacement h images d = (Inr (), d') \<and> calm d' \<and> dk_path d' = encode_prefix h images"
  using assms
  by (simp add: write_replacement_def replacement_create_def replacement_append_def replacement_finish_def rename_into_place_def
      rename_over_def thenS_def liftS_def calm_attempt usize_add_def ok_or_def)

lemma create_calm:
  assumes calm: "calm d" and base: "fc_sync_policy config \<noteq> EveryN 0"
  shows "\<exists>j d'. open_journal config rule True False d = (Inr j, d') \<and> at_ease j \<and> jn_config j = config"
proof -
  obtain images after where fr: "fresh_slots 0 1 1 (word_of_nat DATA_START) 0 False = Inr (images, after)"
    by (simp add: fresh_slots_def checked_add_def ok_or_def Let_def)
  let ?h = "\<lparr>jh_creation_time = uint (dk_clock d), jh_next_sender = 1, jh_next_target = 1\<rparr>"
  obtain s0 s1 where sl: "images = (encode_slot s0, encode_slot s1)" "newest_slot images = Inr (1, s1)"
      "s1 = \<lparr>cs_generation = 0 + 1, cs_next_sender = 1, cs_next_target = 1, cs_durable_end = word_of_nat DATA_START,
        cs_app_watermark = 0, cs_reset_owed = False\<rparr>" using fresh_slots_Inr[OF fr] by blast
  have clock: "0 \<le> jh_creation_time ?h" "jh_creation_time ?h < 2 ^ 63 * 1000000000" using clock_fits[of "dk_clock d"] by simp_all
  have lens: "length (fst images) = 52" "length (snd images) = 52" by (simp_all add: sl(1) length_encodings)
  note op = encoded_prefix_opens[OF clock lens sl(2)]
  obtain d0 where w: "write_replacement ?h images d = (Inr (), d0)" "calm d0" "dk_path d0 = encode_prefix ?h images"
    using write_replacement_calm[OF calm, of ?h images] op(1) by (auto simp: usize_max_def DATA_START_def)
  have create: "create_journal d = (Inr (), d0)"
    using fr w by (simp add: create_journal_def flush_directory_def thenS_def liftS_def calm_attempt)
  have path: "dk_path d0 = journal_of (encode_prefix ?h images) []" using w(3) by (simp add: journal_of_def)
  have small: "cs_generation s1 < - 1" by (simp add: sl(3) below_top)
  have de: "unat (cs_durable_end s1) \<le> length (journal_of (encode_prefix ?h images) [])"
    "length (journal_of (encode_prefix ?h images) []) \<le> usize_max"
    using op(1) by (simp_all add: sl(3) DATA_START_def journal_of_def usize_max_def)
  obtain s where "load_journal config rule d0 = (Inr s, d0)"
    using load_calm[OF w(2) path op small _ _ de, of config rule] by auto
  then show ?thesis using opened_calm[OF _ w(2), of config rule s False True d] create base by simp
qed

subsection \<open>Filing and reading\<close>

lemma clear_usable: "is_clear (jn_pending j) \<Longrightarrow> when_usable m j = m j"
  by (simp add: when_usable_eq)

lemma flush_calm:
  assumes "calm (jn_disk j)"
  shows "\<exists>j'. journal_flush j = (Inr (), j') \<and> jn_pending j' = jn_pending j \<and> calm (jn_disk j')"
  using assms by (simp add: journal_flush_def on_disk_def sync_data_def calm_attempt)

lemma after_write_calm:
  assumes "calm (jn_disk j)" "synced_in_time j"
  shows "\<exists>j'. after_write j = (Inr (), j') \<and> jn_pending j' = jn_pending j \<and> calm (jn_disk j')"
proof (cases "fc_sync_policy (jn_config j)")
  case (EveryN n)
  then have "jn_unsynced j < n" using assms(2) by (simp add: synced_in_time_def)
  then have "unat (jn_unsynced j) + unat (1 :: u32) < 2 ^ LENGTH(32)"
    using unsigned_less[of n, where ?'a = nat] by (simp add: word_less_nat_alt)
  then have "checked_add (jn_unsynced j) 1 = Some (jn_unsynced j + 1)" by (rule checked_add_eq)
  then show ?thesis
    using flush_calm[of "j\<lparr>jn_unsynced := jn_unsynced j + 1\<rparr>"] assms(1) EveryN by (simp add: after_write_def Let_def)
qed (use flush_calm assms(1) in \<open>simp_all add: after_write_def\<close>)

lemma append_calm:
  assumes "calm (jn_disk j)" "synced_in_time j" "jn_end j + length bs \<le> usize_max"
  shows "\<exists>j'. journal_append bs j = (Inr (jn_end j), j') \<and> jn_pending j' = jn_pending j \<and> calm (jn_disk j')"
proof -
  let ?j = "j\<lparr>jn_disk := put_bytes OpenFile (poke (jn_end j) bs (file_bytes OpenFile (jn_disk j))) (jn_disk j), jn_end := jn_end j + length bs\<rparr>"
  have "synced_in_time ?j" using assms(2) synced_cong[of ?j j] by simp
  from after_write_calm[OF _ this] assms(1) obtain j' where
    "after_write ?j = (Inr (), j')" "jn_pending j' = jn_pending j" "calm (jn_disk j')" by auto
  then show ?thesis
    using assms by (simp add: journal_append_def Let_def usize_add_def on_disk_def calm_write thenS_def liftS_def)
qed

lemma store_calm:
  assumes ease: "at_ease j" and enc: "encoded (jn_config j) seq None bs ty frame" and room: "jn_end j + length bs \<le> usize_max"
  shows "\<exists>j'. journal_run (CmdStore seq bs) j = (Inr AnswerDone, j') \<and> at_ease j'
    \<and> journal_view j' = (journal_view j)\<lparr>vw_messages := (vw_messages (journal_view j))(seq \<mapsto> (ty, frame))\<rparr>"
proof -
  have e: "journal_ok j" "is_clear (jn_pending j)" "calm (jn_disk j)" using ease by (simp_all add: at_ease_def)
  note s = clear_sound[OF e(2)]
  obtain prefix bodies h slot where inv: "on_file j prefix bodies h slot" using ok_backed[OF e(1) s] .
  have rec: "encode_frame_record_into seq None ty frame (fc_max_frame_size (jn_config j)) [] = (Inr (), bs)"
    using enc by (simp add: encoded_def)
  have takes: "\<not> takes_generation bs" using encoded_takes[OF rec] by simp
  have "length (seal_frame_record 0 bs) = length bs"
    using encoded_record[OF rec] sealed_record[OF rec, of 0] by (auto simp: length_record_image)
  with append_calm[OF e(3) on_file_synced[OF inv], of "seal_frame_record 0 bs"] room obtain j1 where
    j1: "journal_append (seal_frame_record 0 bs) j = (Inr (jn_end j), j1)" "jn_pending j1 = jn_pending j" "calm (jn_disk j1)" by auto
  obtain j' where j': "append_frame seq bs None j = (Inr (), j')" "jn_pending j' = jn_pending j" "calm (jn_disk j')"
  proof -
    obtain old ix where "index_insert seq \<lparr>ie_offset = word_of_nat (jn_end j), ie_body_len = record_body_len (seal_frame_record 0 bs)\<rparr>
        (jn_index j1) = (old, ix)" by fastforce
    then have "append_frame seq bs None j = (Inr (), note_replaced old (j1\<lparr>jn_index := ix\<rparr>))"
      using j1(1) takes by (simp add: append_frame_eq Let_def)
    moreover have "jn_pending (note_replaced old (j1\<lparr>jn_index := ix\<rparr>)) = jn_pending j"
      "calm (jn_disk (note_replaced old (j1\<lparr>jn_index := ix\<rparr>)))"
      using j1(2,3) by (simp_all add: note_replaced_def split: option.split)
    ultimately show ?thesis using that by blast
  qed
  have run: "journal_run (CmdStore seq bs) j = (Inr AnswerDone, j')"
    using j'(1) by (simp add: clear_usable[OF e(2)] done_after_Inr)
  have "legal (jn_config j) (CmdStore seq bs)" using enc legal.simps(1) by blast
  from answered_sound[OF run e(1) this] obtain ty' frame' where a: "journal_ok j'" "encoded (jn_config j) seq None bs ty' frame'"
      "journal_view j' = (journal_view j)\<lparr>vw_messages := (vw_messages (journal_view j))(seq \<mapsto> (ty', frame'))\<rparr>" by auto
  then show ?thesis using run j'(2,3) e(2) encoded_unique[OF enc a(2)] by (simp add: at_ease_def)
qed

lemma read_all_calm:
  assumes "calm (jn_disk j)" "\<forall>(q, e)\<in>set es. \<exists>m. read_frame (file_bytes OpenFile (jn_disk j)) q e = Inr m"
  shows "\<exists>ms. read_all es j = (Inr ms, j)"
  using assms
proof (induction es)
  case (Cons x es)
  then show ?case
    by (cases x) (auto simp: read_one_def thenS_def liftS_def on_disk_def calm_attempt)
qed (simp add: liftS_def)

lemma read_calm:
  assumes ease: "at_ease j"
  shows "\<exists>ms j'. journal_run (CmdRead lo hi n) j = (Inr (AnswerPage ms), j') \<and> at_ease j' \<and> journal_view j' = journal_view j
    \<and> page_of (vw_messages (journal_view j)) lo hi n ms"
proof -
  have e: "journal_ok j" "is_clear (jn_pending j)" "calm (jn_disk j)" using ease by (simp_all add: at_ease_def)
  note s = clear_sound[OF e(2)]
  obtain prefix bodies h slot where inv: "on_file j prefix bodies h slot" "indexed j bodies" using ok_backed[OF e(1) s] .
  have det: "dk_detached (jn_disk j) = None" using inv(1) unfolding on_file_def by (elim conjE)
  have l: "listing (index_get (jn_index j)) lo hi (frames_list (index_range (jn_index j) lo hi))"
    using inv(2) index_range_lists unfolding indexed_def by blast
  have "\<exists>ms. read_all (take n (frames_list (index_range (jn_index j) lo hi))) j = (Inr ms, j)"
    using l read_frame_on_file[OF inv] attached(1)[OF det, of OpenFile]
    by (intro read_all_calm[OF e(3)]) (auto simp: listing_def dest!: in_set_takeD)
  then obtain ms where "journal_read lo hi n j = (Inr ms, j)" by (auto simp: journal_read_def)
  then have run: "journal_run (CmdRead lo hi n) j = (Inr (AnswerPage ms), j)"
    by (simp add: clear_usable[OF e(2)] thenS_def liftS_def)
  then show ?thesis using answered_sound[OF run e(1)] ease by auto
qed

end
