(* ===== verification/Store_File_Properties.thy ===== *)
theory Store_File_Properties
  imports Store_Calm
begin

text \<open>
  The properties of the file store: its journal, the methods over it and the writer thread.  The
  disk may fail at any call of its own, and a failed write may have written a part of its bytes.
\<close>

subsection \<open>A store to show them on\<close>

definition sample_config :: file_store_config where
  "sample_config = \<lparr>fc_name = [], fc_sync_policy = EveryWrite, fc_max_frame_size = 100, fc_create_if_missing = True,
     fc_compaction_threshold = None\<rparr>"

definition empty_disk :: disk where
  "empty_disk = \<lparr>dk_path = [], dk_detached = None, dk_outcomes = [], dk_clock = 7\<rparr>"

definition new_view :: store_view where
  "new_view = \<lparr>vw_messages = Map.empty, vw_next_sender = 1, vw_next_target = 1, vw_reset_owed = False, vw_app_watermark = 0\<rparr>"

lemma empty_end:
  assumes "journal_ok j" "sound j" "vw_messages (journal_view j) = Map.empty"
  shows "jn_end j = DATA_START"
proof -
  obtain prefix bodies h slot where inv: "on_file j prefix bodies h slot" "indexed j bodies" using ok_backed[OF assms(1,2)] .
  have "stored_in bodies = Map.empty" using view_messages[OF inv] assms(3) by simp
  moreover have "stored_in (bs @ [b]) (rb_seq (projr (decode_body b))) \<noteq> None" for bs b by (simp add: stored_in_def)
  ultimately have "bodies \<noteq> bs @ [b]" for bs b by metis
  then have "bodies = []" by (cases bodies rule: rev_cases) blast+
  moreover have "jn_end j = length (journal_of prefix bodies)" "length prefix = DATA_START" using inv(1) unfolding on_file_def by blast+
  ultimately show ?thesis by (simp add: journal_of_def)
qed

lemma sample_policy: "fc_sync_policy sample_config \<noteq> EveryN 0" by (simp add: sample_config_def)
lemma empty_calm: "calm empty_disk" by (simp add: calm_def empty_disk_def)

lemma sample_store: "\<exists>j. at_ease j \<and> jn_config j = sample_config \<and> jn_end j = DATA_START"
proof -
  obtain j d where op: "open_journal sample_config (Tail 1) True False empty_disk = (Inr j, d)" "at_ease j" "jn_config j = sample_config"
    using create_calm[OF empty_calm sample_policy] by blast
  have "journal_ok j" "sound j" using op(2) clear_sound by (auto simp: at_ease_def)
  then show ?thesis using op created_empty[OF op(1) sample_policy] empty_end by auto
qed

lemma sample_encoded:
  "\<exists>bs. encoded sample_config 3 nxt bs Heartbeat [65] \<and> length bs \<le> 100"
proof -
  have made: "made_type Heartbeat" using sample_made by (simp add: sample_body_def)
  obtain bs where bs: "encode_frame_record_into 3 nxt Heartbeat [65] 100 [] = (Inr (), bs)"
    using encode_succeeds[of "[65]" 100 Heartbeat 3 nxt "[]"] made_code(1)[OF made] by auto
  then have "length bs \<le> 100"
    using encoded_record[OF bs] made_code(1)[OF made] by (auto simp: length_body_image unsealed_def split: option.splits)
  then show ?thesis using bs made by (auto simp: encoded_def sample_config_def)
qed

subsection \<open>Properties\<close>

text \<open>
  C6. The writer thread over the journal refines the store its callers see, whatever the disk does:
  every call in the queue is skipped, answered with exactly its effect, refused without one, or
  leaves the store stalled, and a stalled store changes only by a call that repairs it; the journal
  stays consistent with its file throughout.
\<close>
theorem writer_refines_store:
  assumes "writer_loop rqs (WriterOpen j) = (rs, st')" "journal_ok j"
    and "\<forall>rq\<in>set rqs. \<not> rq_abandoned rq \<longrightarrow> legal (jn_config j) (rq_command rq)"
  shows "store_run (jn_config j) (client_of (WriterOpen j)) rqs rs (client_of st') \<and> writer_ok (jn_config j) st'"
  using writer_loop_refines[OF assms(1) _ assms(3)] assms(2) by simp

text \<open>A frame filed, a call whose caller has gone, and a close, on a new store.\<close>
theorem writer_refines_store_witness:
  "\<exists>j bs rs st'. encoded (jn_config j) 3 (Some 4) bs Heartbeat [65]
     \<and> store_run (jn_config j) (Serving (journal_view j))
          [\<lparr>rq_command = CmdFileOutbound 3 bs 4, rq_abandoned = False\<rparr>, \<lparr>rq_command = CmdSync, rq_abandoned = True\<rparr>,
           \<lparr>rq_command = CmdClose, rq_abandoned = False\<rparr>] rs (client_of st')"
proof -
  obtain j where j: "at_ease j" "jn_config j = sample_config" using sample_store by blast
  obtain bs where bs: "encoded (jn_config j) 3 (Some 4) bs Heartbeat [65]" using sample_encoded[of "Some 4"] j(2) by auto
  let ?rqs = "[\<lparr>rq_command = CmdFileOutbound 3 bs 4, rq_abandoned = False\<rparr>, \<lparr>rq_command = CmdSync, rq_abandoned = True\<rparr>,
           \<lparr>rq_command = CmdClose, rq_abandoned = False\<rparr>]"
  obtain rs st' where run: "writer_loop ?rqs (WriterOpen j) = (rs, st')" by fastforce
  have ok: "journal_ok j" "sound j" using j(1) clear_sound by (auto simp: at_ease_def)
  have leg: "\<forall>rq\<in>set ?rqs. \<not> rq_abandoned rq \<longrightarrow> legal (jn_config j) (rq_command rq)" using bs by auto
  show ?thesis using writer_refines_store[OF run ok(1) leg] bs ok(2) by auto
qed

text \<open>
  C5. What a store acknowledged it gives back: after a frame was filed, alone or with the next sender
  number, and acknowledged, as long as no queued call files another under its number, resets, refreshes
  or marks an owed reset, every answered read of a range around it holds the frame, type and bytes
  unchanged, if its page has room for the numbers from the start of the range to the frame's; a smaller
  page may be full with earlier frames and then holds no others.  This whatever faults the disk had in
  between.
\<close>
theorem acknowledged_frame_is_read:
  assumes "writer_loop (rq # mid @ [rd]) (WriterOpen j) = (Some (Inr AnswerDone) # answers @ [Some (Inr (AnswerPage ms))], st')"
    and "journal_ok j" "\<forall>r\<in>set (rq # mid @ [rd]). \<not> rq_abandoned r \<longrightarrow> legal (jn_config j) (rq_command r)"
    and "rq_command rq = filing seq nxt bs" "encoded (jn_config j) seq nxt bs ty frame"
    and "\<forall>r\<in>set mid. spares seq (rq_command r)"
    and "rq_command rd = CmdRead lo hi n" "lo \<le> seq" "seq \<le> hi"
  shows "(unat seq - unat lo < n \<longrightarrow> message_at (seq, ty, frame) \<in> set ms)
    \<and> (message_at (seq, ty, frame) \<in> set ms \<or> (length ms = n \<and> (\<forall>m\<in>set ms. sm_seq_num m < seq)))"
proof -
  have len: "length answers = length mid" using writer_loop_answers[OF assms(1)] by simp
  have "store_run (jn_config j) (client_of (WriterOpen j)) (rq # mid @ [rd])
      (Some (Inr AnswerDone) # answers @ [Some (Inr (AnswerPage ms))]) (client_of st')"
    using writer_loop_refines[OF assms(1) _ assms(3)] assms(2) by simp
  then obtain c1 c2 where run: "store_step (jn_config j) (client_of (WriterOpen j)) rq (Some (Inr AnswerDone)) c1"
      "store_run (jn_config j) c1 mid answers c2" "store_step (jn_config j) c2 rd (Some (Inr (AnswerPage ms))) (client_of st')"
    using len by (auto simp: store_run_append)
  have "holds seq (ty, frame) c1"
    using run(1) filed_holds[OF _ assms(4,5)] by blast
  then have "holds seq (ty, frame) c2" using run_holds[OF run(2) _ assms(6)] by blast
  moreover obtain v where v: "c2 = Serving v" "page_of (vw_messages v) lo hi n ms"
    using read_step[OF run(3) assms(7)] by blast
  ultimately have held: "vw_messages v seq = Some (ty, frame)" by simp
  show ?thesis
    using page_holds[OF v(2) held assms(8,9)] page_room[OF v(2), of seq] by fastforce
qed

theorem acknowledged_frame_is_read_witness:
  "\<exists>j bs ms st'. writer_loop [\<lparr>rq_command = CmdStore 3 bs, rq_abandoned = False\<rparr>, \<lparr>rq_command = CmdRead 1 9 5, rq_abandoned = False\<rparr>]
       (WriterOpen j) = ([Some (Inr AnswerDone), Some (Inr (AnswerPage ms))], st')
     \<and> message_at (3, Heartbeat, [65]) \<in> set ms"
proof -
  obtain j where j: "at_ease j" "jn_config j = sample_config" "jn_end j = DATA_START" using sample_store by blast
  obtain bs where bs: "encoded (jn_config j) 3 None bs Heartbeat [65]" "length bs \<le> 100" using sample_encoded[of None] j(2) by auto
  have "jn_end j + length bs \<le> usize_max" using bs(2) j(3) by (simp add: DATA_START_def usize_max_def)
  from store_calm[OF j(1) bs(1) this] obtain j1 where j1: "journal_run (CmdStore 3 bs) j = (Inr AnswerDone, j1)" "at_ease j1" by blast
  obtain ms j2 where j2: "journal_run (CmdRead 1 9 5) j1 = (Inr (AnswerPage ms), j2)" using read_calm[OF j1(2)] by blast
  have due: "\<not> compaction_due j1" "\<not> compaction_due j2"
    using journal_run_steady[OF j1(1)] journal_run_steady[OF j2] j(2) by (simp_all add: compaction_due_def sample_config_def)
  let ?rq = "\<lparr>rq_command = CmdStore 3 bs, rq_abandoned = False\<rparr>" and ?rd = "\<lparr>rq_command = CmdRead 1 9 5, rq_abandoned = False\<rparr>"
  have run: "writer_loop (?rq # [] @ [?rd]) (WriterOpen j) = (Some (Inr AnswerDone) # [] @ [Some (Inr (AnswerPage ms))], WriterOpen j2)"
    using j1(1) j2 due by (simp add: writer_round_def writer_run_def del: journal_run.simps)
  have leg: "\<forall>r\<in>set (?rq # [] @ [?rd]). \<not> rq_abandoned r \<longrightarrow> legal (jn_config j) (rq_command r)" using bs(1) by auto
  have ok: "journal_ok j" using j(1) by (simp add: at_ease_def)
  from acknowledged_frame_is_read[OF run ok leg _ bs(1), of 1 9 5] have "message_at (3, Heartbeat, [65]) \<in> set ms" by simp
  then show ?thesis using run by auto
qed

text \<open>
  C37. Filing an outbound frame with the next sender number is one step: when it succeeds the frame is
  held under its number and the number is the next sender's, and when it fails on a store that is
  still usable neither has changed.
\<close>
theorem file_outbound_atomic:
  assumes "file_frame seq (Some m) ty frame j = (r, j')" "journal_ok j" "made_type ty"
  shows "journal_ok j'
    \<and> (if r = Inr ()
       then journal_view j' = (journal_view j)\<lparr>vw_messages := (vw_messages (journal_view j))(seq \<mapsto> (ty, frame)), vw_next_sender := m\<rparr>
       else sound j \<longrightarrow> sound j' \<longrightarrow> journal_view j' = journal_view j)"
proof (cases "r = Inr ()")
  case True
  then show ?thesis using file_frame_answered[of seq "Some m" ty frame j j'] file_frame_ok[of j ty seq "Some m" frame] assms by simp
next
  case False
  then show ?thesis using file_frame_refused[OF assms] file_frame_ok[OF assms(2,3), of seq "Some m" frame] assms(1) by simp
qed

text \<open>The same frame, on a new store.\<close>
theorem file_outbound_atomic_witness:
  "\<exists>j r j'. journal_ok j \<and> file_frame 3 (Some 4) Heartbeat [65] j = (r, j') \<and> journal_ok j'"
proof -
  obtain j where j: "journal_ok j" using sample_store unfolding at_ease_def by blast
  obtain r j' where call: "file_frame 3 (Some 4) Heartbeat [65] j = (r, j')" by fastforce
  have "made_type Heartbeat" using sample_made by (simp add: sample_body_def)
  then show ?thesis using file_outbound_atomic[OF call j] j call by blast
qed

text \<open>
  C13. A store survives a restart: if the process ends with the store usable and the disk works
  afterwards, opening the file again succeeds under every damage rule, and the store then holds the
  same messages, numbers and watermark; an owed reset is forgotten at most.
\<close>
theorem store_survives_restart:
  assumes "journal_ok j" "sound j" "dk_path d = dk_path (jn_disk j)" "calm d"
  shows "\<exists>j' d'. open_journal (jn_config j) rule create True d = (Inr j', d') \<and> journal_ok j' \<and> is_clear (jn_pending j')
    \<and> (\<exists>b. (b \<longrightarrow> vw_reset_owed (journal_view j)) \<and> journal_view j' = (journal_view j)\<lparr>vw_reset_owed := b\<rparr>)"
  using reopen_calm[OF assms, of rule create] reopened[OF assms(1-3)] unfolding at_ease_def by metis

theorem store_survives_restart_witness:
  "\<exists>j d j' d'. open_journal (jn_config j) Anywhere False True d = (Inr j', d') \<and> dk_path d = dk_path (jn_disk j)
     \<and> vw_messages (journal_view j) 3 = Some (Heartbeat, [65]) \<and> vw_messages (journal_view j') 3 = Some (Heartbeat, [65])"
proof -
  obtain j where j: "at_ease j" "jn_config j = sample_config" "jn_end j = DATA_START" using sample_store by blast
  obtain bs where bs: "encoded (jn_config j) 3 None bs Heartbeat [65]" "length bs \<le> 100" using sample_encoded[of None] j(2) by auto
  have "jn_end j + length bs \<le> usize_max" using bs(2) j(3) by (simp add: DATA_START_def usize_max_def)
  from store_calm[OF j(1) bs(1) this] obtain j1 where j1: "at_ease j1" "vw_messages (journal_view j1) 3 = Some (Heartbeat, [65])" by auto
  have "journal_ok j1" "sound j1" "calm (jn_disk j1)" using j1(1) clear_sound by (auto simp: at_ease_def)
  from store_survives_restart[OF this(1,2) refl this(3), of Anywhere False] j1(2) show ?thesis by fastforce
qed

text \<open>
  A missing store is created empty and ready where the disk works: opening it succeeds, its
  counters start at one, and a frame that fits is filed and read back at once.
\<close>
theorem created_store_ready:
  assumes "calm d" "fc_sync_policy config \<noteq> EveryN 0" "encoded config seq None bs ty frame" "DATA_START + length bs \<le> usize_max"
  shows "\<exists>j d' j1 j2. open_journal config rule True False d = (Inr j, d') \<and> journal_view j = new_view
    \<and> journal_run (CmdStore seq bs) j = (Inr AnswerDone, j1)
    \<and> journal_run (CmdRead seq seq 1) j1 = (Inr (AnswerPage [message_at (seq, ty, frame)]), j2)"
proof -
  obtain j d' where op: "open_journal config rule True False d = (Inr j, d')" "at_ease j" "jn_config j = config"
    using create_calm[OF assms(1,2)] by blast
  have view: "journal_view j = new_view" using created_empty[OF op(1) assms(2)] by (simp add: new_view_def)
  have "journal_ok j" "sound j" using op(2) clear_sound by (auto simp: at_ease_def)
  then have "jn_end j = DATA_START" using empty_end view by (simp add: new_view_def)
  then obtain j1 where j1: "journal_run (CmdStore seq bs) j = (Inr AnswerDone, j1)" "at_ease j1"
      "vw_messages (journal_view j1) seq = Some (ty, frame)"
    using store_calm[OF op(2), of seq bs ty frame] assms(3,4) op(3) by auto
  obtain ms j2 where j2: "journal_run (CmdRead seq seq 1) j1 = (Inr (AnswerPage ms), j2)"
      "page_of (vw_messages (journal_view j1)) seq seq 1 ms" using read_calm[OF j1(2)] by blast
  have "ms = [message_at (seq, ty, frame)]" by (rule page_of_one[OF j2(2) j1(3)])
  then show ?thesis using op(1) view j1(1) j2(1) by blast
qed

theorem created_store_ready_witness:
  "\<exists>bs j d'. open_journal sample_config Anywhere True False empty_disk = (Inr j, d') \<and> journal_view j = new_view"
proof -
  obtain bs where bs: "encoded sample_config 3 None bs Heartbeat [65]" "length bs \<le> 100" using sample_encoded[of None] by auto
  have "DATA_START + length bs \<le> usize_max" using bs(2) by (simp add: DATA_START_def usize_max_def)
  from created_store_ready[OF empty_calm sample_policy bs(1) this, of Anywhere] show ?thesis by blast
qed

end
