(* ===== verification/Store_Reply.thy ===== *)
theory Store_Reply
  imports Prelude
begin

text \<open>
  How a call reaches the writer thread and its answer comes back: the bounded queue, the reply
  cells and their pool.  Cells are numbers; what a cell holds is in \<open>ex_cells\<close>.  Every step is what
  one party does under one lock.  \<open>ex_waiting\<close> says which futures are still held, and for which
  command: the future itself holds the cell only, the command is there to state what it waits for.
\<close>

record 'a cell_state =
  cl_answer :: "'a option"
  cl_waker :: bool
  cl_abandoned :: bool

definition cell_new :: "'a cell_state" where
  "cell_new = \<lparr>cl_answer = None, cl_waker = False, cl_abandoned = False\<rparr>"

definition REPLY_CELL_POOL :: nat where "REPLY_CELL_POOL = 64"

record ('c, 'a) exchange =
  ex_cells :: "nat \<Rightarrow> 'a cell_state"
  ex_fresh :: nat
  ex_pool :: "nat list"
  ex_queue :: "('c \<times> nat) list"
  ex_running :: "('c \<times> nat) option"
  ex_waiting :: "nat \<Rightarrow> 'c option"
  ex_recycled :: "'c list"
  ex_capacity :: nat
  ex_connected :: bool

definition exchange_new :: "nat \<Rightarrow> ('c, 'a) exchange" where
  "exchange_new capacity =
    \<lparr>ex_cells = (\<lambda>_. cell_new), ex_fresh = 0, ex_pool = [], ex_queue = [], ex_running = None, ex_waiting = Map.empty,
     ex_recycled = [], ex_capacity = capacity, ex_connected = True\<rparr>"

subsection \<open>The pool\<close>

definition pool_take :: "('c, 'a) exchange \<Rightarrow> nat \<times> ('c, 'a) exchange" where
  "pool_take x =
    (case ex_pool x of
       cell # rest \<Rightarrow> (cell, x\<lparr>ex_pool := rest\<rparr>)
     | [] \<Rightarrow> (ex_fresh x, x\<lparr>ex_cells := (ex_cells x)(ex_fresh x := cell_new), ex_fresh := ex_fresh x + 1\<rparr>))"

definition pool_give :: "nat \<Rightarrow> ('c, 'a) exchange \<Rightarrow> ('c, 'a) exchange" where
  "pool_give cell x =
    (let x1 = x\<lparr>ex_cells := (ex_cells x)(cell := cell_new)\<rparr>
     in if length (ex_pool x1) < REPLY_CELL_POOL then x1\<lparr>ex_pool := cell # ex_pool x1\<rparr> else x1)"

subsection \<open>The writer's side\<close>

definition deliver :: "nat \<Rightarrow> 'a \<Rightarrow> ('c, 'a) exchange \<Rightarrow> ('c, 'a) exchange" where
  "deliver cell result x =
    (if cl_abandoned (ex_cells x cell) then pool_give cell x
     else x\<lparr>ex_cells := (ex_cells x)(cell := (ex_cells x cell)\<lparr>cl_answer := Some result, cl_waker := False\<rparr>)\<rparr>)"

definition ticket_abandoned :: "nat \<Rightarrow> ('c, 'a) exchange \<Rightarrow> bool" where
  "ticket_abandoned cell x = cl_abandoned (ex_cells x cell)"

definition discard :: "'c \<Rightarrow> ('c, 'a) exchange \<Rightarrow> ('c, 'a) exchange" where
  "discard command x = x\<lparr>ex_recycled := command # ex_recycled x\<rparr>"

text \<open>A ticket dropped unanswered answers that the store is closed.\<close>

definition ticket_drop :: "'a \<Rightarrow> nat \<Rightarrow> ('c, 'a) exchange \<Rightarrow> ('c, 'a) exchange" where
  "ticket_drop closed cell x = deliver cell closed x"

text \<open>The thread takes the next request: an abandoned one is skipped, any other is run.\<close>

definition take_request :: "'a \<Rightarrow> ('c, 'a) exchange \<Rightarrow> ('c, 'a) exchange" where
  "take_request closed x =
    (case ex_queue x of
       [] \<Rightarrow> x
     | (command, cell) # rest \<Rightarrow>
         (let x1 = x\<lparr>ex_queue := rest\<rparr>
          in if ticket_abandoned cell x1 then ticket_drop closed cell (discard command x1)
             else x1\<lparr>ex_running := Some (command, cell)\<rparr>))"

definition finish_request :: "'a \<Rightarrow> ('c, 'a) exchange \<Rightarrow> ('c, 'a) exchange" where
  "finish_request result x =
    (case ex_running x of None \<Rightarrow> x | Some (_, cell) \<Rightarrow> deliver cell result (x\<lparr>ex_running := None\<rparr>))"

text \<open>
  As the thread exits, it discards what is queued; once its end of the queue is gone, what a caller
  still managed to queue is dropped, and its ticket with it.
\<close>

fun drain :: "'a \<Rightarrow> ('c \<times> nat) list \<Rightarrow> ('c, 'a) exchange \<Rightarrow> ('c, 'a) exchange" where
  "drain closed [] x = x"
| "drain closed ((command, cell) # rest) x = drain closed rest (ticket_drop closed cell (discard command x))"

fun drop_all :: "'a \<Rightarrow> ('c \<times> nat) list \<Rightarrow> ('c, 'a) exchange \<Rightarrow> ('c, 'a) exchange" where
  "drop_all closed [] x = x"
| "drop_all closed ((command, cell) # rest) x = drop_all closed rest (ticket_drop closed cell x)"

definition thread_exit :: "'a \<Rightarrow> ('c, 'a) exchange \<Rightarrow> ('c, 'a) exchange" where
  "thread_exit closed x = drain closed (ex_queue x) (x\<lparr>ex_queue := []\<rparr>)"

definition disconnect :: "'a \<Rightarrow> ('c, 'a) exchange \<Rightarrow> ('c, 'a) exchange" where
  "disconnect closed x = drop_all closed (ex_queue x) (x\<lparr>ex_queue := [], ex_connected := False\<rparr>)"

subsection \<open>The caller's side\<close>

datatype call_error = QueueFull nat | StoreClosed

definition writer_call :: "'c \<Rightarrow> ('c, 'a) exchange \<Rightarrow> (call_error + nat) \<times> ('c, 'a) exchange" where
  "writer_call command x =
    (case pool_take x of (cell, x1) \<Rightarrow>
       if ex_connected x1 \<and> length (ex_queue x1) < ex_capacity x1
       then (Inr cell, x1\<lparr>ex_queue := ex_queue x1 @ [(command, cell)], ex_waiting := (ex_waiting x1)(cell := Some command)\<rparr>)
       else (Inl (if ex_connected x1 then QueueFull (ex_capacity x1) else StoreClosed), pool_give cell (discard command x1)))"

definition reply_poll :: "nat \<Rightarrow> ('c, 'a) exchange \<Rightarrow> 'a option \<times> ('c, 'a) exchange" where
  "reply_poll cell x =
    (case cl_answer (ex_cells x cell) of
       Some answer \<Rightarrow> (Some answer, pool_give cell (x\<lparr>ex_waiting := (ex_waiting x)(cell := None)\<rparr>))
     | None \<Rightarrow> (None, x\<lparr>ex_cells := (ex_cells x)(cell := (ex_cells x cell)\<lparr>cl_waker := True\<rparr>)\<rparr>))"

definition reply_drop :: "nat \<Rightarrow> ('c, 'a) exchange \<Rightarrow> ('c, 'a) exchange" where
  "reply_drop cell x =
    (let x1 = x\<lparr>ex_waiting := (ex_waiting x)(cell := None)\<rparr>
     in if cl_answer (ex_cells x1 cell) \<noteq> None then pool_give cell x1
        else x1\<lparr>ex_cells := (ex_cells x1)(cell := (ex_cells x1 cell)\<lparr>cl_abandoned := True, cl_waker := False\<rparr>)\<rparr>)"

subsection \<open>Runs\<close>

text \<open>
  \<open>outcome\<close> says what a command run by the thread may answer; \<open>closed\<close> is the answer of a closed store.
\<close>

inductive exchange_step :: "('c \<Rightarrow> 'a \<Rightarrow> bool) \<Rightarrow> 'a \<Rightarrow> ('c, 'a) exchange \<Rightarrow> ('c, 'a) exchange \<Rightarrow> bool"
  for outcome closed where
  called: "exchange_step outcome closed x (snd (writer_call command x))"
| polled: "ex_waiting x cell \<noteq> None \<Longrightarrow> exchange_step outcome closed x (snd (reply_poll cell x))"
| dropped: "ex_waiting x cell \<noteq> None \<Longrightarrow> exchange_step outcome closed x (reply_drop cell x)"
| taken: "ex_running x = None \<Longrightarrow> ex_connected x \<Longrightarrow> exchange_step outcome closed x (take_request closed x)"
| finished: "ex_running x = Some (command, cell) \<Longrightarrow> outcome command result \<or> result = closed
    \<Longrightarrow> exchange_step outcome closed x (finish_request result x)"
| exits: "ex_running x = None \<Longrightarrow> exchange_step outcome closed x (thread_exit closed x)"
| disconnects: "ex_running x = None \<Longrightarrow> exchange_step outcome closed x (disconnect closed x)"

inductive exchange_run :: "('c \<Rightarrow> 'a \<Rightarrow> bool) \<Rightarrow> 'a \<Rightarrow> nat \<Rightarrow> ('c, 'a) exchange \<Rightarrow> bool" for outcome closed capacity where
  start: "exchange_run outcome closed capacity (exchange_new capacity)"
| step: "exchange_run outcome closed capacity x \<Longrightarrow> exchange_step outcome closed x x' \<Longrightarrow> exchange_run outcome closed capacity x'"

definition requests :: "('c, 'a) exchange \<Rightarrow> ('c \<times> nat) list" where
  "requests x = ex_queue x @ (case ex_running x of None \<Rightarrow> [] | Some rq \<Rightarrow> [rq])"

subsection \<open>Who holds a cell\<close>

text \<open>
  What holds of one cell, given whether it is in the pool, the unanswered requests on it, and what
  its caller waits for: an idle cell is empty, and a waiting caller has its call queued, or running,
  or answered.  No two parties give back the same cell.
\<close>

definition cell_ok :: "('c \<Rightarrow> 'a \<Rightarrow> bool) \<Rightarrow> 'a \<Rightarrow> bool \<Rightarrow> 'c set \<Rightarrow> 'c option \<Rightarrow> 'a cell_state \<Rightarrow> bool" where
  "cell_ok outcome closed pooled ks waits s \<longleftrightarrow> (pooled \<longrightarrow> s = cell_new \<and> waits = None)
     \<and> (\<forall>k\<in>ks. cl_answer s = None \<and> waits = (if cl_abandoned s then None else Some k))
     \<and> (\<forall>k. waits = Some k \<longrightarrow> \<not> cl_abandoned s \<and> (k \<in> ks \<or> (\<exists>r. cl_answer s = Some r \<and> (outcome k r \<or> r = closed))))"

definition on_cell :: "('c \<times> nat) list \<Rightarrow> nat \<Rightarrow> 'c set" where
  "on_cell rqs cell = {k. (k, cell) \<in> set rqs}"

definition cells_ok :: "('c \<Rightarrow> 'a \<Rightarrow> bool) \<Rightarrow> 'a \<Rightarrow> ('c \<times> nat) list \<Rightarrow> nat list \<Rightarrow> (nat \<Rightarrow> 'c option) \<Rightarrow> (nat \<Rightarrow> 'a cell_state) \<Rightarrow> bool" where
  "cells_ok outcome closed rqs pool w cells \<longleftrightarrow> distinct (map snd rqs @ pool)
     \<and> (\<forall>cell. cell_ok outcome closed (cell \<in> set pool) (on_cell rqs cell) (w cell) (cells cell))"

definition idle :: "('c \<times> nat) list \<Rightarrow> nat list \<Rightarrow> (nat \<Rightarrow> 'c option) \<Rightarrow> nat \<Rightarrow> bool" where
  "idle rqs pool w cell \<longleftrightarrow> on_cell rqs cell = {} \<and> cell \<notin> set pool \<and> w cell = None"

lemma cells_change:
  assumes "cells_ok outcome closed rqs pool w cells" "distinct (map snd rqs' @ pool')"
    and "\<And>c. c \<noteq> cell \<Longrightarrow> cells' c = cells c \<and> w' c = w c \<and> (c \<in> set pool') = (c \<in> set pool) \<and> on_cell rqs' c = on_cell rqs c"
    and "cell_ok outcome closed (cell \<in> set pool') (on_cell rqs' cell) (w' cell) (cells' cell)"
  shows "cells_ok outcome closed rqs' pool' w' cells'"
  unfolding cells_ok_def
proof (intro conjI allI)
  fix c
  show "cell_ok outcome closed (c \<in> set pool') (on_cell rqs' c) (w' c) (cells' c)"
    using assms(1,3,4) by (cases "c = cell") (simp_all add: cells_ok_def)
qed (rule assms(2))

lemma on_cell_simps [simp]:
  "on_cell (as @ bs) c = on_cell as c \<union> on_cell bs c"
  "on_cell ((k, c') # bs) c = (if c = c' then insert k (on_cell bs c) else on_cell bs c)" "on_cell [] c = {}"
  by (auto simp: on_cell_def)

lemma on_cell_empty: "on_cell rqs c = {} \<longleftrightarrow> c \<notin> snd ` set rqs"
  by (force simp: on_cell_def)

lemma others:
  assumes "distinct (map snd (as @ (command, cell) # bs) @ pool)"
  shows "on_cell (as @ bs) cell = {}" "cell \<notin> set pool" "distinct (map snd (as @ bs) @ pool)"
  using assms on_cell_empty[of "as @ bs" cell] by auto

lemma cells_given:
  assumes "cells_ok outcome closed rqs pool w cells" "idle rqs pool w cell"
  shows "cells_ok outcome closed rqs (cell # pool) w (cells(cell := cell_new))" "cells_ok outcome closed rqs pool w (cells(cell := s))"
proof -
  have d: "distinct (map snd rqs @ cell # pool)" "distinct (map snd rqs @ pool)"
    using assms on_cell_empty[of rqs cell] by (auto simp: idle_def cells_ok_def)
  show "cells_ok outcome closed rqs (cell # pool) w (cells(cell := cell_new))"
    by (rule cells_change[OF assms(1) d(1), of cell]) (use assms(2) in \<open>simp_all add: idle_def cell_ok_def\<close>)
  show "cells_ok outcome closed rqs pool w (cells(cell := s))"
    by (rule cells_change[OF assms(1) d(2), of cell]) (use assms(2) in \<open>simp_all add: idle_def cell_ok_def\<close>)
qed

lemma cells_taken:
  assumes "cells_ok outcome closed rqs (cell # pool) w cells"
  shows "cells_ok outcome closed rqs pool w cells \<and> idle rqs pool w cell \<and> cells cell = cell_new"
proof -
  have d: "distinct (map snd rqs @ cell # pool)" and c: "cells cell = cell_new" "w cell = None"
    using assms by (auto simp: cells_ok_def cell_ok_def dest: spec[of _ cell])
  then have e: "on_cell rqs cell = {}" "cell \<notin> set pool" using on_cell_empty[of rqs cell] by auto
  have "cells_ok outcome closed rqs pool w cells"
    by (rule cells_change[OF assms, of _ _ cell]) (use d c e in \<open>auto simp: cell_ok_def\<close>)
  then show ?thesis using c e by (simp add: idle_def)
qed

lemma cells_queued:
  assumes "cells_ok outcome closed (as @ bs) pool w cells" "idle (as @ bs) pool w cell" "cells cell = cell_new"
  shows "cells_ok outcome closed (as @ (command, cell) # bs) pool (w(cell := Some command)) cells"
proof (rule cells_change[OF assms(1), of _ _ cell])
  show "distinct (map snd (as @ (command, cell) # bs) @ pool)"
    using assms on_cell_empty[of "as @ bs" cell] by (auto simp: idle_def cells_ok_def)
qed (use assms(2,3) in \<open>auto simp: idle_def cell_ok_def cell_new_def\<close>)

lemma request_cell:
  assumes "cells_ok outcome closed (as @ (command, cell) # bs) pool w cells"
  shows "cl_answer (cells cell) = None" "w cell = (if cl_abandoned (cells cell) then None else Some command)"
  using assms by (auto simp: cells_ok_def cell_ok_def dest: spec[of _ cell])

lemma cells_skipped:
  assumes "cells_ok outcome closed (as @ (command, cell) # bs) pool w cells" "cl_abandoned (cells cell)"
  shows "cells_ok outcome closed (as @ bs) pool w cells \<and> idle (as @ bs) pool w cell"
proof -
  have "distinct (map snd (as @ (command, cell) # bs) @ pool)" using assms(1) by (simp add: cells_ok_def)
  note o = others[OF this] and none = request_cell(2)[OF assms(1)]
  have "cells_ok outcome closed (as @ bs) pool w cells"
    by (rule cells_change[OF assms(1) o(3), of cell]) (use o none assms(2) in \<open>auto simp: cell_ok_def\<close>)
  then show ?thesis using o none assms(2) by (simp add: idle_def)
qed

lemma cells_answered:
  assumes "cells_ok outcome closed (as @ (command, cell) # bs) pool w cells" "\<not> cl_abandoned (cells cell)"
    and r: "outcome command r \<or> r = closed"
  shows "cells_ok outcome closed (as @ bs) pool w (cells(cell := (cells cell)\<lparr>cl_answer := Some r, cl_waker := False\<rparr>))"
proof -
  have "distinct (map snd (as @ (command, cell) # bs) @ pool)" using assms(1) by (simp add: cells_ok_def)
  note o = others[OF this] and some = request_cell(2)[OF assms(1)]
  show ?thesis by (rule cells_change[OF assms(1) o(3), of cell]) (use o some assms(2) r in \<open>auto simp: cell_ok_def\<close>)
qed

lemma waiting_cell:
  assumes "cells_ok outcome closed rqs pool w cells" "w cell = Some command"
  shows "\<not> cl_abandoned (cells cell)" "cell \<notin> set pool" "cl_answer (cells cell) = None \<Longrightarrow> on_cell rqs cell = {command}"
    and "cl_answer (cells cell) = Some r \<Longrightarrow> on_cell rqs cell = {} \<and> (outcome command r \<or> r = closed)"
proof -
  have c: "cell_ok outcome closed (cell \<in> set pool) (on_cell rqs cell) (w cell) (cells cell)" using assms(1) by (simp add: cells_ok_def)
  then show nab: "\<not> cl_abandoned (cells cell)" and "cell \<notin> set pool" using assms(2) by (auto simp: cell_ok_def)
  show "on_cell rqs cell = {command}" if "cl_answer (cells cell) = None"
  proof -
    have "command \<in> on_cell rqs cell" "\<forall>k\<in>on_cell rqs cell. k = command"
      using c assms(2) that nab by (auto simp: cell_ok_def)
    then show ?thesis by blast
  qed
  show "cl_answer (cells cell) = Some r \<Longrightarrow> on_cell rqs cell = {} \<and> (outcome command r \<or> r = closed)"
    using c assms(2) by (auto simp: cell_ok_def)
qed

lemma cells_picked_up:
  assumes ok: "cells_ok outcome closed rqs pool w cells" and some: "w cell = Some command" and ans: "cl_answer (cells cell) = Some r"
  shows "cells_ok outcome closed rqs pool (w(cell := None)) cells \<and> idle rqs pool (w(cell := None)) cell
    \<and> (outcome command r \<or> r = closed)"
proof -
  note k = waiting_cell[OF ok some]
  have d: "distinct (map snd rqs @ pool)" using ok by (simp add: cells_ok_def)
  have "cells_ok outcome closed rqs pool (w(cell := None)) cells"
    by (rule cells_change[OF ok d, of cell]) (use k(2,4) ans in \<open>auto simp: cell_ok_def\<close>)
  then show ?thesis using k(2,4) ans by (simp add: idle_def)
qed

lemma cells_waker:
  assumes ok: "cells_ok outcome closed rqs pool w cells" and some: "w cell = Some command" and ans: "cl_answer (cells cell) = None"
  shows "cells_ok outcome closed rqs pool w (cells(cell := (cells cell)\<lparr>cl_waker := True\<rparr>))"
    and "cells_ok outcome closed rqs pool (w(cell := None)) (cells(cell := (cells cell)\<lparr>cl_abandoned := True, cl_waker := False\<rparr>))"
proof -
  note k = waiting_cell[OF ok some]
  have d: "distinct (map snd rqs @ pool)" using ok by (simp add: cells_ok_def)
  show "cells_ok outcome closed rqs pool w (cells(cell := (cells cell)\<lparr>cl_waker := True\<rparr>))"
    by (rule cells_change[OF ok d, of cell]) (use k some ans in \<open>auto simp: cell_ok_def\<close>)
  show "cells_ok outcome closed rqs pool (w(cell := None)) (cells(cell := (cells cell)\<lparr>cl_abandoned := True, cl_waker := False\<rparr>))"
    by (rule cells_change[OF ok d, of cell]) (use k some ans in \<open>auto simp: cell_ok_def\<close>)
qed

subsection \<open>The invariant\<close>

definition held_ok :: "('c \<Rightarrow> 'a \<Rightarrow> bool) \<Rightarrow> 'a \<Rightarrow> ('c \<times> nat) list \<Rightarrow> ('c, 'a) exchange \<Rightarrow> bool" where
  "held_ok outcome closed rqs x \<longleftrightarrow> cells_ok outcome closed rqs (ex_pool x) (ex_waiting x) (ex_cells x)
     \<and> (\<forall>cell. \<not> idle rqs (ex_pool x) (ex_waiting x) cell \<longrightarrow> cell < ex_fresh x) \<and> length (ex_pool x) \<le> REPLY_CELL_POOL"

definition exchange_ok :: "('c \<Rightarrow> 'a \<Rightarrow> bool) \<Rightarrow> 'a \<Rightarrow> ('c, 'a) exchange \<Rightarrow> bool" where
  "exchange_ok outcome closed x \<longleftrightarrow> held_ok outcome closed (requests x) x \<and> length (ex_queue x) \<le> ex_capacity x
     \<and> (\<not> ex_connected x \<longrightarrow> requests x = [])"

lemma pool_give_keeps [simp]:
  "ex_queue (pool_give cell x) = ex_queue x" "ex_running (pool_give cell x) = ex_running x"
  "ex_waiting (pool_give cell x) = ex_waiting x" "ex_fresh (pool_give cell x) = ex_fresh x"
  "ex_capacity (pool_give cell x) = ex_capacity x" "ex_connected (pool_give cell x) = ex_connected x"
  "ex_recycled (pool_give cell x) = ex_recycled x" "requests (pool_give cell x) = requests x"
  by (simp_all add: pool_give_def Let_def requests_def)

lemma deliver_keeps [simp]:
  "ex_queue (deliver cell r x) = ex_queue x" "ex_running (deliver cell r x) = ex_running x"
  "ex_waiting (deliver cell r x) = ex_waiting x" "ex_fresh (deliver cell r x) = ex_fresh x"
  "ex_capacity (deliver cell r x) = ex_capacity x" "ex_connected (deliver cell r x) = ex_connected x"
  "ex_recycled (deliver cell r x) = ex_recycled x" "requests (deliver cell r x) = requests x"
  by (simp_all add: deliver_def requests_def)

lemma discard_keeps [simp]:
  "held_ok outcome closed rqs (discard command x) = held_ok outcome closed rqs x" "ex_queue (discard command x) = ex_queue x"
  "ex_running (discard command x) = ex_running x" "ex_capacity (discard command x) = ex_capacity x"
  "ex_connected (discard command x) = ex_connected x" "requests (discard command x) = requests x"
  "ex_waiting (discard command x) = ex_waiting x" "ex_pool (discard command x) = ex_pool x" "ex_fresh (discard command x) = ex_fresh x"
  "ex_cells (discard command x) = ex_cells x"
  by (simp_all add: discard_def held_ok_def requests_def)

lemma pool_give_held:
  assumes "held_ok outcome closed rqs x" "idle rqs (ex_pool x) (ex_waiting x) cell" "cell < ex_fresh x"
  shows "held_ok outcome closed rqs (pool_give cell x)"
  using assms cells_given[of outcome closed rqs "ex_pool x" "ex_waiting x" "ex_cells x" cell]
  by (auto simp: held_ok_def pool_give_def Let_def idle_def)

lemma pool_give_ok:
  assumes "exchange_ok outcome closed x" "idle (requests x) (ex_pool x) (ex_waiting x) cell" "cell < ex_fresh x"
  shows "exchange_ok outcome closed (pool_give cell x)"
  using assms pool_give_held[of outcome closed "requests x" x cell] by (simp add: exchange_ok_def)

lemma deliver_held:
  assumes ok: "held_ok outcome closed (as @ (command, cell) # bs) x" and r: "outcome command r \<or> r = closed"
  shows "held_ok outcome closed (as @ bs) (deliver cell r x)"
proof -
  have c: "cells_ok outcome closed (as @ (command, cell) # bs) (ex_pool x) (ex_waiting x) (ex_cells x)"
    and fresh: "cell < ex_fresh x" and bound: "\<And>k. \<not> idle (as @ bs) (ex_pool x) (ex_waiting x) k \<Longrightarrow> k < ex_fresh x"
    and len: "length (ex_pool x) \<le> REPLY_CELL_POOL"
    using ok by (auto simp: held_ok_def idle_def)
  show ?thesis
  proof (cases "cl_abandoned (ex_cells x cell)")
    case True
    then have "held_ok outcome closed (as @ bs) x" "idle (as @ bs) (ex_pool x) (ex_waiting x) cell"
      using cells_skipped[OF c] bound len by (auto simp: held_ok_def)
    then show ?thesis using True fresh pool_give_held by (simp add: deliver_def)
  next
    case False
    then show ?thesis using cells_answered[OF c False r] bound len by (auto simp: held_ok_def deliver_def)
  qed
qed

lemma pool_take_ok:
  assumes ok: "exchange_ok outcome closed x" and t: "pool_take x = (cell, x')"
  shows "exchange_ok outcome closed x' \<and> idle (requests x') (ex_pool x') (ex_waiting x') cell \<and> cell < ex_fresh x' \<and> ex_cells x' cell = cell_new"
proof (cases "ex_pool x")
  case Nil
  then have x': "cell = ex_fresh x" "x' = x\<lparr>ex_cells := (ex_cells x)(ex_fresh x := cell_new), ex_fresh := ex_fresh x + 1\<rparr>"
    using t by (auto simp: pool_take_def)
  have i: "idle (requests x) (ex_pool x) (ex_waiting x) cell" using ok x'(1) by (auto simp: exchange_ok_def held_ok_def)
  have "exchange_ok outcome closed x'"
    using ok cells_given(2)[OF _ i] x' by (auto simp: exchange_ok_def held_ok_def requests_def intro: less_SucI)
  then show ?thesis using i x' by (simp add: requests_def)
next
  case (Cons c rest)
  then have x': "cell = c" "x' = x\<lparr>ex_pool := rest\<rparr>" using t by (auto simp: pool_take_def)
  have "cells_ok outcome closed (requests x) (cell # rest) (ex_waiting x) (ex_cells x)" using ok Cons x'(1) by (simp add: exchange_ok_def held_ok_def)
  note k = cells_taken[OF this]
  moreover have "cell < ex_fresh x" using ok Cons x'(1) by (auto simp: exchange_ok_def held_ok_def idle_def)
  ultimately show ?thesis using ok Cons x' by (auto simp: exchange_ok_def held_ok_def requests_def idle_def)
qed

lemma call_ok:
  assumes ok: "exchange_ok outcome closed x"
  shows "exchange_ok outcome closed (snd (writer_call command x))"
proof -
  obtain cell x1 where t: "pool_take x = (cell, x1)" by fastforce
  have x1: "exchange_ok outcome closed x1" "idle (requests x1) (ex_pool x1) (ex_waiting x1) cell" "cell < ex_fresh x1"
      "ex_cells x1 cell = cell_new"
    using pool_take_ok[OF ok t] by blast+
  show ?thesis
  proof (cases "ex_connected x1 \<and> length (ex_queue x1) < ex_capacity x1")
    case True
    let ?x = "x1\<lparr>ex_queue := ex_queue x1 @ [(command, cell)], ex_waiting := (ex_waiting x1)(cell := Some command)\<rparr>"
    have "cells_ok outcome closed (ex_queue x1 @ (command, cell) # (case ex_running x1 of None \<Rightarrow> [] | Some rq \<Rightarrow> [rq]))
        (ex_pool x1) ((ex_waiting x1)(cell := Some command)) (ex_cells x1)"
      by (rule cells_queued) (use x1 in \<open>simp_all add: exchange_ok_def held_ok_def requests_def\<close>)
    moreover have "requests ?x = ex_queue x1 @ (command, cell) # (case ex_running x1 of None \<Rightarrow> [] | Some rq \<Rightarrow> [rq])"
      by (simp add: requests_def)
    moreover have "c < ex_fresh x1" if "\<not> idle (requests ?x) (ex_pool x1) ((ex_waiting x1)(cell := Some command)) c" for c
      using x1(1,3) that by (cases "c = cell") (auto simp: exchange_ok_def held_ok_def idle_def requests_def)
    ultimately have "exchange_ok outcome closed ?x" using x1(1) True by (auto simp: exchange_ok_def held_ok_def)
    then show ?thesis using True by (simp add: writer_call_def t)
  next
    case False
    have "exchange_ok outcome closed (discard command x1)" using x1(1) by (simp add: exchange_ok_def)
    then have "exchange_ok outcome closed (pool_give cell (discard command x1))"
      by (rule pool_give_ok) (use x1(2,3) in \<open>simp_all add: discard_def requests_def\<close>)
    then show ?thesis using False by (auto simp: writer_call_def t)
  qed
qed

lemma reply_ok:
  assumes ok: "exchange_ok outcome closed x" and some: "ex_waiting x cell = Some command"
  shows "exchange_ok outcome closed (snd (reply_poll cell x)) \<and> exchange_ok outcome closed (reply_drop cell x)
    \<and> (\<forall>r. fst (reply_poll cell x) = Some r \<longrightarrow> outcome command r \<or> r = closed)"
proof -
  have c: "cells_ok outcome closed (requests x) (ex_pool x) (ex_waiting x) (ex_cells x)" using ok by (simp add: exchange_ok_def held_ok_def)
  have fresh: "cell < ex_fresh x" using ok some by (auto simp: exchange_ok_def held_ok_def idle_def)
  show ?thesis
  proof (cases "cl_answer (ex_cells x cell)")
    case None
    have "exchange_ok outcome closed (x\<lparr>ex_cells := (ex_cells x)(cell := (ex_cells x cell)\<lparr>cl_waker := True\<rparr>)\<rparr>)"
      using ok cells_waker(1)[OF c some None] by (simp add: exchange_ok_def held_ok_def requests_def)
    moreover have "exchange_ok outcome closed (x\<lparr>ex_waiting := (ex_waiting x)(cell := None),
        ex_cells := (ex_cells x)(cell := (ex_cells x cell)\<lparr>cl_abandoned := True, cl_waker := False\<rparr>)\<rparr>)"
      using ok cells_waker(2)[OF c some None] by (auto simp: exchange_ok_def held_ok_def requests_def idle_def)
    ultimately show ?thesis using None by (simp add: reply_poll_def reply_drop_def Let_def)
  next
    case (Some r)
    let ?x = "x\<lparr>ex_waiting := (ex_waiting x)(cell := None)\<rparr>"
    note p = cells_picked_up[OF c some Some]
    have "exchange_ok outcome closed ?x" using ok p by (auto simp: exchange_ok_def held_ok_def requests_def idle_def)
    then have "exchange_ok outcome closed (pool_give cell ?x)"
      by (rule pool_give_ok) (use p fresh in \<open>simp_all add: requests_def\<close>)
    then show ?thesis using Some p by (simp add: reply_poll_def reply_drop_def Let_def)
  qed
qed

lemma held_swap: "held_ok outcome closed (rq # rqs) x \<Longrightarrow> held_ok outcome closed (rqs @ [rq]) x"
proof -
  have "on_cell (rqs @ [rq]) = on_cell (rq # rqs)" by (auto simp: on_cell_def fun_eq_iff)
  then show "held_ok outcome closed (rq # rqs) x \<Longrightarrow> held_ok outcome closed (rqs @ [rq]) x"
    by (auto simp: held_ok_def cells_ok_def idle_def)
qed

lemma drain_held:
  "held_ok outcome closed rqs x \<Longrightarrow> held_ok outcome closed [] (drain closed rqs x) \<and> ex_queue (drain closed rqs x) = ex_queue x
    \<and> ex_running (drain closed rqs x) = ex_running x \<and> ex_waiting (drain closed rqs x) = ex_waiting x"
  by (induction closed rqs x rule: drain.induct)
    (use deliver_held[of outcome _ "[]"] in \<open>fastforce simp: ticket_drop_def\<close>)+

lemma drop_all_held:
  "held_ok outcome closed rqs x \<Longrightarrow> held_ok outcome closed [] (drop_all closed rqs x) \<and> ex_queue (drop_all closed rqs x) = ex_queue x
    \<and> ex_running (drop_all closed rqs x) = ex_running x \<and> ex_waiting (drop_all closed rqs x) = ex_waiting x"
  by (induction closed rqs x rule: drop_all.induct)
    (use deliver_held[of outcome _ "[]"] in \<open>fastforce simp: ticket_drop_def\<close>)+

lemma thread_ok:
  assumes ok: "exchange_ok outcome closed x"
  shows "ex_running x = None \<Longrightarrow> exchange_ok outcome closed (take_request closed x)"
    and "ex_running x = Some (command, cell) \<Longrightarrow> outcome command r \<or> r = closed \<Longrightarrow> exchange_ok outcome closed (finish_request r x)"
    and "ex_running x = None \<Longrightarrow> exchange_ok outcome closed (thread_exit closed x)"
    and "ex_running x = None \<Longrightarrow> exchange_ok outcome closed (disconnect closed x)"
proof -
  have h: "held_ok outcome closed (requests x) x" and q: "length (ex_queue x) \<le> ex_capacity x"
    and con: "\<not> ex_connected x \<Longrightarrow> requests x = []" using ok by (simp_all add: exchange_ok_def)
  have same: "held_ok outcome closed rqs (y\<lparr>ex_queue := a\<rparr>) = held_ok outcome closed rqs y"
    "held_ok outcome closed rqs (y\<lparr>ex_running := b\<rparr>) = held_ok outcome closed rqs y"
    "held_ok outcome closed rqs (y\<lparr>ex_connected := d\<rparr>) = held_ok outcome closed rqs y" for rqs a b d and y :: "('a, 'b) exchange"
    by (simp_all add: held_ok_def)
  show "exchange_ok outcome closed (finish_request r x)" if run: "ex_running x = Some (command, cell)" and r: "outcome command r \<or> r = closed"
  proof -
    have "held_ok outcome closed (ex_queue x @ (command, cell) # []) (x\<lparr>ex_running := None\<rparr>)" using h run by (simp add: requests_def same)
    moreover have "ex_connected x" using con run by (auto simp: requests_def)
    ultimately show ?thesis using deliver_held[of outcome closed "ex_queue x" command cell "[]" "x\<lparr>ex_running := None\<rparr>" r] r q run
      by (simp add: exchange_ok_def finish_request_def requests_def)
  qed
  assume none: "ex_running x = None"
  then have hq: "held_ok outcome closed (ex_queue x) x" using h by (simp add: requests_def)
  show "exchange_ok outcome closed (take_request closed x)"
  proof (cases "ex_queue x")
    case (Cons rq rest)
    obtain command cell where rq: "rq = (command, cell)" by (cases rq)
    have conn: "ex_connected x" using con Cons by (auto simp: requests_def)
    have d: "held_ok outcome closed (rest @ [(command, cell)]) x \<and> held_ok outcome closed ([] @ (command, cell) # rest) x"
      using hq Cons rq held_swap[of outcome closed "(command, cell)" rest x] by simp
    have "exchange_ok outcome closed (deliver cell closed (discard command (x\<lparr>ex_queue := rest\<rparr>)))"
      using deliver_held[of outcome closed "[]" command cell rest "discard command (x\<lparr>ex_queue := rest\<rparr>)" closed] d q conn none Cons
      by (simp add: exchange_ok_def same) (auto simp: requests_def)
    moreover have "exchange_ok outcome closed (x\<lparr>ex_queue := rest, ex_running := Some (command, cell)\<rparr>)"
      using d q conn none Cons by (simp add: exchange_ok_def requests_def same)
    ultimately show ?thesis by (simp add: take_request_def Cons rq Let_def ticket_drop_def)
  qed (use ok in \<open>simp add: take_request_def\<close>)
  show "exchange_ok outcome closed (thread_exit closed x)"
    using drain_held[of outcome closed "ex_queue x" "x\<lparr>ex_queue := []\<rparr>"] hq none
    by (simp add: thread_exit_def exchange_ok_def requests_def same)
  show "exchange_ok outcome closed (disconnect closed x)"
    using drop_all_held[of outcome closed "ex_queue x" "x\<lparr>ex_queue := [], ex_connected := False\<rparr>"] hq none
    by (simp add: disconnect_def exchange_ok_def requests_def same)
qed

lemma exchange_step_ok: "exchange_step outcome closed x x' \<Longrightarrow> exchange_ok outcome closed x \<Longrightarrow> exchange_ok outcome closed x'"
proof (induction rule: exchange_step.induct)
  case (polled x cell)
  then show ?case using reply_ok[of outcome closed x cell] by blast
next
  case (dropped x cell)
  then show ?case using reply_ok[of outcome closed x cell] by blast
qed (simp_all add: call_ok thread_ok)

lemma exchange_run_ok: "exchange_run outcome closed capacity x \<Longrightarrow> exchange_ok outcome closed x"
proof (induction rule: exchange_run.induct)
  case start
  show ?case by (simp add: exchange_ok_def held_ok_def cells_ok_def cell_ok_def exchange_new_def requests_def idle_def on_cell_def)
next
  case (step x x')
  show ?case by (rule exchange_step_ok[OF step(2) step(3)])
qed

subsection \<open>Properties\<close>

text \<open>
  C36. No call is left without its answer and no caller gets another's: in every state the queue, the
  thread and the callers can reach, a caller that is still waiting has its command queued, or being
  run, or finds in its cell an answer the command may have, or that the store is closed; once the
  thread has gone every waiting caller has an answer.  No cell is held twice, the idle ones are empty
  and at most 64 of them are kept.
\<close>
theorem every_call_answered:
  assumes "exchange_run outcome closed capacity x" "ex_waiting x cell = Some command"
  shows "((command, cell) \<in> set (requests x)
       \<or> (\<exists>r. cl_answer (ex_cells x cell) = Some r \<and> (outcome command r \<or> r = closed)))
    \<and> (\<forall>r. fst (reply_poll cell x) = Some r \<longrightarrow> outcome command r \<or> r = closed)
    \<and> (\<not> ex_connected x \<longrightarrow> cl_answer (ex_cells x cell) \<noteq> None)
    \<and> distinct (map snd (requests x) @ ex_pool x) \<and> length (ex_pool x) \<le> REPLY_CELL_POOL
    \<and> (\<forall>i\<in>set (ex_pool x). ex_cells x i = cell_new \<and> ex_waiting x i = None)"
proof -
  have ok: "exchange_ok outcome closed x" by (rule exchange_run_ok[OF assms(1)])
  then have c: "cells_ok outcome closed (requests x) (ex_pool x) (ex_waiting x) (ex_cells x)"
    and gone: "\<not> ex_connected x \<Longrightarrow> requests x = []" and len: "length (ex_pool x) \<le> REPLY_CELL_POOL"
    by (simp_all add: exchange_ok_def held_ok_def)
  have here: "(command, cell) \<in> set (requests x)
       \<or> (\<exists>r. cl_answer (ex_cells x cell) = Some r \<and> (outcome command r \<or> r = closed))"
    using waiting_cell(3,4)[OF c assms(2)] by (cases "cl_answer (ex_cells x cell)") (auto simp: on_cell_def)
  have "distinct (map snd (requests x) @ ex_pool x)" "\<forall>i\<in>set (ex_pool x). ex_cells x i = cell_new \<and> ex_waiting x i = None"
    using c by (auto simp: cells_ok_def cell_ok_def)
  then show ?thesis using here gone len reply_ok[OF ok assms(2)] by auto
qed

text \<open>A call queued, run and answered; the caller then finds its answer.\<close>
theorem every_call_answered_witness:
  "let x = finish_request (7 :: nat) (take_request 0 (snd (writer_call (3 :: nat) (exchange_new 2))))
   in ex_waiting x 0 = Some 3 \<and> (\<exists>r. cl_answer (ex_cells x 0) = Some r \<and> (r = 3 + 4 \<or> r = 0))"
proof -
  let ?out = "\<lambda>c r. r = c + (4 :: nat)"
  let ?x1 = "snd (writer_call (3 :: nat) (exchange_new 2)) :: (nat, nat) exchange"
  let ?x2 = "take_request 0 ?x1" and ?x3 = "finish_request 7 (take_request 0 ?x1)"
  have eval: "ex_running ?x1 = None" "ex_connected ?x1" "ex_running ?x2 = Some (3, 0)" "ex_waiting ?x3 0 = Some 3" "requests ?x3 = []"
    by (simp_all add: writer_call_def pool_take_def exchange_new_def take_request_def ticket_abandoned_def cell_new_def Let_def
        finish_request_def deliver_def requests_def)
  have "exchange_run ?out 0 2 ?x1" by (intro exchange_run.step[OF exchange_run.start] exchange_step.called)
  then have "exchange_run ?out 0 2 ?x2" by (rule exchange_run.step) (rule exchange_step.taken[OF eval(1,2)])
  then have "exchange_run ?out 0 2 ?x3" by (rule exchange_run.step) (rule exchange_step.finished[OF eval(3)], simp)
  from every_call_answered[OF this eval(4)] eval(4,5) show ?thesis by simp
qed

end
