(* ===== verification/Fixp_Types.thy ===== *)
theory Fixp_Types
  imports Std_Model
begin

text \<open>
  The values of a FIXP session (\<^verbatim>\<open>ironfix-fixp/src\<close>): flows and codes (\<^verbatim>\<open>types.rs\<close>), the session
  messages (\<^verbatim>\<open>messages.rs\<close>), what a session puts out (\<^verbatim>\<open>output.rs\<close>), its errors, its configuration
  and the clock its requests are stamped with.  A session identifier is its sixteen bytes, a
  \<^verbatim>\<open>Nanotime\<close> its 64-bit count, a \<^verbatim>\<open>SeqNum\<close> its number.
\<close>

subsection \<open>Flows, codes and identifiers\<close>

type_synonym session_id = bytes
type_synonym nanotime = u64

definition NIL_SESSION :: session_id where "NIL_SESSION = replicate 16 0"

definition session_id_is_nil :: "session_id \<Rightarrow> bool" where
  "session_id_is_nil s \<longleftrightarrow> foldl (\<lambda>acc b. acc * 256 + unat b) 0 s = 0"

definition MAX_VAR_DATA_LEN :: usize where "MAX_VAR_DATA_LEN = 65534"

datatype flow_type = FlowRecoverable | FlowIdempotent | FlowUnsequenced | FlowNone

fun flow_as_u8 :: "flow_type \<Rightarrow> u8" where
  "flow_as_u8 FlowRecoverable = 0"
| "flow_as_u8 FlowIdempotent = 1"
| "flow_as_u8 FlowUnsequenced = 2"
| "flow_as_u8 FlowNone = 3"

definition flow_from_u8 :: "u8 \<Rightarrow> flow_type option" where
  "flow_from_u8 v = (if v = 0 then Some FlowRecoverable else if v = 1 then Some FlowIdempotent
     else if v = 2 then Some FlowUnsequenced else if v = 3 then Some FlowNone else None)"

fun is_sequenced :: "flow_type \<Rightarrow> bool" where
  "is_sequenced FlowRecoverable = True"
| "is_sequenced FlowIdempotent = True"
| "is_sequenced FlowUnsequenced = False"
| "is_sequenced FlowNone = False"

datatype negotiation_reject_code = NegCredentials | NegFlowTypeNotSupported | NegDuplicateId | NegUnspecified

fun negotiation_code_as_u8 :: "negotiation_reject_code \<Rightarrow> u8" where
  "negotiation_code_as_u8 NegCredentials = 0"
| "negotiation_code_as_u8 NegFlowTypeNotSupported = 1"
| "negotiation_code_as_u8 NegDuplicateId = 2"
| "negotiation_code_as_u8 NegUnspecified = 3"

definition negotiation_code_from_u8 :: "u8 \<Rightarrow> negotiation_reject_code option" where
  "negotiation_code_from_u8 v = (if v = 0 then Some NegCredentials else if v = 1 then Some NegFlowTypeNotSupported
     else if v = 2 then Some NegDuplicateId else if v = 3 then Some NegUnspecified else None)"

datatype establishment_reject_code = EstUnnegotiated | EstAlreadyEstablished | EstSessionBlocked | EstKeepaliveInterval
  | EstCredentials | EstUnspecified

fun establishment_code_as_u8 :: "establishment_reject_code \<Rightarrow> u8" where
  "establishment_code_as_u8 EstUnnegotiated = 0"
| "establishment_code_as_u8 EstAlreadyEstablished = 1"
| "establishment_code_as_u8 EstSessionBlocked = 2"
| "establishment_code_as_u8 EstKeepaliveInterval = 3"
| "establishment_code_as_u8 EstCredentials = 4"
| "establishment_code_as_u8 EstUnspecified = 5"

definition establishment_code_from_u8 :: "u8 \<Rightarrow> establishment_reject_code option" where
  "establishment_code_from_u8 v = (if v = 0 then Some EstUnnegotiated else if v = 1 then Some EstAlreadyEstablished
     else if v = 2 then Some EstSessionBlocked else if v = 3 then Some EstKeepaliveInterval
     else if v = 4 then Some EstCredentials else if v = 5 then Some EstUnspecified else None)"

datatype retransmit_reject_code = RejOutOfRange | RejInvalidSession | RejRequestLimitExceeded

fun retransmit_code_as_u8 :: "retransmit_reject_code \<Rightarrow> u8" where
  "retransmit_code_as_u8 RejOutOfRange = 0"
| "retransmit_code_as_u8 RejInvalidSession = 1"
| "retransmit_code_as_u8 RejRequestLimitExceeded = 2"

definition retransmit_code_from_u8 :: "u8 \<Rightarrow> retransmit_reject_code option" where
  "retransmit_code_from_u8 v = (if v = 0 then Some RejOutOfRange else if v = 1 then Some RejInvalidSession
     else if v = 2 then Some RejRequestLimitExceeded else None)"

datatype termination_code = TermFinished | TermUnspecifiedError | TermReRequestOutOfBounds | TermReRequestInProgress

fun termination_code_as_u8 :: "termination_code \<Rightarrow> u8" where
  "termination_code_as_u8 TermFinished = 0"
| "termination_code_as_u8 TermUnspecifiedError = 1"
| "termination_code_as_u8 TermReRequestOutOfBounds = 2"
| "termination_code_as_u8 TermReRequestInProgress = 3"

definition termination_code_from_u8 :: "u8 \<Rightarrow> termination_code option" where
  "termination_code_from_u8 v = (if v = 0 then Some TermFinished else if v = 1 then Some TermUnspecifiedError
     else if v = 2 then Some TermReRequestOutOfBounds else if v = 3 then Some TermReRequestInProgress else None)"

subsection \<open>Messages\<close>

text \<open>Text and credentials are their bytes; a \<^verbatim>\<open>String\<close> is valid UTF-8.\<close>

record negotiate =
  ng_session_id :: session_id
  ng_timestamp :: nanotime
  ng_client_flow :: flow_type
  ng_credentials :: "bytes option"

record negotiation_response =
  nr_session_id :: session_id
  nr_request_timestamp :: nanotime
  nr_server_flow :: flow_type
  nr_credentials :: "bytes option"

record negotiation_reject =
  nj_session_id :: session_id
  nj_request_timestamp :: nanotime
  nj_code :: negotiation_reject_code
  nj_reason :: bytes

record topic =
  tp_session_id :: session_id
  tp_flow :: flow_type
  tp_keepalive_interval :: u32
  tp_classification :: bytes

record establish =
  es_session_id :: session_id
  es_timestamp :: nanotime
  es_keepalive_interval :: u32
  es_next_seq_no :: "u64 option"
  es_credentials :: "bytes option"

record establishment_ack =
  ea_session_id :: session_id
  ea_request_timestamp :: nanotime
  ea_keepalive_interval :: u32
  ea_next_seq_no :: "u64 option"

record establishment_reject =
  ej_session_id :: session_id
  ej_request_timestamp :: nanotime
  ej_code :: establishment_reject_code
  ej_reason :: bytes

record sequence_msg =
  sq_next_seq_no :: u64

record context_msg =
  cx_session_id :: session_id
  cx_next_seq_no :: u64

record retransmit_request =
  rq_session_id :: session_id
  rq_timestamp :: nanotime
  rq_from_seq_no :: u64
  rq_count :: u32

record retransmission =
  rt_session_id :: session_id
  rt_request_timestamp :: nanotime
  rt_next_seq_no :: u64
  rt_count :: u32

record retransmit_reject =
  rj_session_id :: session_id
  rj_request_timestamp :: nanotime
  rj_code :: retransmit_reject_code
  rj_reason :: bytes

record terminate_msg =
  tm_session_id :: session_id
  tm_code :: termination_code
  tm_reason :: bytes

record finished_sending =
  fs_session_id :: session_id
  fs_last_seq_no :: "u64 option"

record finished_receiving =
  fr_session_id :: session_id

record applied_msg =
  ap_from_seq_no :: u64
  ap_count :: u32

record not_applied_msg =
  na_from_seq_no :: u64
  na_count :: u32

record message_template =
  mt_encoding_type :: u32
  mt_effective_time :: "nanotime option"
  mt_version :: bytes
  mt_template :: bytes

datatype session_message =
    MNegotiate negotiate
  | MNegotiationResponse negotiation_response
  | MNegotiationReject negotiation_reject
  | MTopic topic
  | MEstablish establish
  | MEstablishmentAck establishment_ack
  | MEstablishmentReject establishment_reject
  | MSequence sequence_msg
  | MContext context_msg
  | MUnsequencedHeartbeat
  | MRetransmitRequest retransmit_request
  | MRetransmission retransmission
  | MRetransmitReject retransmit_reject
  | MTerminate terminate_msg
  | MFinishedSending finished_sending
  | MFinishedReceiving finished_receiving
  | MApplied applied_msg
  | MNotApplied not_applied_msg
  | MMessageTemplate message_template

fun template_id :: "session_message \<Rightarrow> u16" where
  "template_id (MNegotiate _) = 1"
| "template_id (MNegotiationResponse _) = 2"
| "template_id (MNegotiationReject _) = 3"
| "template_id (MTopic _) = 4"
| "template_id (MEstablish _) = 5"
| "template_id (MEstablishmentAck _) = 6"
| "template_id (MEstablishmentReject _) = 7"
| "template_id (MSequence _) = 8"
| "template_id (MContext _) = 9"
| "template_id MUnsequencedHeartbeat = 10"
| "template_id (MRetransmitRequest _) = 11"
| "template_id (MRetransmission _) = 12"
| "template_id (MRetransmitReject _) = 13"
| "template_id (MTerminate _) = 14"
| "template_id (MFinishedSending _) = 15"
| "template_id (MFinishedReceiving _) = 16"
| "template_id (MApplied _) = 17"
| "template_id (MNotApplied _) = 18"
| "template_id (MMessageTemplate _) = 19"

fun message_name :: "session_message \<Rightarrow> string" where
  "message_name (MNegotiate _) = ''Negotiate''"
| "message_name (MNegotiationResponse _) = ''NegotiationResponse''"
| "message_name (MNegotiationReject _) = ''NegotiationReject''"
| "message_name (MTopic _) = ''Topic''"
| "message_name (MEstablish _) = ''Establish''"
| "message_name (MEstablishmentAck _) = ''EstablishmentAck''"
| "message_name (MEstablishmentReject _) = ''EstablishmentReject''"
| "message_name (MSequence _) = ''Sequence''"
| "message_name (MContext _) = ''Context''"
| "message_name MUnsequencedHeartbeat = ''UnsequencedHeartbeat''"
| "message_name (MRetransmitRequest _) = ''RetransmitRequest''"
| "message_name (MRetransmission _) = ''Retransmission''"
| "message_name (MRetransmitReject _) = ''RetransmitReject''"
| "message_name (MTerminate _) = ''Terminate''"
| "message_name (MFinishedSending _) = ''FinishedSending''"
| "message_name (MFinishedReceiving _) = ''FinishedReceiving''"
| "message_name (MApplied _) = ''Applied''"
| "message_name (MNotApplied _) = ''NotApplied''"
| "message_name (MMessageTemplate _) = ''MessageTemplate''"

fun message_session_id :: "session_message \<Rightarrow> session_id option" where
  "message_session_id (MNegotiate m) = Some (ng_session_id m)"
| "message_session_id (MNegotiationResponse m) = Some (nr_session_id m)"
| "message_session_id (MNegotiationReject m) = Some (nj_session_id m)"
| "message_session_id (MTopic m) = Some (tp_session_id m)"
| "message_session_id (MEstablish m) = Some (es_session_id m)"
| "message_session_id (MEstablishmentAck m) = Some (ea_session_id m)"
| "message_session_id (MEstablishmentReject m) = Some (ej_session_id m)"
| "message_session_id (MContext m) = Some (cx_session_id m)"
| "message_session_id (MRetransmitRequest m) = Some (rq_session_id m)"
| "message_session_id (MRetransmission m) = Some (rt_session_id m)"
| "message_session_id (MRetransmitReject m) = Some (rj_session_id m)"
| "message_session_id (MTerminate m) = Some (tm_session_id m)"
| "message_session_id (MFinishedSending m) = Some (fs_session_id m)"
| "message_session_id (MFinishedReceiving m) = Some (fr_session_id m)"
| "message_session_id _ = None"

subsection \<open>What a session puts out\<close>

datatype terminated_by = ByLocal | ByPeer
datatype handshake_stage = StageNegotiation | StageEstablishment

datatype fixp_event =
    EvNegotiateReceived session_id flow_type
  | EvNegotiated session_id flow_type flow_type
  | EvNegotiationRejected negotiation_reject_code bytes
  | EvEstablishReceived session_id duration "u64 option"
  | EvEstablished duration "u64 option"
  | EvEstablishmentRejected establishment_reject_code bytes
  | EvRefused string string
  | EvHandshakeTimedOut handshake_stage
  | EvSequenceGap u64 u64
  | EvRecoveryComplete
  | EvRetransmitRequested u64 u32
  | EvRetransmitRejected u64 u32 retransmit_reject_code bytes
  | EvRetransmitTimedOut u64 u32
  | EvNotApplied u64 u32
  | EvApplied u64 u32
  | EvTerminated termination_code bytes terminated_by
  | EvKeepaliveLapsed
  | EvProtocolViolation string
  | EvPeerFinishedSending "u64 option"
  | EvTransportClosed
  | EvSessionFinalized session_id
  | EvIgnored string string

datatype fixp_output =
    OutSend session_message
  | OutSendApplication "u64 option" session_message
  | OutCloseTransport
  | OutEvent fixp_event

datatype delivery = Accept "u64 option" bool | Discard

record retransmit_batch =
  rb_from :: u64
  rb_count :: u32

datatype session_status = StIdle | StNegotiating | StAwaitingNegotiate | StNegotiationPending | StNegotiated | StEstablishing
  | StEstablishPending | StEstablished | StTerminating | StClosing | StClosed | StFinalized

datatype fixp_error =
    InvalidState string session_status
  | FlowCarriesNoApplicationMessages flow_type
  | BothFlowsNone
  | SequenceExhausted
  | RetransmissionOverrun u32 u32
  | NoRetransmissionInProgress
  | ReasonTooLong usize usize
  | ClockOutOfRange
  | TransportClosing string
  | FinishedReceivingSent

datatype fixp_encode_error =
    VarDataTooLong string usize usize
  | BufferTooSmall usize usize
  | CapacityOverflow usize

definition credentials_try_new :: "bytes \<Rightarrow> fixp_encode_error + bytes" where
  "credentials_try_new bs =
    (if MAX_VAR_DATA_LEN < length bs then Inl (VarDataTooLong ''Credentials'' (length bs) MAX_VAR_DATA_LEN) else Inr bs)"

subsection \<open>Configuration\<close>

datatype retransmit_stall_policy = EventOnly | StallTerminate | ReRequestAfterContextSwitch | ReRequestAfterBatch

record fixp_config =
  cf_keepalive_interval :: duration
  cf_keepalive_millis :: u32
  cf_min_peer_keepalive :: duration
  cf_max_peer_keepalive :: duration
  cf_peer_silence_grace :: "duration option"
  cf_max_retransmit_count :: u32
  cf_max_pending_gaps :: usize
  cf_max_gap_len :: u64
  cf_retransmit_timeout :: duration
  cf_retransmit_stall_policy :: retransmit_stall_policy
  cf_handshake_timeout :: duration

definition MAX_TIMER :: duration where "MAX_TIMER = from_millis (2 ^ 32 - 1)"

definition fixp_config_default :: fixp_config where
  "fixp_config_default =
    \<lparr>cf_keepalive_interval = from_secs 5, cf_keepalive_millis = 5000, cf_min_peer_keepalive = from_millis 100,
     cf_max_peer_keepalive = from_secs 3600, cf_peer_silence_grace = None, cf_max_retransmit_count = 1000,
     cf_max_pending_gaps = 256, cf_max_gap_len = 1000000, cf_retransmit_timeout = from_secs 10,
     cf_retransmit_stall_policy = ReRequestAfterContextSwitch, cf_handshake_timeout = from_secs 10\<rparr>"

definition accepts_peer_keepalive :: "fixp_config \<Rightarrow> u32 \<Rightarrow> bool" where
  "accepts_peer_keepalive c millis \<longleftrightarrow>
    (let interval = from_millis (ucast millis) in cf_min_peer_keepalive c \<le> interval \<and> interval \<le> cf_max_peer_keepalive c)"

datatype fixp_config_error =
    InvalidKeepalive string duration
  | EmptyPeerKeepaliveRange duration duration
  | ZeroTimeout string
  | TimerTooLong string duration duration

definition validate_keepalive :: "string \<Rightarrow> duration \<Rightarrow> fixp_config_error + u32" where
  "validate_keepalive setting interval =
    (if interval < from_millis 1 \<or> MAX_TIMER < interval \<or> interval mod NANOS mod 1000000 \<noteq> 0
     then Inl (InvalidKeepalive setting interval)
     else if interval div 1000000 < 2 ^ 32 then Inr (word_of_nat (interval div 1000000))
     else Inl (InvalidKeepalive setting interval))"

definition validate_upper_bound :: "string \<Rightarrow> duration \<Rightarrow> fixp_config_error + unit" where
  "validate_upper_bound setting d = (if MAX_TIMER < d then Inl (TimerTooLong setting d MAX_TIMER) else Inr ())"

definition validate_timeout :: "string \<Rightarrow> duration \<Rightarrow> fixp_config_error + unit" where
  "validate_timeout setting d = (if d = 0 then Inl (ZeroTimeout setting) else validate_upper_bound setting d)"

definition fixp_config_build :: "fixp_config \<Rightarrow> fixp_config_error + fixp_config" where
  "fixp_config_build c =
    bindR (validate_keepalive ''keepalive_interval'' (cf_keepalive_interval c)) (\<lambda>millis.
    bindR (validate_keepalive ''min_peer_keepalive'' (cf_min_peer_keepalive c)) (\<lambda>_.
    bindR (validate_keepalive ''max_peer_keepalive'' (cf_max_peer_keepalive c)) (\<lambda>_.
    if cf_max_peer_keepalive c < cf_min_peer_keepalive c
    then Inl (EmptyPeerKeepaliveRange (cf_min_peer_keepalive c) (cf_max_peer_keepalive c))
    else bindR (case cf_peer_silence_grace c of None \<Rightarrow> Inr () | Some grace \<Rightarrow> validate_upper_bound ''peer_silence_grace'' grace) (\<lambda>_.
      bindR (validate_timeout ''retransmit_timeout'' (cf_retransmit_timeout c)) (\<lambda>_.
      bindR (validate_timeout ''handshake_timeout'' (cf_handshake_timeout c)) (\<lambda>_.
        Inr (c\<lparr>cf_keepalive_millis := millis\<rparr>)))))))"

text \<open>
  The counts and bounds the builder takes are non-zero by their types.
\<close>

definition config_counts_ok :: "fixp_config \<Rightarrow> bool" where
  "config_counts_ok c \<longleftrightarrow> cf_max_retransmit_count c \<noteq> 0 \<and> cf_max_pending_gaps c \<noteq> 0 \<and> cf_max_gap_len c \<noteq> 0"

subsection \<open>The request clock\<close>

record clock_anchor =
  ca_instant :: instant
  ca_wall :: u64

definition nanotime_at :: "clock_anchor \<Rightarrow> instant \<Rightarrow> fixp_error + nanotime" where
  "nanotime_at a now =
    ok_or ClockOutOfRange
      (case duration_since now (ca_instant a) of
         Some elapsed \<Rightarrow> if elapsed < 2 ^ 64 then checked_add (ca_wall a) (word_of_nat elapsed) else None
       | None \<Rightarrow> (let before = ca_instant a - now in if before < 2 ^ 64 then checked_sub (ca_wall a) (word_of_nat before) else None))"

record request_clock =
  rc_anchor :: clock_anchor
  rc_last :: "u64 option"

definition request_clock_next :: "instant \<Rightarrow> (request_clock, fixp_error, nanotime) fallible" where
  "request_clock_next now c =
    (case nanotime_at (rc_anchor c) now of
       Inl e \<Rightarrow> (Inl e, c)
     | Inr derived \<Rightarrow>
         (case (case rc_last c of
                  Some last_issued \<Rightarrow> if derived \<le> last_issued then ok_or ClockOutOfRange (checked_add last_issued 1) else Inr derived
                | None \<Rightarrow> Inr derived) of
            Inl e \<Rightarrow> (Inl e, c)
          | Inr issued \<Rightarrow> (Inr issued, c\<lparr>rc_last := Some issued\<rparr>)))"

text \<open>The codes are read back.\<close>

lemma codes_roundtrip:
  "flow_from_u8 (flow_as_u8 f) = Some f" "negotiation_code_from_u8 (negotiation_code_as_u8 n) = Some n"
  "establishment_code_from_u8 (establishment_code_as_u8 e) = Some e"
  "retransmit_code_from_u8 (retransmit_code_as_u8 r) = Some r" "termination_code_from_u8 (termination_code_as_u8 t) = Some t"
  by (cases f; simp add: flow_from_u8_def) (cases n; simp add: negotiation_code_from_u8_def
    | cases e; simp add: establishment_code_from_u8_def | cases r; simp add: retransmit_code_from_u8_def
    | cases t; simp add: termination_code_from_u8_def)+

text \<open>Requests are stamped in strictly ascending order.\<close>

lemma request_clock_ascends:
  assumes "request_clock_next now c = (Inr t, c')"
  shows "rc_last c' = Some t \<and> (\<forall>u. rc_last c = Some u \<longrightarrow> u < t)"
proof -
  have succ: "checked_add u 1 = Some v \<Longrightarrow> u < v" for u v :: u64
    using unat_checked_add[of u 1 v] by (simp add: word_less_nat_alt)
  show ?thesis
    using assms by (auto simp: request_clock_next_def result_simps not_le split: sum.splits option.splits if_splits dest: succ)
qed

end
