(* ===== verification/Fixp_Session.thy ===== *)
theory Fixp_Session
  imports Fixp_Types
begin

text \<open>
  The role-independent part of a FIXP session (\<^verbatim>\<open>ironfix-fixp/src/session.rs\<close>): what a client and
  a server do once a session is negotiated and bound.  A handler works on the core, the session and
  the binding at once; \<open>bound_session\<close> holds the three, and every handler returns them.
\<close>

subsection \<open>State\<close>

definition SEQ_NULL :: u64 where "SEQ_NULL = - 1"
definition APPLICATION_MESSAGE :: string where "APPLICATION_MESSAGE = ''application message''"

record fixp_core =
  fc_config :: fixp_config
  fc_clock :: request_clock
  fc_outputs :: "fixp_output list"
  fc_transport_closing :: bool

definition core_new :: "fixp_config \<Rightarrow> request_clock \<Rightarrow> fixp_core" where
  "core_new config clock = \<lparr>fc_config = config, fc_clock = clock, fc_outputs = [], fc_transport_closing = False\<rparr>"

definition core_output :: "fixp_output \<Rightarrow> fixp_core \<Rightarrow> fixp_core" where
  "core_output out c = c\<lparr>fc_outputs := fc_outputs c @ [out]\<rparr>"

definition core_send :: "session_message \<Rightarrow> fixp_core \<Rightarrow> fixp_core" where
  "core_send m = core_output (OutSend m)"

definition core_send_application :: "u64 option \<Rightarrow> session_message \<Rightarrow> fixp_core \<Rightarrow> fixp_core" where
  "core_send_application seq m = core_output (OutSendApplication seq m)"

definition core_event :: "fixp_event \<Rightarrow> fixp_core \<Rightarrow> fixp_core" where
  "core_event e = core_output (OutEvent e)"

definition core_close_transport :: "fixp_core \<Rightarrow> fixp_core" where
  "core_close_transport c = (core_output OutCloseTransport c)\<lparr>fc_transport_closing := True\<rparr>"

definition core_transport_closed :: "fixp_core \<Rightarrow> fixp_core" where
  "core_transport_closed c = c\<lparr>fc_transport_closing := False\<rparr>"

definition request_timestamp :: "instant \<Rightarrow> (fixp_core, fixp_error, nanotime) fallible" where
  "request_timestamp now c =
    (case request_clock_next now (fc_clock c) of (r, clock) \<Rightarrow> (r, c\<lparr>fc_clock := clock\<rparr>))"

definition poll_output :: "fixp_core \<Rightarrow> fixp_output option \<times> fixp_core" where
  "poll_output c = (case fc_outputs c of [] \<Rightarrow> (None, c) | out # rest \<Rightarrow> (Some out, c\<lparr>fc_outputs := rest\<rparr>))"

definition violation_unbound :: "string \<Rightarrow> fixp_core \<Rightarrow> fixp_core" where
  "violation_unbound reason c = core_close_transport (core_event (EvProtocolViolation reason) c)"

definition core_ignore :: "string \<Rightarrow> string \<Rightarrow> fixp_core \<Rightarrow> fixp_core" where
  "core_ignore message reason = core_event (EvIgnored message reason)"

datatype peer_message =
    PeerTopic
  | PeerSequence sequence_msg
  | PeerContext context_msg
  | PeerUnsequencedHeartbeat
  | PeerRetransmitRequest retransmit_request
  | PeerRetransmission retransmission
  | PeerRetransmitReject retransmit_reject
  | PeerTerminate terminate_msg
  | PeerFinishedSending finished_sending
  | PeerFinishedReceiving
  | PeerApplied applied_msg
  | PeerNotApplied not_applied_msg
  | PeerMessageTemplate

fun peer_name :: "peer_message \<Rightarrow> string" where
  "peer_name PeerTopic = ''Topic''"
| "peer_name (PeerSequence _) = ''Sequence''"
| "peer_name (PeerContext _) = ''Context''"
| "peer_name PeerUnsequencedHeartbeat = ''UnsequencedHeartbeat''"
| "peer_name (PeerRetransmitRequest _) = ''RetransmitRequest''"
| "peer_name (PeerRetransmission _) = ''Retransmission''"
| "peer_name (PeerRetransmitReject _) = ''RetransmitReject''"
| "peer_name (PeerTerminate _) = ''Terminate''"
| "peer_name (PeerFinishedSending _) = ''FinishedSending''"
| "peer_name PeerFinishedReceiving = ''FinishedReceiving''"
| "peer_name (PeerApplied _) = ''Applied''"
| "peer_name (PeerNotApplied _) = ''NotApplied''"
| "peer_name PeerMessageTemplate = ''MessageTemplate''"

datatype handshake_message =
    HsNegotiate negotiate
  | HsNegotiationResponse negotiation_response
  | HsNegotiationReject negotiation_reject
  | HsEstablish establish
  | HsEstablishmentAck establishment_ack
  | HsEstablishmentReject establishment_reject

datatype classified = Handshake handshake_message | Peer peer_message

fun classify :: "session_message \<Rightarrow> classified" where
  "classify (MNegotiate m) = Handshake (HsNegotiate m)"
| "classify (MNegotiationResponse m) = Handshake (HsNegotiationResponse m)"
| "classify (MNegotiationReject m) = Handshake (HsNegotiationReject m)"
| "classify (MEstablish m) = Handshake (HsEstablish m)"
| "classify (MEstablishmentAck m) = Handshake (HsEstablishmentAck m)"
| "classify (MEstablishmentReject m) = Handshake (HsEstablishmentReject m)"
| "classify (MTopic _) = Peer PeerTopic"
| "classify (MSequence m) = Peer (PeerSequence m)"
| "classify (MContext m) = Peer (PeerContext m)"
| "classify MUnsequencedHeartbeat = Peer PeerUnsequencedHeartbeat"
| "classify (MRetransmitRequest m) = Peer (PeerRetransmitRequest m)"
| "classify (MRetransmission m) = Peer (PeerRetransmission m)"
| "classify (MRetransmitReject m) = Peer (PeerRetransmitReject m)"
| "classify (MTerminate m) = Peer (PeerTerminate m)"
| "classify (MFinishedSending m) = Peer (PeerFinishedSending m)"
| "classify (MFinishedReceiving _) = Peer PeerFinishedReceiving"
| "classify (MApplied m) = Peer (PeerApplied m)"
| "classify (MNotApplied m) = Peer (PeerNotApplied m)"
| "classify (MMessageTemplate _) = Peer PeerMessageTemplate"

datatype bound = Stay | Unbind

datatype bind_state = BindEstablished | BindTerminating instant termination_code bytes | BindClosing "instant option"

record binding =
  bi_state :: bind_state
  bi_local_keepalive :: duration
  bi_remote_keepalive :: duration
  bi_last_keepalive :: instant
  bi_last_received :: instant
  bi_in_sequence :: bool

fun binding_status :: "bind_state \<Rightarrow> session_status" where
  "binding_status BindEstablished = StEstablished"
| "binding_status (BindTerminating _ _ _) = StTerminating"
| "binding_status (BindClosing _) = StClosing"

record gap =
  gap_from :: u64
  gap_end :: u64

definition MAX_OVERFLOW_RECEIVED_RUNS :: usize where "MAX_OVERFLOW_RECEIVED_RUNS = 256"

record outstanding_request =
  or_timestamp :: nanotime
  or_from :: u64
  or_count :: u32
  or_delivered :: u32
  or_last_progress :: instant
  or_interrupted :: bool
  or_batch_complete :: bool
  or_stall_reported :: bool

record peer_finished =
  pf_receiving_sent :: bool
  pf_end :: "u64 option"

record replay_batch =
  rp_next :: u64
  rp_remaining :: u32

record provider =
  pv_request_timestamp :: nanotime
  pv_from :: u64
  pv_count :: u32
  pv_sent :: u32

record fixp_session =
  se_id :: session_id
  se_local_flow :: flow_type
  se_remote_flow :: flow_type
  se_outbound_next :: u64
  se_inbound_next :: "u64 option"
  se_start_pending :: bool
  se_missing :: "gap list"
  se_overflow_received :: "gap list"
  se_outstanding :: "outstanding_request option"
  se_replay :: "replay_batch option"
  se_awaiting_resume :: bool
  se_provider :: "provider option"
  se_peer_finished :: "peer_finished option"
  se_finalized :: bool

definition session_new :: "session_id \<Rightarrow> flow_type \<Rightarrow> flow_type \<Rightarrow> fixp_session" where
  "session_new i local_flow remote_flow =
    \<lparr>se_id = i, se_local_flow = local_flow, se_remote_flow = remote_flow, se_outbound_next = 1,
     se_inbound_next = (if is_sequenced remote_flow then Some 1 else None), se_start_pending = is_sequenced remote_flow,
     se_missing = [], se_overflow_received = [], se_outstanding = None, se_replay = None, se_awaiting_resume = False,
     se_provider = None, se_peer_finished = None, se_finalized = False\<rparr>"

definition has_pending_recovery :: "fixp_session \<Rightarrow> bool" where
  "has_pending_recovery s \<longleftrightarrow> se_missing s \<noteq> []"

definition finished_receiving_sent :: "fixp_session \<Rightarrow> bool" where
  "finished_receiving_sent s \<longleftrightarrow> (case se_peer_finished s of Some f \<Rightarrow> pf_receiving_sent f | None \<Rightarrow> False)"

definition finalize_if_finished :: "fixp_session \<Rightarrow> fixp_session" where
  "finalize_if_finished s = (if finished_receiving_sent s \<and> \<not> se_finalized s then s\<lparr>se_finalized := True\<rparr> else s)"

definition announced_next_seq :: "fixp_session \<Rightarrow> u64 option" where
  "announced_next_seq s = (if is_sequenced (se_local_flow s) then Some (se_outbound_next s) else None)"

definition regresses :: "u64 option \<Rightarrow> fixp_session \<Rightarrow> bool" where
  "regresses nxt s \<longleftrightarrow>
    (if se_start_pending s then False
     else (case (is_sequenced (se_remote_flow s), nxt, se_inbound_next s) of
             (True, Some n, Some expected) \<Rightarrow> n < expected
           | _ \<Rightarrow> False))"

record bound_session =
  bs_core :: fixp_core
  bs_session :: fixp_session
  bs_binding :: binding

type_synonym 'a on_bound = "bound_session \<Rightarrow> 'a \<times> bound_session"

definition with_core :: "(fixp_core \<Rightarrow> fixp_core) \<Rightarrow> bound_session \<Rightarrow> bound_session" where
  "with_core f b = b\<lparr>bs_core := f (bs_core b)\<rparr>"

definition with_session :: "(fixp_session \<Rightarrow> fixp_session) \<Rightarrow> bound_session \<Rightarrow> bound_session" where
  "with_session f b = b\<lparr>bs_session := f (bs_session b)\<rparr>"

definition with_binding :: "(binding \<Rightarrow> binding) \<Rightarrow> bound_session \<Rightarrow> bound_session" where
  "with_binding f b = b\<lparr>bs_binding := f (bs_binding b)\<rparr>"

definition config_of :: "bound_session \<Rightarrow> fixp_config" where
  "config_of b = fc_config (bs_core b)"

definition is_established :: "bound_session \<Rightarrow> bool" where
  "is_established b \<longleftrightarrow> bi_state (bs_binding b) = BindEstablished"

definition leave_sequence :: "bound_session \<Rightarrow> bound_session" where
  "leave_sequence = with_binding (\<lambda>b. b\<lparr>bi_in_sequence := False\<rparr>)"

subsection \<open>Gaps\<close>

definition record_gap :: "fixp_config \<Rightarrow> u64 \<Rightarrow> u64 \<Rightarrow> fixp_session \<Rightarrow> bool \<times> fixp_session" where
  "record_gap config from until s =
    (if se_missing s \<noteq> [] \<and> gap_end (last (se_missing s)) = from
     then (True, s\<lparr>se_missing := butlast (se_missing s) @ [(last (se_missing s))\<lparr>gap_end := until\<rparr>]\<rparr>)
     else if cf_max_pending_gaps config \<le> length (se_missing s) then (False, s)
     else (True, s\<lparr>se_missing := se_missing s @ [\<lparr>gap_from = from, gap_end = until\<rparr>]\<rparr>))"

definition hold_refused_gap :: "fixp_config \<Rightarrow> u64 \<Rightarrow> u64 \<Rightarrow> fixp_session \<Rightarrow> bool \<times> fixp_session" where
  "hold_refused_gap config from until s =
    (let overflowing = (cf_max_pending_gaps config < length (se_missing s)) in
     if se_missing s \<noteq> [] \<and> overflowing
     then
      (let final = last (se_missing s);
           widened = butlast (se_missing s) @ [final\<lparr>gap_end := max (gap_end final) until\<rparr>] in
       if gap_end final < from
       then if MAX_OVERFLOW_RECEIVED_RUNS \<le> length (se_overflow_received s) then (False, s)
            else (True, s\<lparr>se_overflow_received := se_overflow_received s @ [\<lparr>gap_from = gap_end final, gap_end = from\<rparr>],
                          se_missing := widened\<rparr>)
       else (True, s\<lparr>se_missing := widened\<rparr>))
     else (True, s\<lparr>se_missing := se_missing s @ [\<lparr>gap_from = from, gap_end = until\<rparr>]\<rparr>))"

definition received_in_overflow :: "u64 \<Rightarrow> fixp_session \<Rightarrow> bool \<times> fixp_session" where
  "received_in_overflow seq s =
    (let runs = dropWhile (\<lambda>run. gap_end run \<le> seq) (se_overflow_received s)
     in ((case runs of [] \<Rightarrow> False | run # _ \<Rightarrow> gap_from run \<le> seq), s\<lparr>se_overflow_received := runs\<rparr>))"

definition consume_missing :: "u64 \<Rightarrow> fixp_session \<Rightarrow> fixp_session" where
  "consume_missing count s =
    (if count = 0 then s
     else
      (case se_missing s of
         [] \<Rightarrow> s
       | front # rest \<Rightarrow>
           (let dropped = (if rest = [] then s\<lparr>se_missing := rest, se_overflow_received := []\<rparr> else s\<lparr>se_missing := rest\<rparr>)
            in case checked_add (gap_from front) count of
                 Some from \<Rightarrow> if from < gap_end front then s\<lparr>se_missing := front\<lparr>gap_from := from\<rparr> # rest\<rparr> else dropped
               | None \<Rightarrow> dropped)))"

definition release_binding_state :: "fixp_session \<Rightarrow> fixp_session" where
  "release_binding_state s =
    (case se_outstanding s of
       Some o' \<Rightarrow> consume_missing (ucast (or_delivered o')) (s\<lparr>se_outstanding := None\<rparr>)
     | None \<Rightarrow> s)\<lparr>se_replay := None, se_awaiting_resume := False, se_provider := None\<rparr>"

definition session_bind :: "instant \<Rightarrow> duration \<Rightarrow> duration \<Rightarrow> fixp_session \<Rightarrow> binding \<times> fixp_session" where
  "session_bind now local_keepalive remote_keepalive s =
    (\<lparr>bi_state = BindEstablished, bi_local_keepalive = local_keepalive, bi_remote_keepalive = remote_keepalive,
      bi_last_keepalive = now, bi_last_received = now, bi_in_sequence = False\<rparr>, release_binding_state s)"

subsection \<open>Failing\<close>

definition fail :: "termination_code \<Rightarrow> string \<Rightarrow> bound on_bound" where
  "fail code reason b =
    (let text = bytes_of reason;
         b1 = (case bi_state (bs_binding b) of
                 BindEstablished \<Rightarrow>
                   with_core (core_event (EvTerminated code text ByLocal) \<circ>
                     core_send (MTerminate \<lparr>tm_session_id = se_id (bs_session b), tm_code = code, tm_reason = text\<rparr>)) b
               | BindTerminating _ _ _ \<Rightarrow> b
               | BindClosing _ \<Rightarrow> b)
     in (Unbind, with_session release_binding_state (with_core core_close_transport b1)))"

definition violation :: "string \<Rightarrow> bound on_bound" where
  "violation reason b = fail TermUnspecifiedError reason (with_core (core_event (EvProtocolViolation reason)) b)"

subsection \<open>Outbound numbers\<close>

definition allocate_outbound :: "(bound_session, fixp_error, u64) fallible" where
  "allocate_outbound b =
    (let seq = se_outbound_next (bs_session b) in
     case checked_add seq 1 of
       Some following \<Rightarrow>
         if following = SEQ_NULL then (Inl SequenceExhausted, b)
         else
          (let b1 = (if bi_in_sequence (bs_binding b) then b
                     else with_binding (\<lambda>bi. bi\<lparr>bi_in_sequence := True\<rparr>)
                            (with_core (core_send (MSequence \<lparr>sq_next_seq_no = seq\<rparr>)) b))
           in (Inr seq, with_session (\<lambda>s. s\<lparr>se_outbound_next := following\<rparr>) b1))
     | None \<Rightarrow> (Inl SequenceExhausted, b))"

definition touch_keepalive :: "instant \<Rightarrow> bound_session \<Rightarrow> bound_session" where
  "touch_keepalive now = with_binding (\<lambda>bi. bi\<lparr>bi_last_keepalive := now\<rparr>)"

definition send_not_applied :: "u64 \<Rightarrow> u32 \<Rightarrow> instant \<Rightarrow> bound on_bound" where
  "send_not_applied from count now b =
    (if \<not> is_established b then (Stay, b)
     else
      (let message = MNotApplied \<lparr>na_from_seq_no = from, na_count = count\<rparr>;
           numbered =
             (case allocate_outbound b of
                (Inr seq, b1) \<Rightarrow> (Stay, touch_keepalive now (with_core (core_send_application (Some seq) message) b1))
              | (Inl _, b1) \<Rightarrow> fail TermUnspecifiedError ''outbound sequence numbers exhausted'' b1)
       in case se_local_flow (bs_session b) of
            FlowNone \<Rightarrow> (Stay, b)
          | FlowUnsequenced \<Rightarrow> (Stay, touch_keepalive now (with_core (core_send_application None message) b))
          | FlowRecoverable \<Rightarrow> numbered
          | FlowIdempotent \<Rightarrow> numbered))"

subsection \<open>Recovery\<close>

definition request_missing :: "instant \<Rightarrow> bound on_bound" where
  "request_missing now b =
    (if \<not> is_established b \<or> se_remote_flow (bs_session b) \<noteq> FlowRecoverable \<or> se_outstanding (bs_session b) \<noteq> None
     then (Stay, b)
     else
      (case se_missing (bs_session b) of
         [] \<Rightarrow> (Stay, b)
       | front # _ \<Rightarrow>
           (case checked_sub (gap_end front) (gap_from front) of
              None \<Rightarrow> (Stay, b)
            | Some len \<Rightarrow>
                if len = 0 then (Stay, b)
                else
                 (let limit = cf_max_retransmit_count (config_of b);
                      count = (if unat len < 2 ^ 32 then min (ucast len) limit else limit)
                  in case request_timestamp now (bs_core b) of
                       (Inl _, c) \<Rightarrow> fail TermUnspecifiedError ''session clock out of range'' (b\<lparr>bs_core := c\<rparr>)
                     | (Inr timestamp, c) \<Rightarrow>
                         (Stay,
                          with_session (\<lambda>s. s\<lparr>se_outstanding := Some \<lparr>or_timestamp = timestamp, or_from = gap_from front,
                              or_count = count, or_delivered = 0, or_last_progress = now, or_interrupted = False,
                              or_batch_complete = False, or_stall_reported = False\<rparr>\<rparr>)
                            (leave_sequence
                              (with_core (core_send (MRetransmitRequest \<lparr>rq_session_id = se_id (bs_session b),
                                  rq_timestamp = timestamp, rq_from_seq_no = gap_from front, rq_count = count\<rparr>))
                                (b\<lparr>bs_core := c\<rparr>))))))))"

definition maybe_finish_receiving :: "bound_session \<Rightarrow> bound_session" where
  "maybe_finish_receiving b =
    (case se_peer_finished (bs_session b) of
       None \<Rightarrow> b
     | Some finished \<Rightarrow>
         if pf_receiving_sent finished \<or> \<not> is_established b \<or> se_missing (bs_session b) \<noteq> []
            \<or> se_outstanding (bs_session b) \<noteq> None
         then b
         else leave_sequence
           (with_session (\<lambda>s. s\<lparr>se_peer_finished := Some (finished\<lparr>pf_receiving_sent := True\<rparr>)\<rparr>)
             (with_core (core_send (MFinishedReceiving \<lparr>fr_session_id = se_id (bs_session b)\<rparr>)) b)))"

text \<open>A range is done with: all is recovered, or the next range is requested.\<close>

definition after_range :: "instant \<Rightarrow> bound on_bound" where
  "after_range now b =
    (if se_missing (bs_session b) = []
     then (Stay, maybe_finish_receiving (with_core (core_event EvRecoveryComplete) b))
     else request_missing now b)"

definition complete_outstanding :: "instant \<Rightarrow> bound on_bound" where
  "complete_outstanding now b =
    after_range now
      (with_session (\<lambda>s.
        (case se_outstanding s of
           Some o' \<Rightarrow> consume_missing (ucast (or_count o')) (s\<lparr>se_outstanding := None\<rparr>)
         | None \<Rightarrow> s)\<lparr>se_replay := None\<rparr>) b)"

definition on_gap :: "u64 \<Rightarrow> u64 \<Rightarrow> u64 \<Rightarrow> instant \<Rightarrow> bound on_bound" where
  "on_gap expected nxt count now b =
    (let b1 = with_core (core_event (EvSequenceGap expected count)) b;
         b2 = (if se_remote_flow (bs_session b1) \<noteq> FlowRecoverable
               then with_session (\<lambda>s. s\<lparr>se_inbound_next := Some nxt\<rparr>) b1 else b1)
     in case se_remote_flow (bs_session b2) of
          FlowRecoverable \<Rightarrow>
            (case record_gap (config_of b2) expected nxt (bs_session b2) of
               (False, s) \<Rightarrow>
                 (case hold_refused_gap (config_of b2) expected nxt s of
                    (held, s1) \<Rightarrow>
                      violation ''too many unrecovered sequence gaps''
                        (b2\<lparr>bs_session := (if held then s1\<lparr>se_inbound_next := Some nxt\<rparr> else s1)\<rparr>))
             | (True, s) \<Rightarrow> request_missing now (b2\<lparr>bs_session := s\<lparr>se_inbound_next := Some nxt\<rparr>\<rparr>))
        | FlowIdempotent \<Rightarrow>
            if unat count < 2 ^ 32 then send_not_applied expected (ucast count) now b2
            else violation ''sequence gap too large for a NotApplied'' b2
        | FlowUnsequenced \<Rightarrow> (Stay, b2)
        | FlowNone \<Rightarrow> (Stay, b2))"

definition cut_replay :: "instant \<Rightarrow> fixp_session \<Rightarrow> fixp_session" where
  "cut_replay now s =
    (let s1 = s\<lparr>se_awaiting_resume := False, se_replay := None\<rparr>
     in case (se_replay s, se_outstanding s) of
          (Some _, Some o') \<Rightarrow> s1\<lparr>se_outstanding :=
            Some (o'\<lparr>or_interrupted := True, or_stall_reported := False, or_last_progress := now\<rparr>)\<rparr>
        | _ \<Rightarrow> s1)"

definition on_next_seq :: "u64 \<Rightarrow> instant \<Rightarrow> bound on_bound" where
  "on_next_seq nxt now b =
    (if \<not> is_sequenced (se_remote_flow (bs_session b)) then violation ''Sequence or Context on an unsequenced flow'' b
     else if nxt = 0 then violation ''NextSeqNo of zero'' b
     else if (case se_peer_finished (bs_session b) of
                Some f \<Rightarrow> (case pf_end f of Some until \<Rightarrow> until < nxt | None \<Rightarrow> False)
              | None \<Rightarrow> False)
     then violation ''NextSeqNo past the LastSeqNo of FinishedSending'' b
     else
      (let b1 = with_session (cut_replay now) b in
       if se_start_pending (bs_session b1)
       then (Stay, with_session (\<lambda>s. s\<lparr>se_start_pending := False, se_inbound_next := Some nxt\<rparr>) b1)
       else
        (case se_inbound_next (bs_session b1) of
           None \<Rightarrow> (Stay, with_session (\<lambda>s. s\<lparr>se_inbound_next := Some nxt\<rparr>) b1)
         | Some expected \<Rightarrow>
             (case checked_sub nxt expected of
                Some count \<Rightarrow>
                  if count = 0 then (Stay, b1)
                  else if cf_max_gap_len (config_of b1) < count then violation ''sequence gap larger than max_gap_len'' b1
                  else on_gap expected nxt count now b1
              | None \<Rightarrow> violation ''NextSeqNo lower than expected'' b1))))"

definition on_established :: "u64 option \<Rightarrow> instant \<Rightarrow> bound on_bound" where
  "on_established nxt now b =
    (case (case nxt of
             Some n \<Rightarrow> if is_sequenced (se_remote_flow (bs_session b)) then on_next_seq n now b else (Stay, b)
           | None \<Rightarrow> (Stay, b)) of
       (Unbind, b1) \<Rightarrow> (Unbind, b1)
     | (Stay, b1) \<Rightarrow>
         (case request_missing now b1 of
            (Unbind, b2) \<Rightarrow> (Unbind, b2)
          | (Stay, b2) \<Rightarrow> (Stay, maybe_finish_receiving b2)))"

subsection \<open>Application messages\<close>

text \<open>One retransmitted message of the batch; whether it completes the request.\<close>

definition replayed :: "replay_batch \<Rightarrow> u64 \<Rightarrow> instant \<Rightarrow> fixp_session \<Rightarrow> bool \<times> fixp_session" where
  "replayed replay following now s =
    (let remaining = rp_remaining replay;
         s1 = s\<lparr>se_replay := (case checked_sub remaining 1 of
                  Some left \<Rightarrow> if left = 0 then None else Some \<lparr>rp_next = following, rp_remaining = left\<rparr>
                | None \<Rightarrow> None)\<rparr>
     in case se_outstanding s1 of
          Some o' \<Rightarrow>
            (case checked_add (or_delivered o') 1 of
               Some delivered \<Rightarrow>
                 (or_count o' \<le> delivered,
                  s1\<lparr>se_outstanding := Some (o'\<lparr>or_delivered := delivered, or_last_progress := now,
                       or_stall_reported := False, or_batch_complete := (remaining = 1)\<rparr>)\<rparr>)
             | None \<Rightarrow> (True, s1))
        | None \<Rightarrow> (False, s1))"

definition on_application :: "instant \<Rightarrow> (delivery \<times> bound) on_bound" where
  "on_application now b =
    (let live = with_binding (\<lambda>bi. bi\<lparr>bi_last_received := now\<rparr>) b;
         refuse = (\<lambda>reason b. case violation reason b of (bound, b1) \<Rightarrow> ((Discard, bound), b1))
     in case bi_state (bs_binding b) of
          BindClosing _ \<Rightarrow>
            ((Discard, Stay), with_core (core_ignore APPLICATION_MESSAGE ''it arrived after the counterparty's Terminate'') b)
        | _ \<Rightarrow>
            (case se_replay (bs_session live) of
               Some replay \<Rightarrow>
                 (let seq = rp_next replay in
                  case checked_add seq 1 of
                    None \<Rightarrow> refuse ''retransmitted sequence numbers overflow'' live
                  | Some following \<Rightarrow>
                      (case replayed replay following now (bs_session live) of (done, s1) \<Rightarrow>
                        (case received_in_overflow seq s1 of (duplicate, s2) \<Rightarrow>
                          (case (if done then complete_outstanding now (live\<lparr>bs_session := s2\<rparr>)
                                 else (Stay, live\<lparr>bs_session := s2\<rparr>)) of
                             (bound, b1) \<Rightarrow>
                               ((if duplicate then Discard else Accept (Some seq) True, bound), b1)))))
             | None \<Rightarrow>
                 if se_peer_finished (bs_session live) \<noteq> None then refuse ''application message after FinishedSending'' live
                 else if se_remote_flow (bs_session live) = FlowNone then refuse ''application message on a None flow'' live
                 else if se_remote_flow (bs_session live) = FlowUnsequenced then ((Accept None False, Stay), live)
                 else if se_awaiting_resume (bs_session live)
                 then refuse ''application message after a retransmission without a Sequence'' live
                 else
                  (let b1 = with_session (\<lambda>s. s\<lparr>se_start_pending := False\<rparr>) live in
                   case se_inbound_next (bs_session b1) of
                     None \<Rightarrow> refuse ''application message before any Sequence'' b1
                   | Some seq \<Rightarrow>
                       (case checked_add seq 1 of
                          None \<Rightarrow> refuse ''inbound sequence numbers exhausted'' b1
                        | Some following \<Rightarrow>
                            ((Accept (Some seq) False, Stay),
                             with_session (\<lambda>s. s\<lparr>se_inbound_next := Some following\<rparr>) b1)))))"

subsection \<open>Retransmission\<close>

definition on_retransmission :: "retransmission \<Rightarrow> instant \<Rightarrow> bound on_bound" where
  "on_retransmission m now b =
    (if se_remote_flow (bs_session b) \<noteq> FlowRecoverable
     then violation ''Retransmission on a flow that is not Recoverable'' b
     else if rt_session_id m \<noteq> se_id (bs_session b) then violation ''Retransmission for another session'' b
     else
      (case se_outstanding (bs_session b) of
         None \<Rightarrow> violation ''Retransmission without a RetransmitRequest'' b
       | Some o' \<Rightarrow>
           if rt_request_timestamp m \<noteq> or_timestamp o' then violation ''Retransmission answers another request'' b
           else
            (let expected = checked_add (or_from o') (ucast (or_delivered o'));
                 remaining = checked_sub (or_count o') (or_delivered o')
             in if rt_count m = 0 \<or> \<not> (case remaining of Some left \<Rightarrow> rt_count m \<le> left | None \<Rightarrow> False)
                   \<or> Some (rt_next_seq_no m) \<noteq> expected
                then violation ''Retransmission outside the requested range'' b
                else
                 (Stay,
                  with_session (\<lambda>s. s\<lparr>se_replay := Some \<lparr>rp_next = rt_next_seq_no m, rp_remaining = rt_count m\<rparr>,
                      se_awaiting_resume := True,
                      se_outstanding := Some (o'\<lparr>or_last_progress := now, or_interrupted := False,
                        or_batch_complete := False, or_stall_reported := False\<rparr>)\<rparr>) b))))"

definition on_retransmit_reject :: "retransmit_reject \<Rightarrow> instant \<Rightarrow> bound on_bound" where
  "on_retransmit_reject m now b =
    (let ignored = (Stay, with_core (core_ignore ''RetransmitReject'' ''it answers no outstanding RetransmitRequest'') b)
     in case se_outstanding (bs_session b) of
          None \<Rightarrow> ignored
        | Some o' \<Rightarrow>
            if or_timestamp o' = rj_request_timestamp m \<and> rj_session_id m = se_id (bs_session b)
            then after_range now
              (with_session (\<lambda>s. consume_missing (ucast (or_count o')) (s\<lparr>se_outstanding := None, se_replay := None\<rparr>))
                (with_core (core_event (EvRetransmitRejected (or_from o') (or_count o') (rj_code m) (rj_reason m))) b))
            else ignored)"

definition refuse_retransmit :: "retransmit_request \<Rightarrow> retransmit_reject_code \<Rightarrow> string \<Rightarrow> bound on_bound" where
  "refuse_retransmit m code reason b =
    (Stay, with_core (core_event (EvRefused ''RetransmitReject'' reason))
      (leave_sequence
        (with_core (core_send (MRetransmitReject \<lparr>rj_session_id = rq_session_id m, rj_request_timestamp = rq_timestamp m,
            rj_code = code, rj_reason = bytes_of reason\<rparr>)) b)))"

definition on_retransmit_request :: "retransmit_request \<Rightarrow> bound on_bound" where
  "on_retransmit_request m b =
    (let until = checked_add (rq_from_seq_no m) (ucast (rq_count m)) in
     if \<not> is_established b
     then (Stay, with_core (core_ignore ''RetransmitRequest'' ''this side has sent its Terminate'') b)
     else if se_local_flow (bs_session b) \<noteq> FlowRecoverable
     then violation ''RetransmitRequest to a flow that is not Recoverable'' b
     else if rq_session_id m \<noteq> se_id (bs_session b) then refuse_retransmit m RejInvalidSession ''unknown session'' b
     else if se_provider (bs_session b) \<noteq> None
     then fail TermReRequestInProgress ''RetransmitRequest while a retransmission is in progress''
       (with_core (core_event (EvProtocolViolation ''RetransmitRequest while a retransmission is in progress'')) b)
     else if rq_count m = 0 then refuse_retransmit m RejOutOfRange ''empty range'' b
     else if cf_max_retransmit_count (config_of b) < rq_count m
     then refuse_retransmit m RejRequestLimitExceeded ''count exceeds the retransmission limit'' b
     else if \<not> (1 \<le> rq_from_seq_no m
              \<and> (case until of Some e \<Rightarrow> e \<le> se_outbound_next (bs_session b) | None \<Rightarrow> False))
     then refuse_retransmit m RejOutOfRange ''range not yet sent'' b
     else
      (Stay, with_core (core_event (EvRetransmitRequested (rq_from_seq_no m) (rq_count m)))
        (with_session (\<lambda>s. s\<lparr>se_provider := Some \<lparr>pv_request_timestamp = rq_timestamp m, pv_from = rq_from_seq_no m,
            pv_count = rq_count m, pv_sent = 0\<rparr>\<rparr>) b)))"

subsection \<open>Terminating and finishing\<close>

definition on_terminate :: "terminate_msg \<Rightarrow> instant \<Rightarrow> bound on_bound" where
  "on_terminate m now b =
    (if tm_session_id m \<noteq> se_id (bs_session b) then violation ''Terminate for another session'' b
     else
      (case bi_state (bs_binding b) of
         BindTerminating _ code reason \<Rightarrow>
           (Unbind,
            with_session (\<lambda>s. if code = TermFinished \<and> tm_code m = TermFinished then finalize_if_finished s else s)
              (with_session release_binding_state
                (with_core (core_close_transport \<circ> core_event (EvTerminated code reason ByLocal)) b)))
       | BindEstablished \<Rightarrow>
           (Stay,
            with_binding (\<lambda>bi. bi\<lparr>bi_state := BindClosing (instant_add now (bi_local_keepalive bi))\<rparr>)
              (with_session (\<lambda>s. if tm_code m = TermFinished then finalize_if_finished s else s)
                (with_session release_binding_state
                  (with_core (core_event (EvTerminated (tm_code m) (tm_reason m) ByPeer) \<circ>
                     core_send (MTerminate \<lparr>tm_session_id = se_id (bs_session b), tm_code = TermFinished, tm_reason = []\<rparr>)) b))))
       | BindClosing _ \<Rightarrow> (Stay, b)))"

definition on_finished_sending :: "finished_sending \<Rightarrow> instant \<Rightarrow> bound on_bound" where
  "on_finished_sending m now b =
    (let finish = (\<lambda>until b. (Stay, maybe_finish_receiving
           (with_session (\<lambda>s. s\<lparr>se_peer_finished := Some \<lparr>pf_receiving_sent = False, pf_end = until\<rparr>\<rparr>) b)))
     in if fs_session_id m \<noteq> se_id (bs_session b) then violation ''FinishedSending for another session'' b
        else if se_peer_finished (bs_session b) \<noteq> None then (Stay, b)
        else
         (let b1 = with_core (core_event (EvPeerFinishedSending (fs_last_seq_no m))) b in
          if \<not> is_sequenced (se_remote_flow (bs_session b1)) then finish None b1
          else
           (case fs_last_seq_no m of
              None \<Rightarrow> violation ''FinishedSending without LastSeqNo on a sequenced flow'' b1
            | Some final \<Rightarrow>
                (case checked_add final 1 of
                   None \<Rightarrow> violation ''LastSeqNo out of range'' b1
                 | Some nxt \<Rightarrow>
                     if (case se_inbound_next (bs_session b1) of Some expected \<Rightarrow> nxt < expected | None \<Rightarrow> False)
                     then violation ''LastSeqNo below the messages already received'' b1
                     else
                      (case on_next_seq nxt now b1 of
                         (Unbind, b2) \<Rightarrow> (Unbind, b2)
                       | (Stay, b2) \<Rightarrow> finish (Some nxt) b2)))))"

subsection \<open>Session messages\<close>

text \<open>An Applied or NotApplied is numbered as an application message, and reported if it is accepted.\<close>

definition on_numbered_report :: "fixp_event \<Rightarrow> instant \<Rightarrow> bound on_bound" where
  "on_numbered_report event now b =
    (case on_application now b of
       ((Accept _ _, bound), b1) \<Rightarrow> (bound, with_core (core_event event) b1)
     | ((Discard, bound), b1) \<Rightarrow> (bound, b1))"

definition on_peer_live :: "peer_message \<Rightarrow> instant \<Rightarrow> bound on_bound" where
  "on_peer_live message now b =
    (case message of
       PeerTerminate m \<Rightarrow> on_terminate m now b
     | PeerSequence m \<Rightarrow> on_next_seq (sq_next_seq_no m) now b
     | PeerContext m \<Rightarrow>
         if cx_session_id m \<noteq> se_id (bs_session b)
         then violation ''Context for another session: multiplexed transports are not supported'' b
         else if cx_next_seq_no m = SEQ_NULL then (Stay, b)
         else on_next_seq (cx_next_seq_no m) now b
     | PeerUnsequencedHeartbeat \<Rightarrow>
         if is_sequenced (se_remote_flow (bs_session b)) then violation ''UnsequencedHeartbeat on a sequenced flow'' b
         else (Stay, b)
     | PeerRetransmitRequest m \<Rightarrow> on_retransmit_request m b
     | PeerRetransmission m \<Rightarrow> on_retransmission m now b
     | PeerRetransmitReject m \<Rightarrow> on_retransmit_reject m now b
     | PeerApplied m \<Rightarrow> on_numbered_report (EvApplied (ap_from_seq_no m) (ap_count m)) now b
     | PeerNotApplied m \<Rightarrow>
         if se_local_flow (bs_session b) \<noteq> FlowIdempotent then violation ''NotApplied for a flow that is not Idempotent'' b
         else on_numbered_report (EvNotApplied (na_from_seq_no m) (na_count m)) now b
     | PeerTopic \<Rightarrow> violation ''Topic is a multicast message'' b
     | PeerFinishedSending m \<Rightarrow> on_finished_sending m now b
     | PeerFinishedReceiving \<Rightarrow> violation ''FinishedReceiving without a FinishedSending'' b
     | PeerMessageTemplate \<Rightarrow> (Stay, b))"

definition on_peer :: "peer_message \<Rightarrow> instant \<Rightarrow> bound on_bound" where
  "on_peer message now b =
    (case bi_state (bs_binding b) of
       BindClosing _ \<Rightarrow>
         (Stay, with_core (core_ignore (peer_name message) ''it arrived after the counterparty's Terminate'') b)
     | _ \<Rightarrow> on_peer_live message now (with_binding (\<lambda>bi. bi\<lparr>bi_last_received := now\<rparr>) b))"

subsection \<open>Local commands\<close>

definition require_established :: "string \<Rightarrow> bound_session \<Rightarrow> fixp_error + unit" where
  "require_established operation b =
    (if is_established b then Inr () else Inl (InvalidState operation (binding_status (bi_state (bs_binding b)))))"

definition check_reason :: "bytes \<Rightarrow> fixp_error + unit" where
  "check_reason reason =
    (if MAX_VAR_DATA_LEN < length reason then Inl (ReasonTooLong (length reason) MAX_VAR_DATA_LEN) else Inr ())"

definition send_application :: "instant \<Rightarrow> (bound_session, fixp_error, u64 option) fallible" where
  "send_application now =
    thenS (\<lambda>b. (require_established ''send_application'' b, b)) (\<lambda>_ b.
      if finished_receiving_sent (bs_session b) then (Inl FinishedReceivingSent, b)
      else
       (let numbered = thenS allocate_outbound (\<lambda>seq b. (Inr (Some seq), touch_keepalive now b)) b
        in case se_local_flow (bs_session b) of
             FlowNone \<Rightarrow> (Inl (FlowCarriesNoApplicationMessages FlowNone), b)
           | FlowUnsequenced \<Rightarrow> (Inr None, touch_keepalive now b)
           | FlowRecoverable \<Rightarrow> numbered
           | FlowIdempotent \<Rightarrow> numbered))"

definition terminate :: "termination_code \<Rightarrow> bytes \<Rightarrow> instant \<Rightarrow> (bound_session, fixp_error, bound) fallible" where
  "terminate code reason now =
    thenS (\<lambda>b. (require_established ''terminate'' b, b)) (\<lambda>_.
    thenS (liftS (check_reason reason)) (\<lambda>_ b.
      (let b1 = with_core (core_send (MTerminate \<lparr>tm_session_id = se_id (bs_session b), tm_code = code, tm_reason = reason\<rparr>)) b
       in if code = TermFinished
          then (Inr Stay, with_binding (\<lambda>bi. bi\<lparr>bi_state := BindTerminating now code reason\<rparr>)
                 (with_session (\<lambda>s. s\<lparr>se_provider := None\<rparr>) b1))
          else (Inr Unbind, with_core (core_close_transport \<circ> core_event (EvTerminated code reason ByLocal))
                 (with_session release_binding_state b1)))))"

definition retransmit :: "u32 \<Rightarrow> instant \<Rightarrow> (bound_session, fixp_error, retransmit_batch) fallible" where
  "retransmit count now =
    thenS (\<lambda>b. (require_established ''retransmit'' b, b)) (\<lambda>_ b.
      (case se_provider (bs_session b) of
         None \<Rightarrow> (Inl NoRetransmissionInProgress, b)
       | Some p \<Rightarrow>
           (case checked_sub (pv_count p) (pv_sent p) of
              None \<Rightarrow> (Inl NoRetransmissionInProgress, b)
            | Some remaining \<Rightarrow>
                if remaining < count then (Inl (RetransmissionOverrun count remaining), b)
                else
                 (case checked_add (pv_from p) (ucast (pv_sent p)) of
                    None \<Rightarrow> (Inl SequenceExhausted, b)
                  | Some from \<Rightarrow>
                      (let b1 = with_core (core_send (MRetransmission \<lparr>rt_session_id = se_id (bs_session b),
                             rt_request_timestamp = pv_request_timestamp p, rt_next_seq_no = from, rt_count = count\<rparr>)) b
                       in case checked_add (pv_sent p) count of
                            None \<Rightarrow> (Inl (RetransmissionOverrun count remaining), b1)
                          | Some sent \<Rightarrow>
                              (Inr \<lparr>rb_from = from, rb_count = count\<rparr>,
                               touch_keepalive now (leave_sequence
                                 (with_session (\<lambda>s. s\<lparr>se_provider :=
                                    (if pv_count p \<le> sent then None else Some (p\<lparr>pv_sent := sent\<rparr>))\<rparr>) b1))))))))"

definition reject_retransmit_request :: "retransmit_reject_code \<Rightarrow> bytes \<Rightarrow> (bound_session, fixp_error, unit) fallible" where
  "reject_retransmit_request code reason =
    thenS (\<lambda>b. (require_established ''reject_retransmit_request'' b, b)) (\<lambda>_.
    thenS (liftS (check_reason reason)) (\<lambda>_ b.
      (case se_provider (bs_session b) of
         None \<Rightarrow> (Inl NoRetransmissionInProgress, b)
       | Some p \<Rightarrow>
           (Inr (), leave_sequence
             (with_core (core_send (MRetransmitReject \<lparr>rj_session_id = se_id (bs_session b),
                 rj_request_timestamp = pv_request_timestamp p, rj_code = code, rj_reason = reason\<rparr>))
               (with_session (\<lambda>s. s\<lparr>se_provider := None\<rparr>) b))))))"

definition end_retransmission :: "(bound_session, fixp_error, unit) fallible" where
  "end_retransmission =
    thenS (\<lambda>b. (require_established ''end_retransmission'' b, b)) (\<lambda>_ b.
      (case se_provider (bs_session b) of
         None \<Rightarrow> (Inl NoRetransmissionInProgress, b)
       | Some _ \<Rightarrow> (Inr (), with_session (\<lambda>s. s\<lparr>se_provider := None\<rparr>) b)))"

subsection \<open>Time\<close>

definition silence_deadline :: "bound_session \<Rightarrow> instant option" where
  "silence_deadline b =
    (let bi = bs_binding b;
         grace = (case cf_peer_silence_grace (config_of b) of Some g \<Rightarrow> g | None \<Rightarrow> bi_remote_keepalive bi)
     in Option.bind (duration_add (bi_remote_keepalive bi) grace) (instant_add (bi_last_received bi)))"

definition stall_deadline :: "bound_session \<Rightarrow> instant option" where
  "stall_deadline b =
    (case se_outstanding (bs_session b) of
       Some o' \<Rightarrow> if or_stall_reported o' then None else instant_add (or_last_progress o') (cf_retransmit_timeout (config_of b))
     | None \<Rightarrow> None)"

definition heartbeat_deadline :: "bound_session \<Rightarrow> instant option" where
  "heartbeat_deadline b = instant_add (bi_last_keepalive (bs_binding b)) (bi_local_keepalive (bs_binding b))"

definition earliest :: "instant option list \<Rightarrow> instant option" where
  "earliest xs = (case List.map_filter (\<lambda>x. x) xs of [] \<Rightarrow> None | y # ys \<Rightarrow> Some (fold min ys y))"

definition next_deadline :: "bound_session \<Rightarrow> instant option" where
  "next_deadline b =
    (case bi_state (bs_binding b) of
       BindEstablished \<Rightarrow> earliest [silence_deadline b, heartbeat_deadline b, stall_deadline b]
     | BindTerminating sent_at _ _ \<Rightarrow> instant_add sent_at (bi_local_keepalive (bs_binding b))
     | BindClosing deadline \<Rightarrow> deadline)"

definition due :: "instant option \<Rightarrow> instant \<Rightarrow> bool" where
  "due deadline now \<longleftrightarrow> (case deadline of Some d \<Rightarrow> d \<le> now | None \<Rightarrow> False)"

definition re_request :: "outstanding_request \<Rightarrow> instant \<Rightarrow> bound on_bound" where
  "re_request o' now b =
    request_missing now
      (with_session (\<lambda>s. consume_missing (ucast (or_delivered o')) (s\<lparr>se_outstanding := None, se_replay := None\<rparr>)) b)"

definition on_stall :: "outstanding_request \<Rightarrow> instant \<Rightarrow> bound on_bound" where
  "on_stall o' now b =
    (let b1 = with_core (core_event (EvRetransmitTimedOut (or_from o') (or_count o'))) b;
         reported = (Stay, with_session (\<lambda>s. s\<lparr>se_outstanding := map_option (\<lambda>x. x\<lparr>or_stall_reported := True\<rparr>) (se_outstanding s)\<rparr>) b1)
     in case cf_retransmit_stall_policy (config_of b1) of
          StallTerminate \<Rightarrow> fail TermUnspecifiedError ''retransmission stalled'' b1
        | ReRequestAfterContextSwitch \<Rightarrow> if or_interrupted o' then re_request o' now b1 else reported
        | ReRequestAfterBatch \<Rightarrow> if or_interrupted o' \<or> or_batch_complete o' then re_request o' now b1 else reported
        | EventOnly \<Rightarrow> reported)"

definition heartbeat :: "instant \<Rightarrow> bound_session \<Rightarrow> bound_session" where
  "heartbeat now b =
    touch_keepalive now
      (if is_sequenced (se_local_flow (bs_session b))
       then with_binding (\<lambda>bi. bi\<lparr>bi_in_sequence := True\<rparr>)
              (with_core (core_send (MSequence \<lparr>sq_next_seq_no = se_outbound_next (bs_session b)\<rparr>)) b)
       else with_core (core_send MUnsequencedHeartbeat) b)"

definition on_timeout :: "instant \<Rightarrow> bound on_bound" where
  "on_timeout now b =
    (case bi_state (bs_binding b) of
       BindEstablished \<Rightarrow>
         if due (silence_deadline b) now
         then fail TermUnspecifiedError ''keepalive interval lapsed'' (with_core (core_event EvKeepaliveLapsed) b)
         else
          (case (case se_outstanding (bs_session b) of
                   Some o' \<Rightarrow> if due (stall_deadline b) now then on_stall o' now b else (Stay, b)
                 | None \<Rightarrow> (Stay, b)) of
             (Unbind, b1) \<Rightarrow> (Unbind, b1)
           | (Stay, b1) \<Rightarrow> (Stay, if due (heartbeat_deadline b1) now then heartbeat now b1 else b1))
     | BindTerminating sent_at code reason \<Rightarrow>
         if due (instant_add sent_at (bi_local_keepalive (bs_binding b))) now
         then (Unbind, with_session release_binding_state
                (with_core (core_close_transport \<circ> core_event (EvTerminated code reason ByLocal)) b))
         else (Stay, b)
     | BindClosing deadline \<Rightarrow>
         if due deadline now then (Unbind, with_core core_close_transport b) else (Stay, b))"

end
