(* ===== verification/Fixp_Recovery.thy ===== *)
theory Fixp_Recovery
  imports Fixp_Session
begin

text \<open>
  What the recovery state of a FIXP session means.  Gaps and the runs already received inside the
  overflow gap are ascending; a request covers the front of the first gap; a batch continues where the
  request stands.  A number below the next expected one is \<open>settled\<close> unless it is still \<open>awaited\<close>:
  every change of the recovery state is described by the numbers it settles.
\<close>

subsection \<open>Ascending gaps\<close>

definition span :: "gap \<Rightarrow> nat set" where
  "span g = {unat (gap_from g)..<unat (gap_end g)}"

definition spans :: "gap list \<Rightarrow> nat set" where
  "spans gs = (\<Union>g\<in>set gs. span g)"

fun ascending :: "nat \<Rightarrow> gap list \<Rightarrow> nat \<Rightarrow> bool" where
  "ascending lo [] hi = True"
| "ascending lo (g # gs) hi =
    (lo \<le> unat (gap_from g) \<and> unat (gap_from g) < unat (gap_end g) \<and> unat (gap_end g) \<le> hi
     \<and> ascending (unat (gap_end g)) gs hi)"

definition top_of :: "gap list \<Rightarrow> nat" where
  "top_of gs = (if gs = [] then 0 else unat (gap_end (last gs)))"

lemma spans_simps [simp]:
  "spans [] = {}" "spans (g # gs) = span g \<union> spans gs" "spans (gs @ hs) = spans gs \<union> spans hs"
  by (auto simp: spans_def)

lemma ascending_mono: "ascending lo gs hi \<Longrightarrow> lo' \<le> lo \<Longrightarrow> hi \<le> hi' \<Longrightarrow> ascending lo' gs hi'"
  by (induction gs arbitrary: lo lo') auto

lemma ascending_span: "ascending lo gs hi \<Longrightarrow> n \<in> spans gs \<Longrightarrow> lo \<le> n \<and> n < hi"
proof (induction gs arbitrary: lo)
  case (Cons g gs)
  then show ?case by (auto simp: span_def dest!: Cons.IH[rotated])
qed simp

lemma ascending_top: "ascending lo gs hi \<Longrightarrow> gs \<noteq> [] \<Longrightarrow> lo < top_of gs \<and> top_of gs \<le> hi"
proof (induction gs arbitrary: lo)
  case (Cons g gs)
  have "gs \<noteq> [] \<Longrightarrow> unat (gap_end g) < top_of gs \<and> top_of gs \<le> hi"
    using Cons.prems by (intro Cons.IH) simp_all
  with Cons.prems show ?case by (cases "gs = []") (auto simp: top_of_def)
qed simp

lemma ascending_to_top: "ascending lo gs hi \<Longrightarrow> ascending lo gs (top_of gs)"
proof (induction gs arbitrary: lo)
  case (Cons g gs)
  then have tail: "ascending (unat (gap_end g)) gs (top_of gs)" by simp
  show ?case
  proof (cases "gs = []")
    case False
    have "unat (gap_end g) < top_of gs" using Cons.prems False ascending_top[of "unat (gap_end g)" gs hi] by simp
    moreover have "top_of (g # gs) = top_of gs" using False by (simp add: top_of_def)
    ultimately show ?thesis using Cons.prems tail by simp
  qed (use Cons.prems in \<open>simp add: top_of_def\<close>)
qed simp

lemma ascending_zero: "ascending lo gs 0 \<longleftrightarrow> gs = []"
  by (cases gs) auto

lemma ascending_append:
  "ascending lo (gs @ [g]) hi \<longleftrightarrow> ascending lo gs (unat (gap_from g)) \<and> lo \<le> unat (gap_from g)
     \<and> unat (gap_from g) < unat (gap_end g) \<and> unat (gap_end g) \<le> hi"
proof (induction gs arbitrary: lo)
  case (Cons h gs)
  then show ?case
    using ascending_mono[of "unat (gap_end h)" gs "unat (gap_from g)"] by auto
qed auto

lemma ascending_butlast:
  assumes "ascending lo gs hi" "gs \<noteq> []"
  shows "ascending lo (butlast gs) (unat (gap_from (last gs)))" "lo \<le> unat (gap_from (last gs))"
    "unat (gap_from (last gs)) < unat (gap_end (last gs))"
  using assms ascending_append[of lo "butlast gs" "last gs" hi] by simp_all

lemma spans_last: "gs \<noteq> [] \<Longrightarrow> spans gs = spans (butlast gs) \<union> span (last gs)"
  using spans_simps(3)[of "butlast gs" "[last gs]"] by (simp del: spans_simps(3))

lemma top_of_append [simp]: "top_of (gs @ [g]) = unat (gap_end g)"
  by (simp add: top_of_def)

subsection \<open>Awaited and settled numbers\<close>

definition next_in :: "fixp_session \<Rightarrow> nat" where
  "next_in s = (case se_inbound_next s of None \<Rightarrow> 0 | Some n \<Rightarrow> unat n)"

definition recovered_to :: "fixp_session \<Rightarrow> nat" where
  "recovered_to s = (case se_outstanding s of None \<Rightarrow> 0 | Some r \<Rightarrow> unat (or_from r) + unat (or_delivered r))"

definition awaited :: "fixp_session \<Rightarrow> nat set" where
  "awaited s = {n \<in> spans (se_missing s). recovered_to s \<le> n \<and> n \<notin> spans (se_overflow_received s)}"

definition settled :: "fixp_session \<Rightarrow> nat set" where
  "settled s = {n. n < next_in s \<and> n \<notin> awaited s}"

definition request_ok :: "fixp_session \<Rightarrow> outstanding_request \<Rightarrow> bool" where
  "request_ok s r \<longleftrightarrow> se_missing s \<noteq> [] \<and> or_from r = gap_from (hd (se_missing s))
     \<and> unat (or_from r) + unat (or_count r) \<le> unat (gap_end (hd (se_missing s)))
     \<and> unat (or_delivered r) \<le> unat (or_count r)"

definition batch_ok :: "outstanding_request \<Rightarrow> replay_batch \<Rightarrow> bool" where
  "batch_ok r p \<longleftrightarrow> unat (rp_next p) = unat (or_from r) + unat (or_delivered r) \<and> 0 < unat (rp_remaining p)
     \<and> unat (or_delivered r) + unat (rp_remaining p) \<le> unat (or_count r)"

definition recovery_ok :: "fixp_session \<Rightarrow> bool" where
  "recovery_ok s \<longleftrightarrow>
     ascending 0 (se_missing s) (next_in s) \<and> ascending 0 (se_overflow_received s) (top_of (se_missing s))
     \<and> (case se_outstanding s of None \<Rightarrow> se_replay s = None
        | Some r \<Rightarrow> request_ok s r \<and> (case se_replay s of None \<Rightarrow> True | Some p \<Rightarrow> batch_ok r p))
     \<and> (se_start_pending s \<longrightarrow> se_missing s = [] \<and> se_inbound_next s = Some 1)
     \<and> (is_sequenced (se_remote_flow s) \<longrightarrow> se_inbound_next s \<noteq> None)
     \<and> (se_remote_flow s \<noteq> FlowRecoverable \<longrightarrow> se_missing s = [])"

definition advances :: "nat set \<Rightarrow> fixp_session \<Rightarrow> fixp_session \<Rightarrow> bool" where
  "advances A s t \<longleftrightarrow> recovery_ok t \<and> settled t = settled s \<union> A \<and> se_remote_flow t = se_remote_flow s
     \<and> next_in s \<le> next_in t"

lemma advances_refl: "recovery_ok s \<Longrightarrow> advances {} s s"
  by (simp add: advances_def)

lemma advances_trans: "advances A s t \<Longrightarrow> advances B t u \<Longrightarrow> advances (A \<union> B) s u"
  by (auto simp: advances_def)

lemma advances_then: "advances {} s t \<Longrightarrow> advances B t u \<Longrightarrow> advances B s u"
  by (auto simp: advances_def)

text \<open>Changes outside the recovery state.\<close>

definition same_recovery :: "fixp_session \<Rightarrow> fixp_session \<Rightarrow> bool" where
  "same_recovery s t \<longleftrightarrow> se_remote_flow t = se_remote_flow s \<and> se_inbound_next t = se_inbound_next s
     \<and> se_start_pending t = se_start_pending s \<and> se_missing t = se_missing s
     \<and> se_overflow_received t = se_overflow_received s \<and> se_outstanding t = se_outstanding s \<and> se_replay t = se_replay s"

lemma same_recovery_advances:
  assumes "same_recovery s t" "recovery_ok s"
  shows "advances {} s t"
proof -
  have eqs: "next_in t = next_in s" "recovered_to t = recovered_to s" "awaited t = awaited s"
    using assms(1) by (simp_all add: same_recovery_def next_in_def recovered_to_def awaited_def)
  moreover have "request_ok t = request_ok s" using assms(1) by (intro ext) (simp add: same_recovery_def request_ok_def)
  ultimately have "recovery_ok t" using assms by (simp add: same_recovery_def recovery_ok_def split: option.splits)
  then show ?thesis using eqs assms(1) by (simp add: advances_def settled_def same_recovery_def)
qed

subsection \<open>Recovering from the front\<close>

lemma unat_ucast_u32 [simp]: "unat (ucast k :: u64) = unat (k :: u32)"
  by (simp add: unat_ucast_up)

lemma ucast_u32_zero [simp]: "(ucast k :: u64) = 0 \<longleftrightarrow> k = (0 :: u32)"
  by (metis unat_ucast_u32 unat_eq_zero)

text \<open>What is left of the gaps once the first \<open>k\<close> numbers of a request are done with.\<close>

lemma consume_missing_front:
  assumes m: "se_missing s = front # rest" and fit: "unat (gap_from front) + unat k \<le> unat (gap_end front)"
  shows "consume_missing (ucast (k :: u32)) s =
    (if k = 0 then s
     else if unat (gap_from front) + unat k < unat (gap_end front)
     then s\<lparr>se_missing := front\<lparr>gap_from := gap_from front + ucast k\<rparr> # rest\<rparr>
     else if rest = [] then s\<lparr>se_missing := [], se_overflow_received := []\<rparr> else s\<lparr>se_missing := rest\<rparr>)"
proof -
  have bound: "unat (gap_end front) < 2 ^ 64" by (rule order_less_le_trans[OF unsigned_less]) simp
  then have "checked_add (gap_from front) (ucast k) = Some (gap_from front + ucast k)"
    using fit by (simp add: checked_add_eq)
  moreover have "unat (gap_from front + ucast k) = unat (gap_from front) + unat k"
    using bound fit by (simp add: unat_word_ariths)
  then have "gap_from front + ucast k < gap_end front \<longleftrightarrow> unat (gap_from front) + unat k < unat (gap_end front)"
    by (simp add: word_less_nat_alt)
  ultimately show ?thesis by (simp add: consume_missing_def m Let_def)
qed

text \<open>The state the recovered numbers leave, by the number of them.\<close>

definition after_front :: "nat \<Rightarrow> fixp_session \<Rightarrow> fixp_session" where
  "after_front k s =
    (let front = hd (se_missing s); rest = tl (se_missing s) in
     if k = 0 then s
     else if unat (gap_from front) + k < unat (gap_end front)
     then s\<lparr>se_missing := front\<lparr>gap_from := gap_from front + word_of_nat k\<rparr> # rest\<rparr>
     else if rest = [] then s\<lparr>se_missing := [], se_overflow_received := []\<rparr> else s\<lparr>se_missing := rest\<rparr>)"

lemma spans_after_front:
  assumes ok: "ascending 0 (front # rest) hi" and k: "unat (gap_from front) + k \<le> unat (gap_end front)"
    and m: "se_missing s = front # rest"
  shows "spans (se_missing (after_front k s)) = {n \<in> spans (front # rest). unat (gap_from front) + k \<le> n}"
    and "k \<noteq> 0 \<Longrightarrow> unat (gap_from front) + k < unat (gap_end front) \<Longrightarrow>
      unat (gap_from front + word_of_nat k) = unat (gap_from front) + k"
proof -
  have bound: "unat (gap_end front) < 2 ^ 64" by (rule order_less_le_trans[OF unsigned_less]) simp
  have below: "unat (gap_from front) + k \<le> n" if "n \<in> spans rest" for n
    using ascending_span[of "unat (gap_end front)" rest hi n] that ok k by simp
  have moved: "unat (gap_from front + word_of_nat k) = unat (gap_from front) + k"
    using bound k by (simp add: unat_word_ariths unsigned_of_nat take_bit_nat_eq_self)
  then show "k \<noteq> 0 \<Longrightarrow> unat (gap_from front) + k < unat (gap_end front) \<Longrightarrow>
      unat (gap_from front + word_of_nat k) = unat (gap_from front) + k" by simp
  have "span front = {n. unat (gap_from front) \<le> n \<and> n < unat (gap_end front)}" by (auto simp: span_def)
  then show "spans (se_missing (after_front k s)) = {n \<in> spans (front # rest). unat (gap_from front) + k \<le> n}"
    using below moved k m ok by (auto simp: after_front_def Let_def span_def)
qed

definition cleared :: "nat \<Rightarrow> fixp_session \<Rightarrow> fixp_session" where
  "cleared k s = (after_front k s)\<lparr>se_outstanding := None, se_replay := None\<rparr>"

lemma after_front_keeps [simp]:
  "se_remote_flow (after_front k s) = se_remote_flow s" "se_inbound_next (after_front k s) = se_inbound_next s"
  "se_start_pending (after_front k s) = se_start_pending s" "se_id (after_front k s) = se_id s"
  "se_outbound_next (after_front k s) = se_outbound_next s" "se_local_flow (after_front k s) = se_local_flow s"
  "se_provider (after_front k s) = se_provider s" "se_peer_finished (after_front k s) = se_peer_finished s"
  by (simp_all add: after_front_def Let_def)

lemma next_in_keeps [simp]:
  "next_in (after_front k s) = next_in s" "next_in (cleared k s) = next_in s"
  by (simp_all add: next_in_def cleared_def)

lemma request_okD:
  assumes "recovery_ok s" "se_outstanding s = Some r"
  shows "\<exists>front rest. se_missing s = front # rest \<and> or_from r = gap_from front
    \<and> unat (gap_from front) + unat (or_count r) \<le> unat (gap_end front) \<and> ascending 0 (front # rest) (next_in s)"
    and "unat (or_delivered r) \<le> unat (or_count r)"
  using assms by (cases "se_missing s"; simp add: recovery_ok_def request_ok_def)+

lemma consume_missing_cleared:
  assumes ok: "recovery_ok s" and r: "se_outstanding s = Some r" and k: "unat (k :: u32) \<le> unat (or_count r)"
  shows "(consume_missing (ucast k) (s\<lparr>se_outstanding := None\<rparr>))\<lparr>se_replay := None\<rparr> = cleared (unat k) s"
    and "consume_missing (ucast k) (s\<lparr>se_outstanding := None, se_replay := None\<rparr>) = cleared (unat k) s"
proof -
  obtain front rest where m: "se_missing s = front # rest"
    and fit: "unat (gap_from front) + unat (or_count r) \<le> unat (gap_end front)"
    using request_okD(1)[OF ok r] by blast
  then have fit': "unat (gap_from front) + unat k \<le> unat (gap_end front)" using k by simp
  have cast: "word_of_nat (unat k) = (ucast k :: u64)" by (rule word_unat_eq_iff[THEN iffD2]) (simp add: unat_of_nat_small order_less_le_trans[OF unsigned_less])
  show "(consume_missing (ucast k) (s\<lparr>se_outstanding := None\<rparr>))\<lparr>se_replay := None\<rparr> = cleared (unat k) s"
    using m fit' consume_missing_front[of "s\<lparr>se_outstanding := None\<rparr>" front rest k]
    by (simp add: cleared_def after_front_def Let_def cast unat_eq_zero)
  show "consume_missing (ucast k) (s\<lparr>se_outstanding := None, se_replay := None\<rparr>) = cleared (unat k) s"
    using m fit' consume_missing_front[of "s\<lparr>se_outstanding := None, se_replay := None\<rparr>" front rest k]
    by (simp add: cleared_def after_front_def Let_def cast unat_eq_zero)
qed

lemma ascending_after_front:
  assumes "ascending 0 (front # rest) hi" "unat (gap_from front) + k \<le> unat (gap_end front)" "se_missing s = front # rest"
  shows "ascending 0 (se_missing (after_front k s)) hi"
  using assms spans_after_front(2)[OF assms(1,2,3)] ascending_mono[of "unat (gap_end front)" rest hi 0 hi]
  by (auto simp: after_front_def Let_def)

lemma runs_after_front:
  assumes "ascending 0 (se_overflow_received s) (top_of (se_missing s))" "se_missing s = front # rest"
  shows "ascending 0 (se_overflow_received (after_front k s)) (top_of (se_missing (after_front k s)))"
    and "rest \<noteq> [] \<or> unat (gap_from front) + k < unat (gap_end front) \<Longrightarrow>
      se_overflow_received (after_front k s) = se_overflow_received s"
  using assms by (auto simp: after_front_def Let_def top_of_def)

lemma awaited_after_front:
  assumes ok: "recovery_ok s" and r: "se_outstanding s = Some r"
    and k: "unat (or_delivered r) \<le> k" "k \<le> unat (or_count r)"
  shows "awaited s = awaited (cleared k s) \<union>
      ({unat (or_from r) + unat (or_delivered r)..<unat (or_from r) + k} - spans (se_overflow_received s))"
    and "awaited (cleared k s) \<inter>
      ({unat (or_from r) + unat (or_delivered r)..<unat (or_from r) + k} - spans (se_overflow_received s)) = {}"
proof -
  obtain front rest where m: "se_missing s = front # rest" and f: "or_from r = gap_from front"
    and fit: "unat (gap_from front) + unat (or_count r) \<le> unat (gap_end front)"
    and asc: "ascending 0 (front # rest) (next_in s)"
    using request_okD(1)[OF ok r] by blast
  have fit': "unat (gap_from front) + k \<le> unat (gap_end front)" using fit k by simp
  let ?M = "spans (front # rest)" and ?R = "spans (se_overflow_received s)"
  have new: "awaited (cleared k s) = {n \<in> ?M. unat (gap_from front) + k \<le> n \<and> n \<notin> ?R}"
  proof (cases "spans (se_missing (after_front k s)) = {}")
    case True
    then show ?thesis using spans_after_front(1)[OF asc fit' m] by (auto simp: awaited_def cleared_def)
  next
    case False
    then have "rest \<noteq> [] \<or> unat (gap_from front) + k < unat (gap_end front)"
      using m fit' asc by (auto simp: after_front_def Let_def split: if_splits)
    then have "se_overflow_received (after_front k s) = se_overflow_received s"
      using ok m by (intro runs_after_front(2)) (simp_all add: recovery_ok_def)
    then show ?thesis using spans_after_front(1)[OF asc fit' m] by (auto simp: awaited_def cleared_def recovered_to_def)
  qed
  have old: "awaited s = {n \<in> ?M. unat (gap_from front) + unat (or_delivered r) \<le> n \<and> n \<notin> ?R}"
    by (simp add: awaited_def recovered_to_def r f m)
  have "n \<in> span front" if "unat (gap_from front) \<le> n" "n < unat (gap_from front) + k" for n
    using that fit' by (simp add: span_def)
  then show "awaited s = awaited (cleared k s) \<union>
      ({unat (or_from r) + unat (or_delivered r)..<unat (or_from r) + k} - ?R)"
    using k unfolding new old f by auto
  show "awaited (cleared k s) \<inter>
      ({unat (or_from r) + unat (or_delivered r)..<unat (or_from r) + k} - ?R) = {}"
    unfolding new f by auto
qed

lemma cleared_ok:
  assumes ok: "recovery_ok s" and r: "se_outstanding s = Some r" and k: "k \<le> unat (or_count r)"
  shows "recovery_ok (cleared k s)"
proof -
  obtain front rest where m: "se_missing s = front # rest"
    and fit: "unat (gap_from front) + unat (or_count r) \<le> unat (gap_end front)"
    and asc: "ascending 0 (front # rest) (next_in s)"
    using request_okD(1)[OF ok r] by blast
  then have fit': "unat (gap_from front) + k \<le> unat (gap_end front)" using k by simp
  show ?thesis
    using ok m ascending_after_front[OF asc fit' m] runs_after_front(1)[of s front rest k]
    by (auto simp: recovery_ok_def cleared_def next_in_def)
qed

lemma awaited_below: "recovery_ok s \<Longrightarrow> n \<in> awaited s \<Longrightarrow> n < next_in s"
  using ascending_span[of 0 "se_missing s" "next_in s" n] by (auto simp: recovery_ok_def awaited_def)

text \<open>Numbers that stop being awaited are settled; numbers that become so are not.\<close>

lemma advances_awaited:
  assumes "recovery_ok s" "recovery_ok t" "se_remote_flow t = se_remote_flow s" "next_in t = next_in s"
    and "awaited s = awaited t \<union> A" "awaited t \<inter> A = {}"
  shows "advances A s t"
  using assms awaited_below[of s] by (auto simp: advances_def settled_def)

lemma cleared_advances:
  assumes ok: "recovery_ok s" and r: "se_outstanding s = Some r"
    and k: "unat (or_delivered r) \<le> k" "k \<le> unat (or_count r)"
  shows "advances ({unat (or_from r) + unat (or_delivered r)..<unat (or_from r) + k} - spans (se_overflow_received s))
    s (cleared k s)"
  by (rule advances_awaited[OF ok cleared_ok[OF ok r k(2)] _ _ awaited_after_front[OF ok r k]])
     (simp_all add: cleared_def next_in_def)

lemma cleared_delivered:
  assumes "recovery_ok s" "se_outstanding s = Some r"
  shows "advances {} s (cleared (unat (or_delivered r)) s)"
proof -
  have "unat (or_delivered r) \<le> unat (or_count r)" using assms by (rule request_okD(2))
  then show ?thesis using cleared_advances[OF assms order_refl] by simp
qed


text \<open>
  What each operation of a FIXP session does to its recovery state: the numbers it settles.  Only an
  accepted message, a refused request and the start of the counterparty's numbering settle any.
\<close>

subsection \<open>One retransmitted message\<close>

lemma received_in_overflow_spec:
  assumes "ascending lo (se_overflow_received s) hi"
  shows "received_in_overflow seq s =
    (unat seq \<in> spans (se_overflow_received s),
     s\<lparr>se_overflow_received := dropWhile (\<lambda>run. gap_end run \<le> seq) (se_overflow_received s)\<rparr>)"
proof -
  have "(case dropWhile (\<lambda>run. gap_end run \<le> seq) gs of [] \<Rightarrow> False | run # _ \<Rightarrow> gap_from run \<le> seq) \<longleftrightarrow> unat seq \<in> spans gs"
    if "ascending lo gs hi" for gs
    using that
  proof (induction gs arbitrary: lo)
    case (Cons g gs)
    then have tail: "ascending (unat (gap_end g)) gs hi" by simp
    then have "unat seq \<notin> spans gs" if "\<not> gap_end g \<le> seq"
      using that ascending_span[OF tail, of "unat seq"] by (auto simp: word_le_nat_alt)
    then show ?case using Cons.IH[OF tail] Cons.prems
      by (auto simp: span_def word_le_nat_alt)
  qed simp
  with assms show ?thesis by (simp add: received_in_overflow_def Let_def)
qed

lemma ascending_dropWhile: "ascending lo gs hi \<Longrightarrow> ascending lo (dropWhile P gs) hi"
proof (induction gs arbitrary: lo)
  case (Cons g gs)
  then have "ascending (unat (gap_end g)) (dropWhile P gs) hi" by simp
  then have "ascending lo (dropWhile P gs) hi" using Cons.prems by (elim ascending_mono) simp_all
  then show ?case using Cons.prems by simp
qed simp

lemma spans_dropWhile:
  assumes "ascending lo gs hi" "unat seq \<le> n"
  shows "n \<in> spans (dropWhile (\<lambda>run. gap_end run \<le> seq) gs) \<longleftrightarrow> n \<in> spans gs"
  using assms by (induction gs arbitrary: lo) (auto simp: span_def word_le_nat_alt)

lemma replayed_eq:
  assumes r: "se_outstanding s = Some r" and b: "batch_ok r p"
  shows "\<exists>q r'. replayed p following now s = (unat (or_count r) \<le> Suc (unat (or_delivered r)), s\<lparr>se_replay := q, se_outstanding := Some r'\<rparr>)
    \<and> or_from r' = or_from r \<and> or_count r' = or_count r \<and> unat (or_delivered r') = Suc (unat (or_delivered r))
    \<and> (case q of None \<Rightarrow> True | Some p' \<Rightarrow> rp_next p' = following \<and> 0 < unat (rp_remaining p')
        \<and> Suc (unat (rp_remaining p')) = unat (rp_remaining p))"
proof -
  have c32: "unat (or_count r) < 2 ^ 32" by (rule order_less_le_trans[OF unsigned_less]) simp
  have left: "unat (or_delivered r) + unat (rp_remaining p) \<le> unat (or_count r)" "0 < unat (rp_remaining p)"
    using b by (simp_all add: batch_ok_def)
  have d': "unat (or_delivered r + 1) = Suc (unat (or_delivered r))"
    using left c32 by (simp add: unat_word_ariths)
  have d: "checked_add (or_delivered r) 1 = Some (or_delivered r + 1)"
    using left c32 by (simp add: checked_add_def)
  have one: "(1 :: u32) \<le> rp_remaining p" using left by (simp add: word_le_nat_alt)
  then have m': "unat (rp_remaining p - 1) = unat (rp_remaining p) - 1" by (simp add: unat_sub)
  have z: "rp_remaining p - 1 = 0 \<longleftrightarrow> unat (rp_remaining p) = 1"
    using m' left by (metis One_nat_def Suc_pred diff_Suc_1 unat_eq_zero)
  let ?q = "if unat (rp_remaining p) = 1 then None else Some \<lparr>rp_next = following, rp_remaining = rp_remaining p - 1\<rparr>"
  let ?r = "r\<lparr>or_delivered := or_delivered r + 1, or_last_progress := now, or_stall_reported := False,
    or_batch_complete := (rp_remaining p = 1)\<rparr>"
  have "replayed p following now s =
      (unat (or_count r) \<le> Suc (unat (or_delivered r)), s\<lparr>se_replay := ?q, se_outstanding := Some ?r\<rparr>)"
    using left z by (simp add: replayed_def Let_def checked_sub_def one r d d' word_le_nat_alt)
  moreover have "case ?q of None \<Rightarrow> True | Some p' \<Rightarrow> rp_next p' = following \<and> 0 < unat (rp_remaining p')
      \<and> Suc (unat (rp_remaining p')) = unat (rp_remaining p)"
    using left by (auto simp: m')
  ultimately show ?thesis
    using d' by (intro exI[of _ ?q] exI[of _ ?r]) simp
qed

lemma replayed_step:
  assumes ok: "recovery_ok s" and p: "se_replay s = Some p"
    and run: "replayed p following now s = (done, s1)" "received_in_overflow (rp_next p) s1 = (duplicate, t)"
    and no: "checked_add (rp_next p) 1 = Some following"
  shows "\<exists>r. se_outstanding t = Some r \<and> advances {unat (rp_next p)} s t \<and> unat (rp_next p) < next_in s
     \<and> (duplicate \<longleftrightarrow> unat (rp_next p) \<in> settled s) \<and> (done \<longrightarrow> or_delivered r = or_count r)"
proof -
  obtain r where r: "se_outstanding s = Some r" and b: "batch_ok r p"
    using ok p by (auto simp: recovery_ok_def split: option.splits)
  obtain front rest where m: "se_missing s = front # rest" and f: "or_from r = gap_from front"
    and fit: "unat (gap_from front) + unat (or_count r) \<le> unat (gap_end front)"
    and asc: "ascending 0 (front # rest) (next_in s)"
    using request_okD(1)[OF ok r] by blast
  have runs: "ascending 0 (se_overflow_received s) (top_of (se_missing s))" using ok by (simp add: recovery_ok_def)
  have seq: "unat (rp_next p) = unat (or_from r) + unat (or_delivered r)"
    and left: "unat (or_delivered r) < unat (or_count r)"
    using b by (simp_all add: batch_ok_def)
  have fo: "unat following = Suc (unat (rp_next p))" using unat_checked_add[OF no] by simp
  obtain q r' where eq: "done = (unat (or_count r) \<le> Suc (unat (or_delivered r)))"
      "s1 = s\<lparr>se_replay := q, se_outstanding := Some r'\<rparr>"
    and r': "or_from r' = or_from r" "or_count r' = or_count r" "unat (or_delivered r') = Suc (unat (or_delivered r))"
    and q: "case q of None \<Rightarrow> True | Some p' \<Rightarrow> rp_next p' = following \<and> 0 < unat (rp_remaining p')
        \<and> Suc (unat (rp_remaining p')) = unat (rp_remaining p)"
    using replayed_eq[OF r b, of following now] run(1) by auto
  let ?D = "dropWhile (\<lambda>run. gap_end run \<le> rp_next p) (se_overflow_received s)"
  have t: "t = s1\<lparr>se_overflow_received := ?D\<rparr>"
    and dup: "duplicate = (unat (rp_next p) \<in> spans (se_overflow_received s))"
    using run(2) runs received_in_overflow_spec[of 0 s1 "top_of (se_missing s)" "rp_next p"] by (simp_all add: eq(2))
  have inside: "unat (rp_next p) \<in> spans (se_missing s)" "unat (rp_next p) < next_in s"
    using seq left fit asc by (auto simp: m f span_def)
  have drops: "n \<in> spans ?D \<longleftrightarrow> n \<in> spans (se_overflow_received s)" if "unat (rp_next p) \<le> n" for n
    by (rule spans_dropWhile[OF runs that])
  have aw: "awaited t = {n \<in> spans (se_missing s). Suc (unat (rp_next p)) \<le> n \<and> n \<notin> spans (se_overflow_received s)}"
    using drops by (auto simp: awaited_def recovered_to_def t eq(2) r' seq)
  have as: "awaited s = {n \<in> spans (se_missing s). unat (rp_next p) \<le> n \<and> n \<notin> spans (se_overflow_received s)}"
    by (simp add: awaited_def recovered_to_def r seq)
  have nx: "next_in t = next_in s" by (simp add: next_in_def t eq(2))
  have settles: "settled t = settled s \<union> {unat (rp_next p)}"
    using inside by (auto simp: settled_def nx aw as)
  have "batch_ok r' p'" if "q = Some p'" for p'
    using q b that by (simp add: batch_ok_def r' seq fo)
  then have "recovery_ok t"
    using ok ascending_dropWhile[OF runs] left
    by (auto simp: recovery_ok_def t eq(2) r p request_ok_def r' next_in_def m split: option.splits)
  moreover have "done \<longrightarrow> or_delivered r' = or_count r'"
    using left by (auto simp: eq(1) r' word_unat_eq_iff)
  ultimately show ?thesis
    using settles nx inside dup by (auto simp: advances_def t eq(2) settled_def as)
qed

subsection \<open>A gap is found\<close>

lemma recovered_to_top: "recovery_ok s \<Longrightarrow> se_missing s \<noteq> [] \<Longrightarrow> recovered_to s \<le> top_of (se_missing s)"
proof (cases "se_outstanding s")
  case (Some r)
  assume ok: "recovery_ok s" and "se_missing s \<noteq> []"
  obtain front rest where m: "se_missing s = front # rest" "or_from r = gap_from front"
    "unat (gap_from front) + unat (or_count r) \<le> unat (gap_end front)" "ascending 0 (front # rest) (next_in s)"
    using request_okD(1)[OF ok Some] by blast
  moreover have "unat (or_delivered r) \<le> unat (or_count r)" using ok Some by (rule request_okD(2))
  moreover have "unat (gap_end front) \<le> top_of (front # rest)"
    using m(4) ascending_top[of "unat (gap_end front)" rest "next_in s"]
    by (cases "rest = []") (simp_all add: top_of_def)
  ultimately show ?thesis by (simp add: recovered_to_def Some)
qed (simp add: recovered_to_def)

lemma recovered_to_next: "recovery_ok s \<Longrightarrow> recovered_to s \<le> next_in s"
  using recovered_to_top[of s] ascending_top[of 0 "se_missing s" "next_in s"]
  by (cases "se_missing s = []") (auto simp: recovery_ok_def recovered_to_def request_ok_def split: option.splits)

lemma settled_gap:
  assumes "recovery_ok s" "next_in t = n" "next_in s \<le> n" "awaited t = awaited s \<union> {next_in s..<n}"
  shows "settled t = settled s"
  using assms awaited_below[of s] by (auto simp: settled_def)

lemma request_ok_extended:
  assumes "request_ok s r" "se_missing t \<noteq> []" "gap_from (hd (se_missing t)) = gap_from (hd (se_missing s))"
    "unat (gap_end (hd (se_missing s))) \<le> unat (gap_end (hd (se_missing t)))"
  shows "request_ok t r"
  using assms order_trans[OF _ assms(4)] by (auto simp: request_ok_def)

lemma new_gap_advances:
  assumes ok: "recovery_ok s" and at: "se_inbound_next s = Some expected" "expected < nxt"
    and flow: "se_remote_flow s = FlowRecoverable" "\<not> se_start_pending s"
  shows "advances {} s (s\<lparr>se_missing := se_missing s @ [\<lparr>gap_from = expected, gap_end = nxt\<rparr>], se_inbound_next := Some nxt\<rparr>)"
    (is "advances _ _ ?t")
proof -
  have lt: "unat expected < unat nxt" using at(2) by (simp add: word_less_nat_alt)
  have nx: "next_in s = unat expected" "next_in ?t = unat nxt" using at by (simp_all add: next_in_def)
  have asc: "ascending 0 (se_missing s) (unat expected)" and runs: "ascending 0 (se_overflow_received s) (top_of (se_missing s))"
    using ok nx by (simp_all add: recovery_ok_def)
  have top: "top_of (se_missing s) \<le> unat expected"
    using ascending_top[OF asc] by (cases "se_missing s = []") (simp_all add: top_of_def)
  have "n \<notin> spans (se_overflow_received s)" if "unat expected \<le> n" for n
    using ascending_span[OF runs, of n] that top by auto
  then have "awaited ?t = awaited s \<union> {next_in s..<unat nxt}"
    using recovered_to_next[OF ok] nx by (auto simp: awaited_def recovered_to_def span_def)
  then have "settled ?t = settled s" using nx lt by (intro settled_gap[OF ok]) simp_all
  moreover have "request_ok s r \<Longrightarrow> request_ok ?t r" for r
    by (rule request_ok_extended) (auto simp: request_ok_def)
  then have "recovery_ok ?t"
    using ok nx lt ascending_mono[OF runs order_refl] top flow
    by (auto simp: recovery_ok_def ascending_append split: option.splits)
  ultimately show ?thesis using nx lt by (simp add: advances_def)
qed

lemma widened_advances:
  fixes s :: fixp_session and nxt expected :: u64
  defines "final \<equiv> last (se_missing s)"
  defines "t \<equiv> s\<lparr>se_missing := butlast (se_missing s) @ [final\<lparr>gap_end := nxt\<rparr>],
      se_overflow_received := se_overflow_received s @ (if gap_end final < expected then [\<lparr>gap_from = gap_end final, gap_end = expected\<rparr>] else []),
      se_inbound_next := Some nxt\<rparr>"
  assumes ok: "recovery_ok s" and at: "se_inbound_next s = Some expected" "expected < nxt" and m: "se_missing s \<noteq> []"
    and flow: "se_remote_flow s = FlowRecoverable" "\<not> se_start_pending s"
  shows "advances {} s t"
proof -
  let ?b = "butlast (se_missing s)" and ?R = "se_overflow_received s"
  have lt: "unat expected < unat nxt" using at(2) by (simp add: word_less_nat_alt)
  have nx: "next_in s = unat expected" "next_in t = unat nxt" using at by (simp_all add: next_in_def t_def)
  have asc: "ascending 0 (se_missing s) (unat expected)" and runs: "ascending 0 ?R (unat (gap_end final))"
    using ok nx m by (simp_all add: recovery_ok_def top_of_def final_def)
  have top: "unat (gap_end final) \<le> unat expected" using ascending_top[OF asc m] m by (simp add: top_of_def final_def)
  have b: "ascending 0 ?b (unat (gap_from final))" "unat (gap_from final) < unat (gap_end final)"
    using ascending_butlast[OF asc m] by (simp_all add: final_def)
  have sp: "spans (se_missing s) = spans ?b \<union> span final" using spans_last[OF m] by (simp add: final_def)
  have rec: "recovered_to s \<le> unat (gap_end final)" using recovered_to_top[OF ok m] m by (simp add: top_of_def final_def)
  have below: "n \<notin> spans ?R" if "unat (gap_end final) \<le> n" for n using ascending_span[OF runs, of n] that by auto
  have R': "spans (se_overflow_received t) = spans ?R \<union> {unat (gap_end final)..<unat expected}"
    by (auto simp: t_def span_def word_less_nat_alt)
  have M': "spans (se_missing t) = spans (se_missing s) \<union> {unat (gap_end final)..<unat nxt}"
    using b top lt by (auto simp: t_def sp span_def)
  have "n \<notin> spans (se_missing s)" if "unat (gap_end final) \<le> n" for n
    using ascending_span[OF ascending_to_top[OF asc], of n] that m by (auto simp: top_of_def final_def)
  moreover have "recovered_to t = recovered_to s" by (simp add: recovered_to_def t_def)
  ultimately have "awaited t = awaited s \<union> {next_in s..<unat nxt}"
    using rec below nx top lt by (auto simp: awaited_def R' M')
  then have same: "settled t = settled s" using nx lt by (intro settled_gap[OF ok]) simp_all
  have "gap_from (hd (se_missing t)) = gap_from (hd (se_missing s))
      \<and> unat (gap_end (hd (se_missing s))) \<le> unat (gap_end (hd (se_missing t)))"
  proof (cases "?b = []")
    case True
    then have "hd (se_missing s) = final" using m by (cases "se_missing s") (auto simp: final_def split: if_splits)
    then show ?thesis using True top lt by (simp add: t_def)
  next
    case False
    then have "hd ?b = hd (se_missing s)" by (cases "se_missing s") (auto split: if_splits)
    then show ?thesis using False by (simp add: t_def)
  qed
  moreover have "se_missing t \<noteq> []" by (simp add: t_def)
  ultimately have "request_ok s r \<Longrightarrow> request_ok t r" for r
    by (blast intro: request_ok_extended)
  moreover have "ascending 0 (se_missing t) (unat nxt)"
    using b top lt by (simp add: t_def ascending_append)
  moreover have "ascending 0 (se_overflow_received t) (unat nxt)"
    using runs lt top ascending_mono[OF runs order_refl, of "unat nxt"]
    by (auto simp: t_def ascending_append word_less_nat_alt)
  moreover have "top_of (se_missing t) = unat nxt" by (simp add: t_def)
  ultimately have "recovery_ok t"
    using ok nx flow by (auto simp: recovery_ok_def t_def split: option.splits)
  then show ?thesis using same nx lt by (simp add: advances_def) (simp add: t_def)
qed

lemma gap_recorded:
  assumes ok: "recovery_ok s" and at: "se_inbound_next s = Some expected" "expected < nxt"
    and flow: "se_remote_flow s = FlowRecoverable" "\<not> se_start_pending s"
    and run: "record_gap c expected nxt s = (done, s')"
  shows "if done then advances {} s (s'\<lparr>se_inbound_next := Some nxt\<rparr>) else s' = s"
proof (cases "se_missing s \<noteq> [] \<and> gap_end (last (se_missing s)) = expected")
  case True
  then show ?thesis using widened_advances[OF ok at _ flow] run by (auto simp: record_gap_def)
next
  case False
  then show ?thesis using new_gap_advances[OF ok at flow] run by (auto simp: record_gap_def split: if_splits)
qed

lemma gap_held:
  assumes ok: "recovery_ok s" and at: "se_inbound_next s = Some expected" "expected < nxt"
    and flow: "se_remote_flow s = FlowRecoverable" "\<not> se_start_pending s"
    and run: "hold_refused_gap c expected nxt s = (held, s')"
  shows "advances {} s (if held then s'\<lparr>se_inbound_next := Some nxt\<rparr> else s')"
proof (cases "se_missing s \<noteq> [] \<and> cf_max_pending_gaps c < length (se_missing s)")
  case True
  have "top_of (se_missing s) \<le> next_in s"
    using ok True ascending_top[of 0 "se_missing s" "next_in s"] by (simp add: recovery_ok_def)
  then have wide: "max (gap_end (last (se_missing s))) nxt = nxt"
    using True at by (auto simp: top_of_def next_in_def max_def word_le_nat_alt word_less_nat_alt)
  have order: "s\<lparr>se_overflow_received := a, se_missing := g\<rparr> = s\<lparr>se_missing := g, se_overflow_received := a\<rparr>" for a g
    by simp
  show ?thesis
    using widened_advances[OF ok at _ flow] advances_refl[OF ok] run True wide
    by (auto simp: hold_refused_gap_def Let_def order split: if_splits)
next
  case False
  then show ?thesis using new_gap_advances[OF ok at flow] run by (auto simp: hold_refused_gap_def Let_def split: if_splits)
qed

subsection \<open>Releasing a binding\<close>

lemma release_advances: "recovery_ok s \<Longrightarrow> advances {} s (release_binding_state s)"
proof -
  assume ok: "recovery_ok s"
  have drop: "same_recovery t (t\<lparr>se_awaiting_resume := False, se_provider := None\<rparr>)" for t
    by (simp add: same_recovery_def)
  show ?thesis
  proof (cases "se_outstanding s")
    case None
    then have "se_replay s = None" using ok by (simp add: recovery_ok_def)
    then have "same_recovery s (release_binding_state s)" using None by (simp add: release_binding_state_def same_recovery_def)
    then show ?thesis using ok by (rule same_recovery_advances)
  next
    case (Some r)
    have "unat (or_delivered r) \<le> unat (or_count r)" using ok Some by (rule request_okD(2))
    then have "release_binding_state s = (cleared (unat (or_delivered r)) s)\<lparr>se_awaiting_resume := False, se_provider := None\<rparr>"
      using consume_missing_cleared(1)[OF ok Some, of "or_delivered r", symmetric]
      by (simp add: release_binding_state_def Some)
    moreover have "advances {} s (cleared (unat (or_delivered r)) s)" using ok Some by (rule cleared_delivered)
    moreover have "recovery_ok (cleared (unat (or_delivered r)) s)" using calculation(2) by (simp add: advances_def)
    ultimately show ?thesis using advances_then same_recovery_advances[OF drop] by metis
  qed
qed

lemma release_no_request: "se_outstanding (release_binding_state s) = None" "se_replay (release_binding_state s) = None"
proof -
  have "se_outstanding (consume_missing k t) = se_outstanding t" for k t
    by (simp add: consume_missing_def Let_def split: list.splits option.splits)
  then show "se_outstanding (release_binding_state s) = None" "se_replay (release_binding_state s) = None"
    by (simp_all add: release_binding_state_def split: option.splits)
qed

end
