(* ===== verification/Fixp_Handlers.thy ===== *)
theory Fixp_Handlers
  imports Fixp_Recovery
begin

text \<open>
  Every handler of a FIXP session, as a step on the recovery state: which numbers it settles.
\<close>

lemma with_simps [simp]:
  "bs_session (with_core f b) = bs_session b" "bs_session (with_binding g b) = bs_session b"
  "bs_session (with_session h b) = h (bs_session b)" "bs_binding (with_core f b) = bs_binding b"
  "bs_binding (with_session h b) = bs_binding b" "bs_core (with_session h b) = bs_core b"
  "bs_core (with_binding g b) = bs_core b" "bs_core (with_core f b) = f (bs_core b)" "bs_binding (with_binding g b) = g (bs_binding b)"
  by (simp_all add: with_core_def with_binding_def with_session_def)

lemma config_simps [simp]:
  "fc_config (core_output out c) = fc_config c" "fc_config (core_send m c) = fc_config c" "fc_config (core_event e c) = fc_config c"
  by (simp_all add: core_output_def core_send_def core_event_def)

lemma leave_touch_session [simp]:
  "bs_session (leave_sequence b) = bs_session b" "bs_session (touch_keepalive now b) = bs_session b"
  by (simp_all add: leave_sequence_def touch_keepalive_def)

lemma fail_simps [simp]:
  "fst (fail code reason b) = Unbind" "bs_session (snd (fail code reason b)) = release_binding_state (bs_session b)"
  "fst (violation reason b) = Unbind" "bs_session (snd (violation reason b)) = release_binding_state (bs_session b)"
  by (auto simp: fail_def violation_def Let_def split: bind_state.splits)

abbreviation settles :: "nat set \<Rightarrow> bound_session \<Rightarrow> bound_session \<Rightarrow> bool" where
  "settles A b b' \<equiv> advances A (bs_session b) (bs_session b')"

lemma settles_same: "recovery_ok (bs_session b) \<Longrightarrow> same_recovery (bs_session b) (bs_session b') \<Longrightarrow> settles {} b b'"
  by (rule same_recovery_advances)

lemma same_recovery_refl [simp]: "same_recovery s s"
  by (simp add: same_recovery_def)

lemma advances_ok: "advances A s t \<Longrightarrow> recovery_ok t"
  by (simp add: advances_def)

subsection \<open>Requests\<close>

lemma requested_advances:
  assumes ok: "recovery_ok s" and none: "se_outstanding s = None" and m: "se_missing s = front # rest"
    and r: "or_from r = gap_from front" "or_delivered r = 0" "unat (or_count r) \<le> unat (gap_end front) - unat (gap_from front)"
  shows "advances {} s (s\<lparr>se_outstanding := Some r\<rparr>)"
proof -
  let ?t = "s\<lparr>se_outstanding := Some r\<rparr>"
  have asc: "ascending 0 (front # rest) (next_in s)" using ok m by (simp add: recovery_ok_def)
  have "unat (gap_from front) \<le> n" if "n \<in> spans (front # rest)" for n
    using ascending_span[of "unat (gap_from front)" "front # rest" "next_in s" n] asc that by simp
  then have "awaited ?t = awaited s"
    by (auto simp: awaited_def recovered_to_def none r m)
  moreover have "recovery_ok ?t"
    using ok asc r by (auto simp: recovery_ok_def none m request_ok_def next_in_def)
  ultimately show ?thesis by (simp add: advances_def settled_def next_in_def)
qed

lemma request_missing_settles:
  assumes ok: "recovery_ok (bs_session b)"
  shows "settles {} b (snd (request_missing now b))"
proof -
  have len: "unat (min (ucast (e - g)) limit :: u32) \<le> unat e - unat g"
    if "unat e - unat g < 4294967296" "unat g \<le> unat e" for e g :: u64 and limit
    using that unat_sub[of g e] by (auto simp: min_def unat_ucast_mod word_le_nat_alt)
  have big: "unat (cf_max_retransmit_count c) \<le> n" if "\<not> n < 4294967296" for c n
  proof -
    have "unat (cf_max_retransmit_count c) < 2 ^ 32" by (rule order_less_le_trans[OF unsigned_less]) simp
    with that show ?thesis by simp
  qed
  show ?thesis
    using ok
    by (auto simp: request_missing_def Let_def request_timestamp_def checked_simps unat_sub word_less_nat_alt word_le_nat_alt
      advances_refl release_advances intro!: requested_advances len big
      split: list.splits option.splits sum.splits prod.splits)
qed

lemma maybe_finish_same: "same_recovery (bs_session b) (bs_session (maybe_finish_receiving b))"
  by (auto simp: maybe_finish_receiving_def same_recovery_def split: option.splits)

lemma maybe_finish_settles: "recovery_ok (bs_session b) \<Longrightarrow> settles {} b (maybe_finish_receiving b)"
  by (intro settles_same maybe_finish_same)

lemma after_range_settles: "recovery_ok (bs_session b) \<Longrightarrow> settles {} b (snd (after_range now b))"
  using maybe_finish_settles[of "with_core (core_event EvRecoveryComplete) b"]
  by (simp add: after_range_def request_missing_settles)

lemma complete_outstanding_settles:
  assumes ok: "recovery_ok (bs_session b)" and r: "se_outstanding (bs_session b) = Some r" "or_delivered r = or_count r"
  shows "settles {} b (snd (complete_outstanding now b))"
proof -
  let ?s = "cleared (unat (or_count r)) (bs_session b)" and ?f = "\<lambda>s. (case se_outstanding s of
           Some o' \<Rightarrow> consume_missing (ucast (or_count o')) (s\<lparr>se_outstanding := None\<rparr>)
         | None \<Rightarrow> s)\<lparr>se_replay := None\<rparr>"
  have s: "?f (bs_session b) = ?s" using consume_missing_cleared(1)[OF ok r(1) order_refl] by (simp add: r(1))
  have "advances {} (bs_session b) ?s" using cleared_delivered[OF ok r(1)] by (simp add: r(2))
  moreover from this have "settles {} (with_session ?f b) (snd (complete_outstanding now b))"
    unfolding complete_outstanding_def by (intro after_range_settles) (simp add: s advances_ok)
  ultimately show ?thesis using s by (simp add: advances_then)
qed

lemma send_not_applied_settles: "recovery_ok (bs_session b) \<Longrightarrow> settles {} b (snd (send_not_applied from count now b))"
proof -
  assume ok: "recovery_ok (bs_session b)"
  have same: "same_recovery (bs_session b) (bs_session (snd (allocate_outbound b)))"
    by (auto simp: allocate_outbound_def Let_def same_recovery_def split: option.splits)
  have "advances {} (bs_session b) (release_binding_state (bs_session (snd (allocate_outbound b))))"
    using same_recovery_advances[OF same ok] release_advances advances_then advances_ok by metis
  then show ?thesis
    using ok same_recovery_advances[OF same ok]
    by (auto simp: send_not_applied_def Let_def advances_refl split: flow_type.splits prod.splits sum.splits)
qed

subsection \<open>What a number announces\<close>

text \<open>On a Recoverable flow a gap settles nothing; another flow goes on without the numbers.\<close>

definition given_up :: "bound_session \<Rightarrow> bound_session \<Rightarrow> nat set" where
  "given_up b b' =
    (if se_start_pending (bs_session b) \<or> se_remote_flow (bs_session b) \<noteq> FlowRecoverable
     then {next_in (bs_session b)..<next_in (bs_session b')} else {})"

lemma settles_given_up: "settles {} b b' \<Longrightarrow> next_in (bs_session b') = next_in (bs_session b) \<Longrightarrow> settles (given_up b b') b b'"
  by (simp add: given_up_def)

lemma jump_advances:
  assumes ok: "recovery_ok s" and m: "se_missing s = []" and le: "next_in s \<le> unat nxt" and nx: "se_inbound_next s \<noteq> None"
    and t: "t = s\<lparr>se_inbound_next := Some nxt, se_start_pending := False\<rparr>"
  shows "advances {next_in s..<unat nxt} s t"
proof -
  have "se_overflow_received s = []" "se_outstanding s = None" "se_replay s = None"
    using ok m by (auto simp: recovery_ok_def top_of_def ascending_zero request_ok_def split: option.splits)
  then have "recovery_ok t" using ok m by (auto simp: recovery_ok_def t)
  then show ?thesis using le m by (auto simp: advances_def settled_def awaited_def next_in_def t)
qed

lemma settled_interval: "se_missing s = [] \<Longrightarrow> settled s = {..<next_in s}"
  by (auto simp: settled_def awaited_def)

lemma unrecovered_flow:
  assumes "recovery_ok s" "se_remote_flow s \<noteq> FlowRecoverable" "advances A s t"
  shows "advances {next_in s..<next_in t} s t"
proof -
  have "recovery_ok t" "se_remote_flow t = se_remote_flow s" using assms(3) by (simp_all add: advances_def)
  with assms(1,2) have m: "se_missing s = []" "se_missing t = []" by (simp_all add: recovery_ok_def)
  have "next_in s \<le> next_in t" using assms(3) by (simp add: advances_def)
  then have "{..<next_in t} = {..<next_in s} \<union> {next_in s..<next_in t}" by auto
  then have "settled t = settled s \<union> {next_in s..<next_in t}"
    by (simp only: settled_interval[OF m(1)] settled_interval[OF m(2)])
  then show ?thesis using assms(3) by (simp add: advances_def)
qed

lemma next_in_release [simp]: "next_in (release_binding_state s) = next_in s"
proof -
  have "se_inbound_next (consume_missing k t) = se_inbound_next t" for k t
    by (simp add: consume_missing_def Let_def split: list.splits option.splits)
  then show ?thesis by (simp add: next_in_def release_binding_state_def split: option.splits)
qed

lemma cut_replay_advances:
  assumes "recovery_ok s"
  shows "advances {} s (cut_replay now s)"
proof -
  have "awaited (cut_replay now s) = awaited s" "next_in (cut_replay now s) = next_in s"
    by (auto simp: cut_replay_def Let_def awaited_def recovered_to_def next_in_def split: option.splits)
  moreover have "recovery_ok (cut_replay now s)"
    using assms by (auto simp: cut_replay_def Let_def recovery_ok_def request_ok_def next_in_def split: option.splits)
  moreover have "se_remote_flow (cut_replay now s) = se_remote_flow s"
    by (simp add: cut_replay_def Let_def split: option.splits)
  ultimately show ?thesis by (simp add: advances_def settled_def)
qed

lemma cut_replay_keeps [simp]:
  "se_start_pending (cut_replay now s) = se_start_pending s" "se_inbound_next (cut_replay now s) = se_inbound_next s"
  "se_missing (cut_replay now s) = se_missing s" "se_remote_flow (cut_replay now s) = se_remote_flow s"
  "next_in (cut_replay now s) = next_in s"
  by (simp_all add: cut_replay_def Let_def next_in_def split: option.splits)

lemma settles_violation: "recovery_ok (bs_session b) \<Longrightarrow> settles {} b (snd (violation reason b))"
  by (simp add: release_advances)

lemma on_gap_settles:
  assumes ok: "recovery_ok (bs_session b)" and at: "se_inbound_next (bs_session b) = Some expected" "expected < nxt"
    and start: "\<not> se_start_pending (bs_session b)"
  shows "\<exists>A. settles A b (snd (on_gap expected nxt count now b))
    \<and> (se_remote_flow (bs_session b) = FlowRecoverable \<longrightarrow> A = {})"
proof (cases "se_remote_flow (bs_session b) = FlowRecoverable")
  case True
  let ?b = "with_core (core_event (EvSequenceGap expected count)) b"
  obtain taken s where rec: "record_gap (config_of ?b) expected nxt (bs_session b) = (taken, s)" by (cases "record_gap (config_of ?b) expected nxt (bs_session b)")
  obtain held s1 where hold: "hold_refused_gap (config_of ?b) expected nxt s = (held, s1)" by (cases "hold_refused_gap (config_of ?b) expected nxt s")
  have "settles {} b (snd (on_gap expected nxt count now b))"
  proof (cases taken)
    case merged: True
    then have adv: "advances {} (bs_session b) (s\<lparr>se_inbound_next := Some nxt\<rparr>)"
      using gap_recorded[OF ok at True start rec] by simp
    then show ?thesis
      using advances_then[OF adv] request_missing_settles[of "?b\<lparr>bs_session := s\<lparr>se_inbound_next := Some nxt\<rparr>\<rparr>"] advances_ok[OF adv]
      by (simp add: on_gap_def Let_def True rec merged)
  next
    case refused: False
    then have "s = bs_session b" using gap_recorded[OF ok at True start rec] by simp
    then have adv: "advances {} (bs_session b) (if held then s1\<lparr>se_inbound_next := Some nxt\<rparr> else s1)"
      using gap_held[OF ok at True start] hold by simp
    then show ?thesis
      using advances_then[OF adv release_advances[OF advances_ok[OF adv]]]
      by (simp add: on_gap_def Let_def True rec refused hold)
  qed
  then show ?thesis by blast
next
  case False
  let ?s = "(bs_session b)\<lparr>se_inbound_next := Some nxt\<rparr>"
  have m: "se_missing (bs_session b) = []" using ok False by (simp add: recovery_ok_def)
  have "next_in (bs_session b) \<le> unat nxt" using at by (simp add: next_in_def word_less_nat_alt)
  moreover have "?s = (bs_session b)\<lparr>se_inbound_next := Some nxt, se_start_pending := False\<rparr>" using start by simp
  ultimately have jump: "advances {next_in (bs_session b)..<unat nxt} (bs_session b) ?s"
    using at by (intro jump_advances[OF ok m]) simp_all
  let ?b = "with_session (\<lambda>s. s\<lparr>se_inbound_next := Some nxt\<rparr>) (with_core (core_event (EvSequenceGap expected count)) b)"
  have ok': "recovery_ok (bs_session ?b)" using advances_ok[OF jump] by simp
  have later: "settles {} ?b b' \<Longrightarrow> settles {next_in (bs_session b)..<unat nxt} b b'" for b'
    using advances_trans[OF jump] by fastforce
  show ?thesis
    using False later[OF send_not_applied_settles[OF ok']] later[OF settles_violation[OF ok']] later[OF advances_refl[OF ok']]
    by (cases "se_remote_flow (bs_session b)") (auto simp: on_gap_def Let_def)
qed

lemma on_next_seq_settles:
  assumes ok: "recovery_ok (bs_session b)"
  shows "settles (given_up b (snd (on_next_seq nxt now b))) b (snd (on_next_seq nxt now b))"
proof -
  let ?s = "bs_session b" and ?b = "with_session (cut_replay now) b"
  have cut: "advances {} ?s (cut_replay now ?s)" using ok by (rule cut_replay_advances)
  have ok': "recovery_ok (cut_replay now ?s)" using advances_ok[OF cut] .
  have stop: "settles (given_up b (snd (violation reason b))) b (snd (violation reason b))" for reason
    by (intro settles_given_up settles_violation ok) simp
  have stop': "settles (given_up b (snd (violation reason ?b))) b (snd (violation reason ?b))" for reason
    using advances_then[OF cut release_advances[OF ok']] by (intro settles_given_up) simp_all
  have stay: "settles (given_up b ?b) b ?b" using cut by (intro settles_given_up) simp_all
  have first: "settles (given_up b (with_session (\<lambda>s. s\<lparr>se_start_pending := False, se_inbound_next := Some nxt\<rparr>) ?b)) b
      (with_session (\<lambda>s. s\<lparr>se_start_pending := False, se_inbound_next := Some nxt\<rparr>) ?b)"
    if start: "se_start_pending ?s" and z: "nxt \<noteq> 0"
  proof -
    have "next_in ?s \<le> unat nxt" "se_missing ?s = []" "se_inbound_next ?s \<noteq> None"
      using ok start z by (auto simp: recovery_ok_def next_in_def unat_gt_0 Suc_le_eq)
    then have "advances {next_in (cut_replay now ?s)..<unat nxt} (cut_replay now ?s)
        ((cut_replay now ?s)\<lparr>se_start_pending := False, se_inbound_next := Some nxt\<rparr>)"
      by (intro jump_advances[OF ok']) simp_all
    then show ?thesis
      using advances_then[OF cut] start by (simp add: given_up_def) (simp add: next_in_def)
  qed
  have gap: "settles (given_up b (snd (on_gap expected nxt count now ?b))) b (snd (on_gap expected nxt count now ?b))"
    if at: "se_inbound_next ?s = Some expected" "checked_sub nxt expected = Some count" "count \<noteq> 0" "\<not> se_start_pending ?s" for expected count
  proof -
    have "expected < nxt" using at(2,3) by (auto simp: checked_simps order.strict_iff_order)
    then obtain A where A: "settles A ?b (snd (on_gap expected nxt count now ?b))"
      "se_remote_flow ?s = FlowRecoverable \<Longrightarrow> A = {}"
      using on_gap_settles[of ?b expected nxt count now] ok' at by auto
    then have "settles A b (snd (on_gap expected nxt count now ?b))" using advances_then[OF cut] by simp
    then show ?thesis using unrecovered_flow[OF ok] A(2) at by (auto simp: given_up_def)
  qed
  show ?thesis
    using stop stop' stay first gap ok
    by (auto simp: on_next_seq_def Let_def recovery_ok_def split: option.splits)
qed


text \<open>
  Application messages and the remaining operations of a FIXP session: an accepted number was not
  settled before and is settled after; nothing else settles a number but a refused request.
\<close>

lemma advances_after: "advances A s t \<Longrightarrow> advances {} t u \<Longrightarrow> advances A s u"
  using advances_trans[of A s t "{}" u] by simp

subsection \<open>Application messages\<close>

fun accepted :: "delivery \<Rightarrow> nat set" where
  "accepted (Accept (Some n) _) = {unat n}"
| "accepted _ = {}"

lemma start_settles:
  assumes "recovery_ok s"
  shows "advances {} s (s\<lparr>se_start_pending := False\<rparr>)"
  using assms by (auto simp: advances_def settled_def awaited_def recovered_to_def next_in_def recovery_ok_def request_ok_def
    split: option.splits)

lemma live_advances:
  assumes ok: "recovery_ok s" and at: "se_inbound_next s = Some seq" "checked_add seq 1 = Some following"
    and start: "\<not> se_start_pending s"
  shows "advances {unat seq} s (s\<lparr>se_inbound_next := Some following\<rparr>)" "unat seq \<notin> settled s"
proof -
  let ?t = "s\<lparr>se_inbound_next := Some following\<rparr>"
  have nx: "next_in s = unat seq" "next_in ?t = Suc (unat seq)" using at unat_checked_add[OF at(2)] by (simp_all add: next_in_def)
  have aw: "awaited ?t = awaited s" by (simp add: awaited_def recovered_to_def)
  have "recovery_ok ?t"
    using ok nx start ascending_mono[of 0 "se_missing s" "unat seq" 0 "Suc (unat seq)"]
    by (auto simp: recovery_ok_def request_ok_def split: option.splits)
  moreover have "settled ?t = settled s \<union> {unat seq}"
    using awaited_below[OF ok] by (auto simp: settled_def nx aw)
  ultimately show "advances {unat seq} s ?t" by (simp add: advances_def nx)
  show "unat seq \<notin> settled s" by (simp add: settled_def nx)
qed

definition delivers :: "delivery \<Rightarrow> bound_session \<Rightarrow> bound_session \<Rightarrow> bool" where
  "delivers d b b' \<longleftrightarrow> settles (accepted d) b b' \<and> accepted d \<inter> settled (bs_session b) = {}"

lemma delivers_none: "settles {} b b' \<Longrightarrow> accepted d = {} \<Longrightarrow> delivers d b b'"
  by (simp add: delivers_def)

lemma delivers_then: "settles {} b b' \<Longrightarrow> delivers d b' b'' \<Longrightarrow> delivers d b b''"
  using advances_then by (fastforce simp: delivers_def advances_def)

lemma on_application_live:
  assumes ok: "recovery_ok (bs_session b)" and none: "se_replay (bs_session b) = None"
  shows "delivers (fst (fst (on_application now b))) b (snd (on_application now b))"
proof -
  let ?b = "with_binding (\<lambda>bi. bi\<lparr>bi_last_received := now\<rparr>) b"
  let ?c = "with_session (\<lambda>s. s\<lparr>se_start_pending := False\<rparr>) ?b"
  have refuse: "delivers Discard b (snd (violation reason ?b))" for reason
    using ok by (intro delivers_none) (simp_all add: release_advances)
  have start: "settles {} b ?c" using start_settles[OF ok] by simp
  then have ok': "recovery_ok (bs_session ?c)" using advances_ok by blast
  have refuse': "delivers Discard b (snd (violation reason ?c))" for reason
    using advances_then[OF start] settles_violation[OF ok'] by (intro delivers_none) simp_all
  have live: "delivers (Accept (Some seq) False) b (with_session (\<lambda>s. s\<lparr>se_inbound_next := Some following\<rparr>) ?c)"
    if "se_inbound_next (bs_session b) = Some seq" "checked_add seq 1 = Some following" for seq following
    using live_advances[OF ok' _ that(2)] that(1)
    by (intro delivers_then[OF start]) (simp add: delivers_def)
  have ignored: "delivers Discard b (with_core f b)" and plain: "delivers (Accept None False) b ?b" for f
    using ok by (intro delivers_none; simp add: advances_refl)+
  show ?thesis
    using none refuse refuse' live ignored plain
    by (simp add: on_application_def Let_def case_prod_beta split: bind_state.split option.split)
qed

lemma on_application_replay:
  assumes ok: "recovery_ok (bs_session b)" and p: "se_replay (bs_session b) = Some p"
  shows "delivers (fst (fst (on_application now b))) b (snd (on_application now b))"
proof -
  let ?b = "with_binding (\<lambda>bi. bi\<lparr>bi_last_received := now\<rparr>) b"
  have ignored: "delivers Discard b (with_core f b)" for f
    using ok by (intro delivers_none; simp add: advances_refl)+
  have refuse: "delivers Discard b (snd (violation reason ?b))" for reason
    using ok by (intro delivers_none) (simp_all add: release_advances)
  have taken: "delivers (if duplicate then Discard else Accept (Some (rp_next p)) True) b
      (snd (if complete then complete_outstanding now (?b\<lparr>bs_session := t\<rparr>) else (Stay, ?b\<lparr>bs_session := t\<rparr>)))"
    if no: "checked_add (rp_next p) 1 = Some following"
      and run: "replayed p following now (bs_session b) = (complete, s1)" "received_in_overflow (rp_next p) s1 = (duplicate, t)"
    for following complete s1 duplicate t
  proof -
    obtain r where r: "se_outstanding t = Some r" and adv: "advances {unat (rp_next p)} (bs_session b) t"
      and dup: "duplicate \<longleftrightarrow> unat (rp_next p) \<in> settled (bs_session b)" and full: "complete \<longrightarrow> or_delivered r = or_count r"
      using replayed_step[OF ok p run no] by blast
    have ok': "recovery_ok t" using advances_ok[OF adv] .
    let ?last_state = "snd (if complete then complete_outstanding now (?b\<lparr>bs_session := t\<rparr>) else (Stay, ?b\<lparr>bs_session := t\<rparr>))"
    have "advances {} t (bs_session ?last_state)"
      using complete_outstanding_settles[of "?b\<lparr>bs_session := t\<rparr>" r now] ok' r full advances_refl[OF ok'] by simp
    then have "advances {unat (rp_next p)} (bs_session b) (bs_session ?last_state)" using advances_trans[OF adv] by fastforce
    then show ?thesis using dup by (cases duplicate) (auto simp: delivers_def advances_def)
  qed
  show ?thesis
  proof (cases "checked_add (rp_next p) 1")
    case None
    then show ?thesis using p refuse ignored by (simp add: on_application_def Let_def case_prod_beta split: bind_state.split)
  next
    case (Some following)
    obtain complete s1 where r1: "replayed p following now (bs_session b) = (complete, s1)" by (cases "replayed p following now (bs_session b)")
    obtain duplicate t where r2: "received_in_overflow (rp_next p) s1 = (duplicate, t)" by (cases "received_in_overflow (rp_next p) s1")
    have "delivers d b b'" if "on_application now b = ((d, bound), b')" for d bound b'
      using that p Some taken[OF Some r1 r2] ignored
      by (auto simp: on_application_def Let_def r1 r2 split: bind_state.splits prod.splits)
    then show ?thesis by (metis prod.collapse)
  qed
qed

theorem on_application_delivers:
  assumes "recovery_ok (bs_session b)"
  shows "delivers (fst (fst (on_application now b))) b (snd (on_application now b))"
  using on_application_live[OF assms] on_application_replay[OF assms] by (cases "se_replay (bs_session b)") auto

subsection \<open>Retransmission\<close>

lemma batch_advances:
  assumes ok: "recovery_ok s" and r: "se_outstanding s = Some r" and b: "batch_ok r' p"
    and same: "or_from r' = or_from r" "or_count r' = or_count r" "or_delivered r' = or_delivered r"
  shows "advances {} s (s\<lparr>se_replay := Some p, se_awaiting_resume := True, se_outstanding := Some r'\<rparr>)"
  using ok b same by (auto simp: recovery_ok_def r request_ok_def advances_def settled_def awaited_def recovered_to_def next_in_def)

lemma on_retransmission_settles:
  assumes ok: "recovery_ok (bs_session b)"
  shows "settles {} b (snd (on_retransmission m now b))"
proof -
  have "batch_ok r' \<lparr>rp_next = rt_next_seq_no m, rp_remaining = rt_count m\<rparr>"
    if no: "Some (rt_next_seq_no m) = checked_add (or_from r) (ucast (or_delivered r))"
      and left: "checked_sub (or_count r) (or_delivered r) = Some left" "rt_count m \<le> left" "rt_count m \<noteq> 0"
      "or_from r' = or_from r" "or_count r' = or_count r" "or_delivered r' = or_delivered r" for r r' left
    using left unat_checked_add[OF no[symmetric]]
    by (auto simp: batch_ok_def checked_simps word_le_nat_alt unat_sub unat_gt_0)
  note fits = this
  show ?thesis
    using settles_violation[OF ok] ok
    by (auto simp: on_retransmission_def Let_def intro!: batch_advances intro: fits split: option.splits)
qed

definition refused :: "retransmit_reject \<Rightarrow> fixp_session \<Rightarrow> nat set" where
  "refused m s =
    (case se_outstanding s of
       Some r \<Rightarrow>
         if or_timestamp r = rj_request_timestamp m \<and> rj_session_id m = se_id s
         then {unat (or_from r) + unat (or_delivered r)..<unat (or_from r) + unat (or_count r)} - spans (se_overflow_received s)
         else {}
     | None \<Rightarrow> {})"

lemma on_retransmit_reject_settles:
  assumes ok: "recovery_ok (bs_session b)"
  shows "settles (refused m (bs_session b)) b (snd (on_retransmit_reject m now b))"
proof -
  let ?s = "bs_session b"
  have given: "settles ({unat (or_from r) + unat (or_delivered r)..<unat (or_from r) + unat (or_count r)}
        - spans (se_overflow_received ?s)) b (snd (after_range now
      (with_session (\<lambda>s. consume_missing (ucast (or_count r)) (s\<lparr>se_outstanding := None, se_replay := None\<rparr>)) (with_core f b))))"
    if r: "se_outstanding ?s = Some r" for r f
  proof -
    have adv: "advances ({unat (or_from r) + unat (or_delivered r)..<unat (or_from r) + unat (or_count r)}
        - spans (se_overflow_received ?s)) ?s (cleared (unat (or_count r)) ?s)"
      by (rule cleared_advances[OF ok r request_okD(2)[OF ok r] order_refl])
    have eq: "consume_missing (ucast (or_count r)) (?s\<lparr>se_outstanding := None, se_replay := None\<rparr>) = cleared (unat (or_count r)) ?s"
      by (rule consume_missing_cleared(2)[OF ok r order_refl])
    let ?b = "with_session (\<lambda>s. consume_missing (ucast (or_count r)) (s\<lparr>se_outstanding := None, se_replay := None\<rparr>)) (with_core f b)"
    have "settles {} ?b (snd (after_range now ?b))"
      using advances_ok[OF adv] by (intro after_range_settles) (simp add: eq)
    then show ?thesis using advances_after[OF adv] by (simp add: eq)
  qed
  then show ?thesis
    using advances_refl[OF ok] by (auto simp: on_retransmit_reject_def Let_def refused_def split: option.splits)
qed

lemma on_retransmit_request_settles:
  assumes ok: "recovery_ok (bs_session b)"
  shows "settles {} b (snd (on_retransmit_request m b))"
proof -
  have "same_recovery s (s\<lparr>se_provider := p\<rparr>)" for s p by (simp add: same_recovery_def)
  then show ?thesis
    using ok by (simp add: on_retransmit_request_def Let_def refuse_retransmit_def release_advances advances_refl
      same_recovery_advances split: option.split)
qed

subsection \<open>Ends of a session\<close>

lemma finalize_same: "same_recovery s (finalize_if_finished s)"
  by (simp add: finalize_if_finished_def same_recovery_def)

lemma same_after: "advances {} s t \<Longrightarrow> same_recovery t u \<Longrightarrow> advances {} s u"
  using advances_then[OF _ same_recovery_advances] advances_ok by blast

lemma on_terminate_settles:
  assumes ok: "recovery_ok (bs_session b)"
  shows "settles {} b (snd (on_terminate m now b))"
proof -
  have rel: "advances {} (bs_session b) (release_binding_state (bs_session b))"
    "advances {} (bs_session b) (finalize_if_finished (release_binding_state (bs_session b)))"
    using release_advances[OF ok] same_after[OF release_advances[OF ok] finalize_same] by simp_all
  then show ?thesis
    using advances_refl[OF ok] by (simp add: on_terminate_def split: bind_state.split)
qed

lemma given_up_with [simp]: "given_up (with_core f b) c = given_up b c" "given_up (with_binding g b) c = given_up b c"
  by (simp_all add: given_up_def)

lemma given_up_same_next: "next_in (bs_session c) = next_in (bs_session b') \<Longrightarrow> given_up b c = given_up b b'"
  by (simp add: given_up_def)

lemma on_finished_sending_settles:
  assumes ok: "recovery_ok (bs_session b)"
  shows "settles (given_up b (snd (on_finished_sending m now b))) b (snd (on_finished_sending m now b))"
proof -
  let ?b = "with_core (core_event (EvPeerFinishedSending (fs_last_seq_no m))) b"
  let ?fin = "\<lambda>until b. maybe_finish_receiving (with_session (\<lambda>s. s\<lparr>se_peer_finished := Some \<lparr>pf_receiving_sent = False, pf_end = until\<rparr>\<rparr>) b)"
  have finish: "same_recovery (bs_session c) (bs_session (?fin until c))" for until c
    using maybe_finish_same[of "with_session (\<lambda>s. s\<lparr>se_peer_finished := Some \<lparr>pf_receiving_sent = False, pf_end = until\<rparr>\<rparr>) c"]
    by (simp add: same_recovery_def)
  have same_next: "next_in t = next_in s" if "same_recovery s t" for s t
    using that by (simp add: same_recovery_def next_in_def)
  have stop: "settles (given_up b (snd (violation reason c))) b (snd (violation reason c))" if "bs_session c = bs_session b" for reason c
    using that ok by (intro settles_given_up) (simp_all add: release_advances)
  have stay: "settles (given_up b b) b b" using advances_refl[OF ok] by (simp add: settles_given_up)
  have over: "settles (given_up b (?fin until ?b)) b (?fin until ?b)" for until
    using same_recovery_advances[OF finish[of ?b until]] same_next[OF finish[of ?b until]] ok by (intro settles_given_up) simp_all
  have nxt: "settles (given_up b (snd (on_next_seq n now ?b))) b (snd (on_next_seq n now ?b))" for n
    using on_next_seq_settles[of ?b n now] ok by simp
  have fin: "settles (given_up b (?fin until c)) b (?fin until c)" if "settles (given_up b c) b c" for until c
    using advances_after[OF that same_recovery_advances[OF finish[of c until]]] advances_ok[OF that]
      given_up_same_next[OF same_next[OF finish[of c until]]] by simp
  have "settles (given_up b c) b c" if "on_next_seq n now ?b = (bound, c)" for n bound c
    using nxt[of n] that by simp
  then show ?thesis
    using stop stay over fin
    by (auto simp: on_finished_sending_def Let_def split: option.splits prod.splits bound.splits)
qed

end
