(* ===== verification/Fixp_Runs.thy ===== *)
theory Fixp_Runs
  imports Fixp_Handlers
begin

text \<open>
  Runs of a FIXP session: what arrives, what is commanded and what times out, in any order, over any
  number of transports.  \<open>fixp_run\<close> collects the numbers handed up; \<open>dropped_by\<close> says which numbers
  a step gives up without handing them up.
\<close>

datatype fixp_op =
    ReceivePeer peer_message
  | ReceiveApplication
  | TimeOut
  | SendApplication
  | SendTerminate termination_code bytes
  | Retransmit u32
  | RejectRetransmit retransmit_reject_code bytes
  | EndRetransmission
  | TransportLost
  | BindAgain duration duration "u64 option"

fun number_of :: "delivery \<Rightarrow> nat list" where
  "number_of (Accept (Some n) _) = [unat n]"
| "number_of _ = []"

lemma set_number_of [simp]: "set (number_of d) = accepted d"
  by (cases d rule: number_of.cases) simp_all

definition received :: "instant \<Rightarrow> bound_session \<Rightarrow> bound_session" where
  "received now = with_binding (\<lambda>bi. bi\<lparr>bi_last_received := now\<rparr>)"

text \<open>The number of a report that is taken, as \<open>on_peer\<close> takes it.\<close>

definition report_number :: "peer_message \<Rightarrow> instant \<Rightarrow> bound_session \<Rightarrow> nat list" where
  "report_number m now b =
    (let taken = number_of (fst (fst (on_application now (received now b)))) in
     case bi_state (bs_binding b) of
       BindClosing _ \<Rightarrow> []
     | _ \<Rightarrow> (case m of
           PeerApplied _ \<Rightarrow> taken
         | PeerNotApplied _ \<Rightarrow> if se_local_flow (bs_session b) = FlowIdempotent then taken else []
         | _ \<Rightarrow> []))"

definition rebound :: "instant \<Rightarrow> duration \<Rightarrow> duration \<Rightarrow> bound_session \<Rightarrow> bound_session" where
  "rebound now lk rk b = (case session_bind now lk rk (bs_session b) of (bi, s) \<Rightarrow> b\<lparr>bs_session := s, bs_binding := bi\<rparr>)"

fun fixp_step :: "fixp_op \<Rightarrow> instant \<Rightarrow> bound_session \<Rightarrow> nat list \<times> bound_session" where
  "fixp_step (ReceivePeer m) now b = (report_number m now b, snd (on_peer m now b))"
| "fixp_step ReceiveApplication now b = (number_of (fst (fst (on_application now b))), snd (on_application now b))"
| "fixp_step TimeOut now b = ([], snd (on_timeout now b))"
| "fixp_step SendApplication now b = ([], snd (send_application now b))"
| "fixp_step (SendTerminate code reason) now b = ([], snd (terminate code reason now b))"
| "fixp_step (Retransmit n) now b = ([], snd (retransmit n now b))"
| "fixp_step (RejectRetransmit code reason) now b = ([], snd (reject_retransmit_request code reason b))"
| "fixp_step EndRetransmission now b = ([], snd (end_retransmission b))"
| "fixp_step TransportLost now b = ([], with_session release_binding_state (with_core core_transport_closed b))"
| "fixp_step (BindAgain lk rk nxt) now b = ([], snd (on_established nxt now (rebound now lk rk b)))"

fun dropped_by :: "fixp_op \<Rightarrow> bound_session \<Rightarrow> bound_session \<Rightarrow> nat set" where
  "dropped_by (ReceivePeer (PeerRetransmitReject m)) b b' =
    (case bi_state (bs_binding b) of BindClosing _ \<Rightarrow> {} | _ \<Rightarrow> refused m (bs_session b))"
| "dropped_by (ReceivePeer (PeerSequence _)) b b' = given_up b b'"
| "dropped_by (ReceivePeer (PeerContext _)) b b' = given_up b b'"
| "dropped_by (ReceivePeer (PeerFinishedSending _)) b b' = given_up b b'"
| "dropped_by (BindAgain _ _ _) b b' = given_up b b'"
| "dropped_by _ b b' = {}"

fun fixp_run :: "(fixp_op \<times> instant) list \<Rightarrow> bound_session \<Rightarrow> nat list \<times> nat set \<times> bound_session" where
  "fixp_run [] b = ([], {}, b)"
| "fixp_run ((op, now) # ops) b =
    (case fixp_step op now b of (ns, b1) \<Rightarrow>
      (case fixp_run ops b1 of (ms, D, b2) \<Rightarrow> (ns @ ms, dropped_by op b b1 \<union> D, b2)))"

subsection \<open>Every step\<close>

lemma on_numbered_report_delivers:
  assumes "recovery_ok (bs_session b)"
  shows "delivers (fst (fst (on_application now b))) b (snd (on_numbered_report ev now b))"
proof -
  obtain d bound b1 where run: "on_application now b = ((d, bound), b1)" by (metis surj_pair)
  then have "delivers d b b1" using on_application_delivers[OF assms, of now] by simp
  then show ?thesis by (cases d) (simp_all add: on_numbered_report_def run delivers_def)
qed

lemma received_simps [simp]:
  "bs_session (received now b) = bs_session b" "given_up (received now b) c = given_up b c"
  "bs_core (received now b) = bs_core b" "bi_state (bs_binding (received now b)) = bi_state (bs_binding b)"
  by (simp_all add: received_def)

definition step_ok :: "nat list \<Rightarrow> nat set \<Rightarrow> bound_session \<Rightarrow> bound_session \<Rightarrow> bool" where
  "step_ok ns D b b' \<longleftrightarrow> settles (set ns \<union> D) b b' \<and> set ns \<inter> settled (bs_session b) = {} \<and> distinct ns \<and> (ns = [] \<or> D = {})"

lemma step_ok_dropped: "settles D b b' \<Longrightarrow> step_ok [] D b b'"
  by (simp add: step_ok_def)

lemma step_ok_delivers: "delivers d b b' \<Longrightarrow> step_ok (number_of d) {} b b'"
  by (auto simp: step_ok_def delivers_def) (cases d rule: number_of.cases; simp)

lemma on_peer_live_ok:
  assumes ok: "recovery_ok (bs_session b)" and live: "\<And>d. bi_state (bs_binding b) \<noteq> BindClosing d"
  shows "step_ok (report_number m now b) (dropped_by (ReceivePeer m) b (snd (on_peer m now b))) b (snd (on_peer m now b))"
proof -
  let ?b = "received now b"
  have ok': "recovery_ok (bs_session ?b)" using ok by simp
  have run: "on_peer m now b = on_peer_live m now ?b" for m
    using live by (simp add: on_peer_def received_def split: bind_state.split)
  have state: "(case bi_state (bs_binding b) of BindEstablished \<Rightarrow> x | BindTerminating _ _ _ \<Rightarrow> x | BindClosing _ \<Rightarrow> z) = x" for x z :: "nat set"
    using live by (auto split: bind_state.split)
  have state': "(case bi_state (bs_binding b) of BindEstablished \<Rightarrow> x | BindTerminating _ _ _ \<Rightarrow> x | BindClosing _ \<Rightarrow> z) = x" for x z :: "nat list"
    using live by (auto split: bind_state.split)
  have same: "settles D ?b c \<Longrightarrow> step_ok [] D b c" for D c
    by (rule step_ok_dropped) simp
  have report: "step_ok (number_of (fst (fst (on_application now ?b)))) {} b (snd (on_numbered_report ev now ?b))" for ev
    using step_ok_delivers[OF on_numbered_report_delivers[OF ok', of now ev]] by (simp add: step_ok_def)
  have stay: "settles {} ?b ?b" using ok by (simp add: advances_refl)
  have zero: "given_up b ?b = {}" "given_up b (snd (violation reason ?b)) = {}" for reason by (simp_all add: given_up_def)
  show ?thesis
    using report on_next_seq_settles[OF ok', of _ now] on_retransmit_request_settles[OF ok'] on_retransmission_settles[OF ok', of _ now]
      on_retransmit_reject_settles[OF ok', of _ now] on_finished_sending_settles[OF ok', of _ now] on_terminate_settles[OF ok', of _ now]
      settles_violation[OF ok'] stay
    by (cases m) (auto simp: run on_peer_live_def report_number_def Let_def state state' zero intro!: same)
qed

lemma on_peer_ok:
  assumes ok: "recovery_ok (bs_session b)"
  shows "step_ok (report_number m now b) (dropped_by (ReceivePeer m) b (snd (on_peer m now b))) b (snd (on_peer m now b))"
proof (cases "\<exists>d. bi_state (bs_binding b) = BindClosing d")
  case True
  then obtain d where d: "bi_state (bs_binding b) = BindClosing d" by blast
  have "dropped_by (ReceivePeer m) b (with_core f b) = {}" for f
    by (cases m) (simp_all add: d given_up_def)
  then show ?thesis
    using ok by (simp add: on_peer_def d report_number_def Let_def step_ok_dropped advances_refl)
next
  case False
  then show ?thesis using on_peer_live_ok[OF ok] by blast
qed

subsection \<open>Timeouts\<close>

lemma settles_after: "settles A b c \<Longrightarrow> settles {} c d \<Longrightarrow> settles A b d"
  by (rule advances_after)

lemma re_request_settles:
  assumes ok: "recovery_ok (bs_session b)" and r: "se_outstanding (bs_session b) = Some r"
  shows "settles {} b (snd (re_request r now b))"
proof -
  have eq: "consume_missing (ucast (or_delivered r)) ((bs_session b)\<lparr>se_outstanding := None, se_replay := None\<rparr>)
      = cleared (unat (or_delivered r)) (bs_session b)"
    by (rule consume_missing_cleared(2)[OF ok r request_okD(2)[OF ok r]])
  let ?b = "with_session (\<lambda>s. consume_missing (ucast (or_delivered r)) (s\<lparr>se_outstanding := None, se_replay := None\<rparr>)) b"
  have adv: "settles {} b ?b" using cleared_delivered[OF ok r] by (simp add: eq)
  show ?thesis
    unfolding re_request_def using settles_after[OF adv request_missing_settles[OF advances_ok[OF adv]]] .
qed

lemma on_stall_settles:
  assumes ok: "recovery_ok (bs_session b)" and r: "se_outstanding (bs_session b) = Some r"
  shows "settles {} b (snd (on_stall r now b))"
proof -
  have re: "settles {} b (snd (re_request r now (with_core f b)))" for f
    using re_request_settles[of "with_core f b" r now] ok r by simp
  have "advances {} s (s\<lparr>se_outstanding := map_option (\<lambda>x. x\<lparr>or_stall_reported := True\<rparr>) (se_outstanding s)\<rparr>)"
    if "recovery_ok s" for s
    using that by (auto simp: advances_def settled_def awaited_def recovered_to_def next_in_def recovery_ok_def request_ok_def
        batch_ok_def split: option.splits)
  then show ?thesis
    using re ok release_advances[OF ok]
    by (simp add: on_stall_def Let_def split: retransmit_stall_policy.split)
qed

lemma heartbeat_settles: "recovery_ok (bs_session b) \<Longrightarrow> settles {} b (heartbeat now b)"
  by (simp add: heartbeat_def advances_refl)

lemma on_timeout_settles:
  assumes ok: "recovery_ok (bs_session b)"
  shows "settles {} b (snd (on_timeout now b))"
proof -
  have beat: "settles {} b (heartbeat now c)" if "settles {} b c" for c
    using settles_after[OF that heartbeat_settles[OF advances_ok[OF that]]] .
  have stall: "settles {} b c" if "on_stall r now b = (bound, c)" "se_outstanding (bs_session b) = Some r" for r bound c
    using on_stall_settles[OF ok that(2), of now] that(1) by simp
  show ?thesis
    using advances_refl[OF ok] release_advances[OF ok]
    by (auto simp: on_timeout_def dest: stall intro: beat
      split: bind_state.splits option.splits prod.splits bound.splits)
qed

subsection \<open>Commands and binding\<close>

lemma commands_settle:
  assumes ok: "recovery_ok (bs_session b)"
  shows "settles {} b (snd (send_application now b))" and "settles {} b (snd (terminate code reason now b))"
    and "settles {} b (snd (retransmit n now b))" and "settles {} b (snd (reject_retransmit_request rcode reason b))"
    and "settles {} b (snd (end_retransmission b))"
proof -
  have same: "same_recovery s (s\<lparr>se_provider := p\<rparr>)" "same_recovery s (s\<lparr>se_outbound_next := k\<rparr>)" for s p k
    by (simp_all add: same_recovery_def)
  show "settles {} b (snd (send_application now b))"
    using advances_refl[OF ok] same_recovery_advances[OF same(2) ok]
    by (auto simp: send_application_def thenS_def allocate_outbound_def Let_def
      split: flow_type.splits sum.splits prod.splits option.splits if_splits)
  show "settles {} b (snd (terminate code reason now b))"
    using advances_refl[OF ok] same_recovery_advances[OF same(1) ok] release_advances[OF ok]
    by (auto simp: terminate_def thenS_def liftS_def Let_def split: sum.splits prod.splits)
  show "settles {} b (snd (retransmit n now b))"
    using advances_refl[OF ok] same_recovery_advances[OF same(1) ok]
    by (auto simp: retransmit_def thenS_def Let_def split: sum.splits prod.splits option.splits)
  show "settles {} b (snd (reject_retransmit_request rcode reason b))"
    using advances_refl[OF ok] same_recovery_advances[OF same(1) ok]
    by (auto simp: reject_retransmit_request_def thenS_def liftS_def Let_def split: sum.splits prod.splits option.splits)
  show "settles {} b (snd (end_retransmission b))"
    using advances_refl[OF ok] same_recovery_advances[OF same(1) ok]
    by (auto simp: end_retransmission_def thenS_def split: sum.splits prod.splits option.splits)
qed

lemma release_keeps [simp]:
  "se_start_pending (release_binding_state s) = se_start_pending s" "se_remote_flow (release_binding_state s) = se_remote_flow s"
proof -
  have "se_start_pending (consume_missing k t) = se_start_pending t" "se_remote_flow (consume_missing k t) = se_remote_flow t" for k t
    by (simp_all add: consume_missing_def Let_def split: list.splits option.splits)
  then show "se_start_pending (release_binding_state s) = se_start_pending s"
    "se_remote_flow (release_binding_state s) = se_remote_flow s"
    by (simp_all add: release_binding_state_def split: option.splits)
qed

lemma rebound_session [simp]: "bs_session (rebound now lk rk b) = release_binding_state (bs_session b)"
  by (simp add: rebound_def session_bind_def)

lemma request_missing_next: "next_in (bs_session (snd (request_missing now b))) = next_in (bs_session b)"
proof -
  have "next_in (s\<lparr>se_outstanding := q\<rparr>) = next_in s" for s q by (simp add: next_in_def)
  then show ?thesis by (simp add: request_missing_def Let_def split: option.split list.split prod.split sum.split)
qed

lemma maybe_finish_next: "next_in (bs_session (maybe_finish_receiving b)) = next_in (bs_session b)"
  using maybe_finish_same[of b] by (simp add: same_recovery_def next_in_def)

lemma on_established_settles:
  assumes ok: "recovery_ok (bs_session b)"
  shows "settles (given_up b (snd (on_established nxt now b))) b (snd (on_established nxt now b))"
proof -
  define pre where "pre = (case nxt of
      Some n \<Rightarrow> if is_sequenced (se_remote_flow (bs_session b)) then on_next_seq n now b else (Stay, b) | None \<Rightarrow> (Stay, b))"
  have first: "settles (given_up b (snd pre)) b (snd pre)"
    using on_next_seq_settles[OF ok, of _ now] settles_given_up[OF advances_refl[OF ok] refl]
    by (simp add: pre_def split: option.split)
  obtain bound1 b1 where p: "pre = (bound1, b1)" by (cases pre)
  obtain bound2 b2 where q: "request_missing now b1 = (bound2, b2)" by (cases "request_missing now b1")
  have one: "settles (given_up b b1) b b1" using first p by simp
  have "settles {} b1 b2" "next_in (bs_session b2) = next_in (bs_session b1)"
    using request_missing_settles[OF advances_ok[OF one], of now] request_missing_next[of now b1] q by simp_all
  then have two: "settles (given_up b b2) b b2" using settles_after[OF one] given_up_same_next[of b2 b1 b] by simp
  then have "settles {} b2 (maybe_finish_receiving b2)" using maybe_finish_settles advances_ok by blast
  then have "settles (given_up b (maybe_finish_receiving b2)) b (maybe_finish_receiving b2)"
    using settles_after[OF two] given_up_same_next[of "maybe_finish_receiving b2" b2 b] maybe_finish_next by simp
  then show ?thesis
    using one two p q unfolding on_established_def pre_def[symmetric] by (simp split: bound.split)
qed

lemma bind_again_settles:
  assumes ok: "recovery_ok (bs_session b)"
  shows "settles (given_up b (snd (on_established nxt now (rebound now lk rk b)))) b (snd (on_established nxt now (rebound now lk rk b)))"
proof -
  have rel: "settles {} b (rebound now lk rk b)" using release_advances[OF ok] by simp
  have "given_up (rebound now lk rk b) c = given_up b c" for c by (simp add: given_up_def)
  then show ?thesis using advances_then[OF rel on_established_settles[OF advances_ok[OF rel]]] by simp
qed

subsection \<open>Runs\<close>

lemma fixp_step_ok:
  assumes ok: "recovery_ok (bs_session b)" and run: "fixp_step op now b = (ns, b')"
  shows "step_ok ns (dropped_by op b b') b b'"
  using run on_peer_ok[OF ok] step_ok_delivers[OF on_application_delivers[OF ok]] step_ok_dropped[OF on_timeout_settles[OF ok]]
    step_ok_dropped[OF commands_settle(1)[OF ok]] step_ok_dropped[OF commands_settle(2)[OF ok]] step_ok_dropped[OF commands_settle(3)[OF ok]]
    step_ok_dropped[OF commands_settle(4)[OF ok]] step_ok_dropped[OF commands_settle(5)[OF ok]]
    step_ok_dropped[OF bind_again_settles[OF ok]] step_ok_dropped[of "{}" b "with_session release_binding_state (with_core core_transport_closed b)"]
    release_advances[OF ok]
  by (cases op) auto

theorem fixp_run_settles:
  assumes "recovery_ok (bs_session b)" "fixp_run ops b = (ns, D, b')"
  shows "settles (set ns \<union> D) b b' \<and> set ns \<inter> settled (bs_session b) = {} \<and> distinct ns"
  using assms
proof (induction ops arbitrary: b ns D b')
  case Nil
  then show ?case by (simp add: advances_refl)
next
  case (Cons x ops)
  obtain op now where x: "x = (op, now)" by (cases x)
  obtain n1 b1 where s: "fixp_step op now b = (n1, b1)" by (cases "fixp_step op now b")
  obtain n2 D2 b2 where r: "fixp_run ops b1 = (n2, D2, b2)" by (cases "fixp_run ops b1")
  have res: "ns = n1 @ n2" "D = dropped_by op b b1 \<union> D2" "b' = b2" using Cons.prems(2) by (simp_all add: x s r)
  have st: "settles (set n1 \<union> dropped_by op b b1) b b1" "set n1 \<inter> settled (bs_session b) = {}" "distinct n1"
    using fixp_step_ok[OF Cons.prems(1) s] by (simp_all add: step_ok_def)
  have ih: "settles (set n2 \<union> D2) b1 b2" "set n2 \<inter> settled (bs_session b1) = {}" "distinct n2"
    using Cons.IH[OF advances_ok[OF st(1)] r] by simp_all
  have grown: "settled (bs_session b1) = settled (bs_session b) \<union> (set n1 \<union> dropped_by op b b1)"
    using st(1) by (simp add: advances_def)
  have "settles (set ns \<union> D) b b'"
    using advances_trans[OF st(1) ih(1)] by (simp add: res Un_ac)
  moreover have "set ns \<inter> settled (bs_session b) = {}" using st(2) ih(2) grown by (auto simp: res)
  moreover have "distinct ns" using st(3) ih(2,3) grown by (auto simp: res)
  ultimately show ?case by blast
qed

lemma session_new_ok: "recovery_ok (session_new i lf rf)"
  by (simp add: recovery_ok_def session_new_def)

lemma session_new_settled: "settled (session_new i lf rf) = (if is_sequenced rf then {0} else {})"
  by (auto simp: settled_def awaited_def next_in_def session_new_def)

end
