(* ===== verification/Fixp_Wire.thy ===== *)
theory Fixp_Wire
  imports Fixp_Runs
begin

text \<open>
  The counterparty's side of the numbering.  Application messages carry no number on the wire: the
  receiver counts them from the last Sequence, and any other session message leaves the count open.
  \<open>heard\<close> is that count, and \<open>in_step\<close> says that at every numbered message it is the number the sender gave.
\<close>

datatype wire = OnWire session_message | Numbered u64 | Unnumbered | NewTransport

fun wire_of :: "fixp_output \<Rightarrow> wire list" where
  "wire_of (OutSend m) = [OnWire m]"
| "wire_of (OutSendApplication (Some n) _) = [Numbered n]"
| "wire_of (OutSendApplication None _) = [Unnumbered]"
| "wire_of OutCloseTransport = []"
| "wire_of (OutEvent _) = []"

fun heard :: "u64 option \<Rightarrow> wire \<Rightarrow> u64 option" where
  "heard cur (OnWire m) = (case m of MSequence q \<Rightarrow> Some (sq_next_seq_no q) | _ \<Rightarrow> None)"
| "heard cur (Numbered _) = map_option (\<lambda>n. n + 1) cur"
| "heard cur Unnumbered = cur"
| "heard cur NewTransport = None"

fun in_step :: "u64 option \<Rightarrow> wire list \<Rightarrow> bool" where
  "in_step cur [] = True"
| "in_step cur (w # ws) = ((case w of Numbered n \<Rightarrow> cur = Some n | _ \<Rightarrow> True) \<and> in_step (heard cur w) ws)"

definition outs :: "bound_session \<Rightarrow> fixp_output list" where
  "outs b = fc_outputs (bs_core b)"

definition wires :: "fixp_output list \<Rightarrow> wire list" where
  "wires xs = concat (map wire_of xs)"

lemma wires_simps [simp]: "wires [] = []" "wires (x # xs) = wire_of x @ wires xs" "wires (xs @ ys) = wires xs @ wires ys"
  by (simp_all add: wires_def)

lemma in_step_append: "in_step cur (vs @ ws) \<longleftrightarrow> in_step cur vs \<and> in_step (foldl heard cur vs) ws"
  by (induction vs arbitrary: cur) auto

text \<open>
  What holds between the calls: the count of a counterparty in sequence is the next number, and a
  request being served stays within what was sent and within the limit.
\<close>

definition provider_ok :: "fixp_config \<Rightarrow> u64 \<Rightarrow> provider \<Rightarrow> bool" where
  "provider_ok c nxt p \<longleftrightarrow> 1 \<le> unat (pv_from p) \<and> unat (pv_from p) + unat (pv_count p) \<le> unat nxt
     \<and> unat (pv_sent p) < unat (pv_count p) \<and> pv_count p \<le> cf_max_retransmit_count c"

definition voice_ok :: "u64 option \<Rightarrow> bound_session \<Rightarrow> bool" where
  "voice_ok cur b \<longleftrightarrow>
     (is_established b \<and> bi_in_sequence (bs_binding b) \<and> is_sequenced (se_local_flow (bs_session b))
        \<longrightarrow> cur = Some (se_outbound_next (bs_session b)))
     \<and> (\<forall>p. se_provider (bs_session b) = Some p \<longrightarrow> provider_ok (config_of b) (se_outbound_next (bs_session b)) p)"

text \<open>The numbers used are those from the next outbound number up to the one left.\<close>

fun numbers :: "wire list \<Rightarrow> nat list" where
  "numbers [] = []"
| "numbers (w # ws) = (case w of Numbered n \<Rightarrow> unat n # numbers ws | _ \<Rightarrow> numbers ws)"

lemma numbers_append [simp]: "numbers (vs @ ws) = numbers vs @ numbers ws"
  by (induction vs) (auto split: wire.split)

definition next_out :: "bound_session \<Rightarrow> nat" where
  "next_out b = unat (se_outbound_next (bs_session b))"

definition uses :: "wire list \<Rightarrow> bound_session \<Rightarrow> bound_session \<Rightarrow> bool" where
  "uses ws b c \<longleftrightarrow> numbers ws = [next_out b..<next_out c] \<and> next_out b \<le> next_out c"

lemma uses_none [simp]: "se_outbound_next (bs_session c) = se_outbound_next (bs_session b) \<Longrightarrow> uses ws b c \<longleftrightarrow> numbers ws = []"
  by (simp add: uses_def next_out_def)

lemma uses_with [simp]: "uses ws b (with_core f c) = uses ws b c" "uses ws b (with_binding g c) = uses ws b c"
  by (simp_all add: uses_def next_out_def)

lemma uses_append: "uses vs b c \<Longrightarrow> uses ws c d \<Longrightarrow> uses (vs @ ws) b d"
  using upt_add_eq_append[of "next_out b" "next_out c" "next_out d - next_out c"] by (simp add: uses_def)

text \<open>
  A step leaves its binding exactly when it asks for the transport to be closed, and then nothing but
  events follows.
\<close>

abbreviation closing :: "bound_session \<Rightarrow> bool" where
  "closing b \<equiv> fc_transport_closing (bs_core b)"

fun silent :: "fixp_output list \<Rightarrow> bool" where
  "silent [] = True"
| "silent (OutEvent _ # xs) = silent xs"
| "silent _ = False"

fun tidy :: "fixp_output list \<Rightarrow> bool" where
  "tidy [] = True"
| "tidy (OutCloseTransport # xs) = silent xs"
| "tidy (_ # xs) = tidy xs"

lemma silent_append [simp]: "silent (xs @ ys) \<longleftrightarrow> silent xs \<and> silent ys"
  by (induction xs rule: silent.induct) simp_all

lemma silent_tidy: "silent xs \<Longrightarrow> tidy xs \<and> OutCloseTransport \<notin> set xs"
  by (induction xs rule: silent.induct) simp_all

lemma tidy_append [simp]: "OutCloseTransport \<notin> set xs \<Longrightarrow> tidy (xs @ ys) \<longleftrightarrow> tidy ys"
  by (induction xs rule: tidy.induct) simp_all

lemma tidy_open: "OutCloseTransport \<notin> set xs \<Longrightarrow> tidy xs"
  by (induction xs rule: tidy.induct) simp_all

lemma tidy_events: "tidy xs \<Longrightarrow> silent ys \<Longrightarrow> tidy (xs @ ys)"
  by (induction xs rule: tidy.induct) (simp_all add: silent_tidy)

definition leaves :: "fixp_output list \<Rightarrow> bound_session \<Rightarrow> bound \<times> bound_session \<Rightarrow> bool" where
  "leaves xs b r \<longleftrightarrow> (\<not> closing b \<longrightarrow> tidy xs \<and> (OutCloseTransport \<in> set xs \<longleftrightarrow> fst r = Unbind)
     \<and> (closing (snd r) \<longleftrightarrow> fst r = Unbind))"

definition says :: "bound_session \<Rightarrow> bound \<times> bound_session \<Rightarrow> bool" where
  "says b r \<longleftrightarrow> (\<exists>xs. outs (snd r) = outs b @ xs \<and> uses (wires xs) b (snd r) \<and> leaves xs b r
     \<and> (\<forall>cur. voice_ok cur b \<longrightarrow> in_step cur (wires xs) \<and> (fst r = Stay \<longrightarrow> voice_ok (foldl heard cur (wires xs)) (snd r))))"

lemma says_refl: "says b (Stay, b)"
  by (auto simp: says_def uses_none leaves_def)

lemma says_trans:
  assumes "says b (Stay, c)" "says c r"
  shows "says b r"
proof -
  obtain xs where xs: "outs c = outs b @ xs" "uses (wires xs) b c" "leaves xs b (Stay, c)"
    "\<And>cur. voice_ok cur b \<Longrightarrow> in_step cur (wires xs) \<and> voice_ok (foldl heard cur (wires xs)) c"
    using assms(1) by (auto simp: says_def)
  obtain ys where ys: "outs (snd r) = outs c @ ys" "uses (wires ys) c (snd r)" "leaves ys c r"
    "\<And>cur. voice_ok cur c \<Longrightarrow> in_step cur (wires ys) \<and> (fst r = Stay \<longrightarrow> voice_ok (foldl heard cur (wires ys)) (snd r))"
    using assms(2) by (auto simp: says_def)
  show ?thesis
    unfolding says_def using xs ys by (intro exI[of _ "xs @ ys"]) (auto simp: in_step_append uses_append leaves_def)
qed

lemma core_outs [simp]:
  "fc_outputs (core_output out c) = fc_outputs c @ [out]" "fc_outputs (core_send m c) = fc_outputs c @ [OutSend m]"
  "fc_outputs (core_event e c) = fc_outputs c @ [OutEvent e]"
  "fc_outputs (core_send_application seq m c) = fc_outputs c @ [OutSendApplication seq m]"
  "fc_outputs (core_close_transport c) = fc_outputs c @ [OutCloseTransport]"
  "fc_outputs (core_ignore n r c) = fc_outputs c @ [OutEvent (EvIgnored n r)]"
  by (simp_all add: core_output_def core_send_def core_event_def core_send_application_def core_close_transport_def core_ignore_def)

lemma core_configs [simp]:
  "fc_config (core_send_application seq m c) = fc_config c" "fc_config (core_close_transport c) = fc_config c"
  "fc_config (core_ignore n r c) = fc_config c"
  by (simp_all add: core_output_def core_send_application_def core_close_transport_def core_ignore_def core_event_def)

lemma core_closings [simp]:
  "fc_transport_closing (core_output out c) = fc_transport_closing c" "fc_transport_closing (core_send m c) = fc_transport_closing c"
  "fc_transport_closing (core_event e c) = fc_transport_closing c"
  "fc_transport_closing (core_send_application seq m c) = fc_transport_closing c"
  "fc_transport_closing (core_close_transport c)" "fc_transport_closing (core_ignore n r c) = fc_transport_closing c"
  by (simp_all add: core_output_def core_send_def core_event_def core_send_application_def core_close_transport_def core_ignore_def)

lemma consume_voice [simp]:
  "se_local_flow (consume_missing k s) = se_local_flow s" "se_outbound_next (consume_missing k s) = se_outbound_next s"
  "se_provider (consume_missing k s) = se_provider s"
  by (simp_all add: consume_missing_def Let_def split: list.splits option.splits)

lemma release_out [simp]: "se_outbound_next (release_binding_state s) = se_outbound_next s"
  by (simp add: release_binding_state_def split: option.splits)

lemma fail_says: "says b (fail code reason b)"
  by (auto simp: says_def leaves_def fail_def Let_def outs_def voice_ok_def split: bind_state.splits)

lemma event_says: "says b (Stay, with_core (core_event e) b)"
  by (auto simp: says_def leaves_def outs_def voice_ok_def is_established_def config_of_def)

lemma violation_says: "says b (violation reason b)"
  unfolding violation_def by (rule says_trans[OF event_says fail_says])

text \<open>A change of the session that concerns neither numbers nor requests to be served.\<close>

definition same_voice :: "fixp_session \<Rightarrow> fixp_session \<Rightarrow> bool" where
  "same_voice s t \<longleftrightarrow> se_local_flow t = se_local_flow s \<and> se_outbound_next t = se_outbound_next s
     \<and> (se_provider t = se_provider s \<or> se_provider t = None)"

lemma same_voice_says: "same_voice (bs_session b) s \<Longrightarrow> says b (Stay, b\<lparr>bs_session := s\<rparr>)"
  by (auto simp: says_def leaves_def outs_def voice_ok_def same_voice_def is_established_def config_of_def)

lemma with_session_says: "same_voice (bs_session b) (f (bs_session b)) \<Longrightarrow> says b (Stay, with_session f b)"
  using same_voice_says[of b "f (bs_session b)"] by (simp add: with_session_def)

definition same_binding :: "binding \<Rightarrow> binding \<Rightarrow> bool" where
  "same_binding b c \<longleftrightarrow> bi_state c \<noteq> BindEstablished \<or> (bi_state c = bi_state b \<and> bi_in_sequence c = bi_in_sequence b) \<or> \<not> bi_in_sequence c"

lemma with_binding_says: "same_binding (bs_binding b) (g (bs_binding b)) \<Longrightarrow> says b (Stay, with_binding g b)"
  by (auto simp: says_def leaves_def outs_def voice_ok_def same_binding_def is_established_def config_of_def)

lemma touch_says: "says b (Stay, touch_keepalive now b)"
  unfolding touch_keepalive_def by (rule with_binding_says) (simp add: same_binding_def)

lemma consume_same_voice: "same_voice s (consume_missing k s)"
  by (simp add: consume_missing_def Let_def same_voice_def split: list.splits option.splits)

lemma same_voice_trans: "same_voice s t \<Longrightarrow> same_voice t u \<Longrightarrow> same_voice s u"
  by (auto simp: same_voice_def)

lemma same_voice_updates [simp]:
  "same_voice s s" "same_voice s (s\<lparr>se_outstanding := o'\<rparr>)" "same_voice s (s\<lparr>se_replay := q\<rparr>)" "same_voice s (s\<lparr>se_inbound_next := n\<rparr>)"
  "same_voice s (s\<lparr>se_awaiting_resume := a\<rparr>)" "same_voice s (s\<lparr>se_start_pending := a\<rparr>)" "same_voice s (s\<lparr>se_peer_finished := f\<rparr>)"
  "same_voice s (s\<lparr>se_missing := ms\<rparr>)" "same_voice s (s\<lparr>se_overflow_received := ms\<rparr>)" "same_voice s (s\<lparr>se_finalized := a\<rparr>)"
  "same_voice s (s\<lparr>se_provider := None\<rparr>)"
  by (simp_all add: same_voice_def)

lemma release_same_voice: "same_voice s (release_binding_state s)"
  by (simp add: release_binding_state_def same_voice_def split: option.splits)

lemma cut_replay_same_voice: "same_voice s (cut_replay now s)"
  by (simp add: cut_replay_def Let_def same_voice_def split: option.splits)

subsection \<open>Recovery\<close>

lemma request_missing_says: "says b (request_missing now b)"
proof -
  have clock: "says b (fail code reason (b\<lparr>bs_core := c\<rparr>))" if "fc_outputs c = fc_outputs (bs_core b)" "fc_config c = fc_config (bs_core b)"
      "fc_transport_closing c = closing b" for code reason c
  proof -
    have "says b (Stay, b\<lparr>bs_core := c\<rparr>)"
      using that by (auto simp: says_def leaves_def outs_def voice_ok_def is_established_def config_of_def)
    then show ?thesis by (rule says_trans) (rule fail_says)
  qed
  have stamped: "fc_outputs c = fc_outputs (bs_core b) \<and> fc_config c = fc_config (bs_core b) \<and> fc_transport_closing c = closing b"
    if "request_timestamp now (bs_core b) = (r, c)" for r c
    using that by (auto simp: request_timestamp_def split: prod.splits)
  have ask: "says b (Stay, with_session (\<lambda>s. s\<lparr>se_outstanding := q\<rparr>) (leave_sequence (with_core (core_send m) (b\<lparr>bs_core := c\<rparr>))))"
    if "fc_outputs c = fc_outputs (bs_core b)" "fc_config c = fc_config (bs_core b)" "fc_transport_closing c = closing b" for q m c
    using that by (auto simp: says_def leaves_def outs_def voice_ok_def is_established_def config_of_def leave_sequence_def)
  obtain r c where rc: "request_timestamp now (bs_core b) = (r, c)" by (cases "request_timestamp now (bs_core b)")
  note same = stamped[OF rc, THEN conjunct1] stamped[OF rc, THEN conjunct2, THEN conjunct1]
    stamped[OF rc, THEN conjunct2, THEN conjunct2]
  show ?thesis
    by (simp add: request_missing_def Let_def says_refl rc clock[OF same] ask[OF same] split: list.split option.split sum.split)
qed

lemma maybe_finish_says: "says b (Stay, maybe_finish_receiving b)"
  by (auto simp: maybe_finish_receiving_def says_refl) (auto simp: says_def leaves_def outs_def voice_ok_def is_established_def config_of_def leave_sequence_def
      split: option.splits)

lemma after_range_says: "says b (after_range now b)"
  using says_trans[OF event_says maybe_finish_says] request_missing_says by (simp add: after_range_def)

lemma complete_outstanding_says: "says b (complete_outstanding now b)"
  unfolding complete_outstanding_def
  by (rule says_trans[OF with_session_says after_range_says]) (simp add: same_voice_def split: option.split)

lemma allocate_says:
  assumes "allocate_outbound b = (Inr seq, c)" "is_established b" "is_sequenced (se_local_flow (bs_session b))"
  shows "\<exists>xs. outs c = outs b @ xs \<and> uses (wires xs @ [Numbered seq]) b c \<and> leaves xs b (Stay, c) \<and> (\<forall>cur. voice_ok cur b \<longrightarrow>
      in_step cur (wires xs @ [Numbered seq]) \<and> voice_ok (foldl heard cur (wires xs @ [Numbered seq])) c)"
proof -
  have grow: "provider_ok cf (n + 1) p" if "provider_ok cf n p" "unat n + 1 < 2 ^ 64" for cf n p
    using that by (auto simp: provider_ok_def unat_word_ariths)
  show ?thesis
    using assms grow
    by (auto simp: allocate_outbound_def Let_def checked_simps leaves_def outs_def voice_ok_def is_established_def config_of_def
      uses_def next_out_def unat_word_ariths
      split: option.splits if_splits)
qed

lemma numbered_says:
  assumes "allocate_outbound b = (Inr seq, c)" "is_established b" "is_sequenced (se_local_flow (bs_session b))"
  shows "says b (Stay, touch_keepalive now (with_core (core_send_application (Some seq) m) c))"
proof -
  obtain xs where xs: "outs c = outs b @ xs" "uses (wires xs @ [Numbered seq]) b c" "leaves xs b (Stay, c)" "\<And>cur. voice_ok cur b \<Longrightarrow>
      in_step cur (wires xs @ [Numbered seq]) \<and> voice_ok (foldl heard cur (wires xs @ [Numbered seq])) c"
    using allocate_says[OF assms] by blast
  have "voice_ok cur (touch_keepalive now (with_core (core_send_application (Some seq) m) c)) = voice_ok cur c" for cur
    by (simp add: voice_ok_def is_established_def config_of_def touch_keepalive_def)
  then show ?thesis
    unfolding says_def using xs by (intro exI[of _ "xs @ [OutSendApplication (Some seq) m]"]) (simp add: outs_def touch_keepalive_def leaves_def)
qed

lemma allocate_error: "allocate_outbound b = (Inl e, c) \<Longrightarrow> c = b"
  by (auto simp: allocate_outbound_def Let_def split: option.splits if_splits)

lemma send_not_applied_says: "says b (send_not_applied from count now b)"
proof -
  have plain: "says b (Stay, touch_keepalive now (with_core (core_send_application None m) b))" for m
    by (auto simp: says_def leaves_def outs_def voice_ok_def is_established_def config_of_def touch_keepalive_def)
  obtain r c where rc: "allocate_outbound b = (r, c)" by (cases "allocate_outbound b")
  show ?thesis
  proof (cases r)
    case (Inl e)
    then have "c = b" using rc allocate_error by blast
    then show ?thesis using plain rc Inl
      by (simp add: send_not_applied_def Let_def says_refl fail_says split: flow_type.split)
  next
    case (Inr seq)
    then show ?thesis
      using plain rc numbered_says[of b seq c now]
      by (cases "se_local_flow (bs_session b)") (simp_all add: send_not_applied_def Let_def says_refl)
  qed
qed

lemma on_gap_says: "says b (on_gap expected nxt count now b)"
proof -
  let ?b = "with_core (core_event (EvSequenceGap expected count)) b"
  have ev: "says b (Stay, ?b)" by (rule event_says)
  have step: "says b r" if "same_voice (bs_session b) s" "says (?b\<lparr>bs_session := s\<rparr>) r" for s r
    using says_trans[OF ev says_trans[OF same_voice_says that(2)]] that(1) by simp
  have rec: "same_voice s t" if "record_gap c f u s = (r, t)" for c f u s r t
    using that by (auto simp: record_gap_def same_voice_def split: if_splits)
  have hold: "same_voice s t" if "hold_refused_gap c f u s = (r, t)" for c f u s r t
    using that by (auto simp: hold_refused_gap_def Let_def same_voice_def split: if_splits)
  show ?thesis
  proof (cases "se_remote_flow (bs_session b) = FlowRecoverable")
    case True
    obtain taken s where r1: "record_gap (config_of ?b) expected nxt (bs_session b) = (taken, s)" by (cases "record_gap (config_of ?b) expected nxt (bs_session b)")
    obtain held s1 where r2: "hold_refused_gap (config_of ?b) expected nxt s = (held, s1)" by (cases "hold_refused_gap (config_of ?b) expected nxt s")
    have "same_voice (bs_session b) (s\<lparr>se_inbound_next := Some nxt\<rparr>)" using rec[OF r1] by (simp add: same_voice_def)
    moreover have "same_voice (bs_session b) (if held then s1\<lparr>se_inbound_next := Some nxt\<rparr> else s1)"
      using same_voice_trans[OF rec[OF r1] hold[OF r2]] by (simp add: same_voice_def)
    ultimately show ?thesis
      using step[OF _ request_missing_says] step[OF _ violation_says]
      by (simp add: on_gap_def Let_def True r1 r2 split: bool.split)
  next
    case False
    have "same_voice (bs_session b) ((bs_session b)\<lparr>se_inbound_next := Some nxt\<rparr>)" by simp
    then have "says b (send_not_applied expected (ucast count) now (with_session (\<lambda>s. s\<lparr>se_inbound_next := Some nxt\<rparr>) ?b))"
      "says b (violation reason (with_session (\<lambda>s. s\<lparr>se_inbound_next := Some nxt\<rparr>) ?b))"
      "says b (Stay, with_session (\<lambda>s. s\<lparr>se_inbound_next := Some nxt\<rparr>) ?b)" for reason
      using step[OF _ send_not_applied_says] step[OF _ violation_says] step[OF _ says_refl] by (simp_all add: with_session_def)
    then show ?thesis using False by (cases "se_remote_flow (bs_session b)") (simp_all add: on_gap_def Let_def)
  qed
qed

lemma on_next_seq_says: "says b (on_next_seq nxt now b)"
proof -
  let ?b = "with_session (cut_replay now) b"
  have cut: "says b (Stay, ?b)" by (intro with_session_says cut_replay_same_voice)
  have moved: "says b (Stay, with_session f ?b)" if "\<And>s. same_voice s (f s)" for f
    by (rule says_trans[OF cut]) (rule with_session_says, rule that)
  have up: "same_voice s (s\<lparr>se_start_pending := False, se_inbound_next := Some nxt\<rparr>)" "same_voice s (s\<lparr>se_inbound_next := Some nxt\<rparr>)" for s
    by (simp_all add: same_voice_def)
  show ?thesis
    using violation_says cut says_trans[OF cut violation_says] says_trans[OF cut on_gap_says] moved[OF up(1)] moved[OF up(2)]
    by (simp add: on_next_seq_def Let_def split: option.split)
qed

lemma on_established_says: "says b (on_established nxt now b)"
proof -
  define pre where "pre = (case nxt of
      Some n \<Rightarrow> if is_sequenced (se_remote_flow (bs_session b)) then on_next_seq n now b else (Stay, b) | None \<Rightarrow> (Stay, b))"
  obtain bound1 b1 where p: "pre = (bound1, b1)" by (cases pre)
  obtain bound2 b2 where q: "request_missing now b1 = (bound2, b2)" by (cases "request_missing now b1")
  have "says b pre" using on_next_seq_says[of b _ now] says_refl[of b] by (simp add: pre_def split: option.split)
  then have one: "says b (bound1, b1)" by (simp add: p)
  then have two: "bound1 = Stay \<Longrightarrow> says b (bound2, b2)" using says_trans[OF _ request_missing_says, of b b1 now] q by simp
  have "says b (Stay, maybe_finish_receiving b2)" if "bound1 = Stay" "bound2 = Stay"
    using says_trans[OF _ maybe_finish_says, of b b2] two that by simp
  then show ?thesis
    using one two p q unfolding on_established_def pre_def[symmetric] by (cases bound1; cases bound2) simp_all
qed

subsection \<open>Messages of the counterparty\<close>

lemma says_report:
  assumes "says b (bound, c)"
  shows "says b (bound, with_core (core_event e) c)"
proof (cases bound)
  case Stay
  then show ?thesis using says_trans[OF _ event_says] assms by simp
next
  case Unbind
  obtain xs where "outs c = outs b @ xs" "uses (wires xs) b c" "leaves xs b (Unbind, c)" "\<And>cur. voice_ok cur b \<Longrightarrow> in_step cur (wires xs)"
    using assms Unbind by (auto simp: says_def)
  then show ?thesis
    unfolding says_def Unbind by (intro exI[of _ "xs @ [OutEvent e]"]) (simp add: outs_def leaves_def tidy_events)
qed

lemma ignore_says: "says b (Stay, with_core (core_ignore n r) b)"
  unfolding core_ignore_def by (rule event_says)

lemma on_application_says: "says b (snd (fst (on_application now b)), snd (on_application now b))"
proof -
  let ?b = "with_binding (\<lambda>bi. bi\<lparr>bi_last_received := now\<rparr>) b"
  have live: "says b (Stay, ?b)" by (rule with_binding_says) (simp add: same_binding_def)
  have refuse: "says b (Unbind, snd (violation reason ?b))" for reason
    using says_trans[OF live violation_says, of reason] by (metis fail_simps(3) prod.collapse)
  let ?c = "with_session (\<lambda>s. s\<lparr>se_start_pending := False\<rparr>) ?b"
  have start: "says b (Stay, ?c)" by (rule says_trans[OF live]) (rule with_session_says, simp)
  have refuse': "says b (Unbind, snd (violation reason ?c))" for reason
    using says_trans[OF start violation_says, of reason] by (metis fail_simps(3) prod.collapse)
  have taken: "says b (Stay, with_session (\<lambda>s. s\<lparr>se_inbound_next := Some k\<rparr>) ?c)" for k
    by (rule says_trans[OF start]) (rule with_session_says, simp)
  have batch: "says b (if complete then complete_outstanding now (?b\<lparr>bs_session := t\<rparr>) else (Stay, ?b\<lparr>bs_session := t\<rparr>))"
    if run: "replayed p following now (bs_session b) = (complete, s1)" "received_in_overflow seq s1 = (duplicate, t)"
    for p following complete s1 seq duplicate t
  proof -
    have "same_voice (bs_session b) s1"
      using run(1) by (auto simp: replayed_def Let_def same_voice_def split: option.splits)
    then have "same_voice (bs_session ?b) t"
      using run(2) by (auto simp: received_in_overflow_def Let_def same_voice_def)
    then have "says b (Stay, ?b\<lparr>bs_session := t\<rparr>)" by (intro says_trans[OF live] same_voice_says)
    then show ?thesis using says_trans[OF _ complete_outstanding_says] by simp
  qed
  show ?thesis
  proof (cases "se_replay (bs_session b)")
    case None
    then show ?thesis using live refuse refuse' taken ignore_says
      by (simp add: on_application_def Let_def case_prod_beta split: bind_state.split option.split)
  next
    case (Some p)
    obtain complete s1 where r1: "replayed p (rp_next p + 1) now (bs_session b) = (complete, s1)" by (cases "replayed p (rp_next p + 1) now (bs_session b)")
    obtain duplicate t where r2: "received_in_overflow (rp_next p) s1 = (duplicate, t)" by (cases "received_in_overflow (rp_next p) s1")
    show ?thesis using Some live refuse ignore_says batch[OF r1 r2]
      by (auto simp: on_application_def Let_def case_prod_beta checked_simps r1 r2 split: bind_state.split option.split)
  qed
qed

lemma on_numbered_report_says: "says b (on_numbered_report ev now b)"
proof -
  obtain d bound c where r: "on_application now b = ((d, bound), c)" by (metis surj_pair)
  then have "says b (bound, c)" using on_application_says[of b now] by simp
  then show ?thesis using says_report by (cases d) (simp_all add: on_numbered_report_def r)
qed

lemma on_retransmission_says: "says b (on_retransmission m now b)"
proof -
  have "says b (Stay, with_session (\<lambda>s. s\<lparr>se_replay := q, se_awaiting_resume := True, se_outstanding := o'\<rparr>) b)" for q o'
    by (rule with_session_says) (simp add: same_voice_def)
  then show ?thesis by (simp add: on_retransmission_def Let_def violation_says split: option.split)
qed

lemma on_retransmit_reject_says: "says b (on_retransmit_reject m now b)"
proof -
  have "says b (after_range now (with_session (\<lambda>s. consume_missing k (s\<lparr>se_outstanding := None, se_replay := None\<rparr>)) (with_core (core_event e) b)))" for k e
    by (rule says_trans[OF event_says], rule says_trans[OF with_session_says after_range_says]) (simp add: same_voice_def)
  then show ?thesis by (simp add: on_retransmit_reject_def Let_def ignore_says split: option.split)
qed

lemma leave_says: "says b (Stay, leave_sequence (with_core (core_send m) b))"
  by (auto simp: says_def leaves_def outs_def voice_ok_def is_established_def config_of_def leave_sequence_def)

lemma on_retransmit_request_says: "says b (on_retransmit_request m b)"
proof -
  have refuse: "says b (refuse_retransmit m code reason b)" for code reason
    unfolding refuse_retransmit_def by (rule says_trans[OF leave_says event_says])
  have serve: "says b (Stay, with_core (core_event e) (with_session (\<lambda>s. s\<lparr>se_provider := Some \<lparr>pv_request_timestamp = ts,
      pv_from = rq_from_seq_no m, pv_count = rq_count m, pv_sent = 0\<rparr>\<rparr>) b))"
    if "1 \<le> rq_from_seq_no m" "rq_count m \<noteq> 0" "rq_count m \<le> cf_max_retransmit_count (config_of b)"
      "case checked_add (rq_from_seq_no m) (ucast (rq_count m)) of Some e \<Rightarrow> e \<le> se_outbound_next (bs_session b) | None \<Rightarrow> False" for e ts
    using that
    by (auto simp: says_def leaves_def outs_def voice_ok_def is_established_def config_of_def provider_ok_def word_le_nat_alt unat_gt_0
      dest!: unat_checked_add split: option.splits)
  show ?thesis
    using refuse serve ignore_says violation_says says_trans[OF event_says fail_says] by (simp add: on_retransmit_request_def Let_def not_less)
qed

lemma says_unbind: "outs c = outs b @ xs \<Longrightarrow> uses (wires xs) b c \<Longrightarrow> (\<And>cur. in_step cur (wires xs)) \<Longrightarrow>
    tidy xs \<Longrightarrow> OutCloseTransport \<in> set xs \<Longrightarrow> closing c \<Longrightarrow> says b (Unbind, c)"
  by (auto simp: says_def leaves_def)

lemma on_terminate_says: "says b (on_terminate m now b)"
proof -
  have answer: "says b (Stay, with_binding (\<lambda>bi. bi\<lparr>bi_state := BindClosing (D bi)\<rparr>) (with_session f (with_session release_binding_state
      (with_core (core_event e \<circ> core_send t) b))))" if "\<And>s. same_voice s (f s)" for D f e t
  proof -
    have voice: "same_voice s (f (release_binding_state s))" for s
      using same_voice_trans[OF release_same_voice that] .
    have "voice_ok cur (with_binding (\<lambda>bi. bi\<lparr>bi_state := BindClosing (D bi)\<rparr>) (with_session f (with_session release_binding_state
      (with_core (core_event e \<circ> core_send t) b))))" if "voice_ok cur' b" for cur cur'
      using that voice[of "bs_session b"] by (auto simp: voice_ok_def is_established_def same_voice_def config_of_def)
    then show ?thesis
      unfolding says_def using voice[of "bs_session b"]
      by (intro exI[of _ "[OutSend t, OutEvent e]"]) (auto simp: outs_def same_voice_def leaves_def)
  qed
  have fin: "same_voice s (if q then finalize_if_finished s else s)" for s q by (simp add: finalize_if_finished_def)
  have ended: "says b (Unbind, with_session f (with_session release_binding_state (with_core (core_close_transport \<circ> core_event e) b)))"
    if "\<And>s. same_voice s (f s)" for f e
    using that[of "release_binding_state (bs_session b)"]
    by (intro says_unbind[of _ _ "[OutEvent e, OutCloseTransport]"]) (simp_all add: outs_def same_voice_def)
  have fin': "same_voice s (if q \<and> r then finalize_if_finished s else s)" for s q r by (simp add: finalize_if_finished_def)
  show ?thesis
    using violation_says says_refl[of b] ended[OF fin'] answer[OF fin]
    by (auto simp: on_terminate_def split: bind_state.split)
qed

lemma on_finished_sending_says: "says b (on_finished_sending m now b)"
proof -
  let ?b = "\<lambda>e. with_core (core_event e) b"
  have ev: "says b (Stay, ?b e)" for e by (rule event_says)
  have finish: "says c (Stay, maybe_finish_receiving (with_session (\<lambda>s. s\<lparr>se_peer_finished := q\<rparr>) c))" for q c
    by (rule says_trans[OF with_session_says maybe_finish_says]) simp
  have announced: "says b (case on_next_seq n now (?b e) of (Unbind, b2) \<Rightarrow> (Unbind, b2)
      | (Stay, b2) \<Rightarrow> (Stay, maybe_finish_receiving (with_session (\<lambda>s. s\<lparr>se_peer_finished := q\<rparr>) b2)))" for n q e
  proof -
    obtain bound c where r: "on_next_seq n now (?b e) = (bound, c)" by (cases "on_next_seq n now (?b e)")
    have "says b (bound, c)" using says_trans[OF ev on_next_seq_says, of n now e] by (simp add: r)
    then show ?thesis using says_trans[OF _ finish, of b c] by (cases bound) (simp_all add: r)
  qed
  show ?thesis
    using violation_says says_refl[of b] says_trans[OF ev violation_says] announced says_trans[OF ev finish]
    by (simp add: on_finished_sending_def Let_def split: option.split)
qed

lemma on_peer_says: "says b (on_peer m now b)"
proof -
  let ?b = "with_binding (\<lambda>bi. bi\<lparr>bi_last_received := now\<rparr>) b"
  have live: "says b (Stay, ?b)" by (rule with_binding_says) (simp add: same_binding_def)
  have "says b (on_peer_live m now ?b)"
    by (rule says_trans[OF live], cases m) (simp_all add: on_peer_live_def violation_says on_next_seq_says says_refl on_terminate_says
      on_retransmit_request_says on_retransmission_says on_retransmit_reject_says on_finished_sending_says on_numbered_report_says)
  then show ?thesis using ignore_says by (simp add: on_peer_def split: bind_state.split)
qed

subsection \<open>Timeouts and commands\<close>

lemma on_stall_says: "says b (on_stall r now b)"
proof -
  have ev: "says b (Stay, with_core (core_event e) b)" for e by (rule event_says)
  have re: "says c (re_request r now c)" for c
    unfolding re_request_def by (rule says_trans[OF with_session_says request_missing_says]) (simp add: same_voice_def)
  have noted: "says c (Stay, with_session (\<lambda>s. s\<lparr>se_outstanding := f (se_outstanding s)\<rparr>) c)" for c f
    by (rule with_session_says) simp
  show ?thesis
    using says_trans[OF ev re] says_trans[OF ev noted] says_trans[OF ev fail_says]
    by (simp add: on_stall_def Let_def split: retransmit_stall_policy.split)
qed

lemma heartbeat_says: "says b (Stay, heartbeat now b)"
  by (auto simp: says_def leaves_def outs_def heartbeat_def touch_keepalive_def voice_ok_def is_established_def config_of_def)

lemma on_timeout_says: "says b (on_timeout now b)"
proof -
  have ended: "says b (Unbind, with_session release_binding_state (with_core (core_close_transport \<circ> core_event e) b))" for e
    by (rule says_unbind[of _ _ "[OutEvent e, OutCloseTransport]"]) (simp_all add: outs_def)
  have closed: "says b (Unbind, with_core core_close_transport b)"
    by (rule says_unbind[of _ _ "[OutCloseTransport]"]) (simp_all add: outs_def)
  have then_beat: "says b (case r of (Unbind, c) \<Rightarrow> (Unbind, c) | (Stay, c) \<Rightarrow> (Stay, if q c then heartbeat now c else c))"
    if "says b r" for r q
    using that says_trans[OF _ heartbeat_says, of b] by (cases r; cases "fst r") auto
  have "says b (case se_outstanding (bs_session b) of Some o' \<Rightarrow> if due (stall_deadline b) now then on_stall o' now b else (Stay, b)
      | None \<Rightarrow> (Stay, b))"
    using on_stall_says says_refl[of b] by (simp split: option.split)
  note beat = then_beat[OF this]
  show ?thesis
    using beat[of "\<lambda>c. due (heartbeat_deadline c) now"] says_refl[of b] ended closed says_trans[OF event_says fail_says]
    by (simp add: on_timeout_def split: bind_state.split)
qed


text \<open>
  The commands of a FIXP session as seen on the wire, and the transcript of a session over any number
  of transports.  A transport starts with \<open>BindAgain\<close> and is left at the first step that unbinds it; what
  is asked of a session that is not bound is refused by its role and is not part of the transcript.
\<close>

subsection \<open>Commands\<close>

definition command_says :: "bound_session \<Rightarrow> wire list \<Rightarrow> bound_session \<Rightarrow> bool" where
  "command_says b ws c \<longleftrightarrow> (\<exists>xs. outs c = outs b @ xs \<and> uses (wires xs @ ws) b c \<and> leaves xs b (Stay, c)
     \<and> (\<forall>cur. voice_ok cur b \<longrightarrow> in_step cur (wires xs @ ws) \<and> voice_ok (foldl heard cur (wires xs @ ws)) c))"

lemma command_says_Stay: "says b (Stay, c) \<Longrightarrow> command_says b [] c"
  by (simp add: says_def command_says_def)

lemma command_refl: "command_says b [] b"
  by (rule command_says_Stay) (rule says_refl)

text \<open>The frame the caller writes after a successful \<^verbatim>\<open>send_application\<close>.\<close>

fun frame_of :: "fixp_error + u64 option \<Rightarrow> wire list" where
  "frame_of (Inr (Some n)) = [Numbered n]"
| "frame_of (Inr None) = [Unnumbered]"
| "frame_of (Inl _) = []"

lemma send_application_says: "command_says b (frame_of (fst (send_application now b))) (snd (send_application now b))"
proof (cases "is_established b \<and> \<not> finished_receiving_sent (bs_session b)")
  case False
  then show ?thesis by (auto simp: send_application_def require_established_def thenS_def command_refl)
next
  case live: True
  have plain: "command_says b [Unnumbered] (touch_keepalive now b)"
    by (auto simp: command_says_def leaves_def outs_def voice_ok_def is_established_def config_of_def touch_keepalive_def)
  obtain r c where rc: "allocate_outbound b = (r, c)" by (cases "allocate_outbound b")
  have numbered: "command_says b (frame_of (fst x)) (snd x)"
    if flow: "is_sequenced (se_local_flow (bs_session b))" and x: "x = thenS allocate_outbound (\<lambda>seq b. (Inr (Some seq), touch_keepalive now b)) b" for x
  proof (cases r)
    case (Inl e)
    then have "c = b" using rc allocate_error by blast
    then show ?thesis using rc Inl x by (simp add: thenS_def command_refl)
  next
    case (Inr seq)
    then have alloc: "allocate_outbound b = (Inr seq, c)" using rc by simp
    obtain xs where xs: "outs c = outs b @ xs" "uses (wires xs @ [Numbered seq]) b c" "leaves xs b (Stay, c)" "\<And>cur. voice_ok cur b \<Longrightarrow>
        in_step cur (wires xs @ [Numbered seq]) \<and> voice_ok (foldl heard cur (wires xs @ [Numbered seq])) c"
      using allocate_says[OF alloc conjunct1[OF live] flow] by blast
    have "voice_ok cur (touch_keepalive now c) = voice_ok cur c" "uses ws b (touch_keepalive now c) = uses ws b c"
        "outs (touch_keepalive now c) = outs c" "leaves xs b (Stay, touch_keepalive now c) = leaves xs b (Stay, c)" for cur ws
      by (simp_all add: voice_ok_def is_established_def config_of_def touch_keepalive_def outs_def leaves_def)
    then show ?thesis using xs x rc Inr by (auto simp: thenS_def command_says_def intro!: exI[of _ xs])
  qed
  show ?thesis
    using live plain numbered[OF _ refl] command_refl
    by (cases "se_local_flow (bs_session b)") (simp_all add: send_application_def require_established_def thenS_def Let_def)
qed

fun ended :: "fixp_error + bound \<Rightarrow> bound" where
  "ended (Inr bound) = bound"
| "ended (Inl _) = Stay"

lemma terminate_says: "says b (ended (fst (terminate code reason now b)), snd (terminate code reason now b))"
proof -
  have wait: "says b (Stay, with_binding (\<lambda>bi. bi\<lparr>bi_state := BindTerminating now c r\<rparr>) (with_session (\<lambda>s. s\<lparr>se_provider := None\<rparr>)
      (with_core (core_send m) b)))" for m c r
    by (auto simp: says_def leaves_def outs_def voice_ok_def is_established_def)
  have over: "says b (Unbind, with_core (core_close_transport \<circ> core_event e) (with_session release_binding_state (with_core (core_send m) b)))" for e m
    by (rule says_unbind[of _ _ "[OutSend m, OutEvent e, OutCloseTransport]"]) (simp_all add: outs_def)
  show ?thesis
    using wait over says_refl[of b]
    by (simp add: terminate_def thenS_def liftS_def require_established_def check_reason_def Let_def)
qed

text \<open>A batch stays within the request: only numbers that were sent are sent again.\<close>

lemma retransmit_says:
  "says b (Stay, snd (retransmit n now b))"
proof -
  have grown: "provider_ok c nx (p\<lparr>pv_sent := sent\<rparr>)"
    if "provider_ok c nx p" "\<not> pv_count p \<le> sent" for c nx p sent
    using that by (simp add: provider_ok_def word_le_nat_alt)
  have served: "says b (Stay, touch_keepalive now (leave_sequence (with_session (\<lambda>s. s\<lparr>se_provider := q\<rparr>) (with_core (core_send m) b))))"
    if "q = None \<or> (\<exists>p sent. se_provider (bs_session b) = Some p \<and> q = Some (p\<lparr>pv_sent := sent\<rparr>) \<and> \<not> pv_count p \<le> sent)" for q m
    using that grown
    by (auto simp: says_def leaves_def outs_def voice_ok_def is_established_def config_of_def touch_keepalive_def leave_sequence_def)
  note whole = served[OF disjI1[OF refl]]
  have part: "says b (Stay, touch_keepalive now (leave_sequence (with_session (\<lambda>s. s\<lparr>se_provider := Some (p\<lparr>pv_sent := sent\<rparr>)\<rparr>) (with_core (core_send m) b))))"
    if "se_provider (bs_session b) = Some p" "\<not> pv_count p \<le> sent" for p sent m
    by (rule served) (use that in blast)
  have stuck: "False" if "checked_sub (pv_count p) (pv_sent p) = Some left" "\<not> left < n" "checked_add (pv_sent p) n = None" for p left
  proof -
    have "unat (pv_count p) < 2 ^ 32" by (rule order_less_le_trans[OF unsigned_less]) simp
    moreover have "unat (pv_sent p) \<le> unat (pv_count p)" using that(1) by (simp add: checked_simps word_le_nat_alt)
    moreover have "unat n \<le> unat (pv_count p) - unat (pv_sent p)"
      using that(2) unat_checked_sub[OF that(1)] by (simp add: word_less_nat_alt)
    ultimately have "unat (pv_sent p) + unat n < 2 ^ 32" by linarith
    then show False using that(3) by (simp add: checked_add_def)
  qed
  show ?thesis
    using says_refl[of b] whole part
    by (auto simp: retransmit_def thenS_def require_established_def Let_def dest: stuck split: option.splits)
qed

lemma reject_says: "says b (Stay, snd (reject_retransmit_request code reason b))"
proof -
  have "says b (Stay, leave_sequence (with_core (core_send m) (with_session (\<lambda>s. s\<lparr>se_provider := None\<rparr>) b)))" for m
    by (rule says_trans[OF with_session_says leave_says]) simp
  then show ?thesis
    using says_refl[of b]
    by (auto simp: reject_retransmit_request_def thenS_def liftS_def require_established_def check_reason_def split: option.splits)
qed

lemma end_says: "says b (Stay, snd (end_retransmission b))"
proof -
  have "says b (Stay, with_session (\<lambda>s. s\<lparr>se_provider := None\<rparr>) b)"
    by (rule with_session_says) simp
  then show ?thesis
    using says_refl[of b] by (auto simp: end_retransmission_def thenS_def require_established_def split: option.splits)
qed

subsection \<open>Transcripts\<close>

fun is_bind :: "fixp_op \<Rightarrow> bool" where
  "is_bind (BindAgain _ _ _) = True"
| "is_bind _ = False"

fun step_bound :: "fixp_op \<Rightarrow> instant \<Rightarrow> bound_session \<Rightarrow> bound" where
  "step_bound (ReceivePeer m) now b = fst (on_peer m now b)"
| "step_bound ReceiveApplication now b = snd (fst (on_application now b))"
| "step_bound TimeOut now b = fst (on_timeout now b)"
| "step_bound (SendTerminate code reason) now b = ended (fst (terminate code reason now b))"
| "step_bound TransportLost now b = Unbind"
| "step_bound (BindAgain lk rk nxt) now b = fst (on_established nxt now (rebound now lk rk b))"
| "step_bound _ now b = Stay"

definition queued :: "bound_session \<Rightarrow> bound_session \<Rightarrow> wire list" where
  "queued b c = wires (drop (length (outs b)) (outs c))"

fun step_wires :: "fixp_op \<Rightarrow> instant \<Rightarrow> bound_session \<Rightarrow> wire list" where
  "step_wires (BindAgain lk rk nxt) now b = NewTransport # queued b (snd (fixp_step (BindAgain lk rk nxt) now b))"
| "step_wires SendApplication now b =
     queued b (snd (fixp_step SendApplication now b)) @ frame_of (fst (send_application now b))"
| "step_wires op now b = queued b (snd (fixp_step op now b))"

fun transcript :: "bool \<Rightarrow> (fixp_op \<times> instant) list \<Rightarrow> bound_session \<Rightarrow> wire list \<times> bool \<times> bound_session" where
  "transcript live [] b = ([], live, b)"
| "transcript live ((op, now) # ops) b =
    (if is_bind op = live then transcript live ops b
     else (case transcript (step_bound op now b = Stay) ops (snd (fixp_step op now b)) of
             (ws, rest) \<Rightarrow> (step_wires op now b @ ws, rest)))"

definition speaks :: "bound_session \<Rightarrow> wire list \<Rightarrow> bound \<Rightarrow> bound_session \<Rightarrow> bool" where
  "speaks b ws bound c \<longleftrightarrow> uses ws b c \<and> (\<forall>cur. voice_ok cur b \<longrightarrow>
     in_step cur ws \<and> (bound = Stay \<longrightarrow> voice_ok (foldl heard cur ws) c))"

lemma says_speaks: "says b (bound, c) \<Longrightarrow> speaks b (queued b c) bound c"
  by (auto simp: says_def speaks_def queued_def)

lemma command_speaks: "command_says b ws c \<Longrightarrow> speaks b (queued b c @ ws) Stay c"
  by (auto simp: command_says_def speaks_def queued_def)

lemma step_speaks:
  assumes "\<not> is_bind op"
  shows "speaks b (step_wires op now b) (step_bound op now b) (snd (fixp_step op now b))"
proof -
  let ?lost = "with_session release_binding_state (with_core core_transport_closed b)"
  have lost: "speaks b (queued b ?lost) Unbind ?lost"
    by (simp add: speaks_def queued_def outs_def core_transport_closed_def)
  have pair: "says b r \<Longrightarrow> says b (fst r, snd r)" for r by simp
  show ?thesis
    using assms command_speaks[OF send_application_says, of b now] says_speaks[OF pair[OF on_peer_says]] says_speaks[OF on_application_says]
      says_speaks[OF pair[OF on_timeout_says]] says_speaks[OF terminate_says] says_speaks[OF retransmit_says] says_speaks[OF reject_says]
      says_speaks[OF end_says] lost
    by (cases op) simp_all
qed

lemma rebound_voice: "voice_ok cur (rebound now lk rk b)"
  by (auto simp: voice_ok_def rebound_def session_bind_def release_binding_state_def split: option.splits)

lemma bind_speaks:
  assumes "is_bind op"
  shows "uses (step_wires op now b) b (snd (fixp_step op now b)) \<and> in_step cur (step_wires op now b)
    \<and> (step_bound op now b = Stay \<longrightarrow> voice_ok (foldl heard cur (step_wires op now b)) (snd (fixp_step op now b)))"
proof -
  obtain lk rk nxt where op: "op = BindAgain lk rk nxt" using assms by (cases op) auto
  let ?b = "rebound now lk rk b"
  have "says ?b (fst (on_established nxt now ?b), snd (on_established nxt now ?b))" using on_established_says by simp
  then have sp: "speaks ?b (queued ?b (snd (on_established nxt now ?b))) (fst (on_established nxt now ?b)) (snd (on_established nxt now ?b))"
    by (rule says_speaks)
  have same: "queued ?b c = queued b c" "uses ws ?b c = uses ws b c" for c ws
    by (simp_all add: queued_def outs_def uses_def next_out_def) (simp add: rebound_def session_bind_def)
  show ?thesis
    using sp rebound_voice[of None now lk rk b] by (simp add: op same speaks_def) (simp add: uses_def)
qed

theorem transcript_speaks:
  assumes "transcript live ops b = (ws, live', c)" "live \<longrightarrow> voice_ok cur b"
  shows "uses ws b c \<and> in_step cur ws \<and> (live' \<longrightarrow> voice_ok (foldl heard cur ws) c)"
  using assms
proof (induction ops arbitrary: live b ws cur)
  case Nil
  then show ?case by auto
next
  case (Cons x ops)
  obtain op now where x: "x = (op, now)" by (cases x)
  show ?case
  proof (cases "is_bind op = live")
    case True
    then have "transcript live ops b = (ws, live', c)" using Cons.prems(1) by (simp add: x)
    then show ?thesis using Cons.IH Cons.prems(2) by blast
  next
    case False
    let ?b = "snd (fixp_step op now b)" and ?v = "step_wires op now b"
    obtain vs where rest: "transcript (step_bound op now b = Stay) ops ?b = (vs, live', c)" and ws: "ws = ?v @ vs"
      using Cons.prems(1) False by (auto simp: x split: prod.splits)
    have "uses ?v b ?b \<and> in_step cur ?v \<and> (step_bound op now b = Stay \<longrightarrow> voice_ok (foldl heard cur ?v) ?b)"
      using step_speaks[of op b now] bind_speaks[of op now b cur] Cons.prems(2) False by (cases "is_bind op") (auto simp: speaks_def)
    moreover from this have "uses vs ?b c \<and> in_step (foldl heard cur ?v) vs \<and> (live' \<longrightarrow> voice_ok (foldl heard (foldl heard cur ?v) vs) c)"
      using Cons.IH[OF rest] by blast
    ultimately show ?thesis by (auto simp: ws in_step_append uses_append)
  qed
qed

end
