(* ===== verification/Fixp_Asking.thy ===== *)
theory Fixp_Asking
  imports Fixp_Wire
begin

text \<open>
  Recovery does not idle: while a Recoverable flow is established and something is missing, a request
  is in flight.  Every step that leaves the session bound keeps this.
\<close>

definition asks :: "bound_session \<Rightarrow> bool" where
  "asks b \<longleftrightarrow> (is_established b \<and> se_remote_flow (bs_session b) = FlowRecoverable \<and> se_missing (bs_session b) \<noteq> []
     \<longrightarrow> se_outstanding (bs_session b) \<noteq> None)"

definition still_asks :: "bound \<times> bound_session \<Rightarrow> bool" where
  "still_asks r \<longleftrightarrow> (fst r = Stay \<longrightarrow> asks (snd r))"

lemma still_asks_Stay [simp]: "still_asks (Stay, b) = asks b"
  by (simp add: still_asks_def)

lemma fail_asks [simp]: "still_asks (fail code reason b)" "still_asks (violation reason b)"
  by (simp_all add: still_asks_def)

lemma asks_with [simp]: "asks (with_core f b) = asks b" "asks (leave_sequence b) = asks b" "asks (touch_keepalive now b) = asks b"
  by (simp_all add: asks_def is_established_def leave_sequence_def touch_keepalive_def)

lemma asks_outstanding: "se_outstanding (bs_session b) \<noteq> None \<Longrightarrow> asks b"
  by (simp add: asks_def)

lemma asks_same:
  assumes "asks b" "bi_state (bs_binding c) = BindEstablished \<longrightarrow> bi_state (bs_binding b) = BindEstablished"
    "se_remote_flow (bs_session c) = se_remote_flow (bs_session b)"
    "se_missing (bs_session c) = se_missing (bs_session b)" "se_outstanding (bs_session b) \<noteq> None \<longrightarrow> se_outstanding (bs_session c) \<noteq> None"
  shows "asks c"
  using assms by (auto simp: asks_def is_established_def)

lemma request_missing_asks:
  assumes "recovery_ok (bs_session b)"
  shows "still_asks (request_missing now b)"
proof -
  have "gap_from front < gap_end front" if "se_missing (bs_session b) = front # rest" for front rest
    using assms that by (simp add: recovery_ok_def word_less_nat_alt)
  then have "\<exists>len. checked_sub (gap_end front) (gap_from front) = Some len \<and> len \<noteq> 0"
    if "se_missing (bs_session b) = front # rest" for front rest
    using that by (auto simp: checked_sub_def order.strict_iff_order)
  then show ?thesis
    by (fastforce simp: request_missing_def Let_def asks_def split: list.split option.split sum.split prod.split)
qed

lemma maybe_finish_asks: "asks b \<Longrightarrow> asks (maybe_finish_receiving b)"
  by (auto simp: maybe_finish_receiving_def asks_def is_established_def leave_sequence_def split: option.splits)

lemma after_range_asks: "recovery_ok (bs_session b) \<Longrightarrow> still_asks (after_range now b)"
proof (cases "se_missing (bs_session b) = []")
  case True
  then have "asks (with_core (core_event EvRecoveryComplete) b)" by (simp add: asks_def)
  then show ?thesis using True maybe_finish_asks by (simp add: after_range_def)
qed (simp add: after_range_def request_missing_asks)

lemma complete_outstanding_asks:
  assumes ok: "recovery_ok (bs_session b)" and r: "se_outstanding (bs_session b) = Some r"
  shows "still_asks (complete_outstanding now b)"
proof -
  have "recovery_ok ((consume_missing (ucast (or_count r)) ((bs_session b)\<lparr>se_outstanding := None\<rparr>))\<lparr>se_replay := None\<rparr>)"
    using consume_missing_cleared(1)[OF ok r order_refl] cleared_ok[OF ok r order_refl] by simp
  then show ?thesis unfolding complete_outstanding_def by (intro after_range_asks) (simp add: r)
qed

lemma other_flow_asks: "settles A b c \<Longrightarrow> se_remote_flow (bs_session b) \<noteq> FlowRecoverable \<Longrightarrow> asks c"
  by (simp add: asks_def advances_def)

lemma on_gap_asks:
  assumes ok: "recovery_ok (bs_session b)" and at: "se_inbound_next (bs_session b) = Some expected" "expected < nxt"
    and start: "\<not> se_start_pending (bs_session b)"
  shows "still_asks (on_gap expected nxt count now b)"
proof (cases "se_remote_flow (bs_session b) = FlowRecoverable")
  case False
  then show ?thesis using on_gap_settles[OF ok at start] other_flow_asks by (fastforce simp: still_asks_def)
next
  case True
  let ?b = "with_core (core_event (EvSequenceGap expected count)) b"
  obtain taken s where r: "record_gap (config_of ?b) expected nxt (bs_session b) = (taken, s)" by (cases "record_gap (config_of ?b) expected nxt (bs_session b)")
  have "still_asks (request_missing now (?b\<lparr>bs_session := s\<lparr>se_inbound_next := Some nxt\<rparr>\<rparr>))" if taken
    using gap_recorded[OF ok at True start r] that by (intro request_missing_asks) (simp add: advances_def)
  then show ?thesis by (simp add: on_gap_def Let_def True r split: bool.split prod.split)
qed

lemma on_next_seq_asks:
  assumes ok: "recovery_ok (bs_session b)" and asks: "asks b"
  shows "still_asks (on_next_seq nxt now b)"
proof -
  let ?b = "with_session (cut_replay now) b"
  have ok': "recovery_ok (bs_session ?b)" using advances_ok[OF cut_replay_advances[OF ok]] by simp
  have kept: "se_outstanding s \<noteq> None \<longrightarrow> se_outstanding (cut_replay now s) \<noteq> None" for s
    by (auto simp: cut_replay_def Let_def split: option.splits)
  have "asks ?b" "asks (with_session (\<lambda>s. s\<lparr>se_start_pending := False, se_inbound_next := Some nxt\<rparr>) ?b)"
    "asks (with_session (\<lambda>s. s\<lparr>se_inbound_next := Some nxt\<rparr>) ?b)"
    using kept by (auto intro!: asks_same[OF asks])
  moreover have "still_asks (on_gap expected nxt count now ?b)"
    if "se_inbound_next (bs_session b) = Some expected" "checked_sub nxt expected = Some count" "count \<noteq> 0" "\<not> se_start_pending (bs_session b)"
    for expected count
    using that by (intro on_gap_asks[OF ok']) (auto simp: checked_simps order.strict_iff_order)
  ultimately show ?thesis
    by (simp add: on_next_seq_def Let_def split: option.split)
qed

lemma on_application_asks:
  assumes ok: "recovery_ok (bs_session b)" and asks: "asks b"
  shows "still_asks (snd (fst (on_application now b)), snd (on_application now b))"
proof (cases "se_replay (bs_session b)")
  case None
  let ?b = "with_binding (\<lambda>bi. bi\<lparr>bi_last_received := now\<rparr>) b"
  have live: "asks ?b" by (rule asks_same[OF asks]) simp_all
  have taken: "asks (with_session (\<lambda>s. s\<lparr>se_inbound_next := k\<rparr>) (with_session (\<lambda>s. s\<lparr>se_start_pending := False\<rparr>) ?b))" for k
    by (rule asks_same[OF asks]) simp_all
  show ?thesis
    using None asks live taken by (simp add: on_application_def Let_def case_prod_beta still_asks_def split: bind_state.split option.split)
next
  case (Some p)
  let ?b = "with_binding (\<lambda>bi. bi\<lparr>bi_last_received := now\<rparr>) b"
  show ?thesis
  proof (cases "checked_add (rp_next p) 1")
    case None
    then show ?thesis using Some asks by (simp add: on_application_def Let_def case_prod_beta still_asks_def split: bind_state.split)
  next
    case no: (Some following)
    obtain complete s1 where r1: "replayed p following now (bs_session b) = (complete, s1)" by (cases "replayed p following now (bs_session b)")
    obtain duplicate t where r2: "received_in_overflow (rp_next p) s1 = (duplicate, t)" by (cases "received_in_overflow (rp_next p) s1")
    obtain r where r: "se_outstanding t = Some r" "advances {unat (rp_next p)} (bs_session b) t"
      using replayed_step[OF ok Some r1 r2 no] by blast
    have "still_asks (complete_outstanding now (?b\<lparr>bs_session := t\<rparr>))" "asks (?b\<lparr>bs_session := t\<rparr>)"
      using complete_outstanding_asks[of "?b\<lparr>bs_session := t\<rparr>" r] r advances_ok[OF r(2)] by (simp_all add: asks_def)
    then show ?thesis
      using Some asks by (simp add: on_application_def Let_def case_prod_beta still_asks_def no r1 r2 split: bind_state.split)
  qed
qed

lemma on_retransmission_asks: "asks b \<Longrightarrow> still_asks (on_retransmission m now b)"
  by (auto simp: on_retransmission_def Let_def intro!: asks_outstanding split: option.split)

lemma on_retransmit_reject_asks:
  assumes ok: "recovery_ok (bs_session b)" and asks: "asks b"
  shows "still_asks (on_retransmit_reject m now b)"
proof -
  have "still_asks (after_range now (with_session (\<lambda>s. consume_missing (ucast (or_count r)) (s\<lparr>se_outstanding := None, se_replay := None\<rparr>)) (with_core f b)))"
    if "se_outstanding (bs_session b) = Some r" for r f
    using cleared_ok[OF ok that order_refl] consume_missing_cleared(2)[OF ok that order_refl] by (intro after_range_asks) simp
  then show ?thesis using asks by (simp add: on_retransmit_reject_def Let_def split: option.split)
qed

lemma on_retransmit_request_asks: "asks b \<Longrightarrow> still_asks (on_retransmit_request m b)"
  using asks_same[of b "with_session (\<lambda>s. s\<lparr>se_provider := p\<rparr>) b" for p]
  by (simp add: on_retransmit_request_def Let_def refuse_retransmit_def)

lemma on_terminate_asks: "asks b \<Longrightarrow> still_asks (on_terminate m now b)"
  by (simp add: on_terminate_def still_asks_def asks_def is_established_def split: bind_state.split)

lemma on_finished_sending_asks:
  assumes ok: "recovery_ok (bs_session b)" and asks: "asks b"
  shows "still_asks (on_finished_sending m now b)"
proof -
  have finish: "asks (maybe_finish_receiving (with_session (\<lambda>s. s\<lparr>se_peer_finished := q\<rparr>) (with_core f c)))" if "asks c" for q f c
    by (rule maybe_finish_asks, rule asks_same[OF that]) simp_all
  have "asks c" if "on_next_seq n now (with_core f b) = (Stay, c)" for n f c
    using on_next_seq_asks[of "with_core f b" n now] ok asks that by (simp add: still_asks_def)
  then have "still_asks (case on_next_seq n now (with_core f b) of (Unbind, b2) \<Rightarrow> (Unbind, b2)
      | (Stay, b2) \<Rightarrow> (Stay, maybe_finish_receiving (with_session (\<lambda>s. s\<lparr>se_peer_finished := q\<rparr>) b2)))" for n f q
    using finish[of _ q id] by (auto simp: still_asks_def with_core_def split: prod.split bound.split)
  then show ?thesis
    using asks finish by (simp add: on_finished_sending_def Let_def split: option.split)
qed

lemma on_numbered_report_asks:
  assumes "recovery_ok (bs_session b)" "asks b"
  shows "still_asks (on_numbered_report ev now b)"
proof -
  obtain d bound c where r: "on_application now b = ((d, bound), c)" by (metis surj_pair)
  then show ?thesis
    using on_application_asks[OF assms, of now] by (cases d) (simp_all add: on_numbered_report_def still_asks_def r)
qed

lemma on_peer_asks:
  assumes ok: "recovery_ok (bs_session b)" and asks: "asks b"
  shows "still_asks (on_peer m now b)"
proof -
  let ?b = "with_binding (\<lambda>bi. bi\<lparr>bi_last_received := now\<rparr>) b"
  have a: "asks ?b" by (rule asks_same[OF asks]) simp_all
  have o: "recovery_ok (bs_session ?b)" using ok by simp
  have "still_asks (on_peer_live m now ?b)"
    using a on_next_seq_asks[OF o a] on_retransmission_asks[OF a] on_retransmit_reject_asks[OF o a] on_retransmit_request_asks[OF a]
      on_terminate_asks[OF a] on_finished_sending_asks[OF o a] on_numbered_report_asks[OF o a]
    by (cases m) (simp_all add: on_peer_live_def)
  then show ?thesis using asks by (simp add: on_peer_def split: bind_state.split)
qed

subsection \<open>Timeouts, commands, binding\<close>

lemma on_timeout_asks:
  assumes ok: "recovery_ok (bs_session b)" and asks: "asks b"
  shows "still_asks (on_timeout now b)"
proof -
  have re: "still_asks (re_request r now (with_core f b))" if "se_outstanding (bs_session b) = Some r" for r f
    using cleared_ok[OF ok that request_okD(2)[OF ok that]] consume_missing_cleared(2)[OF ok that request_okD(2)[OF ok that]]
    unfolding re_request_def by (intro request_missing_asks) simp
  have noted: "asks (with_session (\<lambda>s. s\<lparr>se_outstanding := map_option g (se_outstanding s)\<rparr>) (with_core f b))" for f g
    by (rule asks_same[OF asks]) simp_all
  have stall: "still_asks (on_stall r now b)" if "se_outstanding (bs_session b) = Some r" for r
    using re[OF that] noted by (simp add: on_stall_def Let_def split: retransmit_stall_policy.split)
  have beat: "asks (heartbeat now c) = asks c" for c
    by (simp add: heartbeat_def asks_def is_established_def touch_keepalive_def)
  have pre: "still_asks (case se_outstanding (bs_session b) of Some o' \<Rightarrow> if due (stall_deadline b) now then on_stall o' now b else (Stay, b)
      | None \<Rightarrow> (Stay, b))"
    using stall asks by (simp split: option.split)
  have "still_asks (case r of (Unbind, c) \<Rightarrow> (Unbind, c) | (Stay, c) \<Rightarrow> (Stay, if q c then heartbeat now c else c))" if "still_asks r" for r q
    using that beat by (cases r; cases "fst r") (auto simp: still_asks_def)
  note later = this[OF pre]
  show ?thesis
    using asks later[of "\<lambda>c. due (heartbeat_deadline c) now"]
    by (simp add: on_timeout_def) (simp add: still_asks_def split: bind_state.split)
qed

lemma on_established_asks:
  assumes ok: "recovery_ok (bs_session b)"
  shows "still_asks (on_established nxt now b)"
proof -
  define pre where "pre = (case nxt of
      Some n \<Rightarrow> if is_sequenced (se_remote_flow (bs_session b)) then on_next_seq n now b else (Stay, b) | None \<Rightarrow> (Stay, b))"
  obtain bound1 b1 where p: "pre = (bound1, b1)" by (cases pre)
  have "recovery_ok (bs_session (snd pre))"
    using ok advances_ok[OF on_next_seq_settles[OF ok, of _ now]] by (simp add: pre_def split: option.split)
  then have "still_asks (request_missing now b1)" using request_missing_asks p by simp
  then show ?thesis
    using p maybe_finish_asks unfolding on_established_def pre_def[symmetric]
    by (auto simp: still_asks_def split: bound.split prod.split)
qed

lemma command_asks:
  assumes asks: "asks b"
  shows "asks (snd (send_application now b))" "asks (snd (terminate code reason now b)) \<or> ended (fst (terminate code reason now b)) = Unbind"
    "asks (snd (retransmit n now b))" "asks (snd (reject_retransmit_request rcode reason b))" "asks (snd (end_retransmission b))"
proof -
  have w: "asks (with_session (\<lambda>s. s\<lparr>se_provider := q\<rparr>) c)" "asks (with_session (\<lambda>s. s\<lparr>se_outbound_next := k\<rparr>) c)"
    "asks (with_session (\<lambda>s. s\<lparr>se_outbound_next := k\<rparr>) (with_binding (\<lambda>bi. bi\<lparr>bi_in_sequence := True\<rparr>) c))" if "asks c" for q k c
    using that by (simp_all add: asks_def is_established_def)
  show "asks (snd (send_application now b))"
    using asks w(2,3) by (auto simp: send_application_def thenS_def allocate_outbound_def Let_def
      split: flow_type.splits sum.splits prod.splits option.splits if_splits)
  show "asks (snd (terminate code reason now b)) \<or> ended (fst (terminate code reason now b)) = Unbind"
    using asks by (auto simp: terminate_def thenS_def liftS_def Let_def asks_def is_established_def split: sum.splits prod.splits)
  show "asks (snd (retransmit n now b))"
    using asks w(1) by (auto simp: retransmit_def thenS_def Let_def split: sum.splits prod.splits option.splits)
  show "asks (snd (reject_retransmit_request rcode reason b))"
    using asks w(1) by (auto simp: reject_retransmit_request_def thenS_def liftS_def Let_def split: sum.splits prod.splits option.splits)
  show "asks (snd (end_retransmission b))"
    using asks w(1) by (auto simp: end_retransmission_def thenS_def split: sum.splits prod.splits option.splits)
qed

lemma step_asks:
  assumes ok: "recovery_ok (bs_session b)" and asks: "\<not> is_bind op \<longrightarrow> asks b" and stay: "step_bound op now b = Stay"
  shows "asks (snd (fixp_step op now b))"
proof (cases "is_bind op")
  case True
  then obtain lk rk nxt where op: "op = BindAgain lk rk nxt" by (cases op) auto
  have "recovery_ok (bs_session (rebound now lk rk b))" using advances_ok[OF release_advances[OF ok]] by simp
  then show ?thesis using on_established_asks[of "rebound now lk rk b" nxt now] stay by (simp add: op still_asks_def)
next
  case False
  then have a: "asks b" using asks by simp
  have "asks (snd (terminate code reason now b))" if "ended (fst (terminate code reason now b)) = Stay" for code reason
    using command_asks(2)[OF a, of code reason now] that by auto
  then show ?thesis
    using False stay on_peer_asks[OF ok a] on_application_asks[OF ok a, of now] on_timeout_asks[OF ok a, of now] command_asks(1,3-5)[OF a]
    by (cases op) (auto simp: still_asks_def)
qed

theorem transcript_asks:
  assumes "transcript live ops b = (ws, True, c)" "recovery_ok (bs_session b)" "live \<longrightarrow> asks b"
  shows "asks c \<and> recovery_ok (bs_session c) \<and> se_remote_flow (bs_session c) = se_remote_flow (bs_session b)"
  using assms
proof (induction ops arbitrary: live b ws)
  case Nil
  then show ?case by simp
next
  case (Cons x ops)
  obtain op now where x: "x = (op, now)" by (cases x)
  show ?case
  proof (cases "is_bind op = live")
    case True
    then have "transcript live ops b = (ws, True, c)" using Cons.prems(1) by (simp add: x)
    then show ?thesis using Cons.IH Cons.prems(2,3) by blast
  next
    case False
    let ?b = "snd (fixp_step op now b)"
    obtain vs where rest: "transcript (step_bound op now b = Stay) ops ?b = (vs, True, c)"
      using Cons.prems(1) False by (auto simp: x split: prod.splits)
    have "step_ok (fst (fixp_step op now b)) (dropped_by op b ?b) b ?b" by (rule fixp_step_ok[OF Cons.prems(2)]) simp
    then have "recovery_ok (bs_session ?b)" "se_remote_flow (bs_session ?b) = se_remote_flow (bs_session b)"
      by (simp_all add: step_ok_def advances_def)
    moreover have "step_bound op now b = Stay \<longrightarrow> asks ?b"
      using step_asks[OF Cons.prems(2), of op now] Cons.prems(3) False by blast
    ultimately show ?thesis using Cons.IH[OF rest] by simp
  qed
qed

end
