(* ===== verification/Fixp_Properties.thy ===== *)
theory Fixp_Properties
  imports Fixp_Asking
begin

text \<open>The properties of the FIXP session machine, over runs of any operations and any number of transports.\<close>

definition fresh_session :: "session_id \<Rightarrow> flow_type \<Rightarrow> flow_type \<Rightarrow> fixp_core \<Rightarrow> binding \<Rightarrow> bound_session" where
  "fresh_session i local_flow remote_flow c bi =
    \<lparr>bs_core = c, bs_session = session_new i local_flow remote_flow, bs_binding = bi\<rparr>"

lemma fresh_session_ok: "recovery_ok (bs_session (fresh_session i lf rf c bi))"
  by (simp add: fresh_session_def session_new_ok)

text \<open>
  Exactly once: whatever arrives, is commanded or times out, over any number of transports, a
  session never hands up two application messages with the same sequence number, live or retransmitted.
\<close>

theorem fixp_delivers_once: "distinct (fst (fixp_run ops (fresh_session i lf rf c bi)))"
proof -
  obtain ns D b' where r: "fixp_run ops (fresh_session i lf rf c bi) = (ns, D, b')" by (metis surj_pair)
  then show ?thesis using fixp_run_settles[OF fresh_session_ok r] by simp
qed

text \<open>
  C8. Nothing is lost on a Recoverable flow: every number below the next expected one was handed up, or
  was given up for a stated reason (the start of the numbering, a refused request), or is still awaited,
  and what is awaited was neither handed up nor given up.
\<close>

theorem fixp_nothing_lost:
  "case fixp_run ops (fresh_session i lf FlowRecoverable c bi) of
     (ns, D, b') \<Rightarrow> {..<next_in (bs_session b')} - awaited (bs_session b') = {0} \<union> set ns \<union> D
       \<and> awaited (bs_session b') \<subseteq> {..<next_in (bs_session b')}"
proof -
  obtain ns D b' where r: "fixp_run ops (fresh_session i lf FlowRecoverable c bi) = (ns, D, b')" by (metis surj_pair)
  have adv: "settles (set ns \<union> D) (fresh_session i lf FlowRecoverable c bi) b'"
    using fixp_run_settles[OF fresh_session_ok r] by simp
  then have "settled (bs_session b') = {0} \<union> (set ns \<union> D)" "recovery_ok (bs_session b')"
    by (simp_all add: advances_def fresh_session_def session_new_settled)
  moreover have "{..<next_in s} - awaited s = settled s" for s by (auto simp: settled_def)
  ultimately show ?thesis using awaited_below[of "bs_session b'"] by (auto simp: r)
qed

text \<open>
  C9. Both sides agree on the numbers: application messages carry none, and the count a counterparty
  keeps from the last Sequence is, at every application message of every transport, the number the
  session gave it.
\<close>

theorem fixp_numbering_agrees: "in_step None (fst (transcript False ops b))"
proof -
  obtain ws live c where r: "transcript False ops b = (ws, live, c)" by (metis surj_pair)
  then show ?thesis using transcript_speaks[OF r] by simp
qed

text \<open>
  C38. Outbound numbers are used in order, each once and without a hole, across all transports: those on
  the wire are the ones from the first to the next outbound number.
\<close>

theorem fixp_numbers_consecutive:
  "case transcript False ops b of (ws, live, c) \<Rightarrow> numbers ws = [next_out b..<next_out c]"
proof -
  obtain ws live c where r: "transcript False ops b = (ws, live, c)" by (metis surj_pair)
  then show ?thesis using transcript_speaks[OF r] by (simp add: uses_def)
qed

text \<open>
  C10. Recovery does not idle: while a Recoverable flow is established and numbers are missing, a
  RetransmitRequest is in flight, and it asks for the front of the first gap and no further than its end.
\<close>

theorem fixp_recovery_asks:
  assumes "transcript False ops (fresh_session i lf FlowRecoverable c bi) = (ws, True, b)" "is_established b"
    "se_missing (bs_session b) \<noteq> []"
  shows "\<exists>r. se_outstanding (bs_session b) = Some r \<and> or_from r = gap_from (hd (se_missing (bs_session b)))
    \<and> unat (or_from r) + unat (or_count r) \<le> unat (gap_end (hd (se_missing (bs_session b))))"
proof -
  have "asks b \<and> recovery_ok (bs_session b) \<and> se_remote_flow (bs_session b) = FlowRecoverable"
    using transcript_asks[OF assms(1) fresh_session_ok] by (simp add: fresh_session_def session_new_def)
  moreover from this obtain r where "se_outstanding (bs_session b) = Some r" using assms by (auto simp: asks_def)
  ultimately show ?thesis by (auto simp: recovery_ok_def request_ok_def)
qed

definition sample_config :: fixp_config where
  "sample_config = \<lparr>cf_keepalive_interval = 10, cf_keepalive_millis = 1, cf_min_peer_keepalive = 1, cf_max_peer_keepalive = 100,
     cf_peer_silence_grace = None, cf_max_retransmit_count = 3, cf_max_pending_gaps = 2, cf_max_gap_len = 100,
     cf_retransmit_timeout = 5, cf_retransmit_stall_policy = EventOnly, cf_handshake_timeout = 10\<rparr>"

definition sample_core :: fixp_core where
  "sample_core = core_new sample_config \<lparr>rc_anchor = \<lparr>ca_instant = 0, ca_wall = 7\<rparr>, rc_last = None\<rparr>"

definition idle_binding :: binding where
  "idle_binding = \<lparr>bi_state = BindEstablished, bi_local_keepalive = 10, bi_remote_keepalive = 10, bi_last_keepalive = 0,
     bi_last_received = 0, bi_in_sequence = False\<rparr>"

text \<open>A session that starts at 1 and is told that the next number is 5 asks for three of the four.\<close>

definition sample_ops :: "(fixp_op \<times> instant) list" where
  "sample_ops = [(BindAgain 10 10 (Some 1), 0), (ReceivePeer (PeerSequence \<lparr>sq_next_seq_no = 5\<rparr>), 0)]"

lemmas sample_run = sample_ops_def sample_core_def sample_config_def idle_binding_def core_new_def fresh_session_def session_new_def
  rebound_def session_bind_def release_binding_state_def on_established_def on_next_seq_def cut_replay_def request_missing_def
  maybe_finish_receiving_def is_established_def on_peer_def on_peer_live_def on_gap_def record_gap_def config_of_def with_core_def
  with_session_def with_binding_def core_event_def core_output_def core_send_def leave_sequence_def request_timestamp_def
  request_clock_next_def nanotime_at_def duration_since_def checked_add_def checked_sub_def queued_def wires_def outs_def
  report_number_def Let_def

lemma sample_transcript:
  "transcript False sample_ops (fresh_session [] FlowRecoverable FlowRecoverable sample_core idle_binding) = (ws, live, b) \<Longrightarrow>
     live \<and> is_established b \<and> se_missing (bs_session b) = [\<lparr>gap_from = 1, gap_end = 5\<rparr>]"
  by (auto simp: sample_run)

theorem fixp_recovery_asks_witness:
  "\<exists>r. se_outstanding (bs_session (snd (snd (transcript False sample_ops
      (fresh_session [] FlowRecoverable FlowRecoverable sample_core idle_binding))))) = Some r \<and> or_from r = 1 \<and> unat (or_count r) \<le> 4"
proof -
  obtain ws live b where r: "transcript False sample_ops (fresh_session [] FlowRecoverable FlowRecoverable sample_core idle_binding) = (ws, live, b)"
    by (metis surj_pair)
  note s = sample_transcript[OF r]
  have "\<exists>r. se_outstanding (bs_session b) = Some r \<and> or_from r = gap_from (hd (se_missing (bs_session b)))
    \<and> unat (or_from r) + unat (or_count r) \<le> unat (gap_end (hd (se_missing (bs_session b))))"
    by (rule fixp_recovery_asks) (use r s in simp_all)
  then show ?thesis using s by (auto simp: r)
qed

text \<open>
  C39. A retransmission offers only numbers that were sent, starting at 1, and no more of them than the
  limit on one request.
\<close>

theorem fixp_retransmit_within_sent:
  assumes "transcript False ops (fresh_session i lf rf c bi) = (ws, True, b)" "retransmit n now b = (Inr batch, b')"
  shows "1 \<le> unat (rb_from batch) \<and> unat (rb_from batch) + unat (rb_count batch) \<le> next_out b
    \<and> rb_count batch \<le> cf_max_retransmit_count (config_of b)"
proof -
  have v: "\<exists>cur. voice_ok cur b" using transcript_speaks[OF assms(1)] by auto
  obtain p left where p: "se_provider (bs_session b) = Some p" and l: "checked_sub (pv_count p) (pv_sent p) = Some left" "\<not> left < n"
    and f: "checked_add (pv_from p) (ucast (pv_sent p)) = Some (rb_from batch)" "rb_count batch = n"
    using assms(2) by (auto simp: retransmit_def result_simps Let_def split: option.splits if_splits)
  have "unat n \<le> unat (pv_count p) - unat (pv_sent p)"
    using l unat_checked_sub[OF l(1)] by (simp add: word_less_nat_alt)
  moreover have "provider_ok (config_of b) (se_outbound_next (bs_session b)) p" using v p by (auto simp: voice_ok_def)
  ultimately show ?thesis
    using unat_checked_add[OF f(1)] by (auto simp: f(2) provider_ok_def next_out_def word_le_nat_alt)
qed

definition served_ops :: "(fixp_op \<times> instant) list" where
  "served_ops = [(BindAgain 10 10 (Some 1), 0), (SendApplication, 1), (SendApplication, 1), (SendApplication, 1),
     (ReceivePeer (PeerRetransmitRequest \<lparr>rq_session_id = [], rq_timestamp = 9, rq_from_seq_no = 2, rq_count = 2\<rparr>), 2)]"

lemmas served_run = sample_run served_ops_def send_application_def thenS_def require_established_def finished_receiving_sent_def
  allocate_outbound_def touch_keepalive_def on_retransmit_request_def retransmit_def SEQ_NULL_def

lemma served_transcript:
  "transcript False served_ops (fresh_session [] FlowRecoverable FlowRecoverable sample_core idle_binding) = (ws, live, b) \<Longrightarrow>
     live \<and> (\<exists>b'. retransmit 2 3 b = (Inr \<lparr>rb_from = 2, rb_count = 2\<rparr>, b')) \<and> next_out b = 4"
  by (auto simp: served_run next_out_def)

theorem fixp_retransmit_within_sent_witness:
  "\<exists>ws b b' batch. transcript False served_ops (fresh_session [] FlowRecoverable FlowRecoverable sample_core idle_binding) = (ws, True, b)
     \<and> retransmit 2 3 b = (Inr batch, b') \<and> unat (rb_from batch) + unat (rb_count batch) \<le> 4"
proof -
  obtain ws live b where r: "transcript False served_ops (fresh_session [] FlowRecoverable FlowRecoverable sample_core idle_binding) = (ws, live, b)"
    by (metis surj_pair)
  obtain b' where s: live "retransmit 2 3 b = (Inr \<lparr>rb_from = 2, rb_count = 2\<rparr>, b')" "next_out b = 4"
    using served_transcript[OF r] by blast
  have r': "transcript False served_ops (fresh_session [] FlowRecoverable FlowRecoverable sample_core idle_binding) = (ws, True, b)"
    using r s(1) by simp
  show ?thesis using r' s(2) fixp_retransmit_within_sent[OF r' s(2)] s(3) by auto
qed

subsection \<open>Timers\<close>

lemma earliest_bound: "(\<forall>d. earliest xs = Some d \<longrightarrow> now < d) \<Longrightarrow> Some e \<in> set xs \<Longrightarrow> now < e"
proof -
  have fold_min: "fold min ys (y :: nat) \<le> y \<and> (\<forall>z\<in>set ys. fold min ys y \<le> z)" for ys y
  proof (induction ys arbitrary: y)
    case (Cons z zs)
    show ?case using Cons.IH[of "min z y"] by auto
  qed simp
  assume no: "\<forall>d. earliest xs = Some d \<longrightarrow> now < d" and e: "Some e \<in> set xs"
  then have "e \<in> set (List.map_filter (\<lambda>x. x) xs)" by (auto simp: map_filter_def intro!: image_eqI[of _ _ "Some e"])
  then show "now < e"
    using no fold_min by (cases "List.map_filter (\<lambda>x. x) xs") (auto simp: earliest_def dest: order_less_le_trans)
qed

text \<open>
  C40. A timer never fires early: as long as the deadline the session announces has not come, a timeout
  changes nothing and sends nothing.
\<close>

theorem fixp_no_early_timeout:
  assumes "\<forall>d. next_deadline b = Some d \<longrightarrow> now < d"
  shows "on_timeout now b = (Stay, b)"
proof -
  have quiet: "\<not> due q now" if "bi_state (bs_binding b) = BindEstablished" "q \<in> {silence_deadline b, heartbeat_deadline b, stall_deadline b}" for q
  proof (cases q)
    case (Some e)
    have "now < e"
      by (rule earliest_bound[of "[silence_deadline b, heartbeat_deadline b, stall_deadline b]"])
        (use assms that Some in \<open>auto simp: next_deadline_def\<close>)
    then show ?thesis by (simp add: due_def Some)
  qed (simp add: due_def)
  have other: "\<not> due q now" if "next_deadline b = q" for q
    using assms that by (auto simp: due_def split: option.splits)
  show ?thesis
    using quiet other by (auto simp: on_timeout_def next_deadline_def split: bind_state.split option.split)
qed

theorem fixp_no_early_timeout_witness:
  "on_timeout 9 (fresh_session [] FlowRecoverable FlowRecoverable sample_core idle_binding) =
     (Stay, fresh_session [] FlowRecoverable FlowRecoverable sample_core idle_binding)"
  by (rule fixp_no_early_timeout)
     (auto simp: fresh_session_def session_new_def idle_binding_def sample_core_def sample_config_def core_new_def next_deadline_def
       silence_deadline_def heartbeat_deadline_def stall_deadline_def config_of_def earliest_def instant_add_def duration_add_def
       map_filter_def split: if_splits)

end
