(* ===== verification/Fixp_Roles.thy ===== *)
theory Fixp_Roles
  imports Fixp_Session
begin

text \<open>
  The two roles of a FIXP session around \<open>Fixp_Session\<close>: the client (\<^verbatim>\<open>client.rs\<close>), the server
  (\<^verbatim>\<open>server.rs\<close>) and the interface both share, which the code writes once as a macro
  (\<^verbatim>\<open>role.rs\<close>) over three private methods of a role.  Here it is written once over a \<open>fixp_role\<close>, the
  record of those methods.  The code takes a role's state out of \<^verbatim>\<open>self\<close>, computes the next one and
  puts it back; a handler here takes the state and returns the next one with \<open>self\<close>.
\<close>

definition elapsed :: "instant \<Rightarrow> duration \<Rightarrow> instant \<Rightarrow> bool" where
  "elapsed since timeout now \<longleftrightarrow> due (instant_add since timeout) now"

definition joined :: "fixp_core \<Rightarrow> fixp_session \<Rightarrow> binding \<Rightarrow> bound_session" where
  "joined c s bi = \<lparr>bs_core = c, bs_session = s, bs_binding = bi\<rparr>"

subsection \<open>What both roles offer\<close>

record 'r fixp_role =
  ro_parts :: "'r \<Rightarrow> bound_session option"
  ro_put :: "bound_session \<Rightarrow> 'r \<Rightarrow> 'r"
  ro_status :: "'r \<Rightarrow> session_status"
  ro_after :: "bound \<Rightarrow> 'r \<Rightarrow> 'r"
  ro_before :: "'r \<Rightarrow> 'r"
  ro_session :: "'r \<Rightarrow> fixp_session option"

definition bound_parts :: "'r fixp_role \<Rightarrow> string \<Rightarrow> 'r \<Rightarrow> fixp_error + bound_session" where
  "bound_parts ro operation r = ok_or (InvalidState operation (ro_status ro r)) (ro_parts ro r)"

definition on_bound_parts :: "'r fixp_role \<Rightarrow> string \<Rightarrow> (bound_session, fixp_error, 'a) fallible \<Rightarrow> ('r, fixp_error, 'a) fallible" where
  "on_bound_parts ro operation f r =
    (case bound_parts ro operation r of
       Inl e \<Rightarrow> (Inl e, r)
     | Inr b \<Rightarrow> (case f b of (res, b1) \<Rightarrow> (res, ro_put ro b1 r)))"

definition role_on_application :: "'r fixp_role \<Rightarrow> instant \<Rightarrow> 'r \<Rightarrow> delivery \<times> 'r" where
  "role_on_application ro now r =
    (case bound_parts ro ''on_application_message'' r of
       Inr b \<Rightarrow>
         if fc_transport_closing (bs_core b)
         then (Discard, ro_put ro (with_core (core_ignore APPLICATION_MESSAGE ''the transport is closing'') b) r)
         else (case on_application now b of ((d, bound), b1) \<Rightarrow> (d, ro_after ro bound (ro_put ro b1 r)))
     | Inl _ \<Rightarrow> (Discard, ro_before ro r))"

definition role_send_application :: "'r fixp_role \<Rightarrow> instant \<Rightarrow> ('r, fixp_error, u64 option) fallible" where
  "role_send_application ro now = on_bound_parts ro ''send_application'' (send_application now)"

definition role_terminate :: "'r fixp_role \<Rightarrow> termination_code \<Rightarrow> bytes \<Rightarrow> instant \<Rightarrow> ('r, fixp_error, unit) fallible" where
  "role_terminate ro code reason now =
    thenS (on_bound_parts ro ''terminate'' (terminate code reason now)) (\<lambda>bound r. (Inr (), ro_after ro bound r))"

definition role_retransmit :: "'r fixp_role \<Rightarrow> u32 \<Rightarrow> instant \<Rightarrow> ('r, fixp_error, retransmit_batch) fallible" where
  "role_retransmit ro count now = on_bound_parts ro ''retransmit'' (retransmit count now)"

definition role_reject_retransmit :: "'r fixp_role \<Rightarrow> retransmit_reject_code \<Rightarrow> bytes \<Rightarrow> ('r, fixp_error, unit) fallible" where
  "role_reject_retransmit ro code reason =
    on_bound_parts ro ''reject_retransmit_request'' (reject_retransmit_request code reason)"

definition role_end_retransmission :: "'r fixp_role \<Rightarrow> ('r, fixp_error, unit) fallible" where
  "role_end_retransmission ro = on_bound_parts ro ''end_retransmission'' end_retransmission"

definition next_outbound_seq :: "fixp_session \<Rightarrow> u64 option" where
  "next_outbound_seq s = (if is_sequenced (se_local_flow s) then Some (se_outbound_next s) else None)"

definition next_inbound_seq :: "fixp_session \<Rightarrow> u64 option" where
  "next_inbound_seq s = se_inbound_next s"

definition role_next_outbound :: "'r fixp_role \<Rightarrow> 'r \<Rightarrow> u64 option" where
  "role_next_outbound ro r = Option.bind (ro_session ro r) next_outbound_seq"

definition role_next_inbound :: "'r fixp_role \<Rightarrow> 'r \<Rightarrow> u64 option" where
  "role_next_inbound ro r = Option.bind (ro_session ro r) next_inbound_seq"

definition role_pending_recovery :: "'r fixp_role \<Rightarrow> 'r \<Rightarrow> bool" where
  "role_pending_recovery ro r = (case ro_session ro r of Some s \<Rightarrow> has_pending_recovery s | None \<Rightarrow> False)"

subsection \<open>The client\<close>

datatype client_closed = CcNegotiationRejected | CcNegotiationTimedOut | CcUnnegotiated | CcProtocolViolation
  | CcTransportClosed | CcFinalized

datatype client_state =
    ClIdle
  | ClNegotiating nanotime instant
  | ClNegotiated fixp_session
  | ClEstablishing fixp_session nanotime instant
  | ClBound fixp_session binding
  | ClClosed client_closed

fun client_status :: "client_state \<Rightarrow> session_status" where
  "client_status ClIdle = StIdle"
| "client_status (ClNegotiating _ _) = StNegotiating"
| "client_status (ClNegotiated _) = StNegotiated"
| "client_status (ClEstablishing _ _ _) = StEstablishing"
| "client_status (ClBound _ bi) = binding_status (bi_state bi)"
| "client_status (ClClosed reason) = (if reason = CcFinalized then StFinalized else StClosed)"

record fixp_client =
  cl_core :: fixp_core
  cl_session_id :: session_id
  cl_flow :: flow_type
  cl_credentials :: "bytes option"
  cl_state :: client_state

definition client_new :: "fixp_config \<Rightarrow> clock_anchor \<Rightarrow> session_id \<Rightarrow> flow_type \<Rightarrow> bytes option \<Rightarrow> fixp_client" where
  "client_new config clock i flow credentials =
    \<lparr>cl_core = core_new config \<lparr>rc_anchor = clock, rc_last = None\<rparr>, cl_session_id = i, cl_flow = flow,
     cl_credentials = credentials, cl_state = ClIdle\<rparr>"

definition client_core :: "(fixp_core \<Rightarrow> fixp_core) \<Rightarrow> fixp_client \<Rightarrow> fixp_client" where
  "client_core f c = c\<lparr>cl_core := f (cl_core c)\<rparr>"

definition client_config :: "fixp_client \<Rightarrow> fixp_config" where
  "client_config c = fc_config (cl_core c)"

fun client_session_of :: "client_state \<Rightarrow> fixp_session option" where
  "client_session_of (ClNegotiated s) = Some s"
| "client_session_of (ClEstablishing s _ _) = Some s"
| "client_session_of (ClBound s _) = Some s"
| "client_session_of _ = None"

definition client_negotiate :: "instant \<Rightarrow> (fixp_client, fixp_error, unit) fallible" where
  "client_negotiate now c =
    (if fc_transport_closing (cl_core c) then (Inl (TransportClosing ''negotiate''), c)
     else if cl_state c \<noteq> ClIdle then (Inl (InvalidState ''negotiate'' (client_status (cl_state c))), c)
     else
      (case request_timestamp now (cl_core c) of
         (Inl e, core) \<Rightarrow> (Inl e, c\<lparr>cl_core := core\<rparr>)
       | (Inr request, core) \<Rightarrow>
           (Inr (), c\<lparr>cl_core := core_send (MNegotiate \<lparr>ng_session_id = cl_session_id c, ng_timestamp = request,
                ng_client_flow = cl_flow c, ng_credentials = cl_credentials c\<rparr>) core,
              cl_state := ClNegotiating request now\<rparr>)))"

definition client_establish :: "instant \<Rightarrow> (fixp_client, fixp_error, unit) fallible" where
  "client_establish now c =
    (if fc_transport_closing (cl_core c) then (Inl (TransportClosing ''establish''), c)
     else
      (case cl_state c of
         ClNegotiated session \<Rightarrow>
           (case request_timestamp now (cl_core c) of
              (Inl e, core) \<Rightarrow> (Inl e, c\<lparr>cl_core := core\<rparr>)
            | (Inr request, core) \<Rightarrow>
                (Inr (), c\<lparr>cl_core := core_send (MEstablish \<lparr>es_session_id = cl_session_id c, es_timestamp = request,
                     es_keepalive_interval = cf_keepalive_millis (fc_config core),
                     es_next_seq_no = announced_next_seq session, es_credentials = cl_credentials c\<rparr>) core,
                   cl_state := ClEstablishing session request now\<rparr>))
       | other \<Rightarrow> (Inl (InvalidState ''establish'' (client_status other)), c)))"

definition client_unbound :: "fixp_session \<Rightarrow> fixp_client \<Rightarrow> client_state \<times> fixp_client" where
  "client_unbound session c =
    (if se_finalized session then (ClClosed CcFinalized, client_core (core_event (EvSessionFinalized (se_id session))) c)
     else (ClNegotiated session, c))"

definition client_bound :: "bound \<times> bound_session \<Rightarrow> fixp_client \<Rightarrow> client_state \<times> fixp_client" where
  "client_bound r c =
    (case r of
       (Stay, b) \<Rightarrow> (ClBound (bs_session b) (bs_binding b), c\<lparr>cl_core := bs_core b\<rparr>)
     | (Unbind, b) \<Rightarrow> client_unbound (bs_session b) (c\<lparr>cl_core := bs_core b\<rparr>))"

fun client_after_unbound_failure :: "client_state \<Rightarrow> client_state" where
  "client_after_unbound_failure (ClNegotiating _ _) = ClClosed CcProtocolViolation"
| "client_after_unbound_failure (ClEstablishing session _ _) = ClNegotiated session"
| "client_after_unbound_failure other = other"

definition client_violation :: "client_state \<Rightarrow> string \<Rightarrow> fixp_client \<Rightarrow> client_state \<times> fixp_client" where
  "client_violation state reason c =
    (case state of
       ClBound session binding \<Rightarrow>
         (case violation reason (joined (cl_core c) session binding) of
            (_, b) \<Rightarrow> client_unbound (bs_session b) (c\<lparr>cl_core := bs_core b\<rparr>))
     | ClClosed closed \<Rightarrow> (ClClosed closed, c)
     | _ \<Rightarrow> (client_after_unbound_failure state, client_core (violation_unbound reason) c))"

definition client_on_peer :: "client_state \<Rightarrow> peer_message \<Rightarrow> instant \<Rightarrow> fixp_client \<Rightarrow> client_state \<times> fixp_client" where
  "client_on_peer state message now c =
    (case state of
       ClBound session binding \<Rightarrow> client_bound (on_peer message now (joined (cl_core c) session binding)) c
     | ClClosed reason \<Rightarrow> (ClClosed reason, c)
     | _ \<Rightarrow>
         (case message of
            PeerMessageTemplate \<Rightarrow> (state, c)
          | PeerTerminate m \<Rightarrow>
              (client_after_unbound_failure state,
               client_core (core_close_transport \<circ> core_event (EvTerminated (tm_code m) (tm_reason m) ByPeer)) c)
          | _ \<Rightarrow> client_violation state ''session message before establishment'' c))"

definition client_ignore :: "string \<Rightarrow> string \<Rightarrow> client_state \<Rightarrow> fixp_client \<Rightarrow> client_state \<times> fixp_client" where
  "client_ignore message reason state c = (state, client_core (core_ignore message reason) c)"

definition client_on_negotiation_response :: "client_state \<Rightarrow> negotiation_response \<Rightarrow> fixp_client \<Rightarrow> client_state \<times> fixp_client" where
  "client_on_negotiation_response state m c =
    (case state of
       ClNegotiating request sent_at \<Rightarrow>
         if nr_session_id m \<noteq> cl_session_id c \<or> nr_request_timestamp m \<noteq> request
         then client_ignore ''NegotiationResponse'' ''session id or request timestamp does not match the Negotiate'' state c
         else if cl_flow c = FlowNone \<and> nr_server_flow m = FlowNone
         then (ClClosed CcProtocolViolation, client_core (violation_unbound ''both flows of the session are None'') c)
         else (ClNegotiated (session_new (cl_session_id c) (cl_flow c) (nr_server_flow m)),
               client_core (core_event (EvNegotiated (cl_session_id c) (cl_flow c) (nr_server_flow m))) c)
     | other \<Rightarrow> client_ignore ''NegotiationResponse'' ''no Negotiate is outstanding'' other c)"

definition client_on_negotiation_reject :: "client_state \<Rightarrow> negotiation_reject \<Rightarrow> fixp_client \<Rightarrow> client_state \<times> fixp_client" where
  "client_on_negotiation_reject state m c =
    (case state of
       ClNegotiating request sent_at \<Rightarrow>
         if nj_session_id m \<noteq> cl_session_id c \<or> nj_request_timestamp m \<noteq> request
         then client_ignore ''NegotiationReject'' ''session id or request timestamp does not match the Negotiate'' state c
         else (ClClosed CcNegotiationRejected,
               client_core (core_close_transport \<circ> core_event (EvNegotiationRejected (nj_code m) (nj_reason m))) c)
     | other \<Rightarrow> client_ignore ''NegotiationReject'' ''no Negotiate is outstanding'' other c)"

definition client_on_establishment_ack :: "client_state \<Rightarrow> establishment_ack \<Rightarrow> instant \<Rightarrow> fixp_client \<Rightarrow> client_state \<times> fixp_client" where
  "client_on_establishment_ack state m now c =
    (case state of
       ClEstablishing session request sent_at \<Rightarrow>
         if ea_session_id m \<noteq> cl_session_id c \<or> ea_request_timestamp m \<noteq> request
         then client_ignore ''EstablishmentAck'' ''session id or request timestamp does not match the Establish'' state c
         else
          (let remote = from_millis (ucast (ea_keepalive_interval m)) in
           case session_bind now (cf_keepalive_interval (client_config c)) remote session of
             (binding, session1) \<Rightarrow>
               if \<not> accepts_peer_keepalive (client_config c) (ea_keepalive_interval m)
               then (case violation ''server keepalive interval out of the accepted range'' (joined (cl_core c) session1 binding) of
                       (_, b) \<Rightarrow> (ClNegotiated (bs_session b), c\<lparr>cl_core := bs_core b\<rparr>))
               else
                (case on_established (ea_next_seq_no m) now
                        (joined (core_event (EvEstablished remote (ea_next_seq_no m)) (cl_core c)) session1 binding) of
                   (Stay, b) \<Rightarrow> (ClBound (bs_session b) (bs_binding b), c\<lparr>cl_core := bs_core b\<rparr>)
                 | (Unbind, b) \<Rightarrow> (ClNegotiated (bs_session b), c\<lparr>cl_core := bs_core b\<rparr>)))
     | other \<Rightarrow> client_ignore ''EstablishmentAck'' ''no Establish is outstanding'' other c)"

definition client_on_establishment_reject :: "client_state \<Rightarrow> establishment_reject \<Rightarrow> fixp_client \<Rightarrow> client_state \<times> fixp_client" where
  "client_on_establishment_reject state m c =
    (case state of
       ClEstablishing session request sent_at \<Rightarrow>
         if ej_session_id m \<noteq> cl_session_id c \<or> ej_request_timestamp m \<noteq> request
         then client_ignore ''EstablishmentReject'' ''session id or request timestamp does not match the Establish'' state c
         else (if ej_code m = EstUnnegotiated then ClClosed CcUnnegotiated else ClNegotiated session,
               client_core (core_event (EvEstablishmentRejected (ej_code m) (ej_reason m))) c)
     | other \<Rightarrow> client_ignore ''EstablishmentReject'' ''no Establish is outstanding'' other c)"

definition client_on_handshake :: "client_state \<Rightarrow> handshake_message \<Rightarrow> instant \<Rightarrow> fixp_client \<Rightarrow> client_state \<times> fixp_client" where
  "client_on_handshake state message now c =
    (case message of
       HsNegotiationResponse m \<Rightarrow> client_on_negotiation_response state m c
     | HsNegotiationReject m \<Rightarrow> client_on_negotiation_reject state m c
     | HsEstablishmentAck m \<Rightarrow> client_on_establishment_ack state m now c
     | HsEstablishmentReject m \<Rightarrow> client_on_establishment_reject state m c
     | HsNegotiate _ \<Rightarrow> client_violation state ''a client-only message sent by the server'' c
     | HsEstablish _ \<Rightarrow> client_violation state ''a client-only message sent by the server'' c)"

definition client_moved :: "client_state \<times> fixp_client \<Rightarrow> fixp_client" where
  "client_moved r = (snd r)\<lparr>cl_state := fst r\<rparr>"

definition client_handle_message :: "session_message \<Rightarrow> instant \<Rightarrow> fixp_client \<Rightarrow> fixp_client" where
  "client_handle_message message now c =
    (if fc_transport_closing (cl_core c) then client_core (core_ignore (message_name message) ''the transport is closing'') c
     else client_moved
      (case classify message of
         Handshake m \<Rightarrow> client_on_handshake (cl_state c) m now c
       | Peer m \<Rightarrow> client_on_peer (cl_state c) m now c))"

definition client_handle_timeout :: "instant \<Rightarrow> fixp_client \<Rightarrow> fixp_client" where
  "client_handle_timeout now c =
    (let timeout = cf_handshake_timeout (client_config c);
         lapse = (\<lambda>stage. client_core (core_close_transport \<circ> core_event (EvHandshakeTimedOut stage)))
     in client_moved
      (case cl_state c of
         ClNegotiating request sent_at \<Rightarrow>
           if elapsed sent_at timeout now then (ClClosed CcNegotiationTimedOut, lapse StageNegotiation c) else (cl_state c, c)
       | ClEstablishing session request sent_at \<Rightarrow>
           if elapsed sent_at timeout now then (ClNegotiated session, lapse StageEstablishment c) else (cl_state c, c)
       | ClBound session binding \<Rightarrow> client_bound (on_timeout now (joined (cl_core c) session binding)) c
       | other \<Rightarrow> (other, c)))"

definition client_poll_timeout :: "fixp_client \<Rightarrow> instant option" where
  "client_poll_timeout c =
    (case cl_state c of
       ClNegotiating _ sent_at \<Rightarrow> instant_add sent_at (cf_handshake_timeout (client_config c))
     | ClEstablishing _ _ sent_at \<Rightarrow> instant_add sent_at (cf_handshake_timeout (client_config c))
     | ClBound session binding \<Rightarrow> next_deadline (joined (cl_core c) session binding)
     | _ \<Rightarrow> None)"

definition client_on_transport_closed :: "fixp_client \<Rightarrow> fixp_client" where
  "client_on_transport_closed c0 =
    (let c = client_core core_transport_closed c0;
         lost = client_core (core_event EvTransportClosed) c
     in client_moved
      (case cl_state c of
         ClIdle \<Rightarrow> (ClIdle, c)
       | ClNegotiating _ _ \<Rightarrow> (ClClosed CcTransportClosed, lost)
       | ClNegotiated session \<Rightarrow> (ClNegotiated session, lost)
       | ClEstablishing session _ _ \<Rightarrow> (ClNegotiated session, lost)
       | ClBound session _ \<Rightarrow> client_unbound (release_binding_state session) lost
       | ClClosed reason \<Rightarrow> (ClClosed reason, c)))"

definition client_after :: "bound \<Rightarrow> fixp_client \<Rightarrow> fixp_client" where
  "client_after bound c =
    (if bound = Stay then c
     else client_moved (case cl_state c of ClBound session _ \<Rightarrow> client_unbound session c | other \<Rightarrow> (other, c)))"

definition client_application_before_established :: "fixp_client \<Rightarrow> fixp_client" where
  "client_application_before_established c =
    (if fc_transport_closing (cl_core c) then client_core (core_ignore APPLICATION_MESSAGE ''the transport is closing'') c
     else
      (case cl_state c of
         ClClosed _ \<Rightarrow> client_core (core_ignore APPLICATION_MESSAGE ''the session is closed'') c
       | state \<Rightarrow> client_moved (client_violation state ''application message before establishment'' c)))"

definition client_role :: "fixp_client fixp_role" where
  "client_role =
    \<lparr>ro_parts = (\<lambda>c. case cl_state c of ClBound session binding \<Rightarrow> Some (joined (cl_core c) session binding) | _ \<Rightarrow> None),
     ro_put = (\<lambda>b c. c\<lparr>cl_core := bs_core b, cl_state := ClBound (bs_session b) (bs_binding b)\<rparr>),
     ro_status = (\<lambda>c. client_status (cl_state c)), ro_after = client_after,
     ro_before = client_application_before_established, ro_session = (\<lambda>c. client_session_of (cl_state c))\<rparr>"

subsection \<open>The server\<close>

datatype server_closed = ScNegotiationRejected | ScHandshakeTimedOut | ScProtocolViolation | ScTransportClosed
  | ScFinalized session_id

datatype server_state =
    SvAwaitingNegotiate instant
  | SvNegotiationPending session_id nanotime flow_type "instant option"
  | SvNegotiated fixp_session "instant option"
  | SvEstablishPending fixp_session nanotime u32 "u64 option" "instant option"
  | SvBound fixp_session binding
  | SvClosed server_closed

fun server_status :: "server_state \<Rightarrow> session_status" where
  "server_status (SvAwaitingNegotiate _) = StAwaitingNegotiate"
| "server_status (SvNegotiationPending _ _ _ _) = StNegotiationPending"
| "server_status (SvNegotiated _ _) = StNegotiated"
| "server_status (SvEstablishPending _ _ _ _ _) = StEstablishPending"
| "server_status (SvBound _ bi) = binding_status (bi_state bi)"
| "server_status (SvClosed reason) = (case reason of ScFinalized _ \<Rightarrow> StFinalized | _ \<Rightarrow> StClosed)"

record fixp_server =
  sv_core :: fixp_core
  sv_state :: server_state

definition server_new :: "fixp_config \<Rightarrow> clock_anchor \<Rightarrow> instant \<Rightarrow> fixp_server" where
  "server_new config clock now =
    \<lparr>sv_core = core_new config \<lparr>rc_anchor = clock, rc_last = None\<rparr>, sv_state = SvAwaitingNegotiate now\<rparr>"

definition server_core :: "(fixp_core \<Rightarrow> fixp_core) \<Rightarrow> fixp_server \<Rightarrow> fixp_server" where
  "server_core f v = v\<lparr>sv_core := f (sv_core v)\<rparr>"

definition server_config :: "fixp_server \<Rightarrow> fixp_config" where
  "server_config v = fc_config (sv_core v)"

fun server_session_of :: "server_state \<Rightarrow> fixp_session option" where
  "server_session_of (SvNegotiated s _) = Some s"
| "server_session_of (SvEstablishPending s _ _ _ _) = Some s"
| "server_session_of (SvBound s _) = Some s"
| "server_session_of _ = None"

fun server_session_id :: "server_state \<Rightarrow> session_id option" where
  "server_session_id (SvNegotiationPending i _ _ _) = Some i"
| "server_session_id (SvNegotiated s _) = Some (se_id s)"
| "server_session_id (SvEstablishPending s _ _ _ _) = Some (se_id s)"
| "server_session_id (SvBound s _) = Some (se_id s)"
| "server_session_id (SvClosed reason) = (case reason of ScFinalized i \<Rightarrow> Some i | _ \<Rightarrow> None)"
| "server_session_id (SvAwaitingNegotiate _) = None"

fun server_client_flow :: "server_state \<Rightarrow> flow_type option" where
  "server_client_flow (SvNegotiationPending _ _ flow _) = Some flow"
| "server_client_flow (SvNegotiated s _) = Some (se_remote_flow s)"
| "server_client_flow (SvEstablishPending s _ _ _ _) = Some (se_remote_flow s)"
| "server_client_flow (SvBound s _) = Some (se_remote_flow s)"
| "server_client_flow _ = None"

definition handshake_deadline :: "instant \<Rightarrow> fixp_server \<Rightarrow> instant option" where
  "handshake_deadline now v = instant_add now (cf_handshake_timeout (server_config v))"

definition refuse_command :: "string \<Rightarrow> (fixp_server, fixp_error, unit) fallible" where
  "refuse_command operation v = (Inl (InvalidState operation (server_status (sv_state v))), v)"

definition accept_negotiation :: "flow_type \<Rightarrow> bytes option \<Rightarrow> instant \<Rightarrow> (fixp_server, fixp_error, unit) fallible" where
  "accept_negotiation server_flow credentials now v =
    (case sv_state v of
       SvNegotiationPending i request client_flow deadline \<Rightarrow>
         if client_flow = FlowNone \<and> server_flow = FlowNone then (Inl BothFlowsNone, v)
         else (Inr (), (server_core (core_event (EvNegotiated i client_flow server_flow) \<circ>
                core_send (MNegotiationResponse \<lparr>nr_session_id = i, nr_request_timestamp = request,
                  nr_server_flow = server_flow, nr_credentials = credentials\<rparr>)) v)
              \<lparr>sv_state := SvNegotiated (session_new i server_flow client_flow) (handshake_deadline now v)\<rparr>)
     | _ \<Rightarrow> refuse_command ''accept_negotiation'' v)"

definition reject_negotiation :: "negotiation_reject_code \<Rightarrow> bytes \<Rightarrow> (fixp_server, fixp_error, unit) fallible" where
  "reject_negotiation code reason =
    thenS (liftS (check_reason reason)) (\<lambda>_ v.
      (case sv_state v of
         SvNegotiationPending i request _ _ \<Rightarrow>
           (Inr (), (server_core (core_close_transport \<circ> core_send (MNegotiationReject \<lparr>nj_session_id = i,
               nj_request_timestamp = request, nj_code = code, nj_reason = reason\<rparr>)) v)
             \<lparr>sv_state := SvClosed ScNegotiationRejected\<rparr>)
       | _ \<Rightarrow> refuse_command ''reject_negotiation'' v))"

definition accept_establishment :: "instant \<Rightarrow> (fixp_server, fixp_error, unit) fallible" where
  "accept_establishment now v =
    (case sv_state v of
       SvEstablishPending session request keepalive nxt _ \<Rightarrow>
         (let remote = from_millis (ucast keepalive) in
          case session_bind now (cf_keepalive_interval (server_config v)) remote session of
            (binding, session1) \<Rightarrow>
              (let core = core_event (EvEstablished remote nxt) (core_send (MEstablishmentAck
                     \<lparr>ea_session_id = se_id session1, ea_request_timestamp = request,
                      ea_keepalive_interval = cf_keepalive_millis (server_config v),
                      ea_next_seq_no = announced_next_seq session1\<rparr>) (sv_core v))
               in case on_established nxt now (joined core session1 binding) of
                    (Stay, b) \<Rightarrow> (Inr (), v\<lparr>sv_core := bs_core b, sv_state := SvBound (bs_session b) (bs_binding b)\<rparr>)
                  | (Unbind, b) \<Rightarrow> (Inr (), v\<lparr>sv_core := bs_core b, sv_state := SvNegotiated (bs_session b) None\<rparr>)))
     | _ \<Rightarrow> refuse_command ''accept_establishment'' v)"

definition reject_establishment :: "establishment_reject_code \<Rightarrow> bytes \<Rightarrow> instant \<Rightarrow> (fixp_server, fixp_error, unit) fallible" where
  "reject_establishment code reason now =
    thenS (liftS (check_reason reason)) (\<lambda>_ v.
      (case sv_state v of
         SvEstablishPending session request _ _ _ \<Rightarrow>
           (Inr (), (server_core (core_send (MEstablishmentReject \<lparr>ej_session_id = se_id session,
               ej_request_timestamp = request, ej_code = code, ej_reason = reason\<rparr>)) v)
             \<lparr>sv_state := SvNegotiated session (handshake_deadline now v)\<rparr>)
       | _ \<Rightarrow> refuse_command ''reject_establishment'' v))"

definition server_on_transport_opened :: "instant \<Rightarrow> (fixp_server, fixp_error, unit) fallible" where
  "server_on_transport_opened now v =
    (if fc_transport_closing (sv_core v) then (Inl (TransportClosing ''on_transport_opened''), v)
     else
      (case sv_state v of
         SvNegotiated session None \<Rightarrow> (Inr (), v\<lparr>sv_state := SvNegotiated session (handshake_deadline now v)\<rparr>)
       | state \<Rightarrow> (Inl (InvalidState ''on_transport_opened'' (server_status state)), v)))"

definition server_unbound :: "fixp_session \<Rightarrow> fixp_server \<Rightarrow> server_state \<times> fixp_server" where
  "server_unbound session v =
    (if se_finalized session
     then (SvClosed (ScFinalized (se_id session)), server_core (core_event (EvSessionFinalized (se_id session))) v)
     else (SvNegotiated session None, v))"

definition server_bound :: "bound \<times> bound_session \<Rightarrow> fixp_server \<Rightarrow> server_state \<times> fixp_server" where
  "server_bound r v =
    (case r of
       (Stay, b) \<Rightarrow> (SvBound (bs_session b) (bs_binding b), v\<lparr>sv_core := bs_core b\<rparr>)
     | (Unbind, b) \<Rightarrow> server_unbound (bs_session b) (v\<lparr>sv_core := bs_core b\<rparr>))"

fun server_after_unbound_failure :: "server_state \<Rightarrow> server_state" where
  "server_after_unbound_failure (SvAwaitingNegotiate _) = SvClosed ScProtocolViolation"
| "server_after_unbound_failure (SvNegotiationPending _ _ _ _) = SvClosed ScProtocolViolation"
| "server_after_unbound_failure (SvNegotiated session _) = SvNegotiated session None"
| "server_after_unbound_failure (SvEstablishPending session _ _ _ _) = SvNegotiated session None"
| "server_after_unbound_failure other = other"

definition server_violation :: "server_state \<Rightarrow> string \<Rightarrow> fixp_server \<Rightarrow> server_state \<times> fixp_server" where
  "server_violation state reason v =
    (case state of
       SvBound session binding \<Rightarrow>
         (case violation reason (joined (sv_core v) session binding) of
            (_, b) \<Rightarrow> server_unbound (bs_session b) (v\<lparr>sv_core := bs_core b\<rparr>))
     | SvClosed closed \<Rightarrow> (SvClosed closed, v)
     | _ \<Rightarrow> (server_after_unbound_failure state, server_core (violation_unbound reason) v))"

definition server_on_peer :: "server_state \<Rightarrow> peer_message \<Rightarrow> instant \<Rightarrow> fixp_server \<Rightarrow> server_state \<times> fixp_server" where
  "server_on_peer state message now v =
    (case state of
       SvBound session binding \<Rightarrow> server_bound (on_peer message now (joined (sv_core v) session binding)) v
     | SvClosed reason \<Rightarrow> (SvClosed reason, v)
     | _ \<Rightarrow>
         (case message of
            PeerMessageTemplate \<Rightarrow> (state, v)
          | PeerTerminate m \<Rightarrow>
              (server_after_unbound_failure state,
               server_core (core_close_transport \<circ> core_event (EvTerminated (tm_code m) (tm_reason m) ByPeer)) v)
          | _ \<Rightarrow> server_violation state ''session message before establishment'' v))"

definition refuse_negotiate :: "negotiate \<Rightarrow> negotiation_reject_code \<Rightarrow> string \<Rightarrow> fixp_server \<Rightarrow> fixp_server" where
  "refuse_negotiate m code reason =
    server_core (core_event (EvRefused ''NegotiationReject'' reason) \<circ>
      core_send (MNegotiationReject \<lparr>nj_session_id = ng_session_id m, nj_request_timestamp = ng_timestamp m,
        nj_code = code, nj_reason = bytes_of reason\<rparr>))"

definition refuse_renegotiation :: "fixp_session \<Rightarrow> negotiate \<Rightarrow> fixp_server \<Rightarrow> fixp_server" where
  "refuse_renegotiation session m =
    (if ng_session_id m = se_id session then refuse_negotiate m NegDuplicateId ''session already negotiated''
     else refuse_negotiate m NegUnspecified ''multiplexed sessions are not supported'')"

definition server_ignore :: "string \<Rightarrow> string \<Rightarrow> server_state \<Rightarrow> fixp_server \<Rightarrow> server_state \<times> fixp_server" where
  "server_ignore message reason state v = (state, server_core (core_ignore message reason) v)"

definition on_negotiate :: "server_state \<Rightarrow> negotiate \<Rightarrow> instant \<Rightarrow> fixp_server \<Rightarrow> server_state \<times> fixp_server" where
  "on_negotiate state m now v =
    (case state of
       SvAwaitingNegotiate _ \<Rightarrow>
         if session_id_is_nil (ng_session_id m)
         then (SvClosed ScNegotiationRejected,
               server_core core_close_transport (refuse_negotiate m NegUnspecified ''invalid session id'' v))
         else (SvNegotiationPending (ng_session_id m) (ng_timestamp m) (ng_client_flow m) (handshake_deadline now v),
               server_core (core_event (EvNegotiateReceived (ng_session_id m) (ng_client_flow m))) v)
     | SvNegotiationPending _ _ _ _ \<Rightarrow> server_violation state ''Negotiate while a Negotiate is pending'' v
     | SvNegotiated session _ \<Rightarrow>
         server_violation state ''Negotiate on a negotiated session'' (refuse_renegotiation session m v)
     | SvEstablishPending session _ _ _ _ \<Rightarrow>
         server_violation state ''Negotiate on a negotiated session'' (refuse_renegotiation session m v)
     | SvBound session binding \<Rightarrow>
         if binding_status (bi_state binding) = StEstablished
         then server_violation state ''Negotiate on an established session'' (refuse_renegotiation session m v)
         else server_ignore ''Negotiate'' ''the transport is being unbound'' state v
     | SvClosed reason \<Rightarrow>
         (case reason of
            ScFinalized i \<Rightarrow>
              (state, if ng_session_id m = i
                 then server_core (violation_unbound ''Negotiate for a finalized session'')
                        (refuse_negotiate m NegDuplicateId ''session finalized'' v)
                 else v)
          | _ \<Rightarrow> (state, v)))"

definition refuse_establish :: "establish \<Rightarrow> establishment_reject_code \<Rightarrow> string \<Rightarrow> fixp_server \<Rightarrow> fixp_server" where
  "refuse_establish m code reason =
    server_core (core_event (EvRefused ''EstablishmentReject'' reason) \<circ>
      core_send (MEstablishmentReject \<lparr>ej_session_id = es_session_id m, ej_request_timestamp = es_timestamp m,
        ej_code = code, ej_reason = bytes_of reason\<rparr>))"

definition on_establish_negotiated :: "fixp_session \<Rightarrow> instant option \<Rightarrow> establish \<Rightarrow> instant \<Rightarrow> fixp_server \<Rightarrow> server_state \<times> fixp_server" where
  "on_establish_negotiated session deadline m now v =
    (let stay = SvNegotiated session deadline in
     if es_session_id m \<noteq> se_id session
     then (SvNegotiated session None, server_core (violation_unbound ''Establish for a session not negotiated'')
             (refuse_establish m EstUnnegotiated ''unknown session'' v))
     else if \<not> accepts_peer_keepalive (server_config v) (es_keepalive_interval m)
     then (stay, refuse_establish m EstKeepaliveInterval ''keepalive interval out of the accepted range'' v)
     else if is_sequenced (se_remote_flow session) \<and> es_next_seq_no m = Some 0
     then (stay, refuse_establish m EstUnspecified ''NextSeqNo of zero'' v)
     else if regresses (es_next_seq_no m) session
     then (stay, refuse_establish m EstUnspecified ''NextSeqNo lower than expected'' v)
     else (SvEstablishPending session (es_timestamp m) (es_keepalive_interval m) (es_next_seq_no m) (handshake_deadline now v),
           server_core (core_event (EvEstablishReceived (es_session_id m) (from_millis (ucast (es_keepalive_interval m)))
             (es_next_seq_no m))) v))"

definition on_establish :: "server_state \<Rightarrow> establish \<Rightarrow> instant \<Rightarrow> fixp_server \<Rightarrow> server_state \<times> fixp_server" where
  "on_establish state m now v =
    (case state of
       SvAwaitingNegotiate _ \<Rightarrow>
         (SvClosed ScProtocolViolation, server_core (violation_unbound ''Establish without a successful negotiation'')
            (refuse_establish m EstUnnegotiated ''establish without negotiation'' v))
     | SvNegotiationPending _ _ _ _ \<Rightarrow> server_violation state ''Establish before the negotiation was answered'' v
     | SvNegotiated session deadline \<Rightarrow> on_establish_negotiated session deadline m now v
     | SvEstablishPending _ _ _ _ _ \<Rightarrow> server_violation state ''Establish while an Establish is pending'' v
     | SvBound session binding \<Rightarrow>
         if binding_status (bi_state binding) = StEstablished
         then (state, refuse_establish m EstAlreadyEstablished ''session already established'' v)
         else server_ignore ''Establish'' ''the transport is being unbound'' state v
     | SvClosed reason \<Rightarrow>
         (case reason of
            ScFinalized i \<Rightarrow>
              (state, if es_session_id m = i
                 then server_core (violation_unbound ''Establish for a finalized session'')
                        (refuse_establish m EstUnnegotiated ''session finalized'' v)
                 else v)
          | _ \<Rightarrow> (state, v)))"

definition server_on_handshake :: "server_state \<Rightarrow> handshake_message \<Rightarrow> instant \<Rightarrow> fixp_server \<Rightarrow> server_state \<times> fixp_server" where
  "server_on_handshake state message now v =
    (case message of
       HsNegotiate m \<Rightarrow> on_negotiate state m now v
     | HsEstablish m \<Rightarrow> on_establish state m now v
     | _ \<Rightarrow> server_violation state ''a server-only message sent by the client'' v)"

definition server_moved :: "server_state \<times> fixp_server \<Rightarrow> fixp_server" where
  "server_moved r = (snd r)\<lparr>sv_state := fst r\<rparr>"

definition server_handle_message :: "session_message \<Rightarrow> instant \<Rightarrow> fixp_server \<Rightarrow> fixp_server" where
  "server_handle_message message now v =
    (if fc_transport_closing (sv_core v) then server_core (core_ignore (message_name message) ''the transport is closing'') v
     else server_moved
      (case classify message of
         Handshake m \<Rightarrow> server_on_handshake (sv_state v) m now v
       | Peer m \<Rightarrow> server_on_peer (sv_state v) m now v))"

definition server_handle_timeout :: "instant \<Rightarrow> fixp_server \<Rightarrow> fixp_server" where
  "server_handle_timeout now v =
    (let lapse = (\<lambda>stage. server_core (core_close_transport \<circ> core_event (EvHandshakeTimedOut stage)))
     in server_moved
      (case sv_state v of
         SvAwaitingNegotiate since \<Rightarrow>
           if elapsed since (cf_handshake_timeout (server_config v)) now
           then (SvClosed ScHandshakeTimedOut, lapse StageNegotiation v) else (sv_state v, v)
       | SvNegotiated session deadline \<Rightarrow>
           if due deadline now then (SvNegotiated session None, lapse StageEstablishment v) else (sv_state v, v)
       | SvNegotiationPending i request client_flow deadline \<Rightarrow>
           if due deadline now
           then (SvClosed ScHandshakeTimedOut, lapse StageNegotiation
                  (server_core (core_send (MNegotiationReject \<lparr>nj_session_id = i, nj_request_timestamp = request,
                     nj_code = NegUnspecified, nj_reason = bytes_of ''negotiation not answered in time''\<rparr>)) v))
           else (sv_state v, v)
       | SvEstablishPending session request keepalive nxt deadline \<Rightarrow>
           if due deadline now
           then (SvNegotiated session None, lapse StageEstablishment
                  (server_core (core_send (MEstablishmentReject \<lparr>ej_session_id = se_id session, ej_request_timestamp = request,
                     ej_code = EstUnspecified, ej_reason = bytes_of ''establishment not answered in time''\<rparr>)) v))
           else (sv_state v, v)
       | SvBound session binding \<Rightarrow> server_bound (on_timeout now (joined (sv_core v) session binding)) v
       | SvClosed reason \<Rightarrow> (sv_state v, v)))"

definition server_poll_timeout :: "fixp_server \<Rightarrow> instant option" where
  "server_poll_timeout v =
    (case sv_state v of
       SvAwaitingNegotiate since \<Rightarrow> instant_add since (cf_handshake_timeout (server_config v))
     | SvNegotiated _ deadline \<Rightarrow> deadline
     | SvNegotiationPending _ _ _ deadline \<Rightarrow> deadline
     | SvEstablishPending _ _ _ _ deadline \<Rightarrow> deadline
     | SvBound session binding \<Rightarrow> next_deadline (joined (sv_core v) session binding)
     | SvClosed _ \<Rightarrow> None)"

definition server_on_transport_closed :: "fixp_server \<Rightarrow> fixp_server" where
  "server_on_transport_closed v0 =
    (let v = server_core core_transport_closed v0;
         lost = server_core (core_event EvTransportClosed) v
     in server_moved
      (case sv_state v of
         SvAwaitingNegotiate _ \<Rightarrow> (SvClosed ScTransportClosed, lost)
       | SvNegotiationPending _ _ _ _ \<Rightarrow> (SvClosed ScTransportClosed, lost)
       | SvNegotiated session _ \<Rightarrow> (SvNegotiated session None, lost)
       | SvEstablishPending session _ _ _ _ \<Rightarrow> (SvNegotiated session None, lost)
       | SvBound session _ \<Rightarrow> server_unbound (release_binding_state session) lost
       | SvClosed reason \<Rightarrow> (SvClosed reason, v)))"

definition server_after :: "bound \<Rightarrow> fixp_server \<Rightarrow> fixp_server" where
  "server_after bound v =
    (if bound = Stay then v
     else server_moved (case sv_state v of SvBound session _ \<Rightarrow> server_unbound session v | other \<Rightarrow> (other, v)))"

definition server_application_before_established :: "fixp_server \<Rightarrow> fixp_server" where
  "server_application_before_established v =
    (if fc_transport_closing (sv_core v) then server_core (core_ignore APPLICATION_MESSAGE ''the transport is closing'') v
     else
      (case sv_state v of
         SvClosed _ \<Rightarrow> server_core (core_ignore APPLICATION_MESSAGE ''the session is closed'') v
       | state \<Rightarrow> server_moved (server_violation state ''application message before establishment'' v)))"

definition server_role :: "fixp_server fixp_role" where
  "server_role =
    \<lparr>ro_parts = (\<lambda>v. case sv_state v of SvBound session binding \<Rightarrow> Some (joined (sv_core v) session binding) | _ \<Rightarrow> None),
     ro_put = (\<lambda>b v. v\<lparr>sv_core := bs_core b, sv_state := SvBound (bs_session b) (bs_binding b)\<rparr>),
     ro_status = (\<lambda>v. server_status (sv_state v)), ro_after = server_after,
     ro_before = server_application_before_established, ro_session = (\<lambda>v. server_session_of (sv_state v))\<rparr>"

end
