(* ===== verification/Fixp_Role_Law.thy ===== *)
theory Fixp_Role_Law
  imports Fixp_Roles Fixp_Asking
begin

text \<open>
  The interface between a FIXP role and the operations both roles share (\<^verbatim>\<open>role.rs\<close>), as the locale
  \<open>session_role\<close>: what the shared operations rely on and what they give.  Interpreted on the client and
  on the server.
\<close>

subsection \<open>Shared operations as steps\<close>

datatype role_op =
    RApplication
  | RSendApplication
  | RTerminate termination_code bytes
  | RRetransmit u32
  | RRejectRetransmit retransmit_reject_code bytes
  | REndRetransmission

fun role_step :: "'r fixp_role \<Rightarrow> role_op \<Rightarrow> instant \<Rightarrow> 'r \<Rightarrow> nat list \<times> 'r" where
  "role_step ro RApplication now r = (case role_on_application ro now r of (d, r') \<Rightarrow> (number_of d, r'))"
| "role_step ro RSendApplication now r = ([], snd (role_send_application ro now r))"
| "role_step ro (RTerminate code reason) now r = ([], snd (role_terminate ro code reason now r))"
| "role_step ro (RRetransmit n) now r = ([], snd (role_retransmit ro n now r))"
| "role_step ro (RRejectRetransmit code reason) now r = ([], snd (role_reject_retransmit ro code reason r))"
| "role_step ro REndRetransmission now r = ([], snd (role_end_retransmission ro r))"

fun role_run :: "('op \<Rightarrow> 'r \<Rightarrow> nat list \<times> 'r) \<Rightarrow> 'op list \<Rightarrow> 'r \<Rightarrow> nat list \<times> 'r" where
  "role_run step [] r = ([], r)"
| "role_run step (op # ops) r =
    (case step op r of (ns, r1) \<Rightarrow> (case role_run step ops r1 of (ms, r2) \<Rightarrow> (ns @ ms, r2)))"

text \<open>
  A step hands up numbers that were not settled and settles them; a role that is over hands up nothing
  more, and a new session starts well.
\<close>

definition tracks :: "'r fixp_role \<Rightarrow> ('r \<Rightarrow> bool) \<Rightarrow> nat list \<Rightarrow> 'r \<Rightarrow> 'r \<Rightarrow> bool" where
  "tracks ro over ns r r' \<longleftrightarrow>
     (over r \<longrightarrow> over r' \<and> ns = [])
     \<and> (\<forall>s. ro_session ro r = Some s \<and> recovery_ok s \<longrightarrow> distinct ns \<and> set ns \<inter> settled s = {}
          \<and> (over r' \<or> (\<exists>s' A. ro_session ro r' = Some s' \<and> advances (set ns \<union> A) s s')))
     \<and> (ro_session ro r = None \<and> \<not> over r \<longrightarrow> ns = [] \<and> (\<forall>s'. ro_session ro r' = Some s' \<longrightarrow> recovery_ok s'))"

locale session_role =
  fixes ro :: "'r fixp_role"
    and over :: "'r \<Rightarrow> bool"
  assumes over_session: "over r \<Longrightarrow> ro_session ro r = None"
    and parts_session: "ro_parts ro r = Some b \<Longrightarrow> ro_session ro r = Some (bs_session b)"
    and put_parts: "ro_parts ro r = Some b \<Longrightarrow> ro_parts ro (ro_put ro b' r) = Some b'"
    and after_stay: "ro_after ro Stay r = r"
    and after_unbind: "ro_parts ro r = Some b \<Longrightarrow>
        ro_session ro (ro_after ro Unbind r) = Some (bs_session b) \<or> over (ro_after ro Unbind r)"
    and before_session: "ro_parts ro r = None \<Longrightarrow> ro_session ro (ro_before ro r) = ro_session ro r"
    and before_over: "over r \<Longrightarrow> over (ro_before ro r)"
begin

lemma tracks_bound:
  assumes p: "ro_parts ro r = Some b" and adv: "recovery_ok (bs_session b) \<Longrightarrow> step_ok ns D b b'"
    and r': "ro_session ro r' = Some (bs_session b') \<or> over r'"
  shows "tracks ro over ns r r'"
proof -
  have s: "ro_session ro r = Some (bs_session b)" using p by (rule parts_session)
  then have "\<not> over r" using over_session by auto
  then show ?thesis using adv r' s by (auto simp: tracks_def step_ok_def)
qed

lemma tracks_put:
  assumes "ro_parts ro r = Some b" and "recovery_ok (bs_session b) \<Longrightarrow> step_ok ns D b b'"
  shows "tracks ro over ns r (ro_after ro bound (ro_put ro b' r))"
proof (rule tracks_bound[OF assms])
  have "ro_parts ro (ro_put ro b' r) = Some b'" using assms(1) by (rule put_parts)
  then show "ro_session ro (ro_after ro bound (ro_put ro b' r)) = Some (bs_session b') \<or> over (ro_after ro bound (ro_put ro b' r))"
    using after_stay after_unbind parts_session by (cases bound) auto
qed

text \<open>Outside a binding: a step that ends the role, that keeps or moves on its session, or that makes one.\<close>

lemma tracks_over: "over r' \<Longrightarrow> tracks ro over [] r r'"
  using over_session by (auto simp: tracks_def)

lemma tracks_moved:
  assumes "ro_session ro r = Some s" "recovery_ok s \<Longrightarrow> advances A s s'" "ro_session ro r' = Some s' \<or> over r'"
  shows "tracks ro over [] r r'"
  using assms over_session[of r] by (auto simp: tracks_def)

lemma tracks_same:
  assumes "ro_session ro r' = ro_session ro r" "over r \<Longrightarrow> over r'"
  shows "tracks ro over [] r r'"
  using assms over_session by (auto simp: tracks_def intro!: exI[of _ "{}"] advances_refl)

lemma tracks_new: "ro_session ro r = None \<Longrightarrow> ro_session ro r' = Some (session_new i lf rf) \<Longrightarrow> \<not> over r \<Longrightarrow> tracks ro over [] r r'"
  by (auto simp: tracks_def session_new_ok)

lemma tracks_established:
  assumes old: "ro_session ro r = Some s"
    and new: "ro_session ro r' = Some (bs_session (snd (on_established n now (joined k (release_binding_state s) bi))))"
  shows "tracks ro over [] r r'"
proof (rule tracks_moved[OF old])
  let ?j = "joined k (release_binding_state s) bi"
  let ?b = "snd (on_established n now ?j)"
  assume ok: "recovery_ok s"
  have rel: "advances {} s (release_binding_state s)" using ok by (rule release_advances)
  show "advances (given_up ?j ?b) s (bs_session ?b)"
    using advances_then[OF rel] on_established_settles[of ?j n now] advances_ok[OF rel] by (simp add: joined_def)
qed (simp add: new)

lemma tracks_refl: "tracks ro over [] r r"
  using over_session by (auto simp: tracks_def intro!: exI[of _ "{}"] advances_refl)

lemma tracks_before: "ro_parts ro r = None \<Longrightarrow> tracks ro over [] r (ro_before ro r)"
  using before_session before_over over_session by (auto simp: tracks_def intro!: exI[of _ "{}"] advances_refl)

lemma tracks_command:
  assumes "\<And>b. recovery_ok (bs_session b) \<Longrightarrow> settles {} b (snd (f b))"
  shows "tracks ro over [] r (snd (on_bound_parts ro name f r))"
proof (cases "ro_parts ro r")
  case (Some b)
  have "tracks ro over [] r (ro_after ro Stay (ro_put ro (snd (f b)) r))"
    by (rule tracks_put[OF Some]) (rule step_ok_dropped, rule assms)
  then show ?thesis by (simp add: on_bound_parts_def bound_parts_def Some after_stay case_prod_beta)
qed (simp add: on_bound_parts_def bound_parts_def tracks_refl)

lemma role_step_tracks: "tracks ro over (fst (role_step ro op now r)) r (snd (role_step ro op now r))"
proof (cases op)
  case RApplication
  show ?thesis
  proof (cases "ro_parts ro r")
    case (Some b)
    obtain d bound b1 where run: "on_application now b = ((d, bound), b1)" by (metis surj_pair)
    have ok: "step_ok (number_of d) {} b b1" if "recovery_ok (bs_session b)"
      using step_ok_delivers[OF on_application_delivers[OF that, of now]] by (simp add: run)
    have idle: "tracks ro over [] r (ro_after ro Stay (ro_put ro (with_core f b) r))" for f
      by (rule tracks_put[OF Some, where D = "{}"]) (simp add: step_ok_dropped advances_refl)
    show ?thesis
      using tracks_put[OF Some ok] idle by (simp add: RApplication role_on_application_def bound_parts_def Some run after_stay)
  qed (simp add: RApplication role_on_application_def bound_parts_def tracks_before)
next
  case (RTerminate code reason)
  show ?thesis
  proof (cases "ro_parts ro r")
    case (Some b)
    obtain res b1 where run: "terminate code reason now b = (res, b1)" by (cases "terminate code reason now b")
    have "step_ok [] {} b b1" if "recovery_ok (bs_session b)"
      using commands_settle(2)[OF that, of code reason now] by (intro step_ok_dropped) (simp add: run)
    then have "tracks ro over [] r (ro_after ro bound (ro_put ro b1 r))" for bound by (rule tracks_put[OF Some])
    from this[of "ended res"] this[of Stay] show ?thesis
      by (cases res) (simp_all add: RTerminate role_terminate_def on_bound_parts_def bound_parts_def thenS_def Some run after_stay)
  qed (simp add: RTerminate role_terminate_def on_bound_parts_def bound_parts_def thenS_def tracks_refl)
qed (simp_all add: role_send_application_def role_retransmit_def role_reject_retransmit_def role_end_retransmission_def
    tracks_command commands_settle)

text \<open>A run of steps each of which tracks hands up every number at most once.\<close>

lemma role_run_distinct:
  assumes step: "\<And>op r. tracks ro over (fst (step op r)) r (snd (step op r))"
    and start: "\<And>s. ro_session ro r = Some s \<Longrightarrow> recovery_ok s"
  shows "distinct (fst (role_run step ops r)) \<and> (over r \<longrightarrow> fst (role_run step ops r) = [])
    \<and> (\<forall>s. ro_session ro r = Some s \<longrightarrow> set (fst (role_run step ops r)) \<inter> settled s = {})"
  using start
proof (induction ops arbitrary: r)
  case (Cons op ops)
  obtain ns r1 where s: "step op r = (ns, r1)" by (cases "step op r")
  obtain ms r2 where t: "role_run step ops r1 = (ms, r2)" by (cases "role_run step ops r1")
  have tr: "tracks ro over ns r r1" using step[of op r] s by simp
  have later: "recovery_ok s'" if "ro_session ro r1 = Some s'" for s'
    using tr Cons.prems that over_session[of r] over_session[of r1] by (cases "ro_session ro r"; cases "over r") (auto simp: tracks_def advances_def)
  have ih: "distinct ms" "over r1 \<longrightarrow> ms = []" "\<forall>s. ro_session ro r1 = Some s \<longrightarrow> set ms \<inter> settled s = {}"
    using Cons.IH[of r1, OF later] by (simp_all add: t)
  have "distinct (ns @ ms) \<and> (over r \<longrightarrow> ns @ ms = []) \<and> (\<forall>s. ro_session ro r = Some s \<longrightarrow> set (ns @ ms) \<inter> settled s = {})"
  proof (cases "ro_session ro r")
    case None
    then have "ns = []" using tr by (cases "over r") (auto simp: tracks_def)
    then show ?thesis using ih tr None by (auto simp: tracks_def)
  next
    case (Some s)
    have s1: "distinct ns" "set ns \<inter> settled s = {}" "over r1 \<or> (\<exists>s' A. ro_session ro r1 = Some s' \<and> advances (set ns \<union> A) s s')"
      using tr Some Cons.prems by (auto simp: tracks_def)
    have "set ms \<inter> (settled s \<union> set ns) = {}"
      using s1(3) ih by (auto simp: advances_def)
    then show ?thesis using s1 ih(1) Some over_session[of r] by auto
  qed
  then show ?case by (simp add: s t)
qed simp

end

subsection \<open>After the transport is asked to be closed\<close>

text \<open>
  The outputs of a role over its life, with \<open>None\<close> where the driver reports the transport closed: between
  an \<open>OutCloseTransport\<close> and that report nothing is sent, and the transport is not closed again.
\<close>

fun orderly :: "bool \<Rightarrow> fixp_output option list \<Rightarrow> bool" where
  "orderly gone [] = True"
| "orderly gone (None # t) = orderly False t"
| "orderly gone (Some (OutEvent _) # t) = orderly gone t"
| "orderly gone (Some OutCloseTransport # t) = (\<not> gone \<and> orderly True t)"
| "orderly gone (Some (OutSend _) # t) = (\<not> gone \<and> orderly gone t)"
| "orderly gone (Some (OutSendApplication _ _) # t) = (\<not> gone \<and> orderly gone t)"

fun role_trace :: "('op \<Rightarrow> bool) \<Rightarrow> ('op \<Rightarrow> 'r \<Rightarrow> nat list \<times> 'r) \<Rightarrow> ('r \<Rightarrow> fixp_core) \<Rightarrow> 'op list \<Rightarrow> 'r \<Rightarrow> fixp_output option list" where
  "role_trace lost step core [] r = []"
| "role_trace lost step core (op # ops) r =
    (let r1 = snd (step op r)
     in (if lost op then [None] else []) @ map Some (drop (length (fc_outputs (core r))) (fc_outputs (core r1)))
        @ role_trace lost step core ops r1)"

lemma orderly_silent: "silent xs \<Longrightarrow> orderly gone (map Some xs @ t) = orderly gone t"
  by (induction xs rule: silent.induct) simp_all

lemma orderly_tidy: "tidy xs \<Longrightarrow> orderly False (map Some xs @ t) = orderly (OutCloseTransport \<in> set xs) t"
  by (induction xs rule: tidy.induct) (auto simp: orderly_silent dest: silent_tidy)

text \<open>What one step adds to the outputs.\<close>

definition quiets :: "fixp_core \<Rightarrow> fixp_core \<Rightarrow> bool" where
  "quiets k k' \<longleftrightarrow> (\<exists>xs. fc_outputs k' = fc_outputs k @ xs
     \<and> (if fc_transport_closing k then silent xs \<and> fc_transport_closing k'
        else tidy xs \<and> (fc_transport_closing k' \<longleftrightarrow> OutCloseTransport \<in> set xs)))"

lemma quiets_trans:
  assumes "quiets k k'" "quiets k' k''"
  shows "quiets k k''"
proof -
  obtain xs where xs: "fc_outputs k' = fc_outputs k @ xs"
    "if fc_transport_closing k then silent xs \<and> fc_transport_closing k' else tidy xs \<and> (fc_transport_closing k' \<longleftrightarrow> OutCloseTransport \<in> set xs)"
    using assms(1) by (auto simp: quiets_def)
  obtain ys where ys: "fc_outputs k'' = fc_outputs k' @ ys"
    "if fc_transport_closing k' then silent ys \<and> fc_transport_closing k'' else tidy ys \<and> (fc_transport_closing k'' \<longleftrightarrow> OutCloseTransport \<in> set ys)"
    using assms(2) by (auto simp: quiets_def)
  show ?thesis
    unfolding quiets_def using xs ys
    by (intro exI[of _ "xs @ ys"]) (auto simp: tidy_events split: if_splits dest: silent_tidy)
qed

lemma quiets_steps [simp]:
  "quiets k k" "quiets k (core_event e k)" "quiets k (core_ignore n reason k)" "quiets k (k\<lparr>fc_clock := clock\<rparr>)"
  "\<not> fc_transport_closing k \<Longrightarrow> quiets k (core_send m k)" "\<not> fc_transport_closing k \<Longrightarrow> quiets k (core_close_transport k)"
  by (auto simp: quiets_def)

lemma then_quiets [simp]:
  "quiets k k' \<Longrightarrow> \<not> fc_transport_closing k' \<Longrightarrow> quiets k (core_close_transport k')"
  "quiets k k' \<Longrightarrow> quiets k (core_event e k')"
  by (rule quiets_trans[of _ k'], assumption, simp)+

lemma quiets_violation [simp]: "quiets k k' \<Longrightarrow> \<not> fc_transport_closing k' \<Longrightarrow> quiets k (violation_unbound reason k')"
  by (simp add: violation_unbound_def)

lemma says_quiets:
  assumes "says b r" "\<not> closing b"
  shows "quiets (bs_core b) (bs_core (snd r)) \<and> (closing (snd r) \<longleftrightarrow> fst r = Unbind)"
  using assms by (auto simp: says_def leaves_def quiets_def outs_def)

lemma command_quiets:
  assumes "command_says b ws c" "\<not> closing b"
  shows "quiets (bs_core b) (bs_core c) \<and> \<not> closing c"
  using assms by (auto simp: command_says_def leaves_def quiets_def outs_def)

text \<open>A transport is asked to be closed only on the way to a calm state, one that sends nothing.\<close>

definition calms :: "('r \<Rightarrow> fixp_core) \<Rightarrow> ('r \<Rightarrow> bool) \<Rightarrow> 'r \<Rightarrow> 'r \<Rightarrow> bool" where
  "calms core calm r r' \<longleftrightarrow> ((fc_transport_closing (core r) \<longrightarrow> calm r) \<longrightarrow>
     quiets (core r) (core r') \<and> (fc_transport_closing (core r') \<longrightarrow> calm r'))"

locale quiet_role = session_role +
  fixes core :: "'a \<Rightarrow> fixp_core" and calm :: "'a \<Rightarrow> bool"
  assumes calm_parts: "calm r \<Longrightarrow> ro_parts ro r = None"
    and parts_core: "ro_parts ro r = Some b \<Longrightarrow> bs_core b = core r"
    and put_core: "core (ro_put ro b r) = bs_core b"
    and unbind_core: "ro_parts ro r = Some b \<Longrightarrow> calm (ro_after ro Unbind r) \<and> quiets (core r) (core (ro_after ro Unbind r))"
    and before_calms: "ro_parts ro r = None \<Longrightarrow> calms core calm r (ro_before ro r)"
begin

lemma bound_calms:
  assumes p: "ro_parts ro r = Some b" and s: "says b (bound, b')"
  shows "calms core calm r (ro_after ro bound (ro_put ro b' r))"
proof (cases "fc_transport_closing (core r)")
  case True
  then show ?thesis using calm_parts[of r] p by (auto simp: calms_def)
next
  case False
  then have q: "quiets (core r) (bs_core b')" "closing b' \<longleftrightarrow> bound = Unbind"
    using says_quiets[OF s] parts_core[OF p] by simp_all
  have put: "ro_parts ro (ro_put ro b' r) = Some b'" using p by (rule put_parts)
  show ?thesis
    using q unbind_core[OF put] quiets_trans[OF q(1)] put_core by (cases bound) (auto simp: calms_def after_stay)
qed

lemma calms_refl: "calms core calm r r"
  by (simp add: calms_def)

lemma command_calms:
  assumes "\<And>b. says b (Stay, snd (f b)) \<or> (\<exists>ws. command_says b ws (snd (f b)))"
  shows "calms core calm r (snd (on_bound_parts ro name f r))"
proof (cases "ro_parts ro r")
  case (Some b)
  have "calms core calm r (ro_put ro (snd (f b)) r)"
    using assms[of b] bound_calms[OF Some, of Stay "snd (f b)"] command_quiets[of b _ "snd (f b)"] parts_core[OF Some] calm_parts[of r] put_core Some
    by (auto simp: after_stay calms_def)
  then show ?thesis by (simp add: on_bound_parts_def bound_parts_def Some case_prod_beta)
qed (simp add: on_bound_parts_def bound_parts_def calms_refl)

lemma role_step_calms: "calms core calm r (snd (role_step ro op now r))"
proof (cases op)
  case RApplication
  show ?thesis
  proof (cases "ro_parts ro r")
    case (Some b)
    obtain d bound b1 where run: "on_application now b = ((d, bound), b1)" by (metis surj_pair)
    have "calms core calm r (ro_after ro bound (ro_put ro b1 r))"
      using bound_calms[OF Some] on_application_says[of b now] by (simp add: run)
    moreover have "calms core calm r (ro_put ro (with_core (core_ignore n reason) b) r)" for n reason
      using bound_calms[OF Some ignore_says] by (simp add: after_stay)
    ultimately show ?thesis by (simp add: RApplication role_on_application_def bound_parts_def Some run)
  qed (simp add: RApplication role_on_application_def bound_parts_def before_calms)
next
  case (RTerminate code reason)
  show ?thesis
  proof (cases "ro_parts ro r")
    case (Some b)
    obtain res b1 where run: "terminate code reason now b = (res, b1)" by (cases "terminate code reason now b")
    have "calms core calm r (ro_after ro (ended res) (ro_put ro b1 r))"
      using bound_calms[OF Some] terminate_says[of b code reason now] by (simp add: run)
    then show ?thesis
      by (cases res) (simp_all add: RTerminate role_terminate_def on_bound_parts_def bound_parts_def thenS_def Some run after_stay)
  qed (simp add: RTerminate role_terminate_def on_bound_parts_def bound_parts_def thenS_def calms_refl)
next
  case RSendApplication
  have "calms core calm r (snd (on_bound_parts ro ''send_application'' (send_application now) r))"
    by (rule command_calms) (use send_application_says in blast)
  then show ?thesis by (simp add: RSendApplication role_send_application_def)
qed (simp_all add: role_retransmit_def role_reject_retransmit_def role_end_retransmission_def
    command_calms retransmit_says reject_says end_says)

lemma role_trace_orderly:
  assumes step: "\<And>op r. \<not> lost op \<Longrightarrow> calms core calm r (snd (step op r))"
    and gone: "\<And>op r. lost op \<Longrightarrow> \<exists>xs. fc_outputs (core (snd (step op r))) = fc_outputs (core r) @ xs \<and> silent xs
        \<and> \<not> fc_transport_closing (core (snd (step op r)))"
    and start: "fc_transport_closing (core r) \<longrightarrow> calm r"
  shows "orderly (fc_transport_closing (core r)) (role_trace lost step core ops r)"
  using start
proof (induction ops arbitrary: r)
  case (Cons op ops)
  let ?r = "snd (step op r)"
  show ?case
  proof (cases "lost op")
    case True
    then obtain xs where xs: "fc_outputs (core ?r) = fc_outputs (core r) @ xs" "silent xs" "\<not> fc_transport_closing (core ?r)"
      using gone by blast
    then show ?thesis using Cons.IH[of ?r] True by (simp add: Let_def orderly_silent)
  next
    case False
    have q: "quiets (core r) (core ?r)" "fc_transport_closing (core ?r) \<longrightarrow> calm ?r"
      using step[OF False, of r] Cons.prems by (simp_all add: calms_def)
    then obtain xs where xs: "fc_outputs (core ?r) = fc_outputs (core r) @ xs"
      "if fc_transport_closing (core r) then silent xs \<and> fc_transport_closing (core ?r)
       else tidy xs \<and> (fc_transport_closing (core ?r) \<longleftrightarrow> OutCloseTransport \<in> set xs)"
      by (auto simp: quiets_def)
    show ?thesis using Cons.IH[OF q(2)] False xs
      by (cases "fc_transport_closing (core r)") (simp_all add: Let_def orderly_silent orderly_tidy)
  qed
qed simp

end

end
