(* ===== verification/Fixp_Role_Properties.thy ===== *)
theory Fixp_Role_Properties
  imports Fixp_Role_Law
begin

text \<open>
  The client and the server keep the interface \<open>session_role\<close>; the properties of whole roles: what they
  deliver over their life, that a handshake connects them, and that nothing is sent once the transport
  is to be closed.
\<close>

subsection \<open>The client as a role\<close>

fun client_over :: "fixp_client \<Rightarrow> bool" where
  "client_over c = (case cl_state c of ClClosed _ \<Rightarrow> True | _ \<Rightarrow> False)"

interpretation client: session_role client_role client_over
proof
  fix c :: fixp_client and b b' :: bound_session
  show "client_over c \<Longrightarrow> ro_session client_role c = None"
    by (auto simp: client_role_def split: client_state.splits)
  show "ro_parts client_role c = Some b \<Longrightarrow> ro_session client_role c = Some (bs_session b)"
    "ro_parts client_role c = Some b \<Longrightarrow> ro_parts client_role (ro_put client_role b' c) = Some b'"
    by (auto simp: client_role_def joined_def split: client_state.splits)
  show "ro_after client_role Stay c = c" by (simp add: client_role_def client_after_def)
  show "ro_parts client_role c = Some b \<Longrightarrow>
      ro_session client_role (ro_after client_role Unbind c) = Some (bs_session b) \<or> client_over (ro_after client_role Unbind c)"
    by (auto simp: client_role_def client_after_def client_moved_def client_unbound_def joined_def split: client_state.splits)
  show "ro_parts client_role c = None \<Longrightarrow> ro_session client_role (ro_before client_role c) = ro_session client_role c"
    by (auto simp: client_role_def client_application_before_established_def client_moved_def client_violation_def client_core_def
      split: client_state.splits)
  show "client_over c \<Longrightarrow> client_over (ro_before client_role c)"
    by (auto simp: client_role_def client_application_before_established_def client_core_def split: client_state.splits)
qed

datatype client_op =
    CNegotiate | CEstablish | CMessage session_message | CTimeout | CTransportClosed | CShared role_op

fun client_numbers :: "session_message \<Rightarrow> instant \<Rightarrow> fixp_client \<Rightarrow> nat list" where
  "client_numbers m now c =
    (if fc_transport_closing (cl_core c) then []
     else (case (classify m, cl_state c) of
             (Peer p, ClBound s bi) \<Rightarrow> report_number p now (joined (cl_core c) s bi)
           | _ \<Rightarrow> []))"

fun client_step :: "client_op \<times> instant \<Rightarrow> fixp_client \<Rightarrow> nat list \<times> fixp_client" where
  "client_step (CNegotiate, now) c = ([], snd (client_negotiate now c))"
| "client_step (CEstablish, now) c = ([], snd (client_establish now c))"
| "client_step (CMessage m, now) c = (client_numbers m now c, client_handle_message m now c)"
| "client_step (CTimeout, now) c = ([], client_handle_timeout now c)"
| "client_step (CTransportClosed, now) c = ([], client_on_transport_closed c)"
| "client_step (CShared op, now) c = role_step client_role op now c"

abbreviation client_tracks :: "nat list \<Rightarrow> fixp_client \<Rightarrow> fixp_client \<Rightarrow> bool" where
  "client_tracks \<equiv> tracks client_role client_over"

lemma client_over_iff: "client_over c \<longleftrightarrow> (\<exists>reason. cl_state c = ClClosed reason)"
  by (auto split: client_state.splits)

declare client_over.simps [simp del] client_over_iff [simp]

lemma client_role_simps [simp]:
  "ro_session client_role c = client_session_of (cl_state c)"
  "ro_parts client_role c = (case cl_state c of ClBound session binding \<Rightarrow> Some (joined (cl_core c) session binding) | _ \<Rightarrow> None)"
  by (simp_all add: client_role_def)

lemma client_simps [simp]:
  "cl_state (client_core f c) = cl_state c" "cl_core (client_core f c) = f (cl_core c)"
  "cl_state (client_moved (st, c)) = st" "cl_core (client_moved (st, c)) = cl_core c"
  by (simp_all add: client_core_def client_moved_def)

lemma joined_simps [simp]: "bs_core (joined k s bi) = k" "bs_session (joined k s bi) = s" "bs_binding (joined k s bi) = bi"
  by (simp_all add: joined_def)

lemma client_bound_state: "client_session_of (fst (client_bound r c)) = Some (bs_session (snd r)) \<or> (\<exists>x. fst (client_bound r c) = ClClosed x)"
  by (cases r; cases "fst r") (auto simp: client_bound_def client_unbound_def)

lemma client_tracks_bound:
  assumes st: "cl_state c = ClBound s bi" and ok: "recovery_ok s \<Longrightarrow> step_ok ns D (joined (cl_core c) s bi) (snd r)"
  shows "client_tracks ns c (client_moved (client_bound r c'))"
proof (rule client.tracks_bound)
  show "ro_parts client_role c = Some (joined (cl_core c) s bi)" by (simp add: st)
  show "recovery_ok (bs_session (joined (cl_core c) s bi)) \<Longrightarrow> step_ok ns D (joined (cl_core c) s bi) (snd r)" using ok by simp
  show "ro_session client_role (client_moved (client_bound r c')) = Some (bs_session (snd r)) \<or> client_over (client_moved (client_bound r c'))"
    using client_bound_state[of r c'] by (auto simp: client_moved_def)
qed

lemma client_violation_tracks: "client_tracks [] c (client_moved (client_violation (cl_state c) reason c))"
proof (cases "cl_state c")
  case (ClBound s bi)
  have "client_violation (cl_state c) reason c = client_bound (Unbind, snd (violation reason (joined (cl_core c) s bi))) c"
    by (simp add: ClBound client_bound_def client_violation_def case_prod_beta)
  then show ?thesis
    using client_tracks_bound[OF ClBound, of "[]" "{}"] settles_violation[of "joined (cl_core c) s bi" reason]
    by (simp add: step_ok_dropped)
next
  case (ClNegotiating request sent_at)
  then show ?thesis by (intro client.tracks_over) (simp add: client_violation_def)
qed (auto simp: client_violation_def intro!: client.tracks_same)

text \<open>What a handler does when the client is not bound.\<close>

lemma client_kept: "cl_state c' = cl_state c \<Longrightarrow> client_tracks [] c c'"
  by (rule client.tracks_same) auto

lemma client_ignored: "client_tracks [] c (client_moved (client_ignore m reason (cl_state c) c))"
  by (rule client_kept) (simp add: client_ignore_def)

lemma client_to_negotiated: "client_session_of (cl_state c) = Some s \<Longrightarrow> cl_state c' = ClNegotiated s \<Longrightarrow> client_tracks [] c c'"
  by (rule client.tracks_same) auto

lemma client_answer_tracks:
  "client_tracks [] c (client_moved (client_on_negotiation_response (cl_state c) m1 c))"
  "client_tracks [] c (client_moved (client_on_negotiation_reject (cl_state c) m2 c))"
  "client_tracks [] c (client_moved (client_on_establishment_reject (cl_state c) m3 c))"
proof -
  have new: "client_session_of (cl_state c) = None \<Longrightarrow> cl_state c' = ClNegotiated (session_new i lf rf) \<Longrightarrow> \<not> client_over c \<Longrightarrow>
      client_tracks [] c c'" for c' i lf rf
    by (rule client.tracks_new) simp_all
  show "client_tracks [] c (client_moved (client_on_negotiation_response (cl_state c) m1 c))"
    using client_ignored[of c] by (auto simp: client_on_negotiation_response_def intro: client.tracks_over new split: client_state.split)
  show "client_tracks [] c (client_moved (client_on_negotiation_reject (cl_state c) m2 c))"
    using client_ignored[of c] by (auto simp: client_on_negotiation_reject_def intro: client.tracks_over split: client_state.split)
  show "client_tracks [] c (client_moved (client_on_establishment_reject (cl_state c) m3 c))"
    using client_ignored[of c]
    by (auto simp: client_on_establishment_reject_def intro: client.tracks_over client_to_negotiated split: client_state.split)
qed

lemma client_ack_tracks: "client_tracks [] c (client_moved (client_on_establishment_ack (cl_state c) m now c))"
proof (cases "cl_state c")
  case (ClEstablishing s request sent_at)
  define r where "r = release_binding_state s"
  have rel: "advances {} s r" if "recovery_ok s" using release_advances[OF that] by (simp add: r_def)
  have old: "ro_session client_role c = Some s" by (simp add: ClEstablishing)
  have ok: "recovery_ok r" if "recovery_ok s" using rel[OF that] by (rule advances_ok)
  have bad: "client_tracks [] c c'" if st: "cl_state c' = ClNegotiated (release_binding_state r)" for c'
  proof (rule client.tracks_moved[OF old])
    show "recovery_ok s \<Longrightarrow> advances {} s (release_binding_state r)" using advances_then rel release_advances ok by blast
  qed (simp add: st)
  have goods: "client_tracks [] c (client_moved (ClNegotiated (bs_session (snd (on_established n now (joined k r bi)))), c'))"
    "client_tracks [] c (client_moved (ClBound (bs_session (snd (on_established n now (joined k r bi)))) bi', c'))" for n k bi bi' c'
    by (rule client.tracks_established[OF old, folded r_def], simp)+
  show ?thesis
    using client_ignored[of c]
    by (auto simp: ClEstablishing client_on_establishment_ack_def Let_def session_bind_def r_def[symmetric] case_prod_beta
      intro: bad goods split: bound.split)
qed (use client_ignored[of c] in \<open>simp_all add: client_on_establishment_ack_def\<close>)

lemma client_on_handshake_tracks: "client_tracks [] c (client_moved (client_on_handshake (cl_state c) m now c))"
  using client_answer_tracks client_ack_tracks client_violation_tracks
  by (auto simp: client_on_handshake_def split: handshake_message.split)

lemma client_on_peer_tracks:
  "client_tracks (case cl_state c of ClBound s bi \<Rightarrow> report_number m now (joined (cl_core c) s bi) | _ \<Rightarrow> []) c
     (client_moved (client_on_peer (cl_state c) m now c))"
proof (cases "cl_state c")
  case (ClBound s bi)
  show ?thesis
    using client_tracks_bound[OF ClBound on_peer_ok, of m now c] by (simp add: ClBound client_on_peer_def)
next
  case (ClClosed r)
  then show ?thesis by (auto simp: client_on_peer_def intro: client.tracks_over)
next
  case (ClNegotiating request sent_at)
  then show ?thesis using client_violation_tracks[of c]
    by (auto simp: client_on_peer_def intro: client.tracks_over client_kept split: peer_message.split)
qed (use client_violation_tracks[of c] in
    \<open>auto simp: client_on_peer_def intro: client_kept client_to_negotiated split: peer_message.split\<close>)

lemma client_timeout_tracks: "client_tracks [] c (client_handle_timeout now c)"
proof (cases "cl_state c")
  case (ClBound s bi)
  have "recovery_ok s \<Longrightarrow> step_ok [] {} (joined (cl_core c) s bi) (snd (on_timeout now (joined (cl_core c) s bi)))"
    using on_timeout_settles[of "joined (cl_core c) s bi" now] by (simp add: step_ok_dropped)
  from client_tracks_bound[OF ClBound this, of c] show ?thesis by (simp add: ClBound client_handle_timeout_def)
qed (auto simp: client_handle_timeout_def Let_def intro: client.tracks_over client_kept client_to_negotiated)

lemma client_transport_closed_tracks: "client_tracks [] c (client_on_transport_closed c)"
proof (cases "cl_state c")
  case (ClBound s bi)
  have "ro_session client_role c = Some s" by (simp add: ClBound)
  then show ?thesis
    by (rule client.tracks_moved) (auto intro: release_advances simp: Let_def client_on_transport_closed_def ClBound client_unbound_def)
qed (auto simp: client_on_transport_closed_def Let_def intro: client.tracks_over client_kept client_to_negotiated)

lemma client_request_tracks: "client_tracks [] c (snd (client_negotiate now c))" "client_tracks [] c (snd (client_establish now c))"
proof -
  have idle: "client_tracks [] c c'" if "cl_state c = ClIdle" "client_session_of (cl_state c') = None" for c'
    by (rule client.tracks_same) (use that in auto)
  have wait: "client_tracks [] c c'" if "cl_state c = ClNegotiated s" "cl_state c' = ClEstablishing s q t" for c' s q t
    by (rule client.tracks_same) (use that in auto)
  show "client_tracks [] c (snd (client_negotiate now c))" "client_tracks [] c (snd (client_establish now c))"
    by (auto simp: client_negotiate_def client_establish_def intro: client_kept idle wait
      split: prod.split sum.split client_state.split)
qed

lemma client_step_tracks: "client_tracks (fst (client_step op c)) c (snd (client_step op c))"
proof (cases op)
  case (Pair o' now)
  have "client_tracks (client_numbers m now c) c (client_handle_message m now c)" for m
    using client_on_peer_tracks[where c = c] client_on_handshake_tracks[of c]
    by (cases "classify m"; cases "cl_state c") (auto simp: client_handle_message_def intro: client_kept)
  then show ?thesis
    using client_request_tracks client_timeout_tracks client_transport_closed_tracks client.role_step_tracks
    by (cases o') (simp_all add: Pair)
qed

subsection \<open>The server as a role\<close>

fun server_over :: "fixp_server \<Rightarrow> bool" where
  "server_over v = (case sv_state v of SvClosed _ \<Rightarrow> True | _ \<Rightarrow> False)"

interpretation server: session_role server_role server_over
proof
  fix v :: fixp_server and b b' :: bound_session
  show "server_over v \<Longrightarrow> ro_session server_role v = None"
    by (auto simp: server_role_def split: server_state.splits)
  show "ro_parts server_role v = Some b \<Longrightarrow> ro_session server_role v = Some (bs_session b)"
    "ro_parts server_role v = Some b \<Longrightarrow> ro_parts server_role (ro_put server_role b' v) = Some b'"
    by (auto simp: server_role_def joined_def split: server_state.splits)
  show "ro_after server_role Stay v = v" by (simp add: server_role_def server_after_def)
  show "ro_parts server_role v = Some b \<Longrightarrow>
      ro_session server_role (ro_after server_role Unbind v) = Some (bs_session b) \<or> server_over (ro_after server_role Unbind v)"
    by (auto simp: server_role_def server_after_def server_moved_def server_unbound_def split: server_state.splits)
  show "ro_parts server_role v = None \<Longrightarrow> ro_session server_role (ro_before server_role v) = ro_session server_role v"
    by (auto simp: server_role_def server_application_before_established_def server_moved_def server_violation_def server_core_def
      split: server_state.splits)
  show "server_over v \<Longrightarrow> server_over (ro_before server_role v)"
    by (auto simp: server_role_def server_application_before_established_def server_core_def split: server_state.splits)
qed

datatype server_op =
    SAcceptNegotiation flow_type "bytes option"
  | SRejectNegotiation negotiation_reject_code bytes
  | SAcceptEstablishment
  | SRejectEstablishment establishment_reject_code bytes
  | STransportOpened
  | SMessage session_message
  | STimeout
  | STransportClosed
  | SShared role_op

fun server_numbers :: "session_message \<Rightarrow> instant \<Rightarrow> fixp_server \<Rightarrow> nat list" where
  "server_numbers m now v =
    (if fc_transport_closing (sv_core v) then []
     else (case (classify m, sv_state v) of
             (Peer p, SvBound s bi) \<Rightarrow> report_number p now (joined (sv_core v) s bi)
           | _ \<Rightarrow> []))"

fun server_step :: "server_op \<times> instant \<Rightarrow> fixp_server \<Rightarrow> nat list \<times> fixp_server" where
  "server_step (SAcceptNegotiation flow credentials, now) v = ([], snd (accept_negotiation flow credentials now v))"
| "server_step (SRejectNegotiation code reason, now) v = ([], snd (reject_negotiation code reason v))"
| "server_step (SAcceptEstablishment, now) v = ([], snd (accept_establishment now v))"
| "server_step (SRejectEstablishment code reason, now) v = ([], snd (reject_establishment code reason now v))"
| "server_step (STransportOpened, now) v = ([], snd (server_on_transport_opened now v))"
| "server_step (SMessage m, now) v = (server_numbers m now v, server_handle_message m now v)"
| "server_step (STimeout, now) v = ([], server_handle_timeout now v)"
| "server_step (STransportClosed, now) v = ([], server_on_transport_closed v)"
| "server_step (SShared op, now) v = role_step server_role op now v"

abbreviation server_tracks :: "nat list \<Rightarrow> fixp_server \<Rightarrow> fixp_server \<Rightarrow> bool" where
  "server_tracks \<equiv> tracks server_role server_over"

lemma server_over_iff: "server_over v \<longleftrightarrow> (\<exists>reason. sv_state v = SvClosed reason)"
  by (auto split: server_state.splits)

declare server_over.simps [simp del] server_over_iff [simp]

lemma server_role_simps [simp]:
  "ro_session server_role v = server_session_of (sv_state v)"
  "ro_parts server_role v = (case sv_state v of SvBound session binding \<Rightarrow> Some (joined (sv_core v) session binding) | _ \<Rightarrow> None)"
  by (simp_all add: server_role_def)

lemma server_simps [simp]:
  "sv_state (server_core f v) = sv_state v" "sv_core (server_core f v) = f (sv_core v)"
  "sv_state (server_moved (st, v)) = st" "sv_core (server_moved (st, v)) = sv_core v"
  by (simp_all add: server_core_def server_moved_def)

lemma server_bound_state: "server_session_of (fst (server_bound r v)) = Some (bs_session (snd r)) \<or> (\<exists>x. fst (server_bound r v) = SvClosed x)"
  by (cases r; cases "fst r") (auto simp: server_bound_def server_unbound_def)

lemma server_tracks_bound:
  assumes st: "sv_state v = SvBound s bi" and ok: "recovery_ok s \<Longrightarrow> step_ok ns D (joined (sv_core v) s bi) (snd r)"
  shows "server_tracks ns v (server_moved (server_bound r v'))"
proof (rule server.tracks_bound)
  show "ro_parts server_role v = Some (joined (sv_core v) s bi)" by (simp add: st)
  show "recovery_ok (bs_session (joined (sv_core v) s bi)) \<Longrightarrow> step_ok ns D (joined (sv_core v) s bi) (snd r)" using ok by simp
  show "ro_session server_role (server_moved (server_bound r v')) = Some (bs_session (snd r)) \<or> server_over (server_moved (server_bound r v'))"
    using server_bound_state[of r v'] by (auto simp: server_moved_def)
qed

lemma server_kept: "sv_state v' = sv_state v \<Longrightarrow> server_tracks [] v v'"
  by (rule server.tracks_same) auto

lemma server_to_negotiated: "server_session_of (sv_state v) = Some s \<Longrightarrow> sv_state v' = SvNegotiated s d \<Longrightarrow> server_tracks [] v v'"
  by (rule server.tracks_same) auto

lemma server_violation_tracks: "server_tracks [] v (server_moved (server_violation (sv_state v) reason v'))"
proof (cases "sv_state v")
  case (SvBound s bi)
  have "server_violation (sv_state v) reason v' = server_bound (Unbind, snd (violation reason (joined (sv_core v') s bi))) v'"
    by (simp add: SvBound server_bound_def server_violation_def case_prod_beta)
  moreover have "recovery_ok s \<Longrightarrow> step_ok [] {} (joined (sv_core v) s bi) (snd (violation reason (joined (sv_core v') s bi)))"
    using settles_violation[of "joined (sv_core v') s bi" reason] by (simp add: step_ok_dropped)
  ultimately show ?thesis using server_tracks_bound[OF SvBound, of "[]" "{}"] by simp
qed (auto simp: server_violation_def intro: server.tracks_over server_kept server_to_negotiated)

text \<open>The application's answers.\<close>

lemma server_answer_tracks:
  "server_tracks [] v (snd (accept_negotiation flow credentials now v))"
  "server_tracks [] v (snd (reject_negotiation ncode reason v))"
  "server_tracks [] v (snd (reject_establishment ecode reason now v))"
  "server_tracks [] v (snd (server_on_transport_opened now v))"
proof -
  have new: "sv_state v = SvNegotiationPending i q f d \<Longrightarrow> sv_state v' = SvNegotiated (session_new i' lf rf) d' \<Longrightarrow>
      server_tracks [] v v'" for v' i q f d i' lf rf d'
    by (rule server.tracks_new) simp_all
  show "server_tracks [] v (snd (accept_negotiation flow credentials now v))"
    by (auto simp: accept_negotiation_def refuse_command_def intro: server_kept new split: server_state.split)
  show "server_tracks [] v (snd (reject_negotiation ncode reason v))"
    by (auto simp: reject_negotiation_def refuse_command_def thenS_def liftS_def intro: server_kept server.tracks_over
      split: server_state.split sum.split)
  show "server_tracks [] v (snd (reject_establishment ecode reason now v))"
    by (auto simp: reject_establishment_def refuse_command_def thenS_def liftS_def intro: server_kept server_to_negotiated
      split: server_state.split sum.split)
  show "server_tracks [] v (snd (server_on_transport_opened now v))"
    by (auto simp: server_on_transport_opened_def intro: server_kept server_to_negotiated split: server_state.split option.split)
qed

text \<open>A binding starts from the session that was negotiated, moved on.\<close>

lemma server_accept_tracks: "server_tracks [] v (snd (accept_establishment now v))"
proof (cases "sv_state v")
  case (SvEstablishPending s request keepalive nxt deadline)
  define r where "r = release_binding_state s"
  have old: "ro_session server_role v = Some s" by (simp add: SvEstablishPending)
  have goods: "server_tracks [] v (v'\<lparr>sv_state := SvNegotiated (bs_session (snd (on_established n now (joined k r bi)))) d\<rparr>)"
    "server_tracks [] v (v'\<lparr>sv_state := SvBound (bs_session (snd (on_established n now (joined k r bi)))) bi'\<rparr>)" for n k bi bi' v' d
    by (rule server.tracks_established[OF old, folded r_def], simp)+
  show ?thesis
    by (auto simp: SvEstablishPending accept_establishment_def Let_def session_bind_def r_def[symmetric] case_prod_beta
      intro: goods split: bound.split)
qed (auto simp: accept_establishment_def refuse_command_def intro: server_kept)

text \<open>What the client sends.\<close>

lemma refused_state [simp]:
  "sv_state (refuse_negotiate m ncode reason v) = sv_state v" "sv_state (refuse_renegotiation s m v) = sv_state v"
  "sv_state (refuse_establish e ecode reason v) = sv_state v"
  by (simp_all add: refuse_negotiate_def refuse_renegotiation_def refuse_establish_def)

lemma on_negotiate_tracks: "server_tracks [] v (server_moved (on_negotiate (sv_state v) m now v))"
proof (cases "sv_state v")
  case (SvAwaitingNegotiate since)
  have "server_tracks [] v v'" if "sv_state v' = SvNegotiationPending i q f d" for v' i q f d
    by (rule server.tracks_same) (simp_all add: that SvAwaitingNegotiate)
  then show ?thesis by (auto simp: SvAwaitingNegotiate on_negotiate_def intro: server.tracks_over)
next
  case (SvClosed reason)
  then show ?thesis by (auto simp: on_negotiate_def intro!: server.tracks_over split: server_closed.split)
next
  case (SvBound s bi)
  then show ?thesis using server_violation_tracks[of v]
    by (auto simp: on_negotiate_def server_ignore_def intro: server_kept)
qed (use server_violation_tracks[of v] in \<open>simp_all add: on_negotiate_def\<close>)

lemma on_establish_tracks: "server_tracks [] v (server_moved (on_establish (sv_state v) m now v))"
proof (cases "sv_state v")
  case (SvNegotiated s d)
  have "server_tracks [] v v'" if "sv_state v' = SvEstablishPending s q k n d'" for v' q k n d'
    by (rule server.tracks_same) (simp_all add: that SvNegotiated)
  then show ?thesis
    by (auto simp: SvNegotiated on_establish_def on_establish_negotiated_def Let_def intro: server_to_negotiated)
next
  case (SvClosed reason)
  then show ?thesis by (auto simp: on_establish_def intro!: server.tracks_over split: server_closed.split)
next
  case (SvBound s bi)
  then show ?thesis by (auto simp: on_establish_def server_ignore_def intro: server_kept)
next
  case (SvAwaitingNegotiate since)
  then show ?thesis by (auto simp: on_establish_def intro: server.tracks_over)
qed (use server_violation_tracks[of v] in \<open>simp_all add: on_establish_def\<close>)

lemma server_on_handshake_tracks: "server_tracks [] v (server_moved (server_on_handshake (sv_state v) m now v))"
  using on_negotiate_tracks on_establish_tracks server_violation_tracks
  by (auto simp: server_on_handshake_def split: handshake_message.split)

lemma server_on_peer_tracks:
  "server_tracks (case sv_state v of SvBound s bi \<Rightarrow> report_number m now (joined (sv_core v) s bi) | _ \<Rightarrow> []) v
     (server_moved (server_on_peer (sv_state v) m now v))"
proof (cases "sv_state v")
  case (SvBound s bi)
  show ?thesis
    using server_tracks_bound[OF SvBound on_peer_ok, of m now v] by (simp add: SvBound server_on_peer_def)
next
  case (SvClosed r)
  then show ?thesis by (auto simp: server_on_peer_def intro: server.tracks_over)
qed (use server_violation_tracks[of v] in
    \<open>auto simp: server_on_peer_def intro: server_kept server_to_negotiated server.tracks_over split: peer_message.split\<close>)

lemma server_timeout_tracks: "server_tracks [] v (server_handle_timeout now v)"
proof (cases "sv_state v")
  case (SvBound s bi)
  have "recovery_ok s \<Longrightarrow> step_ok [] {} (joined (sv_core v) s bi) (snd (on_timeout now (joined (sv_core v) s bi)))"
    using on_timeout_settles[of "joined (sv_core v) s bi" now] by (simp add: step_ok_dropped)
  from server_tracks_bound[OF SvBound this, of v] show ?thesis by (simp add: SvBound server_handle_timeout_def)
qed (auto simp: server_handle_timeout_def Let_def intro: server.tracks_over server_kept server_to_negotiated)

lemma server_transport_closed_tracks: "server_tracks [] v (server_on_transport_closed v)"
proof (cases "sv_state v")
  case (SvBound s bi)
  have "ro_session server_role v = Some s" by (simp add: SvBound)
  then show ?thesis
    by (rule server.tracks_moved) (auto intro: release_advances simp: Let_def server_on_transport_closed_def SvBound server_unbound_def)
qed (auto simp: server_on_transport_closed_def Let_def intro: server.tracks_over server_kept server_to_negotiated)

lemma server_step_tracks: "server_tracks (fst (server_step op v)) v (snd (server_step op v))"
proof (cases op)
  case (Pair o' now)
  have "server_tracks (server_numbers m now v) v (server_handle_message m now v)" for m
    using server_on_peer_tracks[where v = v] server_on_handshake_tracks[of v]
    by (cases "classify m"; cases "sv_state v") (auto simp: server_handle_message_def intro: server_kept)
  then show ?thesis
    using server_answer_tracks server_accept_tracks server_timeout_tracks server_transport_closed_tracks server.role_step_tracks
    by (cases o') (simp_all add: Pair)
qed

subsection \<open>After the transport is asked to be closed: the client\<close>

fun client_calm :: "fixp_client \<Rightarrow> bool" where
  "client_calm c = (case cl_state c of ClIdle \<Rightarrow> True | ClNegotiated _ \<Rightarrow> True | ClClosed _ \<Rightarrow> True | _ \<Rightarrow> False)"

abbreviation client_calms :: "fixp_client \<Rightarrow> fixp_client \<Rightarrow> bool" where
  "client_calms \<equiv> calms cl_core client_calm"

lemma client_moved_calms:
  assumes "fc_transport_closing (cl_core c) \<longrightarrow> client_calm c \<Longrightarrow> quiets (cl_core c) (cl_core c')
      \<and> (fc_transport_closing (cl_core c') \<longrightarrow> st = ClIdle \<or> (\<exists>s. st = ClNegotiated s) \<or> (\<exists>x. st = ClClosed x))"
  shows "client_calms c (client_moved (st, c'))"
  using assms by (auto simp: calms_def)

lemma client_violation_unbound_calms:
  "(\<And>s bi. cl_state c \<noteq> ClBound s bi) \<Longrightarrow> \<not> fc_transport_closing (cl_core c) \<Longrightarrow>
     client_calms c (client_moved (client_violation (cl_state c) reason c))"
  by (cases "cl_state c") (auto simp: client_violation_def calms_def)

interpretation client_quiet: quiet_role client_role client_over cl_core client_calm
proof
  fix c :: fixp_client and b :: bound_session
  show "client_calm c \<Longrightarrow> ro_parts client_role c = None"
    by (auto split: client_state.splits)
  show "ro_parts client_role c = Some b \<Longrightarrow> bs_core b = cl_core c"
    by (auto split: client_state.splits)
  show "cl_core (ro_put client_role b c) = bs_core b" by (simp add: client_role_def)
  show "ro_parts client_role c = Some b \<Longrightarrow> client_calm (ro_after client_role Unbind c)
      \<and> quiets (cl_core c) (cl_core (ro_after client_role Unbind c))"
    by (auto simp: client_role_def client_after_def client_unbound_def split: client_state.splits)
  show "ro_parts client_role c = None \<Longrightarrow> calms cl_core client_calm c (ro_before client_role c)"
    using client_violation_unbound_calms[of c]
    by (cases "cl_state c")
      (auto simp: client_role_def client_application_before_established_def calms_def)
qed

lemma client_bound_calms:
  assumes st: "cl_state c = ClBound s bi" and says: "says (joined (cl_core c) s bi) r"
  shows "client_calms c (client_moved (client_bound r c))"
proof -
  have "client_moved (client_bound r c) = ro_after client_role (fst r) (ro_put client_role (snd r) c)"
    by (cases r; cases "fst r")
      (simp_all add: client_role_def client_bound_def client_unbound_def client_after_def client_moved_def client_core_def)
  then show ?thesis
    using client_quiet.bound_calms[of c "joined (cl_core c) s bi" "fst r" "snd r"] says st by simp
qed

lemma client_violation_calms:
  assumes "\<not> fc_transport_closing (cl_core c)"
  shows "client_calms c (client_moved (client_violation (cl_state c) reason c))"
proof (cases "\<exists>s bi. cl_state c = ClBound s bi")
  case True
  then obtain s bi where st: "cl_state c = ClBound s bi" by blast
  have "client_violation (cl_state c) reason c = client_bound (violation reason (joined (cl_core c) s bi)) c"
    by (simp add: st client_violation_def client_bound_def case_prod_beta split: bound.split)
  then show ?thesis using client_bound_calms[OF st violation_says] by simp
qed (use client_violation_unbound_calms assms in blast)

lemma client_kept_calms: "cl_state c' = cl_state c \<Longrightarrow> cl_core c' = core_ignore n reason (cl_core c) \<Longrightarrow> client_calms c c'"
  by (auto simp: calms_def split: client_state.splits)

lemma client_refl_calms: "cl_state c' = cl_state c \<Longrightarrow> cl_core c' = cl_core c \<Longrightarrow> client_calms c c'"
  by (auto simp: calms_def split: client_state.splits)

lemma client_ignored_calms: "client_calms c (client_moved (client_ignore m reason (cl_state c) c))"
  by (rule client_kept_calms) (simp_all add: client_ignore_def)

lemma client_answer_calms:
  assumes idle: "\<not> fc_transport_closing (cl_core c)"
  shows "client_calms c (client_moved (client_on_negotiation_response (cl_state c) m1 c))"
    and "client_calms c (client_moved (client_on_negotiation_reject (cl_state c) m2 c))"
    and "client_calms c (client_moved (client_on_establishment_reject (cl_state c) m3 c))"
  using client_ignored_calms[of c] idle
  by (auto simp: client_on_negotiation_response_def client_on_negotiation_reject_def client_on_establishment_reject_def
    intro!: client_moved_calms split: client_state.split)

lemma client_ack_calms:
  assumes idle: "\<not> fc_transport_closing (cl_core c)"
  shows "client_calms c (client_moved (client_on_establishment_ack (cl_state c) m now c))"
proof (cases "cl_state c")
  case (ClEstablishing s request sent_at)
  have bad: "quiets (cl_core c) (bs_core (snd (violation reason (joined (cl_core c) s1 bi))))" for reason s1 bi
    using says_quiets[OF violation_says[of "joined (cl_core c) s1 bi" reason]] idle by simp
  have good: "quiets (cl_core c) (bs_core (snd r)) \<and> (closing (snd r) \<longleftrightarrow> fst r = Unbind)"
    if r: "r = on_established n now (joined (core_event e (cl_core c)) s1 bi)" for r n e s1 bi
    using says_quiets[OF on_established_says[of "joined (core_event e (cl_core c)) s1 bi" n now]] idle
      quiets_trans[of "cl_core c" "core_event e (cl_core c)" "bs_core (snd r)"] by (simp add: r)
  show ?thesis
    using client_ignored_calms[of c] bad good[OF refl] idle
    by (auto simp: ClEstablishing client_on_establishment_ack_def Let_def session_bind_def case_prod_beta
      intro!: client_moved_calms split: bound.split)
qed (use client_ignored_calms[of c] in \<open>simp_all add: client_on_establishment_ack_def\<close>)

lemma client_handle_message_calms: "client_calms c (client_handle_message m now c)"
proof (cases "fc_transport_closing (cl_core c)")
  case True
  then show ?thesis by (auto simp: client_handle_message_def intro: client_kept_calms)
next
  case idle: False
  have peer: "client_calms c (client_moved (client_on_peer (cl_state c) p now c))" for p
  proof (cases "\<exists>s bi. cl_state c = ClBound s bi")
    case True
    then obtain s bi where st: "cl_state c = ClBound s bi" by blast
    show ?thesis using client_bound_calms[OF st on_peer_says] by (simp add: st client_on_peer_def)
  next
    case False
    have fell: "client_calms c (client_moved (client_after_unbound_failure (cl_state c), client_core (core_close_transport \<circ> core_event e) c))" for e
      using False idle by (cases "cl_state c") (auto intro!: client_moved_calms)
    show ?thesis
      using False fell client_violation_calms[OF idle] client_refl_calms[of "client_moved (cl_state c, c)" c]
      by (cases "cl_state c"; cases p) (auto simp: client_on_peer_def)
  qed
  show ?thesis
    using client_answer_calms[OF idle] client_ack_calms[OF idle] client_violation_calms[OF idle] peer idle
    by (auto simp: client_handle_message_def client_on_handshake_def split: classified.split handshake_message.split)
qed

lemma client_step_calms:
  assumes "fst op \<noteq> CTransportClosed"
  shows "client_calms c (snd (client_step op c))"
proof (cases op)
  case (Pair o' now)
  have timeout: "client_calms c (client_handle_timeout now c)"
  proof (cases "cl_state c")
    case (ClBound s bi)
    then show ?thesis using client_bound_calms[OF ClBound on_timeout_says] by (simp add: client_handle_timeout_def)
  qed (auto simp: client_handle_timeout_def Let_def intro!: client_moved_calms)
  have stamp: "quiets k k' \<and> fc_transport_closing k' = fc_transport_closing k" if "request_timestamp now k = (r, k')" for r k k'
    using that by (auto simp: request_timestamp_def split: prod.splits)
  have sent: "quiets k (core_send m k') \<and> fc_transport_closing k' = fc_transport_closing k"
    if "request_timestamp now k = (r, k')" "\<not> fc_transport_closing k" for m r k k'
    using stamp[OF that(1)] quiets_trans[of k k' "core_send m k'"] that(2) by simp
  have requests: "client_calms c (snd (client_negotiate now c))" "client_calms c (snd (client_establish now c))"
    by (auto simp: client_negotiate_def client_establish_def calms_def dest: stamp sent split: prod.split sum.split client_state.splits)
  show ?thesis
    using assms timeout requests client_handle_message_calms client_quiet.role_step_calms
    by (cases o') (simp_all add: Pair)
qed

subsection \<open>After the transport is asked to be closed: the server\<close>

fun server_calm :: "fixp_server \<Rightarrow> bool" where
  "server_calm v = (case sv_state v of SvNegotiated _ deadline \<Rightarrow> deadline = None | SvClosed _ \<Rightarrow> True | _ \<Rightarrow> False)"

abbreviation server_calms :: "fixp_server \<Rightarrow> fixp_server \<Rightarrow> bool" where
  "server_calms \<equiv> calms sv_core server_calm"

lemma server_moved_calms:
  assumes "fc_transport_closing (sv_core v) \<longrightarrow> server_calm v \<Longrightarrow> quiets (sv_core v) (sv_core v')
      \<and> (fc_transport_closing (sv_core v') \<longrightarrow> (\<exists>s. st = SvNegotiated s None) \<or> (\<exists>x. st = SvClosed x))"
  shows "server_calms v (server_moved (st, v'))"
  using assms by (auto simp: calms_def)

text \<open>A violation outside a binding, after something was said that is no close.\<close>

lemma server_violation_unbound_calms:
  "(\<And>s bi. sv_state v \<noteq> SvBound s bi) \<Longrightarrow> \<not> fc_transport_closing (sv_core v') \<Longrightarrow> quiets (sv_core v) (sv_core v') \<Longrightarrow>
     server_calms v (server_moved (server_violation (sv_state v) reason v'))"
  by (cases "sv_state v") (auto simp: server_violation_def intro!: server_moved_calms intro: quiets_trans)

interpretation server_quiet: quiet_role server_role server_over sv_core server_calm
proof
  fix v :: fixp_server and b :: bound_session
  show "server_calm v \<Longrightarrow> ro_parts server_role v = None"
    by (auto split: server_state.splits)
  show "ro_parts server_role v = Some b \<Longrightarrow> bs_core b = sv_core v"
    by (auto split: server_state.splits)
  show "sv_core (ro_put server_role b v) = bs_core b" by (simp add: server_role_def)
  show "ro_parts server_role v = Some b \<Longrightarrow> server_calm (ro_after server_role Unbind v)
      \<and> quiets (sv_core v) (sv_core (ro_after server_role Unbind v))"
    by (auto simp: server_role_def server_after_def server_unbound_def split: server_state.splits)
  show "ro_parts server_role v = None \<Longrightarrow> calms sv_core server_calm v (ro_before server_role v)"
    using server_violation_unbound_calms[of v v]
    by (cases "sv_state v")
      (auto simp: server_role_def server_application_before_established_def calms_def)
qed

lemma server_bound_calms:
  assumes st: "sv_state v = SvBound s bi" and says: "says (joined (sv_core v) s bi) r"
  shows "server_calms v (server_moved (server_bound r v))"
proof -
  have "server_moved (server_bound r v) = ro_after server_role (fst r) (ro_put server_role (snd r) v)"
    by (cases r; cases "fst r")
      (simp_all add: server_role_def server_bound_def server_unbound_def server_after_def server_moved_def server_core_def)
  then show ?thesis
    using server_quiet.bound_calms[of v "joined (sv_core v) s bi" "fst r" "snd r"] says st by simp
qed

lemma server_violation_calms:
  assumes idle: "\<not> fc_transport_closing (sv_core v')" and said: "quiets (sv_core v) (sv_core v')"
  shows "server_calms v (server_moved (server_violation (sv_state v) reason v'))"
proof (cases "\<exists>s bi. sv_state v = SvBound s bi")
  case True
  then obtain s bi where st: "sv_state v = SvBound s bi" by blast
  have "quiets (sv_core v) (bs_core (snd (violation reason (joined (sv_core v') s bi))))"
    using quiets_trans[OF said] says_quiets[OF violation_says[of "joined (sv_core v') s bi" reason]] idle by simp
  then show ?thesis
    by (auto simp: st server_violation_def server_unbound_def case_prod_beta intro!: server_moved_calms intro: quiets_trans)
qed (use server_violation_unbound_calms assms in blast)

lemma server_kept_calms: "sv_state v' = sv_state v \<Longrightarrow> sv_core v' = core_ignore n reason (sv_core v) \<Longrightarrow> server_calms v v'"
  by (auto simp: calms_def split: server_state.splits)

lemma server_refl_calms: "sv_state v' = sv_state v \<Longrightarrow> sv_core v' = sv_core v \<Longrightarrow> server_calms v v'"
  by (auto simp: calms_def split: server_state.splits)

lemma refused_core [simp]:
  "fc_transport_closing (sv_core (refuse_negotiate m ncode reason v)) = fc_transport_closing (sv_core v)"
  "fc_transport_closing (sv_core (refuse_renegotiation s m v)) = fc_transport_closing (sv_core v)"
  "fc_transport_closing (sv_core (refuse_establish e ecode reason v)) = fc_transport_closing (sv_core v)"
  by (simp_all add: refuse_negotiate_def refuse_renegotiation_def refuse_establish_def)

lemma refused_quiets [simp]:
  "\<not> fc_transport_closing (sv_core v) \<Longrightarrow> quiets (sv_core v) (sv_core (refuse_negotiate m ncode reason v))"
  "\<not> fc_transport_closing (sv_core v) \<Longrightarrow> quiets (sv_core v) (sv_core (refuse_renegotiation s m v))"
  "\<not> fc_transport_closing (sv_core v) \<Longrightarrow> quiets (sv_core v) (sv_core (refuse_establish e ecode reason v))"
  by (simp_all add: refuse_negotiate_def refuse_renegotiation_def refuse_establish_def)

lemma on_negotiate_calms:
  assumes idle: "\<not> fc_transport_closing (sv_core v)"
  shows "server_calms v (server_moved (on_negotiate (sv_state v) m now v))"
proof -
  have viol: "server_calms v (server_moved (server_violation (sv_state v) reason v))"
    "server_calms v (server_moved (server_violation (sv_state v) reason (refuse_renegotiation s m v)))" for reason s
    using server_violation_calms[of v v reason] server_violation_calms[of "refuse_renegotiation s m v" v reason] idle by simp_all
  show ?thesis
    using viol idle
    by (cases "sv_state v")
      (auto simp: on_negotiate_def server_ignore_def violation_unbound_def intro!: server_moved_calms split: server_closed.split)
qed

lemma on_establish_calms:
  assumes idle: "\<not> fc_transport_closing (sv_core v)"
  shows "server_calms v (server_moved (on_establish (sv_state v) m now v))"
  using server_violation_calms[of v v] idle
  by (cases "sv_state v")
    (auto simp: on_establish_def on_establish_negotiated_def Let_def server_ignore_def intro!: server_moved_calms split: server_closed.split)

lemma server_handle_message_calms: "server_calms v (server_handle_message m now v)"
proof (cases "fc_transport_closing (sv_core v)")
  case True
  then show ?thesis by (auto simp: server_handle_message_def intro: server_kept_calms)
next
  case idle: False
  have viol: "server_calms v (server_moved (server_violation (sv_state v) reason v))" for reason
    using server_violation_calms[of v v] idle by simp
  have peer: "server_calms v (server_moved (server_on_peer (sv_state v) p now v))" for p
  proof (cases "\<exists>s bi. sv_state v = SvBound s bi")
    case True
    then obtain s bi where st: "sv_state v = SvBound s bi" by blast
    show ?thesis using server_bound_calms[OF st on_peer_says] by (simp add: st server_on_peer_def)
  next
    case False
    have fell: "server_calms v (server_moved (server_after_unbound_failure (sv_state v), server_core (core_close_transport \<circ> core_event e) v))" for e
      using False idle by (cases "sv_state v") (auto intro!: server_moved_calms)
    show ?thesis
      using False fell viol server_refl_calms[of "server_moved (sv_state v, v)" v]
      by (cases "sv_state v"; cases p) (auto simp: server_on_peer_def)
  qed
  show ?thesis
    using on_negotiate_calms[OF idle] on_establish_calms[OF idle] viol peer idle
    by (auto simp: server_handle_message_def server_on_handshake_def split: classified.split handshake_message.split)
qed

lemma server_step_calms:
  assumes "fst op \<noteq> STransportClosed"
  shows "server_calms v (snd (server_step op v))"
proof (cases op)
  case (Pair o' now)
  have timeout: "server_calms v (server_handle_timeout now v)"
  proof (cases "sv_state v")
    case (SvBound s bi)
    then show ?thesis using server_bound_calms[OF SvBound on_timeout_says] by (simp add: server_handle_timeout_def)
  qed (auto simp: server_handle_timeout_def Let_def due_def intro!: server_moved_calms)
  have accept: "server_calms v (snd (accept_establishment now v))"
  proof (cases "sv_state v")
    case (SvEstablishPending s request keepalive nxt deadline)
    have good: "quiets (sv_core v) (bs_core (snd r)) \<and> (closing (snd r) \<longleftrightarrow> fst r = Unbind)"
      if r: "r = on_established n now (joined (core_event e (core_send m (sv_core v))) s1 bi)" "\<not> fc_transport_closing (sv_core v)" for r n e m s1 bi
      using says_quiets[OF on_established_says[of "joined (core_event e (core_send m (sv_core v))) s1 bi" n now]] that(2)
        quiets_trans[of "sv_core v" "core_event e (core_send m (sv_core v))" "bs_core (snd r)"] by (simp add: r)
    show ?thesis
      using good[OF refl]
      by (auto simp: calms_def SvEstablishPending accept_establishment_def Let_def session_bind_def case_prod_beta split: bound.split)
  qed (auto simp: accept_establishment_def refuse_command_def intro: server_refl_calms)
  have answers: "server_calms v (snd (accept_negotiation flow credentials now v))" "server_calms v (snd (reject_negotiation ncode reason v))"
    "server_calms v (snd (reject_establishment ecode reason now v))" "server_calms v (snd (server_on_transport_opened now v))"
    for flow credentials ncode reason ecode
    by (auto simp: accept_negotiation_def reject_negotiation_def reject_establishment_def server_on_transport_opened_def
      refuse_command_def thenS_def liftS_def calms_def split: server_state.splits sum.split option.split)
  show ?thesis
    using assms timeout answers accept server_handle_message_calms server_quiet.role_step_calms
    by (cases o') (simp_all add: Pair)
qed

lemma client_gone:
  assumes "fst op = CTransportClosed"
  shows "\<exists>xs. fc_outputs (cl_core (snd (client_step op c))) = fc_outputs (cl_core c) @ xs \<and> silent xs
     \<and> \<not> fc_transport_closing (cl_core (snd (client_step op c)))"
  using assms by (cases op; cases "cl_state c")
    (auto simp: client_on_transport_closed_def Let_def client_unbound_def core_transport_closed_def)

lemma server_gone:
  assumes "fst op = STransportClosed"
  shows "\<exists>xs. fc_outputs (sv_core (snd (server_step op v))) = fc_outputs (sv_core v) @ xs \<and> silent xs
     \<and> \<not> fc_transport_closing (sv_core (snd (server_step op v)))"
  using assms by (cases op; cases "sv_state v")
    (auto simp: server_on_transport_closed_def Let_def server_unbound_def core_transport_closed_def)

subsection \<open>The properties\<close>

definition client_run :: "(client_op \<times> instant) list \<Rightarrow> fixp_client \<Rightarrow> nat list \<times> fixp_client" where
  "client_run = role_run client_step"

definition server_run :: "(server_op \<times> instant) list \<Rightarrow> fixp_server \<Rightarrow> nat list \<times> fixp_server" where
  "server_run = role_run server_step"

text \<open>
  C7. Exactly once: whatever arrives, is commanded, answered or times out, through negotiation, any
  number of bindings and the end of the session, neither a client nor a server ever hands up two
  application messages with the same sequence number.
\<close>

theorem roles_deliver_once:
  "distinct (fst (client_run ops (client_new config clock i flow credentials)))
   \<and> distinct (fst (server_run ops' (server_new config' clock' now)))"
  using client.role_run_distinct[where step = client_step and r = "client_new config clock i flow credentials" and ops = ops]
    server.role_run_distinct[where step = server_step and r = "server_new config' clock' now" and ops = ops']
    client_step_tracks server_step_tracks
  by (simp add: client_run_def server_run_def client_new_def server_new_def)

definition client_trace :: "(client_op \<times> instant) list \<Rightarrow> fixp_client \<Rightarrow> fixp_output option list" where
  "client_trace = role_trace (\<lambda>op. fst op = CTransportClosed) client_step cl_core"

definition server_trace :: "(server_op \<times> instant) list \<Rightarrow> fixp_server \<Rightarrow> fixp_output option list" where
  "server_trace = role_trace (\<lambda>op. fst op = STransportClosed) server_step sv_core"

text \<open>
  C11. Once a client or a server has asked for its transport to be closed, it sends nothing and does not
  ask again until the driver reports the transport closed, whatever arrives, is commanded or times out.
\<close>

theorem nothing_sent_after_close:
  "orderly False (client_trace ops (client_new config clock i flow credentials))
   \<and> orderly False (server_trace ops' (server_new config' clock' now))"
  using client_quiet.role_trace_orderly[where lost = "\<lambda>op. fst op = CTransportClosed" and step = client_step
      and r = "client_new config clock i flow credentials" and ops = ops]
    server_quiet.role_trace_orderly[where lost = "\<lambda>op. fst op = STransportClosed" and step = server_step
      and r = "server_new config' clock' now" and ops = ops']
    client_step_calms client_gone server_step_calms server_gone
  by (simp add: client_trace_def server_trace_def client_new_def server_new_def core_new_def)

text \<open>
  A handshake between a client and a server over one transport: each hands the other what it sends, and
  the server's application accepts.
\<close>

fun sent_message :: "fixp_output \<Rightarrow> session_message option" where
  "sent_message (OutSend m) = Some m"
| "sent_message (OutSendApplication _ m) = Some m"
| "sent_message _ = None"

definition said :: "fixp_core \<Rightarrow> fixp_core \<Rightarrow> session_message list" where
  "said k k' = List.map_filter sent_message (drop (length (fc_outputs k)) (fc_outputs k'))"

definition client_hears :: "session_message list \<Rightarrow> instant \<Rightarrow> fixp_client \<Rightarrow> fixp_client" where
  "client_hears ms now = fold (\<lambda>m. client_handle_message m now) ms"

definition server_hears :: "session_message list \<Rightarrow> instant \<Rightarrow> fixp_server \<Rightarrow> fixp_server" where
  "server_hears ms now = fold (\<lambda>m. server_handle_message m now) ms"

text \<open>
  The instants of one exchange: the client asks, the server hears it, its application answers, and the
  client is told.  The client's instants and the server's are those of their own clocks.  Each side runs
  its timers before it takes a message, and the server before its answer; a client with nothing
  outstanding has none.
\<close>

record exchange =
  ex_asked :: instant
  ex_heard :: instant
  ex_answered :: instant
  ex_told :: instant

definition negotiation :: "flow_type \<Rightarrow> bytes option \<Rightarrow> exchange \<Rightarrow> fixp_client \<Rightarrow> fixp_server
    \<Rightarrow> (fixp_error + unit) list \<times> fixp_client \<times> fixp_server" where
  "negotiation flow credentials x c v =
    (case client_negotiate (ex_asked x) c of (asked, c1) \<Rightarrow>
     let v1 = server_hears (said (cl_core c) (cl_core c1)) (ex_heard x) (server_handle_timeout (ex_heard x) v);
         v2 = server_handle_timeout (ex_answered x) v1
     in case accept_negotiation flow credentials (ex_answered x) v2 of (answered, v3) \<Rightarrow>
     ([asked, answered],
      client_hears (said (sv_core v2) (sv_core v3)) (ex_told x) (client_handle_timeout (ex_told x) c1), v3))"

definition establishing :: "exchange \<Rightarrow> fixp_client \<Rightarrow> fixp_server \<Rightarrow> (fixp_error + unit) list \<times> fixp_client \<times> fixp_server" where
  "establishing x c v =
    (case client_establish (ex_asked x) c of (asked, c1) \<Rightarrow>
     let v1 = server_hears (said (cl_core c) (cl_core c1)) (ex_heard x) (server_handle_timeout (ex_heard x) v);
         v2 = server_handle_timeout (ex_answered x) v1
     in case accept_establishment (ex_answered x) v2 of (answered, v3) \<Rightarrow>
     ([asked, answered],
      client_hears (said (sv_core v2) (sv_core v3)) (ex_told x) (client_handle_timeout (ex_told x) c1), v3))"

definition handshake :: "flow_type \<Rightarrow> bytes option \<Rightarrow> exchange \<Rightarrow> exchange \<Rightarrow> fixp_client \<Rightarrow> fixp_server
    \<Rightarrow> (fixp_error + unit) list \<times> fixp_client \<times> fixp_server" where
  "handshake flow credentials n e c v =
    (case negotiation flow credentials n c v of (rs, c1, v1) \<Rightarrow>
     case establishing e c1 v1 of (rs', c2, v2) \<Rightarrow> (rs @ rs', c2, v2))"

text \<open>
  Nobody waits as long as a handshake timeout: the server for the message since \<open>since\<close>, its
  application with the answer, and the client for being told.
\<close>

definition prompt :: "duration \<Rightarrow> duration \<Rightarrow> instant \<Rightarrow> exchange \<Rightarrow> bool" where
  "prompt server_timeout client_timeout since x \<longleftrightarrow>
     \<not> elapsed since server_timeout (ex_heard x) \<and> \<not> elapsed (ex_heard x) server_timeout (ex_answered x)
     \<and> \<not> elapsed (ex_asked x) client_timeout (ex_told x)"

lemma session_new_simps [simp]:
  "se_id (session_new i lf rf) = i" "se_local_flow (session_new i lf rf) = lf" "se_remote_flow (session_new i lf rf) = rf"
  by (simp_all add: session_new_def)

lemma release_new [simp]: "release_binding_state (session_new i lf rf) = session_new i lf rf"
  by (simp add: release_binding_state_def session_new_def)

lemma fresh_established:
  "bi_state bi = BindEstablished \<Longrightarrow>
     on_established (if is_sequenced rf then Some 1 else None) now (joined k (session_new i lf rf) bi) =
       (Stay, joined k ((session_new i lf rf)\<lparr>se_start_pending := False\<rparr>) bi)"
  by (cases rf) (simp_all add: on_established_def on_next_seq_def cut_replay_def Let_def request_missing_def maybe_finish_receiving_def
      joined_def session_new_def with_session_def)

lemma said_simps [simp]:
  "said k (core_send m (k\<lparr>fc_clock := q\<rparr>)) = [m]" "said k (core_event e (core_send m k)) = [m]"
  by (simp_all add: said_def map_filter_def)

abbreviation the_client :: "session_id \<Rightarrow> flow_type \<Rightarrow> bytes option \<Rightarrow> fixp_core \<Rightarrow> client_state \<Rightarrow> fixp_client" where
  "the_client i flow credentials k st \<equiv>
    \<lparr>cl_core = k, cl_session_id = i, cl_flow = flow, cl_credentials = credentials, cl_state = st\<rparr>"

abbreviation the_server :: "fixp_core \<Rightarrow> server_state \<Rightarrow> fixp_server" where
  "the_server q st \<equiv> \<lparr>sv_core = q, sv_state = st\<rparr>"

definition ready_core :: "fixp_config \<Rightarrow> request_clock \<Rightarrow> fixp_core \<Rightarrow> bool" where
  "ready_core config clock k \<longleftrightarrow> \<not> fc_transport_closing k \<and> fc_config k = config \<and> fc_clock k = clock"

lemma ready_simps [simp]:
  "ready_core config clock (core_send m k) = ready_core config clock k" "ready_core config clock (core_event e k) = ready_core config clock k"
  "ready_core config clock (k\<lparr>fc_clock := clock'\<rparr>) \<longleftrightarrow> clock' = clock \<and> ready_core config (fc_clock k) k"
  by (auto simp: ready_core_def core_send_def core_event_def core_output_def)

text \<open>Before its deadline a timer does nothing.\<close>

lemma server_waits:
  assumes "ready_core config clock q"
  shows "\<not> elapsed since (cf_handshake_timeout config) now \<Longrightarrow>
      server_handle_timeout now (the_server q (SvAwaitingNegotiate since)) = the_server q (SvAwaitingNegotiate since)"
    "\<not> due d now \<Longrightarrow> server_handle_timeout now (the_server q (SvNegotiationPending i r f d)) = the_server q (SvNegotiationPending i r f d)"
    "\<not> due d now \<Longrightarrow> server_handle_timeout now (the_server q (SvNegotiated s d)) = the_server q (SvNegotiated s d)"
    "\<not> due d now \<Longrightarrow> server_handle_timeout now (the_server q (SvEstablishPending s r k x d)) = the_server q (SvEstablishPending s r k x d)"
  using assms by (simp_all add: server_handle_timeout_def Let_def server_moved_def server_config_def ready_core_def)

lemma client_waits:
  assumes "ready_core config clock k" and "\<not> elapsed sent_at (cf_handshake_timeout config) now"
  shows "client_handle_timeout now (the_client i flow cred k (ClNegotiating r sent_at)) = the_client i flow cred k (ClNegotiating r sent_at)"
    "client_handle_timeout now (the_client i flow cred k (ClEstablishing s r sent_at)) = the_client i flow cred k (ClEstablishing s r sent_at)"
  using assms by (simp_all add: client_handle_timeout_def Let_def client_moved_def client_config_def ready_core_def)

lemma negotiation_agrees:
  assumes clock: "nanotime_at clock (ex_asked x) = Inr t"
    and i: "\<not> session_id_is_nil i" and flows: "\<not> (cflow = FlowNone \<and> sflow = FlowNone)"
    and k: "ready_core cconfig \<lparr>rc_anchor = clock, rc_last = None\<rparr> k" and q: "ready_core sconfig sclock q"
    and prompt: "prompt (cf_handshake_timeout sconfig) (cf_handshake_timeout cconfig) since x"
  shows "\<exists>k' q'. negotiation sflow scred x (the_client i cflow ccred k ClIdle) (the_server q (SvAwaitingNegotiate since)) =
      ([Inr (), Inr ()], the_client i cflow ccred k' (ClNegotiated (session_new i cflow sflow)),
       the_server q' (SvNegotiated (session_new i sflow cflow) (instant_add (ex_answered x) (cf_handshake_timeout sconfig))))
    \<and> ready_core cconfig \<lparr>rc_anchor = clock, rc_last = Some t\<rparr> k' \<and> ready_core sconfig sclock q'"
proof -
  let ?n = "\<lparr>ng_session_id = i, ng_timestamp = t, ng_client_flow = cflow, ng_credentials = ccred\<rparr>"
  let ?r = "\<lparr>nr_session_id = i, nr_request_timestamp = t, nr_server_flow = sflow, nr_credentials = scred\<rparr>"
  let ?d = "instant_add (ex_heard x) (cf_handshake_timeout sconfig)"
  let ?d' = "instant_add (ex_answered x) (cf_handshake_timeout sconfig)"
  define k1 where "k1 = core_send (MNegotiate ?n) (k\<lparr>fc_clock := \<lparr>rc_anchor = clock, rc_last = Some t\<rparr>\<rparr>)"
  define q1 where "q1 = core_event (EvNegotiateReceived i cflow) q"
  define q2 where "q2 = core_event (EvNegotiated i cflow sflow) (core_send (MNegotiationResponse ?r) q1)"
  have ready: "ready_core cconfig \<lparr>rc_anchor = clock, rc_last = Some t\<rparr> k1" "ready_core sconfig sclock q1" "ready_core sconfig sclock q2"
    using k q by (simp_all add: k1_def q1_def q2_def) (simp add: ready_core_def)
  have 1: "client_negotiate (ex_asked x) (the_client i cflow ccred k ClIdle) = (Inr (), the_client i cflow ccred k1 (ClNegotiating t (ex_asked x)))"
    using k by (simp add: client_negotiate_def ready_core_def request_timestamp_def request_clock_next_def clock k1_def)
  have 2: "server_handle_message (MNegotiate ?n) (ex_heard x) (the_server q (SvAwaitingNegotiate since)) =
      the_server q1 (SvNegotiationPending i t cflow ?d)"
    using q by (simp add: server_handle_message_def ready_core_def server_on_handshake_def on_negotiate_def i server_moved_def server_core_def
      q1_def handshake_deadline_def server_config_def)
  have 3: "accept_negotiation sflow scred (ex_answered x) (the_server q1 (SvNegotiationPending i t cflow ?d)) =
      (Inr (), the_server q2 (SvNegotiated (session_new i sflow cflow) ?d'))"
    using flows ready(2) by (simp add: accept_negotiation_def server_core_def q2_def handshake_deadline_def server_config_def ready_core_def)
  have 4: "client_handle_message (MNegotiationResponse ?r) (ex_told x) (the_client i cflow ccred k1 (ClNegotiating t (ex_asked x))) =
      the_client i cflow ccred (core_event (EvNegotiated i cflow sflow) k1) (ClNegotiated (session_new i cflow sflow))"
    using flows ready(1) by (simp add: client_handle_message_def ready_core_def client_on_handshake_def client_on_negotiation_response_def
      client_moved_def client_core_def)
  have waits: "server_handle_timeout (ex_heard x) (the_server q (SvAwaitingNegotiate since)) = the_server q (SvAwaitingNegotiate since)"
    "server_handle_timeout (ex_answered x) (the_server q1 (SvNegotiationPending i t cflow ?d)) = the_server q1 (SvNegotiationPending i t cflow ?d)"
    "client_handle_timeout (ex_told x) (the_client i cflow ccred k1 (ClNegotiating t (ex_asked x))) =
      the_client i cflow ccred k1 (ClNegotiating t (ex_asked x))"
    using prompt server_waits(1)[OF q] server_waits(2)[OF ready(2)] client_waits(1)[OF ready(1)] by (simp_all add: prompt_def elapsed_def)
  have "said k k1 = [MNegotiate ?n]" "said q1 q2 = [MNegotiationResponse ?r]" by (simp_all add: k1_def q2_def)
  then show ?thesis
    using ready by (auto simp: negotiation_def 1 2 3 4 waits client_hears_def server_hears_def)
qed

text \<open>Both bind the session they negotiated, and number from 1.\<close>

definition bound_new :: "session_id \<Rightarrow> flow_type \<Rightarrow> flow_type \<Rightarrow> fixp_session" where
  "bound_new i lf rf = (session_new i lf rf)\<lparr>se_start_pending := False\<rparr>"

definition binding_new :: "instant \<Rightarrow> duration \<Rightarrow> u32 \<Rightarrow> binding" where
  "binding_new now keepalive millis = fst (session_bind now keepalive (from_millis (ucast millis)) (session_new [] FlowNone FlowNone))"

lemma bound_new_simps [simp]:
  "se_id (bound_new i lf rf) = i" "se_local_flow (bound_new i lf rf) = lf" "se_remote_flow (bound_new i lf rf) = rf"
  "next_inbound_seq (bound_new i lf rf) = next_outbound_seq (bound_new i rf lf)"
  "bi_state (binding_new now keepalive millis) = BindEstablished"
  "bi_remote_keepalive (binding_new now keepalive millis) = from_millis (ucast millis)"
  by (simp_all add: bound_new_def binding_new_def session_bind_def session_new_def next_inbound_seq_def next_outbound_seq_def)

lemma bind_new: "session_bind now keepalive (from_millis (ucast millis)) (session_new i lf rf) = (binding_new now keepalive millis, session_new i lf rf)"
  by (simp add: binding_new_def session_bind_def)

lemma bound_fresh:
  "on_established (if is_sequenced rf then Some 1 else None) now (joined k (session_new i lf rf) (binding_new now' keepalive millis)) =
     (Stay, joined k (bound_new i lf rf) (binding_new now' keepalive millis))"
  by (simp add: fresh_established bound_new_def binding_new_def session_bind_def)

lemma establishing_agrees:
  assumes clock: "nanotime_at clock (ex_asked x) = Inr u" "t < u \<or> unat t + 1 < 2 ^ 64"
    and k: "ready_core cconfig \<lparr>rc_anchor = clock, rc_last = Some t\<rparr> k" and q: "ready_core sconfig sclock q"
    and keepalive: "accepts_peer_keepalive sconfig (cf_keepalive_millis cconfig)" "accepts_peer_keepalive cconfig (cf_keepalive_millis sconfig)"
    and prompt: "prompt (cf_handshake_timeout sconfig) (cf_handshake_timeout cconfig) since x"
  shows "\<exists>k' q'. establishing x (the_client i cflow ccred k (ClNegotiated (session_new i cflow sflow)))
        (the_server q (SvNegotiated (session_new i sflow cflow) (instant_add since (cf_handshake_timeout sconfig)))) =
      ([Inr (), Inr ()],
       the_client i cflow ccred k' (ClBound (bound_new i cflow sflow)
         (binding_new (ex_told x) (cf_keepalive_interval cconfig) (cf_keepalive_millis sconfig))),
       the_server q' (SvBound (bound_new i sflow cflow)
         (binding_new (ex_answered x) (cf_keepalive_interval sconfig) (cf_keepalive_millis cconfig))))"
proof -
  define stamp where "stamp = (if t < u then u else t + 1)"
  let ?next = "\<lambda>flow. if is_sequenced flow then Some (1::u64) else None"
  let ?e = "\<lparr>es_session_id = i, es_timestamp = stamp, es_keepalive_interval = cf_keepalive_millis cconfig,
      es_next_seq_no = ?next cflow, es_credentials = ccred\<rparr>"
  let ?a = "\<lparr>ea_session_id = i, ea_request_timestamp = stamp, ea_keepalive_interval = cf_keepalive_millis sconfig, ea_next_seq_no = ?next sflow\<rparr>"
  let ?s = "session_new i cflow sflow" and ?s' = "session_new i sflow cflow"
  let ?d = "instant_add since (cf_handshake_timeout sconfig)" and ?d' = "instant_add (ex_heard x) (cf_handshake_timeout sconfig)"
  have ann: "announced_next_seq (session_new i lf rf) = ?next lf" for lf rf by (simp add: announced_next_seq_def session_new_def)
  have stamped: "request_clock_next (ex_asked x) \<lparr>rc_anchor = clock, rc_last = Some t\<rparr> = (Inr stamp, \<lparr>rc_anchor = clock, rc_last = Some stamp\<rparr>)"
    using clock by (auto simp: request_clock_next_def stamp_def checked_add_def not_less)
  define k1 where "k1 = core_send (MEstablish ?e) (k\<lparr>fc_clock := \<lparr>rc_anchor = clock, rc_last = Some stamp\<rparr>\<rparr>)"
  define q1 where "q1 = core_event (EvEstablishReceived i (from_millis (ucast (cf_keepalive_millis cconfig))) (?next cflow)) q"
  define q2 where "q2 = core_event (EvEstablished (from_millis (ucast (cf_keepalive_millis cconfig))) (?next cflow))
      (core_send (MEstablishmentAck ?a) q1)"
  have ready: "ready_core cconfig \<lparr>rc_anchor = clock, rc_last = Some stamp\<rparr> k1" "ready_core sconfig sclock q1"
    using k q by (simp_all add: k1_def q1_def) (simp add: ready_core_def)
  have 1: "client_establish (ex_asked x) (the_client i cflow ccred k (ClNegotiated ?s)) =
      (Inr (), the_client i cflow ccred k1 (ClEstablishing ?s stamp (ex_asked x)))"
    using k by (simp add: client_establish_def ready_core_def request_timestamp_def stamped k1_def ann)
  have 2: "server_handle_message (MEstablish ?e) (ex_heard x) (the_server q (SvNegotiated ?s' ?d)) =
      the_server q1 (SvEstablishPending ?s' stamp (cf_keepalive_millis cconfig) (?next cflow) ?d')"
    using keepalive(1) q
    by (simp add: server_handle_message_def ready_core_def server_on_handshake_def on_establish_def on_establish_negotiated_def Let_def
      server_config_def session_new_def regresses_def handshake_deadline_def server_moved_def server_core_def q1_def)
  have 3: "accept_establishment (ex_answered x) (the_server q1 (SvEstablishPending ?s' stamp (cf_keepalive_millis cconfig) (?next cflow) ?d')) =
      (Inr (), the_server q2 (SvBound (bound_new i sflow cflow)
        (binding_new (ex_answered x) (cf_keepalive_interval sconfig) (cf_keepalive_millis cconfig))))"
    using ready(2)
    by (simp add: accept_establishment_def Let_def server_config_def ready_core_def bind_new ann bound_fresh q2_def split del: if_split)
  have 4: "\<exists>k'. client_handle_message (MEstablishmentAck ?a) (ex_told x) (the_client i cflow ccred k1 (ClEstablishing ?s stamp (ex_asked x))) =
      the_client i cflow ccred k' (ClBound (bound_new i cflow sflow)
        (binding_new (ex_told x) (cf_keepalive_interval cconfig) (cf_keepalive_millis sconfig)))"
    using keepalive(2) ready(1)
    by (simp add: client_handle_message_def client_on_handshake_def client_on_establishment_ack_def Let_def client_config_def ready_core_def
      bind_new bound_fresh client_moved_def split del: if_split)
  have waits: "server_handle_timeout (ex_heard x) (the_server q (SvNegotiated ?s' ?d)) = the_server q (SvNegotiated ?s' ?d)"
    "server_handle_timeout (ex_answered x) (the_server q1 (SvEstablishPending ?s' stamp (cf_keepalive_millis cconfig) (?next cflow) ?d')) =
      the_server q1 (SvEstablishPending ?s' stamp (cf_keepalive_millis cconfig) (?next cflow) ?d')"
    "client_handle_timeout (ex_told x) (the_client i cflow ccred k1 (ClEstablishing ?s stamp (ex_asked x))) =
      the_client i cflow ccred k1 (ClEstablishing ?s stamp (ex_asked x))"
    using prompt server_waits(3)[OF q] server_waits(4)[OF ready(2)] client_waits(2)[OF ready(1)] by (simp_all add: prompt_def elapsed_def)
  have "said k k1 = [MEstablish ?e]" "said q1 q2 = [MEstablishmentAck ?a]" by (simp_all add: k1_def q2_def)
  then show ?thesis
    using 4 by (auto simp: establishing_def 1 2 3 waits client_hears_def server_hears_def)
qed

text \<open>
  C12. A handshake connects.  A new client and a server made at \<open>made\<close> run their exchanges \<open>n\<close> and \<open>e\<close>,
  every step at an instant of its own and with each side's timers run before it.  Given a session
  identifier that is not nil, at least one flow, keepalive intervals acceptable to each other, no wait of a
  handshake timeout or more, and a client clock that gives a timestamp for both requests (its reading at the
  Establish is later than the Negotiate's, or the timestamp after the Negotiate's exists), every command
  succeeds and both end established on the same session, each with the other's flow and keepalive interval,
  and each expecting the number the other will use next.
\<close>

theorem handshake_connects:
  assumes clock: "nanotime_at clock (ex_asked n) = Inr t" "nanotime_at clock (ex_asked e) = Inr u" "t < u \<or> unat t + 1 < 2 ^ 64"
    and i: "\<not> session_id_is_nil i" and flows: "\<not> (cflow = FlowNone \<and> sflow = FlowNone)"
    and keepalive: "accepts_peer_keepalive sconfig (cf_keepalive_millis cconfig)" "accepts_peer_keepalive cconfig (cf_keepalive_millis sconfig)"
    and prompt: "prompt (cf_handshake_timeout sconfig) (cf_handshake_timeout cconfig) made n"
      "prompt (cf_handshake_timeout sconfig) (cf_handshake_timeout cconfig) (ex_answered n) e"
  shows "\<exists>c v s b s' b'. handshake sflow scred n e (client_new cconfig clock i cflow ccred) (server_new sconfig sclock made) =
      ([Inr (), Inr (), Inr (), Inr ()], c, v)
    \<and> cl_state c = ClBound s b \<and> sv_state v = SvBound s' b'
    \<and> bi_state b = BindEstablished \<and> bi_state b' = BindEstablished
    \<and> se_id s = i \<and> se_id s' = i
    \<and> se_local_flow s = cflow \<and> se_remote_flow s' = cflow \<and> se_local_flow s' = sflow \<and> se_remote_flow s = sflow
    \<and> next_inbound_seq s = next_outbound_seq s' \<and> next_inbound_seq s' = next_outbound_seq s
    \<and> bi_remote_keepalive b = from_millis (ucast (cf_keepalive_millis sconfig))
    \<and> bi_remote_keepalive b' = from_millis (ucast (cf_keepalive_millis cconfig))"
proof -
  let ?k = "core_new cconfig \<lparr>rc_anchor = clock, rc_last = None\<rparr>" and ?q = "core_new sconfig \<lparr>rc_anchor = sclock, rc_last = None\<rparr>"
  have ready: "ready_core cconfig \<lparr>rc_anchor = clock, rc_last = None\<rparr> ?k" "ready_core sconfig \<lparr>rc_anchor = sclock, rc_last = None\<rparr> ?q"
    by (simp_all add: ready_core_def core_new_def)
  obtain k q where 1: "negotiation sflow scred n (the_client i cflow ccred ?k ClIdle) (the_server ?q (SvAwaitingNegotiate made)) =
      ([Inr (), Inr ()], the_client i cflow ccred k (ClNegotiated (session_new i cflow sflow)),
       the_server q (SvNegotiated (session_new i sflow cflow) (instant_add (ex_answered n) (cf_handshake_timeout sconfig))))"
    and kq: "ready_core cconfig \<lparr>rc_anchor = clock, rc_last = Some t\<rparr> k" "ready_core sconfig \<lparr>rc_anchor = sclock, rc_last = None\<rparr> q"
    using negotiation_agrees[OF clock(1) i flows ready prompt(1)] by blast
  show ?thesis
    using establishing_agrees[OF clock(2,3) kq keepalive prompt(2), of i cflow ccred sflow]
    by (auto simp: handshake_def client_new_def server_new_def 1 simp del: bound_new_simps(4))
       (simp_all only: bound_new_simps(4))
qed

text \<open>Both clocks move at every step, the server's a little behind.\<close>

theorem handshake_connects_witness:
  "\<exists>c v s b s' b'. handshake FlowRecoverable None
      \<lparr>ex_asked = 3, ex_heard = 4, ex_answered = 6, ex_told = 9\<rparr> \<lparr>ex_asked = 11, ex_heard = 10, ex_answered = 12, ex_told = 20\<rparr>
      (client_new fixp_config_default \<lparr>ca_instant = 0, ca_wall = 7\<rparr> [1] FlowIdempotent None)
      (server_new fixp_config_default \<lparr>ca_instant = 0, ca_wall = 9\<rparr> 2) = ([Inr (), Inr (), Inr (), Inr ()], c, v)
    \<and> cl_state c = ClBound s b \<and> sv_state v = SvBound s' b' \<and> se_remote_flow s' = FlowIdempotent
    \<and> next_inbound_seq s = next_outbound_seq s'"
proof -
  let ?n = "\<lparr>ex_asked = 3, ex_heard = 4, ex_answered = 6, ex_told = 9\<rparr>"
  let ?e = "\<lparr>ex_asked = 11, ex_heard = 10, ex_answered = 12, ex_told = 20\<rparr>"
  let ?T = "cf_handshake_timeout fixp_config_default"
  have clock: "nanotime_at \<lparr>ca_instant = 0, ca_wall = 7\<rparr> (ex_asked ?n) = Inr 10"
    "nanotime_at \<lparr>ca_instant = 0, ca_wall = 7\<rparr> (ex_asked ?e) = Inr 18" "(10::u64) < 18 \<or> unat (10::u64) + 1 < 2 ^ 64"
    by (simp_all add: nanotime_at_def duration_since_def checked_add_def)
  have nil: "\<not> session_id_is_nil [1]" "\<not> (FlowIdempotent = FlowNone \<and> FlowRecoverable = FlowNone)"
    by (simp_all add: session_id_is_nil_def)
  have keepalive: "accepts_peer_keepalive fixp_config_default (cf_keepalive_millis fixp_config_default)"
    by (simp add: accepts_peer_keepalive_def fixp_config_default_def from_millis_def from_secs_def NANOS_def)
  have prompt: "prompt ?T ?T 2 ?n" "prompt ?T ?T (ex_answered ?n) ?e"
    by (simp_all add: prompt_def elapsed_def due_def instant_add_def fixp_config_default_def from_millis_def from_secs_def NANOS_def)
  show ?thesis
    using handshake_connects[OF clock nil keepalive keepalive prompt, of None None "\<lparr>ca_instant = 0, ca_wall = 9\<rparr>"]
    by fastforce
qed

end
