(* ===== verification/Spec2Isabelle.thy ===== *)
theory Spec2Isabelle
  imports Tag_Value_Properties Session_Properties Wire_Properties Store_Properties Store_File_Properties Store_Reply Fixp_Properties Fixp_Role_Properties
begin

text \<open>
  A verification of IronFix, a FIX protocol engine in Rust.  The development models the parts of the
  workspace that decide what happens on a session and on the wire, and proves what makes them correct.
  This theory imports all others and says what they hold.

  \<^bold>\<open>The program.\<close>  A byte stream from a counterparty is cut into frames by the stream codec
  (\<^verbatim>\<open>ironfix-transport/src/codec.rs\<close>); a frame is decoded into fields
  (\<^verbatim>\<open>ironfix-tagvalue/src/decoder.rs\<close>); the session layer (\<^verbatim>\<open>ironfix-session/src\<close>) checks its
  header, decides by sequence number whether it is taken, held above a gap, skipped or answered by a
  ResendRequest, keeps heartbeats and logout going and answers a ResendRequest from what was sent
  before; what is sent is built by the encoder (\<^verbatim>\<open>ironfix-tagvalue/src/encoder.rs\<close>), let out by a
  throttle and filed in a message store (\<^verbatim>\<open>ironfix-store/src\<close>), in memory or in a journal file that
  one writer thread owns.  Two more wire layers stand beside it: the Simple Open Framing Header
  (\<^verbatim>\<open>ironfix-sofh\<close>) and the FAST field encodings (\<^verbatim>\<open>ironfix-fast\<close>).  FIXP (\<^verbatim>\<open>ironfix-fixp\<close>) is a session layer of its own, whose
  messages carry no numbers.

  \<^bold>\<open>Shared ground.\<close>  \<open>Prelude\<close>: machine types (\<open>u8\<close> to \<open>u64\<close> are words, \<open>usize\<close> and file
  positions are naturals with Rust's bounds written out at every checked operation), \<^verbatim>\<open>Result\<close> as a
  sum with the error on the left, methods on \<^verbatim>\<open>&mut self\<close> as functions \<open>('s, 'e, 'a) fallible\<close> that
  return the state on failure too.  \<open>Std_Model\<close>: \<^verbatim>\<open>Duration\<close>, \<^verbatim>\<open>Instant\<close> and \<^verbatim>\<open>BTreeMap\<close>, the last
  with its laws as the locale \<open>ordered_map\<close>.  \<open>Externs\<close>: the two third-party functions the tag=value
  code calls, \<^verbatim>\<open>memchr\<close> and \<^verbatim>\<open>itoa\<close>, as arguments whose documented behaviour is the hypothesis
  \<open>memchr_law\<close> and \<open>itoa_law\<close>; both are interpreted on concrete functions.  \<open>Fix_Core\<close> and
  \<open>Fix_Types\<close>: message types with their code table, raw messages, versions, identifiers, timestamps
  and sides of \<^verbatim>\<open>ironfix-core\<close>.

  \<^bold>\<open>Tag=value\<close> (\<^verbatim>\<open>ironfix-tagvalue/src\<close>).  \<open>Wire_Syntax\<close> holds checksum and number parsing and the
  LENGTH/DATA tables, \<open>Encoder\<close> and \<open>Decoder\<close> the two codecs with their states.  \<open>Decoder_Spec\<close> says
  without the decoder what a well-formed frame is; \<open>Decoder_Correct\<close> proves that exactly those are
  accepted, \<open>Encoder_Correct\<close> that a frame is a function of the fields written,
  over many messages from one encoder too, \<open>Tag_Value_Roundtrip\<close>
  that each undoes the other, \<open>Decoder_Sinks\<close> that the bounded field index sees what the growing list
  sees (the locale \<open>field_sink\<close>, interpreted on both).  Properties are in \<open>Tag_Value_Properties\<close>.

  \<^bold>\<open>Sessions\<close> (\<^verbatim>\<open>ironfix-session/src\<close>), one theory for each file: \<open>Session_Sequence\<close>,
  \<open>Session_Heartbeat\<close>, \<open>Session_Inbound\<close> (\<^verbatim>\<open>sans_io.rs\<close>), \<open>Session_Gap_Queue\<close>, \<open>Session_Config\<close>,
  \<open>Session_State\<close>, \<open>Session_Replay\<close>, \<open>Session_Throttle\<close>, \<open>Session_Core\<close>, \<open>Session_Logon\<close> and
  \<open>Session_Header\<close>.  State machines are step relations with invariants by rule induction
  (\<open>Session_State\<close>, \<open>Session_Core_Inv\<close>, which also has the driver's chase of an open gap
  over the core, at any pace of ticks).  \<open>Throttle_Runs\<close> and \<open>Throttle_Fifo\<close> relate the throttle to
  a token account per budget and to a queue per budget; \<open>Session_Replay\<close> relates the replay machine to
  the tiling of the asked range.  Its fuel counts polls: one for each page the store can have below the
  end and two more are enough, and that is proved.  Properties are in \<open>Session_Properties\<close>.

  \<^bold>\<open>Streams\<close>.  \<open>Transport_Codec\<close> is the stream codec, with garbled-frame recovery; \<open>Sofh\<close> the framing
  header.  The locale \<open>frame_stream\<close> (\<open>Stream_Law\<close>) has the contract of a framing decoder over a
  growing buffer and the proof that frames are delivered however the transport cuts them.
  \<open>Transport_Stream\<close> and \<open>Transport_Recovery\<close> carry that through to decoded
  messages.  \<open>Fast_Codec\<close>, \<open>Fast_Presence\<close>, \<open>Fast_Fields\<close> and \<open>Fast_Dictionary\<close> model
  \<^verbatim>\<open>ironfix-fast\<close>; the locale \<open>field_codec\<close> (\<open>Codec_Law\<close>) lifts a round trip of one field to any
  sequence of fields, \<open>Fast_Integers\<close> has the exact language of stop-bit integers.  Properties are in
  \<open>Wire_Properties\<close>.

  \<^bold>\<open>Stores\<close> (\<^verbatim>\<open>ironfix-store/src\<close>).  \<open>Message_Store\<close> has the contract of a store as the locale
  \<open>message_store\<close>, its default methods and the memory store; \<open>Store_Contract\<close> interprets the same
  locale on the file store.  The journal: \<open>Store_Crc\<close>, \<open>Store_Index\<close> (with \<open>Store_Index_Map\<close>: it is a
  finite map), \<open>Store_Format\<close> (with \<open>Store_Records\<close>: what is written is read back) and \<open>Store_Scan\<close>
  with its laws (\<open>Store_Scan_Law\<close>, \<open>Store_Recovery\<close>, \<open>Store_Written\<close>): which bytes a recovery scan accepts and what it makes of them.  \<open>Store_Disk\<close> is the
  file system the journal works on: a schedule decides which calls fail and how much of a failed write
  was written.  \<open>Store_Journal\<close> is the open journal with every command (\<^verbatim>\<open>file.rs\<close>), and
  \<open>Store_Journal_Inv\<close> the invariant \<open>journal_ok\<close> that ties its memory to its file; it holds through
  every command on every schedule (\<open>Store_Journal_Steps\<close>, \<open>_Calls\<close>, \<open>_Compact\<close>, \<open>_Reload\<close>, \<open>_Owed\<close>).  \<open>Store_Writer\<close> is the writer thread over it (\<^verbatim>\<open>file/writer.rs\<close>) and
  \<open>Store_Served\<close> the simulation that relates it to the store its callers see, the step relation
  \<open>store_step\<close>.  \<open>Store_Calm\<close> shows that on a disk that does not fail a store opens, files and reads.
  \<open>Store_Reply\<close> is the exchange of calls and answers between callers and the thread, as steps in any
  interleaving.  Properties are in \<open>Store_Properties\<close>, \<open>Store_File_Properties\<close> and \<open>Store_Reply\<close>.

  \<^bold>\<open>FIXP sessions\<close> (\<^verbatim>\<open>ironfix-fixp/src\<close>).  \<open>Fixp_Types\<close> has the values, messages, outputs,
  configuration and clock, \<open>Fixp_Session\<close> the session machine (\<^verbatim>\<open>session.rs\<close>): a \<open>bound_session\<close> is the
  core, the session and the binding a handler borrows, and each handler returns it with whether the
  binding stays.  \<open>Fixp_Recovery\<close> says what the recovery state means: the numbers awaited and the
  numbers settled; \<open>Fixp_Handlers\<close> gives for every operation
  the numbers it settles, and \<open>Fixp_Runs\<close> lifts that to runs over any number of transports.
  \<open>Fixp_Wire\<close> has the count the counterparty keeps, and what a run puts on the wire;
  \<open>Fixp_Asking\<close> shows that recovery does not idle.  \<open>Fixp_Roles\<close> has the client (\<^verbatim>\<open>client.rs\<close>), the server
  (\<^verbatim>\<open>server.rs\<close>) and the operations both share, written once in the code as a macro (\<^verbatim>\<open>role.rs\<close>)
  and here over a record of a role's methods.  \<open>Fixp_Role_Law\<close> states what the shared operations rely
  on as the locales \<open>session_role\<close> and \<open>quiet_role\<close>; \<open>Fixp_Role_Properties\<close> interprets both on the client
  and on the server and follows whole roles: what they deliver, that nothing is sent once the transport
  is asked to be closed, and that a handshake, each step at its own instant, connects the two.  Properties are in \<open>Fixp_Properties\<close>
  and \<open>Fixp_Role_Properties\<close>.

  \<^bold>\<open>Interfaces.\<close>  Every locale is interpreted on the code's model: \<open>ordered_map\<close> on the list model of
  \<^verbatim>\<open>BTreeMap\<close>, \<open>field_sink\<close> and \<open>sink_decoding\<close> on the vector and the bounded index, \<open>frame_stream\<close>
  on the framing header, \<open>field_codec\<close> on the FAST fields, \<open>keyed_values\<close> on the dictionaries of both
  FAST sides, \<open>message_store\<close> on the memory store and on the journal.

  \<^bold>\<open>Conventions.\<close>  Containers are lists or partial functions; a map that is walked in order is an
  ordered association list.  A closure the code passes in is the answer it gives, as an argument.
  Atomics and locks are a sequence of operations: each method is one step, as their ordering makes it
  for concurrent callers.  Durations are naturals in nanoseconds.  The text of an error is dropped where the
  code only prints it; which error is returned, with its numbers, is kept.  Loops are structural
  recursion or recursion with a measure, proved to end; the one fuel is that of \<open>answer\<close> above.

  \<^bold>\<open>Bounds.\<close>  Lengths and file positions stay below \<open>usize_max\<close>, \<open>2 ^ 64 - 1\<close>, where the code checks
  them; the cap of 64 idle reply cells is taken as the capacity the pool reserves.  Sequence numbers are
  64-bit words, and every property that needs one not to wrap says so.

  \<^bold>\<open>Not modelled.\<close>
  \<^item> Panics, \<^verbatim>\<open>debug_assert\<close> and logging; the arms of the writer thread that catch a panic.
  \<^item> Allocation: buffer pools, reserved capacities, the reuse of field vectors.
  \<^item> The directories, the lock file and the names of the file store, and which bytes an operating
    system keeps that were never flushed: the disk model keeps what was written, and what follows the
    durable boundary is treated as arbitrary in \<open>Store_Properties\<close>.
  \<^item> Wakers, joins and the scheduling of the writer thread beyond the interleavings of \<open>Store_Reply\<close>.
  \<^item> The asynchronous engine (\<^verbatim>\<open>ironfix-engine\<close>): tasks, sockets, timers and TLS on tokio around the
    session core.  The decisions it takes are those of the session crate, which are modelled.
  \<^item> The FIXP codec, which encodes through the third-party \<^verbatim>\<open>ironsbe_core\<close>.
  \<^item> The dictionary crate: XML loaders over \<^verbatim>\<open>roxmltree\<close>, schema, groups and the message validator.
  \<^item> \<^verbatim>\<open>ironfix-codegen\<close> and \<^verbatim>\<open>ironfix-derive\<close>: they build Rust source text through \<^verbatim>\<open>quote\<close> and \<^verbatim>\<open>syn\<close>,
    whose meaning is that of a Rust compiler.
  \<^item> Serialisation through \<^verbatim>\<open>serde\<close>, \<^verbatim>\<open>Display\<close> and \<^verbatim>\<open>Debug\<close> texts, the examples and the tests.
\<close>

end
